(* ===== verification/C_Prelude.thy ===== *)
theory C_Prelude
  imports Main "HOL-Library.Word" "HOL-Library.Monad_Syntax"
begin

text \<open>
  Shared vocabulary of the development: the fixed-width integer types of the C code, byte
  arrays with bounds-checked access (an access outside the array is the value \<open>None\<close>, so
  that memory safety is a provable statement and not an assumption), and the generic lemmas
  about lists and machine words the component theories have in common.
\<close>

unbundle bit_operations_syntax

section \<open>Types\<close>

type_synonym u8 = "8 word"
type_synonym u16 = "16 word"
type_synonym u32 = "32 word"

section \<open>Arrays with checked access\<close>

text \<open>
  \<open>rd m i\<close> and \<open>wr m i x\<close> are \<open>m[i]\<close> and \<open>m[i] = x\<close>; \<open>rd_blk\<close> and \<open>wr_blk\<close> are
  the two halves of \<open>memcpy\<close>. All four are \<open>None\<close> when the access leaves the array.
\<close>

definition rd :: "'a list \<Rightarrow> nat \<Rightarrow> 'a option" where
  "rd m i = (if i < length m then Some (m ! i) else None)"

definition wr :: "'a list \<Rightarrow> nat \<Rightarrow> 'a \<Rightarrow> 'a list option" where
  "wr m i x = (if i < length m then Some (m[i := x]) else None)"

definition rd_blk :: "'a list \<Rightarrow> nat \<Rightarrow> nat \<Rightarrow> 'a list option" where
  "rd_blk m i n = (if i + n \<le> length m then Some (take n (drop i m)) else None)"

definition blit :: "'a list \<Rightarrow> nat \<Rightarrow> 'a list \<Rightarrow> 'a list" where
  "blit m i xs = take i m @ xs @ drop (i + length xs) m"

definition wr_blk :: "'a list \<Rightarrow> nat \<Rightarrow> 'a list \<Rightarrow> 'a list option" where
  "wr_blk m i xs = (if i + length xs \<le> length m then Some (blit m i xs) else None)"

named_theorems mem_simps \<open>successful array accesses\<close>

lemma rd_Some [mem_simps]: "i < length m \<Longrightarrow> rd m i = Some (m ! i)"
  by (simp add: rd_def)

lemma wr_Some [mem_simps]: "i < length m \<Longrightarrow> wr m i x = Some (m[i := x])"
  by (simp add: wr_def)

lemma rd_blk_Some [mem_simps]: "i + n \<le> length m \<Longrightarrow> rd_blk m i n = Some (take n (drop i m))"
  by (simp add: rd_blk_def)

lemma wr_blk_Some [mem_simps]: "i + length xs \<le> length m \<Longrightarrow> wr_blk m i xs = Some (blit m i xs)"
  by (simp add: wr_blk_def)

lemma wr_length: "wr m i x = Some m' \<Longrightarrow> length m' = length m"
  by (auto simp: wr_def split: if_splits)

lemma length_blit [simp]: "i + length xs \<le> length m \<Longrightarrow> length (blit m i xs) = length m"
  by (simp add: blit_def)

lemma wr_blk_length: "wr_blk m i xs = Some m' \<Longrightarrow> length m' = length m"
  by (auto simp: wr_blk_def split: if_splits)

lemma blit_nil [simp]: "blit m i [] = m"
  by (simp add: blit_def)

lemma nth_blit:
  "i + length xs \<le> length m \<Longrightarrow> j < length m \<Longrightarrow>
   blit m i xs ! j = (if i \<le> j \<and> j < i + length xs then xs ! (j - i) else m ! j)"
  by (auto simp: blit_def nth_append min_def)

lemma take_blit: "k \<le> i \<Longrightarrow> i \<le> length m \<Longrightarrow> take k (blit m i xs) = take k m"
  by (simp add: blit_def min_def)

lemma drop_blit: "i + length xs \<le> k \<Longrightarrow> i + length xs \<le> length m \<Longrightarrow> drop k (blit m i xs) = drop k m"
  by (simp add: blit_def)

lemma take_drop_blit_same:
  "i + length xs \<le> length m \<Longrightarrow> take (length xs) (drop i (blit m i xs)) = xs"
  by (simp add: blit_def)

lemma blit_blit_append:
  "i + length xs + length ys \<le> length m \<Longrightarrow>
   blit (blit m i xs) (i + length xs) ys = blit m i (xs @ ys)"
  by (cases xs) (auto simp: blit_def min_def ac_simps)

section \<open>Machine words\<close>

lemma unat_add_small:
  fixes a b :: "'a::len word"
  assumes "unat a + unat b < 2 ^ LENGTH('a)"
  shows "unat (a + b) = unat a + unat b"
  using assms by (simp add: unat_word_ariths)

lemma unat_sub_le: "b \<le> a \<Longrightarrow> unat (a - b) = unat a - unat b"
  for a b :: "'a::len word"
  by (rule unat_sub)

lemma unat_pos: "(a :: 'a::len word) \<noteq> 0 \<Longrightarrow> 0 < unat a"
  by (simp add: unat_gt_0)

lemma unat_one_le: "(a :: 'a::len word) \<noteq> 0 \<Longrightarrow> (1::'a word) \<le> a"
  by (metis word_gt_0 inc_le add_0_left)

lemma unat_of_nat32: "n \<le> 2 ^ 31 \<Longrightarrow> unat (of_nat n :: u32) = n"
  by (simp add: unat_of_nat take_bit_nat_def)

lemma eq_of_nat32: "n \<le> 2 ^ 31 \<Longrightarrow> unat x = n \<Longrightarrow> x = of_nat n" for x :: u32
  by (simp add: word_unat_eq_iff unat_of_nat32)

lemma unat_of_nat_mod32: "0 < unat s \<Longrightarrow> unat s \<le> 2 ^ 31 \<Longrightarrow>
    unat (of_nat (x mod unat s) :: u32) = x mod unat s" for s :: u32
  by (intro unat_of_nat32) (meson less_imp_le mod_less_divisor order_trans)

lemma of_nat_mod_less32: "0 < unat s \<Longrightarrow> unat s \<le> 2 ^ 31 \<Longrightarrow> (of_nat (x mod unat s) :: u32) < s"
  for s :: u32
  by (simp add: word_less_nat_alt unat_of_nat_mod32)

lemma unat_of_nat_lt: "n < 2 ^ 32 \<Longrightarrow> unat (of_nat n :: u32) = n"
  by (simp add: unat_of_nat take_bit_nat_def)

lemma unat_of_nat_lt16: "n < 2 ^ 16 \<Longrightarrow> unat (of_nat n :: u16) = n"
  by (simp add: unat_of_nat take_bit_nat_def)

lemma bit_FF: "bit (0xFF :: 'a::len word) n \<longleftrightarrow> n < 8 \<and> n < LENGTH('a)"
proof -
  have e: "(0xFF :: 'a word) = mask 8" by (simp add: mask_eq_exp_minus_1)
  show ?thesis unfolding e by (auto simp: bit_mask_iff possible_bit_word)
qed

lemma bit_FF_int: "bit (0xFF :: int) n \<longleftrightarrow> n < 8"
proof -
  have e: "(0xFF :: int) = mask 8" by (simp add: mask_eq_exp_minus_1)
  show ?thesis unfolding e by (simp add: bit_mask_iff)
qed

lemma unat_ucast8: "8 \<le> LENGTH('a) \<Longrightarrow> unat (ucast b :: 'a::len word) = unat b" for b :: u8
proof -
  assume a: "8 \<le> LENGTH('a)"
  have "unat b < 2 ^ 8" using unsigned_less[of b] by simp
  also have "(2::nat) ^ 8 \<le> 2 ^ LENGTH('a)" using a by (rule power_increasing) simp
  finally show ?thesis by (simp add: unsigned_ucast_eq take_bit_nat_eq_self)
qed

lemma unat_u8 [simp]: "unat b < 256" for b :: u8
  using unsigned_less[of b] by simp

lemma unat_and_FF: "unat (x AND 0xFF) < 256" for x :: "'a::len word"
proof -
  have e: "(0xFF :: 'a word) = mask 8" by (simp add: mask_eq_exp_minus_1)
  have "x AND 0xFF = take_bit 8 x" unfolding e by (simp add: take_bit_eq_mask)
  moreover have "unat (take_bit 8 x) = take_bit 8 (unat x)" by (simp add: unsigned_take_bit_eq)
  moreover have "take_bit 8 (unat x) < 2 ^ 8" by (rule take_bit_nat_less_exp)
  ultimately show ?thesis by simp
qed

section \<open>Words in memory\<close>

text \<open>Four bytes of a little-endian word.\<close>

definition le32 :: "u8 list \<Rightarrow> nat \<Rightarrow> u32" where
  "le32 h i = ucast (h ! i) OR push_bit 8 (ucast (h ! (i + 1))) OR push_bit 16 (ucast (h ! (i + 2)))
     OR push_bit 24 (ucast (h ! (i + 3)))"

definition put_le32 :: "u32 \<Rightarrow> u8 list" where
  "put_le32 x = [ucast x, ucast (drop_bit 8 x), ucast (drop_bit 16 x), ucast (drop_bit 24 x)]"

lemma bytes_of_u32:
  fixes x :: u32
  shows "(ucast (ucast x :: u8) :: u32) OR push_bit 8 (ucast (ucast (drop_bit 8 x) :: u8))
      OR push_bit 16 (ucast (ucast (drop_bit 16 x) :: u8)) OR push_bit 24 (ucast (ucast (drop_bit 24 x) :: u8)) = x"
    (is "?l = x")
proof (rule bit_word_eqI)
  fix n assume "n < LENGTH(32)"
  then show "bit ?l n = bit x n" by (cases "n < 8"; cases "n < 16"; cases "n < 24") (auto simp: bit_simps)
qed

lemma le32_put: "le32 (put_le32 x @ ys) 0 = x"
  using bytes_of_u32[of x] by (simp add: le32_def put_le32_def)

lemma le32_append: "length xs \<le> i \<Longrightarrow> le32 (xs @ ys) i = le32 ys (i - length xs)"
  by (simp add: le32_def nth_append Suc_diff_le)

end
