(* ===== verification/Byte_Fifo.thy ===== *)
theory Byte_Fifo
  imports C_Prelude
begin

text \<open>
  The contract the byte queues of the repository share: the ring buffer of lwrb and the
  asynchronous log buffer of easylogger. \<open>put q xs\<close> hands over the bytes \<open>xs\<close> and
  answers how many were taken, \<open>get q n\<close> asks for at most \<open>n\<close> bytes; \<open>None\<close> is an
  access outside the queue's memory. Whatever a client of the contract knows about a whole
  run of puts and gets is proved here once, from the laws of the single operations.
\<close>

datatype 'a fifo_op = Put "'a list" | Get nat

text \<open>A run: the bytes accepted, the bytes delivered and the final queue.\<close>

fun fifo_run ::
  "('q \<Rightarrow> 'a list \<Rightarrow> (nat \<times> 'q) option) \<Rightarrow> ('q \<Rightarrow> nat \<Rightarrow> ('a list \<times> 'q) option) \<Rightarrow>
   'q \<Rightarrow> 'a fifo_op list \<Rightarrow> ('a list \<times> 'a list \<times> 'q) option" where
  "fifo_run put get q [] = Some ([], [], q)"
| "fifo_run put get q (Put xs # os) = do {
     (n, q') \<leftarrow> put q xs;
     (acc, del, q'') \<leftarrow> fifo_run put get q' os;
     Some (take n xs @ acc, del, q'') }"
| "fifo_run put get q (Get n # os) = do {
     (ys, q') \<leftarrow> get q n;
     (acc, del, q'') \<leftarrow> fifo_run put get q' os;
     Some (acc, ys @ del, q'') }"

fun op_ok :: "nat \<Rightarrow> 'a fifo_op \<Rightarrow> bool" where
  "op_ok lim (Put xs) = (xs \<noteq> [] \<and> length xs < lim)"
| "op_ok lim (Get n) = (n < lim)"

locale byte_fifo =
  fixes put :: "'q \<Rightarrow> 'a list \<Rightarrow> (nat \<times> 'q) option"
    and get :: "'q \<Rightarrow> nat \<Rightarrow> ('a list \<times> 'q) option"
    and contents :: "'q \<Rightarrow> 'a list"
    and cap :: "'q \<Rightarrow> nat"
    and inv :: "'q \<Rightarrow> bool"
    and lim :: nat
  assumes put_law: "inv q \<Longrightarrow> xs \<noteq> [] \<Longrightarrow> length xs < lim \<Longrightarrow>
      \<exists>q'. put q xs = Some (min (length xs) (cap q - length (contents q)), q') \<and> inv q' \<and>
        cap q' = cap q \<and>
        contents q' = contents q @ take (min (length xs) (cap q - length (contents q))) xs"
    and get_law: "inv q \<Longrightarrow> n < lim \<Longrightarrow>
      \<exists>q'. get q n = Some (take n (contents q), q') \<and> inv q' \<and> cap q' = cap q \<and>
        contents q' = drop n (contents q)"
    and cap_law: "inv q \<Longrightarrow> length (contents q) \<le> cap q"
begin

lemma run_total:
  "inv q \<Longrightarrow> \<forall>x \<in> set os. op_ok lim x \<Longrightarrow>
   \<exists>acc del q'. fifo_run put get q os = Some (acc, del, q') \<and> inv q' \<and> cap q' = cap q \<and>
     contents q @ acc = del @ contents q'"
proof (induction os arbitrary: q)
  case Nil
  then show ?case by simp
next
  case (Cons x os)
  show ?case
  proof (cases x)
    case (Put xs)
    let ?n = "min (length xs) (cap q - length (contents q))"
    from Put Cons.prems put_law[of q xs] obtain q1 where q1:
      "put q xs = Some (?n, q1)" "inv q1" "cap q1 = cap q"
      "contents q1 = contents q @ take ?n xs"
      by auto
    from Cons.IH[OF q1(2)] Cons.prems(2) obtain acc del q' where
      "fifo_run put get q1 os = Some (acc, del, q')" "inv q'" "cap q' = cap q1"
      "contents q1 @ acc = del @ contents q'"
      by auto
    with q1 Put show ?thesis by simp
  next
    case (Get n)
    from Get Cons.prems get_law[of q n] obtain q1 where q1:
      "get q n = Some (take n (contents q), q1)" "inv q1" "cap q1 = cap q"
      "contents q1 = drop n (contents q)"
      by auto
    from Cons.IH[OF q1(2)] Cons.prems(2) obtain acc del q' where r:
      "fifo_run put get q1 os = Some (acc, del, q')" "inv q'" "cap q' = cap q1"
      "contents q1 @ acc = del @ contents q'"
      by auto
    have "contents q @ acc = take n (contents q) @ (drop n (contents q) @ acc)"
      by (metis append_assoc append_take_drop_id)
    with q1 r Get show ?thesis by simp
  qed
qed

lemma run_bounded:
  "inv q \<Longrightarrow> \<forall>x \<in> set os. op_ok lim x \<Longrightarrow> fifo_run put get q os = Some (acc, del, q') \<Longrightarrow>
   length (contents q') \<le> cap q"
  using run_total[of q os] cap_law[of q'] by auto

end

end
