(* ===== verification/Ring_Memory.thy ===== *)
theory Ring_Memory
  imports C_Prelude
begin

text \<open>
  The memory of a ring buffer, at the level of lists and natural numbers: the \<open>n\<close> bytes that
  start at index \<open>r\<close> and wrap around at the end, the two-piece copy in and the two-piece copy
  out. The ring buffers of lwrb and easylogger are related to these operations.
\<close>

definition cyc :: "'a list \<Rightarrow> nat \<Rightarrow> nat \<Rightarrow> 'a list" where
  "cyc m r n = map (\<lambda>i. m ! ((r + i) mod length m)) [0..<n]"

definition ring_put :: "'a list \<Rightarrow> nat \<Rightarrow> 'a list \<Rightarrow> 'a list" where
  "ring_put m w xs = (let t = min (length m - w) (length xs)
                      in blit (blit m w (take t xs)) 0 (drop t xs))"

definition ring_get :: "'a list \<Rightarrow> nat \<Rightarrow> nat \<Rightarrow> 'a list" where
  "ring_get m r n = (let t = min (length m - r) n in take t (drop r m) @ take (n - t) m)"

lemma wrap_add:
  "r < l \<Longrightarrow> i \<le> l \<Longrightarrow> (r + i) mod l = (if r + i < l then r + i else r + i - l)" for r i l :: nat
  by (auto simp: le_mod_geq)

lemma length_cyc [simp]: "length (cyc m r n) = n"
  by (simp add: cyc_def)

lemma cyc_0 [simp]: "cyc m r 0 = []"
  by (simp add: cyc_def)

lemma nth_cyc: "i < n \<Longrightarrow> cyc m r n ! i = m ! ((r + i) mod length m)"
  by (simp add: cyc_def)

lemma cyc_mod [simp]: "cyc m (r mod length m) n = cyc m r n"
  by (simp add: cyc_def mod_add_left_eq)

lemma take_cyc [simp]: "take k (cyc m r n) = cyc m r (min k n)"
  by (simp add: cyc_def take_map min_def)

lemma drop_cyc [simp]: "drop k (cyc m r n) = cyc m (r + k) (n - k)"
  by (rule nth_equalityI) (simp_all add: nth_cyc add.assoc)

lemma cyc_append: "cyc m r (a + b) = cyc m r a @ cyc m (r + a) b"
  by (rule nth_equalityI) (auto simp: nth_append nth_cyc add.assoc)

lemma length_ring_put [simp]:
  "w \<le> length m \<Longrightarrow> length xs \<le> length m \<Longrightarrow> length (ring_put m w xs) = length m"
  by (simp add: ring_put_def Let_def min_def)

lemma nth_ring_put:
  assumes "w < length m" and "length xs \<le> length m" and "j < length m"
  shows "ring_put m w xs ! j =
    (if w \<le> j \<and> j - w < length xs then xs ! (j - w)
     else if j < w \<and> length m - w + j < length xs then xs ! (length m - w + j) else m ! j)"
  using assms by (auto simp: ring_put_def Let_def nth_blit min_def)

text \<open>Copying out what was asked for, in one or two pieces, is reading cyclically.\<close>

lemma ring_get_cyc:
  assumes "r < length m" and "n \<le> length m"
  shows "ring_get m r n = cyc m r n"
proof (rule nth_equalityI)
  show "length (ring_get m r n) = length (cyc m r n)"
    using assms by (auto simp: ring_get_def Let_def min_def)
  fix i assume "i < length (ring_get m r n)"
  with assms show "ring_get m r n ! i = cyc m r n ! i"
    by (auto simp: ring_get_def Let_def nth_cyc nth_append wrap_add min_def
             split: if_splits intro!: arg_cong[where f = "\<lambda>k. m ! k"])
qed

text \<open>Copying in behind the stored bytes appends to them.\<close>

lemma cyc_ring_put:
  assumes r: "r < length m" and n: "n + length xs \<le> length m"
  shows "cyc (ring_put m ((r + n) mod length m) xs) r (n + length xs) = cyc m r n @ xs"
proof (cases "xs = []")
  case True
  then show ?thesis by (simp add: ring_put_def)
next
  case False
  with n have nl: "n < length m" by (cases xs) auto
  let ?w = "(r + n) mod length m"
  have w: "?w < length m" using r by (intro mod_less_divisor) linarith
  have len: "length (ring_put m ?w xs) = length m" using n w by simp
  show ?thesis
  proof (rule nth_equalityI)
    show "length (cyc (ring_put m ?w xs) r (n + length xs)) = length (cyc m r n @ xs)" by simp
    fix i assume i: "i < length (cyc (ring_put m ?w xs) r (n + length xs))"
    have wv: "?w = (if r + n < length m then r + n else r + n - length m)"
      using r nl by (intro wrap_add) auto
    have iv: "(r + i) mod length m = (if r + i < length m then r + i else r + i - length m)"
      using r i n by (intro wrap_add) auto
    have "ring_put m ?w xs ! ((r + i) mod length m) =
          (if i < n then m ! ((r + i) mod length m) else xs ! (i - n))"
    proof (cases "i < n")
      case True
      then show ?thesis
        using i n r w by (subst nth_ring_put) (auto simp: wv iv)
    next
      case False
      then show ?thesis
        using i n r w by (subst nth_ring_put)
          (auto simp: wv iv intro!: arg_cong[where f = "\<lambda>k. xs ! k"])
    qed
    with i show "cyc (ring_put m ?w xs) r (n + length xs) ! i = (cyc m r n @ xs) ! i"
      by (simp add: nth_cyc nth_append len)
  qed
qed

end
