(* ===== verification/Lwrb.thy ===== *)
theory Lwrb
  imports Byte_Fifo Ring_Memory
begin

text \<open>
  The ring buffer of \<^verbatim>\<open>lwrb/lwrb.c\<close>. A handle is \<open>lwrb option\<close>, \<open>None\<close> being the
  null pointer; \<open>size_t\<close> is the 32-bit type of the target, so every index computation is the
  wrapping one of the code. An operation answers its C return value, the handle afterwards
  and the calls made to the event callback; \<open>None\<close> as the whole answer is an access outside
  the caller's array or the ring's memory.
\<close>

section \<open>Data\<close>

datatype lwrb_evt_type_t = LWRB_EVT_READ | LWRB_EVT_WRITE | LWRB_EVT_RESET

text \<open>A callback is named by a number; a call records the callback, the event and its count.\<close>

type_synonym evt_call = "nat \<times> lwrb_evt_type_t \<times> u32"

record lwrb =
  lw_magic1 :: u32
  lw_buff :: "u8 list option"
  lw_size :: u32
  lw_r :: u32
  lw_w :: u32
  lw_evt_fn :: "nat option"
  lw_magic2 :: u32

definition BUF_MAGIC1 :: u32 where "BUF_MAGIC1 = 0xDEADBEEF"
definition BUF_MAGIC2 :: u32 where "BUF_MAGIC2 = NOT 0xDEADBEEF"

definition BUF_MIN :: "u32 \<Rightarrow> u32 \<Rightarrow> u32" where
  "BUF_MIN x y = (if x < y then x else y)"

definition BUF_IS_VALID :: "lwrb option \<Rightarrow> bool" where
  "BUF_IS_VALID b = (case b of None \<Rightarrow> False
     | Some h \<Rightarrow> lw_magic1 h = BUF_MAGIC1 \<and> lw_magic2 h = BUF_MAGIC2 \<and> lw_buff h \<noteq> None \<and> lw_size h > 0)"

definition BUF_SEND_EVT :: "lwrb \<Rightarrow> lwrb_evt_type_t \<Rightarrow> u32 \<Rightarrow> evt_call list" where
  "BUF_SEND_EVT h ty bp = (case lw_evt_fn h of None \<Rightarrow> [] | Some f \<Rightarrow> [(f, ty, bp)])"

section \<open>Operations\<close>

text \<open>
  \<open>memset\<close> clears the whole handle, the callback included, before the fields are set.
\<close>

definition lwrb_init :: "lwrb option \<Rightarrow> u8 list option \<Rightarrow> u32 \<Rightarrow> u8 \<times> lwrb option" where
  "lwrb_init buff buffdata sz =
     (if buff = None \<or> buffdata = None \<or> sz = 0 then (0, buff)
      else (1, Some \<lparr>lw_magic1 = BUF_MAGIC1, lw_buff = buffdata, lw_size = sz, lw_r = 0,
                     lw_w = 0, lw_evt_fn = None, lw_magic2 = BUF_MAGIC2\<rparr>))"

definition lwrb_is_ready :: "lwrb option \<Rightarrow> u8" where
  "lwrb_is_ready buff = (if BUF_IS_VALID buff then 1 else 0)"

definition lwrb_free :: "lwrb option \<Rightarrow> lwrb option" where
  "lwrb_free buff = (if BUF_IS_VALID buff then Some ((the buff)\<lparr>lw_buff := None\<rparr>) else buff)"

definition lwrb_set_evt_fn :: "lwrb option \<Rightarrow> nat option \<Rightarrow> lwrb option" where
  "lwrb_set_evt_fn buff fn =
     (if BUF_IS_VALID buff then Some ((the buff)\<lparr>lw_evt_fn := fn\<rparr>) else buff)"

definition lwrb_get_free :: "lwrb option \<Rightarrow> u32" where
  "lwrb_get_free buff =
     (if \<not> BUF_IS_VALID buff then 0
      else let h = the buff; w = lw_w h; r = lw_r h;
               sz = (if w = r then lw_size h
                       else if r > w then r - w
                       else lw_size h - (w - r))
           in sz - 1)"

definition lwrb_get_full :: "lwrb option \<Rightarrow> u32" where
  "lwrb_get_full buff =
     (if \<not> BUF_IS_VALID buff then 0
      else let h = the buff; w = lw_w h; r = lw_r h
           in if w = r then 0
              else if w > r then w - r
              else lw_size h - (r - w))"

definition lwrb_write ::
  "lwrb option \<Rightarrow> u8 list option \<Rightarrow> u32 \<Rightarrow> (u32 \<times> lwrb option \<times> evt_call list) option" where
  "lwrb_write buff data btw =
     (if \<not> BUF_IS_VALID buff \<or> data = None \<or> btw = 0 then Some (0, buff, [])
      else let h = the buff; d = the data; free = lwrb_get_free buff; btw = BUF_MIN free btw
      in if btw = 0 then Some (0, buff, [])
      else do {
        let tocopy = BUF_MIN (lw_size h - lw_w h) btw;
        xs \<leftarrow> rd_blk d 0 (unat tocopy);
        m \<leftarrow> wr_blk (the (lw_buff h)) (unat (lw_w h)) xs;
        let w = lw_w h + tocopy;
        let btw = btw - tocopy;
        (m, w) \<leftarrow> (if btw > 0
                  then do { ys \<leftarrow> rd_blk d (unat tocopy) (unat btw);
                            m \<leftarrow> wr_blk m 0 ys;
                            Some (m, btw) }
                  else Some (m, w));
        let w = (if w \<ge> lw_size h then 0 else w);
        Some (tocopy + btw, Some (h\<lparr>lw_buff := Some m, lw_w := w\<rparr>),
              BUF_SEND_EVT h LWRB_EVT_WRITE (tocopy + btw)) })"

text \<open>The output array of \<open>lwrb_read\<close> and \<open>lwrb_peek\<close> is answered as it is afterwards.\<close>

definition lwrb_read ::
  "lwrb option \<Rightarrow> u8 list option \<Rightarrow> u32 \<Rightarrow>
   (u32 \<times> u8 list option \<times> lwrb option \<times> evt_call list) option" where
  "lwrb_read buff data btr =
     (if \<not> BUF_IS_VALID buff \<or> data = None \<or> btr = 0 then Some (0, data, buff, [])
      else let h = the buff; d = the data; full = lwrb_get_full buff; btr = BUF_MIN full btr
      in if btr = 0 then Some (0, data, buff, [])
      else do {
        let tocopy = BUF_MIN (lw_size h - lw_r h) btr;
        xs \<leftarrow> rd_blk (the (lw_buff h)) (unat (lw_r h)) (unat tocopy);
        d \<leftarrow> wr_blk d 0 xs;
        let r = lw_r h + tocopy;
        let btr = btr - tocopy;
        (d, r) \<leftarrow> (if btr > 0
                  then do { ys \<leftarrow> rd_blk (the (lw_buff h)) 0 (unat btr);
                            d \<leftarrow> wr_blk d (unat tocopy) ys;
                            Some (d, btr) }
                  else Some (d, r));
        let r = (if r \<ge> lw_size h then 0 else r);
        Some (tocopy + btr, Some d, Some (h\<lparr>lw_r := r\<rparr>),
              BUF_SEND_EVT h LWRB_EVT_READ (tocopy + btr)) })"

definition lwrb_peek ::
  "lwrb option \<Rightarrow> u32 \<Rightarrow> u8 list option \<Rightarrow> u32 \<Rightarrow> (u32 \<times> u8 list option) option" where
  "lwrb_peek buff skip_count data btp =
     (if \<not> BUF_IS_VALID buff \<or> data = None \<or> btp = 0 then Some (0, data)
      else let h = the buff; d = the data; r = lw_r h; full = lwrb_get_full buff
      in if skip_count \<ge> full then Some (0, data)
      else let r = r + skip_count; full = full - skip_count;
               r = (if r \<ge> lw_size h then r - lw_size h else r);
               btp = BUF_MIN full btp
      in if btp = 0 then Some (0, data)
      else do {
        let tocopy = BUF_MIN (lw_size h - r) btp;
        xs \<leftarrow> rd_blk (the (lw_buff h)) (unat r) (unat tocopy);
        d \<leftarrow> wr_blk d 0 xs;
        let btp = btp - tocopy;
        d \<leftarrow> (if btp > 0
              then do { ys \<leftarrow> rd_blk (the (lw_buff h)) 0 (unat btp); wr_blk d (unat tocopy) ys }
              else Some d);
        Some (tocopy + btp, Some d) })"

definition lwrb_reset :: "lwrb option \<Rightarrow> lwrb option \<times> evt_call list" where
  "lwrb_reset buff =
     (if BUF_IS_VALID buff
      then (Some ((the buff)\<lparr>lw_w := 0, lw_r := 0\<rparr>), BUF_SEND_EVT (the buff) LWRB_EVT_RESET 0)
      else (buff, []))"

text \<open>An address inside the ring's memory is its offset; \<open>None\<close> is the null pointer.\<close>

definition lwrb_get_linear_block_read_address :: "lwrb option \<Rightarrow> u32 option" where
  "lwrb_get_linear_block_read_address buff =
     (if \<not> BUF_IS_VALID buff then None else Some (lw_r (the buff)))"

definition lwrb_get_linear_block_read_length :: "lwrb option \<Rightarrow> u32" where
  "lwrb_get_linear_block_read_length buff =
     (if \<not> BUF_IS_VALID buff then 0
      else let h = the buff; w = lw_w h; r = lw_r h
           in if w > r then w - r else if r > w then lw_size h - r else 0)"

definition lwrb_skip :: "lwrb option \<Rightarrow> u32 \<Rightarrow> u32 \<times> lwrb option \<times> evt_call list" where
  "lwrb_skip buff len =
     (if \<not> BUF_IS_VALID buff \<or> len = 0 then (0, buff, [])
      else let h = the buff; full = lwrb_get_full buff; len = BUF_MIN len full;
               r = lw_r h + len;
               r = (if r \<ge> lw_size h then r - lw_size h else r)
           in (len, Some (h\<lparr>lw_r := r\<rparr>), BUF_SEND_EVT h LWRB_EVT_READ len))"

definition lwrb_get_linear_block_write_address :: "lwrb option \<Rightarrow> u32 option" where
  "lwrb_get_linear_block_write_address buff =
     (if \<not> BUF_IS_VALID buff then None else Some (lw_w (the buff)))"

definition lwrb_get_linear_block_write_length :: "lwrb option \<Rightarrow> u32" where
  "lwrb_get_linear_block_write_length buff =
     (if \<not> BUF_IS_VALID buff then 0
      else let h = the buff; w = lw_w h; r = lw_r h
           in if w \<ge> r
              then let len = lw_size h - w in (if r = 0 then len - 1 else len)
              else r - w - 1)"

definition lwrb_advance :: "lwrb option \<Rightarrow> u32 \<Rightarrow> u32 \<times> lwrb option \<times> evt_call list" where
  "lwrb_advance buff len =
     (if \<not> BUF_IS_VALID buff \<or> len = 0 then (0, buff, [])
      else let h = the buff; free = lwrb_get_free buff; len = BUF_MIN len free;
               w = lw_w h + len;
               w = (if w \<ge> lw_size h then w - lw_size h else w)
           in (len, Some (h\<lparr>lw_w := w\<rparr>), BUF_SEND_EVT h LWRB_EVT_WRITE len))"

section \<open>Well-formed rings and their contents\<close>

text \<open>
  A handle in use: the magic words are intact, the memory has the advertised size, both
  indices lie inside, and the size fits the address space (no object of the 32-bit target is
  larger than \<open>2 ^ 31\<close> bytes, which is what keeps \<open>r + skip_count\<close> from wrapping around).
\<close>

definition lwrb_wf :: "lwrb \<Rightarrow> bool" where
  "lwrb_wf h \<longleftrightarrow> BUF_IS_VALID (Some h) \<and> length (the (lw_buff h)) = unat (lw_size h) \<and>
     unat (lw_size h) \<le> 2 ^ 31 \<and> lw_r h < lw_size h \<and> lw_w h < lw_size h"

definition lwrb_mem :: "lwrb \<Rightarrow> u8 list" where
  "lwrb_mem h = the (lw_buff h)"

definition lwrb_contents :: "lwrb \<Rightarrow> u8 list" where
  "lwrb_contents h = cyc (lwrb_mem h) (unat (lw_r h)) (unat (lwrb_get_full (Some h)))"

lemma unat_BUF_MIN [simp]: "unat (BUF_MIN x y) = min (unat x) (unat y)"
  by (simp add: BUF_MIN_def min_def word_less_nat_alt)

lemma BUF_MIN_0 [simp]: "BUF_MIN x y = 0 \<longleftrightarrow> x = 0 \<or> y = 0"
  by (auto simp: BUF_MIN_def not_less)

lemma lwrb_wfD:
  assumes "lwrb_wf h"
  shows "BUF_IS_VALID (Some h)" "length (lwrb_mem h) = unat (lw_size h)"
    "unat (lw_size h) \<le> 2 ^ 31" "unat (lw_r h) < unat (lw_size h)" "unat (lw_w h) < unat (lw_size h)"
    "lw_r h < lw_size h" "lw_w h < lw_size h" "lw_buff h = Some (lwrb_mem h)" "0 < unat (lw_size h)"
    "lw_size h \<noteq> 0"
  using assms
  by (auto simp: lwrb_wf_def lwrb_mem_def BUF_IS_VALID_def word_less_nat_alt)

lemma lwrb_wf_update:
  assumes "lwrb_wf h" "length m = unat (lw_size h)" "r' < lw_size h" "w' < lw_size h"
  shows "lwrb_wf (h\<lparr>lw_buff := Some m, lw_r := r', lw_w := w'\<rparr>)"
    "lwrb_wf (h\<lparr>lw_buff := Some m, lw_w := w'\<rparr>)" "lwrb_wf (h\<lparr>lw_r := r'\<rparr>)" "lwrb_wf (h\<lparr>lw_w := w'\<rparr>)"
    "lwrb_wf (h\<lparr>lw_w := w', lw_r := r'\<rparr>)"
  using assms by (auto simp: lwrb_wf_def BUF_IS_VALID_def)

lemma lwrb_full_nat:
  assumes "lwrb_wf h"
  shows "unat (lwrb_get_full (Some h)) =
    (if lw_r h \<le> lw_w h then unat (lw_w h) - unat (lw_r h)
     else unat (lw_size h) - (unat (lw_r h) - unat (lw_w h)))"
proof -
  note wf = lwrb_wfD[OF assms]
  consider "lw_w h = lw_r h" | "lw_r h < lw_w h" | "lw_w h < lw_r h" by fastforce
  then show ?thesis
  proof cases
    case 3
    then have "unat (lw_r h - lw_w h) = unat (lw_r h) - unat (lw_w h)"
      by (simp add: unat_sub_le)
    moreover from this have "lw_r h - lw_w h \<le> lw_size h"
      using wf by (simp add: word_le_nat_alt)
    ultimately show ?thesis using 3 wf
      by (auto simp: lwrb_get_full_def Let_def unat_sub_le)
  qed (use wf in \<open>auto simp: lwrb_get_full_def Let_def unat_sub_le\<close>)
qed

lemma lwrb_full_less: "lwrb_wf h \<Longrightarrow> unat (lwrb_get_full (Some h)) < unat (lw_size h)"
  using lwrb_wfD[of h] by (auto simp: lwrb_full_nat word_le_nat_alt)

lemma lwrb_w_of_r:
  assumes "lwrb_wf h"
  shows "(unat (lw_r h) + unat (lwrb_get_full (Some h))) mod unat (lw_size h) = unat (lw_w h)"
  using lwrb_wfD[OF assms] lwrb_full_less[OF assms]
  by (subst wrap_add) (auto simp: lwrb_full_nat[OF assms] word_le_nat_alt)

text \<open>Free and used bytes add up to one less than the size: one cell always stays empty.\<close>

lemma lwrb_free_nat:
  assumes "lwrb_wf h"
  shows "unat (lwrb_get_free (Some h)) = unat (lw_size h) - 1 - unat (lwrb_get_full (Some h))"
proof -
  note wf = lwrb_wfD[OF assms]
  have pred: "unat (x - 1) = unat x - 1" if "x \<noteq> 0" for x :: u32
    using that by (simp add: unat_sub_le unat_one_le)
  consider "lw_w h = lw_r h" | "lw_r h < lw_w h" | "lw_w h < lw_r h" by fastforce
  then show ?thesis
  proof cases
    case 1
    with wf show ?thesis by (auto simp: lwrb_get_free_def lwrb_get_full_def pred)
  next
    case 2
    then have d: "unat (lw_w h - lw_r h) = unat (lw_w h) - unat (lw_r h)"
      by (simp add: unat_sub_le)
    moreover from this have "lw_w h - lw_r h \<le> lw_size h"
      using wf by (simp add: word_le_nat_alt)
    ultimately have s: "unat (lw_size h - (lw_w h - lw_r h)) =
        unat (lw_size h) - (unat (lw_w h) - unat (lw_r h))"
      by (simp add: unat_sub_le)
    then have "lw_size h - (lw_w h - lw_r h) \<noteq> 0" using wf by auto
    with s 2 wf d show ?thesis
      by (auto simp: lwrb_get_free_def lwrb_get_full_def Let_def pred)
  next
    case 3
    then have "unat (lw_r h - lw_w h) = unat (lw_r h) - unat (lw_w h)"
      by (simp add: unat_sub_le)
    moreover from 3 have "lw_r h - lw_w h \<noteq> 0" by auto
    ultimately show ?thesis using 3 wf lwrb_full_nat[OF assms]
      by (auto simp: lwrb_get_free_def Let_def pred word_less_nat_alt word_le_nat_alt)
  qed
qed

lemma length_lwrb_contents [simp]:
  "length (lwrb_contents h) = unat (lwrb_get_full (Some h))"
  by (simp add: lwrb_contents_def)

section \<open>The operations, in terms of the ring memory\<close>

text \<open>
  On a well-formed handle the two-piece copies of the code are \<open>ring_put\<close> and \<open>ring_get\<close>:
  no access leaves an array and no index computation wraps around.
\<close>

lemma wrap_of_nat32:
  assumes "w < s" "unat s \<le> 2 ^ 31" "t \<le> unat s" "unat x = unat w + t" "unat w + t \<le> unat s"
  shows "(if x \<ge> s then 0 else x) = (of_nat ((unat w + t) mod unat s) :: u32)"
proof -
  have "(unat w + t) mod unat s = (if unat w + t < unat s then unat w + t else 0)"
    using assms by (subst wrap_add) (auto simp: word_less_nat_alt)
  then show ?thesis using assms
    by (auto simp: word_le_nat_alt simp del: of_nat_add intro!: eq_of_nat32)
qed

lemma lwrb_write_eq:
  assumes wf: "lwrb_wf h" and d: "unat btw \<le> length d"
  defines "k \<equiv> min (unat (lwrb_get_free (Some h))) (unat btw)"
  shows "lwrb_write (Some h) (Some d) btw = Some (of_nat k,
     Some (h\<lparr>lw_buff := Some (ring_put (lwrb_mem h) (unat (lw_w h)) (take k d)),
             lw_w := of_nat ((unat (lw_w h) + k) mod unat (lw_size h))\<rparr>),
     if k = 0 then [] else BUF_SEND_EVT h LWRB_EVT_WRITE (of_nat k))"
proof (cases "k = 0")
  case True
  then have "BUF_MIN (lwrb_get_free (Some h)) btw = 0"
    by (simp add: word_unat_eq_iff k_def del: BUF_MIN_0)
  then have "lwrb_write (Some h) (Some d) btw = Some (0, Some h, [])"
    using lwrb_wfD(1)[OF wf] by (simp add: lwrb_write_def Let_def del: BUF_MIN_0)
  moreover have "h\<lparr>lw_buff := Some (lwrb_mem h), lw_w := lw_w h\<rparr> = h"
    using lwrb_wfD(8)[OF wf] by (cases h) auto
  ultimately show ?thesis using True lwrb_wfD[OF wf] by (simp add: ring_put_def)
next
  case False
  note wfd = lwrb_wfD[OF wf]
  have k1: "k < unat (lw_size h)" using lwrb_free_nat[OF wf] wfd unfolding k_def by linarith
  have kd: "k \<le> length d" using d by (simp add: k_def)
  define b where "b = BUF_MIN (lwrb_get_free (Some h)) btw"
  define t where "t = BUF_MIN (lw_size h - lw_w h) b"
  have ub: "unat b = k" by (simp add: b_def k_def)
  have b0: "b \<noteq> 0" and n0: "btw \<noteq> 0" using ub False by (auto simp: b_def)
  have ut: "unat t = min (unat (lw_size h) - unat (lw_w h)) k"
    using wfd by (simp add: t_def unat_sub_le ub less_imp_le)
  define e where "e = b - t"
  have ue: "unat e = k - unat t"
    unfolding e_def by (subst unat_sub_le) (auto simp: word_le_nat_alt ub ut)
  have wt: "unat (lw_w h + t) = unat (lw_w h) + unat t"
    using wfd by (intro unat_add_small) (simp add: ut)
  have te: "t + e = b" and bk: "b = of_nat k"
    using k1 wfd ub by (auto simp: e_def intro: eq_of_nat32)
  have mem: "rd_blk d 0 (unat t) = Some (take (unat t) d)"
    "wr_blk (lwrb_mem h) (unat (lw_w h)) (take (unat t) d) =
       Some (blit (lwrb_mem h) (unat (lw_w h)) (take (unat t) d))"
    using kd wfd by (auto simp: mem_simps ut)
  note unf = lwrb_write_def Let_def option.sel b_def[symmetric] t_def[symmetric] e_def[symmetric]
  have nw: "(if (if e > 0 then e else lw_w h + t) \<ge> lw_size h then 0 else if e > 0 then e else lw_w h + t)
      = (of_nat ((unat (lw_w h) + k) mod unat (lw_size h)) :: u32)"
  proof (cases "e > 0")
    case True
    then have "(unat (lw_w h) + k) mod unat (lw_size h) = unat e"
      using wfd k1 ue ut by (subst wrap_add) (auto simp: word_less_nat_alt)
    moreover have "e < lw_size h" using ue k1 by (simp add: word_less_nat_alt)
    ultimately show ?thesis using True by auto
  next
    case False
    then have "unat t = k" using ue ut by (simp add: word_less_nat_alt)
    then have "(if lw_w h + t \<ge> lw_size h then 0 else lw_w h + t) =
        (of_nat ((unat (lw_w h) + k) mod unat (lw_size h)) :: u32)"
      using wfd ut wt k1 by (intro wrap_of_nat32) auto
    with False show ?thesis by auto
  qed
  have lb: "length (blit (lwrb_mem h) (unat (lw_w h)) (take (unat t) d)) = unat (lw_size h)"
    using wfd kd ut by simp
  have mt: "min (length (lwrb_mem h) - unat (lw_w h)) (length (take k d)) = unat t"
    using wfd kd ut by simp
  have tk: "take (unat t) (take k d) = take (unat t) d" "drop (unat t) (take k d) = take (unat e) (drop (unat t) d)"
    using ut ue by (simp_all add: drop_take)
  have rp: "ring_put (lwrb_mem h) (unat (lw_w h)) (take k d) =
      blit (blit (lwrb_mem h) (unat (lw_w h)) (take (unat t) d)) 0 (take (unat e) (drop (unat t) d))"
    unfolding ring_put_def mt Let_def tk ..
  have "length (take (unat e) (drop (unat t) d)) \<le> unat e" by simp
  also have "\<dots> \<le> unat (lw_size h)" using k1 ue by linarith
  finally have le: "length (take (unat e) (drop (unat t) d)) \<le> unat (lw_size h)" .
  have wm: "wr_blk (blit (lwrb_mem h) (unat (lw_w h)) (take (unat t) d)) 0
      (take (unat e) (drop (unat t) d)) = Some (ring_put (lwrb_mem h) (unat (lw_w h)) (take k d))"
    unfolding rp by (rule wr_blk_Some) (simp only: lb add_0 le)
  have rm: "rd_blk d (unat t) (unat e) = Some (take (unat e) (drop (unat t) d))"
    using kd ut ue by (intro rd_blk_Some) simp
  have wm0: "blit (lwrb_mem h) (unat (lw_w h)) (take (unat t) d) =
      ring_put (lwrb_mem h) (unat (lw_w h)) (take k d)" if "\<not> e > 0"
    using that unfolding rp by (simp add: word_less_nat_alt)
  show ?thesis
    using False wfd(1,8) n0 b0 mem wm rm wm0 nw te bk
    unfolding unf by (cases "e > 0") (auto split: if_splits)
qed

text \<open>The two-piece copy out of the ring, common to \<open>lwrb_read\<close> and \<open>lwrb_peek\<close>.\<close>

lemma two_piece_out:
  fixes r s b :: u32 and m d :: "u8 list"
  assumes m: "length m = unat s" and r: "r < s" and b: "unat b \<le> unat s" and d: "unat b \<le> length d"
  defines "t \<equiv> BUF_MIN (s - r) b"
  defines "e \<equiv> b - t"
  shows "rd_blk m (unat r) (unat t) = Some (take (unat t) (drop (unat r) m))"
    and "wr_blk d 0 (take (unat t) (drop (unat r) m)) = Some (blit d 0 (take (unat t) (drop (unat r) m)))"
    and "rd_blk m 0 (unat e) = Some (take (unat e) m)"
    and "wr_blk (blit d 0 (take (unat t) (drop (unat r) m))) (unat t) (take (unat e) m) =
           Some (blit d 0 (cyc m (unat r) (unat b)))"
    and "\<not> e > 0 \<Longrightarrow> blit d 0 (take (unat t) (drop (unat r) m)) = blit d 0 (cyc m (unat r) (unat b))"
    and "t + e = b"
    and "unat b < unat s \<Longrightarrow> unat s \<le> 2 ^ 31 \<Longrightarrow> (if (if e > 0 then e else r + t) \<ge> s then 0 else if e > 0 then e else r + t)
      = (of_nat ((unat r + unat b) mod unat s) :: u32)"
proof -
  have ru: "unat r < unat s" using r by (simp add: word_less_nat_alt)
  have ut: "unat t = min (unat s - unat r) (unat b)"
    using r by (simp add: t_def unat_sub_le less_imp_le)
  have ue: "unat e = unat b - unat t"
    unfolding e_def by (subst unat_sub_le) (auto simp: word_le_nat_alt ut)
  have cy: "cyc m (unat r) (unat b) = take (unat t) (drop (unat r) m) @ take (unat e) m"
    using m ru b by (simp add: ring_get_cyc[symmetric] ring_get_def Let_def ut ue)
  show "rd_blk m (unat r) (unat t) = Some (take (unat t) (drop (unat r) m))"
    using m ru by (simp add: mem_simps ut)
  show "wr_blk d 0 (take (unat t) (drop (unat r) m)) = Some (blit d 0 (take (unat t) (drop (unat r) m)))"
    using d by (simp add: mem_simps ut)
  show "rd_blk m 0 (unat e) = Some (take (unat e) m)"
    using m b ue by (simp add: mem_simps)
  show "wr_blk (blit d 0 (take (unat t) (drop (unat r) m))) (unat t) (take (unat e) m) =
           Some (blit d 0 (cyc m (unat r) (unat b)))"
    using m ru b d ut ue by (auto simp: mem_simps cy blit_def min_def)
  show "blit d 0 (take (unat t) (drop (unat r) m)) = blit d 0 (cyc m (unat r) (unat b))"
    if "\<not> e > 0"
    using that by (simp add: cy word_less_nat_alt)
  show "t + e = b" by (simp add: e_def)
  show "(if (if e > 0 then e else r + t) \<ge> s then 0 else if e > 0 then e else r + t)
      = (of_nat ((unat r + unat b) mod unat s) :: u32)" if "unat b < unat s" and s: "unat s \<le> 2 ^ 31"
  proof (cases "e > 0")
    case True
    then have "(unat r + unat b) mod unat s = unat e"
      using ru that ue ut by (subst wrap_add) (auto simp: word_less_nat_alt)
    moreover have "e < s" using ue that by (simp add: word_less_nat_alt)
    ultimately show ?thesis using True by auto
  next
    case False
    then have tb: "unat t = unat b" using ue ut by (simp add: word_less_nat_alt)
    have "unat (r + t) = unat r + unat t"
      using s ru by (intro unat_add_small) (simp add: ut)
    then have "(if r + t \<ge> s then 0 else r + t) =
        (of_nat ((unat r + unat b) mod unat s) :: u32)"
      using r ru ut s tb by (intro wrap_of_nat32) auto
    with False show ?thesis by auto
  qed
qed

lemma lwrb_read_eq:
  assumes wf: "lwrb_wf h" and d: "unat btr \<le> length d"
  defines "k \<equiv> min (unat (lwrb_get_full (Some h))) (unat btr)"
  shows "lwrb_read (Some h) (Some d) btr = Some (of_nat k,
     Some (blit d 0 (cyc (lwrb_mem h) (unat (lw_r h)) k)),
     Some (h\<lparr>lw_r := of_nat ((unat (lw_r h) + k) mod unat (lw_size h))\<rparr>),
     if k = 0 then [] else BUF_SEND_EVT h LWRB_EVT_READ (of_nat k))"
proof (cases "k = 0")
  case True
  then have "BUF_MIN (lwrb_get_full (Some h)) btr = 0"
    by (simp add: word_unat_eq_iff k_def del: BUF_MIN_0)
  then have "lwrb_read (Some h) (Some d) btr = Some (0, Some d, Some h, [])"
    using lwrb_wfD(1)[OF wf] by (simp add: lwrb_read_def Let_def del: BUF_MIN_0)
  moreover have "h\<lparr>lw_r := lw_r h\<rparr> = h" by (cases h) auto
  ultimately show ?thesis using True lwrb_wfD[OF wf] by simp
next
  case False
  note wfd = lwrb_wfD[OF wf]
  define b where "b = BUF_MIN (lwrb_get_full (Some h)) btr"
  have ub: "unat b = k" by (simp add: b_def k_def)
  have k1: "k < unat (lw_size h)" using lwrb_full_less[OF wf] by (simp add: k_def)
  have b0: "b \<noteq> 0" and n0: "btr \<noteq> 0" using ub False by (auto simp: b_def)
  have bk: "b = of_nat k" using k1 wfd ub by (auto intro: eq_of_nat32)
  have kd: "k \<le> length d" using d by (simp add: k_def)
  note tp = two_piece_out[OF wfd(2,6), of b d, unfolded ub]
  define t where "t = BUF_MIN (lw_size h - lw_r h) b"
  define e where "e = b - t"
  note unf = lwrb_read_def Let_def option.sel b_def[symmetric] t_def[symmetric] e_def[symmetric]
  have x: "k \<le> unat (lw_size h)" using k1 by simp
  note tp = tp[OF x kd, folded t_def, folded e_def]
  show ?thesis
    using False wfd(1,3,8) n0 b0 tp(1-6) tp(7)[OF k1 wfd(3)] bk
    unfolding unf by (cases "e > 0") (auto split: if_splits)
qed

lemma lwrb_peek_eq:
  assumes wf: "lwrb_wf h" and d: "unat btp \<le> length d"
    and sk: "skip_count < lwrb_get_full (Some h)"
  defines "k \<equiv> min (unat (lwrb_get_full (Some h)) - unat skip_count) (unat btp)"
  shows "lwrb_peek (Some h) skip_count (Some d) btp = Some (of_nat k,
     Some (blit d 0 (cyc (lwrb_mem h) (unat (lw_r h) + unat skip_count) k)))"
proof -
  note wfd = lwrb_wfD[OF wf]
  let ?f = "lwrb_get_full (Some h)"
  have us: "unat skip_count < unat ?f" using sk by (simp add: word_less_nat_alt)
  have f1: "unat ?f < unat (lw_size h)" by (rule lwrb_full_less[OF wf])
  have uf: "unat (?f - skip_count) = unat ?f - unat skip_count"
    using sk by (simp add: unat_sub_le less_imp_le)
  define r where "r = (if lw_r h + skip_count \<ge> lw_size h then lw_r h + skip_count - lw_size h
    else lw_r h + skip_count)"
  have ua: "unat (lw_r h + skip_count) = unat (lw_r h) + unat skip_count"
    using wfd us f1 by (intro unat_add_small) simp
  have ur: "unat r = (unat (lw_r h) + unat skip_count) mod unat (lw_size h)"
    using wfd us f1 ua unfolding r_def
    by (subst wrap_add) (auto simp: word_le_nat_alt unat_sub_le)
  then have rs: "r < lw_size h" using wfd by (simp add: word_less_nat_alt)
  define b where "b = BUF_MIN (?f - skip_count) btp"
  have ub: "unat b = k" by (simp add: b_def k_def uf)
  have bk: "b = of_nat k" using f1 wfd ub by (intro eq_of_nat32) (auto simp: k_def)
  have cy: "cyc (lwrb_mem h) (unat r) k = cyc (lwrb_mem h) (unat (lw_r h) + unat skip_count) k"
    using cyc_mod[of "lwrb_mem h" "unat (lw_r h) + unat skip_count" k] wfd(2) by (simp add: ur)
  have kd: "k \<le> length d" and ks: "k \<le> unat (lw_size h)" using d f1 by (auto simp: k_def)
  define t where "t = BUF_MIN (lw_size h - r) b"
  define e where "e = b - t"
  note tp = two_piece_out(1-6)[OF wfd(2) rs, of b d, unfolded ub, OF ks kd, folded t_def, folded e_def]
  note unf = lwrb_peek_def Let_def option.sel r_def[symmetric] b_def[symmetric] t_def[symmetric] e_def[symmetric]
  have ns: "\<not> skip_count \<ge> ?f" using sk by simp
  show ?thesis
  proof (cases "k = 0")
    case True
    then have "b = 0" using bk by simp
    with True ns wfd(1) show ?thesis unfolding unf by simp
  next
    case False
    then have "b \<noteq> 0" and "btp \<noteq> 0" using ub by (auto simp: b_def)
    then show ?thesis
      using False wfd(1,8) tp bk ns cy unfolding unf by (cases "e > 0") simp_all
  qed
qed

section \<open>Contents after an operation\<close>

lemma lwrb_full_unique:
  assumes wf: "lwrb_wf h" and f: "f < unat (lw_size h)"
    and e: "unat (lw_w h) = (unat (lw_r h) + f) mod unat (lw_size h)"
  shows "unat (lwrb_get_full (Some h)) = f"
proof -
  have "(unat (lw_r h) + f) mod unat (lw_size h) =
      (if unat (lw_r h) + f < unat (lw_size h) then unat (lw_r h) + f
       else unat (lw_r h) + f - unat (lw_size h))"
    using lwrb_wfD[OF wf] f by (intro wrap_add) auto
  then show ?thesis
    using lwrb_wfD[OF wf] f e
    by (auto simp: lwrb_full_nat[OF wf] word_le_nat_alt split: if_splits)
qed

lemma lwrb_append_contents:
  assumes wf: "lwrb_wf h" and k: "unat (lwrb_get_full (Some h)) + length xs < unat (lw_size h)"
  defines "h' \<equiv> h\<lparr>lw_buff := Some (ring_put (lwrb_mem h) (unat (lw_w h)) xs),
             lw_w := of_nat ((unat (lw_w h) + length xs) mod unat (lw_size h))\<rparr>"
  shows "lwrb_wf h'" and "lwrb_contents h' = lwrb_contents h @ xs"
proof -
  note wfd = lwrb_wfD[OF wf]
  let ?n = "unat (lw_size h)" and ?f = "unat (lwrb_get_full (Some h))"
  show wf': "lwrb_wf h'"
    unfolding h'_def using wfd k
    by (intro lwrb_wf_update(2)[OF wf, of _ "lw_r h"]) (auto intro: of_nat_mod_less32)
  have "(unat (lw_w h) + length xs) mod ?n = (unat (lw_r h) + (?f + length xs)) mod ?n"
    using lwrb_w_of_r[OF wf] by (metis add.assoc mod_add_left_eq)
  then have "unat (lwrb_get_full (Some h')) = ?f + length xs"
    using k wfd by (intro lwrb_full_unique[OF wf']) (auto simp: h'_def unat_of_nat_mod32)
  moreover have "lwrb_mem h' = ring_put (lwrb_mem h) ((unat (lw_r h) + ?f) mod length (lwrb_mem h)) xs"
    unfolding wfd(2) lwrb_w_of_r[OF wf] by (simp add: h'_def lwrb_mem_def)
  moreover have "lw_r h' = lw_r h" by (simp add: h'_def)
  ultimately show "lwrb_contents h' = lwrb_contents h @ xs"
    using k wfd cyc_ring_put[of "unat (lw_r h)" "lwrb_mem h" ?f xs]
    by (simp only: lwrb_contents_def)
qed

lemma lwrb_consume_contents:
  assumes wf: "lwrb_wf h" and k: "k \<le> unat (lwrb_get_full (Some h))"
  defines "h' \<equiv> h\<lparr>lw_r := of_nat ((unat (lw_r h) + k) mod unat (lw_size h))\<rparr>"
  shows "lwrb_wf h'" and "lwrb_contents h' = drop k (lwrb_contents h)"
proof -
  note wfd = lwrb_wfD[OF wf]
  let ?n = "unat (lw_size h)" and ?f = "unat (lwrb_get_full (Some h))"
  show wf': "lwrb_wf h'"
    unfolding h'_def using wfd
    by (intro lwrb_wf_update(3)[OF wf, of "lwrb_mem h" _ "lw_w h"]) (auto intro: of_nat_mod_less32)
  have r': "unat (lw_r h') = (unat (lw_r h) + k) mod ?n"
    using wfd by (simp add: h'_def unat_of_nat_mod32)
  have "(unat (lw_r h') + (?f - k)) mod ?n = (unat (lw_r h) + ?f) mod ?n"
    unfolding r' mod_add_left_eq using k by simp
  then have "unat (lw_w h') = (unat (lw_r h') + (?f - k)) mod ?n"
    using lwrb_w_of_r[OF wf] by (simp add: h'_def)
  then have "unat (lwrb_get_full (Some h')) = ?f - k"
    using lwrb_full_less[OF wf] by (intro lwrb_full_unique[OF wf']) (auto simp: h'_def)
  moreover have "lwrb_mem h' = lwrb_mem h" by (simp add: h'_def lwrb_mem_def)
  ultimately show "lwrb_contents h' = drop k (lwrb_contents h)"
    using cyc_mod[of "lwrb_mem h" "unat (lw_r h) + k" "?f - k"]
    by (simp only: lwrb_contents_def r' wfd(2) drop_cyc)
qed

lemma lwrb_init_wf:
  assumes "sz \<noteq> 0" and "unat sz \<le> 2 ^ 31" and "length m = unat sz"
  shows "\<exists>h'. lwrb_init (Some h) (Some m) sz = (1, Some h') \<and> lwrb_wf h' \<and> lwrb_contents h' = []"
  using assms by (auto simp: lwrb_init_def lwrb_wf_def BUF_IS_VALID_def lwrb_contents_def
      lwrb_get_full_def word_gt_0)

lemma lwrb_room: "lwrb_wf h \<Longrightarrow>
    unat (lwrb_get_free (Some h)) = unat (lw_size h) - 1 - length (lwrb_contents h)"
  by (simp add: lwrb_free_nat)

lemma lwrb_contents_bound: "lwrb_wf h \<Longrightarrow> length (lwrb_contents h) \<le> unat (lw_size h) - 1"
  using lwrb_full_less[of h] by simp

section \<open>Reading and writing as a queue\<close>

text \<open>
  Writing to a ring in use never leaves an array, takes as many of the offered bytes as
  there is room for (the size less one, less the bytes stored), appends exactly those bytes
  to the stored ones, keeps the ring well formed, answers their number, and reports that
  number to the callback unless it is zero.
\<close>

lemma lwrb_write_law:
  assumes "lwrb_wf h" and "unat btw \<le> length d"
  defines "n \<equiv> min (unat (lw_size h) - 1 - length (lwrb_contents h)) (unat btw)"
  shows "\<exists>h'. lwrb_write (Some h) (Some d) btw = Some (of_nat n, Some h',
        if n = 0 then [] else BUF_SEND_EVT h LWRB_EVT_WRITE (of_nat n)) \<and>
      lwrb_wf h' \<and> lw_size h' = lw_size h \<and> lw_r h' = lw_r h \<and>
      lwrb_contents h' = lwrb_contents h @ take n d"
proof -
  have n: "n = min (unat (lwrb_get_free (Some h))) (unat btw)"
    by (simp add: n_def lwrb_room[OF assms(1)])
  have len: "length (take n d) = n" using assms(2) by (simp add: n_def)
  have sp: "unat (lwrb_get_full (Some h)) + length (take n d) < unat (lw_size h)"
    unfolding len using lwrb_full_less[OF assms(1)] by (simp add: n_def)
  show ?thesis
    using lwrb_write_eq[OF assms(1,2), folded n] lwrb_append_contents[OF assms(1) sp, unfolded len]
    by simp
qed

text \<open>
  Reading from a ring in use never leaves an array and is the inverse of writing: the
  first bytes of the output array are the oldest stored bytes, as many as were asked for and
  are there, the rest of the array is untouched, and exactly those bytes leave the ring.
\<close>

lemma lwrb_read_law:
  assumes "lwrb_wf h" and "unat btr \<le> length d"
  defines "n \<equiv> min (length (lwrb_contents h)) (unat btr)"
  shows "\<exists>h'. lwrb_read (Some h) (Some d) btr = Some (of_nat n,
        Some (take n (lwrb_contents h) @ drop n d), Some h',
        if n = 0 then [] else BUF_SEND_EVT h LWRB_EVT_READ (of_nat n)) \<and>
      lwrb_wf h' \<and> lw_size h' = lw_size h \<and> lwrb_contents h' = drop n (lwrb_contents h)"
proof -
  have n: "n = min (unat (lwrb_get_full (Some h))) (unat btr)" by (simp add: n_def)
  have b: "blit d 0 (cyc (lwrb_mem h) (unat (lw_r h)) n) = take n (lwrb_contents h) @ drop n d"
    by (simp add: blit_def lwrb_contents_def n_def)
  have k: "n \<le> unat (lwrb_get_full (Some h))" by (simp add: n)
  show ?thesis
    using lwrb_read_eq[OF assms(1,2), folded n, unfolded b] lwrb_consume_contents[OF assms(1) k]
    by simp
qed

text \<open>
  peeking looks ahead without consuming: the handle is not an output of the operation,
  and the bytes put at the start of the array are the stored bytes after the skipped ones.
\<close>

lemma lwrb_peek_looks_ahead:
  fixes skip_count btp :: u32
  assumes "lwrb_wf h" and "unat btp \<le> length d"
  defines "n \<equiv> min (length (lwrb_contents h) - unat skip_count) (unat btp)"
  shows "lwrb_peek (Some h) skip_count (Some d) btp =
    Some (of_nat n, Some (take n (drop (unat skip_count) (lwrb_contents h)) @ drop n d))"
proof (cases "skip_count < lwrb_get_full (Some h)")
  case True
  then show ?thesis
    using lwrb_peek_eq[OF assms(1,2) True]
    by (simp add: n_def blit_def lwrb_contents_def min_def word_less_nat_alt)
next
  case False
  then have "n = 0" by (simp add: n_def word_less_nat_alt)
  with False show ?thesis by (simp add: lwrb_peek_def Let_def not_less)
qed

section \<open>Transfers made by hardware\<close>

lemma lwrb_advance_eq:
  assumes wf: "lwrb_wf h" and l: "len \<noteq> 0"
  defines "k \<equiv> min (unat len) (unat (lwrb_get_free (Some h)))"
  shows "lwrb_advance (Some h) len = (of_nat k,
    Some (h\<lparr>lw_w := of_nat ((unat (lw_w h) + k) mod unat (lw_size h))\<rparr>),
    BUF_SEND_EVT h LWRB_EVT_WRITE (of_nat k))"
proof -
  note wfd = lwrb_wfD[OF wf]
  define b where "b = BUF_MIN len (lwrb_get_free (Some h))"
  have ub: "unat b = k" by (simp add: b_def k_def)
  have k: "k < unat (lw_size h)" using lwrb_free_nat[OF wf] wfd unfolding k_def by linarith
  have bk: "b = of_nat k" using k wfd ub by (intro eq_of_nat32) auto
  have ua: "unat (lw_w h + b) = unat (lw_w h) + k"
    using wfd k ub by (subst unat_add_small) auto
  have "(unat (lw_w h) + k) mod unat (lw_size h) =
      (if unat (lw_w h) + k < unat (lw_size h) then unat (lw_w h) + k
       else unat (lw_w h) + k - unat (lw_size h))"
    using wfd k by (intro wrap_add) auto
  then have "(if lw_w h + b \<ge> lw_size h then lw_w h + b - lw_size h else lw_w h + b) =
      of_nat ((unat (lw_w h) + k) mod unat (lw_size h))"
    using wfd k ua by (intro eq_of_nat32) (auto simp: word_le_nat_alt unat_sub_le)
  then show ?thesis
    using wfd(1) l bk unfolding lwrb_advance_def Let_def option.sel b_def[symmetric] by simp
qed

lemma lwrb_skip_eq:
  assumes wf: "lwrb_wf h" and l: "len \<noteq> 0"
  defines "k \<equiv> min (unat len) (unat (lwrb_get_full (Some h)))"
  shows "lwrb_skip (Some h) len = (of_nat k,
    Some (h\<lparr>lw_r := of_nat ((unat (lw_r h) + k) mod unat (lw_size h))\<rparr>),
    BUF_SEND_EVT h LWRB_EVT_READ (of_nat k))"
proof -
  note wfd = lwrb_wfD[OF wf]
  define b where "b = BUF_MIN len (lwrb_get_full (Some h))"
  have ub: "unat b = k" by (simp add: b_def k_def)
  have k: "k < unat (lw_size h)" using lwrb_full_less[OF wf] unfolding k_def by linarith
  have bk: "b = of_nat k" using k wfd ub by (intro eq_of_nat32) auto
  have ua: "unat (lw_r h + b) = unat (lw_r h) + k"
    using wfd k ub by (subst unat_add_small) auto
  have "(unat (lw_r h) + k) mod unat (lw_size h) =
      (if unat (lw_r h) + k < unat (lw_size h) then unat (lw_r h) + k
       else unat (lw_r h) + k - unat (lw_size h))"
    using wfd k by (intro wrap_add) auto
  then have "(if lw_r h + b \<ge> lw_size h then lw_r h + b - lw_size h else lw_r h + b) =
      of_nat ((unat (lw_r h) + k) mod unat (lw_size h))"
    using wfd k ua by (intro eq_of_nat32) (auto simp: word_le_nat_alt unat_sub_le)
  then show ?thesis
    using wfd(1) l bk unfolding lwrb_skip_def Let_def option.sel b_def[symmetric] by simp
qed

lemma linear_write_fits:
  assumes "lwrb_wf h"
  shows "unat (lwrb_get_linear_block_write_length (Some h)) \<le> unat (lwrb_get_free (Some h))"
    and "unat (lw_w h) + unat (lwrb_get_linear_block_write_length (Some h)) \<le> unat (lw_size h)"
proof -
  note wfd = lwrb_wfD[OF assms]
  let ?l = "lwrb_get_linear_block_write_length (Some h)"
  have sw: "unat (lw_size h - lw_w h) = unat (lw_size h) - unat (lw_w h)"
    using wfd by (simp add: unat_sub_le)
  then have "lw_size h - lw_w h \<noteq> 0" using wfd by auto
  then have sw1: "unat (lw_size h - lw_w h - 1) = unat (lw_size h) - unat (lw_w h) - 1"
    using sw by (simp add: unat_sub_le unat_one_le)
  have rw: "unat (lw_r h - lw_w h - 1) = unat (lw_r h) - unat (lw_w h) - 1" if "lw_w h < lw_r h"
  proof -
    have "unat (lw_r h - lw_w h) = unat (lw_r h) - unat (lw_w h)" using that by (simp add: unat_sub_le)
    moreover have "lw_r h - lw_w h \<noteq> 0" using that by auto
    ultimately show ?thesis by (simp add: unat_sub_le unat_one_le)
  qed
  have l: "unat ?l = (if lw_r h \<le> lw_w h
      then unat (lw_size h) - unat (lw_w h) - (if lw_r h = 0 then 1 else 0)
      else unat (lw_r h) - unat (lw_w h) - 1)"
    using wfd(1) sw sw1 rw by (auto simp: lwrb_get_linear_block_write_length_def Let_def not_le)
  show "unat ?l \<le> unat (lwrb_get_free (Some h))"
    using wfd unat_pos[of "lw_r h"]
    by (auto simp: l lwrb_free_nat[OF assms] lwrb_full_nat[OF assms] word_le_nat_alt)
  show "unat (lw_w h) + unat ?l \<le> unat (lw_size h)"
    using wfd by (auto simp: l word_le_nat_alt)
qed

text \<open>
  a peripheral that writes its bytes itself may write up to the linear write length at the
  linear write address: it stays inside the memory, destroys no stored byte, and after
  \<open>lwrb_advance\<close> with the number of bytes transferred those bytes are appended to the
  stored ones.
\<close>

lemma lwrb_dma_write:
  assumes wf: "lwrb_wf h" and xs: "xs \<noteq> []"
    and l: "length xs \<le> unat (lwrb_get_linear_block_write_length (Some h))"
  shows "\<exists>a m h'. lwrb_get_linear_block_write_address (Some h) = Some a \<and>
      wr_blk (lwrb_mem h) (unat a) xs = Some m \<and>
      lwrb_advance (Some (h\<lparr>lw_buff := Some m\<rparr>)) (of_nat (length xs)) =
        (of_nat (length xs), Some h', BUF_SEND_EVT h LWRB_EVT_WRITE (of_nat (length xs))) \<and>
      lwrb_wf h' \<and> lwrb_contents h' = lwrb_contents h @ xs"
proof -
  note wfd = lwrb_wfD[OF wf] and fits = linear_write_fits[OF wf]
  define n where "n = length xs"
  have n: "n \<noteq> 0" "n \<le> unat (lwrb_get_free (Some h))" "unat (lw_w h) + n \<le> length (lwrb_mem h)"
    using xs l fits wfd(2) by (auto simp: n_def)
  define m where "m = blit (lwrb_mem h) (unat (lw_w h)) xs"
  have m: "wr_blk (lwrb_mem h) (unat (lw_w h)) xs = Some m"
    using n by (simp add: wr_blk_def m_def n_def)
  have ml: "length m = unat (lw_size h)" using n wfd(2) by (simp add: m_def n_def)
  have mp: "m = ring_put (lwrb_mem h) (unat (lw_w h)) xs"
    using n wfd by (simp add: m_def n_def ring_put_def Let_def min_def)
  let ?h1 = "h\<lparr>lw_buff := Some m\<rparr>"
  have wf1: "lwrb_wf ?h1" using wf ml by (simp add: lwrb_wf_def BUF_IS_VALID_def)
  have fr: "lwrb_get_free (Some ?h1) = lwrb_get_free (Some h)"
    by (simp add: lwrb_get_free_def BUF_IS_VALID_def Let_def wfd(8))
  have u: "unat (of_nat n :: u32) = n"
    using n wfd by (intro unat_of_nat32) simp
  then have n0: "(of_nat n :: u32) \<noteq> 0" using n(1) by auto
  have k: "unat (lwrb_get_full (Some h)) + length xs < unat (lw_size h)"
    using n wfd lwrb_free_nat[OF wf] lwrb_full_less[OF wf] by (simp add: n_def)
  have adv: "lwrb_advance (Some ?h1) (of_nat n) = (of_nat n,
      Some (?h1\<lparr>lw_w := of_nat ((unat (lw_w h) + n) mod unat (lw_size h))\<rparr>),
      BUF_SEND_EVT h LWRB_EVT_WRITE (of_nat n))"
    using lwrb_advance_eq[OF wf1 n0] n(2) by (simp add: fr u min_def BUF_SEND_EVT_def)
  show ?thesis
    using adv[unfolded n_def mp] lwrb_append_contents[OF wf k] m[unfolded mp] wfd(1)
    by (simp add: lwrb_get_linear_block_write_address_def mp)
qed

lemma linear_read_nat:
  assumes wf: "lwrb_wf h"
  shows "unat (lwrb_get_linear_block_read_length (Some h)) =
    (if lw_r h \<le> lw_w h then unat (lw_w h) - unat (lw_r h) else unat (lw_size h) - unat (lw_r h))"
  using lwrb_wfD[OF wf]
  by (auto simp: lwrb_get_linear_block_read_length_def Let_def unat_sub_le not_le)

text \<open>The hardware is offered something whenever the ring is not empty.\<close>

lemma linear_read_empty:
  assumes "lwrb_wf h"
  shows "lwrb_get_linear_block_read_length (Some h) = 0 \<longleftrightarrow> lwrb_contents h = []"
proof -
  have "unat (lwrb_get_linear_block_read_length (Some h)) = 0 \<longleftrightarrow> length (lwrb_contents h) = 0"
    using lwrb_wfD[OF assms]
    by (auto simp: linear_read_nat[OF assms] lwrb_full_nat[OF assms] word_le_nat_alt)
  then show ?thesis by (simp only: length_0_conv unat_eq_0)
qed

text \<open>
  a peripheral that reads the stored bytes itself finds, at the linear read address and
  over the linear read length, the oldest stored bytes, and \<open>lwrb_skip\<close> with the number of bytes transferred removes exactly those.
\<close>

lemma lwrb_dma_read:
  assumes wf: "lwrb_wf h" and n: "n \<le> lwrb_get_linear_block_read_length (Some h)" and n0: "n \<noteq> 0"
  shows "\<exists>a h'. lwrb_get_linear_block_read_address (Some h) = Some a \<and>
      rd_blk (lwrb_mem h) (unat a) (unat n) = Some (take (unat n) (lwrb_contents h)) \<and>
      lwrb_skip (Some h) n = (n, Some h', BUF_SEND_EVT h LWRB_EVT_READ n) \<and>
      lwrb_wf h' \<and> lwrb_contents h' = drop (unat n) (lwrb_contents h)"
proof -
  note wfd = lwrb_wfD[OF wf]
  note l = linear_read_nat[OF wf]
  let ?l = "lwrb_get_linear_block_read_length (Some h)"
  have lf: "unat ?l \<le> unat (lwrb_get_full (Some h))"
    using wfd by (auto simp: l lwrb_full_nat[OF wf] word_le_nat_alt)
  have un: "unat n \<le> unat ?l" using n by (simp add: word_le_nat_alt)
  have fit: "unat (lw_r h) + unat n \<le> length (lwrb_mem h)"
    using un wfd by (auto simp: l word_le_nat_alt split: if_splits)
  have "take (unat n) (drop (unat (lw_r h)) (lwrb_mem h)) = ring_get (lwrb_mem h) (unat (lw_r h)) (unat n)"
    using fit by (simp add: ring_get_def Let_def min_def)
  also have "\<dots> = cyc (lwrb_mem h) (unat (lw_r h)) (unat n)"
    using fit wfd by (intro ring_get_cyc) auto
  also have "\<dots> = take (unat n) (lwrb_contents h)"
    using un lf by (simp add: lwrb_contents_def min_def)
  finally have "rd_blk (lwrb_mem h) (unat (lw_r h)) (unat n) = Some (take (unat n) (lwrb_contents h))"
    using fit by (simp add: rd_blk_def)
  then show ?thesis
    using lwrb_skip_eq[OF wf n0] lwrb_consume_contents[OF wf, of "unat n"] un lf wfd(1)
    by (simp add: min_def lwrb_get_linear_block_read_address_def)
qed

section \<open>The ring as a byte queue\<close>

text \<open>The client's view: offer a list of bytes, ask for a number of bytes.\<close>

definition lwrb_put :: "lwrb \<Rightarrow> u8 list \<Rightarrow> (nat \<times> lwrb) option" where
  "lwrb_put h xs = map_option (\<lambda>(n, b, ev). (unat n, the b))
     (lwrb_write (Some h) (Some xs) (of_nat (length xs)))"

definition lwrb_take :: "lwrb \<Rightarrow> nat \<Rightarrow> (u8 list \<times> lwrb) option" where
  "lwrb_take h n = map_option (\<lambda>(k, d, b, ev). (take (unat k) (the d), the b))
     (lwrb_read (Some h) (Some (replicate n 0)) (of_nat n))"

interpretation lwq: byte_fifo lwrb_put lwrb_take lwrb_contents
  "\<lambda>h. unat (lw_size h) - 1" lwrb_wf "2 ^ 32"
proof unfold_locales
  fix h and xs :: "u8 list"
  assume a: "lwrb_wf h" "xs \<noteq> []" "length xs < 2 ^ 32"
  let ?n = "min (length xs) (unat (lw_size h) - 1 - length (lwrb_contents h))"
  have u: "unat (of_nat (length xs) :: u32) = length xs" using a(3) by (rule unat_of_nat_lt)
  have "unat (of_nat ?n :: u32) = ?n" using a(3) by (intro unat_of_nat_lt) simp
  then show "\<exists>q'. lwrb_put h xs = Some (?n, q') \<and> lwrb_wf q' \<and>
      unat (lw_size q') - 1 = unat (lw_size h) - 1 \<and>
      lwrb_contents q' = lwrb_contents h @ take ?n xs"
    using lwrb_write_law[OF a(1), of "of_nat (length xs)" xs]
    by (auto simp: lwrb_put_def u min.commute simp del: length_lwrb_contents)
next
  fix h n assume a: "lwrb_wf h" "n < (2 :: nat) ^ 32"
  let ?n = "min (length (lwrb_contents h)) n"
  have u: "unat (of_nat n :: u32) = n" using a(2) by (rule unat_of_nat_lt)
  have v: "unat (of_nat ?n :: u32) = ?n" using a(2) by (intro unat_of_nat_lt) simp
  have t: "take ?n (lwrb_contents h) = take n (lwrb_contents h)"
    "drop ?n (lwrb_contents h) = drop n (lwrb_contents h)"
    by (simp_all add: min_def)
  show "\<exists>q'. lwrb_take h n = Some (take n (lwrb_contents h), q') \<and> lwrb_wf q' \<and>
      unat (lw_size q') - 1 = unat (lw_size h) - 1 \<and> lwrb_contents q' = drop n (lwrb_contents h)"
    using lwrb_read_law[OF a(1), of "of_nat n" "replicate n 0"] v t
    by (auto simp: lwrb_take_def u simp del: length_lwrb_contents)
qed (rule lwrb_contents_bound)

text \<open>
  C7: for every sequence of writes and reads on a ring in use, however they interleave and
  wherever the indices wrap: no access leaves the memory, and the bytes delivered followed by
  the bytes still stored are the bytes stored at the start followed by the bytes accepted,
  in order and without loss, with never more than the size less one stored.
\<close>

theorem lwrb_stream:
  assumes "lwrb_wf h" and "\<forall>x \<in> set os. op_ok (2 ^ 32) x"
  shows "\<exists>acc del h'. fifo_run lwrb_put lwrb_take h os = Some (acc, del, h') \<and> lwrb_wf h' \<and>
    lwrb_contents h @ acc = del @ lwrb_contents h' \<and>
    length (lwrb_contents h') \<le> unat (lw_size h) - 1"
  using lwq.run_total[OF assms] lwq.run_bounded[OF assms] by auto

text \<open>
  a null or damaged handle (no memory, size zero, or a wrong magic word) is refused by every
  operation: nothing is transferred, nothing changes and no callback is called.
\<close>

lemma lwrb_invalid_handle:
  assumes "\<not> BUF_IS_VALID b"
  shows "lwrb_write b d n = Some (0, b, []) \<and> lwrb_read b d n = Some (0, d, b, []) \<and>
    lwrb_peek b k d n = Some (0, d) \<and> lwrb_skip b n = (0, b, []) \<and> lwrb_advance b n = (0, b, []) \<and>
    lwrb_get_free b = 0 \<and> lwrb_get_full b = 0 \<and> lwrb_reset b = (b, []) \<and>
    lwrb_free b = b \<and> lwrb_set_evt_fn b f = b \<and> lwrb_is_ready b = 0 \<and>
    lwrb_get_linear_block_read_length b = 0 \<and> lwrb_get_linear_block_write_length b = 0"
  using assms
  by (simp add: lwrb_write_def lwrb_read_def lwrb_peek_def lwrb_skip_def lwrb_advance_def
      lwrb_get_free_def lwrb_get_full_def lwrb_reset_def lwrb_free_def lwrb_set_evt_fn_def
      lwrb_is_ready_def lwrb_get_linear_block_read_length_def
      lwrb_get_linear_block_write_length_def)

section \<open>Witnesses\<close>

definition lw_ex :: lwrb where
  "lw_ex = \<lparr>lw_magic1 = BUF_MAGIC1, lw_buff = Some [1, 2, 3, 4], lw_size = 4, lw_r = 3, lw_w = 1,
     lw_evt_fn = Some 7, lw_magic2 = BUF_MAGIC2\<rparr>"

lemma lw_ex_wf: "lwrb_wf lw_ex"
  by (simp add: lwrb_wf_def lw_ex_def BUF_IS_VALID_def)

lemma lw_ex_full: "lwrb_get_full (Some lw_ex) = 2"
  by (simp add: lwrb_get_full_def lw_ex_def BUF_IS_VALID_def Let_def)

lemma lw_ex_contents: "lwrb_contents lw_ex = [4, 1]"
  by (simp add: lwrb_contents_def lw_ex_full) (simp add: lw_ex_def lwrb_mem_def cyc_def upt_rec)

lemma lw_ex_lengths:
  "lwrb_get_linear_block_write_length (Some lw_ex) = 1"
  "lwrb_get_linear_block_read_length (Some lw_ex) = 1"
  by (simp_all add: lwrb_get_linear_block_write_length_def
      lwrb_get_linear_block_read_length_def lw_ex_def BUF_IS_VALID_def Let_def word_le_nat_alt)

theorem lwrb_stream_witness:
  "\<exists>acc del h'. fifo_run lwrb_put lwrb_take lw_ex [Put [9, 8], Get 2, Put [7, 6, 5], Get 1] =
      Some (acc, del, h') \<and> lwrb_wf h' \<and> [4, 1] @ acc = del @ lwrb_contents h'"
  using lwrb_stream[OF lw_ex_wf, of "[Put [9, 8], Get 2, Put [7, 6, 5], Get 1]"]
  by (auto simp: lw_ex_contents)

end
