(* ===== verification/Elog_Buffer.thy ===== *)
theory Elog_Buffer
  imports Byte_Fifo Ring_Memory
begin

text \<open>
  The two log buffers of easylogger: the ring of \<^verbatim>\<open>easylogger/src/elog_async.c\<close>, which tells a
  full ring from an empty one by two flags and so uses every cell, and the linear buffer of
  \<^verbatim>\<open>easylogger/src/elog_buf.c\<close>. The buffer size is the length of the memory, the output level,
  the newline sign and the poll size are configuration and appear as parameters, and what
  reaches \<open>elog_port_output\<close> is recorded as the list of its calls.
\<close>

section \<open>The asynchronous ring\<close>

record elog_async =
  ea_buf :: "u8 list"
  ea_w :: u32
  ea_r :: u32
  ea_full :: bool
  ea_empty :: bool
  ea_enabled :: bool
  ea_init_ok :: bool

text \<open>The static initialisers of the file.\<close>

definition elog_async_static :: "u32 \<Rightarrow> elog_async" where
  "elog_async_static n = \<lparr>ea_buf = replicate (unat n) 0, ea_w = 0, ea_r = 0, ea_full = False,
     ea_empty = True, ea_enabled = False, ea_init_ok = False\<rparr>"

definition OUTPUT_BUF_SIZE :: "elog_async \<Rightarrow> u32" where
  "OUTPUT_BUF_SIZE s = of_nat (length (ea_buf s))"

definition elog_async_get_buf_used :: "elog_async \<Rightarrow> u32" where
  "elog_async_get_buf_used s =
     (if ea_w s > ea_r s then ea_w s - ea_r s
      else if \<not> ea_full s \<and> \<not> ea_empty s then OUTPUT_BUF_SIZE s - (ea_r s - ea_w s)
      else if ea_full s then OUTPUT_BUF_SIZE s
      else 0)"

definition async_get_buf_space :: "elog_async \<Rightarrow> u32" where
  "async_get_buf_space s = OUTPUT_BUF_SIZE s - elog_async_get_buf_used s"

definition async_put_log :: "u8 list \<Rightarrow> u32 \<Rightarrow> elog_async \<Rightarrow> (u32 \<times> elog_async) option" where
  "async_put_log log sz s =
     (let space = async_get_buf_space s; N = OUTPUT_BUF_SIZE s
      in if space = 0 then Some (0, s)
      else do {
        let (sz, full) = (if space \<le> sz then (space, True) else (sz, ea_full s));
        (m, w) \<leftarrow> (if ea_w s + sz < N
                  then do { xs \<leftarrow> rd_blk log 0 (unat sz);
                            m \<leftarrow> wr_blk (ea_buf s) (unat (ea_w s)) xs;
                            Some (m, ea_w s + sz) }
                  else do { xs \<leftarrow> rd_blk log 0 (unat (N - ea_w s));
                            m \<leftarrow> wr_blk (ea_buf s) (unat (ea_w s)) xs;
                            ys \<leftarrow> rd_blk log (unat (N - ea_w s)) (unat (sz - (N - ea_w s)));
                            m \<leftarrow> wr_blk m 0 ys;
                            Some (m, ea_w s + (sz - N)) });
        Some (sz, s\<lparr>ea_buf := m, ea_w := w, ea_full := full, ea_empty := False\<rparr>) })"

text \<open>The array \<open>log\<close> the caller passes is answered as it is afterwards.\<close>

definition elog_async_get_log ::
  "u8 list \<Rightarrow> u32 \<Rightarrow> elog_async \<Rightarrow> (u32 \<times> u8 list \<times> elog_async) option" where
  "elog_async_get_log log sz s =
     (let used = elog_async_get_buf_used s; N = OUTPUT_BUF_SIZE s
      in if used = 0 \<or> sz = 0 then Some (0, log, s)
      else do {
        let (sz, empty) = (if used \<le> sz then (used, True) else (sz, ea_empty s));
        (d, r) \<leftarrow> (if ea_r s + sz < N
                  then do { xs \<leftarrow> rd_blk (ea_buf s) (unat (ea_r s)) (unat sz);
                            d \<leftarrow> wr_blk log 0 xs;
                            Some (d, ea_r s + sz) }
                  else do { xs \<leftarrow> rd_blk (ea_buf s) (unat (ea_r s)) (unat (N - ea_r s));
                            d \<leftarrow> wr_blk log 0 xs;
                            ys \<leftarrow> rd_blk (ea_buf s) 0 (unat (sz - (N - ea_r s)));
                            d \<leftarrow> wr_blk d (unat (N - ea_r s)) ys;
                            Some (d, ea_r s + (sz - N)) });
        Some (sz, d, s\<lparr>ea_r := r, ea_empty := empty, ea_full := False\<rparr>) })"

text \<open>
  \<open>elog_cpyln\<close> copies byte by byte and stops once the bytes copied end in the newline sign
  \<open>nl\<close> (which holds no zero byte, so \<open>strncmp\<close> compares all of it); the result is the
  list of bytes copied out of the \<open>len\<close> bytes given.
\<close>

fun cpyln_loop :: "u8 list \<Rightarrow> u8 list \<Rightarrow> u8 list \<Rightarrow> u8 list" where
  "cpyln_loop nl line [] = line"
| "cpyln_loop nl line (x # xs) =
     (let d = line @ [x]
      in if length nl \<le> length d \<and> drop (length d - length nl) d = nl then d
         else cpyln_loop nl d xs)"

definition elog_cpyln :: "u8 list \<Rightarrow> u8 list \<Rightarrow> u8 list" where
  "elog_cpyln nl log = cpyln_loop nl [] log"

definition elog_async_get_line_log ::
  "u8 list \<Rightarrow> u8 list \<Rightarrow> u32 \<Rightarrow> elog_async \<Rightarrow> (u32 \<times> u8 list \<times> elog_async) option" where
  "elog_async_get_line_log nl log sz s =
     (let used = elog_async_get_buf_used s; N = OUTPUT_BUF_SIZE s
      in if used = 0 \<or> sz = 0 then Some (0, log, s)
      else do {
        let sz = (if used \<le> sz then used else sz);
        (n, d, r) \<leftarrow>
          (if ea_r s + sz < N
           then do { src \<leftarrow> rd_blk (ea_buf s) (unat (ea_r s)) (unat sz);
                     let xs = elog_cpyln nl src;
                     d \<leftarrow> wr_blk log 0 xs;
                     Some (of_nat (length xs), d, ea_r s + of_nat (length xs)) }
           else do { src \<leftarrow> rd_blk (ea_buf s) (unat (ea_r s)) (unat (N - ea_r s));
                     let xs = elog_cpyln nl src;
                     d \<leftarrow> wr_blk log 0 xs;
                     let c = (of_nat (length xs) :: u32);
                     if c = N - ea_r s
                     then do { src \<leftarrow> rd_blk (ea_buf s) 0 (unat (sz - c));
                               let ys = elog_cpyln nl src;
                               d \<leftarrow> wr_blk d (unat c) ys;
                               let c = c + of_nat (length ys);
                               Some (c, d, ea_r s + (c - N)) }
                     else Some (c, d, ea_r s + c) });
        Some (n, d, s\<lparr>ea_r := r, ea_empty := (if used = n then True else ea_empty s),
                     ea_full := (if n \<noteq> 0 then False else ea_full s)\<rparr>) })"

text \<open>
  \<open>elog_async_output\<close>: what the port receives directly, and whether the output thread is
  notified.
\<close>

definition elog_async_output ::
  "u8 \<Rightarrow> u8 \<Rightarrow> u8 list \<Rightarrow> u32 \<Rightarrow> elog_async \<Rightarrow> (u8 list list \<times> bool \<times> elog_async) option" where
  "elog_async_output OUTPUT_LVL level log sz s =
     (if ea_enabled s
      then if OUTPUT_LVL = 0 \<or> level \<ge> OUTPUT_LVL
           then do { (put_size, s) \<leftarrow> async_put_log log sz s; Some ([], put_size > 0, s) }
           else do { xs \<leftarrow> rd_blk log 0 (unat sz); Some ([xs], False, s) }
      else do { xs \<leftarrow> rd_blk log 0 (unat sz); Some ([xs], False, s) })"

text \<open>
  The inner loop of the output thread with a reader \<open>get\<close> (whole or by lines) and its static
  buffer: the calls to \<open>elog_port_output\<close> until nothing is left, \<open>None\<close> when the fuel
  runs out.
\<close>

fun async_output ::
  "(u8 list \<Rightarrow> u32 \<Rightarrow> elog_async \<Rightarrow> (u32 \<times> u8 list \<times> elog_async) option) \<Rightarrow> nat \<Rightarrow>
   u8 list \<Rightarrow> elog_async \<Rightarrow> (u8 list list \<times> elog_async) option" where
  "async_output get 0 poll s = None"
| "async_output get (Suc fuel) poll s = do {
     (n, poll, s) \<leftarrow> get poll (of_nat (length poll)) s;
     if n \<noteq> 0
     then do { xs \<leftarrow> rd_blk poll 0 (unat n);
               (out, s) \<leftarrow> async_output get fuel poll s;
               Some (xs # out, s) }
     else Some ([], s) }"

definition elog_async_enabled :: "bool \<Rightarrow> elog_async \<Rightarrow> elog_async" where
  "elog_async_enabled e s = s\<lparr>ea_enabled := e\<rparr>"

text \<open>Creating the output thread is the work of the operating system.\<close>

definition elog_async_init :: "elog_async \<Rightarrow> elog_async" where
  "elog_async_init s = (if ea_init_ok s then s else s\<lparr>ea_init_ok := True\<rparr>)"

section \<open>The ring's invariant and contents\<close>

definition ea_wf :: "elog_async \<Rightarrow> bool" where
  "ea_wf s \<longleftrightarrow> 0 < length (ea_buf s) \<and> length (ea_buf s) \<le> 2 ^ 31 \<and>
     unat (ea_w s) < length (ea_buf s) \<and> unat (ea_r s) < length (ea_buf s) \<and>
     \<not> (ea_full s \<and> ea_empty s) \<and> (ea_w s = ea_r s \<longleftrightarrow> ea_full s \<or> ea_empty s)"

definition ea_contents :: "elog_async \<Rightarrow> u8 list" where
  "ea_contents s = cyc (ea_buf s) (unat (ea_r s)) (unat (elog_async_get_buf_used s))"

lemma ea_static_wf: "0 < n \<Longrightarrow> unat n \<le> 2 ^ 31 \<Longrightarrow>
    ea_wf (elog_async_static n) \<and> ea_contents (elog_async_static n) = []"
  by (simp add: ea_wf_def elog_async_static_def ea_contents_def elog_async_get_buf_used_def unat_pos)

lemma ea_wfD:
  assumes "ea_wf s"
  shows "0 < length (ea_buf s)" "length (ea_buf s) \<le> 2 ^ 31"
    "unat (ea_w s) < length (ea_buf s)" "unat (ea_r s) < length (ea_buf s)"
    "unat (OUTPUT_BUF_SIZE s) = length (ea_buf s)"
  using assms by (auto simp: ea_wf_def OUTPUT_BUF_SIZE_def unat_of_nat32)

lemma ea_used_nat:
  assumes "ea_wf s"
  shows "unat (elog_async_get_buf_used s) =
    (if ea_full s then length (ea_buf s) else if ea_empty s then 0
     else if unat (ea_r s) < unat (ea_w s) then unat (ea_w s) - unat (ea_r s)
     else length (ea_buf s) - (unat (ea_r s) - unat (ea_w s)))"
proof -
  have rw: "unat (OUTPUT_BUF_SIZE s - (ea_r s - ea_w s)) =
      length (ea_buf s) - (unat (ea_r s) - unat (ea_w s))" if "ea_w s \<le> ea_r s"
  proof -
    have d: "unat (ea_r s - ea_w s) = unat (ea_r s) - unat (ea_w s)"
      using that by (rule unat_sub_le)
    then have "ea_r s - ea_w s \<le> OUTPUT_BUF_SIZE s"
      using ea_wfD[OF assms] by (simp add: word_le_nat_alt)
    with d show ?thesis using ea_wfD(5)[OF assms] by (simp add: unat_sub_le)
  qed
  show ?thesis
    using assms rw ea_wfD(5)[OF assms]
    by (auto simp: elog_async_get_buf_used_def ea_wf_def unat_sub_le word_less_nat_alt[symmetric] not_less)
qed

lemma length_ea_contents [simp]: "length (ea_contents s) = unat (elog_async_get_buf_used s)"
  by (simp add: ea_contents_def)

lemma ea_used_le: "ea_wf s \<Longrightarrow> unat (elog_async_get_buf_used s) \<le> length (ea_buf s)"
  using ea_wfD[of s] by (auto simp: ea_used_nat)

lemma ea_space_nat:
  assumes "ea_wf s"
  shows "unat (async_get_buf_space s) = length (ea_buf s) - unat (elog_async_get_buf_used s)"
  using ea_used_le[OF assms] ea_wfD(5)[OF assms]
  by (simp add: async_get_buf_space_def unat_sub_le word_le_nat_alt)

lemma ea_w_of_r:
  assumes "ea_wf s"
  shows "(unat (ea_r s) + unat (elog_async_get_buf_used s)) mod length (ea_buf s) = unat (ea_w s)"
proof (cases "ea_full s \<or> ea_empty s")
  case True
  then show ?thesis using assms ea_wfD[OF assms] by (auto simp: ea_used_nat[OF assms] ea_wf_def)
next
  case False
  then have ne: "unat (ea_w s) \<noteq> unat (ea_r s)"
    using assms by (auto simp: ea_wf_def word_unat_eq_iff)
  with False ea_wfD[OF assms] ea_used_le[OF assms] show ?thesis
    by (subst wrap_add) (auto simp: ea_used_nat[OF assms])
qed

text \<open>
  An update that moves the indices consistently with a new fill level \<open>f\<close> and sets the flags
  at the two extremes keeps the invariant, and \<open>f\<close> bytes are stored afterwards.
\<close>

lemma ea_wf_intro:
  assumes "0 < length (ea_buf s)" "length (ea_buf s) \<le> 2 ^ 31"
    and r: "unat (ea_r s) < length (ea_buf s)" and f: "f \<le> length (ea_buf s)"
    and w: "unat (ea_w s) = (unat (ea_r s) + f) mod length (ea_buf s)"
    and "ea_full s \<longleftrightarrow> f = length (ea_buf s)" "ea_empty s \<longleftrightarrow> f = 0"
  shows "ea_wf s" and "unat (elog_async_get_buf_used s) = f"
proof -
  have we: "unat (ea_w s) = (if unat (ea_r s) + f < length (ea_buf s) then unat (ea_r s) + f
      else unat (ea_r s) + f - length (ea_buf s))"
    unfolding w using r f by (rule wrap_add)
  have "ea_w s = ea_r s \<longleftrightarrow> unat (ea_w s) = unat (ea_r s)" by (simp add: word_unat_eq_iff)
  then show wf: "ea_wf s" using assms we by (auto simp: ea_wf_def split: if_splits)
  show "unat (elog_async_get_buf_used s) = f"
    using assms(6,7) r f we by (auto simp: ea_used_nat[OF wf] split: if_splits)
qed

section \<open>Putting and getting\<close>

lemma unat_add_sub_wrap:
  fixes a b c :: u32
  assumes "b \<le> c" "unat c \<le> unat a + unat b"
  shows "unat (a + (b - c)) = unat a + unat b - unat c"
proof -
  have e: "a + (b - c) = a - (c - b)" by simp
  have u: "unat (c - b) = unat c - unat b" using assms(1) by (rule unat_sub_le)
  then have "c - b \<le> a" using assms by (simp add: word_le_nat_alt)
  then have "unat (a - (c - b)) = unat a - (unat c - unat b)" by (simp only: unat_sub_le u)
  then show ?thesis unfolding e using assms by (simp add: word_le_nat_alt)
qed

lemma async_put_log_eq:
  assumes wf: "ea_wf s" and d: "unat sz \<le> length log"
  defines "N \<equiv> length (ea_buf s)" and "u \<equiv> unat (elog_async_get_buf_used s)"
  defines "k \<equiv> min (N - u) (unat sz)"
  assumes sp: "u < N"
  shows "async_put_log log sz s = Some (of_nat k,
    s\<lparr>ea_buf := ring_put (ea_buf s) (unat (ea_w s)) (take k log),
      ea_w := of_nat ((unat (ea_w s) + k) mod N),
      ea_full := (N - u \<le> unat sz \<or> ea_full s), ea_empty := False\<rparr>)"
proof -
  note wfd = ea_wfD[OF wf]
  have su: "unat (async_get_buf_space s) = N - u" by (simp add: ea_space_nat[OF wf] N_def u_def)
  then have s0: "async_get_buf_space s \<noteq> 0" using sp by auto
  define b where "b = (if async_get_buf_space s \<le> sz then async_get_buf_space s else sz)"
  have ub: "unat b = k" by (auto simp: b_def k_def su word_le_nat_alt)
  have kN: "k \<le> N" and kl: "k \<le> length log" using d by (auto simp: k_def)
  have bk: "b = of_nat k" using kN wfd(2) ub by (intro eq_of_nat32) (auto simp: N_def)
  have wN: "unat (ea_w s) < N" using wfd by (simp add: N_def)
  have ua: "unat (ea_w s + b) = unat (ea_w s) + k"
    using wfd kN ub by (subst unat_add_small) (auto simp: N_def)
  have if1: "(if async_get_buf_space s \<le> sz then (async_get_buf_space s, True) else (sz, ea_full s)) =
      (b, N - u \<le> unat sz \<or> ea_full s)"
    by (auto simp: b_def su word_le_nat_alt)
  let ?N = "OUTPUT_BUF_SIZE s"
  have uN: "unat ?N = N" by (simp add: wfd(5) N_def)
  have ut: "unat (?N - ea_w s) = N - unat (ea_w s)"
    using wN uN by (simp add: unat_sub_le word_le_nat_alt)
  show ?thesis
  proof (cases "ea_w s + b < ?N")
    case True
    then have lt: "unat (ea_w s) + k < N" by (simp add: word_less_nat_alt ua uN)
    have "ring_put (ea_buf s) (unat (ea_w s)) (take k log) = blit (ea_buf s) (unat (ea_w s)) (take k log)"
      using lt kl by (auto simp: ring_put_def Let_def N_def min_def)
    moreover have "ea_w s + b = of_nat ((unat (ea_w s) + k) mod N)"
      using lt wfd(2) ua by (intro eq_of_nat32) (auto simp: N_def)
    ultimately show ?thesis
      using True s0 lt kl
      by (simp add: async_put_log_def Let_def if1 ub mem_simps N_def bk[symmetric])
  next
    case False
    then have ge: "N \<le> unat (ea_w s) + k" by (simp add: word_less_nat_alt ua uN)
    let ?t = "N - unat (ea_w s)"
    have ue: "unat (b - (?N - ea_w s)) = k - ?t"
      using ge ub ut by (subst unat_sub_le) (auto simp: word_le_nat_alt)
    have rp: "ring_put (ea_buf s) (unat (ea_w s)) (take k log) =
        blit (blit (ea_buf s) (unat (ea_w s)) (take ?t log)) 0 (take (k - ?t) (drop ?t log))"
      using ge kl by (auto simp: ring_put_def Let_def N_def[symmetric] min_def drop_take)
    have "b \<le> ?N" using ub uN kN by (simp add: word_le_nat_alt)
    then have "unat (ea_w s + (b - ?N)) = unat (ea_w s) + k - N"
      using ge ub uN by (subst unat_add_sub_wrap) auto
    moreover have "(unat (ea_w s) + k) mod N = unat (ea_w s) + k - N"
      using wN kN ge by (subst wrap_add) auto
    ultimately have nw: "ea_w s + (b - ?N) = of_nat ((unat (ea_w s) + k) mod N)"
      using wN kN wfd(2) by (intro eq_of_nat32) (auto simp: N_def)
    have tl: "?t \<le> length log" "?t + (k - ?t) \<le> length log" "k - ?t \<le> N" using ge kl kN by auto
    show ?thesis
      using False s0 tl wN
      by (simp add: async_put_log_def Let_def if1 ut ue mem_simps N_def[symmetric] nw rp bk[symmetric])
  qed
qed

lemma elog_async_get_log_eq:
  assumes wf: "ea_wf s" and d: "unat sz \<le> length log"
  defines "N \<equiv> length (ea_buf s)" and "u \<equiv> unat (elog_async_get_buf_used s)"
  defines "k \<equiv> min u (unat sz)"
  assumes u0: "u \<noteq> 0" and sz0: "sz \<noteq> 0"
  shows "elog_async_get_log log sz s = Some (of_nat k, blit log 0 (cyc (ea_buf s) (unat (ea_r s)) k),
    s\<lparr>ea_r := of_nat ((unat (ea_r s) + k) mod N),
      ea_empty := (u \<le> unat sz \<or> ea_empty s), ea_full := False\<rparr>)"
proof -
  note wfd = ea_wfD[OF wf]
  let ?u = "elog_async_get_buf_used s"
  define b where "b = (if ?u \<le> sz then ?u else sz)"
  have ub: "unat b = k" by (auto simp: b_def k_def u_def word_le_nat_alt)
  have kN: "k \<le> N" and kl: "k \<le> length log"
    using d ea_used_le[OF wf] by (auto simp: k_def u_def N_def)
  have bk: "b = of_nat k" using kN wfd(2) ub by (intro eq_of_nat32) (auto simp: N_def)
  have rN: "unat (ea_r s) < N" using wfd by (simp add: N_def)
  have ua: "unat (ea_r s + b) = unat (ea_r s) + k"
    using wfd kN ub by (subst unat_add_small) (auto simp: N_def)
  have if1: "(if ?u \<le> sz then (?u, True) else (sz, ea_empty s)) = (b, u \<le> unat sz \<or> ea_empty s)"
    by (auto simp: b_def u_def word_le_nat_alt)
  have nz: "?u \<noteq> 0" using u0 by (auto simp: u_def)
  let ?N = "OUTPUT_BUF_SIZE s"
  have uN: "unat ?N = N" by (simp add: wfd(5) N_def)
  have ut: "unat (?N - ea_r s) = N - unat (ea_r s)"
    using rN uN by (simp add: unat_sub_le word_le_nat_alt)
  have cy: "cyc (ea_buf s) (unat (ea_r s)) k = ring_get (ea_buf s) (unat (ea_r s)) k"
    using rN kN by (simp add: ring_get_cyc N_def)
  show ?thesis
  proof (cases "ea_r s + b < ?N")
    case True
    then have lt: "unat (ea_r s) + k < N" by (simp add: word_less_nat_alt ua uN)
    then have "cyc (ea_buf s) (unat (ea_r s)) k = take k (drop (unat (ea_r s)) (ea_buf s))"
      by (auto simp: cy ring_get_def Let_def N_def min_def)
    moreover have "ea_r s + b = of_nat ((unat (ea_r s) + k) mod N)"
      using lt wfd(2) ua by (intro eq_of_nat32) (auto simp: N_def)
    ultimately show ?thesis
      using True nz sz0 lt kl
      by (simp add: elog_async_get_log_def Let_def if1 ub mem_simps N_def bk[symmetric])
  next
    case False
    then have ge: "N \<le> unat (ea_r s) + k" by (simp add: word_less_nat_alt ua uN)
    define t e A where "t = N - unat (ea_r s)" and "e = k - t" and "A = drop (unat (ea_r s)) (ea_buf s)"
    have ue: "unat (b - (?N - ea_r s)) = e"
      unfolding e_def t_def using ge ub ut by (subst unat_sub_le) (auto simp: word_le_nat_alt)
    have A: "take t A = A" "length A = t" by (simp_all add: t_def A_def N_def)
    have cy2: "cyc (ea_buf s) (unat (ea_r s)) k = A @ take e (ea_buf s)"
      using ge A by (auto simp: cy ring_get_def Let_def N_def[symmetric] min_def t_def e_def A_def)
    have "b \<le> ?N" using ub uN kN by (simp add: word_le_nat_alt)
    then have "unat (ea_r s + (b - ?N)) = unat (ea_r s) + k - N"
      using ge ub uN by (subst unat_add_sub_wrap) auto
    moreover have "(unat (ea_r s) + k) mod N = unat (ea_r s) + k - N"
      using rN kN ge by (subst wrap_add) auto
    ultimately have nr: "ea_r s + (b - ?N) = of_nat ((unat (ea_r s) + k) mod N)"
      using rN kN wfd(2) by (intro eq_of_nat32) (auto simp: N_def)
    have tl: "t \<le> length log" "t + e \<le> length log" "e \<le> N" using ge kl kN by (auto simp: t_def e_def)
    have wr2: "wr_blk (blit log 0 A) t (take e (ea_buf s)) =
        Some (blit log 0 (cyc (ea_buf s) (unat (ea_r s)) k))"
      using tl A blit_blit_append[of 0 A "take e (ea_buf s)" log] by (simp add: mem_simps cy2 N_def)
    have rb: "rd_blk (ea_buf s) (unat (ea_r s)) t = Some A" "rd_blk (ea_buf s) 0 e = Some (take e (ea_buf s))"
      "wr_blk log 0 A = Some (blit log 0 A)"
      using rN tl A by (simp_all add: rd_blk_def wr_blk_def t_def N_def) (simp add: A_def)
    show ?thesis
      using False nz sz0
      by (simp add: elog_async_get_log_def Let_def if1 ut[folded t_def] ue rb nr wr2 bk[symmetric])
  qed
qed

lemma ea_append:
  assumes wf: "ea_wf s" and k: "unat (elog_async_get_buf_used s) + length xs \<le> length (ea_buf s)"
    and xs: "xs \<noteq> []"
  defines "s' \<equiv> s\<lparr>ea_buf := ring_put (ea_buf s) (unat (ea_w s)) xs,
      ea_w := of_nat ((unat (ea_w s) + length xs) mod length (ea_buf s)),
      ea_full := (unat (elog_async_get_buf_used s) + length xs = length (ea_buf s)), ea_empty := False\<rparr>"
  shows "ea_wf s'" and "ea_contents s' = ea_contents s @ xs"
proof -
  note wfd = ea_wfD[OF wf]
  let ?u = "unat (elog_async_get_buf_used s)" and ?N = "length (ea_buf s)"
  have len: "length (ea_buf s') = ?N" using k wfd by (simp add: s'_def)
  have m: "(unat (ea_w s) + length xs) mod ?N = (unat (ea_r s) + (?u + length xs)) mod ?N"
    using ea_w_of_r[OF wf] by (metis add.assoc mod_add_left_eq)
  have u: "unat (of_nat ((unat (ea_w s) + length xs) mod ?N) :: u32) = (unat (ea_w s) + length xs) mod ?N"
    using wfd(1,2) by (intro unat_of_nat32) (meson less_imp_le mod_less_divisor order_trans)
  have pre: "0 < length (ea_buf s')" "length (ea_buf s') \<le> 2 ^ 31"
    "unat (ea_r s') < length (ea_buf s')" "?u + length xs \<le> length (ea_buf s')"
    "unat (ea_w s') = (unat (ea_r s') + (?u + length xs)) mod length (ea_buf s')"
    "ea_full s' \<longleftrightarrow> ?u + length xs = length (ea_buf s')" "ea_empty s' \<longleftrightarrow> ?u + length xs = 0"
    unfolding len using wfd k xs u m by (simp_all add: s'_def)
  note i = ea_wf_intro[OF pre]
  show "ea_wf s'" by (rule i(1))
  have "ea_buf s' = ring_put (ea_buf s) ((unat (ea_r s) + ?u) mod ?N) xs"
    unfolding ea_w_of_r[OF wf] by (simp add: s'_def)
  moreover have "ea_r s' = ea_r s" by (simp add: s'_def)
  ultimately show "ea_contents s' = ea_contents s @ xs"
    using cyc_ring_put[OF wfd(4) k] i(2) by (simp only: ea_contents_def)
qed

lemma ea_consume:
  assumes wf: "ea_wf s" and k: "k \<le> unat (elog_async_get_buf_used s)" and k0: "0 < k"
  defines "s' \<equiv> s\<lparr>ea_r := of_nat ((unat (ea_r s) + k) mod length (ea_buf s)),
      ea_empty := (unat (elog_async_get_buf_used s) = k), ea_full := False\<rparr>"
  shows "ea_wf s'" and "ea_contents s' = drop k (ea_contents s)"
proof -
  note wfd = ea_wfD[OF wf]
  let ?u = "unat (elog_async_get_buf_used s)" and ?N = "length (ea_buf s)"
  have r': "unat (ea_r s') = (unat (ea_r s) + k) mod ?N"
    unfolding s'_def using wfd(1,2)
    by (simp, intro unat_of_nat32) (meson less_imp_le mod_less_divisor order_trans)
  have "((unat (ea_r s) + k) mod ?N + (?u - k)) mod ?N = (unat (ea_r s) + ?u) mod ?N"
    unfolding mod_add_left_eq using k by simp
  then have w: "unat (ea_w s') = (unat (ea_r s') + (?u - k)) mod ?N"
    unfolding r' ea_w_of_r[OF wf] by (simp add: s'_def)
  have pre: "0 < length (ea_buf s')" "length (ea_buf s') \<le> 2 ^ 31"
    "unat (ea_r s') < length (ea_buf s')" "?u - k \<le> length (ea_buf s')"
    "unat (ea_w s') = (unat (ea_r s') + (?u - k)) mod length (ea_buf s')"
    "ea_full s' \<longleftrightarrow> ?u - k = length (ea_buf s')" "ea_empty s' \<longleftrightarrow> ?u - k = 0"
    using wfd k k0 ea_used_le[OF wf] w r' by (simp_all add: s'_def)
  note i = ea_wf_intro[OF pre]
  show "ea_wf s'" by (rule i(1))
  have "ea_buf s' = ea_buf s" by (simp add: s'_def)
  then show "ea_contents s' = drop k (ea_contents s)"
    using cyc_mod[of "ea_buf s" "unat (ea_r s) + k" "?u - k"]
    by (simp only: ea_contents_def i(2) r' drop_cyc)
qed

lemma async_put_log_law:
  assumes wf: "ea_wf s" and d: "unat sz \<le> length log" and sz: "sz \<noteq> 0"
  defines "k \<equiv> min (length (ea_buf s) - length (ea_contents s)) (unat sz)"
  shows "\<exists>s'. async_put_log log sz s = Some (of_nat k, s') \<and> ea_wf s' \<and>
    length (ea_buf s') = length (ea_buf s) \<and> ea_contents s' = ea_contents s @ take k log"
proof (cases "length (ea_contents s) < length (ea_buf s)")
  case False
  then have "unat (async_get_buf_space s) = 0" and "k = 0"
    by (simp_all add: ea_space_nat[OF wf] k_def)
  then have "async_get_buf_space s = 0" and "k = 0" by (simp_all add: unat_eq_0)
  then show ?thesis using wf by (simp add: async_put_log_def Let_def)
next
  case True
  let ?u = "unat (elog_async_get_buf_used s)"
  have len: "length (take k log) = k" using d by (simp add: k_def)
  have k0: "0 < k" using True unat_pos[OF sz] by (simp add: k_def)
  have fit: "?u + length (take k log) \<le> length (ea_buf s)"
    using True unfolding len by (auto simp: k_def)
  have ne: "take k log \<noteq> []" using k0 len by (metis length_0_conv less_irrefl)
  have nf: "\<not> ea_full s" using True by (auto simp: ea_used_nat[OF wf] split: if_splits)
  have ku: "min (length (ea_buf s) - ?u) (unat sz) = k" by (simp add: k_def)
  have u: "?u < length (ea_buf s)" using True by simp
  have "(?u + k = length (ea_buf s)) = (length (ea_buf s) - ?u \<le> unat sz \<or> ea_full s)"
    using nf True by (auto simp: k_def min_def)
  then show ?thesis
    using async_put_log_eq[OF wf d u, unfolded ku] ea_append[OF wf fit ne, unfolded len] fit
      ea_wfD(3)[OF wf]
    by simp
qed

lemma elog_async_get_log_law:
  assumes wf: "ea_wf s" and d: "unat sz \<le> length log"
  defines "k \<equiv> min (length (ea_contents s)) (unat sz)"
  shows "\<exists>s'. elog_async_get_log log sz s = Some (of_nat k, take k (ea_contents s) @ drop k log, s') \<and>
    ea_wf s' \<and> length (ea_buf s') = length (ea_buf s) \<and> ea_contents s' = drop k (ea_contents s)"
proof (cases "elog_async_get_buf_used s = 0 \<or> sz = 0")
  case True
  then have "k = 0" by (auto simp: k_def)
  with True wf show ?thesis by (simp add: elog_async_get_log_def Let_def)
next
  case False
  let ?u = "unat (elog_async_get_buf_used s)"
  have u0: "?u \<noteq> 0" using False by (simp add: unat_eq_0)
  have k: "k \<le> ?u" and k0: "0 < k" using u0 False unat_pos[of sz] by (auto simp: k_def)
  have ne: "\<not> ea_empty s" using u0 ea_used_nat[OF wf] wf by (auto simp: ea_wf_def)
  have e: "(?u \<le> unat sz \<or> ea_empty s) = (?u = k)" using ne by (auto simp: k_def)
  have b: "blit log 0 (cyc (ea_buf s) (unat (ea_r s)) k) = take k (ea_contents s) @ drop k log"
    by (simp add: blit_def ea_contents_def k_def)
  have "min ?u (unat sz) = k" by (simp add: k_def)
  then show ?thesis
    using elog_async_get_log_eq[OF wf d u0] False ea_consume[OF wf k k0] by (simp add: e b)
qed

section \<open>The ring as a byte queue\<close>

definition ea_put :: "elog_async \<Rightarrow> u8 list \<Rightarrow> (nat \<times> elog_async) option" where
  "ea_put s xs = map_option (\<lambda>(n, s'). (unat n, s')) (async_put_log xs (of_nat (length xs)) s)"

definition ea_get :: "elog_async \<Rightarrow> nat \<Rightarrow> (u8 list \<times> elog_async) option" where
  "ea_get s n = map_option (\<lambda>(k, d, s'). (take (unat k) d, s'))
     (elog_async_get_log (replicate n 0) (of_nat n) s)"

interpretation eaq: byte_fifo ea_put ea_get ea_contents "\<lambda>s. length (ea_buf s)" ea_wf "2 ^ 32"
proof unfold_locales
  fix s and xs :: "u8 list"
  assume a: "ea_wf s" "xs \<noteq> []" "length xs < 2 ^ 32"
  let ?n = "min (length xs) (length (ea_buf s) - length (ea_contents s))"
  have u: "unat (of_nat (length xs) :: u32) = length xs" using a(3) by (rule unat_of_nat_lt)
  then have z: "(of_nat (length xs) :: u32) \<noteq> 0" using a(2) by auto
  have "unat (of_nat ?n :: u32) = ?n" using a(3) by (intro unat_of_nat_lt) simp
  then show "\<exists>q'. ea_put s xs = Some (?n, q') \<and> ea_wf q' \<and> length (ea_buf q') = length (ea_buf s) \<and>
      ea_contents q' = ea_contents s @ take ?n xs"
    using async_put_log_law[OF a(1) _ z, of xs]
    by (auto simp: ea_put_def u min.commute simp del: length_ea_contents)
next
  fix s n assume a: "ea_wf s" "n < (2 :: nat) ^ 32"
  let ?n = "min (length (ea_contents s)) n"
  have u: "unat (of_nat n :: u32) = n" using a(2) by (rule unat_of_nat_lt)
  have v: "unat (of_nat ?n :: u32) = ?n" using a(2) by (intro unat_of_nat_lt) simp
  have t: "take ?n (ea_contents s) = take n (ea_contents s)"
    "drop ?n (ea_contents s) = drop n (ea_contents s)"
    by (simp_all add: min_def)
  show "\<exists>q'. ea_get s n = Some (take n (ea_contents s), q') \<and> ea_wf q' \<and>
      length (ea_buf q') = length (ea_buf s) \<and> ea_contents q' = drop n (ea_contents s)"
    using elog_async_get_log_law[OF a(1), of "of_nat n" "replicate n 0"] v t
    by (auto simp: ea_get_def u simp del: length_ea_contents)
qed (simp add: ea_used_le)

text \<open>
  C14: for every sequence of puts of non-empty logs and of gets, however they interleave and
  wherever the indices wrap: no access leaves the memory, and the bytes delivered followed by
  the bytes still stored are the bytes stored at the start followed by the bytes accepted, in
  order and without loss; the ring may hold as many bytes as it has cells.
\<close>

theorem elog_async_stream:
  assumes "ea_wf s" and "\<forall>x \<in> set os. op_ok (2 ^ 32) x"
  shows "\<exists>acc del s'. fifo_run ea_put ea_get s os = Some (acc, del, s') \<and> ea_wf s' \<and>
    ea_contents s @ acc = del @ ea_contents s' \<and> length (ea_contents s') \<le> length (ea_buf s)"
  using eaq.run_total[OF assms] eaq.run_bounded[OF assms] by auto

text \<open>
  an empty log put into the empty ring (which \<open>elog_raw\<close> with an empty string does)
  takes no byte and yet clears the flag \<open>buf_is_empty\<close> while the indices stay equal, so the
  ring then counts as holding the whole memory: the next reader is handed stale bytes.
\<close>

lemma async_put_log_empty_log:
  assumes "ea_wf s" and "ea_empty s"
  shows "ea_contents s = [] \<and>
    (\<exists>s'. async_put_log log 0 s = Some (0, s') \<and> elog_async_get_buf_used s' = OUTPUT_BUF_SIZE s')"
proof -
  have "elog_async_get_buf_used s = 0"
    using ea_used_nat[OF assms(1)] assms by (simp add: unat_eq_0 ea_wf_def split: if_splits)
  then have c: "ea_contents s = []" by (simp add: ea_contents_def)
  note wfd = ea_wfD[OF assms(1)]
  have w: "ea_w s < OUTPUT_BUF_SIZE s" using wfd by (simp add: word_less_nat_alt)
  have "async_get_buf_space s \<noteq> 0"
    using ea_space_nat[OF assms(1)] \<open>elog_async_get_buf_used s = 0\<close> wfd by auto
  then have "async_put_log log 0 s = Some (0, s\<lparr>ea_empty := False\<rparr>)"
    using w wfd assms by (simp add: async_put_log_def Let_def rd_blk_def wr_blk_def ea_wf_def)
  with c show ?thesis
    using assms by (auto simp: elog_async_get_buf_used_def OUTPUT_BUF_SIZE_def ea_wf_def)
qed

section \<open>Reading by lines\<close>

text \<open>The bytes copied are the shortest prefix that ends in the newline sign, or all of them.\<close>

definition ends_in :: "u8 list \<Rightarrow> u8 list \<Rightarrow> bool" where
  "ends_in nl xs \<longleftrightarrow> length nl \<le> length xs \<and> drop (length xs - length nl) xs = nl"

lemma cpyln_loop_prefix:
  "\<exists>j. cpyln_loop nl line xs = line @ take j xs \<and> j \<le> length xs \<and> (xs \<noteq> [] \<longrightarrow> 0 < j) \<and>
    (j < length xs \<longrightarrow> ends_in nl (line @ take j xs)) \<and>
    (\<forall>i < j. 0 < i \<longrightarrow> \<not> ends_in nl (line @ take i xs))"
proof (induction nl line xs rule: cpyln_loop.induct)
  case (1 nl line)
  then show ?case by simp
next
  case (2 nl line x xs)
  let ?d = "line @ [x]"
  show ?case
  proof (cases "ends_in nl ?d")
    case True
    then show ?thesis by (intro exI[of _ 1]) (simp add: ends_in_def)
  next
    case False
    obtain j where j: "cpyln_loop nl ?d xs = ?d @ take j xs" "j \<le> length xs"
      "j < length xs \<longrightarrow> ends_in nl (?d @ take j xs)"
      "\<forall>i < j. 0 < i \<longrightarrow> \<not> ends_in nl (?d @ take i xs)"
      using "2.IH"[OF refl False[unfolded ends_in_def]] by blast
    have "\<not> ends_in nl (line @ take i (x # xs))" if "i < Suc j" "0 < i" for i
      using that j(4) False by (cases i; cases "i = 1") auto
    moreover have "cpyln_loop nl line (x # xs) = line @ take (Suc j) (x # xs)"
      using False j(1) by (auto simp: ends_in_def Let_def)
    ultimately show ?thesis using j(2,3) by (intro exI[of _ "Suc j"]) auto
  qed
qed

text \<open>
  \<open>elog_cpyln\<close> copies at least one byte when there is one; when it stops before the end,
  the bytes copied end in the newline sign; and no shorter non-empty piece ends in it.
\<close>

lemma elog_cpyln_first_line:
  "\<exists>j \<le> length log. elog_cpyln nl log = take j log \<and> (log = [] \<or> 0 < j) \<and>
     (j = length log \<or> ends_in nl (take j log)) \<and>
     (\<forall>i. i = 0 \<or> j \<le> i \<or> \<not> ends_in nl (take i log))"
  using cpyln_loop_prefix[of nl "[]" log] unfolding elog_cpyln_def
  by (metis append_Nil le_eq_less_or_eq not_gr0 not_le)

lemma cpyln_takes: "\<exists>j \<le> length log. elog_cpyln nl log = take j log \<and> (log \<noteq> [] \<longrightarrow> 0 < j)"
  using cpyln_loop_prefix[of nl "[]" log] by (auto simp: elog_cpyln_def)

lemma cyc_linear: "r + n \<le> length m \<Longrightarrow> take n (drop r m) = cyc m r n"
  by (rule nth_equalityI) (auto simp: nth_cyc)

lemma wr_blk_front: "n \<le> length d \<Longrightarrow> wr_blk d 0 (cyc m r n) = Some (blit d 0 (cyc m r n))"
  by (simp add: wr_blk_def)

lemma elog_async_get_line_log_copy:
  assumes wf: "ea_wf s" and d: "unat sz \<le> length log"
    and u0: "elog_async_get_buf_used s \<noteq> 0" and sz0: "sz \<noteq> 0"
  shows "\<exists>n. 0 < n \<and> n \<le> unat (elog_async_get_buf_used s) \<and> n \<le> unat sz \<and>
    elog_async_get_line_log nl log sz s = Some (of_nat n, blit log 0 (cyc (ea_buf s) (unat (ea_r s)) n),
      s\<lparr>ea_r := of_nat ((unat (ea_r s) + n) mod length (ea_buf s)),
        ea_empty := (if elog_async_get_buf_used s = of_nat n then True else ea_empty s),
        ea_full := (if (of_nat n :: u32) \<noteq> 0 then False else ea_full s)\<rparr>)"
proof -
  note wfd = ea_wfD[OF wf]
  let ?u = "elog_async_get_buf_used s" and ?N = "OUTPUT_BUF_SIZE s"
  define N r where "N = length (ea_buf s)" and "r = unat (ea_r s)"
  define b where "b = (if ?u \<le> sz then ?u else sz)"
  define k where "k = unat b"
  have k: "k = min (unat ?u) (unat sz)" by (auto simp: k_def b_def word_le_nat_alt)
  have ku: "k \<le> unat ?u" "k \<le> unat sz" by (simp_all add: k)
  have k0: "0 < k" using u0 sz0 unat_pos[of ?u] unat_pos[of sz] by (simp add: k)
  have kN: "k \<le> N" and kl: "k \<le> length log" using d ea_used_le[OF wf] by (auto simp: k N_def)
  have rN: "r < N" and N31: "N \<le> 2 ^ 31" using wfd by (auto simp: r_def N_def)
  have uN: "unat ?N = N" by (simp add: wfd(5) N_def)
  have ua: "unat (ea_r s + b) = r + k"
    using wfd kN by (subst unat_add_small) (auto simp: N_def k_def r_def)
  have er: "of_nat r = ea_r s" by (simp add: r_def)
  note unf = elog_async_get_line_log_def Let_def b_def[symmetric] N_def[symmetric] r_def[symmetric]
    k_def[symmetric]
  show ?thesis
  proof (cases "ea_r s + b < ?N")
    case True
    then have lt: "r + k < N" by (simp add: word_less_nat_alt ua uN)
    let ?src = "cyc (ea_buf s) r k"
    obtain j where j: "j \<le> k" "elog_cpyln nl ?src = take j ?src" "0 < j"
      using cpyln_takes[of ?src nl] k0 by (auto simp del: take_cyc simp flip: length_0_conv)
    then have cj: "elog_cpyln nl ?src = cyc (ea_buf s) r j" by (simp add: min_def)
    have rb: "rd_blk (ea_buf s) r k = Some ?src"
      using lt by (simp add: rd_blk_def N_def cyc_linear)
    show ?thesis
      using True u0 sz0 j ku kl lt
      by (intro exI[of _ j]) (simp add: er unf rb cj wr_blk_front)
  next
    case False
    then have ge: "N \<le> r + k" by (simp add: word_less_nat_alt ua uN)
    define t where "t = N - r"
    have t0: "0 < t" "t \<le> k" "t \<le> N" "r + t = N" using rN ge by (auto simp: t_def)
    have ut: "unat (?N - ea_r s) = t"
      using rN uN by (simp add: unat_sub_le word_le_nat_alt r_def t_def)
    then have tw: "?N - ea_r s = of_nat t" using t0 N31 by (intro eq_of_nat32) auto
    let ?src = "cyc (ea_buf s) r t"
    obtain j where j: "j \<le> t" "elog_cpyln nl ?src = take j ?src" "0 < j"
      using cpyln_takes[of ?src nl] t0 by (auto simp del: take_cyc simp flip: length_0_conv)
    then have cj: "elog_cpyln nl ?src = cyc (ea_buf s) r j" by (simp add: min_def)
    have rb: "rd_blk (ea_buf s) r t = Some ?src"
      using t0 cyc_linear[of r t "ea_buf s"] by (simp add: rd_blk_def N_def)
    have ut2: "unat (of_nat t :: u32) = t" using t0 N31 by (intro unat_of_nat32) auto
    have ojt: "(of_nat j :: u32) = of_nat t \<longleftrightarrow> j = t"
      using j t0 N31 by (auto simp: word_unat_eq_iff unat_of_nat32)
    show ?thesis
    proof (cases "j = t")
      case False
      then have "r + j < N" using j t0 by linarith
      then show ?thesis
        using \<open>\<not> ea_r s + b < ?N\<close> False u0 sz0 j ku kl t0 \<open>r + j < N\<close>
        by (intro exI[of _ j]) (simp add: er unf ut ut2 tw rb cj wr_blk_front ojt)
    next
      case True
      let ?src2 = "cyc (ea_buf s) 0 (k - t)"
      obtain i where i: "i \<le> k - t" "elog_cpyln nl ?src2 = take i ?src2"
        using cpyln_takes[of ?src2 nl] unfolding length_cyc by blast
      then have ci: "elog_cpyln nl ?src2 = cyc (ea_buf s) 0 i" by (simp add: min_def)
      have ub: "unat (b - of_nat t) = k - t"
        using t0 ut2 by (subst unat_sub_le) (auto simp: word_le_nat_alt k_def)
      have rb2: "rd_blk (ea_buf s) 0 (k - t) = Some ?src2"
        using kN cyc_linear[of 0 "k - t" "ea_buf s"] by (simp add: rd_blk_def N_def)
      have "cyc (ea_buf s) r (t + i) = ?src @ cyc (ea_buf s) N i"
        using t0 by (simp add: cyc_append)
      moreover have "cyc (ea_buf s) N i = cyc (ea_buf s) 0 i"
        using cyc_mod[of "ea_buf s" N i] by (simp add: N_def)
      ultimately have cc: "cyc (ea_buf s) r (t + i) = ?src @ cyc (ea_buf s) 0 i" by simp
      have ti: "t + i \<le> length log" "t + i \<le> k" using i kl t0 by auto
      have wb2: "wr_blk (blit log 0 ?src) t (cyc (ea_buf s) 0 i) =
          Some (blit log 0 (cyc (ea_buf s) r (t + i)))"
        using ti blit_blit_append[of 0 ?src "cyc (ea_buf s) 0 i" log]
        by (simp add: wr_blk_def cc)
      have uti: "unat (of_nat t + of_nat i :: u32) = t + i"
        using unat_of_nat32[of "t + i"] ti kN N31 by simp
      have "unat (ea_r s + (of_nat t + of_nat i - ?N)) = r + (t + i) - N"
        using ti kN t0 uti uN by (subst unat_add_sub_wrap) (auto simp: word_le_nat_alt r_def)
      moreover have "(r + (t + i)) mod N = r + (t + i) - N"
        using rN ti kN t0 by (subst wrap_add) auto
      ultimately have nr: "ea_r s + (of_nat t + of_nat i - ?N) = of_nat ((r + (t + i)) mod N)"
        using ti kN rN N31 by (intro eq_of_nat32) auto
      show ?thesis
        using \<open>\<not> ea_r s + b < ?N\<close> True u0 sz0 j ku t0 ti
        by (intro exI[of _ "t + i"])
          (simp add: unf ut tw rb cj wr_blk_front ub ut2 rb2 ci wb2 nr)
    qed
  qed
qed

section \<open>The output thread\<close>

text \<open>
  What the output thread needs of a reader: given an array it delivers into it a prefix of the
  stored bytes, removes exactly that prefix, and delivers nothing only when nothing is stored.
\<close>

locale log_reader =
  fixes get :: "u8 list \<Rightarrow> u32 \<Rightarrow> elog_async \<Rightarrow> (u32 \<times> u8 list \<times> elog_async) option"
  assumes get_prefix: "ea_wf s \<Longrightarrow> poll \<noteq> [] \<Longrightarrow> length poll < 2 ^ 32 \<Longrightarrow>
    \<exists>n s'. n \<le> length poll \<and> n \<le> length (ea_contents s) \<and> (n = 0 \<longleftrightarrow> ea_contents s = []) \<and>
      get poll (of_nat (length poll)) s = Some (of_nat n, take n (ea_contents s) @ drop n poll, s') \<and>
      ea_wf s' \<and> ea_contents s' = drop n (ea_contents s)"
begin

lemma drains:
  "ea_wf s \<Longrightarrow> poll \<noteq> [] \<Longrightarrow> length poll < 2 ^ 32 \<Longrightarrow> length (ea_contents s) < fuel \<Longrightarrow>
   \<exists>out s'. async_output get fuel poll s = Some (out, s') \<and> concat out = ea_contents s \<and>
     ea_wf s' \<and> ea_contents s' = []"
proof (induction fuel arbitrary: poll s)
  case 0
  then show ?case by simp
next
  case (Suc fuel)
  obtain n s1 where g: "n \<le> length poll" "n \<le> length (ea_contents s)"
    "n = 0 \<longleftrightarrow> ea_contents s = []"
    "get poll (of_nat (length poll)) s = Some (of_nat n, take n (ea_contents s) @ drop n poll, s1)"
    "ea_wf s1" "ea_contents s1 = drop n (ea_contents s)"
    using get_prefix[OF Suc.prems(1-3)] by blast
  let ?p = "take n (ea_contents s) @ drop n poll"
  show ?case
  proof (cases "n = 0")
    case True
    with g show ?thesis by simp
  next
    case False
    have u: "unat (of_nat n :: u32) = n" using g(1) Suc.prems(3) by (intro unat_of_nat_lt) simp
    then have nz: "(of_nat n :: u32) \<noteq> 0" using False by auto
    have len: "length ?p = length poll" using g(1,2) by simp
    have "?p \<noteq> []" "length ?p < 2 ^ 32" using Suc.prems(2,3) len by (metis length_0_conv, simp only: len)
    moreover have "length (ea_contents s1) < fuel"
      using g(2,6) False Suc.prems(4) by (simp del: length_ea_contents)
    ultimately obtain out s' where r: "async_output get fuel ?p s1 = Some (out, s')"
      "concat out = ea_contents s1" "ea_wf s'" "ea_contents s' = []"
      using Suc.IH[OF g(5)] by blast
    have "rd_blk ?p 0 (unat (of_nat n :: u32)) = Some (take n (ea_contents s))"
      using g(1,2) by (simp add: rd_blk_def u del: length_ea_contents)
    then have "async_output get (Suc fuel) poll s = Some (take n (ea_contents s) # out, s')"
      using g(4) nz r(1) by simp
    then show ?thesis using r g(6) by simp
  qed
qed

end

interpretation whole: log_reader elog_async_get_log
proof
  fix s and poll :: "u8 list"
  assume a: "ea_wf s" "poll \<noteq> []" "length poll < 2 ^ 32"
  have u: "unat (of_nat (length poll) :: u32) = length poll" using a(3) by (rule unat_of_nat_lt)
  then show "\<exists>n s'. n \<le> length poll \<and> n \<le> length (ea_contents s) \<and> (n = 0 \<longleftrightarrow> ea_contents s = []) \<and>
      elog_async_get_log poll (of_nat (length poll)) s =
        Some (of_nat n, take n (ea_contents s) @ drop n poll, s') \<and>
      ea_wf s' \<and> ea_contents s' = drop n (ea_contents s)"
    using elog_async_get_log_law[OF a(1), of "of_nat (length poll)" poll] a(2)
    by (intro exI[of _ "min (length (ea_contents s)) (length poll)"])
      (auto simp: min_def simp del: length_ea_contents)
qed

lemma elog_async_get_line_log_law:
  assumes wf: "ea_wf s" and d: "unat sz \<le> length log" and sz: "sz \<noteq> 0"
  shows "\<exists>n s'. n \<le> unat sz \<and> n \<le> length (ea_contents s) \<and> (n = 0 \<longleftrightarrow> ea_contents s = []) \<and>
      elog_async_get_line_log nl log sz s =
        Some (of_nat n, take n (ea_contents s) @ drop n log, s') \<and>
      ea_wf s' \<and> ea_contents s' = drop n (ea_contents s)"
proof (cases "elog_async_get_buf_used s = 0")
  case True
  then have "ea_contents s = []" by (simp add: ea_contents_def)
  with True wf show ?thesis by (simp add: elog_async_get_line_log_def Let_def)
next
  case False
  let ?u = "unat (elog_async_get_buf_used s)"
  obtain n where n: "0 < n" "n \<le> ?u" "n \<le> unat sz"
    "elog_async_get_line_log nl log sz s = Some (of_nat n, blit log 0 (cyc (ea_buf s) (unat (ea_r s)) n),
      s\<lparr>ea_r := of_nat ((unat (ea_r s) + n) mod length (ea_buf s)),
        ea_empty := (if elog_async_get_buf_used s = of_nat n then True else ea_empty s),
        ea_full := (if (of_nat n :: u32) \<noteq> 0 then False else ea_full s)\<rparr>)"
    using elog_async_get_line_log_copy[OF wf d False sz] by blast
  have un: "unat (of_nat n :: u32) = n"
    using n(2) ea_used_le[OF wf] ea_wfD(2)[OF wf] by (intro unat_of_nat32) simp
  then have nz: "(of_nat n :: u32) \<noteq> 0" using n(1) by auto
  have ue: "elog_async_get_buf_used s = of_nat n \<longleftrightarrow> ?u = n" by (simp add: word_unat_eq_iff un)
  have "?u \<noteq> 0" using False by (simp add: unat_eq_0)
  then have ne: "\<not> ea_empty s" using ea_used_nat[OF wf] wf by (auto simp: ea_wf_def)
  have b: "blit log 0 (cyc (ea_buf s) (unat (ea_r s)) n) = take n (ea_contents s) @ drop n log"
    using n(2) by (simp add: blit_def ea_contents_def min_def)
  have "ea_contents s \<noteq> []" using \<open>?u \<noteq> 0\<close> by (metis length_ea_contents length_0_conv)
  moreover have "(if elog_async_get_buf_used s = of_nat n then True else ea_empty s) = (?u = n)"
    using ne ue by simp
  ultimately show ?thesis
    using n(1-3) n(4)[unfolded b] ea_consume[OF wf n(2,1)] nz by (intro exI[of _ n]) simp
qed

interpretation lines: log_reader "elog_async_get_line_log nl" for nl
proof
  fix s and poll :: "u8 list"
  assume a: "ea_wf s" "poll \<noteq> []" "length poll < 2 ^ 32"
  have u: "unat (of_nat (length poll) :: u32) = length poll" using a(3) by (rule unat_of_nat_lt)
  then have "(of_nat (length poll) :: u32) \<noteq> 0" using a(2) by auto
  from elog_async_get_line_log_law[OF a(1) _ this, of poll nl]
  show "\<exists>n s'. n \<le> length poll \<and> n \<le> length (ea_contents s) \<and> (n = 0 \<longleftrightarrow> ea_contents s = []) \<and>
      elog_async_get_line_log nl poll (of_nat (length poll)) s =
        Some (of_nat n, take n (ea_contents s) @ drop n poll, s') \<and>
      ea_wf s' \<and> ea_contents s' = drop n (ea_contents s)"
    by (auto simp: u simp del: length_ea_contents)
qed

text \<open>
  C38: whichever reader is configured, one wake-up of the output thread ends after at most one
  round per stored byte, and the pieces it hands to the port are, put together, exactly the
  stored bytes in order; the ring is empty afterwards.
\<close>

theorem async_output_drains:
  assumes "ea_wf s" and "poll \<noteq> []" and "length poll < 2 ^ 32" and "length (ea_contents s) < fuel"
    and "get = elog_async_get_log \<or> get = elog_async_get_line_log nl"
  shows "\<exists>out s'. async_output get fuel poll s = Some (out, s') \<and> concat out = ea_contents s \<and>
     ea_wf s' \<and> ea_contents s' = []"
  using assms(5) whole.drains[OF assms(1-4)] lines.drains[OF assms(1-4)] by auto

section \<open>The linear buffer\<close>

record elog_buf =
  eb_buf :: "u8 list"
  eb_size :: u32
  eb_enabled :: bool

definition ELOG_BUF_OUTPUT_BUF_SIZE :: "elog_buf \<Rightarrow> u32" where
  "ELOG_BUF_OUTPUT_BUF_SIZE s = of_nat (length (eb_buf s))"

text \<open>
  The loop of \<open>elog_buf_output\<close>: \<open>i\<close> is \<open>write_index\<close>, \<open>sz\<close> the size still to be
  written; the calls of the port come first in the answer. Running out of fuel is \<open>None\<close>.
\<close>

fun elog_buf_loop ::
  "nat \<Rightarrow> u8 list \<Rightarrow> u32 \<Rightarrow> u32 \<Rightarrow> elog_buf \<Rightarrow> (u8 list list \<times> elog_buf) option" where
  "elog_buf_loop 0 log i sz s = None"
| "elog_buf_loop (Suc fuel) log i sz s =
     (if eb_size s + sz > ELOG_BUF_OUTPUT_BUF_SIZE s
      then do {
        let n = ELOG_BUF_OUTPUT_BUF_SIZE s - eb_size s;
        xs \<leftarrow> rd_blk log (unat i) (unat n);
        m \<leftarrow> wr_blk (eb_buf s) (unat (eb_size s)) xs;
        out1 \<leftarrow> rd_blk m 0 (unat (eb_size s + n));
        (out, s) \<leftarrow> elog_buf_loop fuel log (i + n) (sz - n) (s\<lparr>eb_buf := m, eb_size := 0\<rparr>);
        Some (out1 # out, s) }
      else do {
        xs \<leftarrow> rd_blk log (unat i) (unat sz);
        m \<leftarrow> wr_blk (eb_buf s) (unat (eb_size s)) xs;
        Some ([], s\<lparr>eb_buf := m, eb_size := eb_size s + sz\<rparr>) })"

definition elog_buf_output ::
  "nat \<Rightarrow> u8 list \<Rightarrow> u32 \<Rightarrow> elog_buf \<Rightarrow> (u8 list list \<times> elog_buf) option" where
  "elog_buf_output fuel log sz s =
     (if \<not> eb_enabled s then do { xs \<leftarrow> rd_blk log 0 (unat sz); Some ([xs], s) }
      else elog_buf_loop fuel log 0 sz s)"

definition elog_flush :: "elog_buf \<Rightarrow> (u8 list list \<times> elog_buf) option" where
  "elog_flush s =
     (if eb_size s = 0 then Some ([], s)
      else do { out \<leftarrow> rd_blk (eb_buf s) 0 (unat (eb_size s)); Some ([out], s\<lparr>eb_size := 0\<rparr>) })"

definition elog_buf_enabled :: "bool \<Rightarrow> elog_buf \<Rightarrow> elog_buf" where
  "elog_buf_enabled e s = s\<lparr>eb_enabled := e\<rparr>"

definition eb_wf :: "elog_buf \<Rightarrow> bool" where
  "eb_wf s \<longleftrightarrow> 0 < length (eb_buf s) \<and> length (eb_buf s) < 2 ^ 31 \<and> unat (eb_size s) \<le> length (eb_buf s)"

definition eb_pending :: "elog_buf \<Rightarrow> u8 list" where
  "eb_pending s = take (unat (eb_size s)) (eb_buf s)"

lemma take_blit_end:
  "i + length xs \<le> length m \<Longrightarrow> take (i + length xs) (blit m i xs) = take i m @ xs"
  by (cases xs) (auto simp: blit_def min_def)

lemma elog_buf_loop_law:
  assumes "eb_wf s" "eb_enabled s" "unat i + unat sz \<le> length log" "length log < 2 ^ 31"
    "unat (eb_size s) + unat sz < fuel * length (eb_buf s)"
  shows "\<exists>out s'. elog_buf_loop fuel log i sz s = Some (out, s') \<and> eb_wf s' \<and> eb_enabled s' \<and>
    length (eb_buf s') = length (eb_buf s) \<and>
    concat out @ eb_pending s' = eb_pending s @ take (unat sz) (drop (unat i) log)"
  using assms
proof (induction fuel arbitrary: i sz s)
  case 0
  then show ?case by simp
next
  case (Suc fuel)
  let ?N = "length (eb_buf s)" and ?b = "unat (eb_size s)"
  have wf: "0 < ?N" "?N < 2 ^ 31" "?b \<le> ?N" using Suc.prems(1) by (auto simp: eb_wf_def)
  have uN: "unat (ELOG_BUF_OUTPUT_BUF_SIZE s) = ?N"
    using wf by (simp add: ELOG_BUF_OUTPUT_BUF_SIZE_def unat_of_nat32)
  have ub: "unat (eb_size s + sz) = ?b + unat sz"
    using wf Suc.prems by (intro unat_add_small) simp
  show ?case
  proof (cases "eb_size s + sz > ELOG_BUF_OUTPUT_BUF_SIZE s")
    case False
    then have le: "?b + unat sz \<le> ?N" by (simp add: word_less_nat_alt ub uN)
    let ?x = "take (unat sz) (drop (unat i) log)"
    have lx: "length ?x = unat sz" using Suc.prems(3) by simp
    have "rd_blk log (unat i) (unat sz) = Some ?x" using Suc.prems(3) by (simp add: mem_simps)
    moreover have "wr_blk (eb_buf s) ?b ?x = Some (blit (eb_buf s) ?b ?x)"
      using le lx by (intro wr_blk_Some) simp
    moreover have l: "length (blit (eb_buf s) ?b ?x) = ?N" using le lx by (intro length_blit) simp
    moreover have "blit (eb_buf s) ?b ?x \<noteq> []" using l wf(1) by (metis less_numeral_extra(3) list.size(3))
    moreover have "take (?b + unat sz) (blit (eb_buf s) ?b ?x) = take ?b (eb_buf s) @ ?x"
      using take_blit_end[of ?b ?x "eb_buf s"] le lx by simp
    ultimately show ?thesis
      using False wf le Suc.prems(2) by (simp add: ub eb_wf_def eb_pending_def)
  next
    case True
    then have gt: "?N < ?b + unat sz" by (simp add: word_less_nat_alt ub uN)
    define n where "n = ELOG_BUF_OUTPUT_BUF_SIZE s - eb_size s"
    have un: "unat n = ?N - ?b" using wf uN by (simp add: n_def unat_sub_le word_le_nat_alt)
    let ?x = "take (unat n) (drop (unat i) log)"
    let ?m = "blit (eb_buf s) ?b ?x" and ?s1 = "s\<lparr>eb_buf := blit (eb_buf s) ?b ?x, eb_size := 0\<rparr>"
    have nz: "unat n \<le> unat sz" using gt un by simp
    have lx: "length ?x = unat n" using Suc.prems(3) nz by simp
    have rb: "rd_blk log (unat i) (unat n) = Some ?x"
      using Suc.prems(3) nz by (simp add: mem_simps)
    have wb: "wr_blk (eb_buf s) ?b ?x = Some ?m" using lx un wf by (intro wr_blk_Some) simp
    have lm: "length ?m = ?N" using lx un wf by (intro length_blit) simp
    have bn: "unat (eb_size s + n) = ?N"
      using wf un by (subst unat_add_small) auto
    have m_all: "?m = take ?b (eb_buf s) @ ?x"
      using take_blit_end[of ?b ?x "eb_buf s"] lx un wf lm by simp
    have usz: "unat (sz - n) = unat sz - unat n" using nz by (simp add: unat_sub_le word_le_nat_alt)
    have uin: "unat (i + n) = unat i + unat n"
      using Suc.prems(3,4) nz by (intro unat_add_small) simp
    have fuel: "unat sz - unat n < fuel * ?N" using Suc.prems(5) un gt by simp
    have "\<exists>out s'. elog_buf_loop fuel log (i + n) (sz - n) ?s1 = Some (out, s') \<and> eb_wf s' \<and>
        eb_enabled s' \<and> length (eb_buf s') = length (eb_buf ?s1) \<and>
        concat out @ eb_pending s' = eb_pending ?s1 @ take (unat (sz - n)) (drop (unat (i + n)) log)"
      using Suc.prems wf nz fuel lm usz uin by (intro Suc.IH) (auto simp: eb_wf_def)
    then obtain out s' where r: "elog_buf_loop fuel log (i + n) (sz - n) ?s1 = Some (out, s')"
      "eb_wf s'" "eb_enabled s'" "length (eb_buf s') = ?N"
      "concat out @ eb_pending s' = take (unat sz - unat n) (drop (unat i + unat n) log)"
      using lm usz uin by (auto simp: eb_pending_def)
    have "take (unat sz) (drop (unat i) log) =
        ?x @ take (unat sz - unat n) (drop (unat i + unat n) log)"
      using nz take_add[of "unat n" "unat sz - unat n" "drop (unat i) log"] by (simp add: add.commute)
    moreover have "rd_blk ?m 0 (unat (eb_size s + n)) = Some ?m"
      unfolding bn by (simp only: rd_blk_def lm) (simp add: lm)
    ultimately show ?thesis
      using True r by (simp add: Let_def n_def[symmetric] rb wb m_all eb_pending_def)
  qed
qed

text \<open>
  C32: the buffered mode loses, duplicates and reorders nothing: what the port has been given
  followed by what is still buffered is what was buffered followed by the log, one round of
  the loop per buffer full is enough, and a flush hands over exactly what is buffered.
\<close>

theorem elog_buf_output_stream:
  assumes "eb_wf s" and "eb_enabled s" and "unat sz \<le> length log" and "length log < 2 ^ 31"
    and "unat sz div length (eb_buf s) + 2 \<le> fuel"
  shows "\<exists>out s' out' s''. elog_buf_output fuel log sz s = Some (out, s') \<and> eb_wf s' \<and>
    concat out @ eb_pending s' = eb_pending s @ take (unat sz) log \<and>
    elog_flush s' = Some (out', s'') \<and> concat out' = eb_pending s' \<and> eb_pending s'' = []"
proof -
  let ?N = "length (eb_buf s)"
  have wf: "0 < ?N" "unat (eb_size s) \<le> ?N" using assms(1) by (auto simp: eb_wf_def)
  have "unat sz < Suc (unat sz div ?N) * ?N"
    using wf(1) by (metis add.commute dividend_less_times_div mult_Suc_right mult.commute mult_Suc)
  then have "unat (eb_size s) + unat sz < (unat sz div ?N + 2) * ?N" using wf(2) by simp
  also have "\<dots> \<le> fuel * ?N" using assms(5) by (rule mult_le_mono1)
  finally have "unat (eb_size s) + unat sz < fuel * ?N" .
  then obtain out s' where r: "elog_buf_loop fuel log 0 sz s = Some (out, s')" "eb_wf s'"
    "concat out @ eb_pending s' = eb_pending s @ take (unat sz) log"
    using elog_buf_loop_law[OF assms(1,2) _ assms(4), of 0 sz fuel] assms(3) by auto
  have "\<exists>out' s''. elog_flush s' = Some (out', s'') \<and> concat out' = eb_pending s' \<and> eb_pending s'' = []"
    using r(2) by (auto simp: elog_flush_def rd_blk_def eb_pending_def eb_wf_def)
  with r assms(2) show ?thesis by (simp add: elog_buf_output_def)
qed

section \<open>Witnesses\<close>

definition ea_ex :: elog_async where
  "ea_ex = \<lparr>ea_buf = [10, 2, 3, 10], ea_w = 1, ea_r = 2, ea_full = False, ea_empty = False,
     ea_enabled = True, ea_init_ok = True\<rparr>"

lemma ea_ex_wf: "ea_wf ea_ex"
  by (simp add: ea_wf_def ea_ex_def)

lemma ea_ex_used: "elog_async_get_buf_used ea_ex = 3"
  by (simp add: elog_async_get_buf_used_def ea_ex_def OUTPUT_BUF_SIZE_def)

lemma ea_ex_contents: "ea_contents ea_ex = [3, 10, 10]"
  by (simp add: ea_contents_def ea_ex_used) (simp add: ea_ex_def cyc_def upt_rec)

text \<open>
  The line reader hands over two lines at once when the first one ends at the very end of the
  memory: the test for the wrap-around looks at the number of bytes copied only.
\<close>

lemma elog_async_get_line_log_two_lines:
  "map_option (\<lambda>(n, d, s'). (n, d)) (elog_async_get_line_log [10] [0, 0, 0] 3 ea_ex) = Some (3, [3, 10, 10])"
  by (simp add: elog_async_get_line_log_def ea_ex_used Let_def)
    (simp add: ea_ex_def OUTPUT_BUF_SIZE_def rd_blk_def wr_blk_def blit_def elog_cpyln_def Let_def)

theorem elog_async_stream_witness:
  "\<exists>acc del s'. fifo_run ea_put ea_get ea_ex [Put [9, 8], Get 2, Put [7, 6, 5], Get 1] =
      Some (acc, del, s') \<and> ea_wf s' \<and> [3, 10, 10] @ acc = del @ ea_contents s'"
  using elog_async_stream[OF ea_ex_wf, of "[Put [9, 8], Get 2, Put [7, 6, 5], Get 1]"]
  by (auto simp: ea_ex_contents)

theorem async_output_drains_witness:
  "\<exists>out s'. async_output (elog_async_get_line_log [10]) 4 [0, 0] ea_ex = Some (out, s') \<and>
     concat out = [3, 10, 10] \<and> ea_contents s' = []"
  using async_output_drains[OF ea_ex_wf, of "[0, 0]" 4 "elog_async_get_line_log [10]" "[10]"]
  by (auto simp: ea_ex_contents simp del: length_ea_contents)

definition eb_ex :: elog_buf where
  "eb_ex = \<lparr>eb_buf = [1, 2, 3], eb_size = 2, eb_enabled = True\<rparr>"

theorem elog_buf_output_stream_witness:
  "\<exists>out s'. elog_buf_output 3 [7, 8, 9, 10] 4 eb_ex = Some (out, s') \<and>
     concat out @ eb_pending s' = [1, 2, 7, 8, 9, 10]"
  using elog_buf_output_stream[of eb_ex 4 "[7, 8, 9, 10]" 3]
  by (auto simp: eb_ex_def eb_wf_def eb_pending_def)

end
