(* ===== verification/Crc_Spec.thy ===== *)
theory Crc_Spec
  imports C_Prelude
begin

text \<open>
  The reference for every checksum of the repository: the reflected cyclic redundancy check
  computed bit by bit, over any word width, and the contract by which a 256-entry table
  computes it byte by byte. The algebra (the shift register is linear and, when the
  polynomial's top bit is set, injective) is done here once for 16 and 32 bits.
\<close>

section \<open>The shift register\<close>

definition crc_shift :: "'a::len word \<Rightarrow> 'a word \<Rightarrow> 'a word" where
  "crc_shift poly c = (if bit c 0 then poly XOR drop_bit 1 c else drop_bit 1 c)"

definition crc_shift8 :: "'a::len word \<Rightarrow> 'a word \<Rightarrow> 'a word" where
  "crc_shift8 poly c = (crc_shift poly ^^ 8) c"

lemma crc_shift8_unfold: "crc_shift8 p c = crc_shift p (crc_shift p (crc_shift p (crc_shift p
    (crc_shift p (crc_shift p (crc_shift p (crc_shift p c)))))))"
  by (simp add: crc_shift8_def numeral_eq_Suc)

text \<open>One byte of the message, and the message.\<close>

definition crc_byte :: "'a::len word \<Rightarrow> 'a word \<Rightarrow> u8 \<Rightarrow> 'a word" where
  "crc_byte poly c b = crc_shift8 poly (c XOR ucast b)"

definition crc_ref :: "'a::len word \<Rightarrow> 'a word \<Rightarrow> u8 list \<Rightarrow> 'a word" where
  "crc_ref poly c xs = foldl (crc_byte poly) c xs"

lemma crc_ref_simps [simp]:
  "crc_ref poly c [] = c" "crc_ref poly c (x # xs) = crc_ref poly (crc_byte poly c x) xs"
  "crc_ref poly c (xs @ ys) = crc_ref poly (crc_ref poly c xs) ys"
  by (simp_all add: crc_ref_def)

lemma crc_shift_xor: "crc_shift poly (a XOR b) = crc_shift poly a XOR crc_shift poly b"
  by (rule bit_word_eqI) (auto simp: crc_shift_def bit_simps)

lemma crc_shift_0 [simp]: "crc_shift poly 0 = 0"
  by (simp add: crc_shift_def)

lemma crc_shift_pow_xor: "(crc_shift poly ^^ n) (a XOR b) = (crc_shift poly ^^ n) a XOR (crc_shift poly ^^ n) b"
  by (induction n) (simp_all add: crc_shift_xor)

lemma crc_shift8_xor: "crc_shift8 poly (a XOR b) = crc_shift8 poly a XOR crc_shift8 poly b"
  by (simp add: crc_shift8_def crc_shift_pow_xor)

lemma crc_shift8_0 [simp]: "crc_shift8 poly 0 = 0"
  using crc_shift8_xor[of poly 0 0] by simp

text \<open>While the low bits are zero the register only shifts.\<close>

lemma crc_shift_pow_zeros:
  "(\<And>i. i < n \<Longrightarrow> \<not> bit c i) \<Longrightarrow> (crc_shift poly ^^ n) c = drop_bit n c"
proof (induction n)
  case 0
  then show ?case by simp
next
  case (Suc n)
  then have "(crc_shift poly ^^ n) c = drop_bit n c" and "\<not> bit c n" by auto
  moreover from this have "crc_shift poly (drop_bit n c) = drop_bit 1 (drop_bit n c)"
    by (simp add: crc_shift_def bit_simps)
  ultimately show ?case by (simp add: drop_bit_drop_bit)
qed

text \<open>The step of the table-driven algorithms: the low byte picks the entry, the rest shifts down.\<close>

lemma crc_shift8_split:
  assumes "8 \<le> LENGTH('a)"
  shows "crc_shift8 poly (c :: 'a::len word) = crc_shift8 poly (c AND 0xFF) XOR drop_bit 8 c"
proof -
  define d where "d = c AND NOT 0xFF"
  have "c = (c AND 0xFF) XOR d"
    by (rule bit_word_eqI) (auto simp: d_def bit_simps bit_FF bit_FF_int)
  then have "crc_shift8 poly c = crc_shift8 poly (c AND 0xFF) XOR crc_shift8 poly d"
    using crc_shift8_xor by metis
  moreover have "crc_shift8 poly d = drop_bit 8 d"
    unfolding crc_shift8_def by (rule crc_shift_pow_zeros) (auto simp: d_def bit_simps bit_FF bit_FF_int)
  moreover have "drop_bit 8 d = drop_bit 8 c"
    by (rule bit_word_eqI) (auto simp: d_def bit_simps bit_FF bit_FF_int dest: bit_imp_le_length)
  ultimately show ?thesis by simp
qed

section \<open>Injectivity\<close>

lemma crc_shift_eq_0:
  fixes poly c :: "'a::len word"
  assumes "bit poly (LENGTH('a) - 1)" and "crc_shift poly c = 0"
  shows "c = 0"
proof (cases "bit c 0")
  case True
  then have "poly XOR drop_bit 1 c = 0" using assms(2) by (simp add: crc_shift_def)
  then have "bit (poly XOR drop_bit 1 c) (LENGTH('a) - 1) = False" by simp
  moreover have "bit (poly XOR drop_bit 1 c) (LENGTH('a) - 1) = True"
    using assms(1) bit_imp_le_length[of c "LENGTH('a)"] by (auto simp: bit_simps)
  ultimately show ?thesis by simp
next
  case False
  then have d: "drop_bit 1 c = 0" using assms(2) by (simp add: crc_shift_def)
  show ?thesis
  proof (rule bit_word_eqI)
    fix n
    have "bit c (Suc m) = bit (drop_bit 1 c) m" for m by (simp add: bit_drop_bit_eq)
    then show "bit c n = bit (0 :: 'a word) n" using False d by (cases n) auto
  qed
qed

lemma crc_shift_pow_eq_0:
  fixes poly c :: "'a::len word"
  assumes "bit poly (LENGTH('a) - 1)"
  shows "(crc_shift poly ^^ n) c = 0 \<Longrightarrow> c = 0"
  by (induction n) (auto dest: crc_shift_eq_0[OF assms])

lemma xor_eq_0_iff: "a XOR b = 0 \<longleftrightarrow> a = b" for a b :: "'a::len word"
  by (auto simp: bit_eq_iff bit_simps)

lemma crc_shift8_inj:
  fixes poly a b :: "'a::len word"
  assumes "bit poly (LENGTH('a) - 1)" and "crc_shift8 poly a = crc_shift8 poly b"
  shows "a = b"
proof -
  have "crc_shift8 poly (a XOR b) = 0" using assms(2) by (simp add: crc_shift8_xor)
  then have "a XOR b = 0" unfolding crc_shift8_def by (rule crc_shift_pow_eq_0[OF assms(1)])
  then show ?thesis by (simp add: xor_eq_0_iff)
qed

lemma xor_left_cancel: "a XOR b = a XOR c \<longleftrightarrow> b = c" for a b c :: "'a::len word"
  by (auto simp: bit_eq_iff bit_simps)

lemma crc_byte_inj_state:
  fixes poly :: "'a::len word"
  assumes "bit poly (LENGTH('a) - 1)"
  shows "crc_byte poly c x = crc_byte poly d x \<longleftrightarrow> c = d"
  using crc_shift8_inj[OF assms, of "c XOR ucast x" "d XOR ucast x"] xor_left_cancel[of "ucast x" c d]
  by (auto simp: crc_byte_def xor.commute)

lemma ucast8_inj: "8 \<le> LENGTH('a) \<Longrightarrow> (ucast a :: 'a::len word) = ucast b \<longleftrightarrow> a = b" for a b :: u8
  by (metis unat_ucast8 word_unat_eq_iff)

lemma crc_byte_inj_byte:
  fixes poly :: "'a::len word"
  assumes "bit poly (LENGTH('a) - 1)" and "8 \<le> LENGTH('a)"
  shows "crc_byte poly c x = crc_byte poly c y \<longleftrightarrow> x = y"
  using crc_shift8_inj[OF assms(1), of "c XOR ucast x" "c XOR ucast y"]
  by (auto simp: crc_byte_def xor_left_cancel ucast8_inj[OF assms(2)])

lemma crc_ref_inj_state:
  fixes poly :: "'a::len word"
  assumes "bit poly (LENGTH('a) - 1)"
  shows "crc_ref poly c xs = crc_ref poly d xs \<longleftrightarrow> c = d"
  by (induction xs arbitrary: c d) (auto simp: crc_byte_inj_state[OF assms])

text \<open>Changing a single byte, whatever surrounds it, changes the checksum.\<close>

lemma crc_ref_single_byte:
  fixes poly :: "'a::len word"
  assumes "bit poly (LENGTH('a) - 1)" and "8 \<le> LENGTH('a)"
  shows "crc_ref poly c (xs @ [a] @ ys) = crc_ref poly c (xs @ [b] @ ys) \<longleftrightarrow> a = b"
  by (simp add: crc_ref_inj_state[OF assms(1)] crc_byte_inj_byte[OF assms])

section \<open>Tables\<close>

text \<open>
  A table for \<open>poly\<close> holds the register's image of every byte; then the byte step is one look
  up, and the loop over a message computes the reference.
\<close>

locale crc_table =
  fixes poly :: "'a::len word" and table :: "nat \<Rightarrow> 'a word"
  assumes wide: "8 \<le> LENGTH('a)"
    and entry: "i < 256 \<Longrightarrow> table i = crc_shift8 poly (of_nat i)"
begin

lemma step: "crc_byte poly c b = table (unat ((c XOR ucast b) AND 0xFF)) XOR drop_bit 8 c"
proof -
  let ?x = "c XOR ucast b"
  have "unat (?x AND 0xFF) < 256" by (rule unat_and_FF)
  then have "table (unat (?x AND 0xFF)) = crc_shift8 poly (?x AND 0xFF)" by (simp add: entry)
  moreover have "drop_bit 8 ?x = drop_bit 8 c"
    by (rule bit_word_eqI) (auto simp: bit_simps dest: bit_imp_le_length)
  ultimately show ?thesis
    unfolding crc_byte_def using crc_shift8_split[OF wide, of poly ?x] by simp
qed

lemma step_index:
  "unat ((c XOR ucast b) AND 0xFF) = unat (ucast c XOR b)" for c :: "'a word" and b :: u8
proof -
  have "(c XOR ucast b) AND 0xFF = (ucast (ucast c XOR b :: u8) :: 'a word)"
    by (rule bit_word_eqI) (use wide in \<open>auto simp: bit_simps bit_FF bit_FF_int dest: bit_imp_le_length\<close>)
  then show ?thesis by (simp add: unat_ucast8[OF wide])
qed

end

section \<open>Concrete tables\<close>

text \<open>
  A linear table doubles: the upper half is the lower half with the image of its first index
  added. This is how the literal tables of the sources are compared with the reference.
\<close>

definition dbl :: "'a::len word \<Rightarrow> 'a word list \<Rightarrow> 'a word list" where
  "dbl p xs = xs @ map (\<lambda>x. x XOR p) xs"

lemma length_dbl [simp]: "length (dbl p xs) = 2 * length xs"
  by (simp add: dbl_def)

lemma of_nat_add_pow2:
  assumes "i < 2 ^ k"
  shows "(of_nat (2 ^ k + i) :: 'a::len word) = of_nat (2 ^ k) XOR of_nat i"
proof -
  have "\<not> bit i k" using assms by (simp add: bit_iff_odd)
  then have "2 ^ k AND i = 0" by (intro bit_eqI) (auto simp: bit_and_iff bit_exp_iff)
  then have "2 ^ k + i = 2 ^ k XOR i" by (rule disjunctive_add_eq_xor)
  then show ?thesis by (metis of_nat_xor_eq)
qed

lemma map_dbl:
  assumes lin: "\<And>a b. f (a XOR b) = f a XOR (f b :: 'b::len word)"
  shows "map (\<lambda>i. f (of_nat i :: 'a::len word)) [0..<2 ^ Suc k] =
    dbl (f (of_nat (2 ^ k))) (map (\<lambda>i. f (of_nat i)) [0..<2 ^ k])"
proof (rule nth_equalityI)
  fix i assume i: "i < length (map (\<lambda>i. f (of_nat i :: 'a word)) [0..<2 ^ Suc k])"
  show "map (\<lambda>i. f (of_nat i)) [0..<2 ^ Suc k] ! i =
    dbl (f (of_nat (2 ^ k))) (map (\<lambda>i. f (of_nat i)) [0..<2 ^ k]) ! i"
  proof (cases "i < 2 ^ k")
    case True
    then show ?thesis using i by (simp add: dbl_def nth_append)
  next
    case False
    then obtain j where j: "i = 2 ^ k + j" using le_Suc_ex not_less by blast
    then have jk: "j < 2 ^ k" using i by simp
    show ?thesis
      using i jk of_nat_add_pow2[OF jk, where 'a = 'a] by (simp add: j dbl_def nth_append lin xor.commute del: of_nat_add)
  qed
qed (simp add: dbl_def)

lemma linear_table:
  assumes lin: "\<And>a b. f (a XOR b) = f a XOR (f b :: 'b::len word)"
  shows "map (\<lambda>i. f (of_nat i :: 'a::len word)) [0..<256] =
    dbl (f 128) (dbl (f 64) (dbl (f 32) (dbl (f 16) (dbl (f 8) (dbl (f 4) (dbl (f 2) (dbl (f 1) [0])))))))"
proof -
  define M where "M k = map (\<lambda>i. f (of_nat i :: 'a word)) [0..<2 ^ k]" for k
  have st: "M (Suc k) = dbl (f (of_nat (2 ^ k))) (M k)" for k
    unfolding M_def by (rule map_dbl[OF lin])
  have "M 0 = [0]" using lin[of 0 0] by (simp add: M_def)
  then have "M 1 = dbl (f 1) [0]" using st[of 0] by simp
  then have "M 2 = dbl (f 2) (dbl (f 1) [0])" using st[of 1] by (simp add: numeral_2_eq_2)
  then have "M 3 = dbl (f 4) (dbl (f 2) (dbl (f 1) [0]))" using st[of 2] by simp
  then have "M 4 = dbl (f 8) (dbl (f 4) (dbl (f 2) (dbl (f 1) [0])))" using st[of 3] by simp
  then have "M 5 = dbl (f 16) (dbl (f 8) (dbl (f 4) (dbl (f 2) (dbl (f 1) [0]))))"
    using st[of 4] by simp
  then have "M 6 = dbl (f 32) (dbl (f 16) (dbl (f 8) (dbl (f 4) (dbl (f 2) (dbl (f 1) [0])))))"
    using st[of 5] by simp
  then have "M 7 = dbl (f 64) (dbl (f 32) (dbl (f 16) (dbl (f 8) (dbl (f 4) (dbl (f 2) (dbl (f 1) [0]))))))"
    using st[of 6] by simp
  then have "M 8 = dbl (f 128) (dbl (f 64) (dbl (f 32) (dbl (f 16) (dbl (f 8) (dbl (f 4) (dbl (f 2) (dbl (f 1) [0])))))))"
    using st[of 7] by simp
  moreover have "M 8 = map (\<lambda>i. f (of_nat i)) [0..<256]" unfolding M_def by (simp only: power_numeral_reduce) simp
  ultimately show ?thesis by simp
qed

lemma linear_table_nth:
  assumes "\<And>a b. f (a XOR b) = f a XOR (f b :: 'b::len word)" and "i < 256"
    and "T = dbl (f 128) (dbl (f 64) (dbl (f 32) (dbl (f 16) (dbl (f 8) (dbl (f 4) (dbl (f 2) (dbl (f 1) [0])))))))"
  shows "T ! i = f (of_nat i :: 'a::len word)"
  using linear_table[where f = f, OF assms(1)] assms(2,3) by (metis (no_types, lifting) diff_zero length_upt nth_map nth_upt add_0)

end
