(* ===== verification/Crc.thy ===== *)
theory Crc
  imports Crc_Spec
begin

text \<open>
  The checksums of the repository: \<^verbatim>\<open>check/crc16.c\<close>, the one of the Modbus RTU frames in
  \<^verbatim>\<open>FreeModbus/modbus/rtu/mbcrc.c\<close>, the one of the firmware images in \<^verbatim>\<open>fota/fota_crc.c\<close> and
  the one of the flash database in \<^verbatim>\<open>FlashDB/src/fdb_utils.c\<close>. The literal tables are the
  sources' ones; each algorithm is proved to compute the bitwise reference of \<open>Crc_Spec\<close>.
\<close>

section \<open>CRC-16\<close>

definition chCRCHTalbe :: "u8 list" where
  "chCRCHTalbe = [
     0x00, 0xC1, 0x81, 0x40, 0x01, 0xC0, 0x80, 0x41, 0x01, 0xC0, 0x80, 0x41,
     0x00, 0xC1, 0x81, 0x40, 0x01, 0xC0, 0x80, 0x41, 0x00, 0xC1, 0x81, 0x40,
     0x00, 0xC1, 0x81, 0x40, 0x01, 0xC0, 0x80, 0x41, 0x01, 0xC0, 0x80, 0x41,
     0x00, 0xC1, 0x81, 0x40, 0x00, 0xC1, 0x81, 0x40, 0x01, 0xC0, 0x80, 0x41,
     0x00, 0xC1, 0x81, 0x40, 0x01, 0xC0, 0x80, 0x41, 0x01, 0xC0, 0x80, 0x41,
     0x00, 0xC1, 0x81, 0x40, 0x01, 0xC0, 0x80, 0x41, 0x00, 0xC1, 0x81, 0x40,
     0x00, 0xC1, 0x81, 0x40, 0x01, 0xC0, 0x80, 0x41, 0x00, 0xC1, 0x81, 0x40,
     0x01, 0xC0, 0x80, 0x41, 0x01, 0xC0, 0x80, 0x41, 0x00, 0xC1, 0x81, 0x40,
     0x00, 0xC1, 0x81, 0x40, 0x01, 0xC0, 0x80, 0x41, 0x01, 0xC0, 0x80, 0x41,
     0x00, 0xC1, 0x81, 0x40, 0x01, 0xC0, 0x80, 0x41, 0x00, 0xC1, 0x81, 0x40,
     0x00, 0xC1, 0x81, 0x40, 0x01, 0xC0, 0x80, 0x41, 0x01, 0xC0, 0x80, 0x41,
     0x00, 0xC1, 0x81, 0x40, 0x00, 0xC1, 0x81, 0x40, 0x01, 0xC0, 0x80, 0x41,
     0x00, 0xC1, 0x81, 0x40, 0x01, 0xC0, 0x80, 0x41, 0x01, 0xC0, 0x80, 0x41,
     0x00, 0xC1, 0x81, 0x40, 0x00, 0xC1, 0x81, 0x40, 0x01, 0xC0, 0x80, 0x41,
     0x01, 0xC0, 0x80, 0x41, 0x00, 0xC1, 0x81, 0x40, 0x01, 0xC0, 0x80, 0x41,
     0x00, 0xC1, 0x81, 0x40, 0x00, 0xC1, 0x81, 0x40, 0x01, 0xC0, 0x80, 0x41,
     0x00, 0xC1, 0x81, 0x40, 0x01, 0xC0, 0x80, 0x41, 0x01, 0xC0, 0x80, 0x41,
     0x00, 0xC1, 0x81, 0x40, 0x01, 0xC0, 0x80, 0x41, 0x00, 0xC1, 0x81, 0x40,
     0x00, 0xC1, 0x81, 0x40, 0x01, 0xC0, 0x80, 0x41, 0x01, 0xC0, 0x80, 0x41,
     0x00, 0xC1, 0x81, 0x40, 0x00, 0xC1, 0x81, 0x40, 0x01, 0xC0, 0x80, 0x41,
     0x00, 0xC1, 0x81, 0x40, 0x01, 0xC0, 0x80, 0x41, 0x01, 0xC0, 0x80, 0x41,
     0x00, 0xC1, 0x81, 0x40]"

definition chCRCLTalbe :: "u8 list" where
  "chCRCLTalbe = [
     0x00, 0xC0, 0xC1, 0x01, 0xC3, 0x03, 0x02, 0xC2, 0xC6, 0x06, 0x07, 0xC7,
     0x05, 0xC5, 0xC4, 0x04, 0xCC, 0x0C, 0x0D, 0xCD, 0x0F, 0xCF, 0xCE, 0x0E,
     0x0A, 0xCA, 0xCB, 0x0B, 0xC9, 0x09, 0x08, 0xC8, 0xD8, 0x18, 0x19, 0xD9,
     0x1B, 0xDB, 0xDA, 0x1A, 0x1E, 0xDE, 0xDF, 0x1F, 0xDD, 0x1D, 0x1C, 0xDC,
     0x14, 0xD4, 0xD5, 0x15, 0xD7, 0x17, 0x16, 0xD6, 0xD2, 0x12, 0x13, 0xD3,
     0x11, 0xD1, 0xD0, 0x10, 0xF0, 0x30, 0x31, 0xF1, 0x33, 0xF3, 0xF2, 0x32,
     0x36, 0xF6, 0xF7, 0x37, 0xF5, 0x35, 0x34, 0xF4, 0x3C, 0xFC, 0xFD, 0x3D,
     0xFF, 0x3F, 0x3E, 0xFE, 0xFA, 0x3A, 0x3B, 0xFB, 0x39, 0xF9, 0xF8, 0x38,
     0x28, 0xE8, 0xE9, 0x29, 0xEB, 0x2B, 0x2A, 0xEA, 0xEE, 0x2E, 0x2F, 0xEF,
     0x2D, 0xED, 0xEC, 0x2C, 0xE4, 0x24, 0x25, 0xE5, 0x27, 0xE7, 0xE6, 0x26,
     0x22, 0xE2, 0xE3, 0x23, 0xE1, 0x21, 0x20, 0xE0, 0xA0, 0x60, 0x61, 0xA1,
     0x63, 0xA3, 0xA2, 0x62, 0x66, 0xA6, 0xA7, 0x67, 0xA5, 0x65, 0x64, 0xA4,
     0x6C, 0xAC, 0xAD, 0x6D, 0xAF, 0x6F, 0x6E, 0xAE, 0xAA, 0x6A, 0x6B, 0xAB,
     0x69, 0xA9, 0xA8, 0x68, 0x78, 0xB8, 0xB9, 0x79, 0xBB, 0x7B, 0x7A, 0xBA,
     0xBE, 0x7E, 0x7F, 0xBF, 0x7D, 0xBD, 0xBC, 0x7C, 0xB4, 0x74, 0x75, 0xB5,
     0x77, 0xB7, 0xB6, 0x76, 0x72, 0xB2, 0xB3, 0x73, 0xB1, 0x71, 0x70, 0xB0,
     0x50, 0x90, 0x91, 0x51, 0x93, 0x53, 0x52, 0x92, 0x96, 0x56, 0x57, 0x97,
     0x55, 0x95, 0x94, 0x54, 0x9C, 0x5C, 0x5D, 0x9D, 0x5F, 0x9F, 0x9E, 0x5E,
     0x5A, 0x9A, 0x9B, 0x5B, 0x99, 0x59, 0x58, 0x98, 0x88, 0x48, 0x49, 0x89,
     0x4B, 0x8B, 0x8A, 0x4A, 0x4E, 0x8E, 0x8F, 0x4F, 0x8D, 0x4D, 0x4C, 0x8C,
     0x44, 0x84, 0x85, 0x45, 0x87, 0x47, 0x46, 0x86, 0x82, 0x42, 0x43, 0x83,
     0x41, 0x81, 0x80, 0x40]"

text \<open>The loop: the high and the low byte of the register live in two 16-bit variables.\<close>

fun calculate_crc16_loop :: "u16 \<Rightarrow> u16 \<Rightarrow> u8 list \<Rightarrow> u16" where
  "calculate_crc16_loop hi lo [] = push_bit 8 hi OR lo"
| "calculate_crc16_loop hi lo (x # xs) =
     (let wIndex = lo XOR ucast x
      in calculate_crc16_loop (ucast (chCRCLTalbe ! unat wIndex))
           (hi XOR ucast (chCRCHTalbe ! unat wIndex)) xs)"

definition calculate_crc16 :: "u8 list \<Rightarrow> u8 \<Rightarrow> u16 option" where
  "calculate_crc16 crc_buf crc_count =
     map_option (calculate_crc16_loop 0xFF 0xFF) (rd_blk crc_buf 0 (unat crc_count))"

definition aucCRCHi :: "u8 list" where
  "aucCRCHi = [
     0x00, 0xC1, 0x81, 0x40, 0x01, 0xC0, 0x80, 0x41, 0x01, 0xC0, 0x80, 0x41,
     0x00, 0xC1, 0x81, 0x40, 0x01, 0xC0, 0x80, 0x41, 0x00, 0xC1, 0x81, 0x40,
     0x00, 0xC1, 0x81, 0x40, 0x01, 0xC0, 0x80, 0x41, 0x01, 0xC0, 0x80, 0x41,
     0x00, 0xC1, 0x81, 0x40, 0x00, 0xC1, 0x81, 0x40, 0x01, 0xC0, 0x80, 0x41,
     0x00, 0xC1, 0x81, 0x40, 0x01, 0xC0, 0x80, 0x41, 0x01, 0xC0, 0x80, 0x41,
     0x00, 0xC1, 0x81, 0x40, 0x01, 0xC0, 0x80, 0x41, 0x00, 0xC1, 0x81, 0x40,
     0x00, 0xC1, 0x81, 0x40, 0x01, 0xC0, 0x80, 0x41, 0x00, 0xC1, 0x81, 0x40,
     0x01, 0xC0, 0x80, 0x41, 0x01, 0xC0, 0x80, 0x41, 0x00, 0xC1, 0x81, 0x40,
     0x00, 0xC1, 0x81, 0x40, 0x01, 0xC0, 0x80, 0x41, 0x01, 0xC0, 0x80, 0x41,
     0x00, 0xC1, 0x81, 0x40, 0x01, 0xC0, 0x80, 0x41, 0x00, 0xC1, 0x81, 0x40,
     0x00, 0xC1, 0x81, 0x40, 0x01, 0xC0, 0x80, 0x41, 0x01, 0xC0, 0x80, 0x41,
     0x00, 0xC1, 0x81, 0x40, 0x00, 0xC1, 0x81, 0x40, 0x01, 0xC0, 0x80, 0x41,
     0x00, 0xC1, 0x81, 0x40, 0x01, 0xC0, 0x80, 0x41, 0x01, 0xC0, 0x80, 0x41,
     0x00, 0xC1, 0x81, 0x40, 0x00, 0xC1, 0x81, 0x40, 0x01, 0xC0, 0x80, 0x41,
     0x01, 0xC0, 0x80, 0x41, 0x00, 0xC1, 0x81, 0x40, 0x01, 0xC0, 0x80, 0x41,
     0x00, 0xC1, 0x81, 0x40, 0x00, 0xC1, 0x81, 0x40, 0x01, 0xC0, 0x80, 0x41,
     0x00, 0xC1, 0x81, 0x40, 0x01, 0xC0, 0x80, 0x41, 0x01, 0xC0, 0x80, 0x41,
     0x00, 0xC1, 0x81, 0x40, 0x01, 0xC0, 0x80, 0x41, 0x00, 0xC1, 0x81, 0x40,
     0x00, 0xC1, 0x81, 0x40, 0x01, 0xC0, 0x80, 0x41, 0x01, 0xC0, 0x80, 0x41,
     0x00, 0xC1, 0x81, 0x40, 0x00, 0xC1, 0x81, 0x40, 0x01, 0xC0, 0x80, 0x41,
     0x00, 0xC1, 0x81, 0x40, 0x01, 0xC0, 0x80, 0x41, 0x01, 0xC0, 0x80, 0x41,
     0x00, 0xC1, 0x81, 0x40]"

definition aucCRCLo :: "u8 list" where
  "aucCRCLo = [
     0x00, 0xC0, 0xC1, 0x01, 0xC3, 0x03, 0x02, 0xC2, 0xC6, 0x06, 0x07, 0xC7,
     0x05, 0xC5, 0xC4, 0x04, 0xCC, 0x0C, 0x0D, 0xCD, 0x0F, 0xCF, 0xCE, 0x0E,
     0x0A, 0xCA, 0xCB, 0x0B, 0xC9, 0x09, 0x08, 0xC8, 0xD8, 0x18, 0x19, 0xD9,
     0x1B, 0xDB, 0xDA, 0x1A, 0x1E, 0xDE, 0xDF, 0x1F, 0xDD, 0x1D, 0x1C, 0xDC,
     0x14, 0xD4, 0xD5, 0x15, 0xD7, 0x17, 0x16, 0xD6, 0xD2, 0x12, 0x13, 0xD3,
     0x11, 0xD1, 0xD0, 0x10, 0xF0, 0x30, 0x31, 0xF1, 0x33, 0xF3, 0xF2, 0x32,
     0x36, 0xF6, 0xF7, 0x37, 0xF5, 0x35, 0x34, 0xF4, 0x3C, 0xFC, 0xFD, 0x3D,
     0xFF, 0x3F, 0x3E, 0xFE, 0xFA, 0x3A, 0x3B, 0xFB, 0x39, 0xF9, 0xF8, 0x38,
     0x28, 0xE8, 0xE9, 0x29, 0xEB, 0x2B, 0x2A, 0xEA, 0xEE, 0x2E, 0x2F, 0xEF,
     0x2D, 0xED, 0xEC, 0x2C, 0xE4, 0x24, 0x25, 0xE5, 0x27, 0xE7, 0xE6, 0x26,
     0x22, 0xE2, 0xE3, 0x23, 0xE1, 0x21, 0x20, 0xE0, 0xA0, 0x60, 0x61, 0xA1,
     0x63, 0xA3, 0xA2, 0x62, 0x66, 0xA6, 0xA7, 0x67, 0xA5, 0x65, 0x64, 0xA4,
     0x6C, 0xAC, 0xAD, 0x6D, 0xAF, 0x6F, 0x6E, 0xAE, 0xAA, 0x6A, 0x6B, 0xAB,
     0x69, 0xA9, 0xA8, 0x68, 0x78, 0xB8, 0xB9, 0x79, 0xBB, 0x7B, 0x7A, 0xBA,
     0xBE, 0x7E, 0x7F, 0xBF, 0x7D, 0xBD, 0xBC, 0x7C, 0xB4, 0x74, 0x75, 0xB5,
     0x77, 0xB7, 0xB6, 0x76, 0x72, 0xB2, 0xB3, 0x73, 0xB1, 0x71, 0x70, 0xB0,
     0x50, 0x90, 0x91, 0x51, 0x93, 0x53, 0x52, 0x92, 0x96, 0x56, 0x57, 0x97,
     0x55, 0x95, 0x94, 0x54, 0x9C, 0x5C, 0x5D, 0x9D, 0x5F, 0x9F, 0x9E, 0x5E,
     0x5A, 0x9A, 0x9B, 0x5B, 0x99, 0x59, 0x58, 0x98, 0x88, 0x48, 0x49, 0x89,
     0x4B, 0x8B, 0x8A, 0x4A, 0x4E, 0x8E, 0x8F, 0x4F, 0x8D, 0x4D, 0x4C, 0x8C,
     0x44, 0x84, 0x85, 0x45, 0x87, 0x47, 0x46, 0x86, 0x82, 0x42, 0x43, 0x83,
     0x41, 0x81, 0x80, 0x40]"

text \<open>The same in \<^verbatim>\<open>mbcrc.c\<close>, with byte variables.\<close>

fun usMBCRC16_loop :: "u8 \<Rightarrow> u8 \<Rightarrow> u8 list \<Rightarrow> u16" where
  "usMBCRC16_loop hi lo [] = push_bit 8 (ucast hi) OR ucast lo"
| "usMBCRC16_loop hi lo (x # xs) =
     (let iIndex = lo XOR x
      in usMBCRC16_loop (aucCRCLo ! unat iIndex) (hi XOR aucCRCHi ! unat iIndex) xs)"

definition usMBCRC16 :: "u8 list \<Rightarrow> u16 \<Rightarrow> u16 option" where
  "usMBCRC16 pucFrame usLen = map_option (usMBCRC16_loop 0xFF 0xFF) (rd_blk pucFrame 0 (unat usLen))"

section \<open>CRC-32\<close>

text \<open>The constant table of FlashDB.\<close>

definition crc32_table :: "u32 list" where
  "crc32_table = [
     0x00000000, 0x77073096, 0xEE0E612C, 0x990951BA, 0x076DC419, 0x706AF48F,
     0xE963A535, 0x9E6495A3, 0x0EDB8832, 0x79DCB8A4, 0xE0D5E91E, 0x97D2D988,
     0x09B64C2B, 0x7EB17CBD, 0xE7B82D07, 0x90BF1D91, 0x1DB71064, 0x6AB020F2,
     0xF3B97148, 0x84BE41DE, 0x1ADAD47D, 0x6DDDE4EB, 0xF4D4B551, 0x83D385C7,
     0x136C9856, 0x646BA8C0, 0xFD62F97A, 0x8A65C9EC, 0x14015C4F, 0x63066CD9,
     0xFA0F3D63, 0x8D080DF5, 0x3B6E20C8, 0x4C69105E, 0xD56041E4, 0xA2677172,
     0x3C03E4D1, 0x4B04D447, 0xD20D85FD, 0xA50AB56B, 0x35B5A8FA, 0x42B2986C,
     0xDBBBC9D6, 0xACBCF940, 0x32D86CE3, 0x45DF5C75, 0xDCD60DCF, 0xABD13D59,
     0x26D930AC, 0x51DE003A, 0xC8D75180, 0xBFD06116, 0x21B4F4B5, 0x56B3C423,
     0xCFBA9599, 0xB8BDA50F, 0x2802B89E, 0x5F058808, 0xC60CD9B2, 0xB10BE924,
     0x2F6F7C87, 0x58684C11, 0xC1611DAB, 0xB6662D3D, 0x76DC4190, 0x01DB7106,
     0x98D220BC, 0xEFD5102A, 0x71B18589, 0x06B6B51F, 0x9FBFE4A5, 0xE8B8D433,
     0x7807C9A2, 0x0F00F934, 0x9609A88E, 0xE10E9818, 0x7F6A0DBB, 0x086D3D2D,
     0x91646C97, 0xE6635C01, 0x6B6B51F4, 0x1C6C6162, 0x856530D8, 0xF262004E,
     0x6C0695ED, 0x1B01A57B, 0x8208F4C1, 0xF50FC457, 0x65B0D9C6, 0x12B7E950,
     0x8BBEB8EA, 0xFCB9887C, 0x62DD1DDF, 0x15DA2D49, 0x8CD37CF3, 0xFBD44C65,
     0x4DB26158, 0x3AB551CE, 0xA3BC0074, 0xD4BB30E2, 0x4ADFA541, 0x3DD895D7,
     0xA4D1C46D, 0xD3D6F4FB, 0x4369E96A, 0x346ED9FC, 0xAD678846, 0xDA60B8D0,
     0x44042D73, 0x33031DE5, 0xAA0A4C5F, 0xDD0D7CC9, 0x5005713C, 0x270241AA,
     0xBE0B1010, 0xC90C2086, 0x5768B525, 0x206F85B3, 0xB966D409, 0xCE61E49F,
     0x5EDEF90E, 0x29D9C998, 0xB0D09822, 0xC7D7A8B4, 0x59B33D17, 0x2EB40D81,
     0xB7BD5C3B, 0xC0BA6CAD, 0xEDB88320, 0x9ABFB3B6, 0x03B6E20C, 0x74B1D29A,
     0xEAD54739, 0x9DD277AF, 0x04DB2615, 0x73DC1683, 0xE3630B12, 0x94643B84,
     0x0D6D6A3E, 0x7A6A5AA8, 0xE40ECF0B, 0x9309FF9D, 0x0A00AE27, 0x7D079EB1,
     0xF00F9344, 0x8708A3D2, 0x1E01F268, 0x6906C2FE, 0xF762575D, 0x806567CB,
     0x196C3671, 0x6E6B06E7, 0xFED41B76, 0x89D32BE0, 0x10DA7A5A, 0x67DD4ACC,
     0xF9B9DF6F, 0x8EBEEFF9, 0x17B7BE43, 0x60B08ED5, 0xD6D6A3E8, 0xA1D1937E,
     0x38D8C2C4, 0x4FDFF252, 0xD1BB67F1, 0xA6BC5767, 0x3FB506DD, 0x48B2364B,
     0xD80D2BDA, 0xAF0A1B4C, 0x36034AF6, 0x41047A60, 0xDF60EFC3, 0xA867DF55,
     0x316E8EEF, 0x4669BE79, 0xCB61B38C, 0xBC66831A, 0x256FD2A0, 0x5268E236,
     0xCC0C7795, 0xBB0B4703, 0x220216B9, 0x5505262F, 0xC5BA3BBE, 0xB2BD0B28,
     0x2BB45A92, 0x5CB36A04, 0xC2D7FFA7, 0xB5D0CF31, 0x2CD99E8B, 0x5BDEAE1D,
     0x9B64C2B0, 0xEC63F226, 0x756AA39C, 0x026D930A, 0x9C0906A9, 0xEB0E363F,
     0x72076785, 0x05005713, 0x95BF4A82, 0xE2B87A14, 0x7BB12BAE, 0x0CB61B38,
     0x92D28E9B, 0xE5D5BE0D, 0x7CDCEFB7, 0x0BDBDF21, 0x86D3D2D4, 0xF1D4E242,
     0x68DDB3F8, 0x1FDA836E, 0x81BE16CD, 0xF6B9265B, 0x6FB077E1, 0x18B74777,
     0x88085AE6, 0xFF0F6A70, 0x66063BCA, 0x11010B5C, 0x8F659EFF, 0xF862AE69,
     0x616BFFD3, 0x166CCF45, 0xA00AE278, 0xD70DD2EE, 0x4E048354, 0x3903B3C2,
     0xA7672661, 0xD06016F7, 0x4969474D, 0x3E6E77DB, 0xAED16A4A, 0xD9D65ADC,
     0x40DF0B66, 0x37D83BF0, 0xA9BCAE53, 0xDEBB9EC5, 0x47B2CF7F, 0x30B5FFE9,
     0xBDBDF21C, 0xCABAC28A, 0x53B39330, 0x24B4A3A6, 0xBAD03605, 0xCDD70693,
     0x54DE5729, 0x23D967BF, 0xB3667A2E, 0xC4614AB8, 0x5D681B02, 0x2A6F2B94,
     0xB40BBE37, 0xC30C8EA1, 0x5A05DF1B, 0x2D02EF8D]"

fun fdb_crc32_loop :: "u32 \<Rightarrow> u8 list \<Rightarrow> u32" where
  "fdb_crc32_loop crc [] = crc"
| "fdb_crc32_loop crc (x # xs) =
     fdb_crc32_loop (crc32_table ! unat ((crc XOR ucast x) AND 0xFF) XOR drop_bit 8 crc) xs"

definition fdb_calc_crc32 :: "u32 \<Rightarrow> u8 list \<Rightarrow> u32 \<Rightarrow> u32 option" where
  "fdb_calc_crc32 crc buf sz =
     map_option (\<lambda>xs. fdb_crc32_loop (crc XOR NOT 0) xs XOR NOT 0) (rd_blk buf 0 (unat sz))"

text \<open>
  The firmware updater computes its table at start-up: \<open>bitrev\<close> reverses the polynomial,
  \<open>crc32_init\<close> fills the 256 entries of \<open>crc_tab\<close>.
\<close>

fun bitrev_loop :: "nat \<Rightarrow> u32 \<Rightarrow> u32 \<Rightarrow> u32" where
  "bitrev_loop 0 poly var = var"
| "bitrev_loop (Suc n) poly var =
     bitrev_loop n (drop_bit 1 poly)
       (if poly AND 1 \<noteq> 0 then var OR push_bit n 1 else var)"

definition bitrev :: "u32 \<Rightarrow> u32 \<Rightarrow> u32" where
  "bitrev poly width = bitrev_loop (unat width) poly 0"

definition crc32_init_bit :: "u32 \<Rightarrow> u32 \<Rightarrow> u32" where
  "crc32_init_bit poly c = (if c AND 1 \<noteq> 0 then poly XOR drop_bit 1 c else drop_bit 1 c)"

definition crc32_init :: "u32 \<Rightarrow> u32 list" where
  "crc32_init poly = (let poly = bitrev poly 32
     in map (\<lambda>i. (crc32_init_bit poly ^^ 8) (of_nat i)) [0..<256])"

fun crc32 :: "u32 list \<Rightarrow> u32 \<Rightarrow> u8 list \<Rightarrow> u32" where
  "crc32 crc_tab crc_init [] = crc_init"
| "crc32 crc_tab crc_init (x # xs) =
     (let index = (ucast (crc_init XOR ucast x) :: u8)
      in crc32 crc_tab (drop_bit 8 crc_init XOR crc_tab ! unat index) xs)"

definition fota_crc :: "u32 list \<Rightarrow> u8 list \<Rightarrow> u32 \<Rightarrow> u32 option" where
  "fota_crc crc_tab buf len =
     map_option (\<lambda>xs. crc32 crc_tab 0xFFFFFFFF xs XOR 0xFFFFFFFF) (rd_blk buf 0 (unat len))"

definition fota_step_crc :: "u32 list \<Rightarrow> u32 \<Rightarrow> u8 list \<Rightarrow> u32 \<Rightarrow> u32 option" where
  "fota_step_crc crc_tab crc buf len = map_option (crc32 crc_tab crc) (rd_blk buf 0 (unat len))"

definition POLYNOMIAL :: u32 where "POLYNOMIAL = 0x04C11DB7"

section \<open>The tables are linear\<close>

lemma chCRCHTalbe_dbl: "chCRCHTalbe = dbl 0x1 (dbl 0x1 (dbl 0x1 (dbl 0x1 (dbl 0x1 (dbl 0x1 (dbl 0x81 (dbl 0xc1 [0])))))))"
  unfolding chCRCHTalbe_def dbl_def by (simp only: append.simps list.map list.inject) simp

lemma chCRCLTalbe_dbl: "chCRCLTalbe = dbl 0xa0 (dbl 0xf0 (dbl 0xd8 (dbl 0xcc (dbl 0xc6 (dbl 0xc3 (dbl 0xc1 (dbl 0xc0 [0])))))))"
  unfolding chCRCLTalbe_def dbl_def by (simp only: append.simps list.map list.inject) simp

lemma crc32_table_dbl: "crc32_table = dbl 0xedb88320 (dbl 0x76dc4190 (dbl 0x3b6e20c8 (dbl 0x1db71064 (dbl 0xedb8832 (dbl 0x76dc419 (dbl 0xee0e612c (dbl 0x77073096 [0])))))))"
  unfolding crc32_table_def dbl_def by (simp only: append.simps list.map list.inject) simp

lemma mb_tables: "aucCRCHi = chCRCHTalbe" "aucCRCLo = chCRCLTalbe"
  by (simp_all only: aucCRCHi_def chCRCHTalbe_def aucCRCLo_def chCRCLTalbe_def)

definition crc16_entry :: "u8 \<Rightarrow> u8 \<Rightarrow> u16" where
  "crc16_entry hi lo = push_bit 8 (ucast hi) OR ucast lo"

lemma crc16_entry_xor: "crc16_entry (a XOR b) (c XOR d) = crc16_entry a c XOR crc16_entry b d"
  unfolding crc16_entry_def by (rule bit_word_eqI) (auto simp: bit_simps dest: bit_imp_le_length)

lemma map2_dbl:
  assumes "length xs = length ys"
  shows "map2 crc16_entry (dbl p xs) (dbl q ys) = dbl (crc16_entry p q) (map2 crc16_entry xs ys)"
  using assms by (simp add: dbl_def zip_append1 zip_map_map crc16_entry_xor case_prod_unfold comp_def)

lemma crc16_table:
  assumes "i < 256"
  shows "crc16_entry (chCRCLTalbe ! i) (chCRCHTalbe ! i) = crc_shift8 0xA001 (of_nat i)"
proof -
  have len: "length chCRCLTalbe = 256" "length chCRCHTalbe = 256"
    by (simp_all add: chCRCLTalbe_dbl chCRCHTalbe_dbl)
  have "map2 crc16_entry chCRCLTalbe chCRCHTalbe ! i = crc_shift8 0xA001 (of_nat i)"
  proof (rule linear_table_nth[OF crc_shift8_xor assms])
    show "map2 crc16_entry chCRCLTalbe chCRCHTalbe =
      dbl (crc_shift8 0xA001 128) (dbl (crc_shift8 0xA001 64) (dbl (crc_shift8 0xA001 32)
        (dbl (crc_shift8 0xA001 16) (dbl (crc_shift8 0xA001 8) (dbl (crc_shift8 0xA001 4)
          (dbl (crc_shift8 0xA001 2) (dbl (crc_shift8 0xA001 1) [0])))))))"
      unfolding chCRCLTalbe_dbl chCRCHTalbe_dbl
      by (simp only: map2_dbl length_dbl list.size) (simp add: crc16_entry_def crc_shift8_unfold crc_shift_def)
  qed
  then show ?thesis using assms len by simp
qed

lemma crc32_table_entry:
  assumes "i < 256"
  shows "crc32_table ! i = crc_shift8 0xEDB88320 (of_nat i)"
proof (rule linear_table_nth[OF crc_shift8_xor assms])
  show "crc32_table =
      dbl (crc_shift8 0xEDB88320 128) (dbl (crc_shift8 0xEDB88320 64) (dbl (crc_shift8 0xEDB88320 32)
        (dbl (crc_shift8 0xEDB88320 16) (dbl (crc_shift8 0xEDB88320 8) (dbl (crc_shift8 0xEDB88320 4)
          (dbl (crc_shift8 0xEDB88320 2) (dbl (crc_shift8 0xEDB88320 1) [0])))))))"
    unfolding crc32_table_dbl by (simp add: crc_shift8_unfold crc_shift_def)
qed

lemma bitrev_loop_numeral: "bitrev_loop (numeral k) poly var =
    bitrev_loop (pred_numeral k) (drop_bit 1 poly)
      (if poly AND 1 \<noteq> 0 then var OR push_bit (pred_numeral k) 1 else var)"
  by (simp add: numeral_eq_Suc)

lemma bitrev_POLYNOMIAL: "bitrev POLYNOMIAL 32 = 0xEDB88320"
  by (simp add: bitrev_def POLYNOMIAL_def bitrev_loop_numeral)

lemma crc32_init_bit_shift: "crc32_init_bit = crc_shift"
  by (intro ext) (auto simp: crc32_init_bit_def crc_shift_def and_one_eq bit_0 odd_iff_mod_2_eq_one)

lemma crc32_init_entry: "i < 256 \<Longrightarrow> crc32_init p ! i = crc_shift8 (bitrev p 32) (of_nat i)"
  by (simp add: crc32_init_def crc32_init_bit_shift crc_shift8_def)

interpretation crc16: crc_table "0xA001 :: u16" "\<lambda>i. crc16_entry (chCRCLTalbe ! i) (chCRCHTalbe ! i)"
  by unfold_locales (simp_all add: crc16_table)

interpretation fdb32: crc_table "0xEDB88320 :: u32" "\<lambda>i. crc32_table ! i"
  by unfold_locales (simp_all add: crc32_table_entry)

interpretation fota32: crc_table "bitrev p 32" "\<lambda>i. crc32_init p ! i" for p
  by unfold_locales (simp_all add: crc32_init_entry)

section \<open>The algorithms compute the reference\<close>

lemma crc16_entry_0: "crc16_entry hi lo XOR 0 = crc16_entry hi lo"
  by simp

lemma crc16_state: "drop_bit 8 (crc16_entry hi lo) = ucast hi" "ucast (crc16_entry hi lo) = lo"
  unfolding crc16_entry_def
  by (rule bit_word_eqI, auto simp: bit_simps dest: bit_imp_le_length)+

lemma crc16_step: "crc_byte 0xA001 (crc16_entry hi lo) x =
    crc16_entry (chCRCLTalbe ! unat (lo XOR x)) (hi XOR chCRCHTalbe ! unat (lo XOR x))"
proof -
  have "crc_byte 0xA001 (crc16_entry hi lo) x =
      crc16_entry (chCRCLTalbe ! unat (lo XOR x)) (chCRCHTalbe ! unat (lo XOR x)) XOR ucast hi"
    using crc16.step[of "crc16_entry hi lo" x] crc16.step_index[of "crc16_entry hi lo" x]
    by (simp add: crc16_state)
  also have "(ucast hi :: u16) = crc16_entry 0 hi" by (simp add: crc16_entry_def)
  finally show ?thesis by (simp add: xor.commute flip: crc16_entry_xor)
qed

lemma usMBCRC16_loop_ref: "usMBCRC16_loop hi lo xs = crc_ref 0xA001 (crc16_entry hi lo) xs"
  by (induction xs arbitrary: hi lo) (simp_all add: crc16_entry_def[symmetric] crc16_step mb_tables Let_def)

lemma ucast16_xor: "(ucast a XOR ucast b :: u16) = ucast (a XOR b)" for a b :: u8
  by (rule bit_word_eqI) (auto simp: bit_simps dest: bit_imp_le_length)

lemma calculate_crc16_loop_ref:
  "calculate_crc16_loop (ucast hi) (ucast lo) xs = crc_ref 0xA001 (crc16_entry hi lo) xs"
  by (induction xs arbitrary: hi lo)
    (simp_all add: crc16_entry_def[symmetric] crc16_step Let_def ucast16_xor unat_ucast8)

lemma crc16_entry_init: "crc16_entry 0xFF 0xFF = 0xFFFF"
  by (simp add: crc16_entry_def)

lemma usMBCRC16_ref:
  "unat n \<le> length xs \<Longrightarrow> usMBCRC16 xs n = Some (crc_ref 0xA001 0xFFFF (take (unat n) xs))"
  by (simp add: usMBCRC16_def rd_blk_def usMBCRC16_loop_ref crc16_entry_init)

text \<open>
  C24: the two table-driven CRC-16 routines, with their own copies of the tables and different
  variable widths, both compute the bit-by-bit CRC with polynomial A001 and start value FFFF,
  on every message they are given.
\<close>

theorem crc16_is_bitwise:
  assumes "unat n \<le> length xs"
  shows "calculate_crc16 xs n = Some (crc_ref 0xA001 0xFFFF (take (unat n) xs)) \<and>
    usMBCRC16 xs (ucast n) = calculate_crc16 xs n"
proof -
  have "calculate_crc16_loop 0xFF 0xFF ys = crc_ref 0xA001 0xFFFF ys" for ys
    using calculate_crc16_loop_ref[where hi = "0xFF" and lo = "0xFF" and xs = ys] by (simp add: crc16_entry_init)
  moreover have "unat (ucast n :: u16) = unat n" by (simp add: unat_ucast8)
  ultimately show ?thesis
    using assms usMBCRC16_ref[of "ucast n :: u16" xs] by (simp add: calculate_crc16_def rd_blk_def)
qed

text \<open>Two bytes appended to a message give the residue zero exactly when they are its CRC.\<close>

lemma crc_shift8_small: "crc_shift8 poly x = 0 \<longleftrightarrow> x = 0"
  if "bit poly (LENGTH('a) - 1)" for poly x :: "'a::len word"
  using crc_shift8_inj[OF that, of x 0] by auto

lemma crc16_entry_inj: "crc16_entry a b = crc16_entry c d \<longleftrightarrow> a = c \<and> b = d"
proof
  assume e: "crc16_entry a b = crc16_entry c d"
  have "(ucast a :: u16) = ucast c" "b = d"
    using e crc16_state[of a b] crc16_state[of c d] by simp_all
  then show "a = c \<and> b = d" by (simp add: ucast8_inj)
qed simp

lemma chCRCLTalbe_0:
  assumes "i < 256"
  shows "chCRCLTalbe ! i = 0 \<longleftrightarrow> i = 0"
proof (cases i)
  case (Suc j)
  have "0 \<notin> set (tl chCRCLTalbe)" unfolding chCRCLTalbe_def by simp
  moreover have "length chCRCLTalbe = 256" by (simp add: chCRCLTalbe_dbl)
  then have "tl chCRCLTalbe ! j \<in> set (tl chCRCLTalbe)" and "tl chCRCLTalbe ! j = chCRCLTalbe ! i"
    using assms Suc nth_mem[of j "tl chCRCLTalbe"] by (simp_all add: nth_tl)
  ultimately have "chCRCLTalbe ! i \<noteq> 0" by auto
  with Suc show ?thesis by simp
qed (simp add: chCRCLTalbe_def)

lemma chCRCHTalbe_0: "chCRCHTalbe ! 0 = 0"
  by (simp add: chCRCHTalbe_def)

lemma crc16_residue:
  "crc_ref 0xA001 c (xs @ [lo, hi]) = 0 \<longleftrightarrow> crc_ref 0xA001 c xs = crc16_entry hi lo"
proof -
  let ?c = "crc_ref 0xA001 c xs"
  obtain h l where hl: "?c = crc16_entry h l"
  proof
    show "?c = crc16_entry (ucast (drop_bit 8 ?c)) (ucast ?c)"
      unfolding crc16_entry_def by (rule bit_word_eqI) (auto simp: bit_simps dest: bit_imp_le_length)
  qed
  have top: "bit (0xA001 :: u16) (LENGTH(16) - 1)" by simp
  have "crc_ref 0xA001 c (xs @ [lo, hi]) = crc_byte 0xA001 (crc_byte 0xA001 (crc16_entry h l) lo) hi"
    by (simp add: hl)
  also have "\<dots> = 0 \<longleftrightarrow> crc_byte 0xA001 (crc16_entry h l) lo = ucast hi"
    by (simp only: crc_byte_def[of _ _ hi] crc_shift8_small[OF top] xor_eq_0_iff)
  also have "\<dots> \<longleftrightarrow> crc16_entry (chCRCLTalbe ! unat (l XOR lo)) (h XOR chCRCHTalbe ! unat (l XOR lo)) =
      crc16_entry 0 hi"
    by (simp only: crc16_step) (simp add: crc16_entry_def)
  also have "\<dots> \<longleftrightarrow> l = lo \<and> h = hi"
    by (auto simp: crc16_entry_inj chCRCLTalbe_0 chCRCHTalbe_0 unat_eq_0 xor_eq_0_iff)
  also have "\<dots> \<longleftrightarrow> ?c = crc16_entry hi lo" by (auto simp: hl crc16_entry_inj)
  finally show ?thesis .
qed

text \<open>
  the receiver's test of a Modbus frame, CRC of the whole frame equal to zero, accepts
  exactly the frames whose last two bytes are the CRC of what precedes them, low byte first
  as the sender appends them.
\<close>

lemma usMBCRC16_residue:
  assumes "length xs + 2 < 2 ^ 16"
  shows "usMBCRC16 (xs @ [lo, hi]) (of_nat (length xs + 2)) = Some 0 \<longleftrightarrow>
    usMBCRC16 xs (of_nat (length xs)) = Some (push_bit 8 (ucast hi) OR ucast lo)"
proof -
  have u: "unat (of_nat (length xs + 2) :: u16) = length xs + 2" "unat (of_nat (length xs) :: u16) = length xs"
    using assms by (auto simp only: intro!: unat_of_nat_lt16)
  show ?thesis
    using usMBCRC16_ref[of "of_nat (length xs + 2)" "xs @ [lo, hi]"] usMBCRC16_ref[of "of_nat (length xs)" xs]
    by (simp only: u) (simp del: crc_ref_simps add: crc16_residue crc16_entry_def)
qed

text \<open>
  a frame in which a single byte has been corrupted, whatever its position, has another
  CRC.
\<close>

lemma crc16_detects_byte:
  assumes "length xs + 1 + length ys < 2 ^ 16" and "a \<noteq> b"
  shows "usMBCRC16 (xs @ [a] @ ys) (of_nat (length xs + 1 + length ys)) \<noteq>
    usMBCRC16 (xs @ [b] @ ys) (of_nat (length xs + 1 + length ys))"
proof -
  define n where "n = (of_nat (length xs + 1 + length ys) :: u16)"
  have "unat n = length xs + 1 + length ys"
    unfolding n_def using assms(1) by (rule unat_of_nat_lt16)
  then have "usMBCRC16 (xs @ [x] @ ys) n = Some (crc_ref 0xA001 0xFFFF (xs @ [x] @ ys))" for x
    using usMBCRC16_ref[of n "xs @ [x] @ ys"] by (simp del: crc_ref_simps)
  moreover have "bit (0xA001 :: u16) (LENGTH(16) - 1)" by simp
  from crc_ref_single_byte[OF this, of "0xFFFF" xs a ys b] assms(2)
  have "crc_ref (0xA001 :: u16) 0xFFFF (xs @ [a] @ ys) \<noteq> crc_ref 0xA001 0xFFFF (xs @ [b] @ ys)"
    by (simp del: crc_ref_simps)
  ultimately show ?thesis unfolding n_def[symmetric] by (simp del: crc_ref_simps)
qed

section \<open>The CRC-32 routines\<close>

lemma ucast_xor_byte: "ucast (c XOR ucast b) = (ucast c XOR b :: u8)" for c :: u32 and b :: u8
  by (rule bit_word_eqI) (auto simp: bit_simps dest: bit_imp_le_length)

lemma fdb_crc32_loop_ref: "fdb_crc32_loop c xs = crc_ref 0xEDB88320 c xs"
  by (induction xs arbitrary: c) (simp_all add: fdb32.step)

lemma crc32_ref: "crc32 (crc32_init p) c xs = crc_ref (bitrev p 32) c xs"
  by (induction xs arbitrary: c)
    (simp_all add: fota32.step fota32.step_index Let_def xor.commute ucast_xor_byte)

text \<open>
  C25: after \<open>crc32_init(POLYNOMIAL)\<close> the firmware updater's checksum with its computed table
  and the flash database's checksum with its literal table are the same function: the
  reflected CRC-32 of the message, complemented before and after.
\<close>

theorem fota_crc_is_fdb_crc32:
  assumes "unat n \<le> length xs"
  shows "fota_crc (crc32_init POLYNOMIAL) xs n = fdb_calc_crc32 0 xs n \<and>
    fdb_calc_crc32 0 xs n = Some (NOT (crc_ref 0xEDB88320 (NOT 0) (take (unat n) xs)))"
proof -
  have m: "(0xFFFFFFFF :: u32) = NOT 0" by simp
  have "x XOR NOT 0 = NOT x" for x :: u32 by simp
  then show ?thesis
    using assms by (simp only: fota_crc_def fdb_calc_crc32_def rd_blk_def crc32_ref
        fdb_crc32_loop_ref bitrev_POLYNOMIAL m) simp
qed

lemma fdb_calc_crc32_all:
  "unat n = length xs \<Longrightarrow>
   fdb_calc_crc32 c xs n = Some (crc_ref 0xEDB88320 (c XOR NOT 0) xs XOR NOT 0)"
  by (simp add: fdb_calc_crc32_def rd_blk_def fdb_crc32_loop_ref)

text \<open>
  both checksums may be computed piece by piece: continuing the database's checksum from
  that of a first block, or stepping the updater's register through successive reads and
  complementing at the end, gives the checksum of the whole.
\<close>

lemma crc32_in_pieces:
  assumes "length xs < 2 ^ 32" and "length ys < 2 ^ 32" and "length xs + length ys < 2 ^ 32"
  shows "do { c \<leftarrow> fdb_calc_crc32 c0 xs (of_nat (length xs)); fdb_calc_crc32 c ys (of_nat (length ys)) } =
      fdb_calc_crc32 c0 (xs @ ys) (of_nat (length (xs @ ys))) \<and>
    do { c \<leftarrow> fota_step_crc (crc32_init p) 0xFFFFFFFF xs (of_nat (length xs));
         c \<leftarrow> fota_step_crc (crc32_init p) c ys (of_nat (length ys));
         Some (c XOR 0xFFFFFFFF) } =
      fota_crc (crc32_init p) (xs @ ys) (of_nat (length (xs @ ys)))"
proof -
  have u: "unat (of_nat (length xs) :: u32) = length xs" "unat (of_nat (length ys) :: u32) = length ys"
    "unat (of_nat (length xs + length ys) :: u32) = length xs + length ys"
    using assms by (simp_all only: unat_of_nat_lt)
  show ?thesis
  proof
    show "do { c \<leftarrow> fdb_calc_crc32 c0 xs (of_nat (length xs)); fdb_calc_crc32 c ys (of_nat (length ys)) } =
        fdb_calc_crc32 c0 (xs @ ys) (of_nat (length (xs @ ys)))"
      using u by (simp add: fdb_calc_crc32_all)
    show "do { c \<leftarrow> fota_step_crc (crc32_init p) 0xFFFFFFFF xs (of_nat (length xs));
           c \<leftarrow> fota_step_crc (crc32_init p) c ys (of_nat (length ys));
           Some (c XOR 0xFFFFFFFF) } =
        fota_crc (crc32_init p) (xs @ ys) (of_nat (length (xs @ ys)))"
      by (simp only: fota_step_crc_def fota_crc_def length_append u) (simp add: rd_blk_def crc32_ref)
  qed
qed

section \<open>Witnesses\<close>

theorem crc16_is_bitwise_witness:
  "calculate_crc16 [1, 3, 0] 2 = Some (crc_ref 0xA001 0xFFFF [1, 3])"
  using crc16_is_bitwise[of 2 "[1, 3, 0]"] by simp

theorem fota_crc_is_fdb_crc32_witness:
  "fota_crc (crc32_init POLYNOMIAL) [1, 2] 2 = fdb_calc_crc32 0 [1, 2] 2"
  using fota_crc_is_fdb_crc32[of 2 "[1, 2]"] by simp

end
