(* ===== verification/Mb_Util.thy ===== *)
theory Mb_Util
  imports C_Prelude
begin

text \<open>
  The types of the Modbus protocol stack (\<^verbatim>\<open>FreeModbus/modbus/include/mb.h\<close>,
  \<^verbatim>\<open>mbproto.h\<close>, \<^verbatim>\<open>mbport.h\<close>) and its utilities (\<^verbatim>\<open>functions/mbutils.c\<close>):
  bit fields inside byte arrays, and the translation of error codes into Modbus exceptions.
  The port defines \<open>assert\<close> as empty, so an assertion is no statement of the model.
\<close>

section \<open>Types and constants\<close>

datatype eMBMode = MB_RTU | MB_ASCII | MB_TCP

datatype eMBRegisterMode = MB_REG_READ | MB_REG_WRITE

datatype eMBErrorCode = MB_ENOERR | MB_ENOREG | MB_EINVAL | MB_EPORTERR | MB_ENORES | MB_EIO
  | MB_EILLSTATE | MB_ETIMEDOUT

datatype eMBEventType = EV_READY | EV_FRAME_RECEIVED | EV_EXECUTE | EV_FRAME_SENT

datatype eMBException = MB_EX_NONE | MB_EX_ILLEGAL_FUNCTION | MB_EX_ILLEGAL_DATA_ADDRESS
  | MB_EX_ILLEGAL_DATA_VALUE | MB_EX_SLAVE_DEVICE_FAILURE | MB_EX_ACKNOWLEDGE | MB_EX_SLAVE_BUSY
  | MB_EX_MEMORY_PARITY_ERROR | MB_EX_GATEWAY_PATH_FAILED | MB_EX_GATEWAY_TGT_FAILED

text \<open>The values of the enumeration, which go out on the wire.\<close>

fun exception_code :: "eMBException \<Rightarrow> u8" where
  "exception_code MB_EX_NONE = 0x00"
| "exception_code MB_EX_ILLEGAL_FUNCTION = 0x01"
| "exception_code MB_EX_ILLEGAL_DATA_ADDRESS = 0x02"
| "exception_code MB_EX_ILLEGAL_DATA_VALUE = 0x03"
| "exception_code MB_EX_SLAVE_DEVICE_FAILURE = 0x04"
| "exception_code MB_EX_ACKNOWLEDGE = 0x05"
| "exception_code MB_EX_SLAVE_BUSY = 0x06"
| "exception_code MB_EX_MEMORY_PARITY_ERROR = 0x08"
| "exception_code MB_EX_GATEWAY_PATH_FAILED = 0x0A"
| "exception_code MB_EX_GATEWAY_TGT_FAILED = 0x0B"

definition MB_ADDRESS_BROADCAST :: u8 where "MB_ADDRESS_BROADCAST = 0"
definition MB_ADDRESS_MIN :: u8 where "MB_ADDRESS_MIN = 1"
definition MB_ADDRESS_MAX :: u8 where "MB_ADDRESS_MAX = 247"
definition MB_FUNC_READ_COILS :: u8 where "MB_FUNC_READ_COILS = 1"
definition MB_FUNC_READ_DISCRETE_INPUTS :: u8 where "MB_FUNC_READ_DISCRETE_INPUTS = 2"
definition MB_FUNC_WRITE_SINGLE_COIL :: u8 where "MB_FUNC_WRITE_SINGLE_COIL = 5"
definition MB_FUNC_WRITE_MULTIPLE_COILS :: u8 where "MB_FUNC_WRITE_MULTIPLE_COILS = 15"
definition MB_FUNC_READ_HOLDING_REGISTER :: u8 where "MB_FUNC_READ_HOLDING_REGISTER = 3"
definition MB_FUNC_READ_INPUT_REGISTER :: u8 where "MB_FUNC_READ_INPUT_REGISTER = 4"
definition MB_FUNC_WRITE_REGISTER :: u8 where "MB_FUNC_WRITE_REGISTER = 6"
definition MB_FUNC_WRITE_MULTIPLE_REGISTERS :: u8 where "MB_FUNC_WRITE_MULTIPLE_REGISTERS = 16"
definition MB_FUNC_READWRITE_MULTIPLE_REGISTERS :: u8 where "MB_FUNC_READWRITE_MULTIPLE_REGISTERS = 23"
definition MB_FUNC_OTHER_REPORT_SLAVEID :: u8 where "MB_FUNC_OTHER_REPORT_SLAVEID = 17"
definition MB_FUNC_ERROR :: u8 where "MB_FUNC_ERROR = 128"

lemmas mb_consts = MB_ADDRESS_BROADCAST_def MB_ADDRESS_MIN_def MB_ADDRESS_MAX_def
  MB_FUNC_READ_COILS_def MB_FUNC_READ_DISCRETE_INPUTS_def MB_FUNC_WRITE_SINGLE_COIL_def
  MB_FUNC_WRITE_MULTIPLE_COILS_def MB_FUNC_READ_HOLDING_REGISTER_def
  MB_FUNC_READ_INPUT_REGISTER_def MB_FUNC_WRITE_REGISTER_def
  MB_FUNC_WRITE_MULTIPLE_REGISTERS_def MB_FUNC_READWRITE_MULTIPLE_REGISTERS_def
  MB_FUNC_OTHER_REPORT_SLAVEID_def MB_FUNC_ERROR_def

section \<open>mbutils.c\<close>

fun prveMBError2Exception :: "eMBErrorCode \<Rightarrow> eMBException" where
  "prveMBError2Exception MB_ENOERR = MB_EX_NONE"
| "prveMBError2Exception MB_ENOREG = MB_EX_ILLEGAL_DATA_ADDRESS"
| "prveMBError2Exception MB_ETIMEDOUT = MB_EX_SLAVE_BUSY"
| "prveMBError2Exception _ = MB_EX_SLAVE_DEVICE_FAILURE"

definition xMBUtilSetBits :: "u8 list \<Rightarrow> u16 \<Rightarrow> u8 \<Rightarrow> u8 \<Rightarrow> u8 list option" where
  "xMBUtilSetBits ucByteBuf usBitOffset ucNBits ucValue =
     (let usByteOffset = usBitOffset div 8;
          usNPreBits = usBitOffset - usByteOffset * 8;
          usValue = push_bit (unat usNPreBits) (ucast ucValue :: u16);
          usMask = push_bit (unat ucNBits) (1 :: u16) - 1;
          usMask = push_bit (unat (usBitOffset - usByteOffset * 8)) usMask
      in do {
        b0 \<leftarrow> rd ucByteBuf (unat usByteOffset);
        b1 \<leftarrow> rd ucByteBuf (unat usByteOffset + 1);
        let usWordBuf = ucast b0 OR push_bit 8 (ucast b1);
        let usWordBuf = (usWordBuf AND NOT usMask) OR usValue;
        m \<leftarrow> wr ucByteBuf (unat usByteOffset) (ucast (usWordBuf AND 0xFF));
        wr m (unat usByteOffset + 1) (ucast (drop_bit 8 usWordBuf)) })"

definition xMBUtilGetBits :: "u8 list \<Rightarrow> u16 \<Rightarrow> u8 \<Rightarrow> u8 option" where
  "xMBUtilGetBits ucByteBuf usBitOffset ucNBits =
     (let usByteOffset = usBitOffset div 8;
          usNPreBits = usBitOffset - usByteOffset * 8;
          usMask = push_bit (unat ucNBits) (1 :: u16) - 1
      in do {
        b0 \<leftarrow> rd ucByteBuf (unat usByteOffset);
        b1 \<leftarrow> rd ucByteBuf (unat usByteOffset + 1);
        let usWordBuf = (ucast b0 OR push_bit 8 (ucast b1) :: u16);
        let usWordBuf = drop_bit (unat usNPreBits) usWordBuf;
        Some (ucast (usWordBuf AND usMask)) })"

section \<open>The byte array as a row of bits\<close>

definition bit_at :: "u8 list \<Rightarrow> nat \<Rightarrow> bool" where
  "bit_at buf k = bit (buf ! (k div 8)) (k mod 8)"

lemma bit_mask16: "n \<le> 16 \<Longrightarrow> bit (push_bit n (1 :: u16) - 1) i \<longleftrightarrow> i < n \<and> i < 16"
proof -
  have "push_bit n (1 :: u16) - 1 = mask n" by (simp add: mask_eq_decr_exp)
  then show ?thesis by (auto simp: bit_mask_iff possible_bit_word)
qed

text \<open>The two bytes around an offset, as the code sees them.\<close>

lemma unat_split8: "unat (x - x div 8 * 8) = unat x mod 8" "unat (x div 8) = unat x div 8" for x :: u16
  by (simp_all add: unat_div minus_div_mult_eq_mod unat_mod)

lemma bit_pair:
  "bit (ucast b0 OR push_bit 8 (ucast b1) :: u16) i \<longleftrightarrow> (i < 16 \<and> (if i < 8 then bit b0 i else bit b1 (i - 8)))"
  for b0 b1 :: u8
  by (auto simp: bit_simps dest: bit_imp_le_length)

lemma pair_bit_at:
  assumes "o8 + 1 < length buf" and "i < 16"
  shows "(if i < 8 then bit (buf ! o8) i else bit (buf ! (o8 + 1)) (i - 8)) = bit_at buf (8 * o8 + i)"
proof (cases "i < 8")
  case True
  then have "(8 * o8 + i) div 8 = o8" "(8 * o8 + i) mod 8 = i" by simp_all
  with True show ?thesis by (simp add: bit_at_def)
next
  case False
  then obtain j where "i = 8 + j" using le_Suc_ex by (metis not_less)
  moreover from this have "(8 * o8 + i) div 8 = o8 + 1" "(8 * o8 + i) mod 8 = j" using assms by simp_all
  ultimately show ?thesis by (simp add: bit_at_def)
qed

lemma getbits_bit:
  assumes "unat ofs div 8 + 1 < length buf" and "n \<le> 8"
  shows "\<exists>v. xMBUtilGetBits buf ofs n = Some v \<and>
    (\<forall>i. bit v i \<longleftrightarrow> i < unat n \<and> bit_at buf (unat ofs + i))"
proof -
  have n8: "unat n \<le> 8" using assms(2) by (simp add: word_le_nat_alt)
  let ?q = "unat ofs div 8" and ?r = "unat ofs mod 8"
  define w where "w = (ucast (buf ! ?q) OR push_bit 8 (ucast (buf ! (?q + 1))) :: u16)"
  define msk where "msk = push_bit (unat n) (1 :: u16) - 1"
  let ?v = "ucast (drop_bit ?r w AND msk) :: u8"
  have g: "xMBUtilGetBits buf ofs n = Some ?v"
    using assms(1) unfolding xMBUtilGetBits_def Let_def unat_split8 by (simp add: mem_simps w_def msk_def)
  have m: "bit msk i \<longleftrightarrow> i < unat n" for i unfolding msk_def using n8 by (subst bit_mask16) auto
  have "bit ?v i \<longleftrightarrow> i < unat n \<and> bit_at buf (unat ofs + i)" for i
  proof -
    have "bit ?v i \<longleftrightarrow> i < 8 \<and> i < unat n \<and> bit w (?r + i)"
      by (auto simp: m bit_simps dest: bit_imp_le_length)
    also have "\<dots> \<longleftrightarrow> i < unat n \<and> bit_at buf (8 * ?q + (?r + i))"
    proof (cases "i < unat n")
      case True
      then have "?r + i < 16" "i < 8" using n8 by auto
      then show ?thesis
        using True pair_bit_at[OF assms(1), of "?r + i"] by (simp only: w_def bit_pair) simp
    qed simp
    also have "8 * ?q + (?r + i) = unat ofs + i" by simp
    finally show ?thesis .
  qed
  with g show ?thesis by blast
qed

text \<open>
  \<open>xMBUtilSetBits\<close> touches two bytes only and sets exactly the bits of the field to the
  bits of the value; outside the field every bit keeps its value, except that bits of a value
  too large for the field are added to the bits above it.
\<close>

lemma setbits_bit:
  assumes "unat ofs div 8 + 1 < length buf" and "n \<le> 8"
  shows "\<exists>buf'. xMBUtilSetBits buf ofs n v = Some buf' \<and> length buf' = length buf \<and>
    (\<forall>k < 8 * length buf. bit_at buf' k =
       (if unat ofs \<le> k \<and> k < unat ofs + unat n then bit v (k - unat ofs)
        else bit_at buf k \<or> unat ofs \<le> k \<and> bit v (k - unat ofs)))"
proof -
  have n8: "unat n \<le> 8" using assms(2) by (simp add: word_le_nat_alt)
  let ?q = "unat ofs div 8" and ?r = "unat ofs mod 8"
  let ?w = "ucast (buf ! ?q) OR push_bit 8 (ucast (buf ! (?q + 1))) :: u16"
  define msk where "msk = push_bit (unat n) (1 :: u16) - 1"
  have m: "bit msk i \<longleftrightarrow> i < unat n" for i unfolding msk_def using n8 by (subst bit_mask16) auto
  define w where "w = (?w AND NOT (push_bit ?r msk)) OR push_bit ?r (ucast v :: u16)"
  let ?buf = "buf[?q := ucast (w AND 0xFF), ?q + 1 := ucast (drop_bit 8 w)]"
  have g: "xMBUtilSetBits buf ofs n v = Some ?buf"
    using assms(1) unfolding xMBUtilSetBits_def Let_def unat_split8 by (simp add: mem_simps w_def msk_def)
  have wb: "bit w i \<longleftrightarrow> (if ?r \<le> i \<and> i < ?r + unat n then bit v (i - ?r)
      else bit_at buf (8 * ?q + i) \<or> ?r \<le> i \<and> bit v (i - ?r))" if "i < 16" for i
  proof -
    have "bit ?w i = bit_at buf (8 * ?q + i)"
      using pair_bit_at[OF assms(1) that] that by (simp only: bit_pair) simp
    moreover have "bit (push_bit ?r msk) i \<longleftrightarrow> ?r \<le> i \<and> i < ?r + unat n"
      using that by (auto simp: m bit_push_bit_iff)
    moreover have "bit (push_bit ?r (ucast v :: u16)) i \<longleftrightarrow> ?r \<le> i \<and> bit v (i - ?r)"
      using that by (auto simp: bit_simps)
    ultimately show ?thesis
      using that by (auto simp: w_def bit_or_iff bit_and_iff bit_not_iff)
  qed
  have lo: "bit (ucast (w AND 0xFF) :: u8) i \<longleftrightarrow> bit w i" if "i < 8" for i
    using that by (auto simp: bit_simps bit_FF bit_FF_int)
  have hi: "bit (ucast (drop_bit 8 w) :: u8) i \<longleftrightarrow> bit w (8 + i)" if "i < 8" for i
    using that by (auto simp: bit_simps)
  have ofs: "unat ofs = 8 * ?q + ?r" by simp
  have sh: "(unat ofs \<le> k) = (?r \<le> j)" "(k < unat ofs + unat n) = (j < ?r + unat n)"
    "k - unat ofs = j - ?r" if "k = 8 * ?q + j" for k j
    using ofs that by linarith+
  have "bit_at ?buf k = (if unat ofs \<le> k \<and> k < unat ofs + unat n then bit v (k - unat ofs)
        else bit_at buf k \<or> unat ofs \<le> k \<and> bit v (k - unat ofs))" if k: "k < 8 * length buf" for k
  proof -
    have k8: "k = 8 * (k div 8) + k mod 8" by simp
    consider "k div 8 = ?q" | "k div 8 = ?q + 1" | "k div 8 < ?q" | "?q + 1 < k div 8" by linarith
    then show ?thesis
    proof cases
      case 1
      then have "bit_at ?buf k = bit w (k mod 8)" using assms(1) lo by (simp add: bit_at_def)
      moreover have "k = 8 * ?q + k mod 8" using 1 k8 by simp
      moreover have "k mod 8 < 16" by (rule less_trans[of _ 8]) simp_all
      ultimately show ?thesis
        using wb[of "k mod 8"] sh[of k "k mod 8"] by simp
    next
      case 2
      then have "bit_at ?buf k = bit w (8 + k mod 8)" using assms(1) hi by (simp add: bit_at_def)
      moreover have "k = 8 * ?q + (8 + k mod 8)" using 2 k8 by simp
      moreover have "8 + k mod 8 < 16" using mod_less_divisor[of 8 k] by linarith
      ultimately show ?thesis
        using wb[of "8 + k mod 8"] sh[of k "8 + k mod 8"] by simp
    next
      case 3
      then have "k < unat ofs" using k8 ofs by (metis div_le_mono not_le)
      with 3 show ?thesis by (simp add: bit_at_def)
    next
      case 4
      then have "8 * ?q + 16 \<le> 8 * (k div 8)" by simp
      also have "\<dots> \<le> k" by simp
      finally have "8 * ?q + 16 \<le> k" .
      moreover have "?r < 8" by simp
      ultimately have "unat ofs + 8 < k" using ofs by linarith
      moreover have "\<not> bit v (k - unat ofs)" if "unat ofs + 8 < k"
        using that by (auto dest: bit_imp_le_length)
      ultimately show ?thesis using 4 n8 by (auto simp: bit_at_def)
    qed
  qed
  with g show ?thesis by auto
qed

text \<open>
  \<open>xMBUtilGetBits\<close> reads back what \<open>xMBUtilSetBits\<close> wrote into a field of up to eight
  bits, at any bit offset, and every bit outside the field is as before; both touch the byte
  that holds the offset and the one behind it, and nothing else.
\<close>

lemma mb_bits_roundtrip:
  assumes "unat ofs div 8 + 1 < length buf" and "n \<le> 8" and "v < push_bit (unat n) 1 \<or> n = 8"
  shows "\<exists>buf'. xMBUtilSetBits buf ofs n v = Some buf' \<and> xMBUtilGetBits buf' ofs n = Some v \<and>
    length buf' = length buf \<and>
    (\<forall>k < 8 * length buf. k < unat ofs \<or> unat ofs + unat n \<le> k \<longrightarrow> bit_at buf' k = bit_at buf k)"
proof -
  have n8: "unat n \<le> 8" using assms(2) by (simp add: word_le_nat_alt)
  have v: "\<not> bit v i" if "unat n \<le> i" for i
  proof (cases "i < 8")
    case True
    then have "n \<noteq> 8" using that by auto
    then have "v < push_bit (unat n) 1" using assms(3) by simp
    moreover have "unat (of_nat (2 ^ unat n) :: u8) \<le> 2 ^ unat n"
      by (simp only: unat_of_nat mod_less_eq_dividend)
    then have "unat (push_bit (unat n) 1 :: u8) \<le> 2 ^ unat n" by simp
    ultimately have "unat v < 2 ^ unat n" by (simp add: word_less_nat_alt)
    also have "(2 :: nat) ^ unat n \<le> 2 ^ i" using that by (rule power_increasing) simp
    finally have "\<not> bit (unat v) i" by (simp add: bit_iff_odd)
    then show ?thesis by (simp add: bit_unsigned_iff)
  qed (auto dest: bit_imp_le_length)
  obtain buf' where b: "xMBUtilSetBits buf ofs n v = Some buf'" "length buf' = length buf"
    "\<forall>k < 8 * length buf. bit_at buf' k =
       (if unat ofs \<le> k \<and> k < unat ofs + unat n then bit v (k - unat ofs)
        else bit_at buf k \<or> unat ofs \<le> k \<and> bit v (k - unat ofs))"
    using setbits_bit[OF assms(1,2), of v] by blast
  obtain u where u: "xMBUtilGetBits buf' ofs n = Some u"
    "\<forall>i. bit u i \<longleftrightarrow> i < unat n \<and> bit_at buf' (unat ofs + i)"
    using getbits_bit[of ofs buf' n] assms(1,2) b(2) by auto
  have "unat ofs + i < 8 * length buf" if "i < unat n" for i
    using that n8 assms(1) div_mult_mod_eq[of "unat ofs" 8] mod_less_divisor[of 8 "unat ofs"] by linarith
  then have "u = v"
    using u(2) b(3) v by (intro bit_word_eqI) (metis add_less_cancel_left diff_add_inverse le_add1 not_le)
  moreover have "bit_at buf' k = bit_at buf k"
    if "k < 8 * length buf" "k < unat ofs \<or> unat ofs + unat n \<le> k" for k
  proof (cases "k < unat ofs")
    case False
    then have "unat n \<le> k - unat ofs" using that(2) by linarith
    with v[of "k - unat ofs"] b(3) that False show ?thesis by auto
  qed (use b(3) that in auto)
  ultimately show ?thesis using b u(1) by blast
qed

end
