(* ===== verification/Mb_Port.thy ===== *)
theory Mb_Port
  imports Mb_Util
begin

text \<open>
  The port of the Modbus stack to the microcontroller (\<^verbatim>\<open>FreeModbus/port\<close>:
  \<^verbatim>\<open>portevent.c\<close>, \<^verbatim>\<open>portserial.c\<close>, \<^verbatim>\<open>porttimer.c\<close>). The state is the one-slot event queue,
  the two byte buffers of the serial port and what the calls of the vendor's library have
  asked of the UART and the timer: whether reception is armed, the bytes given to the
  transmitter so far, whether the timeout timer runs and its reload value.
\<close>

record mb_port =
  event :: eMBEventType
  eventReceived :: bool
  modbufUartRxBuff :: u8
  modbufUartTxBuff :: u8
  uart_rx_armed :: bool
  uart_txe_irq :: bool
  uart_sent :: "u8 list"
  tim_running :: bool
  tim_reload :: int

section \<open>Events\<close>

definition xMBPortEventInit :: "'z mb_port_scheme \<Rightarrow> bool \<times> 'z mb_port_scheme" where
  "xMBPortEventInit s = (True, s\<lparr>eventReceived := False\<rparr>)"

definition xMBPortEventPost :: "eMBEventType \<Rightarrow> 'z mb_port_scheme \<Rightarrow> bool \<times> 'z mb_port_scheme" where
  "xMBPortEventPost eEvent s = (True, s\<lparr>eventReceived := True, event := eEvent\<rparr>)"

definition xMBPortEventGet :: "'z mb_port_scheme \<Rightarrow> eMBEventType option \<times> 'z mb_port_scheme" where
  "xMBPortEventGet s = (if eventReceived s then (Some (event s), s\<lparr>eventReceived := False\<rparr>) else (None, s))"

definition xMBPortIsEventSet :: "'z mb_port_scheme \<Rightarrow> bool" where
  "xMBPortIsEventSet s = eventReceived s"

section \<open>Serial port\<close>

text \<open>
  Enabling the transmitter calls the protocol's transmitter-empty callback at once, through
  the pointer \<open>pxMBFrameCBTransmitterEmpty\<close>; \<open>None\<close> as a pointer is null.
\<close>

type_synonym 'z tx_callback = "('z mb_port_scheme \<Rightarrow> (bool \<times> 'z mb_port_scheme) option) option"

definition vMBPortSerialEnable ::
  "'z tx_callback \<Rightarrow> bool \<Rightarrow> bool \<Rightarrow> 'z mb_port_scheme \<Rightarrow> 'z mb_port_scheme option" where
  "vMBPortSerialEnable pxMBFrameCBTransmitterEmpty xRxEnable xTxEnable s =
     (let s = s\<lparr>uart_rx_armed := xRxEnable\<rparr>
      in if xTxEnable then do {
           let s = s\<lparr>uart_txe_irq := True\<rparr>;
           cb \<leftarrow> pxMBFrameCBTransmitterEmpty;
           (_, s) \<leftarrow> cb s;
           Some s }
         else Some s)"

definition xMBPortSerialInit ::
  "u8 \<Rightarrow> u32 \<Rightarrow> u8 \<Rightarrow> 'p \<Rightarrow> 'z mb_port_scheme \<Rightarrow> bool \<times> 'z mb_port_scheme" where
  "xMBPortSerialInit ucPORT ulBaudRate ucDataBits eParity s = (True, s)"

definition xMBPortSerialPutByte :: "u8 \<Rightarrow> 'z mb_port_scheme \<Rightarrow> bool \<times> 'z mb_port_scheme" where
  "xMBPortSerialPutByte ucByte s =
     (True, s\<lparr>modbufUartTxBuff := ucByte, uart_sent := uart_sent s @ [ucByte]\<rparr>)"

definition xMBPortSerialGetByte :: "'z mb_port_scheme \<Rightarrow> bool \<times> u8" where
  "xMBPortSerialGetByte s = (True, modbufUartRxBuff s)"

section \<open>Timer\<close>

definition xMBPortTimersInit :: "u16 \<Rightarrow> 'z mb_port_scheme \<Rightarrow> bool \<times> 'z mb_port_scheme" where
  "xMBPortTimersInit usTim1Timerout50us s =
     (True, s\<lparr>tim_running := False, tim_reload := int (unat usTim1Timerout50us) - 1\<rparr>)"

definition vMBPortTimersEnable :: "'z mb_port_scheme \<Rightarrow> 'z mb_port_scheme" where
  "vMBPortTimersEnable s = s\<lparr>tim_running := True\<rparr>"

definition vMBPortTimersDisable :: "'z mb_port_scheme \<Rightarrow> 'z mb_port_scheme" where
  "vMBPortTimersDisable s = s\<lparr>tim_running := False\<rparr>"

named_theorems port_defs \<open>the operations of the port\<close>

lemmas [port_defs] = xMBPortEventInit_def xMBPortEventPost_def xMBPortEventGet_def
  xMBPortIsEventSet_def vMBPortSerialEnable_def xMBPortSerialInit_def xMBPortSerialPutByte_def
  xMBPortSerialGetByte_def xMBPortTimersInit_def vMBPortTimersEnable_def vMBPortTimersDisable_def

end
