(* ===== verification/Mb_Rtu.thy ===== *)
theory Mb_Rtu
  imports Mb_Port Crc
begin

text \<open>
  The RTU framing layer (\<^verbatim>\<open>FreeModbus/modbus/rtu/mbrtu.c\<close>): the receiver and transmitter state
  machines, driven by the interrupts of the serial port and the timeout timer, around one
  buffer of 256 bytes that holds the request and then the reply. A pointer into the buffer is
  its offset.
\<close>

section \<open>State\<close>

datatype eMBRcvState = STATE_RX_INIT | STATE_RX_IDLE | STATE_RX_RCV | STATE_RX_ERROR

datatype eMBSndState = STATE_TX_IDLE | STATE_TX_XMIT

definition MB_SER_PDU_SIZE_MIN :: u16 where "MB_SER_PDU_SIZE_MIN = 4"
definition MB_SER_PDU_SIZE_MAX :: u16 where "MB_SER_PDU_SIZE_MAX = 256"
definition MB_SER_PDU_SIZE_CRC :: u16 where "MB_SER_PDU_SIZE_CRC = 2"
definition MB_SER_PDU_ADDR_OFF :: nat where "MB_SER_PDU_ADDR_OFF = 0"
definition MB_SER_PDU_PDU_OFF :: nat where "MB_SER_PDU_PDU_OFF = 1"

lemmas rtu_consts = MB_SER_PDU_SIZE_MIN_def MB_SER_PDU_SIZE_MAX_def MB_SER_PDU_SIZE_CRC_def
  MB_SER_PDU_ADDR_OFF_def MB_SER_PDU_PDU_OFF_def

record mb_rtu = mb_port +
  eSndState :: eMBSndState
  eRcvState :: eMBRcvState
  ucRTUBuf :: "u8 list"
  pucSndBufferCur :: nat
  usSndBufferCount :: u16
  usRcvBufferPos :: u16

section \<open>Interrupt handlers\<close>

definition xMBRTUReceiveFSM :: "'z mb_rtu_scheme \<Rightarrow> (bool \<times> 'z mb_rtu_scheme) option" where
  "xMBRTUReceiveFSM s =
     (let (_, ucByte) = xMBPortSerialGetByte s
      in case eRcvState s of
        STATE_RX_INIT \<Rightarrow> Some (False, vMBPortTimersEnable s)
      | STATE_RX_ERROR \<Rightarrow> Some (False, vMBPortTimersEnable s)
      | STATE_RX_IDLE \<Rightarrow> do {
          let s = s\<lparr>usRcvBufferPos := 0\<rparr>;
          b \<leftarrow> wr (ucRTUBuf s) (unat (usRcvBufferPos s)) ucByte;
          let s = s\<lparr>ucRTUBuf := b, usRcvBufferPos := usRcvBufferPos s + 1\<rparr>;
          let s = s\<lparr>eRcvState := STATE_RX_RCV\<rparr>;
          Some (False, vMBPortTimersEnable s) }
      | STATE_RX_RCV \<Rightarrow>
          if usRcvBufferPos s < MB_SER_PDU_SIZE_MAX then do {
            b \<leftarrow> wr (ucRTUBuf s) (unat (usRcvBufferPos s)) ucByte;
            let s = s\<lparr>ucRTUBuf := b, usRcvBufferPos := usRcvBufferPos s + 1\<rparr>;
            Some (False, vMBPortTimersEnable s) }
          else Some (False, vMBPortTimersEnable (s\<lparr>eRcvState := STATE_RX_ERROR\<rparr>)))"

definition xMBRTUTransmitFSM :: "'z mb_rtu_scheme \<Rightarrow> (bool \<times> 'z mb_rtu_scheme) option" where
  "xMBRTUTransmitFSM s =
     (case eSndState s of
        STATE_TX_IDLE \<Rightarrow> do { s \<leftarrow> vMBPortSerialEnable None True False s; Some (False, s) }
      | STATE_TX_XMIT \<Rightarrow>
          if usSndBufferCount s \<noteq> 0 then do {
            b \<leftarrow> rd (ucRTUBuf s) (pucSndBufferCur s);
            let (_, s) = xMBPortSerialPutByte b s;
            Some (False, s\<lparr>pucSndBufferCur := pucSndBufferCur s + 1, usSndBufferCount := usSndBufferCount s - 1\<rparr>) }
          else do {
            let (xNeedPoll, s) = xMBPortEventPost EV_FRAME_SENT s;
            s \<leftarrow> vMBPortSerialEnable None True False s;
            Some (xNeedPoll, s\<lparr>eSndState := STATE_TX_IDLE\<rparr>) })"

definition xMBRTUTimerT35Expired :: "'z mb_rtu_scheme \<Rightarrow> bool \<times> 'z mb_rtu_scheme" where
  "xMBRTUTimerT35Expired s =
     (let (xNeedPoll, s) =
        (case eRcvState s of
           STATE_RX_INIT \<Rightarrow> xMBPortEventPost EV_READY s
         | STATE_RX_RCV \<Rightarrow> xMBPortEventPost EV_FRAME_RECEIVED s
         | STATE_RX_ERROR \<Rightarrow> (False, s)
         | _ \<Rightarrow> (False, s));
          s = vMBPortTimersDisable s
      in (xNeedPoll, s\<lparr>eRcvState := STATE_RX_IDLE\<rparr>))"

section \<open>Start, stop, receive and send\<close>

text \<open>Baud rate 0 is a division by zero.\<close>

definition t35_50us :: "u32 \<Rightarrow> u32 option" where
  "t35_50us ulBaudRate =
     (if ulBaudRate > 19200 then Some 35
      else if 2 * ulBaudRate = 0 then None
      else Some ((7 * 220000) div (2 * ulBaudRate)))"

definition eMBRTUInit ::
  "u8 \<Rightarrow> u8 \<Rightarrow> u32 \<Rightarrow> 'p \<Rightarrow> 'z mb_rtu_scheme \<Rightarrow> (eMBErrorCode \<times> 'z mb_rtu_scheme) option" where
  "eMBRTUInit ucSlaveAddress ucPort ulBaudRate eParity s = do {
     let (ok, s) = xMBPortSerialInit ucPort ulBaudRate 8 eParity s;
     if \<not> ok then Some (MB_EPORTERR, s)
     else do {
       usTimerT35_50us \<leftarrow> t35_50us ulBaudRate;
       let (ok, s) = xMBPortTimersInit (ucast usTimerT35_50us) s;
       Some (if \<not> ok then MB_EPORTERR else MB_ENOERR, s) } }"

definition eMBRTUStart :: "'z mb_rtu_scheme \<Rightarrow> 'z mb_rtu_scheme option" where
  "eMBRTUStart s = do {
     let s = s\<lparr>eRcvState := STATE_RX_INIT\<rparr>;
     s \<leftarrow> vMBPortSerialEnable (Some xMBRTUTransmitFSM) True False s;
     Some (vMBPortTimersEnable s) }"

definition eMBRTUStop :: "'z mb_rtu_scheme \<Rightarrow> 'z mb_rtu_scheme option" where
  "eMBRTUStop s = do {
     s \<leftarrow> vMBPortSerialEnable (Some xMBRTUTransmitFSM) False False s;
     Some (vMBPortTimersDisable s) }"

text \<open>The results are the status and, on success, the address, the frame and its length.\<close>

definition eMBRTUReceive :: "'z mb_rtu_scheme \<Rightarrow> (eMBErrorCode \<times> (u8 \<times> nat \<times> u16) option) option" where
  "eMBRTUReceive s =
     (if usRcvBufferPos s \<ge> MB_SER_PDU_SIZE_MIN then do {
        crc \<leftarrow> usMBCRC16 (ucRTUBuf s) (usRcvBufferPos s);
        if crc = 0 then do {
          a \<leftarrow> rd (ucRTUBuf s) MB_SER_PDU_ADDR_OFF;
          Some (MB_ENOERR, Some (a, MB_SER_PDU_PDU_OFF,
            usRcvBufferPos s - of_nat MB_SER_PDU_PDU_OFF - MB_SER_PDU_SIZE_CRC)) }
        else Some (MB_EIO, None) }
      else Some (MB_EIO, None))"

definition eMBRTUSend ::
  "u8 \<Rightarrow> nat \<Rightarrow> u16 \<Rightarrow> 'z mb_rtu_scheme \<Rightarrow> (eMBErrorCode \<times> 'z mb_rtu_scheme) option" where
  "eMBRTUSend ucSlaveAddress pucFrame usLength s =
     (if eRcvState s = STATE_RX_IDLE then
        if pucFrame = 0 then None
        else do {
          let s = s\<lparr>pucSndBufferCur := pucFrame - 1, usSndBufferCount := 1\<rparr>;
          b \<leftarrow> wr (ucRTUBuf s) (pucSndBufferCur s + MB_SER_PDU_ADDR_OFF) ucSlaveAddress;
          let s = s\<lparr>ucRTUBuf := b, usSndBufferCount := usSndBufferCount s + usLength\<rparr>;
          usCRC16 \<leftarrow> usMBCRC16 (drop (pucSndBufferCur s) (ucRTUBuf s)) (usSndBufferCount s);
          b \<leftarrow> wr (ucRTUBuf s) (unat (usSndBufferCount s)) (ucast (usCRC16 AND 0xFF));
          let s = s\<lparr>ucRTUBuf := b, usSndBufferCount := usSndBufferCount s + 1\<rparr>;
          b \<leftarrow> wr (ucRTUBuf s) (unat (usSndBufferCount s)) (ucast (drop_bit 8 usCRC16));
          let s = s\<lparr>ucRTUBuf := b, usSndBufferCount := usSndBufferCount s + 1\<rparr>;
          let s = s\<lparr>eSndState := STATE_TX_XMIT\<rparr>;
          s \<leftarrow> vMBPortSerialEnable (Some xMBRTUTransmitFSM) False True s;
          Some (MB_ENOERR, s) }
      else Some (MB_EIO, s))"

section \<open>Sequences of interrupts\<close>

text \<open>
  A received byte: the hardware stores it and the receive callback runs. A transmitter that
  becomes empty: the transmit callback runs.
\<close>

definition uart_rx :: "u8 \<Rightarrow> 'z mb_rtu_scheme \<Rightarrow> 'z mb_rtu_scheme option" where
  "uart_rx b s = do { (_, s) \<leftarrow> xMBRTUReceiveFSM (s\<lparr>modbufUartRxBuff := b\<rparr>); Some s }"

fun rx_bytes :: "u8 list \<Rightarrow> 'z mb_rtu_scheme \<Rightarrow> 'z mb_rtu_scheme option" where
  "rx_bytes [] s = Some s"
| "rx_bytes (b # bs) s = do { s \<leftarrow> uart_rx b s; rx_bytes bs s }"

fun tx_empty :: "nat \<Rightarrow> 'z mb_rtu_scheme \<Rightarrow> 'z mb_rtu_scheme option" where
  "tx_empty 0 s = Some s"
| "tx_empty (Suc n) s = do { (_, s) \<leftarrow> xMBRTUTransmitFSM s; tx_empty n s }"

text \<open>
  The invariant of the framing layer: the buffer has its size, and neither the receiver nor a
  running transmission can leave it.
\<close>

definition rtu_inv :: "'z mb_rtu_scheme \<Rightarrow> bool" where
  "rtu_inv s \<longleftrightarrow> length (ucRTUBuf s) = 256 \<and> usRcvBufferPos s \<le> 256 \<and>
     (eSndState s = STATE_TX_XMIT \<longrightarrow> pucSndBufferCur s + unat (usSndBufferCount s) \<le> 256)"

lemma receive_fsm_inv:
  assumes "rtu_inv s"
  shows "\<exists>s'. uart_rx b s = Some s' \<and> rtu_inv s'"
proof -
  have "usRcvBufferPos s < 256 \<Longrightarrow> usRcvBufferPos s + 1 \<le> 256" by (rule inc_le)
  moreover have "usRcvBufferPos s < 256 \<Longrightarrow> unat (usRcvBufferPos s) < 256" by (simp add: word_less_nat_alt)
  ultimately show ?thesis
    using assms by (cases "eRcvState s")
      (auto simp: uart_rx_def xMBRTUReceiveFSM_def port_defs rtu_inv_def mem_simps Let_def rtu_consts)
qed

lemma transmit_fsm_inv:
  assumes "rtu_inv s"
  shows "\<exists>x s'. xMBRTUTransmitFSM s = Some (x, s') \<and> rtu_inv s'"
proof (cases "eSndState s = STATE_TX_XMIT \<and> usSndBufferCount s \<noteq> 0")
  case True
  then have "0 < unat (usSndBufferCount s)" by (simp add: unat_gt_0)
  moreover have "unat (usSndBufferCount s - 1) = unat (usSndBufferCount s) - 1"
    using True by (simp add: unat_minus_one)
  ultimately show ?thesis
    using assms True by (auto simp: xMBRTUTransmitFSM_def port_defs rtu_inv_def mem_simps Let_def)
next
  case False
  with assms show ?thesis
    by (cases "eSndState s") (auto simp: xMBRTUTransmitFSM_def port_defs rtu_inv_def Let_def)
qed

lemma timer_inv: "rtu_inv s \<Longrightarrow> rtu_inv (snd (xMBRTUTimerT35Expired s))"
  by (cases "eRcvState s") (simp_all add: xMBRTUTimerT35Expired_def port_defs rtu_inv_def)

section \<open>Receiving a frame\<close>

lemma rx_bytes_rcv:
  assumes "length (ucRTUBuf s) = 256" and "eRcvState s = STATE_RX_RCV" and "tim_running s"
    and "unat (usRcvBufferPos s) + length bs \<le> 256"
  shows "rx_bytes bs s = Some (s\<lparr>modbufUartRxBuff := last (modbufUartRxBuff s # bs),
     ucRTUBuf := blit (ucRTUBuf s) (unat (usRcvBufferPos s)) bs,
     usRcvBufferPos := usRcvBufferPos s + of_nat (length bs)\<rparr>)"
  using assms
proof (induction bs arbitrary: s)
  case (Cons b bs)
  let ?n = "unat (usRcvBufferPos s)"
  let ?s = "s\<lparr>modbufUartRxBuff := b, ucRTUBuf := (ucRTUBuf s)[?n := b], usRcvBufferPos := usRcvBufferPos s + 1\<rparr>"
  have n: "usRcvBufferPos s < 256" "unat (usRcvBufferPos s + 1) = ?n + 1"
    using Cons.prems(4) by (simp_all add: word_less_nat_alt unat_add_small)
  have "uart_rx b s = Some ?s"
    using Cons.prems n(1) by (simp add: uart_rx_def xMBRTUReceiveFSM_def port_defs Let_def mem_simps rtu_consts)
  moreover have "blit ((ucRTUBuf s)[?n := b]) (Suc ?n) bs = blit (ucRTUBuf s) ?n (b # bs)"
    using Cons.prems by (simp add: blit_def take_Suc_conv_app_nth)
  ultimately show ?case
    using Cons.IH[of ?s] Cons.prems n by (simp add: add.assoc)
qed simp

lemma rx_bytes_append: "rx_bytes (xs @ ys) s = Option.bind (rx_bytes xs s) (rx_bytes ys)"
  by (induction xs arbitrary: s) (auto split: bind_splits)

lemma rx_bytes_idle:
  assumes "length (ucRTUBuf s) = 256" and "eRcvState s = STATE_RX_IDLE" and "bs \<noteq> []" and "length bs \<le> 256"
  shows "rx_bytes bs s = Some (s\<lparr>modbufUartRxBuff := last bs,
     ucRTUBuf := bs @ drop (length bs) (ucRTUBuf s), usRcvBufferPos := of_nat (length bs),
     eRcvState := STATE_RX_RCV, tim_running := True\<rparr>)"
proof (cases bs)
  case (Cons b cs)
  let ?s = "s\<lparr>modbufUartRxBuff := b, ucRTUBuf := (ucRTUBuf s)[0 := b], usRcvBufferPos := 1,
      eRcvState := STATE_RX_RCV, tim_running := True\<rparr>"
  have "uart_rx b s = Some ?s"
    using assms by (simp add: uart_rx_def xMBRTUReceiveFSM_def port_defs Let_def mem_simps rtu_consts)
  moreover have "blit ((ucRTUBuf s)[0 := b]) (Suc 0) cs = b # cs @ drop (Suc (length cs)) (ucRTUBuf s)"
    using assms(1) by (cases "ucRTUBuf s") (simp_all add: blit_def)
  ultimately show ?thesis
    using rx_bytes_rcv[of ?s cs] assms Cons by simp
qed (use assms(3) in simp)

lemma rx_bytes_error:
  assumes "eRcvState s = STATE_RX_ERROR" and "tim_running s"
  shows "rx_bytes bs s = Some (s\<lparr>modbufUartRxBuff := last (modbufUartRxBuff s # bs)\<rparr>)"
  using assms by (induction bs arbitrary: s) (simp_all add: uart_rx_def xMBRTUReceiveFSM_def port_defs)

text \<open>More bytes than the buffer holds: the first 256 are kept, and the receiver waits for the silence.\<close>

lemma rx_bytes_long:
  assumes "length (ucRTUBuf s) = 256" and "eRcvState s = STATE_RX_IDLE" and "256 < length bs"
  shows "rx_bytes bs s = Some (s\<lparr>modbufUartRxBuff := last bs, ucRTUBuf := take 256 bs, usRcvBufferPos := 256,
     eRcvState := STATE_RX_ERROR, tim_running := True\<rparr>)"
proof -
  define xs y ys where "xs = take 256 bs" and "y = bs ! 256" and "ys = drop 257 bs"
  have bs: "bs = xs @ y # ys" using assms(3) id_take_nth_drop[of 256 bs] by (simp add: xs_def y_def ys_def)
  have l: "length xs = 256" "xs \<noteq> []" using assms(3) by (auto simp: xs_def)
  let ?s = "s\<lparr>modbufUartRxBuff := last xs, ucRTUBuf := xs, usRcvBufferPos := 256,
      eRcvState := STATE_RX_RCV, tim_running := True\<rparr>"
  let ?t = "?s\<lparr>modbufUartRxBuff := y, eRcvState := STATE_RX_ERROR\<rparr>"
  have "rx_bytes xs s = Some ?s" using rx_bytes_idle[of s xs] assms l by simp
  moreover have "uart_rx y ?s = Some ?t"
    by (simp add: uart_rx_def xMBRTUReceiveFSM_def port_defs Let_def rtu_consts)
  ultimately have "rx_bytes bs s = Some (?t\<lparr>modbufUartRxBuff := last (y # ys)\<rparr>)"
    using rx_bytes_error[of ?t ys] by (simp add: bs rx_bytes_append)
  then show ?thesis by (simp add: bs l(1))
qed

text \<open>
  the receiver collects a frame: from the idle state, any bytes followed by the timeout of
  3.5 characters post the event of a received frame, with the buffer holding exactly the bytes,
  in order, and their number, when they fit the buffer of 256 bytes; a longer frame is dropped
  without an event. Either way the receiver is idle again, the timer is stopped, and nothing is
  written outside the buffer.
\<close>

lemma rtu_collects_frame:
  assumes "rtu_inv s" and "eRcvState s = STATE_RX_IDLE" and "bs \<noteq> []"
  shows "\<exists>s'. map_option xMBRTUTimerT35Expired (rx_bytes bs s) = Some (length bs \<le> 256, s') \<and>
     eRcvState s' = STATE_RX_IDLE \<and> \<not> tim_running s' \<and> rtu_inv s' \<and>
     take (min 256 (length bs)) (ucRTUBuf s') = take 256 bs \<and>
     usRcvBufferPos s' = of_nat (min 256 (length bs)) \<and>
     (eventReceived s', event s') =
       (if length bs \<le> 256 then (True, EV_FRAME_RECEIVED) else (eventReceived s, event s))"
proof (cases "length bs \<le> 256")
  case True
  have "(of_nat (length bs) :: u16) \<le> 256" using True by (simp add: word_le_nat_alt unat_of_nat take_bit_nat_eq_self)
  with True assms show ?thesis
    by (simp add: rx_bytes_idle rtu_inv_def xMBRTUTimerT35Expired_def port_defs min_def)
next
  case False
  then show ?thesis
    using rx_bytes_long[of s bs] assms by (simp add: xMBRTUTimerT35Expired_def port_defs rtu_inv_def min_def)
qed

section \<open>Sending a frame\<close>

text \<open>The frame on the line: address, PDU and the CRC, low byte first.\<close>

definition rtu_frame :: "u8 \<Rightarrow> u8 list \<Rightarrow> u8 list" where
  "rtu_frame a pdu = (let crc = crc_ref (0xA001 :: u16) 0xFFFF (a # pdu) in a # pdu @ [ucast crc, ucast (drop_bit 8 crc)])"

lemma length_rtu_frame [simp]: "length (rtu_frame a pdu) = length pdu + 3"
  by (simp add: rtu_frame_def Let_def)

lemma crc16_entry_bytes: "crc16_entry (ucast (drop_bit 8 c)) (ucast c) = c"
  unfolding crc16_entry_def by (rule bit_word_eqI) (auto simp: bit_simps dest: bit_imp_le_length)

lemma rtu_frame_crc: "crc_ref (0xA001 :: u16) 0xFFFF (rtu_frame a pdu) = 0"
  using crc16_residue[of "0xFFFF" "a # pdu"] crc16_entry_bytes
  by (simp add: rtu_frame_def Let_def del: crc_ref_simps)

lemma rtu_frame_unique:
  assumes "crc_ref (0xA001 :: u16) 0xFFFF (a # pdu @ [x, y]) = 0"
  shows "a # pdu @ [x, y] = rtu_frame a pdu"
proof -
  have "crc_ref 0xA001 0xFFFF (a # pdu) = crc16_entry y x"
    using assms crc16_residue[of "0xFFFF" "a # pdu" x y] by (simp del: crc_ref_simps)
  then have "crc16_entry y x = crc16_entry (ucast (drop_bit 8 (crc_ref (0xA001 :: u16) 0xFFFF (a # pdu))))
      (ucast (crc_ref (0xA001 :: u16) 0xFFFF (a # pdu)))"
    by (simp only: crc16_entry_bytes)
  then show ?thesis unfolding crc16_entry_inj rtu_frame_def Let_def by (simp only: append.simps)
qed

lemma ucast_and_FF: "ucast (c AND 0xFF) = (ucast c :: u8)" for c :: u16
  by (rule bit_word_eqI) (auto simp: bit_simps bit_FF bit_FF_int)

lemma tx_empty_sends:
  assumes "length (ucRTUBuf s) = 256" and "eSndState s = STATE_TX_XMIT"
    and "pucSndBufferCur s + unat (usSndBufferCount s) \<le> 256" and "k \<le> unat (usSndBufferCount s)"
  shows "tx_empty k s = Some (s\<lparr>
     modbufUartTxBuff := last (modbufUartTxBuff s # take k (drop (pucSndBufferCur s) (ucRTUBuf s))),
     uart_sent := uart_sent s @ take k (drop (pucSndBufferCur s) (ucRTUBuf s)),
     pucSndBufferCur := pucSndBufferCur s + k, usSndBufferCount := usSndBufferCount s - of_nat k\<rparr>)"
  using assms
proof (induction k arbitrary: s)
  case (Suc k)
  let ?c = "pucSndBufferCur s" and ?b = "ucRTUBuf s"
  let ?s = "s\<lparr>modbufUartTxBuff := ?b ! ?c, uart_sent := uart_sent s @ [?b ! ?c],
      pucSndBufferCur := ?c + 1, usSndBufferCount := usSndBufferCount s - 1\<rparr>"
  have nz: "usSndBufferCount s \<noteq> 0" using Suc.prems(4) by (auto simp: unat_eq_0)
  then have n: "unat (usSndBufferCount s - 1) = unat (usSndBufferCount s) - 1" by (simp add: unat_minus_one)
  have c: "?c < 256" using Suc.prems(3,4) by simp
  have "xMBRTUTransmitFSM s = Some (False, ?s)"
    using Suc.prems nz c by (simp add: xMBRTUTransmitFSM_def port_defs mem_simps Let_def)
  moreover have "drop ?c ?b = ?b ! ?c # drop (?c + 1) ?b"
    using Suc.prems(1) c by (simp add: Cons_nth_drop_Suc)
  ultimately show ?case
    using Suc.IH[of ?s] Suc.prems n by (simp add: algebra_simps)
qed simp

lemma tx_empty_add: "tx_empty (m + n) s = Option.bind (tx_empty m s) (tx_empty n)"
  by (induction m arbitrary: s) (auto split: bind_splits)

lemma tx_empty_done:
  assumes "eSndState s = STATE_TX_XMIT" and "usSndBufferCount s = 0"
  shows "tx_empty 1 s = Some (s\<lparr>eventReceived := True, event := EV_FRAME_SENT, uart_rx_armed := True,
     eSndState := STATE_TX_IDLE\<rparr>)"
  using assms by (simp add: xMBRTUTransmitFSM_def port_defs)

text \<open>What \<open>eMBRTUSend\<close> leaves behind, before the transmitter runs.\<close>

lemma send_prepares:
  assumes "length (ucRTUBuf s) = 256" and "eRcvState s = STATE_RX_IDLE" and "unat n \<le> 253"
  shows "eMBRTUSend a 1 n s = map_option (\<lambda>s'. (MB_ENOERR, s')) (tx_empty 1 (s\<lparr>
      pucSndBufferCur := 0,
      ucRTUBuf := rtu_frame a (take (unat n) (drop 1 (ucRTUBuf s))) @ drop (unat n + 3) (ucRTUBuf s), usSndBufferCount := n + 3, eSndState := STATE_TX_XMIT,
      uart_rx_armed := False, uart_txe_irq := True\<rparr>))"
proof -
  define xs zs where "xs = take (unat n) (drop 1 (ucRTUBuf s))" and "zs = drop (unat n + 3) (ucRTUBuf s)"
  obtain b0 y1 y2 where buf: "ucRTUBuf s = b0 # xs @ y1 # y2 # zs"
  proof -
    have l: "unat n + 2 < length (ucRTUBuf s)" using assms(1,3) by simp
    have "ucRTUBuf s = hd (ucRTUBuf s) # xs @ drop (unat n) (drop 1 (ucRTUBuf s))"
      using assms(1) unfolding xs_def append_take_drop_id by (cases "ucRTUBuf s") simp_all
    also have "drop (unat n) (drop 1 (ucRTUBuf s)) = drop (unat n + 1) (ucRTUBuf s)" by simp
    also have "\<dots> = ucRTUBuf s ! (unat n + 1) # ucRTUBuf s ! (unat n + 2) # zs"
      using l Cons_nth_drop_Suc[of "unat n + 1" "ucRTUBuf s"] Cons_nth_drop_Suc[of "unat n + 2" "ucRTUBuf s"]
      by (simp add: zs_def numeral_3_eq_3)
    finally show ?thesis using that by blast
  qed
  have lx: "length xs = unat n" using assms(1,3) by (simp add: xs_def)
  have u: "unat (1 + n) = unat n + 1" "unat (2 + n) = unat n + 2"
    using assms(3) by (simp_all add: unat_add_small)
  define c where "c = crc_ref (0xA001 :: u16) 0xFFFF (a # xs)"
  have crc: "usMBCRC16 (a # xs @ y1 # y2 # zs) (1 + n) = Some c"
    using usMBCRC16_ref[of "1 + n" "a # xs @ y1 # y2 # zs"] lx u by (simp add: c_def del: crc_ref_simps)
  show ?thesis
    unfolding xs_def[symmetric] zs_def[symmetric] using assms(2) crc lx u
    by (simp add: eMBRTUSend_def port_defs buf wr_def Let_def rtu_consts
        rtu_frame_def c_def[symmetric] ucast_and_FF nth_append list_update_append add.commute
        bind_map_option map_option_bind comp_def case_prod_beta del: crc_ref_simps)
qed

lemma send_inv:
  assumes "rtu_inv s" and "unat n \<le> 253"
  shows "\<exists>st s'. eMBRTUSend a 1 n s = Some (st, s') \<and> rtu_inv s'"
proof (cases "eRcvState s = STATE_RX_IDLE")
  case True
  let ?s = "s\<lparr>pucSndBufferCur := 0,
      ucRTUBuf := rtu_frame a (take (unat n) (drop 1 (ucRTUBuf s))) @ drop (unat n + 3) (ucRTUBuf s),
      usSndBufferCount := n + 3, eSndState := STATE_TX_XMIT, uart_rx_armed := False, uart_txe_irq := True\<rparr>"
  have "unat (n + 3) = unat n + 3" using assms(2) by (simp add: unat_add_small)
  then have "rtu_inv ?s" using assms by (simp add: rtu_inv_def min_def)
  then obtain x s' where "xMBRTUTransmitFSM ?s = Some (x, s')" "rtu_inv s'" using transmit_fsm_inv by blast
  then show ?thesis using send_prepares[of s n a] assms True by (simp add: rtu_inv_def)
next
  case False
  then show ?thesis using assms(1) by (simp add: eMBRTUSend_def)
qed

text \<open>The state after a complete transmission of \<open>n\<close> bytes of PDU to the address \<open>a\<close>.\<close>

definition after_send :: "u8 \<Rightarrow> u16 \<Rightarrow> 'z mb_rtu_scheme \<Rightarrow> 'z mb_rtu_scheme" where
  "after_send a n s =
     (let fr = rtu_frame a (take (unat n) (drop 1 (ucRTUBuf s)))
      in s\<lparr>ucRTUBuf := fr @ drop (unat n + 3) (ucRTUBuf s), eSndState := STATE_TX_IDLE, uart_rx_armed := True,
         uart_txe_irq := True, modbufUartTxBuff := last fr, uart_sent := uart_sent s @ fr,
         pucSndBufferCur := unat n + 3, usSndBufferCount := 0, eventReceived := True, event := EV_FRAME_SENT\<rparr>)"

lemma send_completes:
  assumes "length (ucRTUBuf s) = 256" and "eRcvState s = STATE_RX_IDLE" and "unat n \<le> 253"
  shows "\<exists>s1. eMBRTUSend a 1 n s = Some (MB_ENOERR, s1) \<and> tx_empty (unat n + 3) s1 = Some (after_send a n s)"
proof -
  define fr where "fr = rtu_frame a (take (unat n) (drop 1 (ucRTUBuf s)))"
  define t where "t = s\<lparr>pucSndBufferCur := 0, ucRTUBuf := fr @ drop (unat n + 3) (ucRTUBuf s),
      usSndBufferCount := n + 3, eSndState := STATE_TX_XMIT, uart_rx_armed := False, uart_txe_irq := True\<rparr>"
  have lf: "length fr = unat n + 3" using assms by (simp add: fr_def)
  then have nf: "fr \<noteq> []" by auto
  have u: "unat (n + 3) = unat n + 3" using assms(3) by (simp add: unat_add_small)
  have k: "of_nat (unat n + 3) = n + 3" by simp
  let ?t = "t\<lparr>modbufUartTxBuff := last fr, uart_sent := uart_sent s @ fr,
      pucSndBufferCur := unat n + 3, usSndBufferCount := 0\<rparr>"
  have run: "tx_empty (unat n + 3) t = Some ?t"
    using tx_empty_sends[of t "unat n + 3"] assms u lf k nf by (simp add: t_def)
  have "tx_empty (1 + (unat n + 3)) t = tx_empty ((unat n + 3) + 1) t" by (simp only: add.commute)
  also have "\<dots> = Some (?t\<lparr>eventReceived := True, event := EV_FRAME_SENT, uart_rx_armed := True, eSndState := STATE_TX_IDLE\<rparr>)"
    (is "_ = Some ?u") using run tx_empty_done[of ?t] by (simp only: tx_empty_add bind.simps) (simp add: t_def)
  also have "?u = after_send a n s"
    by (rule mb_rtu.equality) (simp_all add: after_send_def t_def fr_def Let_def)
  finally have whole: "tx_empty (1 + (unat n + 3)) t = Some (after_send a n s)" .
  then obtain s1 where s1: "tx_empty 1 t = Some s1" "tx_empty (unat n + 3) s1 = Some (after_send a n s)"
    by (auto simp only: tx_empty_add bind_eq_Some_conv)
  have "eMBRTUSend a 1 n s = Some (MB_ENOERR, s1)"
    using send_prepares[of s n a] assms s1(1) by (simp add: t_def fr_def)
  with s1(2) show ?thesis by blast
qed

text \<open>
  C33: sending a frame: from the idle receiver, \<open>eMBRTUSend\<close> starts the transmission, and the
  transmitter-empty interrupts put exactly the address, the PDU and its CRC on the line, in
  order and once each, after which the event of a sent frame is posted, reception is enabled
  again and the transmitter is idle. When a new request has already begun to arrive the reply
  is dropped with an error and nothing is sent or changed.
\<close>

theorem rtu_sends_frame:
  assumes "rtu_inv s" and "unat n \<le> 253"
  shows "case eRcvState s of
     STATE_RX_IDLE \<Rightarrow> \<exists>s1 s2. eMBRTUSend a 1 n s = Some (MB_ENOERR, s1) \<and> tx_empty (unat n + 3) s1 = Some s2 \<and>
       uart_sent s2 = uart_sent s @ rtu_frame a (take (unat n) (drop 1 (ucRTUBuf s))) \<and>
       eSndState s2 = STATE_TX_IDLE \<and> uart_rx_armed s2 \<and> eventReceived s2 \<and> event s2 = EV_FRAME_SENT \<and>
       eRcvState s2 = STATE_RX_IDLE \<and> rtu_inv s2
   | _ \<Rightarrow> eMBRTUSend a 1 n s = Some (MB_EIO, s)"
proof (cases "eRcvState s = STATE_RX_IDLE")
  case True
  then obtain s1 where "eMBRTUSend a 1 n s = Some (MB_ENOERR, s1)" "tx_empty (unat n + 3) s1 = Some (after_send a n s)"
    using send_completes[of s n a] assms by (auto simp: rtu_inv_def)
  moreover have "rtu_inv (after_send a n s)" using assms by (simp add: rtu_inv_def after_send_def Let_def min_def)
  ultimately show ?thesis using True by (auto simp: after_send_def Let_def)
next
  case False
  then show ?thesis by (cases "eRcvState s") (simp_all add: eMBRTUSend_def)
qed

text \<open>What a sequence of bytes on the line means: the address and the PDU of a valid frame.\<close>

definition rtu_decode :: "u8 list \<Rightarrow> (u8 \<times> u8 list) option" where
  "rtu_decode bs = (let pdu = butlast (butlast (tl bs))
     in if 4 \<le> length bs \<and> bs = rtu_frame (hd bs) pdu then Some (hd bs, pdu) else None)"

lemma rtu_decode_frame: "pdu \<noteq> [] \<Longrightarrow> rtu_decode (rtu_frame a pdu) = Some (a, pdu)"
  by (cases pdu rule: rev_cases) (simp_all add: rtu_decode_def rtu_frame_def Let_def butlast_append del: crc_ref_simps)

lemma receive_decodes:
  assumes "length (ucRTUBuf s) = 256" and "length bs \<le> 256" and "take (length bs) (ucRTUBuf s) = bs"
    and "usRcvBufferPos s = of_nat (length bs)"
  shows "eMBRTUReceive s = Some (case rtu_decode bs of
     Some (a, pdu) \<Rightarrow> (MB_ENOERR, Some (a, 1, of_nat (length pdu))) | None \<Rightarrow> (MB_EIO, None))"
proof -
  have u: "unat (usRcvBufferPos s) = length bs"
    using assms(2,4) by (simp add: unat_of_nat take_bit_nat_eq_self)
  have m: "usRcvBufferPos s \<ge> 4 \<longleftrightarrow> 4 \<le> length bs" using u by (simp add: word_le_nat_alt)
  have crc: "usMBCRC16 (ucRTUBuf s) (usRcvBufferPos s) = Some (crc_ref 0xA001 0xFFFF bs)"
    using usMBCRC16_ref[of "usRcvBufferPos s" "ucRTUBuf s"] u assms by simp
  show ?thesis
  proof (cases "4 \<le> length bs")
    case True
    obtain a pdu x y where bs: "bs = a # pdu @ [x, y]"
    proof (cases bs)
      case (Cons a cs)
      obtain es x y where "cs = es @ [x, y]"
      proof (cases cs rule: rev_cases)
        case (snoc ds y)
        with Cons True that show ?thesis by (cases ds rule: rev_cases) auto
      qed (use True Cons in simp)
      with Cons that show ?thesis by blast
    qed (use True in simp)
    have pdu: "butlast (butlast (tl bs)) = pdu" "hd bs = a" by (simp_all add: bs butlast_append)
    have iff: "crc_ref (0xA001 :: u16) 0xFFFF bs = 0 \<longleftrightarrow> bs = rtu_frame a pdu"
      using rtu_frame_unique[of a pdu x y] rtu_frame_crc[of a pdu] unfolding bs by metis
    have a: "rd (ucRTUBuf s) 0 = Some a" using assms(1,3) bs by (cases "ucRTUBuf s") (auto simp: rd_def)
    have h: "hd (rtu_frame a pdu) = a" by (simp add: rtu_frame_def Let_def)
    have len: "usRcvBufferPos s - 1 - 2 = of_nat (length pdu)" using assms(4) by (simp add: bs)
    show ?thesis
      using True m crc iff a len pdu h
      by (simp add: eMBRTUReceive_def rtu_consts rtu_decode_def Let_def)
  next
    case False
    with m show ?thesis by (simp add: eMBRTUReceive_def rtu_consts rtu_decode_def Let_def)
  qed
qed

text \<open>
  C22: from the idle state the receiver accepts exactly the frames of the protocol among all
  sequences of bytes: more than 256 bytes post no event, and of the others those of at least four bytes
  that are an address, a PDU and the CRC of both are taken, with the address and the length of
  the PDU the sender put in, while all others, too short or with a CRC that does not match, are refused.
  A frame of the full 256 bytes is accepted although the assertion in \<open>eMBRTUReceive\<close> asks for fewer;
  the port defines assertions as empty.
\<close>

theorem rtu_accepts_frames:
  assumes "rtu_inv s" and "eRcvState s = STATE_RX_IDLE" and "bs \<noteq> []"
  shows "\<exists>posted s'. map_option xMBRTUTimerT35Expired (rx_bytes bs s) = Some (posted, s') \<and>
    (if length bs \<le> 256 then
       posted \<and> eventReceived s' \<and> event s' = EV_FRAME_RECEIVED \<and>
       (usRcvBufferPos s' < MB_SER_PDU_SIZE_MAX \<longleftrightarrow> length bs < 256) \<and>
       eMBRTUReceive s' = Some (case rtu_decode bs of
         Some (a, pdu) \<Rightarrow> (MB_ENOERR, Some (a, 1, of_nat (length pdu))) | None \<Rightarrow> (MB_EIO, None))
     else \<not> posted \<and> eventReceived s' = eventReceived s \<and> event s' = event s)"
proof -
  obtain s' where s': "map_option xMBRTUTimerT35Expired (rx_bytes bs s) = Some (length bs \<le> 256, s')" "rtu_inv s'"
    "take (min 256 (length bs)) (ucRTUBuf s') = take 256 bs" "usRcvBufferPos s' = of_nat (min 256 (length bs))"
    "(eventReceived s', event s') = (if length bs \<le> 256 then (True, EV_FRAME_RECEIVED) else (eventReceived s, event s))"
    using rtu_collects_frame[OF assms] by blast
  show ?thesis
  proof (cases "length bs \<le> 256")
    case True
    then have "eMBRTUReceive s' = Some (case rtu_decode bs of
         Some (a, pdu) \<Rightarrow> (MB_ENOERR, Some (a, 1, of_nat (length pdu))) | None \<Rightarrow> (MB_EIO, None))"
      using s'(2-4) by (intro receive_decodes) (simp_all add: rtu_inv_def min_def)
    moreover have "usRcvBufferPos s' < MB_SER_PDU_SIZE_MAX \<longleftrightarrow> length bs < 256"
      using True s'(4) by (simp add: rtu_consts word_less_nat_alt unat_of_nat take_bit_nat_eq_self min_def)
    ultimately show ?thesis using s'(1,5) True by (intro exI[of _ "length bs \<le> 256"] exI[of _ s']) simp
  next
    case False
    then show ?thesis using s'(1,5) by (intro exI[of _ "length bs \<le> 256"] exI[of _ s']) simp
  qed
qed

text \<open>
  the timeout that ends a frame is 3.5 characters of 11 bits, rounded down to the timer's
  ticks of 50 microseconds, for every baud rate from 12 to 19200, and 35 ticks above.
\<close>

lemma rtu_timeout:
  assumes "12 \<le> baud"
  shows "\<exists>s'. eMBRTUInit a pt baud par s = Some (MB_ENOERR, s') \<and>
    tim_reload s' + 1 = (if 19200 < baud then 35 else (35 * 11 * 20000) div (10 * int (unat baud)))"
proof -
  have b: "12 \<le> unat baud" using assms by (simp add: word_le_nat_alt)
  show ?thesis
  proof (cases "19200 < baud")
    case True
    then show ?thesis by (simp add: eMBRTUInit_def t35_50us_def port_defs)
  next
    case False
    then have b2: "unat baud \<le> 19200" by (simp add: word_less_nat_alt)
    then have u: "unat (2 * baud) = 2 * unat baud" by (simp add: unat_word_ariths)
    then have nz: "2 * baud \<noteq> 0" using b by (metis unat_0 mult_eq_0_iff not_numeral_le_zero zero_neq_numeral)
    let ?t = "1540000 div (2 * baud)"
    have t: "unat ?t = 770000 div unat baud"
      using div_mult2_eq[of 1540000 2 "unat baud"] by (simp add: unat_div u)
    also have "\<dots> \<le> 770000 div 12" using b by (intro div_le_mono2) simp_all
    finally have lt: "unat ?t < 65536" by simp
    have "int (770000 div unat baud) = (35 * 11 * 20000) div (10 * int (unat baud))"
      using zdiv_zmult2_eq[of "int (unat baud)" 7700000 10] by (simp add: zdiv_int)
    then have "int (unat (ucast ?t :: u16)) = (35 * 11 * 20000) div (10 * int (unat baud))"
      using lt t by (simp add: unsigned_ucast_eq take_bit_nat_eq_self)
    with False nz show ?thesis by (simp add: eMBRTUInit_def t35_50us_def port_defs)
  qed
qed

section \<open>Witnesses\<close>

definition rtu_example :: mb_rtu where
  "rtu_example = \<lparr>event = EV_READY, eventReceived = False, modbufUartRxBuff = 0, modbufUartTxBuff = 0,
     uart_rx_armed = True, uart_txe_irq = False, uart_sent = [], tim_running = False, tim_reload = 34,
     eSndState = STATE_TX_IDLE, eRcvState = STATE_RX_IDLE, ucRTUBuf = replicate 256 0,
     pucSndBufferCur = 0, usSndBufferCount = 0, usRcvBufferPos = 0\<rparr>"

lemma rtu_example_inv: "rtu_inv rtu_example" "eRcvState rtu_example = STATE_RX_IDLE"
  by (simp_all add: rtu_inv_def rtu_example_def)

theorem rtu_sends_frame_witness:
  "\<exists>s1 s2. eMBRTUSend 5 1 2 rtu_example = Some (MB_ENOERR, s1) \<and> tx_empty 5 s1 = Some s2 \<and>
    uart_sent s2 = rtu_frame 5 [0, 0]"
proof -
  have "take 2 (drop 1 (ucRTUBuf rtu_example)) = [0, 0]" "uart_sent rtu_example = []"
    by (simp_all add: rtu_example_def numeral_eq_Suc)
  with rtu_sends_frame[OF rtu_example_inv(1), of 2 5] show ?thesis
    by (auto simp add: rtu_example_inv(2))
qed

theorem rtu_accepts_frames_witness:
  "\<exists>s'. map_option xMBRTUTimerT35Expired (rx_bytes (rtu_frame 5 [3, 4]) rtu_example) = Some (True, s') \<and>
    eMBRTUReceive s' = Some (MB_ENOERR, Some (5, 1, 2))"
proof -
  have "rtu_frame 5 [3, 4] \<noteq> []" by (simp add: rtu_frame_def Let_def)
  from rtu_accepts_frames[OF rtu_example_inv this] show ?thesis by (auto simp: rtu_decode_frame)
qed

end
