(* ===== verification/Mb_Func.thy ===== *)
theory Mb_Func
  imports Mb_Util
begin

text \<open>
  The function code handlers of the Modbus slave (\<^verbatim>\<open>FreeModbus/modbus/functions\<close>). A handler
  gets the memory behind \<open>pucFrame\<close>, the length of the PDU in it and the environment, and
  answers the exception code, the new length, the memory and the environment; \<open>None\<close> is an
  access outside the memory. The register callbacks are fields of a record, applied to the
  application's state, the memory and the offset that stands for the pointer passed.
\<close>

section \<open>The environment\<close>

record 's mb_app =
  eMBRegInput :: "'s \<Rightarrow> u8 list \<Rightarrow> nat \<Rightarrow> u16 \<Rightarrow> u16 \<Rightarrow> (eMBErrorCode \<times> u8 list \<times> 's) option"
  eMBRegHolding :: "'s \<Rightarrow> u8 list \<Rightarrow> nat \<Rightarrow> u16 \<Rightarrow> u16 \<Rightarrow> eMBRegisterMode \<Rightarrow>
      (eMBErrorCode \<times> u8 list \<times> 's) option"
  eMBRegCoils :: "'s \<Rightarrow> u8 list \<Rightarrow> nat \<Rightarrow> u16 \<Rightarrow> u16 \<Rightarrow> eMBRegisterMode \<Rightarrow>
      (eMBErrorCode \<times> u8 list \<times> 's) option"
  eMBRegDiscrete :: "'s \<Rightarrow> u8 list \<Rightarrow> nat \<Rightarrow> u16 \<Rightarrow> u16 \<Rightarrow> (eMBErrorCode \<times> u8 list \<times> 's) option"

text \<open>The static slave identification of \<^verbatim>\<open>mbfuncother.c\<close> and the application's state.\<close>

record 's mb_env =
  ucMBSlaveID :: "u8 list"
  usMBSlaveIDLen :: u16
  me_app :: 's

type_synonym 's mb_handler =
  "u8 list \<Rightarrow> u16 \<Rightarrow> 's mb_env \<Rightarrow> (eMBException \<times> u16 \<times> u8 list \<times> 's mb_env) option"

text \<open>\<open>x = (USHORT)(p[i] << 8); x |= (USHORT)p[i + 1];\<close>\<close>

definition be16 :: "u8 list \<Rightarrow> nat \<Rightarrow> u16 option" where
  "be16 p i = do { h \<leftarrow> rd p i; l \<leftarrow> rd p (i + 1); Some (push_bit 8 (ucast h) OR ucast l) }"

section \<open>Coils and discrete inputs\<close>

definition coil_bytes :: "u16 \<Rightarrow> u8" where
  "coil_bytes n = ucast (if n AND 7 \<noteq> 0 then n div 8 + 1 else n div 8)"

definition eMBFuncReadCoils :: "'s mb_app \<Rightarrow> 's mb_handler" where
  "eMBFuncReadCoils app p usLen e =
     (if usLen = 5 then do {
        usRegAddress \<leftarrow> be16 p 1;
        let usRegAddress = usRegAddress + 1;
        usCoilCount \<leftarrow> be16 p 3;
        if usCoilCount \<ge> 1 \<and> usCoilCount < 0x07D0 then do {
          p \<leftarrow> wr p 0 MB_FUNC_READ_COILS;
          let ucNBytes = coil_bytes usCoilCount;
          p \<leftarrow> wr p 1 ucNBytes;
          (st, p, s) \<leftarrow> eMBRegCoils app (me_app e) p 2 usRegAddress usCoilCount MB_REG_READ;
          let e = e\<lparr>me_app := s\<rparr>;
          if st \<noteq> MB_ENOERR then Some (prveMBError2Exception st, 2, p, e)
          else Some (MB_EX_NONE, 2 + ucast ucNBytes, p, e) }
        else Some (MB_EX_ILLEGAL_DATA_VALUE, usLen, p, e) }
      else Some (MB_EX_ILLEGAL_DATA_VALUE, usLen, p, e))"

definition eMBFuncWriteCoil :: "'s mb_app \<Rightarrow> 's mb_handler" where
  "eMBFuncWriteCoil app p usLen e =
     (if usLen = 5 then do {
        usRegAddress \<leftarrow> be16 p 1;
        let usRegAddress = usRegAddress + 1;
        v0 \<leftarrow> rd p 3;
        v1 \<leftarrow> rd p 4;
        if v1 = 0 \<and> (v0 = 0xFF \<or> v0 = 0) then do {
          let ucBuf = [if v0 = 0xFF then 1 else 0, 0];
          (st, _, s) \<leftarrow> eMBRegCoils app (me_app e) ucBuf 0 usRegAddress 1 MB_REG_WRITE;
          let e = e\<lparr>me_app := s\<rparr>;
          if st \<noteq> MB_ENOERR then Some (prveMBError2Exception st, usLen, p, e)
          else Some (MB_EX_NONE, usLen, p, e) }
        else Some (MB_EX_ILLEGAL_DATA_VALUE, usLen, p, e) }
      else Some (MB_EX_ILLEGAL_DATA_VALUE, usLen, p, e))"

definition eMBFuncWriteMultipleCoils :: "'s mb_app \<Rightarrow> 's mb_handler" where
  "eMBFuncWriteMultipleCoils app p usLen e =
     (if usLen > 5 then do {
        usRegAddress \<leftarrow> be16 p 1;
        let usRegAddress = usRegAddress + 1;
        usCoilCnt \<leftarrow> be16 p 3;
        ucByteCount \<leftarrow> rd p 5;
        let ucByteCountVerify = coil_bytes usCoilCnt;
        if usCoilCnt \<ge> 1 \<and> usCoilCnt \<le> 0x07B0 \<and> ucByteCountVerify = ucByteCount then do {
          (st, p, s) \<leftarrow> eMBRegCoils app (me_app e) p 6 usRegAddress usCoilCnt MB_REG_WRITE;
          let e = e\<lparr>me_app := s\<rparr>;
          if st \<noteq> MB_ENOERR then Some (prveMBError2Exception st, usLen, p, e)
          else Some (MB_EX_NONE, 5, p, e) }
        else Some (MB_EX_ILLEGAL_DATA_VALUE, usLen, p, e) }
      else Some (MB_EX_ILLEGAL_DATA_VALUE, usLen, p, e))"

definition eMBFuncReadDiscreteInputs :: "'s mb_app \<Rightarrow> 's mb_handler" where
  "eMBFuncReadDiscreteInputs app p usLen e =
     (if usLen = 5 then do {
        usRegAddress \<leftarrow> be16 p 1;
        let usRegAddress = usRegAddress + 1;
        usDiscreteCnt \<leftarrow> be16 p 3;
        if usDiscreteCnt \<ge> 1 \<and> usDiscreteCnt < 0x07D0 then do {
          p \<leftarrow> wr p 0 MB_FUNC_READ_DISCRETE_INPUTS;
          let ucNBytes = coil_bytes usDiscreteCnt;
          p \<leftarrow> wr p 1 ucNBytes;
          (st, p, s) \<leftarrow> eMBRegDiscrete app (me_app e) p 2 usRegAddress usDiscreteCnt;
          let e = e\<lparr>me_app := s\<rparr>;
          if st \<noteq> MB_ENOERR then Some (prveMBError2Exception st, 2, p, e)
          else Some (MB_EX_NONE, 2 + ucast ucNBytes, p, e) }
        else Some (MB_EX_ILLEGAL_DATA_VALUE, usLen, p, e) }
      else Some (MB_EX_ILLEGAL_DATA_VALUE, usLen, p, e))"

section \<open>Registers\<close>

definition eMBFuncReadInputRegister :: "'s mb_app \<Rightarrow> 's mb_handler" where
  "eMBFuncReadInputRegister app p usLen e =
     (if usLen = 5 then do {
        usRegAddress \<leftarrow> be16 p 1;
        let usRegAddress = usRegAddress + 1;
        usRegCount \<leftarrow> be16 p 3;
        if usRegCount \<ge> 1 \<and> usRegCount < 0x007D then do {
          p \<leftarrow> wr p 0 MB_FUNC_READ_INPUT_REGISTER;
          p \<leftarrow> wr p 1 (ucast (usRegCount * 2));
          (st, p, s) \<leftarrow> eMBRegInput app (me_app e) p 2 usRegAddress usRegCount;
          let e = e\<lparr>me_app := s\<rparr>;
          if st \<noteq> MB_ENOERR then Some (prveMBError2Exception st, 2, p, e)
          else Some (MB_EX_NONE, 2 + usRegCount * 2, p, e) }
        else Some (MB_EX_ILLEGAL_DATA_VALUE, usLen, p, e) }
      else Some (MB_EX_ILLEGAL_DATA_VALUE, usLen, p, e))"

definition eMBFuncWriteHoldingRegister :: "'s mb_app \<Rightarrow> 's mb_handler" where
  "eMBFuncWriteHoldingRegister app p usLen e =
     (if usLen = 5 then do {
        usRegAddress \<leftarrow> be16 p 1;
        let usRegAddress = usRegAddress + 1;
        (st, p, s) \<leftarrow> eMBRegHolding app (me_app e) p 3 usRegAddress 1 MB_REG_WRITE;
        let e = e\<lparr>me_app := s\<rparr>;
        if st \<noteq> MB_ENOERR then Some (prveMBError2Exception st, usLen, p, e)
        else Some (MB_EX_NONE, usLen, p, e) }
      else Some (MB_EX_ILLEGAL_DATA_VALUE, usLen, p, e))"

definition eMBFuncWriteMultipleHoldingRegister :: "'s mb_app \<Rightarrow> 's mb_handler" where
  "eMBFuncWriteMultipleHoldingRegister app p usLen e =
     (if usLen \<ge> 6 then do {
        usRegAddress \<leftarrow> be16 p 1;
        let usRegAddress = usRegAddress + 1;
        usRegCount \<leftarrow> be16 p 3;
        ucRegByteCount \<leftarrow> rd p 5;
        if usRegCount \<ge> 1 \<and> usRegCount \<le> 0x0078 \<and> ucRegByteCount = ucast (2 * usRegCount) then do {
          (st, p, s) \<leftarrow> eMBRegHolding app (me_app e) p 6 usRegAddress usRegCount MB_REG_WRITE;
          let e = e\<lparr>me_app := s\<rparr>;
          if st \<noteq> MB_ENOERR then Some (prveMBError2Exception st, usLen, p, e)
          else Some (MB_EX_NONE, 5, p, e) }
        else Some (MB_EX_ILLEGAL_DATA_VALUE, usLen, p, e) }
      else Some (MB_EX_ILLEGAL_DATA_VALUE, usLen, p, e))"

text \<open>The second assignment to \<open>usRegCount\<close> overwrites the first: the code has \<open>=\<close> for \<open>|=\<close>.\<close>

definition eMBFuncReadHoldingRegister :: "'s mb_app \<Rightarrow> 's mb_handler" where
  "eMBFuncReadHoldingRegister app p usLen e =
     (if usLen = 5 then do {
        usRegAddress \<leftarrow> be16 p 1;
        let usRegAddress = usRegAddress + 1;
        _ \<leftarrow> rd p 3;
        l \<leftarrow> rd p 4;
        let usRegCount = (ucast l :: u16);
        if usRegCount \<ge> 1 \<and> usRegCount \<le> 0x007D then do {
          p \<leftarrow> wr p 0 MB_FUNC_READ_HOLDING_REGISTER;
          p \<leftarrow> wr p 1 (ucast (usRegCount * 2));
          (st, p, s) \<leftarrow> eMBRegHolding app (me_app e) p 2 usRegAddress usRegCount MB_REG_READ;
          let e = e\<lparr>me_app := s\<rparr>;
          if st \<noteq> MB_ENOERR then Some (prveMBError2Exception st, 2, p, e)
          else Some (MB_EX_NONE, 2 + usRegCount * 2, p, e) }
        else Some (MB_EX_ILLEGAL_DATA_VALUE, usLen, p, e) }
      else Some (MB_EX_ILLEGAL_DATA_VALUE, usLen, p, e))"

text \<open>A request that is too short falls through to the \<open>MB_EX_NONE\<close> it started with.\<close>

definition eMBFuncReadWriteMultipleHoldingRegister :: "'s mb_app \<Rightarrow> 's mb_handler" where
  "eMBFuncReadWriteMultipleHoldingRegister app p usLen e =
     (if usLen \<ge> 10 then do {
        usRegReadAddress \<leftarrow> be16 p 1;
        let usRegReadAddress = usRegReadAddress + 1;
        usRegReadCount \<leftarrow> be16 p 3;
        usRegWriteAddress \<leftarrow> be16 p 5;
        let usRegWriteAddress = usRegWriteAddress + 1;
        usRegWriteCount \<leftarrow> be16 p 7;
        ucRegWriteByteCount \<leftarrow> rd p 9;
        if usRegReadCount \<ge> 1 \<and> usRegReadCount \<le> 0x7D \<and> usRegWriteCount \<ge> 1 \<and>
           usRegWriteCount \<le> 0x79 \<and> 2 * unat usRegWriteCount = unat ucRegWriteByteCount then do {
          (st, p, s) \<leftarrow> eMBRegHolding app (me_app e) p 10 usRegWriteAddress usRegWriteCount MB_REG_WRITE;
          let e = e\<lparr>me_app := s\<rparr>;
          if st = MB_ENOERR then do {
            p \<leftarrow> wr p 0 MB_FUNC_READWRITE_MULTIPLE_REGISTERS;
            p \<leftarrow> wr p 1 (ucast (usRegReadCount * 2));
            (st, p, s) \<leftarrow> eMBRegHolding app (me_app e) p 2 usRegReadAddress usRegReadCount MB_REG_READ;
            let e = e\<lparr>me_app := s\<rparr>;
            if st = MB_ENOERR then Some (MB_EX_NONE, 2 + 2 * usRegReadCount, p, e)
            else Some (prveMBError2Exception st, 2, p, e) }
          else Some (prveMBError2Exception st, usLen, p, e) }
        else Some (MB_EX_ILLEGAL_DATA_VALUE, usLen, p, e) }
      else Some (MB_EX_NONE, usLen, p, e))"

section \<open>Slave identification\<close>

definition MB_FUNC_OTHER_REP_SLAVEID_BUF :: nat where "MB_FUNC_OTHER_REP_SLAVEID_BUF = 32"

definition eMBSetSlaveID ::
  "u8 \<Rightarrow> bool \<Rightarrow> u8 list \<Rightarrow> u16 \<Rightarrow> 's mb_env \<Rightarrow> (eMBErrorCode \<times> 's mb_env) option" where
  "eMBSetSlaveID ucSlaveID xIsRunning pucAdditional usAdditionalLen e =
     (if unat usAdditionalLen + 2 < MB_FUNC_OTHER_REP_SLAVEID_BUF then do {
        b \<leftarrow> wr (ucMBSlaveID e) 0 ucSlaveID;
        b \<leftarrow> wr b 1 (if xIsRunning then 0xFF else 0);
        if usAdditionalLen > 0 then do {
          xs \<leftarrow> rd_blk pucAdditional 0 (unat usAdditionalLen);
          b \<leftarrow> wr_blk b 2 xs;
          Some (MB_ENOERR, e\<lparr>ucMBSlaveID := b, usMBSlaveIDLen := 2 + usAdditionalLen\<rparr>) }
        else Some (MB_ENOERR, e\<lparr>ucMBSlaveID := b, usMBSlaveIDLen := 2\<rparr>) }
      else Some (MB_ENORES, e))"

definition eMBFuncReportSlaveID :: "'s mb_handler" where
  "eMBFuncReportSlaveID p usLen e = do {
     xs \<leftarrow> rd_blk (ucMBSlaveID e) 0 (unat (usMBSlaveIDLen e));
     p \<leftarrow> wr_blk p 1 xs;
     Some (MB_EX_NONE, 1 + usMBSlaveIDLen e, p, e) }"

section \<open>The contract of the register callbacks\<close>

text \<open>
  What the handlers need of an application: a callback that reads gets room for the bytes of
  its answer, one that writes gets the bytes of the request; neither leaves the memory it is
  given, nor changes its length, nor what lies in front of the pointer passed, and each keeps
  the application's invariant.
\<close>

definition cb_ok ::
  "('s \<Rightarrow> bool) \<Rightarrow> u8 list \<Rightarrow> nat \<Rightarrow> (eMBErrorCode \<times> u8 list \<times> 's) option \<Rightarrow> bool" where
  "cb_ok ainv p i r \<longleftrightarrow> (\<exists>st p' s'. r = Some (st, p', s') \<and> length p' = length p \<and>
     take i p' = take i p \<and> ainv s')"

locale mb_callbacks =
  fixes app :: "'s mb_app" and ainv :: "'s \<Rightarrow> bool"
  assumes input_ok: "ainv s \<Longrightarrow> 1 \<le> n \<Longrightarrow> i + 2 * unat n \<le> length p \<Longrightarrow>
      cb_ok ainv p i (eMBRegInput app s p i a n)"
    and holding_ok: "ainv s \<Longrightarrow> 1 \<le> n \<Longrightarrow> i + 2 * unat n \<le> length p \<Longrightarrow>
      cb_ok ainv p i (eMBRegHolding app s p i a n m)"
    and coils_ok: "ainv s \<Longrightarrow> 1 \<le> n \<Longrightarrow> i + (unat n + 7) div 8 \<le> length p \<Longrightarrow>
      cb_ok ainv p i (eMBRegCoils app s p i a n m)"
    and discrete_ok: "ainv s \<Longrightarrow> 1 \<le> n \<Longrightarrow> i + (unat n + 7) div 8 \<le> length p \<Longrightarrow>
      cb_ok ainv p i (eMBRegDiscrete app s p i a n)"

text \<open>
  What a handler must satisfy on the memory of 255 bytes behind the slave address: it stays in
  the memory, its answer fits a PDU, and it keeps the environment in order.
\<close>

definition slaveid_wf :: "'s mb_env \<Rightarrow> bool" where
  "slaveid_wf e \<longleftrightarrow> length (ucMBSlaveID e) = MB_FUNC_OTHER_REP_SLAVEID_BUF \<and>
     unat (usMBSlaveIDLen e) < MB_FUNC_OTHER_REP_SLAVEID_BUF"

definition env_ok :: "('s \<Rightarrow> bool) \<Rightarrow> 's mb_env \<Rightarrow> bool" where
  "env_ok ainv e \<longleftrightarrow> slaveid_wf e \<and> ainv (me_app e)"

definition handler_ok :: "('s \<Rightarrow> bool) \<Rightarrow> 's mb_handler \<Rightarrow> u8 list \<Rightarrow> u16 \<Rightarrow> 's mb_env \<Rightarrow> bool" where
  "handler_ok ainv h p len e \<longleftrightarrow> (\<exists>ex len' p' e'. h p len e = Some (ex, len', p', e') \<and>
     length p' = length p \<and> unat len' \<le> 253 \<and> 1 \<le> unat len' \<and> env_ok ainv e')"

lemma env_ok_app: "env_ok ainv e \<Longrightarrow> ainv s' \<Longrightarrow> env_ok ainv (e\<lparr>me_app := s'\<rparr>)"
  by (simp add: env_ok_def slaveid_wf_def)

lemma env_okD: "env_ok ainv e \<Longrightarrow> ainv (me_app e)"
  by (simp add: env_ok_def)

definition be16v :: "u8 list \<Rightarrow> nat \<Rightarrow> u16" where
  "be16v p i = push_bit 8 (ucast (p ! i)) OR ucast (p ! (i + 1))"

lemma be16_Some [mem_simps]: "i + 1 < length p \<Longrightarrow> be16 p i = Some (be16v p i)"
  by (simp add: be16_def rd_def be16v_def)

lemma unat_coil_bytes: "n < 0x07F8 \<Longrightarrow> unat (coil_bytes n) = (unat n + 7) div 8"
proof -
  assume n: "n < 0x07F8"
  then have un: "unat n < 2040" by (simp add: word_less_nat_alt)
  have "n AND 7 = n mod 8"
    using take_bit_eq_mask[of 3 n] take_bit_eq_mod[of 3 n] by (simp add: mask_eq_exp_minus_1)
  then have m: "n AND 7 = 0 \<longleftrightarrow> unat n mod 8 = 0"
    by (simp add: unat_eq_0[symmetric] unat_mod)
  let ?x = "if n AND 7 \<noteq> 0 then n div 8 + 1 else n div 8"
  have "unat (n div 8 + 1) = unat n div 8 + 1"
    using un by (subst unat_add_small) (simp_all add: unat_div)
  then have x: "unat ?x = (unat n + 7) div 8"
    unfolding m[symmetric] using m by (auto simp: unat_div) presburger+
  then have "unat ?x < 256" using un by simp
  with x show ?thesis
    by (simp add: coil_bytes_def unsigned_ucast_eq take_bit_nat_eq_self del: if_split)
qed

lemma unat_double: "n \<le> 0x7D \<Longrightarrow> unat (2 + n * 2) = 2 + 2 * unat n" for n :: u16
  by (simp add: unat_word_ariths word_le_nat_alt)

lemma handler_ok_fail:
  "h p len e = Some (ex, len, p, e) \<Longrightarrow> env_ok ainv e \<Longrightarrow> 1 \<le> unat len \<Longrightarrow> unat len \<le> 253 \<Longrightarrow>
   handler_ok ainv h p len e"
  by (simp add: handler_ok_def)

lemma cb_okE:
  assumes "cb_ok ainv p i r"
  obtains st p' s' where "r = Some (st, p', s')" "length p' = length p" "ainv s'"
  using assms by (auto simp: cb_ok_def)

lemma coil_reply_length:
  assumes "n < 0x07D0"
  shows "1 \<le> unat (2 + ucast (coil_bytes n) :: u16)" "unat (2 + ucast (coil_bytes n) :: u16) \<le> 253"
proof -
  have n: "n < 0x07F8" and un: "unat n < 2000" using assms by (auto simp: word_less_nat_alt)
  have "unat (2 + ucast (coil_bytes n) :: u16) = 2 + unat (coil_bytes n)"
    using less_trans[OF unat_u8, of 65534 "coil_bytes n"] by (subst unat_add_small) (simp_all add: unat_ucast8)
  then show "1 \<le> unat (2 + ucast (coil_bytes n) :: u16)" "unat (2 + ucast (coil_bytes n) :: u16) \<le> 253"
    using un by (simp_all add: unat_coil_bytes[OF n])
qed

lemma reg_reply_length:
  fixes n :: u16
  assumes "n \<le> 0x7D"
  shows "1 \<le> unat (2 + n * 2)" "unat (2 + n * 2) \<le> 253"
  using assms by (simp_all add: unat_double word_le_nat_alt)

context mb_callbacks
begin

lemma read_coils_ok:
  assumes p: "length p = 255" and e: "env_ok ainv e" and len: "1 \<le> unat len" "unat len \<le> 253"
  shows "handler_ok ainv (eMBFuncReadCoils app) p len e"
proof (cases "len = 5 \<and> 1 \<le> be16v p 3 \<and> be16v p 3 < 0x07D0")
  case True
  let ?p = "p[0 := MB_FUNC_READ_COILS, 1 := coil_bytes (be16v p 3)]"
  have "cb_ok ainv ?p 2 (eMBRegCoils app (me_app e) ?p 2 (be16v p 1 + 1) (be16v p 3) MB_REG_READ)"
    using True p env_okD[OF e] by (intro coils_ok) (auto simp: word_less_nat_alt)
  then obtain st p' s' where
    "eMBRegCoils app (me_app e) ?p 2 (be16v p 1 + 1) (be16v p 3) MB_REG_READ = Some (st, p', s')"
    "length p' = length ?p" "ainv s'"
    by (rule cb_okE)
  then show ?thesis
    using True p coil_reply_length[of "be16v p 3"]
    unfolding handler_ok_def by (cases "st = MB_ENOERR") (simp_all add: eMBFuncReadCoils_def mem_simps Let_def env_ok_app[OF e])
next
  case False
  then have "eMBFuncReadCoils app p len e = Some (MB_EX_ILLEGAL_DATA_VALUE, len, p, e)"
    using p by (auto simp: eMBFuncReadCoils_def mem_simps)
  then show ?thesis using e len by (rule handler_ok_fail)
qed

lemma read_discrete_ok:
  assumes p: "length p = 255" and e: "env_ok ainv e" and len: "1 \<le> unat len" "unat len \<le> 253"
  shows "handler_ok ainv (eMBFuncReadDiscreteInputs app) p len e"
proof (cases "len = 5 \<and> 1 \<le> be16v p 3 \<and> be16v p 3 < 0x07D0")
  case True
  let ?p = "p[0 := MB_FUNC_READ_DISCRETE_INPUTS, 1 := coil_bytes (be16v p 3)]"
  have "cb_ok ainv ?p 2 (eMBRegDiscrete app (me_app e) ?p 2 (be16v p 1 + 1) (be16v p 3))"
    using True p env_okD[OF e] by (intro discrete_ok) (auto simp: word_less_nat_alt)
  then obtain st p' s' where
    "eMBRegDiscrete app (me_app e) ?p 2 (be16v p 1 + 1) (be16v p 3) = Some (st, p', s')"
    "length p' = length ?p" "ainv s'"
    by (rule cb_okE)
  then show ?thesis
    using True p coil_reply_length[of "be16v p 3"]
    unfolding handler_ok_def by (cases "st = MB_ENOERR") (simp_all add: eMBFuncReadDiscreteInputs_def mem_simps Let_def env_ok_app[OF e])
next
  case False
  then have "eMBFuncReadDiscreteInputs app p len e = Some (MB_EX_ILLEGAL_DATA_VALUE, len, p, e)"
    using p by (auto simp: eMBFuncReadDiscreteInputs_def mem_simps)
  then show ?thesis using e len by (rule handler_ok_fail)
qed

lemma write_coil_ok:
  assumes p: "length p = 255" and e: "env_ok ainv e" and len: "1 \<le> unat len" "unat len \<le> 253"
  shows "handler_ok ainv (eMBFuncWriteCoil app) p len e"
proof (cases "len = 5 \<and> p ! 4 = 0 \<and> (p ! 3 = 0xFF \<or> p ! 3 = 0)")
  case True
  let ?b = "[if p ! 3 = 0xFF then 1 else 0, 0]"
  have "cb_ok ainv ?b 0 (eMBRegCoils app (me_app e) ?b 0 (be16v p 1 + 1) 1 MB_REG_WRITE)"
    using env_okD[OF e] by (intro coils_ok) simp_all
  then obtain st p' s' where cb:
    "eMBRegCoils app (me_app e) ?b 0 (be16v p 1 + 1) 1 MB_REG_WRITE = Some (st, p', s')" "ainv s'"
    by (rule cb_okE)
  have "eMBFuncWriteCoil app p len e =
      (if st \<noteq> MB_ENOERR then Some (prveMBError2Exception st, len, p, e\<lparr>me_app := s'\<rparr>)
       else Some (MB_EX_NONE, len, p, e\<lparr>me_app := s'\<rparr>))"
    using True p cb(1) by (auto simp: eMBFuncWriteCoil_def mem_simps Let_def)
  then show ?thesis using len env_ok_app[OF e cb(2)] unfolding handler_ok_def by (cases "st = MB_ENOERR") simp_all
next
  case False
  then have "eMBFuncWriteCoil app p len e = Some (MB_EX_ILLEGAL_DATA_VALUE, len, p, e)"
    using p by (auto simp: eMBFuncWriteCoil_def mem_simps)
  then show ?thesis using e len by (rule handler_ok_fail)
qed

lemma write_multiple_coils_ok:
  assumes p: "length p = 255" and e: "env_ok ainv e" and len: "1 \<le> unat len" "unat len \<le> 253"
  shows "handler_ok ainv (eMBFuncWriteMultipleCoils app) p len e"
proof (cases "5 < len \<and> 1 \<le> be16v p 3 \<and> be16v p 3 \<le> 0x07B0 \<and> coil_bytes (be16v p 3) = p ! 5")
  case True
  have "cb_ok ainv p 6 (eMBRegCoils app (me_app e) p 6 (be16v p 1 + 1) (be16v p 3) MB_REG_WRITE)"
    using True p env_okD[OF e] by (intro coils_ok) (auto simp: word_le_nat_alt)
  then obtain st p' s' where
    "eMBRegCoils app (me_app e) p 6 (be16v p 1 + 1) (be16v p 3) MB_REG_WRITE = Some (st, p', s')"
    "length p' = length p" "ainv s'"
    by (rule cb_okE)
  then show ?thesis
    using True p len unfolding handler_ok_def by (cases "st = MB_ENOERR") (simp_all add: eMBFuncWriteMultipleCoils_def mem_simps Let_def env_ok_app[OF e])
next
  case False
  then have "eMBFuncWriteMultipleCoils app p len e = Some (MB_EX_ILLEGAL_DATA_VALUE, len, p, e)"
    using p by (auto simp: eMBFuncWriteMultipleCoils_def mem_simps)
  then show ?thesis using e len by (rule handler_ok_fail)
qed

lemma read_input_ok:
  assumes p: "length p = 255" and e: "env_ok ainv e" and len: "1 \<le> unat len" "unat len \<le> 253"
  shows "handler_ok ainv (eMBFuncReadInputRegister app) p len e"
proof (cases "len = 5 \<and> 1 \<le> be16v p 3 \<and> be16v p 3 < 0x7D")
  case True
  let ?p = "p[0 := MB_FUNC_READ_INPUT_REGISTER, 1 := ucast (be16v p 3 * 2)]"
  have "cb_ok ainv ?p 2 (eMBRegInput app (me_app e) ?p 2 (be16v p 1 + 1) (be16v p 3))"
    using True p env_okD[OF e] by (intro input_ok) (auto simp: word_less_nat_alt)
  then obtain st p' s' where
    "eMBRegInput app (me_app e) ?p 2 (be16v p 1 + 1) (be16v p 3) = Some (st, p', s')"
    "length p' = length ?p" "ainv s'"
    by (rule cb_okE)
  then show ?thesis
    using True p reg_reply_length[of "be16v p 3"] less_imp_le[of "be16v p 3" "0x7D"]
    unfolding handler_ok_def by (cases "st = MB_ENOERR") (simp_all add: eMBFuncReadInputRegister_def mem_simps Let_def env_ok_app[OF e])
next
  case False
  then have "eMBFuncReadInputRegister app p len e = Some (MB_EX_ILLEGAL_DATA_VALUE, len, p, e)"
    using p by (auto simp: eMBFuncReadInputRegister_def mem_simps)
  then show ?thesis using e len by (rule handler_ok_fail)
qed

lemma write_holding_ok:
  assumes p: "length p = 255" and e: "env_ok ainv e" and len: "1 \<le> unat len" "unat len \<le> 253"
  shows "handler_ok ainv (eMBFuncWriteHoldingRegister app) p len e"
proof (cases "len = 5")
  case True
  have "cb_ok ainv p 3 (eMBRegHolding app (me_app e) p 3 (be16v p 1 + 1) 1 MB_REG_WRITE)"
    using p env_okD[OF e] by (intro holding_ok) simp_all
  then obtain st p' s' where
    "eMBRegHolding app (me_app e) p 3 (be16v p 1 + 1) 1 MB_REG_WRITE = Some (st, p', s')"
    "length p' = length p" "ainv s'"
    by (rule cb_okE)
  then show ?thesis
    using True p len unfolding handler_ok_def by (cases "st = MB_ENOERR") (simp_all add: eMBFuncWriteHoldingRegister_def mem_simps Let_def env_ok_app[OF e])
next
  case False
  then have "eMBFuncWriteHoldingRegister app p len e = Some (MB_EX_ILLEGAL_DATA_VALUE, len, p, e)"
    by (simp add: eMBFuncWriteHoldingRegister_def)
  then show ?thesis using e len by (rule handler_ok_fail)
qed

lemma write_multiple_holding_ok:
  assumes p: "length p = 255" and e: "env_ok ainv e" and len: "1 \<le> unat len" "unat len \<le> 253"
  shows "handler_ok ainv (eMBFuncWriteMultipleHoldingRegister app) p len e"
proof (cases "6 \<le> len \<and> 1 \<le> be16v p 3 \<and> be16v p 3 \<le> 0x78 \<and> p ! 5 = ucast (2 * be16v p 3)")
  case True
  have "cb_ok ainv p 6 (eMBRegHolding app (me_app e) p 6 (be16v p 1 + 1) (be16v p 3) MB_REG_WRITE)"
    using True p env_okD[OF e] by (intro holding_ok) (auto simp: word_le_nat_alt)
  then obtain st p' s' where
    "eMBRegHolding app (me_app e) p 6 (be16v p 1 + 1) (be16v p 3) MB_REG_WRITE = Some (st, p', s')"
    "length p' = length p" "ainv s'"
    by (rule cb_okE)
  then show ?thesis
    using True p len
    unfolding handler_ok_def by (cases "st = MB_ENOERR") (simp_all add: eMBFuncWriteMultipleHoldingRegister_def mem_simps Let_def env_ok_app[OF e])
next
  case False
  then have "eMBFuncWriteMultipleHoldingRegister app p len e = Some (MB_EX_ILLEGAL_DATA_VALUE, len, p, e)"
    using p by (auto simp: eMBFuncWriteMultipleHoldingRegister_def mem_simps)
  then show ?thesis using e len by (rule handler_ok_fail)
qed

lemma read_holding_ok:
  assumes p: "length p = 255" and e: "env_ok ainv e" and len: "1 \<le> unat len" "unat len \<le> 253"
  shows "handler_ok ainv (eMBFuncReadHoldingRegister app) p len e"
proof (cases "len = 5 \<and> (1 :: u16) \<le> ucast (p ! 4) \<and> (ucast (p ! 4) :: u16) \<le> 0x7D")
  case True
  let ?n = "ucast (p ! 4) :: u16"
  let ?p = "p[0 := MB_FUNC_READ_HOLDING_REGISTER, 1 := ucast (?n * 2)]"
  have "cb_ok ainv ?p 2 (eMBRegHolding app (me_app e) ?p 2 (be16v p 1 + 1) ?n MB_REG_READ)"
    using True p env_okD[OF e] by (intro holding_ok) (auto simp: word_le_nat_alt)
  then obtain st p' s' where
    "eMBRegHolding app (me_app e) ?p 2 (be16v p 1 + 1) ?n MB_REG_READ = Some (st, p', s')"
    "length p' = length ?p" "ainv s'"
    by (rule cb_okE)
  then show ?thesis
    using True p reg_reply_length[of ?n]
    unfolding handler_ok_def by (cases "st = MB_ENOERR") (simp_all add: eMBFuncReadHoldingRegister_def mem_simps Let_def env_ok_app[OF e])
next
  case False
  then have "eMBFuncReadHoldingRegister app p len e = Some (MB_EX_ILLEGAL_DATA_VALUE, len, p, e)"
    using p by (auto simp: eMBFuncReadHoldingRegister_def mem_simps Let_def)
  then show ?thesis using e len by (rule handler_ok_fail)
qed

lemma readwrite_holding_ok:
  assumes p: "length p = 255" and e: "env_ok ainv e" and len: "1 \<le> unat len" "unat len \<le> 253"
  shows "handler_ok ainv (eMBFuncReadWriteMultipleHoldingRegister app) p len e"
proof (cases "10 \<le> len \<and> 1 \<le> be16v p 3 \<and> be16v p 3 \<le> 0x7D \<and> 1 \<le> be16v p 7 \<and> be16v p 7 \<le> 0x79 \<and>
    2 * unat (be16v p 7) = unat (p ! 9)")
  case True
  have "cb_ok ainv p 10 (eMBRegHolding app (me_app e) p 10 (be16v p 5 + 1) (be16v p 7) MB_REG_WRITE)"
    using True p env_okD[OF e] by (intro holding_ok) (auto simp: word_le_nat_alt)
  then obtain st1 p1 s1 where w:
    "eMBRegHolding app (me_app e) p 10 (be16v p 5 + 1) (be16v p 7) MB_REG_WRITE = Some (st1, p1, s1)"
    "length p1 = length p" "ainv s1"
    by (rule cb_okE)
  let ?p = "p1[0 := MB_FUNC_READWRITE_MULTIPLE_REGISTERS, 1 := ucast (be16v p 3 * 2)]"
  have "cb_ok ainv ?p 2 (eMBRegHolding app s1 ?p 2 (be16v p 1 + 1) (be16v p 3) MB_REG_READ)"
    using True p w(2,3) by (intro holding_ok) (auto simp: word_le_nat_alt)
  then obtain st p' s' where r:
    "eMBRegHolding app s1 ?p 2 (be16v p 1 + 1) (be16v p 3) MB_REG_READ = Some (st, p', s')"
    "length p' = length ?p" "ainv s'"
    by (rule cb_okE)
  note unf = eMBFuncReadWriteMultipleHoldingRegister_def mem_simps Let_def
  have l: "1 \<le> unat (2 + 2 * be16v p 3)" "unat (2 + 2 * be16v p 3) \<le> 253"
    using True reg_reply_length[of "be16v p 3"] by (simp_all add: mult.commute)
  show ?thesis
  proof (cases "st1 = MB_ENOERR")
    case True
    note t = this
    then have "eMBFuncReadWriteMultipleHoldingRegister app p len e =
      (if st \<noteq> MB_ENOERR then Some (prveMBError2Exception st, 2, p', e\<lparr>me_app := s'\<rparr>)
       else Some (MB_EX_NONE, 2 + 2 * be16v p 3, p', e\<lparr>me_app := s'\<rparr>))"
      using \<open>10 \<le> len \<and> _\<close> p w r by (simp add: unf)
    then show ?thesis
      using p w(2) r(2) l env_ok_app[OF e r(3)]
      unfolding handler_ok_def by (cases "st = MB_ENOERR") simp_all
  next
    case False
    then have "eMBFuncReadWriteMultipleHoldingRegister app p len e =
      Some (prveMBError2Exception st1, len, p1, e\<lparr>me_app := s1\<rparr>)"
      using True p w by (simp add: unf)
    then show ?thesis using len w(2) env_ok_app[OF e w(3)] by (simp add: handler_ok_def)
  qed
next
  case False
  then have "\<exists>ex. eMBFuncReadWriteMultipleHoldingRegister app p len e = Some (ex, len, p, e)"
    using p by (auto simp: eMBFuncReadWriteMultipleHoldingRegister_def mem_simps)
  then show ?thesis using e len by (auto intro: handler_ok_fail)
qed

end

lemma report_slaveid_ok:
  assumes "length p = 255" "env_ok ainv e"
  shows "handler_ok ainv eMBFuncReportSlaveID p len e"
proof -
  have n: "unat (usMBSlaveIDLen e) < 32" "length (ucMBSlaveID e) = 32"
    using assms(2) by (auto simp: env_ok_def slaveid_wf_def MB_FUNC_OTHER_REP_SLAVEID_BUF_def)
  moreover have "unat (1 + usMBSlaveIDLen e) = 1 + unat (usMBSlaveIDLen e)"
    using n by (subst unat_add_small) simp_all
  ultimately show ?thesis
    using assms by (simp add: handler_ok_def eMBFuncReportSlaveID_def mem_simps)
qed

section \<open>What the requests are checked for\<close>

text \<open>
  the quantity field of a read holding registers request is two bytes wide, but its high
  byte has no influence: the registers asked for, and the length of the reply, are those of
  the low byte alone. A request for 257 registers, which the limit of 125 forbids, is answered
  with one register and no exception.
\<close>

lemma read_holding_ignores_high_byte:
  assumes "length p = 255" and "1 \<le> p ! 4" and "p ! 4 \<le> 0x7D"
    and "eMBRegHolding app (me_app e) (p[0 := 3, 1 := 2 * (p ! 4)]) 2 (be16v p 1 + 1)
           (ucast (p ! 4)) MB_REG_READ = Some (MB_ENOERR, p', s')"
  shows "eMBFuncReadHoldingRegister app p 5 e =
    Some (MB_EX_NONE, 2 + 2 * ucast (p ! 4), p', e\<lparr>me_app := s'\<rparr>)"
proof -
  have "(1 :: u16) \<le> ucast (p ! 4)" "(ucast (p ! 4) :: u16) \<le> 0x7D"
    using assms(2,3) by (simp_all add: word_le_nat_alt unat_ucast8)
  moreover have "unat (p ! 4) mod 65536 = unat (p ! 4)"
    by (intro mod_less less_trans[OF unat_u8]) simp
  then have "(ucast (ucast (p ! 4) * 2 :: u16) :: u8) = 2 * (p ! 4)"
    by (simp add: word_unat_eq_iff unsigned_ucast_eq unat_word_ariths unat_ucast8 take_bit_eq_mod
        mod_mod_cancel mult.commute)
  ultimately show ?thesis
    using assms(1,4) by (simp add: eMBFuncReadHoldingRegister_def mem_simps Let_def mult.commute
        MB_FUNC_READ_HOLDING_REGISTER_def)
qed

text \<open>
  a write multiple registers request is checked against its own byte count but not against
  the number of bytes received: from the shortest accepted length on, the length of the PDU
  has no influence on what is written, so values that were never received are taken from the
  previous contents of the buffer.
\<close>

lemma write_multiple_ignores_length:
  assumes "6 \<le> len" and "6 \<le> len'"
  shows "map_option (\<lambda>(ex, l, r). (ex, r)) (eMBFuncWriteMultipleHoldingRegister app p len e) =
    map_option (\<lambda>(ex, l, r). (ex, r)) (eMBFuncWriteMultipleHoldingRegister app p len' e)"
  using assms by (auto simp: eMBFuncWriteMultipleHoldingRegister_def Let_def split: option.splits bind_splits)

text \<open>
  A read/write multiple registers request that is too short is not refused, unlike every
  other malformed request: nothing is read or written and the request itself is the reply.
\<close>

lemma readwrite_short_request:
  assumes "len < 10"
  shows "eMBFuncReadWriteMultipleHoldingRegister app p len e = Some (MB_EX_NONE, len, p, e) \<and>
    eMBFuncWriteHoldingRegister app p 4 e = Some (MB_EX_ILLEGAL_DATA_VALUE, 4, p, e)"
proof -
  have "\<not> 10 \<le> len" using assms by simp
  then show ?thesis
    by (simp add: eMBFuncReadWriteMultipleHoldingRegister_def eMBFuncWriteHoldingRegister_def)
qed

text \<open>
  \<open>eMBSetSlaveID\<close> either refuses an identification that does not fit, changing nothing, or
  stores it, and \<open>eMBFuncReportSlaveID\<close> then reports exactly the identification, the run
  indicator and the additional bytes.
\<close>

lemma slaveid_roundtrip:
  assumes "env_ok ainv e" and "length xs = unat n" and "length p = 255"
  shows "if unat n + 2 < 32
    then \<exists>e' p'. eMBSetSlaveID i run xs n e = Some (MB_ENOERR, e') \<and> env_ok ainv e' \<and>
       eMBFuncReportSlaveID p len e' = Some (MB_EX_NONE, 3 + n, p', e') \<and>
       take (3 + unat n) p' = p ! 0 # i # (if run then 0xFF else 0) # xs
    else eMBSetSlaveID i run xs n e = Some (MB_ENORES, e)"
proof (cases "unat n + 2 < 32")
  case False
  then show ?thesis by (simp add: eMBSetSlaveID_def MB_FUNC_OTHER_REP_SLAVEID_BUF_def)
next
  case True
  obtain b0 b1 b where buf: "ucMBSlaveID e = b0 # b1 # b" "length b = 30"
    using assms(1) by (auto simp: env_ok_def slaveid_wf_def MB_FUNC_OTHER_REP_SLAVEID_BUF_def
        numeral_eq_Suc length_Suc_conv)
  obtain p0 q where p: "p = p0 # q" "length q = 254"
    using assms(3) by (cases p) auto
  let ?b = "i # (if run then 0xFF else 0) # xs @ drop (length xs) b"
  let ?e = "e\<lparr>ucMBSlaveID := ?b, usMBSlaveIDLen := 2 + n\<rparr>"
  have u: "unat (2 + n) = 2 + unat n" using True by (subst unat_add_small) simp_all
  have "eMBSetSlaveID i run xs n e = Some (MB_ENOERR, ?e)"
  proof (cases "n = 0")
    case False
    then show ?thesis
      using True assms(2) buf
      by (simp add: eMBSetSlaveID_def MB_FUNC_OTHER_REP_SLAVEID_BUF_def wr_def rd_blk_def wr_blk_def
          blit_def word_gt_0 numeral_2_eq_2)
  qed (use True assms(2) buf in
      \<open>simp add: eMBSetSlaveID_def MB_FUNC_OTHER_REP_SLAVEID_BUF_def wr_def\<close>)
  moreover have "env_ok ainv ?e"
    using assms(1,2) True buf u
    by (simp add: env_ok_def slaveid_wf_def MB_FUNC_OTHER_REP_SLAVEID_BUF_def)
  moreover have "eMBFuncReportSlaveID p len ?e = Some (MB_EX_NONE, 3 + n,
      p0 # i # (if run then 0xFF else 0) # xs @ drop (2 + unat n) q, ?e)"
    using True assms(2) buf p u
    by (simp add: eMBFuncReportSlaveID_def rd_blk_def wr_blk_def blit_def add.assoc[symmetric])
  ultimately show ?thesis using True assms(2) p by (auto simp: numeral_3_eq_3)
qed

section \<open>Witnesses\<close>

text \<open>An application whose registers all hold zero and cannot be written.\<close>

definition zero_app :: "unit mb_app" where
  "zero_app = \<lparr>eMBRegInput = (\<lambda>s p i a n. Some (MB_ENOERR, blit p i (replicate (2 * unat n) 0), s)),
     eMBRegHolding = (\<lambda>s p i a n m. case m of
        MB_REG_READ \<Rightarrow> Some (MB_ENOERR, blit p i (replicate (2 * unat n) 0), s)
      | MB_REG_WRITE \<Rightarrow> Some (MB_ENOREG, p, s)),
     eMBRegCoils = (\<lambda>s p i a n m. Some (MB_ENOREG, p, s)),
     eMBRegDiscrete = (\<lambda>s p i a n. Some (MB_ENOREG, p, s))\<rparr>"

definition zero_env :: "unit mb_env" where
  "zero_env = \<lparr>ucMBSlaveID = replicate 32 0, usMBSlaveIDLen = 0, me_app = ()\<rparr>"

end
