(* ===== verification/Mb_Reg_Api.thy ===== *)
theory Mb_Reg_Api
  imports Mb_Func
begin

text \<open>
  The register callbacks of the port (\<^verbatim>\<open>FreeModbus/port/modbus_api.c\<close>). The application
  declares its registers as a list of blocks, each with an accessor that answers the address
  of the block's memory (here: that memory, \<open>None\<close> for the null pointer) and one that takes
  new values; \<open>eMbregGet\<close> and \<open>eMbregSet\<close> walk over the blocks a request touches. The target
  is little endian, so the registers are byte-swapped in place. The two tables of
  \<^verbatim>\<open>FreeModbus/port/modbus_reg.c\<close> are modelled over their accessors, of which those of the example
  register are given.
\<close>

section \<open>Register blocks\<close>

record 's MODBUS_REG =
  reg_start :: u16
  u16len :: u16
  reg_get :: "('s \<Rightarrow> u8 list option \<times> 's) option"
  reg_set :: "('s \<Rightarrow> u8 list \<Rightarrow> nat \<Rightarrow> nat \<Rightarrow> (int \<times> 's) option) option"

text \<open>The search of both functions: the first block that holds the address.\<close>

definition reg_covers :: "nat \<Rightarrow> 's MODBUS_REG \<Rightarrow> bool" where
  "reg_covers x r \<longleftrightarrow> unat (reg_start r) \<le> x \<and> x < unat (reg_start r) + unat (u16len r)"

definition find_reg :: "'s MODBUS_REG list \<Rightarrow> nat \<Rightarrow> 's MODBUS_REG option" where
  "find_reg reg_list x = find (reg_covers x) reg_list"

definition add_offset :: "nat \<Rightarrow> 's MODBUS_REG \<Rightarrow> nat" where
  "add_offset x r = (if x > unat (reg_start r) then x - unat (reg_start r) else 0)"

definition reg_len :: "nat \<Rightarrow> nat \<Rightarrow> 's MODBUS_REG \<Rightarrow> nat" where
  "reg_len n x r = (if n > unat (u16len r) - add_offset x r then unat (u16len r) - add_offset x r else n)"

lemma find_reg_covers: "find_reg regs x = Some r \<Longrightarrow> reg_covers x r"
  by (auto simp: find_reg_def find_Some_iff)

lemma find_reg_in: "find_reg regs x = Some r \<Longrightarrow> r \<in> set regs"
  by (auto simp: find_reg_def find_Some_iff)

lemma reg_len_pos: "reg_covers x r \<Longrightarrow> 0 < n \<Longrightarrow> 0 < reg_len n x r"
  by (auto simp: reg_covers_def reg_len_def add_offset_def)

lemma reg_len_le: "reg_len n x r \<le> n"
  by (simp add: reg_len_def)

lemma reg_fits: "reg_covers x r \<Longrightarrow> add_offset x r + reg_len n x r \<le> unat (u16len r)"
  by (auto simp: reg_covers_def reg_len_def add_offset_def)

text \<open>\<open>while(reg_num--)\<close>: swap the two bytes of each register.\<close>

fun swap_regs :: "nat \<Rightarrow> u8 list \<Rightarrow> nat \<Rightarrow> u8 list option" where
  "swap_regs 0 p i = Some p"
| "swap_regs (Suc k) p i = do {
     lo \<leftarrow> rd p i; hi \<leftarrow> rd p (i + 1);
     p \<leftarrow> wr p i hi; p \<leftarrow> wr p (i + 1) lo;
     swap_regs k p (i + 2) }"

section \<open>Reading\<close>

function eMbregGet_loop ::
  "'s MODBUS_REG list \<Rightarrow> nat \<Rightarrow> nat \<Rightarrow> nat \<Rightarrow> nat \<Rightarrow> u8 list \<Rightarrow> 's \<Rightarrow>
   (eMBErrorCode \<times> u8 list \<times> 's) option" where
  "eMbregGet_loop reg_list usAddress usNRegs offset i p s =
     (if offset < usNRegs
      then case find_reg reg_list (usAddress + offset) of
          None \<Rightarrow> Some (MB_ENOREG, p, s)
        | Some r \<Rightarrow> (case reg_get r of
            None \<Rightarrow> Some (MB_ENOREG, p, s)
          | Some getter \<Rightarrow> (case getter s of
              (None, s) \<Rightarrow> Some (MB_ENOREG, p, s)
            | (Some val, s) \<Rightarrow>
                let add = add_offset (usAddress + offset) r;
                    len = reg_len (usNRegs - offset) (usAddress + offset) r
                in do {
                  xs \<leftarrow> rd_blk val (add * 2) (len * 2);
                  p \<leftarrow> wr_blk p (i + offset * 2) xs;
                  eMbregGet_loop reg_list usAddress usNRegs (offset + len) i p s }))
      else Some (MB_ENOERR, p, s))"
  by pat_completeness auto

termination
  by (relation "measure (\<lambda>(_, _, n, ofs, _). n - ofs)")
    (auto dest!: find_reg_covers intro!: diff_less_mono2 simp: reg_len_pos)

declare eMbregGet_loop.simps [simp del]

definition eMbregGet ::
  "u16 \<Rightarrow> u16 \<Rightarrow> u8 list \<Rightarrow> nat \<Rightarrow> 's MODBUS_REG list \<Rightarrow> 's \<Rightarrow> (eMBErrorCode \<times> u8 list \<times> 's) option" where
  "eMbregGet usAddress usNRegs p i reg_list s = do {
     (st, p, s) \<leftarrow> eMbregGet_loop reg_list (unat usAddress) (unat usNRegs) 0 i p s;
     if st = MB_ENOERR
     then do { p \<leftarrow> swap_regs (unat usNRegs) p i; Some (st, p, s) }
     else Some (st, p, s) }"

section \<open>Writing\<close>

text \<open>
  The setter gets the start of the buffer, whichever block the loop has reached, the offset in
  the block and the length in bytes.
\<close>

function eMbregSet_loop ::
  "'s MODBUS_REG list \<Rightarrow> nat \<Rightarrow> nat \<Rightarrow> nat \<Rightarrow> u8 list \<Rightarrow> 's \<Rightarrow> (eMBErrorCode \<times> 's) option" where
  "eMbregSet_loop reg_list usAddress usNRegs offset buf s =
     (if offset < usNRegs
      then case find_reg reg_list (usAddress + offset) of
          None \<Rightarrow> Some (MB_ENOREG, s)
        | Some r \<Rightarrow>
            let add = add_offset (usAddress + offset) r;
                len = reg_len (usNRegs - offset) (usAddress + offset) r
            in (case reg_set r of
                None \<Rightarrow> Some (MB_ENOREG, s)
              | Some setter \<Rightarrow> do {
                  (rc, s) \<leftarrow> setter s buf (add * 2) (len * 2);
                  if rc \<noteq> 0 then Some (MB_ENOREG, s)
                  else eMbregSet_loop reg_list usAddress usNRegs (offset + len) buf s })
      else Some (MB_ENOERR, s))"
  by pat_completeness auto

termination
  by (relation "measure (\<lambda>(_, _, n, ofs, _). n - ofs)")
    (auto dest!: find_reg_covers intro!: diff_less_mono2 simp: reg_len_pos)

declare eMbregSet_loop.simps [simp del]

definition eMbregSet ::
  "u16 \<Rightarrow> u16 \<Rightarrow> u8 list \<Rightarrow> nat \<Rightarrow> 's MODBUS_REG list \<Rightarrow> 's \<Rightarrow> (eMBErrorCode \<times> u8 list \<times> 's) option" where
  "eMbregSet usAddress usNRegs p i reg_list s = do {
     p \<leftarrow> swap_regs (unat usNRegs) p i;
     (st, s) \<leftarrow> eMbregSet_loop reg_list (unat usAddress) (unat usNRegs) 0 (drop i p) s;
     if st = MB_ENOERR \<and> usNRegs = 1
     then do { p \<leftarrow> swap_regs (unat usNRegs) p i; Some (st, p, s) }
     else Some (st, p, s) }"

section \<open>The callbacks\<close>

definition eMBRegInputCB ::
  "'s MODBUS_REG list \<Rightarrow> 's \<Rightarrow> u8 list \<Rightarrow> nat \<Rightarrow> u16 \<Rightarrow> u16 \<Rightarrow> (eMBErrorCode \<times> u8 list \<times> 's) option" where
  "eMBRegInputCB read_list s p i usAddress usNRegs = eMbregGet (usAddress - 1) usNRegs p i read_list s"

definition eMBRegHoldingCB ::
  "'s MODBUS_REG list \<Rightarrow> 's \<Rightarrow> u8 list \<Rightarrow> nat \<Rightarrow> u16 \<Rightarrow> u16 \<Rightarrow> eMBRegisterMode \<Rightarrow>
   (eMBErrorCode \<times> u8 list \<times> 's) option" where
  "eMBRegHoldingCB rw_list s p i usAddress usNRegs eMode =
     (case eMode of
        MB_REG_READ \<Rightarrow> eMbregGet (usAddress - 1) usNRegs p i rw_list s
      | MB_REG_WRITE \<Rightarrow> eMbregSet (usAddress - 1) usNRegs p i rw_list s)"

definition eMBRegCoilsCB ::
  "'s \<Rightarrow> u8 list \<Rightarrow> nat \<Rightarrow> u16 \<Rightarrow> u16 \<Rightarrow> eMBRegisterMode \<Rightarrow> (eMBErrorCode \<times> u8 list \<times> 's) option" where
  "eMBRegCoilsCB s p i usAddress usNCoils eMode = Some (MB_ENOREG, p, s)"

definition eMBRegDiscreteCB ::
  "'s \<Rightarrow> u8 list \<Rightarrow> nat \<Rightarrow> u16 \<Rightarrow> u16 \<Rightarrow> (eMBErrorCode \<times> u8 list \<times> 's) option" where
  "eMBRegDiscreteCB s p i usAddress usNDiscrete = Some (MB_ENOREG, p, s)"

definition port_app :: "'s MODBUS_REG list \<Rightarrow> 's MODBUS_REG list \<Rightarrow> 's mb_app" where
  "port_app read_list rw_list = \<lparr>eMBRegInput = eMBRegInputCB read_list,
     eMBRegHolding = eMBRegHoldingCB rw_list, eMBRegCoils = eMBRegCoilsCB,
     eMBRegDiscrete = eMBRegDiscreteCB\<rparr>"

section \<open>Byte swapping\<close>

lemma swap_regs_frame:
  "i + 2 * k \<le> length p \<Longrightarrow> \<exists>p'. swap_regs k p i = Some p' \<and> length p' = length p \<and> take i p' = take i p \<and>
    (\<forall>j < length p. p' ! j = (if i \<le> j \<and> j < i + 2 * k
        then p ! (if even (j - i) then j + 1 else j - 1) else p ! j))"
proof (induction k arbitrary: p i)
  case 0
  then show ?case by auto
next
  case (Suc k)
  let ?p = "p[i := p ! (i + 1), i + 1 := p ! i]"
  have "(i + 2) + 2 * k \<le> length ?p" using Suc.prems by simp
  then obtain p' where p': "swap_regs k ?p (i + 2) = Some p'" "length p' = length ?p"
    "take (i + 2) p' = take (i + 2) ?p"
    "\<forall>j < length ?p. p' ! j = (if i + 2 \<le> j \<and> j < i + 2 + 2 * k
        then ?p ! (if even (j - (i + 2)) then j + 1 else j - 1) else ?p ! j)"
    using Suc.IH by blast
  have "swap_regs (Suc k) p i = Some p'"
    using Suc.prems p'(1) by (simp add: mem_simps)
  moreover have "take i p' = take i p"
    using arg_cong[OF p'(3), of "take i"] by (simp add: take_update_cancel min_def)
  moreover have "p' ! j = (if i \<le> j \<and> j < i + 2 * Suc k
      then p ! (if even (j - i) then j + 1 else j - 1) else p ! j)" if j: "j < length p" for j
  proof -
    consider "j < i" | "j = i" | "j = i + 1" | k where "j = i + 2 + k" 
      by (metis add_2_eq_Suc' add_Suc_right le_Suc_ex less_antisym not_less_eq not_le Suc_eq_plus1 add_Suc)
    then show ?thesis
      using p'(4) j Suc.prems by cases (auto simp: nth_list_update)
  qed
  ultimately show ?case using p'(2) by auto
qed

section \<open>Safety of the callbacks\<close>

text \<open>
  An address is safe to read when every block that covers it keeps the invariant in its
  accessor and answers memory that reaches to the address.
\<close>

definition get_safe :: "('s \<Rightarrow> bool) \<Rightarrow> 's MODBUS_REG list \<Rightarrow> nat \<Rightarrow> bool" where
  "get_safe ainv regs x \<longleftrightarrow> (\<forall>r g s. r \<in> set regs \<longrightarrow> reg_covers x r \<longrightarrow> reg_get r = Some g \<longrightarrow> ainv s \<longrightarrow>
     ainv (snd (g s)) \<and> (\<forall>val. fst (g s) = Some val \<longrightarrow> 2 * (x - unat (reg_start r)) + 2 \<le> length val))"

text \<open>A setter is safe when it accesses only the bytes it was told of.\<close>

definition set_safe :: "('s \<Rightarrow> bool) \<Rightarrow> 's MODBUS_REG list \<Rightarrow> bool" where
  "set_safe ainv regs \<longleftrightarrow> (\<forall>r f s buf ofs len. r \<in> set regs \<longrightarrow> reg_set r = Some f \<longrightarrow> ainv s \<longrightarrow>
     2 \<le> len \<longrightarrow> len \<le> length buf \<longrightarrow> (\<exists>rc s'. f s buf ofs len = Some (rc, s') \<and> ainv s'))"

lemma chunk_inside:
  assumes c: "reg_covers (a + ofs) r" and n: "ofs < n"
  defines "len \<equiv> reg_len (n - ofs) (a + ofs) r"
  shows "0 < len" "ofs + len \<le> n" "add_offset (a + ofs) r + len \<le> unat (u16len r)"
    "reg_covers (a + (ofs + len - 1)) r"
    "add_offset (a + ofs) r + len = (a + (ofs + len - 1)) - unat (reg_start r) + 1"
proof -
  show l: "0 < len" unfolding len_def using c n by (intro reg_len_pos) auto
  show l2: "ofs + len \<le> n" using reg_len_le[of "n - ofs" "a + ofs" r] n by (simp add: len_def)
  show l3: "add_offset (a + ofs) r + len \<le> unat (u16len r)" unfolding len_def by (rule reg_fits[OF c])
  have st: "unat (reg_start r) \<le> a + ofs" using c by (simp add: reg_covers_def)
  have ad: "add_offset (a + ofs) r = a + ofs - unat (reg_start r)" using st by (simp add: add_offset_def)
  show "reg_covers (a + (ofs + len - 1)) r" using st l l3 ad by (auto simp: reg_covers_def)
  show "add_offset (a + ofs) r + len = (a + (ofs + len - 1)) - unat (reg_start r) + 1"
    using st l ad by auto
qed

lemma eMbregGet_loop_safe:
  "ainv s \<Longrightarrow> \<forall>x. a + ofs \<le> x \<longrightarrow> x < a + n \<longrightarrow> get_safe ainv regs x \<Longrightarrow> i + 2 * n \<le> length p \<Longrightarrow>
   cb_ok ainv p i (eMbregGet_loop regs a n ofs i p s)"
proof (induction regs a n ofs i p s rule: eMbregGet_loop.induct)
  case (1 regs a n ofs i p s)
  note IH = "1.IH" and inv = "1.prems"(1) and safe = "1.prems"(2) and fit = "1.prems"(3)
  show ?case
  proof (cases "\<exists>r g val. ofs < n \<and> find_reg regs (a + ofs) = Some r \<and> reg_get r = Some g \<and> fst (g s) = Some val")
    case False
    have "ainv s'" if "ofs < n" "find_reg regs (a + ofs) = Some r" "reg_get r = Some g" "g s = (v, s')" for r g v s'
    proof -
      have "get_safe ainv regs (a + ofs)" using safe that(1) by simp
      then have "ainv (snd (g s))"
        using inv that(3) find_reg_in[OF that(2)] find_reg_covers[OF that(2)] unfolding get_safe_def by blast
      then show ?thesis by (simp add: that(4))
    qed
    with False inv show ?thesis
      by (subst eMbregGet_loop.simps) (auto simp: cb_ok_def split: option.splits prod.splits)
  next
    case True
    then obtain r g val s1 where r: "ofs < n" "find_reg regs (a + ofs) = Some r" "reg_get r = Some g"
      "g s = (Some val, s1)" by (metis prod.collapse)
    note c = find_reg_covers[OF r(2)] and m = find_reg_in[OF r(2)]
    define len where "len = reg_len (n - ofs) (a + ofs) r"
    define ad where "ad = add_offset (a + ofs) r"
    note ch = chunk_inside[OF c r(1), folded len_def, folded ad_def]
    have g: "get_safe ainv regs (a + (ofs + len - 1))" using safe ch(1,2) r(1) by auto
    then have inv1: "ainv s1" and vl: "2 * (ad + len) \<le> length val"
      using m ch(4) r(3,4) inv unfolding get_safe_def ch(5) by force+
    let ?x = "take (len * 2) (drop (ad * 2) val)"
    have rb: "rd_blk val (ad * 2) (len * 2) = Some ?x" using vl by (simp add: rd_blk_def)
    have lx: "length ?x = len * 2" using vl by simp
    have wb: "wr_blk p (i + ofs * 2) ?x = Some (blit p (i + ofs * 2) ?x)"
      using fit ch(2) lx by (simp add: wr_blk_def)
    have lb: "length (blit p (i + ofs * 2) ?x) = length p" using fit ch(2) lx by (intro length_blit) simp
    have tb: "take i (blit p (i + ofs * 2) ?x) = take i p" using fit ch(2) by (intro take_blit) auto
    have "cb_ok ainv (blit p (i + ofs * 2) ?x) i (eMbregGet_loop regs a n (ofs + len) i (blit p (i + ofs * 2) ?x) s1)"
      using IH[OF r(1,2,3) r(4)[symmetric] refl refl refl rb[unfolded ad_def len_def] wb[unfolded ad_def len_def]]
        inv1 safe fit lb
      by (auto simp: len_def ad_def)
    then have "cb_ok ainv p i (eMbregGet_loop regs a n (ofs + len) i (blit p (i + ofs * 2) ?x) s1)"
      using lb tb by (auto simp: cb_ok_def)
    then show ?thesis
      using r by (subst eMbregGet_loop.simps) (simp add: Let_def len_def[symmetric] ad_def[symmetric] rb wb)
  qed
qed

lemma eMbregGet_safe:
  assumes "ainv s" "\<forall>x. unat a \<le> x \<longrightarrow> x < unat a + unat n \<longrightarrow> get_safe ainv regs x" "i + 2 * unat n \<le> length p"
  shows "cb_ok ainv p i (eMbregGet a n p i regs s)"
proof -
  obtain st p1 s1 where g: "eMbregGet_loop regs (unat a) (unat n) 0 i p s = Some (st, p1, s1)"
    "length p1 = length p" "take i p1 = take i p" "ainv s1"
    using eMbregGet_loop_safe[of ainv s "unat a" 0 "unat n" regs i p] assms by (auto simp: cb_ok_def)
  obtain p2 where "swap_regs (unat n) p1 i = Some p2" "length p2 = length p1" "take i p2 = take i p1"
    using swap_regs_frame[of i "unat n" p1] assms(3) g(2) by auto
  with g show ?thesis by (simp add: eMbregGet_def cb_ok_def)
qed

lemma eMbregSet_loop_safe:
  "ainv s \<Longrightarrow> set_safe ainv regs \<Longrightarrow> 2 * n \<le> length buf \<Longrightarrow>
   \<exists>st s'. eMbregSet_loop regs a n ofs buf s = Some (st, s') \<and> ainv s'"
proof (induction regs a n ofs buf s rule: eMbregSet_loop.induct)
  case (1 regs a n ofs buf s)
  show ?case
  proof (cases "\<exists>r f. ofs < n \<and> find_reg regs (a + ofs) = Some r \<and> reg_set r = Some f")
    case False
    with "1.prems"(1) show ?thesis
      by (subst eMbregSet_loop.simps) (auto simp: Let_def split: option.splits)
  next
    case True
    then obtain r f where r: "ofs < n" "find_reg regs (a + ofs) = Some r" "reg_set r = Some f" by blast
    define len where "len = reg_len (n - ofs) (a + ofs) r"
    define ad where "ad = add_offset (a + ofs) r"
    note ch = chunk_inside[OF find_reg_covers[OF r(2)] r(1), folded len_def, folded ad_def]
    obtain rc s1 where f: "f s buf (ad * 2) (len * 2) = Some (rc, s1)" "ainv s1"
    proof -
      have "2 \<le> len * 2" "len * 2 \<le> length buf" using ch(1,2) "1.prems"(3) by simp_all
      then show ?thesis
        using that "1.prems"(1,2) find_reg_in[OF r(2)] r(3) unfolding set_safe_def by blast
    qed
    show ?thesis
    proof (cases "rc = 0")
      case True
      have "\<exists>st s'. eMbregSet_loop regs a n (ofs + len) buf s1 = Some (st, s') \<and> ainv s'"
        using "1.IH"[OF r(1,2) refl refl r(3) f(1)[unfolded ad_def len_def]] True f(2) "1.prems"(2,3)
        by (auto simp: len_def)
      with True show ?thesis
        using r f by (subst eMbregSet_loop.simps) (simp add: Let_def len_def[symmetric] ad_def[symmetric])
    next
      case False
      then show ?thesis
        using r f by (subst eMbregSet_loop.simps) (simp add: Let_def len_def[symmetric] ad_def[symmetric])
    qed
  qed
qed

lemma eMbregSet_safe:
  assumes "ainv s" "set_safe ainv regs" "i + 2 * unat n \<le> length p"
  shows "cb_ok ainv p i (eMbregSet a n p i regs s)"
proof -
  obtain p1 where p1: "swap_regs (unat n) p i = Some p1" "length p1 = length p" "take i p1 = take i p"
    using swap_regs_frame[OF assms(3)] by auto
  obtain st s1 where l: "eMbregSet_loop regs (unat a) (unat n) 0 (drop i p1) s = Some (st, s1)" "ainv s1"
  proof -
    have "2 * unat n \<le> length (drop i p1)" using assms(3) p1(2) by simp
    from eMbregSet_loop_safe[OF assms(1,2) this] show ?thesis using that by blast
  qed
  obtain p2 where "swap_regs (unat n) p1 i = Some p2" "length p2 = length p1" "take i p2 = take i p1"
    using swap_regs_frame[of i "unat n" p1] assms(3) p1(2) by auto
  with p1 l show ?thesis
    by (cases "st = MB_ENOERR \<and> n = 1") (auto simp: eMbregSet_def cb_ok_def simp del: swap_regs.simps)
qed

section \<open>What the callbacks read\<close>

text \<open>The bytes of a sequence of registers in the other byte order.\<close>

fun swap2 :: "u8 list \<Rightarrow> u8 list" where
  "swap2 (a # b # xs) = b # a # swap2 xs"
| "swap2 xs = xs"

lemma length_swap2 [simp]: "length (swap2 xs) = length xs"
  by (induction xs rule: swap2.induct) simp_all

lemma swap2_swap2 [simp]: "swap2 (swap2 xs) = xs"
  by (induction xs rule: swap2.induct) simp_all

lemma swap_regs_append:
  "length xs = 2 * k \<Longrightarrow> swap_regs k (pre @ xs @ post) (length pre) = Some (pre @ swap2 xs @ post)"
proof (induction k arbitrary: pre xs)
  case (Suc k)
  then obtain a b ys where xs: "xs = a # b # ys" "length ys = 2 * k"
    by (auto simp: length_Suc_conv)
  show ?case using Suc.IH[OF xs(2), of "pre @ [b, a]"] xs
    by (simp add: rd_def wr_def nth_append list_update_append)
qed simp

lemma swap_regs_blit:
  assumes "i + 2 * k \<le> length p"
  shows "swap_regs k p i = Some (blit p i (swap2 (take (2 * k) (drop i p))))"
proof -
  define as xs zs where parts: "as = take i p" "xs = take (2 * k) (drop i p)" "zs = drop (i + 2 * k) p"
  have p: "p = as @ xs @ zs" unfolding parts by (metis append_take_drop_id drop_drop add.commute)
  have l: "length xs = 2 * k" "length as = i" using assms by (simp_all add: parts)
  have "swap_regs k p i = Some (as @ swap2 xs @ zs)"
    using swap_regs_append[OF l(1), of as zs] by (simp only: l(2) p[symmetric])
  then show ?thesis using l(1) by (simp add: blit_def parts)
qed

text \<open>
  The register at an address: the two bytes its block's accessor answers for it. A request
  reads the registers of its address range, most significant byte first.
\<close>

definition reg_raw :: "'s MODBUS_REG list \<Rightarrow> 's \<Rightarrow> nat \<Rightarrow> u8 list option" where
  "reg_raw regs s x = do {
     r \<leftarrow> find_reg regs x; g \<leftarrow> reg_get r; val \<leftarrow> fst (g s);
     Some (take 2 (drop (2 * (x - unat (reg_start r))) val)) }"

definition spec_read :: "'s MODBUS_REG list \<Rightarrow> 's \<Rightarrow> nat \<Rightarrow> nat \<Rightarrow> u8 list option" where
  "spec_read regs s a n = map_option (\<lambda>ws. swap2 (concat ws)) (those (map (reg_raw regs s) [a..<a + n]))"

text \<open>
  Blocks that do not overlap. Accessors that do not disturb one another: after one has been called
  every one answers what it would have answered before. Memory behind the accessors that reaches to
  the end of the range (an accessor may answer the address of less than its block).
\<close>

definition disjoint_regs :: "'s MODBUS_REG list \<Rightarrow> bool" where
  "disjoint_regs regs \<longleftrightarrow> pairwise (\<lambda>r r'. unat (reg_start r) + unat (u16len r) \<le> unat (reg_start r') \<or>
     unat (reg_start r') + unat (u16len r') \<le> unat (reg_start r)) (set regs)"

definition same_answers :: "'s MODBUS_REG list \<Rightarrow> 's \<Rightarrow> 's \<Rightarrow> bool" where
  "same_answers regs s s' \<longleftrightarrow> (\<forall>r \<in> set regs. \<forall>g. reg_get r = Some g \<longrightarrow> fst (g s') = fst (g s))"

definition steady_regs :: "'s MODBUS_REG list \<Rightarrow> bool" where
  "steady_regs regs \<longleftrightarrow> (\<forall>r \<in> set regs. \<forall>g s. reg_get r = Some g \<longrightarrow> same_answers regs s (snd (g s)))"

definition memory_reaches :: "'s MODBUS_REG list \<Rightarrow> 's \<Rightarrow> nat \<Rightarrow> nat \<Rightarrow> bool" where
  "memory_reaches regs s a e \<longleftrightarrow> (\<forall>x r g val. a \<le> x \<longrightarrow> x < e \<longrightarrow> find_reg regs x = Some r \<longrightarrow> reg_get r = Some g \<longrightarrow>
     fst (g s) = Some val \<longrightarrow> 2 * (x - unat (reg_start r)) + 2 \<le> length val)"

lemma same_answers_refl [simp]: "same_answers regs s s"
  by (simp add: same_answers_def)

lemma same_answers_trans: "same_answers regs s s1 \<Longrightarrow> same_answers regs s1 s2 \<Longrightarrow> same_answers regs s s2"
  by (simp add: same_answers_def)

lemma reg_raw_same: "same_answers regs s s' \<Longrightarrow> reg_raw regs s' x = reg_raw regs s x"
  by (auto simp: reg_raw_def same_answers_def dest!: find_reg_in split: bind_splits)

lemma memory_reaches_same: "same_answers regs s s' \<Longrightarrow> memory_reaches regs s a e \<Longrightarrow> memory_reaches regs s' a e"
  unfolding memory_reaches_def same_answers_def using find_reg_in by metis

lemma find_reg_unique:
  "disjoint_regs regs \<Longrightarrow> r \<in> set regs \<Longrightarrow> reg_covers x r \<Longrightarrow> find_reg regs x = Some r"
proof -
  assume a: "disjoint_regs regs" "r \<in> set regs" "reg_covers x r"
  then obtain r' where r': "find_reg regs x = Some r'"
    by (cases "find_reg regs x") (auto simp: find_reg_def find_None_iff)
  have "r' = r"
  proof (rule ccontr)
    assume "r' \<noteq> r"
    then have "unat (reg_start r) + unat (u16len r) \<le> unat (reg_start r') \<or>
        unat (reg_start r') + unat (u16len r') \<le> unat (reg_start r)"
      using a(1,2) find_reg_in[OF r'] unfolding disjoint_regs_def pairwise_def by blast
    then show False using a(3) find_reg_covers[OF r'] by (auto simp: reg_covers_def)
  qed
  with r' show ?thesis by simp
qed

lemma those_append:
  "those (xs @ ys) = (case those xs of None \<Rightarrow> None | Some as \<Rightarrow> map_option ((@) as) (those ys))"
proof (induction xs)
  case Nil
  then show ?case by (cases "those ys") simp_all
next
  case (Cons x xs)
  then show ?case by (cases x; cases "those xs"; cases "those ys") simp_all
qed

lemma those_map_Some: "(\<And>x. x \<in> set xs \<Longrightarrow> f x = Some (h x)) \<Longrightarrow> those (map f xs) = Some (map h xs)"
  by (induction xs) simp_all

lemma those_map_pairs:
  "those (map f xs) = Some ws \<Longrightarrow> (\<And>x w. x \<in> set xs \<Longrightarrow> f x = Some w \<Longrightarrow> length w = 2) \<Longrightarrow>
   length (concat ws) = 2 * length xs"
proof (induction xs arbitrary: ws)
  case (Cons x xs)
  then obtain w vs where w: "f x = Some w" "those (map f xs) = Some vs" "ws = w # vs"
    by (auto split: option.splits)
  have "length (concat vs) = 2 * length xs" by (rule Cons.IH[OF w(2)]) (rule Cons.prems(2), simp_all)
  with w Cons.prems(2)[of x w] show ?case by simp
qed simp

lemma concat_pairs:
  "st \<le> b \<Longrightarrow> 2 * (b - st + len) \<le> length val \<Longrightarrow>
   concat (map (\<lambda>x. take 2 (drop (2 * (x - st)) val)) [b..<b + len]) = take (2 * len) (drop (2 * (b - st)) val)"
proof (induction len)
  case (Suc len)
  have "2 * len + 2 = 2 * Suc len" "2 * (b - st) + 2 * len = 2 * (b + len - st)" using Suc.prems by simp_all
  then have "take (2 * Suc len) (drop (2 * (b - st)) val) =
      take (2 * len) (drop (2 * (b - st)) val) @ take 2 (drop (2 * (b + len - st)) val)"
    by (metis take_add drop_drop add.commute)
  with Suc show ?case by simp
qed simp

lemma reg_raw_length:
  "memory_reaches regs s a e \<Longrightarrow> x \<in> set [a..<e] \<Longrightarrow> reg_raw regs s x = Some w \<Longrightarrow> length w = 2"
  by (fastforce simp: memory_reaches_def reg_raw_def bind_eq_Some_conv min_def)

lemma reg_raw_chunk:
  assumes d: "disjoint_regs regs" and c: "find_reg regs (a + ofs) = Some r"
    and n: "ofs < n"
  defines "len \<equiv> reg_len (n - ofs) (a + ofs) r" and "ad \<equiv> add_offset (a + ofs) r"
  shows "those (map (reg_raw regs s) [a + ofs..<a + (ofs + len)]) =
    (case reg_get r of None \<Rightarrow> None | Some g \<Rightarrow>
      map_option (\<lambda>val. map (\<lambda>x. take 2 (drop (2 * (x - unat (reg_start r))) val)) [a + ofs..<a + (ofs + len)])
        (fst (g s)))"
proof -
  note cov = find_reg_covers[OF c] and m = find_reg_in[OF c]
  note ch = chunk_inside[OF cov n, folded len_def, folded ad_def]
  have f: "find_reg regs x = Some r" if "x \<in> set [a + ofs..<a + (ofs + len)]" for x
    using that cov ch(4) by (intro find_reg_unique[OF d m]) (auto simp: reg_covers_def)
  have rw: "reg_raw regs s x = (case reg_get r of None \<Rightarrow> None | Some g \<Rightarrow>
      map_option (\<lambda>val. take 2 (drop (2 * (x - unat (reg_start r))) val)) (fst (g s)))"
    if "x \<in> set [a + ofs..<a + (ofs + len)]" for x
    using f[OF that] by (auto simp: reg_raw_def split: option.splits bind_splits)
  show ?thesis
  proof (cases "\<exists>g val. reg_get r = Some g \<and> fst (g s) = Some val")
    case True
    then obtain g val where g: "reg_get r = Some g" "fst (g s) = Some val" by blast
    have "those (map (reg_raw regs s) [a + ofs..<a + (ofs + len)]) =
        Some (map (\<lambda>x. take 2 (drop (2 * (x - unat (reg_start r))) val)) [a + ofs..<a + (ofs + len)])"
      using rw g by (intro those_map_Some) simp
    with g show ?thesis by simp
  next
    case False
    have "[a + ofs..<a + (ofs + len)] = (a + ofs) # [Suc (a + ofs)..<a + (ofs + len)]"
      using ch(1) by (intro upt_rec[THEN trans]) simp
    moreover have "reg_raw regs s (a + ofs) = None"
      using False ch(1) by (subst rw) (auto split: option.splits)
    ultimately show ?thesis using False by (auto split: option.splits)
  qed
qed

lemma eMbregGet_loop_spec:
  assumes "disjoint_regs regs" "steady_regs regs" "memory_reaches regs s a (a + n)" "i + 2 * n \<le> length p"
  shows "case those (map (reg_raw regs s) [a + ofs..<a + n]) of
     Some ws \<Rightarrow> \<exists>s'. eMbregGet_loop regs a n ofs i p s = Some (MB_ENOERR, blit p (i + ofs * 2) (concat ws), s') \<and>
       same_answers regs s s'
   | None \<Rightarrow> \<exists>p' s'. eMbregGet_loop regs a n ofs i p s = Some (MB_ENOREG, p', s') \<and> same_answers regs s s'"
  using assms
proof (induction regs a n ofs i p s rule: eMbregGet_loop.induct)
  case (1 regs a n ofs i p s)
  note IH = "1.IH" and d = "1.prems"(1) and st = "1.prems"(2) and mr = "1.prems"(3) and fit = "1.prems"(4)
  consider "n \<le> ofs" | "ofs < n" "find_reg regs (a + ofs) = None"
    | r where "ofs < n" "find_reg regs (a + ofs) = Some r" by (cases "find_reg regs (a + ofs)") force+
  then show ?case
  proof cases
    case 1
    then show ?thesis by (subst eMbregGet_loop.simps) simp
  next
    case 2
    then have "[a + ofs..<a + n] = (a + ofs) # [Suc (a + ofs)..<a + n]"
      by (intro upt_rec[THEN trans]) simp
    moreover have "reg_raw regs s (a + ofs) = None" using 2 by (simp add: reg_raw_def)
    ultimately show ?thesis using 2 by (subst eMbregGet_loop.simps) simp
  next
    case (3 r)
    define len where "len = reg_len (n - ofs) (a + ofs) r"
    define ad where "ad = add_offset (a + ofs) r"
    note m = find_reg_in[OF 3(2)] and cv = find_reg_covers[OF 3(2)]
    note ch = chunk_inside[OF cv 3(1), folded len_def, folded ad_def]
    note raw = reg_raw_chunk[OF d 3(2,1), of s, folded len_def]
    have "[a + ofs..<a + n] = [a + ofs..<a + (ofs + len)] @ [a + (ofs + len)..<a + n]"
      using upt_add_eq_append[of "a + ofs" "a + (ofs + len)" "n - (ofs + len)"] ch(2) by simp
    then have split: "those (map (reg_raw regs s) [a + ofs..<a + n]) =
        (case those (map (reg_raw regs s) [a + ofs..<a + (ofs + len)]) of None \<Rightarrow> None
         | Some as \<Rightarrow> map_option ((@) as) (those (map (reg_raw regs s) [a + (ofs + len)..<a + n])))"
      by (simp only: map_append those_append)
    show ?thesis
    proof (cases "\<exists>g val. reg_get r = Some g \<and> fst (g s) = Some val")
      case False
      have "same_answers regs s (snd (g s))" if "reg_get r = Some g" for g
        using st that m by (auto simp: steady_regs_def)
      with False 3 show ?thesis unfolding split raw
        by (subst eMbregGet_loop.simps) (auto split: option.splits prod.splits)
    next
      case True
      then obtain g val s1 where g: "reg_get r = Some g" "g s = (Some val, s1)" by (metis prod.collapse)
      have s1: "same_answers regs s s1" using st g m unfolding steady_regs_def by (metis snd_conv)
      have "find_reg regs (a + (ofs + len - 1)) = Some r" using d m ch(4) by (rule find_reg_unique)
      then have vl: "2 * (ad + len) \<le> length val"
        using mr[unfolded memory_reaches_def, rule_format, of "a + (ofs + len - 1)" r g val] g ch(1,2,5) by simp
      let ?x = "take (len * 2) (drop (ad * 2) val)" and ?y = "those (map (reg_raw regs s) [a + (ofs + len)..<a + n])"
      have rb: "rd_blk val (ad * 2) (len * 2) = Some ?x" using vl by (simp add: rd_blk_def)
      have lx: "length ?x = len * 2" using vl by simp
      have wb: "wr_blk p (i + ofs * 2) ?x = Some (blit p (i + ofs * 2) ?x)"
        using fit ch(2) lx by (simp add: wr_blk_def)
      have lb: "length (blit p (i + ofs * 2) ?x) = length p" using fit ch(2) lx by (intro length_blit) simp
      have cov: "unat (reg_start r) \<le> a + ofs" using cv by (simp add: reg_covers_def)
      then have ad: "ad = a + ofs - unat (reg_start r)" by (simp add: ad_def add_offset_def)
      have x: "concat (map (\<lambda>x. take 2 (drop (2 * (x - unat (reg_start r))) val)) [a + ofs..<a + (ofs + len)]) = ?x"
        using concat_pairs[OF cov, of len val] vl by (simp add: ad[symmetric] ac_simps)
      have loop: "eMbregGet_loop regs a n ofs i p s =
          eMbregGet_loop regs a n (ofs + len) i (blit p (i + ofs * 2) ?x) s1"
        using 3 g by (subst eMbregGet_loop.simps) (simp add: Let_def len_def[symmetric] ad_def[symmetric] rb wb)
      have fit1: "i + 2 * n \<le> length (blit p (i + ofs * 2) ?x)" using fit lb by simp
      have "reg_raw regs s1 = reg_raw regs s" using reg_raw_same[OF s1] by (simp add: fun_eq_iff)
      then have ih: "case ?y of
          Some ws \<Rightarrow> \<exists>s'. eMbregGet_loop regs a n (ofs + len) i (blit p (i + ofs * 2) ?x) s1 =
            Some (MB_ENOERR, blit (blit p (i + ofs * 2) ?x) (i + (ofs + len) * 2) (concat ws), s') \<and> same_answers regs s1 s'
        | None \<Rightarrow> \<exists>p' s'. eMbregGet_loop regs a n (ofs + len) i (blit p (i + ofs * 2) ?x) s1 = Some (MB_ENOREG, p', s') \<and>
            same_answers regs s1 s'"
        using IH[OF 3(1,2) g(1) g(2)[symmetric] refl refl refl rb[unfolded ad_def len_def] wb[unfolded ad_def len_def]
            d st memory_reaches_same[OF s1 mr] fit1[unfolded ad_def len_def]] unfolding len_def ad_def by simp
      show ?thesis
      proof (cases ?y)
        case None
        with ih show ?thesis unfolding split raw loop using same_answers_trans[OF s1] by (auto simp: g)
      next
        case (Some ws)
        have lw: "length (concat ws) = 2 * (n - (ofs + len))"
          by (rule those_map_pairs[OF Some, simplified]) (rule reg_raw_length[OF mr], simp_all)
        have "blit (blit p (i + ofs * 2) ?x) (i + (ofs + len) * 2) (concat ws) = blit p (i + ofs * 2) (?x @ concat ws)"
          using blit_blit_append[of "i + ofs * 2" ?x "concat ws" p] lx lw fit ch(2) by (simp add: algebra_simps)
        with ih Some show ?thesis unfolding split raw loop using same_answers_trans[OF s1] by (auto simp: g x)
      qed
    qed
  qed
qed

lemma eMbregGet_spec:
  assumes "disjoint_regs regs" "steady_regs regs" "memory_reaches regs s (unat a) (unat a + unat n)" "i + 2 * unat n \<le> length p"
  shows "case spec_read regs s (unat a) (unat n) of
     Some bs \<Rightarrow> \<exists>s'. eMbregGet a n p i regs s = Some (MB_ENOERR, blit p i bs, s') \<and> same_answers regs s s'
   | None \<Rightarrow> \<exists>p' s'. eMbregGet a n p i regs s = Some (MB_ENOREG, p', s') \<and> same_answers regs s s'"
proof -
  note loop = eMbregGet_loop_spec[OF assms, of 0, simplified]
  show ?thesis
  proof (cases "those (map (reg_raw regs s) [unat a..<unat a + unat n])")
    case None
    with loop show ?thesis by (auto simp: spec_read_def eMbregGet_def)
  next
    case (Some ws)
    have l: "length (concat ws) = 2 * unat n"
      by (rule those_map_pairs[OF Some, simplified]) (rule reg_raw_length[OF assms(3)], simp_all)
    have b: "blit (blit p i (concat ws)) i (swap2 (concat ws)) = blit p i (swap2 (concat ws))"
      using l assms(4) by (simp add: blit_def)
    have "swap_regs (unat n) (blit p i (concat ws)) i = Some (blit p i (swap2 (concat ws)))"
      using swap_regs_blit[of i "unat n" "blit p i (concat ws)"] l assms(4) b
        take_drop_blit_same[of i "concat ws" p] by simp
    with loop Some show ?thesis by (auto simp: spec_read_def eMbregGet_def)
  qed
qed

section \<open>The registers of the application\<close>

text \<open>
  The blocks of one memory each (\<^verbatim>\<open>modbus_reg.c\<close>'s example register is of this kind): the
  accessors of the example register, whose setter takes only the whole register.
\<close>

definition motor_holding_reg_example_read :: "u8 list \<Rightarrow> u8 list option \<times> u8 list" where
  "motor_holding_reg_example_read mem = (Some mem, mem)"

definition motor_holding_reg_example_write ::
  "u8 list \<Rightarrow> u8 list \<Rightarrow> nat \<Rightarrow> nat \<Rightarrow> (int \<times> u8 list) option" where
  "motor_holding_reg_example_write mem set_val start len =
     (if len = 4 then do {
        b0 \<leftarrow> rd set_val 0; mem \<leftarrow> wr mem 0 b0;
        b1 \<leftarrow> rd set_val 1; mem \<leftarrow> wr mem 1 b1;
        b2 \<leftarrow> rd set_val 2; mem \<leftarrow> wr mem 2 b2;
        b3 \<leftarrow> rd set_val 3; mem \<leftarrow> wr mem 3 b3;
        Some (0, mem) }
      else Some (1, mem))"

definition MB_RW_REG where
  "MB_RW_REG reg_addr_s reg_addr_e getter setter =
     \<lparr>reg_start = reg_addr_s, u16len = reg_addr_e - reg_addr_s + 1, reg_get = getter, reg_set = setter\<rparr>"

definition example_regs :: "u8 list MODBUS_REG list" where
  "example_regs = [MB_RW_REG 0x2000 0x2001 (Some motor_holding_reg_example_read)
     (Some motor_holding_reg_example_write)]"

text \<open>
  The two tables of the program. The bodies of the other accessors, which collect sensor values and
  system parameters whose types are not in the repository, are a parameter: for each of their names
  what the function does.
\<close>

datatype input_block = modbus_input_reg_example_read | modbus_input_reg_thtb_read | modbus_input_reg_tough_edge_read
  | modbus_input_reg_batttery_read | modbus_input_reg_soc_down_cmd_read | modbus_input_reg_usound_read
  | modbus_input_reg_luna_read | modbus_input_reg_robot_sta_read | modbus_input_reg_motor_drive_paras_read
  | modbus_input_reg_version_read | modbus_input_reg_version_407_read | modbus_input_reg_rtc_time_read
  | modbus_input_reg_perp_sta_read

definition MB_INPUT_REG :: "u16 \<Rightarrow> u16 \<Rightarrow> ('s \<Rightarrow> u8 list option \<times> 's) \<Rightarrow> 's MODBUS_REG" where
  "MB_INPUT_REG reg_addr_s reg_addr_e getter =
     \<lparr>reg_start = reg_addr_s, u16len = reg_addr_e - reg_addr_s + 1, reg_get = Some getter, reg_set = None\<rparr>"

definition modebus_read_reg_list :: "(input_block \<Rightarrow> 's \<Rightarrow> u8 list option \<times> 's) \<Rightarrow> 's MODBUS_REG list" where
  "modebus_read_reg_list acc =
    [MB_INPUT_REG 0x1000 0x1000 (acc modbus_input_reg_example_read),
     MB_INPUT_REG 0x3002 0x3005 (acc modbus_input_reg_thtb_read),
     MB_INPUT_REG 0x3015 0x3018 (acc modbus_input_reg_tough_edge_read),
     MB_INPUT_REG 0x3020 0x302C (acc modbus_input_reg_batttery_read),
     MB_INPUT_REG 0x30A0 0x30A0 (acc modbus_input_reg_soc_down_cmd_read),
     MB_INPUT_REG 0x30EC 0x30FE (acc modbus_input_reg_usound_read),
     MB_INPUT_REG 0x3130 0x3133 (acc modbus_input_reg_luna_read),
     MB_INPUT_REG 0x3140 0x3148 (acc modbus_input_reg_robot_sta_read),
     MB_INPUT_REG 0x3200 0x320D (acc modbus_input_reg_motor_drive_paras_read),
     MB_INPUT_REG 0x3300 0x3307 (acc modbus_input_reg_version_read),
     MB_INPUT_REG 0x3308 0x3326 (acc modbus_input_reg_version_407_read),
     MB_INPUT_REG 0x3400 0x3405 (acc modbus_input_reg_rtc_time_read),
     MB_INPUT_REG 0x3500 0x3501 (acc modbus_input_reg_perp_sta_read)]"

text \<open>
  The bytes from the address that the accessor answers to the end of its structure, packed; the
  block of the version of the 407 starts at the field \<open>date\<close>. The members of unknown type
  in the battery and the robot state are taken as 16 bits wide, which fills their blocks.
\<close>

fun input_size :: "input_block \<Rightarrow> nat" where
  "input_size modbus_input_reg_example_read = 2"
| "input_size modbus_input_reg_thtb_read = 8"
| "input_size modbus_input_reg_tough_edge_read = 8"
| "input_size modbus_input_reg_batttery_read = 26"
| "input_size modbus_input_reg_soc_down_cmd_read = 2"
| "input_size modbus_input_reg_usound_read = 26"
| "input_size modbus_input_reg_luna_read = 6"
| "input_size modbus_input_reg_robot_sta_read = 18"
| "input_size modbus_input_reg_motor_drive_paras_read = 28"
| "input_size modbus_input_reg_version_read = 46"
| "input_size modbus_input_reg_version_407_read = 38"
| "input_size modbus_input_reg_rtc_time_read = 12"
| "input_size modbus_input_reg_perp_sta_read = 4"

datatype holding_block = motor_holding_reg_example | modbus_holding_reg_motor_ctrl_speed | modbus_holding_reg_lamp_ctrl1
  | modbus_holding_reg_motor_ctrl_lock | modbus_holding_reg_soc_exc_clr | modbus_holding_reg_soc_exc_det
  | modbus_holding_reg_drv_led | modbus_holding_reg_lamp_ctrl2 | modbus_holding_reg_soc_power_sta
  | modbus_holding_reg_rtc_time_set | modbus_holding_reg_selftest_sta | modbus_holding_reg_heat_ctrl
  | modbus_holding_reg_charge_relay_ctrl | modbus_holding_reg_motor_pwr_ctrl | modbus_holding_reg_imu_raw
  | modbus_holding_reg_soc_display_ctrl | modbus_holding_reg_auto_charge_loc | modbus_holding_reg_auto_charge_sta
  | modbus_holding_reg_auto_charge_parking_req | modbus_holding_reg_charge_sta | modbus_holding_reg_auto_charge_cmd
  | modbus_holding_reg_auto_charge_parking_sta

definition modebus_rw_reg_list :: "(holding_block \<Rightarrow> 's \<Rightarrow> u8 list option \<times> 's) \<Rightarrow>
    (holding_block \<Rightarrow> 's \<Rightarrow> u8 list \<Rightarrow> nat \<Rightarrow> nat \<Rightarrow> (int \<times> 's) option) \<Rightarrow> 's MODBUS_REG list" where
  "modebus_rw_reg_list read write =
    [MB_RW_REG 0x2000 0x2001 (Some (read motor_holding_reg_example)) (Some (write motor_holding_reg_example)),
     MB_RW_REG 0x4000 0x4001 None (Some (write modbus_holding_reg_motor_ctrl_speed)),
     MB_RW_REG 0x4100 0x4103 None (Some (write modbus_holding_reg_lamp_ctrl1)),
     MB_RW_REG 0x4006 0x4006 (Some (read modbus_holding_reg_motor_ctrl_lock)) (Some (write modbus_holding_reg_motor_ctrl_lock)),
     MB_RW_REG 0x4008 0x400C (Some (read modbus_holding_reg_soc_exc_clr)) (Some (write modbus_holding_reg_soc_exc_clr)),
     MB_RW_REG 0x400D 0x400D (Some (read modbus_holding_reg_soc_exc_det)) (Some (write modbus_holding_reg_soc_exc_det)),
     MB_RW_REG 0x4108 0x4108 None (Some (write modbus_holding_reg_drv_led)),
     MB_RW_REG 0x410A 0x410A None (Some (write modbus_holding_reg_lamp_ctrl2)),
     MB_RW_REG 0x4132 0x4132 None (Some (write modbus_holding_reg_soc_power_sta)),
     MB_RW_REG 0x4200 0x4203 None (Some (write modbus_holding_reg_rtc_time_set)),
     MB_RW_REG 0x4302 0x4302 (Some (read modbus_holding_reg_selftest_sta)) None,
     MB_RW_REG 0x4304 0x4304 None (Some (write modbus_holding_reg_heat_ctrl)),
     MB_RW_REG 0x4306 0x4306 None (Some (write modbus_holding_reg_charge_relay_ctrl)),
     MB_RW_REG 0x4308 0x4308 None (Some (write modbus_holding_reg_motor_pwr_ctrl)),
     MB_RW_REG 0x4320 0x4351 (Some (read modbus_holding_reg_imu_raw)) None,
     MB_RW_REG 0x4400 0x4403 None (Some (write modbus_holding_reg_soc_display_ctrl)),
     MB_RW_REG 0x5000 0x5000 (Some (read modbus_holding_reg_auto_charge_loc)) None,
     MB_RW_REG 0x5002 0x5002 (Some (read modbus_holding_reg_auto_charge_sta)) None,
     MB_RW_REG 0x5004 0x5004 (Some (read modbus_holding_reg_auto_charge_parking_req)) None,
     MB_RW_REG 0x5006 0x5006 (Some (read modbus_holding_reg_charge_sta)) None,
     MB_RW_REG 0x6000 0x6000 None (Some (write modbus_holding_reg_auto_charge_cmd)),
     MB_RW_REG 0x6002 0x6002 None (Some (write modbus_holding_reg_auto_charge_parking_sta))]"

text \<open>The blocks of a table in ascending order do not overlap.\<close>

lemma sorted_disjoint:
  assumes "sorted_wrt (\<lambda>r r'. unat (reg_start r) + unat (u16len r) \<le> unat (reg_start r')) (regs :: 's MODBUS_REG list)"
  shows "disjoint_regs regs"
  using assms by (induction regs) (auto simp: disjoint_regs_def pairwise_insert)

lemma disjoint_regs_cong: "set regs = set regs' \<Longrightarrow> disjoint_regs regs = disjoint_regs regs'"
  by (simp add: disjoint_regs_def)

lemma read_list_disjoint: "disjoint_regs (modebus_read_reg_list acc)"
  by (rule sorted_disjoint) (simp add: modebus_read_reg_list_def MB_INPUT_REG_def)

lemma rw_list_disjoint: "disjoint_regs (modebus_rw_reg_list read write)"
proof -
  let ?l = "modebus_rw_reg_list read write"
  have "disjoint_regs (take 2 ?l @ take 3 (drop 3 ?l) @ [?l ! 2] @ drop 6 ?l)"
    by (rule sorted_disjoint) (simp add: modebus_rw_reg_list_def MB_RW_REG_def)
  moreover have "set (take 2 ?l @ take 3 (drop 3 ?l) @ [?l ! 2] @ drop 6 ?l) = set ?l"
    by (simp add: modebus_rw_reg_list_def) blast
  ultimately show ?thesis using disjoint_regs_cong by metis
qed

text \<open>
  Three blocks of the input table are longer than the structures behind them: a request for the
  whole block reads past the end.
\<close>

lemma blocks_longer_than_memory:
  assumes "\<forall>b s. \<exists>val s'. acc b s = (Some val, s') \<and> length val = input_size b"
  shows "eMbregGet 0x30EC 19 p i (modebus_read_reg_list acc) s = None"
    "eMbregGet 0x3130 4 p i (modebus_read_reg_list acc) s = None"
    "eMbregGet 0x3308 31 p i (modebus_read_reg_list acc) s = None"
proof -
  have 1: "eMbregGet a n p i (modebus_read_reg_list acc) s = None"
    if f: "find_reg (modebus_read_reg_list acc) (unat a) = Some \<lparr>reg_start = a, u16len = n, reg_get = Some (acc b), reg_set = None\<rparr>"
      and n: "0 < unat n" "input_size b < 2 * unat n" for a n b
  proof -
    obtain val s' where v: "acc b s = (Some val, s')" "length val = input_size b" using assms by blast
    have "eMbregGet_loop (modebus_read_reg_list acc) (unat a) (unat n) 0 i p s = None"
      using f n v by (subst eMbregGet_loop.simps) (simp add: Let_def add_offset_def reg_len_def rd_blk_def)
    then show ?thesis by (simp add: eMbregGet_def)
  qed
  show "eMbregGet 0x30EC 19 p i (modebus_read_reg_list acc) s = None"
    by (rule 1[where b = modbus_input_reg_usound_read])
      (simp_all add: find_reg_def modebus_read_reg_list_def MB_INPUT_REG_def reg_covers_def)
  show "eMbregGet 0x3130 4 p i (modebus_read_reg_list acc) s = None"
    by (rule 1[where b = modbus_input_reg_luna_read])
      (simp_all add: find_reg_def modebus_read_reg_list_def MB_INPUT_REG_def reg_covers_def)
  show "eMbregGet 0x3308 31 p i (modebus_read_reg_list acc) s = None"
    by (rule 1[where b = modbus_input_reg_version_407_read])
      (simp_all add: find_reg_def modebus_read_reg_list_def MB_INPUT_REG_def reg_covers_def)
qed

section \<open>Properties\<close>

text \<open>
  C26: Reading registers answers, for every register of the range, the two bytes that the accessor
  of its block answers for it, high byte first, in the order of the addresses, at the place the
  callback was given and nowhere else; when some register of the range has no block or cannot be
  read the answer is the error for an unknown register. Afterwards every accessor answers what it
  did. The blocks may be contiguous or have gaps, but do not overlap; their accessors may have
  effects that do not change the answer of another; and those of the blocks in the range answer
  memory that reaches to the end of the range.
\<close>

theorem registers_read:
  assumes "disjoint_regs regs" and "steady_regs regs"
    and "memory_reaches regs s (unat (a - 1)) (unat (a - 1) + unat n)" and "i + 2 * unat n \<le> length p"
  shows "case spec_read regs s (unat (a - 1)) (unat n) of
     Some bs \<Rightarrow> \<exists>s'. eMBRegInputCB regs s p i a n = Some (MB_ENOERR, blit p i bs, s') \<and> same_answers regs s s'
   | None \<Rightarrow> \<exists>p' s'. eMBRegInputCB regs s p i a n = Some (MB_ENOREG, p', s') \<and> same_answers regs s s'"
  unfolding eMBRegInputCB_def by (rule eMbregGet_spec[OF assms])

text \<open>The buffer the setters get: the request's registers in host order, then what follows.\<close>

definition set_buf :: "u8 list \<Rightarrow> nat \<Rightarrow> u16 \<Rightarrow> u8 list" where
  "set_buf p i n = swap2 (take (2 * unat n) (drop i p)) @ drop (i + 2 * unat n) p"

lemma drop_set_buf:
  "i + 2 * unat n \<le> length p \<Longrightarrow> drop i (blit p i (swap2 (take (2 * unat n) (drop i p)))) = set_buf p i n"
  by (simp add: blit_def set_buf_def)

lemma eMbregSet_one_block:
  assumes f: "find_reg regs (unat a) = Some r" "reg_set r = Some f"
    and fit: "unat n \<le> unat (u16len r) - (unat a - unat (reg_start r))" "n \<noteq> 0" "i + 2 * unat n \<le> length p"
    and call: "f s (set_buf p i n)
        (2 * (unat a - unat (reg_start r))) (2 * unat n) = Some (0, s')"
  shows "eMbregSet a n p i regs s =
    Some (MB_ENOERR, if n = 1 then p else blit p i (swap2 (take (2 * unat n) (drop i p))), s')"
proof -
  let ?p = "blit p i (swap2 (take (2 * unat n) (drop i p)))"
  note sw = swap_regs_blit[OF fit(3)]
  have l: "length ?p = length p" and d: "drop i ?p = set_buf p i n"
    using fit(3) drop_set_buf by simp_all
  have cov: "unat (reg_start r) \<le> unat a" using find_reg_covers[OF f(1)] by (simp add: reg_covers_def)
  have ad: "add_offset (unat a) r = unat a - unat (reg_start r)" using cov by (simp add: add_offset_def)
  have n: "0 < unat n" using fit(2) by (rule unat_pos)
  have len: "reg_len (unat n) (unat a) r = unat n" using fit(1) by (simp add: reg_len_def ad)
  have "eMbregSet_loop regs (unat a) (unat n) 0 (drop i ?p) s = Some (MB_ENOERR, s')"
    using f n call d
    by (subst eMbregSet_loop.simps) (simp add: Let_def ad len mult.commute, simp add: eMbregSet_loop.simps)
  moreover have "swap_regs (unat n) ?p i = Some p"
  proof -
    have "take (2 * unat n) (drop i ?p) = swap2 (take (2 * unat n) (drop i p))" using d fit(3) by (simp add: set_buf_def)
    then have "swap_regs (unat n) ?p i = Some (blit ?p i (take (2 * unat n) (drop i p)))"
      using swap_regs_blit[of i "unat n" ?p] fit(3) l by simp
    moreover have "blit ?p i (take (2 * unat n) (drop i p)) = p"
      using fit(3) by (simp add: blit_def) (metis append_take_drop_id drop_drop add.commute)
    ultimately show ?thesis by simp
  qed
  ultimately show ?thesis
    using sw by (cases "n = 1") (simp_all add: eMbregSet_def del: swap_regs.simps)
qed

text \<open>
  C40: What is written to registers of one block is read back. The setter of the block is handed the
  bytes of the request in host order, with the offset and the length in the block; when it stores
  them there in the memory that the getter answers, the write succeeds, and a read of the same
  registers answers the bytes of the write request. The request itself is given back unchanged when
  it writes one register, as its response repeats it. The blocks of the table do not overlap and the
  getters do not disturb one another.
\<close>

theorem registers_write_read:
  assumes "disjoint_regs regs" and "steady_regs regs" and "length q = length p"
    and "find_reg regs (unat (a - 1)) = Some r" and "reg_set r = Some f" and "reg_get r = Some g"
    and "unat (a - 1) + unat n \<le> unat (reg_start r) + unat (u16len r)" and "n \<noteq> 0"
    and "i + 2 * unat n \<le> length p"
    and "ofs = 2 * (unat (a - 1) - unat (reg_start r))" and "ofs + 2 * unat n \<le> length val"
    and "f s (set_buf p i n) ofs (2 * unat n) = Some (0, s')"
    and "fst (g s') = Some (blit val ofs (take (2 * unat n) (set_buf p i n)))"
  shows "\<exists>p' s2. eMBRegHoldingCB regs s p i a n MB_REG_WRITE = Some (MB_ENOERR, p', s') \<and> (n = 1 \<longrightarrow> p' = p) \<and>
     eMBRegHoldingCB regs s' q i a n MB_REG_READ =
       Some (MB_ENOERR, blit q i (take (2 * unat n) (drop i p)), s2)"
proof -
  let ?x = "swap2 (take (2 * unat n) (drop i p))" and ?a = "unat (a - 1)"
  let ?ofs = "2 * (?a - unat (reg_start r))"
  have lx: "length ?x = 2 * unat n" using assms(9) by simp
  have val: "fst (g s') = Some (blit val ?ofs ?x)" "?ofs + 2 * unat n \<le> length val"
    using assms(9-11,13) by (simp_all add: set_buf_def)
  have cov: "unat (reg_start r) \<le> ?a" "r \<in> set regs"
    using find_reg_covers[OF assms(4)] find_reg_in[OF assms(4)] by (simp_all add: reg_covers_def)
  have w: "\<exists>p'. eMbregSet (a - 1) n p i regs s = Some (MB_ENOERR, p', s') \<and> (n = 1 \<longrightarrow> p' = p)"
  proof -
    have "unat n \<le> unat (u16len r) - (?a - unat (reg_start r))" using assms(7) cov by linarith
    from eMbregSet_one_block[OF assms(4,5) this assms(8,9)] assms(10,12) show ?thesis by simp
  qed
  have raw: "reg_raw regs s' x = Some (take 2 (drop (2 * (x - unat (reg_start r))) (blit val ?ofs ?x)))"
    if "x \<in> set [?a..<?a + unat n]" for x
    using find_reg_unique[OF assms(1) cov(2), of x] that cov(1) assms(6,7) val(1)
    by (simp add: reg_raw_def reg_covers_def)
  have "concat (map (\<lambda>x. take 2 (drop (2 * (x - unat (reg_start r))) (blit val ?ofs ?x))) [?a..<?a + unat n]) = ?x"
    using concat_pairs[OF cov(1), of "unat n" "blit val ?ofs ?x"] val(2) lx
      take_drop_blit_same[of ?ofs ?x val] by simp
  then have "spec_read regs s' ?a (unat n) = Some (take (2 * unat n) (drop i p))"
    unfolding spec_read_def by (subst those_map_Some[OF raw]) simp_all
  moreover have "memory_reaches regs s' ?a (?a + unat n)"
    unfolding memory_reaches_def
  proof (intro allI impI)
    fix x r' g' val' assume x: "?a \<le> x" "x < ?a + unat n" "find_reg regs x = Some r'" "reg_get r' = Some g'"
      "fst (g' s') = Some val'"
    then have "r' = r" using find_reg_unique[OF assms(1) cov(2), of x] cov(1) assms(7) by (simp add: reg_covers_def)
    then show "2 * (x - unat (reg_start r')) + 2 \<le> length val'" using x cov(1) val assms(6) lx by simp
  qed
  ultimately show ?thesis
    using eMbregGet_spec[OF assms(1,2), of s' "a - 1" n i q] w assms(3,9) by (auto simp: eMBRegHoldingCB_def)
qed

theorem registers_write_read_witness:
  "\<exists>p' s2. eMBRegHoldingCB example_regs [0, 0, 0, 0] [0x10, 1, 2, 3, 4] 1 0x2001 2 MB_REG_WRITE = Some (MB_ENOERR, p', [2, 1, 4, 3]) \<and>
     eMBRegHoldingCB example_regs [2, 1, 4, 3] [3, 0, 0, 0, 0] 1 0x2001 2 MB_REG_READ = Some (MB_ENOERR, [3, 1, 2, 3, 4], s2)"
proof -
  have d: "disjoint_regs example_regs" "steady_regs example_regs"
    by (simp_all add: disjoint_regs_def steady_regs_def same_answers_def example_regs_def MB_RW_REG_def motor_holding_reg_example_read_def)
  let ?r = "MB_RW_REG 0x2000 0x2001 (Some motor_holding_reg_example_read) (Some motor_holding_reg_example_write)"
  have f: "find_reg example_regs (unat (0x2001 - 1 :: u16)) = Some ?r"
    by (simp add: find_reg_def example_regs_def MB_RW_REG_def reg_covers_def)
  have b: "set_buf [0x10, 1, 2, 3, 4] 1 2 = [2, 1, 4, 3]" by (simp add: set_buf_def)
  have w: "motor_holding_reg_example_write [0, 0, 0, 0] (set_buf [0x10, 1, 2, 3, 4] 1 2) 0 (2 * unat (2 :: u16)) = Some (0, [2, 1, 4, 3])"
    unfolding b by code_simp
  have "\<exists>p' s2. eMBRegHoldingCB example_regs [0, 0, 0, 0] [0x10, 1, 2, 3, 4] 1 0x2001 2 MB_REG_WRITE = Some (MB_ENOERR, p', [2, 1, 4, 3]) \<and>
      ((2 :: u16) = 1 \<longrightarrow> p' = [0x10, 1, 2, 3, 4]) \<and>
      eMBRegHoldingCB example_regs [2, 1, 4, 3] [3, 0, 0, 0, 0] 1 0x2001 2 MB_REG_READ =
        Some (MB_ENOERR, blit [3, 0, 0, 0, 0] 1 (take (2 * unat (2 :: u16)) (drop 1 [0x10, 1, 2, 3, 4])), s2)"
    by (rule registers_write_read[OF d _ f, where val = "[0, 0, 0, 0]" and ofs = 0
          and f = motor_holding_reg_example_write and g = motor_holding_reg_example_read]) (use w b in \<open>simp_all add: MB_RW_REG_def
        motor_holding_reg_example_read_def blit_def\<close>)
  then show ?thesis by (simp add: blit_def)
qed

text \<open>
  On the table of the program, with accessors that answer the structure of their block, every byte 7:
  the first three ultrasonic distances (registers 0x30EC to 0x30EE) are read, and a range that leaves
  the block is refused.
\<close>

definition sevens :: "input_block \<Rightarrow> unit \<Rightarrow> u8 list option \<times> unit" where
  "sevens b s = (Some (replicate (input_size b) 7), s)"

theorem registers_read_witness:
  "eMBRegInputCB (modebus_read_reg_list sevens) () [1, 1, 1, 1, 1, 1, 1] 1 0x30ED 3 = Some (MB_ENOERR, [1, 7, 7, 7, 7, 7, 7], ()) \<and>
   (\<exists>p'. eMBRegInputCB (modebus_read_reg_list sevens) () [1, 1, 1, 1, 1] 1 0x3006 2 = Some (MB_ENOREG, p', ()))"
proof (rule conjI)
  let ?t = "modebus_read_reg_list sevens"
  note acc = sevens_def
  have t: "disjoint_regs ?t" "steady_regs ?t" by (rule read_list_disjoint) (simp add: steady_regs_def same_answers_def)
  have r2: "replicate 2 (7 :: u8) = [7, 7]" by (simp add: numeral_2_eq_2)
  have raw: "reg_raw ?t () 0x30EC = Some [7, 7]" "reg_raw ?t () 0x30ED = Some [7, 7]" "reg_raw ?t () 0x30EE = Some [7, 7]"
    "reg_raw ?t () 0x3005 = Some [7, 7]" "reg_raw ?t () 0x3006 = None"
    by (simp_all add: reg_raw_def find_reg_def modebus_read_reg_list_def MB_INPUT_REG_def reg_covers_def acc r2)
  have u: "[0x30EC..<0x30EF] = [0x30EC, 0x30ED, 0x30EE::nat]" "[0x3005..<0x3007] = [0x3005, 0x3006::nat]"
    by (simp_all add: upt_rec)
  have m: "memory_reaches ?t () 0x30EC 0x30EF" "memory_reaches ?t () 0x3005 0x3007"
    by (auto simp: memory_reaches_def find_reg_def modebus_read_reg_list_def MB_INPUT_REG_def reg_covers_def acc split: if_splits)
  show "eMBRegInputCB ?t () [1, 1, 1, 1, 1, 1, 1] 1 0x30ED 3 = Some (MB_ENOERR, [1, 7, 7, 7, 7, 7, 7], ())"
    using registers_read[OF t, of "()" "0x30ED" 3 1 "[1, 1, 1, 1, 1, 1, 1]"] m(1) by (simp add: spec_read_def u raw blit_def)
  show "\<exists>p'. eMBRegInputCB ?t () [1, 1, 1, 1, 1] 1 0x3006 2 = Some (MB_ENOREG, p', ())"
    using registers_read[OF t, of "()" "0x3006" 2 1 "[1, 1, 1, 1, 1]"] m(2) by (simp add: spec_read_def u raw)
qed

text \<open>
  a write request that spans two blocks hands the second block's setter the start of the
  request's values again, with the length of its own part: the registers of the second block
  are set to the values sent for the first, and the values sent for the second reach nothing.
\<close>

lemma write_across_blocks:
  assumes "find_reg regs (unat (a - 1)) = Some r1" and "reg_set r1 = Some f1"
    and "len1 = unat (u16len r1) - (unat (a - 1) - unat (reg_start r1))" and "len1 < unat n"
    and "f1 s (set_buf p i n) (2 * (unat (a - 1) - unat (reg_start r1))) (2 * len1) = Some (0, s1)"
    and "find_reg regs (unat (a - 1) + len1) = Some r2" and "reg_set r2 = Some f2"
    and "unat (reg_start r2) = unat (a - 1) + len1"
    and "unat n - len1 \<le> unat (u16len r2)" and "i + 2 * unat n \<le> length p"
    and "f2 s1 (set_buf p i n) 0 (2 * (unat n - len1)) = Some (0, s2)"
  shows "\<exists>p'. eMBRegHoldingCB regs s p i a n MB_REG_WRITE = Some (MB_ENOERR, p', s2)"
proof -
  let ?a = "unat (a - 1)" and ?p = "blit p i (swap2 (take (2 * unat n) (drop i p)))"
  have l: "length ?p = length p" "drop i ?p = set_buf p i n"
    using assms(10) drop_set_buf by simp_all
  have cov: "unat (reg_start r1) \<le> ?a" using find_reg_covers[OF assms(1)] by (simp add: reg_covers_def)
  then have ad: "add_offset ?a r1 = ?a - unat (reg_start r1)" by (simp add: add_offset_def)
  then have r1: "reg_len (unat n) ?a r1 = len1" using assms(3,4) by (simp add: reg_len_def)
  have r2: "reg_len (unat n - len1) (?a + len1) r2 = unat n - len1" "add_offset (?a + len1) r2 = 0"
    using assms(8,9) by (simp_all add: reg_len_def add_offset_def)
  have "eMbregSet_loop regs ?a (unat n) len1 (set_buf p i n) s1 = Some (MB_ENOERR, s2)"
    using assms(4,6,7,11) r2
    by (subst eMbregSet_loop.simps) (simp add: Let_def mult.commute, simp add: eMbregSet_loop.simps)
  then have "eMbregSet_loop regs ?a (unat n) 0 (set_buf p i n) s = Some (MB_ENOERR, s2)"
    using assms(1,2,4,5) r1 ad by (subst eMbregSet_loop.simps) (simp add: Let_def mult.commute)
  moreover obtain p2 where "swap_regs (unat n) ?p i = Some p2"
    using swap_regs_blit[of i "unat n" ?p] assms(10) l by simp
  ultimately show ?thesis
    using swap_regs_blit[OF assms(10)] l
    by (auto simp: eMBRegHoldingCB_def eMbregSet_def simp del: swap_regs.simps)
qed

text \<open>Two blocks of one byte-addressed memory, with setters that store what they are given.\<close>

definition store_setter :: "nat \<Rightarrow> u8 list \<Rightarrow> u8 list \<Rightarrow> nat \<Rightarrow> nat \<Rightarrow> (int \<times> u8 list) option" where
  "store_setter base mem buf ofs len = do {
     xs \<leftarrow> rd_blk buf 0 len; mem \<leftarrow> wr_blk mem (base + ofs) xs; Some (0, mem) }"

section \<open>The port satisfies the contract of the protocol stack\<close>

text \<open>
  The invariant of the port: the application's own, and that its accessors stay in their
  memory.
\<close>

definition port_inv :: "('s \<Rightarrow> bool) \<Rightarrow> 's MODBUS_REG list \<Rightarrow> 's MODBUS_REG list \<Rightarrow> 's \<Rightarrow> bool" where
  "port_inv ainv read_list rw_list s \<longleftrightarrow> ainv s \<and> set_safe ainv rw_list \<and>
     (\<forall>x. get_safe ainv rw_list x \<and> get_safe ainv read_list x)"

lemma cb_ok_port: "cb_ok ainv p i r \<Longrightarrow> port_inv ainv rd_list rw s \<Longrightarrow> cb_ok (port_inv ainv rd_list rw) p i r"
  by (auto simp: cb_ok_def port_inv_def)

interpretation port: mb_callbacks "port_app read_list rw_list" "port_inv ainv read_list rw_list"
  for read_list rw_list ainv
proof
  fix s and a n :: u16 and i :: nat and p :: "u8 list" and m
  assume s: "port_inv ainv read_list rw_list s"
  then have i: "ainv s" "set_safe ainv rw_list" "\<And>x. get_safe ainv rw_list x" "\<And>x. get_safe ainv read_list x"
    by (simp_all add: port_inv_def)
  show "cb_ok (port_inv ainv read_list rw_list) p i (eMBRegInput (port_app read_list rw_list) s p i a n)"
    if "1 \<le> n" "i + 2 * unat n \<le> length p"
    using eMbregGet_safe[where ainv = ainv, OF i(1), of "a - 1" n read_list i p] that i(4)
    by (intro cb_ok_port[OF _ s]) (simp add: port_app_def eMBRegInputCB_def)
  show "cb_ok (port_inv ainv read_list rw_list) p i (eMBRegHolding (port_app read_list rw_list) s p i a n m)"
    if "1 \<le> n" "i + 2 * unat n \<le> length p"
    using eMbregGet_safe[where ainv = ainv, OF i(1), of "a - 1" n rw_list i p]
      eMbregSet_safe[where ainv = ainv, OF i(1,2), of i n p "a - 1"] i(3) that
    by (intro cb_ok_port[OF _ s]) (simp add: port_app_def eMBRegHoldingCB_def split: eMBRegisterMode.split)
  show "cb_ok (port_inv ainv read_list rw_list) p i (eMBRegCoils (port_app read_list rw_list) s p i a n m)"
    using s by (simp add: port_app_def eMBRegCoilsCB_def cb_ok_def)
  show "cb_ok (port_inv ainv read_list rw_list) p i (eMBRegDiscrete (port_app read_list rw_list) s p i a n)"
    using s by (simp add: port_app_def eMBRegDiscreteCB_def cb_ok_def)
qed

end
