(* ===== verification/Mb_Core.thy ===== *)
theory Mb_Core
  imports Mb_Rtu Mb_Func Mb_Reg_Api
begin

text \<open>
  The protocol stack (\<^verbatim>\<open>FreeModbus/modbus/mb.c\<close>) in the configuration of
  \<^verbatim>\<open>mbconfig.h\<close>: RTU framing only. Its state extends the one of the framing layer; the eight
  function pointers \<open>eMBInit\<close> installs together are one field, null before the first
  initialisation; a handler in the function table is an identifier, since a state cannot hold
  functions over itself. The application's own handlers are a parameter.
\<close>

section \<open>State\<close>

datatype mb_life = STATE_ENABLED | STATE_DISABLED | STATE_NOT_INITIALIZED

datatype mb_frame_layer = FRAME_RTU

datatype pxMBFunctionHandler = FnReportSlaveID | FnReadInputRegister | FnReadHoldingRegister
  | FnWriteMultipleHoldingRegister | FnWriteHoldingRegister | FnReadWriteMultipleHoldingRegister
  | FnReadCoils | FnWriteCoil | FnWriteMultipleCoils | FnReadDiscreteInputs | FnUser nat

type_synonym xMBFunctionHandler = "u8 \<times> pxMBFunctionHandler option"

record 's mb_state = mb_rtu +
  ucMBAddress :: u8
  eMBCurrentMode :: eMBMode
  eMBState :: mb_life
  frame_cur :: "mb_frame_layer option"
  xFuncHandlers :: "xMBFunctionHandler list"
  eStatus :: eMBErrorCode
  ucMBFrame :: "nat option"
  ucRcvAddress :: u8
  ucFunctionCode :: u8
  usLength :: u16
  eException :: eMBException
  me :: "'s mb_env"

definition MB_FUNC_HANDLERS_MAX :: nat where "MB_FUNC_HANDLERS_MAX = 16"

definition xFuncHandlers_init :: "xMBFunctionHandler list" where
  "xFuncHandlers_init = [
     (MB_FUNC_OTHER_REPORT_SLAVEID, Some FnReportSlaveID),
     (MB_FUNC_READ_INPUT_REGISTER, Some FnReadInputRegister),
     (MB_FUNC_READ_HOLDING_REGISTER, Some FnReadHoldingRegister),
     (MB_FUNC_WRITE_MULTIPLE_REGISTERS, Some FnWriteMultipleHoldingRegister),
     (MB_FUNC_WRITE_REGISTER, Some FnWriteHoldingRegister),
     (MB_FUNC_READWRITE_MULTIPLE_REGISTERS, Some FnReadWriteMultipleHoldingRegister),
     (MB_FUNC_READ_COILS, Some FnReadCoils),
     (MB_FUNC_WRITE_SINGLE_COIL, Some FnWriteCoil),
     (MB_FUNC_WRITE_MULTIPLE_COILS, Some FnWriteMultipleCoils),
     (MB_FUNC_READ_DISCRETE_INPUTS, Some FnReadDiscreteInputs)] @
     replicate (MB_FUNC_HANDLERS_MAX - 10) (0, None)"

primrec run_handler ::
  "'s mb_app \<Rightarrow> (nat \<Rightarrow> 's mb_handler) \<Rightarrow> pxMBFunctionHandler \<Rightarrow> 's mb_handler" where
  "run_handler app user FnReportSlaveID = eMBFuncReportSlaveID"
| "run_handler app user FnReadInputRegister = eMBFuncReadInputRegister app"
| "run_handler app user FnReadHoldingRegister = eMBFuncReadHoldingRegister app"
| "run_handler app user FnWriteMultipleHoldingRegister = eMBFuncWriteMultipleHoldingRegister app"
| "run_handler app user FnWriteHoldingRegister = eMBFuncWriteHoldingRegister app"
| "run_handler app user FnReadWriteMultipleHoldingRegister = eMBFuncReadWriteMultipleHoldingRegister app"
| "run_handler app user FnReadCoils = eMBFuncReadCoils app"
| "run_handler app user FnWriteCoil = eMBFuncWriteCoil app"
| "run_handler app user FnWriteMultipleCoils = eMBFuncWriteMultipleCoils app"
| "run_handler app user FnReadDiscreteInputs = eMBFuncReadDiscreteInputs app"
| "run_handler app user (FnUser i) = user i"

section \<open>Life cycle\<close>

definition eMBInit ::
  "eMBMode \<Rightarrow> u8 \<Rightarrow> u8 \<Rightarrow> u32 \<Rightarrow> 'p \<Rightarrow> 's mb_state \<Rightarrow> (eMBErrorCode \<times> 's mb_state) option" where
  "eMBInit eMode ucSlaveAddress ucPort ulBaudRate eParity s =
     (if ucSlaveAddress = MB_ADDRESS_BROADCAST \<or> ucSlaveAddress < MB_ADDRESS_MIN \<or>
         ucSlaveAddress > MB_ADDRESS_MAX
      then Some (MB_EINVAL, s)
      else do {
        let s = s\<lparr>ucMBAddress := ucSlaveAddress\<rparr>;
        (st, s) \<leftarrow> (case eMode of
            MB_RTU \<Rightarrow> eMBRTUInit (ucMBAddress s) ucPort ulBaudRate eParity (s\<lparr>frame_cur := Some FRAME_RTU\<rparr>)
          | _ \<Rightarrow> Some (MB_EINVAL, s));
        if st = MB_ENOERR then
          let (ok, s) = xMBPortEventInit s
          in if \<not> ok then Some (MB_EPORTERR, s)
             else Some (st, s\<lparr>eMBCurrentMode := eMode, eMBState := STATE_DISABLED\<rparr>)
        else Some (st, s) })"

text \<open>The two loops over the handler table.\<close>

fun handler_add ::
  "u8 \<Rightarrow> pxMBFunctionHandler \<Rightarrow> xMBFunctionHandler list \<Rightarrow> xMBFunctionHandler list option" where
  "handler_add fc pxHandler [] = None"
| "handler_add fc pxHandler ((c, h) # hs) =
     (if h = None \<or> h = Some pxHandler then Some ((fc, Some pxHandler) # hs)
      else map_option ((#) (c, h)) (handler_add fc pxHandler hs))"

fun handler_remove :: "u8 \<Rightarrow> xMBFunctionHandler list \<Rightarrow> xMBFunctionHandler list" where
  "handler_remove fc [] = []"
| "handler_remove fc ((c, h) # hs) =
     (if c = fc then (0, None) # hs else (c, h) # handler_remove fc hs)"

definition eMBRegisterCB ::
  "u8 \<Rightarrow> pxMBFunctionHandler option \<Rightarrow> 's mb_state \<Rightarrow> eMBErrorCode \<times> 's mb_state" where
  "eMBRegisterCB fc pxHandler s =
     (if 0 < fc \<and> fc \<le> 127 then
        case pxHandler of
          Some h \<Rightarrow> (case handler_add fc h (xFuncHandlers s) of
              Some hs \<Rightarrow> (MB_ENOERR, s\<lparr>xFuncHandlers := hs\<rparr>)
            | None \<Rightarrow> (MB_ENORES, s))
        | None \<Rightarrow> (MB_ENOERR, s\<lparr>xFuncHandlers := handler_remove fc (xFuncHandlers s)\<rparr>)
      else (MB_EINVAL, s))"

text \<open>The port has no close function: the pointer is null.\<close>

definition eMBClose :: "'s mb_state \<Rightarrow> eMBErrorCode \<times> 's mb_state" where
  "eMBClose s = (if eMBState s = STATE_DISABLED then (MB_ENOERR, s) else (MB_EILLSTATE, s))"

definition eMBEnable :: "'s mb_state \<Rightarrow> (eMBErrorCode \<times> 's mb_state) option" where
  "eMBEnable s =
     (if eMBState s = STATE_DISABLED then do {
        _ \<leftarrow> frame_cur s;
        s \<leftarrow> eMBRTUStart s;
        Some (MB_ENOERR, s\<lparr>eMBState := STATE_ENABLED\<rparr>) }
      else Some (MB_EILLSTATE, s))"

definition eMBDisable :: "'s mb_state \<Rightarrow> (eMBErrorCode \<times> 's mb_state) option" where
  "eMBDisable s =
     (if eMBState s = STATE_ENABLED then do {
        _ \<leftarrow> frame_cur s;
        s \<leftarrow> eMBRTUStop s;
        Some (MB_ENOERR, s\<lparr>eMBState := STATE_DISABLED\<rparr>) }
      else if eMBState s = STATE_DISABLED then Some (MB_ENOERR, s)
      else Some (MB_EILLSTATE, s))"

section \<open>eMBPoll\<close>

text \<open>
  The scan of the handler table: \<open>None\<close> when no entry was found, else the handler pointer of
  the entry. It ends at the first entry whose code is 0.
\<close>

fun scan_handlers :: "xMBFunctionHandler list \<Rightarrow> u8 \<Rightarrow> pxMBFunctionHandler option option" where
  "scan_handlers [] fc = None"
| "scan_handlers ((c, h) # hs) fc =
     (if c = 0 then None else if c = fc then Some h else scan_handlers hs fc)"

definition poll_frame_received :: "'s mb_state \<Rightarrow> 's mb_state option" where
  "poll_frame_received s = do {
     _ \<leftarrow> frame_cur s;
     (st, out) \<leftarrow> eMBRTUReceive s;
     let s = s\<lparr>eStatus := st\<rparr>;
     case out of
       Some (a, f, n) \<Rightarrow>
         (let s = s\<lparr>ucRcvAddress := a, ucMBFrame := Some f, usLength := n\<rparr>
          in if ucRcvAddress s = ucMBAddress s \<or> ucRcvAddress s = MB_ADDRESS_BROADCAST
             then Some (snd (xMBPortEventPost EV_EXECUTE s)) else Some s)
     | None \<Rightarrow> Some s }"

definition poll_call_handler :: "'s mb_app \<Rightarrow> (nat \<Rightarrow> 's mb_handler) \<Rightarrow> nat \<Rightarrow> 's mb_state \<Rightarrow> 's mb_state option" where
  "poll_call_handler app user f s =
     (case scan_handlers (xFuncHandlers s) (ucFunctionCode s) of
        None \<Rightarrow> Some s
      | Some h \<Rightarrow> do {
          fn \<leftarrow> h;
          (ex, n, p, e) \<leftarrow> run_handler app user fn (drop f (ucRTUBuf s)) (usLength s) (me s);
          Some (s\<lparr>eException := ex, usLength := n, ucRTUBuf := take f (ucRTUBuf s) @ p, me := e\<rparr>) })"

definition poll_reply :: "nat \<Rightarrow> 's mb_state \<Rightarrow> 's mb_state option" where
  "poll_reply f s =
     (if ucRcvAddress s \<noteq> MB_ADDRESS_BROADCAST then do {
        s \<leftarrow> (if eException s \<noteq> MB_EX_NONE then do {
                b \<leftarrow> wr (ucRTUBuf s) f (ucFunctionCode s OR MB_FUNC_ERROR);
                b \<leftarrow> wr b (f + 1) (exception_code (eException s));
                Some (s\<lparr>ucRTUBuf := b, usLength := 2\<rparr>) }
              else Some s);
        (st, s) \<leftarrow> eMBRTUSend (ucMBAddress s) f (usLength s) s;
        Some (s\<lparr>eStatus := st\<rparr>) }
      else Some s)"

definition poll_execute :: "'s mb_app \<Rightarrow> (nat \<Rightarrow> 's mb_handler) \<Rightarrow> 's mb_state \<Rightarrow> 's mb_state option" where
  "poll_execute app user s = do {
     f \<leftarrow> ucMBFrame s;
     c \<leftarrow> rd (ucRTUBuf s) f;
     let s = s\<lparr>ucFunctionCode := c, eException := MB_EX_ILLEGAL_FUNCTION\<rparr>;
     s \<leftarrow> poll_call_handler app user f s;
     poll_reply f s }"

definition eMBPoll ::
  "'s mb_app \<Rightarrow> (nat \<Rightarrow> 's mb_handler) \<Rightarrow> 's mb_state \<Rightarrow> (eMBErrorCode \<times> 's mb_state) option" where
  "eMBPoll app user s =
     (let s = s\<lparr>eStatus := MB_ENOERR\<rparr>
      in if eMBState s \<noteq> STATE_ENABLED then Some (MB_EILLSTATE, s)
      else do {
        let (ev, s) = xMBPortEventGet s;
        s \<leftarrow> (case ev of
            None \<Rightarrow> Some s
          | Some EV_READY \<Rightarrow> Some s
          | Some EV_FRAME_RECEIVED \<Rightarrow> poll_frame_received s
          | Some EV_EXECUTE \<Rightarrow> poll_execute app user s
          | Some EV_FRAME_SENT \<Rightarrow> Some s);
        Some (MB_ENOERR, s) })"

section \<open>The running system\<close>

text \<open>
  Everything that can happen to an initialised stack: the interrupts of the serial port and the
  timer, the main loop's poll, and the calls of the application.
\<close>

datatype mb_step = Rx u8 | TxEmpty | Timeout | Poll | Enable | Disable | Close
  | Register u8 "pxMBFunctionHandler option" | SetSlaveID u8 bool "u8 list"

fun mb_exec :: "'s mb_app \<Rightarrow> (nat \<Rightarrow> 's mb_handler) \<Rightarrow> mb_step \<Rightarrow> 's mb_state \<Rightarrow> 's mb_state option" where
  "mb_exec app user (Rx b) s = do { _ \<leftarrow> frame_cur s; uart_rx b s }"
| "mb_exec app user TxEmpty s = do { _ \<leftarrow> frame_cur s; map_option snd (xMBRTUTransmitFSM s) }"
| "mb_exec app user Timeout s = do { _ \<leftarrow> frame_cur s; Some (snd (xMBRTUTimerT35Expired s)) }"
| "mb_exec app user Poll s = map_option snd (eMBPoll app user s)"
| "mb_exec app user Enable s = map_option snd (eMBEnable s)"
| "mb_exec app user Disable s = map_option snd (eMBDisable s)"
| "mb_exec app user Close s = Some (snd (eMBClose s))"
| "mb_exec app user (Register c h) s = Some (snd (eMBRegisterCB c h s))"
| "mb_exec app user (SetSlaveID i r xs) s =
     map_option (\<lambda>(_, e). s\<lparr>me := e\<rparr>) (eMBSetSlaveID i r xs (of_nat (length xs)) (me s))"

fun mb_run :: "'s mb_app \<Rightarrow> (nat \<Rightarrow> 's mb_handler) \<Rightarrow> mb_step list \<Rightarrow> 's mb_state \<Rightarrow> 's mb_state option" where
  "mb_run app user [] s = Some s"
| "mb_run app user (x # xs) s = do { s \<leftarrow> mb_exec app user x s; mb_run app user xs s }"

section \<open>Safety of every operation\<close>

text \<open>
  What holds between any two steps: the framing layer's invariant, the environment's, installed
  function pointers, no handler entry with a code and a null handler, and, while the event to
  execute is pending, a frame pointer and a length that fit the buffer.
\<close>

definition exec_ready :: "'s mb_state \<Rightarrow> bool" where
  "exec_ready s \<longleftrightarrow> ucMBFrame s = Some 1 \<and> 1 \<le> unat (usLength s) \<and> unat (usLength s) \<le> 253"

definition table_ok :: "xMBFunctionHandler list \<Rightarrow> bool" where
  "table_ok hs \<longleftrightarrow> list_all (\<lambda>(c, h). c \<noteq> 0 \<longrightarrow> h \<noteq> None) hs"

definition mb_inv :: "('s \<Rightarrow> bool) \<Rightarrow> 's mb_state \<Rightarrow> bool" where
  "mb_inv ainv s \<longleftrightarrow> rtu_inv s \<and> env_ok ainv (me s) \<and> frame_cur s = Some FRAME_RTU \<and>
     table_ok (xFuncHandlers s) \<and> length (xFuncHandlers s) = MB_FUNC_HANDLERS_MAX \<and>
     (eventReceived s \<and> event s = EV_EXECUTE \<longrightarrow> exec_ready s)"

text \<open>The part of the state the framing layer leaves alone.\<close>

definition same_core :: "'s mb_state \<Rightarrow> 's mb_state \<Rightarrow> bool" where
  "same_core s s' \<longleftrightarrow> me s' = me s \<and> frame_cur s' = frame_cur s \<and> xFuncHandlers s' = xFuncHandlers s \<and>
     ucMBFrame s' = ucMBFrame s \<and> usLength s' = usLength s \<and> eMBState s' = eMBState s \<and>
     ucMBAddress s' = ucMBAddress s \<and> ucRcvAddress s' = ucRcvAddress s"

lemma uart_rx_cases:
  assumes "uart_rx b s = Some s'"
  obtains "s' = s\<lparr>modbufUartRxBuff := b, tim_running := True\<rparr>"
  | st where "s' = s\<lparr>modbufUartRxBuff := b, eRcvState := st, tim_running := True\<rparr>"
  | buf pos st where "s' = s\<lparr>modbufUartRxBuff := b, ucRTUBuf := buf, usRcvBufferPos := pos, eRcvState := st,
      tim_running := True\<rparr>"
  | buf pos where "s' = s\<lparr>modbufUartRxBuff := b, ucRTUBuf := buf, usRcvBufferPos := pos, tim_running := True\<rparr>"
proof (cases "eRcvState s")
  case STATE_RX_IDLE
  then obtain buf where "s' = s\<lparr>modbufUartRxBuff := b, ucRTUBuf := buf, usRcvBufferPos := 1,
      eRcvState := STATE_RX_RCV, tim_running := True\<rparr>"
    using assms by (cases "wr (ucRTUBuf s) 0 b") (auto simp: uart_rx_def xMBRTUReceiveFSM_def port_defs Let_def)
  then show ?thesis by (rule that(3))
next
  case STATE_RX_RCV
  show ?thesis
  proof (cases "usRcvBufferPos s < MB_SER_PDU_SIZE_MAX")
    case True
    then obtain buf where "s' = s\<lparr>modbufUartRxBuff := b, ucRTUBuf := buf,
        usRcvBufferPos := usRcvBufferPos s + 1, tim_running := True\<rparr>"
      using assms STATE_RX_RCV by (cases "wr (ucRTUBuf s) (unat (usRcvBufferPos s)) b")
        (auto simp: uart_rx_def xMBRTUReceiveFSM_def port_defs Let_def)
    then show ?thesis by (rule that(4))
  next
    case False
    then have "s' = s\<lparr>modbufUartRxBuff := b, eRcvState := STATE_RX_ERROR, tim_running := True\<rparr>"
      using assms STATE_RX_RCV by (simp add: uart_rx_def xMBRTUReceiveFSM_def port_defs Let_def)
    then show ?thesis by (rule that(2))
  qed
next
  case STATE_RX_INIT
  then have "s' = s\<lparr>modbufUartRxBuff := b, tim_running := True\<rparr>"
    using assms by (simp add: uart_rx_def xMBRTUReceiveFSM_def port_defs)
  then show ?thesis by (rule that(1))
next
  case STATE_RX_ERROR
  then have "s' = s\<lparr>modbufUartRxBuff := b, tim_running := True\<rparr>"
    using assms by (simp add: uart_rx_def xMBRTUReceiveFSM_def port_defs)
  then show ?thesis by (rule that(1))
qed

lemma uart_rx_frame:
  assumes "uart_rx b s = Some s'"
  shows "same_core s s'" "event s' = event s" "eventReceived s' = eventReceived s"
  using assms by (rule uart_rx_cases, simp_all add: same_core_def)+

lemma transmit_cases:
  assumes "xMBRTUTransmitFSM s = Some (x, s')"
  obtains (idle) "s' = s\<lparr>uart_rx_armed := True\<rparr>"
  | (byte) b where "s' = s\<lparr>modbufUartTxBuff := b, uart_sent := uart_sent s @ [b],
      pucSndBufferCur := pucSndBufferCur s + 1, usSndBufferCount := usSndBufferCount s - 1\<rparr>"
  | (sent) "s' = s\<lparr>eventReceived := True, event := EV_FRAME_SENT, uart_rx_armed := True, eSndState := STATE_TX_IDLE\<rparr>"
proof (cases "eSndState s")
  case STATE_TX_IDLE
  then show ?thesis using assms idle by (simp add: xMBRTUTransmitFSM_def port_defs)
next
  case STATE_TX_XMIT
  show ?thesis
  proof (cases "usSndBufferCount s = 0")
    case True
    then show ?thesis using assms sent STATE_TX_XMIT by (simp add: xMBRTUTransmitFSM_def port_defs)
  next
    case False
    then show ?thesis using assms byte STATE_TX_XMIT
      by (cases "rd (ucRTUBuf s) (pucSndBufferCur s)") (auto simp: xMBRTUTransmitFSM_def port_defs)
  qed
qed

lemma transmit_frame:
  assumes "xMBRTUTransmitFSM s = Some (x, s')"
  shows "same_core s s'" "eventReceived s' \<and> event s' = EV_EXECUTE \<longrightarrow> eventReceived s \<and> event s = EV_EXECUTE"
  using assms by (rule transmit_cases, simp_all add: same_core_def)+

lemma uart_rx_mb_inv: "mb_inv ainv s \<Longrightarrow> \<exists>s'. uart_rx b s = Some s' \<and> mb_inv ainv s'"
proof -
  assume i: "mb_inv ainv s"
  then obtain s' where s': "uart_rx b s = Some s'" "rtu_inv s'"
    using receive_fsm_inv[of s b] by (auto simp: mb_inv_def)
  with i uart_rx_frame[OF s'(1)] show ?thesis by (auto simp: mb_inv_def exec_ready_def same_core_def)
qed

lemma transmit_mb_inv: "mb_inv ainv s \<Longrightarrow> \<exists>x s'. xMBRTUTransmitFSM s = Some (x, s') \<and> mb_inv ainv s'"
proof -
  assume i: "mb_inv ainv s"
  then obtain x s' where s': "xMBRTUTransmitFSM s = Some (x, s')" "rtu_inv s'"
    using transmit_fsm_inv[of s] by (auto simp: mb_inv_def)
  with i transmit_frame[OF s'(1)] show ?thesis by (auto simp: mb_inv_def exec_ready_def same_core_def)
qed

lemma timeout_mb_inv: "mb_inv ainv s \<Longrightarrow> mb_inv ainv (snd (xMBRTUTimerT35Expired s))"
  using timer_inv[of s]
  by (cases "eRcvState s") (auto simp: mb_inv_def exec_ready_def xMBRTUTimerT35Expired_def port_defs)

lemma send_mb_inv:
  assumes "mb_inv ainv s" and "unat n \<le> 253"
  shows "\<exists>st s'. eMBRTUSend a 1 n s = Some (st, s') \<and> mb_inv ainv s'"
proof (cases "eRcvState s = STATE_RX_IDLE")
  case True
  let ?s = "s\<lparr>pucSndBufferCur := 0,
      ucRTUBuf := rtu_frame a (take (unat n) (drop 1 (ucRTUBuf s))) @ drop (unat n + 3) (ucRTUBuf s),
      usSndBufferCount := n + 3, eSndState := STATE_TX_XMIT, uart_rx_armed := False, uart_txe_irq := True\<rparr>"
  have "unat (n + 3) = unat n + 3" using assms(2) by (simp add: unat_add_small)
  then have "mb_inv ainv ?s" using assms by (simp add: mb_inv_def rtu_inv_def exec_ready_def min_def)
  then obtain x s' where "xMBRTUTransmitFSM ?s = Some (x, s')" "mb_inv ainv s'" using transmit_mb_inv by blast
  then show ?thesis using send_prepares[of s n a] assms True by (simp add: mb_inv_def rtu_inv_def)
qed (use assms(1) in \<open>simp add: eMBRTUSend_def\<close>)

lemma receive_result:
  assumes "rtu_inv s"
  shows "\<exists>st out. eMBRTUReceive s = Some (st, out) \<and>
    (\<forall>a f n. out = Some (a, f, n) \<longrightarrow> st = MB_ENOERR \<and> f = 1 \<and> 1 \<le> unat n \<and> unat n \<le> 253)"
proof -
  have p: "unat (usRcvBufferPos s) \<le> 256" "length (ucRTUBuf s) = 256"
    using assms by (simp_all add: rtu_inv_def word_le_nat_alt)
  have "unat (usRcvBufferPos s - 3) = unat (usRcvBufferPos s) - 3" if "4 \<le> usRcvBufferPos s"
    using that by (subst unat_sub_le) (auto simp: word_le_nat_alt)
  then show ?thesis
    using p usMBCRC16_ref[of "usRcvBufferPos s" "ucRTUBuf s"]
    by (auto simp: eMBRTUReceive_def rtu_consts rd_def word_le_nat_alt)
qed

lemma poll_frame_received_inv:
  assumes "mb_inv ainv s"
  shows "\<exists>s'. poll_frame_received s = Some s' \<and> mb_inv ainv s'"
proof -
  obtain st out where r: "eMBRTUReceive s = Some (st, out)"
    "\<forall>a f n. out = Some (a, f, n) \<longrightarrow> st = MB_ENOERR \<and> f = 1 \<and> 1 \<le> unat n \<and> unat n \<le> 253"
    using receive_result[of s] assms by (auto simp: mb_inv_def)
  show ?thesis
  proof (cases out)
    case None
    with r assms show ?thesis by (simp add: poll_frame_received_def mb_inv_def rtu_inv_def exec_ready_def)
  next
    case (Some o3)
    then obtain a f n where "out = Some (a, f, n)" by (cases o3) auto
    with r assms show ?thesis
      by (auto simp: poll_frame_received_def mb_inv_def rtu_inv_def exec_ready_def port_defs Let_def)
  qed
qed

lemma scan_handlers_ok: "table_ok hs \<Longrightarrow> scan_handlers hs c = Some h \<Longrightarrow> \<exists>fn. h = Some fn"
  by (induction hs c rule: scan_handlers.induct) (auto simp: table_ok_def split: if_splits)

lemma handler_add_ok:
  "table_ok hs \<Longrightarrow> handler_add c fn hs = Some hs' \<Longrightarrow> table_ok hs' \<and> length hs' = length hs"
  by (induction hs arbitrary: hs') (auto simp: table_ok_def split: if_splits)

lemma handler_remove_ok: "table_ok hs \<Longrightarrow> table_ok (handler_remove c hs) \<and> length (handler_remove c hs) = length hs"
  by (induction c hs rule: handler_remove.induct) (auto simp: table_ok_def)

lemma register_mb_inv: "mb_inv ainv s \<Longrightarrow> mb_inv ainv (snd (eMBRegisterCB c h s))"
  using handler_add_ok[of "xFuncHandlers s"] handler_remove_ok[of "xFuncHandlers s" c]
  by (auto simp: eMBRegisterCB_def mb_inv_def exec_ready_def rtu_inv_def split: option.splits)

lemma life_mb_inv:
  assumes "mb_inv ainv s"
  shows "\<exists>st s'. eMBEnable s = Some (st, s') \<and> mb_inv ainv s'"
    and "\<exists>st s'. eMBDisable s = Some (st, s') \<and> mb_inv ainv s'"
    and "mb_inv ainv (snd (eMBClose s))"
  using assms
  by (auto simp: eMBEnable_def eMBDisable_def eMBClose_def eMBRTUStart_def eMBRTUStop_def port_defs mb_inv_def
      rtu_inv_def exec_ready_def Let_def)

lemma set_slaveid_inv:
  assumes "env_ok ainv e" and "unat n \<le> length xs"
  shows "\<exists>st e'. eMBSetSlaveID i r xs n e = Some (st, e') \<and> env_ok ainv e'"
proof -
  have "unat (2 + n) = 2 + unat n" if "unat n + 2 < 32"
    using that by (subst unat_add_small) simp_all
  moreover have "length (ucMBSlaveID e) = 32" using assms(1) by (simp add: env_ok_def slaveid_wf_def MB_FUNC_OTHER_REP_SLAVEID_BUF_def)
  ultimately show ?thesis
    using assms by (auto simp: eMBSetSlaveID_def MB_FUNC_OTHER_REP_SLAVEID_BUF_def mem_simps env_ok_def
        slaveid_wf_def Let_def)
qed

locale modbus_slave = mb_callbacks app ainv for app :: "'s mb_app" and ainv :: "'s \<Rightarrow> bool" +
  fixes user :: "nat \<Rightarrow> 's mb_handler"
  assumes user_ok: "length p = 255 \<Longrightarrow> env_ok ainv e \<Longrightarrow> 1 \<le> unat n \<Longrightarrow> unat n \<le> 253 \<Longrightarrow>
      handler_ok ainv (user i) p n e"
begin

lemma run_handler_ok:
  assumes "length p = 255" "env_ok ainv e" "1 \<le> unat n" "unat n \<le> 253"
  shows "handler_ok ainv (run_handler app user fn) p n e"
  using read_coils_ok[OF assms] read_discrete_ok[OF assms] write_coil_ok[OF assms]
    write_multiple_coils_ok[OF assms] read_input_ok[OF assms] write_holding_ok[OF assms]
    write_multiple_holding_ok[OF assms] read_holding_ok[OF assms] readwrite_holding_ok[OF assms]
    report_slaveid_ok[OF assms(1,2)] user_ok[OF assms]
  by (cases fn) simp_all

lemma poll_call_handler_inv:
  assumes "mb_inv ainv s" "exec_ready s" "\<not> eventReceived s"
  shows "\<exists>s'. poll_call_handler app user 1 s = Some s' \<and> mb_inv ainv s' \<and> exec_ready s' \<and> \<not> eventReceived s'"
proof (cases "scan_handlers (xFuncHandlers s) (ucFunctionCode s)")
  case None
  with assms show ?thesis by (simp add: poll_call_handler_def)
next
  case (Some h)
  then obtain fn where h: "h = Some fn"
    using scan_handlers_ok[OF _ Some] assms(1) unfolding mb_inv_def by blast
  let ?p = "drop 1 (ucRTUBuf s)"
  have l: "length (ucRTUBuf s) = 256" using assms(1) by (simp add: mb_inv_def rtu_inv_def)
  have "handler_ok ainv (run_handler app user fn) ?p (usLength s) (me s)"
    using assms l by (intro run_handler_ok) (auto simp: exec_ready_def mb_inv_def)
  then obtain ex n p e where r: "run_handler app user fn ?p (usLength s) (me s) = Some (ex, n, p, e)"
    "length p = length ?p" "unat n \<le> 253" "1 \<le> unat n" "env_ok ainv e" by (auto simp: handler_ok_def)
  have "length (take 1 (ucRTUBuf s) @ p) = 256" using l r(2) by simp
  then have "mb_inv ainv (s\<lparr>eException := ex, usLength := n, ucRTUBuf := take 1 (ucRTUBuf s) @ p, me := e\<rparr>)"
    using assms r(3-5) by (simp only: mb_inv_def rtu_inv_def exec_ready_def mb_state.simps mb_rtu.simps mb_port.simps) simp
  then show ?thesis
    using Some h r assms by (simp add: poll_call_handler_def exec_ready_def)
qed

lemma poll_reply_inv:
  assumes "mb_inv ainv s" "exec_ready s"
  shows "\<exists>s'. poll_reply 1 s = Some s' \<and> mb_inv ainv s'"
proof (cases "ucRcvAddress s = MB_ADDRESS_BROADCAST")
  case True
  with assms show ?thesis by (simp add: poll_reply_def)
next
  case False
  define t where "t = (if eException s \<noteq> MB_EX_NONE
      then s\<lparr>ucRTUBuf := (ucRTUBuf s)[1 := ucFunctionCode s OR MB_FUNC_ERROR, 2 := exception_code (eException s)],
             usLength := 2\<rparr> else s)"
  have l: "length (ucRTUBuf s) = 256" using assms(1) by (simp add: mb_inv_def rtu_inv_def)
  have t: "mb_inv ainv t" "unat (usLength t) \<le> 253"
    using assms l by (auto simp: t_def mb_inv_def rtu_inv_def exec_ready_def)
  obtain st s' where "eMBRTUSend (ucMBAddress t) 1 (usLength t) t = Some (st, s')" "mb_inv ainv s'"
    using send_mb_inv[OF t] by blast
  moreover have "mb_inv ainv (s'\<lparr>eStatus := st\<rparr>)"
    using calculation(2) by (simp add: mb_inv_def rtu_inv_def exec_ready_def)
  ultimately show ?thesis
    using False l by (auto simp: poll_reply_def t_def mem_simps numeral_2_eq_2 split: if_splits)
qed

lemma poll_inv:
  assumes "mb_inv ainv s"
  shows "\<exists>st s'. eMBPoll app user s = Some (st, s') \<and> mb_inv ainv s'"
proof -
  define t where "t = s\<lparr>eStatus := MB_ENOERR\<rparr>"
  define u where "u = t\<lparr>eventReceived := False\<rparr>"
  have t: "mb_inv ainv t" and u: "mb_inv ainv u"
    using assms by (simp_all add: mb_inv_def rtu_inv_def exec_ready_def t_def u_def)
  consider "eMBState s \<noteq> STATE_ENABLED \<or> \<not> eventReceived s" | "event s = EV_READY \<or> event s = EV_FRAME_SENT"
    | "event s = EV_FRAME_RECEIVED" | "eventReceived s" "event s = EV_EXECUTE"
    by (cases "event s") auto
  then show ?thesis
  proof cases
    case 1
    with t show ?thesis by (auto simp: eMBPoll_def Let_def t_def[symmetric] port_defs) (simp_all add: t_def)
  next
    case 2
    with t u show ?thesis by (auto simp: eMBPoll_def Let_def port_defs t_def u_def)
  next
    case 3
    with t u poll_frame_received_inv[OF u] show ?thesis by (auto simp: eMBPoll_def Let_def port_defs t_def u_def)
  next
    case 4
    then have r: "exec_ready u" using assms by (simp add: mb_inv_def exec_ready_def u_def t_def)
    have l: "length (ucRTUBuf u) = 256" using u by (simp add: mb_inv_def rtu_inv_def)
    let ?v = "u\<lparr>ucFunctionCode := ucRTUBuf u ! 1, eException := MB_EX_ILLEGAL_FUNCTION\<rparr>"
    have "mb_inv ainv ?v" "exec_ready ?v" "\<not> eventReceived ?v"
      using u r by (simp_all add: mb_inv_def rtu_inv_def exec_ready_def u_def)
    then obtain w where w: "poll_call_handler app user 1 ?v = Some w" "mb_inv ainv w" "exec_ready w"
      using poll_call_handler_inv by blast
    obtain s' where "poll_reply 1 w = Some s'" "mb_inv ainv s'" using poll_reply_inv[OF w(2,3)] by blast
    moreover have "poll_execute app user u = poll_reply 1 w"
      using r l w(1) by (simp add: poll_execute_def exec_ready_def rd_def Let_def)
    ultimately show ?thesis
      using t 4 by (auto simp: eMBPoll_def Let_def port_defs t_def u_def)
  qed
qed

lemma exec_inv: "mb_inv ainv s \<Longrightarrow> \<exists>s'. mb_exec app user x s = Some s' \<and> mb_inv ainv s'"
proof (cases x)
  case (SetSlaveID i r xs)
  assume s: "mb_inv ainv s"
  have "unat (of_nat (length xs) :: u16) \<le> length xs" by (simp add: unat_of_nat)
  then obtain st e where "eMBSetSlaveID i r xs (of_nat (length xs)) (me s) = Some (st, e)" "env_ok ainv e"
    using set_slaveid_inv s unfolding mb_inv_def by blast
  with s SetSlaveID show ?thesis by (simp add: mb_inv_def rtu_inv_def exec_ready_def)
next
  case (Rx b)
  assume s: "mb_inv ainv s"
  with Rx uart_rx_mb_inv[OF s, of b] show ?thesis by (simp add: mb_inv_def)
next
  case TxEmpty
  assume s: "mb_inv ainv s"
  from transmit_mb_inv[OF s] obtain y s' where "xMBRTUTransmitFSM s = Some (y, s')" "mb_inv ainv s'" by blast
  with TxEmpty s show ?thesis by (simp add: mb_inv_def)
next
  case Timeout
  assume s: "mb_inv ainv s"
  with Timeout timeout_mb_inv[OF s] show ?thesis by (simp add: mb_inv_def)
next
  case Poll
  assume s: "mb_inv ainv s"
  with Poll poll_inv[OF s] show ?thesis by auto
next
  case Enable
  assume s: "mb_inv ainv s"
  with Enable life_mb_inv(1)[OF s] show ?thesis by auto
next
  case Disable
  assume s: "mb_inv ainv s"
  with Disable life_mb_inv(2)[OF s] show ?thesis by auto
next
  case Close
  assume s: "mb_inv ainv s"
  with Close life_mb_inv(3)[OF s] show ?thesis by simp
next
  case (Register c h)
  assume s: "mb_inv ainv s"
  with Register register_mb_inv[OF s] show ?thesis by simp
qed

lemma run_inv: "mb_inv ainv s \<Longrightarrow> \<exists>s'. mb_run app user xs s = Some s' \<and> mb_inv ainv s'"
proof (induction xs arbitrary: s)
  case (Cons x xs)
  from exec_inv[OF Cons.prems, of x] Cons.IH show ?case by auto
qed simp

end

section \<open>One exchange\<close>

lemma mb_run_append: "mb_run app user (xs @ ys) s = Option.bind (mb_run app user xs s) (mb_run app user ys)"
  by (induction xs arbitrary: s) (auto split: bind_splits)

lemma mb_run_rx: "frame_cur s = Some FRAME_RTU \<Longrightarrow> mb_run app user (map Rx bs) s = rx_bytes bs s"
proof (induction bs arbitrary: s)
  case (Cons b bs)
  show ?case
  proof (cases "uart_rx b s")
    case (Some s')
    with Cons uart_rx_frame(1)[OF Some] show ?thesis by (simp add: same_core_def)
  qed (use Cons in simp)
qed simp

lemma mb_run_tx: "frame_cur s = Some FRAME_RTU \<Longrightarrow> mb_run app user (replicate k TxEmpty) s = tx_empty k s"
proof (induction k arbitrary: s)
  case (Suc k)
  show ?case
  proof (cases "xMBRTUTransmitFSM s")
    case (Some xs)
    then obtain x s' where x: "xMBRTUTransmitFSM s = Some (x, s')" by (cases xs) simp
    with Suc transmit_frame(1)[OF x] show ?thesis by (simp add: same_core_def)
  qed (use Suc in simp)
qed simp

text \<open>
  The stack between two exchanges: enabled, receiver and transmitter idle, no event pending.
\<close>

definition mb_ready :: "'s mb_state \<Rightarrow> bool" where
  "mb_ready s \<longleftrightarrow> rtu_inv s \<and> frame_cur s = Some FRAME_RTU \<and> eMBState s = STATE_ENABLED \<and>
     eRcvState s = STATE_RX_IDLE \<and> eSndState s = STATE_TX_IDLE \<and> \<not> eventReceived s"

text \<open>
  What a slave is to answer to a PDU of \<open>n\<close> bytes at the start of the memory \<open>p\<close>: the reply
  PDU of the handler registered for its function code, or the exception frame.
\<close>

definition serve ::
  "'s mb_app \<Rightarrow> (nat \<Rightarrow> 's mb_handler) \<Rightarrow> xMBFunctionHandler list \<Rightarrow> u8 list \<Rightarrow> u16 \<Rightarrow> 's mb_env \<Rightarrow>
   (u8 list \<times> 's mb_env) option" where
  "serve app user hs p n e =
     (case scan_handlers hs (p ! 0) of
        None \<Rightarrow> Some ([p ! 0 OR 0x80, exception_code MB_EX_ILLEGAL_FUNCTION], e)
      | Some h \<Rightarrow> do {
          fn \<leftarrow> h;
          (ex, n', p', e') \<leftarrow> run_handler app user fn p n e;
          Some (if ex = MB_EX_NONE then take (unat n') p' else [p ! 0 OR 0x80, exception_code ex], e') })"

text \<open>The state after the bytes of a frame and the timeout.\<close>

definition after_frame :: "u8 list \<Rightarrow> 's mb_state \<Rightarrow> 's mb_state" where
  "after_frame bs s = s\<lparr>modbufUartRxBuff := last bs, ucRTUBuf := bs @ drop (length bs) (ucRTUBuf s),
     usRcvBufferPos := of_nat (length bs), tim_running := False, eventReceived := True, event := EV_FRAME_RECEIVED\<rparr>"

lemma run_frame:
  assumes "mb_ready s" "bs \<noteq> []" "length bs \<le> 256"
  shows "mb_run app user (map Rx bs @ [Timeout]) s = Some (after_frame bs s)"
proof -
  have "snd (xMBRTUTimerT35Expired (s\<lparr>modbufUartRxBuff := last bs,
     ucRTUBuf := bs @ drop (length bs) (ucRTUBuf s), usRcvBufferPos := of_nat (length bs),
     eRcvState := STATE_RX_RCV, tim_running := True\<rparr>)) = after_frame bs s"
    using assms(1) by (intro mb_state.equality) (simp_all add: after_frame_def xMBRTUTimerT35Expired_def port_defs mb_ready_def)
  then show ?thesis
    using assms rx_bytes_idle[of s bs]
    by (simp add: mb_run_append mb_run_rx mb_ready_def rtu_inv_def)
qed

lemma poll_frame:
  assumes "mb_ready s" "bs \<noteq> []" "length bs \<le> 256"
  shows "eMBPoll app user (after_frame bs s) = Some (MB_ENOERR,
    (case rtu_decode bs of
       None \<Rightarrow> after_frame bs s\<lparr>eStatus := MB_EIO, eventReceived := False\<rparr>
     | Some (a, pdu) \<Rightarrow>
         let t = after_frame bs s\<lparr>eStatus := MB_ENOERR, eventReceived := False, ucRcvAddress := a,
             ucMBFrame := Some 1, usLength := of_nat (length pdu)\<rparr>
         in if a = ucMBAddress s \<or> a = MB_ADDRESS_BROADCAST
            then t\<lparr>eventReceived := True, event := EV_EXECUTE\<rparr> else t))"
proof -
  let ?u = "after_frame bs s\<lparr>eStatus := MB_ENOERR, eventReceived := False\<rparr>"
  have "eMBRTUReceive ?u = Some (case rtu_decode bs of
     Some (a, pdu) \<Rightarrow> (MB_ENOERR, Some (a, 1, of_nat (length pdu))) | None \<Rightarrow> (MB_EIO, None))"
    using assms by (intro receive_decodes) (simp_all add: after_frame_def mb_ready_def rtu_inv_def)
  then have "poll_frame_received ?u = Some
    (case rtu_decode bs of
       None \<Rightarrow> ?u\<lparr>eStatus := MB_EIO\<rparr>
     | Some (a, pdu) \<Rightarrow>
         let t = ?u\<lparr>ucRcvAddress := a, ucMBFrame := Some 1, usLength := of_nat (length pdu)\<rparr>
         in if a = ucMBAddress s \<or> a = MB_ADDRESS_BROADCAST
            then t\<lparr>eventReceived := True, event := EV_EXECUTE\<rparr> else t)"
    using assms(1)
    by (auto simp: poll_frame_received_def mb_ready_def after_frame_def port_defs Let_def split: option.splits)
  then show ?thesis
    using assms(1) by (simp add: eMBPoll_def port_defs mb_ready_def after_frame_def Let_def split: option.splits prod.splits)
qed

text \<open>The fields that decide what is sent next, which a handler call leaves alone.\<close>

definition same_line :: "'s mb_state \<Rightarrow> 's mb_state \<Rightarrow> bool" where
  "same_line s t \<longleftrightarrow> frame_cur t = frame_cur s \<and> xFuncHandlers t = xFuncHandlers s \<and> eMBState t = eMBState s \<and>
     ucMBAddress t = ucMBAddress s \<and> ucRcvAddress t = ucRcvAddress s \<and> eRcvState t = eRcvState s \<and>
     eSndState t = eSndState s \<and> uart_sent t = uart_sent s \<and> eventReceived t = eventReceived s"

context modbus_slave
begin

lemma call_handler_serves:
  assumes "mb_inv ainv s" "exec_ready s" "\<not> eventReceived s"
  defines "v \<equiv> s\<lparr>ucFunctionCode := ucRTUBuf s ! 1, eException := MB_EX_ILLEGAL_FUNCTION\<rparr>"
  shows "\<exists>w. poll_call_handler app user 1 v = Some w \<and> mb_inv ainv w \<and> exec_ready w \<and> same_line s w \<and>
    ucFunctionCode w = ucRTUBuf s ! 1 \<and>
    serve app user (xFuncHandlers s) (drop 1 (ucRTUBuf s)) (usLength s) (me s) =
      Some (if eException w = MB_EX_NONE then take (unat (usLength w)) (drop 1 (ucRTUBuf w))
            else [ucRTUBuf s ! 1 OR 0x80, exception_code (eException w)], me w)"
proof -
  have v: "mb_inv ainv v" "exec_ready v" "\<not> eventReceived v"
    using assms(1-3) by (simp_all add: v_def mb_inv_def rtu_inv_def exec_ready_def)
  then obtain w where w: "poll_call_handler app user 1 v = Some w" "mb_inv ainv w" "exec_ready w"
    using poll_call_handler_inv by blast
  have l: "length (ucRTUBuf s) = 256" using assms(1) by (simp add: mb_inv_def rtu_inv_def)
  have c: "drop 1 (ucRTUBuf s) ! 0 = ucRTUBuf s ! 1" using l by simp
  show ?thesis
  proof (cases "scan_handlers (xFuncHandlers s) (ucRTUBuf s ! 1)")
    case None
    then have "w = v" using w(1) by (simp add: poll_call_handler_def v_def)
    with w None c show ?thesis by (auto simp: serve_def v_def same_line_def)
  next
    case (Some h)
    then obtain fn where h: "h = Some fn"
      using scan_handlers_ok[OF _ Some] assms(1) unfolding mb_inv_def by blast
    have "handler_ok ainv (run_handler app user fn) (drop 1 (ucRTUBuf s)) (usLength s) (me s)"
      using assms(1,2) l by (intro run_handler_ok) (auto simp: exec_ready_def mb_inv_def)
    then obtain ex n p e where r: "run_handler app user fn (drop 1 (ucRTUBuf s)) (usLength s) (me s) = Some (ex, n, p, e)"
      "length p = 255" using l by (auto simp: handler_ok_def)
    have "w = v\<lparr>eException := ex, usLength := n, ucRTUBuf := take 1 (ucRTUBuf v) @ p, me := e\<rparr>"
      using w(1) Some h r by (simp add: poll_call_handler_def v_def)
    moreover have "drop 1 (take 1 (ucRTUBuf s) @ p) = p" using l by simp
    ultimately show ?thesis
      using w Some h r c by (auto simp: serve_def v_def same_line_def)
  qed
qed

lemma execute_replies:
  assumes "mb_inv ainv s" "exec_ready s" "\<not> eventReceived s" "ucRcvAddress s \<noteq> MB_ADDRESS_BROADCAST"
  shows "\<exists>rep e t n. serve app user (xFuncHandlers s) (drop 1 (ucRTUBuf s)) (usLength s) (me s) = Some (rep, e) \<and>
    poll_execute app user s = map_option (\<lambda>(st, s'). s'\<lparr>eStatus := st\<rparr>) (eMBRTUSend (ucMBAddress s) 1 n t) \<and>
    take (unat n) (drop 1 (ucRTUBuf t)) = rep \<and> unat n = length rep \<and> length rep \<le> 253 \<and> mb_inv ainv t \<and>
    same_line s t \<and> me t = e"
proof -
  obtain w where w: "poll_call_handler app user 1 (s\<lparr>ucFunctionCode := ucRTUBuf s ! 1,
      eException := MB_EX_ILLEGAL_FUNCTION\<rparr>) = Some w" "mb_inv ainv w" "exec_ready w" "same_line s w"
    "ucFunctionCode w = ucRTUBuf s ! 1"
    "serve app user (xFuncHandlers s) (drop 1 (ucRTUBuf s)) (usLength s) (me s) =
      Some (if eException w = MB_EX_NONE then take (unat (usLength w)) (drop 1 (ucRTUBuf w))
            else [ucRTUBuf s ! 1 OR 0x80, exception_code (eException w)], me w)"
    using call_handler_serves[OF assms(1-3)] by blast
  have l: "length (ucRTUBuf s) = 256" "length (ucRTUBuf w) = 256"
    using assms(1) w(2) by (simp_all add: mb_inv_def rtu_inv_def)
  have ex: "poll_execute app user s = poll_reply 1 w"
    using assms(2) l w(1) by (simp add: poll_execute_def exec_ready_def rd_def Let_def)
  have rcv: "ucRcvAddress w \<noteq> MB_ADDRESS_BROADCAST" "ucMBAddress w = ucMBAddress s"
    using assms(4) w(4) by (simp_all add: same_line_def)
  show ?thesis
  proof (cases "eException w = MB_EX_NONE")
    case True
    then have "poll_reply 1 w = map_option (\<lambda>(st, s'). s'\<lparr>eStatus := st\<rparr>)
        (eMBRTUSend (ucMBAddress s) 1 (usLength w) w)"
      using rcv by (cases "eMBRTUSend (ucMBAddress s) 1 (usLength w) w") (auto simp: poll_reply_def)
    moreover have "length (take (unat (usLength w)) (drop 1 (ucRTUBuf w))) = unat (usLength w)"
      "unat (usLength w) \<le> 253" using l w(3) by (auto simp: exec_ready_def)
    ultimately show ?thesis using True w ex by (intro exI[of _ w] exI[of _ "usLength w"] exI) auto
  next
    case False
    let ?r = "[ucRTUBuf s ! 1 OR 0x80, exception_code (eException w)]"
    let ?t = "w\<lparr>ucRTUBuf := (ucRTUBuf w)[1 := ucRTUBuf s ! 1 OR 0x80, 2 := exception_code (eException w)],
        usLength := 2\<rparr>"
    have "poll_reply 1 w = map_option (\<lambda>(st, s'). s'\<lparr>eStatus := st\<rparr>) (eMBRTUSend (ucMBAddress s) 1 2 ?t)"
      using False rcv l w(5) by (cases "eMBRTUSend (ucMBAddress s) 1 2 ?t")
        (auto simp: poll_reply_def mem_simps MB_FUNC_ERROR_def numeral_2_eq_2)
    moreover have "mb_inv ainv ?t" "same_line s ?t"
      using w(2-4) l by (simp_all add: mb_inv_def rtu_inv_def exec_ready_def same_line_def)
    moreover have "take 2 (drop 1 (ucRTUBuf ?t)) = ?r"
    proof -
      obtain x xs where x: "ucRTUBuf w = x # xs" "length xs = 255" using l(2) by (cases "ucRTUBuf w") simp_all
      obtain y ys where y: "xs = y # ys" "length ys = 254" using x(2) by (cases xs) simp_all
      obtain z zs where "ys = z # zs" using y(2) by (cases ys) simp_all
      with x y show ?thesis by (simp add: numeral_2_eq_2)
    qed
    ultimately show ?thesis using False w(6) ex by (intro exI[of _ ?t] exI[of _ "2 :: u16"] exI) auto
  qed
qed

lemma execute_broadcast:
  assumes "mb_inv ainv s" "exec_ready s" "\<not> eventReceived s" "ucRcvAddress s = MB_ADDRESS_BROADCAST"
  shows "\<exists>rep e t. serve app user (xFuncHandlers s) (drop 1 (ucRTUBuf s)) (usLength s) (me s) = Some (rep, e) \<and>
    poll_execute app user s = Some t \<and> mb_inv ainv t \<and> same_line s t \<and> me t = e"
proof -
  obtain w where w: "poll_call_handler app user 1 (s\<lparr>ucFunctionCode := ucRTUBuf s ! 1,
      eException := MB_EX_ILLEGAL_FUNCTION\<rparr>) = Some w" "mb_inv ainv w" "same_line s w"
    "\<exists>rep. serve app user (xFuncHandlers s) (drop 1 (ucRTUBuf s)) (usLength s) (me s) = Some (rep, me w)"
    using call_handler_serves[OF assms(1-3)] by blast
  have l: "length (ucRTUBuf s) = 256" using assms(1) by (simp add: mb_inv_def rtu_inv_def)
  have "poll_execute app user s = poll_reply 1 w"
    using assms(2) l w(1) by (simp add: poll_execute_def exec_ready_def rd_def Let_def)
  also have "\<dots> = Some w" using assms(4) w(3) by (simp add: poll_reply_def same_line_def)
  finally show ?thesis using w by blast
qed

end

text \<open>The status variable has no influence on the transmitter.\<close>

lemma transmit_eStatus:
  "xMBRTUTransmitFSM (s\<lparr>eStatus := x\<rparr>) = map_option (\<lambda>(b, s). (b, s\<lparr>eStatus := x\<rparr>)) (xMBRTUTransmitFSM s)"
  by (cases "eSndState s"; cases "usSndBufferCount s = 0"; cases "rd (ucRTUBuf s) (pucSndBufferCur s)")
    (simp_all add: xMBRTUTransmitFSM_def port_defs)

lemma tx_empty_eStatus: "tx_empty k (s\<lparr>eStatus := x\<rparr>) = map_option (\<lambda>s. s\<lparr>eStatus := x\<rparr>) (tx_empty k s)"
proof (induction k arbitrary: s)
  case (Suc k)
  then show ?case by (cases "xMBRTUTransmitFSM s") (auto simp: transmit_eStatus)
qed simp

text \<open>A frame from the line, up to the poll that executes it.\<close>

definition after_request :: "u8 \<Rightarrow> u8 list \<Rightarrow> 's mb_state \<Rightarrow> 's mb_state" where
  "after_request a pdu s = after_frame (rtu_frame a pdu) s\<lparr>eStatus := MB_ENOERR, eventReceived := False,
     ucRcvAddress := a, ucMBFrame := Some 1, usLength := of_nat (length pdu), event := EV_EXECUTE\<rparr>"

lemma run_request:
  assumes "mb_ready s" "pdu \<noteq> []" "length pdu \<le> 253" "a = ucMBAddress s \<or> a = MB_ADDRESS_BROADCAST"
  shows "mb_run app user (map Rx (rtu_frame a pdu) @ [Timeout, Poll, Poll]) s =
     poll_execute app user (after_request a pdu s)"
proof -
  define bs where "bs = rtu_frame a pdu"
  have bs: "bs \<noteq> []" "length bs \<le> 256" "rtu_decode bs = Some (a, pdu)"
    using assms(2,3) by (auto simp: bs_def rtu_decode_frame simp flip: length_greater_0_conv)
  define t where "t = after_frame bs s\<lparr>eStatus := MB_ENOERR, eventReceived := False, ucRcvAddress := a,
      ucMBFrame := Some 1, usLength := of_nat (length pdu), eventReceived := True, event := EV_EXECUTE\<rparr>"
  have p1: "eMBPoll app user (after_frame bs s) = Some (MB_ENOERR, t)"
    using poll_frame[OF assms(1) bs(1,2)] bs(3) assms(4) by (simp add: t_def)
  have en: "eMBState t = STATE_ENABLED" "eventReceived t" "event t = EV_EXECUTE"
    using assms(1) by (simp_all add: t_def after_frame_def mb_ready_def)
  have "t\<lparr>eStatus := MB_ENOERR, eventReceived := False\<rparr> = after_request a pdu s"
    by (intro mb_state.equality) (simp_all add: t_def after_request_def bs_def after_frame_def)
  then have p2: "mb_exec app user Poll t = poll_execute app user (after_request a pdu s)"
    using en by (simp add: eMBPoll_def port_defs Let_def map_option_bind comp_def)
  have e: "map Rx bs @ [Timeout, Poll, Poll] = (map Rx bs @ [Timeout]) @ [Poll, Poll]" by simp
  show ?thesis
    using run_frame[OF assms(1) bs(1,2)] p1 p2 unfolding bs_def[symmetric] e mb_run_append
    by (cases "poll_execute app user (after_request a pdu s)") auto
qed

lemma after_request_fields:
  assumes "mb_ready s" "pdu \<noteq> []" "length pdu \<le> 253"
  shows "mb_inv ainv s \<Longrightarrow> mb_inv ainv (after_request a pdu s)"
    and "exec_ready (after_request a pdu s)" "\<not> eventReceived (after_request a pdu s)"
    and "drop 1 (ucRTUBuf (after_request a pdu s)) =
      tl (rtu_frame a pdu) @ drop (length pdu + 3) (ucRTUBuf s)"
proof -
  have "unat (of_nat (length pdu) :: u16) = length pdu"
    using assms(3) by (simp add: unat_of_nat take_bit_nat_eq_self)
  moreover have "1 \<le> length pdu" using assms(2) by (simp add: Suc_le_eq)
  ultimately show "exec_ready (after_request a pdu s)"
    using assms(3) by (simp add: after_request_def after_frame_def exec_ready_def)
  have "(of_nat (length pdu + 3) :: u16) \<le> 256"
    using assms(3) by (simp only: word_le_nat_alt unat_of_nat) (simp add: take_bit_nat_eq_self)
  then show "mb_inv ainv (after_request a pdu s)" if "mb_inv ainv s"
    using that assms(3) by (simp add: mb_inv_def rtu_inv_def after_request_def after_frame_def)
qed (simp_all add: after_request_def after_frame_def rtu_frame_def Let_def numeral_3_eq_3)

context modbus_slave
begin

lemma serves_request:
  assumes "mb_ready s" "mb_inv ainv s" "pdu \<noteq> []" "length pdu \<le> 253"
    "ucMBAddress s \<noteq> MB_ADDRESS_BROADCAST"
  shows "\<exists>rep e s'. serve app user (xFuncHandlers s)
      (tl (rtu_frame (ucMBAddress s) pdu) @ drop (length pdu + 3) (ucRTUBuf s)) (of_nat (length pdu)) (me s) =
      Some (rep, e) \<and>
    mb_run app user (map Rx (rtu_frame (ucMBAddress s) pdu) @ [Timeout, Poll, Poll] @
      replicate (length rep + 3) TxEmpty @ [Poll]) s = Some s' \<and>
    uart_sent s' = uart_sent s @ rtu_frame (ucMBAddress s) rep \<and> me s' = e \<and> mb_ready s' \<and> mb_inv ainv s'"
proof -
  let ?a = "ucMBAddress s"
  define r where "r = after_request ?a pdu s"
  note f = after_request_fields[OF assms(1,3,4), where a = ?a, folded r_def]
  have rs: "xFuncHandlers r = xFuncHandlers s" "usLength r = of_nat (length pdu)" "me r = me s"
    "ucMBAddress r = ?a" "ucRcvAddress r = ?a" "uart_sent r = uart_sent s" "eRcvState r = STATE_RX_IDLE"
    "eMBState r = STATE_ENABLED" "eventReceived r = False"
    using assms(1) by (simp_all add: r_def after_request_def after_frame_def mb_ready_def)
  obtain rep e t n where x: "serve app user (xFuncHandlers s) (drop 1 (ucRTUBuf r)) (usLength r) (me s) = Some (rep, e)"
    "poll_execute app user r = map_option (\<lambda>(st, s'). s'\<lparr>eStatus := st\<rparr>) (eMBRTUSend ?a 1 n t)"
    "take (unat n) (drop 1 (ucRTUBuf t)) = rep" "unat n = length rep" "length rep \<le> 253" "mb_inv ainv t"
    "same_line r t" "me t = e"
    using execute_replies[OF f(1)[OF assms(2)] f(2,3)] assms(5) rs by auto
  have t: "length (ucRTUBuf t) = 256" "eRcvState t = STATE_RX_IDLE" "frame_cur t = Some FRAME_RTU"
    "eMBState t = STATE_ENABLED" "uart_sent t = uart_sent s"
    using x(6,7) rs by (simp_all add: mb_inv_def rtu_inv_def same_line_def)
  obtain u where u: "eMBRTUSend ?a 1 n t = Some (MB_ENOERR, u)" "tx_empty (unat n + 3) u = Some (after_send ?a n t)"
    using send_completes[OF t(1,2), of n ?a] x(4,5) by auto
  define v where "v = u\<lparr>eStatus := MB_ENOERR\<rparr>"
  have fu: "frame_cur v = Some FRAME_RTU"
  proof -
    obtain st u' where "eMBRTUSend ?a 1 n t = Some (st, u')" "mb_inv ainv u'"
      using send_mb_inv[OF x(6)] x(4,5) by metis
    with u(1) show ?thesis by (simp add: mb_inv_def v_def)
  qed
  have ru: "mb_run app user (map Rx (rtu_frame ?a pdu) @ [Timeout, Poll, Poll]) s = Some v"
    using run_request[OF assms(1,3,4), of ?a app user] x(2) u(1) by (simp add: r_def v_def)
  define w where "w = after_send ?a n t\<lparr>eStatus := MB_ENOERR\<rparr>"
  have rw: "mb_run app user (replicate (length rep + 3) TxEmpty) v = Some w"
    using mb_run_tx[OF fu, of app user "length rep + 3"] tx_empty_eStatus[where k = "length rep + 3" and s = u and x = MB_ENOERR] u(2)
    by (simp only: v_def w_def x(4)[symmetric]) simp
  have iw: "mb_inv ainv w"
    using x(4-6) by (simp add: w_def mb_inv_def rtu_inv_def after_send_def Let_def exec_ready_def)
  have w: "eMBState w = STATE_ENABLED" "eventReceived w" "event w = EV_FRAME_SENT" "eStatus w = MB_ENOERR"
    "eRcvState w = STATE_RX_IDLE" "eSndState w = STATE_TX_IDLE" "me w = e"
    "uart_sent w = uart_sent s @ rtu_frame ?a rep"
    using t x(3,8) by (simp_all add: w_def after_send_def Let_def)
  let ?z = "w\<lparr>eStatus := MB_ENOERR, eventReceived := False\<rparr>"
  have rz: "mb_run app user [Poll] w = Some ?z"
    using w(1-3) by (simp add: eMBPoll_def port_defs Let_def)
  have z: "mb_inv ainv ?z" "mb_ready ?z"
    using iw w by (simp_all add: mb_inv_def rtu_inv_def mb_ready_def)
  have run: "mb_run app user (map Rx (rtu_frame ?a pdu) @ [Timeout, Poll, Poll] @
      replicate (length rep + 3) TxEmpty @ [Poll]) s = Some ?z"
    using ru rw rz mb_run_append[of app user "map Rx (rtu_frame ?a pdu) @ [Timeout, Poll, Poll]"
        "replicate (length rep + 3) TxEmpty @ [Poll]" s]
    by (simp only: append.assoc mb_run_append[of _ _ "replicate _ _"] bind.simps)
  have "serve app user (xFuncHandlers s) (tl (rtu_frame ?a pdu) @ drop (length pdu + 3) (ucRTUBuf s))
      (of_nat (length pdu)) (me s) = Some (rep, e)"
    using x(1) f(4) rs(2) by simp
  with run z w(7,8) show ?thesis by (intro exI[of _ rep] exI[of _ e] exI[of _ ?z]) simp
qed

lemma serves_broadcast:
  assumes "mb_ready s" "mb_inv ainv s" "pdu \<noteq> []" "length pdu \<le> 253"
  shows "\<exists>rep e s'. serve app user (xFuncHandlers s)
      (tl (rtu_frame 0 pdu) @ drop (length pdu + 3) (ucRTUBuf s)) (of_nat (length pdu)) (me s) = Some (rep, e) \<and>
    mb_run app user (map Rx (rtu_frame 0 pdu) @ [Timeout, Poll, Poll]) s = Some s' \<and>
    uart_sent s' = uart_sent s \<and> me s' = e \<and> mb_ready s' \<and> mb_inv ainv s'"
proof -
  define r where "r = after_request 0 pdu s"
  note f = after_request_fields[OF assms(1,3,4), where a = 0, folded r_def]
  have rs: "xFuncHandlers r = xFuncHandlers s" "usLength r = of_nat (length pdu)" "me r = me s"
    "ucRcvAddress r = 0" "uart_sent r = uart_sent s" "eRcvState r = STATE_RX_IDLE" "eSndState r = STATE_TX_IDLE"
    "eMBState r = STATE_ENABLED" "eventReceived r = False"
    using assms(1) by (simp_all add: r_def after_request_def after_frame_def mb_ready_def)
  obtain rep e t where x: "serve app user (xFuncHandlers s) (drop 1 (ucRTUBuf r)) (usLength r) (me s) = Some (rep, e)"
    "poll_execute app user r = Some t" "mb_inv ainv t" "same_line r t" "me t = e"
    using execute_broadcast[OF f(1)[OF assms(2)] f(2,3)] rs by (auto simp: MB_ADDRESS_BROADCAST_def)
  have "mb_run app user (map Rx (rtu_frame 0 pdu) @ [Timeout, Poll, Poll]) s = Some t"
    using run_request[OF assms(1,3,4), of 0 app user] x(2) by (simp add: r_def MB_ADDRESS_BROADCAST_def)
  moreover have "mb_ready t" "uart_sent t = uart_sent s"
    using x(3,4) rs by (simp_all add: mb_ready_def same_line_def mb_inv_def)
  moreover have "serve app user (xFuncHandlers s) (tl (rtu_frame 0 pdu) @ drop (length pdu + 3) (ucRTUBuf s))
      (of_nat (length pdu)) (me s) = Some (rep, e)"
    using x(1) f(4) rs(2) by simp
  ultimately show ?thesis using x(3,5) by blast
qed

end

section \<open>The configuration of the repository\<close>

text \<open>No handler of the application's own is registered.\<close>

definition no_user_handler :: "nat \<Rightarrow> 's mb_handler" where
  "no_user_handler i p n e = Some (MB_EX_ILLEGAL_FUNCTION, n, p, e)"

interpretation slave: modbus_slave "port_app read_list rw_list" "port_inv ainv read_list rw_list" no_user_handler
  for read_list rw_list ainv
  by unfold_locales (simp add: handler_ok_def no_user_handler_def)

section \<open>Properties\<close>

text \<open>The static state before \<open>eMBInit\<close>.\<close>

definition mb_boot :: "'s mb_env \<Rightarrow> 's mb_state" where
  "mb_boot e = \<lparr>event = EV_READY, eventReceived = False, modbufUartRxBuff = 0, modbufUartTxBuff = 0,
     uart_rx_armed = False, uart_txe_irq = False, uart_sent = [], tim_running = False, tim_reload = 0,
     eSndState = STATE_TX_IDLE, eRcvState = STATE_RX_INIT, ucRTUBuf = replicate 256 0,
     pucSndBufferCur = 0, usSndBufferCount = 0, usRcvBufferPos = 0,
     ucMBAddress = 0, eMBCurrentMode = MB_RTU, eMBState = STATE_NOT_INITIALIZED, frame_cur = None,
     xFuncHandlers = xFuncHandlers_init, eStatus = MB_ENOERR, ucMBFrame = None, ucRcvAddress = 0,
     ucFunctionCode = 0, usLength = 0, eException = MB_EX_NONE, me = e\<rparr>"

lemma table_init_ok: "table_ok xFuncHandlers_init" "length xFuncHandlers_init = MB_FUNC_HANDLERS_MAX"
  by (auto simp: table_ok_def xFuncHandlers_init_def list_all_iff MB_FUNC_HANDLERS_MAX_def)

lemma init_ok:
  assumes "1 \<le> a" "a \<le> 247" "0 < baud" "env_ok ainv e"
  shows "\<exists>s. eMBInit MB_RTU a pt baud par (mb_boot e) = Some (MB_ENOERR, s) \<and> mb_inv ainv s \<and>
    eMBState s = STATE_DISABLED \<and> ucMBAddress s = a \<and> me s = e \<and> uart_sent s = [] \<and>
    xFuncHandlers s = xFuncHandlers_init \<and> ucRTUBuf s = replicate 256 0"
proof -
  have a: "\<not> (a = 0 \<or> a < 1 \<or> 247 < a)" using assms(1,2) by auto
  obtain t where "t35_50us baud = Some t"
  proof (cases "19200 < baud")
    case False
    then have "unat baud \<le> 19200" by (simp add: word_less_nat_alt)
    then have "unat (2 * baud) = 2 * unat baud" by (simp add: unat_word_ariths)
    then have "2 * baud \<noteq> 0" using assms(3) by (metis unat_0 mult_eq_0_iff unat_gt_0 neq0_conv word_gt_0 zero_neq_numeral)
    with False that show ?thesis by (simp add: t35_50us_def)
  qed (simp add: t35_50us_def)
  then show ?thesis
    using a assms(4) by (simp add: eMBInit_def eMBRTUInit_def port_defs mb_boot_def mb_inv_def rtu_inv_def mb_consts
        table_init_ok Let_def)
qed

text \<open>
  C5: the protocol stack never leaves its memory: once \<open>eMBInit\<close> has succeeded, whatever bytes
  arrive, in whatever order the interrupts, the polls and the application's calls come, no
  operation reads or writes outside a buffer or calls a null pointer, provided the register
  callbacks and the application's own handlers keep their contract; and the invariant of the
  stack holds throughout.
\<close>

theorem modbus_memory_safe:
  assumes "modbus_slave app ainv user" and "env_ok ainv e" and "1 \<le> a" and "a \<le> 247" and "0 < baud"
  shows "\<exists>s0. eMBInit MB_RTU a pt baud par (mb_boot e) = Some (MB_ENOERR, s0) \<and>
    (\<forall>steps. \<exists>s. mb_run app user steps s0 = Some s \<and> mb_inv ainv s)"
proof -
  obtain s0 where "eMBInit MB_RTU a pt baud par (mb_boot e) = Some (MB_ENOERR, s0)" "mb_inv ainv s0"
    using init_ok[OF assms(3-5,2), of pt par] by blast
  then show ?thesis using modbus_slave.run_inv[OF assms(1)] by (intro exI[of _ s0]) simp
qed

text \<open>
  C6: a complete exchange: a request frame for the slave's address, with a PDU of up to 253 bytes, that comes in byte by byte,
  followed by the timeout, is answered, after two polls, with exactly one frame on the line: the
  slave's address, the PDU the registered handler (or the exception for an unknown function or a
  refused request) gives for it, and the CRC. The handler's effect on the application is kept,
  and the stack is ready for the next request.
\<close>

theorem modbus_answers_request:
  assumes "modbus_slave app ainv user" and "mb_ready s" and "mb_inv ainv s" and "a = ucMBAddress s" and "a \<noteq> 0"
    and "pdu \<noteq> []" and "length pdu \<le> 253"
  shows "\<exists>rep e s'. serve app user (xFuncHandlers s)
      (tl (rtu_frame a pdu) @ drop (length pdu + 3) (ucRTUBuf s)) (of_nat (length pdu)) (me s) = Some (rep, e) \<and>
    mb_run app user (map Rx (rtu_frame a pdu) @ [Timeout, Poll, Poll] @
      replicate (length rep + 3) TxEmpty @ [Poll]) s = Some s' \<and>
    uart_sent s' = uart_sent s @ rtu_frame a rep \<and> me s' = e \<and> mb_ready s' \<and> mb_inv ainv s'"
  using modbus_slave.serves_request[OF assms(1-3,6,7)] assms(4,5) by (simp add: MB_ADDRESS_BROADCAST_def)

text \<open>
  a broadcast request is executed like any other, with the same effect on the application,
  but nothing is sent.
\<close>

lemma modbus_broadcast_silent:
  assumes "modbus_slave app ainv user" and "mb_ready s" and "mb_inv ainv s" and "pdu \<noteq> []" and "length pdu \<le> 253"
  shows "\<exists>rep e s'. serve app user (xFuncHandlers s)
      (tl (rtu_frame 0 pdu) @ drop (length pdu + 3) (ucRTUBuf s)) (of_nat (length pdu)) (me s) = Some (rep, e) \<and>
    mb_run app user (map Rx (rtu_frame 0 pdu) @ [Timeout, Poll, Poll]) s = Some s' \<and>
    uart_sent s' = uart_sent s \<and> me s' = e \<and> mb_ready s' \<and> mb_inv ainv s'"
  by (rule modbus_slave.serves_broadcast[OF assms])

lemma short_ignored:
  assumes "mb_ready s" and "bs \<noteq> []" and "length bs \<le> 256"
    and "case rtu_decode bs of None \<Rightarrow> True | Some (a, pdu) \<Rightarrow> a \<noteq> ucMBAddress s \<and> a \<noteq> 0"
  shows "\<exists>s'. mb_run app user (map Rx bs @ [Timeout, Poll]) s = Some s' \<and> uart_sent s' = uart_sent s \<and>
    me s' = me s \<and> mb_ready s'"
proof -
  have e: "map Rx bs @ [Timeout, Poll] = (map Rx bs @ [Timeout]) @ [Poll]" by simp
  obtain t where t: "eMBPoll app user (after_frame bs s) = Some (MB_ENOERR, t)"
    "uart_sent t = uart_sent s" "me t = me s" "mb_ready t"
  proof -
    have "(of_nat (length bs) :: u16) \<le> 256"
      using assms(3) by (simp add: word_le_nat_alt unat_of_nat take_bit_nat_eq_self)
    with assms(1,3) have r: "mb_ready (after_frame bs s\<lparr>eventReceived := False\<rparr>)" "uart_sent (after_frame bs s) = uart_sent s"
      "me (after_frame bs s) = me s"
      by (simp_all add: mb_ready_def rtu_inv_def after_frame_def)
    show ?thesis
    proof (cases "rtu_decode bs")
      case None
      then have "eMBPoll app user (after_frame bs s) = Some (MB_ENOERR,
          after_frame bs s\<lparr>eStatus := MB_EIO, eventReceived := False\<rparr>)"
        using poll_frame[OF assms(1-3), of app user] by simp
      from that[OF this] r show ?thesis by (simp add: mb_ready_def rtu_inv_def)
    next
      case (Some ap)
      obtain a pdu where ap: "ap = (a, pdu)" by (cases ap)
      have "eMBPoll app user (after_frame bs s) = Some (MB_ENOERR, after_frame bs s\<lparr>eStatus := MB_ENOERR,
          eventReceived := False, ucRcvAddress := a, ucMBFrame := Some 1, usLength := of_nat (length pdu)\<rparr>)"
        using poll_frame[OF assms(1-3), of app user] assms(4) by (simp add: Some ap MB_ADDRESS_BROADCAST_def)
      from that[OF this] r show ?thesis by (simp add: mb_ready_def rtu_inv_def)
    qed
  qed
  have "mb_run app user (map Rx bs @ [Timeout, Poll]) s = Some t"
    unfolding e mb_run_append[of _ _ "map Rx bs @ [Timeout]"] run_frame[OF assms(1-3)] using t(1) by simp
  with t(2-4) show ?thesis by blast
qed

lemma long_ignored:
  assumes "mb_ready s" and "256 < length bs"
  shows "\<exists>s'. mb_run app user (map Rx bs @ [Timeout, Poll]) s = Some s' \<and> uart_sent s' = uart_sent s \<and>
    me s' = me s \<and> mb_ready s'"
proof -
  have r: "length (ucRTUBuf s) = 256" "frame_cur s = Some FRAME_RTU" "eRcvState s = STATE_RX_IDLE"
    using assms(1) by (simp_all add: mb_ready_def rtu_inv_def)
  let ?r = "s\<lparr>modbufUartRxBuff := last bs, ucRTUBuf := take 256 bs, usRcvBufferPos := 256,
     eRcvState := STATE_RX_ERROR, tim_running := True\<rparr>"
  let ?t = "?r\<lparr>tim_running := False, eRcvState := STATE_RX_IDLE\<rparr>"
  have rx: "mb_run app user (map Rx bs) s = Some ?r" using rx_bytes_long[OF r(1,3) assms(2)] r(2) by (simp add: mb_run_rx)
  have t: "mb_exec app user Timeout ?r = Some ?t" using r(2) by (simp add: xMBRTUTimerT35Expired_def port_defs)
  have p: "mb_exec app user Poll ?t = Some (?t\<lparr>eStatus := MB_ENOERR\<rparr>)"
    using assms(1) by (simp add: eMBPoll_def port_defs Let_def mb_ready_def)
  have "mb_run app user (map Rx bs @ [Timeout, Poll]) s = Some (?t\<lparr>eStatus := MB_ENOERR\<rparr>)"
    using t p by (simp only: mb_run_append rx bind.simps mb_run.simps)
  then show ?thesis using assms by (simp add: mb_ready_def rtu_inv_def)
qed

text \<open>
  C34: what is not a request to this slave has no effect: any sequence of bytes that is no frame of
  the protocol (too short, with a wrong CRC, or longer than 256 bytes), and a frame for another
  slave, lead to no reply, do not touch the application, and leave the stack ready.
\<close>

theorem modbus_ignores_others:
  assumes "mb_ready s" and "bs \<noteq> []"
    and "length bs > 256 \<or> (case rtu_decode bs of None \<Rightarrow> True | Some (a, pdu) \<Rightarrow> a \<noteq> ucMBAddress s \<and> a \<noteq> 0)"
  shows "\<exists>s'. mb_run app user (map Rx bs @ [Timeout, Poll]) s = Some s' \<and> uart_sent s' = uart_sent s \<and>
    me s' = me s \<and> mb_ready s'"
proof (cases "length bs \<le> 256")
  case True
  then show ?thesis using short_ignored[OF assms(1,2), of app user] assms(3) by auto
next
  case False
  then show ?thesis using long_ignored[OF assms(1)] by simp
qed

lemma run_init_bytes:
  assumes "eRcvState s = STATE_RX_INIT" "tim_running s"
  shows "rx_bytes bs s = Some (s\<lparr>modbufUartRxBuff := last (modbufUartRxBuff s # bs)\<rparr>)"
  using assms by (induction bs arbitrary: s) (simp_all add: uart_rx_def xMBRTUReceiveFSM_def port_defs)

lemma startup:
  assumes "mb_inv ainv s" "eMBState s = STATE_DISABLED" "eSndState s = STATE_TX_IDLE"
  shows "\<exists>s'. mb_run app user (Enable # map Rx bs @ [Timeout, Poll]) s = Some s' \<and> mb_ready s' \<and>
    me s' = me s \<and> uart_sent s' = uart_sent s \<and> ucMBAddress s' = ucMBAddress s \<and>
    xFuncHandlers s' = xFuncHandlers s \<and> ucRTUBuf s' = ucRTUBuf s \<and> mb_inv ainv s'"
proof -
  let ?e = "s\<lparr>eRcvState := STATE_RX_INIT, uart_rx_armed := True, tim_running := True, eMBState := STATE_ENABLED\<rparr>"
  let ?b = "?e\<lparr>modbufUartRxBuff := last (modbufUartRxBuff s # bs)\<rparr>"
  let ?t = "?b\<lparr>eventReceived := True, event := EV_READY, tim_running := False, eRcvState := STATE_RX_IDLE\<rparr>"
  let ?p = "?t\<lparr>eStatus := MB_ENOERR, eventReceived := False\<rparr>"
  have f: "frame_cur s = Some FRAME_RTU" using assms(1) by (simp add: mb_inv_def)
  have en: "mb_exec app user Enable s = Some ?e"
    using assms(2) f by (simp add: eMBEnable_def eMBRTUStart_def port_defs Let_def)
  have rx: "mb_run app user (map Rx bs) ?e = Some ?b" using f by (simp add: mb_run_rx run_init_bytes)
  have t: "mb_exec app user Timeout ?b = Some ?t" using f by (simp add: xMBRTUTimerT35Expired_def port_defs)
  have p: "mb_exec app user Poll ?t = Some ?p" by (simp add: eMBPoll_def port_defs Let_def)
  have "mb_run app user (Enable # map Rx bs @ [Timeout, Poll]) s = Some ?p"
    using rx t p by (simp only: mb_run.simps en bind.simps mb_run_append[of _ _ "map Rx bs"])
  then show ?thesis
    using assms f by (intro exI[of _ ?p]) (simp add: mb_ready_def mb_inv_def rtu_inv_def exec_ready_def)
qed

text \<open>
  start-up: after \<open>eMBInit\<close> and \<open>eMBEnable\<close> the receiver ignores whatever is on the line until
  the first silence of 3.5 characters; then the stack is ready, has sent nothing and has not
  touched the application.
\<close>

lemma modbus_startup:
  assumes "env_ok ainv e" and "1 \<le> a" and "a \<le> 247" and "0 < baud"
  shows "\<exists>s0 s. eMBInit MB_RTU a pt baud par (mb_boot e) = Some (MB_ENOERR, s0) \<and>
    mb_run app user (Enable # map Rx bs @ [Timeout, Poll]) s0 = Some s \<and>
    mb_ready s \<and> mb_inv ainv s \<and> ucMBAddress s = a \<and> uart_sent s = [] \<and> me s = e"
proof -
  obtain s0 where s0: "eMBInit MB_RTU a pt baud par (mb_boot e) = Some (MB_ENOERR, s0)" "mb_inv ainv s0"
    "eMBState s0 = STATE_DISABLED" "ucMBAddress s0 = a" "me s0 = e" "uart_sent s0 = []"
    using init_ok[OF assms(2-4,1), of pt par] by blast
  have "eSndState s0 = STATE_TX_IDLE"
    using s0(1) by (auto simp: eMBInit_def eMBRTUInit_def port_defs mb_boot_def Let_def bind_eq_Some_conv split: if_splits)
  with startup[OF s0(2,3)] s0 show ?thesis by metis
qed

text \<open>
  the life cycle: only a disabled stack can be enabled or closed, only an enabled one is
  stopped by disabling it, and before the initialisation every operation is refused. Enabling
  arms the receiver and starts the silence timer; disabling turns both off. A refused call
  changes nothing.
\<close>

lemma modbus_lifecycle:
  assumes "frame_cur s = Some FRAME_RTU"
  shows "case eMBState s of
     STATE_DISABLED \<Rightarrow> eMBClose s = (MB_ENOERR, s) \<and> eMBDisable s = Some (MB_ENOERR, s) \<and>
       (\<exists>s'. eMBEnable s = Some (MB_ENOERR, s') \<and> eMBState s' = STATE_ENABLED \<and> eRcvState s' = STATE_RX_INIT \<and>
          uart_rx_armed s' \<and> tim_running s' \<and> same_core (s\<lparr>eMBState := STATE_ENABLED\<rparr>) s')
   | STATE_ENABLED \<Rightarrow> eMBClose s = (MB_EILLSTATE, s) \<and> eMBEnable s = Some (MB_EILLSTATE, s) \<and>
       (\<exists>s'. eMBDisable s = Some (MB_ENOERR, s') \<and> eMBState s' = STATE_DISABLED \<and> \<not> uart_rx_armed s' \<and>
          \<not> tim_running s' \<and> same_core (s\<lparr>eMBState := STATE_DISABLED\<rparr>) s')
   | STATE_NOT_INITIALIZED \<Rightarrow> eMBClose s = (MB_EILLSTATE, s) \<and> eMBEnable s = Some (MB_EILLSTATE, s) \<and>
       eMBDisable s = Some (MB_EILLSTATE, s) \<and> map_option fst (eMBPoll app user s) = Some MB_EILLSTATE"
  using assms by (cases "eMBState s")
    (simp_all add: eMBClose_def eMBEnable_def eMBDisable_def eMBRTUStart_def eMBRTUStop_def eMBPoll_def port_defs
      same_core_def Let_def)

lemma scan_skip: "list_all (\<lambda>(c, h). c \<noteq> 0) fs \<Longrightarrow> c' \<notin> fst ` set fs \<Longrightarrow> scan_handlers (fs @ hs) c' = scan_handlers hs c'"
  by (induction fs) (auto split: if_splits)

lemma scan_found: "list_all (\<lambda>(c, h). c \<noteq> 0) fs \<Longrightarrow> c' \<in> fst ` set fs \<Longrightarrow> scan_handlers (fs @ hs) c' = scan_handlers fs c'"
  by (induction fs) (force split: if_splits)+

lemma scan_zero: "scan_handlers ((0, h) # hs) c = None"
  by simp

text \<open>
  registering a handler for a function code that has none, in a table with a free entry,
  makes requests with this code reach it, and no other function code is affected.
\<close>

lemma modbus_register_handler:
  assumes "xFuncHandlers s = fs @ (0, None) # rest" and "list_all (\<lambda>(c, h). c \<noteq> 0 \<and> h \<noteq> None \<and> h \<noteq> Some fn) fs"
    and "0 < c" and "c \<le> 127" and "c \<notin> fst ` set fs" and "rest = replicate k (0, None)"
  shows "\<exists>s'. eMBRegisterCB c (Some fn) s = (MB_ENOERR, s') \<and>
    (\<forall>c'. scan_handlers (xFuncHandlers s') c' = (if c' = c then Some (Some fn) else scan_handlers (xFuncHandlers s) c'))"
proof -
  have add: "handler_add c fn (fs @ (0, None) # rest) = Some (fs @ (c, Some fn) # rest)"
    using assms(2) by (induction fs) (auto split: if_splits)
  have z: "list_all (\<lambda>(c, h). c \<noteq> 0) fs" using assms(2) by (induction fs) auto
  have rest: "scan_handlers rest c' = None" for c' unfolding assms(6) by (cases k) simp_all
  have "scan_handlers (fs @ (c, Some fn) # rest) c' =
      (if c' = c then Some (Some fn) else scan_handlers (fs @ (0, None) # rest) c')" for c'
  proof (cases "c' \<in> fst ` set fs")
    case True
    with assms(5) scan_found[OF z True] show ?thesis by auto
  next
    case False
    with assms(3) rest scan_skip[OF z False] show ?thesis by (auto simp: word_gt_0)
  qed
  with add assms(1,3,4) show ?thesis by (simp add: eMBRegisterCB_def)
qed

text \<open>
  removing the handler of a function code disables every function whose entry comes later
  in the table as well, since the scan for a handler ends at the first free entry. Removing the
  first entry of the initial table leaves the slave without any function.
\<close>

lemma modbus_remove_hides_later:
  assumes "xFuncHandlers s = fs @ (c, h) # rest" and "list_all (\<lambda>(c, h). c \<noteq> 0) fs" and "c \<notin> fst ` set fs"
    and "0 < c" and "c \<le> 127"
  shows "\<exists>s'. eMBRegisterCB c None s = (MB_ENOERR, s') \<and>
    (\<forall>c'. scan_handlers (xFuncHandlers s') c' = scan_handlers fs c')"
proof -
  have r: "handler_remove c (fs @ (c, h) # rest) = fs @ (0, None) # rest"
    using assms(3) by (induction fs) auto
  have "scan_handlers (fs @ (0, None) # rest) c' = scan_handlers fs c'" for c'
  proof (cases "c' \<in> fst ` set fs")
    case False
    then have "scan_handlers fs c' = None" using assms(2) scan_skip[OF assms(2) False, of "[]"] by simp
    with scan_skip[OF assms(2) False] show ?thesis by simp
  qed (simp add: scan_found[OF assms(2)])
  with r assms(1,4,5) show ?thesis by (simp add: eMBRegisterCB_def)
qed

section \<open>Witnesses\<close>

definition example_env :: "u8 list mb_env" where
  "example_env = \<lparr>ucMBSlaveID = replicate 32 0, usMBSlaveIDLen = 0, me_app = [1, 2, 3, 4]\<rparr>"

abbreviation example_app :: "u8 list mb_app" where
  "example_app \<equiv> port_app example_regs example_regs"

abbreviation example_inv :: "u8 list \<Rightarrow> bool" where
  "example_inv \<equiv> port_inv (\<lambda>mem. length mem = 4) example_regs example_regs"

lemma example_env_ok: "env_ok example_inv example_env"
proof -
  have "get_safe (\<lambda>mem. length mem = 4) example_regs x" for x
    by (auto simp: get_safe_def example_regs_def MB_RW_REG_def reg_covers_def motor_holding_reg_example_read_def)
  moreover have "set_safe (\<lambda>mem. length mem = 4) example_regs"
    by (auto simp: set_safe_def example_regs_def MB_RW_REG_def motor_holding_reg_example_write_def rd_def wr_def)
  ultimately show ?thesis
    by (simp add: env_ok_def slaveid_wf_def example_env_def MB_FUNC_OTHER_REP_SLAVEID_BUF_def port_inv_def)
qed

lemma example_slave: "modbus_slave example_app example_inv no_user_handler"
  by (rule slave.modbus_slave_axioms)

theorem modbus_memory_safe_witness:
  "\<exists>s0. eMBInit MB_RTU 10 0 9600 () (mb_boot example_env) = Some (MB_ENOERR, s0) \<and>
    (\<forall>steps. \<exists>s. mb_run example_app no_user_handler steps s0 = Some s \<and> mb_inv example_inv s)"
  using modbus_memory_safe[OF example_slave example_env_ok, of 10 9600 0 "()"] by simp

lemma example_ready:
  obtains s where "mb_ready s" "mb_inv example_inv s" "ucMBAddress s = 10" "uart_sent s = []"
    "xFuncHandlers s = xFuncHandlers_init" "me s = example_env" "ucRTUBuf s = replicate 256 0"
proof -
  obtain s0 where s0: "eMBInit MB_RTU 10 0 9600 () (mb_boot example_env) = Some (MB_ENOERR, s0)" "mb_inv example_inv s0"
    "eMBState s0 = STATE_DISABLED" "ucMBAddress s0 = 10" "me s0 = example_env" "uart_sent s0 = []"
    "xFuncHandlers s0 = xFuncHandlers_init" "ucRTUBuf s0 = replicate 256 0"
    using init_ok[OF _ _ _ example_env_ok, of 10 9600 0 "()"] by auto
  have "eSndState s0 = STATE_TX_IDLE"
    using s0(1) by (auto simp: eMBInit_def eMBRTUInit_def port_defs mb_boot_def Let_def bind_eq_Some_conv split: if_splits)
  from startup[OF s0(2,3) this] s0 that show ?thesis by metis
qed

theorem modbus_answers_request_witness:
  "\<exists>s rep s'. mb_ready s \<and> mb_run example_app no_user_handler (map Rx (rtu_frame 10 [3, 0x20, 0, 0, 2]) @
      [Timeout, Poll, Poll] @ replicate (length rep + 3) TxEmpty @ [Poll]) s = Some s' \<and>
    uart_sent s' = rtu_frame 10 rep"
proof -
  obtain s where s: "mb_ready s" "mb_inv example_inv s" "ucMBAddress s = 10" "uart_sent s = []"
    by (rule example_ready)
  from modbus_answers_request[OF example_slave s(1,2), of 10 "[3, 0x20, 0, 0, 2]"] s show ?thesis by auto
qed

theorem modbus_ignores_others_witness:
  "\<exists>s s'. mb_run example_app no_user_handler (map Rx (rtu_frame 11 [3, 0x20, 0, 0, 2]) @ [Timeout, Poll]) s = Some s' \<and>
    uart_sent s' = []"
proof -
  obtain s where s: "mb_ready s" "mb_inv example_inv s" "ucMBAddress s = 10" "uart_sent s = []"
    by (rule example_ready)
  have ne: "rtu_frame 11 [3, 0x20, 0, 0, 2] \<noteq> []" by (simp add: rtu_frame_def Let_def)
  from modbus_ignores_others[OF s(1) ne, of example_app no_user_handler] s show ?thesis
    by (auto simp: rtu_decode_frame)
qed

end
