(* ===== verification/Multi_Button.thy ===== *)
theory Multi_Button
  imports C_Prelude
begin

text \<open>
  The button driver (\<^verbatim>\<open>MultiButton/multi_button.c\<close>): the state machine of one button with its
  debouncing, called every 5 ms, and the linked list of the started buttons. The bit fields of
  the struct keep their widths. A callback is recorded as a call: \<open>calls\<close> is the list of the
  events whose callback ran, and a callback does not write to the struct; the level a pin function answers is an argument of the handler.
\<close>

section \<open>The button\<close>

definition TICKS_INTERVAL :: u16 where "TICKS_INTERVAL = 5"
definition DEBOUNCE_TICKS :: "3 word" where "DEBOUNCE_TICKS = 3"
definition SHORT_TICKS :: u16 where "SHORT_TICKS = 300 div TICKS_INTERVAL"
definition CONTINUE_TRIGGER :: u8 where "CONTINUE_TRIGGER = 1"

lemmas btn_consts = TICKS_INTERVAL_def DEBOUNCE_TICKS_def SHORT_TICKS_def CONTINUE_TRIGGER_def

datatype PressEvent = PRESS_DOWN | PRESS_UP | PRESS_REPEAT | SINGLE_CLICK | DOUBLE_CLICK
  | LONG_PRESS_START | LONG_PRESS_HOLD | number_of_event | NONE_PRESS | PRESS_EVENT_MAX

text \<open>Which of the two pin functions is set; the level itself comes from outside.\<close>

datatype pin_fn = NoPin | PinLevel | PinLevelExt

record Button =
  ticks :: u16
  repeat :: "4 word"
  event :: PressEvent
  state :: "3 word"
  debounce_cnt :: "3 word"
  active_level :: "1 word"
  button_level :: "1 word"
  pin :: pin_fn
  cb :: "PressEvent \<Rightarrow> bool"
  period :: u16
  long_press_start_flag :: u8
  calls :: "PressEvent list"

definition button_zero :: Button where
  "button_zero = \<lparr>ticks = 0, repeat = 0, event = PRESS_DOWN, state = 0, debounce_cnt = 0, active_level = 0,
     button_level = 0, pin = NoPin, cb = (\<lambda>_. False), period = 0, long_press_start_flag = 0, calls = []\<rparr>"

definition button_init :: "u8 \<Rightarrow> u8 \<Rightarrow> Button" where
  "button_init pin_level active =
     button_zero\<lparr>event := NONE_PRESS, pin := PinLevel, button_level := ucast pin_level, active_level := ucast active\<rparr>"

definition button_init_ext :: "u8 \<Rightarrow> Button" where
  "button_init_ext active = button_zero\<lparr>event := NONE_PRESS, pin := PinLevelExt, active_level := ucast active\<rparr>"

text \<open>The array of callbacks has \<open>number_of_event\<close> cells; storing behind it is \<open>None\<close>.\<close>

definition button_attach :: "PressEvent \<Rightarrow> bool \<Rightarrow> Button \<Rightarrow> Button option" where
  "button_attach ev fn b =
     (if ev \<in> {number_of_event, NONE_PRESS, PRESS_EVENT_MAX} then None else Some (b\<lparr>cb := (cb b)(ev := fn)\<rparr>))"

definition get_button_event :: "Button \<Rightarrow> PressEvent" where
  "get_button_event b = event b"

section \<open>The handler\<close>

definition EVENT_CB :: "PressEvent \<Rightarrow> Button \<Rightarrow> Button" where
  "EVENT_CB ev b = (if cb b ev then b\<lparr>calls := calls b @ [ev]\<rparr> else b)"

text \<open>The level just read against the one-bit level stored.\<close>

definition debounce :: "u8 \<Rightarrow> Button \<Rightarrow> Button" where
  "debounce read_gpio_level b =
     (if read_gpio_level \<noteq> ucast (button_level b) then
        let b = b\<lparr>debounce_cnt := debounce_cnt b + 1\<rparr>
        in if debounce_cnt b \<ge> DEBOUNCE_TICKS
           then b\<lparr>button_level := ucast read_gpio_level, debounce_cnt := 0\<rparr> else b
      else b\<lparr>debounce_cnt := 0\<rparr>)"

definition button_fsm :: "Button \<Rightarrow> Button" where
  "button_fsm b =
     (let long_ticks = period b div TICKS_INTERVAL; pressed = (button_level b = active_level b)
      in if state b = 0 then
           if pressed then (EVENT_CB PRESS_DOWN (b\<lparr>event := PRESS_DOWN\<rparr>))\<lparr>ticks := 0, repeat := 1, state := 1\<rparr>
           else b\<lparr>event := NONE_PRESS\<rparr>
         else if state b = 1 then
           if \<not> pressed then
             let b = (EVENT_CB PRESS_UP (b\<lparr>event := PRESS_UP\<rparr>))\<lparr>ticks := 0\<rparr>
             in if long_press_start_flag b = CONTINUE_TRIGGER then b\<lparr>state := 0\<rparr> else b\<lparr>state := 2\<rparr>
           else if ticks b > long_ticks then
             let b = EVENT_CB LONG_PRESS_START (b\<lparr>event := LONG_PRESS_START\<rparr>)
             in if event b = LONG_PRESS_START \<and> long_press_start_flag b = CONTINUE_TRIGGER
                then b\<lparr>state := 6\<rparr> else b\<lparr>state := 5\<rparr>
           else b
         else if state b = 2 then
           if pressed then
             let b = EVENT_CB PRESS_DOWN (b\<lparr>event := PRESS_DOWN\<rparr>);
                 b = b\<lparr>repeat := repeat b + 1\<rparr>;
                 b = EVENT_CB PRESS_REPEAT b
             in b\<lparr>ticks := 0, state := 3\<rparr>
           else if ticks b > SHORT_TICKS then
             let b = (if repeat b = 1 then EVENT_CB SINGLE_CLICK (b\<lparr>event := SINGLE_CLICK\<rparr>)
                      else if repeat b = 2 then EVENT_CB DOUBLE_CLICK (b\<lparr>event := DOUBLE_CLICK\<rparr>) else b)
             in b\<lparr>state := 0\<rparr>
           else b
         else if state b = 3 then
           if \<not> pressed then
             let b = EVENT_CB PRESS_UP (b\<lparr>event := PRESS_UP\<rparr>)
             in if ticks b < SHORT_TICKS then b\<lparr>ticks := 0, state := 2\<rparr> else b\<lparr>state := 0\<rparr>
           else b
         else if state b = 5 then
           if pressed then EVENT_CB LONG_PRESS_HOLD (b\<lparr>event := LONG_PRESS_HOLD\<rparr>)
           else (EVENT_CB PRESS_UP (b\<lparr>event := PRESS_UP\<rparr>))\<lparr>state := 0\<rparr>
         else if state b = 6 then
           if pressed then b\<lparr>ticks := 0, state := 1\<rparr>
           else (EVENT_CB PRESS_UP (b\<lparr>event := PRESS_UP\<rparr>))\<lparr>state := 0\<rparr>
         else b)"

definition button_handler :: "u8 \<Rightarrow> Button \<Rightarrow> Button" where
  "button_handler level b =
     (let read_gpio_level = (if pin b = NoPin then 0 else level);
          b = (if state b > 0 then b\<lparr>ticks := ticks b + 1\<rparr> else b)
      in button_fsm (debounce read_gpio_level b))"

text \<open>One call of the handler per level read.\<close>

definition button_run :: "u8 list \<Rightarrow> Button \<Rightarrow> Button" where
  "button_run levels b = fold button_handler levels b"

section \<open>The list of the started buttons\<close>

text \<open>A handle is an address; the struct's \<open>next\<close> fields are a map from addresses.\<close>

record button_list =
  head_handle :: "nat option"
  next_btn :: "nat \<Rightarrow> nat option"

partial_function (option) on_list :: "(nat \<Rightarrow> nat option) \<Rightarrow> nat \<Rightarrow> nat option \<Rightarrow> bool option" where
  "on_list nx handle target =
     (case target of
        None \<Rightarrow> Some False
      | Some t \<Rightarrow> if t = handle then Some True else on_list nx handle (nx t))"

definition button_start :: "nat \<Rightarrow> button_list \<Rightarrow> (int \<times> button_list) option" where
  "button_start handle l = do {
     found \<leftarrow> on_list (next_btn l) handle (head_handle l);
     if found then Some (-1, l)
     else Some (0, l\<lparr>next_btn := (next_btn l)(handle := head_handle l), head_handle := Some handle\<rparr>) }"

text \<open>\<open>cur\<close> (\<open>curr\<close> in the code) is the address of the head pointer (\<open>None\<close>) or of the \<open>next\<close> field of a button.\<close>

definition cell_get :: "nat option \<Rightarrow> button_list \<Rightarrow> nat option" where
  "cell_get cur l = (case cur of None \<Rightarrow> head_handle l | Some a \<Rightarrow> next_btn l a)"

definition cell_set :: "nat option \<Rightarrow> nat option \<Rightarrow> button_list \<Rightarrow> button_list" where
  "cell_set cur v l = (case cur of None \<Rightarrow> l\<lparr>head_handle := v\<rparr> | Some a \<Rightarrow> l\<lparr>next_btn := (next_btn l)(a := v)\<rparr>)"

partial_function (option) button_stop_loop :: "nat \<Rightarrow> nat option \<Rightarrow> button_list \<Rightarrow> button_list option" where
  "button_stop_loop handle cur l =
     (case cell_get cur l of
        None \<Rightarrow> Some l
      | Some entry \<Rightarrow>
          if entry = handle then button_stop_loop handle cur (cell_set cur (next_btn l entry) l)
          else button_stop_loop handle (Some entry) l)"

definition button_stop :: "nat \<Rightarrow> button_list \<Rightarrow> button_list option" where
  "button_stop handle l = button_stop_loop handle None l"

partial_function (option) button_ticks_loop ::
  "(nat \<Rightarrow> nat option) \<Rightarrow> (nat \<Rightarrow> u8) \<Rightarrow> nat option \<Rightarrow> (nat \<Rightarrow> Button) \<Rightarrow> (nat \<Rightarrow> Button) option" where
  "button_ticks_loop nx level target bs =
     (case target of
        None \<Rightarrow> Some bs
      | Some t \<Rightarrow> button_ticks_loop nx level (nx t) (bs(t := button_handler (level t) (bs t))))"

definition button_ticks :: "(nat \<Rightarrow> u8) \<Rightarrow> button_list \<Rightarrow> (nat \<Rightarrow> Button) \<Rightarrow> (nat \<Rightarrow> Button) option" where
  "button_ticks level l bs = button_ticks_loop (next_btn l) level (head_handle l) bs"

section \<open>The list is a list\<close>

fun linked :: "(nat \<Rightarrow> nat option) \<Rightarrow> nat option \<Rightarrow> nat list \<Rightarrow> bool" where
  "linked nx h [] = (h = None)"
| "linked nx h (x # xs) = (h = Some x \<and> linked nx (nx x) xs)"

definition list_abs :: "button_list \<Rightarrow> nat list \<Rightarrow> bool" where
  "list_abs l xs \<longleftrightarrow> linked (next_btn l) (head_handle l) xs \<and> distinct xs"

lemma linked_upd: "a \<notin> set xs \<Longrightarrow> linked (nx(a := v)) h xs = linked nx h xs"
  by (induction xs arbitrary: h) auto

lemma on_list_linked: "linked nx h xs \<Longrightarrow> on_list nx a h = Some (a \<in> set xs)"
  by (induction xs arbitrary: h) (subst on_list.simps; auto)+

lemma button_start_abs:
  assumes "list_abs l xs"
  shows "\<exists>l'. button_start a l = Some (if a \<in> set xs then -1 else 0, l') \<and>
    list_abs l' (if a \<in> set xs then xs else a # xs)"
  using assms on_list_linked[of "next_btn l" "head_handle l" xs a]
  by (auto simp: button_start_def list_abs_def linked_upd)

text \<open>The cell at \<open>cur\<close> holds the start of the rest \<open>ys\<close> of the list behind \<open>xs\<close>.\<close>

definition last_cell :: "nat list \<Rightarrow> nat option" where
  "last_cell xs = (if xs = [] then None else Some (last xs))"

fun seg :: "(nat \<Rightarrow> nat option) \<Rightarrow> nat option \<Rightarrow> nat list \<Rightarrow> nat option \<Rightarrow> bool" where
  "seg nx h [] t = (h = t)"
| "seg nx h (x # xs) t = (h = Some x \<and> seg nx (nx x) xs t)"

lemma linked_seg: "linked nx h (xs @ ys) \<longleftrightarrow> (\<exists>t. seg nx h xs t \<and> linked nx t ys)"
  by (induction xs arbitrary: h) auto

lemma seg_snoc: "seg nx h (xs @ [x]) t \<longleftrightarrow> seg nx h xs (Some x) \<and> nx x = t"
  by (induction xs arbitrary: h) auto

lemma seg_upd: "a \<notin> set xs \<Longrightarrow> seg (nx(a := v)) h xs t = seg nx h xs t"
  by (induction xs arbitrary: h) auto

lemma seg_unique: "seg nx h xs t \<Longrightarrow> seg nx h xs t' \<Longrightarrow> t = t'"
  by (induction xs arbitrary: h) auto

lemma cell_seg:
  assumes "seg (next_btn l) (head_handle l) xs t"
  shows "cell_get (last_cell xs) l = t"
  using assms by (cases xs rule: rev_cases) (auto simp: cell_get_def last_cell_def seg_snoc)

lemma cell_set_seg:
  assumes "distinct xs" "seg (next_btn l) (head_handle l) xs t"
  shows "seg (next_btn (cell_set (last_cell xs) v l)) (head_handle (cell_set (last_cell xs) v l)) xs v"
proof (cases xs rule: rev_cases)
  case Nil
  then show ?thesis by (simp add: cell_set_def last_cell_def)
next
  case (snoc zs z)
  with assms show ?thesis by (auto simp: cell_set_def last_cell_def seg_snoc seg_upd)
qed

lemma cell_set_linked:
  assumes "linked (next_btn l) v ys" "set xs \<inter> set ys = {}"
  shows "linked (next_btn (cell_set (last_cell xs) w l)) v ys"
proof (cases xs rule: rev_cases)
  case Nil
  with assms show ?thesis by (simp add: cell_set_def last_cell_def)
next
  case (snoc zs z)
  then have "z \<notin> set ys" using assms(2) by auto
  with assms(1) snoc show ?thesis by (simp add: cell_set_def last_cell_def linked_upd)
qed

lemma button_stop_loop_abs:
  "distinct (xs @ ys) \<Longrightarrow> seg (next_btn l) (head_handle l) xs t \<Longrightarrow> linked (next_btn l) t ys \<Longrightarrow>
   \<exists>l'. button_stop_loop a (last_cell xs) l = Some l' \<and> list_abs l' (xs @ filter (\<lambda>x. x \<noteq> a) ys)"
proof (induction ys arbitrary: xs l t)
  case Nil
  then show ?case
    using cell_seg[OF Nil.prems(2)]
    by (subst button_stop_loop.simps) (auto simp: list_abs_def linked_seg[of _ _ _ "[]", simplified])
next
  case (Cons y ys)
  have t: "t = Some y" and ys: "linked (next_btn l) (next_btn l y) ys" using Cons.prems(3) by simp_all
  note cell = cell_seg[OF Cons.prems(2), unfolded t]
  show ?case
  proof (cases "y = a")
    case True
    let ?l = "cell_set (last_cell xs) (next_btn l y) l"
    have "seg (next_btn ?l) (head_handle ?l) xs (next_btn l y)"
      using cell_set_seg[OF _ Cons.prems(2)] Cons.prems(1) by simp
    moreover have "linked (next_btn ?l) (next_btn l y) ys"
      using cell_set_linked[OF ys] Cons.prems(1) by auto
    ultimately show ?thesis
      using Cons.IH[of xs ?l "next_btn l y"] Cons.prems(1) True cell
      by (subst button_stop_loop.simps) auto
  next
    case False
    have "seg (next_btn l) (head_handle l) (xs @ [y]) (next_btn l y)"
      using Cons.prems(2) by (simp add: seg_snoc t)
    moreover have "last_cell (xs @ [y]) = Some y" by (simp add: last_cell_def)
    ultimately show ?thesis
      using Cons.IH[of "xs @ [y]" l "next_btn l y"] Cons.prems(1) False cell ys
      by (subst button_stop_loop.simps) auto
  qed
qed

lemma button_stop_abs:
  assumes "list_abs l xs"
  shows "\<exists>l'. button_stop a l = Some l' \<and> list_abs l' (filter (\<lambda>x. x \<noteq> a) xs)"
  using button_stop_loop_abs[of "[]" xs l "head_handle l" a] assms
  by (simp add: list_abs_def button_stop_def last_cell_def)

lemma button_ticks_loop_abs:
  "linked nx h xs \<Longrightarrow> distinct xs \<Longrightarrow>
   button_ticks_loop nx level h bs = Some (\<lambda>a. if a \<in> set xs then button_handler (level a) (bs a) else bs a)"
proof (induction xs arbitrary: h bs)
  case Nil
  then show ?case by (subst button_ticks_loop.simps) simp
next
  case (Cons x xs)
  then show ?case by (subst button_ticks_loop.simps) (auto simp: fun_eq_iff)
qed

text \<open>Sequences of starts and stops, on the linked list and on a list of handles.\<close>

datatype btn_op = Start nat | Stop nat

fun btn_exec :: "btn_op list \<Rightarrow> button_list \<Rightarrow> (int list \<times> button_list) option" where
  "btn_exec [] l = Some ([], l)"
| "btn_exec (Start a # ops) l = do { (r, l) \<leftarrow> button_start a l; (rs, l) \<leftarrow> btn_exec ops l; Some (r # rs, l) }"
| "btn_exec (Stop a # ops) l = do { l \<leftarrow> button_stop a l; btn_exec ops l }"

fun btn_spec :: "btn_op list \<Rightarrow> nat list \<Rightarrow> int list \<times> nat list" where
  "btn_spec [] xs = ([], xs)"
| "btn_spec (Start a # ops) xs =
     (let (rs, ys) = btn_spec ops (if a \<in> set xs then xs else a # xs)
      in ((if a \<in> set xs then -1 else 0) # rs, ys))"
| "btn_spec (Stop a # ops) xs = btn_spec ops (filter (\<lambda>x. x \<noteq> a) xs)"

lemma btn_exec_abs:
  "list_abs l xs \<Longrightarrow> \<exists>l'. btn_exec ops l = Some (fst (btn_spec ops xs), l') \<and> list_abs l' (snd (btn_spec ops xs))"
proof (induction ops arbitrary: l xs)
  case (Cons op ops)
  show ?case
  proof (cases op)
    case (Start a)
    obtain l' where l': "button_start a l = Some (if a \<in> set xs then -1 else 0, l')"
      "list_abs l' (if a \<in> set xs then xs else a # xs)"
      using button_start_abs[OF Cons.prems] by blast
    from Cons.IH[OF l'(2)] l'(1) Start show ?thesis by (auto simp: Let_def case_prod_beta)
  next
    case (Stop a)
    obtain l' where l': "button_stop a l = Some l'" "list_abs l' (filter (\<lambda>x. x \<noteq> a) xs)"
      using button_stop_abs[OF Cons.prems] by blast
    from Cons.IH[OF l'(2)] l'(1) Stop show ?thesis by simp
  qed
qed simp

text \<open>
  C31: the linked list of started buttons behaves like a list without duplicates: whatever
  sequence of starts and stops is run on the empty list, every loop over it ends, a start is
  refused exactly when the button is on the list, a stopped button is no longer on it and the
  others stay; and a tick calls the handler of every button on the list once, and of no other.
\<close>

theorem button_list_refines:
  "\<exists>l. btn_exec ops \<lparr>head_handle = None, next_btn = nx\<rparr> = Some (fst (btn_spec ops []), l) \<and>
     button_ticks level l bs = Some (\<lambda>a. if a \<in> set (snd (btn_spec ops [])) then button_handler (level a) (bs a) else bs a)"
proof -
  have "list_abs \<lparr>head_handle = None, next_btn = nx\<rparr> []" by (simp add: list_abs_def)
  from btn_exec_abs[OF this] obtain l where
    "btn_exec ops \<lparr>head_handle = None, next_btn = nx\<rparr> = Some (fst (btn_spec ops []), l)"
    "list_abs l (snd (btn_spec ops []))" by blast
  then show ?thesis
    using button_ticks_loop_abs by (auto simp: list_abs_def button_ticks_def)
qed

section \<open>One button\<close>

text \<open>The level read while the button is pressed, and while it is released.\<close>

definition lv :: "bool \<Rightarrow> Button \<Rightarrow> u8" where
  "lv p b = ucast (if p then active_level b else NOT (active_level b))"

definition stored :: "Button \<Rightarrow> bool" where
  "stored b \<longleftrightarrow> button_level b = active_level b"

definition tick :: "Button \<Rightarrow> Button" where
  "tick b = (if state b > 0 then b\<lparr>ticks := ticks b + 1\<rparr> else b)"

lemma bit1_cases: "(x :: 1 word) = 0 \<or> x = 1"
proof -
  have "unat x < 2" using unsigned_less[of x] by simp
  then have "unat x = 0 \<or> unat x = 1" by auto
  then show ?thesis by (simp add: word_unat_eq_iff)
qed

lemma not_bit1: "NOT x = (if x = 0 then 1 else 0)" for x :: "1 word"
  using bit1_cases[of x] by auto

lemma lv_same: "lv p b = ucast (button_level b) \<longleftrightarrow> p = stored b"
  using bit1_cases[of "active_level b"] bit1_cases[of "button_level b"]
  unfolding lv_def stored_def not_bit1 by auto

lemma lv_level: "ucast (lv p b) = (if p then active_level b else NOT (active_level b))"
  using bit1_cases[of "active_level b"] unfolding lv_def not_bit1 by auto

text \<open>A level that agrees with the stored one, and one that differs for the first three times.\<close>

lemma handler_same:
  "pin b \<noteq> NoPin \<Longrightarrow> p = stored b \<Longrightarrow> button_handler (lv p b) b = button_fsm (tick b\<lparr>debounce_cnt := 0\<rparr>)"
  using lv_same[of p b] by (simp add: button_handler_def debounce_def tick_def Let_def)

lemma handler_wait:
  "pin b \<noteq> NoPin \<Longrightarrow> p \<noteq> stored b \<Longrightarrow> debounce_cnt b = 0 \<Longrightarrow> button_handler (lv p b) b = button_fsm (tick b\<lparr>debounce_cnt := 1\<rparr>)"
  "pin b \<noteq> NoPin \<Longrightarrow> p \<noteq> stored b \<Longrightarrow> debounce_cnt b = 1 \<Longrightarrow> button_handler (lv p b) b = button_fsm (tick b\<lparr>debounce_cnt := 2\<rparr>)"
  using lv_same[of p b]
  by (simp_all add: button_handler_def debounce_def tick_def Let_def btn_consts word_le_nat_alt)

lemma handler_flip:
  "pin b \<noteq> NoPin \<Longrightarrow> p \<noteq> stored b \<Longrightarrow> debounce_cnt b = 2 \<Longrightarrow> button_handler (lv p b) b =
     button_fsm (tick b\<lparr>button_level := if p then active_level b else NOT (active_level b), debounce_cnt := 0\<rparr>)"
  using lv_same[of p b] lv_level[of p b]
  by (simp add: button_handler_def debounce_def tick_def Let_def btn_consts)

text \<open>The state machine, branch by branch.\<close>

definition emit :: "PressEvent list \<Rightarrow> Button \<Rightarrow> Button" where
  "emit evs b = b\<lparr>calls := calls b @ filter (cb b) evs\<rparr>"

lemma fsm_idle: "state b = 0 \<Longrightarrow> \<not> stored b \<Longrightarrow> button_fsm b = b\<lparr>event := NONE_PRESS\<rparr>"
  by (simp add: button_fsm_def stored_def)

lemma fsm_press: "state b = 0 \<Longrightarrow> stored b \<Longrightarrow>
    button_fsm b = emit [PRESS_DOWN] (b\<lparr>event := PRESS_DOWN, ticks := 0, repeat := 1, state := 1\<rparr>)"
  by (simp add: button_fsm_def stored_def EVENT_CB_def emit_def)

lemma fsm_pressed: "state b = 1 \<Longrightarrow> stored b \<Longrightarrow> ticks b \<le> period b div 5 \<Longrightarrow> button_fsm b = b"
  by (simp add: button_fsm_def stored_def Let_def btn_consts)

lemma fsm_long: "state b = 1 \<Longrightarrow> stored b \<Longrightarrow> period b div 5 < ticks b \<Longrightarrow>
    button_fsm b = emit [LONG_PRESS_START] (b\<lparr>event := LONG_PRESS_START,
      state := if long_press_start_flag b = CONTINUE_TRIGGER then 6 else 5\<rparr>)"
  by (simp add: button_fsm_def stored_def Let_def btn_consts EVENT_CB_def emit_def)

lemma fsm_release: "state b = 1 \<Longrightarrow> \<not> stored b \<Longrightarrow> long_press_start_flag b \<noteq> CONTINUE_TRIGGER \<Longrightarrow>
    button_fsm b = emit [PRESS_UP] (b\<lparr>event := PRESS_UP, ticks := 0, state := 2\<rparr>)"
  by (simp add: button_fsm_def stored_def Let_def EVENT_CB_def emit_def)

lemma fsm_gap: "state b = 2 \<Longrightarrow> \<not> stored b \<Longrightarrow> ticks b \<le> 60 \<Longrightarrow> button_fsm b = b"
  by (simp add: button_fsm_def stored_def Let_def btn_consts)

lemma fsm_timeout: "state b = 2 \<Longrightarrow> \<not> stored b \<Longrightarrow> 60 < ticks b \<Longrightarrow> button_fsm b =
    (if repeat b = 1 then emit [SINGLE_CLICK] (b\<lparr>event := SINGLE_CLICK, state := 0\<rparr>)
     else if repeat b = 2 then emit [DOUBLE_CLICK] (b\<lparr>event := DOUBLE_CLICK, state := 0\<rparr>) else b\<lparr>state := 0\<rparr>)"
  by (simp add: button_fsm_def stored_def Let_def btn_consts EVENT_CB_def emit_def)

lemma fsm_again: "state b = 2 \<Longrightarrow> stored b \<Longrightarrow> button_fsm b =
    emit [PRESS_DOWN, PRESS_REPEAT] (b\<lparr>event := PRESS_DOWN, repeat := repeat b + 1, ticks := 0, state := 3\<rparr>)"
  by (simp add: button_fsm_def stored_def Let_def EVENT_CB_def emit_def)

lemma fsm_held_again: "state b = 3 \<Longrightarrow> stored b \<Longrightarrow> button_fsm b = b"
  by (simp add: button_fsm_def stored_def Let_def)

lemma fsm_release_again: "state b = 3 \<Longrightarrow> \<not> stored b \<Longrightarrow> button_fsm b =
    emit [PRESS_UP] (if ticks b < 60 then b\<lparr>event := PRESS_UP, ticks := 0, state := 2\<rparr> else b\<lparr>event := PRESS_UP, state := 0\<rparr>)"
  by (simp add: button_fsm_def stored_def Let_def btn_consts EVENT_CB_def emit_def)

lemmas fsm_cases = fsm_idle fsm_press fsm_pressed fsm_long fsm_release fsm_gap fsm_timeout fsm_again
  fsm_held_again fsm_release_again

text \<open>What the handler never changes.\<close>

lemma EVENT_CB_config:
  "pin (EVENT_CB ev b) = pin b" "cb (EVENT_CB ev b) = cb b" "period (EVENT_CB ev b) = period b"
  "active_level (EVENT_CB ev b) = active_level b" "long_press_start_flag (EVENT_CB ev b) = long_press_start_flag b"
  "state (EVENT_CB ev b) = state b" "debounce_cnt (EVENT_CB ev b) = debounce_cnt b"
  by (simp_all add: EVENT_CB_def)

lemma fsm_config:
  "pin (button_fsm b) = pin b" "cb (button_fsm b) = cb b" "period (button_fsm b) = period b"
  "active_level (button_fsm b) = active_level b" "long_press_start_flag (button_fsm b) = long_press_start_flag b"
  "debounce_cnt (button_fsm b) = debounce_cnt b"
  by (simp_all add: button_fsm_def Let_def EVENT_CB_config)

lemma handler_config:
  "pin (button_handler x b) = pin b" "cb (button_handler x b) = cb b" "period (button_handler x b) = period b"
  "active_level (button_handler x b) = active_level b"
  "long_press_start_flag (button_handler x b) = long_press_start_flag b"
  by (simp_all add: button_handler_def fsm_config debounce_def Let_def)

section \<open>Presses and releases alternate\<close>

text \<open>Whether the button counts as pressed after a list of calls; \<open>None\<close> if they do not alternate.\<close>

fun track :: "bool \<Rightarrow> PressEvent list \<Rightarrow> bool option" where
  "track p [] = Some p"
| "track p (e # es) =
     (if e = PRESS_DOWN then (if p then None else track True es)
      else if e = PRESS_UP then (if p then track False es else None)
      else track p es)"

lemma track_append: "track p (xs @ ys) = Option.bind (track p xs) (\<lambda>q. track q ys)"
  by (induction p xs rule: track.induct) auto

definition btn_inv :: "Button \<Rightarrow> bool" where
  "btn_inv b \<longleftrightarrow> state b \<in> {0, 1, 2, 3, 5, 6} \<and> debounce_cnt b < 3 \<and> cb b PRESS_DOWN \<and> cb b PRESS_UP \<and>
     track False (calls b) = Some (state b \<in> {1, 3, 5, 6})"

lemma state_noteq: "(5::3 word) \<noteq> 0" "(6::3 word) \<noteq> 0" "(3::3 word) \<noteq> 0" "(2::3 word) \<noteq> 0"
  by simp_all

lemma fsm_inv:
  assumes "btn_inv b"
  shows "btn_inv (button_fsm b)"
proof -
  have d: "cb b PRESS_DOWN" "cb b PRESS_UP" and t: "track False (calls b) = Some (state b \<in> {1, 3, 5, 6})"
    and s: "state b = 0 \<or> state b = 1 \<or> state b = 2 \<or> state b = 3 \<or> state b = 5 \<or> state b = 6"
    and c: "debounce_cnt b < 3"
    using assms by (auto simp: btn_inv_def)
  show ?thesis
    using s
  proof (elim disjE)
    assume "state b = 0" then show ?thesis
      using t d c by (simp add: btn_inv_def button_fsm_def EVENT_CB_def track_append Let_def)
  next
    assume "state b = 1" then show ?thesis
      using t d c by (simp add: btn_inv_def button_fsm_def EVENT_CB_def track_append Let_def)
  next
    assume "state b = 2" then show ?thesis
      using t d c by (simp add: btn_inv_def button_fsm_def EVENT_CB_def track_append Let_def)
  next
    assume "state b = 3" then show ?thesis
      using t d c by (simp add: btn_inv_def button_fsm_def EVENT_CB_def track_append Let_def)
  next
    assume "state b = 5" then show ?thesis
      using t d c by (simp add: btn_inv_def button_fsm_def EVENT_CB_def track_append Let_def)
  next
    assume "state b = 6" then show ?thesis
      using t d c by (simp add: btn_inv_def button_fsm_def EVENT_CB_def track_append Let_def)
  qed
qed

lemma debounce_bound: "debounce_cnt b < 3 \<Longrightarrow> debounce_cnt (debounce x b) < 3"
  by (auto simp: debounce_def Let_def btn_consts not_le)

lemma handler_inv:
  assumes "btn_inv b"
  shows "btn_inv (button_handler x b)"
proof -
  have "btn_inv (debounce y (tick b))" for y
    using assms debounce_bound[of "tick b" y]
    by (auto simp: btn_inv_def debounce_def tick_def Let_def)
  then show ?thesis by (simp add: button_handler_def tick_def[symmetric] Let_def fsm_inv)
qed

text \<open>
  C27: whatever levels are read, the machine stays in one of its six states with at most two
  differing readings counted, and the callbacks \<open>PRESS_DOWN\<close> and \<open>PRESS_UP\<close> run alternately,
  beginning with \<open>PRESS_DOWN\<close>; a press is open exactly in the states 1, 3, 5 and 6.
\<close>

theorem button_presses_alternate:
  assumes "f PRESS_DOWN" "f PRESS_UP"
    and "b = button_init lev act \<or> b = button_init_ext act"
    and "b' = button_run levels (b\<lparr>cb := f, period := pd, long_press_start_flag := fl\<rparr>)"
  shows "state b' \<in> {0, 1, 2, 3, 5, 6} \<and> debounce_cnt b' < 3 \<and>
    track False (calls b') = Some (state b' \<in> {1, 3, 5, 6})"
proof -
  have "btn_inv (b\<lparr>cb := f, period := pd, long_press_start_flag := fl\<rparr>)"
    using assms(1-3) by (auto simp: btn_inv_def button_init_def button_init_ext_def button_zero_def word_less_nat_alt)
  then have "btn_inv (button_run levels (b\<lparr>cb := f, period := pd, long_press_start_flag := fl\<rparr>))" for levels
    by (induction levels rule: rev_induct) (simp_all add: button_run_def handler_inv)
  then show ?thesis by (simp add: btn_inv_def assms(4))
qed

definition btn_ex :: Button where
  "btn_ex = (button_init 0 1)\<lparr>cb := \<lambda>_. True, period := 1000, long_press_start_flag := 0\<rparr>"

theorem button_presses_alternate_witness:
  "track False (calls (button_run (replicate 5 1 @ replicate 4 0) btn_ex)) \<noteq> None"
  unfolding btn_ex_def
  using button_presses_alternate[OF _ _ disjI1[OF refl] refl, where f = "\<lambda>_. True" and lev = 0 and act = 1
      and levels = "replicate 5 1 @ replicate 4 0" and pd = 1000 and fl = 0]
  by simp

section \<open>Clicks\<close>

text \<open>The next \<open>k\<close> ticks change nothing while the level stays as it is.\<close>

definition quiet :: "Button \<Rightarrow> nat \<Rightarrow> bool" where
  "quiet b k \<longleftrightarrow> state b = 1 \<and> stored b \<and> unat (ticks b) + k \<le> unat (period b div 5)
     \<or> state b = 2 \<and> \<not> stored b \<and> unat (ticks b) + k \<le> 60
     \<or> state b = 3 \<and> stored b \<and> unat (ticks b) + k < 2 ^ 16"

lemma stored_upd [simp]:
  "stored (b\<lparr>ticks := t\<rparr>) = stored b" "stored (b\<lparr>debounce_cnt := d\<rparr>) = stored b"
  "stored (b\<lparr>state := x\<rparr>) = stored b" "stored (b\<lparr>event := e\<rparr>) = stored b" "stored (b\<lparr>repeat := r\<rparr>) = stored b"
  "stored (b\<lparr>button_level := active_level b\<rparr>)" "\<not> stored (b\<lparr>button_level := NOT (active_level b)\<rparr>)"
  using bit1_cases[of "active_level b"] by (auto simp: stored_def not_bit1)

lemma stored_emit [simp]: "stored (emit evs b) = stored b"
  by (simp add: stored_def emit_def)

lemma quiet_pos: "quiet b k \<Longrightarrow> state b > 0"
  by (auto simp: quiet_def word_gt_0)

lemma quiet_lt:
  assumes "quiet b k"
  shows "unat (ticks b) + k < 2 ^ 16"
proof -
  have "unat (period b div 5) < 65536" using unsigned_less[of "period b div 5"] by simp
  moreover have "(2::nat) ^ 16 = 65536" by simp
  ultimately show ?thesis using assms unfolding quiet_def by (elim disjE conjE) linarith+
qed

lemma quiet_le: "quiet b k \<Longrightarrow> j \<le> k \<Longrightarrow> quiet b j"
  by (auto simp: quiet_def)

lemma ticks_later: "quiet b k \<Longrightarrow> j \<le> k \<Longrightarrow> unat (ticks b + of_nat j) = unat (ticks b) + j"
  using quiet_lt[of b k] by (simp add: unat_word_ariths unat_of_nat)

lemma fsm_quiet:
  assumes "quiet b k"
  shows "button_fsm b = b"
  using assms
  by (auto simp: quiet_def word_le_nat_alt fsm_pressed fsm_gap fsm_held_again)

lemma quiet_step:
  assumes "quiet b (Suc k)"
  shows "quiet (b\<lparr>ticks := ticks b + 1, debounce_cnt := d\<rparr>) k"
  using assms ticks_later[OF assms, of 1] by (auto simp: quiet_def)

lemma dc0 [simp]: "debounce_cnt x = 0 \<Longrightarrow> x\<lparr>debounce_cnt := 0\<rparr> = x"
  by (cases x) simp

lemma stay1:
  assumes "quiet b (Suc k)" "pin b \<noteq> NoPin" "debounce_cnt b = 0"
  shows "button_handler (lv (stored b) b) b = b\<lparr>ticks := ticks b + 1\<rparr>"
proof -
  have "b\<lparr>ticks := ticks b + 1, debounce_cnt := 0\<rparr> = b\<lparr>ticks := ticks b + 1\<rparr>"
    using assms(3) by simp
  then show ?thesis
    using handler_same[OF assms(2) refl] fsm_quiet[OF quiet_step[OF assms(1), of 0]] quiet_pos[OF assms(1)]
    by (simp add: tick_def)
qed

lemma lv_upd [simp]:
  "lv p (b\<lparr>ticks := t\<rparr>) = lv p b" "lv p (b\<lparr>debounce_cnt := d\<rparr>) = lv p b" "lv p (b\<lparr>button_level := l\<rparr>) = lv p b"
  "lv p (b\<lparr>event := e\<rparr>) = lv p b" "lv p (b\<lparr>state := x\<rparr>) = lv p b" "lv p (b\<lparr>repeat := r\<rparr>) = lv p b"
  "lv p (emit evs b) = lv p b"
  by (simp_all add: lv_def emit_def)

lemma button_run_append: "button_run (xs @ ys) b = button_run ys (button_run xs b)"
  by (simp add: button_run_def)

lemma button_run_Cons: "button_run (x # xs) b = button_run xs (button_handler x b)"
  by (simp add: button_run_def)

lemma button_run_Nil [simp]: "button_run [] b = b"
  by (simp add: button_run_def)

lemma stay:
  "quiet b k \<Longrightarrow> pin b \<noteq> NoPin \<Longrightarrow> debounce_cnt b = 0 \<Longrightarrow>
   button_run (replicate k (lv (stored b) b)) b = b\<lparr>ticks := ticks b + of_nat k\<rparr>"
proof (induction k arbitrary: b)
  case (Suc k)
  have "b\<lparr>ticks := ticks b + 1, debounce_cnt := 0\<rparr> = b\<lparr>ticks := ticks b + 1\<rparr>"
    using Suc.prems(3) by simp
  then have "quiet (b\<lparr>ticks := ticks b + 1\<rparr>) k"
    using quiet_step[OF Suc.prems(1), of 0] by simp
  from Suc.IH[OF this] Suc.prems(2,3) stay1[OF Suc.prems] show ?case
    by (simp add: button_run_Cons algebra_simps)
qed simp

text \<open>The level changes: two ticks that only count, and a third at which it is taken over.\<close>

definition flip :: "Button \<Rightarrow> Button" where
  "flip b = b\<lparr>button_level := if stored b then NOT (active_level b) else active_level b\<rparr>"

lemma leave:
  assumes "quiet b 2" "pin b \<noteq> NoPin" "debounce_cnt b = 0"
  shows "button_run (replicate 3 (lv (\<not> stored b) b)) b = button_fsm (flip (b\<lparr>ticks := ticks b + 3\<rparr>))"
proof -
  have q: "quiet b (Suc (Suc 0))" using assms(1) by (simp add: numeral_2_eq_2)
  let ?b1 = "b\<lparr>ticks := ticks b + 1, debounce_cnt := 1\<rparr>"
  have q1: "quiet ?b1 (Suc 0)" by (rule quiet_step[OF q])
  let ?b2 = "?b1\<lparr>ticks := ticks ?b1 + 1, debounce_cnt := 2\<rparr>"
  have q2: "quiet ?b2 0" by (rule quiet_step[OF q1])
  have p: "state b > 0" by (rule quiet_pos[OF q])
  have 1: "button_handler (lv (\<not> stored b) b) b = ?b1"
    using handler_wait(1)[of b "\<not> stored b"] assms(2,3) fsm_quiet[OF q1] p by (simp add: tick_def)
  have 2: "button_handler (lv (\<not> stored b) b) ?b1 = ?b2"
    using handler_wait(2)[of ?b1 "\<not> stored b"] assms(2,3) fsm_quiet[OF q2] p by (simp add: tick_def)
  have "button_handler (lv (\<not> stored b) b) ?b2 = button_fsm (tick ?b2\<lparr>button_level :=
      if \<not> stored b then active_level b else NOT (active_level b), debounce_cnt := 0\<rparr>)"
    using handler_flip[of ?b2 "\<not> stored b"] assms(2,3) by simp
  also have "tick ?b2\<lparr>button_level := if \<not> stored b then active_level b else NOT (active_level b), debounce_cnt := 0\<rparr> =
      flip (b\<lparr>ticks := ticks b + 3\<rparr>)"
    using assms(3) p by (cases b) (simp add: tick_def flip_def stored_def algebra_simps)
  finally have 3: "button_handler (lv (\<not> stored b) b) ?b2 = button_fsm (flip (b\<lparr>ticks := ticks b + 3\<rparr>))" .
  show ?thesis by (simp only: numeral_3_eq_3 replicate.simps button_run_Cons 1 2 3 button_run_Nil)
qed

lemma stay_leave:
  assumes "quiet b (k + 2)" "pin b \<noteq> NoPin" "debounce_cnt b = 0"
  shows "button_run (replicate k (lv (stored b) b) @ replicate 3 (lv (\<not> stored b) b)) b =
    button_fsm (flip (b\<lparr>ticks := ticks b + of_nat (k + 3)\<rparr>))"
proof -
  let ?b = "b\<lparr>ticks := ticks b + of_nat k\<rparr>"
  have "quiet ?b 2"
    using assms(1) ticks_later[OF assms(1), of k] by (auto simp: quiet_def)
  from leave[OF this] assms(2,3) have "button_run (replicate 3 (lv (\<not> stored b) b)) ?b =
      button_fsm (flip (b\<lparr>ticks := ticks b + of_nat (k + 3)\<rparr>))"
    by (simp add: algebra_simps)
  with stay[OF quiet_le[OF assms(1)] assms(2,3)] show ?thesis by (simp add: button_run_append)
qed

text \<open>The rounds after the first press: released for \<open>q\<close> readings, then pressed for \<open>p\<close>.\<close>

fun click_levels :: "(nat \<times> nat) list \<Rightarrow> nat \<Rightarrow> bool list" where
  "click_levels [] q = replicate q False"
| "click_levels ((p, q') # cs) q = replicate q False @ replicate p True @ click_levels cs q'"

text \<open>Gaps of 3 to 61 readings, presses of 3 to 59, and at least 64 readings released at the end.\<close>

fun clicks_ok :: "(nat \<times> nat) list \<Rightarrow> nat \<Rightarrow> bool" where
  "clicks_ok [] q = (64 \<le> q)"
| "clicks_ok ((p, q') # cs) q = (3 \<le> q \<and> q \<le> 61 \<and> 3 \<le> p \<and> p < 60 \<and> clicks_ok cs q')"

definition click_result :: "4 word \<Rightarrow> PressEvent list" where
  "click_result r = (if r = 1 then [SINGLE_CLICK] else if r = 2 then [DOUBLE_CLICK] else [])"

text \<open>The state just after a release has been noticed.\<close>

definition released :: "Button \<Rightarrow> bool" where
  "released b \<longleftrightarrow> state b = 2 \<and> \<not> stored b \<and> ticks b = 0 \<and> debounce_cnt b = 0 \<and> pin b \<noteq> NoPin"

definition resting :: "Button \<Rightarrow> bool" where
  "resting b \<longleftrightarrow> state b = 0 \<and> \<not> stored b \<and> debounce_cnt b = 0 \<and> pin b \<noteq> NoPin"

lemma stored_flip [simp]: "stored (flip b) = (\<not> stored b)"
  by (simp add: flip_def)

lemma flip_sel [simp]:
  "state (flip b) = state b" "ticks (flip b) = ticks b" "repeat (flip b) = repeat b" "period (flip b) = period b"
  "debounce_cnt (flip b) = debounce_cnt b" "pin (flip b) = pin b" "cb (flip b) = cb b" "calls (flip b) = calls b"
  "active_level (flip b) = active_level b" "long_press_start_flag (flip b) = long_press_start_flag b"
  by (simp_all add: flip_def)

lemma emit_sel [simp]:
  "state (emit evs b) = state b" "ticks (emit evs b) = ticks b" "repeat (emit evs b) = repeat b"
  "debounce_cnt (emit evs b) = debounce_cnt b" "pin (emit evs b) = pin b" "cb (emit evs b) = cb b"
  "calls (emit evs b) = calls b @ filter (cb b) evs" "active_level (emit evs b) = active_level b"
  "period (emit evs b) = period b" "long_press_start_flag (emit evs b) = long_press_start_flag b"
  by (simp_all add: emit_def)

lemma lv_active: "active_level b' = active_level b \<Longrightarrow> lv p b' = lv p b"
  by (simp add: lv_def)

lemma resting_idle:
  assumes "resting b"
  shows "button_handler (lv False b) b = b\<lparr>event := NONE_PRESS\<rparr>"
  using assms handler_same[of b False] by (simp add: resting_def tick_def fsm_idle)

lemma resting_stays:
  "resting b \<Longrightarrow> resting (button_run (replicate k (lv False b)) b) \<and> calls (button_run (replicate k (lv False b)) b) = calls b"
proof (induction k arbitrary: b)
  case (Suc k)
  have "resting (b\<lparr>event := NONE_PRESS\<rparr>)" using Suc.prems by (simp add: resting_def)
  from Suc.IH[OF this] resting_idle[OF Suc.prems] show ?case by (simp add: button_run_Cons)
qed simp

text \<open>One more press of \<open>p\<close> readings after a gap of \<open>q\<close>, up to the third reading after it.\<close>

lemma one_more_press:
  assumes "released b" "3 \<le> q" "q \<le> 61" "3 \<le> p" "p < 60"
  shows "\<exists>b'. button_run (replicate (q - 3) (lv False b) @ replicate p (lv True b) @ replicate 3 (lv False b)) b = b' \<and>
    released b' \<and> cb b' = cb b \<and> active_level b' = active_level b \<and> repeat b' = repeat b + 1 \<and>
    calls b' = calls b @ filter (cb b) [PRESS_DOWN, PRESS_REPEAT, PRESS_UP]"
proof -
  have b: "state b = 2" "\<not> stored b" "ticks b = 0" "debounce_cnt b = 0" "pin b \<noteq> NoPin"
    using assms(1) by (auto simp: released_def)
  have "quiet b (q - 3 + 2)" using b assms(2,3) by (auto simp: quiet_def)
  note 1 = stay_leave[OF this b(5,4)]
  define c where "c = button_fsm (flip (b\<lparr>ticks := ticks b + of_nat (q - 3 + 3)\<rparr>))"
  have 1: "button_run (replicate (q - 3) (lv False b) @ replicate 3 (lv True b)) b = c"
    using 1 b(2) unfolding c_def by simp
  have "c = emit [PRESS_DOWN, PRESS_REPEAT] ((flip (b\<lparr>ticks := ticks b + of_nat (q - 3 + 3)\<rparr>))
      \<lparr>event := PRESS_DOWN, repeat := repeat b + 1, ticks := 0, state := 3\<rparr>)"
    unfolding c_def using b by (subst fsm_again) auto
  then have sc: "state c = 3" "stored c" "ticks c = 0" "debounce_cnt c = 0" "pin c \<noteq> NoPin"
    and cc: "cb c = cb b" "active_level c = active_level b" "repeat c = repeat b + 1"
      "calls c = calls b @ filter (cb b) [PRESS_DOWN, PRESS_REPEAT]"
    using b by simp_all
  have lc: "lv t c = lv t b" for t using cc(2) by (rule lv_active)
  have "quiet c (p - 3 + 2)" unfolding quiet_def using sc assms(4,5) by auto
  note 2 = stay_leave[OF this sc(5,4)]
  define d where "d = button_fsm (flip (c\<lparr>ticks := ticks c + of_nat (p - 3 + 3)\<rparr>))"
  have 2: "button_run (replicate (p - 3) (lv True b) @ replicate 3 (lv False b)) c = d"
    using 2 sc(2) lc unfolding d_def by simp
  have "(of_nat (p - 3 + 3) :: u16) < 60"
    using assms(4,5) by (simp add: word_less_nat_alt unat_of_nat)
  then have "d = emit [PRESS_UP] ((flip (c\<lparr>ticks := ticks c + of_nat (p - 3 + 3)\<rparr>))
      \<lparr>event := PRESS_UP, ticks := 0, state := 2\<rparr>)"
    unfolding d_def using sc by (subst fsm_release_again) auto
  then have "released d" "cb d = cb c" "active_level d = active_level c" "repeat d = repeat c"
    "calls d = calls c @ filter (cb c) [PRESS_UP]"
    using sc by (simp_all add: released_def)
  moreover have "replicate p (lv True b) = replicate 3 (lv True b) @ replicate (p - 3) (lv True b)"
    using assms(4) by (simp flip: replicate_add)
  then have "button_run (replicate (q - 3) (lv False b) @ replicate p (lv True b) @ replicate 3 (lv False b)) b = d"
    using 1 2 by (simp add: button_run_append)
  ultimately show ?thesis using cc by simp
qed

text \<open>The last gap: at the 61st tick the clicks are counted.\<close>

lemma last_gap:
  assumes "released b" "64 \<le> q"
  shows "\<exists>b'. button_run (replicate (q - 3) (lv False b)) b = b' \<and> resting b' \<and>
    calls b' = calls b @ filter (cb b) (click_result (repeat b))"
proof -
  have b: "state b = 2" "\<not> stored b" "ticks b = 0" "debounce_cnt b = 0" "pin b \<noteq> NoPin"
    using assms(1) by (auto simp: released_def)
  have "quiet b 60" using b by (auto simp: quiet_def)
  note 1 = stay[OF this b(5,4)]
  let ?b1 = "b\<lparr>ticks := 60\<rparr>"
  define c where "c = button_handler (lv False b) ?b1"
  have "c = button_fsm (b\<lparr>ticks := 61\<rparr>)"
    using handler_same[of ?b1 False] b by (simp add: c_def tick_def)
  then have c: "c = (if repeat b = 1 then emit [SINGLE_CLICK] (b\<lparr>ticks := 61, event := SINGLE_CLICK, state := 0\<rparr>)
     else if repeat b = 2 then emit [DOUBLE_CLICK] (b\<lparr>ticks := 61, event := DOUBLE_CLICK, state := 0\<rparr>)
     else b\<lparr>ticks := 61, state := 0\<rparr>)"
    using fsm_timeout[of "b\<lparr>ticks := 61\<rparr>"] b by simp
  have 2: "resting c \<and> calls c = calls b @ filter (cb b) (click_result (repeat b)) \<and> active_level c = active_level b"
  proof (cases "repeat b = 1")
    case True
    with c b show ?thesis by (simp add: resting_def click_result_def)
  next
    case False
    with c b show ?thesis by (cases "repeat b = 2") (simp_all add: resting_def click_result_def)
  qed
  then have l: "lv False c = lv False b" by (blast intro: lv_active)
  have "q - 3 = 60 + Suc (q - 64)" using assms(2) by simp
  then have r: "replicate (q - 3) x = replicate 60 x @ x # replicate (q - 64) x" for x :: u8
    by (metis replicate_Suc replicate_add)
  have "button_run (replicate 60 (lv False b)) b = ?b1" using 1 b(2,3) by simp
  then have "button_run (replicate (q - 3) (lv False b)) b = button_run (replicate (q - 64) (lv False c)) c"
    by (simp only: r button_run_append button_run_Cons l flip: c_def)
  with resting_stays[of c "q - 64"] 2 show ?thesis by simp
qed

lemma click_levels_start:
  assumes "clicks_ok cs q"
  shows "click_levels cs q = replicate 3 False @ drop 3 (click_levels cs q)"
proof -
  have "3 \<le> q" using assms by (cases cs) auto
  then obtain k where "q = 3 + k" using le_Suc_ex by blast
  then show ?thesis by (cases cs) (auto simp: replicate_add)
qed

text \<open>The first press, up to the third reading after it.\<close>

lemma first_press:
  assumes "resting b" "long_press_start_flag b \<noteq> CONTINUE_TRIGGER"
    and "3 \<le> p" "p - 1 \<le> unat (period b div TICKS_INTERVAL)"
  shows "\<exists>c. button_run (replicate p (lv True b) @ replicate 3 (lv False b)) b = c \<and> released c \<and>
    cb c = cb b \<and> active_level c = active_level b \<and> repeat c = 1 \<and>
    calls c = calls b @ filter (cb b) [PRESS_DOWN, PRESS_UP]"
proof -
  have b: "state b = 0" "\<not> stored b" "debounce_cnt b = 0" "pin b \<noteq> NoPin"
    using assms(1) by (auto simp: resting_def)
  let ?b2 = "b\<lparr>event := NONE_PRESS, debounce_cnt := 2\<rparr>"
  have h1: "button_handler (lv True b) b = b\<lparr>event := NONE_PRESS, debounce_cnt := 1\<rparr>"
    using handler_wait(1)[of b True] b by (simp add: tick_def fsm_idle)
  have h2: "button_handler (lv True b) (b\<lparr>event := NONE_PRESS, debounce_cnt := 1\<rparr>) = ?b2"
    using handler_wait(2)[of "b\<lparr>event := NONE_PRESS, debounce_cnt := 1\<rparr>" True] b by (simp add: tick_def fsm_idle)
  define c where "c = button_handler (lv True b) ?b2"
  have "c = emit [PRESS_DOWN] (b\<lparr>button_level := active_level b, debounce_cnt := 0, event := PRESS_DOWN, ticks := 0,
      repeat := 1, state := 1\<rparr>)"
    unfolding c_def using handler_flip[of ?b2 True] b by (simp add: tick_def fsm_press stored_def)
  moreover have h: "button_run (replicate 3 (lv True b)) b = c"
    by (simp only: numeral_3_eq_3 replicate.simps button_run_Cons h1 h2 c_def button_run_Nil)
  ultimately have sc: "state c = 1" "stored c" "ticks c = 0" "debounce_cnt c = 0" "pin c \<noteq> NoPin"
    and cc: "cb c = cb b" "active_level c = active_level b" "repeat c = 1" "period c = period b"
      "long_press_start_flag c = long_press_start_flag b" "calls c = calls b @ filter (cb b) [PRESS_DOWN]"
    using b by simp_all
  have lc: "lv t c = lv t b" for t using cc(2) by (rule lv_active)
  have "quiet c (p - 3 + 2)" unfolding quiet_def using sc cc assms(3,4) by (auto simp: btn_consts)
  note 2 = stay_leave[OF this sc(5,4)]
  define d where "d = button_fsm (flip (c\<lparr>ticks := ticks c + of_nat (p - 3 + 3)\<rparr>))"
  have 2: "button_run (replicate (p - 3) (lv True b) @ replicate 3 (lv False b)) c = d"
    using 2 sc(2) lc unfolding d_def by simp
  have "d = emit [PRESS_UP] ((flip (c\<lparr>ticks := ticks c + of_nat (p - 3 + 3)\<rparr>))
      \<lparr>event := PRESS_UP, ticks := 0, state := 2\<rparr>)"
    unfolding d_def using sc cc assms(2) by (subst fsm_release) auto
  then have "released d" "cb d = cb c" "active_level d = active_level c" "repeat d = repeat c"
    "calls d = calls c @ filter (cb c) [PRESS_UP]"
    using sc by (simp_all add: released_def)
  moreover have "replicate p (lv True b) = replicate 3 (lv True b) @ replicate (p - 3) (lv True b)"
    using assms(3) by (simp flip: replicate_add)
  then have "button_run (replicate p (lv True b) @ replicate 3 (lv False b)) b = d"
    using 2 h by (simp add: button_run_append)
  ultimately show ?thesis using cc by simp
qed

lemma click_rounds:
  "released b \<Longrightarrow> clicks_ok cs q \<Longrightarrow>
   \<exists>b'. button_run (map (\<lambda>p. lv p b) (drop 3 (click_levels cs q))) b = b' \<and> resting b' \<and>
     calls b' = calls b @ filter (cb b) (concat (replicate (length cs) [PRESS_DOWN, PRESS_REPEAT, PRESS_UP]) @
       click_result (repeat b + of_nat (length cs)))"
proof (induction cs q arbitrary: b rule: click_levels.induct)
  case (1 q)
  then show ?case using last_gap[of b q] by (simp add: map_replicate_const)
next
  case (2 p q' cs q)
  then have v: "3 \<le> q" "q \<le> 61" "3 \<le> p" "p < 60" "clicks_ok cs q'" by simp_all
  obtain c where c: "button_run (replicate (q - 3) (lv False b) @ replicate p (lv True b) @ replicate 3 (lv False b)) b = c"
    "released c" "cb c = cb b" "active_level c = active_level b" "repeat c = repeat b + 1"
    "calls c = calls b @ filter (cb b) [PRESS_DOWN, PRESS_REPEAT, PRESS_UP]"
    using one_more_press[OF 2(2) v(1-4)] by blast
  have l: "lv t c = lv t b" for t using c(4) by (rule lv_active)
  have "map (\<lambda>p. lv p b) (drop 3 (click_levels ((p, q') # cs) q)) =
      (replicate (q - 3) (lv False b) @ replicate p (lv True b) @ replicate 3 (lv False b)) @
      map (\<lambda>p. lv p c) (drop 3 (click_levels cs q'))"
    using v(1) click_levels_start[OF v(5)] by (simp add: l map_replicate_const) (metis (no_types) map_append map_replicate)
  then show ?case
    using 2(1)[OF c(2) v(5)] c by (simp add: button_run_append algebra_simps)
qed

text \<open>The count of presses has four bits, so that 17 presses are a single click.\<close>

lemma click_result_mod: "click_result (of_nat n) =
    (if n mod 16 = 1 then [SINGLE_CLICK] else if n mod 16 = 2 then [DOUBLE_CLICK] else [])"
proof -
  have u: "unat (of_nat n :: 4 word) = n mod 16" by (simp add: unat_of_nat take_bit_eq_mod)
  have "of_nat n = (1 :: 4 word) \<longleftrightarrow> n mod 16 = 1" "of_nat n = (2 :: 4 word) \<longleftrightarrow> n mod 16 = 2"
    by (simp_all add: word_unat_eq_iff u)
  then show ?thesis by (simp add: click_result_def)
qed

lemma seventeen_presses_are_one: "click_result (of_nat 17) = [SINGLE_CLICK]"
  by (simp only: click_result_mod) simp

text \<open>
  C20: with the long press set later than the first press lasts, a button at rest that is
  pressed once and then again after each gap of 3 to 61 readings (every press of 3 to 59
  readings) calls \<open>PRESS_DOWN\<close> and \<open>PRESS_UP\<close> for the first press, \<open>PRESS_DOWN\<close>, \<open>PRESS_REPEAT\<close>
  and \<open>PRESS_UP\<close> for each further one, and after the last gap of at least 64 readings one \<open>SINGLE_CLICK\<close>
  for one press, one \<open>DOUBLE_CLICK\<close> for two, and nothing for three or more, where the presses are counted
  modulo 16; then it rests.
\<close>

theorem button_clicks:
  assumes "resting b" "long_press_start_flag b \<noteq> CONTINUE_TRIGGER"
    and "3 \<le> p" "p - 1 \<le> unat (period b div TICKS_INTERVAL)" "clicks_ok cs q"
  shows "\<exists>b'. button_run (map (\<lambda>p. lv p b) (replicate p True @ click_levels cs q)) b = b' \<and> resting b' \<and>
    calls b' = calls b @ filter (cb b) ([PRESS_DOWN, PRESS_UP] @
      concat (replicate (length cs) [PRESS_DOWN, PRESS_REPEAT, PRESS_UP]) @
      (if (length cs + 1) mod 16 = 1 then [SINGLE_CLICK] else if (length cs + 1) mod 16 = 2 then [DOUBLE_CLICK] else []))"
proof -
  obtain c where c: "button_run (replicate p (lv True b) @ replicate 3 (lv False b)) b = c" "released c"
    "cb c = cb b" "active_level c = active_level b" "repeat c = 1"
    "calls c = calls b @ filter (cb b) [PRESS_DOWN, PRESS_UP]"
    using first_press[OF assms(1-4)] by blast
  have l: "lv t c = lv t b" for t using c(4) by (rule lv_active)
  have "map (\<lambda>p. lv p b) (replicate p True @ click_levels cs q) =
      (replicate p (lv True b) @ replicate 3 (lv False b)) @ map (\<lambda>p. lv p c) (drop 3 (click_levels cs q))"
    using click_levels_start[OF assms(5)] by (simp add: l map_replicate_const) (metis (no_types) map_append map_replicate)
  then show ?thesis
    using click_rounds[OF c(2) assms(5)] c click_result_mod[of "length cs + 1"] by (simp add: button_run_append algebra_simps)
qed

theorem button_clicks_witness:
  "calls (button_run (map (\<lambda>p. if p then 1 else 0) (replicate 20 True @ click_levels [(10, 70)] 30)) btn_ex) =
     [PRESS_DOWN, PRESS_UP, PRESS_DOWN, PRESS_REPEAT, PRESS_UP, DOUBLE_CLICK]"
proof -
  have "resting btn_ex" "long_press_start_flag btn_ex \<noteq> CONTINUE_TRIGGER"
    "20 - 1 \<le> unat (period btn_ex div TICKS_INTERVAL)" "clicks_ok [(10, 70)] 30"
    by (simp_all add: btn_ex_def button_init_def button_zero_def resting_def stored_def btn_consts)
  note r = button_clicks[OF this(1,2) _ this(3,4)]
  have l: "(\<lambda>p. lv p btn_ex) = (\<lambda>p. if p then 1 else 0)"
    by (auto simp: fun_eq_iff lv_def btn_ex_def button_init_def button_zero_def)
  have c: "calls btn_ex = []" "cb btn_ex = (\<lambda>_. True)" by (simp_all add: btn_ex_def button_init_def button_zero_def)
  have "calls btn_ex @ filter (cb btn_ex) ([PRESS_DOWN, PRESS_UP] @
      concat (replicate (length [(10::nat, 70::nat)]) [PRESS_DOWN, PRESS_REPEAT, PRESS_UP]) @
      (if (length [(10::nat, 70::nat)] + 1) mod 16 = 1 then [SINGLE_CLICK]
       else if (length [(10::nat, 70::nat)] + 1) mod 16 = 2 then [DOUBLE_CLICK] else [])) =
      [PRESS_DOWN, PRESS_UP, PRESS_DOWN, PRESS_REPEAT, PRESS_UP, DOUBLE_CLICK]"
    by (simp add: c)
  with r show ?thesis unfolding l by force
qed

text \<open>
  The constructor for a pin function with an argument does not read the pin: the stored level
  is 0, so a released button whose active level is 0 counts as pressed at its first tick,
  where \<open>button_init\<close> is silent.
\<close>

lemma button_init_ext_spurious_press:
  "calls (button_handler 1 ((button_init_ext 0)\<lparr>cb := \<lambda>_. True\<rparr>)) = [PRESS_DOWN]"
  "calls (button_handler 1 ((button_init 1 0)\<lparr>cb := \<lambda>_. True\<rparr>)) = []"
  by (simp_all add: button_init_ext_def button_init_def button_zero_def button_handler_def debounce_def
      button_fsm_def EVENT_CB_def btn_consts word_le_nat_alt)

end
