(* ===== verification/Flash_Spec.thy ===== *)
theory Flash_Spec
  imports C_Prelude
begin

text \<open>
  The abstract flash memory the storage components rely on: NOR cells, which a write can only
  clear and an erase sets to one, and the interface \<open>nor_part\<close> of a region that is read,
  written and erased. A failed write may have cleared some of the cells it was to clear, a
  failed erase may have left anything in the range; neither touches a byte outside.
\<close>

section \<open>NOR cells\<close>

definition nor_write :: "nat \<Rightarrow> u8 list \<Rightarrow> u8 list \<Rightarrow> u8 list" where
  "nor_write a bs m = blit m a (map2 (AND) bs (drop a m))"

definition nor_erase :: "nat \<Rightarrow> nat \<Rightarrow> u8 list \<Rightarrow> u8 list" where
  "nor_erase a n m = blit m a (replicate n 0xFF)"

text \<open>A cell while it is programmed: no cleared bit is set, no bit of the data is cleared.\<close>

definition between :: "u8 \<Rightarrow> u8 \<Rightarrow> u8 \<Rightarrow> bool" where
  "between old new x \<longleftrightarrow> x AND old = x \<and> x AND (old AND new) = old AND new"

definition same_outside :: "nat \<Rightarrow> nat \<Rightarrow> 'a list \<Rightarrow> 'a list \<Rightarrow> bool" where
  "same_outside a n m m' \<longleftrightarrow> length m' = length m \<and> take a m' = take a m \<and> drop (a + n) m' = drop (a + n) m"

definition partly_written :: "nat \<Rightarrow> u8 list \<Rightarrow> u8 list \<Rightarrow> u8 list \<Rightarrow> bool" where
  "partly_written a bs m m' \<longleftrightarrow> same_outside a (length bs) m m' \<and>
     (\<forall>i < length bs. between (m ! (a + i)) (bs ! i) (m' ! (a + i)))"

definition write_effect :: "nat \<Rightarrow> u8 list \<Rightarrow> int \<Rightarrow> u8 list \<Rightarrow> u8 list \<Rightarrow> bool" where
  "write_effect a bs r m m' \<longleftrightarrow> (if r \<ge> 0 then m' = nor_write a bs m else partly_written a bs m m')"

definition erase_effect :: "nat \<Rightarrow> nat \<Rightarrow> int \<Rightarrow> u8 list \<Rightarrow> u8 list \<Rightarrow> bool" where
  "erase_effect a n r m m' \<longleftrightarrow> (if r \<ge> 0 then m' = nor_erase a n m else same_outside a n m m')"

lemma length_nor_write [simp]: "a + length bs \<le> length m \<Longrightarrow> length (nor_write a bs m) = length m"
  by (simp add: nor_write_def)

lemma length_nor_erase [simp]: "a + n \<le> length m \<Longrightarrow> length (nor_erase a n m) = length m"
  by (simp add: nor_erase_def)

lemma nth_nor_write:
  "a + length bs \<le> length m \<Longrightarrow> j < length m \<Longrightarrow>
   nor_write a bs m ! j = (if a \<le> j \<and> j < a + length bs then bs ! (j - a) AND m ! j else m ! j)"
  by (auto simp: nor_write_def nth_blit)

lemma same_outside_nth:
  assumes "same_outside a n m m'" "j < length m" "j < a \<or> a + n \<le> j"
  shows "m' ! j = m ! j"
  using assms(3)
proof
  assume "j < a"
  then show ?thesis using assms(1) by (metis nth_take same_outside_def)
next
  assume j: "a + n \<le> j"
  have l: "length m' = length m" and d: "drop (a + n) m' = drop (a + n) m"
    using assms(1) by (simp_all add: same_outside_def)
  have "m' ! j = drop (a + n) m' ! (j - (a + n))" using j l assms(2) by simp
  also have "\<dots> = m ! j" unfolding d using j assms(2) by simp
  finally show ?thesis .
qed

lemma same_outside_write: "a + length bs \<le> length m \<Longrightarrow> same_outside a (length bs) m (nor_write a bs m)"
  by (simp add: same_outside_def nor_write_def take_blit drop_blit)

lemma same_outside_erase: "a + n \<le> length m \<Longrightarrow> same_outside a n m (nor_erase a n m)"
  by (simp add: same_outside_def nor_erase_def take_blit drop_blit)

lemma write_effect_outside:
  "write_effect a bs r m m' \<Longrightarrow> a + length bs \<le> length m \<Longrightarrow> same_outside a (length bs) m m'"
  by (auto simp: write_effect_def partly_written_def same_outside_write split: if_splits)

lemma erase_effect_outside: "erase_effect a n r m m' \<Longrightarrow> a + n \<le> length m \<Longrightarrow> same_outside a n m m'"
  by (auto simp: erase_effect_def same_outside_erase split: if_splits)

section \<open>A part of a memory\<close>

text \<open>What happens inside a window of the memory happens to the window, the others stay.\<close>

definition window :: "nat \<Rightarrow> nat \<Rightarrow> 'a list \<Rightarrow> 'a list" where
  "window off len m = take len (drop off m)"

lemma length_window [simp]: "off + len \<le> length m \<Longrightarrow> length (window off len m) = len"
  by (simp add: window_def)

lemma nth_window: "off + len \<le> length m \<Longrightarrow> j < len \<Longrightarrow> window off len m ! j = m ! (off + j)"
  by (simp add: window_def)

lemma window_window: "a + n \<le> len \<Longrightarrow> window a n (window off len m) = window (off + a) n m"
  by (simp add: window_def drop_take min_def add.commute)

lemma window_blit:
  "off + len \<le> length m \<Longrightarrow> a + length bs \<le> len \<Longrightarrow>
   window off len (blit m (off + a) bs) = blit (window off len m) a bs"
  by (rule nth_equalityI) (auto simp: nth_window nth_blit)

lemma window_nor_write:
  assumes "off + len \<le> length m" "a + length bs \<le> len"
  shows "window off len (nor_write (off + a) bs m) = nor_write a bs (window off len m)"
  using assms by (intro nth_equalityI) (auto simp: nth_window nth_nor_write)

lemma window_nor_erase:
  "off + len \<le> length m \<Longrightarrow> a + n \<le> len \<Longrightarrow>
   window off len (nor_erase (off + a) n m) = nor_erase a n (window off len m)"
  by (simp add: nor_erase_def window_blit)

lemma same_outsideI:
  assumes "length m' = length m" "\<And>j. j < length m \<Longrightarrow> j < a \<or> a + n \<le> j \<Longrightarrow> m' ! j = m ! j"
  shows "same_outside a n m m'"
  unfolding same_outside_def using assms by (auto intro!: nth_equalityI)

lemma window_same_outside:
  assumes "off + len \<le> length m" "same_outside (off + a) n m m'"
  shows "same_outside a n (window off len m) (window off len m')"
proof (rule same_outsideI)
  have l: "length m' = length m" using assms(2) by (simp add: same_outside_def)
  then show "length (window off len m') = length (window off len m)" using assms(1) by simp
  fix j assume "j < length (window off len m)" "j < a \<or> a + n \<le> j"
  then show "window off len m' ! j = window off len m ! j"
    using assms l same_outside_nth[OF assms(2), of "off + j"] by (auto simp: nth_window)
qed

lemma window_disjoint:
  assumes "off + len \<le> length m" "same_outside a n m m'" "a + n \<le> off \<or> off + len \<le> a"
  shows "window off len m' = window off len m"
proof -
  have l: "length m' = length m" using assms(2) by (simp add: same_outside_def)
  show ?thesis
    using assms l by (intro nth_equalityI) (auto simp: nth_window same_outside_nth[OF assms(2)])
qed

lemma window_write_effect:
  assumes "off + len \<le> length m" "a + length bs \<le> len" "write_effect (off + a) bs r m m'"
  shows "write_effect a bs r (window off len m) (window off len m')"
proof (cases "r \<ge> 0")
  case True
  with assms show ?thesis by (simp add: write_effect_def window_nor_write)
next
  case False
  then have p: "partly_written (off + a) bs m m'" using assms(3) by (simp add: write_effect_def)
  then have l: "length m' = length m" by (simp add: partly_written_def same_outside_def)
  have "same_outside a (length bs) (window off len m) (window off len m')"
    using p assms(1) by (simp add: partly_written_def window_same_outside)
  with p l assms(1,2) False show ?thesis
    by (simp add: write_effect_def partly_written_def nth_window add.assoc)
qed

lemma window_erase_effect:
  "off + len \<le> length m \<Longrightarrow> a + n \<le> len \<Longrightarrow> erase_effect (off + a) n r m m' \<Longrightarrow>
   erase_effect a n r (window off len m) (window off len m')"
  by (auto simp: erase_effect_def window_nor_erase window_same_outside split: if_splits)

section \<open>The interface\<close>

locale nor_part =
  fixes pr :: "u32 \<Rightarrow> u32 \<Rightarrow> 's \<Rightarrow> (int \<times> u8 list \<times> 's) option"
    and pw :: "u32 \<Rightarrow> u8 list \<Rightarrow> 's \<Rightarrow> (int \<times> 's) option"
    and pe :: "u32 \<Rightarrow> u32 \<Rightarrow> 's \<Rightarrow> (int \<times> 's) option"
    and content :: "'s \<Rightarrow> u8 list" and ok :: "'s \<Rightarrow> bool" and blk :: nat
  assumes read_law: "\<And>s a n. ok s \<Longrightarrow> unat a + unat n \<le> length (content s) \<Longrightarrow>
      \<exists>r s'. pr a n s = Some (r, take (unat n) (drop (unat a) (content s)), s') \<and> r = int (unat n) \<and>
        ok s' \<and> content s' = content s"
    and write_law: "\<And>s a bs. ok s \<Longrightarrow> unat a + length bs \<le> length (content s) \<Longrightarrow>
      \<exists>r s'. pw a bs s = Some (r, s') \<and> ok s' \<and> write_effect (unat a) bs r (content s) (content s')"
    and erase_law: "\<And>s a n. ok s \<Longrightarrow> unat a + unat n \<le> length (content s) \<Longrightarrow> blk dvd unat a \<Longrightarrow> blk dvd unat n \<Longrightarrow>
      \<exists>r s'. pe a n s = Some (r, s') \<and> ok s' \<and> erase_effect (unat a) (unat n) r (content s) (content s')"
    and size_small: "\<And>s. ok s \<Longrightarrow> length (content s) < 2 ^ 32"
begin

text \<open>What has been written to erased cells is read back, and the rest is as it was.\<close>

lemma write_read:
  assumes "ok s" "unat a + length bs \<le> length (content s)" "\<forall>j < length bs. content s ! (unat a + j) = 0xFF"
    and "pw a bs s = Some (r, s')" "r \<ge> 0"
  shows "content s' = blit (content s) (unat a) bs \<and>
    (\<exists>r' s''. pr a (of_nat (length bs)) s' = Some (r', bs, s'') \<and> r' = int (length bs))"
proof -
  have w: "ok s'" "write_effect (unat a) bs r (content s) (content s')"
    using write_law[OF assms(1,2)] assms(4) by auto
  have "(0xFF :: u8) = -1" by simp
  then have FF: "b AND 0xFF = b" for b :: u8 by (simp only: and.right_neutral)
  have c: "content s' = blit (content s) (unat a) bs"
  proof (rule nth_equalityI)
    have e: "content s' = nor_write (unat a) bs (content s)" using w(2) assms(5) by (simp add: write_effect_def)
    then show "length (content s') = length (blit (content s) (unat a) bs)" using assms(2) by simp
    fix i assume i: "i < length (content s')"
    have "content s ! i = 0xFF" if "unat a \<le> i" "i < unat a + length bs"
      using assms(3)[rule_format, of "i - unat a"] that by simp
    with i assms(2) show "content s' ! i = blit (content s) (unat a) bs ! i"
      by (simp add: e nth_nor_write nth_blit FF)
  qed
  have "length bs < 2 ^ 32" using assms(2) size_small[OF assms(1)] by simp
  then have n: "unat (of_nat (length bs) :: u32) = length bs" by (rule unat_of_nat_lt)
  then show ?thesis
    using read_law[OF w(1), of a "of_nat (length bs)"] assms(2) by (auto simp: c take_drop_blit_same)
qed

end

end
