(* ===== verification/Fal.thy ===== *)
theory Fal
  imports Flash_Spec
begin

text \<open>
  The flash abstraction layer (\<^verbatim>\<open>RTT_FAL/src\<close>): flash devices, the partition table and the
  reads, writes and erases of a partition, in the configuration of \<^verbatim>\<open>sample1_rtt_fal_cfg.h\<close>
  (fixed partition table, asserts on). A failed assert stays in \<open>while (1)\<close> and is the value
  \<open>None\<close>; the table and partition pointers the callers pass are not null. The driver behind
  a device is not under this library: its four operations are fields of the device, over a
  state \<open>'d\<close> of the hardware. A C string is the list of its characters before the NUL.
\<close>

section \<open>Devices and partitions\<close>

definition FAL_DEV_NAME_MAX :: nat where "FAL_DEV_NAME_MAX = 24"

record 'd fal_flash_dev =
  dev_name :: string
  dev_addr :: u32
  dev_len :: u32
  dev_blk_size :: u32
  op_init :: "('d \<Rightarrow> 'd) option"
  op_read :: "u32 \<Rightarrow> u32 \<Rightarrow> 'd \<Rightarrow> int \<times> u8 list \<times> 'd"
  op_write :: "u32 \<Rightarrow> u8 list \<Rightarrow> 'd \<Rightarrow> int \<times> 'd"
  op_erase :: "u32 \<Rightarrow> u32 \<Rightarrow> 'd \<Rightarrow> int \<times> 'd"
  dev_write_gran :: u32

record fal_partition =
  magic_word :: u32
  part_name :: string
  part_flash :: string
  part_offset :: u32
  part_len :: u32

definition FAL_PART_MAGIC_WROD :: u32 where "FAL_PART_MAGIC_WROD = 0x45503130"

text \<open>The static variables of the three files, and the hardware.\<close>

record 'd fal =
  device_table :: "'d fal_flash_dev list"
  flash_init_ok :: bool
  partition_table_def :: "fal_partition list"
  partition_table :: "fal_partition list option"
  partition_table_len :: nat
  part_init_ok :: bool
  fal_init_ok :: bool
  hardware :: 'd

text \<open>\<open>partition_table_def\<close> of the configuration.\<close>

definition part :: "string \<Rightarrow> string \<Rightarrow> u32 \<Rightarrow> u32 \<Rightarrow> fal_partition" where
  "part name flash off len = \<lparr>magic_word = FAL_PART_MAGIC_WROD, part_name = name, part_flash = flash,
     part_offset = off, part_len = len\<rparr>"

definition FAL_PART_TABLE :: "fal_partition list" where
  "FAL_PART_TABLE =
    [part ''fdb_kvdb'' ''norflash0'' 0 (512*1024),
     part ''main_mcu_temp'' ''norflash0'' (512*1024) (512*1024),
     part ''main_mcu_back'' ''norflash0'' (2*512*1024) (512*1024),
     part ''motordriver_temp'' ''norflash0'' (3*512*1024) (512*1024),
     part ''motordriver_back'' ''norflash0'' (4*512*1024) (512*1024),
     part ''fdb_tsdb'' ''norflash0'' (6*512*1024) (10*512*1024)]"

definition fal_static :: "'d fal_flash_dev list \<Rightarrow> fal_partition list \<Rightarrow> 'd \<Rightarrow> 'd fal" where
  "fal_static devs parts h = \<lparr>device_table = devs, flash_init_ok = False, partition_table_def = parts,
     partition_table = None, partition_table_len = 0, part_init_ok = False, fal_init_ok = False, hardware = h\<rparr>"

section \<open>Operations\<close>

definition fal_flash_init :: "'d fal \<Rightarrow> int \<times> 'd fal" where
  "fal_flash_init s =
     (if flash_init_ok s then (0, s)
      else (0, s\<lparr>hardware := fold (\<lambda>dev h. case op_init dev of None \<Rightarrow> h | Some f \<Rightarrow> f h) (device_table s) (hardware s),
                 flash_init_ok := True\<rparr>))"

text \<open>\<open>!strncmp(a, b, n)\<close> and \<open>!strcmp(a, b)\<close> on strings without their NUL.\<close>

definition strncmp_eq :: "nat \<Rightarrow> string \<Rightarrow> string \<Rightarrow> bool" where
  "strncmp_eq n a b \<longleftrightarrow> take n a = take n b"

fun device_find_loop :: "string \<Rightarrow> 'd fal_flash_dev list \<Rightarrow> 'd fal_flash_dev option" where
  "device_find_loop name [] = None"
| "device_find_loop name (dev # devs) =
     (if strncmp_eq FAL_DEV_NAME_MAX name (dev_name dev) then Some dev else device_find_loop name devs)"

definition fal_flash_device_find :: "string \<Rightarrow> 'd fal \<Rightarrow> 'd fal_flash_dev option option" where
  "fal_flash_device_find name s = (if flash_init_ok s then Some (device_find_loop name (device_table s)) else None)"

text \<open>The check of the loaded table: an offset behind the end of its device is refused.\<close>

fun part_check_loop :: "'d fal \<Rightarrow> fal_partition list \<Rightarrow> bool option" where
  "part_check_loop s [] = Some True"
| "part_check_loop s (p # ps) = do {
     dev \<leftarrow> fal_flash_device_find (part_flash p) s;
     case dev of
       None \<Rightarrow> part_check_loop s ps
     | Some d \<Rightarrow> if sint (part_offset p) \<ge> sint (dev_len d) then Some False else part_check_loop s ps }"

definition fal_partition_init :: "'d fal \<Rightarrow> (int \<times> 'd fal) option" where
  "fal_partition_init s =
     (if part_init_ok s then Some (int (partition_table_len s), s)
      else do {
        let s = s\<lparr>partition_table := Some (partition_table_def s), partition_table_len := length (partition_table_def s)\<rparr>;
        ok \<leftarrow> part_check_loop s (partition_table_def s);
        if ok then Some (int (partition_table_len s), s\<lparr>part_init_ok := True\<rparr>)
        else Some (0, s\<lparr>partition_table_len := 0\<rparr>) })"

definition fal_init :: "'d fal \<Rightarrow> (int \<times> 'd fal) option" where
  "fal_init s = do {
     let (result, s) = fal_flash_init s;
     (result, s) \<leftarrow> (if result < 0 then Some (result, s) else fal_partition_init s);
     Some (result, if result > 0 \<and> \<not> fal_init_ok s then s\<lparr>fal_init_ok := True\<rparr>
                   else if result \<le> 0 then s\<lparr>fal_init_ok := False\<rparr> else s) }"

definition fal_init_check :: "'d fal \<Rightarrow> int" where
  "fal_init_check s = of_bool (fal_init_ok s)"

text \<open>
  The scan of the first \<open>n\<close> cells of the table; a cell that is not there is \<open>None\<close>. The
  inner option is the pointer returned.
\<close>

fun part_find_loop :: "string \<Rightarrow> nat \<Rightarrow> fal_partition list \<Rightarrow> fal_partition option option" where
  "part_find_loop name 0 ps = Some None"
| "part_find_loop name (Suc n) [] = None"
| "part_find_loop name (Suc n) (p # ps) =
     (if name = part_name p then Some (Some p) else part_find_loop name n ps)"

definition fal_partition_find :: "string \<Rightarrow> 'd fal \<Rightarrow> fal_partition option option" where
  "fal_partition_find name s =
     (if part_init_ok s then do {
        ps \<leftarrow> partition_table s;
        part_find_loop name (partition_table_len s) ps } else None)"

definition fal_get_partition_table :: "'d fal \<Rightarrow> (nat \<times> fal_partition list option) option" where
  "fal_get_partition_table s =
     (if part_init_ok s then Some (partition_table_len s, partition_table s) else None)"

definition fal_set_partition_table_temp :: "fal_partition list \<Rightarrow> nat \<Rightarrow> 'd fal \<Rightarrow> 'd fal option" where
  "fal_set_partition_table_temp table len s =
     (if part_init_ok s then Some (s\<lparr>partition_table_len := len, partition_table := Some table\<rparr>) else None)"

definition fal_partition_read :: "fal_partition \<Rightarrow> u32 \<Rightarrow> u32 \<Rightarrow> 'd fal \<Rightarrow> (int \<times> u8 list \<times> 'd fal) option" where
  "fal_partition_read p addr n s =
     (if addr + n > part_len p then Some (-1, [], s)
      else do {
        flash_dev \<leftarrow> fal_flash_device_find (part_flash p) s;
        case flash_dev of
          None \<Rightarrow> Some (-1, [], s)
        | Some dev \<Rightarrow>
            let (ret, buf, h) = op_read dev (part_offset p + addr) n (hardware s)
            in Some (ret, buf, s\<lparr>hardware := h\<rparr>) })"

definition fal_partition_write :: "fal_partition \<Rightarrow> u32 \<Rightarrow> u8 list \<Rightarrow> 'd fal \<Rightarrow> (int \<times> 'd fal) option" where
  "fal_partition_write p addr buf s =
     (if addr + of_nat (length buf) > part_len p then Some (-1, s)
      else do {
        flash_dev \<leftarrow> fal_flash_device_find (part_flash p) s;
        case flash_dev of
          None \<Rightarrow> Some (-1, s)
        | Some dev \<Rightarrow>
            let (ret, h) = op_write dev (part_offset p + addr) buf (hardware s)
            in Some (ret, s\<lparr>hardware := h\<rparr>) })"

definition fal_partition_erase :: "fal_partition \<Rightarrow> u32 \<Rightarrow> u32 \<Rightarrow> 'd fal \<Rightarrow> (int \<times> 'd fal) option" where
  "fal_partition_erase p addr n s =
     (if addr + n > part_len p then Some (-1, s)
      else do {
        flash_dev \<leftarrow> fal_flash_device_find (part_flash p) s;
        case flash_dev of
          None \<Rightarrow> Some (-1, s)
        | Some dev \<Rightarrow>
            let (ret, h) = op_erase dev (part_offset p + addr) n (hardware s)
            in Some (ret, s\<lparr>hardware := h\<rparr>) })"

definition fal_partition_erase_all :: "fal_partition \<Rightarrow> 'd fal \<Rightarrow> (int \<times> 'd fal) option" where
  "fal_partition_erase_all p s = fal_partition_erase p 0 (part_len p) s"

section \<open>A partition is a flash memory of its own\<close>

text \<open>
  What the driver of a NOR device promises over the memory \<open>mem\<close> of the chip, for accesses
  inside it. The port of \<^verbatim>\<open>fal_flash_sfud_port.c\<close> reports a read as successful in any case and answers its size.
\<close>

definition nor_dev :: "('d \<Rightarrow> u8 list) \<Rightarrow> 'd fal_flash_dev \<Rightarrow> bool" where
  "nor_dev mem dev \<longleftrightarrow>
     (\<forall>a n h. length (mem h) = unat (dev_len dev) \<longrightarrow> unat a + unat n \<le> unat (dev_len dev) \<longrightarrow>
        (case op_read dev a n h of (r, buf, h') \<Rightarrow> r = int (unat n) \<and> buf = window (unat a) (unat n) (mem h) \<and> mem h' = mem h)) \<and>
     (\<forall>a bs h. length (mem h) = unat (dev_len dev) \<longrightarrow> unat a + length bs \<le> unat (dev_len dev) \<longrightarrow>
        (case op_write dev a bs h of (r, h') \<Rightarrow> write_effect (unat a) bs r (mem h) (mem h'))) \<and>
     (\<forall>a n h. length (mem h) = unat (dev_len dev) \<longrightarrow> unat a + unat n \<le> unat (dev_len dev) \<longrightarrow>
        unat (dev_blk_size dev) dvd unat a \<longrightarrow> unat (dev_blk_size dev) dvd unat n \<longrightarrow>
        (case op_erase dev a n h of (r, h') \<Rightarrow> erase_effect (unat a) (unat n) r (mem h) (mem h')))"

text \<open>The state the layer is in after initialisation, for a partition that lies in its device.\<close>

definition fal_ok :: "('d \<Rightarrow> u8 list) \<Rightarrow> nat \<Rightarrow> fal_partition \<Rightarrow> 'd fal \<Rightarrow> bool" where
  "fal_ok mem blk p s \<longleftrightarrow> flash_init_ok s \<and>
     (\<exists>dev. device_find_loop (part_flash p) (device_table s) = Some dev \<and> nor_dev mem dev \<and>
        length (mem (hardware s)) = unat (dev_len dev) \<and> blk = unat (dev_blk_size dev) \<and>
        unat (part_offset p) + unat (part_len p) \<le> unat (dev_len dev) \<and> blk dvd unat (part_offset p))"

definition fal_content :: "('d \<Rightarrow> u8 list) \<Rightarrow> fal_partition \<Rightarrow> 'd fal \<Rightarrow> u8 list" where
  "fal_content mem p s = window (unat (part_offset p)) (unat (part_len p)) (mem (hardware s))"

lemma fal_okE:
  assumes "fal_ok mem blk p s"
  obtains dev where "flash_init_ok s" "device_find_loop (part_flash p) (device_table s) = Some dev" "nor_dev mem dev"
    "length (mem (hardware s)) = unat (dev_len dev)" "blk = unat (dev_blk_size dev)"
    "unat (part_offset p) + unat (part_len p) \<le> unat (dev_len dev)" "blk dvd unat (part_offset p)"
  using assms by (auto simp: fal_ok_def)

lemma fal_ok_hardware: "fal_ok mem blk p s \<Longrightarrow> length (mem h) = length (mem (hardware s)) \<Longrightarrow> fal_ok mem blk p (s\<lparr>hardware := h\<rparr>)"
  by (auto simp: fal_ok_def)

lemma length_fal_content: "fal_ok mem blk p s \<Longrightarrow> length (fal_content mem p s) = unat (part_len p)"
  by (auto simp: fal_ok_def fal_content_def)

lemma unat_lt32: "unat (x :: u32) < 4294967296"
  using unsigned_less[of x] by simp

lemma in_range_check:
  fixes a m len :: u32
  assumes "unat a + n \<le> unat len" "n = unat m"
  shows "\<not> a + m > len"
proof -
  have "unat a + unat m < 2 ^ LENGTH(32)" using assms unat_lt32[of len] by simp
  then have "unat (a + m) = unat a + unat m" by (rule unat_add_small)
  then show ?thesis using assms by (simp add: word_less_nat_alt)
qed

lemma unat_off:
  fixes off len dl a :: u32
  assumes "unat off + unat len \<le> unat dl" "unat a + n \<le> unat len"
  shows "unat (off + a) = unat off + unat a"
  using assms unat_lt32[of dl] by (intro unat_add_small) simp

lemma nor_dev_erase:
  fixes a n :: u32
  assumes "nor_dev mem dev" "length (mem h) = unat (dev_len dev)" "unat a + unat n \<le> unat (dev_len dev)"
    "unat (dev_blk_size dev) dvd unat a" "unat (dev_blk_size dev) dvd unat n"
  shows "case op_erase dev a n h of (r, h') \<Rightarrow> erase_effect (unat a) (unat n) r (mem h) (mem h')"
  by (rule assms(1)[unfolded nor_dev_def, THEN conjunct2, THEN conjunct2, rule_format, OF assms(2-5)])

lemma nor_dev_write:
  fixes a :: u32
  assumes "nor_dev mem dev" "length (mem h) = unat (dev_len dev)" "unat a + length bs \<le> unat (dev_len dev)"
  shows "case op_write dev a bs h of (r, h') \<Rightarrow> write_effect (unat a) bs r (mem h) (mem h')"
  by (rule assms(1)[unfolded nor_dev_def, THEN conjunct2, THEN conjunct1, rule_format, OF assms(2,3)])

lemma fal_read:
  assumes "fal_ok mem blk p s" "unat a + unat n \<le> unat (part_len p)"
  shows "\<exists>r h. fal_partition_read p a n s = Some (r, take (unat n) (drop (unat a) (fal_content mem p s)), s\<lparr>hardware := h\<rparr>) \<and>
    r = int (unat n) \<and> mem h = mem (hardware s)"
  using assms(1)
proof (rule fal_okE)
  fix dev assume d: "flash_init_ok s" "device_find_loop (part_flash p) (device_table s) = Some dev" "nor_dev mem dev"
    "length (mem (hardware s)) = unat (dev_len dev)" "blk = unat (dev_blk_size dev)"
    "unat (part_offset p) + unat (part_len p) \<le> unat (dev_len dev)" "blk dvd unat (part_offset p)"
  have o: "unat (part_offset p + a) = unat (part_offset p) + unat a" by (rule unat_off[OF d(6) assms(2)])
  obtain r buf h where h: "op_read dev (part_offset p + a) n (hardware s) = (r, buf, h)" by (cases "op_read dev (part_offset p + a) n (hardware s)")
  have "unat (part_offset p + a) + unat n \<le> unat (dev_len dev)" using o d(6) assms(2) by simp
  with d(3,4) h have "r = int (unat n) \<and> buf = window (unat (part_offset p + a)) (unat n) (mem (hardware s)) \<and> mem h = mem (hardware s)"
    unfolding nor_dev_def by fastforce
  moreover have "window (unat (part_offset p + a)) (unat n) (mem (hardware s)) = take (unat n) (drop (unat a) (fal_content mem p s))"
    using assms(2) by (simp add: o window_def fal_content_def drop_take min_def add.commute[of "unat a"])
  ultimately show ?thesis
    using d(1,2) h in_range_check[OF assms(2) refl]
    by (intro exI[of _ r] exI[of _ h]) (simp add: fal_partition_read_def fal_flash_device_find_def)
qed

lemma fal_write:
  assumes "fal_ok mem blk p s" "unat a + length bs \<le> unat (part_len p)"
  shows "\<exists>r h. fal_partition_write p a bs s = Some (r, s\<lparr>hardware := h\<rparr>) \<and>
    write_effect (unat (part_offset p) + unat a) bs r (mem (hardware s)) (mem h)"
  using assms(1)
proof (rule fal_okE)
  fix dev assume d: "flash_init_ok s" "device_find_loop (part_flash p) (device_table s) = Some dev" "nor_dev mem dev"
    "length (mem (hardware s)) = unat (dev_len dev)" "blk = unat (dev_blk_size dev)"
    "unat (part_offset p) + unat (part_len p) \<le> unat (dev_len dev)" "blk dvd unat (part_offset p)"
  have o: "unat (part_offset p + a) = unat (part_offset p) + unat a" by (rule unat_off[OF d(6) assms(2)])
  have "length bs < 2 ^ 32" using assms(2) unat_lt32[of "part_len p"] by simp
  then have n: "length bs = unat (of_nat (length bs) :: u32)" by (simp add: unat_of_nat_lt)
  obtain r h where h: "op_write dev (part_offset p + a) bs (hardware s) = (r, h)" by (cases "op_write dev (part_offset p + a) bs (hardware s)")
  have "unat (part_offset p + a) + length bs \<le> unat (dev_len dev)" using o d(6) assms(2) by simp
  with d(3,4) h have "write_effect (unat (part_offset p + a)) bs r (mem (hardware s)) (mem h)"
    unfolding nor_dev_def by fastforce
  then show ?thesis
    using d(1,2) h in_range_check[OF assms(2) n]
    by (intro exI[of _ r] exI[of _ h]) (simp add: fal_partition_write_def fal_flash_device_find_def o)
qed

lemma fal_erase:
  assumes "fal_ok mem blk p s" "unat a + unat n \<le> unat (part_len p)" "blk dvd unat a" "blk dvd unat n"
  shows "\<exists>r h. fal_partition_erase p a n s = Some (r, s\<lparr>hardware := h\<rparr>) \<and>
    erase_effect (unat (part_offset p) + unat a) (unat n) r (mem (hardware s)) (mem h)"
  using assms(1)
proof (rule fal_okE)
  fix dev assume d: "flash_init_ok s" "device_find_loop (part_flash p) (device_table s) = Some dev" "nor_dev mem dev"
    "length (mem (hardware s)) = unat (dev_len dev)" "blk = unat (dev_blk_size dev)"
    "unat (part_offset p) + unat (part_len p) \<le> unat (dev_len dev)" "blk dvd unat (part_offset p)"
  have o: "unat (part_offset p + a) = unat (part_offset p) + unat a" by (rule unat_off[OF d(6) assms(2)])
  obtain r h where h: "op_erase dev (part_offset p + a) n (hardware s) = (r, h)" by (cases "op_erase dev (part_offset p + a) n (hardware s)")
  have "unat (part_offset p + a) + unat n \<le> unat (dev_len dev)" using o d(6) assms(2) by simp
  moreover have "unat (dev_blk_size dev) dvd unat (part_offset p + a)" "unat (dev_blk_size dev) dvd unat n"
    using assms(3,4) d(5,7) by (simp_all add: o)
  ultimately have "erase_effect (unat (part_offset p + a)) (unat n) r (mem (hardware s)) (mem h)"
    using nor_dev_erase[OF d(3,4)] h by fastforce
  then show ?thesis
    using d(1,2) h in_range_check[OF assms(2) refl]
    by (intro exI[of _ r] exI[of _ h]) (simp add: fal_partition_erase_def fal_flash_device_find_def o)
qed

lemma fal_ok_fits: "fal_ok mem blk p s \<Longrightarrow> unat (part_offset p) + unat (part_len p) \<le> length (mem (hardware s))"
  by (auto simp: fal_ok_def)

lemma write_effect_length: "write_effect a bs r m m' \<Longrightarrow> a + length bs \<le> length m \<Longrightarrow> length m' = length m"
  using write_effect_outside by (auto simp: same_outside_def)

lemma erase_effect_length: "erase_effect a n r m m' \<Longrightarrow> a + n \<le> length m \<Longrightarrow> length m' = length m"
  using erase_effect_outside by (auto simp: same_outside_def)

interpretation fal: nor_part "fal_partition_read p" "fal_partition_write p" "fal_partition_erase p"
  "fal_content mem p" "fal_ok mem blk p" blk
proof unfold_locales
  fix s :: "'a fal" and a n :: u32 assume ok: "fal_ok mem blk p s" "unat a + unat n \<le> length (fal_content mem p s)"
  then have r: "unat a + unat n \<le> unat (part_len p)" by (simp add: length_fal_content)
  obtain r h where h: "fal_partition_read p a n s = Some (r, take (unat n) (drop (unat a) (fal_content mem p s)), s\<lparr>hardware := h\<rparr>)"
    "r = int (unat n)" "mem h = mem (hardware s)" using fal_read[OF ok(1) r] by blast
  then show "\<exists>r s'. fal_partition_read p a n s = Some (r, take (unat n) (drop (unat a) (fal_content mem p s)), s') \<and>
      r = int (unat n) \<and> fal_ok mem blk p s' \<and> fal_content mem p s' = fal_content mem p s"
    using fal_ok_hardware[OF ok(1), of h] by (auto simp: fal_content_def)
next
  fix s :: "'a fal" and a :: u32 and bs :: "u8 list" assume ok: "fal_ok mem blk p s" "unat a + length bs \<le> length (fal_content mem p s)"
  then have r: "unat a + length bs \<le> unat (part_len p)" by (simp add: length_fal_content)
  obtain r h where h: "fal_partition_write p a bs s = Some (r, s\<lparr>hardware := h\<rparr>)"
    "write_effect (unat (part_offset p) + unat a) bs r (mem (hardware s)) (mem h)" using fal_write[OF ok(1) r] by blast
  with fal_ok_fits[OF ok(1)] r write_effect_length[OF h(2)] show
    "\<exists>r s'. fal_partition_write p a bs s = Some (r, s') \<and> fal_ok mem blk p s' \<and>
      write_effect (unat a) bs r (fal_content mem p s) (fal_content mem p s')"
    by (auto simp: fal_content_def window_write_effect intro!: fal_ok_hardware[OF ok(1)])
next
  fix s :: "'a fal" and a n :: u32 assume ok: "fal_ok mem blk p s" "unat a + unat n \<le> length (fal_content mem p s)" "blk dvd unat a" "blk dvd unat n"
  then have r: "unat a + unat n \<le> unat (part_len p)" by (simp add: length_fal_content)
  obtain r h where h: "fal_partition_erase p a n s = Some (r, s\<lparr>hardware := h\<rparr>)"
    "erase_effect (unat (part_offset p) + unat a) (unat n) r (mem (hardware s)) (mem h)" using fal_erase[OF ok(1) r ok(3,4)] by blast
  with fal_ok_fits[OF ok(1)] r erase_effect_length[OF h(2)] show
    "\<exists>r s'. fal_partition_erase p a n s = Some (r, s') \<and> fal_ok mem blk p s' \<and>
      erase_effect (unat a) (unat n) r (fal_content mem p s) (fal_content mem p s')"
    by (auto simp: fal_content_def window_erase_effect intro!: fal_ok_hardware[OF ok(1)])
next
  fix s :: "'a fal" assume "fal_ok mem blk p s"
  then show "length (fal_content mem p s) < 2 ^ 32" using unat_lt32[of "part_len p"] by (simp add: length_fal_content)
qed

section \<open>A flash that does not fail\<close>

definition reliable :: "('d \<Rightarrow> u8 list) \<Rightarrow> 'd fal_flash_dev list \<Rightarrow> bool" where
  "reliable mem devs \<longleftrightarrow> (\<forall>dev \<in> set devs.
     (\<forall>a bs h. length (mem h) = unat (dev_len dev) \<longrightarrow> unat a + length bs \<le> unat (dev_len dev) \<longrightarrow> fst (op_write dev a bs h) \<ge> 0) \<and>
     (\<forall>a n h. length (mem h) = unat (dev_len dev) \<longrightarrow> unat a + unat n \<le> unat (dev_len dev) \<longrightarrow>
        unat (dev_blk_size dev) dvd unat a \<longrightarrow> unat (dev_blk_size dev) dvd unat n \<longrightarrow> fst (op_erase dev a n h) \<ge> 0))"

lemma device_find_in: "device_find_loop name devs = Some dev \<Longrightarrow> dev \<in> set devs"
  by (induction devs) (auto split: if_split_asm)

lemma fal_reliable_write:
  assumes "fal_ok mem blk p f" "reliable mem (device_table f)" "unat a + length bs \<le> unat (part_len p)"
    and "fal_partition_write p a bs f = Some (r, f')"
  shows "r \<ge> 0"
  using assms(1)
proof (rule fal_okE)
  fix dev assume d: "flash_init_ok f" "device_find_loop (part_flash p) (device_table f) = Some dev"
    "length (mem (hardware f)) = unat (dev_len dev)" "unat (part_offset p) + unat (part_len p) \<le> unat (dev_len dev)"
  have "length bs < 2 ^ 32" using assms(3) unat_lt32[of "part_len p"] by simp
  then have n: "length bs = unat (of_nat (length bs) :: u32)" by (simp add: unat_of_nat_lt)
  have "unat (part_offset p + a) + length bs \<le> unat (dev_len dev)" using unat_off[OF d(4) assms(3)] d(4) assms(3) by simp
  then have "fst (op_write dev (part_offset p + a) bs (hardware f)) \<ge> 0"
    using assms(2) device_find_in[OF d(2)] d(3) by (simp add: reliable_def)
  then show ?thesis
    using assms(4) d in_range_check[OF assms(3) n]
    by (auto simp: fal_partition_write_def fal_flash_device_find_def split: prod.split_asm)
qed

lemma fal_reliable_erase:
  assumes "fal_ok mem blk p f" "reliable mem (device_table f)" "unat a + unat n \<le> unat (part_len p)"
    and "blk dvd unat a" "blk dvd unat n" and "fal_partition_erase p a n f = Some (r, f')"
  shows "r \<ge> 0"
  using assms(1)
proof (rule fal_okE)
  fix dev assume d: "flash_init_ok f" "device_find_loop (part_flash p) (device_table f) = Some dev"
    "length (mem (hardware f)) = unat (dev_len dev)" "unat (part_offset p) + unat (part_len p) \<le> unat (dev_len dev)"
    "blk = unat (dev_blk_size dev)" "blk dvd unat (part_offset p)"
  note o = unat_off[OF d(4) assms(3)]
  have "unat (part_offset p + a) + unat n \<le> unat (dev_len dev)" using o d(4) assms(3) by simp
  moreover have "unat (dev_blk_size dev) dvd unat (part_offset p + a)" "unat (dev_blk_size dev) dvd unat n"
    using assms(4,5) d(5,6) by (simp_all add: o)
  ultimately have "fst (op_erase dev (part_offset p + a) n (hardware f)) \<ge> 0"
    using assms(2) device_find_in[OF d(2)] d(3) by (simp add: reliable_def)
  then show ?thesis
    using assms(6) d in_range_check[OF assms(3) refl]
    by (auto simp: fal_partition_erase_def fal_flash_device_find_def split: prod.split_asm)
qed

section \<open>The partitions do not disturb each other\<close>

datatype fal_op = FRead u32 u32 | FWrite u32 "u8 list" | FErase u32 u32

definition fal_exec :: "fal_partition \<Rightarrow> fal_op \<Rightarrow> 'd fal \<Rightarrow> (int \<times> u8 list \<times> 'd fal) option" where
  "fal_exec p op s = (case op of
     FRead a n \<Rightarrow> fal_partition_read p a n s
   | FWrite a bs \<Rightarrow> map_option (\<lambda>(r, s). (r, [], s)) (fal_partition_write p a bs s)
   | FErase a n \<Rightarrow> map_option (\<lambda>(r, s). (r, [], s)) (fal_partition_erase p a n s))"

fun fal_run :: "(fal_partition \<times> fal_op) list \<Rightarrow> 'd fal \<Rightarrow> ((int \<times> u8 list) list \<times> 'd fal) option" where
  "fal_run [] s = Some ([], s)"
| "fal_run ((p, op) # ops) s = do {
     (r, data, s) \<leftarrow> fal_exec p op s;
     (rs, s) \<leftarrow> fal_run ops s;
     Some ((r, data) # rs, s) }"

text \<open>Accesses inside the partition, erases of whole blocks.\<close>

definition op_in :: "nat \<Rightarrow> fal_partition \<Rightarrow> fal_op \<Rightarrow> bool" where
  "op_in blk p op = (case op of
     FRead a n \<Rightarrow> unat a + unat n \<le> unat (part_len p)
   | FWrite a bs \<Rightarrow> unat a + length bs \<le> unat (part_len p)
   | FErase a n \<Rightarrow> unat a + unat n \<le> unat (part_len p) \<and> blk dvd unat a \<and> blk dvd unat n)"

definition op_effect :: "fal_op \<Rightarrow> int \<times> u8 list \<Rightarrow> u8 list \<Rightarrow> u8 list \<Rightarrow> bool" where
  "op_effect op res m m' = (case op of
     FRead a n \<Rightarrow> fst res = int (unat n) \<and> snd res = take (unat n) (drop (unat a) m) \<and> m' = m
   | FWrite a bs \<Rightarrow> write_effect (unat a) bs (fst res) m m'
   | FErase a n \<Rightarrow> erase_effect (unat a) (unat n) (fst res) m m')"

text \<open>The history of one partition: only the operations on it have an effect on it.\<close>

fun evolves :: "fal_partition \<Rightarrow> (fal_partition \<times> fal_op) list \<Rightarrow> (int \<times> u8 list) list \<Rightarrow> u8 list \<Rightarrow> u8 list \<Rightarrow> bool" where
  "evolves q ((p, op) # ops) (r # rs) m m' =
     (if p = q then \<exists>m1. op_effect op r m m1 \<and> evolves q ops rs m1 m' else evolves q ops rs m m')"
| "evolves q [] [] m m' = (m' = m)"
| "evolves q _ _ m m' = False"

definition parts_disjoint :: "fal_partition \<Rightarrow> fal_partition \<Rightarrow> bool" where
  "parts_disjoint p q \<longleftrightarrow> unat (part_offset p) + unat (part_len p) \<le> unat (part_offset q) \<or>
     unat (part_offset q) + unat (part_len q) \<le> unat (part_offset p)"

lemma fal_exec_effect:
  assumes "fal_ok mem blk p s" "op_in blk p op"
  shows "\<exists>r data h. fal_exec p op s = Some (r, data, s\<lparr>hardware := h\<rparr>) \<and>
    length (mem h) = length (mem (hardware s)) \<and>
    op_effect op (r, data) (fal_content mem p s) (fal_content mem p (s\<lparr>hardware := h\<rparr>)) \<and>
    same_outside (unat (part_offset p)) (unat (part_len p)) (mem (hardware s)) (mem h)"
proof -
  note fits = fal_ok_fits[OF assms(1)]
  have widen: "same_outside (unat (part_offset p)) (unat (part_len p)) m m'"
    if "same_outside (unat (part_offset p) + a) n m m'" "a + n \<le> unat (part_len p)" for a n and m m' :: "u8 list"
    using that same_outside_nth[OF that(1)] by (intro same_outsideI) (auto simp: same_outside_def)
  show ?thesis
  proof (cases op)
    case (FRead a n)
    then have r: "unat a + unat n \<le> unat (part_len p)" using assms(2) by (simp add: op_in_def)
    obtain r h where h: "fal_partition_read p a n s = Some (r, take (unat n) (drop (unat a) (fal_content mem p s)), s\<lparr>hardware := h\<rparr>)"
      "r = int (unat n)" "mem h = mem (hardware s)" using fal_read[OF assms(1) r] by blast
    show ?thesis
      by (rule exI[of _ r], rule exI[of _ "take (unat n) (drop (unat a) (fal_content mem p s))"], rule exI[of _ h])
        (simp add: FRead h fal_exec_def op_effect_def same_outside_def, simp add: fal_content_def h)
  next
    case (FWrite a bs)
    then have r: "unat a + length bs \<le> unat (part_len p)" using assms(2) by (simp add: op_in_def)
    obtain r h where h: "fal_partition_write p a bs s = Some (r, s\<lparr>hardware := h\<rparr>)"
      "write_effect (unat (part_offset p) + unat a) bs r (mem (hardware s)) (mem h)"
      using fal_write[OF assms(1) r] by blast
    have "same_outside (unat (part_offset p) + unat a) (length bs) (mem (hardware s)) (mem h)"
      using write_effect_outside[OF h(2)] fits r by simp
    note so = widen[OF this r]
    then have "length (mem h) = length (mem (hardware s))" by (simp only: same_outside_def)
    with so window_write_effect[OF fits r h(2)] show ?thesis
      by (intro exI[of _ r] exI[of _ "[]"] exI[of _ h]) (simp add: fal_exec_def op_effect_def fal_content_def h(1) FWrite)
  next
    case (FErase a n)
    then have r: "unat a + unat n \<le> unat (part_len p)" "blk dvd unat a" "blk dvd unat n"
      using assms(2) by (simp_all add: op_in_def)
    obtain r h where h: "fal_partition_erase p a n s = Some (r, s\<lparr>hardware := h\<rparr>)"
      "erase_effect (unat (part_offset p) + unat a) (unat n) r (mem (hardware s)) (mem h)"
      using fal_erase[OF assms(1) r] by blast
    have "same_outside (unat (part_offset p) + unat a) (unat n) (mem (hardware s)) (mem h)"
      using erase_effect_outside[OF h(2)] fits r by simp
    note so = widen[OF this r(1)]
    then have "length (mem h) = length (mem (hardware s))" by (simp only: same_outside_def)
    with so window_erase_effect[OF fits r(1) h(2)] show ?thesis
      by (intro exI[of _ r] exI[of _ "[]"] exI[of _ h]) (simp add: fal_exec_def op_effect_def fal_content_def h(1) FErase)
  qed
qed

lemma fal_run_isolated:
  assumes "\<forall>p \<in> P. \<forall>q \<in> P. p \<noteq> q \<longrightarrow> parts_disjoint p q"
  shows "\<forall>p \<in> P. fal_ok mem blk p s \<Longrightarrow> \<forall>(p, op) \<in> set ops. p \<in> P \<and> op_in blk p op \<Longrightarrow>
    \<exists>rs s'. fal_run ops s = Some (rs, s') \<and>
      (\<forall>q \<in> P. fal_ok mem blk q s' \<and> evolves q ops rs (fal_content mem q s) (fal_content mem q s'))"
proof (induction ops arbitrary: s)
  case (Cons pop ops)
  obtain p op where pop: "pop = (p, op)" by (cases pop)
  then have p: "p \<in> P" "op_in blk p op" using Cons.prems(2) by auto
  obtain r data h where h: "fal_exec p op s = Some (r, data, s\<lparr>hardware := h\<rparr>)"
    "length (mem h) = length (mem (hardware s))"
    "op_effect op (r, data) (fal_content mem p s) (fal_content mem p (s\<lparr>hardware := h\<rparr>))"
    "same_outside (unat (part_offset p)) (unat (part_len p)) (mem (hardware s)) (mem h)"
    using fal_exec_effect[OF _ p(2)] Cons.prems(1) p(1) by blast
  have other: "fal_content mem q (s\<lparr>hardware := h\<rparr>) = fal_content mem q s" if "q \<in> P" "q \<noteq> p" for q
  proof -
    have "parts_disjoint p q" by (rule assms[rule_format, OF p(1) that(1) that(2)[symmetric]])
    then have d: "unat (part_offset p) + unat (part_len p) \<le> unat (part_offset q) \<or>
        unat (part_offset q) + unat (part_len q) \<le> unat (part_offset p)" by (simp only: parts_disjoint_def)
    have "fal_ok mem blk q s" using Cons.prems(1) that(1) by blast
    from window_disjoint[OF fal_ok_fits[OF this] h(4) d] show ?thesis by (simp add: fal_content_def)
  qed
  have "\<forall>q \<in> P. fal_ok mem blk q (s\<lparr>hardware := h\<rparr>)" using Cons.prems(1) fal_ok_hardware[OF _ h(2)] by blast
  from Cons.IH[OF this] Cons.prems(2) obtain rs s' where rs: "fal_run ops (s\<lparr>hardware := h\<rparr>) = Some (rs, s')"
    "\<forall>q \<in> P. fal_ok mem blk q s' \<and> evolves q ops rs (fal_content mem q (s\<lparr>hardware := h\<rparr>)) (fal_content mem q s')"
    by auto
  have "fal_run (pop # ops) s = Some ((r, data) # rs, s')" by (simp add: pop h(1) rs(1))
  moreover have "fal_ok mem blk q s' \<and> evolves q (pop # ops) ((r, data) # rs) (fal_content mem q s) (fal_content mem q s')"
    if "q \<in> P" for q
  proof (cases "q = p")
    case True
    have "evolves p ops rs (fal_content mem p (s\<lparr>hardware := h\<rparr>)) (fal_content mem p s')" using rs(2) p(1) by blast
    with h(3) have "\<exists>m1. op_effect op (r, data) (fal_content mem p s) m1 \<and> evolves p ops rs m1 (fal_content mem p s')" by blast
    moreover have "fal_ok mem blk p s'" using rs(2) p(1) by blast
    ultimately show ?thesis by (simp add: pop True)
  next
    case False
    then show ?thesis using rs(2)[rule_format, OF that] other[OF that False] by (simp add: pop)
  qed
  ultimately show ?case by blast
qed simp

text \<open>The partition table of the configuration: disjoint, aligned to any block size up to 512 KiB.\<close>

lemma sorted_wrt_ne: "sorted_wrt R xs \<Longrightarrow> x \<in> set xs \<Longrightarrow> y \<in> set xs \<Longrightarrow> x \<noteq> y \<Longrightarrow> R x y \<or> R y x"
  by (induction xs) auto

lemma FAL_PART_TABLE_sorted:
  "sorted_wrt (\<lambda>p q. unat (part_offset p) + unat (part_len p) \<le> unat (part_offset q)) FAL_PART_TABLE"
  by (simp add: FAL_PART_TABLE_def part_def)

lemma FAL_PART_TABLE_disjoint: "\<forall>p \<in> set FAL_PART_TABLE. \<forall>q \<in> set FAL_PART_TABLE. p \<noteq> q \<longrightarrow> parts_disjoint p q"
  using sorted_wrt_ne[OF FAL_PART_TABLE_sorted] by (fastforce simp: parts_disjoint_def)

lemma FAL_PART_TABLE_fits:
  "p \<in> set FAL_PART_TABLE \<Longrightarrow> part_flash p = ''norflash0'' \<and>
     unat (part_offset p) + unat (part_len p) \<le> 16*512*1024 \<and> 512*1024 dvd unat (part_offset p)"
  unfolding FAL_PART_TABLE_def list.set by (auto simp: part_def)

lemma FAL_PART_TABLE_offsets: "p \<in> set FAL_PART_TABLE \<Longrightarrow> sint (part_offset p) \<le> 6*512*1024"
  unfolding FAL_PART_TABLE_def list.set by (auto simp: part_def)

lemma sint_unat_small: "unat x < 2 ^ 31 \<Longrightarrow> sint x = int (unat x)" for x :: u32
proof -
  assume a: "unat x < 2 ^ 31"
  have u: "uint x = int (unat x)" by simp
  have "signed_take_bit 31 (int n) = int n" if "n < 2 ^ 31" for n
    using that by (intro signed_take_bit_int_eq_self) auto
  from this[OF a] have "signed_take_bit 31 (int (unat x)) = int (unat x)" .
  moreover have "LENGTH(32) - Suc 0 = 31" by simp
  ultimately show ?thesis by (simp only: sint_uint u)
qed

definition inited :: "'d fal_flash_dev \<Rightarrow> 'd \<Rightarrow> 'd" where
  "inited dev h = (case op_init dev of None \<Rightarrow> h | Some f \<Rightarrow> f h)"

definition fal_ready :: "'d fal_flash_dev \<Rightarrow> 'd \<Rightarrow> 'd fal" where
  "fal_ready dev h = \<lparr>device_table = [dev], flash_init_ok = True, partition_table_def = FAL_PART_TABLE,
     partition_table = Some FAL_PART_TABLE, partition_table_len = 6, part_init_ok = True, fal_init_ok = True,
     hardware = inited dev h\<rparr>"

lemma fal_init_ready:
  assumes "dev_name dev = ''norflash0''" "16*512*1024 \<le> unat (dev_len dev)" "unat (dev_len dev) < 2 ^ 31"
  shows "fal_init (fal_static [dev] FAL_PART_TABLE h) = Some (6, fal_ready dev h)"
proof -
  have chk: "part_check_loop s ps = Some True"
    if "flash_init_ok s" "device_table s = [dev]" "set ps \<subseteq> set FAL_PART_TABLE" for ps and s :: "'a fal"
    using that(3)
  proof (induction ps)
    case (Cons p ps)
    then have p: "part_flash p = ''norflash0''" "sint (part_offset p) \<le> 6*512*1024"
      using FAL_PART_TABLE_fits[of p] FAL_PART_TABLE_offsets[of p] by auto
    have "sint (part_offset p) < sint (dev_len dev)"
      unfolding sint_unat_small[OF assms(3)] using p(2) assms(2) by linarith
    with Cons that(1,2) p(1) show ?case
      by (simp add: fal_flash_device_find_def assms(1) strncmp_eq_def)
  qed simp
  have l: "length FAL_PART_TABLE = 6" by (simp add: FAL_PART_TABLE_def)
  show ?thesis
    by (simp add: fal_init_def fal_flash_init_def fal_static_def fal_partition_init_def chk l fal_ready_def inited_def)
qed

lemma fal_ready_ok:
  assumes "nor_dev mem dev" "dev_name dev = ''norflash0''" "16*512*1024 \<le> unat (dev_len dev)"
    and "unat (dev_blk_size dev) dvd 512*1024" "length (mem (inited dev h)) = unat (dev_len dev)"
    and "p \<in> set FAL_PART_TABLE"
  shows "fal_ok mem (unat (dev_blk_size dev)) p (fal_ready dev h)"
  using FAL_PART_TABLE_fits[OF assms(6)] assms(1-5)
  by (auto simp: fal_ok_def fal_ready_def strncmp_eq_def intro: dvd_trans)

text \<open>
  C10: with the table of the configuration on a NOR device of at least 8 MiB, the layer
  initialises with six partitions, and for every sequence of reads, writes and erases inside
  partitions each partition behaves like a flash memory of its own: a read returns its bytes,
  a write clears bits of the bytes written, an erase sets the bytes erased, a failure stays
  inside the range, and no operation on another partition has any effect on it.
\<close>

theorem fal_partitions_isolated:
  assumes "nor_dev mem dev" "dev_name dev = ''norflash0''" "16*512*1024 \<le> unat (dev_len dev)"
    and "unat (dev_len dev) < 2 ^ 31" "unat (dev_blk_size dev) dvd 512*1024"
    and "length (mem (inited dev h)) = unat (dev_len dev)"
    and "\<forall>(p, op) \<in> set ops. p \<in> set FAL_PART_TABLE \<and> op_in (unat (dev_blk_size dev)) p op"
  shows "\<exists>s rs s'. fal_init (fal_static [dev] FAL_PART_TABLE h) = Some (6, s) \<and> fal_run ops s = Some (rs, s') \<and>
    (\<forall>q \<in> set FAL_PART_TABLE. length (fal_content mem q s) = unat (part_len q) \<and>
       evolves q ops rs (fal_content mem q s) (fal_content mem q s'))"
proof -
  have ok: "\<forall>p \<in> set FAL_PART_TABLE. fal_ok mem (unat (dev_blk_size dev)) p (fal_ready dev h)"
    using fal_ready_ok[OF assms(1-3,5,6)] by blast
  from fal_run_isolated[OF FAL_PART_TABLE_disjoint this assms(7)] fal_init_ready[OF assms(2-4)]
  show ?thesis using length_fal_content ok by blast
qed

text \<open>
  the range check adds address and size in 32 bits: with an address close to the end of the
  address space the sum wraps, the check passes, and the byte just before the partition, the last
  one of another partition, is overwritten.
\<close>

lemma fal_write_bounds_wrap:
  assumes "nor_dev mem dev" "dev_name dev = ''norflash0''" "16*512*1024 \<le> unat (dev_len dev)"
    and "unat (dev_blk_size dev) dvd 512*1024"
    and "length (mem (inited dev h)) = unat (dev_len dev)"
    and "p \<in> set FAL_PART_TABLE" "part_name p = ''main_mcu_temp''"
    and "q \<in> set FAL_PART_TABLE" "part_name q = ''fdb_kvdb''"
  shows "\<exists>r s'. fal_partition_write p 0xFFFFFFFF [b] (fal_ready dev h) = Some (r, s') \<and>
    (r \<ge> 0 \<longrightarrow> fal_content mem q s' ! (512*1024 - 1) = b AND fal_content mem q (fal_ready dev h) ! (512*1024 - 1))"
proof -
  have p: "p = part ''main_mcu_temp'' ''norflash0'' (512*1024) (512*1024)"
    using assms(6,7) by (auto simp: FAL_PART_TABLE_def part_def)
  have q: "q = part ''fdb_kvdb'' ''norflash0'' 0 (512*1024)"
    using assms(8,9) by (auto simp: FAL_PART_TABLE_def part_def)
  let ?s = "fal_ready dev h" and ?a = "part_offset p + 0xFFFFFFFF"
  obtain r h' where w: "op_write dev ?a [b] (hardware ?s) = (r, h')" by (cases "op_write dev ?a [b] (hardware ?s)")
  have l: "length (mem (hardware ?s)) = unat (dev_len dev)" using assms(5) by (simp add: fal_ready_def)
  have a: "unat ?a = 0x7FFFF" by (simp add: p part_def)
  have "write_effect 0x7FFFF [b] r (mem (hardware ?s)) (mem h')"
    using nor_dev_write[OF assms(1) l, where a = ?a and bs = "[b]"] w assms(3) by (simp add: a)
  moreover have chk: "\<not> 0xFFFFFFFF + of_nat (length [b]) > part_len p" by (simp add: word_less_nat_alt)
  moreover have "part_flash p = ''norflash0''" by (simp add: p part_def)
  then have "fal_partition_write p 0xFFFFFFFF [b] ?s = Some (r, ?s\<lparr>hardware := h'\<rparr>)"
    using w unfolding fal_partition_write_def if_not_P[OF chk]
    by (simp add: fal_flash_device_find_def fal_ready_def assms(2) strncmp_eq_def)
  moreover have "0x7FFFF < length (mem (hardware ?s))" using l assms(3) by simp
  ultimately show ?thesis
    by (intro exI[of _ r] exI[of _ "?s\<lparr>hardware := h'\<rparr>"])
      (simp add: fal_content_def q part_def write_effect_def nth_window nth_nor_write)
qed

section \<open>Witnesses\<close>

text \<open>A NOR device in memory.\<close>

definition ram_dev :: "u32 \<Rightarrow> u32 \<Rightarrow> u8 list fal_flash_dev" where
  "ram_dev len blk = \<lparr>dev_name = ''norflash0'', dev_addr = 0, dev_len = len, dev_blk_size = blk, op_init = None,
     op_read = (\<lambda>a n h. (int (unat n), window (unat a) (unat n) h, h)),
     op_write = (\<lambda>a bs h. (int (length bs), nor_write (unat a) bs h)),
     op_erase = (\<lambda>a n h. (int (unat n), nor_erase (unat a) (unat n) h)), dev_write_gran = 1\<rparr>"

lemma ram_dev_ok: "nor_dev (\<lambda>h. h) (ram_dev len blk)"
  by (simp add: nor_dev_def ram_dev_def write_effect_def erase_effect_def)

definition nor16 :: "u8 list fal_flash_dev" where "nor16 = ram_dev (16*1024*1024) 4096"
definition nor16_mem :: "u8 list" where "nor16_mem = replicate (16*1024*1024) 0xFF"

lemma nor16_ok:
  "nor_dev (\<lambda>h. h) nor16" "dev_name nor16 = ''norflash0''" "16*512*1024 \<le> unat (dev_len nor16)"
  "unat (dev_len nor16) < 2 ^ 31" "unat (dev_blk_size nor16) dvd 512*1024"
  "length (inited nor16 nor16_mem) = unat (dev_len nor16)"
  by (simp_all add: nor16_def ram_dev_ok) (simp_all add: ram_dev_def inited_def nor16_mem_def)

theorem fal_partitions_isolated_witness:
  "\<exists>s rs s'. fal_init (fal_static [nor16] FAL_PART_TABLE nor16_mem) = Some (6, s) \<and>
     fal_run [(FAL_PART_TABLE ! 1, FErase 0 8192), (FAL_PART_TABLE ! 0, FWrite 5 [1, 2]), (FAL_PART_TABLE ! 1, FRead 4096 4)] s = Some (rs, s')"
proof -
  have "\<forall>(p, op) \<in> set [(FAL_PART_TABLE ! 1, FErase 0 8192), (FAL_PART_TABLE ! 0, FWrite 5 [1, 2]), (FAL_PART_TABLE ! 1, FRead 4096 4)].
     p \<in> set FAL_PART_TABLE \<and> op_in (unat (dev_blk_size nor16)) p op"
    by (simp add: FAL_PART_TABLE_def op_in_def part_def nor16_def ram_dev_def)
  from fal_partitions_isolated[OF nor16_ok this] show ?thesis by blast
qed

end
