(* ===== verification/Fdb_Utils.thy ===== *)
theory Fdb_Utils
  imports Fal
begin

text \<open>
  The low level of FlashDB (\<^verbatim>\<open>FlashDB/src/fdb_utils.c\<close>, \<^verbatim>\<open>FlashDB/inc/fdb_low_lvl.h\<close>) in FAL mode: the
  status tables, which move on by programming bits without an erase, the search for the
  erased end of a range, blobs, and the flash access through a partition. The write
  granularity \<open>FDB_WRITE_GRAN\<close> is an argument. A buffer on the stack that a read has not
  filled is empty, so that using it is an access outside the array.
\<close>

section \<open>Types\<close>

datatype fdb_err = FDB_NO_ERR | FDB_ERASE_ERR | FDB_READ_ERR | FDB_WRITE_ERR | FDB_PART_NOT_FOUND
  | FDB_KV_NAME_ERR | FDB_KV_NAME_EXIST | FDB_SAVED_FULL | FDB_INIT_FAILED

datatype fdb_db_type = FDB_DB_TYPE_KV | FDB_DB_TYPE_TS

text \<open>The lock functions of a database are known by a number; what they do is not modelled.\<close>

record fdb_db =
  db_name :: string
  db_type :: fdb_db_type
  db_part :: fal_partition
  db_sec_size :: u32
  db_max_size :: u32
  db_init_ok :: bool
  db_file_mode :: bool
  db_not_formatable :: bool
  db_lock :: "nat option"
  db_unlock :: "nat option"

section \<open>Flash access\<close>

definition fdb_flash_read :: "fdb_db \<Rightarrow> u32 \<Rightarrow> u32 \<Rightarrow> 'd fal \<Rightarrow> (fdb_err \<times> u8 list \<times> 'd fal) option" where
  "fdb_flash_read db addr n s =
     (if db_file_mode db then Some (FDB_READ_ERR, [], s)
      else do {
        (ret, buf, s) \<leftarrow> fal_partition_read (db_part db) addr n s;
        Some (FDB_NO_ERR, buf, s) })"

definition fdb_flash_erase :: "fdb_db \<Rightarrow> u32 \<Rightarrow> u32 \<Rightarrow> 'd fal \<Rightarrow> (fdb_err \<times> 'd fal) option" where
  "fdb_flash_erase db addr n s =
     (if db_file_mode db then Some (FDB_ERASE_ERR, s)
      else do {
        (ret, s) \<leftarrow> fal_partition_erase (db_part db) addr n s;
        Some (if ret < 0 then FDB_ERASE_ERR else FDB_NO_ERR, s) })"

definition fdb_flash_write :: "fdb_db \<Rightarrow> u32 \<Rightarrow> u8 list \<Rightarrow> 'd fal \<Rightarrow> (fdb_err \<times> 'd fal) option" where
  "fdb_flash_write db addr buf s =
     (if db_file_mode db then Some (FDB_READ_ERR, s)
      else do {
        (ret, s) \<leftarrow> fal_partition_write (db_part db) addr buf s;
        Some (if ret < 0 then FDB_WRITE_ERR else FDB_NO_ERR, s) })"

section \<open>Status tables\<close>

definition FDB_STATUS_TABLE_SIZE :: "nat \<Rightarrow> nat \<Rightarrow> nat" where
  "FDB_STATUS_TABLE_SIZE gran status_number =
     (if gran = 1 then (status_number * gran + 7) div 8 else ((status_number - 1) * gran + 7) div 8)"

text \<open>The table and the byte to write; no byte stands for \<open>~0UL\<close>.\<close>

definition fdb_set_status :: "nat \<Rightarrow> nat \<Rightarrow> nat \<Rightarrow> (nat option \<times> u8 list) option" where
  "fdb_set_status gran status_num status_index =
     (let table = replicate (FDB_STATUS_TABLE_SIZE gran status_num) 0xFF
      in if status_index > 0 then
           if gran = 1 then do {
             let byte_index = (status_index - 1) div 8;
             b \<leftarrow> rd table byte_index;
             table \<leftarrow> wr table byte_index (b AND drop_bit (status_index mod 8) 0xFF);
             Some (Some byte_index, table) }
           else do {
             let byte_index = (status_index - 1) * (gran div 8);
             table \<leftarrow> wr table byte_index 0x00;
             Some (Some byte_index, table) }
         else Some (None, table))"

text \<open>The cell of a status is cleared once the status has been reached.\<close>

definition status_cleared :: "nat \<Rightarrow> u8 list \<Rightarrow> nat \<Rightarrow> bool option" where
  "status_cleared gran table k =
     (if gran = 1 then map_option (\<lambda>b. b AND drop_bit (k mod 8) 0x80 = 0) (rd table (k div 8))
      else map_option (\<lambda>b. b = 0x00) (rd table (k * gran div 8)))"

fun get_status_loop :: "nat \<Rightarrow> u8 list \<Rightarrow> nat \<Rightarrow> nat option" where
  "get_status_loop gran table 0 = Some 0"
| "get_status_loop gran table (Suc k) = do {
     c \<leftarrow> status_cleared gran table k;
     if c then Some (Suc k) else get_status_loop gran table k }"

text \<open>With no status at all, \<open>--status_num\<close> wraps and the loop leaves the table.\<close>

definition fdb_get_status :: "nat \<Rightarrow> u8 list \<Rightarrow> nat \<Rightarrow> nat option" where
  "fdb_get_status gran table status_num =
     (if status_num = 0 then None else get_status_loop gran table (status_num - 1))"

definition fdb_write_status ::
  "nat \<Rightarrow> fdb_db \<Rightarrow> u32 \<Rightarrow> nat \<Rightarrow> nat \<Rightarrow> 'd fal \<Rightarrow> (fdb_err \<times> 'd fal) option" where
  "fdb_write_status gran db addr status_num status_index s =
     (if status_index < status_num then do {
        (byte_index, table) \<leftarrow> fdb_set_status gran status_num status_index;
        case byte_index of
          None \<Rightarrow> Some (FDB_NO_ERR, s)
        | Some i \<Rightarrow> do {
            bytes \<leftarrow> rd_blk table i (if gran = 1 then 1 else gran div 8);
            fdb_flash_write db (addr + of_nat i) bytes s } }
      else None)"

definition fdb_read_status :: "nat \<Rightarrow> fdb_db \<Rightarrow> u32 \<Rightarrow> nat \<Rightarrow> 'd fal \<Rightarrow> (nat \<times> 'd fal) option" where
  "fdb_read_status gran db addr total_num s = do {
     (_, table, s) \<leftarrow> fdb_flash_read db addr (of_nat (FDB_STATUS_TABLE_SIZE gran total_num)) s;
     st \<leftarrow> fdb_get_status gran table total_num;
     Some (st, s) }"

section \<open>The erased end of a range\<close>

definition FDB_ALIGN :: "u32 \<Rightarrow> u32 \<Rightarrow> u32" where
  "FDB_ALIGN n align = (n + align - 1) AND NOT (align - 1)"

definition FDB_ALIGN_DOWN :: "u32 \<Rightarrow> u32 \<Rightarrow> u32" where
  "FDB_ALIGN_DOWN n align = n AND NOT (align - 1)"

definition FDB_WG_ALIGN :: "nat \<Rightarrow> u32 \<Rightarrow> u32" where
  "FDB_WG_ALIGN gran n = FDB_ALIGN n (of_nat ((gran + 7) div 8))"

definition FDB_WG_ALIGN_DOWN :: "nat \<Rightarrow> u32 \<Rightarrow> u32" where
  "FDB_WG_ALIGN_DOWN gran n = FDB_ALIGN_DOWN n (of_nat ((gran + 7) div 8))"

text \<open>The loop over the bytes read; \<open>pos\<close> is \<open>start + i\<close>.\<close>

fun ff_scan :: "u8 list \<Rightarrow> u32 \<Rightarrow> u8 \<Rightarrow> u32 \<Rightarrow> u8 \<times> u32" where
  "ff_scan [] pos last_data addr = (last_data, addr)"
| "ff_scan (b # bs) pos last_data addr =
     ff_scan bs (pos + 1) b (if last_data \<noteq> 0xFF \<and> b = 0xFF then pos else addr)"

partial_function (option) ff_loop ::
  "fdb_db \<Rightarrow> u32 \<Rightarrow> u32 \<Rightarrow> u8 \<Rightarrow> u32 \<Rightarrow> 'd fal \<Rightarrow> (u8 \<times> u32 \<times> 'd fal) option" where
  "ff_loop db start end last_data addr s =
     (if start < end then do {
        let read_size = (if start + 32 < end then 32 else end - start);
        (_, buf, s) \<leftarrow> fdb_flash_read db start read_size s;
        buf \<leftarrow> rd_blk buf 0 (unat read_size);
        let (last_data, addr) = ff_scan buf start last_data addr;
        ff_loop db (start + 32) end last_data addr s }
      else Some (last_data, addr, s))"

definition fdb_continue_ff_addr :: "nat \<Rightarrow> fdb_db \<Rightarrow> u32 \<Rightarrow> u32 \<Rightarrow> 'd fal \<Rightarrow> (u32 \<times> 'd fal) option" where
  "fdb_continue_ff_addr gran db start end s = do {
     (last_data, addr, s) \<leftarrow> ff_loop db start end 0x00 start s;
     Some (if last_data = 0xFF then FDB_WG_ALIGN gran addr else end, s) }"

section \<open>Blobs\<close>

record fdb_blob =
  blob_buf :: "u8 list"
  blob_size :: u32
  saved_meta_addr :: u32
  saved_addr :: u32
  saved_len :: u32

definition fdb_blob_make :: "fdb_blob \<Rightarrow> u8 list \<Rightarrow> u32 \<Rightarrow> fdb_blob" where
  "fdb_blob_make blob value_buf buf_len = blob\<lparr>blob_buf := value_buf, blob_size := buf_len\<rparr>"

definition fdb_blob_read :: "fdb_db \<Rightarrow> fdb_blob \<Rightarrow> 'd fal \<Rightarrow> (u32 \<times> fdb_blob \<times> 'd fal) option" where
  "fdb_blob_read db blob s = do {
     let read_len = (if blob_size blob > saved_len blob then saved_len blob else blob_size blob);
     (err, data, s) \<leftarrow> fdb_flash_read db (saved_addr blob) read_len s;
     buf \<leftarrow> wr_blk (blob_buf blob) 0 data;
     Some (if err \<noteq> FDB_NO_ERR then 0 else read_len, blob\<lparr>blob_buf := buf\<rparr>, s) }"

section \<open>A status survives an interrupted write\<close>

definition grans :: "nat set" where "grans = {1, 8, 32, 64}"

lemma get_status_loop_spec:
  "(\<forall>k < n. status_cleared gran tab k \<noteq> None) \<Longrightarrow> \<exists>i \<le> n. get_status_loop gran tab n = Some i"
  by (induction n) (auto simp: le_Suc_eq)

lemma get_status_loop_iff:
  "(\<forall>k < n. status_cleared gran tab k \<noteq> None) \<Longrightarrow> get_status_loop gran tab n = Some i \<longleftrightarrow>
     i \<le> n \<and> (i > 0 \<longrightarrow> status_cleared gran tab (i - 1) = Some True) \<and>
     (\<forall>k. i \<le> k \<and> k < n \<longrightarrow> status_cleared gran tab k = Some False)"
proof (induction n)
  case (Suc n)
  obtain c where c: "status_cleared gran tab n = Some c" using Suc.prems by blast
  show ?case
  proof (cases c)
    case True
    then show ?thesis using c by (auto simp: less_Suc_eq_le le_Suc_eq)
  next
    case False
    have "get_status_loop gran tab n = Some i \<longleftrightarrow> i \<le> n \<and> (i > 0 \<longrightarrow> status_cleared gran tab (i - 1) = Some True) \<and>
       (\<forall>k. i \<le> k \<and> k < n \<longrightarrow> status_cleared gran tab k = Some False)" using Suc by simp
    then show ?thesis using c False by (auto simp: less_Suc_eq le_Suc_eq)
  qed
qed auto

text \<open>From one table to the next: the cells from \<open>j\<close> on stay, a cleared cell stays cleared.\<close>

lemma status_moves:
  assumes all: "\<forall>k < n. status_cleared gran tab k \<noteq> None" "\<forall>k < n. status_cleared gran tab' k \<noteq> None"
    and get: "get_status_loop gran tab n = Some i" and j: "j \<le> n"
    and up: "\<forall>k. j \<le> k \<and> k < n \<longrightarrow> status_cleared gran tab' k = status_cleared gran tab k"
    and mono: "\<forall>k < n. status_cleared gran tab k = Some True \<longrightarrow> status_cleared gran tab' k = Some True"
  shows "\<exists>k. get_status_loop gran tab' n = Some k \<and> i \<le> k \<and> k \<le> max i j \<and>
    (j > 0 \<and> status_cleared gran tab' (j - 1) = Some True \<longrightarrow> k = max i j) \<and>
    ((\<forall>k < n. k \<noteq> j - 1 \<longrightarrow> status_cleared gran tab' k = status_cleared gran tab k) \<longrightarrow> k = i \<or> k = max i j)"
proof -
  note g = get[unfolded get_status_loop_iff[OF all(1)]]
  obtain k where k: "get_status_loop gran tab' n = Some k" using get_status_loop_spec[OF all(2)] by blast
  note h = k[unfolded get_status_loop_iff[OF all(2)]]
  have "i \<le> k"
  proof (rule ccontr)
    assume "\<not> i \<le> k"
    then have i: "0 < i" "k \<le> i - 1" "i - 1 < n" using g by auto
    then have "status_cleared gran tab' (i - 1) = Some False" "status_cleared gran tab (i - 1) = Some True"
      using g h by blast+
    moreover note i(3)
    ultimately show False using mono by auto
  qed
  moreover have "k \<le> max i j"
  proof (rule ccontr)
    assume a: "\<not> k \<le> max i j"
    then have "status_cleared gran tab' (k - 1) = Some True" "k - 1 < n" "j \<le> k - 1" "i \<le> k - 1" using h by auto
    then show False using up g by fastforce
  qed
  moreover have "k = max i j" if "j > 0" "status_cleared gran tab' (j - 1) = Some True"
  proof -
    have "j \<le> k" using h that j by (metis One_nat_def Suc_le_eq diff_Suc_less le_less_trans leI less_Suc_eq_le option.inject order.strict_trans2 Suc_pred nat_less_le)
    then show ?thesis using calculation by auto
  qed
  moreover have "k = i \<or> k = max i j" if s: "\<forall>k < n. k \<noteq> j - 1 \<longrightarrow> status_cleared gran tab' k = status_cleared gran tab k"
  proof (rule ccontr)
    assume a: "\<not> (k = i \<or> k = max i j)"
    then have "i < k" "k < j" using \<open>i \<le> k\<close> \<open>k \<le> max i j\<close> by auto
    then have b: "i \<le> k - 1" "k - 1 < n" "k - 1 \<noteq> j - 1" "0 < k" using h by auto
    have "status_cleared gran tab' (k - 1) = Some True" using h b(4) by blast
    moreover have "status_cleared gran tab (k - 1) = Some False" using g b(1,2) by blast
    ultimately show False using s b(2,3) by auto
  qed
  ultimately show ?thesis using k by blast
qed

text \<open>Bits of the one-bit tables.\<close>

lemma and_80: "(b AND drop_bit m 0x80 = 0) \<longleftrightarrow> \<not> bit b (7 - m)" if "m < 8" for b :: u8
proof -
  have b80: "bit (0x80 :: u8) n \<longleftrightarrow> n = 7" for n
  proof -
    have e: "(0x80 :: u8) = push_bit 7 1" by simp
    show ?thesis unfolding e bit_push_bit_iff bit_1_iff by auto
  qed
  have e: "bit (b AND drop_bit m 0x80) n \<longleftrightarrow> bit b n \<and> n = 7 - m" for n
    unfolding bit_and_iff bit_drop_bit_eq comp_def b80 using that by auto
  have z: "x = 0 \<longleftrightarrow> (\<forall>n. \<not> bit x n)" for x :: u8
    by (auto intro!: bit_word_eqI)
  show ?thesis unfolding z e by blast
qed

lemma bit_drop_FF: "bit (drop_bit m 0xFF :: u8) n \<longleftrightarrow> n + m < 8"
  unfolding bit_drop_bit_eq comp_def bit_FF by auto

lemma between_bits:
  assumes "between old new x"
  shows "bit x n \<Longrightarrow> bit old n" "bit old n \<Longrightarrow> bit new n \<Longrightarrow> bit x n"
proof -
  have "bit (x AND old) n = bit x n" "bit (x AND (old AND new)) n = bit (old AND new) n"
    using assms unfolding between_def by simp_all
  then show "bit x n \<Longrightarrow> bit old n" "bit old n \<Longrightarrow> bit new n \<Longrightarrow> bit x n"
    by (auto simp: bit_and_iff)
qed

text \<open>What a write of one byte \<open>new\<close> to a cell does, whole or in part, seen through the tables.\<close>

lemma cleared_total:
  assumes "gran \<in> grans" "length tab = FDB_STATUS_TABLE_SIZE gran n" "k < n - 1"
  shows "status_cleared gran tab k \<noteq> None"
  using assms by (auto simp: grans_def status_cleared_def FDB_STATUS_TABLE_SIZE_def rd_def)

lemma set_status_bytes:
  assumes "gran \<in> grans" "0 < j" "j < n"
  shows "\<exists>i table bytes. fdb_set_status gran n j = Some (Some i, table) \<and>
    rd_blk table i (if gran = 1 then 1 else gran div 8) = Some bytes \<and>
    i + length bytes \<le> FDB_STATUS_TABLE_SIZE gran n \<and>
    (if gran = 1 then i = (j - 1) div 8 \<and> bytes = [drop_bit (j mod 8) 0xFF]
     else i = (j - 1) * (gran div 8) \<and> bytes = 0 # replicate (gran div 8 - 1) 0xFF)"
proof (cases "gran = 1")
  case True
  have "(j - 1) div 8 < (n + 7) div 8" using assms(2,3) by (simp add: div_less_iff_less_mult)
  moreover have "0xFF AND drop_bit (j mod 8) 0xFF = (drop_bit (j mod 8) 0xFF :: u8)"
    by (rule bit_word_eqI) (simp only: bit_and_iff bit_drop_FF bit_FF, auto)
  ultimately show ?thesis
    using assms(2) True
    by (auto simp: fdb_set_status_def Let_def rd_def wr_def rd_blk_def FDB_STATUS_TABLE_SIZE_def take_Suc_conv_app_nth
        take_drop hd_drop_conv_nth take_Suc)
next
  case False
  define g where "g = gran div 8"
  have g: "0 < g" "gran = 8 * g" "gran \<noteq> 1" using assms(1) False by (auto simp: grans_def g_def)
  obtain j' where j': "j = Suc j'" using assms(2) by (cases j) auto
  obtain d where d: "n - 1 = j + d" using assms(3) by (metis Suc_diff_1 le_add_diff_inverse less_Suc_eq_le less_imp_Suc_add zero_less_Suc)
  have sz: "((n - 1) * gran + 7) div 8 = (n - 1) * g"
    unfolding g(2) by (simp add: mult.left_commute)
  have "(n - 1) * g = (j + d) * g" by (simp only: d)
  also have "\<dots> = j' * g + (g + d * g)" by (simp add: j' algebra_simps)
  finally have "(n - 1) * g = j' * g + (g + d * g)" .
  with g assms(2) sz show ?thesis
    by (auto simp: fdb_set_status_def Let_def rd_def wr_def rd_blk_def FDB_STATUS_TABLE_SIZE_def j' replicate_add
        list_update_append simp flip: g_def split: nat_diff_split)
qed

lemma cleared_bit:
  "k div 8 < length tab \<Longrightarrow> status_cleared 1 tab k = Some (\<not> bit (tab ! (k div 8)) (7 - k mod 8))"
  using and_80[of "k mod 8" "tab ! (k div 8)"] by (simp add: status_cleared_def rd_def)

lemma cleared_byte:
  "gran \<in> grans \<Longrightarrow> gran \<noteq> 1 \<Longrightarrow> k * (gran div 8) < length tab \<Longrightarrow>
   status_cleared gran tab k = Some (tab ! (k * (gran div 8)) = 0)"
  by (auto simp: grans_def status_cleared_def rd_def mult.commute)

definition moves :: "nat \<Rightarrow> nat \<Rightarrow> nat \<Rightarrow> bool \<Rightarrow> u8 list \<Rightarrow> u8 list \<Rightarrow> bool" where
  "moves gran n j done tab tab' \<longleftrightarrow>
     (\<forall>k. j \<le> k \<and> k < n - 1 \<longrightarrow> status_cleared gran tab' k = status_cleared gran tab k) \<and>
     (\<forall>k < n - 1. status_cleared gran tab k = Some True \<longrightarrow> status_cleared gran tab' k = Some True) \<and>
     (done \<longrightarrow> status_cleared gran tab' (j - 1) = Some True) \<and>
     (gran \<noteq> 1 \<longrightarrow> (\<forall>k < n - 1. k \<noteq> j - 1 \<longrightarrow> status_cleared gran tab' k = status_cleared gran tab k))"

lemma moves_bits:
  assumes j: "0 < j" "j < n" "j mod 8 \<noteq> 0" and len: "length tab = (n + 7) div 8" "length tab' = length tab"
    and same: "\<And>x. x < length tab \<Longrightarrow> x \<noteq> (j - 1) div 8 \<Longrightarrow> tab' ! x = tab ! x"
    and cell: "between (tab ! ((j - 1) div 8)) (drop_bit (j mod 8) 0xFF) (tab' ! ((j - 1) div 8))"
    and fin: "done \<Longrightarrow> tab' ! ((j - 1) div 8) = drop_bit (j mod 8) 0xFF AND tab ! ((j - 1) div 8)"
  shows "moves 1 n j done tab tab'"
proof -
  have d: "(j - 1) div 8 = j div 8" "(j - 1) mod 8 = j mod 8 - 1"
  proof -
    obtain q r where q: "j = 8 * q + r" "r < 8" using div_mult_mod_eq[of j 8]
      by (metis mod_less_divisor mult.commute zero_less_numeral)
    obtain r' where r': "r = Suc r'" using q j(3) by (cases r) auto
    have "(8 * q + r') div 8 = q" "(8 * q + r') mod 8 = r'" using q r' by simp_all
    with q r' show "(j - 1) div 8 = j div 8" "(j - 1) mod 8 = j mod 8 - 1" by simp_all
  qed
  have l: "k div 8 < length tab" "k div 8 < length tab'" if "k < n - 1" for k
    using that unfolding len by linarith+
  have up: "bit (tab' ! (k div 8)) (7 - k mod 8) = bit (tab ! (k div 8)) (7 - k mod 8)" if "j \<le> k" "k < n - 1" for k
  proof (cases "k div 8 = j div 8")
    case True
    then have "j mod 8 \<le> k mod 8" using that(1) by (metis add_le_cancel_left div_mult_mod_eq)
    then have "7 - k mod 8 + j mod 8 < 8" by linarith
    then show ?thesis using between_bits[OF cell, of "7 - k mod 8"] bit_drop_FF d(1) True by auto
  next
    case False
    then show ?thesis using same[OF l(1)[OF that(2)]] d(1) by simp
  qed
  have mono: "bit (tab ! (k div 8)) (7 - k mod 8)" if "bit (tab' ! (k div 8)) (7 - k mod 8)" "k < n - 1" for k
    using between_bits(1)[OF cell, of "7 - k mod 8"] same[OF l(1)[OF that(2)]] that(1) by (cases "k div 8 = (j - 1) div 8") auto
  have "\<not> bit (tab' ! ((j - 1) div 8)) (7 - (j - 1) mod 8)" if "done"
  proof -
    have "\<not> 7 - (j mod 8 - 1) + j mod 8 < 8" using j(3) by linarith
    then show ?thesis unfolding fin[OF that] d(2) bit_and_iff bit_drop_FF by blast
  qed
  moreover have "j - 1 < n - 1" using j by simp
  moreover have "status_cleared 1 tab k = Some (\<not> bit (tab ! (k div 8)) (7 - k mod 8))"
    "status_cleared 1 tab' k = Some (\<not> bit (tab' ! (k div 8)) (7 - k mod 8))" if "k < n - 1" for k
    using l[OF that] by (simp_all only: cleared_bit)
  ultimately show ?thesis
    using up mono by (auto simp: moves_def)
qed

lemma moves_bytes:
  assumes g: "gran \<in> grans" "gran \<noteq> 1" and j: "0 < j" "j < n"
    and len: "length tab = FDB_STATUS_TABLE_SIZE gran n" "length tab' = length tab"
    and same: "\<And>x. x < length tab \<Longrightarrow> x \<noteq> (j - 1) * (gran div 8) \<Longrightarrow> tab' ! x = tab ! x"
    and cell: "between (tab ! ((j - 1) * (gran div 8))) 0 (tab' ! ((j - 1) * (gran div 8)))"
    and fin: "done \<Longrightarrow> tab' ! ((j - 1) * (gran div 8)) = 0"
  shows "moves gran n j done tab tab'"
proof -
  have gd: "0 < gran div 8" using g by (auto simp: grans_def)
  have l: "k * (gran div 8) < length tab" if "k < n - 1" for k
    using cleared_total[OF g(1) len(1) that] g by (auto simp: status_cleared_def rd_def grans_def split: if_splits)
  have same': "tab' ! (k * (gran div 8)) = tab ! (k * (gran div 8))" if "k < n - 1" "k \<noteq> j - 1" for k
    using same[OF l[OF that(1)]] that(2) gd by simp
  have c: "status_cleared gran tab k = Some (tab ! (k * (gran div 8)) = 0)"
    "status_cleared gran tab' k = Some (tab' ! (k * (gran div 8)) = 0)" if "k < n - 1" for k
    using cleared_byte[OF g] l[OF that] len(2) by auto
  have z: "tab' ! ((j - 1) * (gran div 8)) = 0" if "tab ! ((j - 1) * (gran div 8)) = 0"
    using cell unfolding between_def that by simp
  have "j - 1 < n - 1" using j by simp
  then show ?thesis
    unfolding moves_def using c same' z fin j by (auto) (metis)+
qed

text \<open>The table of a status in the flash, before and after a write of the next status.\<close>

lemma status_table_moves:
  assumes g: "gran \<in> grans" and j: "0 < j" "j < n" "gran = 1 \<longrightarrow> j mod 8 \<noteq> 0"
    and len: "length tab = FDB_STATUS_TABLE_SIZE gran n"
    and b: "if gran = 1 then i = (j - 1) div 8 \<and> bytes = [drop_bit (j mod 8) 0xFF]
       else i = (j - 1) * (gran div 8) \<and> bytes = 0 # replicate (gran div 8 - 1) 0xFF"
    and bd: "i + length bytes \<le> FDB_STATUS_TABLE_SIZE gran n"
    and eff: "write_effect i bytes r tab tab'"
  shows "moves gran n j (r \<ge> 0) tab tab'"
proof -
  have so: "same_outside i (length bytes) tab tab'" by (rule write_effect_outside[OF eff]) (simp add: len bd)
  then have len': "length tab' = length tab" by (simp add: same_outside_def)
  have cell: "between (tab ! (i + x)) (bytes ! x) (tab' ! (i + x))" if "x < length bytes" for x
    using eff that bd len
    by (auto simp: write_effect_def partly_written_def nth_nor_write between_def and.commute and.left_commute split: if_splits)
  have cell_ok: "tab' ! (i + x) = bytes ! x AND tab ! (i + x)" if "x < length bytes" "r \<ge> 0" for x
    using eff that bd len by (auto simp: write_effect_def nth_nor_write)
  show ?thesis
  proof (cases "gran = 1")
    case True
    with b have b: "i = (j - 1) div 8" "bytes = [drop_bit (j mod 8) 0xFF]" by simp_all
    have "tab' ! x = tab ! x" if "x < length tab" "x \<noteq> i" for x
    proof (rule same_outside_nth[OF so that(1)])
      show "x < i \<or> i + length bytes \<le> x" using that(2) b(2) by auto
    qed
    then show ?thesis
      unfolding True using j True len len' cell[of 0] cell_ok[of 0] b
      by (intro moves_bits) (simp_all add: FDB_STATUS_TABLE_SIZE_def)
  next
    case False
    with b have b: "i = (j - 1) * (gran div 8)" "bytes = 0 # replicate (gran div 8 - 1) 0xFF" by simp_all
    have "tab' ! x = tab ! x" if x: "x < length tab" "x \<noteq> i" for x
    proof (cases "i \<le> x \<and> x < i + length bytes")
      case True
      then have "bytes ! (x - i) = -1" "x - i < length bytes" "i + (x - i) = x" using x(2) b(2) by (auto simp: nth_Cons')
      with cell[of "x - i"] have b: "between (tab ! x) (-1) (tab' ! x)" by simp
      then have "tab' ! x = tab' ! x AND tab ! x" unfolding between_def by simp
      also have "tab' ! x AND tab ! x = tab ! x" using b unfolding between_def and.right_neutral by blast
      finally show ?thesis .
    next
      case False
      then show ?thesis using same_outside_nth[OF so x(1)] by auto
    qed
    then show ?thesis
      using j False len len' cell[of 0] cell_ok[of 0] b g by (intro moves_bytes) simp_all
  qed
qed

lemma moves_get:
  assumes "gran \<in> grans" "length tab = FDB_STATUS_TABLE_SIZE gran n" "length tab' = length tab" "0 < j" "j < n"
    and "moves gran n j done tab tab'" "fdb_get_status gran tab n = Some st"
  shows "\<exists>k. fdb_get_status gran tab' n = Some k \<and> (done \<longrightarrow> k = max st j) \<and>
    (if gran = 1 then st \<le> k \<and> k \<le> max st j else k = st \<or> k = max st j)"
proof -
  have tot: "\<forall>k < n - 1. status_cleared gran tab k \<noteq> None" "\<forall>k < n - 1. status_cleared gran tab' k \<noteq> None"
    using cleared_total[OF assms(1)] assms(2,3) by auto
  have gl: "get_status_loop gran tab (n - 1) = Some st" using assms(7) by (simp add: fdb_get_status_def split: if_splits)
  have n: "n \<noteq> 0" "j \<le> n - 1" using assms(4,5) by simp_all
  from status_moves[OF tot gl n(2)] assms(6)[unfolded moves_def] show ?thesis
    using n(1) assms(4) by (auto simp: fdb_get_status_def)
qed

text \<open>The region of a partition a read returns, and a write changes.\<close>

definition db_ready :: "('d \<Rightarrow> u8 list) \<Rightarrow> nat \<Rightarrow> fdb_db \<Rightarrow> 'd fal \<Rightarrow> bool" where
  "db_ready mem blk db s \<longleftrightarrow> fal_ok mem blk (db_part db) s \<and> \<not> db_file_mode db"

definition db_content :: "('d \<Rightarrow> u8 list) \<Rightarrow> fdb_db \<Rightarrow> 'd fal \<Rightarrow> u8 list" where
  "db_content mem db s = fal_content mem (db_part db) s"

lemma length_db_content: "db_ready mem blk db s \<Longrightarrow> length (db_content mem db s) = unat (part_len (db_part db))"
  by (auto simp: db_ready_def db_content_def intro: length_fal_content)

lemma fdb_read_law:
  assumes "db_ready mem blk db s" "unat a + unat n \<le> length (db_content mem db s)"
  shows "\<exists>s'. fdb_flash_read db a n s = Some (FDB_NO_ERR, window (unat a) (unat n) (db_content mem db s), s') \<and>
    db_ready mem blk db s' \<and> db_content mem db s' = db_content mem db s"
  using fal.read_law[of mem blk "db_part db" s a n] assms
  by (auto simp: db_ready_def db_content_def fdb_flash_read_def window_def)

lemma fdb_write_law:
  assumes "db_ready mem blk db s" "unat a + length bs \<le> length (db_content mem db s)"
  shows "\<exists>e s'. fdb_flash_write db a bs s = Some (e, s') \<and> (e = FDB_NO_ERR \<or> e = FDB_WRITE_ERR) \<and>
    db_ready mem blk db s' \<and>
    write_effect (unat a) bs (if e = FDB_NO_ERR then 0 else -1) (db_content mem db s) (db_content mem db s')"
proof -
  obtain r s' where "fal_partition_write (db_part db) a bs s = Some (r, s')" "fal_ok mem blk (db_part db) s'"
    "write_effect (unat a) bs r (db_content mem db s) (db_content mem db s')"
    using fal.write_law[of mem blk "db_part db" s a bs] assms by (auto simp: db_ready_def db_content_def)
  then show ?thesis using assms(1)
    by (intro exI[of _ "if r < 0 then FDB_WRITE_ERR else FDB_NO_ERR"] exI[of _ s'])
      (simp add: fdb_flash_write_def db_ready_def write_effect_def)
qed

lemma fdb_read_status_eq:
  assumes "db_ready mem blk db s" "unat a + FDB_STATUS_TABLE_SIZE gran n \<le> length (db_content mem db s)"
    and "fdb_get_status gran (window (unat a) (FDB_STATUS_TABLE_SIZE gran n) (db_content mem db s)) n = Some st"
  shows "\<exists>s'. fdb_read_status gran db a n s = Some (st, s') \<and> db_ready mem blk db s' \<and> db_content mem db s' = db_content mem db s"
proof -
  have "FDB_STATUS_TABLE_SIZE gran n < 2 ^ 32"
    using assms(2) unat_lt32[of "part_len (db_part db)"] by (simp add: length_db_content[OF assms(1)])
  then have u: "unat (of_nat (FDB_STATUS_TABLE_SIZE gran n) :: u32) = FDB_STATUS_TABLE_SIZE gran n" by (rule unat_of_nat_lt)
  from fdb_read_law[OF assms(1), of a "of_nat (FDB_STATUS_TABLE_SIZE gran n)"] assms(2,3) show ?thesis
    by (auto simp: fdb_read_status_def u)
qed

lemma table_total:
  "gran \<in> grans \<Longrightarrow> length tab = FDB_STATUS_TABLE_SIZE gran n \<Longrightarrow> 0 < n \<Longrightarrow> \<exists>st. fdb_get_status gran tab n = Some st"
  using get_status_loop_spec[of "n - 1" gran tab] cleared_total[of gran tab n] by (auto simp: fdb_get_status_def)

text \<open>
  C11: a status table in a flash region, whatever bits it holds, reads as some status \<open>st\<close>.
  Writing status \<open>j\<close> (of up to eight, or a byte or more each) touches only the table. If the
  write succeeds the table then reads as the later of the two statuses; if it is interrupted
  and has programmed only some of its bits, the table reads as one of the two, or, where the
  statuses are single bits, as one between them: never as an earlier or a later one.
\<close>

theorem status_survives_power_cut:
  assumes "db_ready mem blk db s" "gran \<in> {1, 8, 32, 64}" "j < n" "gran = 1 \<longrightarrow> j mod 8 \<noteq> 0 \<or> j = 0"
    and "unat a + FDB_STATUS_TABLE_SIZE gran n \<le> length (db_content mem db s)"
  shows "\<exists>st s1 e s2 k s3. fdb_read_status gran db a n s = Some (st, s1) \<and>
    fdb_write_status gran db a n j s1 = Some (e, s2) \<and> fdb_read_status gran db a n s2 = Some (k, s3) \<and>
    (e = FDB_NO_ERR \<longrightarrow> k = max st j) \<and> (if gran = 1 then st \<le> k \<and> k \<le> max st j else k = st \<or> k = max st j) \<and>
    same_outside (unat a) (FDB_STATUS_TABLE_SIZE gran n) (db_content mem db s) (db_content mem db s3)"
proof -
  let ?N = "FDB_STATUS_TABLE_SIZE gran n" and ?c = "db_content mem db"
  have g: "gran \<in> grans" using assms(2) by (simp add: grans_def)
  have lw: "length (window (unat a) ?N (?c s)) = ?N" using assms(5) by simp
  obtain st where st: "fdb_get_status gran (window (unat a) ?N (?c s)) n = Some st"
    using table_total[OF g lw] assms(3) by auto
  obtain s1 where s1: "fdb_read_status gran db a n s = Some (st, s1)" "db_ready mem blk db s1" "?c s1 = ?c s"
    using fdb_read_status_eq[OF assms(1,5) st] by blast
  show ?thesis
  proof (cases "j = 0")
    case True
    obtain s3 where s3: "fdb_read_status gran db a n s1 = Some (st, s3)" "?c s3 = ?c s1"
      using fdb_read_status_eq[OF s1(2), of a gran n st] assms(5) st s1(3) by auto
    have "fdb_write_status gran db a n j s1 = Some (FDB_NO_ERR, s1)"
      using assms(3) True by (simp add: fdb_write_status_def fdb_set_status_def)
    moreover have "same_outside (unat a) ?N (?c s) (?c s3)" using s3(2) s1(3) by (simp add: same_outside_def)
    ultimately show ?thesis
      using s1(1) s3(1) True
      by (intro exI[of _ st] exI[of _ s1] exI[of _ FDB_NO_ERR] exI[of _ s1] exI[of _ st] exI[of _ s3]) simp
  next
    case False
    obtain i table bytes where b: "fdb_set_status gran n j = Some (Some i, table)"
      "rd_blk table i (if gran = 1 then 1 else gran div 8) = Some bytes" "i + length bytes \<le> ?N"
      "if gran = 1 then i = (j - 1) div 8 \<and> bytes = [drop_bit (j mod 8) 0xFF]
       else i = (j - 1) * (gran div 8) \<and> bytes = 0 # replicate (gran div 8 - 1) 0xFF"
      using set_status_bytes[OF g _ assms(3)] False by blast
    have lp: "length (?c s1) < 2 ^ 32"
      using unat_lt32[of "part_len (db_part db)"] by (simp add: length_db_content[OF s1(2)])
    have i: "unat (of_nat i :: u32) = i" using b(3) assms(5) lp s1(3) by (intro unat_of_nat_lt) simp
    have ai: "unat (a + of_nat i) = unat a + i" using b(3) assms(5) lp s1(3) i by (subst unat_add_small) simp_all
    obtain e s2 where w: "fdb_flash_write db (a + of_nat i) bytes s1 = Some (e, s2)" "db_ready mem blk db s2"
      "write_effect (unat a + i) bytes (if e = FDB_NO_ERR then 0 else -1) (?c s1) (?c s2)"
      using fdb_write_law[OF s1(2), of "a + of_nat i" bytes] b(3) assms(5) ai s1(3) by auto
    have ws: "fdb_write_status gran db a n j s1 = Some (e, s2)"
      using assms(3) b(1,2) w(1) by (simp add: fdb_write_status_def split del: if_split)
    have fits: "unat a + ?N \<le> length (?c s1)" using assms(5) s1(3) by simp
    note eff = window_write_effect[OF fits b(3) w(3)]
    have so: "same_outside (unat a + i) (length bytes) (?c s1) (?c s2)"
      by (rule write_effect_outside[OF w(3)]) (use b(3) fits in simp)
    then have l2: "length (?c s2) = length (?c s1)" by (simp add: same_outside_def)
    have mv: "moves gran n j ((if e = FDB_NO_ERR then 0 else -1 :: int) \<ge> 0)
        (window (unat a) ?N (?c s1)) (window (unat a) ?N (?c s2))"
      using assms(4) False fits by (intro status_table_moves[OF g _ assms(3) _ _ b(4,3) eff]) auto
    have "((if e = FDB_NO_ERR then 0 else -1 :: int) \<ge> 0) = (e = FDB_NO_ERR)" by simp
    note mv = mv[unfolded this]
    obtain k where k: "fdb_get_status gran (window (unat a) ?N (?c s2)) n = Some k"
      "e = FDB_NO_ERR \<longrightarrow> k = max st j" "if gran = 1 then st \<le> k \<and> k \<le> max st j else k = st \<or> k = max st j"
      using moves_get[OF g _ _ _ assms(3) mv, of st] False fits l2 st s1(3) by auto
    obtain s3 where s3: "fdb_read_status gran db a n s2 = Some (k, s3)" "?c s3 = ?c s2"
      using fdb_read_status_eq[OF w(2) _ k(1)] fits l2 by auto
    have "same_outside (unat a) ?N (?c s) (?c s3)"
      unfolding s3(2) s1(3)[symmetric]
      by (rule same_outsideI) (use l2 b(3) same_outside_nth[OF so] in auto)
    then show ?thesis using s1(1) ws s3(1) k(2,3) by blast
  qed
qed

section \<open>Alignment\<close>

lemma align_down_pow2: "unat (FDB_ALIGN_DOWN x (2 ^ k)) = unat x div 2 ^ k * 2 ^ k" if "k < 32"
proof -
  have "(2 ^ k :: u32) - 1 = mask k" by (simp add: mask_eq_exp_minus_1)
  then have "FDB_ALIGN_DOWN x (2 ^ k) = x AND NOT (mask k)" by (simp add: FDB_ALIGN_DOWN_def)
  also have "unat \<dots> = unat x - unat x mod 2 ^ k"
  proof -
    have "x AND NOT (mask k) = push_bit k (drop_bit k x)"
      by (rule bit_word_eqI) (auto simp: bit_and_iff bit_not_iff bit_mask_iff bit_push_bit_iff bit_drop_bit_eq)
    also have "\<dots> = push_bit k (of_nat (unat (drop_bit k x)))" by simp
    also have "\<dots> = of_nat (unat x div 2 ^ k * 2 ^ k)"
      by (simp only: push_bit_of_nat unat_drop_bit_eq push_bit_nat_def drop_bit_nat_def)
    finally have e: "x AND NOT (mask k) = of_nat (unat x div 2 ^ k * 2 ^ k)" .
    have "unat x div 2 ^ k * 2 ^ k \<le> unat x" by simp
    also have "\<dots> < 2 ^ 32" using unat_lt32[of x] by simp
    finally show ?thesis by (simp only: e unat_of_nat_lt minus_mod_eq_div_mult)
  qed
  finally show ?thesis by (simp only: minus_mod_eq_div_mult)
qed

text \<open>Rounding up to the write granularity in bytes, \<open>w\<close> being 1, 4 or 8.\<close>

definition wg_bytes :: "nat \<Rightarrow> nat" where
  "wg_bytes gran = (gran + 7) div 8"

lemma wg_align:
  assumes "gran \<in> grans" "unat x + 8 \<le> 2 ^ 32"
  shows "unat (FDB_WG_ALIGN gran x) = (unat x + wg_bytes gran - 1) div wg_bytes gran * wg_bytes gran"
proof -
  have *: "unat (FDB_ALIGN x (2 ^ k)) = (unat x + 2 ^ k - 1) div 2 ^ k * 2 ^ k" if "k \<in> {0, 2, 3}" for k
  proof -
    have "unat (x + (2 ^ k - 1)) = unat x + (2 ^ k - 1)"
      using that assms(2) by (subst unat_add_small) auto
    then have "unat (FDB_ALIGN_DOWN (x + (2 ^ k - 1)) (2 ^ k)) = (unat x + (2 ^ k - 1)) div 2 ^ k * 2 ^ k"
      using that by (subst align_down_pow2) auto
    moreover have "FDB_ALIGN x (2 ^ k) = FDB_ALIGN_DOWN (x + (2 ^ k - 1)) (2 ^ k)"
      by (simp add: FDB_ALIGN_def FDB_ALIGN_DOWN_def algebra_simps)
    ultimately show ?thesis using that by auto
  qed
  from assms(1) show ?thesis
    using *[of 0] *[of 2] *[of 3] by (auto simp: grans_def FDB_WG_ALIGN_def wg_bytes_def)
qed

section \<open>The erased end of a range is found\<close>

definition ff_inv :: "u8 list \<Rightarrow> nat \<Rightarrow> nat \<Rightarrow> u8 \<Rightarrow> u32 \<Rightarrow> bool" where
  "ff_inv m st pos last_data addr \<longleftrightarrow>
     (if pos = st then last_data = 0 else last_data = m ! (pos - 1)) \<and>
     (last_data = 0xFF \<longrightarrow> st \<le> unat addr \<and> unat addr < pos \<and> (\<forall>i. unat addr \<le> i \<and> i < pos \<longrightarrow> m ! i = 0xFF) \<and>
        (unat addr = st \<or> m ! (unat addr - 1) \<noteq> 0xFF))"

lemma ff_inv_step:
  assumes "ff_inv m st pos last_data addr" "st \<le> pos" "b = m ! pos" "unat p = pos"
  shows "ff_inv m st (Suc pos) b (if last_data \<noteq> 0xFF \<and> b = 0xFF then p else addr)"
  using assms by (auto simp: ff_inv_def less_Suc_eq split: if_splits)

lemma ff_scan_inv:
  "ff_inv m st pos last_data addr \<Longrightarrow> st \<le> pos \<Longrightarrow> pos + length bs \<le> length m \<Longrightarrow> length m < 2 ^ 32 \<Longrightarrow>
   unat p = pos \<Longrightarrow> bs = take (length bs) (drop pos m) \<Longrightarrow>
   case ff_scan bs p last_data addr of (l, a) \<Rightarrow> ff_inv m st (pos + length bs) l a"
proof (induction bs arbitrary: pos p last_data addr)
  case (Cons b bs)
  have b: "b = m ! pos" "bs = take (length bs) (drop (Suc pos) m)"
    using Cons.prems(3,6) by (auto simp: take_Suc_conv_app_nth Cons_nth_drop_Suc[symmetric] simp del: drop_Suc_Cons)
  have "unat (p + 1) = Suc pos" using Cons.prems(3,4,5) by (subst unat_add_small) auto
  then have "case ff_scan bs (p + 1) b (if last_data \<noteq> 0xFF \<and> b = 0xFF then p else addr) of
      (l, a) \<Rightarrow> ff_inv m st (Suc pos + length bs) l a"
    using Cons.prems(2-4) b(2) by (intro Cons.IH[OF ff_inv_step[OF Cons.prems(1,2) b(1) Cons.prems(5)]]) auto
  then show ?case by simp
qed simp

lemma ff_loop_inv:
  assumes "unat e \<le> length (db_content mem db s0)" "unat e + 32 \<le> 2 ^ 32" "db_ready mem blk db s0"
  shows "ff_inv (db_content mem db s0) st (unat start) l a \<Longrightarrow> st \<le> unat start \<Longrightarrow> unat start \<le> unat e \<Longrightarrow>
    db_ready mem blk db s \<Longrightarrow> db_content mem db s = db_content mem db s0 \<Longrightarrow>
    \<exists>l' a' s'. ff_loop db start e l a s = Some (l', a', s') \<and> ff_inv (db_content mem db s0) st (unat e) l' a' \<and>
      db_ready mem blk db s' \<and> db_content mem db s' = db_content mem db s0"
proof (induction "unat e - unat start" arbitrary: start l a s rule: less_induct)
  case less
  let ?m = "db_content mem db s0"
  show ?case
  proof (cases "start < e")
    case False
    then have "unat start = unat e" using less.prems(3) by (simp add: word_less_nat_alt)
    with False less.prems show ?thesis by (subst ff_loop.simps) auto
  next
    case True
    then have lt: "unat start < unat e" by (simp add: word_less_nat_alt)
    have s32: "unat (start + 32) = unat start + 32" using lt assms(2) by (subst unat_add_small) auto
    let ?n = "if start + 32 < e then 32 else e - start"
    have n: "unat ?n = min 32 (unat e - unat start)"
      using True lt s32 by (auto simp: word_less_nat_alt unat_sub word_le_nat_alt)
    let ?buf = "window (unat start) (unat ?n) ?m"
    have fit: "unat start + unat ?n \<le> length ?m" using n assms(1) lt by auto
    obtain s1 where s1: "fdb_flash_read db start ?n s = Some (FDB_NO_ERR, ?buf, s1)" "db_ready mem blk db s1" "db_content mem db s1 = ?m"
      using fdb_read_law[OF less.prems(4), of start ?n] fit less.prems(5) by auto
    have lb: "length ?buf = unat ?n" using fit by simp
    have lm: "length ?m < 2 ^ 32" using length_db_content[OF assms(3)] unat_lt32[of "part_len (db_part db)"] by simp
    obtain l1 a1 where sc: "ff_scan ?buf start l a = (l1, a1)" by (cases "ff_scan ?buf start l a")
    have i1: "ff_inv ?m st (unat start + unat ?n) l1 a1"
      using ff_scan_inv[OF less.prems(1,2) _ lm refl, of ?buf] lb fit sc by (simp add: window_def)
    have unf: "ff_loop db start e l a s = ff_loop db (start + 32) e l1 a1 s1"
      by (subst ff_loop.simps) (simp add: True s1(1) sc rd_blk_def lb split del: if_split)
    show ?thesis
    proof (cases "start + 32 < e")
      case more: True
      then have "unat start + unat ?n = unat (start + 32)" using s32 by simp
      with i1 less.hyps[of "start + 32" l1 a1 s1] less.prems(2) s1 more lt s32 show ?thesis
        by (simp add: unf word_less_nat_alt)
    next
      case fin: False
      then have "unat start + unat ?n = unat e" using n lt s32 by (simp add: word_less_nat_alt)
      then show ?thesis unfolding unf using i1 fin s1 by (subst ff_loop.simps) simp
    qed
  qed
qed

text \<open>
  the search for the erased end of a range ends, changes nothing, and finds it: if the last
  byte of the range is not erased the answer is the end; otherwise it is the start of the run of
  erased bytes that reaches the end, rounded up to the write granularity.
\<close>

lemma fdb_continue_ff_addr_finds_end:
  assumes "db_ready mem blk db s" "start \<le> e" "unat e \<le> length (db_content mem db s)" "unat e + 32 \<le> 2 ^ 32"
    and "gran \<in> {1, 8, 32, 64}"
  shows "\<exists>r s'. fdb_continue_ff_addr gran db start e s = Some (r, s') \<and> db_content mem db s' = db_content mem db s \<and>
    (if start = e \<or> db_content mem db s ! (unat e - 1) \<noteq> 0xFF then r = e
     else \<exists>a. unat start \<le> a \<and> a < unat e \<and> (\<forall>i \<in> {a..<unat e}. db_content mem db s ! i = 0xFF) \<and>
       (a = unat start \<or> db_content mem db s ! (a - 1) \<noteq> 0xFF) \<and>
       unat r = (a + wg_bytes gran - 1) div wg_bytes gran * wg_bytes gran)"
proof -
  let ?m = "db_content mem db s"
  have se: "unat start \<le> unat e" using assms(2) by (simp add: word_le_nat_alt)
  have "ff_inv ?m (unat start) (unat start) 0 start" by (simp add: ff_inv_def)
  from ff_loop_inv[OF assms(3,4,1) this order_refl se assms(1) refl] obtain l a s' where
    r: "ff_loop db start e 0 start s = Some (l, a, s')" "ff_inv ?m (unat start) (unat e) l a" "db_content mem db s' = ?m" by blast
  have ne: "(start = e) = (unat start = unat e)" by (simp add: word_unat_eq_iff)
  show ?thesis
  proof (cases "l = 0xFF")
    case True
    then have a: "unat start \<le> unat a" "unat a < unat e" "\<forall>i. unat a \<le> i \<and> i < unat e \<longrightarrow> ?m ! i = 0xFF"
      "unat a = unat start \<or> ?m ! (unat a - 1) \<noteq> 0xFF" using r(2) unfolding ff_inv_def by blast+
    have g: "gran \<in> grans" using assms(5) by (simp add: grans_def)
    have "?m ! (unat e - 1) = 0xFF" using a(2) a(3)[rule_format, of "unat e - 1"] by simp
    moreover have "unat (FDB_WG_ALIGN gran a) = (unat a + wg_bytes gran - 1) div wg_bytes gran * wg_bytes gran"
      using a(2) assms(4) by (intro wg_align[OF g]) simp
    ultimately have "\<exists>x. unat start \<le> x \<and> x < unat e \<and> (\<forall>i \<in> {x..<unat e}. ?m ! i = 0xFF) \<and>
       (x = unat start \<or> ?m ! (x - 1) \<noteq> 0xFF) \<and>
       unat (FDB_WG_ALIGN gran a) = (x + wg_bytes gran - 1) div wg_bytes gran * wg_bytes gran"
      and nl: "\<not> (start = e \<or> ?m ! (unat e - 1) \<noteq> 0xFF)"
      using a ne by (auto intro!: exI[of _ "unat a"])
    moreover have "fdb_continue_ff_addr gran db start e s = Some (FDB_WG_ALIGN gran a, s')"
      using r(1) True by (simp add: fdb_continue_ff_addr_def)
    ultimately show ?thesis unfolding if_not_P[OF nl] using r(3) by blast
  next
    case False
    then have "start = e \<or> ?m ! (unat e - 1) \<noteq> 0xFF" using r(2) ne by (auto simp: ff_inv_def split: if_splits)
    with False r show ?thesis by (auto simp: fdb_continue_ff_addr_def)
  qed
qed

text \<open>
  In single-bit tables a status whose number is a multiple of eight is never recorded: the mask
  is shifted by \<open>status_index % 8\<close>, which is then zero, and clears no bit.
\<close>

lemma set_status_multiple_of_8:
  "fdb_set_status 1 10 8 = Some (Some 0, [0xFF, 0xFF])" "fdb_get_status 1 [0xFF, 0xFF] 10 = Some 0"
  by code_simp+

section \<open>Witnesses\<close>

definition db_ex :: fdb_db where
  "db_ex = \<lparr>db_name = ''kv'', db_type = FDB_DB_TYPE_KV, db_part = FAL_PART_TABLE ! 0, db_sec_size = 4096,
     db_max_size = 512*1024, db_init_ok = True, db_file_mode = False, db_not_formatable = False, db_lock = None, db_unlock = None\<rparr>"

lemma db_ex_ready: "db_ready (\<lambda>h. h) 4096 db_ex (fal_ready nor16 nor16_mem)"
proof -
  have b: "unat (dev_blk_size nor16) = 4096" by (simp add: nor16_def ram_dev_def)
  have "FAL_PART_TABLE ! 0 \<in> set FAL_PART_TABLE" by (rule nth_mem) (simp add: FAL_PART_TABLE_def)
  from fal_ready_ok[OF nor16_ok(1-3,5,6) this] show ?thesis
    unfolding db_ready_def b by (simp add: db_ex_def del: One_nat_def)
qed

lemma db_ex_length: "length (db_content (\<lambda>h. h) db_ex (fal_ready nor16 nor16_mem)) = 524288"
  by (simp add: length_db_content[OF db_ex_ready]) (simp add: db_ex_def FAL_PART_TABLE_def part_def)

theorem status_survives_power_cut_witness:
  "\<exists>st s1 e s2 k s3. fdb_read_status 1 db_ex 0 6 (fal_ready nor16 nor16_mem) = Some (st, s1) \<and>
     fdb_write_status 1 db_ex 0 6 2 s1 = Some (e, s2) \<and> fdb_read_status 1 db_ex 0 6 s2 = Some (k, s3) \<and>
     (e = FDB_NO_ERR \<longrightarrow> k = max st 2)"
  using status_survives_power_cut[OF db_ex_ready, of 1 2 6 0]
  unfolding db_ex_length by (auto simp: FDB_STATUS_TABLE_SIZE_def)

end
