(* ===== verification/Fdb_Store.thy ===== *)
theory Fdb_Store
  imports Fdb_Utils
begin

text \<open>
  What the two databases of FlashDB share: the status of a sector (\<^verbatim>\<open>fdb_def.h\<close>), the start and
  end of a database (\<^verbatim>\<open>fdb.c\<close>) in FAL mode, words in raw headers, and early returns on errors.
\<close>

section \<open>Control flow and raw data\<close>

text \<open>\<open>if (result != FDB_NO_ERR) return result\<close> between two steps.\<close>

definition on_no_err :: "(fdb_err \<times> 's) option \<Rightarrow> ('s \<Rightarrow> (fdb_err \<times> 's) option) \<Rightarrow> (fdb_err \<times> 's) option" where
  "on_no_err m k = (case m of None \<Rightarrow> None
     | Some (result, s) \<Rightarrow> if result = FDB_NO_ERR then k s else Some (result, s))"

lemma on_no_err_simps [simp]:
  "on_no_err (Some (FDB_NO_ERR, s)) k = k s"
  "e \<noteq> FDB_NO_ERR \<Longrightarrow> on_no_err (Some (e, s)) k = Some (e, s)"
  "on_no_err None k = None"
  by (simp_all add: on_no_err_def)

text \<open>A word of a raw header; bytes that were not read are outside of it.\<close>

definition rd32 :: "u8 list \<Rightarrow> nat \<Rightarrow> u32 option" where
  "rd32 raw i = map_option (\<lambda>b. le32 b 0) (rd_blk raw i 4)"

text \<open>The status of a table inside a raw header.\<close>

definition status_at :: "nat \<Rightarrow> u8 list \<Rightarrow> nat \<Rightarrow> nat \<Rightarrow> nat option" where
  "status_at gran raw i num = do {
     tab \<leftarrow> rd_blk raw i (FDB_STATUS_TABLE_SIZE gran num);
     fdb_get_status gran tab num }"

text \<open>The offset of a word behind \<open>n\<close> bytes of a struct.\<close>

definition word_aligned :: "nat \<Rightarrow> nat" where
  "word_aligned n = (n + 3) div 4 * 4"

section \<open>Status of a sector\<close>

datatype fdb_sector_store_status = FDB_SECTOR_STORE_UNUSED | FDB_SECTOR_STORE_EMPTY
  | FDB_SECTOR_STORE_USING | FDB_SECTOR_STORE_FULL

definition FDB_SECTOR_STORE_STATUS_NUM :: nat where "FDB_SECTOR_STORE_STATUS_NUM = 4"

primrec store_no :: "fdb_sector_store_status \<Rightarrow> nat" where
  "store_no FDB_SECTOR_STORE_UNUSED = 0"
| "store_no FDB_SECTOR_STORE_EMPTY = 1"
| "store_no FDB_SECTOR_STORE_USING = 2"
| "store_no FDB_SECTOR_STORE_FULL = 3"

text \<open>The cast of a number to the enum, for the numbers that \<open>_fdb_get_status\<close> answers.\<close>

definition store_of :: "nat \<Rightarrow> fdb_sector_store_status" where
  "store_of n = (if n = 0 then FDB_SECTOR_STORE_UNUSED else if n = 1 then FDB_SECTOR_STORE_EMPTY
     else if n = 2 then FDB_SECTOR_STORE_USING else FDB_SECTOR_STORE_FULL)"

lemma store_of_no [simp]: "store_of (store_no st) = st"
  by (cases st) (simp_all add: store_of_def)

definition FDB_STORE_STATUS_TABLE_SIZE :: "nat \<Rightarrow> nat" where
  "FDB_STORE_STATUS_TABLE_SIZE gran = FDB_STATUS_TABLE_SIZE gran FDB_SECTOR_STORE_STATUS_NUM"

definition FDB_DATA_UNUSED :: u32 where "FDB_DATA_UNUSED = 0xFFFFFFFF"

section \<open>Start and end of a database\<close>

text \<open>
  A division by zero is \<open>None\<close>, as is a failed assertion. A partition that is not found
  leaves the field of the old one; the database is not initialised then.
\<close>

definition fdb_open_part :: "fdb_db \<Rightarrow> string \<Rightarrow> 'd fal \<Rightarrow> (fdb_err \<times> fdb_db \<times> 'd fal) option" where
  "fdb_open_part db path s = do {
     (_, s) \<leftarrow> fal_init s;
     found \<leftarrow> fal_partition_find path s;
     case found of
       None \<Rightarrow> Some (FDB_PART_NOT_FOUND, db, s)
     | Some p \<Rightarrow> do {
         flash_dev \<leftarrow> fal_flash_device_find (part_flash p) s;
         dev \<leftarrow> flash_dev;
         let block_size = dev_blk_size dev;
         if db_sec_size db \<noteq> 0 \<and> (block_size = 0 \<or> db_sec_size db mod block_size \<noteq> 0) then None
         else Some (FDB_NO_ERR,
           db\<lparr>db_part := p, db_sec_size := (if db_sec_size db = 0 then block_size else db_sec_size db),
              db_max_size := part_len p\<rparr>, s) } }"

definition fdb_init_ex :: "fdb_db \<Rightarrow> string \<Rightarrow> string \<Rightarrow> fdb_db_type \<Rightarrow> 'd fal \<Rightarrow> (fdb_err \<times> fdb_db \<times> 'd fal) option" where
  "fdb_init_ex db name path type s =
     (if db_init_ok db then Some (FDB_NO_ERR, db, s)
      else do {
        let db = db\<lparr>db_name := name, db_type := type\<rparr>;
        (result, db, s) \<leftarrow> (if db_file_mode db then Some (FDB_NO_ERR, db, s) else fdb_open_part db path s);
        if result \<noteq> FDB_NO_ERR then Some (result, db, s)
        else if db_sec_size db = 0 \<or> db_max_size db mod db_sec_size db \<noteq> 0 \<or> db_max_size db div db_sec_size db < 2 then None
        else Some (FDB_NO_ERR, db, s) })"

definition fdb_init_finish :: "fdb_db \<Rightarrow> fdb_err \<Rightarrow> fdb_db" where
  "fdb_init_finish db result = (if result = FDB_NO_ERR then db\<lparr>db_init_ok := True\<rparr> else db)"

definition fdb_deinit :: "fdb_db \<Rightarrow> fdb_db" where
  "fdb_deinit db = db\<lparr>db_init_ok := False\<rparr>"

end
