(* ===== verification/Tsdb.thy ===== *)
theory Tsdb
  imports Fdb_Store
begin

text \<open>
  The time series database (\<^verbatim>\<open>FlashDB/src/fdb_tsdb.c\<close>) with 32-bit timestamps, for any write
  granularity \<open>gran\<close>. A sector holds a header, the index of its logs from the top and their data from
  the bottom. The value \<open>None\<close> is a failed assertion, the use of bytes that were not read, or a loop
  that does not end. The contents of a local variable before it is set is an argument \<open>junk\<close>.
  The clock is an argument of the operations that ask it, and calls of the lock are left out.
\<close>

section \<open>Types and layout\<close>

datatype fdb_tsl_status = FDB_TSL_UNUSED | FDB_TSL_PRE_WRITE | FDB_TSL_WRITE | FDB_TSL_USER_STATUS1
  | FDB_TSL_DELETED | FDB_TSL_USER_STATUS2

definition FDB_TSL_STATUS_NUM :: nat where "FDB_TSL_STATUS_NUM = 6"

primrec tsl_no :: "fdb_tsl_status \<Rightarrow> nat" where
  "tsl_no FDB_TSL_UNUSED = 0"
| "tsl_no FDB_TSL_PRE_WRITE = 1"
| "tsl_no FDB_TSL_WRITE = 2"
| "tsl_no FDB_TSL_USER_STATUS1 = 3"
| "tsl_no FDB_TSL_DELETED = 4"
| "tsl_no FDB_TSL_USER_STATUS2 = 5"

definition tsl_of :: "nat \<Rightarrow> fdb_tsl_status" where
  "tsl_of n = (if n = 0 then FDB_TSL_UNUSED else if n = 1 then FDB_TSL_PRE_WRITE else if n = 2 then FDB_TSL_WRITE
     else if n = 3 then FDB_TSL_USER_STATUS1 else if n = 4 then FDB_TSL_DELETED else FDB_TSL_USER_STATUS2)"

lemma tsl_of_no [simp]: "tsl_of (tsl_no st) = st"
  by (cases st) (simp_all add: tsl_of_def)

record fdb_tsl =
  tsl_status :: fdb_tsl_status
  tsl_time :: u32
  tsl_len :: u32
  tsl_index :: u32
  tsl_log :: u32

record tsdb_sec_info =
  sec_check_ok :: bool
  sec_status :: fdb_sector_store_status
  sec_addr :: u32
  sec_magic :: u32
  start_time :: u32
  end_time :: u32
  end_idx :: u32
  end_info_stat0 :: fdb_tsl_status
  end_info_stat1 :: fdb_tsl_status
  remain :: u32
  empty_idx :: u32
  empty_data :: u32

record fdb_tsdb =
  parent :: fdb_db
  cur_sec :: tsdb_sec_info
  last_time :: u32
  max_len :: u32
  oldest_addr :: u32
  rollover :: bool

definition SECTOR_MAGIC_WORD :: u32 where "SECTOR_MAGIC_WORD = 0x304C5354"
definition FAILED_ADDR :: u32 where "FAILED_ADDR = 0xFFFFFFFF"

definition TSL_STATUS_TABLE_SIZE :: "nat \<Rightarrow> nat" where
  "TSL_STATUS_TABLE_SIZE gran = FDB_STATUS_TABLE_SIZE gran FDB_TSL_STATUS_NUM"

text \<open>\<open>struct log_idx_data\<close>: status, time, length, address.\<close>

definition LOG_IDX_TS_OFFSET :: "nat \<Rightarrow> nat" where
  "LOG_IDX_TS_OFFSET gran = word_aligned (TSL_STATUS_TABLE_SIZE gran)"
definition sizeof_log_idx :: "nat \<Rightarrow> nat" where "sizeof_log_idx gran = LOG_IDX_TS_OFFSET gran + 12"
definition LOG_IDX_DATA_SIZE :: "nat \<Rightarrow> u32" where
  "LOG_IDX_DATA_SIZE gran = FDB_WG_ALIGN gran (of_nat (sizeof_log_idx gran))"

text \<open>\<open>struct sector_hdr_data\<close>: status, magic, start time, two end infos, a reserved word.\<close>

definition SECTOR_MAGIC_OFFSET :: "nat \<Rightarrow> nat" where
  "SECTOR_MAGIC_OFFSET gran = word_aligned (FDB_STORE_STATUS_TABLE_SIZE gran)"
definition SECTOR_START_TIME_OFFSET :: "nat \<Rightarrow> nat" where
  "SECTOR_START_TIME_OFFSET gran = SECTOR_MAGIC_OFFSET gran + 4"
definition sizeof_end_info :: "nat \<Rightarrow> nat" where
  "sizeof_end_info gran = 8 + word_aligned (TSL_STATUS_TABLE_SIZE gran)"

text \<open>The three fields of \<open>end_info[k]\<close>, \<open>k\<close> being 0 or 1.\<close>

definition SECTOR_END_TIME_OFFSET :: "nat \<Rightarrow> nat \<Rightarrow> nat" where
  "SECTOR_END_TIME_OFFSET gran k = SECTOR_START_TIME_OFFSET gran + 4 + k * sizeof_end_info gran"
definition SECTOR_END_IDX_OFFSET :: "nat \<Rightarrow> nat \<Rightarrow> nat" where
  "SECTOR_END_IDX_OFFSET gran k = SECTOR_END_TIME_OFFSET gran k + 4"
definition SECTOR_END_STATUS_OFFSET :: "nat \<Rightarrow> nat \<Rightarrow> nat" where
  "SECTOR_END_STATUS_OFFSET gran k = SECTOR_END_TIME_OFFSET gran k + 8"
definition sizeof_sector_hdr :: "nat \<Rightarrow> nat" where
  "sizeof_sector_hdr gran = SECTOR_END_TIME_OFFSET gran 2 + 4"
definition SECTOR_HDR_DATA_SIZE :: "nat \<Rightarrow> u32" where
  "SECTOR_HDR_DATA_SIZE gran = FDB_WG_ALIGN gran (of_nat (sizeof_sector_hdr gran))"

section \<open>Reading\<close>

text \<open>\<open>read_tsl\<close> always answers \<open>FDB_NO_ERR\<close>.\<close>

definition read_tsl :: "nat \<Rightarrow> fdb_tsdb \<Rightarrow> fdb_tsl \<Rightarrow> 'd fal \<Rightarrow> (fdb_tsl \<times> 'd fal) option" where
  "read_tsl gran db tsl s = do {
     (_, idx, s) \<leftarrow> fdb_flash_read (parent db) (tsl_index tsl) (of_nat (sizeof_log_idx gran)) s;
     st \<leftarrow> status_at gran idx 0 FDB_TSL_STATUS_NUM;
     let status = tsl_of st;
     if status = FDB_TSL_PRE_WRITE \<or> status = FDB_TSL_UNUSED then
       Some (tsl\<lparr>tsl_status := status, tsl_len := max_len db, tsl_log := FDB_DATA_UNUSED, tsl_time := 0\<rparr>, s)
     else do {
       time \<leftarrow> rd32 idx (LOG_IDX_TS_OFFSET gran);
       len \<leftarrow> rd32 idx (LOG_IDX_TS_OFFSET gran + 4);
       addr \<leftarrow> rd32 idx (LOG_IDX_TS_OFFSET gran + 8);
       Some (tsl\<lparr>tsl_status := status, tsl_len := len, tsl_log := addr, tsl_time := time\<rparr>, s) } }"

definition get_next_sector_addr :: "fdb_tsdb \<Rightarrow> tsdb_sec_info \<Rightarrow> u32 \<Rightarrow> u32" where
  "get_next_sector_addr db pre_sec traversed_len =
     (if traversed_len + db_sec_size (parent db) \<le> db_max_size (parent db) then
        if sec_addr pre_sec + db_sec_size (parent db) < db_max_size (parent db)
        then sec_addr pre_sec + db_sec_size (parent db) else 0
      else FAILED_ADDR)"

definition get_next_tsl_addr :: "nat \<Rightarrow> tsdb_sec_info \<Rightarrow> fdb_tsl \<Rightarrow> u32" where
  "get_next_tsl_addr gran sector pre_tsl =
     (if sec_status sector = FDB_SECTOR_STORE_EMPTY then FAILED_ADDR
      else if tsl_index pre_tsl + LOG_IDX_DATA_SIZE gran \<le> end_idx sector
      then tsl_index pre_tsl + LOG_IDX_DATA_SIZE gran else FAILED_ADDR)"

text \<open>The walk over the logs of a sector that measures its free space.\<close>

partial_function (option) measure_loop ::
  "nat \<Rightarrow> fdb_tsdb \<Rightarrow> fdb_tsl \<Rightarrow> tsdb_sec_info \<Rightarrow> 'd fal \<Rightarrow> (fdb_err \<times> tsdb_sec_info \<times> 'd fal) option" where
  "measure_loop gran db tsl sector s = do {
     (tsl, s) \<leftarrow> read_tsl gran db tsl s;
     if tsl_status tsl = FDB_TSL_UNUSED then Some (FDB_NO_ERR, sector, s)
     else do {
       let need = LOG_IDX_DATA_SIZE gran + FDB_WG_ALIGN gran (tsl_len tsl);
       let sector = sector\<lparr>end_time := tsl_time tsl, end_idx := tsl_index tsl, empty_idx := empty_idx sector + LOG_IDX_DATA_SIZE gran,
         empty_data := empty_data sector - FDB_WG_ALIGN gran (tsl_len tsl)\<rparr>;
       if remain sector > need
       then measure_loop gran db (tsl\<lparr>tsl_index := tsl_index tsl + LOG_IDX_DATA_SIZE gran\<rparr>) (sector\<lparr>remain := remain sector - need\<rparr>) s
       else Some (FDB_READ_ERR, sector\<lparr>remain := 0\<rparr>, s) } }"

definition junk_tsl :: "u32 \<Rightarrow> fdb_tsl" where
  "junk_tsl index = \<lparr>tsl_status = FDB_TSL_UNUSED, tsl_time = 0, tsl_len = 0, tsl_index = index, tsl_log = 0\<rparr>"

text \<open>The fields a valid end info sets; two that were only begun stop the program.\<close>

definition read_end_info :: "nat \<Rightarrow> u8 list \<Rightarrow> tsdb_sec_info \<Rightarrow> tsdb_sec_info option" where
  "read_end_info gran hdr sector =
     (if end_info_stat0 sector = FDB_TSL_WRITE then do {
        t \<leftarrow> rd32 hdr (SECTOR_END_TIME_OFFSET gran 0);
        i \<leftarrow> rd32 hdr (SECTOR_END_IDX_OFFSET gran 0);
        Some (sector\<lparr>end_time := t, end_idx := i\<rparr>) }
      else if end_info_stat1 sector = FDB_TSL_WRITE then do {
        t \<leftarrow> rd32 hdr (SECTOR_END_TIME_OFFSET gran 1);
        i \<leftarrow> rd32 hdr (SECTOR_END_IDX_OFFSET gran 1);
        Some (sector\<lparr>end_time := t, end_idx := i\<rparr>) }
      else if end_info_stat0 sector = FDB_TSL_PRE_WRITE \<and> end_info_stat1 sector = FDB_TSL_PRE_WRITE then None
      else Some sector)"

definition read_sector_info ::
  "nat \<Rightarrow> fdb_tsdb \<Rightarrow> u32 \<Rightarrow> tsdb_sec_info \<Rightarrow> bool \<Rightarrow> 'd fal \<Rightarrow> (fdb_err \<times> tsdb_sec_info \<times> 'd fal) option" where
  "read_sector_info gran db addr sector traversal s = do {
     (_, hdr, s) \<leftarrow> fdb_flash_read (parent db) addr (of_nat (sizeof_sector_hdr gran)) s;
     magic \<leftarrow> rd32 hdr (SECTOR_MAGIC_OFFSET gran);
     let sector = sector\<lparr>sec_addr := addr, sec_magic := magic\<rparr>;
     if magic \<noteq> SECTOR_MAGIC_WORD then Some (FDB_INIT_FAILED, sector\<lparr>sec_check_ok := False\<rparr>, s)
     else do {
       st \<leftarrow> status_at gran hdr 0 FDB_SECTOR_STORE_STATUS_NUM;
       t \<leftarrow> rd32 hdr (SECTOR_START_TIME_OFFSET gran);
       st0 \<leftarrow> status_at gran hdr (SECTOR_END_STATUS_OFFSET gran 0) FDB_TSL_STATUS_NUM;
       st1 \<leftarrow> status_at gran hdr (SECTOR_END_STATUS_OFFSET gran 1) FDB_TSL_STATUS_NUM;
       sector \<leftarrow> read_end_info gran hdr (sector\<lparr>sec_check_ok := True, sec_status := store_of st, start_time := t,
         end_info_stat0 := tsl_of st0, end_info_stat1 := tsl_of st1\<rparr>);
       let first = sec_addr sector + SECTOR_HDR_DATA_SIZE gran;
       let bottom = sec_addr sector + db_sec_size (parent db);
       let sector = sector\<lparr>empty_idx := first, empty_data := bottom, remain := bottom - first\<rparr>;
       if sec_status sector = FDB_SECTOR_STORE_USING \<and> traversal
       then measure_loop gran db (junk_tsl (empty_idx sector)) sector s
       else Some (FDB_NO_ERR, sector, s) } }"

section \<open>Formatting\<close>

definition format_sector :: "nat \<Rightarrow> fdb_tsdb \<Rightarrow> u32 \<Rightarrow> 'd fal \<Rightarrow> (fdb_err \<times> 'd fal) option" where
  "format_sector gran db addr s =
     (if db_sec_size (parent db) = 0 \<or> addr mod db_sec_size (parent db) \<noteq> 0 then None
      else on_no_err (fdb_flash_erase (parent db) addr (db_sec_size (parent db)) s) (\<lambda>s.
        on_no_err (fdb_write_status gran (parent db) addr FDB_SECTOR_STORE_STATUS_NUM (store_no FDB_SECTOR_STORE_EMPTY) s) (\<lambda>s.
        fdb_flash_write (parent db) (addr + of_nat (SECTOR_MAGIC_OFFSET gran)) (put_le32 SECTOR_MAGIC_WORD) s)))"

text \<open>
  All sectors of a status (any for \<open>FDB_SECTOR_STORE_UNUSED\<close>) from the one of \<open>sector\<close> on; the
  callback has a state of its own and stops the walk with \<open>True\<close>.
\<close>

partial_function (option) sector_iter_loop ::
  "nat \<Rightarrow> fdb_tsdb \<Rightarrow> fdb_sector_store_status \<Rightarrow> (tsdb_sec_info \<Rightarrow> 'x \<Rightarrow> 'd fal \<Rightarrow> (bool \<times> 'x \<times> 'd fal) option) \<Rightarrow>
   bool \<Rightarrow> u32 \<Rightarrow> u32 \<Rightarrow> tsdb_sec_info \<Rightarrow> 'x \<Rightarrow> 'd fal \<Rightarrow> ('x \<times> 'd fal) option" where
  "sector_iter_loop gran db status callback traversal addr traversed_len sector x s = do {
     (_, sector, s) \<leftarrow> read_sector_info gran db addr sector False s;
     (stop, sector, x, s) \<leftarrow>
       (if status = FDB_SECTOR_STORE_UNUSED \<or> status = sec_status sector then do {
          (_, sector, s) \<leftarrow> (if traversal then read_sector_info gran db addr sector True s else Some (FDB_NO_ERR, sector, s));
          (stop, x, s) \<leftarrow> callback sector x s;
          Some (stop, sector, x, s) }
        else Some (False, sector, x, s));
     if stop then Some (x, s)
     else do {
       let traversed_len = traversed_len + db_sec_size (parent db);
       let addr = get_next_sector_addr db sector traversed_len;
       if addr \<noteq> FAILED_ADDR then sector_iter_loop gran db status callback traversal addr traversed_len sector x s
       else Some (x, s) } }"

definition sector_iterator ::
  "nat \<Rightarrow> fdb_tsdb \<Rightarrow> tsdb_sec_info \<Rightarrow> fdb_sector_store_status \<Rightarrow>
   (tsdb_sec_info \<Rightarrow> 'x \<Rightarrow> 'd fal \<Rightarrow> (bool \<times> 'x \<times> 'd fal) option) \<Rightarrow> bool \<Rightarrow> 'x \<Rightarrow> 'd fal \<Rightarrow> ('x \<times> 'd fal) option" where
  "sector_iterator gran db sector status callback traversal x s =
     sector_iter_loop gran db status callback traversal (sec_addr sector) 0 sector x s"

section \<open>Appending\<close>

text \<open>The data of a blob are the first \<open>blob_size\<close> bytes of its buffer.\<close>

definition write_tsl :: "nat \<Rightarrow> fdb_tsdb \<Rightarrow> fdb_blob \<Rightarrow> u32 \<Rightarrow> 'd fal \<Rightarrow> (fdb_err \<times> 'd fal) option" where
  "write_tsl gran db blob time s =
     (let idx_addr = empty_idx (cur_sec db); len = blob_size blob;
          log_addr = empty_data (cur_sec db) - FDB_WG_ALIGN gran len in
      on_no_err (fdb_write_status gran (parent db) idx_addr FDB_TSL_STATUS_NUM (tsl_no FDB_TSL_PRE_WRITE) s) (\<lambda>s.
      on_no_err (fdb_flash_write (parent db) (idx_addr + of_nat (LOG_IDX_TS_OFFSET gran))
                   (put_le32 time @ put_le32 len @ put_le32 log_addr) s) (\<lambda>s.
      on_no_err (do { data \<leftarrow> rd_blk (blob_buf blob) 0 (unat len); fdb_flash_write (parent db) log_addr data s }) (\<lambda>s.
      fdb_write_status gran (parent db) idx_addr FDB_TSL_STATUS_NUM (tsl_no FDB_TSL_WRITE) s))))"

definition save_end_info :: "nat \<Rightarrow> fdb_tsdb \<Rightarrow> u32 \<Rightarrow> nat \<Rightarrow> u32 \<Rightarrow> 'd fal \<Rightarrow> (fdb_err \<times> 'd fal) option" where
  "save_end_info gran db addr k end_index s =
     (let status_addr = addr + of_nat (SECTOR_END_STATUS_OFFSET gran k) in
      on_no_err (fdb_write_status gran (parent db) status_addr FDB_TSL_STATUS_NUM (tsl_no FDB_TSL_PRE_WRITE) s) (\<lambda>s.
      on_no_err (fdb_flash_write (parent db) (addr + of_nat (SECTOR_END_TIME_OFFSET gran k)) (put_le32 (last_time db)) s) (\<lambda>s.
      on_no_err (fdb_flash_write (parent db) (addr + of_nat (SECTOR_END_IDX_OFFSET gran k)) (put_le32 end_index) s) (\<lambda>s.
      fdb_write_status gran (parent db) status_addr FDB_TSL_STATUS_NUM (tsl_no FDB_TSL_WRITE) s))))"

text \<open>
  The move to the sector at \<open>new_sec_addr\<close>: the parameter \<open>sector\<close> of the C function is
  \<open>db->cur_sec\<close> itself, so that the status tested is the one just read. The result of the
  formatting is not used.
\<close>

definition enter_sector :: "nat \<Rightarrow> fdb_tsdb \<Rightarrow> u32 \<Rightarrow> 'd fal \<Rightarrow> (fdb_tsdb \<times> 'd fal) option" where
  "enter_sector gran db new_sec_addr s = do {
     (_, sector, s) \<leftarrow> read_sector_info gran db new_sec_addr (cur_sec db) False s;
     let db = db\<lparr>cur_sec := sector\<rparr>;
     if sec_status sector \<noteq> FDB_SECTOR_STORE_EMPTY then do {
       let sz = db_sec_size (parent db);
       let db = db\<lparr>oldest_addr := (if new_sec_addr + sz < db_max_size (parent db) then new_sec_addr + sz else 0)\<rparr>;
       (_, s) \<leftarrow> format_sector gran db new_sec_addr s;
       (_, sector, s) \<leftarrow> read_sector_info gran db new_sec_addr sector False s;
       Some (db\<lparr>cur_sec := sector\<rparr>, s) }
     else Some (db, s) }"

text \<open>The current sector has no room: it is marked full, and the next one is entered.\<close>

definition leave_sector :: "nat \<Rightarrow> fdb_tsdb \<Rightarrow> 'd fal \<Rightarrow> (fdb_err \<times> fdb_tsdb \<times> 'd fal) option" where
  "leave_sector gran db s = do {
     let sector = cur_sec db;
     let end_index = empty_idx sector - LOG_IDX_DATA_SIZE gran;
     (result, s) \<leftarrow> on_no_err
       (if end_info_stat0 sector = FDB_TSL_UNUSED then save_end_info gran db (sec_addr sector) 0 end_index s
        else if end_info_stat1 sector = FDB_TSL_UNUSED then save_end_info gran db (sec_addr sector) 1 end_index s
        else Some (FDB_NO_ERR, s))
       (fdb_write_status gran (parent db) (sec_addr sector) FDB_SECTOR_STORE_STATUS_NUM (store_no FDB_SECTOR_STORE_FULL));
     if result \<noteq> FDB_NO_ERR then Some (result, db, s)
     else do {
       let db = db\<lparr>cur_sec := sector\<lparr>sec_status := FDB_SECTOR_STORE_FULL\<rparr>\<rparr>;
       let sz = db_sec_size (parent db);
       if sec_addr sector + sz < db_max_size (parent db) then do {
         (db, s) \<leftarrow> enter_sector gran db (sec_addr sector + sz) s;
         Some (FDB_NO_ERR, db, s) }
       else if rollover db then do {
         (db, s) \<leftarrow> enter_sector gran db 0 s;
         Some (FDB_NO_ERR, db, s) }
       else Some (FDB_SAVED_FULL, db, s) } }"

definition start_sector :: "nat \<Rightarrow> fdb_tsdb \<Rightarrow> u32 \<Rightarrow> 'd fal \<Rightarrow> (fdb_err \<times> fdb_tsdb \<times> 'd fal) option" where
  "start_sector gran db cur_time s = do {
     let sector = (cur_sec db)\<lparr>sec_status := FDB_SECTOR_STORE_USING, start_time := cur_time\<rparr>;
     (result, s) \<leftarrow> on_no_err
       (fdb_write_status gran (parent db) (sec_addr sector) FDB_SECTOR_STORE_STATUS_NUM (store_no FDB_SECTOR_STORE_USING) s)
       (fdb_flash_write (parent db) (sec_addr sector + of_nat (SECTOR_START_TIME_OFFSET gran)) (put_le32 cur_time));
     Some (result, db\<lparr>cur_sec := sector\<rparr>, s) }"

definition update_sec_status :: "nat \<Rightarrow> fdb_tsdb \<Rightarrow> fdb_blob \<Rightarrow> u32 \<Rightarrow> 'd fal \<Rightarrow> (fdb_err \<times> fdb_tsdb \<times> 'd fal) option" where
  "update_sec_status gran db blob cur_time s = do {
     let sector = cur_sec db;
     (result, db, s) \<leftarrow>
       (if sec_status sector = FDB_SECTOR_STORE_USING \<and>
           remain sector < LOG_IDX_DATA_SIZE gran + FDB_WG_ALIGN gran (blob_size blob) then leave_sector gran db s
        else if sec_status sector = FDB_SECTOR_STORE_FULL then Some (FDB_SAVED_FULL, db, s)
        else Some (FDB_NO_ERR, db, s));
     if result \<noteq> FDB_NO_ERR then Some (result, db, s)
     else if sec_status (cur_sec db) = FDB_SECTOR_STORE_EMPTY then start_sector gran db cur_time s
     else Some (FDB_NO_ERR, db, s) }"

text \<open>The bookkeeping after a log was written.\<close>

definition count_tsl :: "nat \<Rightarrow> u32 \<Rightarrow> u32 \<Rightarrow> fdb_tsdb \<Rightarrow> fdb_tsdb" where
  "count_tsl gran len cur_time db =
     (let sector = cur_sec db in
      db\<lparr>cur_sec := sector\<lparr>end_idx := empty_idx sector, end_time := cur_time,
           empty_idx := empty_idx sector + LOG_IDX_DATA_SIZE gran, empty_data := empty_data sector - FDB_WG_ALIGN gran len,
           remain := remain sector - (LOG_IDX_DATA_SIZE gran + FDB_WG_ALIGN gran len)\<rparr>,
         last_time := cur_time\<rparr>)"

definition tsl_append :: "nat \<Rightarrow> fdb_tsdb \<Rightarrow> fdb_blob \<Rightarrow> u32 \<Rightarrow> 'd fal \<Rightarrow> (fdb_err \<times> fdb_tsdb \<times> 'd fal) option" where
  "tsl_append gran db blob cur_time s =
     (if blob_size blob > max_len db then None
      else if sint cur_time < sint (last_time db) then Some (FDB_WRITE_ERR, db, s)
      else do {
        (result, db, s) \<leftarrow> update_sec_status gran db blob cur_time s;
        if result \<noteq> FDB_NO_ERR then Some (result, db, s)
        else do {
          (result, s) \<leftarrow> write_tsl gran db blob cur_time s;
          if result \<noteq> FDB_NO_ERR then Some (result, db, s)
          else Some (FDB_NO_ERR, count_tsl gran (blob_size blob) cur_time db, s) } })"

definition fdb_tsl_append :: "nat \<Rightarrow> fdb_tsdb \<Rightarrow> fdb_blob \<Rightarrow> u32 \<Rightarrow> 'd fal \<Rightarrow> (fdb_err \<times> fdb_tsdb \<times> 'd fal) option" where
  "fdb_tsl_append gran db blob cur_time s =
     (if \<not> db_init_ok (parent db) then Some (FDB_INIT_FAILED, db, s) else tsl_append gran db blob cur_time s)"

declare measure_loop.simps [code] and
  sector_iter_loop.simps [code]

end
