(* ===== verification/Fdb_Fields.thy ===== *)
theory Fdb_Fields
  imports Fdb_Store
begin

text \<open>
  Fields of the structures that the databases keep in flash: erased cells, words and status
  tables at an offset of a memory, what keeps them, and how the flash operations of \<^verbatim>\<open>fdb_utils.c\<close> change
  the bytes of one sector when the flash does not fail.
\<close>

section \<open>Fields\<close>

definition erased :: "u8 list \<Rightarrow> nat \<Rightarrow> nat \<Rightarrow> bool" where
  "erased b i j \<longleftrightarrow> (\<forall>k. i \<le> k \<longrightarrow> k < j \<longrightarrow> b ! k = 0xFF)"

definition table_at :: "nat \<Rightarrow> u8 list \<Rightarrow> nat \<Rightarrow> nat \<Rightarrow> nat \<Rightarrow> bool" where
  "table_at gran b i n st \<longleftrightarrow> i + FDB_STATUS_TABLE_SIZE gran n \<le> length b \<and>
     fdb_get_status gran (window i (FDB_STATUS_TABLE_SIZE gran n) b) n = Some st"

definition word_at :: "u8 list \<Rightarrow> nat \<Rightarrow> u32 \<Rightarrow> bool" where
  "word_at b i x \<longleftrightarrow> i + 4 \<le> length b \<and> window i 4 b = put_le32 x"

text \<open>Two memories of the same size that agree on a range.\<close>

definition same_on :: "nat \<Rightarrow> nat \<Rightarrow> u8 list \<Rightarrow> u8 list \<Rightarrow> bool" where
  "same_on i j b b' \<longleftrightarrow> length b' = length b \<and> (\<forall>k. i \<le> k \<longrightarrow> k < j \<longrightarrow> b' ! k = b ! k)"

lemma same_on_refl [simp]: "same_on i j b b"
  by (simp add: same_on_def)

lemma same_on_trans: "same_on i j b b' \<Longrightarrow> same_on i j b' b'' \<Longrightarrow> same_on i j b b''"
  by (simp add: same_on_def)

lemma same_on_less: "same_on i j b b' \<Longrightarrow> i \<le> i' \<Longrightarrow> j' \<le> j \<Longrightarrow> same_on i' j' b b'"
  by (simp add: same_on_def)

lemma same_on_length: "same_on i j b b' \<Longrightarrow> length b' = length b"
  by (simp add: same_on_def)

lemma same_on_window: "same_on i j b b' \<Longrightarrow> i \<le> k \<Longrightarrow> k + n \<le> j \<Longrightarrow> k + n \<le> length b \<Longrightarrow> window k n b' = window k n b"
  by (rule nth_equalityI) (auto simp: same_on_def nth_window)

lemma same_on_outside: "same_outside a n b b' \<Longrightarrow> j \<le> a \<or> a + n \<le> i \<Longrightarrow> j \<le> length b \<Longrightarrow> same_on i j b b'"
  unfolding same_on_def using same_outside_nth[of a n b b'] by (auto simp: same_outside_def)

lemma table_at_same: "table_at gran b i n st \<Longrightarrow> same_on i j b b' \<Longrightarrow> i + FDB_STATUS_TABLE_SIZE gran n \<le> j \<Longrightarrow> table_at gran b' i n st"
  using same_on_window[of i j b b' i "FDB_STATUS_TABLE_SIZE gran n"] by (simp add: table_at_def same_on_def)

lemma word_at_same: "word_at b i x \<Longrightarrow> same_on i j b b' \<Longrightarrow> i + 4 \<le> j \<Longrightarrow> word_at b' i x"
  using same_on_window[of i j b b' i 4] by (simp add: word_at_def same_on_def)

lemma table_at_in: "table_at gran b i n st \<Longrightarrow> same_on l j b b' \<Longrightarrow> l \<le> i \<Longrightarrow> i + FDB_STATUS_TABLE_SIZE gran n \<le> j \<Longrightarrow> table_at gran b' i n st"
  by (rule table_at_same[OF _ same_on_less]) auto

lemma word_at_in: "word_at b i x \<Longrightarrow> same_on l j b b' \<Longrightarrow> l \<le> i \<Longrightarrow> i + 4 \<le> j \<Longrightarrow> word_at b' i x"
  by (rule word_at_same[OF _ same_on_less]) auto

lemma erased_same: "erased b i j \<Longrightarrow> same_on i j b b' \<Longrightarrow> erased b' i j"
  by (simp add: erased_def same_on_def)

lemma erased_less: "erased b i j \<Longrightarrow> i \<le> i' \<Longrightarrow> j' \<le> j \<Longrightarrow> erased b i' j'"
  by (simp add: erased_def)

lemma erased_in: "erased b i k \<Longrightarrow> same_on l j b b' \<Longrightarrow> l \<le> i \<Longrightarrow> k \<le> j \<Longrightarrow> erased b' i k"
  by (simp add: erased_def same_on_def)

lemma erased_cleared:
  assumes "gran \<in> grans" "\<forall>x \<in> set tab. x = 0xFF" "length tab = FDB_STATUS_TABLE_SIZE gran n" "k < n - 1"
  shows "status_cleared gran tab k = Some False"
proof -
  have t: "status_cleared gran tab k \<noteq> None" by (rule cleared_total[OF assms(1,3,4)])
  have "0xFF AND drop_bit (k mod 8) 0x80 \<noteq> (0 :: u8)"
    using and_80[of "k mod 8" "0xFF"] bit_FF[of "7 - k mod 8", where 'a = 8] by simp
  moreover have "tab ! x = 0xFF" if "x < length tab" for x using assms(2) that nth_mem by blast
  ultimately show ?thesis
    using t by (auto simp: status_cleared_def rd_def split: if_splits)
qed

lemma erased_table:
  assumes "gran \<in> grans" "0 < n" "erased b i (i + FDB_STATUS_TABLE_SIZE gran n)" "i + FDB_STATUS_TABLE_SIZE gran n \<le> length b"
  shows "table_at gran b i n 0"
proof -
  let ?t = "window i (FDB_STATUS_TABLE_SIZE gran n) b"
  have l: "length ?t = FDB_STATUS_TABLE_SIZE gran n" using assms(4) by simp
  have "\<forall>x \<in> set ?t. x = 0xFF"
    using assms(3,4) l by (auto simp: in_set_conv_nth nth_window erased_def)
  then have c: "status_cleared gran ?t k = Some False" if "k < n - 1" for k using erased_cleared[OF assms(1) _ l that] by blast
  have "get_status_loop gran ?t m = Some 0" if "m \<le> n - 1" for m
    using that by (induction m) (auto simp: c)
  then show ?thesis using assms(2,4) by (simp add: table_at_def fdb_get_status_def)
qed

lemma status_at_window:
  assumes "table_at gran b (a + i) n st" "i + FDB_STATUS_TABLE_SIZE gran n \<le> len" "a + len \<le> length b"
  shows "status_at gran (window a len b) i n = Some st"
  using assms window_window[of i "FDB_STATUS_TABLE_SIZE gran n" len a b]
  by (simp add: status_at_def table_at_def rd_blk_def flip: window_def)

lemma rd32_window:
  assumes "word_at b (a + i) x" "i + 4 \<le> len" "a + len \<le> length b"
  shows "rd32 (window a len b) i = Some x"
proof -
  have "le32 (put_le32 x) 0 = x" using le32_put[of x "[]"] by simp
  then show ?thesis using assms window_window[of i 4 len a b]
    by (simp add: rd32_def word_at_def rd_blk_def flip: window_def)
qed

lemma nor_write_fresh:
  assumes "erased b i (i + length bs)" "i + length bs \<le> length b"
  shows "window i (length bs) (nor_write i bs b) = bs"
proof (rule nth_equalityI)
  show "length (window i (length bs) (nor_write i bs b)) = length bs" using assms(2) by simp
  have "(0xFF :: u8) = -1" by simp
  then have FF_and: "0xFF AND x = x" for x :: u8 by (simp only: and.left_neutral)
  fix k assume "k < length (window i (length bs) (nor_write i bs b))"
  then show "window i (length bs) (nor_write i bs b) ! k = bs ! k"
    using assms by (simp add: nth_window nth_nor_write erased_def and.commute[of _ "0xFF"] FF_and)
qed

section \<open>Operations on one sector\<close>

text \<open>A database on a flash that does not fail.\<close>

definition db_calm :: "('d \<Rightarrow> u8 list) \<Rightarrow> nat \<Rightarrow> fdb_db \<Rightarrow> 'd fal \<Rightarrow> bool" where
  "db_calm mem blk db s \<longleftrightarrow> db_ready mem blk db s \<and> reliable mem (device_table s)"

lemma db_calm_ready: "db_calm mem blk db s \<Longrightarrow> db_ready mem blk db s"
  by (simp add: db_calm_def)

lemma length_calm: "db_calm mem blk db s \<Longrightarrow> length (db_content mem db s) = unat (part_len (db_part db))"
  by (rule length_db_content[OF db_calm_ready])

lemma calm_read:
  assumes "db_calm mem blk db s" "unat a + unat n \<le> length (db_content mem db s)"
  shows "\<exists>s'. fdb_flash_read db a n s = Some (FDB_NO_ERR, window (unat a) (unat n) (db_content mem db s), s') \<and>
    db_calm mem blk db s' \<and> db_content mem db s' = db_content mem db s"
proof -
  note r = db_calm_ready[OF assms(1)]
  have f: "fal_ok mem blk (db_part db) s" "\<not> db_file_mode db" "unat a + unat n \<le> unat (part_len (db_part db))"
    using r assms(2) length_db_content[OF r] by (simp_all add: db_ready_def)
  obtain s' where s': "fdb_flash_read db a n s = Some (FDB_NO_ERR, window (unat a) (unat n) (db_content mem db s), s')"
    "db_ready mem blk db s'" "db_content mem db s' = db_content mem db s" using fdb_read_law[OF r assms(2)] by blast
  have "device_table s' = device_table s" using fal_read[OF f(1,3)] s'(1) f(2) by (auto simp: fdb_flash_read_def)
  then show ?thesis using s' assms(1) by (simp add: db_calm_def)
qed

lemma calm_write:
  assumes "db_calm mem blk db s" "unat a + length bs \<le> length (db_content mem db s)"
  shows "\<exists>s'. fdb_flash_write db a bs s = Some (FDB_NO_ERR, s') \<and> db_calm mem blk db s' \<and>
    db_content mem db s' = nor_write (unat a) bs (db_content mem db s)"
proof -
  note r = db_calm_ready[OF assms(1)]
  have f: "fal_ok mem blk (db_part db) s" "\<not> db_file_mode db" "unat a + length bs \<le> unat (part_len (db_part db))" "reliable mem (device_table s)"
    using r assms length_db_content[OF r] by (simp_all add: db_ready_def db_calm_def)
  obtain e s' where s': "fdb_flash_write db a bs s = Some (e, s')" "db_ready mem blk db s'"
    "write_effect (unat a) bs (if e = FDB_NO_ERR then 0 else -1) (db_content mem db s) (db_content mem db s')" using fdb_write_law[OF r assms(2)] by blast
  obtain x h where x: "fal_partition_write (db_part db) a bs s = Some (x, s\<lparr>hardware := h\<rparr>)" using fal_write[OF f(1,3)] by blast
  have "x \<ge> 0" by (rule fal_reliable_write[OF f(1,4,3) x])
  then have "e = FDB_NO_ERR" "s' = s\<lparr>hardware := h\<rparr>" using x s'(1) f(2) by (auto simp: fdb_flash_write_def)
  then show ?thesis using s' f(4) by (simp add: db_calm_def write_effect_def)
qed

lemma calm_erase:
  assumes "db_calm mem blk db s" "unat a + unat n \<le> length (db_content mem db s)" "blk dvd unat a" "blk dvd unat n"
  shows "\<exists>s'. fdb_flash_erase db a n s = Some (FDB_NO_ERR, s') \<and> db_calm mem blk db s' \<and>
    db_content mem db s' = nor_erase (unat a) (unat n) (db_content mem db s)"
proof -
  note r = db_calm_ready[OF assms(1)]
  have f: "fal_ok mem blk (db_part db) s" "\<not> db_file_mode db" "unat a + unat n \<le> unat (part_len (db_part db))" "reliable mem (device_table s)"
    using r assms length_db_content[OF r] by (simp_all add: db_ready_def db_calm_def)
  obtain x s' where s': "fal_partition_erase (db_part db) a n s = Some (x, s')" "fal_ok mem blk (db_part db) s'"
    "erase_effect (unat a) (unat n) x (db_content mem db s) (db_content mem db s')"
    using fal.erase_law[OF f(1), of a n] assms(2-4) by (auto simp: db_content_def)
  obtain x' h where x: "fal_partition_erase (db_part db) a n s = Some (x', s\<lparr>hardware := h\<rparr>)" using fal_erase[OF f(1,3) assms(3,4)] by blast
  have "x' \<ge> 0" by (rule fal_reliable_erase[OF f(1,4,3) assms(3,4) x])
  moreover have "x = x'" "s' = s\<lparr>hardware := h\<rparr>" using x s'(1) by simp_all
  ultimately show ?thesis using s' x f by (simp add: fdb_flash_erase_def db_calm_def db_ready_def erase_effect_def)
qed

text \<open>The partition holds \<open>m\<close>, but for the sector of \<open>S\<close> bytes at \<open>A\<close>, which holds \<open>b\<close>.\<close>

definition at_sec :: "('d \<Rightarrow> u8 list) \<Rightarrow> nat \<Rightarrow> fdb_db \<Rightarrow> nat \<Rightarrow> nat \<Rightarrow> u8 list \<Rightarrow> 'd fal \<Rightarrow> u8 list \<Rightarrow> bool" where
  "at_sec mem blk db A S m s b \<longleftrightarrow> db_calm mem blk db s \<and> db_content mem db s = blit m A b \<and> length b = S \<and> A + S \<le> length m"

lemma blit_window: "A + S \<le> length m \<Longrightarrow> blit m A (window A S m) = m"
  by (rule nth_equalityI) (auto simp: nth_blit nth_window)

lemma blit_blit: "A + length b \<le> length m \<Longrightarrow> length b' = length b \<Longrightarrow> blit (blit m A b) A b' = blit m A b'"
  by (rule nth_equalityI) (auto simp: nth_blit)

lemma window_blit_same: "A + length b \<le> length m \<Longrightarrow> i + n \<le> length b \<Longrightarrow> window (A + i) n (blit m A b) = window i n b"
  by (rule nth_equalityI) (auto simp: nth_blit nth_window)

lemma window_blit_other: "A + length b \<le> length m \<Longrightarrow> i + n \<le> A \<or> A + length b \<le> i \<Longrightarrow> i + n \<le> length m \<Longrightarrow>
    window i n (blit m A b) = window i n m"
  by (rule nth_equalityI) (auto simp: nth_blit nth_window)

lemma nor_write_blit:
  assumes "A + length b \<le> length m" "i + length bs \<le> length b"
  shows "nor_write (A + i) bs (blit m A b) = blit m A (nor_write i bs b)"
  using assms by (intro nth_equalityI) (auto simp: nth_nor_write nth_blit)

lemma at_sec_start:
  assumes "db_calm mem blk db s" "A + S \<le> length (db_content mem db s)"
  shows "at_sec mem blk db A S (db_content mem db s) s (window A S (db_content mem db s))"
  using assms by (simp add: at_sec_def blit_window)

lemma at_secD:
  assumes "at_sec mem blk db A S m s b"
  shows "db_calm mem blk db s" "db_content mem db s = blit m A b" "length b = S" "A + S \<le> length m" "length (db_content mem db s) = length m"
    "length m = unat (part_len (db_part db))"
  using assms length_calm[of mem blk db s] by (auto simp: at_sec_def)

lemma at_sec_read:
  assumes "at_sec mem blk db A S m s b" "unat a = A + i" "i + unat n \<le> S"
  shows "\<exists>s'. fdb_flash_read db a n s = Some (FDB_NO_ERR, window i (unat n) b, s') \<and> at_sec mem blk db A S m s' b"
proof -
  note d = at_secD[OF assms(1)]
  have "unat a + unat n \<le> length (db_content mem db s)" using assms(2,3) d by simp
  from calm_read[OF d(1) this] obtain s' where
    "fdb_flash_read db a n s = Some (FDB_NO_ERR, window (A + i) (unat n) (blit m A b), s')" "db_calm mem blk db s'"
    "db_content mem db s' = blit m A b" using assms(2) d(2) by auto
  then show ?thesis using window_blit_same[of A b m i "unat n"] assms(3) d by (auto simp: at_sec_def)
qed

lemma at_sec_write:
  assumes "at_sec mem blk db A S m s b" "unat a = A + i" "i + length bs \<le> S"
  shows "\<exists>s'. fdb_flash_write db a bs s = Some (FDB_NO_ERR, s') \<and> at_sec mem blk db A S m s' (nor_write i bs b)"
proof -
  note d = at_secD[OF assms(1)]
  have "unat a + length bs \<le> length (db_content mem db s)" using assms(2,3) d by simp
  from calm_write[OF d(1) this] obtain s' where s': "fdb_flash_write db a bs s = Some (FDB_NO_ERR, s')" "db_calm mem blk db s'"
    "db_content mem db s' = nor_write (A + i) bs (blit m A b)" using assms(2) d(2) by auto
  moreover have "nor_write (A + i) bs (blit m A b) = blit m A (nor_write i bs b)" by (rule nor_write_blit) (use assms(3) d in simp_all)
  ultimately show ?thesis using d assms(3) by (simp add: at_sec_def)
qed

lemma at_sec_erase:
  assumes "at_sec mem blk db A S m s b" "unat a = A" "unat n = S" "blk dvd A" "blk dvd S"
  shows "\<exists>s'. fdb_flash_erase db a n s = Some (FDB_NO_ERR, s') \<and> at_sec mem blk db A S m s' (replicate S 0xFF)"
proof -
  note d = at_secD[OF assms(1)]
  have "unat a + unat n \<le> length (db_content mem db s)" "blk dvd unat a" "blk dvd unat n" using assms(2-5) d by simp_all
  from calm_erase[OF d(1) this] obtain s' where s': "fdb_flash_erase db a n s = Some (FDB_NO_ERR, s')" "db_calm mem blk db s'"
    "db_content mem db s' = nor_erase A S (blit m A b)" using assms(2,3) d(2) by auto
  moreover have "nor_erase A S (blit m A b) = blit m A (replicate S 0xFF)" unfolding nor_erase_def using d by (simp add: blit_blit)
  ultimately show ?thesis using d by (simp add: at_sec_def)
qed

text \<open>A word written to erased cells, and the next status of a table.\<close>

lemma length_put_le32 [simp]: "length (put_le32 x) = 4"
  by (simp add: put_le32_def)

lemma word_at_write:
  assumes "erased b i (i + 4)" "i + 4 \<le> length b"
  shows "word_at (nor_write i (put_le32 x) b) i x"
  using nor_write_fresh[of b i "put_le32 x"] assms by (simp add: word_at_def)

lemma at_sec_status:
  assumes s: "at_sec mem blk db A S m s b" and g: "gran \<in> grans" and a: "unat a = A + i"
    and t: "table_at gran b i n k" and j: "0 < j" "j < n" "n \<le> 8"
  shows "\<exists>s' b'. fdb_write_status gran db a n j s = Some (FDB_NO_ERR, s') \<and> at_sec mem blk db A S m s' b' \<and>
    table_at gran b' i n (max k j) \<and> same_outside i (FDB_STATUS_TABLE_SIZE gran n) b b'"
proof -
  note d = at_secD[OF s]
  let ?N = "FDB_STATUS_TABLE_SIZE gran n"
  obtain x table bytes where x: "fdb_set_status gran n j = Some (Some x, table)"
    "rd_blk table x (if gran = 1 then 1 else gran div 8) = Some bytes" "x + length bytes \<le> ?N"
    "if gran = 1 then x = (j - 1) div 8 \<and> bytes = [drop_bit (j mod 8) 0xFF]
     else x = (j - 1) * (gran div 8) \<and> bytes = 0 # replicate (gran div 8 - 1) 0xFF"
    using set_status_bytes[OF g j(1,2)] by blast
  have iN: "i + ?N \<le> length b" "fdb_get_status gran (window i ?N b) n = Some k" using t by (simp_all add: table_at_def)
  have lt: "A + S < 2 ^ 32" using d(4,6) unat_lt32[of "part_len (db_part db)"] by simp
  have "unat (a + of_nat x) = unat a + unat (of_nat x :: u32)"
    using lt a iN(1) d(3) x(3) by (intro unat_add_small) (simp add: unat_of_nat_lt)
  then have ax: "unat (a + of_nat x) = A + (i + x)" using lt a iN(1) d(3) x(3) by (simp add: unat_of_nat_lt)
  obtain s' where s': "fdb_flash_write db (a + of_nat x) bytes s = Some (FDB_NO_ERR, s')"
    "at_sec mem blk db A S m s' (nor_write (i + x) bytes b)"
    using at_sec_write[OF s ax, of bytes] iN(1) d(3) x(3) by auto
  let ?b = "nor_write (i + x) bytes b"
  have w: "window i ?N ?b = nor_write x bytes (window i ?N b)" by (rule window_nor_write) (use iN x(3) in simp_all)
  have "moves gran n j (0 \<le> (0 :: int)) (window i ?N b) (window i ?N ?b)"
    unfolding w by (rule status_table_moves[OF g j(1,2)]) (use j iN x(3,4) in \<open>auto simp: write_effect_def\<close>)
  then have "fdb_get_status gran (window i ?N ?b) n = Some (max k j)"
    using moves_get[OF g _ _ j(1,2) _ iN(2), of "window i ?N ?b" True] iN(1) x(3) by auto
  moreover have "same_outside i ?N b ?b"
    using iN(1) x(3) by (intro same_outsideI) (auto simp: nth_nor_write)
  moreover have "fdb_write_status gran db a n j s = Some (FDB_NO_ERR, s')"
    using x s'(1) j by (simp add: fdb_write_status_def)
  ultimately show ?thesis using s'(2) iN(1) x(3) by (auto simp: table_at_def)
qed

end
