(* ===== verification/Tsdb_Sector.thy ===== *)
theory Tsdb_Sector
  imports Tsdb Fdb_Fields
begin

text \<open>
  What the bytes of a sector say: the header, the logs of its index, the erased rest. The
  predicates are about the bytes \<open>b\<close> of one sector at the address \<open>A\<close>, so that what happens in the other
  sectors does not matter.
\<close>

section \<open>Layout\<close>

definition hsz :: "nat \<Rightarrow> nat" where "hsz gran = unat (SECTOR_HDR_DATA_SIZE gran)"
definition isz :: "nat \<Rightarrow> nat" where "isz gran = unat (LOG_IDX_DATA_SIZE gran)"

definition pad :: "nat \<Rightarrow> nat \<Rightarrow> nat" where
  "pad gran n = (n + wg_bytes gran - 1) div wg_bytes gran * wg_bytes gran"

lemmas ts_layout_defs = sizeof_sector_hdr_def
  sizeof_log_idx_def SECTOR_END_TIME_OFFSET_def SECTOR_END_IDX_OFFSET_def SECTOR_END_STATUS_OFFSET_def
  sizeof_end_info_def SECTOR_START_TIME_OFFSET_def SECTOR_MAGIC_OFFSET_def LOG_IDX_TS_OFFSET_def
  TSL_STATUS_TABLE_SIZE_def FDB_STORE_STATUS_TABLE_SIZE_def FDB_STATUS_TABLE_SIZE_def
  FDB_TSL_STATUS_NUM_def FDB_SECTOR_STORE_STATUS_NUM_def word_aligned_def

lemma unat_wg_align: "gran \<in> grans \<Longrightarrow> unat x \<le> 2 ^ 31 \<Longrightarrow> unat (FDB_WG_ALIGN gran x) = pad gran (unat x)"
  using wg_align[of gran x] by (simp add: pad_def)

lemma pad_ge: "gran \<in> grans \<Longrightarrow> n \<le> pad gran n"
  by (auto simp: grans_def pad_def wg_bytes_def) 

lemma pad_less: "gran \<in> grans \<Longrightarrow> pad gran n < n + 8"
  by (auto simp: grans_def pad_def wg_bytes_def) 

lemma raw_layout:
  assumes "gran \<in> grans"
  shows "(gran, sizeof_sector_hdr gran, sizeof_log_idx gran, SECTOR_MAGIC_OFFSET gran, LOG_IDX_TS_OFFSET gran) \<in>
    {(1, 40, 16, 4, 4), (8, 48, 20, 4, 8), (32, 80, 32, 12, 20), (64, 132, 52, 24, 40)}"
  using assms by (auto simp: grans_def ts_layout_defs)

lemma hsz_eq: "gran \<in> grans \<Longrightarrow> hsz gran = pad gran (sizeof_sector_hdr gran)"
  and isz_eq: "gran \<in> grans \<Longrightarrow> isz gran = pad gran (sizeof_log_idx gran)"
proof -
  assume g: "gran \<in> grans"
  have "unat (of_nat (sizeof_sector_hdr gran) :: u32) = sizeof_sector_hdr gran \<and> unat (of_nat (sizeof_log_idx gran) :: u32) = sizeof_log_idx gran
    \<and> sizeof_sector_hdr gran \<le> 132 \<and> sizeof_log_idx gran \<le> 52"
    using raw_layout[OF g] by (elim insertE emptyE; simp)
  then show "hsz gran = pad gran (sizeof_sector_hdr gran)" "isz gran = pad gran (sizeof_log_idx gran)"
    using unat_wg_align[OF g] by (simp_all add: hsz_def isz_def SECTOR_HDR_DATA_SIZE_def LOG_IDX_DATA_SIZE_def)
qed

lemma layout_values:
  assumes "gran \<in> grans"
  shows "(gran, hsz gran, isz gran, SECTOR_MAGIC_OFFSET gran, LOG_IDX_TS_OFFSET gran) \<in>
    {(1, 40, 16, 4, 4), (8, 48, 20, 4, 8), (32, 80, 32, 12, 20), (64, 136, 56, 24, 40)}"
  unfolding hsz_eq[OF assms] isz_eq[OF assms] using raw_layout[OF assms] by (elim insertE emptyE; simp add: pad_def wg_bytes_def)

section \<open>Logs\<close>

type_synonym log = "fdb_tsl_status \<times> u32 \<times> u8 list"

abbreviation log_status :: "log \<Rightarrow> fdb_tsl_status" where "log_status e \<equiv> fst e"
abbreviation log_time :: "log \<Rightarrow> u32" where "log_time e \<equiv> fst (snd e)"
abbreviation log_data :: "log \<Rightarrow> u8 list" where "log_data e \<equiv> snd (snd e)"

text \<open>A log whose index is at \<open>i\<close> and whose data start at \<open>p\<close>.\<close>

definition log_at :: "nat \<Rightarrow> nat \<Rightarrow> u8 list \<Rightarrow> nat \<Rightarrow> nat \<Rightarrow> log \<Rightarrow> bool" where
  "log_at gran A b i p e \<longleftrightarrow>
     log_status e \<notin> {FDB_TSL_UNUSED, FDB_TSL_PRE_WRITE} \<and>
     table_at gran b i FDB_TSL_STATUS_NUM (tsl_no (log_status e)) \<and>
     word_at b (i + LOG_IDX_TS_OFFSET gran) (log_time e) \<and>
     word_at b (i + LOG_IDX_TS_OFFSET gran + 4) (of_nat (length (log_data e))) \<and>
     word_at b (i + LOG_IDX_TS_OFFSET gran + 8) (of_nat (A + p)) \<and>
     p + length (log_data e) \<le> length b \<and> window p (length (log_data e)) b = log_data e"

text \<open>Logs from the index at \<open>i\<close> on, with their data below \<open>p\<close>.\<close>

fun logs_at :: "nat \<Rightarrow> nat \<Rightarrow> u8 list \<Rightarrow> nat \<Rightarrow> nat \<Rightarrow> log list \<Rightarrow> bool" where
  "logs_at gran A b i p [] \<longleftrightarrow> True"
| "logs_at gran A b i p (e # es) \<longleftrightarrow>
     log_at gran A b i (p - pad gran (length (log_data e))) e \<and>
     logs_at gran A b (i + isz gran) (p - pad gran (length (log_data e))) es"

definition used :: "nat \<Rightarrow> log list \<Rightarrow> nat" where
  "used gran es = sum_list (map (\<lambda>e. pad gran (length (log_data e))) es)"

lemma used_simps [simp]: "used gran [] = 0" "used gran (e # es) = pad gran (length (log_data e)) + used gran es"
  "used gran (es @ fs) = used gran es + used gran fs"
  by (simp_all add: used_def)

lemma logs_at_append:
  "logs_at gran A b i p (es @ fs) \<longleftrightarrow>
     logs_at gran A b i p es \<and> logs_at gran A b (i + length es * isz gran) (p - used gran es) fs"
  by (induction es arbitrary: i p) (simp_all add: algebra_simps)

lemma log_at_same:
  assumes "log_at gran A b i p e" "gran \<in> grans" "same_on i (i + isz gran) b b'" "same_on p (p + length (log_data e)) b b'"
  shows "log_at gran A b' i p e"
proof -
  have o: "FDB_STATUS_TABLE_SIZE gran FDB_TSL_STATUS_NUM \<le> isz gran" "LOG_IDX_TS_OFFSET gran + 12 \<le> isz gran"
    using layout_values[OF assms(2)] by (elim insertE emptyE; simp add: FDB_STATUS_TABLE_SIZE_def FDB_TSL_STATUS_NUM_def)+
  note a = assms(1)[unfolded log_at_def]
  have w: "word_at b' (i + k) x" if "word_at b (i + k) x" "k + 4 \<le> isz gran" for k x
    using word_at_same[OF that(1) same_on_less[OF assms(3), of "i + k" "i + isz gran"]] that(2) by simp
  have "table_at gran b' i FDB_TSL_STATUS_NUM (tsl_no (log_status e))"
    using table_at_same[OF _ assms(3)] a o(1) by simp
  moreover have "word_at b' (i + LOG_IDX_TS_OFFSET gran) (log_time e)"
    "word_at b' (i + LOG_IDX_TS_OFFSET gran + 4) (of_nat (length (log_data e)))"
    "word_at b' (i + LOG_IDX_TS_OFFSET gran + 8) (of_nat (A + p))"
    using a o(2) w[of "LOG_IDX_TS_OFFSET gran"] w[of "LOG_IDX_TS_OFFSET gran + 4"] w[of "LOG_IDX_TS_OFFSET gran + 8"]
    by (simp_all add: add.assoc)
  moreover have "window p (length (log_data e)) b' = log_data e"
    using same_on_window[OF assms(4), of p "length (log_data e)"] a by simp
  ultimately show ?thesis
    unfolding log_at_def using a same_on_length[OF assms(3)] by simp
qed

lemma logs_at_same:
  assumes "logs_at gran A b i p es" "gran \<in> grans" "used gran es \<le> p"
    "same_on i (i + length es * isz gran) b b'" "same_on (p - used gran es) p b b'"
  shows "logs_at gran A b' i p es"
  using assms
proof (induction es arbitrary: i p)
  case (Cons e es)
  let ?q = "p - pad gran (length (log_data e))"
  have q: "length (log_data e) \<le> pad gran (length (log_data e))" by (rule pad_ge[OF Cons.prems(2)])
  have "log_at gran A b' i ?q e"
  proof (rule log_at_same[of gran A b])
    show "log_at gran A b i ?q e" using Cons.prems(1) by simp
    show "same_on i (i + isz gran) b b'" by (rule same_on_less[OF Cons.prems(4)]) simp_all
    show "same_on ?q (?q + length (log_data e)) b b'"
      by (rule same_on_less[OF Cons.prems(5)]) (use q Cons.prems(3) in simp_all)
  qed (rule Cons.prems(2))
  moreover have "logs_at gran A b' (i + isz gran) ?q es"
  proof (rule Cons.IH)
    show "logs_at gran A b (i + isz gran) ?q es" "used gran es \<le> ?q" using Cons.prems by simp_all
    show "same_on (i + isz gran) (i + isz gran + length es * isz gran) b b'" by (rule same_on_less[OF Cons.prems(4)]) simp_all
    show "same_on (?q - used gran es) ?q b b'" by (rule same_on_less[OF Cons.prems(5)]) simp_all
  qed (rule Cons.prems(2))
  ultimately show ?case by simp
qed simp

section \<open>Sectors\<close>

datatype ts_sector = Blank | Open "log list" | Closed "log list"

definition hdr_ok :: "nat \<Rightarrow> u8 list \<Rightarrow> fdb_sector_store_status \<Rightarrow> bool" where
  "hdr_ok gran b st \<longleftrightarrow> hsz gran \<le> length b \<and> table_at gran b 0 FDB_SECTOR_STORE_STATUS_NUM (store_no st) \<and>
     word_at b (SECTOR_MAGIC_OFFSET gran) SECTOR_MAGIC_WORD"

definition body_ok :: "nat \<Rightarrow> nat \<Rightarrow> u8 list \<Rightarrow> log list \<Rightarrow> bool" where
  "body_ok gran A b es \<longleftrightarrow> logs_at gran A b (hsz gran) (length b) es \<and>
     hsz gran + length es * isz gran + used gran es \<le> length b"

text \<open>A sector in use since the time \<open>t\<close>.\<close>

definition open_ok :: "nat \<Rightarrow> nat \<Rightarrow> u8 list \<Rightarrow> u32 \<Rightarrow> log list \<Rightarrow> bool" where
  "open_ok gran A b t es \<longleftrightarrow> hdr_ok gran b FDB_SECTOR_STORE_USING \<and> word_at b (SECTOR_START_TIME_OFFSET gran) t \<and>
     erased b (SECTOR_END_TIME_OFFSET gran 0) (hsz gran) \<and> body_ok gran A b es \<and>
     erased b (hsz gran + length es * isz gran) (length b - used gran es)"

primrec sector_ok :: "nat \<Rightarrow> nat \<Rightarrow> u8 list \<Rightarrow> ts_sector \<Rightarrow> bool" where
  "sector_ok gran A b Blank \<longleftrightarrow> hdr_ok gran b FDB_SECTOR_STORE_EMPTY \<and> erased b (SECTOR_START_TIME_OFFSET gran) (length b)"
| "sector_ok gran A b (Open es) \<longleftrightarrow> es \<noteq> [] \<and> open_ok gran A b (log_time (hd es)) es"
| "sector_ok gran A b (Closed es) \<longleftrightarrow> es \<noteq> [] \<and> hdr_ok gran b FDB_SECTOR_STORE_FULL \<and>
     word_at b (SECTOR_START_TIME_OFFSET gran) (log_time (hd es)) \<and>
     table_at gran b (SECTOR_END_STATUS_OFFSET gran 0) FDB_TSL_STATUS_NUM (tsl_no FDB_TSL_WRITE) \<and>
     word_at b (SECTOR_END_TIME_OFFSET gran 0) (log_time (last es)) \<and>
     word_at b (SECTOR_END_IDX_OFFSET gran 0) (of_nat (A + hsz gran + (length es - 1) * isz gran)) \<and>
     erased b (SECTOR_END_TIME_OFFSET gran 1) (hsz gran) \<and> body_ok gran A b es"

section \<open>Writing a log\<close>

lemma unat_plus:
  "unat (x :: u32) = A \<Longrightarrow> A + n < 2 ^ 32 \<Longrightarrow> unat (x + of_nat n) = A + n"
  using unat_add_small[of x "of_nat n"] by (simp add: unat_of_nat_lt)

lemma three_words:
  assumes "erased b i (i + 12)" "i + 12 \<le> length b"
  shows "word_at (nor_write i (put_le32 x @ put_le32 y @ put_le32 z) b) i x"
    "word_at (nor_write i (put_le32 x @ put_le32 y @ put_le32 z) b) (i + 4) y"
    "word_at (nor_write i (put_le32 x @ put_le32 y @ put_le32 z) b) (i + 8) z"
proof -
  let ?b = "nor_write i (put_le32 x @ put_le32 y @ put_le32 z) b"
  have w: "window i 12 ?b = put_le32 x @ put_le32 y @ put_le32 z"
    using nor_write_fresh[of b i "put_le32 x @ put_le32 y @ put_le32 z"] assms by simp
  have l: "length ?b = length b" using assms(2) by simp
  have v: "window (i + k) 4 ?b = window k 4 (put_le32 x @ put_le32 y @ put_le32 z)" if "k + 4 \<le> 12" for k
    using window_window[of k 4 12 i ?b] that w by simp
  show "word_at ?b i x" "word_at ?b (i + 4) y" "word_at ?b (i + 8) z"
    using v[of 0] v[of 4] v[of 8] l assms(2) by (simp_all add: word_at_def window_def)
qed

text \<open>A status moved on.\<close>

lemma at_sec_advance:
  assumes "at_sec mem blk db A S m s b" "gran \<in> grans" "unat a = A + i"
    "table_at gran b i n k" "k < j" "j < n" "n \<le> 8"
  obtains s' b' where "fdb_write_status gran db a n j s = Some (FDB_NO_ERR, s')" "at_sec mem blk db A S m s' b'"
    "table_at gran b' i n j" "same_outside i (FDB_STATUS_TABLE_SIZE gran n) b b'" "length b' = S"
proof -
  have "max k j = j" using assms(5) by simp
  with at_sec_status[OF assms(1-4), of j] assms(5-7) obtain s' b' where
    *: "fdb_write_status gran db a n j s = Some (FDB_NO_ERR, s')" "at_sec mem blk db A S m s' b'"
    "table_at gran b' i n j" "same_outside i (FDB_STATUS_TABLE_SIZE gran n) b b'" by auto
  then show ?thesis using that[OF *] at_secD(3)[OF *(2)] by blast
qed

lemma tsl_no_less: "tsl_no st < FDB_TSL_STATUS_NUM" "FDB_TSL_STATUS_NUM \<le> 8"
  by (cases st; simp add: FDB_TSL_STATUS_NUM_def)+

lemma store_no_less: "store_no st < FDB_SECTOR_STORE_STATUS_NUM" "FDB_SECTOR_STORE_STATUS_NUM \<le> 8"
  by (cases st; simp add: FDB_SECTOR_STORE_STATUS_NUM_def)+

definition ts_env :: "nat \<Rightarrow> nat \<Rightarrow> fdb_tsdb \<Rightarrow> bool" where
  "ts_env blk gran db \<longleftrightarrow> gran \<in> grans \<and>
     blk dvd unat (db_sec_size (parent db)) \<and> unat (db_sec_size (parent db)) dvd unat (db_max_size (parent db)) \<and>
     2 * unat (db_sec_size (parent db)) \<le> unat (db_max_size (parent db)) \<and>
     unat (db_max_size (parent db)) \<le> unat (part_len (db_part (parent db))) \<and> unat (db_max_size (parent db)) \<le> 2 ^ 31 \<and>
     hsz gran + isz gran + pad gran (unat (max_len db)) \<le> unat (db_sec_size (parent db))"

text \<open>The blob holds the data \<open>d\<close>.\<close>

definition blob_of :: "fdb_blob \<Rightarrow> u8 list \<Rightarrow> bool" where
  "blob_of blob d \<longleftrightarrow> unat (blob_size blob) = length d \<and> rd_blk (blob_buf blob) 0 (length d) = Some d"

lemma write_tsl_ok:
  assumes g: "gran \<in> grans" and s: "at_sec mem blk (parent db) A S m s b" and S31: "A + S \<le> 2 ^ 31"
    and i: "unat (empty_idx (cur_sec db)) = A + i" and p: "unat (empty_data (cur_sec db)) = A + p"
    and fit: "i + isz gran + pad gran (length d) \<le> p" "p \<le> S" and er: "erased b i p" and d: "blob_of blob d"
  shows "\<exists>s' b'. write_tsl gran db blob t s = Some (FDB_NO_ERR, s') \<and> at_sec mem blk (parent db) A S m s' b' \<and>
    log_at gran A b' i (p - pad gran (length d)) (FDB_TSL_WRITE, t, d) \<and>
    same_on 0 i b b' \<and> same_on (i + isz gran) (p - pad gran (length d)) b b' \<and> same_on p S b b'"
proof -
  let ?N = "FDB_STATUS_TABLE_SIZE gran FDB_TSL_STATUS_NUM" and ?T = "LOG_IDX_TS_OFFSET gran" and ?q = "p - pad gran (length d)"
  have o: "?N \<le> ?T" "?T + 12 \<le> isz gran" "isz gran \<le> 56"
    using layout_values[OF g] by (elim insertE emptyE; simp add: FDB_STATUS_TABLE_SIZE_def FDB_TSL_STATUS_NUM_def)+
  have dq: "length d \<le> pad gran (length d)" "?q + length d \<le> p" "i + isz gran \<le> ?q" using pad_ge[OF g, of "length d"] fit(1) by simp_all
  have lb: "length b = S" using at_secD[OF s] by simp
  have dl: "unat (blob_size blob) = length d" "length d \<le> 2 ^ 31" using d dq fit S31 by (simp_all add: blob_of_def)
  have pw: "unat (FDB_WG_ALIGN gran (blob_size blob)) = pad gran (length d)" using unat_wg_align[OF g, of "blob_size blob"] dl by simp
  let ?la = "empty_data (cur_sec db) - FDB_WG_ALIGN gran (blob_size blob)"
  have la: "unat ?la = A + ?q" using p pw fit(1) by (simp add: unat_sub_le word_le_nat_alt unat_sub)
  have law: "?la = of_nat (A + ?q)" by (simp flip: la)
  have t0: "table_at gran b i FDB_TSL_STATUS_NUM 0"
    by (rule erased_table[OF g]) (use er fit o lb in \<open>auto simp: erased_def FDB_TSL_STATUS_NUM_def\<close>)
  obtain s1 b1 where 1: "fdb_write_status gran (parent db) (empty_idx (cur_sec db)) FDB_TSL_STATUS_NUM (tsl_no FDB_TSL_PRE_WRITE) s = Some (FDB_NO_ERR, s1)"
    "at_sec mem blk (parent db) A S m s1 b1" "table_at gran b1 i FDB_TSL_STATUS_NUM (tsl_no FDB_TSL_PRE_WRITE)" "same_outside i ?N b b1" and l1: "length b1 = S"
    by (rule at_sec_advance[OF s g i t0 _ tsl_no_less(1)[of FDB_TSL_PRE_WRITE] tsl_no_less(2)]) simp_all
  have a2: "unat (empty_idx (cur_sec db) + of_nat ?T) = A + (i + ?T)"
    using unat_plus[OF i, of ?T] S31 fit o by simp
  let ?w = "put_le32 t @ put_le32 (blob_size blob) @ put_le32 ?la"
  obtain s2 where 2: "fdb_flash_write (parent db) (empty_idx (cur_sec db) + of_nat ?T) ?w s1 = Some (FDB_NO_ERR, s2)"
    "at_sec mem blk (parent db) A S m s2 (nor_write (i + ?T) ?w b1)"
    using at_sec_write[OF 1(2) a2, of ?w] fit o by auto
  let ?b2 = "nor_write (i + ?T) ?w b1"
  have o2: "same_outside (i + ?T) 12 b1 ?b2" using same_outside_write[of "i + ?T" ?w b1] fit o l1 by simp
  have so1: "same_on (i + ?N) S b b1" by (rule same_on_outside[OF 1(4)]) (simp_all add: lb)
  have er0: "erased b k j" if "i \<le> k" "j \<le> p" for k j using erased_less[OF er that] .
  have er1: "erased b1 (i + ?T) (i + ?T + 12)" "erased b1 ?q p"
    by (rule erased_same[OF er0 same_on_less[OF so1]], use fit o dq in simp_all)+
  have w2: "word_at ?b2 (i + ?T) t" "word_at ?b2 (i + ?T + 4) (blob_size blob)" "word_at ?b2 (i + ?T + 8) ?la"
    using three_words[OF er1(1)] fit o l1 by simp_all
  have l2: "length ?b2 = S" using at_secD[OF 2(2)] by simp
  obtain s3 where 3: "fdb_flash_write (parent db) ?la d s2 = Some (FDB_NO_ERR, s3)"
    "at_sec mem blk (parent db) A S m s3 (nor_write ?q d ?b2)"
    using at_sec_write[OF 2(2) la, of d] fit dq by auto
  let ?b3 = "nor_write ?q d ?b2"
  have er2: "erased ?b2 ?q (?q + length d)"
    using erased_same[OF erased_less[OF er1(2)] same_on_outside[OF o2]] fit o dq l1 by simp
  have w3: "window ?q (length d) ?b3 = d" by (rule nor_write_fresh[OF er2]) (use dq fit l2 in simp)
  have o3: "same_outside ?q (length d) ?b2 ?b3" by (rule same_outside_write) (use dq fit l2 in simp)
  have l3: "length ?b3 = S" using at_secD[OF 3(2)] by simp
  have t2: "table_at gran ?b2 i FDB_TSL_STATUS_NUM (tsl_no FDB_TSL_PRE_WRITE)"
    by (rule table_at_same[OF 1(3) same_on_outside[OF o2, of "i + ?N" i]]) (use o fit l1 in simp_all)
  have t3: "table_at gran ?b3 i FDB_TSL_STATUS_NUM (tsl_no FDB_TSL_PRE_WRITE)"
    by (rule table_at_same[OF t2 same_on_outside[OF o3, of "i + ?N" i]]) (use o fit dq l2 in simp_all)
  obtain s4 b4 where 4: "fdb_write_status gran (parent db) (empty_idx (cur_sec db)) FDB_TSL_STATUS_NUM (tsl_no FDB_TSL_WRITE) s3 = Some (FDB_NO_ERR, s4)"
    "at_sec mem blk (parent db) A S m s4 b4" "table_at gran b4 i FDB_TSL_STATUS_NUM (tsl_no FDB_TSL_WRITE)" "same_outside i ?N ?b3 b4"
    and l4: "length b4 = S"
    by (rule at_sec_advance[OF 3(2) g i t3 _ tsl_no_less(1)[of FDB_TSL_WRITE] tsl_no_less(2)]) simp_all
  have so: "same_on k j b b4" if "j \<le> i \<or> i + isz gran \<le> k" "j \<le> ?q \<or> p \<le> k" "j \<le> S" for k j
  proof -
    have "same_on k j b b1" by (rule same_on_outside[OF 1(4)]) (use that o lb in auto)
    moreover have "same_on k j b1 ?b2" by (rule same_on_outside[OF o2]) (use that o l1 in auto)
    moreover have "same_on k j ?b2 ?b3" by (rule same_on_outside[OF o3]) (use that dq l2 in auto)
    moreover have "same_on k j ?b3 b4" by (rule same_on_outside[OF 4(4)]) (use that o l3 in auto)
    ultimately show ?thesis by (blast intro: same_on_trans)
  qed
  have wd: "word_at b4 (i + ?T + k) x" if "word_at ?b2 (i + ?T + k) x" "k \<le> 8" for k x
  proof -
    have "word_at ?b3 (i + ?T + k) x"
      by (rule word_at_same[OF that(1) same_on_outside[OF o3, of "i + isz gran"]]) (use that(2) o fit dq l2 in auto)
    then show ?thesis
      by (rule word_at_same[OF _ same_on_outside[OF 4(4), of "i + isz gran"]]) (use that(2) o fit dq l3 in auto)
  qed
  have "window ?q (length d) b4 = d"
    using same_on_window[OF same_on_outside[OF 4(4), of S "i + ?N"], of ?q "length d"] w3 o fit dq l3 by simp
  moreover have "word_at b4 (i + ?T) t" "word_at b4 (i + ?T + 4) (of_nat (length d))" "word_at b4 (i + ?T + 8) (of_nat (A + ?q))"
  proof -
    have bs: "of_nat (length d) = blob_size blob" by (simp flip: dl(1))
    show "word_at b4 (i + ?T) t" using wd[of 0 t] w2(1) by simp
    show "word_at b4 (i + ?T + 4) (of_nat (length d))" unfolding bs by (rule wd[OF w2(2)]) simp
    show "word_at b4 (i + ?T + 8) (of_nat (A + ?q))" unfolding law[symmetric] by (rule wd[OF w2(3)]) simp
  qed
  ultimately have "log_at gran A b4 i ?q (FDB_TSL_WRITE, t, d)"
    using 4(3) dq fit l4 by (simp add: log_at_def)
  moreover have "write_tsl gran db blob t s = Some (FDB_NO_ERR, s4)"
    using 1(1) 2(1) 3(1) 4(1) d dl by (simp add: write_tsl_def blob_of_def Let_def)
  moreover have "same_on 0 i b b4" "same_on (i + isz gran) ?q b b4" "same_on p S b b4"
    using so[of i 0] so[of ?q "i + isz gran"] so[of S p] fit dq by simp_all
  ultimately show ?thesis using 4(2) by blast
qed

section \<open>From one state of a sector to the next\<close>

lemma hdr_layout:
  assumes "gran \<in> grans"
  shows "FDB_STATUS_TABLE_SIZE gran FDB_SECTOR_STORE_STATUS_NUM \<le> SECTOR_MAGIC_OFFSET gran"
    "SECTOR_START_TIME_OFFSET gran = SECTOR_MAGIC_OFFSET gran + 4"
    "SECTOR_END_TIME_OFFSET gran 0 = SECTOR_MAGIC_OFFSET gran + 8"
    "SECTOR_END_IDX_OFFSET gran 0 = SECTOR_MAGIC_OFFSET gran + 12"
    "SECTOR_END_STATUS_OFFSET gran 0 = SECTOR_MAGIC_OFFSET gran + 16"
    "SECTOR_MAGIC_OFFSET gran + 16 + FDB_STATUS_TABLE_SIZE gran FDB_TSL_STATUS_NUM \<le> SECTOR_END_TIME_OFFSET gran 1"
    "SECTOR_END_STATUS_OFFSET gran 1 = SECTOR_END_TIME_OFFSET gran 1 + 8"
    "SECTOR_END_TIME_OFFSET gran 1 + 8 + FDB_STATUS_TABLE_SIZE gran FDB_TSL_STATUS_NUM \<le> sizeof_sector_hdr gran"
    "sizeof_sector_hdr gran \<le> hsz gran" "hsz gran \<le> 136"
proof -
  show "SECTOR_START_TIME_OFFSET gran = SECTOR_MAGIC_OFFSET gran + 4" "SECTOR_END_TIME_OFFSET gran 0 = SECTOR_MAGIC_OFFSET gran + 8"
    "SECTOR_END_IDX_OFFSET gran 0 = SECTOR_MAGIC_OFFSET gran + 12" "SECTOR_END_STATUS_OFFSET gran 0 = SECTOR_MAGIC_OFFSET gran + 16"
    "SECTOR_END_STATUS_OFFSET gran 1 = SECTOR_END_TIME_OFFSET gran 1 + 8"
    by (simp_all add: SECTOR_START_TIME_OFFSET_def SECTOR_END_TIME_OFFSET_def SECTOR_END_IDX_OFFSET_def SECTOR_END_STATUS_OFFSET_def)
  show "sizeof_sector_hdr gran \<le> hsz gran" unfolding hsz_eq[OF assms] by (rule pad_ge[OF assms])
  show "hsz gran \<le> 136" using layout_values[OF assms] by (elim insertE emptyE; simp)
  show "FDB_STATUS_TABLE_SIZE gran FDB_SECTOR_STORE_STATUS_NUM \<le> SECTOR_MAGIC_OFFSET gran"
    "SECTOR_MAGIC_OFFSET gran + 16 + FDB_STATUS_TABLE_SIZE gran FDB_TSL_STATUS_NUM \<le> SECTOR_END_TIME_OFFSET gran 1"
    "SECTOR_END_TIME_OFFSET gran 1 + 8 + FDB_STATUS_TABLE_SIZE gran FDB_TSL_STATUS_NUM \<le> sizeof_sector_hdr gran"
    using assms unfolding grans_def by (elim insertE emptyE; simp add: ts_layout_defs)+
qed

lemma open_append:
  assumes "open_ok gran A b t es" "gran \<in> grans" "length b' = length b"
    and fit: "hsz gran + length es * isz gran + isz gran + pad gran (length (log_data e)) \<le> length b - used gran es"
    and e: "log_at gran A b' (hsz gran + length es * isz gran) (length b - used gran es - pad gran (length (log_data e))) e"
    and so: "same_on 0 (hsz gran + length es * isz gran) b b'"
      "same_on (hsz gran + length es * isz gran + isz gran) (length b - used gran es - pad gran (length (log_data e))) b b'"
      "same_on (length b - used gran es) (length b) b b'"
  shows "open_ok gran A b' t (es @ [e])"
proof -
  note a = assms(1)[unfolded open_ok_def hdr_ok_def body_ok_def] and o = hdr_layout[OF assms(2)]
  have low: "same_on 0 (hsz gran) b b'" by (rule same_on_less[OF so(1)]) simp_all
  have "logs_at gran A b' (hsz gran) (length b) es"
    by (rule logs_at_same[of gran A b]) (use a assms(2) in \<open>simp_all add: same_on_less[OF so(1)] so(3)\<close>)
  then have "logs_at gran A b' (hsz gran) (length b') (es @ [e])"
    using e by (simp add: logs_at_append assms(3))
  moreover have "table_at gran b' 0 FDB_SECTOR_STORE_STATUS_NUM (store_no FDB_SECTOR_STORE_USING)"
    by (rule table_at_same[OF _ low]) (use a o in simp_all)
  moreover have "word_at b' (SECTOR_MAGIC_OFFSET gran) SECTOR_MAGIC_WORD" 
    using a o by (intro word_at_in[OF _ low]) auto
  moreover have "word_at b' (SECTOR_START_TIME_OFFSET gran) t"
    using a o by (intro word_at_in[OF _ low]) auto
  moreover have "erased b' (SECTOR_END_TIME_OFFSET gran 0) (hsz gran)"
    by (rule erased_same[OF _ same_on_less[OF low]]) (use a in simp_all)
  moreover have "erased b' (hsz gran + length es * isz gran + isz gran) (length b - used gran es - pad gran (length (log_data e)))"
    by (rule erased_same[OF erased_less[of b "hsz gran + length es * isz gran" "length b - used gran es"] so(2)]) (use a in simp_all)
  moreover have "used gran es \<le> length b" using a by simp
  then have "hsz gran + length (es @ [e]) * isz gran + used gran (es @ [e]) \<le> length b'"
    using fit assms(3) by (simp add: algebra_simps)
  ultimately show ?thesis
    using a assms(3) unfolding open_ok_def hdr_ok_def body_ok_def by (simp add: algebra_simps)
qed

lemma write_words:
  assumes "at_sec mem blk db A S m s b" "unat a = A + i" "erased b i (i + 4)" "i + 4 \<le> S"
  obtains s' b' where "fdb_flash_write db a (put_le32 x) s = Some (FDB_NO_ERR, s')" "at_sec mem blk db A S m s' b'"
    "word_at b' i x" "same_outside i 4 b b'" "length b' = S"
proof -
  have l: "length b = S" using at_secD(3)[OF assms(1)] .
  obtain s' where "fdb_flash_write db a (put_le32 x) s = Some (FDB_NO_ERR, s')" "at_sec mem blk db A S m s' (nor_write i (put_le32 x) b)"
    using at_sec_write[OF assms(1,2), of "put_le32 x"] assms(4) by auto
  moreover have "word_at (nor_write i (put_le32 x) b) i x" by (rule word_at_write[OF assms(3)]) (simp add: l assms(4))
  moreover have "same_outside i 4 b (nor_write i (put_le32 x) b)" using same_outside_write[of i "put_le32 x" b] l assms(4) by simp
  ultimately show ?thesis using that l assms(4) by simp
qed

text \<open>A blank sector is taken into use, a sector in use is closed, any sector is formatted.\<close>

lemma start_ok:
  assumes g: "gran \<in> grans" and s: "at_sec mem blk (parent db) A S m s b" and S31: "A + S \<le> 2 ^ 31"
    and A: "unat (sec_addr (cur_sec db)) = A" and b: "sector_ok gran A b Blank"
  shows "\<exists>s' b'. start_sector gran db t s = Some (FDB_NO_ERR, db\<lparr>cur_sec := (cur_sec db)\<lparr>sec_status := FDB_SECTOR_STORE_USING, start_time := t\<rparr>\<rparr>, s') \<and>
    at_sec mem blk (parent db) A S m s' b' \<and> open_ok gran A b' t []"
proof -
  note o = hdr_layout[OF g]
  have lb: "length b = S" using at_secD(3)[OF s] .
  note a = b[simplified, unfolded hdr_ok_def, folded store_no.simps(2)]
  have t0: "table_at gran b 0 FDB_SECTOR_STORE_STATUS_NUM (store_no FDB_SECTOR_STORE_EMPTY)" using b by (simp add: hdr_ok_def)
  have A0: "unat (sec_addr (cur_sec db)) = A + 0" using A by simp
  obtain s1 b1 where 1: "fdb_write_status gran (parent db) (sec_addr (cur_sec db)) FDB_SECTOR_STORE_STATUS_NUM (store_no FDB_SECTOR_STORE_USING) s = Some (FDB_NO_ERR, s1)"
    "at_sec mem blk (parent db) A S m s1 b1" "table_at gran b1 0 FDB_SECTOR_STORE_STATUS_NUM (store_no FDB_SECTOR_STORE_USING)"
    "same_outside 0 (FDB_STATUS_TABLE_SIZE gran FDB_SECTOR_STORE_STATUS_NUM) b b1" and l1: "length b1 = S"
    by (rule at_sec_advance[OF s g A0 t0 _ store_no_less(1)[of FDB_SECTOR_STORE_USING] store_no_less(2)]) simp_all
  have so1: "same_on (SECTOR_MAGIC_OFFSET gran) S b b1" by (rule same_on_outside[OF 1(4)]) (use o(1) lb in auto)
  have hS: "hsz gran \<le> S" using b lb by (simp add: hdr_ok_def)
  have er1: "erased b1 (SECTOR_START_TIME_OFFSET gran) S"
    by (rule erased_in[OF _ so1]) (use b lb o(2) in auto)
  have aT: "unat (sec_addr (cur_sec db) + of_nat (SECTOR_START_TIME_OFFSET gran)) = A + SECTOR_START_TIME_OFFSET gran"
    by (rule unat_plus[OF A]) (use o hS S31 in simp)
  have ft: "SECTOR_START_TIME_OFFSET gran + 4 \<le> S" using o hS by linarith
  obtain s2 b2 where 2: "fdb_flash_write (parent db) (sec_addr (cur_sec db) + of_nat (SECTOR_START_TIME_OFFSET gran)) (put_le32 t) s1 = Some (FDB_NO_ERR, s2)"
    "at_sec mem blk (parent db) A S m s2 b2" "word_at b2 (SECTOR_START_TIME_OFFSET gran) t" "same_outside (SECTOR_START_TIME_OFFSET gran) 4 b1 b2" and l2: "length b2 = S"
    by (rule write_words[OF 1(2) aT _ ft]) (rule erased_less[OF er1], simp, rule ft)
  have lo2: "same_on 0 (SECTOR_START_TIME_OFFSET gran) b1 b2" by (rule same_on_outside[OF 2(4)]) (use ft l1 in auto)
  have hi2: "same_on (SECTOR_END_TIME_OFFSET gran 0) S b1 b2" by (rule same_on_outside[OF 2(4)]) (use o l1 in auto)
  have w1: "word_at b1 (SECTOR_MAGIC_OFFSET gran) SECTOR_MAGIC_WORD"
    by (rule word_at_in[OF _ so1]) (use b o hS in \<open>auto simp: hdr_ok_def\<close>)
  have "word_at b2 (SECTOR_MAGIC_OFFSET gran) SECTOR_MAGIC_WORD" by (rule word_at_in[OF w1 lo2]) (use o in auto)
  moreover have "table_at gran b2 0 FDB_SECTOR_STORE_STATUS_NUM (store_no FDB_SECTOR_STORE_USING)"
    by (rule table_at_in[OF 1(3) lo2]) (use o in auto)
  moreover have "erased b2 (SECTOR_END_TIME_OFFSET gran 0) S"
    by (rule erased_same[OF erased_less[OF er1] hi2]) (use o in auto)
  ultimately have "open_ok gran A b2 t []"
    using 2(3) hS l2 o unfolding open_ok_def hdr_ok_def body_ok_def by (auto elim: erased_less)
  moreover have "start_sector gran db t s = Some (FDB_NO_ERR, db\<lparr>cur_sec := (cur_sec db)\<lparr>sec_status := FDB_SECTOR_STORE_USING, start_time := t\<rparr>\<rparr>, s2)"
    using 1(1) 2(1) by (simp add: start_sector_def Let_def)
  ultimately show ?thesis using 2(2) by blast
qed

lemma save_end_ok:
  assumes g: "gran \<in> grans" and s: "at_sec mem blk (parent db) A S m s b" and S31: "A + S \<le> 2 ^ 31"
    and A: "unat addr = A" and er: "erased b (SECTOR_END_TIME_OFFSET gran 0) (hsz gran)" and hS: "hsz gran \<le> S"
  shows "\<exists>s' b'. save_end_info gran db addr 0 e s = Some (FDB_NO_ERR, s') \<and> at_sec mem blk (parent db) A S m s' b' \<and>
    table_at gran b' (SECTOR_END_STATUS_OFFSET gran 0) FDB_TSL_STATUS_NUM (tsl_no FDB_TSL_WRITE) \<and>
    word_at b' (SECTOR_END_TIME_OFFSET gran 0) (last_time db) \<and> word_at b' (SECTOR_END_IDX_OFFSET gran 0) e \<and>
    same_on 0 (SECTOR_END_TIME_OFFSET gran 0) b b' \<and> same_on (SECTOR_END_TIME_OFFSET gran 1) S b b'"
proof -
  let ?N = "FDB_STATUS_TABLE_SIZE gran FDB_TSL_STATUS_NUM" and ?t = "SECTOR_END_TIME_OFFSET gran 0"
    and ?i = "SECTOR_END_IDX_OFFSET gran 0" and ?s = "SECTOR_END_STATUS_OFFSET gran 0" and ?n = "SECTOR_END_TIME_OFFSET gran 1"
  have o: "?i = ?t + 4" "?s = ?t + 8" "?s + ?N \<le> ?n" "?n \<le> hsz gran" using hdr_layout[OF g] by linarith+
  have lb: "length b = S" using at_secD(3)[OF s] .
  have ad: "unat (addr + of_nat j) = A + j" if "j \<le> ?s" for j by (rule unat_plus[OF A]) (use that o hS S31 in simp)
  have t0: "table_at gran b ?s FDB_TSL_STATUS_NUM 0"
    by (rule erased_table[OF g]) (use er o hS lb in \<open>auto simp: erased_def FDB_TSL_STATUS_NUM_def\<close>)
  obtain s1 b1 where 1: "fdb_write_status gran (parent db) (addr + of_nat ?s) FDB_TSL_STATUS_NUM (tsl_no FDB_TSL_PRE_WRITE) s = Some (FDB_NO_ERR, s1)"
    "at_sec mem blk (parent db) A S m s1 b1" "table_at gran b1 ?s FDB_TSL_STATUS_NUM (tsl_no FDB_TSL_PRE_WRITE)" "same_outside ?s ?N b b1" and l1: "length b1 = S"
    by (rule at_sec_advance[OF s g ad[OF order_refl] t0 _ tsl_no_less(1)[of FDB_TSL_PRE_WRITE] tsl_no_less(2)]) simp_all
  have lo1: "same_on 0 ?s b b1" and hi1: "same_on (?s + ?N) S b b1"
    by (rule same_on_outside[OF 1(4)], use o hS lb in simp_all)+
  have er1: "erased b1 ?t ?s" by (rule erased_in[OF erased_less[OF er] lo1]) (use o in simp_all)
  obtain s2 b2 where 2: "fdb_flash_write (parent db) (addr + of_nat ?t) (put_le32 (last_time db)) s1 = Some (FDB_NO_ERR, s2)"
    "at_sec mem blk (parent db) A S m s2 b2" "word_at b2 ?t (last_time db)" "same_outside ?t 4 b1 b2" and l2: "length b2 = S"
    by (rule write_words[OF 1(2) ad, of ?t]) (use o hS erased_less[OF er1] in simp_all)
  have lo2: "same_on 0 ?t b1 b2" and hi2: "same_on ?i S b1 b2"
    by (rule same_on_outside[OF 2(4)], use o hS l1 in simp_all)+
  have er2: "erased b2 ?i ?s" by (rule erased_in[OF erased_less[OF er1] hi2]) (use o hS in simp_all)
  obtain s3 b3 where 3: "fdb_flash_write (parent db) (addr + of_nat ?i) (put_le32 e) s2 = Some (FDB_NO_ERR, s3)"
    "at_sec mem blk (parent db) A S m s3 b3" "word_at b3 ?i e" "same_outside ?i 4 b2 b3" and l3: "length b3 = S"
    by (rule write_words[OF 2(2) ad, of ?i]) (use o hS erased_less[OF er2] in simp_all)
  have lo3: "same_on 0 ?i b2 b3" and hi3: "same_on ?s S b2 b3"
    by (rule same_on_outside[OF 3(4)], use o hS l2 in simp_all)+
  have t3: "table_at gran b3 ?s FDB_TSL_STATUS_NUM (tsl_no FDB_TSL_PRE_WRITE)"
    by (rule table_at_in[OF table_at_in[OF 1(3) hi2] hi3]) (use o hS in simp_all)
  obtain s4 b4 where 4: "fdb_write_status gran (parent db) (addr + of_nat ?s) FDB_TSL_STATUS_NUM (tsl_no FDB_TSL_WRITE) s3 = Some (FDB_NO_ERR, s4)"
    "at_sec mem blk (parent db) A S m s4 b4" "table_at gran b4 ?s FDB_TSL_STATUS_NUM (tsl_no FDB_TSL_WRITE)" "same_outside ?s ?N b3 b4" and l4: "length b4 = S"
    by (rule at_sec_advance[OF 3(2) g ad[OF order_refl] t3 _ tsl_no_less(1)[of FDB_TSL_WRITE] tsl_no_less(2)]) simp_all
  have lo4: "same_on 0 ?s b3 b4" and hi4: "same_on (?s + ?N) S b3 b4"
    by (rule same_on_outside[OF 4(4)], use o hS l3 in simp_all)+
  have "word_at b4 ?t (last_time db)"
    by (rule word_at_in[OF word_at_in[OF 2(3) lo3] lo4]) (use o in simp_all)
  moreover have "word_at b4 ?i e" by (rule word_at_in[OF 3(3) lo4]) (use o in simp_all)
  moreover have "same_on 0 ?t b b4"
    by (rule same_on_trans[OF same_on_less[OF lo1] same_on_trans[OF lo2 same_on_trans[OF same_on_less[OF lo3] same_on_less[OF lo4]]]]) (use o in simp_all)
  moreover have "same_on ?n S b b4"
    by (rule same_on_trans[OF same_on_less[OF hi1] same_on_trans[OF same_on_less[OF hi2] same_on_trans[OF same_on_less[OF hi3] same_on_less[OF hi4]]]]) (use o in simp_all)
  moreover have "save_end_info gran db addr 0 e s = Some (FDB_NO_ERR, s4)"
    using 1(1) 2(1) 3(1) 4(1) by (simp add: save_end_info_def Let_def)
  ultimately show ?thesis using 4(2,3) by blast
qed

lemma close_ok:
  assumes g: "gran \<in> grans" and s: "at_sec mem blk (parent db) A S m s b" and S31: "A + S \<le> 2 ^ 31"
    and A: "unat addr = A" and b: "sector_ok gran A b (Open es)" and lt: "last_time db = log_time (last es)"
    and e: "e = of_nat (A + hsz gran + (length es - 1) * isz gran)"
  shows "\<exists>s1 s2 b'. save_end_info gran db addr 0 e s = Some (FDB_NO_ERR, s1) \<and>
    fdb_write_status gran (parent db) addr FDB_SECTOR_STORE_STATUS_NUM (store_no FDB_SECTOR_STORE_FULL) s1 = Some (FDB_NO_ERR, s2) \<and>
    at_sec mem blk (parent db) A S m s2 b' \<and> sector_ok gran A b' (Closed es)"
proof -
  note o = hdr_layout[OF g]
  have lb: "length b = S" using at_secD(3)[OF s] .
  note a = b[simplified, unfolded open_ok_def hdr_ok_def body_ok_def]
  have t: "table_at gran b 0 FDB_SECTOR_STORE_STATUS_NUM (store_no FDB_SECTOR_STORE_USING)" and er: "erased b (SECTOR_END_TIME_OFFSET gran 0) (hsz gran)"
    and hS: "hsz gran \<le> S" using b lb by (simp_all add: open_ok_def hdr_ok_def)
  obtain s1 b1 where 1: "save_end_info gran db addr 0 e s = Some (FDB_NO_ERR, s1)" "at_sec mem blk (parent db) A S m s1 b1"
    "table_at gran b1 (SECTOR_END_STATUS_OFFSET gran 0) FDB_TSL_STATUS_NUM (tsl_no FDB_TSL_WRITE)"
    "word_at b1 (SECTOR_END_TIME_OFFSET gran 0) (last_time db)" "word_at b1 (SECTOR_END_IDX_OFFSET gran 0) e"
    "same_on 0 (SECTOR_END_TIME_OFFSET gran 0) b b1" "same_on (SECTOR_END_TIME_OFFSET gran 1) S b b1"
    using save_end_ok[OF g s S31 A er hS] by blast
  have l1: "length b1 = S" using at_secD(3)[OF 1(2)] .
  have t1: "table_at gran b1 0 FDB_SECTOR_STORE_STATUS_NUM (store_no FDB_SECTOR_STORE_USING)"
    by (rule table_at_in[OF t 1(6)]) (use o in linarith)+
  have A0: "unat addr = A + 0" using A by simp
  obtain s2 b2 where 2: "fdb_write_status gran (parent db) addr FDB_SECTOR_STORE_STATUS_NUM (store_no FDB_SECTOR_STORE_FULL) s1 = Some (FDB_NO_ERR, s2)"
    "at_sec mem blk (parent db) A S m s2 b2" "table_at gran b2 0 FDB_SECTOR_STORE_STATUS_NUM (store_no FDB_SECTOR_STORE_FULL)"
    "same_outside 0 (FDB_STATUS_TABLE_SIZE gran FDB_SECTOR_STORE_STATUS_NUM) b1 b2" and l2: "length b2 = S"
    by (rule at_sec_advance[OF 1(2) g A0 t1 _ store_no_less(1)[of FDB_SECTOR_STORE_FULL] store_no_less(2)]) simp_all
  have so2: "same_on (SECTOR_MAGIC_OFFSET gran) S b1 b2" by (rule same_on_outside[OF 2(4)]) (use o l1 in simp_all)
  have hi: "same_on (SECTOR_END_TIME_OFFSET gran 1) S b b2"
    by (rule same_on_trans[OF 1(7) same_on_less[OF so2]]) (use o in linarith)+
  have mid: "same_on (SECTOR_MAGIC_OFFSET gran) (SECTOR_END_TIME_OFFSET gran 0) b b2"
    by (rule same_on_trans[OF same_on_less[OF 1(6)] same_on_less[OF so2]]) (use o hS in linarith)+
  have "word_at b2 (SECTOR_MAGIC_OFFSET gran) SECTOR_MAGIC_WORD"
    by (rule word_at_in[OF _ mid]) (use b o in \<open>auto simp: open_ok_def hdr_ok_def\<close>)
  moreover have "word_at b2 (SECTOR_START_TIME_OFFSET gran) (log_time (hd es))"
    by (rule word_at_in[OF _ mid]) (use b o in \<open>auto simp: open_ok_def\<close>)
  moreover have "table_at gran b2 (SECTOR_END_STATUS_OFFSET gran 0) FDB_TSL_STATUS_NUM (tsl_no FDB_TSL_WRITE)"
    by (rule table_at_in[OF 1(3) so2]) (use o hS in linarith)+
  moreover have "word_at b2 (SECTOR_END_TIME_OFFSET gran 0) (log_time (last es))" unfolding lt[symmetric]
    by (rule word_at_in[OF 1(4) so2]) (use o hS in linarith)+
  moreover have "word_at b2 (SECTOR_END_IDX_OFFSET gran 0) e"
    by (rule word_at_in[OF 1(5) so2]) (use o hS in linarith)+
  moreover have "erased b2 (SECTOR_END_TIME_OFFSET gran 1) (hsz gran)"
    by (rule erased_in[OF erased_less[OF er] hi]) (use o hS in simp_all)
  moreover have "body_ok gran A b2 es"
  proof -
    have bo: "logs_at gran A b (hsz gran) (length b) es" "hsz gran + length es * isz gran + used gran es \<le> length b"
      using b by (simp_all add: open_ok_def body_ok_def)
    have "logs_at gran A b2 (hsz gran) (length b) es"
      by (rule logs_at_same[OF bo(1) g _ same_on_less[OF hi] same_on_less[OF hi]]) (use bo(2) o lb in simp_all)
    then show ?thesis using bo(2) lb l2 by (simp add: body_ok_def)
  qed
  ultimately have "sector_ok gran A b2 (Closed es)" using b 2(3) hS l2 e by (simp add: hdr_ok_def)
  then show ?thesis using 1(1) 2(1,2) by blast
qed

lemma format_ok:
  assumes g: "gran \<in> grans" and s: "at_sec mem blk (parent db) A S m s b" and S31: "A + S \<le> 2 ^ 31"
    and A: "unat addr = A" and S: "unat (db_sec_size (parent db)) = S" "S dvd A" "blk dvd S" and hS: "hsz gran \<le> S"
  shows "\<exists>s' b'. format_sector gran db addr s = Some (FDB_NO_ERR, s') \<and> at_sec mem blk (parent db) A S m s' b' \<and> sector_ok gran A b' Blank"
proof -
  note o = hdr_layout[OF g]
  let ?N = "FDB_STATUS_TABLE_SIZE gran FDB_SECTOR_STORE_STATUS_NUM"
  have A0: "unat addr = A + 0" using A by simp
  have S0: "0 < S" using hS o(8,9) by linarith
  let ?f = "replicate S (0xFF :: u8)"
  obtain s1 where 1: "fdb_flash_erase (parent db) addr (db_sec_size (parent db)) s = Some (FDB_NO_ERR, s1)"
    "at_sec mem blk (parent db) A S m s1 ?f"
    using at_sec_erase[OF s A S(1)] S(2,3) dvd_trans by blast
  have er: "erased ?f i j" if "j \<le> S" for i j using that by (simp add: erased_def)
  have t0: "table_at gran ?f 0 FDB_SECTOR_STORE_STATUS_NUM 0"
    by (rule erased_table[OF g _ er]) (use o hS in \<open>simp_all add: FDB_SECTOR_STORE_STATUS_NUM_def\<close>)
  obtain s2 b2 where 2: "fdb_write_status gran (parent db) addr FDB_SECTOR_STORE_STATUS_NUM (store_no FDB_SECTOR_STORE_EMPTY) s1 = Some (FDB_NO_ERR, s2)"
    "at_sec mem blk (parent db) A S m s2 b2" "table_at gran b2 0 FDB_SECTOR_STORE_STATUS_NUM (store_no FDB_SECTOR_STORE_EMPTY)"
    "same_outside 0 ?N ?f b2" and l2: "length b2 = S"
    by (rule at_sec_advance[OF 1(2) g A0 t0 _ store_no_less(1)[of FDB_SECTOR_STORE_EMPTY] store_no_less(2)]) simp_all
  have so2: "same_on (SECTOR_MAGIC_OFFSET gran) S ?f b2" by (rule same_on_outside[OF 2(4)]) (use o in simp_all)
  have er2: "erased b2 (SECTOR_MAGIC_OFFSET gran) S" by (rule erased_same[OF er so2]) simp
  have aM: "unat (addr + of_nat (SECTOR_MAGIC_OFFSET gran)) = A + SECTOR_MAGIC_OFFSET gran"
    by (rule unat_plus[OF A]) (use o hS S31 in simp)
  have fm: "SECTOR_MAGIC_OFFSET gran + 4 \<le> S" using o hS by linarith
  obtain s3 b3 where 3: "fdb_flash_write (parent db) (addr + of_nat (SECTOR_MAGIC_OFFSET gran)) (put_le32 SECTOR_MAGIC_WORD) s2 = Some (FDB_NO_ERR, s3)"
    "at_sec mem blk (parent db) A S m s3 b3" "word_at b3 (SECTOR_MAGIC_OFFSET gran) SECTOR_MAGIC_WORD" "same_outside (SECTOR_MAGIC_OFFSET gran) 4 b2 b3" and l3: "length b3 = S"
    by (rule write_words[OF 2(2) aM _ fm]) (rule erased_less[OF er2], simp, rule fm)
  have lo3: "same_on 0 (SECTOR_MAGIC_OFFSET gran) b2 b3" and hi3: "same_on (SECTOR_START_TIME_OFFSET gran) S b2 b3"
    by (rule same_on_outside[OF 3(4)], use o fm l2 in simp_all)+
  have "table_at gran b3 0 FDB_SECTOR_STORE_STATUS_NUM (store_no FDB_SECTOR_STORE_EMPTY)"
    by (rule table_at_in[OF 2(3) lo3]) (use o in simp_all)
  moreover have "erased b3 (SECTOR_START_TIME_OFFSET gran) S"
    by (rule erased_same[OF erased_less[OF er2] hi3]) (use o in simp_all)
  ultimately have "sector_ok gran A b3 Blank" using 3(3) hS l3 by (simp add: hdr_ok_def)
  moreover have "format_sector gran db addr s = Some (FDB_NO_ERR, s3)"
  proof -
    have "db_sec_size (parent db) \<noteq> 0" using S(1) S0 by auto
    moreover have "addr mod db_sec_size (parent db) = 0"
      using A S(1,2) by (simp add: word_arith_nat_mod flip: dvd_eq_mod_eq_0) 
    ultimately show ?thesis using 1(1) 2(1) 3(1) by (simp add: format_sector_def)
  qed
  ultimately show ?thesis using 3(2) by blast
qed

end
