(* ===== verification/Tsdb_Query.thy ===== *)
theory Tsdb_Query
  imports Tsdb
begin

text \<open>
  The rest of the time series database (\<^verbatim>\<open>fdb_tsdb.c\<close>): iteration over the logs, by time and in
  order, the queries on it, control, initialisation. A callback answers whether to stop; it
  has a state of its own and may use the flash.
\<close>

type_synonym ('c, 'd) tsl_cb = "fdb_tsl \<Rightarrow> 'c \<Rightarrow> 'd fal \<Rightarrow> (bool \<times> 'c \<times> 'd fal) option"

section \<open>Iteration\<close>

partial_function (option) iter_tsl_loop ::
  "nat \<Rightarrow> fdb_tsdb \<Rightarrow> ('c, 'd) tsl_cb \<Rightarrow> tsdb_sec_info \<Rightarrow> fdb_tsl \<Rightarrow> 'c \<Rightarrow> 'd fal \<Rightarrow> (bool \<times> 'c \<times> 'd fal) option" where
  "iter_tsl_loop gran db cb sector tsl c s = do {
     (tsl, s) \<leftarrow> read_tsl gran db tsl s;
     (stop, c, s) \<leftarrow> cb tsl c s;
     if stop then Some (True, c, s)
     else do {
       let addr = get_next_tsl_addr gran sector tsl;
       if addr \<noteq> FAILED_ADDR then iter_tsl_loop gran db cb sector (tsl\<lparr>tsl_index := addr\<rparr>) c s
       else Some (False, c, s) } }"

text \<open>\<open>continue\<close> in the C loop goes on to its condition.\<close>

partial_function (option) iter_sec_loop ::
  "nat \<Rightarrow> fdb_tsdb \<Rightarrow> ('c, 'd) tsl_cb \<Rightarrow> u32 \<Rightarrow> u32 \<Rightarrow> tsdb_sec_info \<Rightarrow> 'c \<Rightarrow> 'd fal \<Rightarrow> ('c \<times> 'd fal) option" where
  "iter_sec_loop gran db cb addr traversed_len sector c s = do {
     let traversed_len = traversed_len + db_sec_size (parent db);
     (result, sector, s) \<leftarrow> read_sector_info gran db addr sector False s;
     (stop, sector, c, s) \<leftarrow>
       (if result = FDB_NO_ERR \<and> (sec_status sector = FDB_SECTOR_STORE_USING \<or> sec_status sector = FDB_SECTOR_STORE_FULL) then do {
          let sector = (if sec_status sector = FDB_SECTOR_STORE_USING then cur_sec db else sector);
          (stop, c, s) \<leftarrow> iter_tsl_loop gran db cb sector (junk_tsl (sec_addr sector + SECTOR_HDR_DATA_SIZE gran)) c s;
          Some (stop, sector, c, s) }
        else Some (False, sector, c, s));
     if stop then Some (c, s)
     else do {
       let addr = get_next_sector_addr db sector traversed_len;
       if addr \<noteq> FAILED_ADDR then iter_sec_loop gran db cb addr traversed_len sector c s else Some (c, s) } }"

text \<open>A database that is not initialised is only reported.\<close>

definition fdb_tsl_iter :: "nat \<Rightarrow> tsdb_sec_info \<Rightarrow> fdb_tsdb \<Rightarrow> ('c, 'd) tsl_cb option \<Rightarrow> 'c \<Rightarrow> 'd fal \<Rightarrow> ('c \<times> 'd fal) option" where
  "fdb_tsl_iter gran junk db cb c s =
     (case cb of None \<Rightarrow> Some (c, s) | Some f \<Rightarrow> iter_sec_loop gran db f (oldest_addr db) 0 junk c s)"

section \<open>Iteration by time\<close>

partial_function (option) start_search :: "nat \<Rightarrow> fdb_tsdb \<Rightarrow> u32 \<Rightarrow> u32 \<Rightarrow> u32 \<Rightarrow> 'd fal \<Rightarrow> (u32 \<times> 'd fal) option" where
  "start_search gran db from start end s =
     (if start \<le> end then do {
        let index = start + ((end - start) div 2 + 1) div LOG_IDX_DATA_SIZE gran * LOG_IDX_DATA_SIZE gran;
        (tsl, s) \<leftarrow> read_tsl gran db (junk_tsl index) s;
        if sint (tsl_time tsl) < sint from
        then start_search gran db from (index + LOG_IDX_DATA_SIZE gran) end s
        else start_search gran db from start (index - LOG_IDX_DATA_SIZE gran) s }
      else Some (start, s))"

definition in_time :: "u32 \<Rightarrow> u32 \<Rightarrow> u32 \<Rightarrow> bool" where
  "in_time from to t \<longleftrightarrow> sint t \<ge> sint from \<and> sint t \<le> sint to"

partial_function (option) time_tsl_loop ::
  "nat \<Rightarrow> fdb_tsdb \<Rightarrow> u32 \<Rightarrow> u32 \<Rightarrow> ('c, 'd) tsl_cb \<Rightarrow> tsdb_sec_info \<Rightarrow> fdb_tsl \<Rightarrow> 'c \<Rightarrow> 'd fal \<Rightarrow> (bool \<times> 'c \<times> 'd fal) option" where
  "time_tsl_loop gran db from to cb sector tsl c s = do {
     (tsl, s) \<leftarrow> read_tsl gran db tsl s;
     (stop, c, s) \<leftarrow>
       (if tsl_status tsl \<noteq> FDB_TSL_UNUSED then
          if in_time from to (tsl_time tsl) then cb tsl c s else Some (True, c, s)
        else Some (False, c, s));
     if stop then Some (True, c, s)
     else do {
       let addr = get_next_tsl_addr gran sector tsl;
       if addr \<noteq> FAILED_ADDR then time_tsl_loop gran db from to cb sector (tsl\<lparr>tsl_index := addr\<rparr>) c s
       else Some (False, c, s) } }"

partial_function (option) time_sec_loop ::
  "nat \<Rightarrow> fdb_tsdb \<Rightarrow> u32 \<Rightarrow> u32 \<Rightarrow> ('c, 'd) tsl_cb \<Rightarrow> bool \<Rightarrow> u32 \<Rightarrow> u32 \<Rightarrow> tsdb_sec_info \<Rightarrow> 'c \<Rightarrow> 'd fal \<Rightarrow> ('c \<times> 'd fal) option" where
  "time_sec_loop gran db from to cb found addr traversed_len sector c s = do {
     let traversed_len = traversed_len + db_sec_size (parent db);
     (result, sector, s) \<leftarrow> read_sector_info gran db addr sector False s;
     (stop, found, sector, c, s) \<leftarrow>
       (if result \<noteq> FDB_NO_ERR then Some (False, found, sector, c, s)
        else if sec_status sector = FDB_SECTOR_STORE_USING \<or> sec_status sector = FDB_SECTOR_STORE_FULL then do {
          let sector = (if sec_status sector = FDB_SECTOR_STORE_USING then cur_sec db else sector);
          if found \<or> in_time (start_time sector) (end_time sector) from \<or>
             addr = oldest_addr db \<and> sint from \<le> sint (start_time sector) then do {
            (start, s) \<leftarrow> start_search gran db from (sec_addr sector + SECTOR_HDR_DATA_SIZE gran) (end_idx sector) s;
            (stop, c, s) \<leftarrow> time_tsl_loop gran db from to cb sector (junk_tsl start) c s;
            Some (stop, True, sector, c, s) }
          else Some (False, found, sector, c, s) }
        else Some (sec_status sector = FDB_SECTOR_STORE_EMPTY, found, sector, c, s));
     if stop then Some (c, s)
     else do {
       let addr = get_next_sector_addr db sector traversed_len;
       if addr \<noteq> FAILED_ADDR then time_sec_loop gran db from to cb found addr traversed_len sector c s
       else Some (c, s) } }"

definition fdb_tsl_iter_by_time ::
  "nat \<Rightarrow> tsdb_sec_info \<Rightarrow> fdb_tsdb \<Rightarrow> u32 \<Rightarrow> u32 \<Rightarrow> ('c, 'd) tsl_cb option \<Rightarrow> 'c \<Rightarrow> 'd fal \<Rightarrow> ('c \<times> 'd fal) option" where
  "fdb_tsl_iter_by_time gran junk db from to cb c s =
     (case cb of None \<Rightarrow> Some (c, s) | Some f \<Rightarrow> time_sec_loop gran db from to f False (oldest_addr db) 0 junk c s)"

section \<open>Queries\<close>

definition query_count_cb :: "fdb_tsl_status \<Rightarrow> (u32, 'd) tsl_cb" where
  "query_count_cb status tsl count s = Some (False, if tsl_status tsl = status then count + 1 else count, s)"

text \<open>The error code of a database that is not initialised is answered as a count.\<close>

definition fdb_tsl_query_count ::
  "nat \<Rightarrow> tsdb_sec_info \<Rightarrow> fdb_tsdb \<Rightarrow> u32 \<Rightarrow> u32 \<Rightarrow> fdb_tsl_status \<Rightarrow> 'd fal \<Rightarrow> (u32 \<times> 'd fal) option" where
  "fdb_tsl_query_count gran junk db from to status s =
     (if \<not> db_init_ok (parent db) then Some (8, s)
      else fdb_tsl_iter_by_time gran junk db from to (Some (query_count_cb status)) 0 s)"

definition fdb_tsl_set_status :: "nat \<Rightarrow> fdb_tsdb \<Rightarrow> fdb_tsl \<Rightarrow> fdb_tsl_status \<Rightarrow> 'd fal \<Rightarrow> (fdb_err \<times> 'd fal) option" where
  "fdb_tsl_set_status gran db tsl status s =
     fdb_write_status gran (parent db) (tsl_index tsl) FDB_TSL_STATUS_NUM (tsl_no status) s"

definition fdb_tsl_to_blob :: "fdb_tsl \<Rightarrow> fdb_blob \<Rightarrow> fdb_blob" where
  "fdb_tsl_to_blob tsl blob = blob\<lparr>saved_addr := tsl_log tsl, saved_meta_addr := tsl_index tsl, saved_len := tsl_len tsl\<rparr>"

section \<open>Initialisation\<close>

text \<open>The arguments of the check, with the database it works on.\<close>

record check_args =
  ca_db :: fdb_tsdb
  check_failed :: bool
  empty_num :: nat
  empty_addr :: u32

definition check_sec_hdr_cb :: "tsdb_sec_info \<Rightarrow> check_args \<Rightarrow> 'd fal \<Rightarrow> (bool \<times> check_args \<times> 'd fal) option" where
  "check_sec_hdr_cb sector a s =
     (let db = ca_db a; unset = (sec_addr (cur_sec db) = FDB_DATA_UNUSED); take_it = a\<lparr>ca_db := db\<lparr>cur_sec := sector\<rparr>\<rparr> in
      if \<not> sec_check_ok sector then Some (True, a\<lparr>check_failed := True\<rparr>, s)
      else if sec_status sector = FDB_SECTOR_STORE_USING then
        if unset then Some (False, take_it, s) else Some (True, a\<lparr>check_failed := True\<rparr>, s)
      else if sec_status sector = FDB_SECTOR_STORE_EMPTY then
        Some (False, (if empty_num a + 1 = 1 \<and> unset then take_it else a)
          \<lparr>empty_num := empty_num a + 1, empty_addr := sec_addr sector\<rparr>, s)
      else Some (False, a, s))"

definition format_all_cb :: "nat \<Rightarrow> tsdb_sec_info \<Rightarrow> fdb_tsdb \<Rightarrow> 'd fal \<Rightarrow> (bool \<times> fdb_tsdb \<times> 'd fal) option" where
  "format_all_cb gran sector db s = do {
     (_, s) \<leftarrow> format_sector gran db (sec_addr sector) s;
     Some (False, db, s) }"

definition tsl_format_all :: "nat \<Rightarrow> tsdb_sec_info \<Rightarrow> fdb_tsdb \<Rightarrow> 'd fal \<Rightarrow> (fdb_tsdb \<times> 'd fal) option" where
  "tsl_format_all gran junk db s = do {
     (db, s) \<leftarrow> sector_iterator gran db (junk\<lparr>sec_addr := 0\<rparr>) FDB_SECTOR_STORE_UNUSED (format_all_cb gran) False db s;
     let db = db\<lparr>oldest_addr := 0, cur_sec := (cur_sec db)\<lparr>sec_addr := 0\<rparr>, last_time := 0\<rparr>;
     (_, sector, s) \<leftarrow> read_sector_info gran db (sec_addr (cur_sec db)) (cur_sec db) False s;
     Some (db\<lparr>cur_sec := sector\<rparr>, s) }"

definition fdb_tsl_clean :: "nat \<Rightarrow> tsdb_sec_info \<Rightarrow> fdb_tsdb \<Rightarrow> 'd fal \<Rightarrow> (fdb_tsdb \<times> 'd fal) option" where
  "fdb_tsl_clean gran junk db s = tsl_format_all gran junk db s"

text \<open>Where the oldest sector is, once the headers have been checked.\<close>

definition locate_oldest :: "check_args \<Rightarrow> fdb_tsdb" where
  "locate_oldest a =
     (let db = ca_db a; sz = db_sec_size (parent db); max_size = db_max_size (parent db);
          db = (if empty_num a > 0 \<or> rollover db then db else db\<lparr>cur_sec := (cur_sec db)\<lparr>sec_addr := max_size - sz\<rparr>\<rparr>);
          latest_addr = (if empty_num a > 0 then empty_addr a else sec_addr (cur_sec db))
      in db\<lparr>oldest_addr := (if latest_addr + sz \<ge> max_size then 0 else latest_addr + sz)\<rparr>)"

definition load_last_time :: "nat \<Rightarrow> tsdb_sec_info \<Rightarrow> fdb_tsdb \<Rightarrow> 'd fal \<Rightarrow> (fdb_tsdb \<times> 'd fal) option" where
  "load_last_time gran junk db s =
     (let cur = cur_sec db in
      if sec_status cur = FDB_SECTOR_STORE_USING then Some (db\<lparr>last_time := end_time cur\<rparr>, s)
      else if sec_status cur = FDB_SECTOR_STORE_EMPTY \<and> oldest_addr db \<noteq> sec_addr cur then do {
        let sz = db_sec_size (parent db);
        let addr = (if sec_addr cur = 0 then db_max_size (parent db) - sz else sec_addr cur - sz);
        (_, sec, s) \<leftarrow> read_sector_info gran db addr junk False s;
        Some (db\<lparr>last_time := end_time sec\<rparr>, s) }
      else Some (db, s))"

definition check_sectors :: "nat \<Rightarrow> tsdb_sec_info \<Rightarrow> fdb_tsdb \<Rightarrow> 'd fal \<Rightarrow> (fdb_err \<times> fdb_tsdb \<times> 'd fal) option" where
  "check_sectors gran junk db s = do {
     (a, s) \<leftarrow> sector_iterator gran db (junk\<lparr>sec_addr := 0\<rparr>) FDB_SECTOR_STORE_UNUSED check_sec_hdr_cb True
       \<lparr>ca_db = db, check_failed = False, empty_num = 0, empty_addr = 0\<rparr> s;
     if check_failed a then
       if db_not_formatable (parent (ca_db a)) then Some (FDB_READ_ERR, ca_db a, s)
       else do { (db, s) \<leftarrow> tsl_format_all gran junk (ca_db a) s; Some (FDB_NO_ERR, db, s) }
     else Some (FDB_NO_ERR, locate_oldest a, s) }"

definition fdb_tsdb_init ::
  "nat \<Rightarrow> tsdb_sec_info \<Rightarrow> fdb_tsdb \<Rightarrow> string \<Rightarrow> string \<Rightarrow> u32 \<Rightarrow> 'd fal \<Rightarrow> (fdb_err \<times> fdb_tsdb \<times> 'd fal) option" where
  "fdb_tsdb_init gran junk db name path max_length s = do {
     (result, p, s) \<leftarrow> fdb_init_ex (parent db) name path FDB_DB_TYPE_TS s;
     let db = db\<lparr>parent := p\<rparr>;
     (result, db, s) \<leftarrow>
       (if result \<noteq> FDB_NO_ERR then Some (result, db, s)
        else if \<not> max_length < db_sec_size p then None
        else do {
          (result, db, s) \<leftarrow> check_sectors gran junk
            (db\<lparr>max_len := max_length, rollover := True, oldest_addr := FDB_DATA_UNUSED,
                cur_sec := (cur_sec db)\<lparr>sec_addr := FDB_DATA_UNUSED\<rparr>\<rparr>) s;
          if result \<noteq> FDB_NO_ERR then Some (result, db, s)
          else do {
            (_, sector, s) \<leftarrow> read_sector_info gran db (sec_addr (cur_sec db)) (cur_sec db) True s;
            (db, s) \<leftarrow> load_last_time gran junk (db\<lparr>cur_sec := sector\<rparr>) s;
            Some (FDB_NO_ERR, db, s) } });
     Some (result, db\<lparr>parent := fdb_init_finish (parent db) result\<rparr>, s) }"

definition fdb_tsdb_deinit :: "fdb_tsdb \<Rightarrow> fdb_err \<times> fdb_tsdb" where
  "fdb_tsdb_deinit db = (FDB_NO_ERR, db\<lparr>parent := fdb_deinit (parent db)\<rparr>)"

section \<open>Control\<close>

text \<open>The commands with their arguments; the answers of the commands that get something.\<close>

datatype tsdb_ctrl = FDB_TSDB_CTRL_SET_SEC_SIZE u32 | FDB_TSDB_CTRL_GET_SEC_SIZE | FDB_TSDB_CTRL_SET_LOCK "nat option"
  | FDB_TSDB_CTRL_SET_UNLOCK "nat option" | FDB_TSDB_CTRL_SET_ROLLOVER bool | FDB_TSDB_CTRL_GET_ROLLOVER
  | FDB_TSDB_CTRL_GET_LAST_TIME | FDB_TSDB_CTRL_SET_FILE_MODE bool | FDB_TSDB_CTRL_SET_MAX_SIZE u32
  | FDB_TSDB_CTRL_SET_NOT_FORMAT bool

datatype ctrl_answer = No_Answer | Word_Answer u32 | Bool_Answer bool

text \<open>Without file mode the commands for it do nothing.\<close>

fun fdb_tsdb_control :: "fdb_tsdb \<Rightarrow> tsdb_ctrl \<Rightarrow> (ctrl_answer \<times> fdb_tsdb) option" where
  "fdb_tsdb_control db (FDB_TSDB_CTRL_SET_SEC_SIZE n) =
     (if db_init_ok (parent db) then None else Some (No_Answer, db\<lparr>parent := (parent db)\<lparr>db_sec_size := n\<rparr>\<rparr>))"
| "fdb_tsdb_control db FDB_TSDB_CTRL_GET_SEC_SIZE = Some (Word_Answer (db_sec_size (parent db)), db)"
| "fdb_tsdb_control db (FDB_TSDB_CTRL_SET_LOCK f) = Some (No_Answer, db\<lparr>parent := (parent db)\<lparr>db_lock := f\<rparr>\<rparr>)"
| "fdb_tsdb_control db (FDB_TSDB_CTRL_SET_UNLOCK f) = Some (No_Answer, db\<lparr>parent := (parent db)\<lparr>db_unlock := f\<rparr>\<rparr>)"
| "fdb_tsdb_control db (FDB_TSDB_CTRL_SET_ROLLOVER b) =
     (if db_init_ok (parent db) then Some (No_Answer, db\<lparr>rollover := b\<rparr>) else None)"
| "fdb_tsdb_control db FDB_TSDB_CTRL_GET_ROLLOVER = Some (Bool_Answer (rollover db), db)"
| "fdb_tsdb_control db FDB_TSDB_CTRL_GET_LAST_TIME = Some (Word_Answer (last_time db), db)"
| "fdb_tsdb_control db (FDB_TSDB_CTRL_SET_FILE_MODE b) = Some (No_Answer, db)"
| "fdb_tsdb_control db (FDB_TSDB_CTRL_SET_MAX_SIZE n) = Some (No_Answer, db)"
| "fdb_tsdb_control db (FDB_TSDB_CTRL_SET_NOT_FORMAT b) =
     (if db_init_ok (parent db) then None else Some (No_Answer, db\<lparr>parent := (parent db)\<lparr>db_not_formatable := b\<rparr>\<rparr>))"

declare iter_tsl_loop.simps [code] and
  iter_sec_loop.simps [code] and
  start_search.simps [code] and
  time_tsl_loop.simps [code] and
  time_sec_loop.simps [code]

end
