(* ===== verification/Tsdb_Read.thy ===== *)
theory Tsdb_Read
  imports Tsdb_Sector Tsdb_Query
begin

text \<open>
  What the code reads back from a sector that is in a known state: its header, its logs, its
  free space.
\<close>

section \<open>The header\<close>

lemma put_le32_le32:
  assumes "length b = 4"
  shows "put_le32 (le32 b 0) = b"
proof -
  obtain w x y z where b: "b = [w, x, y, z]" using assms by (auto simp: numeral_eq_Suc length_Suc_conv)
  show ?thesis unfolding b le32_def put_le32_def
    by (simp, intro conjI; intro bit_word_eqI; auto simp: bit_simps dest: bit_imp_le_length)
qed

primrec sec_logs :: "ts_sector \<Rightarrow> log list" where
  "sec_logs Blank = []"
| "sec_logs (Open es) = es"
| "sec_logs (Closed es) = es"

primrec sec_store :: "ts_sector \<Rightarrow> fdb_sector_store_status" where
  "sec_store Blank = FDB_SECTOR_STORE_EMPTY"
| "sec_store (Open es) = FDB_SECTOR_STORE_USING"
| "sec_store (Closed es) = FDB_SECTOR_STORE_FULL"

text \<open>What the header of a sector says.\<close>

definition sec_info :: "nat \<Rightarrow> nat \<Rightarrow> nat \<Rightarrow> ts_sector \<Rightarrow> tsdb_sec_info \<Rightarrow> bool" where
  "sec_info gran A S X sec \<longleftrightarrow> sec_check_ok sec \<and> sec_status sec = sec_store X \<and> unat (sec_addr sec) = A \<and>
     end_info_stat0 sec = (case X of Closed es \<Rightarrow> FDB_TSL_WRITE | _ \<Rightarrow> FDB_TSL_UNUSED) \<and> end_info_stat1 sec = FDB_TSL_UNUSED \<and>
     unat (empty_idx sec) = A + hsz gran \<and> unat (empty_data sec) = A + S \<and> unat (remain sec) = S - hsz gran \<and>
     (sec_logs X \<noteq> [] \<longrightarrow> start_time sec = log_time (hd (sec_logs X))) \<and>
     (\<forall>es. X = Closed es \<longrightarrow> end_time sec = log_time (last es) \<and> end_idx sec = of_nat (A + hsz gran + (length es - 1) * isz gran))"

text \<open>The description of a sector that is written to, with the logs \<open>es\<close>.\<close>

definition cur_ok :: "nat \<Rightarrow> nat \<Rightarrow> nat \<Rightarrow> log list \<Rightarrow> tsdb_sec_info \<Rightarrow> bool" where
  "cur_ok gran A S es sec \<longleftrightarrow> sec_check_ok sec \<and> sec_status sec = (if es = [] then FDB_SECTOR_STORE_EMPTY else FDB_SECTOR_STORE_USING) \<and>
     unat (sec_addr sec) = A \<and> end_info_stat0 sec = FDB_TSL_UNUSED \<and> end_info_stat1 sec = FDB_TSL_UNUSED \<and>
     unat (empty_idx sec) = A + hsz gran + length es * isz gran \<and> unat (empty_data sec) = A + S - used gran es \<and>
     unat (remain sec) = S - hsz gran - length es * isz gran - used gran es \<and>
     (es \<noteq> [] \<longrightarrow> start_time sec = log_time (hd es) \<and> end_time sec = log_time (last es) \<and>
        end_idx sec = of_nat (A + hsz gran + (length es - 1) * isz gran))"

lemma sec_info_blank: "sec_info gran A S Blank sec \<Longrightarrow> cur_ok gran A S [] sec"
  by (simp add: sec_info_def cur_ok_def)

lemma sector_hdr:
  assumes "sector_ok gran A b X" "gran \<in> grans"
  shows "hsz gran \<le> length b" "table_at gran b 0 FDB_SECTOR_STORE_STATUS_NUM (store_no (sec_store X))"
    "word_at b (SECTOR_MAGIC_OFFSET gran) SECTOR_MAGIC_WORD"
    "\<exists>t. word_at b (SECTOR_START_TIME_OFFSET gran) t \<and> (sec_logs X \<noteq> [] \<longrightarrow> t = log_time (hd (sec_logs X)))"
    "table_at gran b (SECTOR_END_STATUS_OFFSET gran 0) FDB_TSL_STATUS_NUM
       (tsl_no (case X of Closed es \<Rightarrow> FDB_TSL_WRITE | _ \<Rightarrow> FDB_TSL_UNUSED))"
    "table_at gran b (SECTOR_END_STATUS_OFFSET gran 1) FDB_TSL_STATUS_NUM (tsl_no FDB_TSL_UNUSED)"
proof -
  note o = hdr_layout[OF assms(2)]
  have h: "hdr_ok gran b (sec_store X)" using assms(1) by (cases X) (simp_all add: open_ok_def)
  then show l: "hsz gran \<le> length b" and "table_at gran b 0 FDB_SECTOR_STORE_STATUS_NUM (store_no (sec_store X))"
    "word_at b (SECTOR_MAGIC_OFFSET gran) SECTOR_MAGIC_WORD" by (simp_all add: hdr_ok_def)
  have w: "\<exists>t. word_at b (SECTOR_START_TIME_OFFSET gran) t" 
  proof -
    have "SECTOR_START_TIME_OFFSET gran + 4 \<le> length b" using o l by linarith
    then have "word_at b (SECTOR_START_TIME_OFFSET gran) (le32 (window (SECTOR_START_TIME_OFFSET gran) 4 b) 0)"
      by (simp add: word_at_def put_le32_le32)
    then show ?thesis by blast
  qed
  show "\<exists>t. word_at b (SECTOR_START_TIME_OFFSET gran) t \<and> (sec_logs X \<noteq> [] \<longrightarrow> t = log_time (hd (sec_logs X)))"
    using assms(1) w by (cases X) (auto simp: open_ok_def)
  have n: "0 < FDB_TSL_STATUS_NUM" by (simp add: FDB_TSL_STATUS_NUM_def)
  have e1: "erased b (SECTOR_END_TIME_OFFSET gran 1) (hsz gran)"
    using assms(1) o l by (cases X) (auto simp: open_ok_def elim: erased_less)
  show "table_at gran b (SECTOR_END_STATUS_OFFSET gran 1) FDB_TSL_STATUS_NUM (tsl_no FDB_TSL_UNUSED)"
    using erased_table[OF assms(2) n erased_less[OF e1]] o l by simp
  have e0: "erased b (SECTOR_END_TIME_OFFSET gran 0) (hsz gran)" if "X = Blank \<or> (\<exists>es. X = Open es)"
    using assms(1) o l that by (auto simp: open_ok_def erased_def)
  have z: "table_at gran b (SECTOR_END_STATUS_OFFSET gran 0) FDB_TSL_STATUS_NUM 0" if "X = Blank \<or> (\<exists>es. X = Open es)"
    using erased_table[OF assms(2) n erased_less[OF e0[OF that]]] o l by simp
  show "table_at gran b (SECTOR_END_STATUS_OFFSET gran 0) FDB_TSL_STATUS_NUM
       (tsl_no (case X of Closed es \<Rightarrow> FDB_TSL_WRITE | _ \<Rightarrow> FDB_TSL_UNUSED))"
    using assms(1) z by (cases X) auto
qed

lemma unat_hdr_size: "gran \<in> grans \<Longrightarrow> unat (of_nat (sizeof_sector_hdr gran) :: u32) = sizeof_sector_hdr gran"
  and unat_idx_size: "gran \<in> grans \<Longrightarrow> unat (of_nat (sizeof_log_idx gran) :: u32) = sizeof_log_idx gran"
proof -
  assume "gran \<in> grans"
  note r = raw_layout[OF this]
  show "unat (of_nat (sizeof_sector_hdr gran) :: u32) = sizeof_sector_hdr gran" "unat (of_nat (sizeof_log_idx gran) :: u32) = sizeof_log_idx gran"
    using r by (elim insertE emptyE; simp)+
qed

text \<open>Header and bounds, without the walk over the logs.\<close>

lemma read_hdr:
  assumes s: "at_sec mem blk (parent db) A S m s b" and g: "gran \<in> grans" and A: "unat addr = A" and S: "unat (db_sec_size (parent db)) = S"
    and S31: "A + S \<le> 2 ^ 31" and b: "sector_ok gran A b X"
  obtains sec' s' where "sec_info gran A S X sec'" "at_sec mem blk (parent db) A S m s' b"
    "read_sector_info gran db addr sec tr s =
      (if sec_store X = FDB_SECTOR_STORE_USING \<and> tr then measure_loop gran db (junk_tsl (empty_idx sec')) sec' s' else Some (FDB_NO_ERR, sec', s'))"
proof -
  note o = hdr_layout[OF g] and h = sector_hdr[OF b g]
  let ?n = "sizeof_sector_hdr gran"
  have lb: "length b = S" using at_secD(3)[OF s] .
  obtain t where t: "word_at b (SECTOR_START_TIME_OFFSET gran) t" "sec_logs X \<noteq> [] \<Longrightarrow> t = log_time (hd (sec_logs X))" using h(4) by blast
  obtain s' where s': "fdb_flash_read (parent db) addr (of_nat ?n) s = Some (FDB_NO_ERR, window 0 ?n b, s')" "at_sec mem blk (parent db) A S m s' b"
    using at_sec_read[OF s, of addr 0 "of_nat ?n"] A unat_hdr_size[OF g] o(9) h(1) lb by auto
  let ?h = "window 0 ?n b"
  have nb: "0 + ?n \<le> length b" using o h(1) by simp
  have w: "rd32 ?h i = Some x" if "word_at b i x" "i + 4 \<le> ?n" for i x
    using rd32_window[of b 0 i x ?n] that nb by simp
  have ta: "status_at gran ?h i k = Some x" if "table_at gran b i k x" "i + FDB_STATUS_TABLE_SIZE gran k \<le> ?n" for i k x
    using status_at_window[of gran b 0 i k x ?n] that nb by simp
  have m: "rd32 ?h (SECTOR_MAGIC_OFFSET gran) = Some SECTOR_MAGIC_WORD" by (rule w[OF h(3)]) (use o in linarith)
  have st: "status_at gran ?h 0 FDB_SECTOR_STORE_STATUS_NUM = Some (store_no (sec_store X))" by (rule ta[OF h(2)]) (use o in linarith)
  have tm: "rd32 ?h (SECTOR_START_TIME_OFFSET gran) = Some t" by (rule w[OF t(1)]) (use o in linarith)
  let ?s0 = "case X of Closed es \<Rightarrow> FDB_TSL_WRITE | _ \<Rightarrow> FDB_TSL_UNUSED"
  have e0: "status_at gran ?h (SECTOR_END_STATUS_OFFSET gran 0) FDB_TSL_STATUS_NUM = Some (tsl_no ?s0)" by (rule ta[OF h(5)]) (use o in linarith)
  have e1: "status_at gran ?h (SECTOR_END_STATUS_OFFSET gran 1) FDB_TSL_STATUS_NUM = Some (tsl_no FDB_TSL_UNUSED)" by (rule ta[OF h(6)]) (use o in linarith)
  define sec0 where "sec0 = sec\<lparr>sec_addr := addr, sec_magic := SECTOR_MAGIC_WORD, sec_check_ok := True, sec_status := sec_store X, start_time := t,
         end_info_stat0 := ?s0, end_info_stat1 := FDB_TSL_UNUSED\<rparr>"
  have ei: "\<exists>sec1. read_end_info gran ?h sec0 = Some sec1 \<and> sec_check_ok sec1 \<and> sec_status sec1 = sec_store X \<and> sec_addr sec1 = addr \<and> start_time sec1 = t \<and>
    end_info_stat0 sec1 = ?s0 \<and> end_info_stat1 sec1 = FDB_TSL_UNUSED \<and> (\<forall>es. X = Closed es \<longrightarrow>
      end_time sec1 = log_time (last es) \<and> end_idx sec1 = of_nat (A + hsz gran + (length es - 1) * isz gran))"
  proof (cases X)
    case (Closed es)
    have "rd32 ?h (SECTOR_END_TIME_OFFSET gran 0) = Some (log_time (last es))"
      "rd32 ?h (SECTOR_END_IDX_OFFSET gran 0) = Some (of_nat (A + hsz gran + (length es - 1) * isz gran))"
      by (rule w, use b Closed in simp, use o in linarith)+
    then show ?thesis using Closed by (simp add: read_end_info_def sec0_def)
  qed (simp_all add: read_end_info_def sec0_def)
  then obtain sec1 where sec1: "read_end_info gran ?h sec0 = Some sec1" "sec_check_ok sec1" "sec_status sec1 = sec_store X" "sec_addr sec1 = addr"
    "start_time sec1 = t" "end_info_stat0 sec1 = ?s0" "end_info_stat1 sec1 = FDB_TSL_UNUSED" "\<And>es. X = Closed es \<Longrightarrow>
      end_time sec1 = log_time (last es) \<and> end_idx sec1 = of_nat (A + hsz gran + (length es - 1) * isz gran)" by blast
  let ?f = "addr + SECTOR_HDR_DATA_SIZE gran" and ?l = "addr + db_sec_size (parent db)"
  define sec' where "sec' = sec1\<lparr>empty_idx := ?f, empty_data := ?l, remain := ?l - ?f\<rparr>"
  have hS: "hsz gran \<le> S" using h(1) lb by simp
  have f: "unat ?f = A + hsz gran" using unat_add_small[of addr "SECTOR_HDR_DATA_SIZE gran"] A hS S31 by (simp add: hsz_def)
  have l: "unat ?l = A + S" using unat_add_small[of addr "db_sec_size (parent db)"] A S S31 by simp
  have "?f \<le> ?l" using f l hS by (simp only: word_le_nat_alt)
  then have r: "unat (?l - ?f) = S - hsz gran" using f l by (simp only: unat_sub)
  have "sec_info gran A S X sec'" unfolding sec_info_def sec'_def
    using sec1(2-8) A f l r t(2) by simp
  moreover have "read_sector_info gran db addr sec tr s =
      (if sec_store X = FDB_SECTOR_STORE_USING \<and> tr then measure_loop gran db (junk_tsl (empty_idx sec')) sec' s' else Some (FDB_NO_ERR, sec', s'))"
    unfolding read_sector_info_def Let_def
    by (simp only: s'(1) m st tm e0 e1 tsl_of_no store_of_no sec0_def[symmetric] sec1(1,3,4) bind.bind_lunit prod.case
        tsdb_sec_info.simps not_True_eq_False simp_thms if_False) (simp add: sec'_def sec1(3))
  ultimately show ?thesis using that s'(2) by blast
qed


section \<open>Logs\<close>

definition tsl_rec :: "u32 \<Rightarrow> nat \<Rightarrow> nat \<Rightarrow> log \<Rightarrow> fdb_tsl" where
  "tsl_rec index A p e = \<lparr>tsl_status = log_status e, tsl_time = log_time e, tsl_len = of_nat (length (log_data e)),
     tsl_index = index, tsl_log = of_nat (A + p)\<rparr>"

lemma read_tsl_log:
  assumes s: "at_sec mem blk (parent db) A S m s b" and g: "gran \<in> grans" and e: "log_at gran A b i p e"
    and i: "unat (tsl_index tsl) = A + i" "i + isz gran \<le> S"
  shows "\<exists>s'. read_tsl gran db tsl s = Some (tsl_rec (tsl_index tsl) A p e, s') \<and> at_sec mem blk (parent db) A S m s' b"
proof -
  let ?n = "sizeof_log_idx gran" and ?T = "LOG_IDX_TS_OFFSET gran"
  have o: "?n \<le> isz gran" "?n = ?T + 12" "FDB_STATUS_TABLE_SIZE gran FDB_TSL_STATUS_NUM \<le> ?n"
    using isz_eq[OF g] pad_ge[OF g, of ?n] g by (auto simp: grans_def ts_layout_defs)
  have lb: "length b = S" using at_secD(3)[OF s] .
  obtain s' where s': "fdb_flash_read (parent db) (tsl_index tsl) (of_nat ?n) s = Some (FDB_NO_ERR, window i ?n b, s')" "at_sec mem blk (parent db) A S m s' b"
    using at_sec_read[OF s i(1), of "of_nat ?n"] i(2) unat_idx_size[OF g] o(1) by auto
  let ?h = "window i ?n b"
  have nb: "i + ?n \<le> length b" using o i(2) lb by simp
  have w: "rd32 ?h j = Some x" if "word_at b (i + j) x" "j + 4 \<le> ?n" for j x using rd32_window[OF that nb] .
  note a = e[unfolded log_at_def]
  have st: "status_at gran ?h 0 FDB_TSL_STATUS_NUM = Some (tsl_no (log_status e))"
    by (rule status_at_window[OF _ _ nb]) (use a o in simp_all)
  have "rd32 ?h ?T = Some (log_time e)" "rd32 ?h (?T + 4) = Some (of_nat (length (log_data e)))" "rd32 ?h (?T + 8) = Some (of_nat (A + p))"
    using a o(2) w[of ?T] w[of "?T + 4"] w[of "?T + 8"] by (simp_all add: add.assoc)
  then show ?thesis using s' st a by (auto simp: read_tsl_def tsl_rec_def)
qed

lemma read_tsl_free:
  assumes s: "at_sec mem blk (parent db) A S m s b" and g: "gran \<in> grans"
    and e: "erased b i (i + FDB_STATUS_TABLE_SIZE gran FDB_TSL_STATUS_NUM)"
    and i: "unat (tsl_index tsl) = A + i" "i + sizeof_log_idx gran \<le> S"
  shows "\<exists>tsl' s'. read_tsl gran db tsl s = Some (tsl', s') \<and> tsl_status tsl' = FDB_TSL_UNUSED \<and> at_sec mem blk (parent db) A S m s' b"
proof -
  let ?n = "sizeof_log_idx gran"
  have o: "FDB_STATUS_TABLE_SIZE gran FDB_TSL_STATUS_NUM \<le> ?n" using g by (auto simp: grans_def ts_layout_defs)
  have lb: "length b = S" using at_secD(3)[OF s] .
  obtain s' where s': "fdb_flash_read (parent db) (tsl_index tsl) (of_nat ?n) s = Some (FDB_NO_ERR, window i ?n b, s')" "at_sec mem blk (parent db) A S m s' b"
    using at_sec_read[OF s i(1), of "of_nat ?n"] i(2) unat_idx_size[OF g] by auto
  have nb: "i + ?n \<le> length b" using i(2) lb by simp
  have "table_at gran b (i + 0) FDB_TSL_STATUS_NUM 0"
    using erased_table[OF g _ e] o nb by (simp add: FDB_TSL_STATUS_NUM_def)
  from status_at_window[OF this _ nb] o have "status_at gran (window i ?n b) 0 FDB_TSL_STATUS_NUM = Some 0" by simp
  then show ?thesis using s' by (simp add: read_tsl_def tsl_of_def)
qed

text \<open>What is left of a sector has room for a status and lies in the sector with its index, or there is nothing left.\<close>

definition slot_ok :: "nat \<Rightarrow> nat \<Rightarrow> nat \<Rightarrow> nat \<Rightarrow> bool" where
  "slot_ok gran S i p \<longleftrightarrow> i = p \<or> i + FDB_STATUS_TABLE_SIZE gran FDB_TSL_STATUS_NUM \<le> p \<and> i + sizeof_log_idx gran \<le> S"

lemma measure_ok:
  assumes g: "gran \<in> grans" and S31: "A + S \<le> 2 ^ 31" and s: "at_sec mem blk (parent db) A S m s b"
    and l: "logs_at gran A b i p es" "i + length es * isz gran + used gran es \<le> p" "p \<le> S"
    and f: "erased b (i + length es * isz gran) (p - used gran es)" "slot_ok gran S (i + length es * isz gran) (p - used gran es)"
      "es = [] \<Longrightarrow> i \<noteq> p"
    and sec: "unat (empty_idx sec) = A + i" "unat (empty_data sec) = A + p" "unat (remain sec) = p - i" "tsl_index tsl = empty_idx sec"
  shows "\<exists>e sec' s'. measure_loop gran db tsl sec s = Some (e, sec', s') \<and> at_sec mem blk (parent db) A S m s' b \<and>
    sec' = (if es = [] then sec else sec\<lparr>end_time := log_time (last es), end_idx := of_nat (A + i + (length es - 1) * isz gran),
      empty_idx := of_nat (A + i + length es * isz gran), empty_data := of_nat (A + p - used gran es),
      remain := of_nat (p - i - length es * isz gran - used gran es)\<rparr>)"
  using s l f sec
proof (induction es arbitrary: i p tsl sec s)
  case Nil
  then have "slot_ok gran S i p" "i \<noteq> p" "erased b i p" by simp_all
  then have "i + FDB_STATUS_TABLE_SIZE gran FDB_TSL_STATUS_NUM \<le> p" "i + sizeof_log_idx gran \<le> S" by (simp_all add: slot_ok_def)
  then obtain tsl' s' where "read_tsl gran db tsl s = Some (tsl', s')" "tsl_status tsl' = FDB_TSL_UNUSED" "at_sec mem blk (parent db) A S m s' b"
    using read_tsl_free[OF Nil.prems(1) g erased_less[OF \<open>erased b i p\<close>], where tsl = tsl] Nil.prems by auto
  then show ?case by (simp add: measure_loop.simps)
next
  case (Cons e es)
  let ?d = "pad gran (length (log_data e))" and ?k = "isz gran"
  have fit: "i + ?k + ?d + length es * ?k + used gran es \<le> p" using Cons.prems(3) by simp
  have e: "log_at gran A b i (p - ?d) e" using Cons.prems(2) by simp
  obtain s1 where s1: "read_tsl gran db tsl s = Some (tsl_rec (tsl_index tsl) A (p - ?d) e, s1)" "at_sec mem blk (parent db) A S m s1 b"
    using read_tsl_log[OF Cons.prems(1) g e, of tsl] Cons.prems(4,8,11) fit by auto
  have used: "log_status e \<noteq> FDB_TSL_UNUSED" using e by (auto simp: log_at_def)
  have dl: "unat (of_nat (length (log_data e)) :: u32) = length (log_data e)" "length (log_data e) \<le> 2 ^ 31"
    using pad_ge[OF g, of "length (log_data e)"] fit Cons.prems(4) S31 by (simp_all add: unat_of_nat_lt)
  have w: "unat (FDB_WG_ALIGN gran (of_nat (length (log_data e)))) = ?d" using unat_wg_align[OF g, of "of_nat (length (log_data e))"] dl by simp
  let ?W = "FDB_WG_ALIGN gran (of_nat (length (log_data e)))" and ?L = "LOG_IDX_DATA_SIZE gran"
  have L: "unat ?L = ?k" by (simp add: isz_def)
  have ei: "unat (empty_idx sec + ?L) = A + (i + ?k)" using unat_add_small[of "empty_idx sec" ?L] L Cons.prems(4,8) S31 fit by simp
  have ed: "unat (empty_data sec - ?W) = A + (p - ?d)" using w Cons.prems(9) fit by (simp add: unat_sub word_le_nat_alt)
  have nd: "unat (?L + ?W) = ?k + ?d" using unat_add_small[of ?L ?W] L w Cons.prems(4) S31 fit by simp
  define sec1 where "sec1 = sec\<lparr>end_time := log_time e, end_idx := tsl_index tsl, empty_idx := empty_idx sec + ?L, empty_data := empty_data sec - ?W\<rparr>"
  have idx: "tsl_index tsl = of_nat (A + i)" "empty_idx sec + ?L = of_nat (A + (i + ?k))" "empty_data sec - ?W = of_nat (A + (p - ?d))"
    using Cons.prems(11) by (simp_all flip: Cons.prems(8) ei ed)
  show ?case
  proof (cases "p - i = ?k + ?d")
    case True
    have z: "es = []"
    proof -
      have "0 < ?k" using layout_values[OF g] by auto
      then show ?thesis using True fit by (cases es) auto
    qed
    have "measure_loop gran db tsl sec s = Some (FDB_READ_ERR, sec1\<lparr>remain := 0\<rparr>, s1)"
      using s1(1) used True Cons.prems(10) nd by (subst measure_loop.simps) (simp add: tsl_rec_def Let_def sec1_def word_less_nat_alt)
    moreover have "A + p - ?d = A + (p - ?d)" "p - i - ?k - ?d = 0" using fit True by simp_all
    ultimately show ?thesis
      using z s1(2) by (intro exI conjI) (assumption, assumption, simp add: sec1_def idx add.assoc)
  next
    case False
    let ?sec2 = "sec1\<lparr>remain := remain sec1 - (?L + ?W)\<rparr>" and ?tsl2 = "(tsl_rec (tsl_index tsl) A (p - ?d) e)\<lparr>tsl_index := tsl_index tsl + ?L\<rparr>"
    have r: "remain sec1 = remain sec" by (simp add: sec1_def)
    have gt: "?L + ?W < remain sec" using False Cons.prems(10) nd fit by (simp add: word_less_nat_alt)
    have rm: "unat (remain sec1 - (?L + ?W)) = (p - ?d) - (i + ?k)"
      using gt r nd Cons.prems(10) by (simp add: unat_sub word_le_nat_alt word_less_nat_alt)
    have step: "measure_loop gran db tsl sec s = measure_loop gran db ?tsl2 ?sec2 s1"
      using s1(1) used gt by (subst measure_loop.simps) (simp add: tsl_rec_def Let_def sec1_def)
    have "\<exists>e' sec' s'. measure_loop gran db ?tsl2 ?sec2 s1 = Some (e', sec', s') \<and> at_sec mem blk (parent db) A S m s' b \<and>
      sec' = (if es = [] then ?sec2 else ?sec2\<lparr>end_time := log_time (last es), end_idx := of_nat (A + (i + ?k) + (length es - 1) * ?k),
        empty_idx := of_nat (A + (i + ?k) + length es * ?k), empty_data := of_nat (A + (p - ?d) - used gran es),
        remain := of_nat ((p - ?d) - (i + ?k) - length es * ?k - used gran es)\<rparr>)"
    proof (rule Cons.IH)
      show "logs_at gran A b (i + ?k) (p - ?d) es" using Cons.prems(2) by simp
      show "i + ?k + length es * ?k + used gran es \<le> p - ?d" "p - ?d \<le> S" using fit Cons.prems(4) by simp_all
      show "erased b (i + ?k + length es * ?k) (p - ?d - used gran es)" "slot_ok gran S (i + ?k + length es * ?k) (p - ?d - used gran es)"
        using Cons.prems(5,6) by (simp_all add: add.assoc)
      show "es = [] \<Longrightarrow> i + ?k \<noteq> p - ?d" using False fit by auto
      show "unat (empty_idx ?sec2) = A + (i + ?k)" "unat (empty_data ?sec2) = A + (p - ?d)" "unat (remain ?sec2) = (p - ?d) - (i + ?k)"
        "tsl_index ?tsl2 = empty_idx ?sec2" using ei ed rm Cons.prems(11) by (simp_all add: sec1_def)
    qed (rule s1(2))
    then obtain e' sec' s' where fin: "measure_loop gran db ?tsl2 ?sec2 s1 = Some (e', sec', s')" "at_sec mem blk (parent db) A S m s' b"
      "sec' = (if es = [] then ?sec2 else ?sec2\<lparr>end_time := log_time (last es), end_idx := of_nat (A + (i + ?k) + (length es - 1) * ?k),
        empty_idx := of_nat (A + (i + ?k) + length es * ?k), empty_data := of_nat (A + (p - ?d) - used gran es),
        remain := of_nat ((p - ?d) - (i + ?k) - length es * ?k - used gran es)\<rparr>)" by (elim exE conjE)
    have rw: "remain sec1 - (?L + ?W) = of_nat (p - ?d - (i + ?k))" unfolding rm[symmetric] by simp
    have "sec' = sec\<lparr>end_time := log_time (last (e # es)), end_idx := of_nat (A + i + (length (e # es) - 1) * ?k),
      empty_idx := of_nat (A + i + length (e # es) * ?k), empty_data := of_nat (A + p - used gran (e # es)),
      remain := of_nat (p - i - length (e # es) * ?k - used gran (e # es))\<rparr>"
    proof (cases es)
      case Nil
      have "A + p - ?d = A + (p - ?d)" "p - i - ?k - ?d = p - ?d - (i + ?k)" using fit by simp_all
      then show ?thesis unfolding fin(3) using Nil rw by (simp add: sec1_def idx add.assoc)
    next
      case (Cons f fs)
      then have ne: "es \<noteq> []" by simp
      have eqs: "A + p - used gran (e # es) = A + (p - ?d) - used gran es"
        "p - i - length (e # es) * ?k - used gran (e # es) = p - ?d - (i + ?k) - length es * ?k - used gran es"
        "A + i + length (e # es) * ?k = A + (i + ?k) + length es * ?k" using fit by simp_all
      have eq: "A + i + (length (e # es) - 1) * ?k = A + (i + ?k) + (length es - 1) * ?k" using ne by (cases es) simp_all
      show ?thesis unfolding fin(3) eqs eq using ne by (simp add: sec1_def del: of_nat_add of_nat_mult of_nat_diff)
    qed
    then show ?thesis using fin(1,2) step by auto
  qed
qed


text \<open>A blank sector and the sector in use, with the walk over the logs.\<close>

lemma read_cur:
  assumes s: "at_sec mem blk (parent db) A S m s b" and g: "gran \<in> grans" and A: "unat addr = A" and S: "unat (db_sec_size (parent db)) = S"
    and S31: "A + S \<le> 2 ^ 31" and b: "sector_ok gran A b (Open es)"
    and slot: "slot_ok gran S (hsz gran + length es * isz gran) (S - used gran es)"
  obtains e sec' s' where "cur_ok gran A S es sec'" "at_sec mem blk (parent db) A S m s' b"
    "read_sector_info gran db addr sec True s = Some (e, sec', s')"
proof -
  note o = hdr_layout[OF g]
  have lb: "length b = S" using at_secD(3)[OF s] .
  obtain sec1 s1 where 1: "sec_info gran A S (Open es) sec1" "at_sec mem blk (parent db) A S m s1 b"
    "read_sector_info gran db addr sec True s = measure_loop gran db (junk_tsl (empty_idx sec1)) sec1 s1"
    by (rule read_hdr[OF s g A S S31 b, of sec True]) simp
  note i = 1(1)[unfolded sec_info_def, simplified]
  have es: "es \<noteq> []" and bo: "logs_at gran A b (hsz gran) S es" "hsz gran + length es * isz gran + used gran es \<le> S"
    and er: "erased b (hsz gran + length es * isz gran) (S - used gran es)" using b lb by (simp_all add: open_ok_def body_ok_def)
  have "\<exists>e sec' s'. measure_loop gran db (junk_tsl (empty_idx sec1)) sec1 s1 = Some (e, sec', s') \<and> at_sec mem blk (parent db) A S m s' b \<and>
    sec' = (if es = [] then sec1 else sec1\<lparr>end_time := log_time (last es), end_idx := of_nat (A + hsz gran + (length es - 1) * isz gran),
      empty_idx := of_nat (A + hsz gran + length es * isz gran), empty_data := of_nat (A + S - used gran es),
      remain := of_nat (S - hsz gran - length es * isz gran - used gran es)\<rparr>)"
    by (rule measure_ok[OF g S31 1(2) bo(1,2) order_refl er slot]) (use es i in \<open>simp_all add: junk_tsl_def\<close>)
  then obtain e sec' s' where 2: "measure_loop gran db (junk_tsl (empty_idx sec1)) sec1 s1 = Some (e, sec', s')" "at_sec mem blk (parent db) A S m s' b"
    "sec' = (if es = [] then sec1 else sec1\<lparr>end_time := log_time (last es), end_idx := of_nat (A + hsz gran + (length es - 1) * isz gran),
      empty_idx := of_nat (A + hsz gran + length es * isz gran), empty_data := of_nat (A + S - used gran es),
      remain := of_nat (S - hsz gran - length es * isz gran - used gran es)\<rparr>)" by (elim exE conjE)
  have "unat (of_nat n :: u32) = n" if "n \<le> A + S" for n using that S31 by (simp add: unat_of_nat_lt)
  then have "cur_ok gran A S es sec'" unfolding 2(3) cur_ok_def using es i bo(2)
    by (simp add: diff_diff_left del: of_nat_add of_nat_mult of_nat_diff)
  then show ?thesis using that 1(3) 2(1,2) by simp
qed

section \<open>Iteration\<close>

text \<open>The records a walk over a sector hands to its callback; a callback that only reads computes \<open>f\<close>.\<close>

fun tsl_recs :: "nat \<Rightarrow> nat \<Rightarrow> nat \<Rightarrow> nat \<Rightarrow> log list \<Rightarrow> fdb_tsl list" where
  "tsl_recs gran A i p [] = []"
| "tsl_recs gran A i p (e # es) = (let q = p - pad gran (length (log_data e)) in
     tsl_rec (of_nat (A + i)) A q e # tsl_recs gran A (i + isz gran) q es)"

definition cb_reads :: "('d \<Rightarrow> u8 list) \<Rightarrow> nat \<Rightarrow> fdb_db \<Rightarrow> u8 list \<Rightarrow> ('c, 'd) tsl_cb \<Rightarrow> (fdb_tsl \<Rightarrow> 'c \<Rightarrow> bool \<times> 'c) \<Rightarrow> fdb_tsl \<Rightarrow> bool" where
  "cb_reads mem blk db m cb f tsl \<longleftrightarrow> (\<forall>c s. db_calm mem blk db s \<longrightarrow> db_content mem db s = m \<longrightarrow>
     (\<exists>s'. cb tsl c s = Some (fst (f tsl c), snd (f tsl c), s') \<and> db_calm mem blk db s' \<and> db_content mem db s' = m))"

fun feed :: "('x \<Rightarrow> 'c \<Rightarrow> bool \<times> 'c) \<Rightarrow> 'x list \<Rightarrow> 'c \<Rightarrow> bool \<times> 'c" where
  "feed f [] c = (False, c)"
| "feed f (x # xs) c = (case f x c of (stop, c) \<Rightarrow> if stop then (True, c) else feed f xs c)"

lemma feed_append: "feed f (xs @ ys) c = (case feed f xs c of (stop, c) \<Rightarrow> if stop then (True, c) else feed f ys c)"
  by (induction xs arbitrary: c) (auto split: prod.splits)

lemma at_sec_cb:
  assumes "at_sec mem blk db A S m s b" "cb_reads mem blk db (blit m A b) cb f tsl"
  obtains s' where "cb tsl c s = Some (fst (f tsl c), snd (f tsl c), s')" "at_sec mem blk db A S m s' b"
  using assms unfolding at_sec_def cb_reads_def by (metis (no_types, lifting))

lemma iter_tsl_ok:
  assumes g: "gran \<in> grans" and S31: "A + S \<le> 2 ^ 31" and s: "at_sec mem blk (parent db) A S m s b"
    and l: "logs_at gran A b i p es" "i + length es * isz gran \<le> S" "es \<noteq> []"
    and sec: "sec_status sector \<noteq> FDB_SECTOR_STORE_EMPTY" "end_idx sector = of_nat (A + i + (length es - 1) * isz gran)"
    and tsl: "tsl_index tsl = of_nat (A + i)"
    and cb: "\<And>r. r \<in> set (tsl_recs gran A i p es) \<Longrightarrow> cb_reads mem blk (parent db) (blit m A b) cb f r"
  shows "\<exists>s'. iter_tsl_loop gran db cb sector tsl c s =
      Some (fst (feed f (tsl_recs gran A i p es) c), snd (feed f (tsl_recs gran A i p es) c), s') \<and> at_sec mem blk (parent db) A S m s' b"
  using s l sec tsl cb
proof (induction es arbitrary: i p tsl c s)
  case (Cons e es)
  let ?q = "p - pad gran (length (log_data e))" and ?k = "isz gran"
  let ?r = "tsl_rec (tsl_index tsl) A ?q e"
  have fit: "i + ?k + length es * ?k \<le> S" using Cons.prems(3) by simp
  have recs: "tsl_recs gran A i p (e # es) = ?r # tsl_recs gran A (i + ?k) ?q es"
    unfolding Cons.prems(7) by (simp add: Let_def del: of_nat_add)
  have ui: "unat (tsl_index tsl) = A + i" unfolding Cons.prems(7) using fit S31 by (simp add: unat_of_nat_lt flip: of_nat_add)
  obtain s1 where s1: "read_tsl gran db tsl s = Some (?r, s1)" "at_sec mem blk (parent db) A S m s1 b"
    using read_tsl_log[OF Cons.prems(1) g _ ui, of ?q e] Cons.prems(2) fit by auto
  have cb1: "cb_reads mem blk (parent db) (blit m A b) cb f ?r" by (rule Cons.prems(8)) (simp only: recs list.set insert_iff simp_thms)
  obtain s2 where s2: "cb ?r c s1 = Some (fst (f ?r c), snd (f ?r c), s2)" "at_sec mem blk (parent db) A S m s2 b"
    by (rule at_sec_cb[OF s1(2) cb1])
  have L: "unat (LOG_IDX_DATA_SIZE gran) = ?k" by (simp add: isz_def)
  have nx: "unat (tsl_index tsl + LOG_IDX_DATA_SIZE gran) = A + (i + ?k)"
    using unat_add_small[of "tsl_index tsl" "LOG_IDX_DATA_SIZE gran"] ui L fit S31 by simp
  have ue: "unat (end_idx sector) = A + i + length es * ?k"
    unfolding Cons.prems(6) using fit S31 by (simp add: unat_of_nat_lt flip: of_nat_add of_nat_mult)
  have k0: "0 < ?k" using layout_values[OF g] by auto
  have next_addr: "get_next_tsl_addr gran sector ?r = (if es = [] then FAILED_ADDR else tsl_index tsl + LOG_IDX_DATA_SIZE gran)"
  proof -
    have "tsl_index tsl + LOG_IDX_DATA_SIZE gran \<le> end_idx sector \<longleftrightarrow> es \<noteq> []"
      unfolding word_le_nat_alt nx ue using k0 by (cases es) auto
    then show ?thesis using Cons.prems(5) by (simp add: get_next_tsl_addr_def tsl_rec_def)
  qed
  obtain stop c' where f: "f ?r c = (stop, c')" by (cases "f ?r c")
  show ?case
  proof (cases "stop \<or> es = []")
    case True
    have "iter_tsl_loop gran db cb sector tsl c s = Some (stop, c', s2)"
      using s1(1) s2(1) f True next_addr by (subst iter_tsl_loop.simps) (auto simp: Let_def)
    moreover have "feed f (tsl_recs gran A i p (e # es)) c = (stop, c')" unfolding recs using f True by auto
    ultimately show ?thesis using s2(2) by auto
  next
    case False
    let ?tsl2 = "?r\<lparr>tsl_index := tsl_index tsl + LOG_IDX_DATA_SIZE gran\<rparr>"
    have "tsl_index tsl + LOG_IDX_DATA_SIZE gran \<noteq> FAILED_ADDR" using nx fit S31 by (auto simp: FAILED_ADDR_def)
    then have step: "iter_tsl_loop gran db cb sector tsl c s = iter_tsl_loop gran db cb sector ?tsl2 c' s2"
      using s1(1) s2(1) f False next_addr by (subst iter_tsl_loop.simps) (simp add: Let_def)
    have "\<exists>s'. iter_tsl_loop gran db cb sector ?tsl2 c' s2 = Some (fst (feed f (tsl_recs gran A (i + ?k) ?q es) c'),
        snd (feed f (tsl_recs gran A (i + ?k) ?q es) c'), s') \<and> at_sec mem blk (parent db) A S m s' b"
    proof (rule Cons.IH[OF s2(2)])
      show "logs_at gran A b (i + ?k) ?q es" using Cons.prems(2) by simp
      show "end_idx sector = of_nat (A + (i + ?k) + (length es - 1) * ?k)" using Cons.prems(6) False by (cases es) (simp_all add: algebra_simps)
      show "tsl_index ?tsl2 = of_nat (A + (i + ?k))" by (simp flip: nx)
      show "cb_reads mem blk (parent db) (blit m A b) cb f r" if "r \<in> set (tsl_recs gran A (i + ?k) ?q es)" for r
        by (rule Cons.prems(8)) (use that in \<open>simp only: recs list.set insert_iff simp_thms\<close>)
    qed (use fit False Cons.prems(5) in simp_all)
    moreover have "feed f (tsl_recs gran A i p (e # es)) c = feed f (tsl_recs gran A (i + ?k) ?q es) c'" unfolding recs using f False by simp
    ultimately show ?thesis using step by simp
  qed
qed simp

end
