(* ===== verification/Tsdb_Rep.thy ===== *)
theory Tsdb_Rep
  imports Tsdb_Read
begin

text \<open>
  The abstraction of a time series database: the sectors, from the oldest one on, hold
  lists of logs, of which only the last list grows. A push drops the oldest list when there is no
  blank sector left. The predicate \<open>ts_rep\<close> says that flash and RAM stand for such lists.
\<close>

section \<open>Lists of logs\<close>

definition ts_fits :: "nat \<Rightarrow> nat \<Rightarrow> log list \<Rightarrow> log \<Rightarrow> bool" where
  "ts_fits gran S es e \<longleftrightarrow> hsz gran + (length es + 1) * isz gran + used gran es + pad gran (length (log_data e)) \<le> S"

definition ts_next :: "nat \<Rightarrow> log list list \<Rightarrow> log list list" where
  "ts_next N ess = (if length ess < N then ess else tl ess) @ [[]]"

definition ts_push :: "nat \<Rightarrow> nat \<Rightarrow> nat \<Rightarrow> log list list \<Rightarrow> log \<Rightarrow> log list list" where
  "ts_push gran S N ess e =
     (let ess = (if last ess = [] \<or> ts_fits gran S (last ess) e then ess else ts_next N ess)
      in butlast ess @ [last ess @ [e]])"

text \<open>The state of the sector at the place \<open>j\<close> from the oldest one.\<close>

definition sec_of :: "log list list \<Rightarrow> nat \<Rightarrow> ts_sector" where
  "sec_of ess j = (if j + 1 < length ess then Closed (ess ! j)
     else if j + 1 = length ess \<and> ess ! j \<noteq> [] then Open (ess ! j) else Blank)"

lemma sec_of_last: "ess \<noteq> [] \<Longrightarrow> sec_of ess (length ess - 1) = (if last ess = [] then Blank else Open (last ess))"
  by (simp add: sec_of_def last_conv_nth)

lemma sec_of_butlast:
  "es \<noteq> [] \<Longrightarrow> ess \<noteq> [] \<Longrightarrow> sec_of (butlast ess @ [es]) = (sec_of ess)(length ess - 1 := Open es)"
  by (rule ext) (auto simp: sec_of_def nth_append nth_butlast)

lemma sec_of_snoc:
  "ess \<noteq> [] \<Longrightarrow> sec_of (ess @ [[]]) = (sec_of ess)(length ess - 1 := Closed (last ess))"
  by (rule ext) (auto simp: sec_of_def nth_append last_conv_nth less_Suc_eq)

section \<open>Sectors in flash\<close>

definition pos :: "nat \<Rightarrow> nat \<Rightarrow> nat \<Rightarrow> nat" where "pos N orig j = (orig + j) mod N"

definition disk_ok :: "nat \<Rightarrow> nat \<Rightarrow> nat \<Rightarrow> nat \<Rightarrow> (nat \<Rightarrow> ts_sector) \<Rightarrow> u8 list \<Rightarrow> bool" where
  "disk_ok gran S N orig f m \<longleftrightarrow> N * S \<le> length m \<and>
     (\<forall>j<N. sector_ok gran (pos N orig j * S) (window (pos N orig j * S) S m) (f j))"

lemma pos_less: "0 < N \<Longrightarrow> pos N orig j < N"
  by (simp add: pos_def)

lemma pos_inj:
  assumes "pos N orig i = pos N orig j" "i < N" "j < N"
  shows "i = j"
proof -
  have *: "b = a" if "a \<le> b" "pos N orig a = pos N orig b" "b < N" for a b
  proof -
    have "N dvd (orig + b) - (orig + a)" by (rule mod_eq_dvd_iff_nat[THEN iffD1]) (use that in \<open>simp_all add: pos_def\<close>)
    then have "N dvd b - a" by simp
    moreover have "b - a < N" using that(3) by simp
    ultimately have "b - a = 0" using dvd_imp_le by (metis neq0_conv not_le)
    then show ?thesis using that(1) by simp
  qed
  show ?thesis
  proof (cases "i \<le> j")
    case True then show ?thesis by (rule *[OF _ assms(1,3), symmetric])
  next
    case False then show ?thesis by (intro *[OF _ assms(1)[symmetric] assms(2)]) simp
  qed
qed

lemma sector_inside: "k < N \<Longrightarrow> k * S + S \<le> N * (S :: nat)"
  by (metis Suc_leI add.commute mult.commute mult_Suc_right mult_le_mono2)

lemma sectors_apart: "i \<noteq> k \<Longrightarrow> i * S + S \<le> k * S \<or> k * S + S \<le> i * (S :: nat)"
  by (metis linorder_neqE_nat sector_inside mult.commute)

lemma disk_upd:
  assumes "disk_ok gran S N orig f m" "j < N" "sector_ok gran (pos N orig j * S) b X" "length b = S"
  shows "disk_ok gran S N orig (f(j := X)) (blit m (pos N orig j * S) b)"
proof -
  let ?A = "pos N orig j * S"
  have N: "0 < N" using assms(2) by simp
  have len: "?A + length b \<le> length m"
    using sector_inside[OF pos_less[OF N], of orig j S] assms(1,4) by (simp add: disk_ok_def)
  have "sector_ok gran (pos N orig i * S) (window (pos N orig i * S) S (blit m ?A b)) ((f(j := X)) i)" if i: "i < N" for i
  proof (cases "i = j")
    case True
    have "window ?A S (blit m ?A b) = b" using window_blit_same[OF len, of 0 S] assms(4) by (simp add: window_def)
    then show ?thesis using True assms(3) by simp
  next
    case False
    have "pos N orig i \<noteq> pos N orig j" using pos_inj i assms(2) False by blast
    then have "window (pos N orig i * S) S (blit m ?A b) = window (pos N orig i * S) S m"
      by (intro window_blit_other[OF len])
        (use sectors_apart[of "pos N orig i" "pos N orig j" S] sector_inside[OF pos_less[OF N], of orig i S] assms(1,4) in \<open>auto simp: disk_ok_def\<close>)
    then show ?thesis using assms(1) i False by (simp add: disk_ok_def)
  qed
  then show ?thesis using assms(1) len by (simp add: disk_ok_def)
qed

lemma disk_turn:
  assumes "disk_ok gran S N orig f m"
  shows "disk_ok gran S N ((orig + 1) mod N) (\<lambda>j. f ((j + 1) mod N)) m"
proof -
  have "pos N ((orig + 1) mod N) j = pos N orig ((j + 1) mod N)" for j
    by (simp add: pos_def mod_simps ac_simps)
  then show ?thesis using assms by (simp add: disk_ok_def)
qed

section \<open>The representation\<close>

abbreviation ts_S :: "fdb_tsdb \<Rightarrow> nat" where "ts_S db \<equiv> unat (db_sec_size (parent db))"
definition ts_N :: "fdb_tsdb \<Rightarrow> nat" where "ts_N db = unat (db_max_size (parent db)) div ts_S db"

definition ts_shape :: "nat \<Rightarrow> nat \<Rightarrow> log list list \<Rightarrow> bool" where
  "ts_shape N orig ess \<longleftrightarrow> orig < N \<and> ess \<noteq> [] \<and> length ess \<le> N \<and> (length ess < N \<longrightarrow> orig = 0)"

definition ts_mem :: "nat \<Rightarrow> nat \<Rightarrow> nat \<Rightarrow> nat \<Rightarrow> log list list \<Rightarrow> fdb_tsdb \<Rightarrow> bool" where
  "ts_mem gran S N orig ess db \<longleftrightarrow> unat (oldest_addr db) = orig * S \<and>
     cur_ok gran (pos N orig (length ess - 1) * S) S (last ess) (cur_sec db) \<and>
     (concat ess \<noteq> [] \<longrightarrow> last_time db = log_time (last (concat ess)))"

definition ts_rep :: "('d \<Rightarrow> u8 list) \<Rightarrow> nat \<Rightarrow> nat \<Rightarrow> nat \<Rightarrow> log list list \<Rightarrow> fdb_tsdb \<Rightarrow> 'd fal \<Rightarrow> bool" where
  "ts_rep mem blk gran orig ess db s \<longleftrightarrow> ts_env blk gran db \<and> db_calm mem blk (parent db) s \<and> ts_shape (ts_N db) orig ess \<and>
     disk_ok gran (ts_S db) (ts_N db) orig (sec_of ess) (db_content mem (parent db) s) \<and> ts_mem gran (ts_S db) (ts_N db) orig ess db"

text \<open>The same database, but for its state.\<close>

definition same_db :: "fdb_tsdb \<Rightarrow> fdb_tsdb \<Rightarrow> bool" where
  "same_db db db' \<longleftrightarrow> parent db' = parent db \<and> max_len db' = max_len db \<and> rollover db' = rollover db"

lemma same_db_env: "same_db db db' \<Longrightarrow> ts_env blk gran db \<Longrightarrow> ts_env blk gran db'"
  by (simp add: same_db_def ts_env_def)

lemma same_db_size: "same_db db db' \<Longrightarrow> ts_S db' = ts_S db \<and> ts_N db' = ts_N db"
  by (simp add: same_db_def ts_N_def)

lemma ts_envD:
  assumes "ts_env blk gran db"
  shows "gran \<in> grans" "0 < isz gran" "blk dvd ts_S db" "ts_N db * ts_S db = unat (db_max_size (parent db))" "2 \<le> ts_N db"
    "ts_N db * ts_S db \<le> 2 ^ 31" "ts_N db * ts_S db \<le> unat (part_len (db_part (parent db)))"
    "hsz gran + isz gran + pad gran (unat (max_len db)) \<le> ts_S db" "0 < ts_S db" "hsz gran \<le> ts_S db"
proof -
  show g: "gran \<in> grans" and "blk dvd ts_S db"
    and S: "hsz gran + isz gran + pad gran (unat (max_len db)) \<le> ts_S db" using assms by (simp_all add: ts_env_def)
  show "0 < isz gran" using layout_values[OF g] by (elim insertE emptyE; simp)
  show S0: "0 < ts_S db" using S layout_values[OF g] by (elim insertE emptyE; simp)
  show N: "ts_N db * ts_S db = unat (db_max_size (parent db))" using assms by (simp add: ts_env_def ts_N_def)
  have "2 * ts_S db \<le> ts_N db * ts_S db" unfolding N using assms by (simp add: ts_env_def)
  then show "2 \<le> ts_N db" using S0 by simp
  show "ts_N db * ts_S db \<le> 2 ^ 31" "ts_N db * ts_S db \<le> unat (part_len (db_part (parent db)))" unfolding N using assms by (simp_all add: ts_env_def)
  show "hsz gran \<le> ts_S db" using S by simp
qed

lemma ts_sector:
  assumes "ts_env blk gran db" "k < ts_N db"
  shows "k * ts_S db + ts_S db \<le> 2 ^ 31" "k * ts_S db + ts_S db \<le> unat (part_len (db_part (parent db)))"
  using sector_inside[OF assms(2), of "ts_S db"] ts_envD(6,7)[OF assms(1)] by linarith+

text \<open>One sector of the database at a time.\<close>

lemma ts_focus:
  assumes env: "ts_env blk gran db" and r: "db_calm mem blk (parent db) s" and d: "disk_ok gran (ts_S db) (ts_N db) orig f (db_content mem (parent db) s)"
    and j: "j < ts_N db"
  shows "at_sec mem blk (parent db) (pos (ts_N db) orig j * ts_S db) (ts_S db) (db_content mem (parent db) s) s
      (window (pos (ts_N db) orig j * ts_S db) (ts_S db) (db_content mem (parent db) s))"
    "sector_ok gran (pos (ts_N db) orig j * ts_S db) (window (pos (ts_N db) orig j * ts_S db) (ts_S db) (db_content mem (parent db) s)) (f j)"
proof -
  have k: "pos (ts_N db) orig j < ts_N db" by (rule pos_less) (use j in simp)
  show "at_sec mem blk (parent db) (pos (ts_N db) orig j * ts_S db) (ts_S db) (db_content mem (parent db) s) s
      (window (pos (ts_N db) orig j * ts_S db) (ts_S db) (db_content mem (parent db) s))"
    by (rule at_sec_start[OF r]) (use ts_sector(2)[OF env k] length_calm[OF r] in simp)
  show "sector_ok gran (pos (ts_N db) orig j * ts_S db) (window (pos (ts_N db) orig j * ts_S db) (ts_S db) (db_content mem (parent db) s)) (f j)"
    using d j by (simp add: disk_ok_def)
qed

lemma ts_unfocus:
  assumes "disk_ok gran (ts_S db) (ts_N db) orig f m" "j < ts_N db"
    "at_sec mem blk (parent db) (pos (ts_N db) orig j * ts_S db) (ts_S db) m s b" "sector_ok gran (pos (ts_N db) orig j * ts_S db) b X"
  shows "db_calm mem blk (parent db) s" "disk_ok gran (ts_S db) (ts_N db) orig (f(j := X)) (db_content mem (parent db) s)"
  using at_secD[OF assms(3)] disk_upd[OF assms(1,2,4)] by simp_all

section \<open>Writing a log\<close>

lemma put_log:
  assumes g: "gran \<in> grans" and s: "at_sec mem blk (parent db) A S m s b" and S31: "A + S \<le> 2 ^ 31"
    and c: "cur_ok gran A S es sec" "cur_sec db = sec\<lparr>sec_status := FDB_SECTOR_STORE_USING, start_time := t0\<rparr>"
    and b: "open_ok gran A b t0 es" and t0: "t0 = log_time (hd (es @ [(FDB_TSL_WRITE, t, d)]))"
    and fit: "ts_fits gran S es (FDB_TSL_WRITE, t, d)" and d: "blob_of blob d"
  shows "\<exists>s' b'. write_tsl gran db blob t s = Some (FDB_NO_ERR, s') \<and> at_sec mem blk (parent db) A S m s' b' \<and>
    sector_ok gran A b' (Open (es @ [(FDB_TSL_WRITE, t, d)])) \<and>
    cur_ok gran A S (es @ [(FDB_TSL_WRITE, t, d)]) (cur_sec (count_tsl gran (blob_size blob) t db))"
proof -
  let ?e = "(FDB_TSL_WRITE, t, d) :: log" and ?i = "hsz gran + length es * isz gran" and ?p = "S - used gran es"
  note c' = c(1)[unfolded cur_ok_def]
  have lb: "length b = S" using at_secD(3)[OF s] .
  have f: "?i + isz gran + pad gran (length d) \<le> ?p" "used gran es \<le> S" using fit by (simp_all add: ts_fits_def)
  have i: "unat (empty_idx (cur_sec db)) = A + ?i" and p: "unat (empty_data (cur_sec db)) = A + ?p" using c' c(2) f(2) by simp_all
  have er: "erased b ?i ?p" using b lb by (simp add: open_ok_def)
  obtain s' b' where w: "write_tsl gran db blob t s = Some (FDB_NO_ERR, s')" "at_sec mem blk (parent db) A S m s' b'"
    "log_at gran A b' ?i (?p - pad gran (length d)) ?e" "same_on 0 ?i b b'" "same_on (?i + isz gran) (?p - pad gran (length d)) b b'" "same_on ?p S b b'"
    using write_tsl_ok[OF g s S31 i p f(1) _ er d, of t] by auto
  have l': "length b' = S" using at_secD(3)[OF w(2)] .
  have "open_ok gran A b' t0 (es @ [?e])"
    by (rule open_append[OF b g]) (use w lb l' f(1) in simp_all)
  then have "sector_ok gran A b' (Open (es @ [?e]))" using t0 by simp
  moreover have "cur_ok gran A S (es @ [?e]) (cur_sec (count_tsl gran (blob_size blob) t db))"
  proof -
    let ?L = "LOG_IDX_DATA_SIZE gran" and ?W = "FDB_WG_ALIGN gran (blob_size blob)"
    have L: "unat ?L = isz gran" by (simp add: isz_def)
    have bs: "unat (blob_size blob) = length d" using d by (simp add: blob_of_def)
    have "length d \<le> 2 ^ 31" using pad_ge[OF g, of "length d"] f(1) S31 by simp
    then have W: "unat ?W = pad gran (length d)" using unat_wg_align[OF g, of "blob_size blob"] bs by simp
    have LW: "unat (?L + ?W) = isz gran + pad gran (length d)" using unat_add_small[of ?L ?W] L W f(1) S31 by simp
    have rm: "unat (remain (cur_sec db)) = ?p - ?i" using c' c(2) by simp
    have "unat (empty_idx (cur_sec db) + ?L) = A + ?i + isz gran" using unat_add_small[of "empty_idx (cur_sec db)" ?L] L i f(1) S31 by simp
    moreover have "unat (empty_data (cur_sec db) - ?W) = A + ?p - pad gran (length d)" using W p f(1) by (simp add: unat_sub word_le_nat_alt)
    moreover have "unat (remain (cur_sec db) - (?L + ?W)) = ?p - ?i - (isz gran + pad gran (length d))"
      using LW rm f(1) by (simp add: unat_sub word_le_nat_alt)
    moreover have "empty_idx (cur_sec db) = of_nat (A + ?i)" unfolding i[symmetric] by simp
    ultimately show ?thesis using c' c(2) t0 f(2) unfolding cur_ok_def count_tsl_def Let_def
      by (simp add: add.assoc diff_diff_left hd_append add.commute[of "isz gran"] del: of_nat_add of_nat_mult)
  qed
  ultimately show ?thesis using w(1,2) by blast
qed

section \<open>Moving to the next sector\<close>

lemma next_sec_addr:
  assumes "ts_env blk gran db" "unat a = k * ts_S db" "k < ts_N db"
  shows "unat (if a + db_sec_size (parent db) < db_max_size (parent db) then a + db_sec_size (parent db) else 0) = (k + 1) mod ts_N db * ts_S db"
    "a + db_sec_size (parent db) < db_max_size (parent db) \<longleftrightarrow> k + 1 < ts_N db"
proof -
  let ?a = "a + db_sec_size (parent db)"
  have a: "unat ?a = (k + 1) * ts_S db"
    using unat_add_small[of a "db_sec_size (parent db)"] ts_sector(1)[OF assms(1,3)] assms(2) by simp
  have N: "unat (db_max_size (parent db)) = ts_N db * ts_S db" using ts_envD(4)[OF assms(1)] by simp
  show lt: "?a < db_max_size (parent db) \<longleftrightarrow> k + 1 < ts_N db"
    unfolding word_less_nat_alt a N using ts_envD(9)[OF assms(1)] by (simp only: mult_less_cancel2 simp_thms)
  show "unat (if ?a < db_max_size (parent db) then ?a else 0) = (k + 1) mod ts_N db * ts_S db"
  proof (cases "k + 1 < ts_N db")
    case True then show ?thesis using a lt by simp
  next
    case False
    then have "k + 1 = ts_N db" using assms(3) by simp
    then show ?thesis using lt by simp
  qed
qed

lemma pos_Suc: "pos N orig (j + 1) = (pos N orig j + 1) mod N"
  by (simp add: pos_def mod_simps)

lemma enter_blank:
  assumes env: "ts_env blk gran db" and r: "db_calm mem blk (parent db) s" and d: "disk_ok gran (ts_S db) (ts_N db) orig f (db_content mem (parent db) s)"
    and j: "j < ts_N db" "f j = Blank" and a: "unat a = pos (ts_N db) orig j * ts_S db"
  shows "\<exists>sec' s'. enter_sector gran db a s = Some (db\<lparr>cur_sec := sec'\<rparr>, s') \<and> cur_ok gran (pos (ts_N db) orig j * ts_S db) (ts_S db) [] sec' \<and>
    db_calm mem blk (parent db) s' \<and> disk_ok gran (ts_S db) (ts_N db) orig f (db_content mem (parent db) s')"
proof -
  note e = ts_envD[OF env] and fo = ts_focus[OF env r d j(1)]
  have k: "pos (ts_N db) orig j < ts_N db" by (rule pos_less) (use j in simp)
  obtain sec' s' where 1: "sec_info gran (pos (ts_N db) orig j * ts_S db) (ts_S db) Blank sec'"
    "at_sec mem blk (parent db) (pos (ts_N db) orig j * ts_S db) (ts_S db) (db_content mem (parent db) s) s' (window (pos (ts_N db) orig j * ts_S db) (ts_S db) (db_content mem (parent db) s))"
    "read_sector_info gran db a (cur_sec db) False s = Some (FDB_NO_ERR, sec', s')"
    by (rule read_hdr[OF fo(1) e(1) a refl ts_sector(1)[OF env k] fo(2), of "cur_sec db" False]) (simp add: j(2))
  have "sec_status sec' = FDB_SECTOR_STORE_EMPTY" using 1(1) by (simp add: sec_info_def)
  then have "enter_sector gran db a s = Some (db\<lparr>cur_sec := sec'\<rparr>, s')" using 1(3) by (simp add: enter_sector_def Let_def)
  moreover have "f(j := f j) = f" by simp
  ultimately show ?thesis using sec_info_blank[OF 1(1)] ts_unfocus[OF d j(1) 1(2) fo(2)] by auto
qed

lemma enter_closed:
  assumes env: "ts_env blk gran db" and r: "db_calm mem blk (parent db) s" and d: "disk_ok gran (ts_S db) (ts_N db) orig f (db_content mem (parent db) s)"
    and j: "j < ts_N db" "f j = Closed es" and a: "unat a = pos (ts_N db) orig j * ts_S db"
  shows "\<exists>old sec' s'. enter_sector gran db a s = Some (db\<lparr>oldest_addr := old, cur_sec := sec'\<rparr>, s') \<and> unat old = pos (ts_N db) orig (j + 1) * ts_S db \<and>
    cur_ok gran (pos (ts_N db) orig j * ts_S db) (ts_S db) [] sec' \<and>
    db_calm mem blk (parent db) s' \<and> disk_ok gran (ts_S db) (ts_N db) orig (f(j := Blank)) (db_content mem (parent db) s')"
proof -
  let ?A = "pos (ts_N db) orig j * ts_S db" and ?S = "ts_S db" and ?m = "db_content mem (parent db) s"
  note e = ts_envD[OF env] and fo = ts_focus[OF env r d j(1)]
  have k: "pos (ts_N db) orig j < ts_N db" by (rule pos_less) (use j in simp)
  note S31 = ts_sector(1)[OF env k]
  obtain sec1 s1 where 1: "sec_info gran ?A ?S (Closed es) sec1" "at_sec mem blk (parent db) ?A ?S ?m s1 (window ?A ?S ?m)"
    "read_sector_info gran db a (cur_sec db) False s = Some (FDB_NO_ERR, sec1, s1)"
    by (rule read_hdr[OF fo(1) e(1) a refl S31 fo(2), of "cur_sec db" False]) (simp add: j(2))
  let ?old = "if a + db_sec_size (parent db) < db_max_size (parent db) then a + db_sec_size (parent db) else 0"
  let ?db1 = "db\<lparr>cur_sec := sec1, oldest_addr := ?old\<rparr>"
  have p1: "parent ?db1 = parent db" by simp
  obtain s2 b2 where 2: "format_sector gran ?db1 a s1 = Some (FDB_NO_ERR, s2)" "at_sec mem blk (parent db) ?A ?S ?m s2 b2" "sector_ok gran ?A b2 Blank"
    using format_ok[where db = ?db1, unfolded p1, OF e(1) 1(2) S31 a refl _ e(3,10)] by auto
  obtain sec3 s3 where 3: "sec_info gran ?A ?S Blank sec3" "at_sec mem blk (parent db) ?A ?S ?m s3 b2"
    "read_sector_info gran ?db1 a sec1 False s2 = Some (FDB_NO_ERR, sec3, s3)"
    by (rule read_hdr[of mem blk ?db1 ?A ?S ?m s2 b2 gran a Blank sec1 False, unfolded p1, OF 2(2) e(1) a refl S31 2(3)]) simp
  have "sec_status sec1 \<noteq> FDB_SECTOR_STORE_EMPTY" using 1(1) by (simp add: sec_info_def)
  then have "enter_sector gran db a s = Some (db\<lparr>oldest_addr := ?old, cur_sec := sec3\<rparr>, s3)"
    using 1(3) 2(1) 3(3) by (simp add: enter_sector_def Let_def)
  moreover have "unat ?old = pos (ts_N db) orig (j + 1) * ts_S db" using next_sec_addr(1)[OF env a k] by (simp only: pos_Suc)
  ultimately show ?thesis using sec_info_blank[OF 3(1)] ts_unfocus[OF d j(1) 3(2) 2(3)] by blast
qed

lemma last_concat: "ess \<noteq> [] \<Longrightarrow> last ess \<noteq> [] \<Longrightarrow> concat ess \<noteq> [] \<and> last (concat ess) = last (last ess)"
  by (cases ess rule: rev_cases) auto

lemma leave_ok:
  assumes rep: "ts_rep mem blk gran orig ess db s" and roll: "rollover db" and ne: "last ess \<noteq> []"
  shows "\<exists>db' s' orig'. leave_sector gran db s = Some (FDB_NO_ERR, db', s') \<and>
    ts_rep mem blk gran orig' (ts_next (ts_N db) ess) db' s' \<and> same_db db db'"
proof -
  let ?N = "ts_N db" and ?S = "ts_S db" and ?n = "length ess - 1"
  let ?A = "pos ?N orig ?n * ?S" and ?m = "db_content mem (parent db) s"
  note rp = rep[unfolded ts_rep_def]
  have env: "ts_env blk gran db" and r: "db_calm mem blk (parent db) s" and sh: "orig < ?N" "ess \<noteq> []" "length ess \<le> ?N" "length ess < ?N \<Longrightarrow> orig = 0"
    and d: "disk_ok gran ?S ?N orig (sec_of ess) ?m" and old: "unat (oldest_addr db) = orig * ?S"
    and c: "cur_ok gran ?A ?S (last ess) (cur_sec db)" and lt: "last_time db = log_time (last (last ess))"
    using rp last_concat[OF _ ne] by (simp_all add: ts_shape_def ts_mem_def)
  note e = ts_envD[OF env]
  have n: "?n < ?N" using sh by (cases ess) auto
  have k: "pos ?N orig ?n < ?N" by (rule pos_less) (use n in simp)
  note fo = ts_focus[OF env r d n] and S31 = ts_sector(1)[OF env k]
  have b: "sector_ok gran ?A (window ?A ?S ?m) (Open (last ess))" using fo(2) sec_of_last[OF sh(2)] ne by simp
  note c' = c[unfolded cur_ok_def]
  have a: "unat (sec_addr (cur_sec db)) = ?A" and used: "sec_status (cur_sec db) = FDB_SECTOR_STORE_USING" using c' ne by simp_all
  have ei: "empty_idx (cur_sec db) - LOG_IDX_DATA_SIZE gran = of_nat (?A + hsz gran + (length (last ess) - 1) * isz gran)"
  proof -
    obtain k where k: "length (last ess) = Suc k" using ne by (cases "last ess") simp_all
    have "unat (empty_idx (cur_sec db)) = ?A + hsz gran + k * isz gran + isz gran" using c' k by simp
    then have u: "unat (empty_idx (cur_sec db) - LOG_IDX_DATA_SIZE gran) = ?A + hsz gran + k * isz gran"
      by (simp add: unat_sub word_le_nat_alt isz_def)
    have "empty_idx (cur_sec db) - LOG_IDX_DATA_SIZE gran = of_nat (?A + hsz gran + k * isz gran)" unfolding u[symmetric] by simp
    then show ?thesis using k by simp
  qed
  obtain s1 s2 b2 where 1: "save_end_info gran db (sec_addr (cur_sec db)) 0 (empty_idx (cur_sec db) - LOG_IDX_DATA_SIZE gran) s = Some (FDB_NO_ERR, s1)"
    "fdb_write_status gran (parent db) (sec_addr (cur_sec db)) FDB_SECTOR_STORE_STATUS_NUM (store_no FDB_SECTOR_STORE_FULL) s1 = Some (FDB_NO_ERR, s2)"
    "at_sec mem blk (parent db) ?A ?S ?m s2 b2" "sector_ok gran ?A b2 (Closed (last ess))"
    using close_ok[OF e(1) fo(1) S31 a b lt ei] by (elim exE conjE)
  let ?sec = "(cur_sec db)\<lparr>sec_status := FDB_SECTOR_STORE_FULL\<rparr>" and ?f = "sec_of (ess @ [[]])"
  let ?db = "db\<lparr>cur_sec := ?sec\<rparr>"
  let ?a = "if sec_addr (cur_sec db) + db_sec_size (parent db) < db_max_size (parent db) then sec_addr (cur_sec db) + db_sec_size (parent db) else 0"
  have 2: "db_calm mem blk (parent db) s2" "disk_ok gran ?S ?N orig ?f (db_content mem (parent db) s2)"
    using ts_unfocus[OF d n 1(3,4)] sec_of_snoc[OF sh(2)] by simp_all
  have step: "leave_sector gran db s = do { (db, s) \<leftarrow> enter_sector gran ?db ?a s2; Some (FDB_NO_ERR, db, s) }"
    using 1(1,2) c' roll by (simp add: leave_sector_def Let_def)
  have a2: "unat ?a = pos ?N orig (length ess) * ?S" using next_sec_addr(1)[OF env a k] pos_Suc[of ?N orig ?n] sh(2) by simp
  have env2: "ts_env blk gran ?db" using env by (simp add: ts_env_def)
  have N2: "ts_N ?db = ?N" "parent ?db = parent db" by (simp_all add: ts_N_def)
  have lc: "concat (ts_next ?N ess) \<noteq> [] \<Longrightarrow> last_time db = log_time (last (concat (ts_next ?N ess)))"
  proof -
    assume h: "concat (ts_next ?N ess) \<noteq> []"
    have "last ess # [] = [last ess]" by simp
    then have "\<exists>fs. ts_next ?N ess = fs @ [last ess] @ [[]]"
    proof (cases "length ess < ?N")
      case True then show ?thesis using sh(2) by (intro exI[of _ "butlast ess"]) (simp add: ts_next_def)
    next
      case False
      then have "tl ess \<noteq> []" using sh(3) e(5) by (cases ess) auto
      then show ?thesis using False by (intro exI[of _ "butlast (tl ess)"]) (simp add: ts_next_def flip: last_tl)
    qed
    then show ?thesis using lt ne by auto
  qed
  show ?thesis
  proof (cases "length ess < ?N")
    case True
    have j: "length ess < ts_N ?db" "?f (length ess) = Blank" using True by (simp_all add: N2 sec_of_def)
    obtain sec' s' where 3: "enter_sector gran ?db ?a s2 = Some (?db\<lparr>cur_sec := sec'\<rparr>, s')" "cur_ok gran (pos ?N orig (length ess) * ?S) ?S [] sec'"
      "db_calm mem blk (parent db) s'" "disk_ok gran ?S ?N orig ?f (db_content mem (parent db) s')"
      using enter_blank[where db = ?db and f = ?f and j = "length ess" and s = s2 and a = ?a and orig = orig, OF env2, unfolded N2, OF 2 j[unfolded N2] a2] by blast
    have "ts_rep mem blk gran orig (ts_next ?N ess) (db\<lparr>cur_sec := sec'\<rparr>) s'"
      using 3 env sh True old lc by (simp add: ts_rep_def ts_shape_def ts_mem_def ts_next_def ts_N_def ts_env_def)
    then show ?thesis using step 3(1) by (auto simp: same_db_def)
  next
    case False
    then have L: "length ess = ?N" using sh(3) by simp
    have j: "0 < ts_N ?db" "?f 0 = Closed (ess ! 0)" using L e(5) by (simp_all add: N2 sec_of_def nth_append)
    have a3: "unat ?a = pos ?N orig 0 * ?S" using a2 L by (simp add: pos_def)
    obtain old' sec' s' where 3: "enter_sector gran ?db ?a s2 = Some (?db\<lparr>oldest_addr := old', cur_sec := sec'\<rparr>, s')"
      "unat old' = pos ?N orig 1 * ?S" "cur_ok gran (pos ?N orig 0 * ?S) ?S [] sec'"
      "db_calm mem blk (parent db) s'" "disk_ok gran ?S ?N orig (?f(0 := Blank)) (db_content mem (parent db) s')"
      using enter_closed[where db = ?db and f = ?f and j = 0 and s = s2 and a = ?a and orig = orig, OF env2, unfolded N2, OF 2 j[unfolded N2] a3] by (auto simp del: fun_upd_apply)
    let ?ess = "tl ess @ [[]]"
    have same: "(?f(0 := Blank)) ((i + 1) mod ?N) = sec_of ?ess i" if "i < ?N" for i
    proof (cases "i + 1 = ?N")
      case True
      then have "(i + 1) mod ?N = 0" "i = length ess - 1" using L by simp_all
      then show ?thesis using L sh(2) by (simp add: sec_of_def nth_append)
    next
      case False
      then have "i + 1 < ?N" using that by simp
      then show ?thesis using L sh(2) by (auto simp: sec_of_def nth_append nth_tl)
    qed
    have "disk_ok gran ?S ?N ((orig + 1) mod ?N) (sec_of ?ess) (db_content mem (parent db) s')"
      using disk_turn[OF 3(5)] same unfolding disk_ok_def by simp
    moreover have "pos ?N ((orig + 1) mod ?N) (length ?ess - 1) = pos ?N orig 0"
    proof -
      have "orig + 1 + (?N - 1) = orig + ?N" using L sh(2) by (cases ess) simp_all
      then have "((orig + 1) mod ?N + (?N - 1)) mod ?N = (orig + ?N) mod ?N" by (metis mod_add_left_eq)
      then show ?thesis using L sh(2) by (simp add: pos_def)
    qed
    moreover have "ts_next ?N ess = ?ess" using False by (simp add: ts_next_def)
    moreover have "(orig + 1) mod ?N < ?N" "pos ?N orig 1 = (orig + 1) mod ?N" using e(5) by (simp_all add: pos_def)
    moreover have "length ?ess = ?N" using L e(5) by simp
    ultimately have q: "disk_ok gran ?S ?N ((orig + 1) mod ?N) (sec_of ?ess) (db_content mem (parent db) s')"
      "pos ?N ((orig + 1) mod ?N) (length ?ess - 1) = pos ?N orig 0" "ts_next ?N ess = ?ess" "(orig + 1) mod ?N < ?N"
      "pos ?N orig 1 = (orig + 1) mod ?N" "length ?ess = ?N" by blast+
    let ?db2 = "?db\<lparr>oldest_addr := old', cur_sec := sec'\<rparr>"
    have z: "ts_N ?db2 = ?N" "parent ?db2 = parent db" "last_time ?db2 = last_time db" "cur_sec ?db2 = sec'" "oldest_addr ?db2 = old'" by (simp_all add: ts_N_def)
    have "ts_mem gran ?S ?N ((orig + 1) mod ?N) ?ess ?db2"
      unfolding ts_mem_def q(2) z using 3(2,3) lc[unfolded q(3)] q(5) by simp
    moreover have "ts_shape ?N ((orig + 1) mod ?N) ?ess" unfolding ts_shape_def using q(4,6) by simp
    moreover have "ts_env blk gran ?db2" using env by (simp add: ts_env_def)
    ultimately have "ts_rep mem blk gran ((orig + 1) mod ?N) (ts_next ?N ess) ?db2 s'"
      unfolding ts_rep_def z q(3) using 3(4) q(1) by blast
    then show ?thesis using step 3(1) by (auto simp: same_db_def)
  qed
qed

section \<open>Appending\<close>

text \<open>A log goes to a sector that has room for it, begun or not.\<close>

lemma store_log:
  assumes rep: "ts_rep mem blk gran orig ess db s" and at: "at_sec mem blk (parent db) (pos (ts_N db) orig (length ess - 1) * ts_S db) (ts_S db) (db_content mem (parent db) s) s1 b"
    and d1: "cur_sec db1 = (cur_sec db)\<lparr>sec_status := FDB_SECTOR_STORE_USING, start_time := t0\<rparr>" "same_db db db1" "oldest_addr db1 = oldest_addr db"
    and b: "open_ok gran (pos (ts_N db) orig (length ess - 1) * ts_S db) b t0 (last ess)" and t0: "t0 = log_time (hd (last ess @ [(FDB_TSL_WRITE, t, d)]))"
    and fit: "ts_fits gran (ts_S db) (last ess) (FDB_TSL_WRITE, t, d)" and d: "blob_of blob d"
  shows "\<exists>s'. write_tsl gran db1 blob t s1 = Some (FDB_NO_ERR, s') \<and> same_db db (count_tsl gran (blob_size blob) t db1) \<and>
    ts_rep mem blk gran orig (butlast ess @ [last ess @ [(FDB_TSL_WRITE, t, d)]]) (count_tsl gran (blob_size blob) t db1) s'"
proof -
  let ?N = "ts_N db" and ?S = "ts_S db" and ?n = "length ess - 1" and ?e = "(FDB_TSL_WRITE, t, d) :: log"
  let ?A = "pos ?N orig ?n * ?S" and ?ess = "butlast ess @ [last ess @ [?e]]" and ?db2 = "count_tsl gran (blob_size blob) t db1"
  note rp = rep[unfolded ts_rep_def]
  have env: "ts_env blk gran db" and sh: "ts_shape ?N orig ess" "ess \<noteq> []" "length ess \<le> ?N"
    and dk: "disk_ok gran ?S ?N orig (sec_of ess) (db_content mem (parent db) s)" and old: "unat (oldest_addr db) = orig * ?S"
    and c: "cur_ok gran ?A ?S (last ess) (cur_sec db)" using rp by (simp_all add: ts_mem_def ts_shape_def)
  note e = ts_envD[OF env]
  have n: "?n < ?N" using sh by (cases ess) auto
  have k: "pos ?N orig ?n < ?N" by (rule pos_less) (use n in simp)
  have p1: "parent db1 = parent db" using d1(2) by (simp add: same_db_def)
  obtain s' b' where 1: "write_tsl gran db1 blob t s1 = Some (FDB_NO_ERR, s')" "at_sec mem blk (parent db) ?A ?S (db_content mem (parent db) s) s' b'"
    "sector_ok gran ?A b' (Open (last ess @ [?e]))" "cur_ok gran ?A ?S (last ess @ [?e]) (cur_sec ?db2)"
    using put_log[where db = db1, unfolded p1, OF e(1) at ts_sector(1)[OF env k] c d1(1) b t0 fit d] by blast
  have len: "length ?ess = length ess" using sh(2) by simp
  have "sec_of ?ess = (sec_of ess)(?n := Open (last ess @ [?e]))" by (rule sec_of_butlast) (simp_all add: sh(2))
  then have 2: "db_calm mem blk (parent db) s'" "disk_ok gran ?S ?N orig (sec_of ?ess) (db_content mem (parent db) s')"
    using ts_unfocus[OF dk n 1(2,3)] by simp_all
  have sd: "same_db db ?db2" "parent ?db2 = parent db" "oldest_addr ?db2 = oldest_addr db" "last_time ?db2 = t"
    using d1(2,3) by (simp_all add: same_db_def count_tsl_def Let_def)
  have "ts_shape ?N orig ?ess" using sh(1) unfolding ts_shape_def len by simp
  moreover have "ts_mem gran ?S ?N orig ?ess ?db2" unfolding ts_mem_def len using 1(4) sd(3,4) old by simp
  ultimately have "ts_rep mem blk gran orig ?ess ?db2 s'"
    using 2 same_db_env[OF sd(1) env] same_db_size[OF sd(1)] unfolding ts_rep_def sd(2) by simp
  then show ?thesis using 1(1) sd(1) by blast
qed

lemma begin_log:
  assumes rep: "ts_rep mem blk gran orig ess db s" and nil: "last ess = []"
    and len: "length d \<le> unat (max_len db)" and d: "blob_of blob d"
  shows "\<exists>db1 s1 s'. start_sector gran db t s = Some (FDB_NO_ERR, db1, s1) \<and> write_tsl gran db1 blob t s1 = Some (FDB_NO_ERR, s') \<and>
    same_db db (count_tsl gran (blob_size blob) t db1) \<and>
    ts_rep mem blk gran orig (butlast ess @ [last ess @ [(FDB_TSL_WRITE, t, d)]]) (count_tsl gran (blob_size blob) t db1) s'"
proof -
  let ?N = "ts_N db" and ?S = "ts_S db" and ?n = "length ess - 1"
  let ?A = "pos ?N orig ?n * ?S" and ?m = "db_content mem (parent db) s"
  note rp = rep[unfolded ts_rep_def]
  have env: "ts_env blk gran db" and r: "db_calm mem blk (parent db) s" and sh: "ess \<noteq> []" "length ess \<le> ?N"
    and dk: "disk_ok gran ?S ?N orig (sec_of ess) ?m" and c: "cur_ok gran ?A ?S [] (cur_sec db)"
    using rp nil by (simp_all add: ts_mem_def ts_shape_def)
  note e = ts_envD[OF env]
  have n: "?n < ?N" using sh by (cases ess) auto
  have k: "pos ?N orig ?n < ?N" by (rule pos_less) (use n in simp)
  note fo = ts_focus[OF env r dk n]
  have b: "sector_ok gran ?A (window ?A ?S ?m) Blank" using fo(2) sec_of_last[OF sh(1)] nil by simp
  have a: "unat (sec_addr (cur_sec db)) = ?A" using c by (simp add: cur_ok_def)
  obtain s1 b1 where 1: "start_sector gran db t s = Some (FDB_NO_ERR, db\<lparr>cur_sec := (cur_sec db)\<lparr>sec_status := FDB_SECTOR_STORE_USING, start_time := t\<rparr>\<rparr>, s1)"
    "at_sec mem blk (parent db) ?A ?S ?m s1 b1" "open_ok gran ?A b1 t []"
    using start_ok[OF e(1) fo(1) ts_sector(1)[OF env k] a b, where t = t] by (elim exE conjE)
  have "pad gran (length d) \<le> pad gran (unat (max_len db))"
    unfolding pad_def by (intro mult_le_mono1 div_le_mono diff_le_mono add_le_mono1 len)
  then have fit: "ts_fits gran ?S (last ess) (FDB_TSL_WRITE, t, d)" using e(8) nil by (simp add: ts_fits_def)
  let ?db1 = "db\<lparr>cur_sec := (cur_sec db)\<lparr>sec_status := FDB_SECTOR_STORE_USING, start_time := t\<rparr>\<rparr>"
  have "\<exists>s'. write_tsl gran ?db1 blob t s1 = Some (FDB_NO_ERR, s') \<and> same_db db (count_tsl gran (blob_size blob) t ?db1) \<and>
    ts_rep mem blk gran orig (butlast ess @ [last ess @ [(FDB_TSL_WRITE, t, d)]]) (count_tsl gran (blob_size blob) t ?db1) s'"
    by (rule store_log[OF rep 1(2) _ _ _ _ _ fit d, of ?db1 t]) (use 1(3) nil in \<open>simp_all add: same_db_def\<close>)
  then show ?thesis using 1(1) by blast
qed

lemma more_log:
  assumes rep: "ts_rep mem blk gran orig ess db s" and ne: "last ess \<noteq> []"
    and fit: "ts_fits gran (ts_S db) (last ess) (FDB_TSL_WRITE, t, d)" and d: "blob_of blob d"
  shows "\<exists>s'. write_tsl gran db blob t s = Some (FDB_NO_ERR, s') \<and> same_db db (count_tsl gran (blob_size blob) t db) \<and>
    ts_rep mem blk gran orig (butlast ess @ [last ess @ [(FDB_TSL_WRITE, t, d)]]) (count_tsl gran (blob_size blob) t db) s'"
proof -
  let ?N = "ts_N db" and ?S = "ts_S db" and ?n = "length ess - 1"
  let ?A = "pos ?N orig ?n * ?S" and ?m = "db_content mem (parent db) s"
  note rp = rep[unfolded ts_rep_def]
  have env: "ts_env blk gran db" and r: "db_calm mem blk (parent db) s" and sh: "ess \<noteq> []" "length ess \<le> ?N"
    and dk: "disk_ok gran ?S ?N orig (sec_of ess) ?m" and c: "cur_ok gran ?A ?S (last ess) (cur_sec db)"
    using rp by (simp_all add: ts_mem_def ts_shape_def)
  have n: "?n < ?N" using sh by (cases ess) auto
  note fo = ts_focus[OF env r dk n]
  have b: "open_ok gran ?A (window ?A ?S ?m) (log_time (hd (last ess))) (last ess)" using fo(2) sec_of_last[OF sh(1)] ne by simp
  have "cur_sec db = (cur_sec db)\<lparr>sec_status := FDB_SECTOR_STORE_USING, start_time := log_time (hd (last ess))\<rparr>"
    using c ne by (simp add: cur_ok_def)
  then show ?thesis
    by (rule store_log[OF rep fo(1) _ _ _ b _ fit d, of db]) (use ne in \<open>simp_all add: same_db_def\<close>)
qed

lemma cur_body:
  assumes "ts_rep mem blk gran orig ess db s" "last ess \<noteq> []"
  shows "used gran (last ess) + length (last ess) * isz gran + hsz gran \<le> ts_S db"
proof -
  note rp = assms(1)[unfolded ts_rep_def ts_shape_def]
  have n: "length ess - 1 < ts_N db" using rp by (cases ess) auto
  note fo = ts_focus(1,2)[OF _ _ _ n, where mem = mem and blk = blk and gran = gran and s = s and orig = orig and f = "sec_of ess"]
  show ?thesis using fo(2) at_secD(3)[OF fo(1)] rp sec_of_last[of ess] assms(2) by (simp add: open_ok_def body_ok_def)
qed

lemma append_ok:
  assumes rep: "ts_rep mem blk gran orig ess db s" and ok: "db_init_ok (parent db)" "rollover db"
    and len: "length d \<le> unat (max_len db)" and d: "blob_of blob d" and t: "sint (last_time db) \<le> sint t"
  shows "\<exists>db' s' orig'. fdb_tsl_append gran db blob t s = Some (FDB_NO_ERR, db', s') \<and>
    ts_rep mem blk gran orig' (ts_push gran (ts_S db) (ts_N db) ess (FDB_TSL_WRITE, t, d)) db' s' \<and> same_db db db'"
proof -
  note rp = rep[unfolded ts_rep_def]
  have env: "ts_env blk gran db" and c: "cur_ok gran (pos (ts_N db) orig (length ess - 1) * ts_S db) (ts_S db) (last ess) (cur_sec db)"
    using rp by (simp_all add: ts_mem_def)
  note e = ts_envD[OF env]
  let ?e = "(FDB_TSL_WRITE, t, d) :: log" and ?L = "LOG_IDX_DATA_SIZE gran" and ?W = "FDB_WG_ALIGN gran (blob_size blob)"
  have bs: "unat (blob_size blob) = length d" using d by (simp add: blob_of_def)
  then have bl: "\<not> max_len db < blob_size blob" using len by (simp add: word_less_nat_alt)
  have pd: "pad gran (length d) \<le> pad gran (unat (max_len db))"
    unfolding pad_def by (intro mult_le_mono1 div_le_mono diff_le_mono add_le_mono1 len)
  have S31: "ts_S db \<le> 2 ^ 31" using ts_sector(1)[OF env, of 0] e(5) by simp
  have "length d \<le> 2 ^ 31" using pad_ge[OF e(1), of "length d"] pd e(8) S31 by simp
  then have W: "unat ?W = pad gran (length d)" using unat_wg_align[OF e(1), of "blob_size blob"] bs by simp
  have LW: "unat (?L + ?W) = isz gran + pad gran (length d)"
    using unat_add_small[of ?L ?W] W pd e(8) S31 by (simp add: isz_def)
  have full: "remain (cur_sec db) < ?L + ?W \<longleftrightarrow> \<not> ts_fits gran (ts_S db) (last ess) ?e" if "used gran (last ess) + length (last ess) * isz gran + hsz gran \<le> ts_S db"
    using c that unfolding word_less_nat_alt LW cur_ok_def ts_fits_def by auto
  have app: "fdb_tsl_append gran db blob t s = do {
        (result, db, s) \<leftarrow> update_sec_status gran db blob t s;
        if result \<noteq> FDB_NO_ERR then Some (result, db, s)
        else do {
          (result, s) \<leftarrow> write_tsl gran db blob t s;
          if result \<noteq> FDB_NO_ERR then Some (result, db, s)
          else Some (FDB_NO_ERR, count_tsl gran (blob_size blob) t db, s) } }"
    using ok(1) bl t by (simp add: fdb_tsl_append_def tsl_append_def)
  show ?thesis
  proof (cases "last ess = []")
    case True
    then obtain db1 s1 s' where 1: "start_sector gran db t s = Some (FDB_NO_ERR, db1, s1)" "write_tsl gran db1 blob t s1 = Some (FDB_NO_ERR, s')"
      "same_db db (count_tsl gran (blob_size blob) t db1)"
      "ts_rep mem blk gran orig (butlast ess @ [last ess @ [?e]]) (count_tsl gran (blob_size blob) t db1) s'"
      using begin_log[OF rep True len d, of t] by blast
    have "sec_status (cur_sec db) = FDB_SECTOR_STORE_EMPTY" using c True by (simp add: cur_ok_def)
    then have "update_sec_status gran db blob t s = Some (FDB_NO_ERR, db1, s1)" using 1(1) by (simp add: update_sec_status_def Let_def)
    then show ?thesis using 1 True unfolding app ts_push_def Let_def by auto
  next
    case ne: False
    then have used: "sec_status (cur_sec db) = FDB_SECTOR_STORE_USING" using c by (simp add: cur_ok_def)
    have body: "used gran (last ess) + length (last ess) * isz gran + hsz gran \<le> ts_S db"
      by (rule cur_body[OF rep ne])
    show ?thesis
    proof (cases "ts_fits gran (ts_S db) (last ess) ?e")
      case True
      then obtain s' where 1: "write_tsl gran db blob t s = Some (FDB_NO_ERR, s')" "same_db db (count_tsl gran (blob_size blob) t db)"
        "ts_rep mem blk gran orig (butlast ess @ [last ess @ [?e]]) (count_tsl gran (blob_size blob) t db) s'"
        using more_log[OF rep ne True d] by blast
      have "update_sec_status gran db blob t s = Some (FDB_NO_ERR, db, s)"
        using used full[OF body] True by (simp add: update_sec_status_def Let_def)
      then show ?thesis using 1 ne True unfolding app ts_push_def Let_def by auto
    next
      case False
      let ?ess = "ts_next (ts_N db) ess"
      obtain db1 s1 orig' where 1: "leave_sector gran db s = Some (FDB_NO_ERR, db1, s1)" "ts_rep mem blk gran orig' ?ess db1 s1" "same_db db db1"
        using leave_ok[OF rep ok(2) ne] by blast
      have nil: "last ?ess = []" by (simp add: ts_next_def)
      have len1: "length d \<le> unat (max_len db1)" using 1(3) len by (simp add: same_db_def)
      obtain db2 s2 s' where 2: "start_sector gran db1 t s1 = Some (FDB_NO_ERR, db2, s2)" "write_tsl gran db2 blob t s2 = Some (FDB_NO_ERR, s')"
        "same_db db1 (count_tsl gran (blob_size blob) t db2)"
        "ts_rep mem blk gran orig' (butlast ?ess @ [last ?ess @ [?e]]) (count_tsl gran (blob_size blob) t db2) s'"
        using begin_log[OF 1(2) nil len1 d, of t] by blast
      have "sec_status (cur_sec db1) = FDB_SECTOR_STORE_EMPTY" using 1(2) nil by (simp add: ts_rep_def ts_mem_def cur_ok_def)
      then have u: "update_sec_status gran db blob t s = Some (FDB_NO_ERR, db2, s2)"
        using 1(1) 2(1) used full[OF body] False by (simp add: update_sec_status_def Let_def)
      have "same_db db (count_tsl gran (blob_size blob) t db2)" using 1(3) 2(3) by (simp add: same_db_def)
      then show ?thesis using 2 ne False u unfolding app ts_push_def Let_def by auto
    qed
  qed
qed

end
