(* ===== verification/Tsdb_Iter.thy ===== *)
theory Tsdb_Iter
  imports Tsdb_Rep
begin

text \<open>
  The iteration over a database visits exactly the logs of its abstraction, the oldest first. A
  callback that reads each log gets the data that were appended.
\<close>

section \<open>All sectors\<close>

definition sec_recs :: "nat \<Rightarrow> nat \<Rightarrow> nat \<Rightarrow> nat \<Rightarrow> log list list \<Rightarrow> nat \<Rightarrow> fdb_tsl list" where
  "sec_recs gran S N orig ess j = tsl_recs gran (pos N orig j * S) (hsz gran) S (sec_logs (sec_of ess j))"

definition ts_recs :: "nat \<Rightarrow> nat \<Rightarrow> nat \<Rightarrow> nat \<Rightarrow> log list list \<Rightarrow> nat \<Rightarrow> fdb_tsl list" where
  "ts_recs gran S N orig ess j = concat (map (sec_recs gran S N orig ess) [j..<N])"

lemma ts_recs_step: "j < N \<Longrightarrow> ts_recs gran S N orig ess j = sec_recs gran S N orig ess j @ ts_recs gran S N orig ess (j + 1)"
  by (simp add: ts_recs_def upt_conv_Cons)

lemma unat_of: "unat (x :: u32) = n \<Longrightarrow> x = of_nat n"
  by auto

lemma next_traversed:
  assumes env: "ts_env blk gran db" and j: "j < ts_N db" and a: "unat (sec_addr sec) = pos (ts_N db) orig j * ts_S db"
    and t: "unat t = (j + 1) * ts_S db"
  shows "get_next_sector_addr db sec t = FAILED_ADDR \<longleftrightarrow> j + 1 = ts_N db"
    "j + 1 < ts_N db \<Longrightarrow> unat (get_next_sector_addr db sec t) = pos (ts_N db) orig (j + 1) * ts_S db"
proof -
  note e = ts_envD[OF env]
  let ?S = "ts_S db" and ?N = "ts_N db"
  have k: "pos ?N orig j < ?N" by (rule pos_less) (use j in simp)
  have jN: "j * ?S + ?S \<le> ?N * ?S" by (rule sector_inside[OF j])
  have "ts_S db \<le> 2 ^ 30" using le_trans[OF mult_le_mono1[OF e(5)] e(6)] by simp
  then have ut: "unat (t + db_sec_size (parent db)) = (j + 2) * ?S"
    using unat_add_small[of t "db_sec_size (parent db)"] t jN e(6) by simp
  have go: "t + db_sec_size (parent db) \<le> db_max_size (parent db) \<longleftrightarrow> j + 1 < ?N"
  proof -
    have "t + db_sec_size (parent db) \<le> db_max_size (parent db) \<longleftrightarrow> (j + 2) * ?S \<le> ?N * ?S"
      unfolding word_le_nat_alt ut using e(4) by simp
    also have "\<dots> \<longleftrightarrow> j + 2 \<le> ?N" using e(9) by (simp only: mult_le_cancel2 simp_thms)
    finally show ?thesis by auto
  qed
  let ?a = "if sec_addr sec + db_sec_size (parent db) < db_max_size (parent db) then sec_addr sec + db_sec_size (parent db) else 0"
  have ua: "unat ?a = pos ?N orig (j + 1) * ?S" using next_sec_addr(1)[OF env a k] by (simp only: pos_Suc)
  have "pos ?N orig (j + 1) * ?S + ?S \<le> 2 ^ 31" by (rule ts_sector(1)[OF env pos_less]) (use e(5) in simp)
  then have "?a \<noteq> FAILED_ADDR" using ua e(9) by (auto simp: FAILED_ADDR_def)
  then show "get_next_sector_addr db sec t = FAILED_ADDR \<longleftrightarrow> j + 1 = ?N"
    using go j unfolding get_next_sector_addr_def by auto
  show "j + 1 < ?N \<Longrightarrow> unat (get_next_sector_addr db sec t) = pos ?N orig (j + 1) * ?S"
    using go ua unfolding get_next_sector_addr_def by auto
qed

text \<open>One sector of the walk.\<close>

lemma sec_visit:
  assumes env: "ts_env blk gran db" and s: "at_sec mem blk (parent db) A (ts_S db) m s b" and S31: "A + ts_S db \<le> 2 ^ 31"
    and b: "sector_ok gran A b X" and cur: "\<And>es. X = Open es \<Longrightarrow> cur_ok gran A (ts_S db) es (cur_sec db)" and sec: "sec_info gran A (ts_S db) X sec"
    and used: "sec_logs X \<noteq> []"
    and cb: "\<And>r. r \<in> set (tsl_recs gran A (hsz gran) (ts_S db) (sec_logs X)) \<Longrightarrow> cb_reads mem blk (parent db) (blit m A b) cb f r"
  shows "\<exists>s'. iter_tsl_loop gran db cb (if sec_status sec = FDB_SECTOR_STORE_USING then cur_sec db else sec)
      (junk_tsl (sec_addr sec + SECTOR_HDR_DATA_SIZE gran)) c s =
    Some (fst (feed f (tsl_recs gran A (hsz gran) (ts_S db) (sec_logs X)) c), snd (feed f (tsl_recs gran A (hsz gran) (ts_S db) (sec_logs X)) c), s') \<and>
    at_sec mem blk (parent db) A (ts_S db) m s' b"
proof -
  note e = ts_envD[OF env]
  let ?sec = "if sec_status sec = FDB_SECTOR_STORE_USING then cur_sec db else sec"
  have lb: "length b = ts_S db" using at_secD(3)[OF s] .
  have body: "body_ok gran A b (sec_logs X)" using b used by (cases X) (simp_all add: open_ok_def)
  have st: "sec_status ?sec \<noteq> FDB_SECTOR_STORE_EMPTY" "end_idx ?sec = of_nat (A + hsz gran + (length (sec_logs X) - 1) * isz gran)"
    using sec cur used by (cases X; simp add: sec_info_def cur_ok_def)+
  have "unat (sec_addr sec + SECTOR_HDR_DATA_SIZE gran) = A + hsz gran"
    using unat_add_small[of "sec_addr sec" "SECTOR_HDR_DATA_SIZE gran"] sec e(10) S31 by (simp add: sec_info_def hsz_def)
  from unat_of[OF this] have i: "tsl_index (junk_tsl (sec_addr sec + SECTOR_HDR_DATA_SIZE gran)) = of_nat (A + hsz gran)"
    by (simp only: junk_tsl_def fdb_tsl.simps)
  show ?thesis
    by (rule iter_tsl_ok[OF e(1) S31 s _ _ used st i cb]) (use body lb in \<open>simp_all add: body_ok_def\<close>)
qed

lemma iter_sec_ok:
  assumes env: "ts_env blk gran db" and d: "disk_ok gran (ts_S db) (ts_N db) orig (sec_of ess) m" and sh: "ts_shape (ts_N db) orig ess"
    and cur: "cur_ok gran (pos (ts_N db) orig (length ess - 1) * ts_S db) (ts_S db) (last ess) (cur_sec db)"
    and cb: "\<And>r. r \<in> set (ts_recs gran (ts_S db) (ts_N db) orig ess 0) \<Longrightarrow> cb_reads mem blk (parent db) m cb f r"
    and j: "j < ts_N db" and s: "db_calm mem blk (parent db) s" "db_content mem (parent db) s = m"
    and a: "unat addr = pos (ts_N db) orig j * ts_S db" and t: "unat t = j * ts_S db"
  shows "\<exists>s'. iter_sec_loop gran db cb addr t sector c s = Some (snd (feed f (ts_recs gran (ts_S db) (ts_N db) orig ess j) c), s') \<and>
    db_calm mem blk (parent db) s' \<and> db_content mem (parent db) s' = m"
  using j s a t
proof (induction "ts_N db - j" arbitrary: j addr t sector c s)
  case (Suc n)
  let ?S = "ts_S db" and ?N = "ts_N db"
  let ?A = "pos ?N orig j * ?S" and ?X = "sec_of ess j"
  let ?b = "window ?A ?S m" and ?recs = "sec_recs gran ?S ?N orig ess j"
  note e = ts_envD[OF env] and j = Suc.prems(1)
  have d': "disk_ok gran ?S ?N orig (sec_of ess) (db_content mem (parent db) s)" using d Suc.prems(3) by simp
  have k: "pos ?N orig j < ?N" by (rule pos_less) (use j in simp)
  note fo = ts_focus[OF env Suc.prems(2) d' j, unfolded Suc.prems(3)] and S31 = ts_sector(1)[OF env k]
  have bm: "blit m ?A ?b = m" using blit_window at_secD(4)[OF fo(1)] by blast
  have same: "db_calm mem blk (parent db) s' \<and> db_content mem (parent db) s' = m" if "at_sec mem blk (parent db) ?A ?S m s' ?b" for s'
    using at_secD(1,2)[OF that] bm by simp
  obtain sec1 s1 where 1: "sec_info gran ?A ?S ?X sec1" "at_sec mem blk (parent db) ?A ?S m s1 ?b"
    "read_sector_info gran db addr sector False s = Some (FDB_NO_ERR, sec1, s1)"
    by (rule read_hdr[OF fo(1) e(1) Suc.prems(4) refl S31 fo(2), of sector False]) simp
  let ?used = "sec_status sec1 = FDB_SECTOR_STORE_USING \<or> sec_status sec1 = FDB_SECTOR_STORE_FULL"
  let ?sec = "if sec_status sec1 = FDB_SECTOR_STORE_USING then cur_sec db else sec1"
  let ?addr = "\<lambda>sec. get_next_sector_addr db sec (t + db_sec_size (parent db))"
  have tl: "unat (t + db_sec_size (parent db)) = (j + 1) * ?S"
    using unat_add_small[of t "db_sec_size (parent db)"] Suc.prems(5) sector_inside[OF j, of ?S] e(6) by simp
  have "\<exists>stop sec2 c2 s2. (if ?used then do {
          (stop, c, s) \<leftarrow> iter_tsl_loop gran db cb ?sec (junk_tsl (sec_addr ?sec + SECTOR_HDR_DATA_SIZE gran)) c s1;
          Some (stop, ?sec, c, s) } else Some (False, sec1, c, s1)) = Some (stop, sec2, c2, s2) \<and>
      feed f ?recs c = (stop, c2) \<and> unat (sec_addr sec2) = ?A \<and> at_sec mem blk (parent db) ?A ?S m s2 ?b"
  proof (cases "sec_logs ?X = []")
    case True
    then have "?X = Blank" using fo(2) by (cases ?X) simp_all
    then show ?thesis using 1(1,2)
      by (intro exI[of _ False] exI[of _ sec1] exI[of _ c] exI[of _ s1]) (simp add: sec_info_def sec_recs_def)
  next
    case False
    have open_cur: "cur_ok gran ?A ?S es (cur_sec db)" if "?X = Open es" for es
    proof -
      have "j = length ess - 1" "ess \<noteq> []" "es = ess ! j" using that by (auto simp: sec_of_def split: if_splits)
      then show ?thesis using cur by (simp add: last_conv_nth)
    qed
    have sa: "sec_addr ?sec = sec_addr sec1"
    proof (cases ?X)
      case (Open es)
      then have "unat (sec_addr (cur_sec db)) = unat (sec_addr sec1)" using open_cur[of es] 1(1) by (simp add: cur_ok_def sec_info_def)
      then show ?thesis by (simp add: word_unat_eq_iff)
    qed (use 1(1) in \<open>simp_all add: sec_info_def\<close>)
    have "cb_reads mem blk (parent db) (blit m ?A ?b) cb f r" if "r \<in> set (tsl_recs gran ?A (hsz gran) ?S (sec_logs ?X))" for r
      unfolding bm by (rule cb) (use that j in \<open>auto simp: ts_recs_def sec_recs_def\<close>)
    then obtain s2 where "iter_tsl_loop gran db cb ?sec (junk_tsl (sec_addr sec1 + SECTOR_HDR_DATA_SIZE gran)) c s1 =
        Some (fst (feed f ?recs c), snd (feed f ?recs c), s2)" "at_sec mem blk (parent db) ?A ?S m s2 ?b"
      using sec_visit[OF env 1(2) S31 fo(2) open_cur 1(1) False, of cb f c] unfolding sec_recs_def by blast
    moreover have ?used using False fo(2) 1(1) by (cases ?X) (simp_all add: sec_info_def)
    moreover have "unat (sec_addr sec1) = ?A" using 1(1) by (simp add: sec_info_def)
    ultimately show ?thesis using sa by (cases "feed f ?recs c") simp
  qed
  then obtain stop sec2 c2 s2 where 2: "(if ?used then do {
          (stop, c, s) \<leftarrow> iter_tsl_loop gran db cb ?sec (junk_tsl (sec_addr ?sec + SECTOR_HDR_DATA_SIZE gran)) c s1;
          Some (stop, ?sec, c, s) } else Some (False, sec1, c, s1)) = Some (stop, sec2, c2, s2)"
    "feed f ?recs c = (stop, c2)" "unat (sec_addr sec2) = ?A" "at_sec mem blk (parent db) ?A ?S m s2 ?b" by blast
  have step: "iter_sec_loop gran db cb addr t sector c s = (if stop then Some (c2, s2)
      else if ?addr sec2 \<noteq> FAILED_ADDR then iter_sec_loop gran db cb (?addr sec2) (t + db_sec_size (parent db)) sec2 c2 s2 else Some (c2, s2))"
    by (subst iter_sec_loop.simps) (simp only: 1(3) 2(1) bind.bind_lunit prod.case Let_def simp_thms)
  note nt = next_traversed[OF env j 2(3) tl]
  show ?case
  proof (cases "stop \<or> j + 1 = ?N")
    case True
    have "ts_recs gran ?S ?N orig ess (j + 1) = []" if "j + 1 = ?N" using that by (simp add: ts_recs_def)
    then have "snd (feed f (ts_recs gran ?S ?N orig ess j) c) = c2"
      unfolding ts_recs_step[OF j] feed_append 2(2) using True by auto
    then show ?thesis using step True nt(1) same[OF 2(4)] by auto
  next
    case False
    then have j1: "j + 1 < ?N" using j by simp
    have "\<exists>s'. iter_sec_loop gran db cb (?addr sec2) (t + db_sec_size (parent db)) sec2 c2 s2 =
        Some (snd (feed f (ts_recs gran ?S ?N orig ess (j + 1)) c2), s') \<and> db_calm mem blk (parent db) s' \<and> db_content mem (parent db) s' = m"
      by (rule Suc.hyps(1)[OF _ j1]) (use Suc.hyps(2) same[OF 2(4)] nt(2)[OF j1] tl in simp_all)
    moreover have "snd (feed f (ts_recs gran ?S ?N orig ess j) c) = snd (feed f (ts_recs gran ?S ?N orig ess (j + 1)) c2)"
      unfolding ts_recs_step[OF j] feed_append 2(2) using False by simp
    ultimately show ?thesis using step False nt(1) by simp
  qed
qed simp

section \<open>Collecting the logs\<close>

text \<open>A callback that reads the data of each log.\<close>

definition collect_log :: "fdb_db \<Rightarrow> (log list, 'd) tsl_cb" where
  "collect_log db tsl c s = do {
     (_, blob, s) \<leftarrow> fdb_blob_read db (fdb_tsl_to_blob tsl \<lparr>blob_buf = replicate (unat (tsl_len tsl)) 0, blob_size = tsl_len tsl,
       saved_meta_addr = 0, saved_addr = 0, saved_len = 0\<rparr>) s;
     Some (False, c @ [(tsl_status tsl, tsl_time tsl, blob_buf blob)], s) }"

definition log_read :: "u8 list \<Rightarrow> fdb_tsl \<Rightarrow> log" where
  "log_read m r = (tsl_status r, tsl_time r, window (unat (tsl_log r)) (unat (tsl_len r)) m)"

lemma collect_reads:
  assumes "unat (tsl_log r) + unat (tsl_len r) \<le> length m"
  shows "cb_reads mem blk db m (collect_log db) (\<lambda>r c. (False, c @ [log_read m r])) r"
  unfolding cb_reads_def
proof (intro allI impI)
  fix c s assume s: "db_calm mem blk db s" "db_content mem db s = m"
  obtain s' where "fdb_flash_read db (tsl_log r) (tsl_len r) s = Some (FDB_NO_ERR, window (unat (tsl_log r)) (unat (tsl_len r)) m, s')"
    "db_calm mem blk db s'" "db_content mem db s' = m"
    using calm_read[OF s(1), of "tsl_log r" "tsl_len r"] s(2) assms by auto
  moreover have "wr_blk (replicate (unat (tsl_len r)) 0) 0 (window (unat (tsl_log r)) (unat (tsl_len r)) m) =
      Some (window (unat (tsl_log r)) (unat (tsl_len r)) m)"
    using assms by (auto simp: wr_blk_def nth_blit intro!: nth_equalityI)
  ultimately show "\<exists>s'. collect_log db r c s = Some (fst (False, c @ [log_read m r]), snd (False, c @ [log_read m r]), s') \<and>
      db_calm mem blk db s' \<and> db_content mem db s' = m"
    by (simp add: collect_log_def fdb_blob_read_def fdb_tsl_to_blob_def log_read_def Let_def)
qed

lemma feed_collect: "feed (\<lambda>r c. (False, c @ [g r])) rs c = (False, c @ map g rs)"
  by (induction rs arbitrary: c) simp_all

lemma recs_read:
  assumes "gran \<in> grans" "A + S \<le> length m" "A + S \<le> 2 ^ 31" "logs_at gran A (window A S m) i p es" "used gran es \<le> p" "p \<le> S"
  shows "map (log_read m) (tsl_recs gran A i p es) = es \<and> (\<forall>r \<in> set (tsl_recs gran A i p es). unat (tsl_log r) + unat (tsl_len r) \<le> length m)"
  using assms(4-)
proof (induction es arbitrary: i p)
  case (Cons e es)
  let ?d = "pad gran (length (log_data e))"
  let ?q = "p - ?d"
  have q: "length (log_data e) \<le> ?d" by (rule pad_ge[OF assms(1)])
  have l: "log_at gran A (window A S m) i ?q e" using Cons.prems(1) by simp
  have fit: "?q + length (log_data e) \<le> S" using q Cons.prems(2,3) by simp
  have u: "unat (of_nat (A + ?q) :: u32) = A + ?q" "unat (of_nat (length (log_data e)) :: u32) = length (log_data e)"
    using fit assms(3) by (simp_all add: unat_of_nat_lt del: of_nat_add)
  have "window (A + ?q) (length (log_data e)) m = window ?q (length (log_data e)) (window A S m)"
    using window_window[OF fit, of A m] assms(2) by simp
  then have "log_read m (tsl_rec (of_nat (A + i)) A ?q e) = e" using l u by (simp add: log_read_def tsl_rec_def log_at_def del: of_nat_add)
  moreover note Cons.IH[of "i + isz gran" ?q]
  moreover have "logs_at gran A (window A S m) (i + isz gran) ?q es" "used gran es \<le> ?q" "?q \<le> S" using Cons.prems by simp_all
  moreover have "unat (tsl_log (tsl_rec (of_nat (A + i)) A ?q e)) + unat (tsl_len (tsl_rec (of_nat (A + i)) A ?q e)) \<le> length m"
    using u fit assms(2) by (simp add: tsl_rec_def del: of_nat_add)
  ultimately show ?case by (simp add: Let_def del: of_nat_add)
qed simp

lemma concat_sec_logs:
  assumes "length ess \<le> N"
  shows "concat (map (\<lambda>j. sec_logs (sec_of ess j)) [0..<N]) = concat ess"
proof -
  have "[0..<N] = [0..<length ess] @ [length ess..<N]" using assms upt_add_eq_append[of 0 "length ess" "N - length ess"] by simp
  moreover have "map (\<lambda>j. sec_logs (sec_of ess j)) [0..<length ess] = ess"
    by (rule nth_equalityI) (auto simp: sec_of_def)
  moreover have "concat (map (\<lambda>j. sec_logs (sec_of ess j)) [length ess..<N]) = []" by (auto simp: sec_of_def)
  ultimately show ?thesis by simp
qed

lemma sector_read:
  assumes g: "gran \<in> grans" and m: "A + S \<le> length m" "A + S \<le> 2 ^ 31" and b: "sector_ok gran A (window A S m) X"
  shows "map (log_read m) (tsl_recs gran A (hsz gran) S (sec_logs X)) = sec_logs X"
    "\<forall>r \<in> set (tsl_recs gran A (hsz gran) S (sec_logs X)). unat (tsl_log r) + unat (tsl_len r) \<le> length m"
proof -
  have l: "length (window A S m) = S" using m(1) by simp
  have "logs_at gran A (window A S m) (hsz gran) S (sec_logs X)" "used gran (sec_logs X) \<le> S"
    using b l by (cases X; simp add: open_ok_def body_ok_def)+
  from recs_read[OF g m this order_refl] show "map (log_read m) (tsl_recs gran A (hsz gran) S (sec_logs X)) = sec_logs X"
    "\<forall>r \<in> set (tsl_recs gran A (hsz gran) S (sec_logs X)). unat (tsl_log r) + unat (tsl_len r) \<le> length m" by blast+
qed

lemma ts_read:
  assumes rep: "ts_rep mem blk gran orig ess db s" and m: "m = db_content mem (parent db) s"
  shows "map (log_read m) (ts_recs gran (ts_S db) (ts_N db) orig ess 0) = concat ess"
    "r \<in> set (ts_recs gran (ts_S db) (ts_N db) orig ess 0) \<Longrightarrow> unat (tsl_log r) + unat (tsl_len r) \<le> length m"
proof -
  note rp = rep[unfolded ts_rep_def ts_shape_def]
  have env: "ts_env blk gran db" and r0: "db_calm mem blk (parent db) s" using rp by simp_all
  have sec: "map (log_read m) (sec_recs gran (ts_S db) (ts_N db) orig ess j) = sec_logs (sec_of ess j)"
    "\<forall>r \<in> set (sec_recs gran (ts_S db) (ts_N db) orig ess j). unat (tsl_log r) + unat (tsl_len r) \<le> length m" if j: "j < ts_N db" for j
  proof -
    have k: "pos (ts_N db) orig j < ts_N db" by (rule pos_less) (use j in simp)
    have l: "pos (ts_N db) orig j * ts_S db + ts_S db \<le> length m" using ts_sector(2)[OF env k] length_calm[OF r0] m by simp
    have "sector_ok gran (pos (ts_N db) orig j * ts_S db) (window (pos (ts_N db) orig j * ts_S db) (ts_S db) m) (sec_of ess j)"
      using ts_focus(2)[OF env r0 _ j] rp m by blast
    from sector_read[OF ts_envD(1)[OF env] l ts_sector(1)[OF env k] this]
    show "map (log_read m) (sec_recs gran (ts_S db) (ts_N db) orig ess j) = sec_logs (sec_of ess j)"
      "\<forall>r \<in> set (sec_recs gran (ts_S db) (ts_N db) orig ess j). unat (tsl_log r) + unat (tsl_len r) \<le> length m" by (simp_all add: sec_recs_def)
  qed
  have "map (log_read m) (ts_recs gran (ts_S db) (ts_N db) orig ess 0) = concat (map (\<lambda>j. sec_logs (sec_of ess j)) [0..<ts_N db])"
  proof -
    have "map (\<lambda>j. map (log_read m) (sec_recs gran (ts_S db) (ts_N db) orig ess j)) [0..<ts_N db] = map (\<lambda>j. sec_logs (sec_of ess j)) [0..<ts_N db]"
      by (rule map_cong[OF refl]) (simp add: sec(1))
    then show ?thesis by (simp only: ts_recs_def map_concat map_map comp_def)
  qed
  then show "map (log_read m) (ts_recs gran (ts_S db) (ts_N db) orig ess 0) = concat ess" using concat_sec_logs rp by simp
  show "r \<in> set (ts_recs gran (ts_S db) (ts_N db) orig ess 0) \<Longrightarrow> unat (tsl_log r) + unat (tsl_len r) \<le> length m"
    using sec(2) by (auto simp: ts_recs_def)
qed

lemma iter_ok:
  assumes rep: "ts_rep mem blk gran orig ess db s"
    and cb: "\<And>r. r \<in> set (ts_recs gran (ts_S db) (ts_N db) orig ess 0) \<Longrightarrow> cb_reads mem blk (parent db) (db_content mem (parent db) s) cb f r"
  shows "\<exists>s'. fdb_tsl_iter gran junk db (Some cb) c s = Some (snd (feed f (ts_recs gran (ts_S db) (ts_N db) orig ess 0) c), s') \<and>
    ts_rep mem blk gran orig ess db s' \<and> db_content mem (parent db) s' = db_content mem (parent db) s"
proof -
  note rp = rep[unfolded ts_rep_def]
  have env: "ts_env blk gran db" using rp by simp
  note e = ts_envD[OF env]
  have o: "orig < ts_N db" using rp by (simp add: ts_shape_def)
  have "\<exists>s'. iter_sec_loop gran db cb (oldest_addr db) 0 junk c s = Some (snd (feed f (ts_recs gran (ts_S db) (ts_N db) orig ess 0) c), s') \<and>
    db_calm mem blk (parent db) s' \<and> db_content mem (parent db) s' = db_content mem (parent db) s"
    by (rule iter_sec_ok[OF env _ _ _ cb]) (use rp e(5) o in \<open>simp_all add: ts_mem_def pos_def\<close>)
  then show ?thesis using rp by (auto simp: fdb_tsl_iter_def ts_rep_def)
qed

lemma collect_ok:
  assumes rep: "ts_rep mem blk gran orig ess db s"
  shows "\<exists>s'. fdb_tsl_iter gran junk db (Some (collect_log (parent db))) [] s = Some (concat ess, s') \<and>
    ts_rep mem blk gran orig ess db s' \<and> db_content mem (parent db) s' = db_content mem (parent db) s"
proof -
  let ?m = "db_content mem (parent db) s"
  from iter_ok[OF rep collect_reads[OF ts_read(2)[OF rep refl]], of junk "[]"]
  show ?thesis by (simp add: feed_collect ts_read(1)[OF rep refl])
qed

end
