(* ===== verification/Tsdb_Restart.thy ===== *)
theory Tsdb_Restart
  imports Tsdb_Iter
begin

text \<open>
  A restart: the check of the sector headers finds the sector in use, the oldest sector and the
  last time again, so that the database stands for the same logs as before.
\<close>

section \<open>Sectors in physical order\<close>

definition phys :: "nat \<Rightarrow> nat \<Rightarrow> log list list \<Rightarrow> nat \<Rightarrow> ts_sector" where
  "phys N orig ess k = sec_of ess ((k + (N - orig)) mod N)"

lemma pos_phys: "orig < N \<Longrightarrow> k < N \<Longrightarrow> pos N orig ((k + (N - orig)) mod N) = k"
proof -
  assume "orig < N" "k < N"
  moreover have "pos N orig ((k + (N - orig)) mod N) = (orig + (k + (N - orig))) mod N" by (simp add: pos_def mod_add_right_eq)
  ultimately show ?thesis by simp
qed

lemma pos_0 [simp]: "k < N \<Longrightarrow> pos N 0 k = k"
  by (simp add: pos_def)

lemma disk_phys:
  assumes "disk_ok gran S N orig (sec_of ess) m" "orig < N"
  shows "disk_ok gran S N 0 (phys N orig ess) m"
  unfolding disk_ok_def
proof (intro conjI allI impI)
  show "N * S \<le> length m" using assms(1) by (simp add: disk_ok_def)
  fix k assume k: "k < N"
  have "(k + (N - orig)) mod N < N" using k by simp
  then show "sector_ok gran (pos N 0 k * S) (window (pos N 0 k * S) S m) (phys N orig ess k)"
    using assms(1) pos_phys[OF assms(2) k] k unfolding disk_ok_def phys_def by (metis pos_0)
qed

text \<open>Full sectors before the current one; after it blank ones, or full ones once all sectors have been in use.\<close>

lemma phys_shape:
  assumes "ts_shape N orig ess" "c = pos N orig (length ess - 1)"
  shows "c < N" "phys N orig ess c = (if last ess = [] then Blank else Open (last ess))"
    "k < c \<Longrightarrow> \<exists>es. phys N orig ess k = Closed es"
    "c < k \<Longrightarrow> k < N \<Longrightarrow> orig = 0 \<Longrightarrow> phys N orig ess k = Blank"
    "orig \<noteq> 0 \<Longrightarrow> k \<noteq> c \<Longrightarrow> k < N \<Longrightarrow> \<exists>es. phys N orig ess k = Closed es"
    "orig \<noteq> 0 \<Longrightarrow> c + 1 = orig"
proof -
  have sh: "orig < N" "ess \<noteq> []" "length ess \<le> N" "length ess < N \<Longrightarrow> orig = 0" using assms(1) by (simp_all add: ts_shape_def)
  have n: "length ess - 1 < N" using sh by (cases ess) auto
  show c: "c < N" unfolding assms(2) by (rule pos_less) (use sh(1) in simp)
  have turned: "(pos N orig j + (N - orig)) mod N = j" if "j < N" for j
    using pos_inj[of N orig "(pos N orig j + (N - orig)) mod N" j] pos_phys[OF sh(1) pos_less, of orig j] that by simp
  show "phys N orig ess c = (if last ess = [] then Blank else Open (last ess))"
    unfolding phys_def assms(2) turned[OF n] by (rule sec_of_last[OF sh(2)])
  show full: "\<exists>es. phys N orig ess k = Closed es" if "orig \<noteq> 0" "k \<noteq> c" "k < N" for k
  proof -
    have L: "length ess = N" using sh that(1) by fastforce
    let ?j = "(k + (N - orig)) mod N"
    have "?j \<noteq> N - 1" using pos_phys[OF sh(1) that(3)] that(2) assms(2) L by metis
    moreover have "?j < N" using that(3) by simp
    ultimately have "?j + 1 < N" by linarith
    then have "sec_of ess ?j = Closed (ess ! ?j)" by (simp only: sec_of_def L if_True)
    then show ?thesis unfolding phys_def by blast
  qed
  have z: "(k + (N - orig)) mod N = k" if "orig = 0" "k < N" for k using that by simp
  show "\<exists>es. phys N orig ess k = Closed es" if "k < c"
  proof (cases "orig = 0")
    case True
    then have "c = length ess - 1" using n assms(2) by simp
    then have "k + 1 < length ess" "(k + (N - orig)) mod N = k" using that c z[OF True, of k] by auto
    then have "phys N orig ess k = Closed (ess ! k)" by (simp only: phys_def sec_of_def if_True)
    then show ?thesis by blast
  next
    case False then show ?thesis using full that c by simp
  qed
  show "phys N orig ess k = Blank" if "c < k" "k < N" "orig = 0"
  proof -
    have "c = length ess - 1" using n assms(2) that(3) by simp
    then have "\<not> k + 1 < length ess" "k + 1 \<noteq> length ess" using that(1) by auto
    then show ?thesis using z[OF that(3,2)] by (simp only: phys_def sec_of_def if_False simp_thms)
  qed
  show "c + 1 = orig" if "orig \<noteq> 0"
  proof -
    have L: "length ess = N" using sh that(1) by fastforce
    have "orig + (N - 1) = (orig - 1) + N" using that sh(1) by simp
    then have "c = ((orig - 1) + N) mod N" unfolding assms(2) pos_def L by presburger
    then have "c = (orig - 1) mod N" by (simp only: mod_add_self2)
    moreover have "orig - 1 < N" using sh(1) by simp
    ultimately show ?thesis using that by simp
  qed
qed

section \<open>The walk over the headers\<close>

definition sec_desc :: "nat \<Rightarrow> nat \<Rightarrow> nat \<Rightarrow> ts_sector \<Rightarrow> tsdb_sec_info \<Rightarrow> bool" where
  "sec_desc gran A S X sec \<longleftrightarrow> (case X of Open es \<Rightarrow> cur_ok gran A S es sec | _ \<Rightarrow> sec_info gran A S X sec)"

lemma sec_desc_addr: "sec_desc gran A S X sec \<Longrightarrow> unat (sec_addr sec) = A"
  by (cases X) (simp_all add: sec_desc_def cur_ok_def sec_info_def)

lemma read_full:
  assumes s: "at_sec mem blk (parent db) A S m s b" and g: "gran \<in> grans" and A: "unat addr = A" and S: "unat (db_sec_size (parent db)) = S"
    and S31: "A + S \<le> 2 ^ 31" and b: "sector_ok gran A b X"
    and slot: "\<And>es. X = Open es \<Longrightarrow> slot_ok gran S (hsz gran + length es * isz gran) (S - used gran es)"
  obtains e sec' s' where "sec_desc gran A S X sec'" "at_sec mem blk (parent db) A S m s' b"
    "read_sector_info gran db addr sec True s = Some (e, sec', s')"
proof (cases X)
  case (Open es)
  show ?thesis
    by (rule read_cur[OF s g A S S31 b[unfolded Open] slot[OF Open], of sec], rule that) (simp_all add: sec_desc_def Open)
next
  case Blank
  show ?thesis
    by (rule read_hdr[OF s g A S S31 b[unfolded Blank], of sec True], rule that) (simp_all add: sec_desc_def Blank)
next
  case (Closed es)
  show ?thesis
    by (rule read_hdr[OF s g A S S31 b[unfolded Closed], of sec True], rule that) (simp_all add: sec_desc_def Closed)
qed

text \<open>A walk over all sectors with a callback that keeps an invariant and the flash.\<close>

lemma walk_ok:
  assumes env: "ts_env blk gran db" and d: "disk_ok gran (ts_S db) (ts_N db) 0 f m"
    and slot: "\<And>k es. k < ts_N db \<Longrightarrow> f k = Open es \<Longrightarrow> slot_ok gran (ts_S db) (hsz gran + length es * isz gran) (ts_S db - used gran es)"
    and cb: "\<And>k sec x s. k < ts_N db \<Longrightarrow> P k x \<Longrightarrow> sec_desc gran (k * ts_S db) (ts_S db) (f k) sec \<Longrightarrow>
      \<exists>x'. cb sec x s = Some (False, x', s) \<and> P (k + 1) x'"
    and k: "k < ts_N db" and s: "db_calm mem blk (parent db) s" "db_content mem (parent db) s = m"
    and a: "unat addr = k * ts_S db" and t: "unat t = k * ts_S db" and P: "P k x"
  shows "\<exists>x' s'. sector_iter_loop gran db FDB_SECTOR_STORE_UNUSED cb True addr t sector x s = Some (x', s') \<and> P (ts_N db) x' \<and>
    db_calm mem blk (parent db) s' \<and> db_content mem (parent db) s' = m"
  using k s a t P
proof (induction "ts_N db - k" arbitrary: k addr t sector x s)
  case (Suc n)
  let ?S = "ts_S db" and ?N = "ts_N db"
  note e = ts_envD[OF env] and k = Suc.prems(1)
  have d': "disk_ok gran ?S ?N 0 f (db_content mem (parent db) s)" using d Suc.prems(3) by simp
  note fo = ts_focus[OF env Suc.prems(2) d' k, unfolded Suc.prems(3) pos_0[OF k]] and S31 = ts_sector(1)[OF env k]
  let ?b = "window (k * ?S) ?S m"
  obtain sec1 s1 where 1: "sec_info gran (k * ?S) ?S (f k) sec1" "at_sec mem blk (parent db) (k * ?S) ?S m s1 ?b"
    "read_sector_info gran db addr sector False s = Some (FDB_NO_ERR, sec1, s1)"
    by (rule read_hdr[OF fo(1) e(1) Suc.prems(4) refl S31 fo(2), of sector False]) simp
  obtain e2 sec2 s2 where 2: "sec_desc gran (k * ?S) ?S (f k) sec2" "at_sec mem blk (parent db) (k * ?S) ?S m s2 ?b"
    "read_sector_info gran db addr sec1 True s1 = Some (e2, sec2, s2)"
    by (rule read_full[OF 1(2) e(1) Suc.prems(4) refl S31 fo(2) slot[OF k], of sec1])
  obtain x' where x': "cb sec2 x s2 = Some (False, x', s2)" "P (k + 1) x'" using cb[OF k Suc.prems(6) 2(1)] by blast
  have same: "db_calm mem blk (parent db) s2" "db_content mem (parent db) s2 = m"
    using at_secD(1,2,4)[OF 2(2)] blit_window by simp_all
  have a2: "unat (sec_addr sec2) = pos ?N 0 k * ?S" using sec_desc_addr[OF 2(1)] k by simp
  have tl: "unat (t + db_sec_size (parent db)) = (k + 1) * ?S"
    using unat_add_small[of t "db_sec_size (parent db)"] Suc.prems(5) sector_inside[OF k, of ?S] e(6) by simp
  note nt = next_traversed[OF env k a2 tl]
  let ?addr = "get_next_sector_addr db sec2 (t + db_sec_size (parent db))"
  have step: "sector_iter_loop gran db FDB_SECTOR_STORE_UNUSED cb True addr t sector x s =
    (if ?addr \<noteq> FAILED_ADDR then sector_iter_loop gran db FDB_SECTOR_STORE_UNUSED cb True ?addr (t + db_sec_size (parent db)) sec2 x' s2 else Some (x', s2))"
    by (subst sector_iter_loop.simps) (simp add: 1(3) 2(3) x'(1) Let_def)
  show ?case
  proof (cases "k + 1 = ?N")
    case True
    then show ?thesis using step nt(1) x'(2) same by simp
  next
    case False
    then have k1: "k + 1 < ?N" using k by simp
    have "\<exists>x'' s'. sector_iter_loop gran db FDB_SECTOR_STORE_UNUSED cb True ?addr (t + db_sec_size (parent db)) sec2 x' s2 = Some (x'', s') \<and>
      P ?N x'' \<and> db_calm mem blk (parent db) s' \<and> db_content mem (parent db) s' = m"
      by (rule Suc.hyps(1)[OF _ k1]) (use Suc.hyps(2) same nt(2)[OF k1] k1 tl x'(2) in simp_all)
    then show ?thesis using step nt(1) False by simp
  qed
qed simp

section \<open>What the check finds\<close>

text \<open>After \<open>k\<close> sectors, of which \<open>c\<close> is the current one: which sector is taken, how many are blank, the last of them.\<close>

definition checked :: "nat \<Rightarrow> fdb_tsdb \<Rightarrow> nat \<Rightarrow> log list list \<Rightarrow> nat \<Rightarrow> nat \<Rightarrow> check_args \<Rightarrow> bool" where
  "checked gran db orig ess c k a \<longleftrightarrow> \<not> check_failed a \<and> (\<exists>sec. ca_db a = db\<lparr>cur_sec := sec\<rparr> \<and>
     (if k \<le> c then sec_addr sec = FDB_DATA_UNUSED \<and> empty_num a = 0
      else cur_ok gran (c * ts_S db) (ts_S db) (last ess) sec \<and>
        (let first = (if last ess = [] then c else c + 1); hi = (if orig = 0 then k else c + 1) in
         empty_num a = hi - first \<and> (first < hi \<longrightarrow> unat (empty_addr a) = (hi - 1) * ts_S db))))"

lemma checkedI:
  assumes "\<not> check_failed a" "ca_db a = db\<lparr>cur_sec := sec\<rparr>" "c < k" "cur_ok gran (c * ts_S db) (ts_S db) (last ess) sec"
    "empty_num a = (if orig = 0 then k else c + 1) - (if last ess = [] then c else c + 1)"
    "(if last ess = [] then c else c + 1) < (if orig = 0 then k else c + 1) \<Longrightarrow>
       unat (empty_addr a) = ((if orig = 0 then k else c + 1) - 1) * ts_S db"
  shows "checked gran db orig ess c k a"
  unfolding checked_def Let_def using assms by (intro conjI exI[of _ sec]) auto

lemma checked_step:
  assumes env: "ts_env blk gran db" and sh: "ts_shape (ts_N db) orig ess" and c: "c = pos (ts_N db) orig (length ess - 1)"
    and k: "k < ts_N db" and P: "checked gran db orig ess c k a" and sec: "sec_desc gran (k * ts_S db) (ts_S db) (phys (ts_N db) orig ess k) sec"
  shows "\<exists>a'. check_sec_hdr_cb sec a s = Some (False, a', s) \<and> checked gran db orig ess c (k + 1) a'"
proof -
  note ph = phys_shape[OF sh c]
  obtain sec0 where a: "\<not> check_failed a" "ca_db a = db\<lparr>cur_sec := sec0\<rparr>" and
    q: "if k \<le> c then sec_addr sec0 = FDB_DATA_UNUSED \<and> empty_num a = 0
      else cur_ok gran (c * ts_S db) (ts_S db) (last ess) sec0 \<and>
        (let first = (if last ess = [] then c else c + 1); hi = (if orig = 0 then k else c + 1) in
         empty_num a = hi - first \<and> (first < hi \<longrightarrow> unat (empty_addr a) = (hi - 1) * ts_S db))"
    using P unfolding checked_def by blast
  have unused: "unat FDB_DATA_UNUSED = 2 ^ 32 - 1" by (simp add: FDB_DATA_UNUSED_def)
  consider "k < c" | "k = c" "last ess = []" | "k = c" "last ess \<noteq> []" | "c < k" "orig = 0" | "c < k" "orig \<noteq> 0" by linarith
  then show ?thesis
  proof cases
    case 1
    then obtain es where "phys (ts_N db) orig ess k = Closed es" using ph(3) by blast
    then have "sec_check_ok sec" "sec_status sec = FDB_SECTOR_STORE_FULL" using sec by (simp_all add: sec_desc_def sec_info_def)
    then have "check_sec_hdr_cb sec a s = Some (False, a, s)" by (simp add: check_sec_hdr_cb_def Let_def)
    then show ?thesis using 1 a q by (auto simp: checked_def)
  next
    case 2
    then have X: "cur_ok gran (c * ts_S db) (ts_S db) [] sec" using sec ph(2) by (simp add: sec_desc_def sec_info_blank)
    then have "check_sec_hdr_cb sec a s = Some (False, a\<lparr>ca_db := db\<lparr>cur_sec := sec\<rparr>, empty_num := 1, empty_addr := sec_addr sec\<rparr>, s)"
      using a q 2(1) by (simp add: check_sec_hdr_cb_def Let_def cur_ok_def)
    moreover have "unat (sec_addr sec) = c * ts_S db" using X by (simp add: cur_ok_def)
    then have "checked gran db orig ess c (k + 1) (a\<lparr>ca_db := db\<lparr>cur_sec := sec\<rparr>, empty_num := 1, empty_addr := sec_addr sec\<rparr>)"
      by (intro checkedI[where db = db and sec = sec]) (use X a 2 in simp_all)
    ultimately show ?thesis by blast
  next
    case 3
    then have X: "cur_ok gran (c * ts_S db) (ts_S db) (last ess) sec" using sec ph(2) by (simp add: sec_desc_def)
    then have "check_sec_hdr_cb sec a s = Some (False, a\<lparr>ca_db := db\<lparr>cur_sec := sec\<rparr>\<rparr>, s)"
      using a q 3 by (simp add: check_sec_hdr_cb_def Let_def cur_ok_def)
    moreover have "checked gran db orig ess c (k + 1) (a\<lparr>ca_db := db\<lparr>cur_sec := sec\<rparr>\<rparr>)"
      by (rule checkedI[where db = db and sec = sec]) (use X a q 3 in \<open>auto split: if_splits\<close>)
    ultimately show ?thesis by blast
  next
    case 4
    then have "phys (ts_N db) orig ess k = Blank" using ph(4) k by blast
    then have st: "sec_check_ok sec" "sec_status sec = FDB_SECTOR_STORE_EMPTY" "unat (sec_addr sec) = k * ts_S db" using sec by (simp_all add: sec_desc_def sec_info_def)
    have "c * ts_S db + ts_S db \<le> 2 ^ 31" by (rule ts_sector(1)[OF env ph(1)])
    then have "sec_addr sec0 \<noteq> FDB_DATA_UNUSED" using q 4 unused by (auto simp: cur_ok_def)
    then have "check_sec_hdr_cb sec a s = Some (False, a\<lparr>empty_num := empty_num a + 1, empty_addr := sec_addr sec\<rparr>, s)"
      using a st by (simp add: check_sec_hdr_cb_def Let_def)
    then show ?thesis using a q 4 st(3) by (auto simp: checked_def Let_def Suc_diff_le)
  next
    case 5
    then obtain es where "phys (ts_N db) orig ess k = Closed es" using ph(5)[of k] k by auto
    then have "sec_check_ok sec" "sec_status sec = FDB_SECTOR_STORE_FULL" using sec by (simp_all add: sec_desc_def sec_info_def)
    then have "check_sec_hdr_cb sec a s = Some (False, a, s)" by (simp add: check_sec_hdr_cb_def Let_def)
    then show ?thesis using 5 a q by (auto simp: checked_def)
  qed
qed

lemma locate_ok:
  assumes env: "ts_env blk gran db" and sh: "ts_shape (ts_N db) orig ess" and c: "c = pos (ts_N db) orig (length ess - 1)"
    and a: "checked gran db orig ess c (ts_N db) a" and roll: "rollover db"
  obtains sec old where "locate_oldest a = db\<lparr>cur_sec := sec, oldest_addr := old\<rparr>" "cur_ok gran (c * ts_S db) (ts_S db) (last ess) sec"
    "unat old = orig * ts_S db"
proof -
  note ph = phys_shape[OF sh c] and e = ts_envD[OF env]
  let ?N = "ts_N db" and ?S = "ts_S db"
  define first where "first = (if last ess = [] then c else c + 1)"
  define hi where "hi = (if orig = 0 then ?N else c + 1)"
  obtain sec where s: "ca_db a = db\<lparr>cur_sec := sec\<rparr>" "cur_ok gran (c * ?S) ?S (last ess) sec"
    "empty_num a = hi - first" "first < hi \<Longrightarrow> unat (empty_addr a) = (hi - 1) * ?S"
    using a ph(1) unfolding checked_def first_def hi_def Let_def by auto
  define latest where "latest = (if empty_num a > 0 then empty_addr a else sec_addr sec)"
  define i where "i = (if first < hi then hi - 1 else c)"
  have i: "i < ?N" "(i + 1) mod ?N = orig"
  proof -
    have "hi \<le> ?N" "orig < ?N" using ph(1) sh by (auto simp: hi_def ts_shape_def)
    then show "i < ?N" using ph(1) by (auto simp: i_def)
    show "(i + 1) mod ?N = orig"
    proof (cases "orig = 0")
      case True
      then have "i + 1 = ?N" using ph(1) by (auto simp: i_def hi_def first_def split: if_splits)
      then show ?thesis using True by simp
    next
      case False
      then have "i + 1 = orig" using ph(6) by (auto simp: i_def hi_def first_def split: if_splits)
      then show ?thesis using \<open>orig < ?N\<close> by simp
    qed
  qed
  have "unat latest = i * ?S" using s by (simp add: latest_def i_def cur_ok_def)
  from next_sec_addr(1)[OF env this i(1)] i(2)
  have old: "unat (if latest + db_sec_size (parent db) < db_max_size (parent db) then latest + db_sec_size (parent db) else 0) = orig * ?S" by simp
  have "locate_oldest a = db\<lparr>cur_sec := sec, oldest_addr := (if latest + db_sec_size (parent db) < db_max_size (parent db) then latest + db_sec_size (parent db) else 0)\<rparr>"
    using s(1) roll by (simp add: locate_oldest_def Let_def latest_def not_less)
  then show ?thesis using that s(2) old by blast
qed

lemma check_sectors_ok:
  assumes env: "ts_env blk gran db" and r: "db_calm mem blk (parent db) s" and d: "disk_ok gran (ts_S db) (ts_N db) orig (sec_of ess) (db_content mem (parent db) s)"
    and sh: "ts_shape (ts_N db) orig ess" and db: "rollover db" "sec_addr (cur_sec db) = FDB_DATA_UNUSED"
    and slot: "slot_ok gran (ts_S db) (hsz gran + length (last ess) * isz gran) (ts_S db - used gran (last ess))"
  obtains sec old s' where "check_sectors gran junk db s = Some (FDB_NO_ERR, db\<lparr>cur_sec := sec, oldest_addr := old\<rparr>, s')"
    "cur_ok gran (pos (ts_N db) orig (length ess - 1) * ts_S db) (ts_S db) (last ess) sec" "unat old = orig * ts_S db"
    "db_calm mem blk (parent db) s'" "db_content mem (parent db) s' = db_content mem (parent db) s"
proof -
  note e = ts_envD[OF env]
  define c where "c = pos (ts_N db) orig (length ess - 1)"
  note ph = phys_shape[OF sh c_def]
  let ?a0 = "\<lparr>ca_db = db, check_failed = False, empty_num = 0, empty_addr = 0\<rparr>"
  have o: "orig < ts_N db" using sh by (simp add: ts_shape_def)
  have sl: "slot_ok gran (ts_S db) (hsz gran + length es * isz gran) (ts_S db - used gran es)"
    if "k < ts_N db" "phys (ts_N db) orig ess k = Open es" for k es
  proof -
    have "k = c"
    proof (rule ccontr)
      assume "k \<noteq> c"
      then consider "k < c" | "c < k" "orig = 0" | "orig \<noteq> 0" by linarith
      then show False using ph(3,4,5)[of k] that \<open>k \<noteq> c\<close> by cases auto
    qed
    then have "es = last ess" using ph(2) that(2) by (auto split: if_splits)
    then show ?thesis using slot by simp
  qed
  have start: "checked gran db orig ess c 0 ?a0" using db(2) by (auto simp: checked_def intro!: exI[of _ "cur_sec db"])
  have "\<exists>a s'. sector_iter_loop gran db FDB_SECTOR_STORE_UNUSED check_sec_hdr_cb True 0 0 (junk\<lparr>sec_addr := 0\<rparr>) ?a0 s = Some (a, s') \<and>
      checked gran db orig ess c (ts_N db) a \<and> db_calm mem blk (parent db) s' \<and> db_content mem (parent db) s' = db_content mem (parent db) s"
    by (rule walk_ok[OF env disk_phys[OF d o] sl checked_step[OF env sh c_def] _ r refl _ _ start]) (use e(5) in simp_all)
  then obtain a s' where w: "sector_iter_loop gran db FDB_SECTOR_STORE_UNUSED check_sec_hdr_cb True 0 0 (junk\<lparr>sec_addr := 0\<rparr>) ?a0 s = Some (a, s')"
    "checked gran db orig ess c (ts_N db) a" "db_calm mem blk (parent db) s'" "db_content mem (parent db) s' = db_content mem (parent db) s" by blast
  obtain sec old where l: "locate_oldest a = db\<lparr>cur_sec := sec, oldest_addr := old\<rparr>" "cur_ok gran (c * ts_S db) (ts_S db) (last ess) sec" "unat old = orig * ts_S db"
    by (rule locate_ok[OF env sh c_def w(2) db(1)])
  have "\<not> check_failed a" using w(2) by (simp add: checked_def)
  then have "check_sectors gran junk db s = Some (FDB_NO_ERR, db\<lparr>cur_sec := sec, oldest_addr := old\<rparr>, s')"
    using w(1) l(1) by (simp add: check_sectors_def sector_iterator_def)
  then show ?thesis using that l(2,3) w(3,4) unfolding c_def by blast
qed

text \<open>The last time comes from the sector in use, or from the one before a blank one.\<close>

lemma load_last_ok:
  assumes rep: "ts_env blk gran db" "db_calm mem blk (parent db) s" "disk_ok gran (ts_S db) (ts_N db) orig (sec_of ess) (db_content mem (parent db) s)"
    "ts_shape (ts_N db) orig ess" "unat (oldest_addr db) = orig * ts_S db"
    and cur: "cur_ok gran (pos (ts_N db) orig (length ess - 1) * ts_S db) (ts_S db) (last ess) (cur_sec db)"
  obtains t s' where "load_last_time gran junk db s = Some (db\<lparr>last_time := t\<rparr>, s')" "ts_rep mem blk gran orig ess (db\<lparr>last_time := t\<rparr>) s'"
    "db_content mem (parent db) s' = db_content mem (parent db) s" "concat ess = [] \<longrightarrow> t = last_time db"
proof -
  let ?N = "ts_N db" and ?S = "ts_S db" and ?n = "length ess - 1"
  note e = ts_envD[OF rep(1)]
  have sh: "orig < ?N" "ess \<noteq> []" "length ess \<le> ?N" using rep(4) by (simp_all add: ts_shape_def)
  have n: "?n < ?N" using sh by (cases ess) auto
  have fin: "ts_rep mem blk gran orig ess (db\<lparr>last_time := t\<rparr>) s'"
    if "db_calm mem blk (parent db) s'" "db_content mem (parent db) s' = db_content mem (parent db) s"
      "concat ess \<noteq> [] \<longrightarrow> t = log_time (last (concat ess))" for t s'
    using that rep cur by (simp add: ts_rep_def ts_mem_def ts_N_def ts_env_def)
  have k: "pos ?N orig ?n < ?N" by (rule pos_less) (use n in simp)
  have "length ess = 1 \<or> 1 < length ess" using sh(2) by (cases ess) auto
  then consider "last ess \<noteq> []" | "last ess = []" "length ess = 1" | "last ess = []" "1 < length ess" by blast
  then show ?thesis
  proof cases
    case 1
    then have "load_last_time gran junk db s = Some (db\<lparr>last_time := log_time (last (last ess))\<rparr>, s)"
      using cur by (simp add: load_last_time_def Let_def cur_ok_def)
    then show ?thesis by (rule that) (use fin[OF rep(2) refl] last_concat[OF sh(2) 1] in auto)
  next
    case 2
    then have "ess = [[]]" by (cases ess) auto
    moreover have "oldest_addr db = sec_addr (cur_sec db)"
      using rep(5) cur 2 sh(1) by (simp add: cur_ok_def pos_def word_unat_eq_iff)
    then have "load_last_time gran junk db s = Some (db\<lparr>last_time := last_time db\<rparr>, s)"
      using cur 2 by (simp add: load_last_time_def Let_def cur_ok_def)
    ultimately show ?thesis by (intro that[of "last_time db" s]) (use fin[OF rep(2) refl, of "last_time db"] in simp_all)
  next
    case 3
    let ?j = "length ess - 2" and ?sz = "db_sec_size (parent db)"
    let ?c = "sec_addr (cur_sec db)"
    have j: "?j < ?N" "?j + 1 = ?n" "?n \<noteq> 0" using 3(2) n by simp_all
    have ca: "unat ?c = pos ?N orig ?n * ?S" using cur by (simp add: cur_ok_def)
    have ne: "oldest_addr db \<noteq> ?c"
    proof
      assume "oldest_addr db = ?c"
      then have "orig * ?S = pos ?N orig ?n * ?S" using rep(5) ca by metis
      then have "pos ?N orig 0 = pos ?N orig ?n" using e(9) sh(1) by (simp add: pos_def)
      then show False using pos_inj[of ?N orig 0 ?n] n j(3) by simp
    qed
    let ?addr = "if ?c = 0 then db_max_size (parent db) - ?sz else ?c - ?sz"
    have kj: "pos ?N orig ?j < ?N" by (rule pos_less) (use n in simp)
    have addr: "unat ?addr = pos ?N orig ?j * ?S"
    proof -
      have ps: "pos ?N orig ?n = (pos ?N orig ?j + 1) mod ?N" using pos_Suc[of ?N orig ?j] j(2) by simp
      have c0: "?c = 0 \<longleftrightarrow> pos ?N orig ?n = 0" 
      proof -
        have "?c = 0 \<longleftrightarrow> unat ?c = 0" by (simp only: unat_eq_0)
        then show ?thesis unfolding ca using e(9) by simp
      qed
      show ?thesis
      proof (cases "pos ?N orig ?j + 1 = ?N")
        case True
        then have "pos ?N orig ?n = 0" using ps by simp
        moreover have "unat (db_max_size (parent db) - ?sz) = ?N * ?S - ?S"
          using e(4) mult_le_mono1[OF e(5), of ?S] by (simp add: unat_sub word_le_nat_alt)
        moreover have "?N * ?S - ?S = pos ?N orig ?j * ?S"
        proof -
          have "(pos ?N orig ?j + 1) * ?S = ?N * ?S" by (simp only: True)
          then show ?thesis by simp
        qed
        ultimately show ?thesis using c0 by simp
      next
        case False
        then have "pos ?N orig ?n = pos ?N orig ?j + 1" using ps kj by simp
        then have "?c \<noteq> 0" "unat ?c = pos ?N orig ?j * ?S + ?S" using c0 ca by simp_all
        then show ?thesis by (simp add: unat_sub word_le_nat_alt)
      qed
    qed
    have X: "sec_of ess ?j = Closed (ess ! ?j)" using 3(2) by (simp add: sec_of_def)
    note fo = ts_focus[OF rep(1,2,3) j(1)]
    obtain sec s' where 1: "sec_info gran (pos ?N orig ?j * ?S) ?S (sec_of ess ?j) sec"
      "at_sec mem blk (parent db) (pos ?N orig ?j * ?S) ?S (db_content mem (parent db) s) s' (window (pos ?N orig ?j * ?S) ?S (db_content mem (parent db) s))"
      "read_sector_info gran db ?addr junk False s = Some (FDB_NO_ERR, sec, s')"
      by (rule read_hdr[OF fo(1) e(1) addr refl ts_sector(1)[OF rep(1) kj] fo(2), of junk False]) (simp add: X)
    have same: "db_calm mem blk (parent db) s'" "db_content mem (parent db) s' = db_content mem (parent db) s"
      using at_secD(1,2,4)[OF 1(2)] blit_window by simp_all
    have "load_last_time gran junk db s = Some (db\<lparr>last_time := end_time sec\<rparr>, s')"
      using cur 3(1) ne 1(3) by (simp add: load_last_time_def Let_def cur_ok_def)
    moreover have "concat ess \<noteq> [] \<longrightarrow> end_time sec = log_time (last (concat ess))"
    proof -
      have "ess ! ?j \<noteq> []" using fo(2) X by simp
      moreover have "ess = butlast ess @ [[]]" using 3(1) sh(2) by (metis append_butlast_last_id)
      moreover have "last (butlast ess) = ess ! ?j" using 3(2) by (simp add: last_conv_nth nth_butlast numeral_2_eq_2 flip: length_greater_0_conv)
      moreover have "butlast ess \<noteq> []" using 3(2) by (cases ess) auto
      ultimately have "last (concat ess) = last (ess ! ?j)"
        using last_concat[of "butlast ess"] by (metis concat.simps(1,2) concat_append append_Nil2)
      then show ?thesis using 1(1) X by (simp add: sec_info_def)
    qed
    moreover have "concat ess \<noteq> []"
    proof -
      have "ess ! ?j \<noteq> []" "ess ! ?j \<in> set ess" using fo(2) X 3(2) by (simp_all del: One_nat_def)
      then show ?thesis by auto
    qed
    ultimately show ?thesis using that fin[OF same] same(2) by blast
  qed
qed

section \<open>Initialisation\<close>

text \<open>The flash does not depend on whether the database is initialised.\<close>

lemma init_ok_irrelevant:
  "fdb_flash_read (db\<lparr>db_init_ok := b\<rparr>) = fdb_flash_read db" "fdb_flash_write (db\<lparr>db_init_ok := b\<rparr>) = fdb_flash_write db"
  "fdb_flash_erase (db\<lparr>db_init_ok := b\<rparr>) = fdb_flash_erase db" "db_content mem (db\<lparr>db_init_ok := b\<rparr>) = db_content mem db"
  "db_calm mem blk (db\<lparr>db_init_ok := b\<rparr>) = db_calm mem blk db"
  by (intro ext, simp add: fdb_flash_read_def fdb_flash_write_def fdb_flash_erase_def db_content_def db_calm_def db_ready_def)+

lemma init_ok_rep:
  assumes "ts_rep mem blk gran orig ess db s"
  shows "ts_rep mem blk gran orig ess (db\<lparr>parent := (parent db)\<lparr>db_init_ok := b\<rparr>\<rparr>) s"
  using assms by (simp add: ts_rep_def ts_env_def ts_mem_def ts_N_def init_ok_irrelevant)

lemma max_length_less:
  assumes "ts_env blk gran db"
  shows "max_len db < db_sec_size (parent db)"
proof -
  note e = ts_envD[OF assms]
  have "unat (max_len db) < ts_S db" using e(8) pad_ge[OF e(1), of "unat (max_len db)"] layout_values[OF e(1)] by auto
  then show ?thesis by (simp add: word_less_nat_alt)
qed

lemma db1_max_len: "db1 = db\<lparr>parent := p, max_len := n\<rparr> \<Longrightarrow> max_len db1 = n"
  by simp

lemma init_start:
  "db1 = db\<lparr>parent := p, max_len := n\<rparr> \<Longrightarrow>
     db\<lparr>parent := p, max_len := n, rollover := b, oldest_addr := x, cur_sec := (cur_sec db)\<lparr>sec_addr := y\<rparr>\<rparr> =
     db1\<lparr>rollover := b, oldest_addr := x, cur_sec := (cur_sec db1)\<lparr>sec_addr := y\<rparr>\<rparr>"
  by simp

text \<open>The end of the initialisation, once the current and the oldest sector are known.\<close>

lemma init_tail:
  assumes env: "ts_env blk gran db" and r: "db_calm mem blk (parent db) s" and d: "disk_ok gran (ts_S db) (ts_N db) orig (sec_of ess) (db_content mem (parent db) s)"
    and sh: "ts_shape (ts_N db) orig ess" and slot: "slot_ok gran (ts_S db) (hsz gran + length (last ess) * isz gran) (ts_S db - used gran (last ess))"
    and old: "unat (oldest_addr db) = orig * ts_S db"
    and c: "cur_ok gran (pos (ts_N db) orig (length ess - 1) * ts_S db) (ts_S db) (last ess) (cur_sec db)"
  obtains e sec s' db'' s'' where "read_sector_info gran db (sec_addr (cur_sec db)) (cur_sec db) True s = Some (e, sec, s')"
    "load_last_time gran junk (db\<lparr>cur_sec := sec\<rparr>) s' = Some (db'', s'')" "ts_rep mem blk gran orig ess db'' s''" "same_db db db''"
    "db_content mem (parent db) s'' = db_content mem (parent db) s" "concat ess = [] \<longrightarrow> last_time db'' = last_time db"
proof -
  let ?N = "ts_N db" and ?S = "ts_S db"
  let ?c = "pos ?N orig (length ess - 1)"
  note e = ts_envD[OF env]
  have n: "length ess - 1 < ?N" using sh by (cases ess) (auto simp: ts_shape_def)
  have k: "?c < ?N" by (rule pos_less) (use n in simp)
  note fo = ts_focus[OF env r d n]
  have a: "unat (sec_addr (cur_sec db)) = ?c * ?S" using c by (simp add: cur_ok_def)
  have X: "sec_of ess (length ess - 1) = (if last ess = [] then Blank else Open (last ess))" using sec_of_last sh by (simp add: ts_shape_def)
  obtain e1 sec s1 where 1: "sec_desc gran (?c * ?S) ?S (sec_of ess (length ess - 1)) sec"
    "at_sec mem blk (parent db) (?c * ?S) ?S (db_content mem (parent db) s) s1 (window (?c * ?S) ?S (db_content mem (parent db) s))"
    "read_sector_info gran db (sec_addr (cur_sec db)) (cur_sec db) True s = Some (e1, sec, s1)"
    by (rule read_full[OF fo(1) e(1) a refl ts_sector(1)[OF env k] fo(2), of "cur_sec db"]) (use X slot in \<open>auto split: if_splits\<close>)
  have cur: "cur_ok gran (?c * ?S) ?S (last ess) sec" using 1(1) X by (auto simp: sec_desc_def sec_info_blank split: if_splits)
  have same: "db_calm mem blk (parent db) s1" "db_content mem (parent db) s1 = db_content mem (parent db) s"
    using at_secD(1,2,4)[OF 1(2)] blit_window by simp_all
  let ?db = "db\<lparr>cur_sec := sec\<rparr>"
  have p: "parent ?db = parent db" "ts_N ?db = ?N" "cur_sec ?db = sec" "oldest_addr ?db = oldest_addr db" by (simp_all add: ts_N_def)
  have env2: "ts_env blk gran ?db" using env by (simp add: ts_env_def)
  have d2: "disk_ok gran ?S ?N orig (sec_of ess) (db_content mem (parent db) s1)" using d same(2) by simp
  obtain t s2 where 2: "load_last_time gran junk ?db s1 = Some (?db\<lparr>last_time := t\<rparr>, s2)" "ts_rep mem blk gran orig ess (?db\<lparr>last_time := t\<rparr>) s2"
    "db_content mem (parent db) s2 = db_content mem (parent db) s1" "concat ess = [] \<longrightarrow> t = last_time ?db"
    by (rule load_last_ok[OF env2, unfolded p, OF same(1) d2 sh old cur, of junk])
  show ?thesis by (rule that[OF 1(3) 2(1,2)]) (use 2(4) in \<open>simp_all add: same_db_def 2(3) same(2)\<close>)
qed

lemma restart_ok:
  assumes env: "ts_env blk gran db1" and r: "db_calm mem blk (parent db1) s1" and d: "disk_ok gran (ts_S db1) (ts_N db1) orig (sec_of ess) (db_content mem (parent db1) s1)"
    and sh: "ts_shape (ts_N db1) orig ess" and slot: "slot_ok gran (ts_S db1) (hsz gran + length (last ess) * isz gran) (ts_S db1 - used gran (last ess))"
    and init: "fdb_init_ex (parent db) name path FDB_DB_TYPE_TS s = Some (FDB_NO_ERR, parent db1, s1)"
    and db1: "db1 = db\<lparr>parent := parent db1, max_len := max_length\<rparr>"
  shows "\<exists>db' s'. fdb_tsdb_init gran junk db name path max_length s = Some (FDB_NO_ERR, db', s') \<and> ts_rep mem blk gran orig ess db' s' \<and>
    db_init_ok (parent db') \<and> rollover db' \<and> db_content mem (parent db') s' = db_content mem (parent db1) s1"
proof -
  let ?N = "ts_N db1" and ?S = "ts_S db1"
  let ?db2 = "db1\<lparr>rollover := True, oldest_addr := FDB_DATA_UNUSED, cur_sec := (cur_sec db1)\<lparr>sec_addr := FDB_DATA_UNUSED\<rparr>\<rparr>"
  have p2: "parent ?db2 = parent db1" "ts_N ?db2 = ?N" by (simp_all add: ts_N_def)
  have env2: "ts_env blk gran ?db2" using env by (simp add: ts_env_def)
  obtain sec old s2 where 2: "check_sectors gran junk ?db2 s1 = Some (FDB_NO_ERR, ?db2\<lparr>cur_sec := sec, oldest_addr := old\<rparr>, s2)"
    "cur_ok gran (pos ?N orig (length ess - 1) * ?S) ?S (last ess) sec" "unat old = orig * ?S"
    "db_calm mem blk (parent db1) s2" "db_content mem (parent db1) s2 = db_content mem (parent db1) s1"
    by (rule check_sectors_ok[OF env2, unfolded p2, OF r d sh _ _ slot, of junk]) simp_all
  let ?db3 = "?db2\<lparr>cur_sec := sec, oldest_addr := old\<rparr>"
  have p3: "parent ?db3 = parent db1" "ts_N ?db3 = ?N" "cur_sec ?db3 = sec" "oldest_addr ?db3 = old" by (simp_all add: ts_N_def)
  have env3: "ts_env blk gran ?db3" using env by (simp add: ts_env_def)
  have d2: "disk_ok gran ?S ?N orig (sec_of ess) (db_content mem (parent db1) s2)" using d 2(5) by simp
  obtain e3 sec3 s3 db4 s4 where 3: "read_sector_info gran ?db3 (sec_addr sec) sec True s2 = Some (e3, sec3, s3)"
    "load_last_time gran junk (?db3\<lparr>cur_sec := sec3\<rparr>) s3 = Some (db4, s4)" "ts_rep mem blk gran orig ess db4 s4" "same_db ?db3 db4"
    "db_content mem (parent db1) s4 = db_content mem (parent db1) s2"
    by (rule init_tail[OF env3, unfolded p3, OF 2(4) d2 sh slot 2(3,2), of junk])
  have p4: "parent db4 = parent db1" "rollover db4" using 3(4) by (simp_all add: same_db_def)
  have "fdb_tsdb_init gran junk db name path max_length s = Some (FDB_NO_ERR, db4\<lparr>parent := (parent db4)\<lparr>db_init_ok := True\<rparr>\<rparr>, s4)"
    unfolding fdb_tsdb_init_def
    using init max_length_less[OF env] init_start[OF db1] 2(1) 3(1,2) db1_max_len[OF db1] by (simp add: fdb_init_finish_def)
  then show ?thesis using init_ok_rep[OF 3(3), of True] 3(5) 2(5) p4 by (simp add: init_ok_irrelevant)
qed

end
