(* ===== verification/Tsdb_Fresh.thy ===== *)
theory Tsdb_Fresh
  imports Tsdb_Restart
begin

text \<open>
  The first start: a flash without the magic word of a database is formatted and becomes the
  empty database.
\<close>

definition no_magic :: "nat \<Rightarrow> u8 list \<Rightarrow> bool" where
  "no_magic gran b \<longleftrightarrow> window (SECTOR_MAGIC_OFFSET gran) 4 b \<noteq> put_le32 SECTOR_MAGIC_WORD"

lemma read_no_magic:
  assumes s: "at_sec mem blk (parent db) A S m s b" and g: "gran \<in> grans" and A: "unat addr = A" and hS: "hsz gran \<le> S" and b: "no_magic gran b"
  obtains w s' where "read_sector_info gran db addr sec tr s = Some (FDB_INIT_FAILED, sec\<lparr>sec_addr := addr, sec_magic := w, sec_check_ok := False\<rparr>, s')"
    "at_sec mem blk (parent db) A S m s' b"
proof -
  note o = hdr_layout[OF g]
  let ?n = "sizeof_sector_hdr gran" and ?o = "SECTOR_MAGIC_OFFSET gran"
  have lb: "length b = S" using at_secD(3)[OF s] .
  obtain s' where s': "fdb_flash_read (parent db) addr (of_nat ?n) s = Some (FDB_NO_ERR, window 0 ?n b, s')" "at_sec mem blk (parent db) A S m s' b"
    using at_sec_read[OF s, of addr 0 "of_nat ?n"] A unat_hdr_size[OF g] o(9) hS lb by auto
  let ?w = "le32 (window ?o 4 b) 0"
  have wb: "word_at b ?o ?w" using put_le32_le32[of "window ?o 4 b"] o hS lb by (simp add: word_at_def)
  have "rd32 (window 0 ?n b) ?o = Some ?w"
    by (rule rd32_window) (use wb o hS lb in simp_all)
  moreover have "?w \<noteq> SECTOR_MAGIC_WORD" using wb b by (auto simp: word_at_def no_magic_def)
  ultimately show ?thesis using that s' by (simp add: read_sector_info_def Let_def)
qed

definition half_formatted :: "nat \<Rightarrow> nat \<Rightarrow> nat \<Rightarrow> nat \<Rightarrow> u8 list \<Rightarrow> bool" where
  "half_formatted gran S N k m \<longleftrightarrow> N * S \<le> length m \<and>
     (\<forall>i<N. if i < k then sector_ok gran (i * S) (window (i * S) S m) Blank else no_magic gran (window (i * S) S m))"

lemma half_formatted_step:
  assumes h: "half_formatted gran S N k m" and k: "k < N" and b: "sector_ok gran (k * S) b Blank" "length b = S"
  shows "half_formatted gran S N (k + 1) (blit m (k * S) b)"
proof -
  have len: "k * S + length b \<le> length m" using sector_inside[OF k, of S] h b(2) by (simp add: half_formatted_def)
  have w: "window (i * S) S (blit m (k * S) b) = (if i = k then b else window (i * S) S m)" if i: "i < N" for i
  proof (cases "i = k")
    case True
    then show ?thesis using window_blit_same[OF len, of 0 S] b(2) by (simp add: window_def)
  next
    case False
    then show ?thesis using window_blit_other[OF len, of "i * S" S] sectors_apart[OF False, of S] sector_inside[OF i, of S] h b(2)
      by (simp add: half_formatted_def)
  qed
  show ?thesis unfolding half_formatted_def
  proof (intro conjI allI impI)
    show "N * S \<le> length (blit m (k * S) b)" using h len by (simp add: half_formatted_def)
    fix i assume i: "i < N"
    show "if i < k + 1 then sector_ok gran (i * S) (window (i * S) S (blit m (k * S) b)) Blank
      else no_magic gran (window (i * S) S (blit m (k * S) b))"
      using h i b(1) w[OF i] by (cases "i = k") (auto simp: half_formatted_def)
  qed
qed

lemma format_walk:
  assumes env: "ts_env blk gran db" and k: "k < ts_N db" and r: "db_calm mem blk (parent db) s"
    and h: "half_formatted gran (ts_S db) (ts_N db) k (db_content mem (parent db) s)"
    and a: "unat addr = k * ts_S db" and t: "unat t = k * ts_S db"
  shows "\<exists>s'. sector_iter_loop gran db FDB_SECTOR_STORE_UNUSED (format_all_cb gran) False addr t sector db s = Some (db, s') \<and>
    db_calm mem blk (parent db) s' \<and> half_formatted gran (ts_S db) (ts_N db) (ts_N db) (db_content mem (parent db) s')"
  using k r h a t
proof (induction "ts_N db - k" arbitrary: k addr t sector s)
  case (Suc n)
  let ?S = "ts_S db" and ?N = "ts_N db" and ?m = "db_content mem (parent db) s"
  note e = ts_envD[OF env] and k = Suc.prems(1)
  let ?b = "window (k * ?S) ?S ?m"
  note S31 = ts_sector(1)[OF env k]
  have at: "at_sec mem blk (parent db) (k * ?S) ?S ?m s ?b"
    by (rule at_sec_start[OF Suc.prems(2)]) (use ts_sector(2)[OF env k] length_calm[OF Suc.prems(2)] in simp)
  have nm: "no_magic gran ?b" using Suc.prems(3) k by (simp add: half_formatted_def)
  obtain w s1 where 1: "read_sector_info gran db addr sector False s = Some (FDB_INIT_FAILED, sector\<lparr>sec_addr := addr, sec_magic := w, sec_check_ok := False\<rparr>, s1)"
    "at_sec mem blk (parent db) (k * ?S) ?S ?m s1 ?b"
    by (rule read_no_magic[OF at e(1) Suc.prems(4) e(10) nm, of sector False])
  let ?sec = "sector\<lparr>sec_addr := addr, sec_magic := w, sec_check_ok := False\<rparr>"
  obtain s2 b2 where 2: "format_sector gran db addr s1 = Some (FDB_NO_ERR, s2)" "at_sec mem blk (parent db) (k * ?S) ?S ?m s2 b2" "sector_ok gran (k * ?S) b2 Blank"
    using format_ok[OF e(1) 1(2) S31 Suc.prems(4) refl _ e(3,10)] by auto
  have h2: "half_formatted gran ?S ?N (k + 1) (db_content mem (parent db) s2)"
    using half_formatted_step[OF Suc.prems(3) k 2(3)] at_secD(2,3)[OF 2(2)] by simp
  have r2: "db_calm mem blk (parent db) s2" using at_secD(1)[OF 2(2)] .
  have a2: "unat (sec_addr ?sec) = pos ?N 0 k * ?S" using Suc.prems(4) k by simp
  have tl: "unat (t + db_sec_size (parent db)) = (k + 1) * ?S"
    using unat_add_small[of t "db_sec_size (parent db)"] Suc.prems(5) sector_inside[OF k, of ?S] e(6) by simp
  note nt = next_traversed[OF env k a2 tl]
  let ?addr = "get_next_sector_addr db ?sec (t + db_sec_size (parent db))"
  have step: "sector_iter_loop gran db FDB_SECTOR_STORE_UNUSED (format_all_cb gran) False addr t sector db s =
    (if ?addr \<noteq> FAILED_ADDR then sector_iter_loop gran db FDB_SECTOR_STORE_UNUSED (format_all_cb gran) False ?addr (t + db_sec_size (parent db)) ?sec db s2 else Some (db, s2))"
    by (subst sector_iter_loop.simps) (simp add: 1(1) 2(1) format_all_cb_def Let_def)
  show ?case
  proof (cases "k + 1 = ?N")
    case True
    then show ?thesis using step nt(1) h2 r2 by simp
  next
    case False
    then have k1: "k + 1 < ?N" using k by simp
    have "\<exists>s'. sector_iter_loop gran db FDB_SECTOR_STORE_UNUSED (format_all_cb gran) False ?addr (t + db_sec_size (parent db)) ?sec db s2 = Some (db, s') \<and>
      db_calm mem blk (parent db) s' \<and> half_formatted gran ?S ?N ?N (db_content mem (parent db) s')"
      by (rule Suc.hyps(1)[OF _ k1 r2 h2]) (use Suc.hyps(2) nt(2)[OF k1] k1 tl in simp_all)
    then show ?thesis using step nt(1) False by simp
  qed
qed simp

lemma formatted_disk:
  assumes "half_formatted gran S N N m"
  shows "disk_ok gran S N 0 (sec_of [[]]) m"
  using assms by (simp add: half_formatted_def disk_ok_def sec_of_def)

lemma format_all_ok:
  assumes env: "ts_env blk gran db" and r: "db_calm mem blk (parent db) s" and h: "half_formatted gran (ts_S db) (ts_N db) 0 (db_content mem (parent db) s)"
  obtains sec s' where "tsl_format_all gran junk db s = Some (db\<lparr>oldest_addr := 0, last_time := 0, cur_sec := sec\<rparr>, s')" "cur_ok gran 0 (ts_S db) [] sec"
    "db_calm mem blk (parent db) s'" "disk_ok gran (ts_S db) (ts_N db) 0 (sec_of [[]]) (db_content mem (parent db) s')"
proof -
  let ?S = "ts_S db" and ?N = "ts_N db"
  note e = ts_envD[OF env]
  have N0: "0 < ?N" using e(5) by simp
  obtain s1 where 1: "sector_iter_loop gran db FDB_SECTOR_STORE_UNUSED (format_all_cb gran) False 0 0 (junk\<lparr>sec_addr := 0\<rparr>) db s = Some (db, s1)"
    "db_calm mem blk (parent db) s1" "half_formatted gran ?S ?N ?N (db_content mem (parent db) s1)"
    using format_walk[OF env N0 r h, of 0 0 "junk\<lparr>sec_addr := 0\<rparr>"] by auto
  note d = formatted_disk[OF 1(3)]
  let ?db = "db\<lparr>oldest_addr := 0, cur_sec := (cur_sec db)\<lparr>sec_addr := 0\<rparr>, last_time := 0\<rparr>"
  have p: "parent ?db = parent db" by simp
  note fo = ts_focus[OF env 1(2) d N0, unfolded pos_0[OF N0] mult_zero_left]
  have S31: "0 + ?S \<le> 2 ^ 31" using ts_sector(1)[OF env N0] by simp
  have X: "sec_of [[]] 0 = Blank" by (simp add: sec_of_def)
  obtain sec s2 where 2: "sec_info gran 0 ?S Blank sec" "at_sec mem blk (parent db) 0 ?S (db_content mem (parent db) s1) s2 (window 0 ?S (db_content mem (parent db) s1))"
    "read_sector_info gran ?db 0 (cur_sec ?db) False s1 = Some (FDB_NO_ERR, sec, s2)"
    by (rule read_hdr[where db = ?db and sec = "cur_sec ?db" and tr = False, unfolded p, OF fo(1) e(1) unat_0 refl S31 fo(2)[unfolded X]]) simp
  have same: "db_calm mem blk (parent db) s2" "db_content mem (parent db) s2 = db_content mem (parent db) s1"
    using at_secD(1,2,4)[OF 2(2)] blit_window[of 0] by simp_all
  have "tsl_format_all gran junk db s = Some (db\<lparr>oldest_addr := 0, last_time := 0, cur_sec := sec\<rparr>, s2)"
    using 1(1) 2(3) by (simp add: tsl_format_all_def sector_iterator_def Let_def)
  then show ?thesis using that sec_info_blank[OF 2(1)] same d by simp
qed

lemma fresh_ok:
  assumes env: "ts_env blk gran db1" and r: "db_calm mem blk (parent db1) s1" and h: "half_formatted gran (ts_S db1) (ts_N db1) 0 (db_content mem (parent db1) s1)"
    and nf: "\<not> db_not_formatable (parent db1)"
    and init: "fdb_init_ex (parent db) name path FDB_DB_TYPE_TS s = Some (FDB_NO_ERR, parent db1, s1)"
    and db1: "db1 = db\<lparr>parent := parent db1, max_len := max_length\<rparr>"
  shows "\<exists>db' s'. fdb_tsdb_init gran junk db name path max_length s = Some (FDB_NO_ERR, db', s') \<and> ts_rep mem blk gran 0 [[]] db' s' \<and>
    db_init_ok (parent db') \<and> rollover db' \<and> max_len db' = max_length \<and> last_time db' = 0 \<and> parent db' = (parent db1)\<lparr>db_init_ok := True\<rparr>"
proof -
  let ?N = "ts_N db1" and ?S = "ts_S db1" and ?m = "db_content mem (parent db1) s1"
  let ?db2 = "db1\<lparr>rollover := True, oldest_addr := FDB_DATA_UNUSED, cur_sec := (cur_sec db1)\<lparr>sec_addr := FDB_DATA_UNUSED\<rparr>\<rparr>"
  let ?a = "\<lparr>ca_db = ?db2, check_failed = False, empty_num = 0, empty_addr = 0\<rparr>" and ?j = "junk\<lparr>sec_addr := 0\<rparr>"
  note e = ts_envD[OF env]
  have N0: "0 < ?N" using e(5) by simp
  have p2: "parent ?db2 = parent db1" "ts_N ?db2 = ?N" by (simp_all add: ts_N_def)
  have env2: "ts_env blk gran ?db2" using env by (simp add: ts_env_def)
  let ?b = "window 0 ?S ?m"
  have at: "at_sec mem blk (parent db1) 0 ?S ?m s1 ?b"
    by (rule at_sec_start[OF r]) (use ts_sector(2)[OF env N0] length_calm[OF r] in simp)
  have nm: "no_magic gran ?b" using h N0 by (auto simp: half_formatted_def)
  obtain w s2 where 2: "read_sector_info gran ?db2 0 ?j False s1 = Some (FDB_INIT_FAILED, ?j\<lparr>sec_addr := 0, sec_magic := w, sec_check_ok := False\<rparr>, s2)"
    "at_sec mem blk (parent db1) 0 ?S ?m s2 ?b"
    by (rule read_no_magic[where db = ?db2 and sec = ?j and tr = False, unfolded p2, OF at e(1) unat_0 e(10) nm])
  let ?j2 = "?j\<lparr>sec_addr := 0, sec_magic := w, sec_check_ok := False\<rparr>"
  obtain w3 s3 where 3: "read_sector_info gran ?db2 0 ?j2 True s2 = Some (FDB_INIT_FAILED, ?j2\<lparr>sec_addr := 0, sec_magic := w3, sec_check_ok := False\<rparr>, s3)"
    "at_sec mem blk (parent db1) 0 ?S ?m s3 ?b"
    by (rule read_no_magic[where db = ?db2 and sec = ?j2 and tr = True, unfolded p2, OF 2(2) e(1) unat_0 e(10) nm])
  have same: "db_calm mem blk (parent db1) s3" "db_content mem (parent db1) s3 = ?m"
    using at_secD(1,2,4)[OF 3(2)] blit_window[of 0] by simp_all
  have loop: "sector_iter_loop gran ?db2 FDB_SECTOR_STORE_UNUSED check_sec_hdr_cb True 0 0 ?j ?a s1 = Some (?a\<lparr>check_failed := True\<rparr>, s3)"
    by (subst sector_iter_loop.simps) (simp add: 2(1)[simplified] 3(1)[simplified] check_sec_hdr_cb_def Let_def)
  have h3: "half_formatted gran ?S ?N 0 (db_content mem (parent db1) s3)" using h same(2) by simp
  obtain sec s4 where 4: "tsl_format_all gran junk ?db2 s3 = Some (?db2\<lparr>oldest_addr := 0, last_time := 0, cur_sec := sec\<rparr>, s4)" "cur_ok gran 0 ?S [] sec"
    "db_calm mem blk (parent db1) s4" "disk_ok gran ?S ?N 0 (sec_of [[]]) (db_content mem (parent db1) s4)"
    by (rule format_all_ok[OF env2, unfolded p2, OF same(1) h3, of junk])
  let ?db3 = "?db2\<lparr>oldest_addr := 0, last_time := 0, cur_sec := sec\<rparr>"
  have chk: "check_sectors gran junk ?db2 s1 = Some (FDB_NO_ERR, ?db3, s4)"
    using loop 4(1) nf by (simp add: check_sectors_def sector_iterator_def)
  have p3: "parent ?db3 = parent db1" "ts_N ?db3 = ?N" "cur_sec ?db3 = sec" "oldest_addr ?db3 = 0" by (simp_all add: ts_N_def)
  have env3: "ts_env blk gran ?db3" using env by (simp add: ts_env_def)
  have sh: "ts_shape ?N 0 [[]]" using e(5) by (simp add: ts_shape_def)
  have slot: "slot_ok gran ?S (hsz gran + length (last [[]]) * isz gran) (?S - used gran (last [[]]))"
    using e(1,8) isz_eq[OF e(1)] pad_ge[OF e(1), of "sizeof_log_idx gran"] by (auto simp: slot_ok_def grans_def ts_layout_defs)
  have old: "unat (0 :: u32) = 0 * ?S" by simp
  have cur: "cur_ok gran (pos ?N 0 (length [[] :: log list] - 1) * ?S) ?S (last [[]]) sec" using 4(2) N0 by simp
  obtain e5 sec5 s5 db6 s6 where 5: "read_sector_info gran ?db3 (sec_addr sec) sec True s4 = Some (e5, sec5, s5)"
    "load_last_time gran junk (?db3\<lparr>cur_sec := sec5\<rparr>) s5 = Some (db6, s6)" "ts_rep mem blk gran 0 [[]] db6 s6" "same_db ?db3 db6" "concat [[] :: log list] = [] \<longrightarrow> last_time db6 = last_time ?db3"
    by (rule init_tail[OF env3, unfolded p3, OF 4(3,4) sh slot old cur, of junk])
  have p6: "parent db6 = parent db1" "rollover db6" "max_len db6 = max_length" using 5(4) db1_max_len[OF db1] by (simp_all add: same_db_def)
  have "fdb_tsdb_init gran junk db name path max_length s = Some (FDB_NO_ERR, db6\<lparr>parent := (parent db6)\<lparr>db_init_ok := True\<rparr>\<rparr>, s6)"
    unfolding fdb_tsdb_init_def
    using init max_length_less[OF env] init_start[OF db1] chk 5(1,2) db1_max_len[OF db1] by (simp add: fdb_init_finish_def)
  then show ?thesis using init_ok_rep[OF 5(3), of True] p6 5(5) by simp
qed

end
