(* ===== verification/Tsdb_Time.thy ===== *)
theory Tsdb_Time
  imports Tsdb_Iter
begin

text \<open>
  The query by time: which logs \<open>fdb_tsl_iter_by_time\<close> visits. In a sector the binary search finds
  the first log that is not too early; from there the walk goes on until a log is too late.
\<close>

section \<open>The binary search in a sector\<close>

lemma logs_at_drop: "logs_at gran A b i p es \<Longrightarrow> n \<le> length es \<Longrightarrow>
    logs_at gran A b (i + n * isz gran) (p - used gran (take n es)) (drop n es)"
  using logs_at_append[of gran A b i p "take n es" "drop n es"] by simp

lemma tsl_recs_drop: "n \<le> length es \<Longrightarrow>
    drop n (tsl_recs gran A i p es) = tsl_recs gran A (i + n * isz gran) (p - used gran (take n es)) (drop n es)"
proof (induction es arbitrary: i p n)
  case (Cons e es)
  then show ?case by (cases n) (simp_all add: Let_def diff_diff_left add.assoc del: of_nat_add)
qed simp

definition early :: "u32 \<Rightarrow> log list \<Rightarrow> nat" where
  "early from es = length (takeWhile (\<lambda>e. sint (log_time e) < sint from) es)"

lemma sorted_early:
  assumes "sorted (map (sint \<circ> log_time) es)" "j < length es"
  shows "sint (log_time (es ! j)) < sint from \<longleftrightarrow> j < early from es"
proof
  let ?P = "\<lambda>e. sint (log_time e) < sint from"
  assume a: "?P (es ! j)"
  show "j < early from es"
  proof (rule ccontr)
    assume "\<not> j < early from es"
    then have n: "early from es < length es" "early from es \<le> j" using assms(2) by simp_all
    then have "\<not> ?P (es ! early from es)" using nth_length_takeWhile[of ?P es] by (simp add: early_def)
    moreover have "sint (log_time (es ! early from es)) \<le> sint (log_time (es ! j))"
      using sorted_nth_mono[OF assms(1) n(2)] assms(2) n by simp
    ultimately show False using a by simp
  qed
next
  assume "j < early from es"
  then have "es ! j \<in> set (takeWhile (\<lambda>e. sint (log_time e) < sint from) es)"
    unfolding early_def by (metis nth_mem takeWhile_nth)
  then show "sint (log_time (es ! j)) < sint from" by (auto dest: set_takeWhileD)
qed

lemma early_le: "early from es \<le> length es"
  by (simp add: early_def length_takeWhile_le)

lemma middle: "gran \<in> grans \<Longrightarrow> (k * isz gran div 2 + 1) div isz gran = k div 2"
proof -
  assume "gran \<in> grans"
  then have z: "isz gran \<in> {16, 20, 32, 56}" using layout_values by fastforce
  have "(k * z div 2 + 1) div z = k div 2" if "z = 2 * h" "2 \<le> h" for z h :: nat
  proof -
    have "k * z div 2 = k * h" using that by simp
    moreover have "k = 2 * (k div 2) + k mod 2" by simp
    then obtain q r where k: "k = 2 * q + r" "r < 2" "q = k div 2" by (metis mod_less_divisor zero_less_numeral)
    have "k * h = (2 * q + r) * h" by (rule arg_cong[OF k(1), of "\<lambda>x. x * h"])
    then have "k * h + 1 = z * q + (r * h + 1)" using that(1) by (simp only: algebra_simps)
    moreover have "r * h + 1 < z" using k(2) that by (cases r) auto
    ultimately have "(k * h + 1) div z = q" by (metis add.right_neutral div_less div_mult_self2 gr_implies_not_zero not_less_zero
      add.commute)
    then show ?thesis using k(3) \<open>k * z div 2 = k * h\<close> by simp
  qed
  from this[of 16 8] this[of 20 10] this[of 32 16] this[of 56 28] z show ?thesis by auto
qed

text \<open>The logs before \<open>lo\<close> are too early, those from \<open>hi\<close> on are not.\<close>

lemma start_search_ok:
  assumes g: "gran \<in> grans" and S31: "A + S \<le> 2 ^ 31" and s: "at_sec mem blk (parent db) A S m s b"
    and l: "logs_at gran A b (hsz gran) S es" "hsz gran + length es * isz gran \<le> S"
    and so: "sorted (map (sint \<circ> log_time) es)" and b: "lo \<le> early from es" "early from es \<le> hi" "hi \<le> length es"
    and w: "unat start = A + hsz gran + lo * isz gran" "unat end + isz gran = A + hsz gran + hi * isz gran"
  shows "\<exists>s'. start_search gran db from start end s = Some (of_nat (A + hsz gran + early from es * isz gran), s') \<and>
    at_sec mem blk (parent db) A S m s' b"
  using s b w
proof (induction "hi - lo" arbitrary: lo hi start "end" s rule: less_induct)
  case less
  let ?L = "LOG_IDX_DATA_SIZE gran" and ?k = "isz gran"
  have L: "unat ?L = ?k" by (simp add: isz_def)
  have k0: "0 < ?k" "?k \<le> hsz gran" using layout_values[OF g] by (elim insertE emptyE; simp)+
  have le: "start \<le> end \<longleftrightarrow> lo < hi"
  proof -
    have "start \<le> end \<longleftrightarrow> A + hsz gran + lo * ?k + ?k \<le> A + hsz gran + hi * ?k"
      unfolding word_le_nat_alt less.prems(5)[symmetric] less.prems(6)[symmetric] by simp
    also have "\<dots> \<longleftrightarrow> (lo + 1) * ?k \<le> hi * ?k" by (simp add: add.commute)
    also have "\<dots> \<longleftrightarrow> lo + 1 \<le> hi" using k0 by (simp only: mult_le_cancel2 simp_thms)
    finally show ?thesis by auto
  qed
  show ?case
  proof (cases "lo < hi")
    case False
    then have e: "early from es = lo" using less.prems by simp
    have "start = of_nat (A + hsz gran + early from es * ?k)" unfolding e less.prems(5)[symmetric] by simp
    then show ?thesis using less.prems(1) le False by (subst start_search.simps) (simp del: of_nat_add of_nat_mult)
  next
    case True
    define n where "n = hi - 1 - lo"
    define j where "j = lo + n div 2"
    have j: "lo \<le> j" "j < hi" "j < length es" using True less.prems(4) by (auto simp: j_def n_def)
    have hi: "hi = lo + n + 1" using True by (simp add: n_def)
    have ue: "unat end = A + hsz gran + (lo + n) * ?k" using less.prems(6) hi by (simp add: algebra_simps)
    have d: "unat (end - start) = n * ?k"
      using less.prems(5) ue le True by (simp add: unat_sub algebra_simps)
    have jS: "A + hsz gran + j * ?k + ?k \<le> A + S"
    proof -
      have "(j + 1) * ?k \<le> length es * ?k" using j(3) by (intro mult_le_mono1) simp
      then show ?thesis using l(2) by simp
    qed
    define index where "index = start + ((end - start) div 2 + 1) div ?L * ?L"
    have ui: "unat index = A + (hsz gran + j * ?k)"
    proof -
      have nk: "n * ?k \<le> 2 ^ 31"
      proof -
        have "(lo + n) * ?k + ?k \<le> length es * ?k" using less.prems(4) hi mult_le_mono1[of "lo + n + 1" "length es" ?k] by simp
        then show ?thesis using l(2) S31 by (simp add: algebra_simps)
      qed
      have 1: "unat ((end - start) div 2) = n * ?k div 2" by (simp add: unat_div d)
      have 2: "unat ((end - start) div 2 + 1) = n * ?k div 2 + 1"
        using unat_add_small[of "(end - start) div 2" 1] 1 nk by simp
      have 3: "unat (((end - start) div 2 + 1) div ?L) = n div 2" by (simp only: unat_div 2 L middle[OF g])
      have "n div 2 * ?k \<le> n * ?k" by simp
      from le_less_trans[OF le_trans[OF this nk]] have "n div 2 * ?k < 2 ^ 32" by simp
      then have 4: "unat (((end - start) div 2 + 1) div ?L * ?L) = n div 2 * ?k"
        using 3 L by (simp add: unat_word_ariths)
      have "unat start + n div 2 * ?k = A + (hsz gran + j * ?k)" using less.prems(5) by (simp add: j_def algebra_simps)
      moreover have "A + (hsz gran + j * ?k) \<le> 2 ^ 31" using jS S31 by linarith
      ultimately show ?thesis using unat_add_small[of start] 4 by (simp add: index_def)
    qed
    let ?e = "es ! j"
    have e: "log_at gran A b (hsz gran + j * ?k) (S - used gran (take j es) - pad gran (length (log_data ?e))) ?e"
      using logs_at_drop[OF l(1), of j] j(3) by (simp add: Cons_nth_drop_Suc[symmetric])
    have ui': "unat (tsl_index (junk_tsl index)) = A + (hsz gran + j * ?k)" using ui by (simp add: junk_tsl_def)
    obtain tsl s1 where r: "read_tsl gran db (junk_tsl index) s = Some (tsl, s1)" "at_sec mem blk (parent db) A S m s1 b"
      "tsl_time tsl = log_time ?e"
      using read_tsl_log[OF less.prems(1) g e ui'] jS by (auto simp: tsl_rec_def)
    have st: "start_search gran db from start end s = (if sint (log_time ?e) < sint from
        then start_search gran db from (index + ?L) end s1 else start_search gran db from start (index - ?L) s1)"
      using le True r by (subst start_search.simps) (simp add: Let_def index_def[symmetric])
    have ed: "sint (log_time ?e) < sint from \<longleftrightarrow> j < early from es" by (rule sorted_early[OF so j(3)])
    show ?thesis
    proof (cases "j < early from es")
      case early: True
      have "unat (index + ?L) = A + hsz gran + (j + 1) * ?k"
        using unat_add_small[of index ?L] ui L jS S31 by simp
      then have "\<exists>s'. start_search gran db from (index + ?L) end s1 = Some (of_nat (A + hsz gran + early from es * ?k), s') \<and>
          at_sec mem blk (parent db) A S m s' b"
        by (intro less.hyps[of hi "j + 1"]) (use early j less.prems r in simp_all)
      then show ?thesis using st ed early by simp
    next
      case late: False
      have "?L \<le> index" unfolding word_le_nat_alt ui L using k0 by simp
      then have "unat (index - ?L) + ?k = A + hsz gran + j * ?k" using ui L k0 by (simp add: unat_sub)
      then have "\<exists>s'. start_search gran db from start (index - ?L) s1 = Some (of_nat (A + hsz gran + early from es * ?k), s') \<and>
          at_sec mem blk (parent db) A S m s' b"
        by (intro less.hyps[of j lo]) (use late j less.prems r in simp_all)
      then show ?thesis using st ed late by simp
    qed
  qed
qed

section \<open>The walk from there on\<close>

text \<open>The query is an iteration with a callback that stops at the first log out of time.\<close>

definition time_cb :: "u32 \<Rightarrow> u32 \<Rightarrow> ('c, 'd) tsl_cb \<Rightarrow> ('c, 'd) tsl_cb" where
  "time_cb from to cb tsl c s =
     (if tsl_status tsl \<noteq> FDB_TSL_UNUSED then if in_time from to (tsl_time tsl) then cb tsl c s else Some (True, c, s)
      else Some (False, c, s))"

definition time_fn :: "u32 \<Rightarrow> u32 \<Rightarrow> (fdb_tsl \<Rightarrow> 'c \<Rightarrow> bool \<times> 'c) \<Rightarrow> fdb_tsl \<Rightarrow> 'c \<Rightarrow> bool \<times> 'c" where
  "time_fn from to f r c = (if in_time from to (tsl_time r) then f r c else (True, c))"

lemma time_tsl_loop_iter:
  fixes cb :: "('c, 'd) tsl_cb"
  assumes "iter_tsl_loop gran db (time_cb from to cb) sector tsl c s = Some r"
  shows "time_tsl_loop gran db from to cb sector tsl c s = Some r"
proof -
  have "\<forall>cb0. cb' = time_cb from to cb0 \<longrightarrow> time_tsl_loop gran db from to cb0 sector tsl c s = Some r"
    if "iter_tsl_loop gran db cb' sector tsl c s = Some r" for cb' :: "('c, 'd) tsl_cb"
  proof (rule iter_tsl_loop.raw_induct[where P = "\<lambda>gran db cb' sector tsl c s r.
      \<forall>cb0. cb' = time_cb from to cb0 \<longrightarrow> time_tsl_loop gran db from to cb0 sector tsl c s = Some r", OF _ that])
    fix loop :: "nat \<Rightarrow> fdb_tsdb \<Rightarrow> ('c, 'd) tsl_cb \<Rightarrow> tsdb_sec_info \<Rightarrow> fdb_tsl \<Rightarrow> 'c \<Rightarrow> 'd fal \<Rightarrow> (bool \<times> 'c \<times> 'd fal) option"
      and gran db cb' sector tsl c s r
    assume 1: "\<And>gran db cb' sector tsl c s r. loop gran db cb' sector tsl c s = Some r \<Longrightarrow>
        \<forall>cb0. cb' = time_cb from to cb0 \<longrightarrow> time_tsl_loop gran db from to cb0 sector tsl c s = Some r"
      "do { (tsl, s) \<leftarrow> read_tsl gran db tsl s;
        (stop, c, s) \<leftarrow> cb' tsl c s;
        if stop then Some (True, c, s)
        else do {
          let addr = get_next_tsl_addr gran sector tsl;
          if addr \<noteq> FAILED_ADDR then loop gran db cb' sector (tsl\<lparr>tsl_index := addr\<rparr>) c s
          else Some (False, c, s) } } = Some r"
    show "\<forall>cb0. cb' = time_cb from to cb0 \<longrightarrow> time_tsl_loop gran db from to cb0 sector tsl c s = Some r"
    proof (intro allI impI)
      fix cb0 assume cb': "cb' = time_cb from to cb0"
      obtain tsl1 s1 stop c2 s2 where r: "read_tsl gran db tsl s = Some (tsl1, s1)" "time_cb from to cb0 tsl1 c s1 = Some (stop, c2, s2)"
        "(if stop then Some (True, c2, s2) else do {
           let addr = get_next_tsl_addr gran sector tsl1;
           if addr \<noteq> FAILED_ADDR then loop gran db cb' sector (tsl1\<lparr>tsl_index := addr\<rparr>) c2 s2 else Some (False, c2, s2) }) = Some r"
        using 1(2) cb' by (auto simp: bind_eq_Some_conv)
      show "time_tsl_loop gran db from to cb0 sector tsl c s = Some r"
      proof (cases "stop \<or> get_next_tsl_addr gran sector tsl1 = FAILED_ADDR")
        case True
        then show ?thesis using r by (subst time_tsl_loop.simps) (auto simp: time_cb_def Let_def split: if_splits)
      next
        case False
        then have "loop gran db cb' sector (tsl1\<lparr>tsl_index := get_next_tsl_addr gran sector tsl1\<rparr>) c2 s2 = Some r" using r(3) by simp
        from 1(1)[OF this] cb' have "time_tsl_loop gran db from to cb0 sector (tsl1\<lparr>tsl_index := get_next_tsl_addr gran sector tsl1\<rparr>) c2 s2 = Some r"
          by blast
        then show ?thesis using r(1,2) False by (subst time_tsl_loop.simps) (auto simp: time_cb_def Let_def split: if_splits)
      qed
    qed
  qed
  then show ?thesis using assms by blast
qed

lemma time_cb_reads:
  "cb_reads mem blk db m cb f r \<Longrightarrow> tsl_status r \<noteq> FDB_TSL_UNUSED \<Longrightarrow> cb_reads mem blk db m (time_cb from to cb) (time_fn from to f) r"
  by (simp add: cb_reads_def time_cb_def time_fn_def)

lemma recs_of_logs:
  "map tsl_time (tsl_recs gran A i p es) = map log_time es" "map tsl_status (tsl_recs gran A i p es) = map log_status es"
  by (induction es arbitrary: i p) (simp_all add: Let_def tsl_rec_def)

lemma logs_status: "logs_at gran A b i p es \<Longrightarrow> e \<in> set es \<Longrightarrow> log_status e \<noteq> FDB_TSL_UNUSED"
  by (induction es arbitrary: i p) (auto simp: log_at_def)

text \<open>Search and walk in one sector.\<close>

lemma time_visit:
  assumes env: "ts_env blk gran db" and s: "at_sec mem blk (parent db) A (ts_S db) m s b" and S31: "A + ts_S db \<le> 2 ^ 31"
    and b: "sector_ok gran A b X" and cur: "\<And>es. X = Open es \<Longrightarrow> cur_ok gran A (ts_S db) es (cur_sec db)" and sec: "sec_info gran A (ts_S db) X sec"
    and so: "sorted (map (sint \<circ> log_time) (sec_logs X))" and k: "early from (sec_logs X) < length (sec_logs X)"
    and cb: "\<And>r. r \<in> set (tsl_recs gran A (hsz gran) (ts_S db) (sec_logs X)) \<Longrightarrow> cb_reads mem blk (parent db) (blit m A b) cb f r"
  shows "\<exists>s1 start s'. start_search gran db from (sec_addr sec + SECTOR_HDR_DATA_SIZE gran)
      (end_idx (if sec_status sec = FDB_SECTOR_STORE_USING then cur_sec db else sec)) s = Some (start, s1) \<and>
    time_tsl_loop gran db from to cb (if sec_status sec = FDB_SECTOR_STORE_USING then cur_sec db else sec) (junk_tsl start) c s1 =
      Some (fst (feed (time_fn from to f) (drop (early from (sec_logs X)) (tsl_recs gran A (hsz gran) (ts_S db) (sec_logs X))) c),
        snd (feed (time_fn from to f) (drop (early from (sec_logs X)) (tsl_recs gran A (hsz gran) (ts_S db) (sec_logs X))) c), s') \<and>
    at_sec mem blk (parent db) A (ts_S db) m s' b"
proof -
  note e = ts_envD[OF env]
  let ?es = "sec_logs X" and ?S = "ts_S db"
  let ?k = "early from ?es" and ?recs = "tsl_recs gran A (hsz gran) ?S ?es"
  let ?sec = "if sec_status sec = FDB_SECTOR_STORE_USING then cur_sec db else sec"
  have lb: "length b = ?S" using at_secD(3)[OF s] .
  have ne: "?es \<noteq> []" using k by auto
  have "body_ok gran A b ?es" using b ne by (cases X) (simp_all add: open_ok_def)
  then have l: "logs_at gran A b (hsz gran) ?S ?es" "hsz gran + length ?es * isz gran \<le> ?S" using lb by (simp_all add: body_ok_def)
  have st: "sec_status ?sec \<noteq> FDB_SECTOR_STORE_EMPTY" "end_idx ?sec = of_nat (A + hsz gran + (length ?es - 1) * isz gran)"
    using sec cur ne by (cases X; simp add: sec_info_def cur_ok_def)+
  have start: "unat (sec_addr sec + SECTOR_HDR_DATA_SIZE gran) = A + hsz gran + 0 * isz gran"
    using unat_add_small[of "sec_addr sec" "SECTOR_HDR_DATA_SIZE gran"] sec e(10) S31 by (simp add: sec_info_def hsz_def)
  have ends: "unat (end_idx ?sec) + isz gran = A + hsz gran + length ?es * isz gran"
  proof -
    obtain n where n: "length ?es = Suc n" using ne by (cases ?es) simp_all
    have "A + hsz gran + n * isz gran < 2 ^ 32"
    proof -
      have "A + hsz gran + n * isz gran \<le> A + ?S" using l(2) n by simp
      from le_less_trans[OF le_trans[OF this S31]] show ?thesis by simp
    qed
    then have "unat (of_nat (A + hsz gran + n * isz gran) :: u32) = A + hsz gran + n * isz gran" by (rule unat_of_nat_lt)
    then show ?thesis unfolding st(2) using n by simp
  qed
  obtain s1 where s1: "start_search gran db from (sec_addr sec + SECTOR_HDR_DATA_SIZE gran) (end_idx ?sec) s =
      Some (of_nat (A + hsz gran + ?k * isz gran), s1)" "at_sec mem blk (parent db) A ?S m s1 b"
    using start_search_ok[OF e(1) S31 s l so _ early_le order_refl start ends] by auto
  have d: "drop ?k ?recs = tsl_recs gran A (hsz gran + ?k * isz gran) (?S - used gran (take ?k ?es)) (drop ?k ?es)"
    by (rule tsl_recs_drop[OF early_le])
  have "\<exists>s'. iter_tsl_loop gran db (time_cb from to cb) ?sec (junk_tsl (of_nat (A + hsz gran + ?k * isz gran))) c s1 =
      Some (fst (feed (time_fn from to f) (drop ?k ?recs) c), snd (feed (time_fn from to f) (drop ?k ?recs) c), s') \<and>
      at_sec mem blk (parent db) A ?S m s' b"
    unfolding d
  proof (rule iter_tsl_ok[OF e(1) S31 s1(2) logs_at_drop[OF l(1) early_le]])
    show "hsz gran + ?k * isz gran + length (drop ?k ?es) * isz gran \<le> ?S" using l(2) k
      by (simp add: add.assoc flip: add_mult_distrib)
    show "drop ?k ?es \<noteq> []" using k by simp
    show "sec_status ?sec \<noteq> FDB_SECTOR_STORE_EMPTY" by (rule st)
    have "A + (hsz gran + ?k * isz gran) + (length (drop ?k ?es) - 1) * isz gran = A + hsz gran + (length ?es - 1) * isz gran"
      using k by (simp add: add.assoc flip: add_mult_distrib)
    then show "end_idx ?sec = of_nat (A + (hsz gran + ?k * isz gran) + (length (drop ?k ?es) - 1) * isz gran)" unfolding st(2) by (simp only:)
    show "tsl_index (junk_tsl (of_nat (A + hsz gran + ?k * isz gran))) = of_nat (A + (hsz gran + ?k * isz gran))"
      by (simp add: junk_tsl_def add.assoc)
    fix r assume "r \<in> set (tsl_recs gran A (hsz gran + ?k * isz gran) (?S - used gran (take ?k ?es)) (drop ?k ?es))"
    then have r: "r \<in> set ?recs" unfolding d[symmetric] by (rule in_set_dropD)
    then have "tsl_status r \<in> set (map tsl_status ?recs)" by simp
    then have "tsl_status r \<in> set (map log_status ?es)" by (simp only: recs_of_logs(2))
    then obtain x where x: "x \<in> set ?es" "tsl_status r = log_status x" by auto
    then have "tsl_status r \<noteq> FDB_TSL_UNUSED" using logs_status[OF l(1) x(1)] by simp
    then show "cb_reads mem blk (parent db) (blit m A b) (time_cb from to cb) (time_fn from to f) r" using cb[OF r] by (intro time_cb_reads)
  qed
  then obtain s2 where 2: "iter_tsl_loop gran db (time_cb from to cb) ?sec (junk_tsl (of_nat (A + hsz gran + ?k * isz gran))) c s1 =
      Some (fst (feed (time_fn from to f) (drop ?k ?recs) c), snd (feed (time_fn from to f) (drop ?k ?recs) c), s2)"
    "at_sec mem blk (parent db) A ?S m s2 b" by (elim exE conjE)
  show ?thesis by (rule exI, rule exI, rule exI, rule conjI[OF s1(1)], rule conjI[OF time_tsl_loop_iter[OF 2(1)] 2(2)])
qed

section \<open>The whole query\<close>

definition rec_time :: "fdb_tsl \<Rightarrow> int" where "rec_time r = sint (tsl_time r)"

abbreviation timely :: "u32 \<Rightarrow> u32 \<Rightarrow> fdb_tsl list \<Rightarrow> fdb_tsl list" where
  "timely from to \<equiv> filter (\<lambda>r. in_time from to (tsl_time r))"

text \<open>On records in order none of which is too early, stopping at the first late one is a filter.\<close>

lemma feed_time:
  assumes "sorted (map rec_time rs)" "\<forall>r\<in>set rs. sint from \<le> rec_time r"
  shows "snd (feed (time_fn from to f) rs c) = snd (feed f (timely from to rs) c) \<and>
    (if fst (feed (time_fn from to f) rs c) then fst (feed f (timely from to rs) c) \<or> (\<exists>r\<in>set rs. sint to < rec_time r)
     else \<not> fst (feed f (timely from to rs) c))"
  using assms
proof (induction rs arbitrary: c)
  case (Cons r rs)
  have late: "timely from to rs = []" if "sint to < rec_time r"
    using that Cons.prems(1) by (fastforce simp: filter_empty_conv in_time_def rec_time_def)
  have out: "\<not> in_time from to (tsl_time r) \<longleftrightarrow> sint to < rec_time r" using Cons.prems(2) by (auto simp: in_time_def rec_time_def)
  show ?case
  proof (cases "in_time from to (tsl_time r)")
    case False
    then show ?thesis using late out by (simp add: time_fn_def)
  next
    case True
    obtain stop c' where f: "f r c = (stop, c')" by (cases "f r c")
    show ?thesis
    proof (cases stop)
      case True
      then show ?thesis using f \<open>in_time from to (tsl_time r)\<close> by (simp add: time_fn_def)
    next
      case False
      then show ?thesis using f \<open>in_time from to (tsl_time r)\<close> Cons.IH[of c'] Cons.prems by (auto simp: time_fn_def)
    qed
  qed
qed simp

text \<open>The sector at which a query starts.\<close>

definition starts :: "u32 \<Rightarrow> log list list \<Rightarrow> nat \<Rightarrow> bool" where
  "starts from ess i \<longleftrightarrow> (let es = sec_logs (sec_of ess i) in es \<noteq> [] \<and>
     (in_time (log_time (hd es)) (log_time (last es)) from \<or> i = 0 \<and> sint from \<le> sint (log_time (hd es))))"

lemma sec_times: "map rec_time (sec_recs gran S N orig ess j) = map (sint \<circ> log_time) (sec_logs (sec_of ess j))"
proof -
  have r: "map rec_time rs = map sint (map tsl_time rs)" for rs by (simp add: rec_time_def comp_def)
  show ?thesis unfolding sec_recs_def r recs_of_logs(1) by simp
qed

lemma sorted_hd_last: "sorted (map f es) \<Longrightarrow> e \<in> set es \<Longrightarrow> f (hd es) \<le> f e \<and> f e \<le> f (last es)" for f :: "'a \<Rightarrow> int"
  by (induction es) (auto simp: sorted_append last_in_set)

lemma early_drop:
  assumes "sorted (map (sint \<circ> log_time) es)" "map rec_time rs = map (sint \<circ> log_time) es"
  shows "\<forall>r\<in>set (drop (early from es) rs). sint from \<le> rec_time r" "timely from to (drop (early from es) rs) = timely from to rs"
proof -
  have l: "length rs = length es" using assms(2) by (metis length_map)
  have t: "rec_time (rs ! j) = sint (log_time (es ! j))" if "j < length es" for j
    using arg_cong[OF assms(2), of "\<lambda>x. x ! j"] that l by simp
  show "\<forall>r\<in>set (drop (early from es) rs). sint from \<le> rec_time r"
  proof
    fix r assume "r \<in> set (drop (early from es) rs)"
    then obtain i where "r = rs ! (early from es + i)" "early from es + i < length rs" by (auto simp: in_set_conv_nth)
    then show "sint from \<le> rec_time r" using sorted_early[OF assms(1), of "early from es + i" "from"] t l by auto
  qed
  have "timely from to (take (early from es) rs) = []"
  proof -
    have "\<not> in_time from to (tsl_time r)" if r: "r \<in> set (take (early from es) rs)" for r
    proof -
      obtain i where i: "r = rs ! i" "i < early from es" "i < length rs" using r by (auto simp: in_set_conv_nth)
      then have "rec_time r < sint from" using sorted_early[OF assms(1), of i "from"] t l by simp
      then show ?thesis by (simp add: in_time_def rec_time_def)
    qed
    then show ?thesis by (simp add: filter_empty_conv)
  qed
  then show "timely from to (drop (early from es) rs) = timely from to rs"
    by (metis append_Nil append_take_drop_id filter_append)
qed

lemma blank_after: "sec_of ess j = Blank \<Longrightarrow> j \<le> i \<Longrightarrow> sec_of ess i = Blank"
  by (cases "i = j") (auto simp: sec_of_def split: if_splits)

lemma ts_recs_blank:
  assumes "sec_of ess j = Blank"
  shows "ts_recs gran S N orig ess j = []"
proof -
  have "sec_recs gran S N orig ess i = []" if "j \<le> i" for i using blank_after[OF assms that] by (simp add: sec_recs_def)
  then show ?thesis by (simp add: ts_recs_def)
qed

text \<open>A sector before the one at which the query starts has only early logs.\<close>

lemma before_start:
  assumes so: "sorted (map rec_time (ts_recs gran S N orig ess j))" and i: "j < i" "i < N" "starts from ess i" and n: "\<not> starts from ess j"
  shows "timely from to (sec_recs gran S N orig ess j) = []"
proof (cases "sec_logs (sec_of ess j) = []")
  case True then show ?thesis by (simp add: sec_recs_def)
next
  case False
  let ?es = "sec_logs (sec_of ess j)" and ?fs = "sec_logs (sec_of ess i)"
  have fs: "?fs \<noteq> []" "sint (log_time (hd ?fs)) \<le> sint from" using i by (simp_all add: starts_def Let_def in_time_def)
  have j: "j < N" using i by simp
  have step: "ts_recs gran S N orig ess j = sec_recs gran S N orig ess j @ ts_recs gran S N orig ess (j + 1)" by (rule ts_recs_step[OF j])
  have sj: "sorted (map (sint \<circ> log_time) ?es)" using so unfolding step by (simp add: sorted_append sec_times)
  have "set (sec_recs gran S N orig ess i) \<subseteq> set (ts_recs gran S N orig ess (j + 1))" using i by (auto simp: ts_recs_def intro!: bexI[of _ i])
  moreover have hf: "sint (log_time (hd ?fs)) \<in> rec_time ` set (sec_recs gran S N orig ess i)"
  proof -
    have "sint (log_time (hd ?fs)) \<in> set (map (sint \<circ> log_time) ?fs)" using fs by simp
    then show ?thesis unfolding sec_times[of gran S N orig, symmetric] by simp
  qed
  ultimately have up: "rec_time r \<le> sint (log_time (hd ?fs))" if "r \<in> set (sec_recs gran S N orig ess j)" for r
    using so that unfolding step by (auto simp: sorted_append)
  have "sint (log_time (last ?es)) \<in> rec_time ` set (sec_recs gran S N orig ess j)"
  proof -
    have "sint (log_time (last ?es)) \<in> set (map (sint \<circ> log_time) ?es)" using False by simp
    then show ?thesis unfolding sec_times[of gran S N orig, symmetric] by simp
  qed
  then have "sint (log_time (last ?es)) \<le> sint (log_time (hd ?fs))" using up by auto
  moreover have "sint (log_time (hd ?es)) \<le> sint (log_time (last ?es))" using sorted_hd_last[OF sj, of "last ?es"] False by simp
  ultimately have lt: "sint (log_time (last ?es)) < sint from" using n False fs by (simp add: starts_def Let_def in_time_def)
  have "rec_time r \<le> sint (log_time (last ?es))" if r: "r \<in> set (sec_recs gran S N orig ess j)" for r
  proof -
    have "rec_time r \<in> set (map rec_time (sec_recs gran S N orig ess j))" using r by simp
    then obtain e where "e \<in> set ?es" "rec_time r = sint (log_time e)" unfolding sec_times by auto
    then show ?thesis using sorted_hd_last[OF sj] by auto
  qed
  then show ?thesis using lt by (fastforce simp: filter_empty_conv in_time_def rec_time_def)
qed

lemma time_sec_ok:
  assumes env: "ts_env blk gran db" and d: "disk_ok gran (ts_S db) (ts_N db) orig (sec_of ess) m"
    and cur: "cur_ok gran (pos (ts_N db) orig (length ess - 1) * ts_S db) (ts_S db) (last ess) (cur_sec db)"
    and old: "unat (oldest_addr db) = pos (ts_N db) orig 0 * ts_S db"
    and cb: "\<And>r. r \<in> set (ts_recs gran (ts_S db) (ts_N db) orig ess 0) \<Longrightarrow> cb_reads mem blk (parent db) m cb f r"
    and j: "j < ts_N db" and s: "db_calm mem blk (parent db) s" "db_content mem (parent db) s = m"
    and a: "unat addr = pos (ts_N db) orig j * ts_S db" and t: "unat t = j * ts_S db"
    and so: "sorted (map rec_time (ts_recs gran (ts_S db) (ts_N db) orig ess j))"
    and fo: "found \<Longrightarrow> \<forall>r\<in>set (ts_recs gran (ts_S db) (ts_N db) orig ess j). sint from \<le> rec_time r"
  shows "\<exists>s'. time_sec_loop gran db from to cb found addr t sector c s =
      Some (if found \<or> (\<exists>i. j \<le> i \<and> i < ts_N db \<and> starts from ess i)
        then snd (feed f (timely from to (ts_recs gran (ts_S db) (ts_N db) orig ess j)) c) else c, s') \<and>
    db_calm mem blk (parent db) s' \<and> db_content mem (parent db) s' = m"
  using j s a t so fo
proof (induction "ts_N db - j" arbitrary: j addr t sector c s found)
  case (Suc n)
  let ?S = "ts_S db" and ?N = "ts_N db"
  let ?A = "pos ?N orig j * ?S" and ?X = "sec_of ess j" and ?es = "sec_logs (sec_of ess j)"
  let ?b = "window ?A ?S m" and ?recs = "sec_recs gran ?S ?N orig ess j" and ?rest = "ts_recs gran ?S ?N orig ess (j + 1)"
  note e = ts_envD[OF env] and j = Suc.prems(1)
  have d': "disk_ok gran ?S ?N orig (sec_of ess) (db_content mem (parent db) s)" using d Suc.prems(3) by simp
  have k: "pos ?N orig j < ?N" by (rule pos_less) (use j in simp)
  note fo = ts_focus[OF env Suc.prems(2) d' j, unfolded Suc.prems(3)] and S31 = ts_sector(1)[OF env k]
  have bm: "blit m ?A ?b = m" using blit_window at_secD(4)[OF fo(1)] by blast
  have same: "db_calm mem blk (parent db) s' \<and> db_content mem (parent db) s' = m" if "at_sec mem blk (parent db) ?A ?S m s' ?b" for s'
    using at_secD(1,2)[OF that] bm by simp
  obtain sec1 s1 where 1: "sec_info gran ?A ?S ?X sec1" "at_sec mem blk (parent db) ?A ?S m s1 ?b"
    "read_sector_info gran db addr sector False s = Some (FDB_NO_ERR, sec1, s1)"
    by (rule read_hdr[OF fo(1) e(1) Suc.prems(4) refl S31 fo(2), of sector False]) simp
  show ?case
  proof (cases "?es = []")
    case True
    then have X: "?X = Blank" using fo(2) by (cases ?X) simp_all
    have "\<not> starts from ess i" if "j \<le> i" for i using blank_after[OF X that] by (simp add: starts_def Let_def)
    moreover have "time_sec_loop gran db from to cb found addr t sector c s = Some (c, s1)"
      using 1(1) X by (subst time_sec_loop.simps) (simp add: 1(3) sec_info_def)
    ultimately show ?thesis using same[OF 1(2)] by (simp add: ts_recs_blank[OF X])
  next
    case False
    have step: "ts_recs gran ?S ?N orig ess j = ?recs @ ?rest" by (rule ts_recs_step[OF j])
    have so: "sorted (map rec_time ?recs)" "sorted (map rec_time ?rest)" "\<forall>r\<in>set ?recs. \<forall>q\<in>set ?rest. rec_time r \<le> rec_time q"
      using Suc.prems(6) unfolding step by (auto simp: sorted_append)
    then have se: "sorted (map (sint \<circ> log_time) ?es)" by (simp only: sec_times)
    let ?sec = "if sec_status sec1 = FDB_SECTOR_STORE_USING then cur_sec db else sec1"
    have open_cur: "cur_ok gran ?A ?S es (cur_sec db)" if "?X = Open es" for es
    proof -
      have "j = length ess - 1" "ess \<noteq> []" "es = ess ! j" using that by (auto simp: sec_of_def split: if_splits)
      then show ?thesis using cur by (simp add: last_conv_nth)
    qed
    have sa: "unat (sec_addr ?sec) = ?A" "sec_addr ?sec = sec_addr sec1" "start_time ?sec = log_time (hd ?es)" "end_time ?sec = log_time (last ?es)"
    proof -
      show u: "unat (sec_addr ?sec) = ?A" and "start_time ?sec = log_time (hd ?es)" "end_time ?sec = log_time (last ?es)"
        using 1(1) open_cur False by (cases ?X; simp add: sec_info_def cur_ok_def)+
      show "sec_addr ?sec = sec_addr sec1" using u 1(1) by (simp add: sec_info_def word_unat_eq_iff)
    qed
    have stt: "sec_status sec1 = FDB_SECTOR_STORE_USING \<or> sec_status sec1 = FDB_SECTOR_STORE_FULL"
      using False fo(2) 1(1) by (cases ?X) (simp_all add: sec_info_def)
    have first: "addr = oldest_addr db \<longleftrightarrow> j = 0"
    proof
      assume "addr = oldest_addr db"
      then have "pos ?N orig j = pos ?N orig 0" using Suc.prems(4) old e(9) by simp
      then show "j = 0" using pos_inj j by fastforce
    qed (use Suc.prems(4) old in \<open>simp add: word_unat_eq_iff\<close>)
    have cond: "found \<or> in_time (start_time ?sec) (end_time ?sec) from \<or> addr = oldest_addr db \<and> sint from \<le> sint (start_time ?sec)
        \<longleftrightarrow> found \<or> starts from ess j"
      unfolding first sa(3,4) starts_def Let_def using False by simp
    let ?addr = "get_next_sector_addr db ?sec (t + db_sec_size (parent db))"
    have tl: "unat (t + db_sec_size (parent db)) = (j + 1) * ?S"
      using unat_add_small[of t "db_sec_size (parent db)"] Suc.prems(5) sector_inside[OF j, of ?S] e(6) by simp
    note nt = next_traversed[OF env j sa(1) tl]
    have later: "(\<exists>i. j \<le> i \<and> i < ?N \<and> starts from ess i) \<longleftrightarrow> starts from ess j \<or> (\<exists>i. j + 1 \<le> i \<and> i < ?N \<and> starts from ess i)"
      (is "?L \<longleftrightarrow> ?R")
    proof
      assume ?L
      then obtain i where "j \<le> i" "i < ?N" "starts from ess i" by blast
      then show ?R by (cases "i = j") auto
    next
      assume ?R
      then show ?L using j by (auto intro: exI[of _ j] dest: Suc_leD)
    qed
    have IH: "\<exists>s'. time_sec_loop gran db from to cb fnd ?addr (t + db_sec_size (parent db)) ?sec c2 s2 =
        Some (if fnd \<or> (\<exists>i. j + 1 \<le> i \<and> i < ?N \<and> starts from ess i) then snd (feed f (timely from to ?rest) c2) else c2, s') \<and>
        db_calm mem blk (parent db) s' \<and> db_content mem (parent db) s' = m"
      if "j + 1 < ?N" "at_sec mem blk (parent db) ?A ?S m s2 ?b" "fnd \<Longrightarrow> \<forall>r\<in>set ?rest. sint from \<le> rec_time r" for fnd c2 s2
      by (rule Suc.hyps(1)) (use Suc.hyps(2) that same[OF that(2)] nt(2)[OF that(1)] tl so in simp_all)
    define sec2 where "sec2 = ?sec"
    have rn: "?rest = []" if "j + 1 = ?N" using that by (simp add: ts_recs_def)
    show ?thesis
    proof (cases "found \<or> starts from ess j")
      case go: True
      let ?k = "early from ?es"
      have last_rec: "\<exists>r\<in>set ?recs. rec_time r = sint (log_time (last ?es))"
      proof -
        have "sint (log_time (last ?es)) \<in> set (map rec_time ?recs)" using False unfolding sec_times by simp
        then show ?thesis by auto
      qed
      have ends: "sint from \<le> sint (log_time (last ?es))"
      proof (cases found)
        case True
        then show ?thesis using Suc.prems(7)[OF True] last_rec unfolding step by (metis UnCI set_append)
      next
        case False
        then show ?thesis using go sorted_hd_last[OF se, of "last ?es"] \<open>?es \<noteq> []\<close> by (auto simp: starts_def Let_def in_time_def)
      qed
      have k: "?k < length ?es"
      proof (rule ccontr)
        assume "\<not> ?k < length ?es"
        then have "length ?es - 1 < ?k" using False by (cases ?es) auto
        then show False using sorted_early[OF se, of "length ?es - 1" "from"] False ends by (simp add: last_conv_nth)
      qed
      have "cb_reads mem blk (parent db) (blit m ?A ?b) cb f r" if "r \<in> set (tsl_recs gran ?A (hsz gran) ?S ?es)" for r
        unfolding bm by (rule cb) (use that j in \<open>auto simp: ts_recs_def sec_recs_def\<close>)
      from time_visit[OF env 1(2) S31 fo(2) open_cur 1(1) se k this, of to c]
      obtain s2 start s3 where v: "start_search gran db from (sec_addr sec1 + SECTOR_HDR_DATA_SIZE gran) (end_idx sec2) s1 = Some (start, s2)"
        "time_tsl_loop gran db from to cb sec2 (junk_tsl start) c s2 =
          Some (fst (feed (time_fn from to f) (drop ?k ?recs) c), snd (feed (time_fn from to f) (drop ?k ?recs) c), s3)"
        "at_sec mem blk (parent db) ?A ?S m s3 ?b" unfolding sec2_def sec_recs_def by blast
      obtain stop c2 where R: "feed (time_fn from to f) (drop ?k ?recs) c = (stop, c2)" by (cases "feed (time_fn from to f) (drop ?k ?recs) c")
      have loop: "time_sec_loop gran db from to cb found addr t sector c s = (if stop then Some (c2, s3)
          else if ?addr \<noteq> FAILED_ADDR then time_sec_loop gran db from to cb True ?addr (t + db_sec_size (parent db)) ?sec c2 s3 else Some (c2, s3))"
        using cond go v stt sa(2) unfolding sec2_def[symmetric] R
        by (subst time_sec_loop.simps) (simp add: 1(3) Let_def sec2_def[symmetric] disj_assoc)
      have L: "sorted (map rec_time (drop ?k ?recs))" using so(1) by (simp add: drop_map[symmetric] sorted_wrt_drop)
      note ed = early_drop[OF se sec_times[of gran ?S ?N orig ess j], of "from"]
      have ft: "c2 = snd (feed f (timely from to ?recs) c)"
        "if stop then fst (feed f (timely from to ?recs) c) \<or> (\<exists>r\<in>set ?recs. sint to < rec_time r) else \<not> fst (feed f (timely from to ?recs) c)"
        using feed_time[OF L ed(1), of to f c] unfolding R ed(2) by (auto dest: in_set_dropD split: if_splits)
      have fin: "snd (feed f (timely from to (?recs @ ?rest)) c) = (if stop then c2 else snd (feed f (timely from to ?rest) c2))"
      proof (cases stop)
        case True
        have "timely from to ?rest = []" if nf: "\<not> fst (feed f (timely from to ?recs) c)"
        proof -
          obtain r where "r \<in> set ?recs" "sint to < rec_time r" using ft(2) True nf by auto
          then have "\<forall>q\<in>set ?rest. sint to < rec_time q" using so(3) by force
          then show ?thesis by (fastforce simp: filter_empty_conv in_time_def rec_time_def)
        qed
        then show ?thesis using True ft(1) by (cases "feed f (timely from to ?recs) c") (auto simp: feed_append)
      next
        case False
        then show ?thesis using ft by (cases "feed f (timely from to ?recs) c") (auto simp: feed_append)
      qed
      have yes: "found \<or> (\<exists>i. j \<le> i \<and> i < ?N \<and> starts from ess i)" using go j by auto
      have up: "\<forall>r\<in>set ?rest. sint from \<le> rec_time r" using so(3) last_rec ends by force
      show ?thesis
      proof (cases "stop \<or> j + 1 = ?N")
        case True
        then have "snd (feed f (timely from to (?recs @ ?rest)) c) = c2" using fin rn by auto
        then show ?thesis using loop True nt(1) same[OF v(3)] yes unfolding step by auto
      next
        case False
        then have "j + 1 < ?N" using j by simp
        from IH[OF this v(3), of True c2] up show ?thesis using loop False nt(1) fin yes unfolding step by simp
      qed
    next
      case skip: False
      have loop: "time_sec_loop gran db from to cb found addr t sector c s = (if ?addr \<noteq> FAILED_ADDR
          then time_sec_loop gran db from to cb False ?addr (t + db_sec_size (parent db)) ?sec c s1 else Some (c, s1))"
        using cond skip stt unfolding sec2_def[symmetric]
        by (subst time_sec_loop.simps) (auto simp: 1(3) Let_def sec2_def[symmetric] disj_assoc)
      have drop_recs: "timely from to (?recs @ ?rest) = timely from to ?rest" if ex: "\<exists>i. j + 1 \<le> i \<and> i < ?N \<and> starts from ess i"
      proof -
        obtain i where "j < i" "i < ?N" "starts from ess i" using ex by (auto simp: Suc_le_eq)
        then show ?thesis using before_start[OF Suc.prems(6)] skip by simp
      qed
      show ?thesis
      proof (cases "j + 1 = ?N")
        case True
        then have "\<not> (\<exists>i. j \<le> i \<and> i < ?N \<and> starts from ess i)" using skip later by auto
        then show ?thesis using loop True nt(1) same[OF 1(2)] skip by auto
      next
        case False
        then have "j + 1 < ?N" using j by simp
        from IH[OF this 1(2), of False c] show ?thesis using loop False nt(1) drop_recs skip later unfolding step by auto
      qed
    qed
  qed
qed simp

lemma ts_recs_times:
  assumes "length ess \<le> N"
  shows "map rec_time (ts_recs gran S N orig ess 0) = map (sint \<circ> log_time) (concat ess)"
proof -
  have "map (\<lambda>j. map rec_time (sec_recs gran S N orig ess j)) [0..<N] = map (\<lambda>j. map (sint \<circ> log_time) (sec_logs (sec_of ess j))) [0..<N]"
    by (simp only: sec_times)
  then have "map rec_time (ts_recs gran S N orig ess 0) = map (sint \<circ> log_time) (concat (map (\<lambda>j. sec_logs (sec_of ess j)) [0..<N]))"
    by (simp only: ts_recs_def map_concat map_map comp_def)
  then show ?thesis by (simp only: concat_sec_logs[OF assms])
qed

lemma starts_inside: "starts from ess i \<Longrightarrow> length ess \<le> N \<Longrightarrow> i < N"
  by (auto simp: starts_def Let_def sec_of_def split: if_splits)

lemma time_query_ok:
  assumes rep: "ts_rep mem blk gran orig ess db s" and so: "sorted (map (sint \<circ> log_time) (concat ess))"
    and cb: "\<And>r. r \<in> set (ts_recs gran (ts_S db) (ts_N db) orig ess 0) \<Longrightarrow> cb_reads mem blk (parent db) (db_content mem (parent db) s) cb f r"
  shows "\<exists>s'. fdb_tsl_iter_by_time gran junk db from to (Some cb) c s =
    Some (if \<exists>i. starts from ess i then snd (feed f (timely from to (ts_recs gran (ts_S db) (ts_N db) orig ess 0)) c) else c, s')"
proof -
  note rp = rep[unfolded ts_rep_def ts_shape_def ts_mem_def]
  have env: "ts_env blk gran db" and l: "length ess \<le> ts_N db" and o: "orig < ts_N db" using rp by simp_all
  note e = ts_envD[OF env]
  have so': "sorted (map rec_time (ts_recs gran (ts_S db) (ts_N db) orig ess 0))" using so ts_recs_times[OF l] by metis
  have "\<exists>s'. time_sec_loop gran db from to cb False (oldest_addr db) 0 junk c s =
      Some (if False \<or> (\<exists>i. 0 \<le> i \<and> i < ts_N db \<and> starts from ess i)
        then snd (feed f (timely from to (ts_recs gran (ts_S db) (ts_N db) orig ess 0)) c) else c, s') \<and>
    db_calm mem blk (parent db) s' \<and> db_content mem (parent db) s' = db_content mem (parent db) s"
    by (rule time_sec_ok[OF env _ _ _ cb _ _ refl _ _ so']) (use rp e(5) o in \<open>simp_all add: pos_def\<close>)
  moreover have "(\<exists>i. 0 \<le> i \<and> i < ts_N db \<and> starts from ess i) \<longleftrightarrow> (\<exists>i. starts from ess i)"
    using starts_inside[OF _ l] by auto
  ultimately show ?thesis by (auto simp: fdb_tsl_iter_by_time_def)
qed

text \<open>A query starts in the right sector unless its start lies between the logs of two sectors.\<close>

definition no_gap :: "u32 \<Rightarrow> log list list \<Rightarrow> bool" where
  "no_gap from ess \<longleftrightarrow> (\<forall>e\<in>set (concat ess). sint from \<le> sint (log_time e)) \<or> (\<forall>e\<in>set (concat ess). sint (log_time e) < sint from) \<or>
     (\<exists>es\<in>set ess. es \<noteq> [] \<and> in_time (log_time (hd es)) (log_time (last es)) from)"

lemma sec_logs_nth: "i < length ess \<Longrightarrow> sec_logs (sec_of ess i) = ess ! i"
  by (auto simp: sec_of_def)

lemma no_gap_query:
  assumes rep: "ts_rep mem blk gran orig ess db s" and so: "sorted (map (sint \<circ> log_time) (concat ess))"
    and cb: "\<And>r. r \<in> set (ts_recs gran (ts_S db) (ts_N db) orig ess 0) \<Longrightarrow> cb_reads mem blk (parent db) (db_content mem (parent db) s) cb f r"
    and gap: "no_gap from ess"
  shows "\<exists>s'. fdb_tsl_iter_by_time gran junk db from to (Some cb) c s =
    Some (snd (feed f (timely from to (ts_recs gran (ts_S db) (ts_N db) orig ess 0)) c), s')"
proof (cases "\<exists>i. starts from ess i")
  case True
  then show ?thesis using time_query_ok[OF rep so cb, of junk "from" to c] by simp
next
  case False
  let ?recs = "ts_recs gran (ts_S db) (ts_N db) orig ess 0"
  have l: "length ess \<le> ts_N db" and ne: "ess \<noteq> []" using rep by (simp_all add: ts_rep_def ts_shape_def)
  have "\<not> (\<exists>es\<in>set ess. es \<noteq> [] \<and> in_time (log_time (hd es)) (log_time (last es)) from)"
  proof
    assume "\<exists>es\<in>set ess. es \<noteq> [] \<and> in_time (log_time (hd es)) (log_time (last es)) from"
    then obtain i where i: "i < length ess" "ess ! i \<noteq> []" "in_time (log_time (hd (ess ! i))) (log_time (last (ess ! i))) from"
      by (auto simp: in_set_conv_nth)
    then have "starts from ess i" by (simp add: starts_def Let_def sec_logs_nth)
    then show False using False by blast
  qed
  then consider "\<forall>e\<in>set (concat ess). sint from \<le> sint (log_time e)" | "\<forall>e\<in>set (concat ess). sint (log_time e) < sint from"
    using gap by (auto simp: no_gap_def)
  then have "timely from to ?recs = []"
  proof cases
    case 1
    have "hd ess = []"
    proof (rule ccontr)
      assume h: "hd ess \<noteq> []"
      then have "hd (hd ess) \<in> set (concat ess)" using ne by (cases ess) auto
      then have "sint from \<le> sint (log_time (hd (hd ess)))" using 1 by blast
      moreover have "sec_logs (sec_of ess 0) = hd ess" using ne by (simp add: sec_logs_nth hd_conv_nth)
      ultimately have "starts from ess 0" using h by (simp add: starts_def Let_def)
      then show False using False by blast
    qed
    then have "sec_of ess 0 = Closed [] \<or> sec_of ess 0 = Blank" using ne by (auto simp: sec_of_def hd_conv_nth)
    moreover have "sec_of ess 0 \<noteq> Closed []"
      using rep ts_envD(5)[of blk gran db] by (auto simp: ts_rep_def disk_ok_def dest: spec[of _ 0])
    ultimately show ?thesis by (simp add: ts_recs_blank)
  next
    case 2
    have "rec_time r < sint from" if "r \<in> set ?recs" for r
    proof -
      have "rec_time r \<in> set (map (sint \<circ> log_time) (concat ess))" using that unfolding ts_recs_times[OF l, symmetric, of gran "ts_S db" orig] by simp
      then obtain e where "e \<in> set (concat ess)" "rec_time r = sint (log_time e)" unfolding set_map comp_def by blast
      then show ?thesis using bspec[OF 2] by metis
    qed
    then show ?thesis by (fastforce simp: filter_empty_conv in_time_def rec_time_def)
  qed
  then show ?thesis using time_query_ok[OF rep so cb, of junk "from" to c] False by simp
qed

section \<open>Counting\<close>

lemma count_reads: "cb_reads mem blk db m (query_count_cb st) (\<lambda>r n. (False, if tsl_status r = st then n + 1 else n)) r"
  by (auto simp: cb_reads_def query_count_cb_def)

lemma feed_count: "feed (\<lambda>r n. (False, if P r then n + 1 else n)) rs n = (False, n + of_nat (length (filter P rs)))" for n :: u32
  by (induction rs arbitrary: n) (simp_all add: ac_simps)

text \<open>The logs behind the records of a query.\<close>

lemma timely_logs: "map (log_read m) recs = es \<Longrightarrow> map (log_read m) (timely from to recs) = filter (\<lambda>e. in_time from to (log_time e)) es"
proof -
  assume "map (log_read m) recs = es"
  moreover have "log_time (log_read m r) = tsl_time r" for r by (simp add: log_read_def)
  ultimately show ?thesis by (auto simp: filter_map comp_def)
qed

lemma no_gap_count:
  assumes rep: "ts_rep mem blk gran orig ess db s" and so: "sorted (map (sint \<circ> log_time) (concat ess))" and gap: "no_gap from ess"
    and ok: "db_init_ok (parent db)"
  shows "\<exists>s'. fdb_tsl_query_count gran junk db from to st s =
    Some (of_nat (length (filter (\<lambda>e. in_time from to (log_time e) \<and> log_status e = st) (concat ess))), s')"
proof -
  let ?m = "db_content mem (parent db) s" and ?recs = "ts_recs gran (ts_S db) (ts_N db) orig ess 0"
  have "length (filter (\<lambda>r. tsl_status r = st) (timely from to ?recs)) =
      length (filter (\<lambda>e. log_status e = st) (map (log_read ?m) (timely from to ?recs)))"
    by (simp add: filter_map comp_def log_read_def)
  also have "\<dots> = length (filter (\<lambda>e. in_time from to (log_time e) \<and> log_status e = st) (concat ess))"
    unfolding timely_logs[OF ts_read(1)[OF rep refl]] by (simp only: filter_filter conj_commute)
  finally have n: "length (filter (\<lambda>r. tsl_status r = st) (timely from to ?recs)) =
    length (filter (\<lambda>e. in_time from to (log_time e) \<and> log_status e = st) (concat ess))" .
  obtain s' where "fdb_tsl_iter_by_time gran junk db from to (Some (query_count_cb st)) 0 s =
      Some (snd (feed (\<lambda>r n. (False, if tsl_status r = st then n + 1 else n)) (timely from to ?recs) 0), s')"
    using no_gap_query[where c = 0, OF rep so count_reads gap, of junk to st] by blast
  then show ?thesis using ok by (simp add: fdb_tsl_query_count_def feed_count[where P = "\<lambda>r. tsl_status r = st"] flip: n)
qed

end
