(* ===== verification/Tsdb_Life.thy ===== *)
theory Tsdb_Life
  imports Tsdb_Fresh Tsdb_Time "HOL-Library.Sublist"
begin

text \<open>
  Properties of the time series database: every operation against the lists of logs, whole
  runs, restarts, queries, and a database on an erased flash that satisfies what they ask for.
\<close>

section \<open>What a push keeps\<close>

lemma suffix_concat_tl: "suffix (concat (tl ess) @ xs) (concat ess @ xs)"
  by (cases ess) (simp_all add: suffix_def)

lemma concat_push: "ess \<noteq> [] \<Longrightarrow> concat (butlast ess @ [last ess @ [e]]) = concat ess @ [e]"
  by (metis append_butlast_last_id append_assoc concat.simps concat_append append_Nil2)

lemma ts_next_kept:
  assumes "ess \<noteq> []"
  shows "suffix (concat (ts_next N ess)) (concat ess)" "length ess < N \<Longrightarrow> concat (ts_next N ess) = concat ess"
  using suffix_concat_tl[of ess "[]"] by (simp_all add: ts_next_def)

lemma ts_push_kept:
  assumes "ess \<noteq> []"
  shows "suffix (concat (ts_push gran S N ess e)) (concat ess @ [e])"
    "length ess < N \<or> last ess = [] \<or> ts_fits gran S (last ess) e \<Longrightarrow> concat (ts_push gran S N ess e) = concat ess @ [e]"
    "ts_push gran S N ess e \<noteq> []"
proof -
  have ne: "ts_next N ess \<noteq> []" by (simp add: ts_next_def)
  show "suffix (concat (ts_push gran S N ess e)) (concat ess @ [e])"
    using assms ts_next_kept(1)[OF assms, of N] by (simp add: ts_push_def Let_def concat_push[OF ne] concat_push[OF assms] del: concat_append)
  show "concat (ts_push gran S N ess e) = concat ess @ [e]" if "length ess < N \<or> last ess = [] \<or> ts_fits gran S (last ess) e"
    using assms that ts_next_kept(2)[OF assms, of N] by (auto simp: ts_push_def Let_def concat_push[OF ne] concat_push[OF assms] simp del: concat_append)
  show "ts_push gran S N ess e \<noteq> []" by (simp add: ts_push_def Let_def)
qed

lemma pushes_kept:
  "ess \<noteq> [] \<Longrightarrow> suffix (concat (foldl (ts_push gran S N) ess es)) (concat ess @ es)"
proof (induction es arbitrary: ess)
  case (Cons e es)
  let ?ess = "ts_push gran S N ess e"
  note k = ts_push_kept[OF Cons.prems, of gran S N e]
  have "suffix (concat (foldl (ts_push gran S N) ?ess es)) (concat ?ess @ es)" by (rule Cons.IH[OF k(3)])
  moreover have "suffix (concat ?ess @ es) (concat ess @ [e] @ es)" using k(1) by (auto simp: suffix_def)
  ultimately show ?case by (auto intro: suffix_order.trans)
qed simp

section \<open>Many appends\<close>

definition log_blob :: "u8 list \<Rightarrow> fdb_blob" where
  "log_blob d = \<lparr>blob_buf = d, blob_size = of_nat (length d), saved_meta_addr = 0, saved_addr = 0, saved_len = 0\<rparr>"

lemma blob_of_log: "length d < 2 ^ 32 \<Longrightarrow> blob_of (log_blob d) d"
  by (simp add: blob_of_def log_blob_def rd_blk_def unat_of_nat_lt)

text \<open>Appends one after the other until one of them is not accepted.\<close>

fun append_all :: "nat \<Rightarrow> (u32 \<times> u8 list) list \<Rightarrow> fdb_tsdb \<Rightarrow> 'd fal \<Rightarrow> (fdb_err \<times> fdb_tsdb \<times> 'd fal) option" where
  "append_all gran [] db s = Some (FDB_NO_ERR, db, s)"
| "append_all gran ((t, d) # es) db s = do {
     (e, db, s) \<leftarrow> fdb_tsl_append gran db (log_blob d) t s;
     if e = FDB_NO_ERR then append_all gran es db s else Some (e, db, s) }"

definition written :: "(u32 \<times> u8 list) list \<Rightarrow> log list" where
  "written es = map (\<lambda>(t, d). (FDB_TSL_WRITE, t, d)) es"

lemma append_all_ok:
  assumes "ts_rep mem blk gran orig ess db s" "db_init_ok (parent db)" "rollover db"
    "\<forall>(t, d) \<in> set es. length d \<le> unat (max_len db)" "sorted (sint (last_time db) # map (sint \<circ> fst) es)"
  shows "\<exists>db' s' orig'. append_all gran es db s = Some (FDB_NO_ERR, db', s') \<and> same_db db db' \<and>
    ts_rep mem blk gran orig' (foldl (ts_push gran (ts_S db) (ts_N db)) ess (written es)) db' s'"
  using assms
proof (induction es arbitrary: orig ess db s)
  case Nil
  then show ?case by (auto simp: written_def same_db_def)
next
  case (Cons a es)
  obtain t d where a: "a = (t, d)" by (cases a)
  have d: "length d \<le> unat (max_len db)" "length d < 2 ^ 32"
    using Cons.prems(4) a unat_lt32[of "max_len db"] by auto
  obtain db1 s1 o1 where 1: "fdb_tsl_append gran db (log_blob d) t s = Some (FDB_NO_ERR, db1, s1)"
    "ts_rep mem blk gran o1 (ts_push gran (ts_S db) (ts_N db) ess (FDB_TSL_WRITE, t, d)) db1 s1" "same_db db db1"
    using append_ok[OF Cons.prems(1-3) d(1) blob_of_log[OF d(2)], of t] Cons.prems(5) a by auto
  have lt: "last_time db1 = t"
  proof -
    let ?ess = "if last ess = [] \<or> ts_fits gran (ts_S db) (last ess) (FDB_TSL_WRITE, t, d) then ess else ts_next (ts_N db) ess"
    have "ts_push gran (ts_S db) (ts_N db) ess (FDB_TSL_WRITE, t, d) = butlast ?ess @ [last ?ess @ [(FDB_TSL_WRITE, t, d)]]"
      by (simp only: ts_push_def Let_def)
    then show ?thesis using 1(2) by (simp add: ts_rep_def ts_mem_def)
  qed
  have sd: "db_init_ok (parent db1)" "rollover db1" "max_len db1 = max_len db" "ts_S db1 = ts_S db" "ts_N db1 = ts_N db"
    using 1(3) Cons.prems(2,3) same_db_size[OF 1(3)] by (simp_all add: same_db_def)
  obtain db' s' o' where 2: "append_all gran es db1 s1 = Some (FDB_NO_ERR, db', s')" "same_db db1 db'"
    "ts_rep mem blk gran o' (foldl (ts_push gran (ts_S db) (ts_N db)) (ts_push gran (ts_S db) (ts_N db) ess (FDB_TSL_WRITE, t, d)) (written es)) db' s'"
    using Cons.IH[OF 1(2) sd(1,2)] Cons.prems(4,5) lt a unfolding sd by auto
  moreover have "same_db db db'" using 1(3) 2(2) by (simp add: same_db_def)
  ultimately show ?case using 1(1) a by (auto simp: written_def)
qed

section \<open>Starting and restarting\<close>

text \<open>
  The first step of \<open>fdb_tsdb_init\<close> found the partition: \<open>db1\<close> and \<open>s1\<close> are the database and the
  flash after it.
\<close>

definition ts_opened :: "('d \<Rightarrow> u8 list) \<Rightarrow> nat \<Rightarrow> nat \<Rightarrow> fdb_tsdb \<Rightarrow> string \<Rightarrow> string \<Rightarrow> u32 \<Rightarrow> 'd fal \<Rightarrow> fdb_tsdb \<Rightarrow> 'd fal \<Rightarrow> bool" where
  "ts_opened mem blk gran db name path max_length s db1 s1 \<longleftrightarrow>
     fdb_init_ex (parent db) name path FDB_DB_TYPE_TS s = Some (FDB_NO_ERR, parent db1, s1) \<and>
     db1 = db\<lparr>parent := parent db1, max_len := max_length\<rparr> \<and> ts_env blk gran db1 \<and> db_calm mem blk (parent db1) s1"

definition unformatted :: "('d \<Rightarrow> u8 list) \<Rightarrow> nat \<Rightarrow> fdb_tsdb \<Rightarrow> 'd fal \<Rightarrow> bool" where
  "unformatted mem gran db s \<longleftrightarrow> \<not> db_not_formatable (parent db) \<and>
     (\<forall>k < ts_N db. no_magic gran (window (k * ts_S db) (ts_S db) (db_content mem (parent db) s)))"

text \<open>The logs in flash, read by an iteration.\<close>

definition stored :: "nat \<Rightarrow> tsdb_sec_info \<Rightarrow> fdb_tsdb \<Rightarrow> 'd fal \<Rightarrow> log list option" where
  "stored gran junk db s = map_option fst (fdb_tsl_iter gran junk db (Some (collect_log (parent db))) [] s)"

lemma stored_ok: "ts_rep mem blk gran orig ess db s \<Longrightarrow> stored gran junk db s = Some (concat ess)"
  using collect_ok[of mem blk gran orig ess db s junk] by (auto simp: stored_def)

lemma opened_fresh:
  assumes "ts_opened mem blk gran db name path max_length s db1 s1" "unformatted mem gran db1 s1"
  shows "\<exists>db' s'. fdb_tsdb_init gran junk db name path max_length s = Some (FDB_NO_ERR, db', s') \<and> ts_rep mem blk gran 0 [[]] db' s' \<and>
    db_init_ok (parent db') \<and> rollover db' \<and> max_len db' = max_length \<and> last_time db' = 0 \<and> parent db' = (parent db1)\<lparr>db_init_ok := True\<rparr>"
proof -
  note o = assms(1)[unfolded ts_opened_def]
  have env: "ts_env blk gran db1" and r: "db_calm mem blk (parent db1) s1" using o by simp_all
  have "half_formatted gran (ts_S db1) (ts_N db1) 0 (db_content mem (parent db1) s1)"
    using assms(2) ts_envD(7)[OF env] length_calm[OF r] by (simp add: half_formatted_def unformatted_def)
  then show ?thesis by (rule fresh_ok[OF env r]) (use o assms(2) in \<open>simp_all add: unformatted_def\<close>)
qed

lemma opened_restart:
  assumes o: "ts_opened mem blk gran db2 name path max_length s2 db1 s1" and rep: "ts_rep mem blk gran orig ess db s"
    and same: "db_content mem (parent db1) s1 = db_content mem (parent db) s" "db_sec_size (parent db1) = db_sec_size (parent db)"
      "db_max_size (parent db1) = db_max_size (parent db)"
    and slot: "slot_ok gran (ts_S db) (hsz gran + length (last ess) * isz gran) (ts_S db - used gran (last ess))"
  shows "\<exists>db' s'. fdb_tsdb_init gran junk db2 name path max_length s2 = Some (FDB_NO_ERR, db', s') \<and> ts_rep mem blk gran orig ess db' s' \<and>
    db_init_ok (parent db') \<and> rollover db'"
proof -
  note o' = o[unfolded ts_opened_def] and rp = rep[unfolded ts_rep_def]
  have z: "ts_S db1 = ts_S db" "ts_N db1 = ts_N db" using same by (simp_all add: ts_N_def)
  have "\<exists>db' s'. fdb_tsdb_init gran junk db2 name path max_length s2 = Some (FDB_NO_ERR, db', s') \<and> ts_rep mem blk gran orig ess db' s' \<and>
    db_init_ok (parent db') \<and> rollover db' \<and> db_content mem (parent db') s' = db_content mem (parent db1) s1"
    by (rule restart_ok) (use o' rp slot in \<open>simp_all add: z same\<close>)
  then show ?thesis by blast
qed

section \<open>Properties\<close>

text \<open>
  C16: an append to a time series database that rolls over is a push on the lists of its logs: the log
  is added to the last sector when it has room for index and data, and else to the next one, which
  first loses its logs when there is no blank sector left. All other logs stay.
\<close>

theorem tsdb_append_pushes:
  assumes "ts_rep mem blk gran orig ess db s" "db_init_ok (parent db)" "rollover db" "length d \<le> unat (max_len db)"
    and "blob_of blob d" "sint (last_time db) \<le> sint t"
  shows "\<exists>db' s' orig'. fdb_tsl_append gran db blob t s = Some (FDB_NO_ERR, db', s') \<and>
    ts_rep mem blk gran orig' (ts_push gran (ts_S db) (ts_N db) ess (FDB_TSL_WRITE, t, d)) db' s'"
  using append_ok[OF assms] by blast

text \<open>
  C17: an iteration over the database gives a callback that only reads each log of the database
  once, the oldest first, until it asks to stop; a callback that reads the data of each log gets what was appended.
\<close>

theorem tsdb_iter_complete:
  assumes "ts_rep mem blk gran orig ess db s"
    and "\<And>r. r \<in> set (ts_recs gran (ts_S db) (ts_N db) orig ess 0) \<Longrightarrow> cb_reads mem blk (parent db) (db_content mem (parent db) s) cb f r"
  shows "(\<exists>s'. fdb_tsl_iter gran junk db (Some cb) c s = Some (snd (feed f (ts_recs gran (ts_S db) (ts_N db) orig ess 0) c), s')) \<and>
    map (log_read (db_content mem (parent db) s)) (ts_recs gran (ts_S db) (ts_N db) orig ess 0) = concat ess"
  using iter_ok[OF assms, of junk c] ts_read(1)[OF assms(1) refl] by blast+

text \<open>
  C3: on a flash without a database, initialisation, any number of appends in the order of time and an
  iteration give back the logs that were appended, in order, up to the oldest ones whose sectors were used again.
\<close>

theorem tsdb_is_queue:
  assumes "ts_opened mem blk gran db name path max_length s db1 s1" "unformatted mem gran db1 s1"
    and "\<forall>(t, d) \<in> set es. length d \<le> unat max_length" "sorted (0 # map (sint \<circ> fst) es)"
  shows "\<exists>db' s' db'' s'' logs. fdb_tsdb_init gran junk db name path max_length s = Some (FDB_NO_ERR, db', s') \<and>
    append_all gran es db' s' = Some (FDB_NO_ERR, db'', s'') \<and> stored gran junk db'' s'' = Some logs \<and>
    suffix logs (written es) \<and> logs = concat (foldl (ts_push gran (ts_S db') (ts_N db')) [[]] (written es))"
proof -
  obtain db' s' where 1: "fdb_tsdb_init gran junk db name path max_length s = Some (FDB_NO_ERR, db', s')" "ts_rep mem blk gran 0 [[]] db' s'"
    "db_init_ok (parent db')" "rollover db'" "max_len db' = max_length" "last_time db' = 0" using opened_fresh[OF assms(1,2), of junk] by blast
  obtain db'' s'' o'' where 2: "append_all gran es db' s' = Some (FDB_NO_ERR, db'', s'')"
    "ts_rep mem blk gran o'' (foldl (ts_push gran (ts_S db') (ts_N db')) [[]] (written es)) db'' s''"
    using append_all_ok[OF 1(2-4), of es] assms(3,4) 1(5,6) by auto
  show ?thesis using 1(1) 2(1) stored_ok[OF 2(2)] pushes_kept[of "[[]]"] by simp
qed

text \<open>
  C12: a restart recovers the database: when the flash holds what it held before, initialisation finds
  the current sector, the oldest one and the last time again, and the database holds the same logs,
  provided that the rest of the current sector is used up, or has room for a status table with the
  index that starts there inside the sector (\<open>rest_read_as_index\<close> shows what happens otherwise).
\<close>

theorem tsdb_restart_recovers:
  assumes "ts_opened mem blk gran db2 name path max_length s2 db1 s1" "ts_rep mem blk gran orig ess db s"
    and "db_content mem (parent db1) s1 = db_content mem (parent db) s" "db_sec_size (parent db1) = db_sec_size (parent db)"
      "db_max_size (parent db1) = db_max_size (parent db)"
    and "slot_ok gran (ts_S db) (hsz gran + length (last ess) * isz gran) (ts_S db - used gran (last ess))"
  shows "\<exists>db' s'. fdb_tsdb_init gran junk db2 name path max_length s2 = Some (FDB_NO_ERR, db', s') \<and>
    ts_rep mem blk gran orig ess db' s' \<and> stored gran junk db' s' = Some (concat ess)"
  using opened_restart[OF assms] stored_ok by blast

text \<open>
  C18: when the times of the logs do not decrease, a query by time, with its binary search in each sector, gives a
  callback exactly the logs of a walk over all of them whose time is in the interval, in order, and the count of a status
  counts them, unless the start of the interval lies between the last log of one sector and the first of the next.
\<close>

theorem tsdb_time_query:
  assumes "ts_rep mem blk gran orig ess db s" "sorted (map (sint \<circ> log_time) (concat ess))" "no_gap from ess" "db_init_ok (parent db)"
    and "\<And>r. r \<in> set (ts_recs gran (ts_S db) (ts_N db) orig ess 0) \<Longrightarrow> cb_reads mem blk (parent db) (db_content mem (parent db) s) cb f r"
  shows "(\<exists>s'. fdb_tsl_iter_by_time gran junk db from to (Some cb) c s =
      Some (snd (feed f (timely from to (ts_recs gran (ts_S db) (ts_N db) orig ess 0)) c), s')) \<and>
    map (log_read (db_content mem (parent db) s)) (timely from to (ts_recs gran (ts_S db) (ts_N db) orig ess 0)) =
      filter (\<lambda>e. in_time from to (log_time e)) (concat ess) \<and>
    (\<exists>s'. fdb_tsl_query_count gran junk db from to st s =
      Some (of_nat (length (filter (\<lambda>e. in_time from to (log_time e) \<and> log_status e = st) (concat ess))), s'))"
  using no_gap_query[OF assms(1,2,5,3)] timely_logs[OF ts_read(1)[OF assms(1) refl]] no_gap_count[OF assms(1-4)] by blast

text \<open>In a gap the query gives nothing, although there are later logs.\<close>

lemma query_in_gap:
  assumes "ts_rep mem blk gran orig ess db s" "sorted (map (sint \<circ> log_time) (concat ess))" "\<not> (\<exists>i. starts from ess i)"
    and "\<And>r. r \<in> set (ts_recs gran (ts_S db) (ts_N db) orig ess 0) \<Longrightarrow> cb_reads mem blk (parent db) (db_content mem (parent db) s) cb f r"
  shows "\<exists>s'. fdb_tsl_iter_by_time gran junk db from to (Some cb) c s = Some (c, s')"
  using time_query_ok[OF assms(1,2,4), of junk "from" to c] assms(3) by simp

lemma append_refused:
  "\<not> db_init_ok (parent db) \<Longrightarrow> fdb_tsl_append gran db blob t s = Some (FDB_INIT_FAILED, db, s)"
  "db_init_ok (parent db) \<Longrightarrow> blob_size blob \<le> max_len db \<Longrightarrow> sint t < sint (last_time db) \<Longrightarrow>
      fdb_tsl_append gran db blob t s = Some (FDB_WRITE_ERR, db, s)"
  "db_init_ok (parent db) \<Longrightarrow> blob_size blob \<le> max_len db \<Longrightarrow> sint (last_time db) \<le> sint t \<Longrightarrow>
      sec_status (cur_sec db) = FDB_SECTOR_STORE_FULL \<Longrightarrow> fdb_tsl_append gran db blob t s = Some (FDB_SAVED_FULL, db, s)"
  by (simp_all add: fdb_tsl_append_def tsl_append_def update_sec_status_def Let_def not_less)

section \<open>An example\<close>

text \<open>The time series partition of the configuration on an erased flash.\<close>

definition ts_flash :: "u8 list fal" where "ts_flash = fal_static [nor16] FAL_PART_TABLE nor16_mem"

definition ts_junk :: tsdb_sec_info where
  "ts_junk = \<lparr>sec_check_ok = False, sec_status = FDB_SECTOR_STORE_UNUSED, sec_addr = 0, sec_magic = 0, start_time = 0, end_time = 0, end_idx = 0,
     end_info_stat0 = FDB_TSL_UNUSED, end_info_stat1 = FDB_TSL_UNUSED, remain = 0, empty_idx = 0, empty_data = 0\<rparr>"

definition ts_zero :: fdb_tsdb where
  "ts_zero = \<lparr>parent = \<lparr>db_name = [], db_type = FDB_DB_TYPE_KV, db_part = FAL_PART_TABLE ! 0, db_sec_size = 0, db_max_size = 0, db_init_ok = False,
     db_file_mode = False, db_not_formatable = False, db_lock = None, db_unlock = None\<rparr>,
     cur_sec = ts_junk, last_time = 0, max_len = 0, oldest_addr = 0, rollover = False\<rparr>"

definition ts_parent :: fdb_db where
  "ts_parent = \<lparr>db_name = ''log'', db_type = FDB_DB_TYPE_TS, db_part = FAL_PART_TABLE ! 5, db_sec_size = 4096, db_max_size = 10*512*1024, db_init_ok = False,
     db_file_mode = False, db_not_formatable = False, db_lock = None, db_unlock = None\<rparr>"

definition ts_first :: fdb_tsdb where "ts_first = ts_zero\<lparr>parent := ts_parent, max_len := 64\<rparr>"

lemma part5: "FAL_PART_TABLE ! 5 = part ''fdb_tsdb'' ''norflash0'' (6*512*1024) (10*512*1024)"
  by (simp add: FAL_PART_TABLE_def)

lemma ts_example_init:
  "fdb_init_ex (parent ts_zero) ''log'' ''fdb_tsdb'' FDB_DB_TYPE_TS ts_flash = Some (FDB_NO_ERR, ts_parent, fal_ready nor16 nor16_mem)"
proof -
  have i: "fal_init ts_flash = Some (6, fal_ready nor16 nor16_mem)" unfolding ts_flash_def by (rule fal_init_ready[OF nor16_ok(2-4)])
  have p: "fal_partition_find ''fdb_tsdb'' (fal_ready nor16 nor16_mem) = Some (Some (FAL_PART_TABLE ! 5))"
    by (simp add: fal_partition_find_def fal_ready_def FAL_PART_TABLE_def part_def numeral_eq_Suc)
  have d: "fal_flash_device_find (part_flash (FAL_PART_TABLE ! 5)) (fal_ready nor16 nor16_mem) = Some (Some nor16)"
    by (simp add: fal_flash_device_find_def fal_ready_def part5 part_def nor16_def ram_dev_def strncmp_eq_def)
  have b: "dev_blk_size nor16 = 4096" "part_len (FAL_PART_TABLE ! 5) = 10*512*1024" by (simp_all add: nor16_def ram_dev_def part5 part_def)
  show ?thesis
    by (simp add: ts_zero_def ts_parent_def fdb_init_ex_def fdb_open_part_def i p d b)
qed

lemma ts_example_opened: "ts_opened (\<lambda>h. h) 4096 1 ts_zero ''log'' ''fdb_tsdb'' 64 ts_flash ts_first (fal_ready nor16 nor16_mem)"
proof -
  have b: "unat (dev_blk_size nor16) = 4096" by (simp add: nor16_def ram_dev_def)
  have m: "FAL_PART_TABLE ! 5 \<in> set FAL_PART_TABLE" by (rule nth_mem) (simp add: FAL_PART_TABLE_def)
  have "db_ready (\<lambda>h. h) 4096 ts_parent (fal_ready nor16 nor16_mem)"
    using fal_ready_ok[OF nor16_ok(1-3,5,6) m] unfolding db_ready_def b by (simp add: ts_parent_def)
  moreover have "reliable (\<lambda>h. h) (device_table (fal_ready nor16 nor16_mem))" by (simp add: reliable_def fal_ready_def nor16_def ram_dev_def)
  moreover have "ts_env 4096 1 ts_first"
    by (simp add: ts_env_def ts_first_def ts_parent_def grans_def part5 part_def hsz_eq isz_eq pad_def wg_bytes_def ts_layout_defs)
  ultimately show ?thesis using ts_example_init by (simp add: ts_opened_def db_calm_def ts_first_def)
qed

lemma ts_example_unformatted: "unformatted (\<lambda>h. h) 1 ts_first (fal_ready nor16 nor16_mem)"
proof -
  have w: "window a n (replicate k x) = replicate n x" if "a + n \<le> k" for a n k and x :: u8 using that by (simp add: window_def)
  have c: "db_content (\<lambda>h. h) (parent ts_first) (fal_ready nor16 nor16_mem) = replicate (10*512*1024) 0xFF"
  proof -
    have "inited nor16 nor16_mem = nor16_mem" by (simp add: inited_def nor16_def ram_dev_def)
    moreover have "unat (part_offset (FAL_PART_TABLE ! 5)) = 6*512*1024" "unat (part_len (FAL_PART_TABLE ! 5)) = 10*512*1024" by (simp_all add: part5 part_def)
    ultimately show ?thesis
      unfolding db_content_def fal_content_def ts_first_def ts_parent_def fal_ready_def nor16_mem_def
      by (simp add: w)
  qed
  have z: "ts_S ts_first = 4096" "ts_N ts_first = 1280" by (simp_all add: ts_N_def ts_first_def ts_parent_def)
  have "no_magic 1 (replicate 4096 0xFF)"
  proof -
    have "SECTOR_MAGIC_OFFSET 1 = 4" by (simp add: ts_layout_defs)
    then have "window (SECTOR_MAGIC_OFFSET 1) 4 (replicate 4096 (0xFF :: u8)) = replicate 4 0xFF" using w[of 4 4 4096 "0xFF"] by simp
    moreover have "replicate 4 (0xFF :: u8) \<noteq> put_le32 SECTOR_MAGIC_WORD"
    proof
      assume "replicate 4 (0xFF :: u8) = put_le32 SECTOR_MAGIC_WORD"
      then have "replicate 4 (0xFF :: u8) ! 0 = put_le32 SECTOR_MAGIC_WORD ! 0" by (rule arg_cong)
      then show False by (simp add: put_le32_def SECTOR_MAGIC_WORD_def)
    qed
    ultimately show ?thesis by (simp only: no_magic_def not_False_eq_True)
  qed
  then have "no_magic 1 (window (k * 4096) 4096 (replicate (10*512*1024) 0xFF))" if "k < 1280" for k
  proof -
    have "k * 4096 + 4096 \<le> 10*512*1024" using that by simp
    from w[OF this] show ?thesis using \<open>no_magic 1 (replicate 4096 0xFF)\<close> by (simp only:)
  qed
  then show ?thesis unfolding unformatted_def z c by (simp add: ts_first_def ts_parent_def)
qed

lemma ts_example_start:
  obtains db s where "ts_rep (\<lambda>h. h) 4096 1 0 [[]] db s" "db_init_ok (parent db)" "rollover db" "max_len db = 64" "last_time db = 0"
  using opened_fresh[OF ts_example_opened ts_example_unformatted] by blast

lemma ts_example_one:
  obtains db s orig where "ts_rep (\<lambda>h. h) 4096 1 orig [[(FDB_TSL_WRITE, 10, [1, 2, 3])]] db s" "db_init_ok (parent db)" "max_len db = 64"
proof -
  obtain db s where 1: "ts_rep (\<lambda>h. h) 4096 1 0 [[]] db s" "db_init_ok (parent db)" "rollover db" "max_len db = 64" "last_time db = 0"
    by (rule ts_example_start)
  show ?thesis
    using append_ok[OF 1(1-3), of "[1, 2, 3]" "log_blob [1, 2, 3]" 10] 1(2,4,5) blob_of_log[of "[1, 2, 3]"] that
    by (auto simp: ts_push_def same_db_def)
qed

theorem tsdb_append_pushes_witness:
  "\<exists>db s db' s' orig. fdb_tsl_append 1 db (log_blob [1, 2, 3]) 10 s = Some (FDB_NO_ERR, db', s') \<and>
     ts_rep (\<lambda>h. h) 4096 1 orig [[(FDB_TSL_WRITE, 10, [1, 2, 3])]] db' s'"
proof -
  obtain db s where 1: "ts_rep (\<lambda>h. h) 4096 1 0 [[]] db s" "db_init_ok (parent db)" "rollover db" "max_len db = 64" "last_time db = 0"
    by (rule ts_example_start)
  from tsdb_append_pushes[OF 1(1-3), of "[1, 2, 3]" "log_blob [1, 2, 3]" 10] obtain db' s' orig where
    "fdb_tsl_append 1 db (log_blob [1, 2, 3]) 10 s = Some (FDB_NO_ERR, db', s')" "ts_rep (\<lambda>h. h) 4096 1 orig [[(FDB_TSL_WRITE, 10, [1, 2, 3])]] db' s'"
    using 1(4,5) blob_of_log[of "[1, 2, 3]"] by (auto simp: ts_push_def)
  then show ?thesis by blast
qed

theorem tsdb_iter_complete_witness:
  "\<exists>db (s :: u8 list fal) s'. fdb_tsl_iter 1 ts_junk db (Some (collect_log (parent db))) [] s = Some ([(FDB_TSL_WRITE, 10, [1, 2, 3])], s')"
proof -
  obtain db s orig where 1: "ts_rep (\<lambda>h. h) 4096 1 orig [[(FDB_TSL_WRITE, 10, [1, 2, 3])]] db s" by (rule ts_example_one)
  from tsdb_iter_complete[OF 1 collect_reads[OF ts_read(2)[OF 1 refl]], of ts_junk "[]"] obtain s' where
    "fdb_tsl_iter 1 ts_junk db (Some (collect_log (parent db))) [] s = Some ([(FDB_TSL_WRITE, 10, [1, 2, 3])], s')"
    by (auto simp: feed_collect)
  then show ?thesis by blast
qed

theorem tsdb_is_queue_witness:
  "\<exists>db s db' s'. fdb_tsdb_init 1 ts_junk ts_zero ''log'' ''fdb_tsdb'' 64 ts_flash = Some (FDB_NO_ERR, db, s) \<and>
     append_all 1 [(10, [1, 2, 3]), (12, [4])] db s = Some (FDB_NO_ERR, db', s') \<and>
     (\<exists>logs. stored 1 ts_junk db' s' = Some logs \<and> suffix logs [(FDB_TSL_WRITE, 10, [1, 2, 3]), (FDB_TSL_WRITE, 12, [4])])"
  using tsdb_is_queue[OF ts_example_opened ts_example_unformatted, of "[(10, [1, 2, 3]), (12, [4])]" ts_junk]
  by (auto simp: written_def)

theorem tsdb_restart_recovers_witness:
  "\<exists>db (s :: u8 list fal) db' s'. fdb_tsdb_init 1 ts_junk db ''log'' ''fdb_tsdb'' 64 s = Some (FDB_NO_ERR, db', s') \<and>
     stored 1 ts_junk db' s' = Some [(FDB_TSL_WRITE, 10, [1, 2, 3])]"
proof -
  obtain db s orig where 1: "ts_rep (\<lambda>h. h) 4096 1 orig [[(FDB_TSL_WRITE, 10, [1, 2, 3])]] db s" "db_init_ok (parent db)" "max_len db = 64"
    by (rule ts_example_one)
  have "db = db\<lparr>parent := parent db, max_len := 64\<rparr>" using 1(3) by (cases db) simp
  then have o: "ts_opened (\<lambda>h. h) 4096 1 db ''log'' ''fdb_tsdb'' 64 s db s"
    using 1(1,2) by (simp add: ts_opened_def ts_rep_def fdb_init_ex_def)
  have "77 \<le> ts_S db"
    using 1(1,3) by (auto simp: ts_rep_def ts_env_def hsz_eq isz_eq pad_def wg_bytes_def grans_def ts_layout_defs)
  then have "slot_ok 1 (ts_S db) (hsz 1 + length (last [[(FDB_TSL_WRITE, 10, [1, 2, 3])]]) * isz 1) (ts_S db - used 1 (last [[(FDB_TSL_WRITE, 10, [1, 2, 3])]]))"
    by (simp add: slot_ok_def hsz_eq isz_eq pad_def wg_bytes_def grans_def ts_layout_defs) linarith
  from tsdb_restart_recovers[OF o 1(1) refl refl refl this, of ts_junk] show ?thesis by fastforce
qed

theorem tsdb_time_query_witness:
  "\<exists>db (s :: u8 list fal) s'. fdb_tsl_query_count 1 ts_junk db 5 20 FDB_TSL_WRITE s = Some (1, s')"
proof -
  obtain db s orig where 1: "ts_rep (\<lambda>h. h) 4096 1 orig [[(FDB_TSL_WRITE, 10, [1, 2, 3])]] db s" "db_init_ok (parent db)"
    by (rule ts_example_one)
  have so: "sorted (map (sint \<circ> log_time) (concat [[(FDB_TSL_WRITE, 10, [1, 2, 3])]]))" by simp
  have gap: "no_gap 5 [[(FDB_TSL_WRITE, 10, [1, 2, 3])]]" by (simp add: no_gap_def)
  have c: "length (filter (\<lambda>e. in_time 5 20 (log_time e) \<and> log_status e = FDB_TSL_WRITE) (concat [[(FDB_TSL_WRITE, 10, [1, 2, 3])]])) = 1"
    by (simp add: in_time_def)
  have "\<exists>s'. fdb_tsl_query_count 1 ts_junk db 5 20 FDB_TSL_WRITE s = Some (of_nat (1 :: nat), s')"
    using tsdb_time_query[OF 1(1) so gap 1(2) count_reads[where st = FDB_TSL_WRITE], where junk = ts_junk and to = 20 and st = FDB_TSL_WRITE and c = 0]
    unfolding c by blast
  then show ?thesis by auto
qed

text \<open>
  A rest of a sector that is smaller than a status table: with the granularity 8 the bytes of the data
  behind it complete the table, so that the walk of a restart takes the rest for one more log. Here a
  sector of 40 bytes holds one log with 18 bytes of data, all zero, and 2 bytes are left.
\<close>

definition rest_part :: fal_partition where "rest_part = part ''ts'' ''norflash0'' 0 40"

definition rest_db :: fdb_tsdb where
  "rest_db = ts_zero\<lparr>parent := (parent ts_zero)\<lparr>db_part := rest_part, db_sec_size := 40, db_max_size := 40\<rparr>\<rparr>"

definition rest_flash :: "u8 list fal" where
  "rest_flash = \<lparr>device_table = [ram_dev 40 40], flash_init_ok = True, partition_table_def = [rest_part], partition_table = Some [rest_part],
     partition_table_len = 1, part_init_ok = True, fal_init_ok = True,
     hardware = [0, 0, 0xFF, 0xFF, 0xFF, 0xFF, 0xFF, 0xFF, 10, 0, 0, 0, 18, 0, 0, 0, 22, 0, 0, 0] @ [0xFF, 0xFF] @ replicate 18 0\<rparr>"

lemma rest_read_as_index:
  "map_option (\<lambda>(e, sec, _). (e, end_time sec, end_idx sec, empty_idx sec))
     (measure_loop 8 rest_db (junk_tsl 0) (ts_junk\<lparr>remain := 40, empty_idx := 0, empty_data := 40\<rparr>) rest_flash) =
   Some (FDB_READ_ERR, 0, 20, 40)"
  by code_simp

end
