(* ===== verification/Fota.thy ===== *)
theory Fota
  imports Fal Crc
begin

text \<open>
  The firmware update of the boot loader (\<^verbatim>\<open>fota/fota.c\<close>, configured as in \<^verbatim>\<open>sample_fota_port.h\<close>): the
  check of a downloaded image, its decryption and decompression into the application partition,
  the version marks, and the check of the application before it is started. A partition is
  reached through the flash layer; the header of an image is its 96 bytes, read field by field
  in little endian. \<open>malloc\<close> (which may fail), the AES routine and the two decompressors are in
  the configuration. \<open>None\<close> is a null pointer, an access outside an array or a string without
  end.
\<close>

section \<open>Constants and fields\<close>

definition FOTA_NO_ERR :: int where "FOTA_NO_ERR = 0"
definition FOTA_GENERAL_ERR :: int where "FOTA_GENERAL_ERR = -1"
definition FOTA_CHECK_FAILED :: int where "FOTA_CHECK_FAILED = -2"
definition FOTA_COPY_FAILED :: int where "FOTA_COPY_FAILED = -4"
definition FOTA_FW_VERIFY_FAILED :: int where "FOTA_FW_VERIFY_FAILED = -5"
definition FOTA_NO_MEM_ERR :: int where "FOTA_NO_MEM_ERR = -6"
definition FOTA_PART_READ_ERR :: int where "FOTA_PART_READ_ERR = -7"
definition FOTA_PART_WRITE_ERR :: int where "FOTA_PART_WRITE_ERR = -8"
definition FOTA_PART_ERASE_ERR :: int where "FOTA_PART_ERASE_ERR = -9"

lemmas fota_errs = FOTA_NO_ERR_def FOTA_GENERAL_ERR_def FOTA_CHECK_FAILED_def FOTA_COPY_FAILED_def
  FOTA_FW_VERIFY_FAILED_def FOTA_NO_MEM_ERR_def FOTA_PART_READ_ERR_def FOTA_PART_WRITE_ERR_def FOTA_PART_ERASE_ERR_def

definition FOTA_CRYPT_ALGO_XOR :: u16 where "FOTA_CRYPT_ALGO_XOR = 1"
definition FOTA_CRYPT_ALGO_AES256 :: u16 where "FOTA_CRYPT_ALGO_AES256 = 2"
definition FOTA_CMPRS_ALGO_GZIP :: u16 where "FOTA_CMPRS_ALGO_GZIP = 0x100"
definition FOTA_CMPRS_ALGO_QUICKLZ :: u16 where "FOTA_CMPRS_ALGO_QUICKLZ = 0x200"
definition FOTA_CMPRS_ALGO_FASTLZ :: u16 where "FOTA_CMPRS_ALGO_FASTLZ = 0x300"
definition FOTA_CRYPT_STAT_MASK :: u16 where "FOTA_CRYPT_STAT_MASK = 0xF"
definition FOTA_CMPRS_STAT_MASK :: u16 where "FOTA_CMPRS_STAT_MASK = 0xF00"

definition APP_HEADER_LEN :: u32 where "APP_HEADER_LEN = 0x200"
definition FOTA_ALGO_BUFF_SIZE :: u32 where "FOTA_ALGO_BUFF_SIZE = 4096"
definition FOTA_CMPRS_BUFFER_SIZE :: u32 where "FOTA_CMPRS_BUFFER_SIZE = 4096"
definition THE_NOR_FLASH_GRANULARITY :: u32 where "THE_NOR_FLASH_GRANULARITY = 4096"
definition FOTA_ALGO_AES_IV :: "u8 list" where "FOTA_ALGO_AES_IV = map of_char ''0123456789ABCDEF'' @ [0]"

definition le16 :: "u8 list \<Rightarrow> nat \<Rightarrow> u16" where
  "le16 h i = ucast (h ! i) OR push_bit 8 (ucast (h ! (i + 1)))"

text \<open>The fields of \<open>fota_part_head\<close>. A string that is not ended runs on into the next field.\<close>

definition sizeof_head :: nat where "sizeof_head = 96"
definition hd_fota_algo :: "u8 list \<Rightarrow> u16" where "hd_fota_algo h = le16 h 4"
definition hd_code_crc :: "u8 list \<Rightarrow> u32" where "hd_code_crc h = le32 h 76"
definition hd_hash_val :: "u8 list \<Rightarrow> u32" where "hd_hash_val h = le32 h 80"
definition hd_raw_size :: "u8 list \<Rightarrow> u32" where "hd_raw_size h = le32 h 84"
definition hd_com_size :: "u8 list \<Rightarrow> u32" where "hd_com_size h = le32 h 88"
definition hd_head_crc :: "u8 list \<Rightarrow> u32" where "hd_head_crc h = le32 h 92"

definition cstr :: "u8 list \<Rightarrow> nat \<Rightarrow> string option" where
  "cstr h i = (let t = drop i h in if 0 \<in> set t then Some (map (\<lambda>b. char_of (unat b)) (takeWhile (\<lambda>b. b \<noteq> 0) t)) else None)"

definition hd_is_RBL :: "u8 list \<Rightarrow> bool" where "hd_is_RBL h \<longleftrightarrow> take 4 h = [0x52, 0x42, 0x4C, 0]"
definition hd_app_part_name :: "u8 list \<Rightarrow> string option" where "hd_app_part_name h = cstr h 12"
definition hd_download_version :: "u8 list \<Rightarrow> string option" where "hd_download_version h = cstr h 28"
definition hd_current_version :: "u8 list \<Rightarrow> string option" where "hd_current_version h = cstr h 52"

section \<open>State and configuration\<close>

record 'd fota =
  rbl_head :: "u8 list"
  crc_tab :: "u32 list"
  flash :: "'d fal"

text \<open>
  \<open>malloc_ok\<close> says at which of the calls of \<open>malloc\<close> (numbered) there is memory; \<open>usable\<close> is
  \<open>malloc_usable_size\<close> of a block by the size asked for.
\<close>

record 'z fota_cfg =
  FM_PART :: string
  APP_PART :: string
  ROLLBACK_PART :: string
  FOTA_ROLLBACK :: bool
  FOTA_YMODEM :: bool
  malloc_ok :: "nat \<Rightarrow> bool"
  usable :: "u32 \<Rightarrow> u32"
  aes_cbc :: "u8 list \<Rightarrow> u8 list \<Rightarrow> u8 list \<times> u8 list"
  fastlz_decompress :: "u8 list \<Rightarrow> u32 \<Rightarrow> u32 \<times> u8 list"
  qlz_decompress :: "'z \<Rightarrow> u8 list \<Rightarrow> u32 \<times> u8 list \<times> 'z"
  qlz_zero :: 'z
  fastlz_padding :: u32
  qlz_padding :: u32

definition no_head :: "u8 list" where "no_head = replicate sizeof_head 0"

section \<open>The check of an image\<close>

definition fota_boot_verify :: "'d fota \<Rightarrow> (int \<times> 'd fota) option" where
  "fota_boot_verify s = do {
     (_, f) \<leftarrow> fal_init (flash s);
     Some (if fal_init_check f \<noteq> 1 then FOTA_GENERAL_ERR else FOTA_NO_ERR, s\<lparr>rbl_head := no_head, flash := f\<rparr>) }"

text \<open>
  The loop over the body. A block of 4096 bytes is read even where fewer are left. The
  position stays below the size, so that the \<open>int\<close> compared with it is not negative.
\<close>

partial_function (option) body_crc_loop ::
  "u32 list \<Rightarrow> fal_partition \<Rightarrow> u32 \<Rightarrow> u32 \<Rightarrow> u32 \<Rightarrow> 'd fal \<Rightarrow> (int \<times> u32 \<times> 'd fal) option" where
  "body_crc_loop tab p com_size body_pos body_crc f =
     (if body_pos < com_size then do {
        (body_read_len, buf, f) \<leftarrow> fal_partition_read p (of_nat sizeof_head + body_pos) 4096 f;
        if body_read_len > 0 then do {
          let n = (if body_pos + of_int body_read_len > com_size then com_size - body_pos else of_int body_read_len);
          body_crc \<leftarrow> fota_step_crc tab body_crc buf n;
          body_crc_loop tab p com_size (body_pos + n) body_crc f }
        else Some (FOTA_PART_READ_ERR, body_crc, f) }
      else Some (FOTA_NO_ERR, body_crc, f))"

definition fw_verify_part :: "'z fota_cfg \<Rightarrow> fal_partition \<Rightarrow> 'd fota \<Rightarrow> (int \<times> u8 list \<times> 'd fota) option" where
  "fw_verify_part cfg p s = do {
     (r, head, f) \<leftarrow> fal_partition_read p 0 (of_nat sizeof_head) (flash s);
     let s = s\<lparr>flash := f\<rparr>;
     if r < 0 then Some (FOTA_PART_READ_ERR, no_head, s)
     else do {
       let s = s\<lparr>crc_tab := crc32_init POLYNOMIAL\<rparr>;
       head \<leftarrow> rd_blk head 0 sizeof_head;
       hdr_crc \<leftarrow> fota_crc (crc_tab s) head (of_nat sizeof_head - 4);
       if hdr_crc \<noteq> hd_head_crc head then Some (FOTA_FW_VERIFY_FAILED, head, s)
       else if \<not> hd_is_RBL head then Some (FOTA_CHECK_FAILED, head, s)
       else do {
         app_name \<leftarrow> hd_app_part_name head;
         app \<leftarrow> fal_partition_find app_name (flash s);
         if app = None then Some (FOTA_FW_VERIFY_FAILED, head, s)
         else if \<not> malloc_ok cfg 0 then Some (FOTA_NO_MEM_ERR, head, s)
         else do {
           (e, body_crc, f) \<leftarrow> body_crc_loop (crc_tab s) p (hd_com_size head) 0 0xFFFFFFFF (flash s);
           let s = s\<lparr>flash := f\<rparr>;
           if e \<noteq> FOTA_NO_ERR then Some (e, head, s)
           else if body_crc XOR 0xFFFFFFFF \<noteq> hd_code_crc head then Some (FOTA_FW_VERIFY_FAILED, head, s)
           else Some (FOTA_NO_ERR, head, s) } } } }"

text \<open>When the partition is not found, the message of the exit path reads its name through a null pointer.\<close>

definition fota_part_fw_verify :: "'z fota_cfg \<Rightarrow> string option \<Rightarrow> 'd fota \<Rightarrow> (int \<times> 'd fota) option" where
  "fota_part_fw_verify cfg name s = (case name of
     None \<Rightarrow> Some (FOTA_GENERAL_ERR, s\<lparr>rbl_head := no_head\<rparr>)
   | Some pname \<Rightarrow> do {
       p \<leftarrow> fal_partition_find pname (flash s);
       p \<leftarrow> p;
       (e, head, s) \<leftarrow> fw_verify_part cfg p s;
       Some (e, s\<lparr>rbl_head := if e = FOTA_NO_ERR then head else no_head\<rparr>) })"

definition fota_check_upgrade :: "'d fota \<Rightarrow> int option" where
  "fota_check_upgrade s = do {
     d \<leftarrow> hd_download_version (rbl_head s);
     c \<leftarrow> hd_current_version (rbl_head s);
     Some (if d \<noteq> c then 1 else 0) }"

section \<open>The application partition\<close>

definition fota_erase_app_part :: "'d fota \<Rightarrow> (int \<times> 'd fota) option" where
  "fota_erase_app_part s = do {
     name \<leftarrow> hd_app_part_name (rbl_head s);
     p \<leftarrow> fal_partition_find name (flash s);
     case p of
       None \<Rightarrow> Some (FOTA_FW_VERIFY_FAILED, s)
     | Some q \<Rightarrow> do {
         (r, f) \<leftarrow> fal_partition_erase_all q (flash s);
         Some (if r < 0 then FOTA_PART_ERASE_ERR else FOTA_NO_ERR, s\<lparr>flash := f\<rparr>) } }"

definition fota_write_app_part :: "u32 \<Rightarrow> u8 list \<Rightarrow> u32 \<Rightarrow> 'd fota \<Rightarrow> (int \<times> 'd fota) option" where
  "fota_write_app_part fw_pos fw_buf fw_len s = do {
     name \<leftarrow> hd_app_part_name (rbl_head s);
     p \<leftarrow> fal_partition_find name (flash s);
     case p of
       None \<Rightarrow> Some (FOTA_FW_VERIFY_FAILED, s)
     | Some q \<Rightarrow> do {
         bytes \<leftarrow> rd_blk fw_buf 0 (unat fw_len);
         (r, f) \<leftarrow> fal_partition_write q fw_pos bytes (flash s);
         Some (if r < 0 then FOTA_PART_WRITE_ERR else FOTA_NO_ERR, s\<lparr>flash := f\<rparr>) } }"

definition fota_fnv1a_r :: "u8 \<Rightarrow> u32 \<Rightarrow> u32" where
  "fota_fnv1a_r onebyte hash = (ucast onebyte XOR hash) * 16777619"

definition fota_calc_hash_code :: "u8 list \<Rightarrow> u32 \<Rightarrow> u32 \<Rightarrow> u32 option" where
  "fota_calc_hash_code data len hash = map_option (\<lambda>xs. fold fota_fnv1a_r xs hash) (rd_blk data 0 (unat len))"

definition FNV_SEED :: u32 where "FNV_SEED = 2166136261"

text \<open>
  The reader: the bytes at \<open>read_pos\<close> of the body, decrypted when there is an initialisation
  vector. The answer is the length read or an error, the buffer, and the next vector.
\<close>

definition fota_read_part ::
  "'z fota_cfg \<Rightarrow> fal_partition \<Rightarrow> u32 \<Rightarrow> u8 list option \<Rightarrow> u32 \<Rightarrow> 'd fal \<Rightarrow> ((int \<times> u8 list \<times> u8 list option) \<times> 'd fal) option" where
  "fota_read_part cfg p read_pos iv decrypt_len f =
     (let zeros = replicate (unat decrypt_len) 0
      in if decrypt_len mod 16 \<noteq> 0 \<or> decrypt_len > FOTA_ALGO_BUFF_SIZE then Some ((FOTA_GENERAL_ERR, zeros, iv), f)
      else (case iv of
        None \<Rightarrow> do {
          (r, data, f) \<leftarrow> fal_partition_read p (of_nat sizeof_head + read_pos) decrypt_len f;
          buf \<leftarrow> wr_blk zeros 0 data;
          Some ((if r \<le> 0 then FOTA_PART_READ_ERR else r, buf, iv), f) }
      | Some v \<Rightarrow>
          if \<not> malloc_ok cfg 10 then Some ((FOTA_GENERAL_ERR, zeros, iv), f)
          else do {
            (r, data, f) \<leftarrow> fal_partition_read p (of_nat sizeof_head + read_pos) decrypt_len f;
            enc \<leftarrow> wr_blk zeros 0 data;
            if r \<le> 0 \<or> r mod 16 \<noteq> 0 then Some ((FOTA_PART_READ_ERR, zeros, iv), f)
            else do {
              let (v, out) = aes_cbc cfg v (take (nat r) enc);
              buf \<leftarrow> wr_blk zeros 0 out;
              Some ((r, buf, Some v), f) } }))"

section \<open>The pieces of an image\<close>

text \<open>
  The local variables of the two functions that walk through an image. \<open>cmprs_buff\<close> is absent
  when no decompressor was recognised, so that its usable size is 0.
\<close>

record 'z fw =
  fw_raw_pos :: u32
  fw_raw_len :: int
  crypt_buf :: "u8 list"
  aes_iv :: "u8 list option"
  block_hdr_buf :: "u8 list"
  block_hdr_pos :: u32
  cmprs_buff :: "u8 list option"
  dcprs_state :: 'z

definition usable_size :: "'z fota_cfg \<Rightarrow> 'z fw \<Rightarrow> u32" where
  "usable_size cfg w = (case cmprs_buff w of None \<Rightarrow> 0 | Some b \<Rightarrow> usable cfg (of_nat (length b)))"

definition be32 :: "u8 list \<Rightarrow> u32" where
  "be32 b = ucast (b ! 0) * 2 ^ 24 + ucast (b ! 1) * 2 ^ 16 + ucast (b ! 2) * 2 ^ 8 + ucast (b ! 3)"

definition cmprs_on :: "u16 \<Rightarrow> bool" where
  "cmprs_on algo \<longleftrightarrow> algo AND FOTA_CMPRS_STAT_MASK \<noteq> 0"

type_synonym 's reader = "u32 \<Rightarrow> u8 list option \<Rightarrow> 's \<Rightarrow> ((int \<times> u8 list \<times> u8 list option) \<times> 's) option"

text \<open>Fetching the next 4096 bytes of the body into \<open>crypt_buf\<close>.\<close>

definition refill :: "'s reader \<Rightarrow> 'z fw \<Rightarrow> 's \<Rightarrow> (int \<times> 'z fw \<times> 's) option" where
  "refill rdr w s = do {
     ((len, buf, iv), s) \<leftarrow> rdr (fw_raw_pos w) (aes_iv w) s;
     let w = w\<lparr>fw_raw_len := len, crypt_buf := buf, aes_iv := iv\<rparr>;
     if len < 0 then Some (FOTA_PART_READ_ERR, w, s)
     else Some (FOTA_NO_ERR, w\<lparr>fw_raw_pos := fw_raw_pos w + of_int len\<rparr>, s) }"

text \<open>\<open>memset\<close> of the compressed buffer, then a \<open>memcpy\<close> of \<open>n\<close> bytes from \<open>crypt_buf\<close> into it.\<close>

definition cmprs_clear :: "'z fw \<Rightarrow> 'z fw" where
  "cmprs_clear w = w\<lparr>cmprs_buff := map_option (\<lambda>b. replicate (length b) 0) (cmprs_buff w)\<rparr>"

definition cmprs_copy :: "nat \<Rightarrow> nat \<Rightarrow> nat \<Rightarrow> 'z fw \<Rightarrow> 'z fw option" where
  "cmprs_copy to from n w = do {
     b \<leftarrow> cmprs_buff w;
     xs \<leftarrow> rd_blk (crypt_buf w) from n;
     b \<leftarrow> wr_blk b to xs;
     Some (w\<lparr>cmprs_buff := Some b\<rparr>) }"

text \<open>
  The next compressed block is brought into \<open>cmprs_buff\<close>: its length is four bytes in front of
  it, and both may run over the end of \<open>crypt_buf\<close>.
\<close>

definition block_at_start :: "'z fota_cfg \<Rightarrow> 's reader \<Rightarrow> 'z fw \<Rightarrow> 's \<Rightarrow> (int \<times> u32 \<times> 'z fw \<times> 's) option" where
  "block_at_start cfg rdr w s = do {
     (e, w, s) \<leftarrow> refill rdr w s;
     if e \<noteq> FOTA_NO_ERR then Some (e, 0, w, s)
     else do {
       hdr \<leftarrow> rd_blk (crypt_buf w) 0 4;
       let w = w\<lparr>block_hdr_buf := hdr\<rparr>;
       let block_size = be32 hdr;
       if block_size \<ge> usable_size cfg w then Some (FOTA_GENERAL_ERR, 0, w, s)
       else do {
         w \<leftarrow> cmprs_copy 0 4 (unat block_size) (cmprs_clear w);
         Some (FOTA_NO_ERR, block_size, w\<lparr>block_hdr_pos := 4 + block_size\<rparr>, s) } } }"

definition block_inside :: "'z fota_cfg \<Rightarrow> 's reader \<Rightarrow> 'z fw \<Rightarrow> 's \<Rightarrow> (int \<times> u32 \<times> 'z fw \<times> 's) option" where
  "block_inside cfg rdr w s =
     (let block_size = be32 (block_hdr_buf w); pos = block_hdr_pos w; left = FOTA_ALGO_BUFF_SIZE - pos
      in if block_size \<ge> usable_size cfg w then Some (FOTA_GENERAL_ERR, 0, w, s)
      else if block_size > left then do {
        w \<leftarrow> cmprs_copy 0 (unat pos) (unat left) (cmprs_clear w);
        (e, w, s) \<leftarrow> refill rdr w s;
        if e \<noteq> FOTA_NO_ERR then Some (e, 0, w, s)
        else do {
          w \<leftarrow> cmprs_copy (unat left) 0 (unat (block_size + pos - FOTA_ALGO_BUFF_SIZE)) w;
          Some (FOTA_NO_ERR, block_size, w\<lparr>block_hdr_pos := block_size + pos - FOTA_ALGO_BUFF_SIZE\<rparr>, s) } }
      else do {
        w \<leftarrow> cmprs_copy 0 (unat pos) (unat block_size) (cmprs_clear w);
        Some (FOTA_NO_ERR, block_size, w\<lparr>block_hdr_pos := pos + block_size\<rparr>, s) })"

definition block_split_header :: "'z fota_cfg \<Rightarrow> 's reader \<Rightarrow> nat \<Rightarrow> 'z fw \<Rightarrow> 's \<Rightarrow> (int \<times> u32 \<times> 'z fw \<times> 's) option" where
  "block_split_header cfg rdr hdr_tmp_pos w s = do {
     (e, w, s) \<leftarrow> refill rdr w s;
     if e \<noteq> FOTA_NO_ERR then Some (e, 0, w, s)
     else do {
       let n = 4 - hdr_tmp_pos;
       rest \<leftarrow> rd_blk (crypt_buf w) 0 n;
       hdr \<leftarrow> wr_blk (block_hdr_buf w) hdr_tmp_pos rest;
       let w = w\<lparr>block_hdr_buf := hdr, block_hdr_pos := of_nat n\<rparr>;
       let block_size = be32 hdr;
       if block_size \<ge> usable_size cfg w then Some (FOTA_GENERAL_ERR, 0, w, s)
       else do {
         w \<leftarrow> cmprs_copy 0 n (unat block_size) (cmprs_clear w);
         Some (FOTA_NO_ERR, block_size, w\<lparr>block_hdr_pos := (of_nat n + block_size) mod FOTA_ALGO_BUFF_SIZE\<rparr>, s) } } }"

text \<open>
  \<open>block_size\<close> is the size of the block before. A header that ends with the buffer leaves the
  loop complete and the block itself unread: the block before is taken again.
\<close>

definition next_block :: "'z fota_cfg \<Rightarrow> 's reader \<Rightarrow> u32 \<Rightarrow> 'z fw \<Rightarrow> 's \<Rightarrow> (int \<times> u32 \<times> 'z fw \<times> 's) option" where
  "next_block cfg rdr block_size w s =
     (if block_hdr_pos w \<ge> FOTA_ALGO_BUFF_SIZE then block_at_start cfg rdr w s
      else do {
        let n = min 4 (unat (FOTA_ALGO_BUFF_SIZE - block_hdr_pos w));
        part_hdr \<leftarrow> rd_blk (crypt_buf w) (unat (block_hdr_pos w)) n;
        hdr \<leftarrow> wr_blk (block_hdr_buf w) 0 part_hdr;
        let w = w\<lparr>block_hdr_buf := hdr, block_hdr_pos := block_hdr_pos w + of_nat n\<rparr>;
        if block_hdr_pos w < FOTA_ALGO_BUFF_SIZE then block_inside cfg rdr w s
        else if n < 4 then block_split_header cfg rdr n w s
        else Some (FOTA_NO_ERR, block_size, w, s) })"

text \<open>Decompression: the size and the bytes of \<open>dcprs_buff\<close>, which has been zeroed before.\<close>

definition decompress :: "'z fota_cfg \<Rightarrow> u16 \<Rightarrow> u32 \<Rightarrow> u32 \<Rightarrow> 'z fw \<Rightarrow> (u32 \<times> u8 list \<times> 'z fw) option" where
  "decompress cfg algo block_size dcprs_size w =
     (let zeros = replicate (unat FOTA_CMPRS_BUFFER_SIZE) 0; m = algo AND FOTA_CMPRS_STAT_MASK
      in if m = FOTA_CMPRS_ALGO_FASTLZ then do {
           b \<leftarrow> cmprs_buff w;
           let (n, out) = fastlz_decompress cfg b block_size;
           buf \<leftarrow> wr_blk zeros 0 out;
           Some (n, buf, w) }
         else if m = FOTA_CMPRS_ALGO_QUICKLZ then do {
           b \<leftarrow> cmprs_buff w;
           let (n, out, z) = qlz_decompress cfg (dcprs_state w) b;
           buf \<leftarrow> wr_blk zeros 0 out;
           Some (n, buf, w\<lparr>dcprs_state := z\<rparr>) }
         else Some (dcprs_size, zeros, w))"

text \<open>
  One round of the loop over the image up to the use of the piece: an error, or the buffer with
  the piece and its size. \<open>sizes\<close> are \<open>block_size\<close> and \<open>dcprs_size\<close> of the round before.
\<close>

definition fw_piece ::
  "'z fota_cfg \<Rightarrow> 's reader \<Rightarrow> u16 \<Rightarrow> u32 \<times> u32 \<Rightarrow> 'z fw \<Rightarrow> 's \<Rightarrow>
   (int \<times> u8 list \<times> u32 \<times> (u32 \<times> u32) \<times> 'z fw \<times> 's) option" where
  "fw_piece cfg rdr algo sizes w s =
     (if cmprs_on algo then do {
        (e, block_size, w, s) \<leftarrow> next_block cfg rdr (fst sizes) w s;
        if e \<noteq> FOTA_NO_ERR then Some (e, [], 0, sizes, w, s)
        else do {
          (dcprs_size, buf, w) \<leftarrow> decompress cfg algo block_size (snd sizes) w;
          Some (if dcprs_size = 0 then FOTA_GENERAL_ERR else FOTA_NO_ERR, buf, dcprs_size, (block_size, dcprs_size), w, s) } }
      else do {
        (e, w, s) \<leftarrow> refill rdr w s;
        Some (e, crypt_buf w, of_int (fw_raw_len w), sizes, w, s) })"

text \<open>One round of the loop behind it, over the blocks left in the last buffer; the flag is false at a \<open>break\<close>.\<close>

definition tail_piece ::
  "'z fota_cfg \<Rightarrow> u16 \<Rightarrow> u32 \<times> u32 \<Rightarrow> 'z fw \<Rightarrow> (bool \<times> int \<times> u8 list \<times> u32 \<times> (u32 \<times> u32) \<times> 'z fw) option" where
  "tail_piece cfg algo sizes w =
     (let len = of_int (fw_raw_len w); pos = block_hdr_pos w
      in if pos < len \<and> len - pos > 4 then do {
        hdr \<leftarrow> rd_blk (crypt_buf w) (unat pos) 4;
        let w = w\<lparr>block_hdr_buf := hdr\<rparr>;
       let block_size = be32 hdr;
        if block_size \<ge> usable_size cfg w then Some (True, FOTA_GENERAL_ERR, [], 0, sizes, w)
        else if len - pos - 4 \<ge> block_size then do {
          w \<leftarrow> cmprs_copy 0 (unat (pos + 4)) (unat block_size) (cmprs_clear w);
          (dcprs_size, buf, w) \<leftarrow> decompress cfg algo block_size (snd sizes) (w\<lparr>block_hdr_pos := pos + (block_size + 4)\<rparr>);
          Some (True, if dcprs_size = 0 then FOTA_GENERAL_ERR else FOTA_NO_ERR, buf, dcprs_size, (block_size, dcprs_size), w) }
        else Some (False, FOTA_NO_ERR, [], 0, (block_size, snd sizes), w) }
      else Some (False, FOTA_NO_ERR, [], 0, sizes, w))"

section \<open>Walking through an image\<close>

text \<open>What is done with a piece, and the running total and hash code.\<close>

type_synonym 's sink = "u8 list \<Rightarrow> u32 \<Rightarrow> u32 \<times> u32 \<Rightarrow> 's \<Rightarrow> (int \<times> (u32 \<times> u32) \<times> 's) option"

partial_function (option) fw_loop ::
  "'z fota_cfg \<Rightarrow> 's reader \<Rightarrow> u16 \<Rightarrow> u32 \<Rightarrow> 's sink \<Rightarrow> u32 \<times> u32 \<Rightarrow> u32 \<times> u32 \<Rightarrow> 'z fw \<Rightarrow> 's \<Rightarrow>
   (int \<times> (u32 \<times> u32) \<times> (u32 \<times> u32) \<times> 'z fw \<times> 's) option" where
  "fw_loop cfg rdr algo com_size sink sizes t w s =
     (if fw_raw_pos w < com_size then do {
        (e, buf, n, sizes, w, s) \<leftarrow> fw_piece cfg rdr algo sizes w s;
        if e \<noteq> FOTA_NO_ERR then Some (e, t, sizes, w, s)
        else do {
          (e, t, s) \<leftarrow> sink buf n t s;
          if e \<noteq> FOTA_NO_ERR then Some (e, t, sizes, w, s)
          else fw_loop cfg rdr algo com_size sink sizes t w s } }
      else Some (FOTA_NO_ERR, t, sizes, w, s))"

partial_function (option) tail_loop ::
  "'z fota_cfg \<Rightarrow> u16 \<Rightarrow> u32 \<Rightarrow> 's sink \<Rightarrow> u32 \<times> u32 \<Rightarrow> u32 \<times> u32 \<Rightarrow> 'z fw \<Rightarrow> 's \<Rightarrow> (int \<times> (u32 \<times> u32) \<times> 's) option" where
  "tail_loop cfg algo raw_size sink sizes t w s =
     (if fst t < raw_size then do {
        (more, e, buf, n, sizes, w) \<leftarrow> tail_piece cfg algo sizes w;
        if e \<noteq> FOTA_NO_ERR then Some (e, t, s)
        else if \<not> more then Some (FOTA_NO_ERR, t, s)
        else do {
          (e, t, s) \<leftarrow> sink buf n t s;
          if e \<noteq> FOTA_NO_ERR then Some (e, t, s)
          else tail_loop cfg algo raw_size sink sizes t w s } }
      else Some (FOTA_NO_ERR, t, s))"

definition fw_walk ::
  "'z fota_cfg \<Rightarrow> 's reader \<Rightarrow> u8 list \<Rightarrow> 's sink \<Rightarrow> 'z fw \<Rightarrow> 's \<Rightarrow> (int \<times> (u32 \<times> u32) \<times> 's) option" where
  "fw_walk cfg rdr head sink w s = do {
     (e, t, sizes, w, s) \<leftarrow> fw_loop cfg rdr (hd_fota_algo head) (hd_com_size head) sink (0, 0) (0, FNV_SEED) w s;
     if e \<noteq> FOTA_NO_ERR then Some (e, t, s)
     else if cmprs_on (hd_fota_algo head) then
       tail_loop cfg (hd_fota_algo head) (hd_raw_size head) sink sizes t w s
     else Some (FOTA_NO_ERR, t, s) }"

text \<open>The buffers for the algorithms of the image.\<close>

definition fw_setup :: "'z fota_cfg \<Rightarrow> u16 \<Rightarrow> int \<times> 'z fw" where
  "fw_setup cfg algo =
     (let w = \<lparr>fw_raw_pos = 0, fw_raw_len = 0, crypt_buf = replicate 4096 0, aes_iv = None,
            block_hdr_buf = replicate 4 0, block_hdr_pos = FOTA_ALGO_BUFF_SIZE, cmprs_buff = None, dcprs_state = qlz_zero cfg\<rparr>;
          aes = (algo AND FOTA_CRYPT_STAT_MASK = FOTA_CRYPT_ALGO_AES256);
          m = algo AND FOTA_CMPRS_STAT_MASK
      in if aes \<and> \<not> (malloc_ok cfg 1 \<and> malloc_ok cfg 2) then (FOTA_NO_MEM_ERR, w)
         else if algo AND FOTA_CRYPT_STAT_MASK = FOTA_CRYPT_ALGO_XOR then (FOTA_GENERAL_ERR, w)
         else
           let w = w\<lparr>aes_iv := if aes then Some FOTA_ALGO_AES_IV else None\<rparr>
           in if m = FOTA_CMPRS_ALGO_FASTLZ then
                if malloc_ok cfg 3 \<and> malloc_ok cfg 4
                then (FOTA_NO_ERR, w\<lparr>cmprs_buff := Some (replicate (unat (FOTA_CMPRS_BUFFER_SIZE + fastlz_padding cfg)) 0)\<rparr>)
                else (FOTA_NO_MEM_ERR, w)
              else if m = FOTA_CMPRS_ALGO_QUICKLZ then
                if malloc_ok cfg 3 \<and> malloc_ok cfg 4 \<and> malloc_ok cfg 5
                then (FOTA_NO_ERR, w\<lparr>cmprs_buff := Some (replicate (unat (FOTA_CMPRS_BUFFER_SIZE + qlz_padding cfg)) 0)\<rparr>)
                else (FOTA_NO_MEM_ERR, w)
              else if m = FOTA_CMPRS_ALGO_GZIP then (FOTA_GENERAL_ERR, w)
              else (FOTA_NO_ERR, w))"

definition part_reader :: "'z fota_cfg \<Rightarrow> fal_partition \<Rightarrow> 'd fota reader" where
  "part_reader cfg p pos iv s =
     map_option (\<lambda>(res, f). (res, s\<lparr>flash := f\<rparr>)) (fota_read_part cfg p pos iv FOTA_ALGO_BUFF_SIZE (flash s))"

text \<open>The hash code of the first \<open>raw_size\<close> bytes.\<close>

definition verify_sink :: "u32 \<Rightarrow> 's sink" where
  "verify_sink raw_size buf n t s =
     (let n = (if fst t + n > raw_size then raw_size - fst t else n)
      in do {
        hash \<leftarrow> fota_calc_hash_code buf n (snd t);
        Some (FOTA_NO_ERR, (fst t + n, hash), s) })"

definition upgrade_sink :: "'d fota sink" where
  "upgrade_sink buf n t s = do {
     (e, s) \<leftarrow> fota_write_app_part (fst t + APP_HEADER_LEN) buf n s;
     if e < 0 then Some (FOTA_COPY_FAILED, t, s) else Some (FOTA_NO_ERR, (fst t + n, snd t), s) }"

definition fota_upgrade_verify :: "'z fota_cfg \<Rightarrow> string option \<Rightarrow> 'd fota \<Rightarrow> (int \<times> 'd fota) option" where
  "fota_upgrade_verify cfg name s = (case name of
     None \<Rightarrow> Some (FOTA_GENERAL_ERR, s)
   | Some pname \<Rightarrow> do {
       p \<leftarrow> fal_partition_find pname (flash s);
       case p of
         None \<Rightarrow> Some (FOTA_GENERAL_ERR, s)
       | Some q \<Rightarrow>
           if \<not> malloc_ok cfg 0 then Some (FOTA_NO_MEM_ERR, s)
           else do {
             let head = rbl_head s;
             let (e, w) = fw_setup cfg (hd_fota_algo head);
             if e \<noteq> FOTA_NO_ERR then Some (e, s)
             else do {
               (e, t, s) \<leftarrow> fw_walk cfg (part_reader cfg q) head (verify_sink (hd_raw_size head)) w s;
               if e \<noteq> FOTA_NO_ERR then Some (e, s)
               else Some (if fst t < hd_raw_size head \<or> snd t \<noteq> hd_hash_val head then FOTA_GENERAL_ERR else FOTA_NO_ERR, s) } } })"

definition fota_upgrade :: "'z fota_cfg \<Rightarrow> string option \<Rightarrow> 'd fota \<Rightarrow> (int \<times> 'd fota) option" where
  "fota_upgrade cfg name s = (case name of
     None \<Rightarrow> Some (FOTA_GENERAL_ERR, s)
   | Some pname \<Rightarrow> do {
       p \<leftarrow> fal_partition_find pname (flash s);
       case p of
         None \<Rightarrow> Some (FOTA_GENERAL_ERR, s)
       | Some q \<Rightarrow> do {
           (e, s) \<leftarrow> fota_erase_app_part s;
           if e \<noteq> FOTA_NO_ERR then Some (e, s)
           else if \<not> malloc_ok cfg 0 then Some (FOTA_NO_MEM_ERR, s)
           else do {
             (r, hd, f) \<leftarrow> fal_partition_read q 0 (of_nat sizeof_head) (flash s);
             let s = s\<lparr>flash := f\<rparr>;
             if r < 0 then Some (FOTA_PART_READ_ERR, s)
             else do {
               (e, s) \<leftarrow> fota_write_app_part 0 hd (of_nat sizeof_head) s;
               if e < 0 then Some (FOTA_PART_WRITE_ERR, s)
               else do {
                 let head = rbl_head s;
                 let (e, w) = fw_setup cfg (hd_fota_algo head);
                 if e \<noteq> FOTA_NO_ERR then Some (e, s)
                 else do {
                   (e, t, s) \<leftarrow> fw_walk cfg (part_reader cfg q) head upgrade_sink w s;
                   if e \<noteq> FOTA_NO_ERR then Some (e, s)
                   else Some (if fst t < hd_raw_size head then FOTA_GENERAL_ERR else FOTA_NO_ERR, s) } } } } } })"

section \<open>Copies and marks\<close>

partial_function (option) copy_loop ::
  "fal_partition \<Rightarrow> fal_partition \<Rightarrow> u32 \<Rightarrow> u32 \<Rightarrow> 'd fal \<Rightarrow> (int \<times> 'd fal) option" where
  "copy_loop src dst write_size write_offset f =
     (if write_offset < write_size then do {
        let write_len = (if write_offset + THE_NOR_FLASH_GRANULARITY > write_size
                         then write_size - write_offset else THE_NOR_FLASH_GRANULARITY);
        (r, buf, f) \<leftarrow> fal_partition_read src write_offset write_len f;
        if r < 0 then Some (FOTA_PART_READ_ERR, f)
        else do {
          buf \<leftarrow> rd_blk buf 0 (unat write_len);
          (r, f) \<leftarrow> fal_partition_write dst write_offset buf f;
          if r < 0 then Some (FOTA_PART_WRITE_ERR, f)
          else copy_loop src dst write_size (write_offset + THE_NOR_FLASH_GRANULARITY) f } }
      else Some (FOTA_NO_ERR, f))"

definition fota_rollback_copy :: "'z fota_cfg \<Rightarrow> string \<Rightarrow> string \<Rightarrow> 'd fota \<Rightarrow> (int \<times> 'd fota) option" where
  "fota_rollback_copy cfg dest_part_name source_part_name s = do {
     d \<leftarrow> fal_partition_find dest_part_name (flash s);
     case d of
       None \<Rightarrow> Some (FOTA_FW_VERIFY_FAILED, s)
     | Some dest_part \<Rightarrow> do {
         q \<leftarrow> fal_partition_find source_part_name (flash s);
         case q of
           None \<Rightarrow> Some (FOTA_FW_VERIFY_FAILED, s)
         | Some source_part \<Rightarrow>
             if \<not> malloc_ok cfg 0 then Some (FOTA_NO_MEM_ERR, s)
             else do {
               (r, f) \<leftarrow> fal_partition_erase_all dest_part (flash s);
               if r < 0 then Some (FOTA_PART_ERASE_ERR, s\<lparr>flash := f\<rparr>)
               else do {
                 let write_size = (if part_len source_part < part_len dest_part then part_len source_part else part_len dest_part);
                 (e, f) \<leftarrow> copy_loop source_part dest_part write_size 0 f;
                 Some (e, s\<lparr>flash := f\<rparr>) } } } }"

text \<open>The head of an image with the current version set to the downloaded one, and its checksum.\<close>

definition marked_head :: "u32 list \<Rightarrow> u8 list \<Rightarrow> u8 list option" where
  "marked_head tab cache = do {
     v \<leftarrow> rd_blk cache 28 24;
     cache \<leftarrow> wr_blk cache 52 v;
     head_crc \<leftarrow> fota_crc tab cache (of_nat sizeof_head - 4);
     wr_blk cache 92 (put_le32 head_crc) }"

definition fota_copy_version :: "'z fota_cfg \<Rightarrow> string \<Rightarrow> 'd fota \<Rightarrow> (int \<times> 'd fota) option" where
  "fota_copy_version cfg pname s = do {
     p \<leftarrow> fal_partition_find pname (flash s);
     case p of
       None \<Rightarrow> Some (FOTA_FW_VERIFY_FAILED, s)
     | Some q \<Rightarrow>
         if \<not> malloc_ok cfg 0 then Some (FOTA_NO_MEM_ERR, s)
         else do {
           (r, cache, f) \<leftarrow> fal_partition_read q 0 THE_NOR_FLASH_GRANULARITY (flash s);
           if r < 0 then Some (FOTA_PART_READ_ERR, s\<lparr>flash := f\<rparr>)
           else do {
             cache \<leftarrow> marked_head (crc_tab s) cache;
             (r, f) \<leftarrow> fal_partition_erase q 0 THE_NOR_FLASH_GRANULARITY f;
             if r < 0 then Some (FOTA_PART_ERASE_ERR, s\<lparr>flash := f\<rparr>)
             else do {
               (r, f) \<leftarrow> fal_partition_write q 0 cache f;
               Some (if r < 0 then FOTA_PART_WRITE_ERR else FOTA_NO_ERR, s\<lparr>flash := f\<rparr>) } } } }"

section \<open>The application\<close>

partial_function (option) app_hash_loop ::
  "fal_partition \<Rightarrow> u32 \<Rightarrow> u32 \<Rightarrow> u32 \<Rightarrow> 'd fal \<Rightarrow> (int \<times> u32 \<times> 'd fal) option" where
  "app_hash_loop p raw_size read_offset hash_code f =
     (if read_offset < raw_size then do {
        let read_len = (if read_offset + THE_NOR_FLASH_GRANULARITY > raw_size
                        then raw_size - read_offset else THE_NOR_FLASH_GRANULARITY);
        (r, buf, f) \<leftarrow> fal_partition_read p (read_offset + APP_HEADER_LEN) read_len f;
        if r < 0 then Some (FOTA_PART_READ_ERR, hash_code, f)
        else do {
          hash_code \<leftarrow> fota_calc_hash_code buf read_len hash_code;
          app_hash_loop p raw_size (read_offset + THE_NOR_FLASH_GRANULARITY) hash_code f } }
      else Some (FOTA_NO_ERR, hash_code, f))"

definition fota_check_application :: "'z fota_cfg \<Rightarrow> 'd fota \<Rightarrow> (int \<times> 'd fota) option" where
  "fota_check_application cfg s = do {
     p \<leftarrow> fal_partition_find (APP_PART cfg) (flash s);
     case p of
       None \<Rightarrow> Some (FOTA_FW_VERIFY_FAILED, s)
     | Some q \<Rightarrow>
         if \<not> malloc_ok cfg 0 then Some (FOTA_NO_MEM_ERR, s)
         else do {
           (r, head, f) \<leftarrow> fal_partition_read q 0 (of_nat sizeof_head) (flash s);
           if r < 0 then Some (FOTA_PART_READ_ERR, s\<lparr>flash := f\<rparr>)
           else if \<not> malloc_ok cfg 1 then Some (FOTA_NO_MEM_ERR, s\<lparr>flash := f\<rparr>)
           else do {
             head \<leftarrow> rd_blk head 0 sizeof_head;
             (e, hash_code, f) \<leftarrow> app_hash_loop q (hd_raw_size head) 0 FNV_SEED f;
             Some (if e \<noteq> FOTA_NO_ERR then e
                   else if hash_code \<noteq> hd_hash_val head then FOTA_FW_VERIFY_FAILED else FOTA_NO_ERR,
                   s\<lparr>flash := f\<rparr>) } } }"

text \<open>
  The start reads the stack pointer and the entry point from the memory-mapped flash
  \<open>word\<close>; a jump does not return.
\<close>

datatype boot = Jump u32 u32 | Reset | Returned

definition fota_start_application :: "'z fota_cfg \<Rightarrow> (u32 \<Rightarrow> u32) \<Rightarrow> 'd fota \<Rightarrow> boot option" where
  "fota_start_application cfg word s = do {
     p \<leftarrow> fal_partition_find (APP_PART cfg) (flash s);
     case p of
       None \<Rightarrow> do { _ \<leftarrow> hd_app_part_name (rbl_head s); Some Returned }
     | Some q \<Rightarrow> do {
         let app_addr = part_offset q + 0x08000000 + APP_HEADER_LEN;
         Some (if word (app_addr + 4) AND 0xFF000000 \<noteq> 0x08000000 then Returned
               else if word app_addr AND 0x2FF80000 \<noteq> 0x20000000 then Returned
               else Jump (word app_addr) (word (app_addr + 4))) } }"

section \<open>The boot sequence\<close>

text \<open>
  From the label \<open>__exit_boot_entry\<close> on: start the application if its hash code is right;
  otherwise, with the rollback, restore it from the rollback partition first.
\<close>

definition rollback_entry :: "'z fota_cfg \<Rightarrow> (u32 \<Rightarrow> u32) \<Rightarrow> 'd fota \<Rightarrow> (boot \<times> 'd fota) option" where
  "rollback_entry cfg word s = do {
     (_, s) \<leftarrow> fota_rollback_copy cfg (APP_PART cfg) (ROLLBACK_PART cfg) s;
     (e, s) \<leftarrow> fota_check_application cfg s;
     if e = FOTA_NO_ERR then do { b \<leftarrow> fota_start_application cfg word s; Some (b, s) } else Some (Returned, s) }"

definition boot_entry :: "'z fota_cfg \<Rightarrow> (u32 \<Rightarrow> u32) \<Rightarrow> 'd fota \<Rightarrow> (boot \<times> 'd fota) option" where
  "boot_entry cfg word s = do {
     (e, s) \<leftarrow> fota_check_application cfg s;
     b \<leftarrow> (if e = FOTA_NO_ERR then fota_start_application cfg word s else Some Returned);
     if b \<noteq> Returned then Some (b, s)
     else if FOTA_ROLLBACK cfg then rollback_entry cfg word s else Some (Returned, s) }"

definition fota_update :: "'z fota_cfg \<Rightarrow> 'd fota \<Rightarrow> 'd fota option" where
  "fota_update cfg s = do {
     (e, s) \<leftarrow> fota_part_fw_verify cfg (Some (FM_PART cfg)) s;
     if e \<noteq> FOTA_NO_ERR then Some s
     else do {
       u \<leftarrow> fota_check_upgrade s;
       if u \<le> 0 then Some s
       else do {
         (e, s) \<leftarrow> fota_upgrade_verify cfg (Some (FM_PART cfg)) s;
         if e \<noteq> FOTA_NO_ERR then do { (_, s) \<leftarrow> fota_copy_version cfg (FM_PART cfg) s; Some s }
         else do {
           s \<leftarrow> (if FOTA_ROLLBACK cfg then map_option snd (fota_rollback_copy cfg (ROLLBACK_PART cfg) (APP_PART cfg) s) else Some s);
           (e, s) \<leftarrow> fota_upgrade cfg (Some (FM_PART cfg)) s;
           if e \<noteq> FOTA_NO_ERR then Some s
           else do { (_, s) \<leftarrow> fota_copy_version cfg (FM_PART cfg) s; Some s } } } } }"

text \<open>
  \<open>rollback_check\<close> and \<open>ymodem_check\<close> are the answers of the two weak functions, \<open>first_enter\<close>
  the flag, and \<open>ymodem_ota\<close> the transfer into the flash, which may end in a reset.
\<close>

definition fota_init ::
  "'z fota_cfg \<Rightarrow> (u32 \<Rightarrow> u32) \<Rightarrow> int \<Rightarrow> int \<Rightarrow> bool \<Rightarrow> ('d fota \<Rightarrow> 'd fota option) \<Rightarrow> 'd fota \<Rightarrow> (boot \<times> 'd fota) option" where
  "fota_init cfg word rollback_check ymodem_check first_enter ymodem_ota s = do {
     (_, s) \<leftarrow> fota_boot_verify s;
     if FOTA_ROLLBACK cfg \<and> rollback_check = 0 then rollback_entry cfg word s
     else case (if FOTA_YMODEM cfg \<and> (ymodem_check = 0 \<or> \<not> first_enter) then ymodem_ota s else Some s) of
         None \<Rightarrow> Some (Reset, s)
       | Some s \<Rightarrow> do { s \<leftarrow> fota_update cfg s; boot_entry cfg word s } }"

end
