(* ===== verification/Fota_Proofs.thy ===== *)
theory Fota_Proofs
  imports Fota
begin

text \<open>
  What the firmware update guarantees: which images it accepts, that a rejected image changes
  nothing, that an accepted one is in the application partition afterwards and passes the check
  at every start, and that an update is not repeated.
\<close>

section \<open>The flash under the boot loader\<close>

text \<open>
  The flash layer after its initialisation: a table \<open>ps\<close> of disjoint partitions in NOR devices,
  with different names, each at most 1 GiB and made of whole blocks.
\<close>

definition parts_ok :: "nat \<Rightarrow> fal_partition list \<Rightarrow> bool" where
  "parts_ok blk ps \<longleftrightarrow> distinct (map part_name ps) \<and>
     (\<forall>p \<in> set ps. unat (part_len p) \<le> 2 ^ 30 \<and> blk dvd unat (part_len p)) \<and>
     (\<forall>p \<in> set ps. \<forall>q \<in> set ps. p \<noteq> q \<longrightarrow> parts_disjoint p q)"

definition env :: "('d \<Rightarrow> u8 list) \<Rightarrow> nat \<Rightarrow> 'd fal_flash_dev list \<Rightarrow> fal_partition list \<Rightarrow> 'd fal \<Rightarrow> bool" where
  "env mem blk devs ps f \<longleftrightarrow> device_table f = devs \<and> part_init_ok f \<and> partition_table f = Some ps \<and> partition_table_len f = length ps \<and>
     parts_ok blk ps \<and> (\<forall>p \<in> set ps. fal_ok mem blk p f)"

definition named :: "fal_partition list \<Rightarrow> string \<Rightarrow> fal_partition option" where
  "named ps name = find (\<lambda>p. part_name p = name) ps"

lemma part_find_loop_named: "part_find_loop name (length ps) ps = Some (named ps name)"
  by (induction ps) (auto simp: named_def)

lemma env_find: "env mem blk devs ps f \<Longrightarrow> fal_partition_find name f = Some (named ps name)"
  by (simp add: env_def fal_partition_find_def part_find_loop_named)

lemma named_in: "named ps name = Some p \<Longrightarrow> p \<in> set ps \<and> part_name p = name"
  by (auto simp: named_def find_Some_iff in_set_conv_nth)

lemma parts_ok_D:
  assumes "parts_ok blk ps"
  shows "distinct (map part_name ps)" "\<forall>p \<in> set ps. unat (part_len p) \<le> 2 ^ 30 \<and> blk dvd unat (part_len p)"
    "\<forall>p \<in> set ps. \<forall>q \<in> set ps. p \<noteq> q \<longrightarrow> parts_disjoint p q"
proof -
  note d = assms[unfolded parts_ok_def]
  show "distinct (map part_name ps)" by (rule d[THEN conjunct1])
  show "\<forall>p \<in> set ps. unat (part_len p) \<le> 2 ^ 30 \<and> blk dvd unat (part_len p)" by (rule d[THEN conjunct2, THEN conjunct1])
  show "\<forall>p \<in> set ps. \<forall>q \<in> set ps. p \<noteq> q \<longrightarrow> parts_disjoint p q" by (rule d[THEN conjunct2, THEN conjunct2])
qed

lemma env_parts: "env mem blk devs ps f \<Longrightarrow> parts_ok blk ps"
  by (simp add: env_def)

lemma env_part:
  assumes e: "env mem blk devs ps f" and p: "p \<in> set ps"
  shows "fal_ok mem blk p f" "unat (part_len p) \<le> 2 ^ 30" "blk dvd unat (part_len p)"
    "length (fal_content mem p f) = unat (part_len p)"
proof -
  show ok: "fal_ok mem blk p f" using assms by (simp add: env_def)
  show "length (fal_content mem p f) = unat (part_len p)" by (rule length_fal_content[OF ok])
  note d = parts_ok_D(2)[OF env_parts[OF e], rule_format, OF p]
  show "unat (part_len p) \<le> 2 ^ 30" by (rule d[THEN conjunct1])
  show "blk dvd unat (part_len p)" by (rule d[THEN conjunct2])
qed

lemma env_exec:
  assumes e: "env mem blk devs ps f" and p: "p \<in> set ps" and op: "op_in blk p op"
  shows "\<exists>r data f'. fal_exec p op f = Some (r, data, f') \<and> env mem blk devs ps f' \<and>
    op_effect op (r, data) (fal_content mem p f) (fal_content mem p f') \<and>
    (\<forall>q \<in> set ps. q \<noteq> p \<longrightarrow> fal_content mem q f' = fal_content mem q f)"
proof -
  obtain r data h where h: "fal_exec p op f = Some (r, data, f\<lparr>hardware := h\<rparr>)"
    "length (mem h) = length (mem (hardware f))"
    "op_effect op (r, data) (fal_content mem p f) (fal_content mem p (f\<lparr>hardware := h\<rparr>))"
    "same_outside (unat (part_offset p)) (unat (part_len p)) (mem (hardware f)) (mem h)"
    using fal_exec_effect[OF env_part(1)[OF e p] op] by blast
  have "env mem blk devs ps (f\<lparr>hardware := h\<rparr>)"
  proof -
    have "fal_ok mem blk q (f\<lparr>hardware := h\<rparr>)" if "q \<in> set ps" for q
      by (rule fal_ok_hardware[OF env_part(1)[OF e that] h(2)])
    then show ?thesis using e by (simp add: env_def)
  qed
  moreover have "fal_content mem q (f\<lparr>hardware := h\<rparr>) = fal_content mem q f" if q: "q \<in> set ps" "q \<noteq> p" for q
  proof -
    have "parts_disjoint p q" by (rule parts_ok_D(3)[OF env_parts[OF e], rule_format, OF p q(1) q(2)[symmetric]])
    then have d: "unat (part_offset p) + unat (part_len p) \<le> unat (part_offset q) \<or>
        unat (part_offset q) + unat (part_len q) \<le> unat (part_offset p)" by (simp only: parts_disjoint_def)
    from window_disjoint[OF fal_ok_fits[OF env_part(1)[OF e q(1)]] h(4) d] show ?thesis by (simp add: fal_content_def)
  qed
  ultimately show ?thesis using h(1,3) by blast
qed

definition same_flash :: "('d \<Rightarrow> u8 list) \<Rightarrow> fal_partition list \<Rightarrow> 'd fal \<Rightarrow> 'd fal \<Rightarrow> bool" where
  "same_flash mem ps f f' \<longleftrightarrow> (\<forall>q \<in> set ps. fal_content mem q f' = fal_content mem q f)"

lemma same_flash_refl [simp]: "same_flash mem ps f f"
  by (simp add: same_flash_def)

lemma same_flash_trans: "same_flash mem ps f g \<Longrightarrow> same_flash mem ps g h \<Longrightarrow> same_flash mem ps f h"
  by (simp add: same_flash_def)

lemma env_read:
  assumes e: "env mem blk devs ps f" and p: "p \<in> set ps" and r: "unat a + unat n \<le> unat (part_len p)"
  shows "\<exists>f'. fal_partition_read p a n f = Some (int (unat n), window (unat a) (unat n) (fal_content mem p f), f') \<and>
    env mem blk devs ps f' \<and> same_flash mem ps f f'"
  using env_exec[OF e p, of "FRead a n"] r
  by (fastforce simp: op_in_def fal_exec_def op_effect_def same_flash_def window_def)

text \<open>A read outside the partition, with an address that does not wrap.\<close>

lemma read_outside:
  assumes "unat (part_len p) < unat a + unat n" "unat a + unat n < 2 ^ 32"
  shows "fal_partition_read p a n f = Some (-1, [], f)"
proof -
  have "unat (a + n) = unat a + unat n" using assms(2) by (intro unat_add_small) simp
  then show ?thesis using assms(1) by (simp add: fal_partition_read_def word_less_nat_alt)
qed

lemma env_write:
  assumes e: "env mem blk devs ps f" and p: "p \<in> set ps" and r: "unat a + length bs \<le> unat (part_len p)"
  shows "\<exists>r f'. fal_partition_write p a bs f = Some (r, f') \<and> env mem blk devs ps f' \<and>
    write_effect (unat a) bs r (fal_content mem p f) (fal_content mem p f') \<and>
    (\<forall>q \<in> set ps. q \<noteq> p \<longrightarrow> fal_content mem q f' = fal_content mem q f)"
  using env_exec[OF e p, of "FWrite a bs"] r
  by (cases "fal_partition_write p a bs f") (fastforce simp: op_in_def fal_exec_def op_effect_def)+

lemma env_erase:
  assumes e: "env mem blk devs ps f" and p: "p \<in> set ps" and r: "unat a + unat n \<le> unat (part_len p)"
    and "blk dvd unat a" "blk dvd unat n"
  shows "\<exists>r f'. fal_partition_erase p a n f = Some (r, f') \<and> env mem blk devs ps f' \<and>
    erase_effect (unat a) (unat n) r (fal_content mem p f) (fal_content mem p f') \<and>
    (\<forall>q \<in> set ps. q \<noteq> p \<longrightarrow> fal_content mem q f' = fal_content mem q f)"
  using env_exec[OF e p, of "FErase a n"] assms(3-5)
  by (cases "fal_partition_erase p a n f") (fastforce simp: op_in_def fal_exec_def op_effect_def)+

section \<open>A flash that does not fail\<close>

lemma env_table: "env mem blk devs ps f \<Longrightarrow> device_table f = devs"
  by (simp add: env_def)

lemma reliable_write:
  assumes "reliable mem devs" "env mem blk devs ps f" "p \<in> set ps" "unat a + length bs \<le> unat (part_len p)"
    and "fal_partition_write p a bs f = Some (r, f')"
  shows "r \<ge> 0"
  using fal_reliable_write[OF env_part(1)[OF assms(2,3)] _ assms(4,5)] assms(1) env_table[OF assms(2)] by simp

lemma reliable_erase:
  assumes "reliable mem devs" "env mem blk devs ps f" "p \<in> set ps" "unat a + unat n \<le> unat (part_len p)"
    and "blk dvd unat a" "blk dvd unat n" and "fal_partition_erase p a n f = Some (r, f')"
  shows "r \<ge> 0"
  using fal_reliable_erase[OF env_part(1)[OF assms(2,3)] _ assms(4-7)] assms(1) env_table[OF assms(2)] by simp

section \<open>Which images are accepted\<close>

text \<open>The CRC-32 of a string of bytes, bit by bit.\<close>

definition crc32_of :: "u8 list \<Rightarrow> u32" where
  "crc32_of xs = crc_ref 0xEDB88320 0xFFFFFFFF xs XOR 0xFFFFFFFF"

definition fw_crc :: "u32 \<Rightarrow> u8 list \<Rightarrow> u32" where
  "fw_crc c xs = crc_ref 0xEDB88320 c xs"

lemma step_crc: "n = length xs \<Longrightarrow> length xs < 2 ^ 32 \<Longrightarrow>
    fota_step_crc (crc32_init POLYNOMIAL) c xs (of_nat n) = Some (fw_crc c xs)"
  by (simp add: fota_step_crc_def rd_blk_def crc32_ref bitrev_POLYNOMIAL fw_crc_def unat_of_nat_lt)

lemma fw_crc_append: "fw_crc c (xs @ ys) = fw_crc (fw_crc c xs) ys"
  by (simp add: fw_crc_def)


text \<open>The body is read in blocks of 4096 bytes, and the last one must lie in the partition too.\<close>

definition body_end :: "nat \<Rightarrow> nat" where
  "body_end n = sizeof_head + 4096 * ((n + 4095) div 4096)"

lemma body_end_next:
  assumes "4096 dvd pos" "pos < n"
  shows "body_end (min n (pos + 4096)) = sizeof_head + pos + 4096"
proof -
  obtain k where k: "pos = 4096 * k" using assms(1) by (elim dvdE)
  have "(min n (pos + 4096) + 4095) div 4096 = k + 1"
    using assms(2) by (intro div_nat_eqI) (simp_all add: k)
  then show ?thesis by (simp add: body_end_def k)
qed

lemma body_end_mono: "m \<le> n \<Longrightarrow> body_end m \<le> body_end n"
  unfolding body_end_def by (intro add_mono mult_le_mono div_le_mono) simp_all

lemma body_end_block: "4096 dvd pos \<Longrightarrow> pos < n \<Longrightarrow> sizeof_head + pos + 4096 \<le> body_end n"
  using body_end_mono[of "min n (pos + 4096)" n] body_end_next[of pos n] by simp

lemma window_split: "window off (a + n) m = window off a m @ window (off + a) n m"
  by (simp add: window_def take_add add.commute)

lemma fw_crc_window: "fw_crc (fw_crc c (window a n m)) (window (a + n) k m) = fw_crc c (window a (n + k) m)"
  by (simp add: window_split fw_crc_append)

lemma body_crc_loop_spec:
  fixes pos com :: u32
  assumes "env mem blk devs ps f" "p \<in> set ps" "4096 dvd unat pos \<or> pos = com" "unat pos \<le> unat com"
    and "body_end (unat pos) \<le> unat (part_len p)"
  shows "\<exists>e c' f'. body_crc_loop (crc32_init POLYNOMIAL) p com pos c f = Some (e, c', f') \<and>
    env mem blk devs ps f' \<and> same_flash mem ps f f' \<and>
    (if body_end (unat com) \<le> unat (part_len p)
     then e = FOTA_NO_ERR \<and> c' = fw_crc c (window (sizeof_head + unat pos) (unat com - unat pos) (fal_content mem p f))
     else e = FOTA_PART_READ_ERR)"
  using assms
proof (induction "unat com - unat pos" arbitrary: pos c f rule: less_induct)
  case less
  show ?case
  proof (cases "pos < com")
    case False
    then have "pos = com" using less.prems(4) by (simp add: word_less_nat_alt word_unat_eq_iff)
    then show ?thesis using less.prems by (subst body_crc_loop.simps) (simp add: window_def fw_crc_def)
  next
    case True
    then have lt: "unat pos < unat com" and d: "4096 dvd unat pos" using less.prems(3) by (auto simp: word_less_nat_alt)
    have small: "unat (part_len p) \<le> 2 ^ 30" by (rule env_part(2)[OF less.prems(1,2)])
    have "sizeof_head + unat pos \<le> body_end (unat pos)" using d unfolding body_end_def by (elim dvdE) simp
    then have pos: "96 + unat pos \<le> unat (part_len p)" using less.prems(5) by (simp add: sizeof_head_def)
    have a: "unat (of_nat sizeof_head + pos) = 96 + unat pos"
      using pos small by (simp add: sizeof_head_def unat_word_ariths)
    show ?thesis
    proof (cases "96 + unat pos + 4096 \<le> unat (part_len p)")
      case False
      have "body_end (unat com) > unat (part_len p)"
        using body_end_block[OF d lt] False by (simp add: sizeof_head_def)
      moreover have "fal_partition_read p (of_nat sizeof_head + pos) 4096 f = Some (-1, [], f)"
        using False pos small by (intro read_outside) (simp_all only: a, simp_all)
      ultimately show ?thesis using True less.prems(1) by (subst body_crc_loop.simps) simp
    next
      case fits: True
      have "unat (of_nat sizeof_head + pos) + unat (4096 :: u32) \<le> unat (part_len p)" using fits by (simp add: a)
      from env_read[OF less.prems(1,2) this] obtain f' where f':
        "fal_partition_read p (of_nat sizeof_head + pos) 4096 f = Some (4096, window (96 + unat pos) 4096 (fal_content mem p f), f')"
        "env mem blk devs ps f'" "same_flash mem ps f f'" by (auto simp: a)
      define n where "n = (if pos + 4096 > com then com - pos else 4096)"
      have p4: "unat (pos + 4096) = unat pos + 4096" using pos small by (simp add: unat_word_ariths)
      have n: "unat n = min (unat com - unat pos) 4096" and pn: "unat (pos + n) = min (unat com) (unat pos + 4096)"
        using lt less.prems(4) unat_sub_le[of pos com] p4
        by (auto simp: n_def word_less_nat_alt word_le_nat_alt unat_word_ariths)
      let ?c = "fal_content mem p f"
      have bl: "length ?c = unat (part_len p)" by (rule env_part(4)[OF less.prems(1,2)])
      have crc: "fota_step_crc (crc32_init POLYNOMIAL) c (window (96 + unat pos) 4096 ?c) n = Some (fw_crc c (window (96 + unat pos) (unat n) ?c))"
      proof -
        have n4: "unat n \<le> 4096" by (simp add: n)
        have "length (window (96 + unat pos) 4096 ?c) = 4096" using fits bl by (intro length_window) simp
        moreover have "take (unat n) (window (96 + unat pos) 4096 ?c) = window (96 + unat pos) (unat n) ?c"
          using n4 by (simp add: window_def min_def)
        ultimately show ?thesis
          using n4 by (simp add: fota_step_crc_def rd_blk_def crc32_ref bitrev_POLYNOMIAL fw_crc_def)
      qed
      have d': "4096 dvd unat (pos + n) \<or> pos + n = com"
      proof (cases "unat pos + 4096 \<le> unat com")
        case True
        then have "unat (pos + n) = unat pos + 4096" by (simp add: pn)
        then show ?thesis using d by simp
      next
        case False
        then show ?thesis by (simp add: pn word_unat_eq_iff)
      qed
      have "body_end (unat (pos + n)) \<le> unat (part_len p)"
        using body_end_next[OF d lt] fits by (simp add: pn sizeof_head_def)
      moreover have "unat com - unat (pos + n) < unat com - unat pos" "unat (pos + n) \<le> unat com"
        using lt by (simp_all add: pn)
      ultimately obtain e c' f'' where r: "body_crc_loop (crc32_init POLYNOMIAL) p com (pos + n) (fw_crc c (window (96 + unat pos) (unat n) ?c)) f' = Some (e, c', f'')"
        "env mem blk devs ps f''" "same_flash mem ps f' f''"
        "if body_end (unat com) \<le> unat (part_len p)
         then e = FOTA_NO_ERR \<and> c' = fw_crc (fw_crc c (window (96 + unat pos) (unat n) ?c))
           (window (sizeof_head + unat (pos + n)) (unat com - unat (pos + n)) (fal_content mem p f'))
         else e = FOTA_PART_READ_ERR"
        using less.hyps[OF _ f'(2) less.prems(2) d', of "fw_crc c (window (96 + unat pos) (unat n) ?c)"] by blast
      have c': "fal_content mem p f' = ?c" using f'(3) less.prems(2) by (simp add: same_flash_def)
      have k: "unat com - unat pos = unat n + (unat com - unat (pos + n))"
        and q: "sizeof_head + unat (pos + n) = 96 + unat pos + unat n"
        using lt by (auto simp: n pn sizeof_head_def)
      have "fw_crc (fw_crc c (window (96 + unat pos) (unat n) ?c)) (window (sizeof_head + unat (pos + n)) (unat com - unat (pos + n)) ?c)
          = fw_crc c (window (sizeof_head + unat pos) (unat com - unat pos) ?c)"
        unfolding q fw_crc_window by (simp only: sizeof_head_def flip: k)
      with r(4) have r4: "if body_end (unat com) \<le> unat (part_len p)
         then e = FOTA_NO_ERR \<and> c' = fw_crc c (window (sizeof_head + unat pos) (unat com - unat pos) ?c)
         else e = FOTA_PART_READ_ERR" by (simp only: c')
      have "body_crc_loop (crc32_init POLYNOMIAL) p com pos c f = Some (e, c', f'')"
        using True f'(1) crc r(1) by (subst body_crc_loop.simps) (cases "com < pos + 4096"; simp add: n_def Let_def)
      with r4 r(2) same_flash_trans[OF f'(3) r(3)] show ?thesis by blast
    qed
  qed
qed

text \<open>An image, as the bytes of a partition.\<close>

definition head_of :: "u8 list \<Rightarrow> u8 list" where
  "head_of c = take sizeof_head c"

definition image_ok :: "fal_partition list \<Rightarrow> u8 list \<Rightarrow> bool" where
  "image_ok ps c \<longleftrightarrow> (let h = head_of c; com = unat (hd_com_size h)
     in body_end com \<le> length c \<and> crc32_of (take 92 h) = hd_head_crc h \<and> hd_is_RBL h \<and>
        (case hd_app_part_name h of None \<Rightarrow> False | Some name \<Rightarrow> named ps name \<noteq> None) \<and>
        crc32_of (window sizeof_head com c) = hd_code_crc h)"

lemma fota_crc_head: "length h = 96 \<Longrightarrow> fota_crc (crc32_init POLYNOMIAL) h (of_nat sizeof_head - 4) = Some (crc32_of (take 92 h))"
  by (simp add: fota_crc_def rd_blk_def crc32_ref bitrev_POLYNOMIAL crc32_of_def sizeof_head_def)

lemma fw_verify_part_spec:
  assumes e: "env mem blk devs ps (flash s)" and p: "p \<in> set ps" and m: "malloc_ok cfg 0"
    and str: "hd_app_part_name (head_of (fal_content mem p (flash s))) \<noteq> None"
  shows "\<exists>r h s'. fw_verify_part cfg p s = Some (r, h, s') \<and>
    (r = FOTA_NO_ERR \<longleftrightarrow> image_ok ps (fal_content mem p (flash s))) \<and>
    (r = FOTA_NO_ERR \<longrightarrow> h = head_of (fal_content mem p (flash s)) \<and> crc_tab s' = crc32_init POLYNOMIAL) \<and>
    env mem blk devs ps (flash s') \<and> same_flash mem ps (flash s) (flash s')"
proof -
  let ?c = "fal_content mem p (flash s)" and ?h = "head_of (fal_content mem p (flash s))"
  note l = env_part(4)[OF e p]
  show ?thesis
  proof (cases "96 \<le> unat (part_len p)")
    case False
    then have "fal_partition_read p 0 (of_nat sizeof_head) (flash s) = Some (-1, [], flash s)"
      by (intro read_outside) (simp_all add: sizeof_head_def)
    moreover have "\<not> image_ok ps ?c" using False by (simp add: image_ok_def body_end_def sizeof_head_def l Let_def)
    ultimately show ?thesis using e by (simp add: fw_verify_part_def fota_errs)
  next
    case True
    then obtain f where f: "fal_partition_read p 0 (of_nat sizeof_head) (flash s) = Some (96, ?h, f)"
      "env mem blk devs ps f" "same_flash mem ps (flash s) f"
      using env_read[OF e p, of 0 "of_nat sizeof_head"] by (auto simp: sizeof_head_def window_def head_of_def)
    have c: "fal_content mem p f = ?c" using f(3) p by (simp add: same_flash_def)
    have lh: "length ?h = 96" using True l by (simp add: head_of_def sizeof_head_def)
    obtain name where name: "hd_app_part_name ?h = Some name" using str by blast
    obtain e' c' f' where b: "body_crc_loop (crc32_init POLYNOMIAL) p (hd_com_size ?h) 0 0xFFFFFFFF f = Some (e', c', f')"
      "env mem blk devs ps f'" "same_flash mem ps f f'"
      "if body_end (unat (hd_com_size ?h)) \<le> unat (part_len p)
       then e' = FOTA_NO_ERR \<and> c' = fw_crc 0xFFFFFFFF (window sizeof_head (unat (hd_com_size ?h)) ?c)
       else e' = FOTA_PART_READ_ERR"
      using body_crc_loop_spec[OF f(2) p, of 0 "hd_com_size ?h" "0xFFFFFFFF"] True
      by (auto simp: c body_end_def sizeof_head_def)
    have crc: "fw_crc 0xFFFFFFFF xs XOR 0xFFFFFFFF = crc32_of xs" for xs
      by (simp only: fw_crc_def crc32_of_def)
    show ?thesis
    proof (cases "crc32_of (take 92 ?h) = hd_head_crc ?h \<and> hd_is_RBL ?h \<and> named ps name \<noteq> None")
      case False
      then have "\<not> image_ok ps ?c" by (auto simp: image_ok_def Let_def name)
      moreover have "\<exists>r. r \<noteq> FOTA_NO_ERR \<and> fw_verify_part cfg p s = Some (r, ?h, s\<lparr>flash := f, crc_tab := crc32_init POLYNOMIAL\<rparr>)"
        using False f fota_crc_head[OF lh] lh name env_find[OF f(2), of name]
        by (auto simp: fw_verify_part_def rd_blk_def sizeof_head_def Let_def fota_errs)
      ultimately show ?thesis using f by auto
    next
      case True
      then obtain q where q: "named ps name = Some q" by blast
      have "fw_verify_part cfg p s = Some (if e' \<noteq> FOTA_NO_ERR then e'
            else if c' XOR 0xFFFFFFFF \<noteq> hd_code_crc ?h then FOTA_FW_VERIFY_FAILED else FOTA_NO_ERR,
            ?h, s\<lparr>flash := f', crc_tab := crc32_init POLYNOMIAL\<rparr>)"
        using True f b(1) fota_crc_head[OF lh] lh name env_find[OF f(2), of name] m q
        by (simp add: fw_verify_part_def rd_blk_def sizeof_head_def Let_def)
      moreover have "image_ok ps ?c \<longleftrightarrow> body_end (unat (hd_com_size ?h)) \<le> unat (part_len p) \<and>
          crc32_of (window sizeof_head (unat (hd_com_size ?h)) ?c) = hd_code_crc ?h"
        using True name by (simp add: image_ok_def Let_def l)
      ultimately show ?thesis
        using b(2,4) same_flash_trans[OF f(3) b(3)] crc by (simp add: fota_errs split: if_splits)
    qed
  qed
qed

text \<open>
  C19: an image in the download partition is accepted if and only if the checksum of its head
  is right, the head begins with RBL and names a partition of the table, the body, rounded up to
  whole blocks of 4096 bytes, lies in the partition and the checksum of the body is right. The
  head is kept if it is accepted and cleared otherwise, and no partition changes.
\<close>

theorem fota_accepts_images:
  assumes "env mem blk devs ps (flash s)" and "named ps name = Some p" and "malloc_ok cfg 0"
    and "hd_app_part_name (head_of (fal_content mem p (flash s))) \<noteq> None"
  shows "\<exists>r s'. fota_part_fw_verify cfg (Some name) s = Some (r, s') \<and>
    (r = FOTA_NO_ERR \<longleftrightarrow> image_ok ps (fal_content mem p (flash s))) \<and>
    rbl_head s' = (if image_ok ps (fal_content mem p (flash s)) then head_of (fal_content mem p (flash s)) else no_head) \<and>
    env mem blk devs ps (flash s') \<and> (\<forall>q \<in> set ps. fal_content mem q (flash s') = fal_content mem q (flash s))"
proof -
  have p: "p \<in> set ps" using named_in[OF assms(2)] by simp
  from fw_verify_part_spec[OF assms(1) p assms(3,4)] obtain r h s' where
    "fw_verify_part cfg p s = Some (r, h, s')" "r = FOTA_NO_ERR \<longleftrightarrow> image_ok ps (fal_content mem p (flash s))"
    "r = FOTA_NO_ERR \<longrightarrow> h = head_of (fal_content mem p (flash s)) \<and> crc_tab s' = crc32_init POLYNOMIAL"
    "env mem blk devs ps (flash s')" "same_flash mem ps (flash s) (flash s')" by blast
  then show ?thesis
    by (simp add: fota_part_fw_verify_def env_find[OF assms(1)] assms(2) same_flash_def)
qed

section \<open>Copying a partition\<close>

lemma map2_and_FF: "length bs \<le> k \<Longrightarrow> map2 (AND) bs (replicate k 0xFF) = bs" for bs :: "u8 list"
proof (induction bs arbitrary: k)
  case (Cons b bs)
  have "(0xFF :: u8) = -1" by simp
  then have "b AND 0xFF = b" by (simp only: and.right_neutral)
  with Cons show ?case by (cases k) simp_all
qed simp

lemma nor_write_FF:
  "length xs = a \<Longrightarrow> length bs \<le> k \<Longrightarrow>
   nor_write a bs (xs @ replicate k 0xFF) = xs @ bs @ replicate (k - length bs) 0xFF"
  by (simp add: nor_write_def blit_def map2_and_FF)

lemma nor_erase_all: "nor_erase 0 (length m) m = replicate (length m) 0xFF"
  by (simp add: nor_erase_def blit_def)

text \<open>What a copy has done so far: \<open>n\<close> bytes of the source, and erased cells behind them.\<close>

definition filled :: "u8 list \<Rightarrow> nat \<Rightarrow> u8 list" where
  "filled xs len = xs @ replicate (len - length xs) 0xFF"

lemma filled_write:
  assumes "length xs = a" "a + length bs \<le> len"
  shows "nor_write a bs (filled xs len) = filled (xs @ bs) len"
  using assms by (simp add: filled_def nor_write_FF)

lemma copy_loop_spec:
  fixes off n :: u32
  assumes "env mem blk devs ps f" "p \<in> set ps" "q \<in> set ps" "p \<noteq> q"
    and "unat n \<le> unat (part_len p)" "unat n \<le> unat (part_len q)"
    and "unat off \<le> unat n + 4096"
    and "fal_content mem q f = filled (take (min (unat off) (unat n)) (fal_content mem p f)) (unat (part_len q))"
  shows "\<exists>e f'. copy_loop p q n off f = Some (e, f') \<and> env mem blk devs ps f' \<and>
    (\<forall>x \<in> set ps. x \<noteq> q \<longrightarrow> fal_content mem x f' = fal_content mem x f) \<and>
    (e = FOTA_NO_ERR \<longrightarrow> fal_content mem q f' = filled (take (unat n) (fal_content mem p f)) (unat (part_len q)))"
  using assms
proof (induction "unat n + 4096 - unat off" arbitrary: off f rule: less_induct)
  case less
  let ?c = "fal_content mem p f"
  show ?case
  proof (cases "off < n")
    case False
    then have "min (unat off) (unat n) = unat n" by (simp add: word_less_nat_alt)
    with False less.prems show ?thesis by (subst copy_loop.simps) simp
  next
    case True
    then have lt: "unat off < unat n" by (simp add: word_less_nat_alt)
    have small: "unat (part_len p) \<le> 2 ^ 30" by (rule env_part(2)[OF less.prems(1,2)])
    have lp: "length ?c = unat (part_len p)" by (rule env_part(4)[OF less.prems(1,2)])
    have p4: "unat (off + 4096) = unat off + 4096" using lt less.prems(5) small by (simp add: unat_word_ariths)
    define k where "k = (if off + 4096 > n then n - off else 4096)"
    have k: "unat k = min (unat n - unat off) 4096"
      using lt unat_sub_le[of off n] p4 by (auto simp: k_def word_less_nat_alt word_le_nat_alt)
    have r: "unat off + unat k \<le> unat (part_len p)" using less.prems(5) lt by (simp add: k)
    obtain f1 where f1: "fal_partition_read p off k f = Some (int (unat k), window (unat off) (unat k) ?c, f1)"
      "env mem blk devs ps f1" "same_flash mem ps f f1" using env_read[OF less.prems(1,2) r] by blast
    let ?b = "window (unat off) (unat k) ?c"
    have lb: "length ?b = unat k" using r lp by (intro length_window) simp
    have w: "unat off + length ?b \<le> unat (part_len q)" using less.prems(6) lt unfolding lb by (simp add: k)
    obtain e f2 where f2: "fal_partition_write q off ?b f1 = Some (e, f2)" "env mem blk devs ps f2"
      "write_effect (unat off) ?b e (fal_content mem q f1) (fal_content mem q f2)"
      "\<forall>x \<in> set ps. x \<noteq> q \<longrightarrow> fal_content mem x f2 = fal_content mem x f1"
      using env_write[OF f1(2) less.prems(3) w] by blast
    have step: "copy_loop p q n off f = (if e < 0 then Some (FOTA_PART_WRITE_ERR, f2) else copy_loop p q n (off + 4096) f2)"
      using True f1(1) f2(1) lb unfolding copy_loop.simps[of p q n off f]
      by (cases "off + 4096 > n") (simp_all add: k_def THE_NOR_FLASH_GRANULARITY_def rd_blk_def)
    have same: "\<forall>x \<in> set ps. x \<noteq> q \<longrightarrow> fal_content mem x f2 = fal_content mem x f"
      using f2(4) f1(3) by (simp add: same_flash_def)
    show ?thesis
    proof (cases "e < 0")
      case True
      then show ?thesis using step f2(2) same by (simp add: fota_errs)
    next
      case False
      have lx: "length (take (unat off) ?c) = unat off" using lt less.prems(5) lp by simp
      have "fal_content mem q f1 = filled (take (unat off) ?c) (unat (part_len q))"
        using f1(3) less.prems(3,8) lt by (simp add: same_flash_def)
      then have "fal_content mem q f2 = filled (take (unat off) ?c @ ?b) (unat (part_len q))"
        using f2(3) False filled_write[OF lx w] by (simp add: write_effect_def)
      also have "take (unat off) ?c @ ?b = take (min (unat (off + 4096)) (unat n)) ?c"
      proof -
        have "unat off + unat k = min (unat (off + 4096)) (unat n)" using lt by (auto simp: k p4)
        then show ?thesis by (simp only: window_def flip: take_add)
      qed
      finally have q2: "fal_content mem q f2 = filled (take (min (unat (off + 4096)) (unat n)) (fal_content mem p f2)) (unat (part_len q))"
        using same less.prems(2,4) by simp
      have "unat n + 4096 - unat (off + 4096) < unat n + 4096 - unat off" "unat (off + 4096) \<le> unat n + 4096"
        using lt by (simp_all add: p4)
      from less.hyps[OF this(1) f2(2) less.prems(2-6) this(2) q2] same less.prems(2,4) step False
      show ?thesis by fastforce
    qed
  qed
qed

lemma rollback_copy_spec:
  assumes "env mem blk devs ps (flash s)" and "named ps src = Some p" and "named ps dst = Some q" and "src \<noteq> dst"
  shows "\<exists>e s'. fota_rollback_copy cfg dst src s = Some (e, s') \<and> env mem blk devs ps (flash s') \<and>
    rbl_head s' = rbl_head s \<and> crc_tab s' = crc_tab s \<and>
    (\<forall>x \<in> set ps. x \<noteq> q \<longrightarrow> fal_content mem x (flash s') = fal_content mem x (flash s)) \<and>
    (e = FOTA_NO_ERR \<longrightarrow> fal_content mem q (flash s') =
       filled (take (unat (part_len q)) (fal_content mem p (flash s))) (unat (part_len q)))"
proof -
  have pq: "p \<in> set ps" "q \<in> set ps" "p \<noteq> q" using named_in[OF assms(2)] named_in[OF assms(3)] assms(4) by auto
  note find = env_find[OF assms(1)] assms(2,3)
  show ?thesis
  proof (cases "malloc_ok cfg 0")
    case False
    then show ?thesis using assms(1) by (simp add: fota_rollback_copy_def find fota_errs)
  next
    case True
    obtain r f where f: "fal_partition_erase q 0 (part_len q) (flash s) = Some (r, f)" "env mem blk devs ps f"
      "erase_effect 0 (unat (part_len q)) r (fal_content mem q (flash s)) (fal_content mem q f)"
      "\<forall>x \<in> set ps. x \<noteq> q \<longrightarrow> fal_content mem x f = fal_content mem x (flash s)"
      using env_erase[OF assms(1) pq(2), of 0 "part_len q"] env_part(3)[OF assms(1) pq(2)] by auto
    define n where "n = (if part_len p < part_len q then part_len p else part_len q)"
    have n: "unat n = min (unat (part_len p)) (unat (part_len q))" by (simp add: n_def word_less_nat_alt)
    have step: "fota_rollback_copy cfg dst src s =
      (if r < 0 then Some (FOTA_PART_ERASE_ERR, s\<lparr>flash := f\<rparr>)
       else map_option (\<lambda>(e, f). (e, s\<lparr>flash := f\<rparr>)) (copy_loop p q n 0 f))"
      using True f(1) by (cases "copy_loop p q n 0 f") (simp_all add: fota_rollback_copy_def find fal_partition_erase_all_def n_def Let_def split: prod.split)
    show ?thesis
    proof (cases "r < 0")
      case True
      then show ?thesis using step f(2,4) by (simp add: fota_errs)
    next
      case False
      have "fal_content mem q f = filled (take (min (unat (0::u32)) (unat n)) (fal_content mem p f)) (unat (part_len q))"
        using f(3) False env_part(4)[OF assms(1) pq(2)] nor_erase_all[of "fal_content mem q (flash s)"]
        by (simp add: erase_effect_def filled_def)
      from copy_loop_spec[OF f(2) pq _ _ _ this] obtain e f' where f': "copy_loop p q n 0 f = Some (e, f')" "env mem blk devs ps f'"
        "\<forall>x \<in> set ps. x \<noteq> q \<longrightarrow> fal_content mem x f' = fal_content mem x f"
        "e = FOTA_NO_ERR \<longrightarrow> fal_content mem q f' = filled (take (unat n) (fal_content mem p f)) (unat (part_len q))"
        by (auto simp: n)
      have "take (unat n) (fal_content mem p f) = take (unat (part_len q)) (fal_content mem p (flash s))"
        using f(4) pq env_part(4)[OF assms(1) pq(1)] by (simp add: n min_def)
      with step f' f(4) False show ?thesis by simp
    qed
  qed
qed

text \<open>
  copying a partition to another, which keeps the running application before an update
  and restores it when it does not start, comes to an end; if it reports success the
  destination holds the source, as far as it fits, and erased cells behind it; and in any case
  no other partition changes.
\<close>

lemma fota_rollback_copy_copies:
  assumes "env mem blk devs ps (flash s)" and "named ps src = Some p" and "named ps dst = Some q" and "src \<noteq> dst"
  shows "\<exists>e s'. fota_rollback_copy cfg dst src s = Some (e, s') \<and> env mem blk devs ps (flash s') \<and>
    (\<forall>x \<in> set ps. x \<noteq> q \<longrightarrow> fal_content mem x (flash s') = fal_content mem x (flash s)) \<and>
    (e = FOTA_NO_ERR \<longrightarrow> fal_content mem q (flash s') =
       filled (take (unat (part_len q)) (fal_content mem p (flash s))) (unat (part_len q)))"
  using rollback_copy_spec[OF assms] by blast

section \<open>An image that was checked is the image that is installed\<close>

text \<open>
  Both functions that walk through an image read it through the same reader. What the reader
  answers depends on the content \<open>c\<close> of the partition alone, which neither changes.
\<close>

definition reads :: "('d \<Rightarrow> u8 list) \<Rightarrow> nat \<Rightarrow> 'd fal_flash_dev list \<Rightarrow> fal_partition list \<Rightarrow> fal_partition \<Rightarrow> u8 list \<Rightarrow> 'd fota \<Rightarrow> bool" where
  "reads mem blk devs ps p c s \<longleftrightarrow> env mem blk devs ps (flash s) \<and> p \<in> set ps \<and> fal_content mem p (flash s) = c"

definition content_reader :: "'z fota_cfg \<Rightarrow> u8 list \<Rightarrow> unit reader" where
  "content_reader cfg c pos iv u =
     (if sizeof_head + unat pos + 4096 \<le> length c then
        let blk = window (sizeof_head + unat pos) 4096 c
        in case iv of
             None \<Rightarrow> Some ((4096, blk, iv), u)
           | Some v \<Rightarrow>
               if \<not> malloc_ok cfg 10 then Some ((FOTA_GENERAL_ERR, replicate 4096 0, iv), u)
               else let (v, out) = aes_cbc cfg v blk
                    in do { buf \<leftarrow> wr_blk (replicate 4096 0) 0 out; Some ((4096, buf, Some v), u) }
      else Some ((if iv \<noteq> None \<and> \<not> malloc_ok cfg 10 then FOTA_GENERAL_ERR else FOTA_PART_READ_ERR, replicate 4096 0, iv), u))"

definition same_fota :: "('d \<Rightarrow> u8 list) \<Rightarrow> fal_partition list \<Rightarrow> 'd fota \<Rightarrow> 'd fota \<Rightarrow> bool" where
  "same_fota mem ps s s' \<longleftrightarrow> rbl_head s' = rbl_head s \<and> crc_tab s' = crc_tab s \<and> same_flash mem ps (flash s) (flash s')"

lemma wr_blk_all: "length xs = length m \<Longrightarrow> wr_blk m 0 xs = Some xs"
  by (simp add: wr_blk_def blit_def)

lemma part_reader_content:
  assumes r: "reads mem blk devs ps p c s" and pos: "unat pos \<le> 2 ^ 30"
  shows "\<exists>s'. part_reader cfg p pos iv s = map_option (\<lambda>(res, _). (res, s')) (content_reader cfg c pos iv ()) \<and>
    reads mem blk devs ps p c s' \<and> same_fota mem ps s s'"
proof -
  have e: "env mem blk devs ps (flash s)" and p: "p \<in> set ps" and c: "fal_content mem p (flash s) = c"
    using r by (simp_all add: reads_def)
  have lc: "length c = unat (part_len p)" using env_part(4)[OF e p] c by simp
  have a: "unat (of_nat sizeof_head + pos) = sizeof_head + unat pos"
    using pos by (simp add: sizeof_head_def unat_word_ariths)
  show ?thesis
  proof (cases "sizeof_head + unat pos + 4096 \<le> length c")
    case False
    then have "fal_partition_read p (of_nat sizeof_head + pos) 4096 (flash s) = Some (-1, [], flash s)"
      using pos lc by (intro read_outside) (simp_all only: a, simp_all add: sizeof_head_def)
    then show ?thesis using False r
      by (intro exI[of _ s]) (cases iv; simp add: part_reader_def fota_read_part_def content_reader_def FOTA_ALGO_BUFF_SIZE_def wr_blk_def same_fota_def)
  next
    case True
    then obtain f where f: "fal_partition_read p (of_nat sizeof_head + pos) 4096 (flash s) = Some (4096, window (sizeof_head + unat pos) 4096 c, f)"
      "env mem blk devs ps f" "same_flash mem ps (flash s) f"
      using env_read[OF e p, of "of_nat sizeof_head + pos" 4096] by (auto simp: a lc c)
    have l: "length (window (sizeof_head + unat pos) 4096 c) = 4096" using True by simp
    have w: "wr_blk (replicate 4096 0) 0 (window (sizeof_head + unat pos) 4096 c) = Some (window (sizeof_head + unat pos) 4096 c)"
      by (rule wr_blk_all) (simp only: l length_replicate)
    have g: "reads mem blk devs ps p c (s\<lparr>flash := f\<rparr>)" "same_fota mem ps s (s\<lparr>flash := f\<rparr>)"
      using f(2,3) p c by (simp_all add: reads_def same_fota_def same_flash_def)
    show ?thesis
    proof (cases "iv = None \<or> malloc_ok cfg 10")
      case True' : True
      show ?thesis
        by (intro exI[of _ "s\<lparr>flash := f\<rparr>"] conjI g)
          (use True True' f(1) w l in \<open>auto simp: part_reader_def fota_read_part_def content_reader_def FOTA_ALGO_BUFF_SIZE_def
             Let_def option.map_comp split: option.split prod.split Option.bind_split\<close>)
    next
      case False
      with True r show ?thesis
        by (intro exI[of _ s]) (auto simp: part_reader_def fota_read_part_def content_reader_def FOTA_ALGO_BUFF_SIZE_def
             same_fota_def Let_def split: option.split)
    qed
  qed
qed

lemma refill_content:
  assumes "reads mem blk devs ps p c s" and "unat (fw_raw_pos w) \<le> 2 ^ 30"
  shows "\<exists>s'. refill (part_reader cfg p) w s = map_option (\<lambda>(e, w, _). (e, w, s')) (refill (content_reader cfg c) w ()) \<and>
    reads mem blk devs ps p c s' \<and> same_fota mem ps s s'"
proof -
  from part_reader_content[OF assms, of cfg "aes_iv w"] obtain s' where
    "part_reader cfg p (fw_raw_pos w) (aes_iv w) s = map_option (\<lambda>(res, _). (res, s')) (content_reader cfg c (fw_raw_pos w) (aes_iv w) ())"
    "reads mem blk devs ps p c s'" "same_fota mem ps s s'" by blast
  then show ?thesis
    by (intro exI[of _ s']) (cases "content_reader cfg c (fw_raw_pos w) (aes_iv w) ()"; auto simp: refill_def Let_def)
qed

lemma reads_refl: "same_fota mem ps s s"
  by (simp add: same_fota_def)

lemma block_at_start_content:
  assumes "reads mem blk devs ps p c s" and "unat (fw_raw_pos w) \<le> 2 ^ 30"
  shows "\<exists>s'. block_at_start cfg (part_reader cfg p) w s =
      map_option (\<lambda>(e, b, w, _). (e, b, w, s')) (block_at_start cfg (content_reader cfg c) w ()) \<and>
    reads mem blk devs ps p c s' \<and> same_fota mem ps s s'"
proof -
  from refill_content[OF assms, of cfg] obtain s' where
    "refill (part_reader cfg p) w s = map_option (\<lambda>(e, w, _). (e, w, s')) (refill (content_reader cfg c) w ())"
    "reads mem blk devs ps p c s'" "same_fota mem ps s s'" by blast
  then show ?thesis
    by (intro exI[of _ s']) (cases "refill (content_reader cfg c) w ()"; auto simp: block_at_start_def Let_def split: Option.bind_split)
qed

lemma cmprs_clear_fields [simp]:
  "fw_raw_pos (cmprs_clear w) = fw_raw_pos w" "crypt_buf (cmprs_clear w) = crypt_buf w"
  "fw_raw_len (cmprs_clear w) = fw_raw_len w"
  by (simp_all add: cmprs_clear_def)

lemma cmprs_copy_fields:
  "cmprs_copy to from n w = Some w' \<Longrightarrow> fw_raw_pos w' = fw_raw_pos w \<and> crypt_buf w' = crypt_buf w \<and> fw_raw_len w' = fw_raw_len w"
  by (auto simp: cmprs_copy_def bind_eq_Some_conv)

lemma block_inside_content:
  assumes r: "reads mem blk devs ps p c s" and pos: "unat (fw_raw_pos w) \<le> 2 ^ 30"
  shows "\<exists>s'. block_inside cfg (part_reader cfg p) w s =
      map_option (\<lambda>(e, b, w, _). (e, b, w, s')) (block_inside cfg (content_reader cfg c) w ()) \<and>
    reads mem blk devs ps p c s' \<and> same_fota mem ps s s'"
proof -
  let ?size = "be32 (block_hdr_buf w)" and ?left = "FOTA_ALGO_BUFF_SIZE - block_hdr_pos w"
  let ?w = "cmprs_copy 0 (unat (block_hdr_pos w)) (unat ?left) (cmprs_clear w)"
  show ?thesis
  proof (cases "?size < usable_size cfg w \<and> ?size > ?left \<and> ?w \<noteq> None")
    case True
    then obtain w' where w': "?w = Some w'" by blast
    have "unat (fw_raw_pos w') \<le> 2 ^ 30" using cmprs_copy_fields[OF w'] pos by simp
    from refill_content[OF r this, of cfg] obtain s' where s':
      "refill (part_reader cfg p) w' s = map_option (\<lambda>(e, w, _). (e, w, s')) (refill (content_reader cfg c) w' ())"
      "reads mem blk devs ps p c s'" "same_fota mem ps s s'" by blast
    then show ?thesis using True w'
      by (intro exI[of _ s']) (cases "refill (content_reader cfg c) w' ()"; auto simp: block_inside_def Let_def split: Option.bind_split)
  next
    case False
    then show ?thesis using r reads_refl
      by (intro exI[of _ s]) (auto simp: block_inside_def Let_def split: Option.bind_split)
  qed
qed

lemma block_split_header_content:
  assumes "reads mem blk devs ps p c s" and "unat (fw_raw_pos w) \<le> 2 ^ 30"
  shows "\<exists>s'. block_split_header cfg (part_reader cfg p) n w s =
      map_option (\<lambda>(e, b, w, _). (e, b, w, s')) (block_split_header cfg (content_reader cfg c) n w ()) \<and>
    reads mem blk devs ps p c s' \<and> same_fota mem ps s s'"
proof -
  from refill_content[OF assms, of cfg] obtain s' where
    "refill (part_reader cfg p) w s = map_option (\<lambda>(e, w, _). (e, w, s')) (refill (content_reader cfg c) w ())"
    "reads mem blk devs ps p c s'" "same_fota mem ps s s'" by blast
  then show ?thesis
    by (intro exI[of _ s']) (cases "refill (content_reader cfg c) w ()"; auto simp: block_split_header_def Let_def split: Option.bind_split)
qed

lemma next_block_content:
  assumes r: "reads mem blk devs ps p c s" and pos: "unat (fw_raw_pos w) \<le> 2 ^ 30"
  shows "\<exists>s'. next_block cfg (part_reader cfg p) b w s =
      map_option (\<lambda>(e, b, w, _). (e, b, w, s')) (next_block cfg (content_reader cfg c) b w ()) \<and>
    reads mem blk devs ps p c s' \<and> same_fota mem ps s s'"
proof (cases "block_hdr_pos w \<ge> FOTA_ALGO_BUFF_SIZE")
  case True
  then show ?thesis using block_at_start_content[OF assms, of cfg] by (simp add: next_block_def)
next
  case False
  define n where "n = min 4 (unat (FOTA_ALGO_BUFF_SIZE - block_hdr_pos w))"
  let ?hdr = "rd_blk (crypt_buf w) (unat (block_hdr_pos w)) n \<bind> wr_blk (block_hdr_buf w) 0"
  show ?thesis
  proof (cases ?hdr)
    case None
    then show ?thesis using False r reads_refl
      by (intro exI[of _ s]) (auto simp: next_block_def Let_def n_def[symmetric] split: Option.bind_split)
  next
    case (Some hdr)
    then obtain ph where ph: "rd_blk (crypt_buf w) (unat (block_hdr_pos w)) n = Some ph" "wr_blk (block_hdr_buf w) 0 ph = Some hdr"
      by (auto simp: bind_eq_Some_conv)
    let ?w = "w\<lparr>block_hdr_buf := hdr, block_hdr_pos := block_hdr_pos w + of_nat n\<rparr>"
    have p': "unat (fw_raw_pos ?w) \<le> 2 ^ 30" using pos by simp
    have nb: "next_block cfg rdr b w t = (if block_hdr_pos ?w < FOTA_ALGO_BUFF_SIZE then block_inside cfg rdr ?w t
        else if n < 4 then block_split_header cfg rdr n ?w t else Some (FOTA_NO_ERR, b, ?w, t))" for rdr :: "'s reader" and t
      using False ph by (simp add: next_block_def Let_def n_def[symmetric])
    show ?thesis unfolding nb
      using block_inside_content[OF r p', of cfg] block_split_header_content[OF r p', of cfg n] r reads_refl
      by (cases "block_hdr_pos ?w < FOTA_ALGO_BUFF_SIZE"; cases "n < 4") (simp_all, blast)
  qed
qed

lemma fw_piece_content:
  assumes r: "reads mem blk devs ps p c s" and pos: "unat (fw_raw_pos w) \<le> 2 ^ 30"
  shows "\<exists>s'. fw_piece cfg (part_reader cfg p) algo sizes w s =
      map_option (\<lambda>(e, buf, n, sizes, w, _). (e, buf, n, sizes, w, s')) (fw_piece cfg (content_reader cfg c) algo sizes w ()) \<and>
    reads mem blk devs ps p c s' \<and> same_fota mem ps s s'"
proof (cases "cmprs_on algo")
  case True
  from next_block_content[OF assms, of cfg "fst sizes"] obtain s' where
    "next_block cfg (part_reader cfg p) (fst sizes) w s =
      map_option (\<lambda>(e, b, w, _). (e, b, w, s')) (next_block cfg (content_reader cfg c) (fst sizes) w ())"
    "reads mem blk devs ps p c s'" "same_fota mem ps s s'" by blast
  then show ?thesis using True
    by (intro exI[of _ s']) (cases "next_block cfg (content_reader cfg c) (fst sizes) w ()";
      auto simp: fw_piece_def Let_def split: Option.bind_split)
next
  case False
  from refill_content[OF assms, of cfg] obtain s' where
    "refill (part_reader cfg p) w s = map_option (\<lambda>(e, w, _). (e, w, s')) (refill (content_reader cfg c) w ())"
    "reads mem blk devs ps p c s'" "same_fota mem ps s s'" by blast
  then show ?thesis using False
    by (intro exI[of _ s']) (cases "refill (content_reader cfg c) w ()"; auto simp: fw_piece_def Let_def)
qed

text \<open>The piece: its buffer holds 4096 bytes, and what has been read lies in the partition.\<close>

lemma content_reader_ok:
  assumes "content_reader cfg c pos iv u = Some ((len, buf, iv'), u')"
  shows "len < 0 \<or> len = 4096 \<and> length buf = 4096 \<and> unat pos + 4096 \<le> length c"
proof (cases "sizeof_head + unat pos + 4096 \<le> length c")
  case True
  define z where "z = replicate 4096 (0::u8)"
  have lz: "length z = 4096" unfolding z_def by (rule length_replicate)
  have lw: "length (window (sizeof_head + unat pos) 4096 c) = 4096" using True by simp
  note cr = assms[unfolded content_reader_def z_def[symmetric]]
  show ?thesis
  proof (cases iv)
    case None
    then show ?thesis using cr True lw by (auto simp: Let_def)
  next
    case (Some v)
    obtain v' out where aes: "aes_cbc cfg v (window (sizeof_head + unat pos) 4096 c) = (v', out)" by (cases "aes_cbc cfg v (window (sizeof_head + unat pos) 4096 c)")
    show ?thesis
    proof (cases "malloc_ok cfg 10")
      case True' : True
      have "wr_blk z 0 out = Some buf \<and> len = 4096" using cr True True' Some aes by (auto simp: Let_def bind_eq_Some_conv)
      then show ?thesis using wr_blk_length[of z 0 out buf] lz True by auto
    next
      case False
      then show ?thesis using cr True Some by (simp add: fota_errs)
    qed
  qed
next
  case False
  then show ?thesis using assms by (cases "iv \<noteq> None \<and> \<not> malloc_ok cfg 10") (auto simp: content_reader_def fota_errs)
qed

definition pos_ok :: "'z fw \<Rightarrow> bool" where
  "pos_ok w \<longleftrightarrow> unat (fw_raw_pos w) \<le> 2 ^ 30"

lemma pos_ok_update [simp]:
  "pos_ok (w\<lparr>block_hdr_buf := a\<rparr>) = pos_ok w" "pos_ok (w\<lparr>block_hdr_pos := b\<rparr>) = pos_ok w"
  "pos_ok (w\<lparr>dcprs_state := d\<rparr>) = pos_ok w" "pos_ok (w\<lparr>cmprs_buff := e\<rparr>) = pos_ok w" "pos_ok (cmprs_clear w) = pos_ok w"
  by (simp_all add: pos_ok_def)

lemma pos_ok_copy: "cmprs_copy to from n w = Some w' \<Longrightarrow> pos_ok w' = pos_ok w"
  using cmprs_copy_fields[of to "from" n w w'] by (simp add: pos_ok_def)

lemma refill_ok:
  assumes "refill (content_reader cfg c) w u = Some (e, w', u')" "length c \<le> 2 ^ 30" "pos_ok w"
  shows "pos_ok w' \<and> (e = FOTA_NO_ERR \<longrightarrow> length (crypt_buf w') = 4096 \<and> fw_raw_len w' = 4096)"
proof -
  obtain len buf iv' u'' where r: "content_reader cfg c (fw_raw_pos w) (aes_iv w) u = Some ((len, buf, iv'), u'')"
    using assms(1) by (auto simp: refill_def bind_eq_Some_conv)
  have a: "unat (fw_raw_pos w + 4096) = unat (fw_raw_pos w) + 4096" using assms(3) by (simp add: pos_ok_def unat_word_ariths)
  from content_reader_ok[OF r] show ?thesis
  proof
    assume "len < 0"
    then show ?thesis using assms(1,3) r by (auto simp: refill_def fota_errs pos_ok_def)
  next
    assume l: "len = 4096 \<and> length buf = 4096 \<and> unat (fw_raw_pos w) + 4096 \<le> length c"
    then have "w' = w\<lparr>fw_raw_len := 4096, crypt_buf := buf, aes_iv := iv', fw_raw_pos := fw_raw_pos w + 4096\<rparr>"
      using assms(1) r by (simp add: refill_def)
    then show ?thesis using l a assms(2) by (simp add: pos_ok_def)
  qed
qed

lemma next_block_pos_ok:
  assumes c: "length c \<le> 2 ^ 30" and w: "pos_ok w"
    and b: "next_block cfg (content_reader cfg c) b w u = Some (e, b', w', u')"
  shows "pos_ok w'"
proof -
  have ne: "FOTA_GENERAL_ERR \<noteq> FOTA_NO_ERR" by (simp add: fota_errs)
  have rr: "pos_ok w \<longrightarrow> pos_ok w'" if "refill (content_reader cfg c) w () = Some (e, w', ())" for w e w'
    using refill_ok[OF that c] by simp
  have start: "pos_ok w'" if "block_at_start cfg (content_reader cfg c) w u = Some (e, b, w', u')" "pos_ok w" for w e b w'
    using that ne by (auto simp: block_at_start_def Let_def bind_eq_Some_conv dest!: rr pos_ok_copy split: if_split_asm)
  have split: "pos_ok w'" if "block_split_header cfg (content_reader cfg c) n w u = Some (e, b, w', u')" "pos_ok w" for n w e b w'
    using that ne by (auto simp: block_split_header_def Let_def bind_eq_Some_conv dest!: rr pos_ok_copy split: if_split_asm)
  have inside: "pos_ok w'" if "block_inside cfg (content_reader cfg c) w u = Some (e, b, w', u')" "pos_ok w" for w e b w'
    using that ne by (auto simp: block_inside_def Let_def bind_eq_Some_conv dest!: rr pos_ok_copy split: if_split_asm)
  show ?thesis
    using b w start inside split by (simp add: next_block_def Let_def bind_eq_Some_conv split: if_split_asm) fastforce+
qed

lemma decompress_ok:
  assumes "decompress cfg algo b d w = Some (n, buf, w')"
  shows "length buf = 4096" "pos_ok w' = pos_ok w"
proof -
  define z where "z = replicate (unat FOTA_CMPRS_BUFFER_SIZE) (0::u8)"
  have lz: "length z = 4096" by (simp add: z_def FOTA_CMPRS_BUFFER_SIZE_def)
  note d = assms[unfolded decompress_def z_def[symmetric]]
  have "buf = z \<or> (\<exists>out. wr_blk z 0 out = Some buf)"
    using d by (auto simp: Let_def bind_eq_Some_conv case_prod_unfold split: if_split_asm)
  then show "length buf = 4096" by (auto simp: lz dest: wr_blk_length)
  show "pos_ok w' = pos_ok w"
    using d by (auto simp: Let_def bind_eq_Some_conv case_prod_unfold split: if_split_asm)
qed

lemma fw_piece_ok:
  assumes "length c \<le> 2 ^ 30" "pos_ok w"
    and p: "fw_piece cfg (content_reader cfg c) algo sizes w u = Some (e, buf, n, sizes', w', u')"
  shows "pos_ok w' \<and> (e = FOTA_NO_ERR \<longrightarrow> length buf = 4096)"
proof (cases "cmprs_on algo")
  case False
  then obtain w1 u1 where "refill (content_reader cfg c) w u = Some (e, w1, u1)" "buf = crypt_buf w1" "w' = w1"
    using p by (auto simp: fw_piece_def bind_eq_Some_conv)
  then show ?thesis using refill_ok[OF _ assms(1,2)] by blast
next
  case True
  then obtain e1 b w1 u1 where b: "next_block cfg (content_reader cfg c) (fst sizes) w u = Some (e1, b, w1, u1)"
    using p by (auto simp: fw_piece_def bind_eq_Some_conv)
  note pos = next_block_pos_ok[OF assms(1,2) b]
  show ?thesis
  proof (cases "e1 = FOTA_NO_ERR")
    case False
    then show ?thesis using True p b pos by (simp add: fw_piece_def)
  next
    case ok: True
    then obtain d where "decompress cfg algo b (snd sizes) w1 = Some (d, buf, w')"
      using True p b by (auto simp: fw_piece_def bind_eq_Some_conv)
    from decompress_ok[OF this] pos show ?thesis by simp
  qed
qed

lemma tail_piece_ok:
  assumes "tail_piece cfg algo sizes w = Some (True, FOTA_NO_ERR, buf, n, sizes', w')"
  shows "length buf = 4096"
  using assms by (auto simp: tail_piece_def Let_def bind_eq_Some_conv fota_errs dest!: decompress_ok(1) split: if_splits)

text \<open>
  The application partition while \<open>img\<close> is being written to it, behind the head \<open>h\<close> of the
  image; and the total and hash code of the verification after the same \<open>img\<close>.
\<close>

definition app_bytes :: "u8 list \<Rightarrow> u8 list \<Rightarrow> u8 list" where
  "app_bytes h img = h @ replicate (unat APP_HEADER_LEN - sizeof_head) 0xFF @ img"

definition writing :: "('d \<Rightarrow> u8 list) \<Rightarrow> nat \<Rightarrow> 'd fal_flash_dev list \<Rightarrow> fal_partition list \<Rightarrow> fal_partition \<Rightarrow> fal_partition \<Rightarrow>
    u8 list \<Rightarrow> u8 list \<Rightarrow> u8 list \<Rightarrow> 'd fota \<Rightarrow> bool" where
  "writing mem blk devs ps p q c h img s \<longleftrightarrow> reads mem blk devs ps p c s \<and> rbl_head s = h \<and>
     unat APP_HEADER_LEN + length img \<le> unat (part_len q) \<and>
     fal_content mem q (flash s) = filled (app_bytes h img) (unat (part_len q))"

definition fnv :: "u8 list \<Rightarrow> u32" where
  "fnv xs = fold fota_fnv1a_r xs FNV_SEED"

definition hashing :: "u32 \<Rightarrow> u8 list \<Rightarrow> u32 \<times> u32 \<Rightarrow> bool" where
  "hashing raw img t \<longleftrightarrow> unat (fst t) = min (unat raw) (length img) \<and> snd t = fnv (take (unat raw) img)"

lemma length_app_bytes: "length h = sizeof_head \<Longrightarrow> length (app_bytes h img) = unat APP_HEADER_LEN + length img"
  by (simp add: app_bytes_def sizeof_head_def APP_HEADER_LEN_def)

lemma app_write:
  assumes w: "writing mem blk devs ps p q c h img s" and q: "q \<in> set ps" "p \<noteq> q" and h: "length h = sizeof_head"
    and app: "hd_app_part_name h = Some app" "named ps app = Some q"
    and t: "unat a = unat APP_HEADER_LEN + length img" and b: "length buf = 4096"
    and wr: "fota_write_app_part a buf n s = Some (e, s')" "\<not> e < 0"
  shows "unat n \<le> 4096 \<and> writing mem blk devs ps p q c h (img @ take (unat n) buf) s'"
proof -
  have e: "env mem blk devs ps (flash s)" and p: "p \<in> set ps" and c: "fal_content mem p (flash s) = c"
    and hd: "rbl_head s = h" and cq: "fal_content mem q (flash s) = filled (app_bytes h img) (unat (part_len q))"
    and len: "unat APP_HEADER_LEN + length img \<le> unat (part_len q)"
    using w by (simp_all add: writing_def reads_def)
  have n: "unat n \<le> 4096"
    using wr(1) b by (auto simp: fota_write_app_part_def hd app env_find[OF e] rd_blk_def bind_eq_Some_conv split: if_split_asm)
  define bs where "bs = take (unat n) buf"
  have lb: "length bs = unat n" using n b by (simp add: bs_def)
  obtain r f where f: "fal_partition_write q a bs (flash s) = Some (r, f)" "s' = s\<lparr>flash := f\<rparr>" "\<not> r < 0"
    using wr n b by (auto simp: fota_write_app_part_def hd app env_find[OF e] rd_blk_def bs_def bind_eq_Some_conv fota_errs split: if_split_asm)
  have fits: "unat a + length bs \<le> unat (part_len q)"
  proof (rule ccontr)
    assume no: "\<not> unat a + length bs \<le> unat (part_len q)"
    have "unat (part_len q) \<le> 2 ^ 30" by (rule env_part(2)[OF e q(1)])
    then have s: "unat a + length bs < 2 ^ 32" using t len lb n by simp
    then have "unat (a + of_nat (length bs)) = unat a + length bs"
      using unat_of_nat_lt[of "length bs"] by (simp add: unat_add_small)
    then have "a + of_nat (length bs) > part_len q" using no by (simp add: word_less_nat_alt)
    then show False using f(1,3) by (simp add: fal_partition_write_def)
  qed
  obtain f2: "env mem blk devs ps f" "write_effect (unat a) bs r (fal_content mem q (flash s)) (fal_content mem q f)"
    "\<forall>x \<in> set ps. x \<noteq> q \<longrightarrow> fal_content mem x f = fal_content mem x (flash s)"
    using env_write[OF e q(1) fits] f(1) by auto
  have "fal_content mem q f = filled (app_bytes h img @ bs) (unat (part_len q))"
    using f2(2) f(3) filled_write[OF length_app_bytes[OF h], of img bs "unat (part_len q)"] fits
    by (simp add: write_effect_def cq t)
  then have "writing mem blk devs ps p q c h (img @ bs) s'"
    using f2 f(2) p q c hd fits by (simp add: writing_def reads_def t app_bytes_def)
  with n show ?thesis by (simp add: bs_def)
qed

lemma reads_length:
  assumes "reads mem blk devs ps p c s"
  shows "length c \<le> 2 ^ 30"
proof -
  have e: "env mem blk devs ps (flash s)" and p: "p \<in> set ps" and c: "c = fal_content mem p (flash s)"
    using assms by (simp_all add: reads_def)
  show ?thesis unfolding c env_part(4)[OF e p] by (rule env_part(2)[OF e p])
qed

lemma writing_length:
  assumes "writing mem blk devs ps p q c h img s" "q \<in> set ps"
  shows "length img \<le> 2 ^ 30"
proof -
  have "env mem blk devs ps (flash s)" using assms(1) by (simp add: writing_def reads_def)
  from env_part(2)[OF this assms(2)] show ?thesis using assms(1) by (simp add: writing_def)
qed

lemma upgrade_sink_step:
  assumes w: "writing mem blk devs ps p q c h img s" and q: "q \<in> set ps" "p \<noteq> q" and h: "length h = sizeof_head"
    and app: "hd_app_part_name h = Some app" "named ps app = Some q"
    and t: "unat (fst t) = length img" and b: "length buf = 4096"
    and s: "upgrade_sink buf n t s = Some (FOTA_NO_ERR, t', s')"
  shows "unat n \<le> 4096 \<and> writing mem blk devs ps p q c h (img @ take (unat n) buf) s' \<and> unat (fst t') = length (img @ take (unat n) buf)"
proof -
  have len: "length img \<le> 2 ^ 30" by (rule writing_length[OF w q(1)])
  then have a: "unat (fst t + APP_HEADER_LEN) = unat APP_HEADER_LEN + length img"
    using t by (simp add: APP_HEADER_LEN_def unat_word_ariths)
  obtain e where e: "fota_write_app_part (fst t + APP_HEADER_LEN) buf n s = Some (e, s')" "\<not> e < 0" "t' = (fst t + n, snd t)"
    using s by (auto simp: upgrade_sink_def bind_eq_Some_conv fota_errs split: if_split_asm)
  from app_write[OF w q h app a b e(1,2)] have r: "unat n \<le> 4096" "writing mem blk devs ps p q c h (img @ take (unat n) buf) s'" by auto
  have "unat (fst t + n) = unat (fst t) + unat n" using len t r(1) by (intro unat_add_small) simp
  with r e(3) t b show ?thesis by simp
qed

lemma verify_sink_step:
  assumes hs: "hashing raw img t" and len: "length img \<le> 2 ^ 30" and b: "length buf = 4096" and n: "unat n \<le> 4096"
    and s: "verify_sink raw buf n t s = Some (e, t', s')"
  shows "hashing raw (img @ take (unat n) buf) t' \<and> s' = s"
proof -
  have t: "unat (fst t) = min (unat raw) (length img)" "snd t = fnv (take (unat raw) img)" using hs by (simp_all add: hashing_def)
  define m where "m = (if fst t + n > raw then raw - fst t else n)"
  have s1: "unat (fst t + n) = unat (fst t) + unat n" using t len n by (intro unat_add_small) simp
  have le: "fst t \<le> raw" using t by (simp add: word_le_nat_alt)
  have m: "unat m = min (unat raw - unat (fst t)) (unat n)"
    using s1 unat_sub_le[OF le] by (auto simp: m_def word_less_nat_alt)
  have e: "t' = (fst t + m, fold fota_fnv1a_r (take (unat m) buf) (snd t))" "s' = s"
    using s m n b by (auto simp: verify_sink_def m_def[symmetric] Let_def fota_calc_hash_code_def rd_blk_def bind_eq_Some_conv split: if_split_asm)
  have "unat (fst t + m) = unat (fst t) + unat m" using m n t len by (intro unat_add_small) simp
  moreover have "take (unat raw) (img @ take (unat n) buf) = take (unat raw) img @ take (unat m) buf"
    by (cases "length img \<le> unat raw") (simp_all add: m t min_def)
  ultimately show ?thesis using e m t b n
    by (cases "length img \<le> unat raw") (auto simp: hashing_def fnv_def min_def)
qed

lemma writing_same:
  "writing mem blk devs ps p q c h img s \<Longrightarrow> reads mem blk devs ps p c s' \<Longrightarrow> same_fota mem ps s s' \<Longrightarrow> q \<in> set ps \<Longrightarrow>
   writing mem blk devs ps p q c h img s'"
  by (simp add: writing_def same_fota_def same_flash_def)

text \<open>The two walks in step: whatever the verification has hashed, the upgrade writes.\<close>

definition in_step :: "('d \<Rightarrow> u8 list) \<Rightarrow> nat \<Rightarrow> 'd fal_flash_dev list \<Rightarrow> fal_partition list \<Rightarrow> fal_partition \<Rightarrow> fal_partition \<Rightarrow>
    u8 list \<Rightarrow> u8 list \<Rightarrow> u32 \<Rightarrow> u8 list \<Rightarrow> 'd fota \<Rightarrow> u32 \<times> u32 \<Rightarrow> 'd fota \<Rightarrow> u32 \<times> u32 \<Rightarrow> bool" where
  "in_step mem blk devs ps p q c h raw img s t sv tv \<longleftrightarrow> writing mem blk devs ps p q c h img s \<and> unat (fst t) = length img \<and>
     reads mem blk devs ps p c sv \<and> hashing raw img tv"

lemma sinks_step:
  assumes i: "in_step mem blk devs ps p q c h raw img s t sv tv" and q: "q \<in> set ps" "p \<noteq> q" and h: "length h = sizeof_head"
    and app: "hd_app_part_name h = Some app" "named ps app = Some q" and b: "length buf = 4096"
    and us: "upgrade_sink buf n t s = Some (FOTA_NO_ERR, t', s')" and vs: "verify_sink raw buf n tv sv = Some (e, tv', sv')"
  shows "in_step mem blk devs ps p q c h raw (img @ take (unat n) buf) s' t' sv' tv'"
proof -
  note i = i[unfolded in_step_def]
  note w = i[THEN conjunct1]
  note u = upgrade_sink_step[OF w q h app _ b us]
  note v = verify_sink_step[OF _ writing_length[OF w q(1)] b _ vs]
  show ?thesis using i u v by (simp add: in_step_def)
qed

lemma fw_loop_lockstep:
  fixes cfg :: "'z fota_cfg" and s :: "'d fota"
  assumes q: "q \<in> set ps" "p \<noteq> q" and h: "length h = sizeof_head"
    and app: "hd_app_part_name h = Some app" "named ps app = Some q"
    and run: "fw_loop cfg rdr algo com sink sizes t w s = Some y"
    and "rdr = part_reader cfg p" "sink = upgrade_sink" "y = (FOTA_NO_ERR, t1, sizes1, w1, s1)"
    and "in_step mem blk devs ps p q c h raw img s t sv tv" "pos_ok w"
    and "fw_loop cfg (part_reader cfg p) algo com (verify_sink raw) sizes tv w sv = Some (FOTA_NO_ERR, tv1, sizesv, wv, sv1)"
  shows "\<exists>img'. in_step mem blk devs ps p q c h raw img' s1 t1 sv1 tv1 \<and> sizesv = sizes1 \<and> wv = w1"
proof -
  define P where "P cfg rdr algo com sink sizes t w s y \<longleftrightarrow>
    (\<forall>t1 sizes1 w1 s1 img sv tv tv1 sizesv wv sv1.
      rdr = part_reader cfg p \<longrightarrow> sink = upgrade_sink \<longrightarrow> y = (FOTA_NO_ERR, t1, sizes1, w1, s1) \<longrightarrow>
      in_step mem blk devs ps p q c h raw img s t sv tv \<longrightarrow> pos_ok w \<longrightarrow>
      fw_loop cfg (part_reader cfg p) algo com (verify_sink raw) sizes tv w sv = Some (FOTA_NO_ERR, tv1, sizesv, wv, sv1) \<longrightarrow>
      (\<exists>img'. in_step mem blk devs ps p q c h raw img' s1 t1 sv1 tv1 \<and> sizesv = sizes1 \<and> wv = w1))"
    for cfg :: "'z fota_cfg" and rdr :: "'d fota reader" and algo com and sink :: "'d fota sink" and sizes and t :: "u32 \<times> u32" and w s
      and y :: "int \<times> (u32 \<times> u32) \<times> (u32 \<times> u32) \<times> 'z fw \<times> 'd fota"
  have "P cfg rdr algo com sink sizes t w s y"
  proof (rule fw_loop.raw_induct[OF _ run], unfold P_def, intro allI impI, goal_cases)
    case (1 loop cfg rdr algo com sink sizes t w s y t1 sizes1 w1 s1 img sv tv tv1 sizesv wv sv1)
    note IH = 1(1)[rule_format] and step = 1(2) and a = 1(3-8)
    note vstep = a(6)[unfolded fw_loop.simps[of cfg _ _ _ _ _ tv]]
    show ?case
    proof (cases "fw_raw_pos w < com")
      case False
      then show ?thesis using step a(3,4) vstep by auto
    next
      case True
      have rs: "reads mem blk devs ps p c s" "reads mem blk devs ps p c sv" and pos: "unat (fw_raw_pos w) \<le> 2 ^ 30"
        using a(4,5) by (simp_all add: in_step_def writing_def pos_ok_def)
      obtain s2 where s2: "fw_piece cfg (part_reader cfg p) algo sizes w s =
          map_option (\<lambda>(e, buf, n, sizes, w, _). (e, buf, n, sizes, w, s2)) (fw_piece cfg (content_reader cfg c) algo sizes w ())"
        "reads mem blk devs ps p c s2" "same_fota mem ps s s2" using fw_piece_content[OF rs(1) pos] by blast
      obtain sv2 where sv2: "fw_piece cfg (part_reader cfg p) algo sizes w sv =
          map_option (\<lambda>(e, buf, n, sizes, w, _). (e, buf, n, sizes, w, sv2)) (fw_piece cfg (content_reader cfg c) algo sizes w ())"
        "reads mem blk devs ps p c sv2" using fw_piece_content[OF rs(2) pos] by blast
      obtain buf n sizes' w' where piece: "fw_piece cfg (content_reader cfg c) algo sizes w () = Some (FOTA_NO_ERR, buf, n, sizes', w', ())"
        and urest: "do { (e, t, s) \<leftarrow> upgrade_sink buf n t s2;
          if e \<noteq> FOTA_NO_ERR then Some (e, t, sizes', w', s) else loop cfg rdr algo com sink sizes' t w' s } = Some y"
        using step True s2(1) unfolding a(1-3)
        by (cases "fw_piece cfg (content_reader cfg c) algo sizes w ()") (auto split: if_split_asm)
      obtain t' s3 where us: "upgrade_sink buf n t s2 = Some (FOTA_NO_ERR, t', s3)" and ul: "loop cfg rdr algo com sink sizes' t' w' s3 = Some y"
        using urest by (auto simp: bind_eq_Some_conv a(3) split: if_split_asm)
      obtain tv' sv3 where vs: "verify_sink raw buf n tv sv2 = Some (FOTA_NO_ERR, tv', sv3)"
        and vl: "fw_loop cfg (part_reader cfg p) algo com (verify_sink raw) sizes' tv' w' sv3 = Some (FOTA_NO_ERR, tv1, sizesv, wv, sv1)"
        using vstep True sv2(1) piece by (auto simp: bind_eq_Some_conv split: if_split_asm)
      have ok: "pos_ok w'" "length buf = 4096" using fw_piece_ok[OF reads_length[OF rs(1)] a(5) piece] by simp_all
      have "in_step mem blk devs ps p q c h raw img s2 t sv2 tv"
        using a(4) writing_same[OF _ s2(2,3) q(1)] sv2(2) by (simp add: in_step_def)
      from sinks_step[OF this q h app ok(2) us vs] IH[OF ul a(1-3) _ ok(1) vl] show ?thesis by blast
    qed
  qed
  then show ?thesis unfolding P_def using assms(7-12) by blast
qed

lemma in_step_more:
  assumes "in_step mem blk devs ps p q c h raw img s t sv tv"
  shows "fst tv < raw \<longleftrightarrow> fst t < raw"
  using assms by (auto simp: in_step_def hashing_def word_less_nat_alt)

lemma tail_loop_lockstep:
  fixes cfg :: "'z fota_cfg" and s :: "'d fota"
  assumes q: "q \<in> set ps" "p \<noteq> q" and h: "length h = sizeof_head"
    and app: "hd_app_part_name h = Some app" "named ps app = Some q"
    and run: "tail_loop cfg algo raw sink sizes t w s = Some y"
    and "sink = upgrade_sink" "y = (FOTA_NO_ERR, t1, s1)" "in_step mem blk devs ps p q c h raw img s t sv tv"
    and "tail_loop cfg algo raw (verify_sink raw) sizes tv w sv = Some (FOTA_NO_ERR, tv1, sv1)"
  shows "\<exists>img'. in_step mem blk devs ps p q c h raw img' s1 t1 sv1 tv1"
proof -
  define P where "P cfg algo raw' sink sizes t w s y \<longleftrightarrow>
    (\<forall>t1 s1 img sv tv tv1 sv1. raw' = raw \<longrightarrow> sink = upgrade_sink \<longrightarrow> y = (FOTA_NO_ERR, t1, s1) \<longrightarrow>
      in_step mem blk devs ps p q c h raw img s t sv tv \<longrightarrow>
      tail_loop cfg algo raw (verify_sink raw) sizes tv w sv = Some (FOTA_NO_ERR, tv1, sv1) \<longrightarrow>
      (\<exists>img'. in_step mem blk devs ps p q c h raw img' s1 t1 sv1 tv1))"
    for cfg :: "'z fota_cfg" and algo raw' and sink :: "'d fota sink" and sizes and t :: "u32 \<times> u32" and w s
      and y :: "int \<times> (u32 \<times> u32) \<times> 'd fota"
  have "P cfg algo raw sink sizes t w s y"
  proof (rule tail_loop.raw_induct[OF _ run], unfold P_def, intro allI impI, goal_cases)
    case (1 loop cfg algo raw' sink sizes t w s y t1 s1 img sv tv tv1 sv1)
    note IH = 1(1)[rule_format] and step = 1(2) and a = 1(3-7)
    note vstep = a(5)[unfolded tail_loop.simps[of cfg _ _ _ _ tv]]
    show ?case
    proof (cases "fst t < raw")
      case False
      then show ?thesis using step a(1-4) vstep in_step_more[OF a(4)] by auto
    next
      case True
      obtain more e buf n sizes' w' where piece: "tail_piece cfg algo sizes w = Some (more, e, buf, n, sizes', w')"
        using step True a(1) by (cases "tail_piece cfg algo sizes w") auto
      have e: "e = FOTA_NO_ERR" using step True piece a(1,3) by (auto split: if_split_asm)
      show ?thesis
      proof (cases more)
        case False
        then show ?thesis using step True piece e a(1-4) vstep in_step_more[OF a(4)] by auto
      next
        case more: True
        obtain t' s' where us: "upgrade_sink buf n t s = Some (FOTA_NO_ERR, t', s')" and ul: "loop cfg algo raw' sink sizes' t' w' s' = Some y"
          using step True piece e more a(1-3) by (auto simp: bind_eq_Some_conv split: if_split_asm)
        obtain tv' sv' where vs: "verify_sink raw buf n tv sv = Some (FOTA_NO_ERR, tv', sv')"
          and vl: "tail_loop cfg algo raw (verify_sink raw) sizes' tv' w' sv' = Some (FOTA_NO_ERR, tv1, sv1)"
          using vstep True piece e more in_step_more[OF a(4)] by (auto simp: bind_eq_Some_conv split: if_split_asm)
        have "length buf = 4096" using tail_piece_ok[of cfg algo sizes w buf n sizes' w'] piece e more by simp
        from sinks_step[OF a(4) q h app this us vs] IH[OF ul a(1-3) _ vl] show ?thesis by blast
      qed
    qed
  qed
  then show ?thesis unfolding P_def using assms(7-10) by blast
qed

section \<open>Which applications are started\<close>

lemma fold_window: "fold g (window (a + n) k m) (fold g (window a n m) x) = fold g (window a (n + k) m) x"
  by (simp add: window_split)

lemma app_hash_loop_spec:
  fixes off raw :: u32
  assumes "env mem blk devs ps f" "q \<in> set ps" "off < raw \<longrightarrow> unat off \<le> 2 ^ 30" "unat off \<le> unat raw + 4096"
  shows "\<exists>e h' f'. app_hash_loop q raw off hash f = Some (e, h', f') \<and> env mem blk devs ps f' \<and> same_flash mem ps f f' \<and>
    (if off < raw \<longrightarrow> 512 + unat raw \<le> unat (part_len q)
     then e = FOTA_NO_ERR \<and> h' = fold fota_fnv1a_r (window (512 + unat off) (unat raw - unat off) (fal_content mem q f)) hash
     else e = FOTA_PART_READ_ERR)"
  using assms
proof (induction "unat raw + 4096 - unat off" arbitrary: off hash f rule: less_induct)
  case less
  let ?c = "fal_content mem q f"
  show ?case
  proof (cases "off < raw")
    case False
    then show ?thesis using less.prems(1) by (subst app_hash_loop.simps) (simp add: word_less_nat_alt window_def)
  next
    case True
    then have lt: "unat off < unat raw" and o: "unat off \<le> 2 ^ 30" using less.prems(3) by (simp_all add: word_less_nat_alt)
    have p4: "unat (off + 4096) = unat off + 4096" "unat (off + APP_HEADER_LEN) = 512 + unat off"
      using o by (simp_all add: APP_HEADER_LEN_def unat_word_ariths)
    define k where "k = (if off + 4096 > raw then raw - off else 4096)"
    have k: "unat k = min (unat raw - unat off) 4096"
      using lt unat_sub_le[of off raw] p4 by (auto simp: k_def word_less_nat_alt word_le_nat_alt)
    have small: "unat (part_len q) \<le> 2 ^ 30" by (rule env_part(2)[OF less.prems(1,2)])
    show ?thesis
    proof (cases "512 + unat off + unat k \<le> unat (part_len q)")
      case False
      have "fal_partition_read q (off + APP_HEADER_LEN) k f = Some (-1, [], f)"
        using False o k by (intro read_outside) (simp_all only: p4, simp_all)
      then have "app_hash_loop q raw off hash f = Some (FOTA_PART_READ_ERR, hash, f)"
        using True unfolding app_hash_loop.simps[of q raw off hash f]
        by (cases "off + 4096 > raw") (simp_all add: k_def THE_NOR_FLASH_GRANULARITY_def)
      moreover have "\<not> 512 + unat raw \<le> unat (part_len q)" using False lt by (simp add: k)
      ultimately show ?thesis using True less.prems(1) by simp
    next
      case fits: True
      then have "unat (off + APP_HEADER_LEN) + unat k \<le> unat (part_len q)" by (simp add: p4)
      from env_read[OF less.prems(1,2) this] obtain f1 where f1:
        "fal_partition_read q (off + APP_HEADER_LEN) k f = Some (int (unat k), window (512 + unat off) (unat k) ?c, f1)"
        "env mem blk devs ps f1" "same_flash mem ps f f1" by (auto simp only: p4)
      have lb: "length (window (512 + unat off) (unat k) ?c) = unat k"
        using fits env_part(4)[OF less.prems(1,2)] by (intro length_window) simp
      define hash1 where "hash1 = fold fota_fnv1a_r (window (512 + unat off) (unat k) ?c) hash"
      have step: "app_hash_loop q raw off hash f = app_hash_loop q raw (off + 4096) hash1 f1"
        using True f1(1) lb unfolding app_hash_loop.simps[of q raw off hash f]
        by (cases "off + 4096 > raw") (simp_all add: k_def THE_NOR_FLASH_GRANULARITY_def fota_calc_hash_code_def rd_blk_def hash1_def)
      have inv1: "off + 4096 < raw \<longrightarrow> unat (off + 4096) \<le> 2 ^ 30" "unat (off + 4096) \<le> unat raw + 4096"
        "unat raw + 4096 - unat (off + 4096) < unat raw + 4096 - unat off"
        using fits small k lt by (auto simp: p4 word_less_nat_alt)
      have c1: "fal_content mem q f1 = ?c" using f1(3) less.prems(2) by (simp add: same_flash_def)
      have g: "(off + 4096 < raw \<longrightarrow> 512 + unat raw \<le> unat (part_len q)) \<longleftrightarrow> 512 + unat raw \<le> unat (part_len q)"
        using fits k lt by (auto simp: p4 word_less_nat_alt)
      have w: "fold fota_fnv1a_r (window (512 + unat (off + 4096)) (unat raw - unat (off + 4096)) ?c) hash1 =
          fold fota_fnv1a_r (window (512 + unat off) (unat raw - unat off) ?c) hash"
      proof (cases "unat off + 4096 \<le> unat raw")
        case True
        define j where "j = unat raw - unat (off + 4096)"
        have j: "unat raw - unat off = unat k + j" and i: "512 + unat (off + 4096) = 512 + unat off + unat k"
          using True by (simp_all add: k j_def p4)
        show ?thesis unfolding j_def[symmetric] hash1_def j i by (rule fold_window)
      next
        case False
        then show ?thesis by (simp add: hash1_def p4 k window_def)
      qed
      from less.hyps[OF inv1(3) f1(2) less.prems(2) inv1(1,2), of hash1, unfolded g c1 w]
      obtain e h' f' where r: "app_hash_loop q raw (off + 4096) hash1 f1 = Some (e, h', f')" "env mem blk devs ps f'" "same_flash mem ps f1 f'"
        "if 512 + unat raw \<le> unat (part_len q)
         then e = FOTA_NO_ERR \<and> h' = fold fota_fnv1a_r (window (512 + unat off) (unat raw - unat off) ?c) hash
         else e = FOTA_PART_READ_ERR" by (elim exE conjE) (rule that)
      have g': "(off < raw \<longrightarrow> 512 + unat raw \<le> unat (part_len q)) \<longleftrightarrow> 512 + unat raw \<le> unat (part_len q)" using True by simp
      show ?thesis unfolding g' step
        by (intro exI[of _ e] exI[of _ h'] exI[of _ f'] conjI r same_flash_trans[OF f1(3) r(3)])
    qed
  qed
qed

definition app_ok :: "u8 list \<Rightarrow> bool" where
  "app_ok c \<longleftrightarrow> (let h = head_of c; raw = unat (hd_raw_size h)
     in sizeof_head \<le> length c \<and> (raw = 0 \<or> 512 + raw \<le> length c) \<and> fnv (window 512 raw c) = hd_hash_val h)"

lemma fota_check_application_spec:
  assumes e: "env mem blk devs ps (flash s)" and q: "named ps (APP_PART cfg) = Some q" and m: "malloc_ok cfg 0" "malloc_ok cfg 1"
  shows "\<exists>r s'. fota_check_application cfg s = Some (r, s') \<and>
    (r = FOTA_NO_ERR \<longleftrightarrow> app_ok (fal_content mem q (flash s))) \<and>
    env mem blk devs ps (flash s') \<and> same_flash mem ps (flash s) (flash s') \<and> rbl_head s' = rbl_head s"
proof -
  have qs: "q \<in> set ps" using named_in[OF q] by simp
  let ?c = "fal_content mem q (flash s)"
  let ?h = "head_of ?c"
  have l: "length ?c = unat (part_len q)" by (rule env_part(4)[OF e qs])
  show ?thesis
  proof (cases "96 \<le> unat (part_len q)")
    case False
    then have "fal_partition_read q 0 (of_nat sizeof_head) (flash s) = Some (-1, [], flash s)"
      by (intro read_outside) (simp_all add: sizeof_head_def)
    moreover have "\<not> app_ok ?c" using False by (simp add: app_ok_def Let_def l sizeof_head_def)
    ultimately show ?thesis using e m by (simp add: fota_check_application_def env_find[OF e] q fota_errs)
  next
    case True
    then obtain f where f: "fal_partition_read q 0 (of_nat sizeof_head) (flash s) = Some (96, ?h, f)"
      "env mem blk devs ps f" "same_flash mem ps (flash s) f"
      using env_read[OF e qs, of 0 "of_nat sizeof_head"] by (auto simp: sizeof_head_def window_def head_of_def)
    have c: "fal_content mem q f = ?c" using f(3) qs by (simp add: same_flash_def)
    have lh: "length ?h = sizeof_head" using True l by (simp add: head_of_def sizeof_head_def)
    obtain e' h' f' where b: "app_hash_loop q (hd_raw_size ?h) 0 FNV_SEED f = Some (e', h', f')"
      "env mem blk devs ps f'" "same_flash mem ps f f'"
      "if 0 < hd_raw_size ?h \<longrightarrow> 512 + unat (hd_raw_size ?h) \<le> unat (part_len q)
       then e' = FOTA_NO_ERR \<and> h' = fnv (window 512 (unat (hd_raw_size ?h)) ?c) else e' = FOTA_PART_READ_ERR"
      using app_hash_loop_spec[OF f(2) qs, of 0 "hd_raw_size ?h" FNV_SEED] by (auto simp: c fnv_def)
    have chk: "fota_check_application cfg s = Some (if e' \<noteq> FOTA_NO_ERR then e'
        else if h' \<noteq> hd_hash_val ?h then FOTA_FW_VERIFY_FAILED else FOTA_NO_ERR, s\<lparr>flash := f'\<rparr>)"
      using f(1) b(1) m lh by (simp add: fota_check_application_def env_find[OF e] q rd_blk_def)
    have z: "(0 < hd_raw_size ?h \<longrightarrow> 512 + unat (hd_raw_size ?h) \<le> unat (part_len q)) \<longleftrightarrow>
        unat (hd_raw_size ?h) = 0 \<or> 512 + unat (hd_raw_size ?h) \<le> unat (part_len q)"
      by (auto simp: word_less_nat_alt)
    have "app_ok ?c \<longleftrightarrow> (unat (hd_raw_size ?h) = 0 \<or> 512 + unat (hd_raw_size ?h) \<le> unat (part_len q)) \<and>
        fnv (window 512 (unat (hd_raw_size ?h)) ?c) = hd_hash_val ?h"
      using True by (simp add: app_ok_def Let_def l sizeof_head_def)
    then have "(if e' \<noteq> FOTA_NO_ERR then e' else if h' \<noteq> hd_hash_val ?h then FOTA_FW_VERIFY_FAILED else FOTA_NO_ERR) = FOTA_NO_ERR
        \<longleftrightarrow> app_ok ?c"
      using b(4)[unfolded z] by (auto simp: fota_errs split: if_split_asm)
    with chk b(2) same_flash_trans[OF f(3) b(3)] show ?thesis by simp
  qed
qed

lemma window_app_bytes:
  assumes "length h = sizeof_head" "n \<le> length img" "512 + length img \<le> len"
  shows "head_of (filled (app_bytes h img) len) = h" "window 512 n (filled (app_bytes h img) len) = take n img"
    "length (filled (app_bytes h img) len) = len"
  using assms by (simp_all add: head_of_def filled_def app_bytes_def window_def sizeof_head_def APP_HEADER_LEN_def)

lemma app_ok_installed:
  assumes "length h = sizeof_head" "unat (hd_raw_size h) \<le> length img" "512 + length img \<le> len"
    and "fnv (take (unat (hd_raw_size h)) img) = hd_hash_val h"
  shows "app_ok (filled (app_bytes h img) len)"
  using window_app_bytes[OF assms(1-3)] assms by (simp add: app_ok_def Let_def sizeof_head_def)

lemma fw_walk_lockstep:
  assumes q: "q \<in> set ps" "p \<noteq> q" and h: "length h = sizeof_head"
    and app: "hd_app_part_name h = Some app" "named ps app = Some q" and w: "pos_ok w"
    and i: "in_step mem blk devs ps p q c h (hd_raw_size h) [] s (0, FNV_SEED) sv (0, FNV_SEED)"
    and run: "fw_walk cfg (part_reader cfg p) h upgrade_sink w s = Some (FOTA_NO_ERR, t1, s1)"
    and vrun: "fw_walk cfg (part_reader cfg p) h (verify_sink (hd_raw_size h)) w sv = Some (FOTA_NO_ERR, tv1, sv1)"
  shows "\<exists>img. in_step mem blk devs ps p q c h (hd_raw_size h) img s1 t1 sv1 tv1"
proof -
  obtain t2 sizes2 w2 s2 where l: "fw_loop cfg (part_reader cfg p) (hd_fota_algo h) (hd_com_size h) upgrade_sink (0, 0) (0, FNV_SEED) w s
      = Some (FOTA_NO_ERR, t2, sizes2, w2, s2)"
    using run by (auto simp: fw_walk_def bind_eq_Some_conv split: if_split_asm)
  obtain tv2 sizesv2 wv2 sv2 where lv: "fw_loop cfg (part_reader cfg p) (hd_fota_algo h) (hd_com_size h) (verify_sink (hd_raw_size h)) (0, 0) (0, FNV_SEED) w sv
      = Some (FOTA_NO_ERR, tv2, sizesv2, wv2, sv2)"
    using vrun by (auto simp: fw_walk_def bind_eq_Some_conv split: if_split_asm)
  have "\<exists>img. in_step mem blk devs ps p q c h (hd_raw_size h) img s2 t2 sv2 tv2 \<and> sizesv2 = sizes2 \<and> wv2 = w2"
    by (rule fw_loop_lockstep[OF q h app l _ _ _ i w lv]) simp_all
  then obtain img where
    img: "in_step mem blk devs ps p q c h (hd_raw_size h) img s2 t2 sv2 tv2" and eq: "sizesv2 = sizes2" "wv2 = w2" by blast
  show ?thesis
  proof (cases "cmprs_on (hd_fota_algo h)")
    case True
    have "tail_loop cfg (hd_fota_algo h) (hd_raw_size h) upgrade_sink sizes2 t2 w2 s2 = Some (FOTA_NO_ERR, t1, s1)"
      "tail_loop cfg (hd_fota_algo h) (hd_raw_size h) (verify_sink (hd_raw_size h)) sizes2 tv2 w2 sv2 = Some (FOTA_NO_ERR, tv1, sv1)"
      using run vrun l lv True eq by (simp_all add: fw_walk_def)
    from tail_loop_lockstep[OF q h app this(1) _ _ img this(2)] show ?thesis by simp
  next
    case False
    then have "t1 = t2" "s1 = s2" "tv1 = tv2" "sv1 = sv2" using run vrun l lv by (simp_all add: fw_walk_def)
    with img show ?thesis by blast
  qed
qed

lemma fw_setup_pos: "pos_ok (snd (fw_setup cfg algo))"
  by (simp add: fw_setup_def Let_def pos_ok_def)

text \<open>The upgrade up to the walk: an erased partition with the head of the image.\<close>

lemma fota_upgrade_start:
  assumes e: "env mem blk devs ps (flash s)" and p: "named ps fm = Some p" and c: "fal_content mem p (flash s) = c"
    and hd: "rbl_head s = head_of c" and app: "hd_app_part_name (head_of c) = Some app" "named ps app = Some q" and ne: "app \<noteq> fm"
    and len: "512 \<le> unat (part_len q)" "96 \<le> length c" and m: "malloc_ok cfg 0"
  shows "\<exists>e1 s1. (e1 \<noteq> FOTA_NO_ERR \<longrightarrow> fota_upgrade cfg (Some fm) s = Some (e1, s1)) \<and> (reliable mem devs \<longrightarrow> e1 = FOTA_NO_ERR) \<and>
    (\<forall>x \<in> set ps. x \<noteq> q \<longrightarrow> fal_content mem x (flash s1) = fal_content mem x (flash s)) \<and>
    crc_tab s1 = crc_tab s \<and>
    (e1 = FOTA_NO_ERR \<longrightarrow> writing mem blk devs ps p q c (head_of c) [] s1 \<and>
       fota_upgrade cfg (Some fm) s =
         (let (e, w) = fw_setup cfg (hd_fota_algo (head_of c))
          in if e \<noteq> FOTA_NO_ERR then Some (e, s1)
             else do {
               (e, t, s) \<leftarrow> fw_walk cfg (part_reader cfg p) (head_of c) upgrade_sink w s1;
               if e \<noteq> FOTA_NO_ERR then Some (e, s)
               else Some (if fst t < hd_raw_size (head_of c) then FOTA_GENERAL_ERR else FOTA_NO_ERR, s) }))"
proof -
  let ?h = "head_of c"
  have ps: "p \<in> set ps" "q \<in> set ps" "p \<noteq> q" using named_in[OF p] named_in[OF app(2)] ne by auto
  have lh: "length ?h = sizeof_head" using len(2) by (simp add: head_of_def sizeof_head_def)
  have all: "unat (0 :: u32) + unat (part_len q) \<le> unat (part_len q)" by simp
  obtain r1 f1 where f1: "fal_partition_erase q 0 (part_len q) (flash s) = Some (r1, f1)" "env mem blk devs ps f1"
    "erase_effect 0 (unat (part_len q)) r1 (fal_content mem q (flash s)) (fal_content mem q f1)"
    "\<forall>x \<in> set ps. x \<noteq> q \<longrightarrow> fal_content mem x f1 = fal_content mem x (flash s)"
    using env_erase[OF e ps(2) all] env_part(3)[OF e ps(2)] by auto
  have er: "fota_erase_app_part s = Some (if r1 < 0 then FOTA_PART_ERASE_ERR else FOTA_NO_ERR, s\<lparr>flash := f1\<rparr>)"
    using f1(1) by (simp add: fota_erase_app_part_def hd app env_find[OF e] fal_partition_erase_all_def)
  have rel1: "reliable mem devs \<Longrightarrow> \<not> r1 < 0" 
    using reliable_erase[OF _ e ps(2) all _ env_part(3)[OF e ps(2)] f1(1)] by fastforce
  have p1: "fal_content mem p f1 = c" using f1(4) ps c by simp
  have lc: "length c = unat (part_len p)" using env_part(4)[OF e ps(1)] c by simp
  obtain f2 where f2: "fal_partition_read p 0 (of_nat sizeof_head) f1 = Some (96, ?h, f2)" "env mem blk devs ps f2" "same_flash mem ps f1 f2"
    using env_read[OF f1(2) ps(1), of 0 "of_nat sizeof_head"] len(2) lc by (auto simp: sizeof_head_def window_def head_of_def p1)
  have w0: "unat (0 :: u32) + length ?h \<le> unat (part_len q)" using len(1) lh by (simp add: sizeof_head_def)
  obtain r3 f3 where f3: "fal_partition_write q 0 ?h f2 = Some (r3, f3)" "env mem blk devs ps f3"
    "write_effect 0 ?h r3 (fal_content mem q f2) (fal_content mem q f3)"
    "\<forall>x \<in> set ps. x \<noteq> q \<longrightarrow> fal_content mem x f3 = fal_content mem x f2"
    using env_write[OF f2(2) ps(2) w0] by auto
  have rel3: "reliable mem devs \<Longrightarrow> \<not> r3 < 0" using reliable_write[OF _ f2(2) ps(2) w0 f3(1)] by linarith
  have wr: "fota_write_app_part 0 ?h (of_nat sizeof_head) (s\<lparr>flash := f2\<rparr>) =
      Some (if r3 < 0 then FOTA_PART_WRITE_ERR else FOTA_NO_ERR, s\<lparr>flash := f3\<rparr>)"
    using f3(1) lh by (simp add: fota_write_app_part_def hd app env_find[OF f2(2)] rd_blk_def sizeof_head_def)
  have others: "\<forall>x \<in> set ps. x \<noteq> q \<longrightarrow> fal_content mem x f3 = fal_content mem x (flash s)"
    using f1(4) f2(3) f3(4) by (simp add: same_flash_def)
  note eq = fota_upgrade_def env_find[OF e] p er f2(1) wr m
  show ?thesis
  proof (cases "r1 < 0")
    case True
    then show ?thesis using rel1 f1(4)
      by (intro exI[of _ FOTA_PART_ERASE_ERR] exI[of _ "s\<lparr>flash := f1\<rparr>"]) (auto simp: eq fota_errs)
  next
    case r1: False
    show ?thesis
    proof (cases "r3 < 0")
      case True
      then show ?thesis using rel3 others r1
        by (intro exI[of _ FOTA_PART_WRITE_ERR] exI[of _ "s\<lparr>flash := f3\<rparr>"]) (auto simp: eq fota_errs)
    next
      case r3: False
      have "fal_content mem q f1 = filled [] (unat (part_len q))"
        using f1(3) r1 env_part(4)[OF e ps(2)] nor_erase_all[of "fal_content mem q (flash s)"] by (simp add: erase_effect_def filled_def)
      then have "fal_content mem q f3 = filled ?h (unat (part_len q))"
        using f3(3) r3 f2(3) ps(2) filled_write[of "[]" 0 ?h "unat (part_len q)"] w0
        by (simp add: write_effect_def same_flash_def)
      also have "\<dots> = filled (app_bytes ?h []) (unat (part_len q))"
        using lh len(1) by (simp add: filled_def app_bytes_def sizeof_head_def APP_HEADER_LEN_def flip: replicate_add)
      finally have "writing mem blk devs ps p q c ?h [] (s\<lparr>flash := f3\<rparr>)"
        using f3(2,4) f2(3) ps p1 len(1) hd by (simp add: writing_def reads_def same_flash_def APP_HEADER_LEN_def)
      then show ?thesis using r1 r3 others
        by (intro exI[of _ FOTA_NO_ERR] exI[of _ "s\<lparr>flash := f3\<rparr>"]) (cases "fw_setup cfg (hd_fota_algo ?h)";
          cases "fw_walk cfg (part_reader cfg p) ?h upgrade_sink (snd (fw_setup cfg (hd_fota_algo ?h))) (s\<lparr>flash := f3\<rparr>)";
          auto simp: eq hd fota_errs Let_def)
    qed
  qed
qed

lemma fota_upgrade_verify_walk:
  assumes "env mem blk devs ps (flash s)" "named ps fm = Some p" "fota_upgrade_verify cfg (Some fm) s = Some (FOTA_NO_ERR, s1)"
    and "fw_setup cfg (hd_fota_algo (rbl_head s)) = (FOTA_NO_ERR, w)"
  shows "\<exists>t. fw_walk cfg (part_reader cfg p) (rbl_head s) (verify_sink (hd_raw_size (rbl_head s))) w s = Some (FOTA_NO_ERR, t, s1) \<and>
    \<not> fst t < hd_raw_size (rbl_head s) \<and> snd t = hd_hash_val (rbl_head s)"
  using assms by (auto simp: fota_upgrade_verify_def env_find Let_def bind_eq_Some_conv fota_errs split: if_split_asm)

text \<open>
  C4: an image that the verification has passed is installed by the upgrade, whatever its
  encryption and compression and however the upgrade's reads and decompressions fall on the
  blocks: the application partition then holds the head of the image and, from offset
  \<open>0x200\<close> on, the code whose hash code is the one in the head, and the check made at every start
  passes. Only that both functions report success is assumed.
\<close>

theorem fota_verified_upgrade_installs:
  assumes "env mem blk devs ps (flash s)" "env mem blk devs ps (flash s')"
    and "named ps fm = Some p" "named ps (APP_PART cfg) = Some q" "APP_PART cfg \<noteq> fm"
    and "fal_content mem p (flash s) = c" "fal_content mem p (flash s') = c"
    and "rbl_head s = head_of c" "rbl_head s' = head_of c" "hd_app_part_name (head_of c) = Some (APP_PART cfg)"
    and "512 \<le> unat (part_len q)" "96 \<le> length c" "malloc_ok cfg 1"
    and "fota_upgrade_verify cfg (Some fm) s = Some (FOTA_NO_ERR, s1)"
    and "fota_upgrade cfg (Some fm) s' = Some (FOTA_NO_ERR, s2)"
  shows "(\<exists>img. fal_content mem q (flash s2) = filled (app_bytes (head_of c) img) (unat (part_len q)) \<and>
      unat (hd_raw_size (head_of c)) \<le> length img \<and> fnv (take (unat (hd_raw_size (head_of c))) img) = hd_hash_val (head_of c)) \<and>
    (\<exists>s3. fota_check_application cfg s2 = Some (FOTA_NO_ERR, s3))"
proof -
  let ?h = "head_of c"
  have ps: "p \<in> set ps" "q \<in> set ps" "p \<noteq> q" using named_in[OF assms(3)] named_in[OF assms(4)] assms(5) by auto
  have lh: "length ?h = sizeof_head" using assms(12) by (simp add: head_of_def sizeof_head_def)
  have m: "malloc_ok cfg 0" using assms(14) by (auto simp: fota_upgrade_verify_def env_find[OF assms(1)] assms(3) fota_errs split: if_split_asm)
  obtain w s0 t where u: "fw_setup cfg (hd_fota_algo ?h) = (FOTA_NO_ERR, w)" "writing mem blk devs ps p q c ?h [] s0"
    "fw_walk cfg (part_reader cfg p) ?h upgrade_sink w s0 = Some (FOTA_NO_ERR, t, s2)" "\<not> fst t < hd_raw_size ?h"
  proof -
    obtain e1 s0 where s0: "e1 \<noteq> FOTA_NO_ERR \<longrightarrow> fota_upgrade cfg (Some fm) s' = Some (e1, s0)"
      "e1 = FOTA_NO_ERR \<longrightarrow> writing mem blk devs ps p q c ?h [] s0 \<and> fota_upgrade cfg (Some fm) s' =
         (let (e, w) = fw_setup cfg (hd_fota_algo ?h)
          in if e \<noteq> FOTA_NO_ERR then Some (e, s0)
             else do {
               (e, t, s) \<leftarrow> fw_walk cfg (part_reader cfg p) ?h upgrade_sink w s0;
               if e \<noteq> FOTA_NO_ERR then Some (e, s)
               else Some (if fst t < hd_raw_size ?h then FOTA_GENERAL_ERR else FOTA_NO_ERR, s) })"
      using fota_upgrade_start[OF assms(2,3,7,9,10,4,5,11,12) m] by blast
    then have "e1 = FOTA_NO_ERR" using assms(15) by auto
    moreover obtain e w where st: "fw_setup cfg (hd_fota_algo ?h) = (e, w)" by (cases "fw_setup cfg (hd_fota_algo ?h)")
    ultimately have "e = FOTA_NO_ERR \<and> (\<exists>t. fw_walk cfg (part_reader cfg p) ?h upgrade_sink w s0 = Some (FOTA_NO_ERR, t, s2) \<and> \<not> fst t < hd_raw_size ?h)"
      using s0(2)[rule_format, OF \<open>e1 = FOTA_NO_ERR\<close>, THEN conjunct2, unfolded assms(15), symmetric]
      by (auto simp: bind_eq_Some_conv fota_errs split: if_split_asm)
    then show ?thesis using s0(2) \<open>e1 = FOTA_NO_ERR\<close> st by (auto intro!: that)
  qed
  obtain tv where v: "fw_walk cfg (part_reader cfg p) ?h (verify_sink (hd_raw_size ?h)) w s = Some (FOTA_NO_ERR, tv, s1)"
    "\<not> fst tv < hd_raw_size ?h" "snd tv = hd_hash_val ?h"
    using fota_upgrade_verify_walk[OF assms(1,3,14), unfolded assms(8), OF u(1)] by blast
  have i: "in_step mem blk devs ps p q c ?h (hd_raw_size ?h) [] s0 (0, FNV_SEED) s (0, FNV_SEED)"
    using u(2) assms(1,6) ps(1) by (simp add: in_step_def hashing_def reads_def fnv_def)
  have "pos_ok w" using fw_setup_pos[of cfg "hd_fota_algo ?h"] u(1) by simp
  from fw_walk_lockstep[OF ps(2,3) lh assms(10,4) this i u(3) v(1)] obtain img where
    img: "in_step mem blk devs ps p q c ?h (hd_raw_size ?h) img s2 t s1 tv" by blast
  then have r: "fal_content mem q (flash s2) = filled (app_bytes ?h img) (unat (part_len q))" "env mem blk devs ps (flash s2)"
    "unat (hd_raw_size ?h) \<le> length img" "fnv (take (unat (hd_raw_size ?h)) img) = hd_hash_val ?h"
    "512 + length img \<le> unat (part_len q)"
    using u(4) v(2,3) by (auto simp: in_step_def writing_def reads_def hashing_def word_less_nat_alt APP_HEADER_LEN_def)
  from fota_check_application_spec[where s = s2, OF r(2) assms(4) m assms(13)] app_ok_installed[OF lh r(3,5,4)] r
  show ?thesis by auto
qed

text \<open>
  at every start the application is run only if the check passes, which it does exactly for
  a partition whose head names a size within the partition and the hash code of the bytes from
  offset \<open>0x200\<close> on; the check changes nothing.
\<close>

lemma fota_check_application_exact:
  assumes "env mem blk devs ps (flash s)" "named ps (APP_PART cfg) = Some q" "malloc_ok cfg 0" "malloc_ok cfg 1"
  shows "\<exists>r s'. fota_check_application cfg s = Some (r, s') \<and> (r = FOTA_NO_ERR \<longleftrightarrow> app_ok (fal_content mem q (flash s))) \<and>
    (\<forall>x \<in> set ps. fal_content mem x (flash s') = fal_content mem x (flash s))"
  using fota_check_application_spec[OF assms] by (auto simp: same_flash_def)

definition vector_ok :: "(u32 \<Rightarrow> u32) \<Rightarrow> u32 \<Rightarrow> bool" where
  "vector_ok word a \<longleftrightarrow> word (a + 4) AND 0xFF000000 = 0x08000000 \<and> word a AND 0x2FF80000 = 0x20000000"

definition app_base :: "fal_partition \<Rightarrow> u32" where
  "app_base q = part_offset q + 0x08000000 + APP_HEADER_LEN"

lemma fota_start_application_spec:
  assumes "env mem blk devs ps (flash s)" "named ps (APP_PART cfg) = Some q"
  shows "fota_start_application cfg word s =
    Some (if vector_ok word (app_base q) then Jump (word (app_base q)) (word (app_base q + 4)) else Returned)"
  using assms by (simp add: fota_start_application_def env_find vector_ok_def app_base_def Let_def)

lemma check_and_start:
  assumes "env mem blk devs ps (flash s)" "named ps (APP_PART cfg) = Some q" "malloc_ok cfg 0" "malloc_ok cfg 1"
  shows "\<exists>e s'. fota_check_application cfg s = Some (e, s') \<and> (e = FOTA_NO_ERR \<longleftrightarrow> app_ok (fal_content mem q (flash s))) \<and>
    env mem blk devs ps (flash s') \<and> same_flash mem ps (flash s) (flash s') \<and>
    fota_start_application cfg word s' =
      Some (if vector_ok word (app_base q) then Jump (word (app_base q)) (word (app_base q + 4)) else Returned)"
  using fota_check_application_spec[OF assms] fota_start_application_spec[OF _ assms(2)] by metis

text \<open>
  C9: the boot loader comes to an end and jumps nowhere but to the entry point of an application
  partition that passes the check at that moment, with a stack pointer in RAM and an entry point
  in flash; if the partition passes it is started and nothing is changed, and otherwise, with the
  rollback, if the copy of the rollback partition succeeds and passes the check, that is started.
\<close>

theorem fota_boots_checked_application:
  assumes "env mem blk devs ps (flash s)" "named ps (APP_PART cfg) = Some q" "malloc_ok cfg 0" "malloc_ok cfg 1"
    and "named ps (ROLLBACK_PART cfg) = Some rb" "ROLLBACK_PART cfg \<noteq> APP_PART cfg"
  shows "\<exists>b s'. boot_entry cfg word s = Some (b, s') \<and>
    (b = Returned \<or> app_ok (fal_content mem q (flash s')) \<and> vector_ok word (app_base q) \<and>
       b = Jump (word (app_base q)) (word (app_base q + 4))) \<and>
    (app_ok (fal_content mem q (flash s)) \<and> vector_ok word (app_base q) \<longrightarrow>
       b \<noteq> Returned \<and> (\<forall>x \<in> set ps. fal_content mem x (flash s') = fal_content mem x (flash s))) \<and>
    (FOTA_ROLLBACK cfg \<and> \<not> app_ok (fal_content mem q (flash s)) \<and> vector_ok word (app_base q) \<longrightarrow>
       b \<noteq> Returned \<or> \<not> app_ok (fal_content mem q (flash s')))"
proof -
  have q: "q \<in> set ps" using named_in[OF assms(2)] by simp
  obtain e s1 where s1: "fota_check_application cfg s = Some (e, s1)" "e = FOTA_NO_ERR \<longleftrightarrow> app_ok (fal_content mem q (flash s))"
    "env mem blk devs ps (flash s1)" "same_flash mem ps (flash s) (flash s1)"
    "fota_start_application cfg word s1 = Some (if vector_ok word (app_base q) then Jump (word (app_base q)) (word (app_base q + 4)) else Returned)"
    using check_and_start[OF assms(1-4)] by blast
  have c1: "fal_content mem q (flash s1) = fal_content mem q (flash s)" using s1(4) q by (simp add: same_flash_def)
  obtain e2 s2 where s2: "fota_rollback_copy cfg (APP_PART cfg) (ROLLBACK_PART cfg) s1 = Some (e2, s2)" "env mem blk devs ps (flash s2)"
    using rollback_copy_spec[OF s1(3) assms(5,2,6)] by blast
  obtain e3 s3 where s3: "fota_check_application cfg s2 = Some (e3, s3)" "e3 = FOTA_NO_ERR \<longleftrightarrow> app_ok (fal_content mem q (flash s2))"
    "env mem blk devs ps (flash s3)" "same_flash mem ps (flash s2) (flash s3)"
    "fota_start_application cfg word s3 = Some (if vector_ok word (app_base q) then Jump (word (app_base q)) (word (app_base q + 4)) else Returned)"
    using check_and_start[OF s2(2) assms(2-4)] by blast
  have c3: "fal_content mem q (flash s3) = fal_content mem q (flash s2)" using s3(4) q by (simp add: same_flash_def)
  have rb: "rollback_entry cfg word s1 = Some (if e3 = FOTA_NO_ERR \<and> vector_ok word (app_base q)
      then Jump (word (app_base q)) (word (app_base q + 4)) else Returned, s3)"
    using s2(1) s3(1,5) by (auto simp: rollback_entry_def)
  have b: "boot_entry cfg word s = (if e = FOTA_NO_ERR \<and> vector_ok word (app_base q)
      then Some (Jump (word (app_base q)) (word (app_base q + 4)), s1)
      else if FOTA_ROLLBACK cfg then rollback_entry cfg word s1 else Some (Returned, s1))"
    using s1(1,5) by (auto simp: boot_entry_def)
  show ?thesis
  proof (cases "e = FOTA_NO_ERR \<and> vector_ok word (app_base q)")
    case True
    then show ?thesis using b s1(2,4) c1 by (simp add: same_flash_def)
  next
    case False
    then show ?thesis
      using b rb s1(2) s3(2) c3 by (cases "FOTA_ROLLBACK cfg"; cases "e3 = FOTA_NO_ERR"; auto)
  qed
qed

section \<open>An update is not repeated\<close>

lemma cstr_append:
  assumes "0 \<in> set (drop i xs)"
  shows "cstr (xs @ ys) i = cstr xs i"
proof -
  have "i \<le> length xs" using assms by (cases "i \<le> length xs") auto
  then have "drop i (xs @ ys) = drop i xs @ ys" by simp
  then show ?thesis using assms by (simp add: cstr_def takeWhile_append1[of 0])
qed

text \<open>The head in its parts: up to the two version strings, the fields behind them, the checksum.\<close>

lemma head_parts:
  assumes "96 \<le> length c"
  obtains a v w b k r where "c = a @ v @ w @ b @ k @ r" "length a = 28" "length v = 24" "length w = 24"
    "length b = 16" "length k = 4"
proof
  show "c = take 28 c @ take 24 (drop 28 c) @ take 24 (drop 52 c) @ take 16 (drop 76 c) @ take 4 (drop 92 c) @ drop 96 c"
    by (simp add: append_take_drop_id flip: take_add append_assoc)
qed (use assms in simp_all)

lemma blit_append: "length xs = length ys \<Longrightarrow> blit (a @ xs @ b) (length a) ys = a @ ys @ b"
  by (simp add: blit_def)

lemma marked_head_parts:
  assumes "length a = 28" "length v = 24" "length w = 24" "length b = 16" "length k = 4"
  shows "marked_head (crc32_init POLYNOMIAL) (a @ v @ w @ b @ k @ r) =
    Some (a @ v @ v @ b @ put_le32 (crc32_of (a @ v @ v @ b)) @ r)"
proof -
  have v: "rd_blk (a @ v @ w @ b @ k @ r) 28 24 = Some v" using assms by (simp add: rd_blk_def)
  have w: "wr_blk (a @ v @ w @ b @ k @ r) 52 v = Some (a @ v @ v @ b @ k @ r)"
    using blit_append[of w v "a @ v" "b @ k @ r"] assms by (simp add: wr_blk_def)
  have c: "fota_crc (crc32_init POLYNOMIAL) (a @ v @ v @ b @ k @ r) (of_nat sizeof_head - 4) = Some (crc32_of (a @ v @ v @ b))"
    using assms by (simp add: fota_crc_def rd_blk_def crc32_ref bitrev_POLYNOMIAL crc32_of_def sizeof_head_def)
  have "wr_blk (a @ v @ v @ b @ k @ r) 92 (put_le32 x) = Some (a @ v @ v @ b @ put_le32 x @ r)" for x
    using blit_append[of k "put_le32 x" "a @ v @ v @ b" r] assms by (simp add: wr_blk_def put_le32_def)
  then show ?thesis by (simp add: marked_head_def v w c)
qed

lemma marked_image:
  assumes ok: "image_ok ps (a @ v @ w @ b @ k @ r)" and l: "length a = 28" "length v = 24" "length w = 24" "length b = 16" "length k = 4"
    and v: "0 \<in> set v"
  defines "c' \<equiv> a @ v @ v @ b @ put_le32 (crc32_of (a @ v @ v @ b)) @ r"
  shows "image_ok ps c'" "hd_download_version (head_of c') = hd_current_version (head_of c')" "hd_download_version (head_of c') \<noteq> None"
proof -
  let ?k = "put_le32 (crc32_of (a @ v @ v @ b))"
  have lk: "length ?k = 4" by (simp add: put_le32_def)
  have h: "head_of (a @ v @ w @ b @ k @ r) = a @ v @ w @ b @ k" "head_of c' = a @ v @ v @ b @ ?k"
    using l lk by (simp_all add: head_of_def sizeof_head_def c'_def)
  have f: "hd_com_size (a @ v @ x @ b @ y) = le32 (b @ y) 12" "hd_code_crc (a @ v @ x @ b @ y) = le32 (b @ y) 0"
    "hd_is_RBL (a @ v @ x @ b @ y) = (take 4 a = [0x52, 0x42, 0x4C, 0])" if "length x = 24" for x y
    using l that le32_append[of "a @ v @ x"] by (simp_all add: hd_com_size_def hd_code_crc_def hd_is_RBL_def)
  have f': "le32 (b @ y) 12 = le32 b 12" "le32 (b @ y) 0 = le32 b 0" for y
    using l by (simp_all add: le32_def nth_append)
  have crc: "hd_head_crc (a @ v @ v @ b @ ?k) = crc32_of (a @ v @ v @ b)"
    using l le32_append[of "a @ v @ v @ b" 92 ?k] le32_put[of _ "[]"] by (simp add: hd_head_crc_def)
  have s: "cstr (a @ v @ y) i = cstr (a @ v) i" if "i \<le> 28" for y i
    using that l v cstr_append[of i "a @ v" y] by simp
  have body: "window sizeof_head n c' = window sizeof_head n (a @ v @ w @ b @ k @ r)" for n
    using l lk by (simp add: window_def sizeof_head_def c'_def)
  have len: "length c' = length (a @ v @ w @ b @ k @ r)" using l lk by (simp add: c'_def)
  have t92: "take 92 (a @ v @ v @ b @ ?k) = a @ v @ v @ b" using l by simp
  show "image_ok ps c'"
    using ok unfolding image_ok_def Let_def h body len
    by (simp only: t92 crc f[OF l(2)] f[OF l(3)] f' hd_app_part_name_def s)
  have d: "hd_download_version (head_of c') = cstr (a @ v) 28" unfolding h hd_download_version_def by (simp only: s)
  have c: "hd_current_version (head_of c') = cstr (a @ v @ v) 52"
    using cstr_append[of 52 "a @ v @ v" "b @ ?k"] l v unfolding h hd_current_version_def by simp
  show "hd_download_version (head_of c') = hd_current_version (head_of c')" "hd_download_version (head_of c') \<noteq> None"
    using l v by (simp_all add: d c cstr_def)
qed

lemma nor_rewrite:
  assumes "length bs \<le> length m"
  shows "nor_write 0 bs (nor_erase 0 (length bs) m) = bs @ drop (length bs) m"
  using assms nor_write_FF[of "[]" 0 bs "length bs"] by (simp add: nor_write_def nor_erase_def blit_def map2_and_FF zip_append2)

lemma copy_version_spec:
  assumes "env mem blk devs ps (flash s)" "named ps fm = Some p" "malloc_ok cfg 0" "crc_tab s = crc32_init POLYNOMIAL"
    and "image_ok ps (fal_content mem p (flash s))" "0 \<in> set (take 24 (drop 28 (fal_content mem p (flash s))))"
    and "4096 \<le> unat (part_len p)" "blk dvd 4096"
  shows "\<exists>e s'. fota_copy_version cfg fm s = Some (e, s') \<and> env mem blk devs ps (flash s') \<and>
    (\<forall>x \<in> set ps. x \<noteq> p \<longrightarrow> fal_content mem x (flash s') = fal_content mem x (flash s)) \<and>
    (reliable mem devs \<longrightarrow> e = FOTA_NO_ERR) \<and>
    (e = FOTA_NO_ERR \<longrightarrow> image_ok ps (fal_content mem p (flash s')) \<and>
       fota_check_upgrade (s'\<lparr>rbl_head := head_of (fal_content mem p (flash s'))\<rparr>) = Some 0)"
proof -
  let ?c = "fal_content mem p (flash s)"
  have p: "p \<in> set ps" using named_in[OF assms(2)] by simp
  have l: "length ?c = unat (part_len p)" by (rule env_part(4)[OF assms(1) p])
  have "96 \<le> length ?c" using l assms(7) by simp
  then obtain a v w b k r where c: "?c = a @ v @ w @ b @ k @ r" and len: "length a = 28" "length v = 24" "length w = 24"
    "length b = 16" "length k = 4" by (rule head_parts)
  have v: "0 \<in> set v" using assms(6) len by (simp add: c)
  have r4: "length r \<ge> 4000" using l assms(7) len by (simp add: c)
  define m where "m = a @ v @ v @ b @ put_le32 (crc32_of (a @ v @ v @ b)) @ take 4000 r"
  have lm: "length m = 4096" using len r4 by (simp add: m_def put_le32_def)
  obtain f1 where f1: "fal_partition_read p 0 4096 (flash s) = Some (4096, take 4096 ?c, f1)" "env mem blk devs ps f1" "same_flash mem ps (flash s) f1"
    using env_read[OF assms(1) p, of 0 4096] assms(7) by (auto simp: window_def)
  have "take 4096 ?c = a @ v @ w @ b @ k @ take 4000 r" using len by (simp add: c)
  then have mk: "marked_head (crc32_init POLYNOMIAL) (take 4096 ?c) = Some m"
    by (simp only: marked_head_parts[OF len] m_def)
  obtain e2 f2 where f2: "fal_partition_erase p 0 4096 f1 = Some (e2, f2)" "env mem blk devs ps f2"
    "erase_effect 0 4096 e2 (fal_content mem p f1) (fal_content mem p f2)"
    "\<forall>x \<in> set ps. x \<noteq> p \<longrightarrow> fal_content mem x f2 = fal_content mem x f1"
    using env_erase[OF f1(2) p, of 0 4096] assms(7,8) by auto
  obtain e3 f3 where f3: "fal_partition_write p 0 m f2 = Some (e3, f3)" "env mem blk devs ps f3"
    "write_effect 0 m e3 (fal_content mem p f2) (fal_content mem p f3)"
    "\<forall>x \<in> set ps. x \<noteq> p \<longrightarrow> fal_content mem x f3 = fal_content mem x f2"
    using env_write[OF f2(2) p, of 0 m] assms(7) lm by auto
  have run: "fota_copy_version cfg fm s = Some (if e2 < 0 then FOTA_PART_ERASE_ERR else if e3 < 0 then FOTA_PART_WRITE_ERR else FOTA_NO_ERR,
      s\<lparr>flash := if e2 < 0 then f2 else f3\<rparr>)"
    using f1(1) f2(1) f3(1) mk
    by (simp add: fota_copy_version_def env_find[OF assms(1)] assms(2,3,4) THE_NOR_FLASH_GRANULARITY_def)
  have others: "\<forall>x \<in> set ps. x \<noteq> p \<longrightarrow> fal_content mem x f3 = fal_content mem x (flash s)"
    "\<forall>x \<in> set ps. x \<noteq> p \<longrightarrow> fal_content mem x f2 = fal_content mem x (flash s)"
    using f1(3) f2(4) f3(4) by (simp_all add: same_flash_def)
  have rel: "reliable mem devs \<Longrightarrow> \<not> (e2 < 0 \<or> e3 < 0)"
    using reliable_erase[OF _ f1(2) p _ _ _ f2(1)] reliable_write[OF _ f2(2) p _ f3(1)] assms(7,8) lm by (simp add: linorder_not_less)
  show ?thesis
  proof (cases "e2 < 0 \<or> e3 < 0")
    case True
    then show ?thesis using run f2(2) f3(2) others rel by (auto simp: fota_errs)
  next
    case False
    have "fal_content mem p f1 = ?c" using f1(3) p by (simp add: same_flash_def)
    then have "fal_content mem p f3 = m @ drop 4096 ?c"
      using f2(3) f3(3) False nor_rewrite[of m ?c] lm l assms(7) by (simp add: erase_effect_def write_effect_def)
    also have "\<dots> = a @ v @ v @ b @ put_le32 (crc32_of (a @ v @ v @ b)) @ r"
      using len by (simp add: m_def c)
    finally have "fal_content mem p f3 = a @ v @ v @ b @ put_le32 (crc32_of (a @ v @ v @ b)) @ r" .
    with marked_image[OF assms(5)[unfolded c] len v] have
      "image_ok ps (fal_content mem p f3)" "hd_download_version (head_of (fal_content mem p f3)) = hd_current_version (head_of (fal_content mem p f3))"
      "hd_download_version (head_of (fal_content mem p f3)) \<noteq> None" by simp_all
    then show ?thesis using run False f3(2) others by (auto simp: fota_check_upgrade_def)
  qed
qed

text \<open>
  C30: when the version mark has been written, the image in the download partition is still
  accepted, but its two version strings are equal, so that the next start does not install it
  again; no other partition changes. The downloaded version must be ended by a NUL in its field.
\<close>

theorem fota_copy_version_marks:
  assumes "env mem blk devs ps (flash s)" "named ps fm = Some p" "malloc_ok cfg 0" "crc_tab s = crc32_init POLYNOMIAL"
    and "image_ok ps (fal_content mem p (flash s))" "0 \<in> set (take 24 (drop 28 (fal_content mem p (flash s))))"
    and "4096 \<le> unat (part_len p)" "blk dvd 4096"
  shows "\<exists>e s'. fota_copy_version cfg fm s = Some (e, s') \<and> env mem blk devs ps (flash s') \<and>
    (\<forall>x \<in> set ps. x \<noteq> p \<longrightarrow> fal_content mem x (flash s') = fal_content mem x (flash s)) \<and>
    (e = FOTA_NO_ERR \<longrightarrow> image_ok ps (fal_content mem p (flash s')) \<and>
       fota_check_upgrade (s'\<lparr>rbl_head := head_of (fal_content mem p (flash s'))\<rparr>) = Some 0)"
  using copy_version_spec[OF assms] by blast


lemma fota_verify_unknown_partition:
  assumes "env mem blk devs ps (flash s)" "named ps name = None"
  shows "fota_part_fw_verify cfg (Some name) s = None"
  using assms by (simp add: fota_part_fw_verify_def env_find)

end
