(* ===== verification/Fota_Live.thy ===== *)
theory Fota_Live
  imports Fota_Proofs
begin

text \<open>
  That an update happens: on a flash whose writes and erases succeed, an image that is neither
  encrypted nor compressed is installed and the application it holds is the one that starts.
\<close>

section \<open>Walking through a plain image\<close>

definition blocks :: "nat \<Rightarrow> nat" where
  "blocks n = 4096 * ((n + 4095) div 4096)"

lemma body_end_blocks: "body_end n = sizeof_head + blocks n"
  by (simp add: body_end_def blocks_def)

lemma blocks_ge: "n \<le> blocks n"
  unfolding blocks_def using mult_div_mod_eq[of 4096 "n + 4095"] mod_less_divisor[of 4096 "n + 4095"] by linarith

lemma blocks_eq: "4096 dvd pos \<Longrightarrow> n \<le> pos \<Longrightarrow> pos \<le> blocks n \<Longrightarrow> pos = blocks n"
  unfolding blocks_def using div_le_mono[of "n + 4095" "pos + 4095" 4096] by (elim dvdE) simp

lemma blocks_step: "4096 dvd pos \<Longrightarrow> pos < n \<Longrightarrow> pos + 4096 \<le> blocks n"
  using body_end_block[of pos n] by (simp add: body_end_blocks)

lemma refill_plain:
  assumes r: "reads mem blk devs ps p c s" and iv: "aes_iv w = None" and pos: "sizeof_head + unat (fw_raw_pos w) + 4096 \<le> length c"
  shows "\<exists>s'. refill (part_reader cfg p) w s = Some (FOTA_NO_ERR,
      w\<lparr>fw_raw_len := 4096, crypt_buf := window (sizeof_head + unat (fw_raw_pos w)) 4096 c, fw_raw_pos := fw_raw_pos w + 4096\<rparr>, s') \<and>
    reads mem blk devs ps p c s' \<and> same_fota mem ps s s'"
proof -
  have small: "unat (fw_raw_pos w) \<le> 2 ^ 30" using reads_length[OF r] pos by simp
  from part_reader_content[OF r small, of cfg "aes_iv w"] obtain s' where s':
    "part_reader cfg p (fw_raw_pos w) None s = Some ((4096, window (sizeof_head + unat (fw_raw_pos w)) 4096 c, None), s')"
    "reads mem blk devs ps p c s'" "same_fota mem ps s s'"
    using pos iv by (auto simp: content_reader_def)
  then show ?thesis using iv by (simp add: refill_def)
qed

lemma fw_loop_plain:
  fixes com :: u32
  assumes plain: "\<not> cmprs_on algo"
    and sink: "\<And>img t s buf. J img t s \<Longrightarrow> length buf = 4096 \<Longrightarrow> 512 + length img + 4096 \<le> lim \<Longrightarrow>
      \<exists>t' s'. sink buf 4096 t s = Some (FOTA_NO_ERR, t', s') \<and> J (img @ buf) t' s'"
    and rd: "\<And>img t s. J img t s \<Longrightarrow> reads mem blk devs ps p c s"
    and same: "\<And>img t s s'. J img t s \<Longrightarrow> reads mem blk devs ps p c s' \<Longrightarrow> same_fota mem ps s s' \<Longrightarrow> J img t s'"
    and len: "sizeof_head + blocks (unat com) \<le> length c" "512 + blocks (unat com) \<le> lim"
  shows "aes_iv w = None \<Longrightarrow> 4096 dvd unat (fw_raw_pos w) \<Longrightarrow> unat (fw_raw_pos w) \<le> blocks (unat com) \<Longrightarrow>
    J (window sizeof_head (unat (fw_raw_pos w)) c) t s \<Longrightarrow>
    \<exists>t' sizes' w' s'. fw_loop cfg (part_reader cfg p) algo com sink sizes t w s = Some (FOTA_NO_ERR, t', sizes', w', s') \<and>
      J (window sizeof_head (blocks (unat com)) c) t' s'"
proof (induction "blocks (unat com) - unat (fw_raw_pos w)" arbitrary: sizes t w s rule: less_induct)
  case less
  show ?case
  proof (cases "fw_raw_pos w < com")
    case False
    then have "unat (fw_raw_pos w) = blocks (unat com)"
      using less.prems(2,3) by (intro blocks_eq) (simp_all add: word_less_nat_alt)
    with False less.prems(4) show ?thesis by (subst fw_loop.simps) simp
  next
    case True
    let ?pos = "unat (fw_raw_pos w)"
    have next_pos: "?pos + 4096 \<le> blocks (unat com)"
      using True less.prems(2) by (intro blocks_step) (simp_all add: word_less_nat_alt)
    then have fits: "sizeof_head + ?pos + 4096 \<le> length c" using len(1) by simp
    note r = rd[OF less.prems(4)]
    have p4: "unat (fw_raw_pos w + 4096) = ?pos + 4096" using reads_length[OF r] fits by (simp add: unat_word_ariths)
    obtain s1 where s1: "refill (part_reader cfg p) w s = Some (FOTA_NO_ERR,
        w\<lparr>fw_raw_len := 4096, crypt_buf := window (sizeof_head + ?pos) 4096 c, fw_raw_pos := fw_raw_pos w + 4096\<rparr>, s1)"
      "reads mem blk devs ps p c s1" "same_fota mem ps s s1"
      using refill_plain[OF r less.prems(1) fits] by blast
    let ?buf = "window (sizeof_head + ?pos) 4096 c"
    let ?w = "w\<lparr>fw_raw_len := 4096, crypt_buf := ?buf, fw_raw_pos := fw_raw_pos w + 4096\<rparr>"
    have lb: "length ?buf = 4096" using fits by simp
    have li: "length (window sizeof_head ?pos c) = ?pos" using fits by simp
    note J1 = same[OF less.prems(4) s1(2,3)]
    have "512 + length (window sizeof_head ?pos c) + 4096 \<le> lim" using next_pos len(2) li by simp
    from sink[OF J1 lb this] obtain t' s2 where s2: "sink ?buf 4096 t s1 = Some (FOTA_NO_ERR, t', s2)"
      "J (window sizeof_head ?pos c @ ?buf) t' s2" by blast
    have step: "fw_loop cfg (part_reader cfg p) algo com sink sizes t w s = fw_loop cfg (part_reader cfg p) algo com sink sizes t' ?w s2"
      using True plain s1(1) s2(1) by (subst fw_loop.simps) (simp add: fw_piece_def)
    have "J (window sizeof_head (unat (fw_raw_pos ?w)) c) t' s2" using s2(2) by (simp add: p4 flip: window_split)
    with less.hyps[of ?w t' s2 sizes] less.prems(1,2) next_pos step show ?thesis by (simp add: p4)
  qed
qed

lemma verify_sink_ok:
  assumes "reads mem blk devs ps p c s" "hashing raw img t" "length buf = 4096" "length img \<le> 2 ^ 30"
  shows "\<exists>t'. verify_sink raw buf 4096 t s = Some (FOTA_NO_ERR, t', s) \<and> hashing raw (img @ buf) t'"
proof -
  define n where "n = (if fst t + 4096 > raw then raw - fst t else 4096)"
  have t: "unat (fst t) \<le> 2 ^ 30" "unat (fst t) \<le> unat raw" using assms(2,4) by (simp_all add: hashing_def)
  have "unat (fst t + 4096) = unat (fst t) + 4096" using t by (simp add: unat_word_ariths)
  then have "unat n \<le> 4096"
    using t(2) unat_sub_le[of "fst t" raw] by (auto simp: n_def word_less_nat_alt word_le_nat_alt)
  then obtain h where "fota_calc_hash_code buf n (snd t) = Some h"
    using assms(3) by (simp add: fota_calc_hash_code_def rd_blk_def)
  then have v: "verify_sink raw buf 4096 t s = Some (FOTA_NO_ERR, (fst t + n, h), s)"
    by (simp add: verify_sink_def n_def[symmetric] Let_def)
  from verify_sink_step[OF assms(2,4,3) _ this] assms(3) v show ?thesis by simp
qed

lemma upgrade_sink_ok:
  assumes w: "writing mem blk devs ps p q c h img s" and q: "q \<in> set ps" "p \<noteq> q" and h: "length h = sizeof_head"
    and app: "hd_app_part_name h = Some app" "named ps app = Some q" and t: "unat (fst t) = length img"
    and r: "reliable mem devs" and b: "length buf = 4096" and fits: "512 + length img + 4096 \<le> unat (part_len q)"
  shows "\<exists>t' s'. upgrade_sink buf 4096 t s = Some (FOTA_NO_ERR, t', s') \<and> writing mem blk devs ps p q c h (img @ buf) s' \<and>
    unat (fst t') = length (img @ buf)"
proof -
  have e: "env mem blk devs ps (flash s)" and hd: "rbl_head s = h" using w by (simp_all add: writing_def reads_def)
  have a: "unat (fst t + APP_HEADER_LEN) = 512 + length img"
    using t writing_length[OF w q(1)] by (simp add: APP_HEADER_LEN_def unat_word_ariths)
  have f: "unat (fst t + APP_HEADER_LEN) + length buf \<le> unat (part_len q)" using fits b by (simp add: a)
  obtain x f' where f': "fal_partition_write q (fst t + APP_HEADER_LEN) buf (flash s) = Some (x, f')"
    using env_write[OF e q(1) f] by blast
  have x: "x \<ge> 0" by (rule reliable_write[OF r e q(1) f f'])
  have "fota_write_app_part (fst t + APP_HEADER_LEN) buf 4096 s = Some (FOTA_NO_ERR, s\<lparr>flash := f'\<rparr>)"
    using f' x b by (simp add: fota_write_app_part_def hd app env_find[OF e] rd_blk_def)
  then have u: "upgrade_sink buf 4096 t s = Some (FOTA_NO_ERR, (fst t + 4096, snd t), s\<lparr>flash := f'\<rparr>)"
    by (simp add: upgrade_sink_def fota_errs)
  from upgrade_sink_step[OF w q h app t b u] u b show ?thesis by simp
qed

lemma fw_setup_plain:
  assumes "algo AND FOTA_CRYPT_STAT_MASK = 0" "algo AND FOTA_CMPRS_STAT_MASK = 0"
  shows "\<exists>w. fw_setup cfg algo = (FOTA_NO_ERR, w) \<and> aes_iv w = None \<and> fw_raw_pos w = 0"
  using assms by (simp add: fw_setup_def Let_def FOTA_CRYPT_ALGO_AES256_def FOTA_CRYPT_ALGO_XOR_def
      FOTA_CMPRS_ALGO_FASTLZ_def FOTA_CMPRS_ALGO_QUICKLZ_def FOTA_CMPRS_ALGO_GZIP_def)

lemma window_0 [simp]: "window a 0 c = []"
  by (simp add: window_def)

lemma plain_verify:
  assumes e: "env mem blk devs ps (flash s)" and p: "named ps fm = Some p" and c: "fal_content mem p (flash s) = c"
    and h: "rbl_head s = head_of c" and m: "malloc_ok cfg 0"
    and plain: "hd_fota_algo (head_of c) AND FOTA_CRYPT_STAT_MASK = 0" "hd_fota_algo (head_of c) AND FOTA_CMPRS_STAT_MASK = 0"
    and len: "sizeof_head + blocks (unat (hd_com_size (head_of c))) \<le> length c"
    and raw: "hd_raw_size (head_of c) \<le> hd_com_size (head_of c)"
    and fnv: "fnv (window sizeof_head (unat (hd_raw_size (head_of c))) c) = hd_hash_val (head_of c)"
  shows "\<exists>s'. fota_upgrade_verify cfg (Some fm) s = Some (FOTA_NO_ERR, s') \<and> env mem blk devs ps (flash s') \<and>
    same_fota mem ps s s'"
proof -
  let ?h = "head_of c" and ?com = "hd_com_size (head_of c)" and ?raw = "hd_raw_size (head_of c)"
  have ps: "p \<in> set ps" using named_in[OF p] by simp
  have r: "reads mem blk devs ps p c s" using e ps c by (simp add: reads_def)
  obtain w where w: "fw_setup cfg (hd_fota_algo ?h) = (FOTA_NO_ERR, w)" "aes_iv w = None" "fw_raw_pos w = 0"
    using fw_setup_plain[OF plain] by blast
  have cm: "\<not> cmprs_on (hd_fota_algo ?h)" using plain(2) by (simp add: cmprs_on_def)
  let ?J = "\<lambda>img t s1. reads mem blk devs ps p c s1 \<and> hashing ?raw img t \<and> same_fota mem ps s s1"
  have bl: "blocks (unat ?com) \<le> 2 ^ 30" using reads_length[OF r] len by simp
  have "\<exists>t' sizes' w' s'. fw_loop cfg (part_reader cfg p) (hd_fota_algo ?h) ?com (verify_sink ?raw) (0, 0) (0, FNV_SEED) w s
      = Some (FOTA_NO_ERR, t', sizes', w', s') \<and> ?J (window sizeof_head (blocks (unat ?com)) c) t' s'"
  proof (rule fw_loop_plain[where J = ?J and lim = "512 + blocks (unat ?com)", OF cm _ _ _ len])
    fix img t s1 and buf :: "u8 list" assume "?J img t s1" "length buf = 4096" "512 + length img + 4096 \<le> 512 + blocks (unat ?com)"
    then show "\<exists>t' s'. verify_sink ?raw buf 4096 t s1 = Some (FOTA_NO_ERR, t', s') \<and> ?J (img @ buf) t' s'"
      using verify_sink_ok[of mem blk devs ps p c s1 ?raw img t buf] bl by auto
  next
    fix img t s1 s2 assume "?J img t s1" "reads mem blk devs ps p c s2" "same_fota mem ps s1 s2"
    then show "?J img t s2" by (auto simp: same_fota_def intro: same_flash_trans)
  qed (use r w in \<open>simp_all add: hashing_def fnv_def reads_refl\<close>)
  then obtain t' sizes' w' s' where l: "fw_loop cfg (part_reader cfg p) (hd_fota_algo ?h) ?com (verify_sink ?raw) (0, 0) (0, FNV_SEED) w s
      = Some (FOTA_NO_ERR, t', sizes', w', s')" and J: "?J (window sizeof_head (blocks (unat ?com)) c) t' s'" by blast
  have rc: "unat ?raw \<le> blocks (unat ?com)" using raw blocks_ge[of "unat ?com"] by (simp add: word_le_nat_alt)
  have "take (unat ?raw) (window sizeof_head (blocks (unat ?com)) c) = window sizeof_head (unat ?raw) c"
    using rc by (simp add: window_def min_def)
  then have "unat (fst t') = unat ?raw" "snd t' = hd_hash_val ?h"
    using J rc len fnv by (simp_all add: hashing_def)
  moreover have "fw_walk cfg (part_reader cfg p) ?h (verify_sink ?raw) w s = Some (FOTA_NO_ERR, t', s')"
    using l cm by (simp add: fw_walk_def)
  ultimately show ?thesis
    using J w(1) m by (simp add: fota_upgrade_verify_def env_find[OF e] p h Let_def reads_def word_less_nat_alt)
qed

lemma upgrade_sink_crc_tab:
  "upgrade_sink buf n t s = Some (e, t', s') \<Longrightarrow> crc_tab s' = crc_tab s"
  by (auto simp: upgrade_sink_def fota_write_app_part_def bind_eq_Some_conv split: if_split_asm option.split_asm)

lemma plain_upgrade:
  assumes e: "env mem blk devs ps (flash s)" and p: "named ps fm = Some p" and c: "fal_content mem p (flash s) = c"
    and h: "rbl_head s = head_of c" and m: "malloc_ok cfg 0" and rel: "reliable mem devs"
    and app: "hd_app_part_name (head_of c) = Some app" "named ps app = Some q" and ne: "app \<noteq> fm"
    and plain: "hd_fota_algo (head_of c) AND FOTA_CRYPT_STAT_MASK = 0" "hd_fota_algo (head_of c) AND FOTA_CMPRS_STAT_MASK = 0"
    and len: "sizeof_head + blocks (unat (hd_com_size (head_of c))) \<le> length c"
    and fits: "512 + blocks (unat (hd_com_size (head_of c))) \<le> unat (part_len q)"
    and raw: "hd_raw_size (head_of c) \<le> hd_com_size (head_of c)"
  shows "\<exists>s'. fota_upgrade cfg (Some fm) s = Some (FOTA_NO_ERR, s') \<and> crc_tab s' = crc_tab s \<and>
    writing mem blk devs ps p q c (head_of c) (window sizeof_head (blocks (unat (hd_com_size (head_of c)))) c) s'"
proof -
  let ?h = "head_of c" and ?com = "hd_com_size (head_of c)" and ?raw = "hd_raw_size (head_of c)"
  have ps: "q \<in> set ps" "p \<noteq> q" using named_in[OF p] named_in[OF app(2)] ne by auto
  have c96: "96 \<le> length c" and q512: "512 \<le> unat (part_len q)" using len fits by (simp_all add: sizeof_head_def)
  have lh: "length ?h = sizeof_head" using c96 by (simp add: head_of_def sizeof_head_def)
  obtain w where w: "fw_setup cfg (hd_fota_algo ?h) = (FOTA_NO_ERR, w)" "aes_iv w = None" "fw_raw_pos w = 0"
    using fw_setup_plain[OF plain] by blast
  have cm: "\<not> cmprs_on (hd_fota_algo ?h)" using plain(2) by (simp add: cmprs_on_def)
  obtain s1 where s1: "writing mem blk devs ps p q c ?h [] s1" "crc_tab s1 = crc_tab s"
    "fota_upgrade cfg (Some fm) s = do {
       (e, t, s) \<leftarrow> fw_walk cfg (part_reader cfg p) ?h upgrade_sink w s1;
       if e \<noteq> FOTA_NO_ERR then Some (e, s) else Some (if fst t < ?raw then FOTA_GENERAL_ERR else FOTA_NO_ERR, s) }"
    using fota_upgrade_start[OF e p c h app ne q512 c96 m] rel w(1) by auto
  let ?J = "\<lambda>img (t :: u32 \<times> u32) s2. writing mem blk devs ps p q c ?h img s2 \<and> unat (fst t) = length img \<and> crc_tab s2 = crc_tab s"
  have "\<exists>t' sizes' w' s'. fw_loop cfg (part_reader cfg p) (hd_fota_algo ?h) ?com upgrade_sink (0, 0) (0, FNV_SEED) w s1
      = Some (FOTA_NO_ERR, t', sizes', w', s') \<and> ?J (window sizeof_head (blocks (unat ?com)) c) t' s'"
  proof (rule fw_loop_plain[where J = ?J and lim = "unat (part_len q)", OF cm _ _ _ len fits])
    fix img s2 and t :: "u32 \<times> u32" and buf :: "u8 list" assume J: "?J img t s2" and b: "length buf = 4096" and f: "512 + length img + 4096 \<le> unat (part_len q)"
    from upgrade_sink_ok[OF _ ps lh app _ rel b f] J obtain t' s' where
      u: "upgrade_sink buf 4096 t s2 = Some (FOTA_NO_ERR, t', s')" "writing mem blk devs ps p q c ?h (img @ buf) s'" "unat (fst t') = length (img @ buf)" by blast
    from upgrade_sink_crc_tab[OF u(1)] J u show "\<exists>t' s'. upgrade_sink buf 4096 t s2 = Some (FOTA_NO_ERR, t', s') \<and> ?J (img @ buf) t' s'"
      by simp
  next
    fix img s2 s3 and t :: "u32 \<times> u32" assume "?J img t s2" "reads mem blk devs ps p c s3" "same_fota mem ps s2 s3"
    moreover from this have "writing mem blk devs ps p q c ?h img s3" using writing_same[OF _ _ _ ps(1)] by blast
    ultimately show "?J img t s3" by (simp add: same_fota_def)
  qed (use s1 w in \<open>simp_all add: writing_def\<close>)
  then obtain t' sizes' w' s' where l: "fw_loop cfg (part_reader cfg p) (hd_fota_algo ?h) ?com upgrade_sink (0, 0) (0, FNV_SEED) w s1
      = Some (FOTA_NO_ERR, t', sizes', w', s')" and J: "?J (window sizeof_head (blocks (unat ?com)) c) t' s'" by blast
  have "fw_walk cfg (part_reader cfg p) ?h upgrade_sink w s1 = Some (FOTA_NO_ERR, t', s')"
    using l cm by (simp add: fw_walk_def)
  moreover have "\<not> fst t' < ?raw"
    using J len raw blocks_ge[of "unat ?com"] by (simp add: word_less_nat_alt word_le_nat_alt)
  ultimately show ?thesis using J s1(3) by simp
qed

section \<open>An update from start to end\<close>

text \<open>A plain image for the application partition \<open>q\<close> that is complete, right and new.\<close>

definition new_plain_image :: "'z fota_cfg \<Rightarrow> fal_partition list \<Rightarrow> fal_partition \<Rightarrow> u8 list \<Rightarrow> bool" where
  "new_plain_image cfg ps q c \<longleftrightarrow> (let h = head_of c in image_ok ps c \<and> hd_app_part_name h = Some (APP_PART cfg) \<and>
     hd_fota_algo h AND FOTA_CRYPT_STAT_MASK = 0 \<and> hd_fota_algo h AND FOTA_CMPRS_STAT_MASK = 0 \<and>
     hd_raw_size h \<le> hd_com_size h \<and> fnv (window sizeof_head (unat (hd_raw_size h)) c) = hd_hash_val h \<and>
     512 + blocks (unat (hd_com_size h)) \<le> unat (part_len q) \<and>
     0 \<in> set (take 24 (drop 28 c)) \<and> hd_current_version h \<noteq> None \<and> hd_download_version h \<noteq> hd_current_version h)"

lemma cstr_ended: "0 \<in> set (take n (drop i h)) \<Longrightarrow> cstr h i \<noteq> None"
  by (auto simp: cstr_def dest: in_set_takeD)

text \<open>Keeping the old application for a rollback, where it is configured, leaves the download partition as it is.\<close>

lemma keep_old:
  assumes e: "env mem blk devs ps (flash s)" and p: "named ps (FM_PART cfg) = Some p" and q: "named ps (APP_PART cfg) = Some q"
    and rb: "FOTA_ROLLBACK cfg \<Longrightarrow> (\<exists>r. named ps (ROLLBACK_PART cfg) = Some r) \<and>
      ROLLBACK_PART cfg \<noteq> APP_PART cfg \<and> ROLLBACK_PART cfg \<noteq> FM_PART cfg"
  shows "\<exists>s'. (if FOTA_ROLLBACK cfg then map_option snd (fota_rollback_copy cfg (ROLLBACK_PART cfg) (APP_PART cfg) s) else Some s) = Some s' \<and>
    env mem blk devs ps (flash s') \<and> rbl_head s' = rbl_head s \<and> crc_tab s' = crc_tab s \<and>
    fal_content mem p (flash s') = fal_content mem p (flash s)"
proof (cases "FOTA_ROLLBACK cfg")
  case True
  then obtain r where r: "named ps (ROLLBACK_PART cfg) = Some r" "APP_PART cfg \<noteq> ROLLBACK_PART cfg" "p \<noteq> r"
    using rb named_in[OF p] named_in[of ps "ROLLBACK_PART cfg"] by fastforce
  from rollback_copy_spec[OF e q r(1,2), of cfg] obtain e' s' where
    "fota_rollback_copy cfg (ROLLBACK_PART cfg) (APP_PART cfg) s = Some (e', s')" "env mem blk devs ps (flash s')"
    "rbl_head s' = rbl_head s" "crc_tab s' = crc_tab s" "fal_content mem p (flash s') = fal_content mem p (flash s)"
    using named_in[OF p] r(3) by blast
  with True show ?thesis by simp
qed (use e in simp)

lemma fota_update_spec:
  assumes e: "env mem blk devs ps (flash s)" and rel: "reliable mem devs"
    and p: "named ps (FM_PART cfg) = Some p" and q: "named ps (APP_PART cfg) = Some q" and ne: "APP_PART cfg \<noteq> FM_PART cfg"
    and rb: "FOTA_ROLLBACK cfg \<Longrightarrow> (\<exists>r. named ps (ROLLBACK_PART cfg) = Some r) \<and>
      ROLLBACK_PART cfg \<noteq> APP_PART cfg \<and> ROLLBACK_PART cfg \<noteq> FM_PART cfg"
    and m: "malloc_ok cfg 0" and c: "fal_content mem p (flash s) = c" and new: "new_plain_image cfg ps q c"
    and len: "4096 \<le> unat (part_len p)" "blk dvd 4096"
  shows "\<exists>s'. fota_update cfg s = Some s' \<and> env mem blk devs ps (flash s') \<and>
    fal_content mem q (flash s') =
      filled (app_bytes (head_of c) (window sizeof_head (blocks (unat (hd_com_size (head_of c)))) c)) (unat (part_len q)) \<and>
    app_ok (fal_content mem q (flash s')) \<and> image_ok ps (fal_content mem p (flash s')) \<and>
    fota_check_upgrade (s'\<lparr>rbl_head := head_of (fal_content mem p (flash s'))\<rparr>) = Some 0"
proof -
  let ?h = "head_of c" and ?img = "window sizeof_head (blocks (unat (hd_com_size (head_of c)))) c"
  have im: "image_ok ps c" "hd_app_part_name ?h = Some (APP_PART cfg)"
    and plain: "hd_fota_algo ?h AND FOTA_CRYPT_STAT_MASK = 0" "hd_fota_algo ?h AND FOTA_CMPRS_STAT_MASK = 0"
    and raw: "hd_raw_size ?h \<le> hd_com_size ?h" "fnv (window sizeof_head (unat (hd_raw_size ?h)) c) = hd_hash_val ?h"
    and fits: "512 + blocks (unat (hd_com_size ?h)) \<le> unat (part_len q)"
    and v: "0 \<in> set (take 24 (drop 28 c))" "hd_current_version ?h \<noteq> None" "hd_download_version ?h \<noteq> hd_current_version ?h"
    using new by (simp_all add: new_plain_image_def Let_def)
  have ps: "p \<in> set ps" "q \<in> set ps" "p \<noteq> q" using named_in[OF p] named_in[OF q] ne by auto
  have cl: "sizeof_head + blocks (unat (hd_com_size ?h)) \<le> length c"
    using im(1) by (simp add: image_ok_def Let_def body_end_blocks)
  have "take 24 (drop 28 ?h) = take 24 (drop 28 c)" by (simp add: head_of_def sizeof_head_def drop_take min_def)
  then have dv: "hd_download_version ?h \<noteq> None" using v(1) cstr_ended[of 24 28 ?h] by (simp add: hd_download_version_def)
  obtain s1 where s1: "fota_part_fw_verify cfg (Some (FM_PART cfg)) s = Some (FOTA_NO_ERR, s1)" "rbl_head s1 = ?h" "crc_tab s1 = crc32_init POLYNOMIAL"
    "env mem blk devs ps (flash s1)" "same_flash mem ps (flash s) (flash s1)"
    using fw_verify_part_spec[OF e ps(1) m] im c by (auto simp: fota_part_fw_verify_def env_find[OF e] p)
  have c1: "fal_content mem p (flash s1) = c" using s1(5) ps c by (simp add: same_flash_def)
  have u: "fota_check_upgrade s1 = Some 1" using dv v(2,3) by (auto simp: fota_check_upgrade_def s1(2))
  obtain s2 where s2: "fota_upgrade_verify cfg (Some (FM_PART cfg)) s1 = Some (FOTA_NO_ERR, s2)" "env mem blk devs ps (flash s2)" "same_fota mem ps s1 s2"
    using plain_verify[OF s1(4) p c1 s1(2) m plain cl raw] by blast
  have c2: "fal_content mem p (flash s2) = c" using s2(3) ps c1 by (simp add: same_fota_def same_flash_def)
  have r2: "rbl_head s2 = ?h" "crc_tab s2 = crc32_init POLYNOMIAL" using s2(3) s1(2,3) by (simp_all add: same_fota_def)
  obtain s3 where s3: "(if FOTA_ROLLBACK cfg then map_option snd (fota_rollback_copy cfg (ROLLBACK_PART cfg) (APP_PART cfg) s2) else Some s2) = Some s3"
    "env mem blk devs ps (flash s3)" "rbl_head s3 = ?h" "crc_tab s3 = crc32_init POLYNOMIAL" "fal_content mem p (flash s3) = c"
    using keep_old[OF s2(2) p q rb] r2 c2 by auto
  obtain s4 where s4: "fota_upgrade cfg (Some (FM_PART cfg)) s3 = Some (FOTA_NO_ERR, s4)" "crc_tab s4 = crc_tab s3"
    "writing mem blk devs ps p q c ?h ?img s4"
    using plain_upgrade[OF s3(2) p s3(5,3) m rel im(2) q ne plain cl fits raw(1)] by blast
  then have w: "env mem blk devs ps (flash s4)" "fal_content mem p (flash s4) = c"
    "fal_content mem q (flash s4) = filled (app_bytes ?h ?img) (unat (part_len q))"
    by (simp_all add: writing_def reads_def)
  have tab: "crc_tab s4 = crc32_init POLYNOMIAL" using s4(2) s3(4) by simp
  obtain s5 where s5: "fota_copy_version cfg (FM_PART cfg) s4 = Some (FOTA_NO_ERR, s5)"
    "\<forall>x \<in> set ps. x \<noteq> p \<longrightarrow> fal_content mem x (flash s5) = fal_content mem x (flash s4)"
    "image_ok ps (fal_content mem p (flash s5))" "fota_check_upgrade (s5\<lparr>rbl_head := head_of (fal_content mem p (flash s5))\<rparr>) = Some 0"
    "env mem blk devs ps (flash s5)"
    using copy_version_spec[OF w(1) p m tab _ _ len] im(1) v(1) rel w(2) by auto
  have "fota_update cfg s = Some s5"
    using s1(1) u s2(1) s3(1) s4(1) s5(1) by (simp add: fota_update_def)
  moreover have qc: "fal_content mem q (flash s5) = filled (app_bytes ?h ?img) (unat (part_len q))" using s5(2) ps w(3) by simp
  moreover have "app_ok (filled (app_bytes ?h ?img) (unat (part_len q)))"
  proof (rule app_ok_installed)
    have rc: "unat (hd_raw_size ?h) \<le> blocks (unat (hd_com_size ?h))" using raw(1) blocks_ge[of "unat (hd_com_size ?h)"] by (simp add: word_le_nat_alt)
    then show "unat (hd_raw_size ?h) \<le> length ?img" "512 + length ?img \<le> unat (part_len q)" using cl fits by simp_all
    have "take (unat (hd_raw_size ?h)) ?img = window sizeof_head (unat (hd_raw_size ?h)) c"
      using rc by (simp add: window_def min_def)
    then show "fnv (take (unat (hd_raw_size ?h)) ?img) = hd_hash_val ?h" using raw(2) by simp
  qed (use cl in \<open>simp add: head_of_def\<close>)
  ultimately show ?thesis using s5(3-5) by simp
qed

text \<open>
  C8: on a flash that does not fail, a new plain image is installed by one run of the update,
  whether or not the old application is kept for a rollback: the application partition then holds
  its head and its code and passes the check of the start, and the image is marked as installed.
\<close>

theorem fota_update_installs:
  assumes e: "env mem blk devs ps (flash s)" and rel: "reliable mem devs"
    and p: "named ps (FM_PART cfg) = Some p" and q: "named ps (APP_PART cfg) = Some q" and ne: "APP_PART cfg \<noteq> FM_PART cfg"
    and rb: "FOTA_ROLLBACK cfg \<Longrightarrow> (\<exists>r. named ps (ROLLBACK_PART cfg) = Some r) \<and>
      ROLLBACK_PART cfg \<noteq> APP_PART cfg \<and> ROLLBACK_PART cfg \<noteq> FM_PART cfg"
    and m: "malloc_ok cfg 0" and c: "fal_content mem p (flash s) = c" and new: "new_plain_image cfg ps q c"
    and len: "4096 \<le> unat (part_len p)" "blk dvd 4096"
  shows "\<exists>s'. fota_update cfg s = Some s' \<and>
    fal_content mem q (flash s') =
      filled (app_bytes (head_of c) (window sizeof_head (blocks (unat (hd_com_size (head_of c)))) c)) (unat (part_len q)) \<and>
    app_ok (fal_content mem q (flash s')) \<and> image_ok ps (fal_content mem p (flash s')) \<and>
    fota_check_upgrade (s'\<lparr>rbl_head := head_of (fal_content mem p (flash s'))\<rparr>) = Some 0"
  using fota_update_spec[OF assms(1-5) rb m c new len] by blast

end
