(* ===== verification/Fota_Ex.thy ===== *)
theory Fota_Ex
  imports Fota_Live
begin

text \<open>
  The update on a concrete flash: three partitions of 8 KiB in memory, with an image of two bytes
  of code in the download partition, and the properties of the update applied to it.
\<close>

definition ex_parts :: "fal_partition list" where
  "ex_parts = [part ''download'' ''norflash0'' 0 8192, part ''app'' ''norflash0'' 8192 8192, part ''rollback'' ''norflash0'' 16384 8192]"

definition ex_a :: "u8 list" where "ex_a = [0x52, 0x42, 0x4C] @ replicate 9 0 @ [0x61, 0x70, 0x70] @ replicate 13 0"
definition ex_v :: "u8 list" where "ex_v = [0x31] @ replicate 23 0"
definition ex_w :: "u8 list" where "ex_w = replicate 24 0"
definition ex_b :: "u8 list" where "ex_b = put_le32 (crc32_of [1, 2]) @ put_le32 (fnv [1, 2]) @ put_le32 2 @ put_le32 2"

definition ex_head :: "u8 list" where
  "ex_head = ex_a @ ex_v @ ex_w @ ex_b @ put_le32 (crc32_of (ex_a @ ex_v @ ex_w @ ex_b))"

definition ex_image :: "u8 list" where "ex_image = ex_head @ [1, 2] @ replicate 8094 0xFF"

definition ex_dev :: "u8 list fal_flash_dev" where "ex_dev = ram_dev 24576 4096"

definition ex_fal :: "u8 list fal" where
  "ex_fal = \<lparr>device_table = [ex_dev], flash_init_ok = True, partition_table_def = ex_parts, partition_table = Some ex_parts,
     partition_table_len = 3, part_init_ok = True, fal_init_ok = True, hardware = ex_image @ replicate 16384 0xFF\<rparr>"

definition ex_fota :: "u8 list fota" where
  "ex_fota = \<lparr>rbl_head = no_head, crc_tab = crc32_init POLYNOMIAL, flash = ex_fal\<rparr>"

definition ex_cfg :: "unit fota_cfg" where
  "ex_cfg = \<lparr>FM_PART = ''download'', APP_PART = ''app'', ROLLBACK_PART = ''rollback'', FOTA_ROLLBACK = True, FOTA_YMODEM = False,
     malloc_ok = (\<lambda>_. True), usable = (\<lambda>n. n), aes_cbc = (\<lambda>v xs. (v, xs)), fastlz_decompress = (\<lambda>b n. (0, [])),
     qlz_decompress = (\<lambda>z b. (0, [], z)), qlz_zero = (), fastlz_padding = 0, qlz_padding = 0\<rparr>"

lemma ex_lengths: "length ex_a = 28" "length ex_v = 24" "length ex_w = 24" "length ex_b = 16" "length ex_head = 96" "length ex_image = 8192"
  by (simp_all add: ex_a_def ex_v_def ex_w_def ex_b_def ex_head_def ex_image_def put_le32_def)

lemma ex_parts_ok: "parts_ok 4096 ex_parts"
  unfolding parts_ok_def
proof (intro conjI)
  show "distinct (map part_name ex_parts)" by (simp add: ex_parts_def part_def)
  show "\<forall>p \<in> set ex_parts. unat (part_len p) \<le> 2 ^ 30 \<and> 4096 dvd unat (part_len p)" by (simp add: ex_parts_def part_def)
  show "\<forall>p \<in> set ex_parts. \<forall>q \<in> set ex_parts. p \<noteq> q \<longrightarrow> parts_disjoint p q"
    by (simp add: ex_parts_def part_def parts_disjoint_def)
qed

lemma ex_env: "env (\<lambda>h. h) 4096 [ex_dev] ex_parts (flash ex_fota)"
proof -
  have "fal_ok (\<lambda>h. h) 4096 p ex_fal" if "p \<in> set ex_parts" for p
    using that ram_dev_ok[of 24576 4096] ex_lengths(6)
    by (auto simp: fal_ok_def ex_fal_def ex_parts_def part_def ex_dev_def ram_dev_def strncmp_eq_def)
  then show ?thesis using ex_parts_ok by (simp add: env_def ex_fota_def ex_fal_def) (simp add: ex_parts_def)
qed

lemma ex_reliable: "reliable (\<lambda>h. h) [ex_dev]"
  by (simp add: reliable_def ex_dev_def ram_dev_def)

lemma ex_named:
  "named ex_parts ''download'' = Some (ex_parts ! 0)" "named ex_parts ''app'' = Some (ex_parts ! 1)" "named ex_parts ''rollback'' = Some (ex_parts ! 2)"
  by (simp_all add: named_def ex_parts_def part_def)

lemma ex_content: "fal_content (\<lambda>h. h) (ex_parts ! 0) (flash ex_fota) = ex_image"
  using ex_lengths(6) by (simp add: fal_content_def ex_fota_def ex_fal_def ex_parts_def part_def window_def)

lemma ex_head_of: "head_of ex_image = ex_head"
  by (simp add: head_of_def ex_image_def sizeof_head_def ex_lengths)

lemma ex_fields:
  "hd_com_size ex_head = 2" "hd_raw_size ex_head = 2" "hd_code_crc ex_head = crc32_of [1, 2]" "hd_hash_val ex_head = fnv [1, 2]"
  "hd_head_crc ex_head = crc32_of (take 92 ex_head)"
proof -
  have b: "le32 ex_head (76 + i) = le32 (ex_b @ put_le32 (crc32_of (ex_a @ ex_v @ ex_w @ ex_b))) i" for i
    using le32_append[of "ex_a @ ex_v @ ex_w" "76 + i"] by (simp add: ex_head_def ex_lengths)
  have l: "length (put_le32 x) = 4" for x by (simp add: put_le32_def)
  show "hd_com_size ex_head = 2" "hd_raw_size ex_head = 2" "hd_code_crc ex_head = crc32_of [1, 2]" "hd_hash_val ex_head = fnv [1, 2]"
    using b[of 12] b[of 8] b[of 4] b[of 0]
    by (simp_all add: hd_com_size_def hd_raw_size_def hd_code_crc_def hd_hash_val_def ex_b_def le32_append l le32_put)
  show "hd_head_crc ex_head = crc32_of (take 92 ex_head)"
    using le32_append[of "ex_a @ ex_v @ ex_w @ ex_b" 92 "put_le32 (crc32_of (ex_a @ ex_v @ ex_w @ ex_b))"]
      le32_put[of "crc32_of (ex_a @ ex_v @ ex_w @ ex_b)" "[]"]
    by (simp add: hd_head_crc_def ex_head_def ex_lengths)
qed

lemma ex_strings:
  "hd_app_part_name ex_head = Some ''app''" "hd_download_version ex_head = Some ''1''" "hd_current_version ex_head = Some []"
proof -
  have a: "drop 12 ex_a = [0x61, 0x70, 0x70] @ replicate 13 0" by (simp add: ex_a_def)
  then have "0 \<in> set (drop 12 ex_a)" by simp
  then have "hd_app_part_name ex_head = cstr ex_a 12"
    by (simp only: hd_app_part_name_def ex_head_def cstr_append)
  then show "hd_app_part_name ex_head = Some ''app''"
    by (simp add: cstr_def a char_of_def bit_Suc_0_iff)
  have "0 \<in> set (drop 28 (ex_a @ ex_v))" by (simp add: ex_lengths) (simp add: ex_v_def)
  then have "hd_download_version ex_head = cstr (ex_a @ ex_v) 28"
    using cstr_append[of 28 "ex_a @ ex_v"] by (simp add: hd_download_version_def ex_head_def)
  also have "\<dots> = Some ''1''" by (simp add: cstr_def ex_lengths) (simp add: ex_v_def char_of_def bit_Suc_0_iff)
  finally show "hd_download_version ex_head = Some ''1''" .
  have "0 \<in> set (drop 52 (ex_a @ ex_v @ ex_w))" by (simp add: ex_lengths) (simp add: ex_w_def)
  then have "hd_current_version ex_head = cstr (ex_a @ ex_v @ ex_w) 52"
    using cstr_append[of 52 "ex_a @ ex_v @ ex_w"] by (simp add: hd_current_version_def ex_head_def)
  also have "\<dots> = Some []" by (simp add: cstr_def ex_lengths) (simp add: ex_w_def)
  finally show "hd_current_version ex_head = Some []" .
qed

lemma ex_code: "window sizeof_head 2 ex_image = [1, 2]"
  by (simp add: window_def ex_image_def sizeof_head_def ex_lengths)

lemma ex_image_ok: "image_ok ex_parts ex_image"
proof -
  have "hd_is_RBL ex_head" by (simp add: hd_is_RBL_def ex_head_def ex_a_def take_Cons' replicate_Suc[of 8, simplified])
  then show ?thesis
    by (simp add: image_ok_def Let_def ex_head_of ex_fields ex_strings ex_named ex_code body_end_def ex_lengths)
      (simp add: sizeof_head_def)
qed

lemma ex_new: "new_plain_image ex_cfg ex_parts (ex_parts ! 1) ex_image"
proof -
  have "hd_fota_algo ex_head = 0" by (simp add: hd_fota_algo_def le16_def ex_head_def ex_a_def nth_append)
  moreover have "0 \<in> set (take 24 (drop 28 ex_image))"
    by (simp add: ex_image_def ex_head_def ex_lengths) (simp add: ex_v_def)
  ultimately show ?thesis
    using ex_image_ok
    by (simp add: new_plain_image_def Let_def ex_head_of ex_fields ex_strings ex_code blocks_def ex_cfg_def)
      (simp add: ex_parts_def part_def)
qed

theorem fota_update_installs_witness:
  "\<exists>s'. fota_update ex_cfg ex_fota = Some s' \<and> app_ok (fal_content (\<lambda>h. h) (ex_parts ! 1) (flash s'))"
proof -
  have "named ex_parts (FM_PART ex_cfg) = Some (ex_parts ! 0)" "named ex_parts (APP_PART ex_cfg) = Some (ex_parts ! 1)"
    "APP_PART ex_cfg \<noteq> FM_PART ex_cfg" "malloc_ok ex_cfg 0" "4096 \<le> unat (part_len (ex_parts ! 0))" "4096 dvd (4096 :: nat)"
    "(\<exists>r. named ex_parts (ROLLBACK_PART ex_cfg) = Some r) \<and> ROLLBACK_PART ex_cfg \<noteq> APP_PART ex_cfg \<and> ROLLBACK_PART ex_cfg \<noteq> FM_PART ex_cfg"
    by (simp_all add: ex_cfg_def ex_named) (simp add: ex_parts_def part_def)
  from fota_update_installs[OF ex_env ex_reliable this(1-3,7,4) ex_content ex_new this(5,6)] show ?thesis by blast
qed

theorem fota_accepts_images_witness:
  "\<exists>s'. fota_part_fw_verify ex_cfg (Some ''download'') ex_fota = Some (FOTA_NO_ERR, s') \<and> rbl_head s' = ex_head"
proof -
  have "malloc_ok ex_cfg 0" "hd_app_part_name (head_of (fal_content (\<lambda>h. h) (ex_parts ! 0) (flash ex_fota))) \<noteq> None"
    by (simp_all add: ex_cfg_def ex_content ex_head_of ex_strings)
  from fota_accepts_images[OF ex_env ex_named(1) this] show ?thesis
    by (auto simp: ex_content ex_image_ok ex_head_of)
qed

text \<open>The application installed, and a vector table whose entry point is in flash and whose stack is in RAM.\<close>

definition ex_app :: "u8 list" where "ex_app = ex_head @ replicate 416 0xFF @ [1, 2] @ replicate 7678 0xFF"

definition ex_installed :: "u8 list fota" where
  "ex_installed = ex_fota\<lparr>flash := ex_fal\<lparr>hardware := ex_image @ ex_app @ replicate 8192 0xFF\<rparr>\<rparr>"

definition ex_word :: "u32 \<Rightarrow> u32" where
  "ex_word a = (if a = app_base (ex_parts ! 1) then 0x20010000 else 0x08002401)"

lemma ex_installed_env: "env (\<lambda>h. h) 4096 [ex_dev] ex_parts (flash ex_installed)"
  using ex_env ex_lengths by (simp add: env_def ex_installed_def ex_fota_def ex_fal_def fal_ok_def ex_app_def)

lemma ex_app_ok: "app_ok (fal_content (\<lambda>h. h) (ex_parts ! 1) (flash ex_installed))"
proof -
  have c: "fal_content (\<lambda>h. h) (ex_parts ! 1) (flash ex_installed) = ex_app"
    using ex_lengths by (simp add: fal_content_def ex_installed_def ex_fota_def ex_fal_def ex_parts_def part_def window_def ex_app_def)
  have "head_of ex_app = ex_head" "window 512 2 ex_app = [1, 2]"
    by (simp_all add: head_of_def ex_app_def sizeof_head_def ex_lengths window_def)
  then show ?thesis unfolding c app_ok_def Let_def by (simp add: ex_fields) (simp add: ex_app_def sizeof_head_def ex_lengths)
qed

theorem fota_boots_checked_application_witness:
  "\<exists>s'. boot_entry ex_cfg ex_word ex_installed = Some (Jump 0x20010000 0x08002401, s')"
proof -
  have n: "named ex_parts (APP_PART ex_cfg) = Some (ex_parts ! 1)" "malloc_ok ex_cfg 0" "malloc_ok ex_cfg 1"
    "named ex_parts (ROLLBACK_PART ex_cfg) = Some (ex_parts ! 2)" "ROLLBACK_PART ex_cfg \<noteq> APP_PART ex_cfg"
    by (simp_all add: ex_cfg_def ex_named)
  have "vector_ok ex_word (app_base (ex_parts ! 1))" by (simp add: vector_ok_def ex_word_def)
  with fota_boots_checked_application[OF ex_installed_env n, of ex_word] ex_app_ok show ?thesis
    by (auto simp: ex_word_def)
qed

theorem fota_copy_version_marks_witness:
  "\<exists>e s'. fota_copy_version ex_cfg ''download'' ex_fota = Some (e, s') \<and>
     (e = FOTA_NO_ERR \<longrightarrow> image_ok ex_parts (fal_content (\<lambda>h. h) (ex_parts ! 0) (flash s')))"
proof -
  have "malloc_ok ex_cfg 0" "crc_tab ex_fota = crc32_init POLYNOMIAL" "4096 \<le> unat (part_len (ex_parts ! 0))" "4096 dvd (4096 :: nat)"
    by (simp_all add: ex_cfg_def ex_fota_def) (simp add: ex_parts_def part_def)
  moreover have "0 \<in> set (take 24 (drop 28 ex_image))" using ex_new by (simp add: new_plain_image_def Let_def)
  ultimately show ?thesis
    using fota_copy_version_marks[OF ex_env ex_named(1), unfolded ex_content, of ex_cfg] ex_image_ok by blast
qed



theorem fota_verified_upgrade_installs_witness:
  "\<exists>s1 s2. fota_upgrade_verify ex_cfg (Some ''download'') (ex_fota\<lparr>rbl_head := ex_head\<rparr>) = Some (FOTA_NO_ERR, s1) \<and>
     fota_upgrade ex_cfg (Some ''download'') (ex_fota\<lparr>rbl_head := ex_head\<rparr>) = Some (FOTA_NO_ERR, s2) \<and>
     (\<exists>s3. fota_check_application ex_cfg s2 = Some (FOTA_NO_ERR, s3))"
proof -
  let ?s = "ex_fota\<lparr>rbl_head := ex_head\<rparr>"
  have e: "env (\<lambda>h. h) 4096 [ex_dev] ex_parts (flash ?s)" using ex_env by simp
  have c: "fal_content (\<lambda>h. h) (ex_parts ! 0) (flash ?s) = ex_image" using ex_content by simp
  have n: "named ex_parts (APP_PART ex_cfg) = Some (ex_parts ! 1)" "APP_PART ex_cfg \<noteq> ''download''" "malloc_ok ex_cfg 0" "malloc_ok ex_cfg 1"
    by (simp_all add: ex_cfg_def ex_named)
  have h: "rbl_head ?s = head_of ex_image" by (simp add: ex_head_of)
  note new = ex_new[unfolded new_plain_image_def Let_def]
  have cl: "sizeof_head + blocks (unat (hd_com_size (head_of ex_image))) \<le> length ex_image"
    using ex_image_ok by (simp add: image_ok_def Let_def body_end_blocks)
  obtain s1 where s1: "fota_upgrade_verify ex_cfg (Some ''download'') ?s = Some (FOTA_NO_ERR, s1)"
    using plain_verify[OF e ex_named(1) c h n(3) _ _ cl] new by blast
  obtain s2 where s2: "fota_upgrade ex_cfg (Some ''download'') ?s = Some (FOTA_NO_ERR, s2)"
    using plain_upgrade[OF e ex_named(1) c h n(3) ex_reliable _ n(1,2) _ _ cl] new by blast
  have "512 \<le> unat (part_len (ex_parts ! 1))" "96 \<le> length ex_image" by (simp_all add: ex_lengths) (simp add: ex_parts_def part_def)
  with fota_verified_upgrade_installs[OF e e ex_named(1) n(1,2) c c h h _ _ _ n(4) s1 s2] new s1 s2 show ?thesis by blast
qed

end
