(* ===== verification/Sfud.thy ===== *)
theory Sfud
  imports Fal
begin

text \<open>
  The serial flash driver, \<^verbatim>\<open>sfud.c\<close> with the types of \<^verbatim>\<open>sfud_def.h\<close> and
  \<^verbatim>\<open>sfud_flash_def.h\<close>, in the configuration of the sample (\<open>SFUD_DEBUG_MODE\<close>,
  \<open>SFUD_USING_SFDP\<close>, \<open>SFUD_USING_FLASH_INFO_TABLE\<close>) with the fast read of
  \<open>SFUD_USING_QSPI\<close>. The SPI bus with everything connected to it is a state of any type
  \<open>'b\<close>; the functions of the port (transfer, lock, unlock, delay) are fields of the device,
  as in C. The value \<open>None\<close> is a failed \<open>SFUD_ASSERT\<close> (an endless loop in debug mode), a lock
  that is never granted, a read of a byte that was never received, a division by zero or a
  shift by more bits than the word has. Messages to the log are left out.
\<close>

section \<open>Types\<close>

datatype sfud_err = SFUD_SUCCESS | SFUD_ERR_NOT_FOUND | SFUD_ERR_WRITE | SFUD_ERR_READ
  | SFUD_ERR_TIMEOUT | SFUD_ERR_ADDR_OUT_OF_BOUND

record sfud_sfdp =
  available :: bool
  major_rev :: u8
  minor_rev :: u8
  sfdp_write_gran :: u16
  erase_4k :: bool
  erase_4k_cmd :: u8
  sr_is_non_vola :: bool
  vola_sr_we_cmd :: u8
  addr_3_byte :: bool
  addr_4_byte :: bool
  sfdp_capacity :: u32
  eraser :: "(u32 \<times> u8) list"

record sfud_flash_chip =
  chip_name :: "string option"
  mf_id :: u8
  type_id :: u8
  capacity_id :: u8
  capacity :: u32
  write_mode :: u16
  erase_gran :: u32
  erase_gran_cmd :: u8

record sfud_qspi_read_cmd_format =
  instruction :: u8
  instruction_lines :: u8
  address_size :: u8
  address_lines :: u8
  alternate_bytes_lines :: u8
  dummy_cycles :: u8
  data_lines :: u8

text \<open>
  The transfer answers its code and the bytes received; a lock answers \<open>None\<close> when it waits
  for ever. A function pointer that may be NULL is an option.
\<close>

record 'b sfud_spi =
  spi_wr :: "u8 list \<Rightarrow> nat \<Rightarrow> 'b \<Rightarrow> sfud_err \<times> u8 list \<times> 'b"
  qspi_read :: "u32 \<Rightarrow> sfud_qspi_read_cmd_format \<Rightarrow> nat \<Rightarrow> 'b \<Rightarrow> sfud_err \<times> u8 list \<times> 'b"
  spi_lock :: "('b \<Rightarrow> 'b option) option"
  spi_unlock :: "('b \<Rightarrow> 'b) option"

record 'b sfud_flash =
  flash_name :: string
  flash_index :: nat
  chip :: sfud_flash_chip
  spi :: "'b sfud_spi"
  init_ok :: bool
  addr_in_4_byte :: bool
  retry_delay :: "('b \<Rightarrow> 'b) option"
  retry_times :: u32
  read_cmd_format :: sfud_qspi_read_cmd_format
  sfdp :: sfud_sfdp

text \<open>Commands, bits of the status register, write modes.\<close>

definition SFUD_CMD_WRITE_ENABLE :: u8 where "SFUD_CMD_WRITE_ENABLE = 0x06"
definition SFUD_CMD_WRITE_DISABLE :: u8 where "SFUD_CMD_WRITE_DISABLE = 0x04"
definition SFUD_CMD_READ_STATUS_REGISTER :: u8 where "SFUD_CMD_READ_STATUS_REGISTER = 0x05"
definition SFUD_VOLATILE_SR_WRITE_ENABLE :: u8 where "SFUD_VOLATILE_SR_WRITE_ENABLE = 0x50"
definition SFUD_CMD_WRITE_STATUS_REGISTER :: u8 where "SFUD_CMD_WRITE_STATUS_REGISTER = 0x01"
definition SFUD_CMD_PAGE_PROGRAM :: u8 where "SFUD_CMD_PAGE_PROGRAM = 0x02"
definition SFUD_CMD_AAI_WORD_PROGRAM :: u8 where "SFUD_CMD_AAI_WORD_PROGRAM = 0xAD"
definition SFUD_CMD_ERASE_CHIP :: u8 where "SFUD_CMD_ERASE_CHIP = 0xC7"
definition SFUD_CMD_READ_DATA :: u8 where "SFUD_CMD_READ_DATA = 0x03"
definition SFUD_CMD_DUAL_OUTPUT_READ_DATA :: u8 where "SFUD_CMD_DUAL_OUTPUT_READ_DATA = 0x3B"
definition SFUD_CMD_DUAL_IO_READ_DATA :: u8 where "SFUD_CMD_DUAL_IO_READ_DATA = 0xBB"
definition SFUD_CMD_QUAD_IO_READ_DATA :: u8 where "SFUD_CMD_QUAD_IO_READ_DATA = 0xEB"
definition SFUD_CMD_QUAD_OUTPUT_READ_DATA :: u8 where "SFUD_CMD_QUAD_OUTPUT_READ_DATA = 0x6B"
definition SFUD_CMD_JEDEC_ID :: u8 where "SFUD_CMD_JEDEC_ID = 0x9F"
definition SFUD_CMD_READ_SFDP_REGISTER :: u8 where "SFUD_CMD_READ_SFDP_REGISTER = 0x5A"
definition SFUD_CMD_ENABLE_RESET :: u8 where "SFUD_CMD_ENABLE_RESET = 0x66"
definition SFUD_CMD_RESET :: u8 where "SFUD_CMD_RESET = 0x99"
definition SFUD_CMD_ENTER_4B_ADDRESS_MODE :: u8 where "SFUD_CMD_ENTER_4B_ADDRESS_MODE = 0xB7"
definition SFUD_CMD_EXIT_4B_ADDRESS_MODE :: u8 where "SFUD_CMD_EXIT_4B_ADDRESS_MODE = 0xE9"
definition SFUD_WRITE_MAX_PAGE_SIZE :: nat where "SFUD_WRITE_MAX_PAGE_SIZE = 256"
definition SFUD_DUMMY_DATA :: u8 where "SFUD_DUMMY_DATA = 0xFF"
definition SFUD_SFDP_ERASE_TYPE_MAX_NUM :: nat where "SFUD_SFDP_ERASE_TYPE_MAX_NUM = 4"
definition SFUD_STATUS_REGISTER_BUSY :: u8 where "SFUD_STATUS_REGISTER_BUSY = 1"
definition SFUD_STATUS_REGISTER_WEL :: u8 where "SFUD_STATUS_REGISTER_WEL = 2"
definition SFUD_WM_PAGE_256B :: u16 where "SFUD_WM_PAGE_256B = 1"
definition SFUD_WM_BYTE :: u16 where "SFUD_WM_BYTE = 2"
definition SFUD_WM_AAI :: u16 where "SFUD_WM_AAI = 4"
definition SFUD_WM_DUAL_BUFFER :: u16 where "SFUD_WM_DUAL_BUFFER = 8"

lemmas sfud_consts =
  SFUD_CMD_WRITE_ENABLE_def SFUD_CMD_WRITE_DISABLE_def SFUD_CMD_READ_STATUS_REGISTER_def
  SFUD_VOLATILE_SR_WRITE_ENABLE_def SFUD_CMD_WRITE_STATUS_REGISTER_def SFUD_CMD_PAGE_PROGRAM_def
  SFUD_CMD_AAI_WORD_PROGRAM_def SFUD_CMD_ERASE_CHIP_def SFUD_CMD_READ_DATA_def SFUD_CMD_JEDEC_ID_def
  SFUD_CMD_READ_SFDP_REGISTER_def SFUD_CMD_ENABLE_RESET_def SFUD_CMD_RESET_def
  SFUD_CMD_ENTER_4B_ADDRESS_MODE_def SFUD_CMD_EXIT_4B_ADDRESS_MODE_def SFUD_DUMMY_DATA_def
  SFUD_CMD_DUAL_OUTPUT_READ_DATA_def SFUD_CMD_DUAL_IO_READ_DATA_def SFUD_CMD_QUAD_IO_READ_DATA_def
  SFUD_CMD_QUAD_OUTPUT_READ_DATA_def

lemmas sfud_modes = SFUD_WM_PAGE_256B_def SFUD_WM_BYTE_def SFUD_WM_AAI_def SFUD_WM_DUAL_BUFFER_def

section \<open>Control flow\<close>

text \<open>\<open>if (result != SFUD_SUCCESS) goto __exit\<close> between two steps.\<close>

definition on_success :: "(sfud_err \<times> 'b) option \<Rightarrow> ('b \<Rightarrow> (sfud_err \<times> 'b) option) \<Rightarrow> (sfud_err \<times> 'b) option" where
  "on_success m k = (case m of None \<Rightarrow> None
     | Some (result, b) \<Rightarrow> if result = SFUD_SUCCESS then k b else Some (result, b))"

lemma on_success_cong [fundef_cong]:
  "m = m' \<Longrightarrow> (\<And>b. m' = Some (SFUD_SUCCESS, b) \<Longrightarrow> k b = k' b) \<Longrightarrow> on_success m k = on_success m' k'"
  by (auto simp: on_success_def split: option.splits)

lemma on_success_simps [simp]:
  "on_success (Some (SFUD_SUCCESS, b)) k = k b"
  "e \<noteq> SFUD_SUCCESS \<Longrightarrow> on_success (Some (e, b)) k = Some (e, b)"
  "on_success None k = None"
  by (simp_all add: on_success_def)

text \<open>A transfer that only sends.\<close>

definition spi_send :: "'b sfud_flash \<Rightarrow> u8 list \<Rightarrow> 'b \<Rightarrow> (sfud_err \<times> 'b) option" where
  "spi_send flash cmd b = (let (result, _, b) = spi_wr (spi flash) cmd 0 b in Some (result, b))"

definition lock_spi :: "'b sfud_flash \<Rightarrow> 'b \<Rightarrow> 'b option" where
  "lock_spi flash b = (case spi_lock (spi flash) of None \<Rightarrow> Some b | Some f \<Rightarrow> f b)"

definition unlock_spi :: "'b sfud_flash \<Rightarrow> 'b \<Rightarrow> 'b" where
  "unlock_spi flash b = (case spi_unlock (spi flash) of None \<Rightarrow> b | Some f \<Rightarrow> f b)"

section \<open>Status and write enable\<close>

definition sfud_read_status :: "'b sfud_flash \<Rightarrow> 'b \<Rightarrow> sfud_err \<times> u8 list \<times> 'b" where
  "sfud_read_status flash b = spi_wr (spi flash) [SFUD_CMD_READ_STATUS_REGISTER] 1 b"

text \<open>
  One read of the status, then \<open>retry\<close> further ones, with the delay of the device before each;
  \<open>SFUD_RETRY_PROCESS\<close> turns the last failure into a timeout.
\<close>

fun wait_busy_loop :: "'b sfud_flash \<Rightarrow> nat \<Rightarrow> 'b \<Rightarrow> (sfud_err \<times> 'b) option" where
  "wait_busy_loop flash retry b = do {
     let (result, status, b) = sfud_read_status flash b;
     idle \<leftarrow> (if result = SFUD_SUCCESS
              then map_option (\<lambda>st. st AND SFUD_STATUS_REGISTER_BUSY = 0) (rd status 0) else Some False);
     if idle then Some (SFUD_SUCCESS, b)
     else case retry of
            0 \<Rightarrow> Some (SFUD_ERR_TIMEOUT, b)
          | Suc r \<Rightarrow> wait_busy_loop flash r (case retry_delay flash of None \<Rightarrow> b | Some delay \<Rightarrow> delay b) }"

declare wait_busy_loop.simps [simp del]

definition wait_busy :: "'b sfud_flash \<Rightarrow> 'b \<Rightarrow> (sfud_err \<times> 'b) option" where
  "wait_busy flash b = wait_busy_loop flash (unat (retry_times flash)) b"

definition set_write_enabled :: "'b sfud_flash \<Rightarrow> bool \<Rightarrow> 'b \<Rightarrow> (sfud_err \<times> 'b) option" where
  "set_write_enabled flash enabled b =
     on_success (spi_send flash [if enabled then SFUD_CMD_WRITE_ENABLE else SFUD_CMD_WRITE_DISABLE] b) (\<lambda>b. do {
       let (result, register_status, b) = sfud_read_status flash b;
       if result = SFUD_SUCCESS then do {
         st \<leftarrow> rd register_status 0;
         if enabled \<and> st AND SFUD_STATUS_REGISTER_WEL = 0 then Some (SFUD_ERR_WRITE, b)
         else if \<not> enabled \<and> st AND SFUD_STATUS_REGISTER_WEL \<noteq> 0 then Some (SFUD_ERR_WRITE, b)
         else Some (result, b) }
       else Some (result, b) })"

definition make_adress_byte_array :: "'b sfud_flash \<Rightarrow> u32 \<Rightarrow> u8 list" where
  "make_adress_byte_array flash addr =
     (let len = (if addr_in_4_byte flash then 4 else 3)
      in map (\<lambda>i. ucast (drop_bit ((len - (i + 1)) * 8) addr AND 0xFF)) [0..<len])"

definition sfud_write_status :: "'b sfud_flash \<Rightarrow> bool \<Rightarrow> u8 \<Rightarrow> 'b \<Rightarrow> (sfud_err \<times> 'b) option" where
  "sfud_write_status flash is_volatile status b =
     on_success (if is_volatile then spi_send flash [SFUD_VOLATILE_SR_WRITE_ENABLE] b
                 else set_write_enabled flash True b)
       (\<lambda>b. spi_send flash [SFUD_CMD_WRITE_STATUS_REGISTER, status] b)"

text \<open>The exit of the routines that write: the result stays that of the work.\<close>

definition write_exit :: "'b sfud_flash \<Rightarrow> (sfud_err \<times> 'b) option \<Rightarrow> (sfud_err \<times> 'b) option" where
  "write_exit flash m = do {
     (result, b) \<leftarrow> m;
     (_, b) \<leftarrow> set_write_enabled flash False b;
     Some (result, unlock_spi flash b) }"

section \<open>Reading\<close>

text \<open>The answer holds the bytes that were received: none when the transfer was not made.\<close>

definition sfud_read :: "'b sfud_flash \<Rightarrow> u32 \<Rightarrow> u32 \<Rightarrow> 'b \<Rightarrow> (sfud_err \<times> u8 list \<times> 'b) option" where
  "sfud_read flash addr n b =
     (if \<not> init_ok flash then None
      else if addr + n > capacity (chip flash) then Some (SFUD_ERR_ADDR_OUT_OF_BOUND, [], b)
      else do {
        b \<leftarrow> lock_spi flash b;
        (result, b) \<leftarrow> wait_busy flash b;
        let (result, data, b) =
          (if result = SFUD_SUCCESS then
             if instruction (read_cmd_format flash) \<noteq> SFUD_CMD_READ_DATA
             then qspi_read (spi flash) addr (read_cmd_format flash) (unat n) b
             else spi_wr (spi flash) (SFUD_CMD_READ_DATA # make_adress_byte_array flash addr) (unat n) b
           else (result, [], b));
        Some (result, data, unlock_spi flash b) })"

section \<open>Erasing\<close>

definition sfud_chip_erase :: "'b sfud_flash \<Rightarrow> 'b \<Rightarrow> (sfud_err \<times> 'b) option" where
  "sfud_chip_erase flash b =
     (if \<not> init_ok flash then None
      else do {
        b \<leftarrow> lock_spi flash b;
        write_exit flash
          (on_success (set_write_enabled flash True b) (\<lambda>b.
             on_success (spi_send flash
               (if write_mode (chip flash) AND SFUD_WM_DUAL_BUFFER \<noteq> 0
                then [SFUD_CMD_ERASE_CHIP, 0x94, 0x80, 0x9A] else [SFUD_CMD_ERASE_CHIP]) b) (\<lambda>b.
             wait_busy flash b))) })"

text \<open>
  \<open>sfud_sfdp_get_suitable_eraser\<close> of \<^verbatim>\<open>sfud_sfdp.c\<close>: the largest eraser, from the end of
  the table, that is not larger than the rest to erase and that the address is aligned to.
\<close>

fun suitable_eraser_loop :: "(u32 \<times> u8) list \<Rightarrow> u32 \<Rightarrow> u32 \<Rightarrow> nat \<Rightarrow> nat option" where
  "suitable_eraser_loop es addr erase_size i = do {
     (sz, cmd) \<leftarrow> rd es i;
     if sz \<noteq> 0 \<and> erase_size \<ge> sz \<and> addr mod sz = 0 then Some i
     else case i of 0 \<Rightarrow> Some 0 | Suc i' \<Rightarrow> suitable_eraser_loop es addr erase_size i' }"

declare suitable_eraser_loop.simps [simp del]

definition sfud_sfdp_get_suitable_eraser :: "'b sfud_flash \<Rightarrow> u32 \<Rightarrow> u32 \<Rightarrow> nat option" where
  "sfud_sfdp_get_suitable_eraser flash addr erase_size =
     (if \<not> available (sfdp flash) then None
      else do {
        (smallest, cmd) \<leftarrow> rd (eraser (sfdp flash)) 0;
        if smallest = 0 then None
        else if addr mod smallest \<noteq> 0 then Some 0
        else suitable_eraser_loop (eraser (sfdp flash)) addr erase_size (SFUD_SFDP_ERASE_TYPE_MAX_NUM - 1) })"

definition current_eraser :: "'b sfud_flash \<Rightarrow> u32 \<Rightarrow> u32 \<Rightarrow> (u32 \<times> u8) option" where
  "current_eraser flash addr n =
     (if available (sfdp flash) then do {
        eraser_index \<leftarrow> sfud_sfdp_get_suitable_eraser flash addr n;
        rd (eraser (sfdp flash)) eraser_index }
      else Some (erase_gran (chip flash), erase_gran_cmd (chip flash)))"

text \<open>The distance to the next unit: the rest of the unit when the address is inside one.\<close>

definition erase_step :: "u32 \<Rightarrow> u32 \<Rightarrow> u32" where
  "erase_step sz addr = (if addr mod sz \<noteq> 0 then sz - (addr mod sz) else sz)"

function erase_loop :: "'b sfud_flash \<Rightarrow> u32 \<Rightarrow> u32 \<Rightarrow> 'b \<Rightarrow> (sfud_err \<times> 'b) option" where
  "erase_loop flash addr n b =
     (if n = 0 then Some (SFUD_SUCCESS, b)
      else case current_eraser flash addr n of
        None \<Rightarrow> None
      | Some er \<Rightarrow>
          on_success (set_write_enabled flash True b) (\<lambda>b.
          on_success (spi_send flash (snd er # make_adress_byte_array flash addr) b) (\<lambda>b.
          on_success (wait_busy flash b) (\<lambda>b.
            if fst er = 0 then None
            else if n > erase_step (fst er) addr
            then erase_loop flash (addr + erase_step (fst er) addr) (n - erase_step (fst er) addr) b
            else Some (SFUD_SUCCESS, b)))))"
  by (pat_completeness, elim Pair_inject, hypsubst, rule refl)

lemma word_mod_gap_pos: "sz \<noteq> 0 \<Longrightarrow> 0 < sz - addr mod sz" for sz addr :: u32
  by (metis eq_iff_diff_eq_0 not_gr_zero word_gt_0 word_mod_less_divisor less_irrefl)

lemma erase_step_pos: "sz \<noteq> 0 \<Longrightarrow> 0 < erase_step sz addr"
  using word_mod_gap_pos[of sz addr] by (auto simp: erase_step_def word_gt_0)

termination erase_loop
proof (relation "measure (\<lambda>(_, _, n, _). unat n)", goal_cases)
  case (2 flash addr n b er b1 b2 b3)
  then have d: "0 < erase_step (fst er) addr" "erase_step (fst er) addr < n" using erase_step_pos by simp_all
  then have "unat (n - erase_step (fst er) addr) = unat n - unat (erase_step (fst er) addr)" by (simp add: unat_sub)
  then show ?case using d by (simp add: word_less_nat_alt)
qed simp

declare erase_loop.simps [simp del]

definition sfud_erase :: "'b sfud_flash \<Rightarrow> u32 \<Rightarrow> u32 \<Rightarrow> 'b \<Rightarrow> (sfud_err \<times> 'b) option" where
  "sfud_erase flash addr n b =
     (if \<not> init_ok flash then None
      else if addr + n > capacity (chip flash) then Some (SFUD_ERR_ADDR_OUT_OF_BOUND, b)
      else if addr = 0 \<and> n = capacity (chip flash) then sfud_chip_erase flash b
      else do {
        b \<leftarrow> lock_spi flash b;
        write_exit flash (erase_loop flash addr n b) })"

section \<open>Writing\<close>

text \<open>
  The bytes of one page program: to the end of the page when the data goes further. The
  data is copied behind the command in a static buffer of \<open>5 + SFUD_WRITE_MAX_PAGE_SIZE\<close> bytes;
  a copy that leaves the buffer or the data is \<open>None\<close>.
\<close>

definition page_chunk :: "u16 \<Rightarrow> u32 \<Rightarrow> u32 \<Rightarrow> u32" where
  "page_chunk write_gran addr n =
     (if addr mod ucast write_gran \<noteq> 0 then
        (if n > ucast write_gran - (addr mod ucast write_gran)
         then ucast write_gran - (addr mod ucast write_gran) else n)
      else (if n > ucast write_gran then ucast write_gran else n))"

definition page_command :: "'b sfud_flash \<Rightarrow> u32 \<Rightarrow> u8 list \<Rightarrow> u32 \<Rightarrow> u8 list option" where
  "page_command flash addr data data_size =
     (let cmd = SFUD_CMD_PAGE_PROGRAM # make_adress_byte_array flash addr
      in if length cmd + unat data_size \<le> 5 + SFUD_WRITE_MAX_PAGE_SIZE
         then map_option ((@) cmd) (rd_blk data 0 (unat data_size)) else None)"

function page_write_loop :: "'b sfud_flash \<Rightarrow> u32 \<Rightarrow> u32 \<Rightarrow> u16 \<Rightarrow> u8 list \<Rightarrow> 'b \<Rightarrow> (sfud_err \<times> 'b) option" where
  "page_write_loop flash addr n write_gran data b =
     (if n = 0 then Some (SFUD_SUCCESS, b)
      else if write_gran = 0 then None
      else
        let data_size = page_chunk write_gran addr n in
        on_success (set_write_enabled flash True b) (\<lambda>b.
        case page_command flash addr data data_size of
          None \<Rightarrow> None
        | Some cmd \<Rightarrow>
            on_success (spi_send flash cmd b) (\<lambda>b.
            on_success (wait_busy flash b) (\<lambda>b.
              page_write_loop flash (addr + data_size) (n - data_size) write_gran (drop (unat data_size) data) b))))"
  by (pat_completeness, elim Pair_inject, hypsubst, rule refl)

lemma page_chunk_bounds:
  assumes "n \<noteq> 0" "g \<noteq> 0"
  shows "0 < page_chunk g a n" "page_chunk g a n \<le> n" "page_chunk g a n \<le> ucast g"
    "unat (a mod ucast g) + unat (page_chunk g a n) \<le> unat g"
proof -
  let ?g = "ucast g :: u32"
  have ug: "unat ?g = unat g" by (simp add: unsigned_ucast_eq take_bit_nat_eq_self_iff order.strict_trans[OF unsigned_less])
  have g: "?g \<noteq> 0" using assms(2) ug by (metis unat_0 unat_eq_0)
  have m: "a mod ?g < ?g" using g by (simp add: word_gt_0 word_mod_less_divisor)
  have p: "0 < ?g - a mod ?g" by (rule word_mod_gap_pos[OF g])
  have s: "unat (?g - a mod ?g) = unat ?g - unat (a mod ?g)" using m by (simp add: unat_sub)
  have l: "?g - a mod ?g \<le> ?g" using m s by (simp add: word_le_nat_alt)
  have n: "0 < n" using assms(1) by (simp add: word_gt_0)
  show "0 < page_chunk g a n" using p n g by (auto simp: page_chunk_def word_gt_0)
  show "page_chunk g a n \<le> n" by (auto simp: page_chunk_def)
  show "page_chunk g a n \<le> ?g" using l by (auto simp: page_chunk_def)
  show "unat (a mod ?g) + unat (page_chunk g a n) \<le> unat g"
    using m s ug by (auto simp: page_chunk_def word_less_nat_alt word_le_nat_alt not_less)
qed

termination page_write_loop
proof (relation "measure (\<lambda>(_, _, n, _, _, _). unat n)", goal_cases)
  case (2 flash addr n g data b d b1 cmd b2 b3)
  then have b: "0 < d" "d \<le> n" using page_chunk_bounds[of n g addr] by simp_all
  then have "unat (n - d) = unat n - unat d" by (simp add: unat_sub)
  then show ?case using b by (simp add: word_less_nat_alt word_le_nat_alt)
qed simp

declare page_write_loop.simps [simp del]

definition page256_or_1_byte_write :: "'b sfud_flash \<Rightarrow> u32 \<Rightarrow> u32 \<Rightarrow> u16 \<Rightarrow> u8 list \<Rightarrow> 'b \<Rightarrow> (sfud_err \<times> 'b) option" where
  "page256_or_1_byte_write flash addr n write_gran data b =
     (if \<not> (write_gran = 1 \<or> write_gran = 256) then None
      else if \<not> init_ok flash then None
      else if addr + n > capacity (chip flash) then Some (SFUD_ERR_ADDR_OUT_OF_BOUND, b)
      else do {
        b \<leftarrow> lock_spi flash b;
        write_exit flash (page_write_loop flash addr n write_gran data b) })"

text \<open>
  Auto address increment: the address goes with the first word only. The tail behind the loop
  leaves the mode and writes the odd last byte.
\<close>

function aai_loop :: "'b sfud_flash \<Rightarrow> bool \<Rightarrow> u32 \<Rightarrow> u32 \<Rightarrow> u8 list \<Rightarrow> 'b \<Rightarrow> (sfud_err \<times> 'b) option" where
  "aai_loop flash first_write addr n data b =
     (if n \<ge> 2 then do {
        d0 \<leftarrow> rd data 0;
        d1 \<leftarrow> rd data 1;
        on_success (spi_send flash (SFUD_CMD_AAI_WORD_PROGRAM #
            (if first_write then make_adress_byte_array flash addr else []) @ [d0, d1]) b) (\<lambda>b.
        on_success (wait_busy flash b) (\<lambda>b.
          aai_loop flash False (addr + 2) (n - 2) (drop 2 data) b)) }
      else on_success (set_write_enabled flash False b) (\<lambda>b.
        if n = 1 then page256_or_1_byte_write flash addr 1 1 data b else Some (SFUD_SUCCESS, b)))"
  by (pat_completeness, elim Pair_inject, hypsubst, rule refl)

termination aai_loop
proof (relation "measure (\<lambda>(_, _, _, n, _, _). unat n)", goal_cases)
  case (2 flash first addr n)
  then have "unat (n - 2) = unat n - 2" by (simp add: unat_sub)
  then show ?case using 2 by (simp add: word_le_nat_alt)
qed simp

declare aai_loop.simps [simp del]

definition aai_write :: "'b sfud_flash \<Rightarrow> u32 \<Rightarrow> u32 \<Rightarrow> u8 list \<Rightarrow> 'b \<Rightarrow> (sfud_err \<times> 'b) option" where
  "aai_write flash addr n data b =
     (if \<not> init_ok flash then None
      else if addr + n > capacity (chip flash) then Some (SFUD_ERR_ADDR_OUT_OF_BOUND, b)
      else do {
        b \<leftarrow> lock_spi flash b;
        (result, b) \<leftarrow>
          (if addr mod 2 \<noteq> 0 then
             on_success (page256_or_1_byte_write flash addr 1 1 data b) (\<lambda>b.
             on_success (set_write_enabled flash True b) (\<lambda>b.
             aai_loop flash True (addr + 1) (n - 1) (drop 1 data) b))
           else on_success (set_write_enabled flash True b) (aai_loop flash True addr n data));
        (_, b) \<leftarrow> (if result \<noteq> SFUD_SUCCESS then set_write_enabled flash False b else Some (result, b));
        Some (result, unlock_spi flash b) })"

definition sfud_write :: "'b sfud_flash \<Rightarrow> u32 \<Rightarrow> u8 list \<Rightarrow> 'b \<Rightarrow> (sfud_err \<times> 'b) option" where
  "sfud_write flash addr data b =
     (let n = of_nat (length data); wm = write_mode (chip flash) in
      if wm AND SFUD_WM_PAGE_256B \<noteq> 0 then page256_or_1_byte_write flash addr n 256 data b
      else if wm AND SFUD_WM_AAI \<noteq> 0 then aai_write flash addr n data b
      else if wm AND SFUD_WM_DUAL_BUFFER \<noteq> 0 then Some (SFUD_SUCCESS, b)
      else Some (SFUD_SUCCESS, b))"

definition sfud_erase_write :: "'b sfud_flash \<Rightarrow> u32 \<Rightarrow> u8 list \<Rightarrow> 'b \<Rightarrow> (sfud_err \<times> 'b) option" where
  "sfud_erase_write flash addr data b =
     on_success (sfud_erase flash addr (of_nat (length data)) b) (sfud_write flash addr data)"

section \<open>Fast read\<close>

definition qspi_set_read_cmd_format :: "u8 \<Rightarrow> u8 \<Rightarrow> u8 \<Rightarrow> u8 \<Rightarrow> u8 \<Rightarrow> 'b sfud_flash \<Rightarrow> 'b sfud_flash" where
  "qspi_set_read_cmd_format ins ins_lines addr_lines dummy_cyc dat_lines flash =
     (let small = capacity (chip flash) \<le> 0x1000000 in
      flash\<lparr>read_cmd_format := \<lparr>instruction = (if small then ins else ins + 1), instruction_lines = ins_lines,
        address_size = (if small then 24 else 32), address_lines = addr_lines, alternate_bytes_lines = 0,
        dummy_cycles = dummy_cyc, data_lines = dat_lines\<rparr>\<rparr>)"

definition NORMAL_SPI_READ :: u8 where "NORMAL_SPI_READ = 1"
definition DUAL_OUTPUT :: u8 where "DUAL_OUTPUT = 2"
definition DUAL_IO :: u8 where "DUAL_IO = 4"
definition QUAD_OUTPUT :: u8 where "QUAD_OUTPUT = 8"
definition QUAD_IO :: u8 where "QUAD_IO = 16"

text \<open>The rows of the table: manufacturer, type, capacity, read modes.\<close>

definition qspi_flash_ext_info_table :: "(u8 \<times> u8 \<times> u8 \<times> u8) list" where
  "qspi_flash_ext_info_table =
    [(0xEF, 0x40, 0x13, NORMAL_SPI_READ OR DUAL_OUTPUT),
     (0xEF, 0x40, 0x14, NORMAL_SPI_READ OR DUAL_OUTPUT),
     (0xEF, 0x40, 0x15, NORMAL_SPI_READ OR DUAL_OUTPUT),
     (0xEF, 0x40, 0x16, NORMAL_SPI_READ OR DUAL_OUTPUT OR QUAD_OUTPUT OR QUAD_IO),
     (0xEF, 0x40, 0x17, NORMAL_SPI_READ OR DUAL_OUTPUT OR DUAL_IO OR QUAD_OUTPUT OR QUAD_IO),
     (0xEF, 0x40, 0x18, NORMAL_SPI_READ OR DUAL_OUTPUT OR DUAL_IO OR QUAD_OUTPUT OR QUAD_IO),
     (0xEF, 0x40, 0x19, NORMAL_SPI_READ OR DUAL_OUTPUT OR DUAL_IO OR QUAD_OUTPUT OR QUAD_IO),
     (0x1C, 0x30, 0x16, NORMAL_SPI_READ OR DUAL_OUTPUT OR QUAD_IO),
     (0x01, 0x40, 0x15, NORMAL_SPI_READ OR DUAL_OUTPUT),
     (0x37, 0x30, 0x14, NORMAL_SPI_READ OR DUAL_OUTPUT OR DUAL_IO),
     (0x37, 0x40, 0x17, NORMAL_SPI_READ OR DUAL_OUTPUT OR DUAL_IO OR QUAD_IO),
     (0xC2, 0x20, 0x16, NORMAL_SPI_READ OR DUAL_OUTPUT),
     (0xC8, 0x40, 0x17, NORMAL_SPI_READ OR DUAL_OUTPUT)]"

text \<open>A line width other than 1, 2 and 4 fails the assertion.\<close>

definition sfud_qspi_fast_read_enable :: "u8 \<Rightarrow> 'b sfud_flash \<Rightarrow> (sfud_err \<times> 'b sfud_flash) option" where
  "sfud_qspi_fast_read_enable data_line_width flash =
     (let c = chip flash;
          read_mode = fold (\<lambda>(mf, ty, cap, rm) m. if mf = mf_id c \<and> ty = type_id c \<and> cap = capacity_id c then rm else m)
            qspi_flash_ext_info_table NORMAL_SPI_READ
      in if data_line_width = 1 then
        Some (SFUD_SUCCESS, qspi_set_read_cmd_format SFUD_CMD_READ_DATA 1 1 0 1 flash)
      else if data_line_width = 2 then
        Some (SFUD_SUCCESS,
          if read_mode AND DUAL_IO \<noteq> 0 then qspi_set_read_cmd_format SFUD_CMD_DUAL_IO_READ_DATA 1 2 8 2 flash
          else if read_mode AND DUAL_OUTPUT \<noteq> 0 then qspi_set_read_cmd_format SFUD_CMD_DUAL_OUTPUT_READ_DATA 1 1 8 2 flash
          else qspi_set_read_cmd_format SFUD_CMD_READ_DATA 1 1 0 1 flash)
      else if data_line_width = 4 then
        Some (SFUD_SUCCESS,
          if read_mode AND QUAD_IO \<noteq> 0 then qspi_set_read_cmd_format SFUD_CMD_QUAD_IO_READ_DATA 1 4 6 4 flash
          else if read_mode AND QUAD_OUTPUT \<noteq> 0 then qspi_set_read_cmd_format SFUD_CMD_QUAD_OUTPUT_READ_DATA 1 1 8 4 flash
          else qspi_set_read_cmd_format SFUD_CMD_READ_DATA 1 1 0 1 flash)
      else None)"

end
