(* ===== verification/Sfud_Init.thy ===== *)
theory Sfud_Init
  imports Sfud
begin

text \<open>
  The start of a serial flash device: the SFDP parameters of \<^verbatim>\<open>sfud_sfdp.c\<close>, the chip table
  of \<^verbatim>\<open>sfud_flash_def.h\<close> and the initialisation of \<^verbatim>\<open>sfud.c\<close>. The hook
  \<open>sfud_spi_port_init\<close>, which the user writes, is a parameter.
\<close>

section \<open>SFDP\<close>

definition SUPPORT_MAX_SFDP_MAJOR_REV :: u8 where "SUPPORT_MAX_SFDP_MAJOR_REV = 1"
definition BASIC_TABLE_LEN :: nat where "BASIC_TABLE_LEN = 9"

record sfdp_para_header =
  ph_id :: u8
  ph_minor_rev :: u8
  ph_major_rev :: u8
  ph_len :: u8
  ph_ptp :: u32

text \<open>The buffer of the caller, of \<open>n\<close> bytes and cleared, with what was received.\<close>

definition read_sfdp_data :: "'b sfud_flash \<Rightarrow> u32 \<Rightarrow> nat \<Rightarrow> 'b \<Rightarrow> (sfud_err \<times> u8 list \<times> 'b) option" where
  "read_sfdp_data flash addr n b =
     (if \<not> addr < 2 ^ 24 then None
      else do {
        let (result, data, b) = spi_wr (spi flash) [SFUD_CMD_READ_SFDP_REGISTER, ucast (drop_bit 16 addr AND 0xFF),
            ucast (drop_bit 8 addr AND 0xFF), ucast (addr AND 0xFF), SFUD_DUMMY_DATA] n b;
        buf \<leftarrow> wr_blk (replicate n 0) 0 data;
        Some (result, buf, b) })"

definition read_sfdp_header :: "'b sfud_flash \<Rightarrow> 'b \<Rightarrow> (bool \<times> 'b sfud_flash \<times> 'b) option" where
  "read_sfdp_header flash b = do {
     let flash = flash\<lparr>sfdp := (sfdp flash)\<lparr>available := False\<rparr>\<rparr>;
     (result, header, b) \<leftarrow> read_sfdp_data flash 0 8 b;
     if result \<noteq> SFUD_SUCCESS then Some (False, flash, b)
     else if take 4 header \<noteq> [0x53, 0x46, 0x44, 0x50] then Some (False, flash, b)
     else
       let flash = flash\<lparr>sfdp := (sfdp flash)\<lparr>minor_rev := header ! 4, major_rev := header ! 5\<rparr>\<rparr>
       in Some (\<not> header ! 5 > SUPPORT_MAX_SFDP_MAJOR_REV, flash, b) }"

definition read_basic_header :: "'b sfud_flash \<Rightarrow> 'b \<Rightarrow> (bool \<times> sfdp_para_header \<times> 'b) option" where
  "read_basic_header flash b = do {
     (result, header, b) \<leftarrow> read_sfdp_data flash 8 8 b;
     let basic = \<lparr>ph_id = header ! 0, ph_minor_rev = header ! 1, ph_major_rev = header ! 2, ph_len = header ! 3,
       ph_ptp = ucast (header ! 4) OR push_bit 8 (ucast (header ! 5)) OR push_bit 16 (ucast (header ! 6))\<rparr>;
     Some (result = SFUD_SUCCESS \<and> \<not> ph_major_rev basic > SUPPORT_MAX_SFDP_MAJOR_REV \<and>
             \<not> unat (ph_len basic) < BASIC_TABLE_LEN, basic, b) }"

text \<open>
  The capacity in bytes; the inner option is an answer of no success. \<open>1L << n\<close> is a shift of
  a 32-bit word: a count that does not fit is \<open>None\<close>.
\<close>

definition shl1 :: "nat \<Rightarrow> u32 option" where
  "shl1 n = (if n < 32 then Some (push_bit n 1) else None)"

definition table_word :: "u8 list \<Rightarrow> nat \<Rightarrow> u32" where
  "table_word table i = push_bit 24 (ucast (table ! (i + 3))) OR push_bit 16 (ucast (table ! (i + 2))) OR
     push_bit 8 (ucast (table ! (i + 1))) OR ucast (table ! i)"

definition sfdp_capacity_of :: "u8 list \<Rightarrow> (bool \<times> u32) option" where
  "sfdp_capacity_of table =
     (let temp = table_word table 4 in
      if drop_bit 7 (table ! 7 AND 0x80) = 0 then Some (True, 1 + drop_bit 3 temp)
      else let temp = temp AND 0x7FFFFFFF in
        if temp > 4 * 8 + 3 then Some (False, 0)
        else if temp < 3 then None
        else map_option (\<lambda>c. (True, c)) (shl1 (unat temp - 3)))"

text \<open>The erasers the table names, packed to the front, then sorted by their size.\<close>

fun pack_erasers :: "u8 list \<Rightarrow> nat list \<Rightarrow> nat \<Rightarrow> (u32 \<times> u8) list \<Rightarrow> (u32 \<times> u8) list option" where
  "pack_erasers table [] j es = Some es"
| "pack_erasers table (i # is) j es =
     (if table ! (28 + 2 * i) \<noteq> 0 then do {
        sz \<leftarrow> shl1 (unat (table ! (28 + 2 * i)));
        es \<leftarrow> wr es j (sz, table ! (28 + 2 * i + 1));
        pack_erasers table is (j + 1) es }
      else pack_erasers table is j es)"

definition swap_larger :: "nat \<Rightarrow> nat \<Rightarrow> (u32 \<times> u8) list \<Rightarrow> (u32 \<times> u8) list" where
  "swap_larger i j es =
     (if fst (es ! j) \<noteq> 0 \<and> fst (es ! i) > fst (es ! j) then es[i := es ! j, j := es ! i] else es)"

definition sort_erasers :: "(u32 \<times> u8) list \<Rightarrow> (u32 \<times> u8) list" where
  "sort_erasers es =
     fold (\<lambda>i es. if fst (es ! i) \<noteq> 0 then fold (swap_larger i) [i + 1..<SFUD_SFDP_ERASE_TYPE_MAX_NUM] es else es)
       [0..<SFUD_SFDP_ERASE_TYPE_MAX_NUM] es"

text \<open>
  The switches on single bits of the table: 4 KB erase, write granularity, write enable of the
  status register, address bytes.
\<close>

definition parse_erase_4k :: "u8 list \<Rightarrow> sfud_sfdp \<Rightarrow> bool \<times> sfud_sfdp" where
  "parse_erase_4k table p =
     (let p = p\<lparr>erase_4k_cmd := table ! 1\<rparr>; bits = table ! 0 AND 0x03
      in if bits = 1 then (True, p\<lparr>erase_4k := True\<rparr>)
         else if bits = 3 then (True, p\<lparr>erase_4k := False\<rparr>) else (False, p))"

definition parse_write_gran :: "u8 list \<Rightarrow> sfud_sfdp \<Rightarrow> sfud_sfdp" where
  "parse_write_gran table p = p\<lparr>sfdp_write_gran := (if drop_bit 2 (table ! 0 AND 0x04) = 0 then 1 else 256)\<rparr>"

definition parse_status_register :: "u8 list \<Rightarrow> sfud_sfdp \<Rightarrow> sfud_sfdp" where
  "parse_status_register table p =
     (if drop_bit 3 (table ! 0 AND 0x08) = 0 then p\<lparr>sr_is_non_vola := True\<rparr>
      else p\<lparr>sr_is_non_vola := False,
             vola_sr_we_cmd := (if drop_bit 4 (table ! 0 AND 0x10) = 0 then SFUD_VOLATILE_SR_WRITE_ENABLE
                                else SFUD_CMD_WRITE_ENABLE)\<rparr>)"

definition parse_addr_bytes :: "u8 list \<Rightarrow> sfud_sfdp \<Rightarrow> bool \<times> sfud_sfdp" where
  "parse_addr_bytes table p =
     (let bits = drop_bit 1 (table ! 2 AND 0x06)
      in if bits = 0 then (True, p\<lparr>addr_3_byte := True, addr_4_byte := False\<rparr>)
         else if bits = 1 then (True, p\<lparr>addr_3_byte := True, addr_4_byte := True\<rparr>)
         else if bits = 2 then (True, p\<lparr>addr_3_byte := False, addr_4_byte := True\<rparr>)
         else (False, p\<lparr>addr_3_byte := False, addr_4_byte := False\<rparr>))"

definition parse_erasers :: "u8 list \<Rightarrow> sfud_sfdp \<Rightarrow> (bool \<times> sfud_sfdp) option" where
  "parse_erasers table p = do {
     es \<leftarrow> pack_erasers table [0..<SFUD_SFDP_ERASE_TYPE_MAX_NUM] 0 (eraser p);
     Some (True, p\<lparr>eraser := sort_erasers es, available := True\<rparr>) }"

definition parse_basic_table :: "u8 list \<Rightarrow> sfud_sfdp \<Rightarrow> (bool \<times> sfud_sfdp) option" where
  "parse_basic_table table p = do {
     let (ok, p) = parse_erase_4k table p;
     if \<not> ok then Some (False, p)
     else do {
       let (ok, p) = parse_addr_bytes table (parse_status_register table (parse_write_gran table p));
       if \<not> ok then Some (False, p)
       else do {
         (ok, cap) \<leftarrow> sfdp_capacity_of table;
         let p = p\<lparr>sfdp_capacity := cap\<rparr>;
         if \<not> ok then Some (False, p) else parse_erasers table p } } }"

definition read_basic_table :: "'b sfud_flash \<Rightarrow> sfdp_para_header \<Rightarrow> 'b \<Rightarrow> (bool \<times> 'b sfud_flash \<times> 'b) option" where
  "read_basic_table flash basic b = do {
     (result, table, b) \<leftarrow> read_sfdp_data flash (ph_ptp basic) (BASIC_TABLE_LEN * 4) b;
     if result \<noteq> SFUD_SUCCESS then Some (False, flash, b)
     else do {
       (ok, p) \<leftarrow> parse_basic_table table (sfdp flash);
       Some (ok, flash\<lparr>sfdp := p\<rparr>, b) } }"

definition sfud_read_sfdp :: "'b sfud_flash \<Rightarrow> 'b \<Rightarrow> (bool \<times> 'b sfud_flash \<times> 'b) option" where
  "sfud_read_sfdp flash b = do {
     (ok, flash, b) \<leftarrow> read_sfdp_header flash b;
     if \<not> ok then Some (False, flash, b)
     else do {
       (ok, basic, b) \<leftarrow> read_basic_header flash b;
       if ok then read_basic_table flash basic b else Some (False, flash, b) } }"

section \<open>Tables\<close>

definition chip_row :: "string \<Rightarrow> u8 \<Rightarrow> u8 \<Rightarrow> u8 \<Rightarrow> u32 \<Rightarrow> u16 \<Rightarrow> u32 \<Rightarrow> u8 \<Rightarrow> sfud_flash_chip" where
  "chip_row name mf ty cid cap wm gran cmd = \<lparr>chip_name = Some name, mf_id = mf, type_id = ty, capacity_id = cid,
     capacity = cap, write_mode = wm, erase_gran = gran, erase_gran_cmd = cmd\<rparr>"

definition flash_chip_table :: "sfud_flash_chip list" where
  "flash_chip_table =
    [chip_row ''AT45DB161E'' 0x1F 0x26 0x00 (2*1024*1024) (SFUD_WM_BYTE OR SFUD_WM_DUAL_BUFFER) 512 0x81,
     chip_row ''W25Q40BV'' 0xEF 0x40 0x13 (512*1024) SFUD_WM_PAGE_256B 4096 0x20,
     chip_row ''W25Q16BV'' 0xEF 0x40 0x15 (2*1024*1024) SFUD_WM_PAGE_256B 4096 0x20,
     chip_row ''W25Q32BV'' 0xEF 0x40 0x16 (4*1024*1024) SFUD_WM_PAGE_256B 4096 0x20,
     chip_row ''W25Q64CV'' 0xEF 0x40 0x17 (8*1024*1024) SFUD_WM_PAGE_256B 4096 0x20,
     chip_row ''W25Q64DW'' 0xEF 0x60 0x17 (8*1024*1024) SFUD_WM_PAGE_256B 4096 0x20,
     chip_row ''W25Q128BV'' 0xEF 0x40 0x18 (16*1024*1024) SFUD_WM_PAGE_256B 4096 0x20,
     chip_row ''W25Q256FV'' 0xEF 0x40 0x19 (32*1024*1024) SFUD_WM_PAGE_256B 4096 0x20,
     chip_row ''SST25VF080B'' 0xBF 0x25 0x8E (1*1024*1024) (SFUD_WM_BYTE OR SFUD_WM_AAI) 4096 0x20,
     chip_row ''SST25VF016B'' 0xBF 0x25 0x41 (2*1024*1024) (SFUD_WM_BYTE OR SFUD_WM_AAI) 4096 0x20,
     chip_row ''M25P32'' 0x20 0x20 0x16 (4*1024*1024) SFUD_WM_PAGE_256B (64*1024) 0xD8,
     chip_row ''M25P80'' 0x20 0x20 0x14 (1*1024*1024) SFUD_WM_PAGE_256B (64*1024) 0xD8,
     chip_row ''M25P40'' 0x20 0x20 0x13 (512*1024) SFUD_WM_PAGE_256B (64*1024) 0xD8,
     chip_row ''EN25Q32B'' 0x1C 0x30 0x16 (4*1024*1024) SFUD_WM_PAGE_256B 4096 0x20,
     chip_row ''GD25Q64B'' 0xC8 0x40 0x17 (8*1024*1024) SFUD_WM_PAGE_256B 4096 0x20,
     chip_row ''GD25Q16B'' 0xC8 0x40 0x15 (2*1024*1024) SFUD_WM_PAGE_256B 4096 0x20,
     chip_row ''GD25Q32C'' 0xC8 0x40 0x16 (4*1024*1024) SFUD_WM_PAGE_256B 4096 0x20,
     chip_row ''S25FL216K'' 0x01 0x40 0x15 (2*1024*1024) SFUD_WM_PAGE_256B 4096 0x20,
     chip_row ''S25FL032P'' 0x01 0x02 0x15 (4*1024*1024) SFUD_WM_PAGE_256B 4096 0x20,
     chip_row ''A25L080'' 0x37 0x30 0x14 (1*1024*1024) SFUD_WM_PAGE_256B 4096 0x20,
     chip_row ''F25L004'' 0x8C 0x20 0x13 (512*1024) (SFUD_WM_BYTE OR SFUD_WM_AAI) 4096 0x20,
     chip_row ''PCT25VF016B'' 0xBF 0x25 0x41 (2*1024*1024) (SFUD_WM_BYTE OR SFUD_WM_AAI) 4096 0x20,
     chip_row ''NM25Q128EV'' 0x52 0x21 0x18 (16*1024*1024) SFUD_WM_PAGE_256B 4096 0x20]"

section \<open>Initialisation\<close>

definition read_jedec_id :: "'b sfud_flash \<Rightarrow> 'b \<Rightarrow> (sfud_err \<times> 'b sfud_flash \<times> 'b) option" where
  "read_jedec_id flash b = do {
     let (result, recv_data, b) = spi_wr (spi flash) [SFUD_CMD_JEDEC_ID] 3 b;
     if result = SFUD_SUCCESS then do {
       mf \<leftarrow> rd recv_data 0;
       ty \<leftarrow> rd recv_data 1;
       cap \<leftarrow> rd recv_data 2;
       Some (result, flash\<lparr>chip := (chip flash)\<lparr>mf_id := mf, type_id := ty, capacity_id := cap\<rparr>\<rparr>, b) }
     else Some (result, flash, b) }"

definition reset :: "'b sfud_flash \<Rightarrow> 'b \<Rightarrow> (sfud_err \<times> 'b) option" where
  "reset flash b =
     on_success (spi_send flash [SFUD_CMD_ENABLE_RESET] b) (\<lambda>b. do {
       (result, b) \<leftarrow> wait_busy flash b;
       on_success (spi_send flash [SFUD_CMD_RESET] b) (wait_busy flash) })"

definition set_4_byte_address_mode :: "'b sfud_flash \<Rightarrow> bool \<Rightarrow> 'b \<Rightarrow> (sfud_err \<times> 'b sfud_flash \<times> 'b) option" where
  "set_4_byte_address_mode flash enabled b = do {
     (result, b) \<leftarrow> set_write_enabled flash True b;
     if result \<noteq> SFUD_SUCCESS then Some (result, flash, b)
     else do {
       (result, b) \<leftarrow> spi_send flash [if enabled then SFUD_CMD_ENTER_4B_ADDRESS_MODE else SFUD_CMD_EXIT_4B_ADDRESS_MODE] b;
       if result = SFUD_SUCCESS then Some (result, flash\<lparr>addr_in_4_byte := enabled\<rparr>, b)
       else Some (result, flash, b) } }"

text \<open>A parameter of the chip is missing: the test of \<open>hardware_init\<close>, made twice.\<close>

definition chip_incomplete :: "sfud_flash_chip \<Rightarrow> bool" where
  "chip_incomplete c \<longleftrightarrow> capacity c = 0 \<or> write_mode c = 0 \<or> erase_gran c = 0 \<or> erase_gran_cmd c = 0"

text \<open>The chip as SFDP describes it, and as the table does.\<close>

definition smallest_eraser :: "(u32 \<times> u8) list \<Rightarrow> u32 \<times> u8" where
  "smallest_eraser es =
     fold (\<lambda>i (sz, cmd). if fst (es ! i) \<noteq> 0 \<and> sz > fst (es ! i) then es ! i else (sz, cmd))
       [1..<SFUD_SFDP_ERASE_TYPE_MAX_NUM] (es ! 0)"

definition chip_of_sfdp :: "sfud_sfdp \<Rightarrow> sfud_flash_chip \<Rightarrow> sfud_flash_chip" where
  "chip_of_sfdp p c = c\<lparr>chip_name := None, capacity := sfdp_capacity p,
     write_mode := (if sfdp_write_gran p = 1 then SFUD_WM_BYTE else SFUD_WM_PAGE_256B),
     erase_gran := fst (smallest_eraser (eraser p)), erase_gran_cmd := snd (smallest_eraser (eraser p))\<rparr>"

definition chip_of_table :: "sfud_flash_chip \<Rightarrow> sfud_flash_chip" where
  "chip_of_table c =
     (case find (\<lambda>r. mf_id r = mf_id c \<and> type_id r = type_id c \<and> capacity_id r = capacity_id c) flash_chip_table of
        None \<Rightarrow> c
      | Some r \<Rightarrow> c\<lparr>chip_name := chip_name r, capacity := capacity r, write_mode := write_mode r,
          erase_gran := erase_gran r, erase_gran_cmd := erase_gran_cmd r\<rparr>)"

text \<open>The parameters come from the user, from SFDP or from the table.\<close>

definition find_chip :: "'b sfud_flash \<Rightarrow> 'b \<Rightarrow> (sfud_err \<times> 'b sfud_flash \<times> 'b) option" where
  "find_chip flash b =
     (if chip_incomplete (chip flash) then do {
        (result, flash, b) \<leftarrow> read_jedec_id flash b;
        if result \<noteq> SFUD_SUCCESS then Some (result, flash, b)
        else do {
          (ok, flash, b) \<leftarrow> sfud_read_sfdp flash b;
          Some (SFUD_SUCCESS, if ok then flash\<lparr>chip := chip_of_sfdp (sfdp flash) (chip flash)\<rparr>
                              else flash\<lparr>chip := chip_of_table (chip flash)\<rparr>, b) } }
      else Some (SFUD_SUCCESS, flash, b))"

text \<open>The work on the chip that was found: reset, unprotect, choose the addresses.\<close>

definition unprotect :: "'b sfud_flash \<Rightarrow> 'b \<Rightarrow> (sfud_err \<times> 'b) option" where
  "unprotect flash b =
     (if write_mode (chip flash) AND SFUD_WM_AAI \<noteq> 0 then sfud_write_status flash True 0x00 b
      else if 0xC2 = mf_id (chip flash) \<and> 0x20 = type_id (chip flash) \<and> 0x16 = capacity_id (chip flash)
      then sfud_write_status flash False 0x00 b
      else Some (SFUD_SUCCESS, b))"

definition start_chip :: "'b sfud_flash \<Rightarrow> 'b \<Rightarrow> (sfud_err \<times> 'b sfud_flash \<times> 'b) option" where
  "start_chip flash b = do {
     (result, b) \<leftarrow> on_success (reset flash b) (unprotect flash);
     if result \<noteq> SFUD_SUCCESS then Some (result, flash, b)
     else if capacity (chip flash) > push_bit 24 1 then set_4_byte_address_mode flash True b
     else Some (result, flash\<lparr>addr_in_4_byte := False\<rparr>, b) }"

type_synonym 'b port_init = "'b sfud_flash \<Rightarrow> 'b \<Rightarrow> sfud_err \<times> 'b sfud_flash \<times> 'b"

definition hardware_init :: "'b port_init \<Rightarrow> 'b sfud_flash \<Rightarrow> 'b \<Rightarrow> (sfud_err \<times> 'b sfud_flash \<times> 'b) option" where
  "hardware_init sfud_spi_port_init flash b = do {
     let (result, flash, b) = sfud_spi_port_init flash b;
     if result \<noteq> SFUD_SUCCESS then Some (result, flash, b)
     else do {
       let flash = flash\<lparr>read_cmd_format := (read_cmd_format flash)\<lparr>instruction := SFUD_CMD_READ_DATA\<rparr>\<rparr>;
       (result, flash, b) \<leftarrow> find_chip flash b;
       if result \<noteq> SFUD_SUCCESS then Some (result, flash, b)
       else if chip_incomplete (chip flash) then Some (SFUD_ERR_NOT_FOUND, flash, b)
       else start_chip flash b } }"

definition software_init :: "'b sfud_flash \<Rightarrow> sfud_err" where
  "software_init flash = SFUD_SUCCESS"

definition sfud_device_init :: "'b port_init \<Rightarrow> 'b sfud_flash \<Rightarrow> 'b \<Rightarrow> (sfud_err \<times> 'b sfud_flash \<times> 'b) option" where
  "sfud_device_init port flash b = do {
     (result, flash, b) \<leftarrow> hardware_init port flash b;
     let result = (if result = SFUD_SUCCESS then software_init flash else result);
     Some (result, flash\<lparr>init_ok := (result = SFUD_SUCCESS)\<rparr>, b) }"

text \<open>The devices of \<open>flash_table\<close> from index \<open>i\<close> on; the last failure is the answer.\<close>

fun sfud_init_loop :: "'b port_init \<Rightarrow> nat \<Rightarrow> 'b sfud_flash list \<Rightarrow> sfud_err \<Rightarrow> 'b \<Rightarrow>
    (sfud_err \<times> 'b sfud_flash list \<times> 'b) option" where
  "sfud_init_loop port i [] all_flash_result b = Some (all_flash_result, [], b)"
| "sfud_init_loop port i (flash # fs) all_flash_result b = do {
     (cur, flash, b) \<leftarrow> sfud_device_init port (flash\<lparr>flash_index := i\<rparr>) b;
     (result, fs, b) \<leftarrow> sfud_init_loop port (i + 1) fs (if cur \<noteq> SFUD_SUCCESS then cur else all_flash_result) b;
     Some (result, flash # fs, b) }"

definition sfud_init :: "'b port_init \<Rightarrow> 'b sfud_flash list \<Rightarrow> 'b \<Rightarrow> (sfud_err \<times> 'b sfud_flash list \<times> 'b) option" where
  "sfud_init port flash_table b = sfud_init_loop port 0 flash_table SFUD_SUCCESS b"

definition sfud_get_device_num :: "'b sfud_flash list \<Rightarrow> nat" where
  "sfud_get_device_num flash_table = length flash_table"

definition sfud_get_device :: "'b sfud_flash list \<Rightarrow> nat \<Rightarrow> 'b sfud_flash option" where
  "sfud_get_device flash_table index =
     (if index < sfud_get_device_num flash_table then Some (flash_table ! index) else None)"

end
