(* ===== verification/Sfud_Chip.thy ===== *)
theory Sfud_Chip
  imports Sfud
begin

text \<open>
  What the driver relies on: the documented behaviour of a serial NOR flash on the bus (status
  register with busy and write enable bits, page program that stays in its page, sector erase,
  auto address increment), and of the functions of the port. With it the read, write and erase
  of \<^verbatim>\<open>sfud.c\<close> act on the memory of the chip exactly as the flash interface of
  \<open>Flash_Spec\<close> says.
\<close>

section \<open>The chip on the bus\<close>

text \<open>
  The view of a state of the bus: the cells, the write enable latch, the number of status
  reads that still answer busy, four-byte addresses, and the next address in auto increment
  mode.
\<close>

record 'b chip_view =
  cells :: "'b \<Rightarrow> u8 list"
  latch :: "'b \<Rightarrow> bool"
  pending :: "'b \<Rightarrow> nat"
  wide :: "'b \<Rightarrow> bool"
  aai :: "'b \<Rightarrow> nat option"

type_synonym 'b transfer = "u8 list \<Rightarrow> nat \<Rightarrow> 'b \<Rightarrow> sfud_err \<times> u8 list \<times> 'b"

definition be_value :: "u8 list \<Rightarrow> nat" where
  "be_value bs = foldl (\<lambda>n x. n * 256 + unat x) 0 bs"

definition ready :: "'b chip_view \<Rightarrow> 'b \<Rightarrow> bool" where
  "ready v b \<longleftrightarrow> pending v b = 0 \<and> aai v b = None"

definition addresses :: "'b chip_view \<Rightarrow> 'b \<Rightarrow> u8 list \<Rightarrow> bool" where
  "addresses v b as \<longleftrightarrow> length as = (if wide v b then 4 else 3)"

definition still :: "'b chip_view \<Rightarrow> 'b \<Rightarrow> 'b \<Rightarrow> bool" where
  "still v b b' \<longleftrightarrow> cells v b' = cells v b \<and> wide v b' = wide v b"

definition status_law :: "'b chip_view \<Rightarrow> 'b transfer \<Rightarrow> bool" where
  "status_law v xfer \<longleftrightarrow> (\<forall>b. \<exists>st b'. xfer [0x05] 1 b = (SFUD_SUCCESS, [st], b') \<and>
     (bit st 0 \<longleftrightarrow> pending v b \<noteq> 0) \<and> (pending v b = 0 \<longrightarrow> bit st 1 = latch v b \<and> latch v b' = latch v b) \<and>
     still v b b' \<and> pending v b' = pending v b - 1 \<and> aai v b' = aai v b)"

definition enable_law :: "'b chip_view \<Rightarrow> 'b transfer \<Rightarrow> bool" where
  "enable_law v xfer \<longleftrightarrow>
     (\<forall>b. ready v b \<longrightarrow> (\<exists>x b'. xfer [0x06] 0 b = (SFUD_SUCCESS, x, b') \<and> latch v b' \<and> still v b b' \<and> ready v b')) \<and>
     (\<forall>b. pending v b = 0 \<longrightarrow> (\<exists>x b'. xfer [0x04] 0 b = (SFUD_SUCCESS, x, b') \<and> \<not> latch v b' \<and> still v b b' \<and> ready v b'))"

definition read_law :: "'b chip_view \<Rightarrow> 'b transfer \<Rightarrow> bool" where
  "read_law v xfer \<longleftrightarrow> (\<forall>b as n. ready v b \<longrightarrow> addresses v b as \<longrightarrow> be_value as + n \<le> length (cells v b) \<longrightarrow>
     (\<exists>b'. xfer (0x03 # as) n b = (SFUD_SUCCESS, window (be_value as) n (cells v b), b') \<and> still v b b' \<and> ready v b'))"

text \<open>
  A program or erase command that the transfer reports as failed may have cleared some of the
  cells it names, and leaves the chip idle; after a success the chip is busy for at most \<open>T\<close>
  status reads.
\<close>

definition program_effect :: "'b chip_view \<Rightarrow> nat \<Rightarrow> nat \<Rightarrow> u8 list \<Rightarrow> sfud_err \<Rightarrow> 'b \<Rightarrow> 'b \<Rightarrow> bool" where
  "program_effect v T a d e b b' \<longleftrightarrow> wide v b' = wide v b \<and>
     (if e = SFUD_SUCCESS then cells v b' = nor_write a d (cells v b) \<and> pending v b' \<le> T
      else partly_written a d (cells v b) (cells v b') \<and> pending v b' = 0)"

definition program_law :: "'b chip_view \<Rightarrow> nat \<Rightarrow> nat \<Rightarrow> 'b transfer \<Rightarrow> bool" where
  "program_law v T pg xfer \<longleftrightarrow> (\<forall>b as d. ready v b \<longrightarrow> latch v b \<longrightarrow> addresses v b as \<longrightarrow> d \<noteq> [] \<longrightarrow>
     be_value as mod pg + length d \<le> pg \<longrightarrow> be_value as + length d \<le> length (cells v b) \<longrightarrow>
     (\<exists>e x b'. xfer (0x02 # as @ d) 0 b = (e, x, b') \<and> aai v b' = None \<and> program_effect v T (be_value as) d e b b'))"

definition aai_law :: "'b chip_view \<Rightarrow> nat \<Rightarrow> 'b transfer \<Rightarrow> bool" where
  "aai_law v T xfer \<longleftrightarrow>
     (\<forall>b as d0 d1. ready v b \<longrightarrow> latch v b \<longrightarrow> addresses v b as \<longrightarrow> even (be_value as) \<longrightarrow>
        be_value as + 2 \<le> length (cells v b) \<longrightarrow>
        (\<exists>e x b'. xfer (0xAD # as @ [d0, d1]) 0 b = (e, x, b') \<and> program_effect v T (be_value as) [d0, d1] e b b' \<and>
           (e = SFUD_SUCCESS \<longrightarrow> aai v b' = Some (be_value as + 2)))) \<and>
     (\<forall>b a d0 d1. pending v b = 0 \<longrightarrow> aai v b = Some a \<longrightarrow> a + 2 \<le> length (cells v b) \<longrightarrow>
        (\<exists>e x b'. xfer [0xAD, d0, d1] 0 b = (e, x, b') \<and> program_effect v T a [d0, d1] e b b' \<and>
           (e = SFUD_SUCCESS \<longrightarrow> aai v b' = Some (a + 2))))"

definition erased :: "'b chip_view \<Rightarrow> nat \<Rightarrow> nat \<Rightarrow> nat \<Rightarrow> sfud_err \<Rightarrow> 'b \<Rightarrow> 'b \<Rightarrow> bool" where
  "erased v T a n e b b' \<longleftrightarrow> wide v b' = wide v b \<and> aai v b' = None \<and>
     (if e = SFUD_SUCCESS then cells v b' = nor_erase a n (cells v b) \<and> pending v b' \<le> T
      else same_outside a n (cells v b) (cells v b') \<and> pending v b' = 0)"

definition erase_law :: "'b chip_view \<Rightarrow> nat \<Rightarrow> 'b transfer \<Rightarrow> nat \<Rightarrow> u8 \<Rightarrow> bool" where
  "erase_law v T xfer sz cmd \<longleftrightarrow> (\<forall>b as. ready v b \<longrightarrow> latch v b \<longrightarrow> addresses v b as \<longrightarrow>
     be_value as < length (cells v b) \<longrightarrow>
     (\<exists>e x b'. xfer (cmd # as) 0 b = (e, x, b') \<and> erased v T (be_value as - be_value as mod sz) sz e b b'))"

definition chip_erase_law :: "'b chip_view \<Rightarrow> nat \<Rightarrow> 'b transfer \<Rightarrow> bool" where
  "chip_erase_law v T xfer \<longleftrightarrow> (\<forall>b. ready v b \<longrightarrow> latch v b \<longrightarrow>
     (\<exists>e x b'. xfer [0xC7] 0 b = (e, x, b') \<and> erased v T 0 (length (cells v b)) e b b'))"

text \<open>The functions of the port leave the chip alone; a delay may let it finish.\<close>

definition port_law :: "'b chip_view \<Rightarrow> 'b sfud_flash \<Rightarrow> bool" where
  "port_law v flash \<longleftrightarrow>
     (\<forall>b. \<exists>b'. lock_spi flash b = Some b' \<and> still v b b' \<and> pending v b' = pending v b \<and> aai v b' = aai v b \<and> latch v b' = latch v b) \<and>
     (\<forall>b. still v b (unlock_spi flash b) \<and> pending v (unlock_spi flash b) = pending v b \<and> aai v (unlock_spi flash b) = aai v b) \<and>
     (\<forall>delay b. retry_delay flash = Some delay \<longrightarrow> still v b (delay b) \<and> pending v (delay b) \<le> pending v b \<and> aai v (delay b) = aai v b)"

definition qspi_law :: "'b chip_view \<Rightarrow> 'b sfud_flash \<Rightarrow> bool" where
  "qspi_law v flash \<longleftrightarrow> (\<forall>b a n. instruction (read_cmd_format flash) \<noteq> 0x03 \<longrightarrow> ready v b \<longrightarrow>
     unat a + n \<le> length (cells v b) \<longrightarrow>
     (\<exists>b'. qspi_read (spi flash) a (read_cmd_format flash) n b = (SFUD_SUCCESS, window (unat a) n (cells v b), b') \<and>
        still v b b' \<and> ready v b'))"

text \<open>The unit of the erases, and the erasers the driver may choose.\<close>

definition erasers :: "'b sfud_flash \<Rightarrow> (u32 \<times> u8) set" where
  "erasers flash = (if available (sfdp flash) then {er \<in> set (eraser (sfdp flash)). fst er \<noteq> 0}
                    else {(erase_gran (chip flash), erase_gran_cmd (chip flash))})"

text \<open>
  A started device: complete parameters, addresses that reach every byte, erase units that
  tile the chip, the smallest of them first.
\<close>

definition sfud_started :: "'b sfud_flash \<Rightarrow> bool" where
  "sfud_started flash \<longleftrightarrow> init_ok flash \<and> 0 < capacity (chip flash) \<and> unat (capacity (chip flash)) < 2 ^ 31 \<and>
     (addr_in_4_byte flash \<or> capacity (chip flash) \<le> 0x1000000) \<and>
     erase_gran (chip flash) \<noteq> 0 \<and> unat (erase_gran (chip flash)) dvd unat (capacity (chip flash)) \<and>
     (available (sfdp flash) \<longrightarrow> length (eraser (sfdp flash)) = SFUD_SFDP_ERASE_TYPE_MAX_NUM \<and>
        fst (eraser (sfdp flash) ! 0) = erase_gran (chip flash)) \<and>
     (\<forall>er \<in> erasers flash. unat (erase_gran (chip flash)) dvd unat (fst er) \<and> unat (fst er) dvd unat (capacity (chip flash)))"

definition writes_data :: "'b sfud_flash \<Rightarrow> bool" where
  "writes_data flash \<longleftrightarrow> write_mode (chip flash) AND SFUD_WM_PAGE_256B \<noteq> 0 \<or> write_mode (chip flash) AND SFUD_WM_AAI \<noteq> 0"

definition page_size :: "'b sfud_flash \<Rightarrow> nat" where
  "page_size flash = (if write_mode (chip flash) AND SFUD_WM_PAGE_256B \<noteq> 0 then 256 else 1)"

definition nor_chip :: "'b chip_view \<Rightarrow> 'b sfud_flash \<Rightarrow> bool" where
  "nor_chip v flash \<longleftrightarrow> (let xfer = spi_wr (spi flash); T = unat (retry_times flash) in
     status_law v xfer \<and> enable_law v xfer \<and> read_law v xfer \<and> program_law v T (page_size flash) xfer \<and>
     (write_mode (chip flash) AND SFUD_WM_AAI \<noteq> 0 \<longrightarrow> aai_law v T xfer) \<and>
     (\<forall>er \<in> erasers flash. erase_law v T xfer (unat (fst er)) (snd er)) \<and>
     (write_mode (chip flash) AND SFUD_WM_DUAL_BUFFER = 0 \<and> chip_erase_law v T xfer) \<and>
     port_law v flash \<and> qspi_law v flash)"

text \<open>The driver and the chip agree: idle, and in the same address mode.\<close>

definition chip_in_step :: "'b chip_view \<Rightarrow> 'b sfud_flash \<Rightarrow> 'b \<Rightarrow> bool" where
  "chip_in_step v flash b \<longleftrightarrow> ready v b \<and> wide v b = addr_in_4_byte flash"

text \<open>The memory, for a chip in step; no memory otherwise.\<close>

definition sfud_mem :: "'b chip_view \<Rightarrow> 'b sfud_flash \<Rightarrow> 'b \<Rightarrow> u8 list" where
  "sfud_mem v flash b = (if chip_in_step v flash b then cells v b else [])"

lemma nor_chipD:
  assumes "nor_chip v flash"
  shows "status_law v (spi_wr (spi flash))" "enable_law v (spi_wr (spi flash))" "read_law v (spi_wr (spi flash))"
    "program_law v (unat (retry_times flash)) (page_size flash) (spi_wr (spi flash))"
    "write_mode (chip flash) AND SFUD_WM_AAI \<noteq> 0 \<Longrightarrow> aai_law v (unat (retry_times flash)) (spi_wr (spi flash))"
    "er \<in> erasers flash \<Longrightarrow> erase_law v (unat (retry_times flash)) (spi_wr (spi flash)) (unat (fst er)) (snd er)"
    "write_mode (chip flash) AND SFUD_WM_DUAL_BUFFER = 0" "chip_erase_law v (unat (retry_times flash)) (spi_wr (spi flash))"
    "port_law v flash" "qspi_law v flash"
  using assms by (simp_all add: nor_chip_def Let_def)

section \<open>Addresses\<close>

lemma unat_byte: "unat (ucast (drop_bit k a AND 0xFF) :: u8) = unat a div 2 ^ k mod 256" for a :: u32
proof -
  have e: "(0xFF :: u32) = mask 8" by (simp add: mask_eq_exp_minus_1)
  have "unat (ucast (drop_bit k a AND 0xFF) :: u8) = unat (drop_bit k a AND 0xFF) mod 256"
    by (simp add: unsigned_ucast_eq take_bit_eq_mod)
  also have "\<dots> = unat (drop_bit k a) mod 256"
    unfolding e take_bit_eq_mask[symmetric] unsigned_take_bit_eq by (simp add: take_bit_eq_mod)
  also have "\<dots> = unat a div 2 ^ k mod 256" 
  proof -
    have "unat (drop_bit k a) = drop_bit k (unat a)" using unat_lt32[of a] by (simp add: unsigned_drop_bit_eq take_bit_nat_eq_self)
    then show ?thesis by (simp only: drop_bit_eq_div)
  qed
  finally show ?thesis .
qed

lemma unat_low_byte: "unat (ucast (a AND 0xFF) :: u8) = unat a mod 256" for a :: u32
  using unat_byte[of 0 a] by simp

lemma length_make_adress: "length (make_adress_byte_array flash a) = (if addr_in_4_byte flash then 4 else 3)"
  by (simp add: make_adress_byte_array_def)

lemma be_make_adress_mod:
  "be_value (make_adress_byte_array flash a) = (if addr_in_4_byte flash then unat a else unat a mod 2 ^ 24)"
proof -
  define x where "x = unat a"
  have j: "x div (m * 256) * 256 + x div m mod 256 = x div m" for m
    by (simp add: div_mult2_eq div_mult_mod_eq)
  note j24 = j[of "2 ^ 16", simplified] and j16 = j[of "2 ^ 8", simplified] and j8 = j[of 1, simplified]
  have u: "[0..<4] = [0, 1, 2, 3::nat]" "[0..<3] = [0, 1, 2::nat]" by (simp_all add: upt_rec)
  show ?thesis
  proof (cases "addr_in_4_byte flash")
    case True
    have "x div 16777216 mod 256 = x div 16777216" using unat_lt32[of a] by (simp add: x_def less_mult_imp_div_less)
    then show ?thesis
      using True by (simp add: make_adress_byte_array_def be_value_def Let_def u unat_byte unat_low_byte[of a] x_def[symmetric] j24 j16 j8)
  next
    case False
    have "(x div 65536 mod 256 * 256 + x div 256 mod 256) * 256 + x mod 256 = x mod 2 ^ 24"
      using mod_mult2_eq[of x 256 65536] mod_mult2_eq[of "x div 256" 256 256] by (simp add: div_mult2_eq[symmetric])
    then show ?thesis
      using False by (simp add: make_adress_byte_array_def be_value_def Let_def u unat_byte unat_low_byte[of a] x_def[symmetric])
  qed
qed

lemma be_make_adress: "addr_in_4_byte flash \<or> unat a < 2 ^ 24 \<Longrightarrow> be_value (make_adress_byte_array flash a) = unat a"
  by (auto simp: be_make_adress_mod)

section \<open>The steps of the driver\<close>

lemma still_refl [simp]: "still v b b"
  by (simp add: still_def)

lemma still_trans [trans]: "still v a b \<Longrightarrow> still v b c \<Longrightarrow> still v a c"
  by (simp add: still_def)

lemma stillD: "still v b b' \<Longrightarrow> cells v b' = cells v b" "still v b b' \<Longrightarrow> wide v b' = wide v b"
  by (simp_all add: still_def)

lemma status_law_ex:
  assumes "status_law v (spi_wr (spi flash))"
  obtains st b' where "sfud_read_status flash b = (SFUD_SUCCESS, [st], b')" "bit st 0 \<longleftrightarrow> pending v b \<noteq> 0"
    "pending v b = 0 \<longrightarrow> bit st 1 = latch v b \<and> latch v b' = latch v b" "still v b b'"
    "pending v b' = pending v b - 1" "aai v b' = aai v b"
  using assms by (fastforce simp: status_law_def sfud_read_status_def SFUD_CMD_READ_STATUS_REGISTER_def)

lemma busy_bit: "st AND SFUD_STATUS_REGISTER_BUSY = 0 \<longleftrightarrow> \<not> bit st 0"
proof -
  have "st AND 1 = (if bit st 0 then 1 else 0)" by (simp add: and_one_eq mod_2_eq_odd bit_0)
  then show ?thesis by (simp add: SFUD_STATUS_REGISTER_BUSY_def)
qed

lemma wel_bit: "st AND SFUD_STATUS_REGISTER_WEL = 0 \<longleftrightarrow> \<not> bit st 1"
proof -
  have e: "(2 :: u8) = push_bit 1 1" by simp
  have "st AND 2 = 0 \<longleftrightarrow> (\<forall>n. \<not> (bit st n \<and> bit (2 :: u8) n))" by (simp add: bit_eq_iff bit_and_iff)
  also have "\<dots> \<longleftrightarrow> \<not> bit st 1"
    unfolding e bit_push_bit_iff by (auto simp: bit_1_iff dest: spec[of _ 1])
  finally show ?thesis by (simp add: SFUD_STATUS_REGISTER_WEL_def)
qed

lemma wait_busy_loop_ok:
  assumes s: "status_law v (spi_wr (spi flash))" and p: "port_law v flash" and "pending v b \<le> n"
  shows "\<exists>b'. wait_busy_loop flash n b = Some (SFUD_SUCCESS, b') \<and> still v b b' \<and> pending v b' = 0 \<and> aai v b' = aai v b"
  using assms(3)
proof (induction n arbitrary: b)
  case 0
  obtain st b' where "sfud_read_status flash b = (SFUD_SUCCESS, [st], b')" "bit st 0 \<longleftrightarrow> pending v b \<noteq> 0"
    "still v b b'" "pending v b' = pending v b - 1" "aai v b' = aai v b" by (rule status_law_ex[OF s])
  then show ?case using 0 by (simp add: wait_busy_loop.simps[of flash 0] rd_def busy_bit)
next
  case (Suc n)
  obtain st b1 where r: "sfud_read_status flash b = (SFUD_SUCCESS, [st], b1)" "bit st 0 \<longleftrightarrow> pending v b \<noteq> 0"
    "still v b b1" "pending v b1 = pending v b - 1" "aai v b1 = aai v b" by (rule status_law_ex[OF s])
  show ?case
  proof (cases "pending v b = 0")
    case True
    then show ?thesis using r by (simp add: wait_busy_loop.simps[of flash "Suc n"] rd_def busy_bit)
  next
    case False
    let ?b = "case retry_delay flash of None \<Rightarrow> b1 | Some delay \<Rightarrow> delay b1"
    have d: "still v b1 ?b" "pending v ?b \<le> pending v b1" "aai v ?b = aai v b1"
      using p by (auto simp: port_law_def split: option.split)
    have "pending v ?b \<le> n" using d(2) r(4) Suc.prems by simp
    from Suc.IH[OF this] obtain b' where b: "wait_busy_loop flash n ?b = Some (SFUD_SUCCESS, b')" "still v ?b b'"
      "pending v b' = 0" "aai v b' = aai v ?b" by blast
    have "wait_busy_loop flash (Suc n) b = wait_busy_loop flash n ?b"
      using r(1,2) False by (simp add: wait_busy_loop.simps[of flash "Suc n"] rd_def busy_bit)
    then show ?thesis using b still_trans[OF r(3) still_trans[OF d(1) b(2)]] d(3) r(5) by simp
  qed
qed

lemma wait_busy_ok:
  assumes "nor_chip v flash" "pending v b \<le> unat (retry_times flash)"
  shows "\<exists>b'. wait_busy flash b = Some (SFUD_SUCCESS, b') \<and> still v b b' \<and> pending v b' = 0 \<and> aai v b' = aai v b"
  unfolding wait_busy_def by (rule wait_busy_loop_ok[OF nor_chipD(1)[OF assms(1)] nor_chipD(9)[OF assms(1)] assms(2)])

lemma set_write_enabled_ok:
  assumes c: "nor_chip v flash" and r: "pending v b = 0" "en \<longrightarrow> aai v b = None"
  shows "\<exists>b'. set_write_enabled flash en b = Some (SFUD_SUCCESS, b') \<and> still v b b' \<and> ready v b' \<and> latch v b' = en"
proof -
  have e: "enable_law v (spi_wr (spi flash))" by (rule nor_chipD(2)[OF c])
  have "\<exists>x b1. spi_wr (spi flash) [if en then SFUD_CMD_WRITE_ENABLE else SFUD_CMD_WRITE_DISABLE] 0 b = (SFUD_SUCCESS, x, b1) \<and>
      still v b b1 \<and> ready v b1 \<and> latch v b1 = en"
  proof (cases en)
    case True
    then show ?thesis
      using e[unfolded enable_law_def, THEN conjunct1, rule_format, of b] r by (auto simp: ready_def SFUD_CMD_WRITE_ENABLE_def)
  next
    case False
    then show ?thesis
      using e[unfolded enable_law_def, THEN conjunct2, rule_format, of b] r by (auto simp: ready_def SFUD_CMD_WRITE_DISABLE_def)
  qed
  then obtain x b1 where b1: "spi_wr (spi flash) [if en then SFUD_CMD_WRITE_ENABLE else SFUD_CMD_WRITE_DISABLE] 0 b = (SFUD_SUCCESS, x, b1)"
    "still v b b1" "ready v b1" "latch v b1 = en" by blast
  have p: "pending v b1 = 0" using b1(3) by (simp add: ready_def)
  obtain st b2 where b2: "sfud_read_status flash b1 = (SFUD_SUCCESS, [st], b2)" "bit st 1 = latch v b1" "latch v b2 = latch v b1"
    "still v b1 b2" "pending v b2 = 0" "aai v b2 = aai v b1"
    using status_law_ex[OF nor_chipD(1)[OF c], of b1] p by (metis diff_0_eq_0)
  have "set_write_enabled flash en b = Some (SFUD_SUCCESS, b2)"
    using b1(1,4) b2(1,2) by (cases en) (simp_all add: set_write_enabled_def spi_send_def rd_def wel_bit)
  then show ?thesis using b1 b2 still_trans[OF b1(2) b2(4)] by (simp add: ready_def)
qed

lemma lock_ok:
  assumes "nor_chip v flash"
  obtains b' where "lock_spi flash b = Some b'" "still v b b'" "pending v b' = pending v b" "aai v b' = aai v b" "latch v b' = latch v b"
  using nor_chipD(9)[OF assms] unfolding port_law_def by metis

lemma unlock_ok:
  assumes "nor_chip v flash"
  shows "still v b (unlock_spi flash b)" "pending v (unlock_spi flash b) = pending v b" "aai v (unlock_spi flash b) = aai v b"
  using nor_chipD(9)[OF assms] unfolding port_law_def by metis+

lemma write_exit_ok:
  assumes "nor_chip v flash" "pending v b = 0"
  shows "\<exists>b'. write_exit flash (Some (e, b)) = Some (e, b') \<and> still v b b' \<and> ready v b'"
proof -
  obtain b1 where b1: "set_write_enabled flash False b = Some (SFUD_SUCCESS, b1)" "still v b b1" "ready v b1"
    using set_write_enabled_ok[OF assms(1,2), of False] by auto
  have "write_exit flash (Some (e, b)) = Some (e, unlock_spi flash b1)" by (simp add: write_exit_def b1(1))
  then show ?thesis using b1 unlock_ok[OF assms(1), of b1] still_trans[OF b1(2) unlock_ok(1)[OF assms(1)]] by (simp add: ready_def)
qed

section \<open>NOR cells in several steps\<close>

lemma nor_write_nil [simp]: "nor_write a [] m = m"
  by (simp add: nor_write_def)

lemma nor_write_append:
  assumes "a + length xs + length ys \<le> length m"
  shows "nor_write (a + length xs) ys (nor_write a xs m) = nor_write a (xs @ ys) m"
  using assms by (intro nth_equalityI) (auto simp: nth_nor_write nth_append)

lemma between_old [simp]: "between x d x" "between x d (d AND x)"
  by (simp_all add: between_def ac_simps)

lemma partly_writtenD:
  assumes "partly_written a d m m'"
  shows "length m' = length m" "\<And>j. j < length m \<Longrightarrow> j < a \<or> a + length d \<le> j \<Longrightarrow> m' ! j = m ! j"
    "\<And>i. i < length d \<Longrightarrow> between (m ! (a + i)) (d ! i) (m' ! (a + i))"
proof -
  have s: "same_outside a (length d) m m'" using assms by (simp add: partly_written_def)
  then show "length m' = length m" by (simp add: same_outside_def)
  show "m' ! j = m ! j" if "j < length m" "j < a \<or> a + length d \<le> j" for j
    by (rule same_outside_nth[OF s that])
  show "between (m ! (a + i)) (d ! i) (m' ! (a + i))" if "i < length d" for i
    using assms that by (simp add: partly_written_def)
qed

lemma partly_writtenI:
  assumes "length m' = length m" "\<And>j. j < length m \<Longrightarrow> j < a \<or> a + length d \<le> j \<Longrightarrow> m' ! j = m ! j"
    "\<And>i. i < length d \<Longrightarrow> between (m ! (a + i)) (d ! i) (m' ! (a + i))"
  shows "partly_written a d m m'"
  unfolding partly_written_def using assms same_outsideI[of m' m a "length d"] by blast

lemma partly_written_refl: "partly_written a d m m"
  by (rule partly_writtenI) simp_all

lemma nor_write_partly:
  assumes "a + length d \<le> length m"
  shows "partly_written a d m (nor_write a d m)"
  using assms by (intro partly_writtenI) (auto simp: nth_nor_write)

lemma partly_written_prefix:
  assumes "partly_written a xs m m'" "a + length xs + length ys \<le> length m"
  shows "partly_written a (xs @ ys) m m'"
proof (rule partly_writtenI)
  show "length m' = length m" by (rule partly_writtenD(1)[OF assms(1)])
  show "m' ! j = m ! j" if "j < length m" "j < a \<or> a + length (xs @ ys) \<le> j" for j
    using partly_writtenD(2)[OF assms(1) that(1)] that(2) by auto
  show "between (m ! (a + i)) ((xs @ ys) ! i) (m' ! (a + i))" if "i < length (xs @ ys)" for i
    using partly_writtenD(2,3)[OF assms(1)] assms(2) that by (cases "i < length xs") (auto simp: nth_append)
qed

lemma partly_written_append:
  assumes "partly_written (a + length xs) ys (nor_write a xs m) m'" "a + length xs + length ys \<le> length m"
  shows "partly_written a (xs @ ys) m m'"
proof (rule partly_writtenI)
  note p = partly_writtenD[OF assms(1)]
  show "length m' = length m" using p(1) assms(2) by simp
  show "m' ! j = m ! j" if "j < length m" "j < a \<or> a + length (xs @ ys) \<le> j" for j
    using p(2)[of j] that assms(2) by (auto simp: nth_nor_write)
  show "between (m ! (a + i)) ((xs @ ys) ! i) (m' ! (a + i))" if i: "i < length (xs @ ys)" for i
  proof (cases "i < length xs")
    case True
    then show ?thesis using p(2)[of "a + i"] assms(2) by (simp add: nth_append nth_nor_write)
  next
    case False
    then show ?thesis using p(3)[of "i - length xs"] i assms(2) by (simp add: nth_append nth_nor_write)
  qed
qed

lemma nor_erase_0 [simp]: "nor_erase a 0 m = m"
  by (simp add: nor_erase_def)

lemma nth_nor_erase:
  "a + n \<le> length m \<Longrightarrow> j < length m \<Longrightarrow> nor_erase a n m ! j = (if a \<le> j \<and> j < a + n then 0xFF else m ! j)"
  by (auto simp: nor_erase_def nth_blit)

lemma nor_erase_append: "a + k + n \<le> length m \<Longrightarrow> nor_erase (a + k) n (nor_erase a k m) = nor_erase a (k + n) m"
  by (intro nth_equalityI) (auto simp: nth_nor_erase)

lemma same_outside_wider:
  assumes "same_outside a n m m'" "b \<le> a" "a + n \<le> b + k"
  shows "same_outside b k m m'"
proof (rule same_outsideI)
  show "length m' = length m" using assms(1) by (simp add: same_outside_def)
  show "m' ! j = m ! j" if "j < length m" "j < b \<or> b + k \<le> j" for j
    using same_outside_nth[OF assms(1) that(1)] that(2) assms(2,3) by auto
qed

lemma same_outside_trans: "same_outside a n m m' \<Longrightarrow> same_outside a n m' m'' \<Longrightarrow> same_outside a n m m''"
  by (simp add: same_outside_def)

end
