(* ===== verification/Sfud_Proofs.thy ===== *)
theory Sfud_Proofs
  imports Sfud_Chip
begin

text \<open>
  The operations of \<^verbatim>\<open>sfud.c\<close> on a serial NOR chip: page programs and auto increment
  writes clear exactly the bits of the data, erases set whole units, reads answer the cells,
  and a failure reported by the bus leaves nothing changed outside the range.
\<close>

section \<open>Writing\<close>

text \<open>What a write of \<open>d\<close> that answered \<open>e\<close> did; the chip is idle again.\<close>

definition wrote :: "'b chip_view \<Rightarrow> nat \<Rightarrow> u8 list \<Rightarrow> sfud_err \<Rightarrow> 'b \<Rightarrow> 'b \<Rightarrow> bool" where
  "wrote v a d e b b' \<longleftrightarrow> pending v b' = 0 \<and> wide v b' = wide v b \<and>
     (if e = SFUD_SUCCESS then cells v b' = nor_write a d (cells v b) else partly_written a d (cells v b) (cells v b'))"

text \<open>The chip in step, with every address of it in reach.\<close>

definition reachable_chip :: "'b chip_view \<Rightarrow> 'b sfud_flash \<Rightarrow> 'b \<Rightarrow> bool" where
  "reachable_chip v flash b \<longleftrightarrow> chip_in_step v flash b \<and> length (cells v b) < 2 ^ 31 \<and>
     (addr_in_4_byte flash \<or> length (cells v b) \<le> 2 ^ 24)"

lemma reachable_chipD:
  assumes "reachable_chip v flash b"
  shows "pending v b = 0" "aai v b = None" "wide v b = addr_in_4_byte flash" "length (cells v b) < 2 ^ 31"
    "addr_in_4_byte flash \<or> length (cells v b) \<le> 2 ^ 24" "ready v b"
  using assms by (simp_all add: reachable_chip_def chip_in_step_def ready_def)

lemma reachable_chipI:
  assumes "reachable_chip v flash b" "pending v b' = 0" "aai v b' = None" "wide v b' = wide v b"
    "length (cells v b') = length (cells v b)"
  shows "reachable_chip v flash b'"
  using assms by (simp add: reachable_chip_def chip_in_step_def ready_def)

lemma reachable_still:
  assumes "reachable_chip v flash b" "still v b b'" "ready v b'"
  shows "reachable_chip v flash b'"
  using assms by (intro reachable_chipI[OF assms(1)]) (simp_all add: still_def ready_def)

lemma wrote_length: "wrote v a d e b b' \<Longrightarrow> a + length d \<le> length (cells v b) \<Longrightarrow> length (cells v b') = length (cells v b)"
  by (auto simp: wrote_def partly_writtenD(1) split: if_splits)

lemma wrote_still1: "still v b b1 \<Longrightarrow> wrote v a d e b1 b' \<Longrightarrow> wrote v a d e b b'"
  by (auto simp: wrote_def still_def split: if_splits)

lemma wrote_still2: "wrote v a d e b b1 \<Longrightarrow> still v b1 b' \<Longrightarrow> pending v b' = 0 \<Longrightarrow> wrote v a d e b b'"
  by (simp add: wrote_def still_def)

lemma wrote_append:
  assumes "wrote v a xs SFUD_SUCCESS b b1" "wrote v (a + length xs) ys e b1 b2" "a + length xs + length ys \<le> length (cells v b)"
  shows "wrote v a (xs @ ys) e b b2"
  using assms nor_write_append[OF assms(3)] partly_written_append[OF _ assms(3)] by (auto simp: wrote_def)

lemma wrote_prefix:
  assumes "wrote v a xs e b b1" "e \<noteq> SFUD_SUCCESS" "a + length xs + length ys \<le> length (cells v b)"
  shows "wrote v a (xs @ ys) e b b1"
  using assms partly_written_prefix[OF _ assms(3)] by (simp add: wrote_def)

lemma wrote_nil: "pending v b = 0 \<Longrightarrow> wrote v a [] SFUD_SUCCESS b b"
  by (simp add: wrote_def)

lemma address_ok:
  assumes "reachable_chip v flash b" "unat a < length (cells v b)" "still v b b'"
  shows "addresses v b' (make_adress_byte_array flash a)" "be_value (make_adress_byte_array flash a) = unat a"
  using reachable_chipD[OF assms(1)] assms(2,3)
  by (auto simp: addresses_def length_make_adress still_def intro!: be_make_adress)

text \<open>A bus on which no transfer fails.\<close>

definition faultless :: "'b sfud_flash \<Rightarrow> bool" where
  "faultless flash \<longleftrightarrow> (\<forall>cmd n b. fst (spi_wr (spi flash) cmd n b) = SFUD_SUCCESS)"

lemma faultlessD: "faultless flash \<Longrightarrow> spi_wr (spi flash) cmd n b = (e, x, b') \<Longrightarrow> e = SFUD_SUCCESS"
  by (metis faultless_def fst_conv)

text \<open>A command that was sent, and the wait for its end.\<close>

lemma command_wait:
  assumes c: "nor_chip v flash" and s: "spi_send flash cmd b1 = Some (e, b2)"
    and p: "e = SFUD_SUCCESS \<Longrightarrow> pending v b2 \<le> unat (retry_times flash)" "e \<noteq> SFUD_SUCCESS \<Longrightarrow> pending v b2 = 0"
  shows "\<exists>b3. (\<forall>k. on_success (spi_send flash cmd b1) (\<lambda>b. on_success (wait_busy flash b) k) = on_success (Some (e, b3)) k) \<and>
    still v b2 b3 \<and> pending v b3 = 0 \<and> aai v b3 = aai v b2"
proof (cases "e = SFUD_SUCCESS")
  case True
  obtain b3 where b3: "wait_busy flash b2 = Some (SFUD_SUCCESS, b3)" "still v b2 b3" "pending v b3 = 0" "aai v b3 = aai v b2"
    using wait_busy_ok[OF c p(1)[OF True]] by blast
  with s True show ?thesis by (intro exI[of _ b3]) simp
next
  case False
  with s p(2) show ?thesis by (intro exI[of _ b2]) simp
qed

lemma program_step:
  assumes c: "nor_chip v flash" and r: "reachable_chip v flash b" and d: "d \<noteq> []"
    and pg: "unat a mod page_size flash + length d \<le> page_size flash" and fits: "unat a + length d \<le> length (cells v b)"
  shows "\<exists>b1 e b2. set_write_enabled flash True b = Some (SFUD_SUCCESS, b1) \<and>
    (\<forall>k. on_success (spi_send flash (SFUD_CMD_PAGE_PROGRAM # make_adress_byte_array flash a @ d) b1)
       (\<lambda>b. on_success (wait_busy flash b) k) = on_success (Some (e, b2)) k) \<and>
    wrote v (unat a) d e b b2 \<and> aai v b2 = None \<and> (faultless flash \<longrightarrow> e = SFUD_SUCCESS)"
proof -
  note rd = reachable_chipD[OF r]
  obtain b1 where b1: "set_write_enabled flash True b = Some (SFUD_SUCCESS, b1)" "still v b b1" "ready v b1" "latch v b1"
    using set_write_enabled_ok[OF c rd(1), of True] rd(2) by auto
  let ?as = "make_adress_byte_array flash a"
  have lt: "unat a < length (cells v b)" using fits d by (metis length_greater_0_conv less_add_same_cancel1 order_less_le_trans)
  have ad: "addresses v b1 ?as" "be_value ?as = unat a"
    by (rule address_ok[OF r lt b1(2)], rule address_ok[OF r lt b1(2)])
  have l: "be_value ?as mod page_size flash + length d \<le> page_size flash" "be_value ?as + length d \<le> length (cells v b1)"
    using pg fits ad(2) stillD(1)[OF b1(2)] by simp_all
  obtain e x b2 where b2: "spi_wr (spi flash) (0x02 # ?as @ d) 0 b1 = (e, x, b2)" "aai v b2 = None"
    "program_effect v (unat (retry_times flash)) (be_value ?as) d e b1 b2"
    using nor_chipD(4)[OF c, unfolded program_law_def, rule_format, OF b1(3,4) ad(1) d l] by blast
  have s: "spi_send flash (SFUD_CMD_PAGE_PROGRAM # ?as @ d) b1 = Some (e, b2)"
    by (simp add: spi_send_def SFUD_CMD_PAGE_PROGRAM_def b2(1))
  have p: "e = SFUD_SUCCESS \<Longrightarrow> pending v b2 \<le> unat (retry_times flash)" "e \<noteq> SFUD_SUCCESS \<Longrightarrow> pending v b2 = 0"
    using b2(3) by (simp_all add: program_effect_def)
  obtain b3 where b3: "\<forall>k. on_success (spi_send flash (SFUD_CMD_PAGE_PROGRAM # ?as @ d) b1)
       (\<lambda>b. on_success (wait_busy flash b) k) = on_success (Some (e, b3)) k"
    "still v b2 b3" "pending v b3 = 0" "aai v b3 = aai v b2"
    using command_wait[OF c s p] by blast
  have "wrote v (unat a) d e b b3"
    using b2(3) b3(2,3) b1(2) ad(2) by (auto simp: program_effect_def wrote_def still_def)
  then show ?thesis using b1(1) b2(2) b3 faultlessD[OF _ b2(1)] by auto
qed

lemma mod_page:
  assumes "g dvd p" "(a :: nat) mod g + c \<le> g" "0 < p"
  shows "a mod p + c \<le> p"
proof -
  obtain k where k: "p = g * k" using assms(1) by blast
  have "a mod p = g * (a div g mod k) + a mod g" unfolding k by (simp add: mod_mult2_eq)
  moreover have "a div g mod k \<le> k - 1" using assms(3) k by (simp add: less_Suc_eq_le[symmetric])
  moreover have "g * (k - 1) + g = p" using k assms(3) by (cases k) simp_all
  ultimately show ?thesis using assms(2) mult_le_mono2[of "a div g mod k" "k - 1" g] by linarith
qed

lemma page_write_loop_0 [simp]: "page_write_loop flash a 0 g data = (\<lambda>b. Some (SFUD_SUCCESS, b))"
  by (simp add: page_write_loop.simps fun_eq_iff)

lemma page_write_loop_ok:
  assumes c: "nor_chip v flash" and g: "g = 1 \<or> g = 256" "unat g dvd page_size flash"
    and "reachable_chip v flash b" "unat a + length data \<le> length (cells v b)"
  shows "\<exists>e b'. page_write_loop flash a (of_nat (length data)) g data b = Some (e, b') \<and>
    wrote v (unat a) data e b b' \<and> aai v b' = None \<and> (faultless flash \<longrightarrow> e = SFUD_SUCCESS)"
  using assms(4,5)
proof (induction "length data" arbitrary: a data b rule: less_induct)
  case less
  note r = reachable_chipD[OF less.prems(1)]
  let ?n = "of_nat (length data) :: u32"
  have n: "unat ?n = length data" using less.prems(2) r(4) by (intro unat_of_nat_lt) simp
  show ?case
  proof (cases "data = []")
    case True
    then show ?thesis using r wrote_nil[OF r(1)] by (simp add: page_write_loop.simps)
  next
    case False
    then have nz: "?n \<noteq> 0" using n by (metis length_0_conv unat_0)
    have gz: "g \<noteq> 0" using g(1) by auto
    define d where "d = page_chunk g a ?n"
    note ch = page_chunk_bounds[OF nz gz, of a, folded d_def]
    have ug: "unat (ucast g :: u32) = unat g" using g(1) by auto
    have dl: "0 < unat d" "unat d \<le> length data" "unat d \<le> 256"
      using ch(1,2,3) n g(1) by (auto simp: word_less_nat_alt word_le_nat_alt)
    define xs where "xs = take (unat d) data"
    define ys where "ys = drop (unat d) data"
    have data: "data = xs @ ys" "length xs = unat d" "xs \<noteq> []" using dl by (auto simp: xs_def ys_def)
    have am: "unat (a mod ucast g) = unat a mod unat g" by (simp add: unat_mod ug)
    have "unat a mod page_size flash + length xs \<le> page_size flash"
      using ch(4) data(2) am by (intro mod_page[OF g(2)]) (simp_all add: page_size_def)
    moreover have fx: "unat a + length xs + length ys \<le> length (cells v b)" using less.prems(2) data(1) by simp
    ultimately obtain b1 e b2 where st: "set_write_enabled flash True b = Some (SFUD_SUCCESS, b1)"
      "\<forall>k. on_success (spi_send flash (SFUD_CMD_PAGE_PROGRAM # make_adress_byte_array flash a @ xs) b1)
         (\<lambda>b. on_success (wait_busy flash b) k) = on_success (Some (e, b2)) k"
      "wrote v (unat a) xs e b b2" "aai v b2 = None" "faultless flash \<longrightarrow> e = SFUD_SUCCESS"
      using program_step[OF c less.prems(1) data(3), of a] by auto
    have pc: "page_command flash a data d = Some (SFUD_CMD_PAGE_PROGRAM # make_adress_byte_array flash a @ xs)"
      using dl by (simp add: page_command_def length_make_adress SFUD_WRITE_MAX_PAGE_SIZE_def rd_blk_def xs_def)
    have eq: "page_write_loop flash a ?n g data b =
        on_success (Some (e, b2)) (page_write_loop flash (a + d) (?n - d) g ys)"
      using nz gz pc st(1,2) by (simp add: page_write_loop.simps[of flash a ?n] d_def[symmetric] ys_def)
    show ?thesis
    proof (cases "e = SFUD_SUCCESS")
      case False
      then show ?thesis using eq wrote_prefix[OF st(3) False fx] st(4,5) data(1) by simp
    next
      case True
      have l2: "length (cells v b2) = length (cells v b)" using wrote_length[OF st(3)] fx by simp
      have r2: "reachable_chip v flash b2"
        using st(3,4) l2 by (intro reachable_chipI[OF less.prems(1)]) (simp_all add: wrote_def)
      have a2: "unat (a + d) = unat a + unat d"
        using fx data(2) r(4) by (intro unat_add_small) simp
      have n2: "?n - d = of_nat (length ys)" using dl(2) by (simp add: ys_def word_unat_eq_iff unat_sub_if' n) 
      have "length ys < length data" using data(2) dl by (simp add: ys_def)
      from less.hyps[OF this r2, of "a + d"] obtain e' b' where ih:
        "page_write_loop flash (a + d) (of_nat (length ys)) g ys b2 = Some (e', b')"
        "wrote v (unat (a + d)) ys e' b2 b'" "aai v b' = None" "faultless flash \<longrightarrow> e' = SFUD_SUCCESS" using fx l2 data(2) a2 by auto
      have "wrote v (unat a) (xs @ ys) e' b b'"
        using wrote_append[of v "unat a" xs b b2 ys e' b'] st(3) True ih(2) fx a2 data(2) by simp
      then show ?thesis using eq True ih(1,3,4) n2 data(1) by simp
    qed
  qed
qed

lemma lock_reachable:
  assumes "nor_chip v flash" "reachable_chip v flash b"
  obtains b1 where "lock_spi flash b = Some b1" "still v b b1" "reachable_chip v flash b1"
proof -
  obtain b1 where b1: "lock_spi flash b = Some b1" "still v b b1" "pending v b1 = pending v b" "aai v b1 = aai v b"
    by (rule lock_ok[OF assms(1)])
  then have "reachable_chip v flash b1"
    using reachable_chipD[OF assms(2)] by (intro reachable_still[OF assms(2) b1(2)]) (simp add: ready_def)
  then show thesis by (rule that[OF b1(1,2)])
qed

text \<open>The whole of a write: started device, range inside the chip.\<close>

lemma range_check:
  assumes "length (cells v b) = unat (capacity (chip flash))" "unat a + unat n \<le> length (cells v b)"
  shows "\<not> a + n > capacity (chip flash)"
  using in_range_check[of a "unat n" "capacity (chip flash)" n] assms by simp

lemma exit_wrote:
  assumes c: "nor_chip v flash" and w: "wrote v a d e b b1"
  shows "\<exists>b'. write_exit flash (Some (e, b1)) = Some (e, b') \<and> wrote v a d e b b' \<and> aai v b' = None"
proof -
  obtain b' where b': "write_exit flash (Some (e, b1)) = Some (e, b')" "still v b1 b'" "ready v b'"
    using write_exit_ok[OF c, of b1 e] w by (auto simp: wrote_def)
  then show ?thesis using wrote_still2[OF w b'(2)] by (simp add: ready_def)
qed

lemma page_write_ok:
  assumes c: "nor_chip v flash" and i: "init_ok flash" and g: "g = 1 \<or> g = 256" "unat g dvd page_size flash"
    and r: "reachable_chip v flash b" and cap: "length (cells v b) = unat (capacity (chip flash))"
    and fits: "unat a + length data \<le> length (cells v b)"
  shows "\<exists>e b'. page256_or_1_byte_write flash a (of_nat (length data)) g data b = Some (e, b') \<and>
    wrote v (unat a) data e b b' \<and> aai v b' = None \<and> (faultless flash \<longrightarrow> e = SFUD_SUCCESS)"
proof -
  have n: "unat (of_nat (length data) :: u32) = length data"
    using fits reachable_chipD(4)[OF r] by (intro unat_of_nat_lt) simp
  obtain b1 where b1: "lock_spi flash b = Some b1" "still v b b1" "reachable_chip v flash b1" by (rule lock_reachable[OF c r])
  obtain e b2 where b2: "page_write_loop flash a (of_nat (length data)) g data b1 = Some (e, b2)" "wrote v (unat a) data e b1 b2"
    "faultless flash \<longrightarrow> e = SFUD_SUCCESS"
    using page_write_loop_ok[OF c g b1(3), of a data] fits stillD(1)[OF b1(2)] by auto
  obtain b' where b': "write_exit flash (Some (e, b2)) = Some (e, b')" "wrote v (unat a) data e b1 b'" "aai v b' = None"
    using exit_wrote[OF c b2(2)] by blast
  have "\<not> a + of_nat (length data) > capacity (chip flash)" using range_check[OF cap, of a "of_nat (length data)"] fits n by simp
  then have "page256_or_1_byte_write flash a (of_nat (length data)) g data b = Some (e, b')"
    using g(1) i b1(1) b2(1) b'(1) by (auto simp: page256_or_1_byte_write_def)
  then show ?thesis using wrote_still1[OF b1(2) b'(2)] b'(3) b2(3) by blast
qed

section \<open>Auto address increment\<close>

text \<open>One word is sent; the chip is at \<open>unat a\<close>, started by this word or by an earlier one.\<close>

definition aai_at :: "'b chip_view \<Rightarrow> 'b sfud_flash \<Rightarrow> bool \<Rightarrow> u32 \<Rightarrow> 'b \<Rightarrow> bool" where
  "aai_at v flash first a b \<longleftrightarrow> pending v b = 0 \<and> wide v b = addr_in_4_byte flash \<and> length (cells v b) < 2 ^ 31 \<and>
     (addr_in_4_byte flash \<or> length (cells v b) \<le> 2 ^ 24) \<and>
     (if first then aai v b = None \<and> latch v b else aai v b = Some (unat a))"

lemma aai_step:
  assumes c: "nor_chip v flash" and m: "write_mode (chip flash) AND SFUD_WM_AAI \<noteq> 0"
    and at: "aai_at v flash first a b" and ev: "even (unat a)" and fits: "unat a + 2 \<le> length (cells v b)"
  shows "\<exists>e b2. (\<forall>k. on_success (spi_send flash (SFUD_CMD_AAI_WORD_PROGRAM #
        (if first then make_adress_byte_array flash a else []) @ [d0, d1]) b) (\<lambda>b. on_success (wait_busy flash b) k) =
      on_success (Some (e, b2)) k) \<and> wrote v (unat a) [d0, d1] e b b2 \<and> (e = SFUD_SUCCESS \<longrightarrow> aai_at v flash False (a + 2) b2)"
proof -
  let ?T = "unat (retry_times flash)" and ?cmd = "SFUD_CMD_AAI_WORD_PROGRAM # (if first then make_adress_byte_array flash a else []) @ [d0, d1]"
  note law = nor_chipD(5)[OF c m, unfolded aai_law_def]
  note at' = at[unfolded aai_at_def]
  have ua: "unat (a + 2) = unat a + 2" using fits at' by (subst unat_add_small) simp_all
  have "\<exists>e x b1. spi_wr (spi flash) ?cmd 0 b = (e, x, b1) \<and> program_effect v ?T (unat a) [d0, d1] e b b1 \<and>
      (e = SFUD_SUCCESS \<longrightarrow> aai v b1 = Some (unat a + 2))"
  proof (cases first)
    case True
    have ad: "addresses v b (make_adress_byte_array flash a)" "be_value (make_adress_byte_array flash a) = unat a"
      using at' fits by (auto simp: addresses_def length_make_adress intro!: be_make_adress)
    show ?thesis
      using law[THEN conjunct1, rule_format, of b "make_adress_byte_array flash a" d0 d1] ad at' ev fits True
      by (simp add: ready_def SFUD_CMD_AAI_WORD_PROGRAM_def)
  next
    case False
    then show ?thesis
      using law[THEN conjunct2, rule_format, of b "unat a" d0 d1] at' fits by (simp add: SFUD_CMD_AAI_WORD_PROGRAM_def)
  qed
  then obtain e x b1 where b1: "spi_wr (spi flash) ?cmd 0 b = (e, x, b1)" "program_effect v ?T (unat a) [d0, d1] e b b1"
    "e = SFUD_SUCCESS \<longrightarrow> aai v b1 = Some (unat a + 2)" by blast
  have s: "spi_send flash ?cmd b = Some (e, b1)" by (simp add: spi_send_def b1(1))
  have p: "e = SFUD_SUCCESS \<Longrightarrow> pending v b1 \<le> ?T" "e \<noteq> SFUD_SUCCESS \<Longrightarrow> pending v b1 = 0"
    using b1(2) by (simp_all add: program_effect_def)
  obtain b2 where b2: "\<forall>k. on_success (spi_send flash ?cmd b) (\<lambda>b. on_success (wait_busy flash b) k) = on_success (Some (e, b2)) k"
    "still v b1 b2" "pending v b2 = 0" "aai v b2 = aai v b1" using command_wait[OF c s p] by blast
  have w: "wrote v (unat a) [d0, d1] e b b2"
    using b1(2) b2(2,3) by (auto simp: program_effect_def wrote_def still_def)
  moreover have "aai_at v flash False (a + 2) b2" if "e = SFUD_SUCCESS"
  proof -
    have "length (cells v b2) = length (cells v b)" using wrote_length[OF w] fits by simp
    then show ?thesis using that w at' b1(3) b2(4) ua by (simp add: aai_at_def wrote_def)
  qed
  ultimately show ?thesis using b2(1) by blast
qed

text \<open>Leaving the mode, and the odd last byte.\<close>

lemma aai_tail:
  assumes c: "nor_chip v flash" and i: "init_ok flash" and at: "aai_at v flash first a b"
    and cap: "length (cells v b) = unat (capacity (chip flash))"
    and fits: "unat a + length data \<le> length (cells v b)" and short: "length data < 2"
  shows "\<exists>e b'. aai_loop flash first a (of_nat (length data)) data b = Some (e, b') \<and>
    wrote v (unat a) data e b b' \<and> (e = SFUD_SUCCESS \<longrightarrow> aai v b' = None)"
proof -
  note at' = at[unfolded aai_at_def]
  obtain b1 where b1: "set_write_enabled flash False b = Some (SFUD_SUCCESS, b1)" "still v b b1" "ready v b1"
    using set_write_enabled_ok[OF c, of b False] at' by auto
  have r: "reachable_chip v flash b1"
    using at' b1(2,3) by (simp add: reachable_chip_def chip_in_step_def still_def)
  consider "data = []" | x where "data = [x]" using short by (cases data) auto
  then show ?thesis
  proof cases
    case 1
    have "wrote v (unat a) [] SFUD_SUCCESS b b1"
      using wrote_still1[OF b1(2) wrote_nil] reachable_chipD(1)[OF r] by simp
    then show ?thesis using 1 b1 by (simp add: aai_loop.simps ready_def)
  next
    case 2
    obtain e b2 where b2: "page256_or_1_byte_write flash a (of_nat (length data)) 1 data b1 = Some (e, b2)"
      "wrote v (unat a) data e b1 b2" "aai v b2 = None"
      using page_write_ok[OF c i, of 1 b1 a data] r cap fits stillD(1)[OF b1(2)] by auto
    have "aai_loop flash first a (of_nat (length data)) data b = Some (e, b2)"
      using 2 b1(1) b2(1) by (simp add: aai_loop.simps[of flash first a 1] word_le_nat_alt)
    then show ?thesis using wrote_still1[OF b1(2) b2(2)] b2(3) by blast
  qed
qed

lemma aai_loop_ok:
  assumes c: "nor_chip v flash" and i: "init_ok flash" and m: "write_mode (chip flash) AND SFUD_WM_AAI \<noteq> 0"
    and "aai_at v flash first a b" "even (unat a)" "length (cells v b) = unat (capacity (chip flash))"
      "unat a + length data \<le> length (cells v b)"
  shows "\<exists>e b'. aai_loop flash first a (of_nat (length data)) data b = Some (e, b') \<and>
    wrote v (unat a) data e b b' \<and> (e = SFUD_SUCCESS \<longrightarrow> aai v b' = None)"
  using assms(4-7)
proof (induction "length data" arbitrary: first a data b rule: less_induct)
  case less
  let ?n = "of_nat (length data) :: u32"
  have n: "unat ?n = length data" using less.prems(1,4) by (intro unat_of_nat_lt) (simp add: aai_at_def)
  show ?case
  proof (cases "length data < 2")
    case True
    then show ?thesis by (rule aai_tail[OF c i less.prems(1,3,4)])
  next
    case False
    then obtain d0 d1 ys where data: "data = [d0, d1] @ ys"
      by (cases data; cases "tl data") auto
    have fx: "unat a + length [d0, d1] + length ys \<le> length (cells v b)" using less.prems(4) data by simp
    have f2: "unat a + 2 \<le> length (cells v b)" using fx by simp
    obtain e b2 where st: "\<forall>k. on_success (spi_send flash (SFUD_CMD_AAI_WORD_PROGRAM #
        (if first then make_adress_byte_array flash a else []) @ [d0, d1]) b) (\<lambda>b. on_success (wait_busy flash b) k) =
      on_success (Some (e, b2)) k" "wrote v (unat a) [d0, d1] e b b2" "e = SFUD_SUCCESS \<longrightarrow> aai_at v flash False (a + 2) b2"
      using aai_step[OF c m less.prems(1,2) f2] by blast
    have ge: "?n \<ge> 2" using n False by (simp add: word_le_nat_alt)
    have n2: "?n - 2 = of_nat (length ys)" using data by simp
    have eq: "aai_loop flash first a ?n data b = on_success (Some (e, b2)) (aai_loop flash False (a + 2) (of_nat (length ys)) ys)"
    proof -
      have d: "rd data 0 = Some d0" "rd data 1 = Some d1" "drop 2 data = ys" using data by (simp_all add: rd_def)
      show ?thesis unfolding aai_loop.simps[of flash first a ?n data b] using ge st(1) n2 d by simp
    qed
    show ?thesis
    proof (cases "e = SFUD_SUCCESS")
      case False
      then show ?thesis using eq wrote_prefix[OF st(2) False fx] data by simp
    next
      case True
      have l2: "length (cells v b2) = length (cells v b)" using wrote_length[OF st(2)] fx by simp
      have ua: "unat (a + 2) = unat a + 2" using fx less.prems(1) by (subst unat_add_small) (simp_all add: aai_at_def)
      have "\<exists>e b'. aai_loop flash False (a + 2) (of_nat (length ys)) ys b2 = Some (e, b') \<and>
          wrote v (unat (a + 2)) ys e b2 b' \<and> (e = SFUD_SUCCESS \<longrightarrow> aai v b' = None)"
        using data st(3) True less.prems(2-4) ua l2 by (intro less.hyps) simp_all
      then obtain e' b' where ih: "aai_loop flash False (a + 2) (of_nat (length ys)) ys b2 = Some (e', b')"
        "wrote v (unat a + 2) ys e' b2 b'" "e' = SFUD_SUCCESS \<longrightarrow> aai v b' = None" unfolding ua by blast
      have "wrote v (unat a) ([d0, d1] @ ys) e' b b'"
        using wrote_append[of v "unat a" "[d0, d1]" b b2 ys e' b'] st(2) True ih(2) fx by simp
      then show ?thesis using eq True ih(1,3) data by simp
    qed
  qed
qed

lemma aai_write_ok:
  assumes c: "nor_chip v flash" and i: "init_ok flash" and m: "write_mode (chip flash) AND SFUD_WM_AAI \<noteq> 0"
    and r: "reachable_chip v flash b" and cap: "length (cells v b) = unat (capacity (chip flash))"
    and fits: "unat a + length data \<le> length (cells v b)" and ne: "data \<noteq> []"
  shows "\<exists>e b'. aai_write flash a (of_nat (length data)) data b = Some (e, b') \<and> wrote v (unat a) data e b b' \<and> aai v b' = None"
proof -
  have n: "unat (of_nat (length data) :: u32) = length data"
    using fits reachable_chipD(4)[OF r] by (intro unat_of_nat_lt) simp
  obtain b1 where b1: "lock_spi flash b = Some b1" "still v b b1" "reachable_chip v flash b1" by (rule lock_reachable[OF c r])
  have cap1: "length (cells v b1) = unat (capacity (chip flash))" using cap stillD(1)[OF b1(2)] by simp
  have nb: "\<not> a + of_nat (length data) > capacity (chip flash)" using range_check[OF cap, of a "of_nat (length data)"] fits n by simp
  have m2: "unat (a mod 2) = unat a mod 2" by (simp add: unat_mod)
  have start: "\<exists>e b'. on_success (set_write_enabled flash True b) (aai_loop flash True a (of_nat (length d)) d) = Some (e, b') \<and>
      wrote v (unat a) d e b b' \<and> (e = SFUD_SUCCESS \<longrightarrow> aai v b' = None)"
    if rb: "reachable_chip v flash b" and f: "unat a + length d \<le> length (cells v b)" "even (unat a)"
      "length (cells v b) = unat (capacity (chip flash))" for a d b
  proof -
    obtain b2 where b2: "set_write_enabled flash True b = Some (SFUD_SUCCESS, b2)" "still v b b2" "ready v b2" "latch v b2"
      using set_write_enabled_ok[OF c, of b True] reachable_chipD(1,2)[OF rb] by auto
    have "aai_at v flash True a b2"
      using reachable_chipD[OF reachable_still[OF rb b2(2,3)]] b2(4) by (simp add: aai_at_def)
    from aai_loop_ok[OF c i m this f(2), of d] show ?thesis
      using f b2(1) stillD(1)[OF b2(2)] wrote_still1[OF b2(2)] by fastforce
  qed
  have "\<exists>e b2. (if a mod 2 \<noteq> 0 then
         on_success (page256_or_1_byte_write flash a 1 1 data b1) (\<lambda>b.
         on_success (set_write_enabled flash True b) (\<lambda>b.
         aai_loop flash True (a + 1) (of_nat (length data) - 1) (drop 1 data) b))
       else on_success (set_write_enabled flash True b1) (aai_loop flash True a (of_nat (length data)) data)) = Some (e, b2) \<and>
     wrote v (unat a) data e b1 b2 \<and> (e = SFUD_SUCCESS \<longrightarrow> aai v b2 = None)" (is "\<exists>e b2. ?W = _ \<and> _")
  proof (cases "a mod 2 = 0")
    case True
    then have ev: "even (unat a)" using m2 by (simp add: even_iff_mod_2_eq_zero)
    show ?thesis using start[OF b1(3) _ ev cap1, of data] True fits stillD(1)[OF b1(2)] by simp
  next
    case False
    obtain x ys where data: "data = [x] @ ys" using ne by (cases data) auto
    have fx: "unat a + length [x] + length ys \<le> length (cells v b1)" using fits data stillD(1)[OF b1(2)] by simp
    obtain e b2 where b2: "page256_or_1_byte_write flash a 1 1 [x] b1 = Some (e, b2)" "wrote v (unat a) [x] e b1 b2" "aai v b2 = None"
      using page_write_ok[OF c i, of 1 b1 a "[x]"] b1(3) cap1 fx by auto
    have px: "page256_or_1_byte_write flash a 1 1 data b1 = page256_or_1_byte_write flash a 1 1 [x] b1"
    proof -
      have "page_chunk 1 a 1 = 1" 
        using page_chunk_bounds(1,2)[of 1 1 a] by (simp add: word_unat_eq_iff word_less_nat_alt word_le_nat_alt)
      then have "page_write_loop flash a 1 1 data b = page_write_loop flash a 1 1 [x] b" for b
        by (simp add: page_write_loop.simps[of flash a 1 1] page_command_def
            length_make_adress SFUD_WRITE_MAX_PAGE_SIZE_def rd_blk_def data)
      then show ?thesis by (simp add: page256_or_1_byte_write_def)
    qed
    show ?thesis
    proof (cases "e = SFUD_SUCCESS")
      case ef: False
      have "?W = Some (e, b2)" using False px b2(1) ef by simp
      then show ?thesis using wrote_prefix[OF b2(2) ef fx] data ef by simp
    next
      case True
      have l2: "length (cells v b2) = length (cells v b1)" using wrote_length[OF b2(2)] fx by simp
      have r2: "reachable_chip v flash b2"
        using b2(2,3) l2 by (intro reachable_chipI[OF b1(3)]) (simp_all add: wrote_def)
      have ua: "unat (a + 1) = unat a + 1" using fx reachable_chipD(4)[OF b1(3)] by (subst unat_add_small) simp_all
      have "odd (unat a)" using False m2 by (metis even_iff_mod_2_eq_zero unat_eq_0)
      then have ev: "even (unat (a + 1))" using ua by simp
      obtain e' b3 where b3: "on_success (set_write_enabled flash True b2) (aai_loop flash True (a + 1) (of_nat (length ys)) ys) = Some (e', b3)"
        "wrote v (unat (a + 1)) ys e' b2 b3" "e' = SFUD_SUCCESS \<longrightarrow> aai v b3 = None"
        using start[OF r2 _ ev, of ys] fx l2 ua cap1 by auto
      have "?W = Some (e', b3)" using False px b2(1) True b3(1) data by simp
      moreover have "wrote v (unat a) ([x] @ ys) e' b1 b3"
        using wrote_append[of v "unat a" "[x]" b1 b2 ys e' b3] b2(2) True b3(2) fx ua by simp
      ultimately show ?thesis using b3(3) data by blast
    qed
  qed
  then obtain e b2 where b2: "?W = Some (e, b2)" "wrote v (unat a) data e b1 b2" "e = SFUD_SUCCESS \<longrightarrow> aai v b2 = None" by blast
  have "\<exists>r b3. (if e \<noteq> SFUD_SUCCESS then set_write_enabled flash False b2 else Some (e, b2)) = Some (r, b3) \<and> still v b2 b3 \<and> ready v b3"
    using set_write_enabled_ok[OF c, of b2 False] b2(2,3) by (cases "e = SFUD_SUCCESS") (auto simp: wrote_def ready_def)
  then obtain r b3 where b3: "(if e \<noteq> SFUD_SUCCESS then set_write_enabled flash False b2 else Some (e, b2)) = Some (r, b3)"
    "still v b2 b3" "ready v b3" by blast
  have "aai_write flash a (of_nat (length data)) data b = Some (e, unlock_spi flash b3)"
    using i nb b1(1) b2(1) b3(1) by (simp add: aai_write_def)
  moreover have "wrote v (unat a) data e b (unlock_spi flash b3)"
    using wrote_still1[OF b1(2) wrote_still2[OF wrote_still2[OF b2(2) b3(2)] unlock_ok(1)[OF c]]] b3(3) unlock_ok(2)[OF c]
    by (simp add: ready_def)
  ultimately show ?thesis using unlock_ok(3)[OF c, of b3] b3(3) by (simp add: ready_def)
qed

section \<open>Erasing\<close>

lemma sfud_startedD:
  assumes "sfud_started flash"
  shows "init_ok flash" "0 < capacity (chip flash)" "unat (capacity (chip flash)) < 2 ^ 31"
    "addr_in_4_byte flash \<or> capacity (chip flash) \<le> 0x1000000" "erase_gran (chip flash) \<noteq> 0"
    "unat (erase_gran (chip flash)) dvd unat (capacity (chip flash))"
    "er \<in> erasers flash \<Longrightarrow> unat (erase_gran (chip flash)) dvd unat (fst er)"
    "er \<in> erasers flash \<Longrightarrow> unat (fst er) dvd unat (capacity (chip flash))"
    "available (sfdp flash) \<Longrightarrow> length (eraser (sfdp flash)) = 4"
    "available (sfdp flash) \<Longrightarrow> fst (eraser (sfdp flash) ! 0) = erase_gran (chip flash)"
  using assms by (simp_all add: sfud_started_def SFUD_SFDP_ERASE_TYPE_MAX_NUM_def)

definition wiped :: "'b chip_view \<Rightarrow> nat \<Rightarrow> nat \<Rightarrow> sfud_err \<Rightarrow> 'b \<Rightarrow> 'b \<Rightarrow> bool" where
  "wiped v a n e b b' \<longleftrightarrow> pending v b' = 0 \<and> aai v b' = None \<and> wide v b' = wide v b \<and>
     (if e = SFUD_SUCCESS then cells v b' = nor_erase a n (cells v b) else same_outside a n (cells v b) (cells v b'))"

lemma wiped_still1: "still v b b1 \<Longrightarrow> wiped v a n e b1 b' \<Longrightarrow> wiped v a n e b b'"
  by (auto simp: wiped_def still_def split: if_splits)

lemma wiped_still2: "wiped v a n e b b1 \<Longrightarrow> still v b1 b' \<Longrightarrow> ready v b' \<Longrightarrow> wiped v a n e b b'"
  by (auto simp: wiped_def still_def ready_def split: if_splits)

lemma wiped_length: "wiped v a n e b b' \<Longrightarrow> a + n \<le> length (cells v b) \<Longrightarrow> length (cells v b') = length (cells v b)"
  by (auto simp: wiped_def same_outside_def split: if_splits)

lemma wiped_append:
  assumes "wiped v a k SFUD_SUCCESS b b1" "wiped v (a + k) n e b1 b2" "a + k + n \<le> length (cells v b)"
  shows "wiped v a (k + n) e b b2"
proof -
  have c1: "cells v b1 = nor_erase a k (cells v b)" using assms(1) by (simp add: wiped_def)
  have "same_outside a (k + n) (cells v b) (cells v b2)" if "e \<noteq> SFUD_SUCCESS"
  proof (rule same_outside_trans)
    show "same_outside a (k + n) (cells v b) (cells v b1)"
      unfolding c1 by (rule same_outside_wider[OF same_outside_erase]) (use assms(3) in simp_all)
    show "same_outside a (k + n) (cells v b1) (cells v b2)"
      by (rule same_outside_wider[of "a + k" n]) (use assms(2) that in \<open>simp_all add: wiped_def\<close>)
  qed
  moreover have "cells v b2 = nor_erase a (k + n) (cells v b)" if "e = SFUD_SUCCESS"
    using assms(2) that nor_erase_append[OF assms(3)] by (simp add: wiped_def c1)
  ultimately show ?thesis using assms(1,2) by (simp add: wiped_def)
qed

lemma wiped_wider:
  assumes "wiped v a n e b b'" "e \<noteq> SFUD_SUCCESS" "c \<le> a" "a + n \<le> c + k"
  shows "wiped v c k e b b'"
  using assms(1,2) by (auto simp: wiped_def intro: same_outside_wider[OF _ assms(3,4)])

lemma suitable_eraser_loop_ok:
  assumes "i < length es"
  shows "\<exists>j < length es. suitable_eraser_loop es a n i = Some j \<and>
    (j = 0 \<or> fst (es ! j) \<noteq> 0 \<and> fst (es ! j) \<le> n \<and> a mod fst (es ! j) = 0)"
  using assms
proof (induction i)
  case 0
  obtain sz cmd where e: "es ! 0 = (sz, cmd)" by (cases "es ! 0")
  have "suitable_eraser_loop es a n 0 = Some 0"
    using 0 e by (simp add: suitable_eraser_loop.simps[of _ _ _ 0] rd_def)
  then show ?case using 0 by blast
next
  case (Suc i)
  obtain sz cmd where e: "es ! Suc i = (sz, cmd)" by (cases "es ! Suc i")
  have eq: "suitable_eraser_loop es a n (Suc i) =
      (if sz \<noteq> 0 \<and> n \<ge> sz \<and> a mod sz = 0 then Some (Suc i) else suitable_eraser_loop es a n i)"
    using Suc.prems e by (simp add: suitable_eraser_loop.simps[of _ _ _ "Suc i"] rd_def)
  show ?case
  proof (cases "sz \<noteq> 0 \<and> n \<ge> sz \<and> a mod sz = 0")
    case True
    then show ?thesis unfolding eq if_P[OF True] using e Suc.prems by auto
  next
    case False
    then show ?thesis unfolding eq if_not_P[OF False] using Suc.IH Suc.prems by simp
  qed
qed

text \<open>The eraser of a step: one unit, or a larger one that fits the address and the rest.\<close>

lemma current_eraser_ok:
  assumes "sfud_started flash"
  shows "\<exists>er. current_eraser flash a n = Some er \<and> er \<in> erasers flash \<and> fst er \<noteq> 0 \<and>
    (fst er = erase_gran (chip flash) \<or> fst er \<le> n \<and> a mod fst er = 0)"
proof (cases "available (sfdp flash)")
  case False
  then show ?thesis using assms by (simp add: current_eraser_def erasers_def sfud_started_def)
next
  case True
  let ?es = "eraser (sfdp flash)"
  have l: "length ?es = 4" "fst (?es ! 0) = erase_gran (chip flash)" "erase_gran (chip flash) \<noteq> 0"
    using assms True by (simp_all add: sfud_started_def SFUD_SFDP_ERASE_TYPE_MAX_NUM_def)
  have mem: "?es ! j \<in> erasers flash" if "j < 4" "fst (?es ! j) \<noteq> 0" for j
    using that l(1) True by (simp add: erasers_def)
  obtain sm cm where e0: "?es ! 0 = (sm, cm)" by (cases "?es ! 0")
  have sm: "sm = erase_gran (chip flash)" using l(2) e0 by simp
  have eq: "sfud_sfdp_get_suitable_eraser flash a n = (if a mod sm \<noteq> 0 then Some 0 else suitable_eraser_loop ?es a n 3)"
    using True l(1,3) e0 sm by (simp add: sfud_sfdp_get_suitable_eraser_def rd_def SFUD_SFDP_ERASE_TYPE_MAX_NUM_def)
  have "\<exists>j < 4. sfud_sfdp_get_suitable_eraser flash a n = Some j \<and>
      (j = 0 \<or> fst (?es ! j) \<noteq> 0 \<and> fst (?es ! j) \<le> n \<and> a mod fst (?es ! j) = 0)"
  proof (cases "a mod sm \<noteq> 0")
    case True
    then show ?thesis unfolding eq if_P[OF True] by auto
  next
    case False
    have "\<exists>j < length ?es. suitable_eraser_loop ?es a n 3 = Some j \<and>
        (j = 0 \<or> fst (?es ! j) \<noteq> 0 \<and> fst (?es ! j) \<le> n \<and> a mod fst (?es ! j) = 0)"
      by (rule suitable_eraser_loop_ok) (simp add: l(1))
    then show ?thesis unfolding eq if_not_P[OF False] l(1) .
  qed
  then obtain j where j: "j < 4" "sfud_sfdp_get_suitable_eraser flash a n = Some j"
    "j = 0 \<or> fst (?es ! j) \<noteq> 0 \<and> fst (?es ! j) \<le> n \<and> a mod fst (?es ! j) = 0" by (elim exE conjE)
  have c: "current_eraser flash a n = Some (?es ! j)" using True j(1,2) l(1) by (simp add: current_eraser_def rd_def)
  have nz: "fst (?es ! j) \<noteq> 0" using j(3) l(2,3) by metis
  have "fst (?es ! j) = erase_gran (chip flash) \<or> fst (?es ! j) \<le> n \<and> a mod fst (?es ! j) = 0"
    using j(3) l(2) by metis
  with c mem[OF j(1) nz] nz show ?thesis by (intro exI[of _ "?es ! j"] conjI)
qed

lemma unit_window: "(g :: nat) dvd x \<Longrightarrow> g dvd y \<Longrightarrow> x < y + g \<Longrightarrow> y < x + g \<Longrightarrow> x = y"
  by (metis add_diff_inverse_nat dvd_diff_nat dvd_imp_le linorder_not_less nat_add_left_cancel_less order_less_le_trans
      zero_less_diff less_imp_le_nat nat_neq_iff)

lemma unat_erase_step: "sz \<noteq> 0 \<Longrightarrow> unat (erase_step sz a) = unat sz - unat a mod unat sz"
  by (cases "a mod sz = 0")
    (simp_all add: erase_step_def unat_sub unat_mod word_mod_less_divisor word_gt_0 less_imp_le
      flip: unat_mod)

lemma erase_command_ok:
  assumes c: "nor_chip v flash" and r: "reachable_chip v flash b" and er: "er \<in> erasers flash"
    and a: "unat a < length (cells v b)"
  shows "\<exists>b1 e b2. set_write_enabled flash True b = Some (SFUD_SUCCESS, b1) \<and>
    (\<forall>k. on_success (spi_send flash (snd er # make_adress_byte_array flash a) b1)
       (\<lambda>b. on_success (wait_busy flash b) k) = on_success (Some (e, b2)) k) \<and>
    wiped v (unat a - unat a mod unat (fst er)) (unat (fst er)) e b b2 \<and> (faultless flash \<longrightarrow> e = SFUD_SUCCESS)"
proof -
  note rd = reachable_chipD[OF r]
  let ?as = "make_adress_byte_array flash a" and ?T = "unat (retry_times flash)"
  obtain b1 where b1: "set_write_enabled flash True b = Some (SFUD_SUCCESS, b1)" "still v b b1" "ready v b1" "latch v b1"
    using set_write_enabled_ok[OF c rd(1), of True] rd(2) by auto
  have ad: "addresses v b1 ?as" "be_value ?as = unat a"
    by (rule address_ok[OF r a b1(2)], rule address_ok[OF r a b1(2)])
  have "be_value ?as < length (cells v b1)" using a ad(2) stillD(1)[OF b1(2)] by simp
  then obtain e x b2 where b2: "spi_wr (spi flash) (snd er # ?as) 0 b1 = (e, x, b2)"
    "erased v ?T (unat a - unat a mod unat (fst er)) (unat (fst er)) e b1 b2"
    using nor_chipD(6)[OF c er, unfolded erase_law_def, rule_format, OF b1(3,4) ad(1)] unfolding ad(2) by blast
  have s: "spi_send flash (snd er # ?as) b1 = Some (e, b2)" by (simp add: spi_send_def b2(1))
  have p: "e = SFUD_SUCCESS \<Longrightarrow> pending v b2 \<le> ?T" "e \<noteq> SFUD_SUCCESS \<Longrightarrow> pending v b2 = 0"
    using b2(2) by (simp_all add: erased_def)
  obtain b3 where b3: "\<forall>k. on_success (spi_send flash (snd er # ?as) b1) (\<lambda>b. on_success (wait_busy flash b) k) = on_success (Some (e, b3)) k"
    "still v b2 b3" "pending v b3 = 0" "aai v b3 = aai v b2" using command_wait[OF c s p] by blast
  have "wiped v (unat a - unat a mod unat (fst er)) (unat (fst er)) e b1 b3"
    using b2(2) b3(2-4) by (auto simp: erased_def wiped_def still_def)
  then show ?thesis using b1(1) b3(1) wiped_still1[OF b1(2)] faultlessD[OF _ b2(1)] by blast
qed

text \<open>
  The loop erases the units from \<open>lo\<close>, the one the address is in, to \<open>hi\<close>, the end of the one
  the last byte is in.
\<close>

definition units :: "nat \<Rightarrow> nat \<Rightarrow> nat \<Rightarrow> nat \<Rightarrow> nat \<Rightarrow> bool" where
  "units g a n lo hi \<longleftrightarrow> g dvd lo \<and> lo \<le> a \<and> a < lo + g \<and> g dvd hi \<and> a + n \<le> hi \<and> hi < a + n + g"

lemma eraser_geometry:
  fixes sz a n g lo hi :: nat
  assumes u: "units g a n lo hi" and n: "0 < n" and g: "g dvd sz" "0 < sz" and er: "sz = g \<or> sz \<le> n \<and> a mod sz = 0"
  defines "st \<equiv> sz - a mod sz"
  shows "a - a mod sz = lo" "a + st = lo + sz" "0 < st" "n \<le> st \<Longrightarrow> lo + sz = hi"
    "st < n \<Longrightarrow> units g (a + st) (n - st) (lo + sz) hi" "st < n \<Longrightarrow> lo + sz < hi"
proof -
  have m: "a mod sz < sz" "a mod sz \<le> a" using g(2) by simp_all
  note u' = u[unfolded units_def]
  have gd: "g dvd a - a mod sz" using g(1) by (metis dvd_trans minus_mod_eq_mult_div dvd_triv_left)
  show lo: "a - a mod sz = lo"
    using er
  proof
    assume z: "sz = g"
    have "a - a mod sz < lo + g" "lo < a - a mod sz + g" using u' m z by linarith+
    with gd u' show ?thesis by (intro unit_window[of g]) auto
  next
    assume "sz \<le> n \<and> a mod sz = 0"
    with gd u' show ?thesis by (intro unit_window[of g]) auto
  qed
  then show e: "a + st = lo + sz" using m unfolding st_def by linarith
  show "0 < st" using m(1) by (simp add: st_def)
  have gs: "g dvd lo + sz" using u' g(1) by simp
  show "lo + sz = hi" if "n \<le> st"
    using er
  proof
    assume z: "sz = g"
    have "lo + sz < hi + g" "hi < lo + sz + g" using u' that e z n by linarith+
    with gs u' show ?thesis by (intro unit_window[of g]) auto
  next
    assume "sz \<le> n \<and> a mod sz = 0"
    with gs u' that e show ?thesis by (intro unit_window[of g]) (auto simp: st_def)
  qed
  assume s: "st < n"
  have "0 < g" using g by (auto intro!: Nat.gr0I)
  then show "units g (a + st) (n - st) (lo + sz) hi" 
  proof -
    have "a + st + (n - st) = a + n" using s by simp
    then show ?thesis unfolding units_def using u' gs e \<open>0 < g\<close> by simp
  qed
  show "lo + sz < hi" using u' e s by simp
qed

lemma erase_loop_ok:
  assumes c: "nor_chip v flash" and s: "sfud_started flash"
    and "reachable_chip v flash b" "length (cells v b) = unat (capacity (chip flash))"
      "unat a + unat n \<le> length (cells v b)" "0 < unat n" "units (unat (erase_gran (chip flash))) (unat a) (unat n) lo hi"
  shows "\<exists>e b'. erase_loop flash a n b = Some (e, b') \<and> wiped v lo (hi - lo) e b b' \<and> (faultless flash \<longrightarrow> e = SFUD_SUCCESS)"
  using assms(3-7)
proof (induction "unat n" arbitrary: a n b lo rule: less_induct)
  case less
  let ?g = "unat (erase_gran (chip flash))"
  note g = sfud_startedD(6)[OF s]
  have hi: "hi \<le> length (cells v b)"
  proof (rule ccontr)
    assume "\<not> ?thesis"
    then have "hi = unat (capacity (chip flash))"
      using less.prems(2,3,5) g by (intro unit_window[of ?g]) (auto simp: units_def)
    with \<open>\<not> ?thesis\<close> less.prems(2) show False by simp
  qed
  obtain er where er: "current_eraser flash a n = Some er" "er \<in> erasers flash" "fst er \<noteq> 0"
    "fst er = erase_gran (chip flash) \<or> fst er \<le> n \<and> a mod fst er = 0" using current_eraser_ok[OF s, of a n] by (elim exE conjE)
  let ?sz = "unat (fst er)"
  define st where "st = ?sz - unat a mod ?sz"
  have sz: "?g dvd ?sz" "0 < ?sz" using sfud_startedD(7)[OF s er(2)] er(3) by (simp_all add: unat_gt_0)
  have "?sz = ?g \<or> ?sz \<le> unat n \<and> unat a mod ?sz = 0"
    using er(4)
  proof
    assume "fst er \<le> n \<and> a mod fst er = 0"
    then have "?sz \<le> unat n" "unat (a mod fst er) = 0" by (simp_all add: word_le_nat_alt unat_eq_0)
    then show ?thesis by (simp add: unat_mod)
  qed simp
  note geo = eraser_geometry[OF less.prems(5,4) sz this, folded st_def]
  have us: "unat (erase_step (fst er) a) = st" using unat_erase_step[OF er(3)] by (simp add: st_def)
  have "unat a < length (cells v b)" using less.prems(3,4) by simp
  then obtain b1 e b2 where b2: "set_write_enabled flash True b = Some (SFUD_SUCCESS, b1)"
    "\<forall>k. on_success (spi_send flash (snd er # make_adress_byte_array flash a) b1)
       (\<lambda>b. on_success (wait_busy flash b) k) = on_success (Some (e, b2)) k"
    "wiped v lo ?sz e b b2" "faultless flash \<longrightarrow> e = SFUD_SUCCESS" using erase_command_ok[OF c less.prems(1) er(2)] unfolding geo(1)[symmetric] by blast
  have nz: "n \<noteq> 0" using less.prems(4) by auto
  have eq: "erase_loop flash a n b = on_success (Some (e, b2)) (\<lambda>b. if n > erase_step (fst er) a
      then erase_loop flash (a + erase_step (fst er) a) (n - erase_step (fst er) a) b else Some (SFUD_SUCCESS, b))"
    using nz er(1,3) b2(1,2) by (simp add: erase_loop.simps[of flash a n b])
  have szhi: "lo + ?sz \<le> hi" using geo(4,6) by (cases "st < unat n") (auto simp: not_less)
  show ?case
  proof (cases "e = SFUD_SUCCESS")
    case False
    then show ?thesis using eq wiped_wider[OF b2(3) False] szhi b2(4) by simp
  next
    case True
    show ?thesis
    proof (cases "st < unat n")
      case False
      then have "\<not> n > erase_step (fst er) a" using us by (simp add: word_less_nat_alt)
      moreover have "hi - lo = ?sz" using geo(4) False by simp
      ultimately show ?thesis using eq True b2(3) by simp
    next
      case t: True
      have gt: "n > erase_step (fst er) a" using us t by (simp add: word_less_nat_alt)
      let ?a = "a + erase_step (fst er) a" and ?n = "n - erase_step (fst er) a"
      have ua: "unat ?a = unat a + st"
        using less.prems(3) reachable_chipD(4)[OF less.prems(1)] us t by (subst unat_add_small) simp_all
      have un: "unat ?n = unat n - st" using gt us by (simp add: unat_sub)
      have l2: "length (cells v b2) = length (cells v b)" using wiped_length[OF b2(3)] szhi hi by simp
      have "\<exists>e b'. erase_loop flash ?a ?n b2 = Some (e, b') \<and> wiped v (lo + ?sz) (hi - (lo + ?sz)) e b2 b' \<and>
          (faultless flash \<longrightarrow> e = SFUD_SUCCESS)"
      proof (rule less.hyps)
        show "unat ?n < unat n" using un geo(3) t by simp
        show "reachable_chip v flash b2"
          using b2(3) l2 by (intro reachable_chipI[OF less.prems(1)]) (simp_all add: wiped_def)
        show "units ?g (unat ?a) (unat ?n) (lo + ?sz) hi" using geo(5)[OF t] ua un by simp
      qed (use l2 less.prems ua un t in simp_all)
      then obtain e' b' where ih: "erase_loop flash ?a ?n b2 = Some (e', b')" "wiped v (lo + ?sz) (hi - (lo + ?sz)) e' b2 b'"
        "faultless flash \<longrightarrow> e' = SFUD_SUCCESS" by blast
      have "wiped v lo (?sz + (hi - (lo + ?sz))) e' b b'"
        using b2(3) True ih(2) hi szhi by (intro wiped_append) simp_all
      then have "wiped v lo (hi - lo) e' b b'" using szhi by simp
      then show ?thesis using eq True gt ih(1,3) by simp
    qed
  qed
qed

section \<open>The driver\<close>

lemma started_reachable:
  assumes "sfud_started flash" "chip_in_step v flash b" "length (cells v b) = unat (capacity (chip flash))"
  shows "reachable_chip v flash b"
proof -
  have "length (cells v b) \<le> 2 ^ 24" if "capacity (chip flash) \<le> 0x1000000"
    using that assms(3) by (simp add: word_le_nat_alt)
  then show ?thesis using sfud_startedD(3,4)[OF assms(1)] assms(2,3) by (auto simp: reachable_chip_def)
qed

lemma sfud_write_ok:
  assumes c: "nor_chip v flash" and s: "sfud_started flash" and w: "writes_data flash" and r: "chip_in_step v flash b"
    and cap: "length (cells v b) = unat (capacity (chip flash))" and fits: "unat a + length data \<le> length (cells v b)"
    and ne: "data \<noteq> [] \<or> write_mode (chip flash) AND SFUD_WM_PAGE_256B \<noteq> 0"
  shows "\<exists>e b'. sfud_write flash a data b = Some (e, b') \<and> wrote v (unat a) data e b b' \<and> chip_in_step v flash b' \<and>
    (faultless flash \<and> write_mode (chip flash) AND SFUD_WM_PAGE_256B \<noteq> 0 \<longrightarrow> e = SFUD_SUCCESS)"
proof -
  note rc = started_reachable[OF s r cap]
  have step: "chip_in_step v flash b'" if "wrote v (unat a) data e b b'" "aai v b' = None" for e b'
    using that r by (simp add: wrote_def chip_in_step_def ready_def)
  show ?thesis
  proof (cases "write_mode (chip flash) AND SFUD_WM_PAGE_256B \<noteq> 0")
    case True
    obtain e b' where e: "page256_or_1_byte_write flash a (of_nat (length data)) 256 data b = Some (e, b')"
      "wrote v (unat a) data e b b'" "aai v b' = None" "faultless flash \<longrightarrow> e = SFUD_SUCCESS"
      using page_write_ok[OF c sfud_startedD(1)[OF s] _ _ rc cap fits, of 256] True by (auto simp: page_size_def)
    then show ?thesis using True step[OF e(2,3)] e(4) by (simp add: sfud_write_def)
  next
    case False
    have m: "write_mode (chip flash) AND SFUD_WM_AAI \<noteq> 0"
      using w False by (simp add: writes_data_def)
    obtain e b' where e: "aai_write flash a (of_nat (length data)) data b = Some (e, b')"
      "wrote v (unat a) data e b b'" "aai v b' = None"
      using aai_write_ok[OF c sfud_startedD(1)[OF s] m rc cap fits] ne False by blast
    then show ?thesis using False m step[OF e(2,3)] by (simp add: sfud_write_def)
  qed
qed

lemma exit_wiped:
  assumes c: "nor_chip v flash" and w: "wiped v a n e b b1"
  shows "\<exists>b'. write_exit flash (Some (e, b1)) = Some (e, b') \<and> wiped v a n e b b'"
proof -
  obtain b' where b': "write_exit flash (Some (e, b1)) = Some (e, b')" "still v b1 b'" "ready v b'"
    using write_exit_ok[OF c, of b1 e] w by (auto simp: wiped_def)
  then show ?thesis using wiped_still2[OF w b'(2,3)] by blast
qed

lemma sfud_chip_erase_ok:
  assumes c: "nor_chip v flash" and i: "init_ok flash" and r: "reachable_chip v flash b"
  shows "\<exists>e b'. sfud_chip_erase flash b = Some (e, b') \<and> wiped v 0 (length (cells v b)) e b b' \<and>
    (faultless flash \<longrightarrow> e = SFUD_SUCCESS)"
proof -
  let ?T = "unat (retry_times flash)"
  obtain b1 where b1: "lock_spi flash b = Some b1" "still v b b1" "reachable_chip v flash b1" by (rule lock_reachable[OF c r])
  obtain b2 where b2: "set_write_enabled flash True b1 = Some (SFUD_SUCCESS, b2)" "still v b1 b2" "ready v b2" "latch v b2"
    using set_write_enabled_ok[OF c, of b1 True] reachable_chipD(1,2)[OF b1(3)] by auto
  obtain e x b3 where b3: "spi_wr (spi flash) [0xC7] 0 b2 = (e, x, b3)" "erased v ?T 0 (length (cells v b2)) e b2 b3"
    using nor_chipD(8)[OF c, unfolded chip_erase_law_def, rule_format, OF b2(3,4)] by blast
  have s: "spi_send flash [SFUD_CMD_ERASE_CHIP] b2 = Some (e, b3)" by (simp add: spi_send_def SFUD_CMD_ERASE_CHIP_def b3(1))
  have p: "e = SFUD_SUCCESS \<Longrightarrow> pending v b3 \<le> ?T" "e \<noteq> SFUD_SUCCESS \<Longrightarrow> pending v b3 = 0"
    using b3(2) by (simp_all add: erased_def)
  obtain b4 where b4: "\<forall>k. on_success (spi_send flash [SFUD_CMD_ERASE_CHIP] b2) (\<lambda>b. on_success (wait_busy flash b) k) = on_success (Some (e, b4)) k"
    "still v b3 b4" "pending v b4 = 0" "aai v b4 = aai v b3" using command_wait[OF c s p] by blast
  have l: "length (cells v b2) = length (cells v b)" using stillD(1)[OF b1(2)] stillD(1)[OF b2(2)] by simp
  have "wiped v 0 (length (cells v b)) e b2 b4"
    using b3(2) b4(2-4) l by (auto simp: erased_def wiped_def still_def)
  then have w: "wiped v 0 (length (cells v b)) e b b4" using wiped_still1[OF still_trans[OF b1(2) b2(2)]] by blast
  obtain b' where b': "write_exit flash (Some (e, b4)) = Some (e, b')" "wiped v 0 (length (cells v b)) e b b'"
    using exit_wiped[OF c w] by blast
  have ret: "on_success m (\<lambda>b. Some (SFUD_SUCCESS, b)) = m" for m :: "(sfud_err \<times> 'a) option"
    by (auto simp: on_success_def split: option.splits)
  have "on_success (spi_send flash [SFUD_CMD_ERASE_CHIP] b2) (wait_busy flash) = Some (e, b4)"
    using b4(1)[rule_format, of "\<lambda>b. Some (SFUD_SUCCESS, b)"] by (simp add: ret)
  then have "sfud_chip_erase flash b = Some (e, b')"
    using i b1(1) b2(1) b'(1) nor_chipD(7)[OF c] by (simp add: sfud_chip_erase_def)
  then show ?thesis using b'(2) faultlessD[OF _ b3(1)] by blast
qed

lemma sfud_erase_ok:
  assumes c: "nor_chip v flash" and s: "sfud_started flash" and r: "chip_in_step v flash b"
    and cap: "length (cells v b) = unat (capacity (chip flash))" and fits: "unat a + unat n \<le> length (cells v b)"
    and u: "0 < unat n" "units (unat (erase_gran (chip flash))) (unat a) (unat n) lo hi"
  shows "\<exists>e b'. sfud_erase flash a n b = Some (e, b') \<and> wiped v lo (hi - lo) e b b' \<and> chip_in_step v flash b' \<and>
    (faultless flash \<longrightarrow> e = SFUD_SUCCESS)"
proof -
  note rc = started_reachable[OF s r cap] and i = sfud_startedD(1)[OF s]
  have step: "chip_in_step v flash b'" if "wiped v lo (hi - lo) e b b'" for e b'
    using that r by (simp add: wiped_def chip_in_step_def ready_def)
  have nb: "\<not> a + n > capacity (chip flash)" by (rule range_check[OF cap fits])
  show ?thesis
  proof (cases "a = 0 \<and> n = capacity (chip flash)")
    case True
    have "lo = 0" using True u(2) sfud_startedD(5)[OF s] by (simp add: units_def)
    moreover have "hi = unat n"
      using True u sfud_startedD(6)[OF s] by (intro unit_window[of "unat (erase_gran (chip flash))"]) (auto simp: units_def)
    ultimately have "\<exists>e b'. sfud_chip_erase flash b = Some (e, b') \<and> wiped v lo (hi - lo) e b b' \<and>
        (faultless flash \<longrightarrow> e = SFUD_SUCCESS)"
      using sfud_chip_erase_ok[OF c i rc] True cap by simp
    then show ?thesis using i nb True step by (auto simp: sfud_erase_def)
  next
    case False
    obtain b1 where b1: "lock_spi flash b = Some b1" "still v b b1" "reachable_chip v flash b1" by (rule lock_reachable[OF c rc])
    obtain e b2 where b2: "erase_loop flash a n b1 = Some (e, b2)" "wiped v lo (hi - lo) e b1 b2" "faultless flash \<longrightarrow> e = SFUD_SUCCESS"
      using erase_loop_ok[OF c s b1(3) _ _ u] cap fits stillD(1)[OF b1(2)] by auto
    obtain b' where b': "write_exit flash (Some (e, b2)) = Some (e, b')" "wiped v lo (hi - lo) e b1 b'"
      using exit_wiped[OF c b2(2)] by blast
    have w: "wiped v lo (hi - lo) e b b'" by (rule wiped_still1[OF b1(2) b'(2)])
    have "sfud_erase flash a n b = Some (e, b')" using i nb False b1(1) b2(1) b'(1) by (auto simp: sfud_erase_def)
    then show ?thesis using w step[OF w] b2(3) by blast
  qed
qed

lemma sfud_erase_nothing:
  assumes c: "nor_chip v flash" and s: "sfud_started flash" and r: "chip_in_step v flash b"
    and cap: "length (cells v b) = unat (capacity (chip flash))" and fits: "unat a \<le> length (cells v b)"
  shows "\<exists>b'. sfud_erase flash a 0 b = Some (SFUD_SUCCESS, b') \<and> cells v b' = cells v b \<and> chip_in_step v flash b'"
proof -
  note rc = started_reachable[OF s r cap] and i = sfud_startedD(1)[OF s]
  have nb: "\<not> a + 0 > capacity (chip flash)" by (rule range_check[OF cap]) (simp add: fits)
  have nz: "capacity (chip flash) \<noteq> 0" using sfud_startedD(2)[OF s] by auto
  obtain b1 where b1: "lock_spi flash b = Some b1" "still v b b1" "reachable_chip v flash b1" by (rule lock_reachable[OF c rc])
  obtain b' where b': "write_exit flash (Some (SFUD_SUCCESS, b1)) = Some (SFUD_SUCCESS, b')" "still v b1 b'" "ready v b'"
    using write_exit_ok[OF c, of b1 SFUD_SUCCESS] reachable_chipD(1)[OF b1(3)] by blast
  have "sfud_erase flash a 0 b = Some (SFUD_SUCCESS, b')"
    using i nb nz b1(1) b'(1) by (auto simp: sfud_erase_def erase_loop.simps[of flash a 0])
  then show ?thesis using b' r still_trans[OF b1(2) b'(2)] by (auto simp: still_def chip_in_step_def)
qed

lemma sfud_read_ok:
  assumes c: "nor_chip v flash" and s: "sfud_started flash" and r: "chip_in_step v flash b"
    and cap: "length (cells v b) = unat (capacity (chip flash))" and fits: "unat a + unat n \<le> length (cells v b)"
  shows "\<exists>b'. sfud_read flash a n b = Some (SFUD_SUCCESS, window (unat a) (unat n) (cells v b), b') \<and>
    cells v b' = cells v b \<and> chip_in_step v flash b'"
proof -
  note rc = started_reachable[OF s r cap] and i = sfud_startedD(1)[OF s]
  have nb: "\<not> a + n > capacity (chip flash)" by (rule range_check[OF cap fits])
  obtain b1 where b1: "lock_spi flash b = Some b1" "still v b b1" "reachable_chip v flash b1" by (rule lock_reachable[OF c rc])
  obtain b2 where b2: "wait_busy flash b1 = Some (SFUD_SUCCESS, b2)" "still v b1 b2" "pending v b2 = 0" "aai v b2 = aai v b1"
    using wait_busy_ok[OF c, of b1] reachable_chipD(1)[OF b1(3)] by auto
  have rd2: "ready v b2" using b2(3,4) reachable_chipD(2)[OF b1(3)] by (simp add: ready_def)
  have c2: "cells v b2 = cells v b" "wide v b2 = wide v b" using b1(2) b2(2) by (simp_all add: still_def)
  have "\<exists>b3. (if instruction (read_cmd_format flash) \<noteq> SFUD_CMD_READ_DATA
      then qspi_read (spi flash) a (read_cmd_format flash) (unat n) b2
      else spi_wr (spi flash) (SFUD_CMD_READ_DATA # make_adress_byte_array flash a) (unat n) b2) =
    (SFUD_SUCCESS, window (unat a) (unat n) (cells v b), b3) \<and> still v b2 b3 \<and> ready v b3" (is "\<exists>b3. ?X = _ \<and> _")
  proof (cases "instruction (read_cmd_format flash) = SFUD_CMD_READ_DATA")
    case False
    then have f: "instruction (read_cmd_format flash) \<noteq> 0x03" by (simp add: SFUD_CMD_READ_DATA_def)
    show ?thesis
      using nor_chipD(10)[OF c, unfolded qspi_law_def, rule_format, OF f rd2, of a "unat n"] fits False c2(1) by simp
  next
    case True
    let ?as = "make_adress_byte_array flash a"
    have ad: "addresses v b2 ?as" using c2(2) reachable_chipD(3)[OF rc] by (simp add: addresses_def length_make_adress)
    have law: "\<exists>b'. spi_wr (spi flash) (0x03 # ?as) (unat n) b2 = (SFUD_SUCCESS, window (be_value ?as) (unat n) (cells v b2), b') \<and>
        still v b2 b' \<and> ready v b'" if "be_value ?as + unat n \<le> length (cells v b)"
      using nor_chipD(3)[OF c, unfolded read_law_def, rule_format, OF rd2 ad, of "unat n"] that c2(1) by simp
    show ?thesis
    proof (cases "unat n = 0")
      case True
      have "be_value ?as \<le> unat a" by (simp add: be_make_adress_mod)
      then show ?thesis using law True fits \<open>instruction (read_cmd_format flash) = SFUD_CMD_READ_DATA\<close>
        by (auto simp: SFUD_CMD_READ_DATA_def window_def)
    next
      case False
      have "addr_in_4_byte flash \<or> unat a < 2 ^ 24" using reachable_chipD(5)[OF rc] False fits by auto
      then have "be_value ?as = unat a" by (rule be_make_adress)
      then show ?thesis using law fits c2(1) \<open>instruction (read_cmd_format flash) = SFUD_CMD_READ_DATA\<close>
        by (auto simp: SFUD_CMD_READ_DATA_def)
    qed
  qed
  then obtain b3 where b3: "?X = (SFUD_SUCCESS, window (unat a) (unat n) (cells v b), b3)" "still v b2 b3" "ready v b3" by blast
  have "sfud_read flash a n b = Some (SFUD_SUCCESS, window (unat a) (unat n) (cells v b), unlock_spi flash b3)"
    using i nb b1(1) b2(1) b3(1) by (simp add: sfud_read_def)
  moreover have "still v b (unlock_spi flash b3)"
    using still_trans[OF still_trans[OF b1(2) b2(2)] still_trans[OF b3(2) unlock_ok(1)[OF c]]] .
  ultimately show ?thesis using r b3(3) unlock_ok(2,3)[OF c, of b3] by (auto simp: still_def chip_in_step_def ready_def)
qed

end
