(* ===== verification/Sfud_Bus.thy ===== *)
theory Sfud_Bus
  imports Sfud_Init Sfud_Proofs
begin

text \<open>
  What holds on every bus, whatever it answers and however it fails: the commands the driver
  sends, and that its routines return. A property of the bus (for example, that a log of its
  transfers holds only commands of some kind) that the allowed commands keep is kept by the
  routine.
\<close>

section \<open>Buses with an invariant\<close>

definition bus_inv :: "'b sfud_flash \<Rightarrow> ('b \<Rightarrow> bool) \<Rightarrow> (u8 list \<Rightarrow> bool) \<Rightarrow> bool" where
  "bus_inv flash I allowed \<longleftrightarrow>
     (\<forall>cmd k b. I b \<longrightarrow> allowed cmd \<longrightarrow>
        (case spi_wr (spi flash) cmd k b of (e, x, b') \<Rightarrow> I b' \<and> (e = SFUD_SUCCESS \<longrightarrow> length x = k))) \<and>
     (\<forall>b. I b \<longrightarrow> (\<exists>b'. lock_spi flash b = Some b' \<and> I b')) \<and>
     (\<forall>b. I b \<longrightarrow> I (unlock_spi flash b)) \<and>
     (\<forall>delay b. retry_delay flash = Some delay \<longrightarrow> I b \<longrightarrow> I (delay b))"

text \<open>The commands around a write or an erase: write enable, write disable, read status.\<close>

definition control_cmd :: "u8 list \<Rightarrow> bool" where
  "control_cmd cmd \<longleftrightarrow> cmd = [SFUD_CMD_WRITE_ENABLE] \<or> cmd = [SFUD_CMD_WRITE_DISABLE] \<or> cmd = [SFUD_CMD_READ_STATUS_REGISTER]"

definition returns :: "('b \<Rightarrow> bool) \<Rightarrow> (sfud_err \<times> 'b) option \<Rightarrow> bool" where
  "returns I m \<longleftrightarrow> (\<exists>e b. m = Some (e, b) \<and> I b)"

lemma returns_Some [simp]: "returns I (Some (e, b)) \<longleftrightarrow> I b"
  by (simp add: returns_def)

lemma returns_on_success: "returns I m \<Longrightarrow> (\<And>b. I b \<Longrightarrow> returns I (k b)) \<Longrightarrow> returns I (on_success m k)"
  by (auto simp: returns_def on_success_def)

lemma bus_inv_wr:
  assumes "bus_inv flash I allowed" "I b" "allowed cmd" "spi_wr (spi flash) cmd k b = (e, x, b')"
  shows "I b' \<and> (e = SFUD_SUCCESS \<longrightarrow> length x = k)"
  using assms(1)[unfolded bus_inv_def, THEN conjunct1, rule_format, OF assms(2,3), of k] assms(4) by simp

lemma bus_inv_lock:
  assumes "bus_inv flash I allowed" "I b"
  shows "\<exists>b'. lock_spi flash b = Some b' \<and> I b'" "I (unlock_spi flash b)" "retry_delay flash = Some delay \<Longrightarrow> I (delay b)"
  using assms by (simp_all add: bus_inv_def)

lemma returns_send: "bus_inv flash I allowed \<Longrightarrow> I b \<Longrightarrow> allowed cmd \<Longrightarrow> returns I (spi_send flash cmd b)"
  using bus_inv_wr[of flash I allowed b cmd 0] by (cases "spi_wr (spi flash) cmd 0 b") (simp add: spi_send_def)

lemma status_answer:
  assumes "bus_inv flash I allowed" "I b" "allowed [SFUD_CMD_READ_STATUS_REGISTER]"
  obtains e x b' where "sfud_read_status flash b = (e, x, b')" "I b'" "e = SFUD_SUCCESS \<longrightarrow> length x = 1"
  using bus_inv_wr[OF assms, of 1] by (cases "sfud_read_status flash b") (auto simp: sfud_read_status_def)

lemma returns_wait_busy_loop:
  assumes inv: "bus_inv flash I allowed" "allowed [SFUD_CMD_READ_STATUS_REGISTER]"
  shows "I b \<Longrightarrow> returns I (wait_busy_loop flash n b)"
proof (induction n arbitrary: b)
  case 0
  obtain e x b' where s: "sfud_read_status flash b = (e, x, b')" "I b'" "e = SFUD_SUCCESS \<longrightarrow> length x = 1"
    by (rule status_answer[OF inv(1) 0 inv(2)])
  then show ?case by (auto simp: wait_busy_loop.simps[of flash 0] rd_def returns_def)
next
  case (Suc n)
  obtain e x b' where s: "sfud_read_status flash b = (e, x, b')" "I b'" "e = SFUD_SUCCESS \<longrightarrow> length x = 1"
    by (rule status_answer[OF inv(1) Suc.prems inv(2)])
  have "I (case retry_delay flash of None \<Rightarrow> b' | Some delay \<Rightarrow> delay b')"
    using bus_inv_lock(3)[OF inv(1) s(2)] s(2) by (auto split: option.split)
  then have "returns I (wait_busy_loop flash n (case retry_delay flash of None \<Rightarrow> b' | Some delay \<Rightarrow> delay b'))"
    by (rule Suc.IH)
  then show ?case using s by (auto simp: wait_busy_loop.simps[of flash "Suc n"] rd_def)
qed

lemma returns_wait_busy:
  "bus_inv flash I allowed \<Longrightarrow> allowed [SFUD_CMD_READ_STATUS_REGISTER] \<Longrightarrow> I b \<Longrightarrow> returns I (wait_busy flash b)"
  unfolding wait_busy_def by (rule returns_wait_busy_loop)

lemma returns_set_write_enabled:
  assumes inv: "bus_inv flash I allowed" "\<And>c. control_cmd c \<Longrightarrow> allowed c" and b: "I b"
  shows "returns I (set_write_enabled flash en b)"
  unfolding set_write_enabled_def
proof (rule returns_on_success[OF returns_send[OF inv(1) b]])
  show "allowed [if en then SFUD_CMD_WRITE_ENABLE else SFUD_CMD_WRITE_DISABLE]" by (rule inv(2)) (simp add: control_cmd_def)
next
  fix b1 assume b1: "I b1"
  have "allowed [SFUD_CMD_READ_STATUS_REGISTER]" by (rule inv(2)) (simp add: control_cmd_def)
  then obtain e x b' where s: "sfud_read_status flash b1 = (e, x, b')" "I b'" "e = SFUD_SUCCESS \<longrightarrow> length x = 1"
    using status_answer[OF inv(1) b1] by blast
  then show "returns I (do {
       let (result, register_status, b) = sfud_read_status flash b1;
       if result = SFUD_SUCCESS then do {
         st \<leftarrow> rd register_status 0;
         if en \<and> st AND SFUD_STATUS_REGISTER_WEL = 0 then Some (SFUD_ERR_WRITE, b)
         else if \<not> en \<and> st AND SFUD_STATUS_REGISTER_WEL \<noteq> 0 then Some (SFUD_ERR_WRITE, b)
         else Some (result, b) }
       else Some (result, b) })"
    by (auto simp: rd_def)
qed

lemma returns_write_exit:
  assumes inv: "bus_inv flash I allowed" "\<And>c. control_cmd c \<Longrightarrow> allowed c" and m: "returns I m"
  shows "returns I (write_exit flash m)"
proof -
  obtain e b where b: "m = Some (e, b)" "I b" using m by (auto simp: returns_def)
  obtain e1 b1 where b1: "set_write_enabled flash False b = Some (e1, b1)" "I b1"
    using returns_set_write_enabled[OF inv b(2), of False] by (auto simp: returns_def)
  have "I (unlock_spi flash b1)" using b1(2) by (rule bus_inv_lock(2)[OF inv(1)])
  then show ?thesis using b b1 by (simp add: write_exit_def)
qed

section \<open>Page programs\<close>

text \<open>A page program of bytes of \<open>data\<close>, at their place, that stays inside one page and one buffer.\<close>

definition page_cmd :: "'b sfud_flash \<Rightarrow> nat \<Rightarrow> nat \<Rightarrow> u8 list \<Rightarrow> u8 list \<Rightarrow> bool" where
  "page_cmd flash g a data cmd \<longleftrightarrow> (\<exists>x k. cmd = SFUD_CMD_PAGE_PROGRAM # make_adress_byte_array flash x @ take k (drop (unat x - a) data) \<and>
     0 < k \<and> a \<le> unat x \<and> unat x + k \<le> a + length data \<and> unat x mod g + k \<le> g \<and> length cmd \<le> 5 + SFUD_WRITE_MAX_PAGE_SIZE)"

lemma page_write_loop_bus:
  assumes inv: "bus_inv flash I allowed" "\<And>c. control_cmd c \<Longrightarrow> allowed c" "\<And>c. page_cmd flash (unat g) a0 data0 c \<Longrightarrow> allowed c"
    and g: "g = 1 \<or> g = 256" and lim: "a0 + length data0 < 2 ^ 32"
    and "I b" "a0 \<le> unat a" "data = drop (unat a - a0) data0" "unat a + length data = a0 + length data0"
  shows "returns I (page_write_loop flash a (of_nat (length data)) g data b)"
  using assms(6-9)
proof (induction "length data" arbitrary: a data b rule: less_induct)
  case less
  let ?n = "of_nat (length data) :: u32"
  have n: "unat ?n = length data" using less.prems(4) lim by (intro unat_of_nat_lt) simp
  show ?case
  proof (cases "data = []")
    case True
    then show ?thesis using less.prems(1) by (simp add: page_write_loop.simps)
  next
    case False
    then have nz: "?n \<noteq> 0" using n by (metis length_0_conv unat_0)
    have gz: "g \<noteq> 0" using g by auto
    define d where "d = page_chunk g a ?n"
    note ch = page_chunk_bounds[OF nz gz, of a, folded d_def]
    have ug: "unat (ucast g :: u32) = unat g" using g by auto
    have dl: "0 < unat d" "unat d \<le> length data" "unat d \<le> 256"
      using ch(1,2,3) n g by (auto simp: word_less_nat_alt word_le_nat_alt)
    let ?cmd = "SFUD_CMD_PAGE_PROGRAM # make_adress_byte_array flash a @ take (unat d) data"
    have pc: "page_command flash a data d = Some ?cmd"
      using dl by (simp add: page_command_def length_make_adress SFUD_WRITE_MAX_PAGE_SIZE_def rd_blk_def)
    have "unat a mod unat g + unat d \<le> unat g" using ch(4) by (simp add: unat_mod ug)
    moreover have "length ?cmd \<le> 5 + SFUD_WRITE_MAX_PAGE_SIZE"
      using dl by (simp add: length_make_adress SFUD_WRITE_MAX_PAGE_SIZE_def)
    moreover have "?cmd = SFUD_CMD_PAGE_PROGRAM # make_adress_byte_array flash a @ take (unat d) (drop (unat a - a0) data0)"
      by (simp only: less.prems(3))
    moreover have "unat a + unat d \<le> a0 + length data0" using less.prems(4) dl(2) by simp
    ultimately have ok: "allowed ?cmd" using less.prems(2) dl(1) by (intro inv(3)) (unfold page_cmd_def, blast)
    have ua: "unat (a + d) = unat a + unat d"
      using less.prems(4) lim dl(2) by (intro unat_add_small) simp
    have n2: "?n - d = of_nat (length (drop (unat d) data))" using dl(2) by (simp add: word_unat_eq_iff unat_sub_if' n)
    have ih: "returns I (page_write_loop flash (a + d) (?n - d) g (drop (unat d) data) b')" if "I b'" for b'
      unfolding n2
    proof (rule less.hyps[OF _ that])
      show "length (drop (unat d) data) < length data" using dl by simp
      show "a0 \<le> unat (a + d)" using less.prems(2) ua by simp
      show "drop (unat d) data = drop (unat (a + d) - a0) data0"
        using less.prems(2) by (simp add: less.prems(3) ua add.commute)
      show "unat (a + d) + length (drop (unat d) data) = a0 + length data0"
        using less.prems(4) dl(2) ua by simp
    qed
    have rdst: "allowed [SFUD_CMD_READ_STATUS_REGISTER]" by (rule inv(2)) (simp add: control_cmd_def)
    have "page_write_loop flash a ?n g data b =
        on_success (set_write_enabled flash True b) (\<lambda>b. on_success (spi_send flash ?cmd b) (\<lambda>b.
        on_success (wait_busy flash b) (page_write_loop flash (a + d) (?n - d) g (drop (unat d) data))))"
      using nz gz pc by (simp add: page_write_loop.simps[of flash a ?n] d_def[symmetric] del: of_nat_diff)
    also have "returns I \<dots>"
      by (intro returns_on_success returns_set_write_enabled[OF inv(1,2)] returns_send[OF inv(1) _ ok]
          returns_wait_busy[OF inv(1) rdst] ih less.prems(1))
    finally show ?thesis .
  qed
qed

section \<open>Auto address increment\<close>

text \<open>
  The commands that write \<open>data\<close> from the address \<open>a\<close> on: a single byte at an odd first address
  and at an even last one, words at the even addresses between, the first with its address.
\<close>

definition byte_cmd :: "'b sfud_flash \<Rightarrow> nat \<Rightarrow> u8 list \<Rightarrow> u8 list \<Rightarrow> bool" where
  "byte_cmd flash a data cmd \<longleftrightarrow> (\<exists>i < length data. (i = 0 \<and> odd a \<or> i + 1 = length data \<and> even (a + i)) \<and>
     cmd = SFUD_CMD_PAGE_PROGRAM # make_adress_byte_array flash (of_nat (a + i)) @ [data ! i])"

definition word_cmd :: "'b sfud_flash \<Rightarrow> nat \<Rightarrow> u8 list \<Rightarrow> u8 list \<Rightarrow> bool" where
  "word_cmd flash a data cmd \<longleftrightarrow> (\<exists>i. i + 1 < length data \<and> even (a + i) \<and>
     cmd = SFUD_CMD_AAI_WORD_PROGRAM # (if i = a mod 2 then make_adress_byte_array flash (of_nat (a + i)) else []) @
       [data ! i, data ! (i + 1)])"

definition aai_cmd :: "'b sfud_flash \<Rightarrow> nat \<Rightarrow> u8 list \<Rightarrow> u8 list \<Rightarrow> bool" where
  "aai_cmd flash a data cmd \<longleftrightarrow> control_cmd cmd \<or> byte_cmd flash a data cmd \<or> word_cmd flash a data cmd"

lemma byte_write_bus:
  assumes inv: "bus_inv flash I allowed" "\<And>c. control_cmd c \<Longrightarrow> allowed c" and i: "init_ok flash" "I b"
    and ok: "allowed (SFUD_CMD_PAGE_PROGRAM # make_adress_byte_array flash x @ [d])"
  shows "returns I (page256_or_1_byte_write flash x 1 1 (d # rest) b)"
proof (cases "x + 1 > capacity (chip flash)")
  case True
  then show ?thesis using i by (simp add: page256_or_1_byte_write_def)
next
  case False
  obtain b1 where b1: "lock_spi flash b = Some b1" "I b1" using bus_inv_lock(1)[OF inv(1) i(2)] by blast
  have c: "page_chunk 1 x 1 = 1" using page_chunk_bounds(1,2)[of 1 1 x] by (simp add: word_less_nat_alt word_le_nat_alt word_unat_eq_iff)
  have pc: "page_command flash x (d # rest) 1 = Some (SFUD_CMD_PAGE_PROGRAM # make_adress_byte_array flash x @ [d])"
    by (simp add: page_command_def length_make_adress SFUD_WRITE_MAX_PAGE_SIZE_def rd_blk_def)
  have rdst: "allowed [SFUD_CMD_READ_STATUS_REGISTER]" by (rule inv(2)) (simp add: control_cmd_def)
  have "page_write_loop flash x 1 1 (d # rest) b1 =
      on_success (set_write_enabled flash True b1) (\<lambda>b. on_success (spi_send flash (SFUD_CMD_PAGE_PROGRAM # make_adress_byte_array flash x @ [d]) b)
        (\<lambda>b. on_success (wait_busy flash b) (\<lambda>b. Some (SFUD_SUCCESS, b))))"
    using pc by (subst page_write_loop.simps) (simp add: c page_write_loop.simps[of flash "x + 1"])
  also have "returns I \<dots>"
    by (intro returns_on_success returns_set_write_enabled[OF inv] returns_send[OF inv(1) _ ok] returns_wait_busy[OF inv(1) rdst] b1(2))
      simp_all
  finally have w: "returns I (page_write_loop flash x 1 1 (d # rest) b1)" .
  show ?thesis using returns_write_exit[OF inv w] False i b1(1) by (simp add: page256_or_1_byte_write_def)
qed

lemma aai_loop_bus:
  assumes inv: "bus_inv flash I (aai_cmd flash a0 data0)" and i: "init_ok flash" and lim: "a0 + length data0 < 2 ^ 32"
    and "I b" "k \<le> length data0" "even (a0 + k)" "first = (k = a0 mod 2)" "a0 mod 2 \<le> k"
  shows "returns I (aai_loop flash first (of_nat (a0 + k)) (of_nat (length data0 - k)) (drop k data0) b)"
  using assms(4-)
proof (induction "length data0 - k" arbitrary: k b first rule: less_induct)
  case less
  let ?n = "of_nat (length data0 - k) :: u32"
  have n: "unat ?n = length data0 - k" using lim by (intro unat_of_nat_lt) simp
  have ctl: "aai_cmd flash a0 data0 c" if "control_cmd c" for c using that by (simp add: aai_cmd_def)
  have rdst: "aai_cmd flash a0 data0 [SFUD_CMD_READ_STATUS_REGISTER]" by (simp add: aai_cmd_def control_cmd_def)
  show ?case
  proof (cases "2 \<le> length data0 - k")
    case True
    let ?cmd = "SFUD_CMD_AAI_WORD_PROGRAM # (if first then make_adress_byte_array flash (of_nat (a0 + k)) else []) @
      [data0 ! k, data0 ! (k + 1)]"
    have n2: "?n \<ge> 2" using True n by (simp add: word_le_nat_alt)
    have k: "k < length data0" "k + 1 < length data0" using True by simp_all
    have n3: "?n - 2 = of_nat (length data0 - (k + 2))" using True by (simp add: of_nat_diff)
    have l: "aai_loop flash first (of_nat (a0 + k)) ?n (drop k data0) b =
        on_success (spi_send flash ?cmd b) (\<lambda>b. on_success (wait_busy flash b)
          (\<lambda>b. aai_loop flash False (of_nat (a0 + (k + 2))) (of_nat (length data0 - (k + 2))) (drop (k + 2) data0) b))"
      using n2 k by (subst aai_loop.simps) (simp add: rd_def n3 less_diff_conv ac_simps del: of_nat_diff)
    have ok: "aai_cmd flash a0 data0 ?cmd"
      unfolding aai_cmd_def word_cmd_def using True less.prems(3,4) by (intro disjI2 exI[of _ k]) simp
    show ?thesis unfolding l
    proof (intro returns_on_success returns_send[OF inv _ ok] returns_wait_busy[OF inv rdst] less.prems(1))
      fix b' assume "I b'"
      then show "returns I (aai_loop flash False (of_nat (a0 + (k + 2))) (of_nat (length data0 - (k + 2))) (drop (k + 2) data0) b')"
        by (rule less.hyps[rotated]) (use True less.prems in auto)
    qed
  next
    case False
    then have "\<not> ?n \<ge> 2" using n by (simp add: word_le_nat_alt)
    moreover have "?n = 1 \<longleftrightarrow> length data0 - k = 1" using n by (metis of_nat_1 unat_1)
    ultimately have l: "aai_loop flash first (of_nat (a0 + k)) ?n (drop k data0) b =
        on_success (set_write_enabled flash False b) (\<lambda>b. if length data0 - k = 1
          then page256_or_1_byte_write flash (of_nat (a0 + k)) 1 1 (drop k data0) b else Some (SFUD_SUCCESS, b))"
      by (subst aai_loop.simps) auto
    have "returns I (page256_or_1_byte_write flash (of_nat (a0 + k)) 1 1 (drop k data0) b')" if "I b'" "length data0 - k = 1" for b'
    proof -
      have d: "drop k data0 = data0 ! k # drop (Suc k) data0" "k + 1 = length data0"
        using that(2) Cons_nth_drop_Suc[of k data0] by simp_all
      have ok: "aai_cmd flash a0 data0 (SFUD_CMD_PAGE_PROGRAM # make_adress_byte_array flash (of_nat (a0 + k)) @ [data0 ! k])"
        unfolding aai_cmd_def byte_cmd_def using d(2) less.prems(3)
        by (intro disjI2[OF disjI1[OF exI[of _ k]]]) simp
      show ?thesis unfolding d(1) by (rule byte_write_bus[OF inv ctl i that(1) ok])
    qed
    then show ?thesis unfolding l
      by (intro returns_on_success returns_set_write_enabled[OF inv ctl] less.prems(1)) simp_all
  qed
qed

lemma aai_write_bus:
  assumes inv: "bus_inv flash I (aai_cmd flash (unat a) data)" and i: "init_ok flash" "I b"
    and lim: "unat a + length data < 2 ^ 32" "data \<noteq> []"
  shows "returns I (aai_write flash a (of_nat (length data)) data b)"
proof (cases "a + of_nat (length data) > capacity (chip flash)")
  case True
  then show ?thesis using i by (simp add: aai_write_def)
next
  case False
  obtain b1 where b1: "lock_spi flash b = Some b1" "I b1" using bus_inv_lock(1)[OF inv i(2)] by blast
  have ctl: "aai_cmd flash (unat a) data c" if "control_cmd c" for c using that by (simp add: aai_cmd_def)
  have l: "1 \<le> length data" using lim(2) by (cases data) simp_all
  have even: "a mod 2 = 0 \<longleftrightarrow> even (unat a)" by (simp add: word_unat_eq_iff unat_mod even_iff_mod_2_eq_zero)
  let ?m = "if a mod 2 \<noteq> 0 then
      on_success (page256_or_1_byte_write flash a 1 1 data b1) (\<lambda>b.
      on_success (set_write_enabled flash True b) (\<lambda>b.
      aai_loop flash True (a + 1) (of_nat (length data) - 1) (drop 1 data) b))
    else on_success (set_write_enabled flash True b1) (aai_loop flash True a (of_nat (length data)) data)"
  have m: "returns I ?m"
  proof (cases "even (unat a)")
    case True
    have "returns I (aai_loop flash True a (of_nat (length data)) data b')" if "I b'" for b'
      using aai_loop_bus[OF inv i(1) lim(1) that, of 0 True] True by (simp add: even_iff_mod_2_eq_zero)
    then show ?thesis using True even by (auto intro!: returns_on_success returns_set_write_enabled[OF inv ctl] b1(2))
  next
    case False
    have d: "data = data ! 0 # drop 1 data" using lim(2) by (cases data) simp_all
    have "aai_cmd flash (unat a) data (SFUD_CMD_PAGE_PROGRAM # make_adress_byte_array flash a @ [data ! 0])"
      unfolding aai_cmd_def byte_cmd_def using False lim(2)
      by (intro disjI2[OF disjI1[OF exI[of _ 0]]]) simp
    from byte_write_bus[OF inv ctl i(1) b1(2) this, of "drop 1 data"]
    have w: "returns I (page256_or_1_byte_write flash a 1 1 data b1)" using d by simp
    have "returns I (aai_loop flash True (a + 1) (of_nat (length data) - 1) (drop 1 data) b')" if "I b'" for b'
      using aai_loop_bus[OF inv i(1) lim(1) that, of 1 True] False l
      by (simp add: odd_iff_mod_2_eq_one of_nat_diff add.commute)
    then show ?thesis using False even w
      by (auto intro!: returns_on_success returns_set_write_enabled[OF inv ctl])
  qed
  then obtain e b2 where r: "?m = Some (e, b2)" "I b2" by (auto simp: returns_def)
  obtain e' b3 where w: "set_write_enabled flash False b2 = Some (e', b3)" "I b3"
    using returns_set_write_enabled[OF inv ctl r(2), of False] by (auto simp: returns_def)
  show ?thesis using False i(1) b1(1) r w bus_inv_lock(2)[OF inv] by (auto simp: aai_write_def)
qed

text \<open>
  C13: Whatever the bus answers, at whatever time it fails: a page write returns, and everything
  it sends is a control command or a page program that lies in the range asked for and in one
  page, carrying the bytes of the data that belong there.
\<close>

theorem page_write_any_bus:
  assumes "bus_inv flash I allowed" "\<And>c. control_cmd c \<Longrightarrow> allowed c"
    and "\<And>c. page_cmd flash (unat g) (unat a) data c \<Longrightarrow> allowed c"
    and "init_ok flash" "g = 1 \<or> g = 256" "unat a + length data < 2 ^ 32" "I b"
  shows "\<exists>e b'. page256_or_1_byte_write flash a (of_nat (length data)) g data b = Some (e, b') \<and> I b'"
proof (cases "a + of_nat (length data) > capacity (chip flash)")
  case True
  then show ?thesis using assms(4,5,7) by (auto simp: page256_or_1_byte_write_def)
next
  case False
  obtain b1 where b1: "lock_spi flash b = Some b1" "I b1" using bus_inv_lock(1)[OF assms(1,7)] by blast
  have "returns I (page_write_loop flash a (of_nat (length data)) g data b1)"
    by (rule page_write_loop_bus[OF assms(1-3,5,6) b1(2)]) simp_all
  from returns_write_exit[OF assms(1,2) this]
  obtain e b' where "write_exit flash (page_write_loop flash a (of_nat (length data)) g data b1) = Some (e, b')" "I b'"
    by (auto simp: returns_def)
  then show ?thesis using False assms(4,5) b1(1) by (auto simp: page256_or_1_byte_write_def)
qed

section \<open>Erases\<close>

text \<open>
  An erase command for an address in the range: of the smallest unit, or of a larger one that
  lies inside the range.
\<close>

definition erase_cmd :: "'b sfud_flash \<Rightarrow> nat \<Rightarrow> nat \<Rightarrow> u8 list \<Rightarrow> bool" where
  "erase_cmd flash a n cmd \<longleftrightarrow> (\<exists>er \<in> erasers flash. \<exists>x. cmd = snd er # make_adress_byte_array flash x \<and>
     a \<le> unat x \<and> unat x < a + n \<and>
     (fst er = erase_gran (chip flash) \<or> x mod fst er = 0 \<and> unat x + unat (fst er) \<le> a + n))"

lemma erase_loop_bus:
  assumes inv: "bus_inv flash I allowed" "\<And>c. control_cmd c \<Longrightarrow> allowed c" "\<And>c. erase_cmd flash a0 n0 c \<Longrightarrow> allowed c"
    and s: "sfud_started flash" and lim: "a0 + n0 < 2 ^ 32"
    and "I b" "a0 \<le> unat a" "unat a + unat n = a0 + n0"
  shows "returns I (erase_loop flash a n b)"
  using assms(6-8)
proof (induction "unat n" arbitrary: a n b rule: less_induct)
  case less
  show ?case
  proof (cases "n = 0")
    case True
    then show ?thesis using less.prems(1) by (simp add: erase_loop.simps[of flash a 0 b])
  next
    case False
    then have n0: "0 < unat n" by (simp add: unat_gt_0)
    obtain er where er: "current_eraser flash a n = Some er" "er \<in> erasers flash" "fst er \<noteq> 0"
      "fst er = erase_gran (chip flash) \<or> fst er \<le> n \<and> a mod fst er = 0" using current_eraser_ok[OF s, of a n] by (elim exE conjE)
    let ?cmd = "snd er # make_adress_byte_array flash a" and ?st = "erase_step (fst er) a"
    have "fst er = erase_gran (chip flash) \<or> a mod fst er = 0 \<and> unat a + unat (fst er) \<le> a0 + n0"
    proof -
      have "unat a + unat (fst er) \<le> a0 + n0" if "fst er \<le> n"
        using that less.prems(3) by (simp add: word_le_nat_alt)
      then show ?thesis using er(4) by blast
    qed
    then have "erase_cmd flash a0 n0 ?cmd"
      unfolding erase_cmd_def using er(2) less.prems(2,3) n0 by (intro bexI[of _ er] exI[of _ a] conjI) simp_all
    then have ok: "allowed ?cmd" by (rule inv(3))
    have rdst: "allowed [SFUD_CMD_READ_STATUS_REGISTER]" by (rule inv(2)) (simp add: control_cmd_def)
    have ih: "returns I (if n > ?st then erase_loop flash (a + ?st) (n - ?st) b' else Some (SFUD_SUCCESS, b'))" if b': "I b'" for b'
    proof (cases "n > ?st")
      case True
      have st: "0 < unat ?st" "unat ?st < unat n" using erase_step_pos[OF er(3)] True by (simp_all add: word_less_nat_alt)
      have u: "unat (a + ?st) = unat a + unat ?st" "unat (n - ?st) = unat n - unat ?st"
        using less.prems(3) lim st True by (subst unat_add_small; simp) (use True in \<open>simp add: unat_sub\<close>)
      have "returns I (erase_loop flash (a + ?st) (n - ?st) b')"
        by (rule less.hyps[OF _ b']) (use u st less.prems in simp_all)
      then show ?thesis using True by simp
    qed (simp add: b')
    have "erase_loop flash a n b =
        on_success (set_write_enabled flash True b) (\<lambda>b. on_success (spi_send flash ?cmd b) (\<lambda>b.
        on_success (wait_busy flash b) (\<lambda>b. if n > ?st then erase_loop flash (a + ?st) (n - ?st) b else Some (SFUD_SUCCESS, b))))"
      using False er(1,3) by (simp add: erase_loop.simps[of flash a n b])
    also have "returns I \<dots>"
      by (intro returns_on_success returns_set_write_enabled[OF inv(1,2)] returns_send[OF inv(1) _ ok]
          returns_wait_busy[OF inv(1) rdst] ih less.prems(1))
    finally show ?thesis .
  qed
qed

lemma chip_erase_bus:
  assumes inv: "bus_inv flash I allowed" "\<And>c. control_cmd c \<Longrightarrow> allowed c"
    and ce: "\<And>c. hd c = SFUD_CMD_ERASE_CHIP \<Longrightarrow> allowed c" and i: "init_ok flash" and b: "I b"
  shows "returns I (sfud_chip_erase flash b)"
proof -
  obtain b1 where b1: "lock_spi flash b = Some b1" "I b1" using bus_inv_lock(1)[OF inv(1) b] by blast
  have rdst: "allowed [SFUD_CMD_READ_STATUS_REGISTER]" by (rule inv(2)) (simp add: control_cmd_def)
  have "returns I (write_exit flash (on_success (set_write_enabled flash True b1) (\<lambda>b.
             on_success (spi_send flash
               (if write_mode (chip flash) AND SFUD_WM_DUAL_BUFFER \<noteq> 0
                then [SFUD_CMD_ERASE_CHIP, 0x94, 0x80, 0x9A] else [SFUD_CMD_ERASE_CHIP]) b) (\<lambda>b.
             wait_busy flash b))))"
    by (intro returns_write_exit[OF inv(1,2)] returns_on_success returns_set_write_enabled[OF inv(1,2)]
        returns_send[OF inv(1)] returns_wait_busy[OF inv(1) rdst] ce b1(2)) simp_all
  then show ?thesis using i b1(1) by (simp add: sfud_chip_erase_def)
qed

text \<open>
  C23: Whatever the bus answers: an erase returns, and it sends nothing but control commands, the
  chip erase when the whole chip is asked for, and erase commands of the erasers of the chip at
  addresses of the range.
\<close>

theorem erase_any_bus:
  assumes "bus_inv flash I allowed" "\<And>c. control_cmd c \<Longrightarrow> allowed c"
    and "\<And>c. erase_cmd flash (unat a) (unat n) c \<Longrightarrow> allowed c"
    and "\<And>c. a = 0 \<Longrightarrow> n = capacity (chip flash) \<Longrightarrow> hd c = SFUD_CMD_ERASE_CHIP \<Longrightarrow> allowed c"
    and "sfud_started flash" "unat a + unat n < 2 ^ 32" "I b"
  shows "\<exists>e b'. sfud_erase flash a n b = Some (e, b') \<and> I b'"
proof -
  note i = sfud_startedD(1)[OF assms(5)]
  obtain b1 where b1: "lock_spi flash b = Some b1" "I b1" using bus_inv_lock(1)[OF assms(1,7)] by blast
  consider "a + n > capacity (chip flash)" | "\<not> a + n > capacity (chip flash)" "a = 0 \<and> n = capacity (chip flash)"
    | "\<not> a + n > capacity (chip flash)" "\<not> (a = 0 \<and> n = capacity (chip flash))" by blast
  then have "returns I (sfud_erase flash a n b)"
  proof cases
    case 1
    then show ?thesis using i assms(7) by (simp add: sfud_erase_def)
  next
    case 2
    have "returns I (sfud_chip_erase flash b)"
      using 2(2) by (intro chip_erase_bus[OF assms(1,2) _ i assms(7)] assms(4)) simp_all
    then show ?thesis using i 2 by (simp add: sfud_erase_def)
  next
    case 3
    have "returns I (erase_loop flash a n b1)"
      by (rule erase_loop_bus[OF assms(1-3,5,6) b1(2)]) simp_all
    from returns_write_exit[OF assms(1,2) this] show ?thesis using i 3 b1(1) by (auto simp: sfud_erase_def)
  qed
  then show ?thesis by (auto simp: returns_def)
qed

end
