(* ===== verification/Sfud_Start.thy ===== *)
theory Sfud_Start
  imports Sfud_Bus
begin

text \<open>
  The start of a device: the erasers that SFDP describes are sorted and tile one another, and a
  device whose initialisation succeeds has the parameters of the chip table, which are what the
  driver needs, or those of SFDP, which are when they fit together.
\<close>

section \<open>The erasers of SFDP\<close>

text \<open>Four erasers, the ones in use first; sorted by size.\<close>

definition packed :: "(u32 \<times> u8) list \<Rightarrow> bool" where
  "packed es \<longleftrightarrow> length es = 4 \<and> (\<forall>i < 3. fst (es ! i) = 0 \<longrightarrow> fst (es ! (i + 1)) = 0)"

definition ascending :: "(u32 \<times> u8) list \<Rightarrow> bool" where
  "ascending es \<longleftrightarrow> (\<forall>i < 3. fst (es ! (i + 1)) \<noteq> 0 \<longrightarrow> fst (es ! i) \<noteq> 0 \<and> fst (es ! i) \<le> fst (es ! (i + 1)))"

lemma all_less_3: "(\<forall>i < 3. P i) \<longleftrightarrow> P 0 \<and> P 1 \<and> P (2 :: nat)"
  by (auto simp: numeral_3_eq_3 numeral_2_eq_2 less_Suc_eq)

lemma sort_erasers_list:
  "sort_erasers [e0, e1, e2, e3] =
     (let es = [e0, e1, e2, e3];
          es = (if fst (es ! 0) \<noteq> 0 then swap_larger 0 3 (swap_larger 0 2 (swap_larger 0 1 es)) else es);
          es = (if fst (es ! 1) \<noteq> 0 then swap_larger 1 3 (swap_larger 1 2 es) else es)
      in if fst (es ! 2) \<noteq> 0 then swap_larger 2 3 es else es)"
proof -
  have u: "[0..<4] = [0, 1, 2, 3::nat]" "[Suc 0..<4] = [1, 2, 3::nat]" "[Suc (Suc 0)..<4] = [2, 3::nat]"
    "[3..<4] = [3::nat]" "[4..<4] = ([] :: nat list)" "2 + 1 = (3::nat)" "3 + 1 = (4::nat)" "1 + 1 = Suc (Suc 0)" "0 + 1 = Suc 0"
    by (simp_all add: upt_rec)
  show ?thesis
    unfolding sort_erasers_def SFUD_SFDP_ERASE_TYPE_MAX_NUM_def u fold.simps comp_def id_def Let_def by simp
qed

text \<open>One comparison: the pair in order when both are in use.\<close>

definition in_order :: "u32 \<times> u8 \<Rightarrow> u32 \<times> u8 \<Rightarrow> u32 \<times> u8 \<Rightarrow> u32 \<times> u8 \<Rightarrow> bool" where
  "in_order a b x y \<longleftrightarrow> {x, y} = {a, b} \<and> (fst x = 0 \<longleftrightarrow> fst a = 0) \<and> (fst y = 0 \<longleftrightarrow> fst b = 0) \<and>
     (fst b \<noteq> 0 \<longrightarrow> fst x \<le> fst y \<and> fst x \<le> fst b) \<and> fst x \<le> fst a"

lemma index4: "[a, b, c, d] ! 0 = a" "[a, b, c, d] ! 1 = b" "[a, b, c, d] ! 2 = c" "[a, b, c, d] ! 3 = d"
    "[a, b, c, d] ! Suc 0 = b"
  by (simp_all add: numeral_2_eq_2 numeral_3_eq_3)

definition least :: "u32 \<times> u8 \<Rightarrow> u32 \<times> u8 \<Rightarrow> u32 \<times> u8" where
  "least a b = (if fst b \<noteq> 0 \<and> fst a > fst b then b else a)"

definition largest :: "u32 \<times> u8 \<Rightarrow> u32 \<times> u8 \<Rightarrow> u32 \<times> u8" where
  "largest a b = (if fst b \<noteq> 0 \<and> fst a > fst b then a else b)"

lemma in_order_pair: "in_order a b (least a b) (largest a b)"
  by (cases "fst b \<noteq> 0 \<and> fst a > fst b") (auto simp: in_order_def least_def largest_def not_less)

lemma swap_larger_list:
  "swap_larger 0 1 [a, b, c, d] = [least a b, largest a b, c, d]"
  "swap_larger 0 2 [a, c, b, d] = [least a b, c, largest a b, d]"
  "swap_larger 0 3 [a, c, d, b] = [least a b, c, d, largest a b]"
  "swap_larger 1 2 [c, a, b, d] = [c, least a b, largest a b, d]"
  "swap_larger 1 3 [c, a, d, b] = [c, least a b, d, largest a b]"
  "swap_larger 2 3 [c, d, a, b] = [c, d, least a b, largest a b]"
  by (simp_all add: swap_larger_def least_def largest_def numeral_2_eq_2 numeral_3_eq_3)

lemma swap_in_order:
  shows "\<exists>x y. swap_larger 0 1 [a, b, c, d] = [x, y, c, d] \<and> in_order a b x y"
    "\<exists>x y. swap_larger 0 2 [a, c, b, d] = [x, c, y, d] \<and> in_order a b x y"
    "\<exists>x y. swap_larger 0 3 [a, c, d, b] = [x, c, d, y] \<and> in_order a b x y"
    "\<exists>x y. swap_larger 1 2 [c, a, b, d] = [c, x, y, d] \<and> in_order a b x y"
    "\<exists>x y. swap_larger 1 3 [c, a, d, b] = [c, x, d, y] \<and> in_order a b x y"
    "\<exists>x y. swap_larger 2 3 [c, d, a, b] = [c, d, x, y] \<and> in_order a b x y"
  unfolding swap_larger_list using in_order_pair by blast+

text \<open>After the six comparisons the four are ascending, when none of the first three is missing.\<close>

lemma in_order_chain:
  assumes o: "in_order a b a1 b1" "in_order a1 c a2 c1" "in_order a2 d a3 d1" "in_order b1 c1 b2 c2" "in_order b2 d1 b3 d2"
      "in_order c2 d2 c3 d3"
    and z: "fst a = 0 \<Longrightarrow> fst b = 0" "fst b = 0 \<Longrightarrow> fst c = 0" "fst c = 0 \<Longrightarrow> fst d = 0"
  shows "ascending [a3, b3, c3, d3]"
proof -
  note o' = o[unfolded in_order_def]
  have nz: "fst b3 \<noteq> 0 \<Longrightarrow> fst a3 \<noteq> 0" "fst c3 \<noteq> 0 \<Longrightarrow> fst b3 \<noteq> 0" "fst d3 \<noteq> 0 \<Longrightarrow> fst c3 \<noteq> 0"
    using o' z by metis+
  have b2: "b2 = b1 \<or> b2 = c1" "c2 = b1 \<or> c2 = c1" "b3 = b2 \<or> b3 = d1" "d2 = b2 \<or> d2 = d1" "c3 = c2 \<or> c3 = d2" "d3 = c2 \<or> d3 = d2"
    using o' by (auto simp: doubleton_eq_iff)
  have le: "fst a3 \<le> fst a2" "fst a2 \<le> fst a1" "fst b3 \<le> fst b2" "fst b2 \<le> fst b1" "fst c3 \<le> fst c2" using o' by simp_all
  have le1: "fst b \<noteq> 0 \<Longrightarrow> fst a1 \<le> fst b1" "fst c \<noteq> 0 \<Longrightarrow> fst a2 \<le> fst c1" "fst d \<noteq> 0 \<Longrightarrow> fst a3 \<le> fst d1"
    "fst c1 \<noteq> 0 \<Longrightarrow> fst b2 \<le> fst c2" "fst d1 \<noteq> 0 \<Longrightarrow> fst b3 \<le> fst d2" "fst d2 \<noteq> 0 \<Longrightarrow> fst c3 \<le> fst d3" using o' by simp_all
  have zz: "fst b1 = 0 \<longleftrightarrow> fst b = 0" "fst b2 = 0 \<longleftrightarrow> fst b = 0" "fst b3 = 0 \<longleftrightarrow> fst b = 0" "fst c1 = 0 \<longleftrightarrow> fst c = 0"
    "fst c2 = 0 \<longleftrightarrow> fst c = 0" "fst c3 = 0 \<longleftrightarrow> fst c = 0" "fst d1 = 0 \<longleftrightarrow> fst d = 0" "fst d2 = 0 \<longleftrightarrow> fst d = 0" "fst d3 = 0 \<longleftrightarrow> fst d = 0"
    using o' by simp_all
  have ab: "fst a3 \<le> fst b3" if n: "fst b3 \<noteq> 0"
  proof -
    have 1: "fst a3 \<le> fst b1" if "fst b \<noteq> 0" using le(1,2) le1(1)[OF that] by simp
    have 2: "fst a3 \<le> fst c1" if "fst c \<noteq> 0" using le(1) le1(2)[OF that] by simp
    have 3: "fst a3 \<le> fst d1" if "fst d \<noteq> 0" by (rule le1(3)[OF that])
    consider "b3 = b1" | "b3 = c1" | "b3 = d1" using b2(1,3) by blast
    then show ?thesis by cases (use n 1 2 3 zz in simp_all)
  qed
  have bc: "fst b3 \<le> fst c3" if n: "fst c3 \<noteq> 0"
  proof -
    have 1: "fst b3 \<le> fst c2" if "fst c \<noteq> 0" using le(3) le1(4) zz that by simp
    have 2: "fst b3 \<le> fst d2" if "fst d \<noteq> 0" using le1(5) zz that by simp
    from b2(5) show ?thesis by (rule disjE) (use n 1 2 zz in simp_all)
  qed
  have cd: "fst c3 \<le> fst d3" if "fst d3 \<noteq> 0" using le1(6) zz that by simp
  show ?thesis unfolding ascending_def all_less_3 using nz ab bc cd by (simp add: index4 numeral_2_eq_2)
qed

lemma sort_erasers_sorted:
  assumes "packed es"
  shows "packed (sort_erasers es) \<and> ascending (sort_erasers es) \<and> set (sort_erasers es) = set es"
proof -
  obtain a b c d where es: "es = [a, b, c, d]"
    using assms by (auto simp: packed_def numeral_eq_Suc length_Suc_conv)
  have z: "fst a = 0 \<Longrightarrow> fst b = 0" "fst b = 0 \<Longrightarrow> fst c = 0" "fst c = 0 \<Longrightarrow> fst d = 0"
    using assms by (simp_all add: es packed_def all_less_3)
  obtain a1 b1 where 1: "swap_larger 0 1 [a, b, c, d] = [a1, b1, c, d]" "in_order a b a1 b1" using swap_in_order(1) by blast
  obtain a2 c1 where 2: "swap_larger 0 2 [a1, b1, c, d] = [a2, b1, c1, d]" "in_order a1 c a2 c1" using swap_in_order(2) by blast
  obtain a3 d1 where 3: "swap_larger 0 3 [a2, b1, c1, d] = [a3, b1, c1, d1]" "in_order a2 d a3 d1" using swap_in_order(3) by blast
  obtain b2 c2 where 4: "swap_larger 1 2 [a3, b1, c1, d1] = [a3, b2, c2, d1]" "in_order b1 c1 b2 c2" using swap_in_order(4) by blast
  obtain b3 d2 where 5: "swap_larger 1 3 [a3, b2, c2, d1] = [a3, b3, c2, d2]" "in_order b2 d1 b3 d2" using swap_in_order(5) by blast
  obtain c3 d3 where 6: "swap_larger 2 3 [a3, b3, c2, d2] = [a3, b3, c3, d3]" "in_order c2 d2 c3 d3" using swap_in_order(6) by blast
  note o = 1(2) 2(2) 3(2) 4(2) 5(2) 6(2)
  have asc: "ascending [a3, b3, c3, d3]" by (rule in_order_chain[OF o z])
  have zz: "fst a3 = 0 \<longleftrightarrow> fst a = 0" "fst b3 = 0 \<longleftrightarrow> fst b = 0" "fst c3 = 0 \<longleftrightarrow> fst c = 0" "fst d3 = 0 \<longleftrightarrow> fst d = 0"
    "fst b1 = 0 \<longleftrightarrow> fst b = 0" "fst c1 = 0 \<longleftrightarrow> fst c = 0" "fst d1 = 0 \<longleftrightarrow> fst d = 0" "fst c2 = 0 \<longleftrightarrow> fst c = 0" "fst d2 = 0 \<longleftrightarrow> fst d = 0"
    using o unfolding in_order_def by metis+
  have id: "swap_larger i j es = es" if "fst (es ! j) = 0" for i j es using that by (simp add: swap_larger_def)
  have s0: "(if fst a \<noteq> 0 then swap_larger 0 3 (swap_larger 0 2 (swap_larger 0 1 [a, b, c, d])) else [a, b, c, d]) = [a3, b1, c1, d1]"
    using 1(1) 2(1) 3(1) z id[of "[a, b, c, d]"] by (auto simp: index4)
  have s1: "(if fst b1 \<noteq> 0 then swap_larger 1 3 (swap_larger 1 2 [a3, b1, c1, d1]) else [a3, b1, c1, d1]) = [a3, b3, c2, d2]"
    using 4(1) 5(1) z zz id[of "[a3, b1, c1, d1]"] by (auto simp: index4)
  have s2: "(if fst c2 \<noteq> 0 then swap_larger 2 3 [a3, b3, c2, d2] else [a3, b3, c2, d2]) = [a3, b3, c3, d3]"
    using 6(1) z zz id[of "[a3, b3, c2, d2]"] by (auto simp: index4)
  have "sort_erasers es = [a3, b3, c3, d3]"
    unfolding es sort_erasers_list Let_def index4 s0 s1 s2 ..
  moreover have "packed [a3, b3, c3, d3]" using zz z by (simp add: packed_def all_less_3 index4 numeral_2_eq_2)
  moreover have "{a3, b3, c3, d3} = {a, b, c, d}"
  proof -
    have "{a3, b3, c3, d3} = {a3, b3} \<union> {c2, d2}" using o(6) unfolding in_order_def by blast
    also have "\<dots> = {a3, c2} \<union> {b2, d1}" using o(5) unfolding in_order_def by blast
    also have "\<dots> = {a3, d1} \<union> {b1, c1}" using o(4) unfolding in_order_def by blast
    also have "\<dots> = {a2, d} \<union> {b1, c1}" using o(3) unfolding in_order_def by blast
    also have "\<dots> = {a1, c} \<union> {b1, d}" using o(2) unfolding in_order_def by blast
    also have "\<dots> = {a, b, c, d}" using o(1) unfolding in_order_def by blast
    finally show ?thesis .
  qed
  ultimately show ?thesis using asc by (simp add: es)
qed

definition power_size :: "u32 \<times> u8 \<Rightarrow> bool" where
  "power_size er \<longleftrightarrow> (\<exists>k < 32. fst er = 2 ^ k)"

lemma unat_2_power: "k < 32 \<Longrightarrow> unat (2 ^ k :: u32) = 2 ^ k"
proof -
  assume "k < 32"
  then have "(2::nat) ^ k < 2 ^ 32" by (rule power_strict_increasing) simp
  then show ?thesis using unat_of_nat_lt[of "2 ^ k"] by simp
qed

lemma power_size_nz: "power_size er \<Longrightarrow> fst er \<noteq> 0"
  using unat_2_power by (metis power_size_def power_not_zero unat_0 zero_neq_numeral)

lemma pack_erasers_ok:
  assumes "pack_erasers table is j es = Some es'" "length es = 4"
    and "\<forall>k < j. power_size (es ! k)" "\<forall>k < 4. j \<le> k \<longrightarrow> fst (es ! k) = 0"
  shows "packed es' \<and> (\<forall>er \<in> set es'. fst er = 0 \<or> power_size er)"
  using assms
proof (induction table "is" j es rule: pack_erasers.induct)
  case (1 table j es)
  have nz: "fst (es ! k) \<noteq> 0" if "k < j" for k
    by (rule power_size_nz[OF 1(3)[rule_format, OF that]])
  have z: "fst (es ! (i + 1)) = 0" if "i < 3" "fst (es ! i) = 0" for i
    using that nz[of i] 1(4) by (cases "j \<le> i + 1") (auto simp: not_le)
  have p: "fst er = 0 \<or> power_size er" if "er \<in> set es" for er
  proof -
    from that obtain k where "k < length es" "es ! k = er" unfolding in_set_conv_nth by (elim exE conjE)
    then have "k < 4" "er = es ! k" using 1(2) by simp_all
    then show ?thesis using 1(3)[rule_format, of k] 1(4)[rule_format, of k] by (cases "j \<le> k") simp_all
  qed
  have e: "es' = es" using 1(1) by simp
  show ?case unfolding packed_def e
  proof (intro conjI allI impI ballI)
    show "length es = 4" by (rule 1(2))
    show "fst (es ! (i + 1)) = 0" if "i < 3" "fst (es ! i) = 0" for i by (rule z[OF that])
    show "fst er = 0 \<or> power_size er" if "er \<in> set es" for er by (rule p[OF that])
  qed
next
  case (2 table i "is" j es)
  show ?case
  proof (cases "table ! (28 + 2 * i) = 0")
    case True
    then show ?thesis using 2 by simp
  next
    case False
    then obtain sz es1 where s: "shl1 (unat (table ! (28 + 2 * i))) = Some sz" "wr es j (sz, table ! (28 + 2 * i + 1)) = Some es1"
      "pack_erasers table is (j + 1) es1 = Some es'" using 2(3) by (auto simp: bind_eq_Some_conv)
    have j: "j < 4" "es1 = es[j := (sz, table ! (28 + 2 * i + 1))]" using s(2) 2(4) by (auto simp: wr_def split: if_splits)
    have p: "power_size (sz, table ! (28 + 2 * i + 1))" using s(1) by (auto simp: power_size_def shl1_def split: if_splits)
    show ?thesis
    proof (rule 2(1)[OF False s(1,2,3)])
      show "length es1 = 4" using j 2(4) by simp
      show "\<forall>k < j + 1. power_size (es1 ! k)" using j 2(4,5) p by (auto simp: nth_list_update less_Suc_eq)
      show "\<forall>k < 4. j + 1 \<le> k \<longrightarrow> fst (es1 ! k) = 0" using j 2(4,6) by (auto simp: nth_list_update)
    qed
  qed
qed

text \<open>The static table of the erasers before the first start.\<close>

definition no_erasers :: "'b sfud_flash \<Rightarrow> bool" where
  "no_erasers flash \<longleftrightarrow> length (eraser (sfdp flash)) = 4 \<and> (\<forall>er \<in> set (eraser (sfdp flash)). fst er = 0)"

lemma ascending_first:
  assumes "packed es" "ascending es" "er \<in> set es" "fst er \<noteq> 0"
  shows "fst (es ! 0) \<noteq> 0 \<and> fst (es ! 0) \<le> fst er"
proof -
  have l: "length es = 4" using assms(1) by (simp add: packed_def)
  obtain k where k: "k < 4" "er = es ! k" using assms(3) l by (metis in_set_conv_nth)
  have "k < 4 \<longrightarrow> fst (es ! k) \<noteq> 0 \<longrightarrow> fst (es ! 0) \<noteq> 0 \<and> fst (es ! 0) \<le> fst (es ! k)"
  proof (induction k)
    case (Suc k)
    show ?case
    proof (intro impI)
      assume "Suc k < 4" "fst (es ! Suc k) \<noteq> 0"
      then have "fst (es ! k) \<noteq> 0 \<and> fst (es ! k) \<le> fst (es ! Suc k)"
        using assms(2)[unfolded ascending_def, rule_format, of k] by simp
      then show "fst (es ! 0) \<noteq> 0 \<and> fst (es ! 0) \<le> fst (es ! Suc k)" using Suc \<open>Suc k < 4\<close> by auto
    qed
  qed simp
  then show ?thesis using k assms(4) by simp
qed

lemma smallest_eraser_first:
  assumes "packed es" "ascending es"
  shows "smallest_eraser es = es ! 0"
proof -
  have l: "length es = 4" using assms(1) by (simp add: packed_def)
  have "\<not> (fst (es ! i) \<noteq> 0 \<and> fst (es ! 0) > fst (es ! i))" if "i < 4" for i
    using ascending_first[OF assms, of "es ! i"] that l by auto
  then have "fold (\<lambda>i (sz, cmd). if fst (es ! i) \<noteq> 0 \<and> sz > fst (es ! i) then es ! i else (sz, cmd)) is (es ! 0) = es ! 0"
    if "\<forall>i \<in> set is. i < 4" for "is"
    using that by (induction "is") (auto simp: case_prod_unfold)
  then show ?thesis by (simp add: smallest_eraser_def SFUD_SFDP_ERASE_TYPE_MAX_NUM_def)
qed

lemma power_size_dvd:
  assumes "power_size a" "power_size c" "fst a \<le> fst c"
  shows "unat (fst a) dvd unat (fst c)"
proof -
  obtain k m where k: "k < 32" "fst a = 2 ^ k" "m < 32" "fst c = 2 ^ m" using assms(1,2) by (auto simp: power_size_def)
  then have "(2::nat) ^ k \<le> 2 ^ m" using assms(3) unat_2_power by (metis word_le_nat_alt)
  then have "k \<le> m" by simp
  then show ?thesis using k by (simp add: unat_2_power le_imp_power_dvd)
qed

text \<open>What a table of erasers from SFDP is like.\<close>

definition sfdp_erasers_ok :: "(u32 \<times> u8) list \<Rightarrow> bool" where
  "sfdp_erasers_ok es \<longleftrightarrow> length es = 4 \<and> ascending es \<and> smallest_eraser es = es ! 0 \<and>
     (\<forall>er \<in> set es. fst er \<noteq> 0 \<longrightarrow> fst (es ! 0) \<noteq> 0 \<and> unat (fst (es ! 0)) dvd unat (fst er))"

lemma parse_keeps:
  "available (snd (parse_erase_4k table p)) = available p" "eraser (snd (parse_erase_4k table p)) = eraser p"
  "available (parse_write_gran table p) = available p" "eraser (parse_write_gran table p) = eraser p"
  "available (parse_status_register table p) = available p" "eraser (parse_status_register table p) = eraser p"
  "available (snd (parse_addr_bytes table p)) = available p" "eraser (snd (parse_addr_bytes table p)) = eraser p"
  by (simp_all add: parse_erase_4k_def parse_write_gran_def parse_status_register_def parse_addr_bytes_def Let_def)

text \<open>The table is refused, or its last part has been read.\<close>

lemma parse_basic_table_cases:
  assumes "parse_basic_table table p = Some (ok, p')"
  shows "\<not> ok \<and> available p' = available p \<or> (\<exists>q. eraser q = eraser p \<and> parse_erasers table q = Some (ok, p'))"
proof -
  obtain ok1 p1 where 1: "parse_erase_4k table p = (ok1, p1)" by (cases "parse_erase_4k table p")
  let ?p2 = "parse_status_register table (parse_write_gran table p1)"
  obtain ok3 p3 where 3: "parse_addr_bytes table ?p2 = (ok3, p3)" by (cases "parse_addr_bytes table ?p2")
  have k1: "available p1 = available p" "eraser p1 = eraser p" using parse_keeps(1,2)[of table p] 1 by simp_all
  have k3: "available p3 = available p" "eraser p3 = eraser p" using parse_keeps(3-8)[of table] 3 k1 by (metis snd_conv)+
  show ?thesis
  proof (cases "ok1 \<and> ok3")
    case False
    then show ?thesis using assms 1 3 k1 k3 by (auto simp: parse_basic_table_def Let_def split: if_splits)
  next
    case True
    then obtain ok4 cap where c: "sfdp_capacity_of table = Some (ok4, cap)"
      "(if \<not> ok4 then Some (False, p3\<lparr>sfdp_capacity := cap\<rparr>) else parse_erasers table (p3\<lparr>sfdp_capacity := cap\<rparr>)) = Some (ok, p')"
      using assms 1 3 by (auto simp: parse_basic_table_def Let_def bind_eq_Some_conv)
    then show ?thesis using k3 by (cases ok4) (auto intro: exI[of _ "p3\<lparr>sfdp_capacity := cap\<rparr>"])
  qed
qed

lemma parse_erasers_ok:
  assumes "parse_erasers table q = Some (ok, p')" "length (eraser q) = 4" "\<forall>er \<in> set (eraser q). fst er = 0"
  shows "ok \<and> available p' \<and> sfdp_erasers_ok (eraser p')"
proof -
  obtain es where q: "pack_erasers table [0..<4] 0 (eraser q) = Some es" "p' = q\<lparr>eraser := sort_erasers es, available := True\<rparr>" ok
    using assms(1) by (auto simp: parse_erasers_def bind_eq_Some_conv SFUD_SFDP_ERASE_TYPE_MAX_NUM_def)
  have zero: "\<forall>k < 4. 0 \<le> k \<longrightarrow> fst (eraser q ! k) = 0" using assms(2,3) by (metis nth_mem)
  have p: "packed es" "\<forall>er \<in> set es. fst er = 0 \<or> power_size er"
    using pack_erasers_ok[OF q(1) assms(2) _ zero] by blast+
  note s = sort_erasers_sorted[OF p(1)]
  let ?es = "sort_erasers es"
  have l: "length ?es = 4" using s by (simp add: packed_def)
  have "fst (?es ! 0) \<noteq> 0 \<and> unat (fst (?es ! 0)) dvd unat (fst er)" if er: "er \<in> set ?es" "fst er \<noteq> 0" for er
  proof -
    note f = ascending_first[OF s[THEN conjunct1] s[THEN conjunct2, THEN conjunct1] er]
    have "?es ! 0 \<in> set es" using l s by (metis nth_mem zero_less_numeral)
    then have "power_size (?es ! 0)" using p(2) f by blast
    moreover have "power_size er" using p(2) er s by blast
    ultimately show ?thesis using f power_size_dvd by blast
  qed
  moreover have "smallest_eraser ?es = ?es ! 0" using s smallest_eraser_first by blast
  ultimately have "sfdp_erasers_ok ?es" unfolding sfdp_erasers_ok_def using l s by blast
  then show ?thesis using q(2,3) by simp
qed

lemma read_sfdp_header_ok:
  assumes "read_sfdp_header flash b = Some (ok, flash1, b1)"
  shows "\<not> available (sfdp flash1)" "eraser (sfdp flash1) = eraser (sfdp flash)" "chip flash1 = chip flash"
    "read_cmd_format flash1 = read_cmd_format flash"
proof -
  let ?f = "flash\<lparr>sfdp := (sfdp flash)\<lparr>available := False\<rparr>\<rparr>"
  obtain result header b2 where r: "read_sfdp_data ?f 0 8 b = Some (result, header, b2)"
    using assms unfolding read_sfdp_header_def Let_def by (auto simp: bind_eq_Some_conv)
  have "flash1 = ?f \<or> flash1 = ?f\<lparr>sfdp := (sfdp ?f)\<lparr>minor_rev := header ! 4, major_rev := header ! 5\<rparr>\<rparr>"
  proof (cases "result \<noteq> SFUD_SUCCESS \<or> take 4 header \<noteq> [0x53, 0x46, 0x44, 0x50]")
    case True
    then show ?thesis using assms r by (auto simp: read_sfdp_header_def Let_def split: if_splits)
  next
    case False
    then show ?thesis using assms r by (simp add: read_sfdp_header_def Let_def)
  qed
  then show "\<not> available (sfdp flash1)" "eraser (sfdp flash1) = eraser (sfdp flash)" "chip flash1 = chip flash"
    "read_cmd_format flash1 = read_cmd_format flash" by auto
qed

lemma read_basic_table_ok:
  assumes "read_basic_table flash basic b = Some (ok, flash', b')" "\<not> available (sfdp flash)" "no_erasers flash"
  shows "if ok then available (sfdp flash') \<and> sfdp_erasers_ok (eraser (sfdp flash')) else \<not> available (sfdp flash')"
proof -
  from assms(1) obtain result table b1 where r: "read_sfdp_data flash (ph_ptp basic) (BASIC_TABLE_LEN * 4) b = Some (result, table, b1)"
    "(if result \<noteq> SFUD_SUCCESS then Some (False, flash, b1) else do {
       (ok, p) \<leftarrow> parse_basic_table table (sfdp flash);
       Some (ok, flash\<lparr>sfdp := p\<rparr>, b1) }) = Some (ok, flash', b')"
    unfolding read_basic_table_def by (auto simp: bind_eq_Some_conv)
  show ?thesis
  proof (cases "result = SFUD_SUCCESS")
    case False
    then show ?thesis using r(2) assms(2) by simp
  next
    case True
    then obtain p where p: "parse_basic_table table (sfdp flash) = Some (ok, p)" "flash' = flash\<lparr>sfdp := p\<rparr>"
      using r(2) by (auto simp: bind_eq_Some_conv)
    have e: "length (eraser (sfdp flash)) = 4" "\<forall>er \<in> set (eraser (sfdp flash)). fst er = 0"
      using assms(3) unfolding no_erasers_def by blast+
    from parse_basic_table_cases[OF p(1)] show ?thesis
    proof
      assume "\<not> ok \<and> available p = available (sfdp flash)"
      then show ?thesis using assms(2) p(2) by simp
    next
      assume "\<exists>q. eraser q = eraser (sfdp flash) \<and> parse_erasers table q = Some (ok, p)"
      then obtain q where "eraser q = eraser (sfdp flash)" "parse_erasers table q = Some (ok, p)" by blast
      then have "ok \<and> available p \<and> sfdp_erasers_ok (eraser p)" using parse_erasers_ok e by metis
      then show ?thesis using p(2) by simp
    qed
  qed
qed

lemma read_sfdp_ok:
  assumes "sfud_read_sfdp flash b = Some (ok, flash', b')" "no_erasers flash"
  shows "if ok then available (sfdp flash') \<and> sfdp_erasers_ok (eraser (sfdp flash')) else \<not> available (sfdp flash')"
proof -
  from assms(1) obtain ok1 flash1 b1 where h: "read_sfdp_header flash b = Some (ok1, flash1, b1)"
    "(if \<not> ok1 then Some (False, flash1, b1) else do {
       (ok, basic, b) \<leftarrow> read_basic_header flash1 b1;
       if ok then read_basic_table flash1 basic b else Some (False, flash1, b) }) = Some (ok, flash', b')"
    unfolding sfud_read_sfdp_def by (auto simp: bind_eq_Some_conv)
  note f = read_sfdp_header_ok[OF h(1)]
  have e: "no_erasers flash1" using assms(2) f(2) by (simp add: no_erasers_def)
  show ?thesis
  proof (cases ok1)
    case False
    then show ?thesis using h(2) f(1) by simp
  next
    case True
    then obtain ok2 basic b2 where r: "read_basic_header flash1 b1 = Some (ok2, basic, b2)"
      "(if ok2 then read_basic_table flash1 basic b2 else Some (False, flash1, b2)) = Some (ok, flash', b')"
      using h(2) by (auto simp: bind_eq_Some_conv)
    then show ?thesis using f(1) read_basic_table_ok[OF _ f(1) e] by (cases ok2) auto
  qed
qed

section \<open>The start of a device\<close>

lemma start_chip_ok:
  assumes "start_chip flash b = Some (SFUD_SUCCESS, flash', b')"
  shows "flash' = flash\<lparr>addr_in_4_byte := (capacity (chip flash) > 0x1000000)\<rparr>"
proof -
  obtain result b1 where r: "on_success (reset flash b) (unprotect flash) = Some (result, b1)"
    "(if result \<noteq> SFUD_SUCCESS then Some (result, flash, b1)
      else if capacity (chip flash) > push_bit 24 1 then set_4_byte_address_mode flash True b1
      else Some (result, flash\<lparr>addr_in_4_byte := False\<rparr>, b1)) = Some (SFUD_SUCCESS, flash', b')"
    using assms unfolding start_chip_def by (auto simp: bind_eq_Some_conv)
  have p: "(push_bit 24 1 :: u32) = 0x1000000" by simp
  show ?thesis
  proof (cases "capacity (chip flash) > 0x1000000")
    case False
    then show ?thesis using r(2) unfolding p by (auto split: if_splits)
  next
    case True
    then have "set_4_byte_address_mode flash True b1 = Some (SFUD_SUCCESS, flash', b')"
      using r(2) unfolding p by (auto split: if_splits)
    then show ?thesis using True by (auto simp: set_4_byte_address_mode_def bind_eq_Some_conv split: if_splits)
  qed
qed

lemma read_jedec_id_sfdp:
  "read_jedec_id flash b = Some (e, flash', b') \<Longrightarrow> sfdp flash' = sfdp flash \<and> read_cmd_format flash' = read_cmd_format flash \<and>
     chip_incomplete (chip flash') = chip_incomplete (chip flash)"
  by (auto simp: read_jedec_id_def chip_incomplete_def bind_eq_Some_conv Let_def split: prod.splits if_splits)

lemma read_sfdp_chip:
  assumes "sfud_read_sfdp flash b = Some (ok, flash', b')"
  shows "chip flash' = chip flash \<and> read_cmd_format flash' = read_cmd_format flash"
proof -
  from assms obtain ok1 flash1 b1 where h: "read_sfdp_header flash b = Some (ok1, flash1, b1)"
    "(if \<not> ok1 then Some (False, flash1, b1) else do {
       (ok, basic, b) \<leftarrow> read_basic_header flash1 b1;
       if ok then read_basic_table flash1 basic b else Some (False, flash1, b) }) = Some (ok, flash', b')"
    unfolding sfud_read_sfdp_def by (auto simp: bind_eq_Some_conv)
  have "chip flash' = chip flash1 \<and> read_cmd_format flash' = read_cmd_format flash1"
    using h(2) by (auto simp: bind_eq_Some_conv read_basic_table_def split: if_splits)
  then show ?thesis using read_sfdp_header_ok(3,4)[OF h(1)] by simp
qed

text \<open>Where the parameters of a chip come from when the user gave none.\<close>

lemma find_chip_ok:
  assumes "find_chip flash b = Some (SFUD_SUCCESS, flash', b')" "chip_incomplete (chip flash)" "no_erasers flash"
  shows "(\<exists>c. available (sfdp flash') \<and> sfdp_erasers_ok (eraser (sfdp flash')) \<and> chip flash' = chip_of_sfdp (sfdp flash') c) \<or>
    (\<exists>c. \<not> available (sfdp flash') \<and> chip flash' = chip_of_table c \<and> chip_incomplete c)"
    "read_cmd_format flash' = read_cmd_format flash"
proof -
  obtain e f1 b1 where j: "read_jedec_id flash b = Some (e, f1, b1)"
    "(if e \<noteq> SFUD_SUCCESS then Some (e, f1, b1) else do {
        (ok, flash, b) \<leftarrow> sfud_read_sfdp f1 b1;
        Some (SFUD_SUCCESS, if ok then flash\<lparr>chip := chip_of_sfdp (sfdp flash) (chip flash)\<rparr>
                            else flash\<lparr>chip := chip_of_table (chip flash)\<rparr>, b) }) = Some (SFUD_SUCCESS, flash', b')"
    using assms(1,2) unfolding find_chip_def by (auto simp: bind_eq_Some_conv)
  have n: "no_erasers f1" using assms(3) read_jedec_id_sfdp[OF j(1)] by (simp add: no_erasers_def)
  have e: "e = SFUD_SUCCESS" using j(2) by (cases "e = SFUD_SUCCESS") simp_all
  then obtain ok f2 b2 where s: "sfud_read_sfdp f1 b1 = Some (ok, f2, b2)"
    "flash' = (if ok then f2\<lparr>chip := chip_of_sfdp (sfdp f2) (chip f2)\<rparr> else f2\<lparr>chip := chip_of_table (chip f2)\<rparr>)"
    using j(2) by (auto simp: bind_eq_Some_conv)
  have c: "chip_incomplete (chip f2)" using read_sfdp_chip[OF s(1)] read_jedec_id_sfdp[OF j(1)] assms(2) by simp
  show "read_cmd_format flash' = read_cmd_format flash"
    using s(2) read_sfdp_chip[OF s(1)] read_jedec_id_sfdp[OF j(1)] by simp
  show "(\<exists>c. available (sfdp flash') \<and> sfdp_erasers_ok (eraser (sfdp flash')) \<and> chip flash' = chip_of_sfdp (sfdp flash') c) \<or>
    (\<exists>c. \<not> available (sfdp flash') \<and> chip flash' = chip_of_table c \<and> chip_incomplete c)"
    using read_sfdp_ok[OF s(1) n] s(2) c by (cases ok) auto
qed

lemma chip_table_ok:
  "r \<in> set flash_chip_table \<Longrightarrow> 0 < capacity r \<and> unat (capacity r) < 2 ^ 31 \<and> erase_gran r \<noteq> 0 \<and>
     unat (erase_gran r) dvd unat (capacity r)"
  by (auto simp: flash_chip_table_def chip_row_def)

lemma chip_of_table_ok:
  assumes "\<not> chip_incomplete (chip_of_table c)" "chip_incomplete c"
  shows "0 < capacity (chip_of_table c) \<and> unat (capacity (chip_of_table c)) < 2 ^ 31 \<and> erase_gran (chip_of_table c) \<noteq> 0 \<and>
     unat (erase_gran (chip_of_table c)) dvd unat (capacity (chip_of_table c))"
proof (cases "find (\<lambda>r. mf_id r = mf_id c \<and> type_id r = type_id c \<and> capacity_id r = capacity_id c) flash_chip_table")
  case None
  then show ?thesis using assms by (simp add: chip_of_table_def)
next
  case (Some r)
  then have "r \<in> set flash_chip_table" by (auto simp: find_Some_iff)
  from chip_table_ok[OF this] show ?thesis using Some by (simp add: chip_of_table_def)
qed

lemma hardware_init_ok:
  assumes "hardware_init port flash b = Some (SFUD_SUCCESS, flash', b')" "port flash b = (e0, flash0, b0)"
    "chip_incomplete (chip flash0)" "no_erasers flash0"
  obtains f1 where "\<not> chip_incomplete (chip f1)" "flash' = f1\<lparr>addr_in_4_byte := (capacity (chip f1) > 0x1000000)\<rparr>"
    "instruction (read_cmd_format f1) = SFUD_CMD_READ_DATA"
    "(\<exists>c. available (sfdp f1) \<and> sfdp_erasers_ok (eraser (sfdp f1)) \<and> chip f1 = chip_of_sfdp (sfdp f1) c) \<or>
     (\<exists>c. \<not> available (sfdp f1) \<and> chip f1 = chip_of_table c \<and> chip_incomplete c)"
proof -
  let ?f = "flash0\<lparr>read_cmd_format := (read_cmd_format flash0)\<lparr>instruction := SFUD_CMD_READ_DATA\<rparr>\<rparr>"
  have e0: "e0 = SFUD_SUCCESS" using assms(1,2) by (cases "e0 = SFUD_SUCCESS") (simp_all add: hardware_init_def)
  obtain e f1 b1 where f: "find_chip ?f b0 = Some (e, f1, b1)"
    "(if e \<noteq> SFUD_SUCCESS then Some (e, f1, b1) else if chip_incomplete (chip f1) then Some (SFUD_ERR_NOT_FOUND, f1, b1)
      else start_chip f1 b1) = Some (SFUD_SUCCESS, flash', b')"
    using assms(1,2) e0 by (auto simp: hardware_init_def bind_eq_Some_conv)
  have e: "e = SFUD_SUCCESS" using f(2) by (cases "e = SFUD_SUCCESS") simp_all
  have c: "\<not> chip_incomplete (chip f1)" using f(2) e by (cases "chip_incomplete (chip f1)") simp_all
  have st: "start_chip f1 b1 = Some (SFUD_SUCCESS, flash', b')" using f(2) e c by simp
  have i: "chip_incomplete (chip ?f)" "no_erasers ?f" using assms(3,4) by (simp_all add: no_erasers_def)
  note fc = find_chip_ok[OF f(1)[unfolded e] i]
  show thesis by (rule that[OF c start_chip_ok[OF st] _ fc(1)]) (simp add: fc(2))
qed

lemma erasers_of_sfdp:
  "available (sfdp flash) \<Longrightarrow> er \<in> erasers flash \<Longrightarrow> er \<in> set (eraser (sfdp flash)) \<and> fst er \<noteq> 0"
  by (simp add: erasers_def)

text \<open>SFDP describes a chip of less than 2 GB that its units tile.\<close>

definition sfdp_tiles :: "'b sfud_flash \<Rightarrow> bool" where
  "sfdp_tiles flash \<longleftrightarrow> unat (capacity (chip flash)) < 2 ^ 31 \<and>
     (\<forall>er \<in> erasers flash. unat (fst er) dvd unat (capacity (chip flash)))"

text \<open>
  What the start took from SFDP: the capacity, the smallest eraser, which the others are multiples
  of, and the write mode: pages unless SFDP says single bytes, a mode in which \<open>sfud_write\<close> sends
  nothing.
\<close>

definition sfdp_params :: "'b sfud_flash \<Rightarrow> bool" where
  "sfdp_params flash \<longleftrightarrow> capacity (chip flash) = sfdp_capacity (sfdp flash) \<and>
     (erase_gran (chip flash), erase_gran_cmd (chip flash)) \<in> erasers flash \<and>
     (\<forall>er \<in> erasers flash. erase_gran (chip flash) \<le> fst er \<and> unat (erase_gran (chip flash)) dvd unat (fst er)) \<and>
     writes_data flash = (sfdp_write_gran (sfdp flash) \<noteq> 1)"

text \<open>What the start took from the chip table: the row of the identification that the chip gave.\<close>

definition table_params :: "'b sfud_flash \<Rightarrow> bool" where
  "table_params flash \<longleftrightarrow> (let c = chip flash in \<exists>r \<in> set flash_chip_table.
     (mf_id c, type_id c, capacity_id c) = (mf_id r, type_id r, capacity_id r) \<and>
     (chip_name c, capacity c, write_mode c) = (chip_name r, capacity r, write_mode r) \<and>
     (erase_gran c, erase_gran_cmd c) = (erase_gran r, erase_gran_cmd r) \<and>
     writes_data flash = (chip_name c \<noteq> Some ''AT45DB161E''))"

lemma chip_table_writes:
  "r \<in> set flash_chip_table \<Longrightarrow>
     (write_mode r AND SFUD_WM_PAGE_256B \<noteq> 0 \<or> write_mode r AND SFUD_WM_AAI \<noteq> 0) = (chip_name r \<noteq> Some ''AT45DB161E'')"
  unfolding flash_chip_table_def by (auto simp: chip_row_def sfud_modes)

lemma chip_of_table_row:
  assumes "chip flash = chip_of_table c" "\<not> chip_incomplete (chip_of_table c)" "chip_incomplete c"
  shows "table_params flash"
proof (cases "find (\<lambda>r. mf_id r = mf_id c \<and> type_id r = type_id c \<and> capacity_id r = capacity_id c) flash_chip_table")
  case None
  then show ?thesis using assms by (simp add: chip_of_table_def)
next
  case (Some r)
  then have r: "r \<in> set flash_chip_table" "mf_id r = mf_id c" "type_id r = type_id c" "capacity_id r = capacity_id c"
    by (auto simp: find_Some_iff)
  have "chip flash = c\<lparr>chip_name := chip_name r, capacity := capacity r, write_mode := write_mode r,
      erase_gran := erase_gran r, erase_gran_cmd := erase_gran_cmd r\<rparr>"
    using Some assms(1) by (simp add: chip_of_table_def)
  then show ?thesis
    unfolding table_params_def Let_def using r chip_table_writes[OF r(1)]
    by (intro bexI[of _ r]) (simp_all add: writes_data_def)
qed

lemma chip_of_sfdp_params:
  assumes "available (sfdp flash)" "sfdp_erasers_ok (eraser (sfdp flash))" "chip flash = chip_of_sfdp (sfdp flash) c"
    "erase_gran (chip flash) \<noteq> 0"
  shows "sfdp_params flash"
proof -
  let ?es = "eraser (sfdp flash)"
  have ok: "length ?es = 4" "smallest_eraser ?es = ?es ! 0"
    "fst er \<noteq> 0 \<Longrightarrow> unat (fst (?es ! 0)) dvd unat (fst er)" if "er \<in> set ?es" for er
    using assms(2) that by (simp_all add: sfdp_erasers_ok_def)
  have l: "length ?es = 4" "smallest_eraser ?es = ?es ! 0" using assms(2) by (simp_all add: sfdp_erasers_ok_def)
  have g: "erase_gran (chip flash) = fst (?es ! 0)" "erase_gran_cmd (chip flash) = snd (?es ! 0)"
    "capacity (chip flash) = sfdp_capacity (sfdp flash)"
    "write_mode (chip flash) = (if sfdp_write_gran (sfdp flash) = 1 then SFUD_WM_BYTE else SFUD_WM_PAGE_256B)"
    using assms(3) l by (simp_all add: chip_of_sfdp_def)
  have dv: "unat (fst (?es ! 0)) dvd unat (fst er)" "fst er \<noteq> 0" if "er \<in> erasers flash" for er
    using that assms(1) ok(3)[of er] by (simp_all add: erasers_def)
  have le: "fst (?es ! 0) \<le> fst er" if "er \<in> erasers flash" for er
    using dv[OF that] by (simp add: word_le_nat_alt dvd_imp_le unat_gt_0)
  have "?es ! 0 \<in> erasers flash" using l g assms(1,4) by (simp add: erasers_def)
  then show ?thesis
    unfolding sfdp_params_def using g dv le by (simp add: writes_data_def sfud_modes)
qed

text \<open>
  C21: The start of a device for which the hook gave no parameters sets the init flag exactly on
  success, and on success selects the plain read command. Without SFDP the parameters are the row
  of the chip table that the identification of the chip names, and the driver is in the state that
  its operations rely on. With SFDP they are those of SFDP, the unit of the erases the smallest
  eraser, and the driver is in that state exactly when the capacity is below 2 GB and the erasers
  divide it. Writes send data unless SFDP says single bytes or the chip is the AT45DB161E.
\<close>

theorem device_init_starts:
  assumes "sfud_device_init port flash b = Some (result, flash', b')" "port flash b = (e0, flash0, b0)"
    "chip_incomplete (chip flash0)" "no_erasers flash0"
  shows "init_ok flash' = (result = SFUD_SUCCESS) \<and>
    (result = SFUD_SUCCESS \<longrightarrow> instruction (read_cmd_format flash') = SFUD_CMD_READ_DATA \<and>
       (if available (sfdp flash') then sfdp_params flash' \<and> sfud_started flash' = sfdp_tiles flash'
        else table_params flash' \<and> sfud_started flash'))"
proof (rule conjI[OF _ impI])
  obtain r f b1 where h: "hardware_init port flash b = Some (r, f, b1)" "result = r" "flash' = f\<lparr>init_ok := (result = SFUD_SUCCESS)\<rparr>"
    using assms(1) by (auto simp: sfud_device_init_def bind_eq_Some_conv Let_def software_init_def)
  show "init_ok flash' = (result = SFUD_SUCCESS)" using h(3) by simp
  assume res: "result = SFUD_SUCCESS"
  have hi: "hardware_init port flash b = Some (SFUD_SUCCESS, f, b1)" using h(1,2) res by simp
  obtain f1 where f1: "\<not> chip_incomplete (chip f1)" "f = f1\<lparr>addr_in_4_byte := (capacity (chip f1) > 0x1000000)\<rparr>"
    "instruction (read_cmd_format f1) = SFUD_CMD_READ_DATA"
    "(\<exists>c. available (sfdp f1) \<and> sfdp_erasers_ok (eraser (sfdp f1)) \<and> chip f1 = chip_of_sfdp (sfdp f1) c) \<or>
     (\<exists>c. \<not> available (sfdp f1) \<and> chip f1 = chip_of_table c \<and> chip_incomplete c)"
    by (rule hardware_init_ok[OF hi assms(2-4)])
  have f': "flash' = f1\<lparr>addr_in_4_byte := (capacity (chip f1) > 0x1000000), init_ok := True\<rparr>" using h(3) f1(2) res by simp
  then have same: "chip flash' = chip f1" "sfdp flash' = sfdp f1" "init_ok flash'" "addr_in_4_byte flash' = (capacity (chip f1) > 0x1000000)"
    by simp_all
  have pos: "0 < capacity (chip f1)" "erase_gran (chip f1) \<noteq> 0" using f1(1) by (simp_all add: chip_incomplete_def word_gt_0)
  have addr: "addr_in_4_byte flash' \<or> capacity (chip flash') \<le> 0x1000000" 
    using same by (cases "capacity (chip f1) > 0x1000000") (simp_all add: not_less)
  have rd: "instruction (read_cmd_format flash') = SFUD_CMD_READ_DATA" using f' f1(3) by simp
  from f1(4) show "instruction (read_cmd_format flash') = SFUD_CMD_READ_DATA \<and>
       (if available (sfdp flash') then sfdp_params flash' \<and> sfud_started flash' = sfdp_tiles flash'
        else table_params flash' \<and> sfud_started flash')"
  proof
    assume "\<exists>c. available (sfdp f1) \<and> sfdp_erasers_ok (eraser (sfdp f1)) \<and> chip f1 = chip_of_sfdp (sfdp f1) c"
    then obtain c where c: "available (sfdp f1)" "sfdp_erasers_ok (eraser (sfdp f1))" "chip f1 = chip_of_sfdp (sfdp f1) c" by blast
    let ?es = "eraser (sfdp f1)"
    note ok = c(2)[unfolded sfdp_erasers_ok_def]
    have p: "sfdp_params flash'" using chip_of_sfdp_params[of flash' c] c pos(2) same by simp
    have g: "erase_gran (chip flash') = fst (?es ! 0)" using c(3) ok same by (simp add: chip_of_sfdp_def)
    have "sfud_started flash' = sfdp_tiles flash'"
      unfolding sfud_started_def SFUD_SFDP_ERASE_TYPE_MAX_NUM_def sfdp_tiles_def
      using p[unfolded sfdp_params_def] addr pos same g ok by auto
    then show ?thesis using p rd c(1) same by simp
  next
    assume "\<exists>c. \<not> available (sfdp f1) \<and> chip f1 = chip_of_table c \<and> chip_incomplete c"
    then obtain c where c: "\<not> available (sfdp f1)" "chip f1 = chip_of_table c" "chip_incomplete c" by blast
    note ok = chip_of_table_ok[OF _ c(3), folded c(2), OF f1(1)]
    have "sfud_started flash'"
      unfolding sfud_started_def erasers_def using ok c(1) addr same by simp
    moreover have "table_params flash'"
      by (rule chip_of_table_row[OF _ _ c(3)]) (use same c f1(1) in simp_all)
    ultimately show ?thesis using rd c(1) same by simp
  qed
qed

end
