(* ===== verification/Sfud_Port.thy ===== *)
theory Sfud_Port
  imports Sfud_Init Sfud_Proofs Sfud_Bus
begin

text \<open>
  The flash device that \<^verbatim>\<open>sample_rtt_fal_flash_sfud_port.c\<close> builds on the serial flash driver,
  and the composition: with a chip that behaves as documented the device keeps the contract of
  the flash abstraction layer, so partitions on it are flash memories of their own. The
  second half holds for every bus, whatever it answers: which commands are sent, and that the
  routines return.
\<close>

section \<open>The port\<close>

text \<open>\<open>return size\<close> turns the unsigned size into an \<open>int\<close>; the code of the read is dropped.\<close>

definition port_read :: "'b sfud_flash \<Rightarrow> u32 \<Rightarrow> u32 \<Rightarrow> u32 \<Rightarrow> 'b \<Rightarrow> (int \<times> u8 list \<times> 'b) option" where
  "port_read sfud_dev addr offset n b =
     (if \<not> init_ok sfud_dev then None
      else do {
        (_, buf, b) \<leftarrow> sfud_read sfud_dev (addr + offset) n b;
        Some (sint n, buf, b) })"

definition port_write :: "'b sfud_flash \<Rightarrow> u32 \<Rightarrow> u32 \<Rightarrow> u8 list \<Rightarrow> 'b \<Rightarrow> (int \<times> 'b) option" where
  "port_write sfud_dev addr offset buf b =
     (if \<not> init_ok sfud_dev then None
      else do {
        (result, b) \<leftarrow> sfud_write sfud_dev (addr + offset) buf b;
        Some (if result \<noteq> SFUD_SUCCESS then -1 else sint (of_nat (length buf) :: u32), b) })"

definition port_erase :: "'b sfud_flash \<Rightarrow> u32 \<Rightarrow> u32 \<Rightarrow> u32 \<Rightarrow> 'b \<Rightarrow> (int \<times> 'b) option" where
  "port_erase sfud_dev addr offset n b =
     (if \<not> init_ok sfud_dev then None
      else do {
        (result, b) \<leftarrow> sfud_erase sfud_dev (addr + offset) n b;
        Some (if result \<noteq> SFUD_SUCCESS then -1 else sint n, b) })"

text \<open>
  \<open>nor_flash0\<close> with \<open>sfud_dev\<close> set. The operations of a device are total in the model of the
  layer; where the C has no result their value is unspecified. The hook \<open>init\<close> does nothing on the
  bus; what it does to the entry of the table is \<open>port_init\<close>.
\<close>

definition nor_flash0 :: "'b sfud_flash \<Rightarrow> 'b fal_flash_dev" where
  "nor_flash0 sfud_dev = \<lparr>dev_name = ''norflash0'', dev_addr = 0, dev_len = 16*1024*1024, dev_blk_size = 4096,
     op_init = Some (\<lambda>b. b), op_read = (\<lambda>offset n b. the (port_read sfud_dev 0 offset n b)),
     op_write = (\<lambda>offset buf b. the (port_write sfud_dev 0 offset buf b)),
     op_erase = (\<lambda>offset n b. the (port_erase sfud_dev 0 offset n b)), dev_write_gran = 1\<rparr>"

text \<open>The init hook: it chooses the device and takes its unit and its size over.\<close>

definition port_init :: "'b sfud_flash list \<Rightarrow> nat \<Rightarrow> int \<times> 'b fal_flash_dev option" where
  "port_init flash_table index =
     (case sfud_get_device flash_table index of
        None \<Rightarrow> (-1, None)
      | Some sfud_dev \<Rightarrow> (0, Some ((nor_flash0 sfud_dev)\<lparr>dev_blk_size := erase_gran (chip sfud_dev),
                                                    dev_len := capacity (chip sfud_dev)\<rparr>)))"

section \<open>The port is a flash memory\<close>

definition page_mode :: "'b sfud_flash \<Rightarrow> bool" where
  "page_mode flash \<longleftrightarrow> write_mode (chip flash) AND SFUD_WM_PAGE_256B \<noteq> 0"

definition sfud_ready :: "'b chip_view \<Rightarrow> 'b sfud_flash \<Rightarrow> 'b \<Rightarrow> bool" where
  "sfud_ready v flash b \<longleftrightarrow> nor_chip v flash \<and> sfud_started flash \<and> page_mode flash \<and> chip_in_step v flash b \<and>
     length (cells v b) = unat (capacity (chip flash))"

lemma sfud_readyD:
  assumes "sfud_ready v flash b"
  shows "nor_chip v flash" "sfud_started flash" "page_mode flash" "chip_in_step v flash b"
    "length (cells v b) = unat (capacity (chip flash))" "writes_data flash" "init_ok flash"
  using assms by (simp_all add: sfud_ready_def writes_data_def page_mode_def sfud_startedD(1))

lemma sfud_ready_step:
  assumes "sfud_ready v flash b" "chip_in_step v flash b'" "length (cells v b') = length (cells v b)"
  shows "sfud_ready v flash b'"
  using assms by (simp add: sfud_ready_def)

lemma port_read_law:
  assumes "sfud_ready v flash b" "unat a + unat n \<le> length (cells v b)"
  shows "\<exists>b'. port_read flash 0 a n b = Some (int (unat n), window (unat a) (unat n) (cells v b), b') \<and>
    sfud_ready v flash b' \<and> cells v b' = cells v b"
proof -
  note r = sfud_readyD[OF assms(1)]
  obtain b' where b': "sfud_read flash a n b = Some (SFUD_SUCCESS, window (unat a) (unat n) (cells v b), b')"
    "cells v b' = cells v b" "chip_in_step v flash b'" using sfud_read_ok[OF r(1,2,4,5) assms(2)] by blast
  have "sint n = int (unat n)" using assms(2) r(5) sfud_startedD(3)[OF r(2)] by (intro sint_unat_small) simp
  then show ?thesis using b' r(7) sfud_ready_step[OF assms(1) b'(3)] by (simp add: port_read_def)
qed

lemma port_write_law:
  assumes "sfud_ready v flash b" "unat a + length bs \<le> length (cells v b)"
  shows "\<exists>r b'. port_write flash 0 a bs b = Some (r, b') \<and> sfud_ready v flash b' \<and>
    write_effect (unat a) bs r (cells v b) (cells v b') \<and> (faultless flash \<longrightarrow> r \<ge> 0)"
proof -
  note r = sfud_readyD[OF assms(1)]
  obtain e b' where b': "sfud_write flash a bs b = Some (e, b')" "wrote v (unat a) bs e b b'" "chip_in_step v flash b'"
    "faultless flash \<longrightarrow> e = SFUD_SUCCESS" using sfud_write_ok[OF r(1,2,6,4,5) assms(2)] r(3) by (auto simp: page_mode_def)
  have l: "length (cells v b') = length (cells v b)" by (rule wrote_length[OF b'(2) assms(2)])
  have n: "unat (of_nat (length bs) :: u32) = length bs"
    using assms(2) r(5) sfud_startedD(3)[OF r(2)] by (intro unat_of_nat_lt) simp
  have sn: "sint (of_nat (length bs) :: u32) = int (unat (of_nat (length bs) :: u32))"
    by (rule sint_unat_small) (use n assms(2) r(5) sfud_startedD(3)[OF r(2)] in simp)
  have "write_effect (unat a) bs (if e \<noteq> SFUD_SUCCESS then -1 else sint (of_nat (length bs) :: u32)) (cells v b) (cells v b')"
    using b'(2) by (simp add: write_effect_def wrote_def sn)
  then show ?thesis using b'(1,4) r(7) sfud_ready_step[OF assms(1) b'(3) l] sn by (simp add: port_write_def)
qed

lemma port_erase_law:
  assumes "sfud_ready v flash b" "unat a + unat n \<le> length (cells v b)"
    "unat (erase_gran (chip flash)) dvd unat a" "unat (erase_gran (chip flash)) dvd unat n"
  shows "\<exists>r b'. port_erase flash 0 a n b = Some (r, b') \<and> sfud_ready v flash b' \<and>
    erase_effect (unat a) (unat n) r (cells v b) (cells v b') \<and> (faultless flash \<longrightarrow> r \<ge> 0)"
proof -
  note r = sfud_readyD[OF assms(1)]
  let ?g = "unat (erase_gran (chip flash))"
  have g: "0 < ?g" using sfud_startedD(5)[OF r(2)] by (simp add: unat_gt_0)
  have sn: "sint n = int (unat n)" using assms(2) r(5) sfud_startedD(3)[OF r(2)] by (intro sint_unat_small) simp
  have "\<exists>e b'. sfud_erase flash a n b = Some (e, b') \<and> wiped v (unat a) (unat n) e b b' \<and> chip_in_step v flash b' \<and>
      (faultless flash \<longrightarrow> e = SFUD_SUCCESS)"
  proof (cases "unat n = 0")
    case True
    then have "n = 0" by (simp add: unat_eq_0)
    obtain b' where b': "sfud_erase flash a 0 b = Some (SFUD_SUCCESS, b')" "cells v b' = cells v b" "chip_in_step v flash b'"
      using sfud_erase_nothing[OF r(1,2,4,5), of a] assms(2) by auto
    have "wiped v (unat a) 0 SFUD_SUCCESS b b'" using b'(2,3) r(4) by (simp add: wiped_def chip_in_step_def ready_def)
    then show ?thesis using b'(1,3) \<open>n = 0\<close> by simp
  next
    case False
    then have n: "0 < unat n" by simp
    have "units ?g (unat a) (unat n) (unat a) (unat a + unat n)"
      unfolding units_def using assms(3,4) g by simp
    from sfud_erase_ok[OF r(1,2,4,5) assms(2) n this] show ?thesis by simp
  qed
  then obtain e b' where b': "sfud_erase flash a n b = Some (e, b')" "wiped v (unat a) (unat n) e b b'" "chip_in_step v flash b'"
    "faultless flash \<longrightarrow> e = SFUD_SUCCESS" by blast
  have l: "length (cells v b') = length (cells v b)" by (rule wiped_length[OF b'(2) assms(2)])
  have "erase_effect (unat a) (unat n) (if e \<noteq> SFUD_SUCCESS then -1 else sint n) (cells v b) (cells v b')"
    using b'(2) sn by (simp add: erase_effect_def wiped_def)
  then show ?thesis using b'(1,4) r(7) sfud_ready_step[OF assms(1) b'(3) l] sn by (simp add: port_erase_def)
qed

interpretation sfud: nor_part "port_read flash 0" "port_write flash 0" "port_erase flash 0"
  "cells v" "sfud_ready v flash" "unat (erase_gran (chip flash))"
proof unfold_locales
  fix b :: 'a and a n :: u32 assume "sfud_ready v flash b" "unat a + unat n \<le> length (cells v b)"
  from port_read_law[OF this] show "\<exists>r s'. port_read flash 0 a n b = Some (r, take (unat n) (drop (unat a) (cells v b)), s') \<and>
      r = int (unat n) \<and> sfud_ready v flash s' \<and> cells v s' = cells v b" by (auto simp: window_def)
next
  fix b :: 'a and a :: u32 and bs :: "u8 list" assume "sfud_ready v flash b" "unat a + length bs \<le> length (cells v b)"
  from port_write_law[OF this] show "\<exists>r s'. port_write flash 0 a bs b = Some (r, s') \<and> sfud_ready v flash s' \<and>
      write_effect (unat a) bs r (cells v b) (cells v s')" by blast
next
  fix b :: 'a and a n :: u32
  assume "sfud_ready v flash b" "unat a + unat n \<le> length (cells v b)"
    "unat (erase_gran (chip flash)) dvd unat a" "unat (erase_gran (chip flash)) dvd unat n"
  from port_erase_law[OF this] show "\<exists>r s'. port_erase flash 0 a n b = Some (r, s') \<and> sfud_ready v flash s' \<and>
      erase_effect (unat a) (unat n) r (cells v b) (cells v s')" by blast
next
  fix b :: 'a assume "sfud_ready v flash b"
  then show "length (cells v b) < 2 ^ 32" using unat_lt32[of "capacity (chip flash)"] by (simp add: sfud_ready_def)
qed

text \<open>The device after its init hook.\<close>

definition sfud_dev_of :: "'b sfud_flash \<Rightarrow> 'b fal_flash_dev" where
  "sfud_dev_of flash = (nor_flash0 flash)\<lparr>dev_blk_size := erase_gran (chip flash), dev_len := capacity (chip flash)\<rparr>"

lemma sfud_dev_of_simps [simp]:
  "dev_name (sfud_dev_of flash) = ''norflash0''" "dev_len (sfud_dev_of flash) = capacity (chip flash)"
  "dev_blk_size (sfud_dev_of flash) = erase_gran (chip flash)"
  "op_read (sfud_dev_of flash) = (\<lambda>a n b. the (port_read flash 0 a n b))"
  "op_write (sfud_dev_of flash) = (\<lambda>a bs b. the (port_write flash 0 a bs b))"
  "op_erase (sfud_dev_of flash) = (\<lambda>a n b. the (port_erase flash 0 a n b))"
  by (simp_all add: sfud_dev_of_def nor_flash0_def)

lemma sfud_mem_ready:
  assumes "nor_chip v flash" "sfud_started flash" "page_mode flash" "length (sfud_mem v flash b) = unat (capacity (chip flash))"
  shows "sfud_ready v flash b" "sfud_mem v flash b = cells v b"
proof -
  have "unat (capacity (chip flash)) \<noteq> 0" using sfud_startedD(2)[OF assms(2)] by (auto simp: unat_eq_0)
  then have "sfud_ready v flash b \<and> sfud_mem v flash b = cells v b"
    using assms by (cases "chip_in_step v flash b") (simp_all add: sfud_mem_def sfud_ready_def)
  then show "sfud_ready v flash b" "sfud_mem v flash b = cells v b" by blast+
qed

lemma ready_sfud_mem: "sfud_ready v flash b \<Longrightarrow> sfud_mem v flash b = cells v b"
  by (simp add: sfud_mem_def sfud_ready_def)

lemma sfud_nor_dev:
  assumes c: "nor_chip v flash" "sfud_started flash" "page_mode flash"
  shows "nor_dev (sfud_mem v flash) (sfud_dev_of flash)"
  unfolding nor_dev_def
proof (intro conjI allI impI)
  fix a n :: u32 and b assume l: "length (sfud_mem v flash b) = unat (dev_len (sfud_dev_of flash))"
    and f: "unat a + unat n \<le> unat (dev_len (sfud_dev_of flash))"
  note m = sfud_mem_ready[OF c l[simplified]]
  from port_read_law[OF m(1), of a n] show "case op_read (sfud_dev_of flash) a n b of (r, buf, h') \<Rightarrow> r = int (unat n) \<and>
      buf = window (unat a) (unat n) (sfud_mem v flash b) \<and> sfud_mem v flash h' = sfud_mem v flash b"
    using l f m(2) by (auto simp: ready_sfud_mem)
next
  fix a :: u32 and bs :: "u8 list" and b assume l: "length (sfud_mem v flash b) = unat (dev_len (sfud_dev_of flash))"
    and f: "unat a + length bs \<le> unat (dev_len (sfud_dev_of flash))"
  note m = sfud_mem_ready[OF c l[simplified]]
  from port_write_law[OF m(1), of a bs] show "case op_write (sfud_dev_of flash) a bs b of (r, h') \<Rightarrow>
      write_effect (unat a) bs r (sfud_mem v flash b) (sfud_mem v flash h')"
    using l f m(2) by (auto simp: ready_sfud_mem)
next
  fix a n :: u32 and b assume l: "length (sfud_mem v flash b) = unat (dev_len (sfud_dev_of flash))"
    and f: "unat a + unat n \<le> unat (dev_len (sfud_dev_of flash))" "unat (dev_blk_size (sfud_dev_of flash)) dvd unat a"
      "unat (dev_blk_size (sfud_dev_of flash)) dvd unat n"
  note m = sfud_mem_ready[OF c l[simplified]]
  from port_erase_law[OF m(1), of a n] show "case op_erase (sfud_dev_of flash) a n b of (r, h') \<Rightarrow>
      erase_effect (unat a) (unat n) r (sfud_mem v flash b) (sfud_mem v flash h')"
    using l f m(2) by (auto simp: ready_sfud_mem)
qed

text \<open>
  C2: With a chip that behaves as documented and a started driver in page mode, the device that
  the hook of the port builds is a flash memory as the flash abstraction layer expects it: reads
  answer the memory, programs clear bits, erases set whole units, errors leave the rest alone,
  and its size and erase unit are those of the chip.
\<close>

theorem sfud_provides_flash:
  assumes "nor_chip v flash" "sfud_started flash" "page_mode flash"
    and "sfud_get_device flash_table index = Some flash"
  shows "\<exists>dev. port_init flash_table index = (0, Some dev) \<and> nor_dev (sfud_mem v flash) dev \<and>
    dev_len dev = capacity (chip flash) \<and> dev_blk_size dev = erase_gran (chip flash)"
  using assms(4) sfud_nor_dev[OF assms(1-3)] by (simp add: port_init_def sfud_dev_of_def)

section \<open>Erases and writes of any range\<close>

text \<open>
  An erase of any range, of whole units or not, erases exactly the erase units that the
  range touches, with whatever erasers the driver chooses; when it fails nothing outside of them
  has changed.
\<close>

lemma sfud_erase_whole_units:
  assumes "nor_chip v flash" "sfud_started flash" "chip_in_step v flash b" "length (cells v b) = unat (capacity (chip flash))"
    and "unat a + unat n \<le> unat (capacity (chip flash))" "0 < unat n"
    and "units (unat (erase_gran (chip flash))) (unat a) (unat n) lo hi"
  shows "\<exists>e b'. sfud_erase flash a n b = Some (e, b') \<and> chip_in_step v flash b' \<and>
    (if e = SFUD_SUCCESS then cells v b' = nor_erase lo (hi - lo) (cells v b)
     else same_outside lo (hi - lo) (cells v b) (cells v b'))"
  using sfud_erase_ok[OF assms(1-4) _ assms(6,7)] assms(4,5) by (fastforce simp: wiped_def)

text \<open>
  C36: In auto address increment mode a write of any length at any address, odd ones included,
  programs exactly its data. What it sends beside write enable, write disable and read status is a
  single byte at an odd first address, the words at the even addresses with the address on the
  first, and a single byte at an even last address: no command carries a byte that is not of the
  data. On an error only bytes of the range have changed.
\<close>

theorem aai_write_exact:
  assumes "nor_chip v flash" "sfud_started flash" "chip_in_step v flash b" "length (cells v b) = unat (capacity (chip flash))"
    and "write_mode (chip flash) AND SFUD_WM_AAI \<noteq> 0" "write_mode (chip flash) AND SFUD_WM_PAGE_256B = 0"
    and "unat a + length data \<le> unat (capacity (chip flash))" "data \<noteq> []"
  shows "\<exists>e b'. sfud_write flash a data b = Some (e, b') \<and> chip_in_step v flash b' \<and>
    (if e = SFUD_SUCCESS then cells v b' = nor_write (unat a) data (cells v b)
     else partly_written (unat a) data (cells v b) (cells v b')) \<and>
    (\<forall>I. bus_inv flash I (aai_cmd flash (unat a) data) \<longrightarrow> I b \<longrightarrow> I b')"
proof -
  obtain e b' where w: "sfud_write flash a data b = Some (e, b')" "chip_in_step v flash b'"
    "if e = SFUD_SUCCESS then cells v b' = nor_write (unat a) data (cells v b)
     else partly_written (unat a) data (cells v b) (cells v b')"
    using sfud_write_ok[OF assms(1,2) _ assms(3,4)] assms(4-8) by (fastforce simp: wrote_def writes_data_def)
  have s: "sfud_write flash a data b = aai_write flash a (of_nat (length data)) data b"
    using assms(5,6) by (simp add: sfud_write_def Let_def)
  have "unat a + length data < 2 ^ 32" using assms(7) unat_lt32[of "capacity (chip flash)"] by simp
  then have "I b'" if "bus_inv flash I (aai_cmd flash (unat a) data)" "I b" for I
    using aai_write_bus[OF that(1) sfud_startedD(1)[OF assms(2)] that(2) _ assms(8)] w(1) s by (auto simp: returns_def)
  then show ?thesis using w by blast
qed

lemma nor_write_erased:
  assumes "lo \<le> a" "a + length d \<le> lo + n" "lo + n \<le> length m"
  shows "nor_write a d (nor_erase lo n m) = blit (nor_erase lo n m) a d"
proof (rule nth_equalityI)
  show "length (nor_write a d (nor_erase lo n m)) = length (blit (nor_erase lo n m) a d)" using assms by simp
  have "(0xFF :: u8) = -1" by simp
  then have FF: "x AND 0xFF = x" for x :: u8 by (simp only: and.right_neutral)
  fix i assume "i < length (nor_write a d (nor_erase lo n m))"
  then show "nor_write a d (nor_erase lo n m) ! i = blit (nor_erase lo n m) a d ! i"
    using assms by (auto simp: nth_nor_write nth_nor_erase nth_blit FF)
qed

text \<open>
  C28: Erasing and writing a range stores the data whatever was there before; outside of the
  erase units that the range touches nothing changes, even when it fails.
\<close>

theorem sfud_erase_write_stores:
  assumes "nor_chip v flash" "sfud_started flash" "writes_data flash" "chip_in_step v flash b"
    and "length (cells v b) = unat (capacity (chip flash))" "unat a + length data \<le> unat (capacity (chip flash))" "data \<noteq> []"
    and "units (unat (erase_gran (chip flash))) (unat a) (length data) lo hi"
  shows "\<exists>e b'. sfud_erase_write flash a data b = Some (e, b') \<and> chip_in_step v flash b' \<and>
    same_outside lo (hi - lo) (cells v b) (cells v b') \<and>
    (e = SFUD_SUCCESS \<longrightarrow> cells v b' = blit (nor_erase lo (hi - lo) (cells v b)) (unat a) data)"
proof -
  let ?n = "of_nat (length data) :: u32"
  have n: "unat ?n = length data" using assms(6) unat_lt32[of "capacity (chip flash)"] by (intro unat_of_nat_lt) simp
  have hi: "hi \<le> length (cells v b)"
  proof (rule ccontr)
    assume "\<not> ?thesis"
    moreover have "hi = unat (capacity (chip flash))" if "\<not> hi \<le> unat (capacity (chip flash))"
      using that assms(6,8) sfud_startedD(6)[OF assms(2)]
      by (intro unit_window[of "unat (erase_gran (chip flash))"]) (auto simp: units_def)
    ultimately show False using assms(5) by simp
  qed
  have ul: "lo \<le> unat a" "unat a + length data \<le> hi" using assms(8) by (simp_all add: units_def)
  obtain e1 b1 where 1: "sfud_erase flash a ?n b = Some (e1, b1)" "wiped v lo (hi - lo) e1 b b1" "chip_in_step v flash b1"
    using sfud_erase_ok[OF assms(1,2,4,5), of a ?n lo hi] n assms(5-8) by auto
  have l1: "length (cells v b1) = length (cells v b)" using wiped_length[OF 1(2)] hi ul by simp
  show ?thesis
  proof (cases "e1 = SFUD_SUCCESS")
    case False
    then show ?thesis using 1 by (simp add: sfud_erase_write_def wiped_def)
  next
    case True
    have c1: "cells v b1 = nor_erase lo (hi - lo) (cells v b)" using 1(2) True by (simp add: wiped_def)
    obtain e2 b2 where 2: "sfud_write flash a data b1 = Some (e2, b2)" "wrote v (unat a) data e2 b1 b2" "chip_in_step v flash b2"
      using sfud_write_ok[OF assms(1,2,3) 1(3), of a data] l1 assms(5-7) by auto
    have "same_outside (unat a) (length data) (cells v b1) (cells v b2)"
      using 2(2) l1 assms(5,6) by (auto simp: wrote_def partly_written_def same_outside_write split: if_splits)
    then have "same_outside lo (hi - lo) (cells v b1) (cells v b2)" by (rule same_outside_wider) (use ul in simp_all)
    moreover have "same_outside lo (hi - lo) (cells v b) (cells v b1)"
      unfolding c1 by (rule same_outside_erase) (use hi ul in simp)
    moreover have "cells v b2 = blit (nor_erase lo (hi - lo) (cells v b)) (unat a) data" if "e2 = SFUD_SUCCESS"
    proof -
      have "cells v b2 = nor_write (unat a) data (nor_erase lo (hi - lo) (cells v b))" using 2(2) that c1 by (simp add: wrote_def)
      also have "\<dots> = blit (nor_erase lo (hi - lo) (cells v b)) (unat a) data"
        by (rule nor_write_erased) (use hi ul in simp_all)
      finally show ?thesis .
    qed
    ultimately show ?thesis
      using 1(1) True 2(1,3) same_outside_trans by (auto simp: sfud_erase_write_def)
  qed
qed

section \<open>The lock of the bus\<close>

text \<open>
  C37: The driver takes the lock of the bus a second time while it holds it: with a lock that is
  not granted twice a write at an odd address in auto address increment mode never returns.
\<close>

theorem aai_odd_address_deadlocks:
  assumes "spi_lock (spi flash) = Some lock" "lock b = Some b1" "lock b1 = None"
    and "a mod 2 \<noteq> 0" "unat a + unat n \<le> unat (capacity (chip flash))" "0 < unat n"
  shows "aai_write flash a n data b = None"
proof (cases "init_ok flash")
  case True
  have r: "\<not> a + n > capacity (chip flash)" "\<not> a + 1 > capacity (chip flash)"
    using in_range_check[of a "unat n" "capacity (chip flash)" n] in_range_check[of a 1 "capacity (chip flash)" 1] assms(5,6) by simp_all
  from r(2) have "page256_or_1_byte_write flash a 1 1 data b1 = None"
    using True assms(1,3) by (simp add: page256_or_1_byte_write_def lock_spi_def)
  then show ?thesis using True r(1) assms(1,2,4) by (simp add: aai_write_def lock_spi_def)
qed (simp add: aai_write_def)

end
