(* ===== verification/Serial_Storage.thy ===== *)
theory Serial_Storage
  imports Sfud_Port Fota_Live
begin

text \<open>
  The storage stack put together: serial flash driver, flash abstraction layer and firmware
  update. Partitions on a serial NOR chip keep what is written to them, and one run of the
  update installs a new image on such a chip.
\<close>

text \<open>
  The flash abstraction layer, initialised, with the serial device as its only one and a
  partition table that lies on it in whole erase units; the chip in step with the driver.
\<close>

definition serial_fal :: "'b chip_view \<Rightarrow> 'b sfud_flash \<Rightarrow> fal_partition list \<Rightarrow> 'b fal \<Rightarrow> bool" where
  "serial_fal v serial ps f \<longleftrightarrow> nor_chip v serial \<and> sfud_started serial \<and> page_mode serial \<and>
     chip_in_step v serial (hardware f) \<and> length (cells v (hardware f)) = unat (capacity (chip serial)) \<and>
     device_table f = [sfud_dev_of serial] \<and> flash_init_ok f \<and> part_init_ok f \<and>
     partition_table f = Some ps \<and> partition_table_len f = length ps \<and>
     parts_ok (unat (erase_gran (chip serial))) ps \<and>
     (\<forall>p \<in> set ps. part_flash p = ''norflash0'' \<and>
        unat (part_offset p) + unat (part_len p) \<le> unat (capacity (chip serial)) \<and>
        unat (erase_gran (chip serial)) dvd unat (part_offset p))"

lemma serial_fal_ok:
  assumes "serial_fal v serial ps f" "p \<in> set ps"
  shows "fal_ok (sfud_mem v serial) (unat (erase_gran (chip serial))) p f"
proof -
  note d = assms(1)[unfolded serial_fal_def]
  have "nor_dev (sfud_mem v serial) (sfud_dev_of serial)" using d sfud_nor_dev by blast
  moreover have "device_find_loop (part_flash p) (device_table f) = Some (sfud_dev_of serial)"
    using d assms(2) by (simp add: strncmp_eq_def)
  moreover have "sfud_mem v serial (hardware f) = cells v (hardware f)" using d by (simp add: sfud_mem_def)
  ultimately show ?thesis using d assms(2) unfolding fal_ok_def by auto
qed

lemma serial_env:
  "serial_fal v serial ps f \<Longrightarrow> env (sfud_mem v serial) (unat (erase_gran (chip serial))) [sfud_dev_of serial] ps f"
  using serial_fal_ok by (fastforce simp: env_def serial_fal_def)

text \<open>What a partition holds, in the cells of the chip.\<close>

definition part_cells :: "'b chip_view \<Rightarrow> fal_partition \<Rightarrow> 'b fal \<Rightarrow> u8 list" where
  "part_cells v p f = window (unat (part_offset p)) (unat (part_len p)) (cells v (hardware f))"

lemma fal_content_cells:
  assumes "fal_ok (sfud_mem v serial) blk p f" "0 < unat (part_len p)"
  shows "fal_content (sfud_mem v serial) p f = part_cells v p f"
proof -
  have "length (fal_content (sfud_mem v serial) p f) = unat (part_len p)" by (rule length_fal_content[OF assms(1)])
  then have "sfud_mem v serial (hardware f) \<noteq> []" using assms(2) by (auto simp: fal_content_def window_def)
  then show ?thesis by (auto simp: fal_content_def part_cells_def sfud_mem_def split: if_splits)
qed

lemma serial_reliable:
  assumes "nor_chip v serial" "sfud_started serial" "page_mode serial" "faultless serial"
  shows "reliable (sfud_mem v serial) [sfud_dev_of serial]"
  unfolding reliable_def
proof (intro ballI conjI allI impI)
  fix dev :: "'a fal_flash_dev" and a :: u32 and bs :: "u8 list" and b
  assume dev: "dev \<in> set [sfud_dev_of serial]" and h: "length (sfud_mem v serial b) = unat (dev_len dev)"
    "unat a + length bs \<le> unat (dev_len dev)"
  then have l: "length (sfud_mem v serial b) = unat (capacity (chip serial))" by simp
  note m = sfud_mem_ready[OF assms(1-3) l]
  from port_write_law[OF m(1), of a bs] show "0 \<le> fst (op_write dev a bs b)" using dev h m(2) assms(4) by auto
next
  fix dev :: "'a fal_flash_dev" and a n :: u32 and b
  assume dev: "dev \<in> set [sfud_dev_of serial]" and h: "length (sfud_mem v serial b) = unat (dev_len dev)"
    "unat a + unat n \<le> unat (dev_len dev)" "unat (dev_blk_size dev) dvd unat a" "unat (dev_blk_size dev) dvd unat n"
  then have l: "length (sfud_mem v serial b) = unat (capacity (chip serial))" by simp
  note m = sfud_mem_ready[OF assms(1-3) l]
  from port_erase_law[OF m(1), of a n] show "0 \<le> fst (op_erase dev a n b)" using dev h m(2) assms(4) by auto
qed

text \<open>
  C29: Data written to an erased range of a partition on the serial flash lies in the cells of
  the chip at its place, the rest of the partition is as before, and a read gives it back.
\<close>

theorem serial_partition_keeps_data:
  assumes "serial_fal v serial ps f" "p \<in> set ps" "unat a + length bs \<le> unat (part_len p)" "bs \<noteq> []"
    and "\<forall>j < length bs. part_cells v p f ! (unat a + j) = 0xFF"
    and "fal_partition_write p a bs f = Some (r, f')" "r \<ge> 0"
  shows "part_cells v p f' = blit (part_cells v p f) (unat a) bs \<and>
    (\<exists>r' f''. fal_partition_read p a (of_nat (length bs)) f' = Some (r', bs, f'') \<and> r' = int (length bs))"
proof -
  let ?mem = "sfud_mem v serial" and ?blk = "unat (erase_gran (chip serial))"
  have ok: "fal_ok ?mem ?blk p f" by (rule serial_fal_ok[OF assms(1,2)])
  have pos: "0 < unat (part_len p)" using assms(3,4) by (cases bs) auto
  have l: "length (fal_content ?mem p f) = unat (part_len p)" by (rule length_fal_content[OF ok])
  have "fal_ok ?mem ?blk p f'"
    using fal.write_law[OF ok, of a bs] assms(3,6) l by auto
  then have c: "fal_content ?mem p f = part_cells v p f" "fal_content ?mem p f' = part_cells v p f'"
    using fal_content_cells[OF ok pos] fal_content_cells[OF _ pos] by blast+
  show ?thesis
    using fal.write_read[OF ok, of a bs r f'] assms(3,5-7) l unfolding c by simp
qed

text \<open>
  C1: On a serial chip without faults one run of the firmware update, through the flash
  abstraction layer and the serial flash driver, installs a new plain image in the cells of the
  application partition, and the check of the start accepts it there.
\<close>

theorem fota_update_on_serial_flash:
  assumes s: "serial_fal v serial ps (flash s)" and rel: "faultless serial"
    and p: "named ps (FM_PART cfg) = Some p" and q: "named ps (APP_PART cfg) = Some q" and ne: "APP_PART cfg \<noteq> FM_PART cfg"
    and rb: "FOTA_ROLLBACK cfg \<Longrightarrow> (\<exists>r. named ps (ROLLBACK_PART cfg) = Some r) \<and>
      ROLLBACK_PART cfg \<noteq> APP_PART cfg \<and> ROLLBACK_PART cfg \<noteq> FM_PART cfg"
    and m: "malloc_ok cfg 0" and c: "part_cells v p (flash s) = c" and new: "new_plain_image cfg ps q c"
    and len: "4096 \<le> unat (part_len p)" "unat (erase_gran (chip serial)) dvd 4096"
  shows "\<exists>s'. fota_update cfg s = Some s' \<and>
    part_cells v q (flash s') =
      filled (app_bytes (head_of c) (window sizeof_head (blocks (unat (hd_com_size (head_of c)))) c)) (unat (part_len q)) \<and>
    app_ok (part_cells v q (flash s')) \<and> image_ok ps (part_cells v p (flash s'))"
proof -
  let ?mem = "sfud_mem v serial" and ?blk = "unat (erase_gran (chip serial))"
  note e = serial_env[OF s]
  note d = s[unfolded serial_fal_def]
  have ps: "p \<in> set ps" "q \<in> set ps" using named_in[OF p] named_in[OF q] by auto
  have c': "fal_content ?mem p (flash s) = c"
    using fal_content_cells[OF serial_fal_ok[OF s ps(1)]] len(1) c by simp
  have q0: "0 < unat (part_len q)" using new by (auto simp: new_plain_image_def Let_def)
  have "reliable ?mem [sfud_dev_of serial]" using d rel serial_reliable by blast
  from fota_update_spec[OF e this p q ne rb m c' new len] obtain s' where s': "fota_update cfg s = Some s'"
    "env ?mem ?blk [sfud_dev_of serial] ps (flash s')"
    "fal_content ?mem q (flash s') =
      filled (app_bytes (head_of c) (window sizeof_head (blocks (unat (hd_com_size (head_of c)))) c)) (unat (part_len q))"
    "app_ok (fal_content ?mem q (flash s'))" "image_ok ps (fal_content ?mem p (flash s'))" by blast
  have "fal_content ?mem q (flash s') = part_cells v q (flash s')" "fal_content ?mem p (flash s') = part_cells v p (flash s')"
    using fal_content_cells[OF env_part(1)[OF s'(2)]] ps q0 len(1) by simp_all
  with s' show ?thesis by auto
qed

end
