(* ===== verification/Sfud_Ex.thy ===== *)
theory Sfud_Ex
  imports Sfud_Start Sfud_Port Serial_Storage Fota_Ex
begin

text \<open>
  A chip that can be run: a serial NOR flash with erase units of 8 bytes behind a bus that does
  not fail. It behaves as \<open>nor_chip\<close> says, and the concrete instances of the properties of the
  driver are evaluated on it.
\<close>

section \<open>A chip\<close>

record sim =
  s_mem :: "u8 list"
  s_wel :: bool
  s_busy :: nat
  s_wide :: bool
  s_aai :: "nat option"

definition sim_status :: "sim \<Rightarrow> u8" where
  "sim_status s = (if s_busy s \<noteq> 0 then if s_wel s then 3 else 1 else if s_wel s then 2 else 0)"

definition sim_program :: "nat \<Rightarrow> u8 list \<Rightarrow> sim \<Rightarrow> sim" where
  "sim_program a d s = s\<lparr>s_mem := nor_write a d (s_mem s), s_busy := 2\<rparr>"

definition sim_erase :: "nat \<Rightarrow> nat \<Rightarrow> sim \<Rightarrow> sim" where
  "sim_erase a n s = s\<lparr>s_mem := nor_erase a n (s_mem s), s_busy := 3\<rparr>"

definition sim_step :: "u8 \<Rightarrow> u8 list \<Rightarrow> sim \<Rightarrow> sim" where
  "sim_step c rest s =
     (let k = (if s_wide s then 4 else 3); a = be_value (take k rest); d = drop k rest in
      if s_busy s \<noteq> 0 then s
      else if c = 0x04 then s\<lparr>s_wel := False, s_aai := None\<rparr>
      else case s_aai s of
        Some p \<Rightarrow> if c = 0xAD \<and> length rest = 2 then (sim_program p rest s)\<lparr>s_aai := Some (p + 2)\<rparr> else s
      | None \<Rightarrow>
          if c = 0x06 then s\<lparr>s_wel := True\<rparr>
          else if \<not> s_wel s then s
          else if c = 0x02 then sim_program a d s
          else if c = 0xAD then (sim_program a d s)\<lparr>s_aai := Some (a + 2)\<rparr>
          else if c = 0x20 then sim_erase (a - a mod 8) 8 s
          else if c = 0xC7 then sim_erase 0 (length (s_mem s)) s
          else s)"

definition sim_answer :: "u8 \<Rightarrow> u8 list \<Rightarrow> nat \<Rightarrow> sim \<Rightarrow> u8 list" where
  "sim_answer c rest n s =
     (if c = 0x05 then replicate n (sim_status s)
      else if c = 0x03 then window (be_value rest) n (s_mem s)
      else if c = 0x9F then take n [0xEF, 0x40, 0x13]
      else replicate n 0xFF)"

definition sim_wr :: "u8 list \<Rightarrow> nat \<Rightarrow> sim \<Rightarrow> sfud_err \<times> u8 list \<times> sim" where
  "sim_wr cmd n s = (SFUD_SUCCESS, sim_answer (hd cmd) (tl cmd) n s,
     if hd cmd = 0x05 then s\<lparr>s_busy := s_busy s - 1\<rparr> else sim_step (hd cmd) (tl cmd) s)"

definition sim_view :: "sim chip_view" where
  "sim_view = \<lparr>cells = s_mem, latch = s_wel, pending = s_busy, wide = s_wide, aai = s_aai\<rparr>"

lemma sim_view_simps [simp]:
  "cells sim_view = s_mem" "latch sim_view = s_wel" "pending sim_view = s_busy" "wide sim_view = s_wide" "aai sim_view = s_aai"
  by (simp_all add: sim_view_def)

text \<open>Devices on it: with 256-byte pages, and with auto address increment.\<close>

definition sim_spi :: "sim sfud_spi" where
  "sim_spi = \<lparr>spi_wr = sim_wr, qspi_read = (\<lambda>a fmt n s. (SFUD_SUCCESS, window (unat a) n (s_mem s), s)),
     spi_lock = None, spi_unlock = None\<rparr>"

definition no_sfdp :: sfud_sfdp where
  "no_sfdp = \<lparr>available = False, major_rev = 0, minor_rev = 0, sfdp_write_gran = 0, erase_4k = False, erase_4k_cmd = 0,
     sr_is_non_vola = False, vola_sr_we_cmd = 0, addr_3_byte = False, addr_4_byte = False, sfdp_capacity = 0,
     eraser = replicate 4 (0, 0)\<rparr>"

definition sim_flash :: "u32 \<Rightarrow> u16 \<Rightarrow> sim sfud_flash" where
  "sim_flash cap wm = \<lparr>flash_name = ''SIM'', flash_index = 0,
     chip = \<lparr>chip_name = None, mf_id = 0, type_id = 0, capacity_id = 0, capacity = cap, write_mode = wm,
             erase_gran = 8, erase_gran_cmd = 0x20\<rparr>,
     spi = sim_spi, init_ok = True, addr_in_4_byte = False, retry_delay = None, retry_times = 10,
     read_cmd_format = \<lparr>instruction = 0x03, instruction_lines = 1, address_size = 24, address_lines = 1,
        alternate_bytes_lines = 0, dummy_cycles = 0, data_lines = 1\<rparr>,
     sfdp = no_sfdp\<rparr>"

definition sim_of :: "u8 list \<Rightarrow> sim" where
  "sim_of m = \<lparr>s_mem = m, s_wel = False, s_busy = 0, s_wide = False, s_aai = None\<rparr>"

definition sim0 :: sim where
  "sim0 = sim_of (map of_nat [0..<32])"

lemma sim_flash_simps [simp]:
  "chip (sim_flash cap wm) = \<lparr>chip_name = None, mf_id = 0, type_id = 0, capacity_id = 0, capacity = cap, write_mode = wm,
             erase_gran = 8, erase_gran_cmd = 0x20\<rparr>"
  "spi (sim_flash cap wm) = sim_spi" "init_ok (sim_flash cap wm)" "\<not> addr_in_4_byte (sim_flash cap wm)" "retry_delay (sim_flash cap wm) = None"
  "retry_times (sim_flash cap wm) = 10" "instruction (read_cmd_format (sim_flash cap wm)) = 0x03" "sfdp (sim_flash cap wm) = no_sfdp"
  by (simp_all add: sim_flash_def)

lemma sim_started:
  assumes "0 < cap" "cap \<le> 0x1000000" "8 dvd unat cap"
  shows "sfud_started (sim_flash cap wm)"
proof -
  have "unat cap < 2 ^ 31" using assms(2) by (simp add: word_le_nat_alt)
  then show ?thesis using assms by (simp add: sfud_started_def erasers_def no_sfdp_def)
qed

lemma sim_status_law: "status_law sim_view sim_wr"
  by (auto simp: status_law_def sim_wr_def sim_answer_def sim_status_def still_def bit_numeral_rec) 

lemma sim_enable_law: "enable_law sim_view sim_wr"
  by (auto simp: enable_law_def sim_wr_def sim_step_def still_def ready_def Let_def)

lemma sim_read_law: "read_law sim_view sim_wr"
  by (auto simp: read_law_def sim_wr_def sim_answer_def sim_step_def still_def ready_def Let_def)

lemma sim_program_law: "program_law sim_view 10 pg sim_wr"
  by (auto simp: program_law_def sim_wr_def sim_step_def ready_def addresses_def program_effect_def sim_program_def Let_def)

lemma sim_aai_law: "aai_law sim_view 10 sim_wr"
  by (auto simp: aai_law_def sim_wr_def sim_step_def ready_def addresses_def program_effect_def sim_program_def Let_def)

lemma sim_erase_law: "erase_law sim_view 10 sim_wr 8 0x20"
  by (auto simp: erase_law_def sim_wr_def sim_step_def ready_def addresses_def erased_def sim_erase_def Let_def)

lemma sim_chip_erase_law: "chip_erase_law sim_view 10 sim_wr"
  by (auto simp: chip_erase_law_def sim_wr_def sim_step_def ready_def erased_def sim_erase_def Let_def)

lemma sim_port_law: "port_law sim_view (sim_flash cap wm)"
  by (auto simp: port_law_def lock_spi_def unlock_spi_def sim_spi_def still_def)

lemma sim_nor_chip: "wm AND SFUD_WM_DUAL_BUFFER = 0 \<Longrightarrow> nor_chip sim_view (sim_flash cap wm)"
  using sim_status_law sim_enable_law sim_read_law sim_program_law sim_aai_law sim_erase_law sim_chip_erase_law sim_port_law
  by (simp add: nor_chip_def sim_spi_def erasers_def no_sfdp_def qspi_law_def)

lemma sim_of_in_step: "chip_in_step sim_view (sim_flash cap wm) (sim_of m)" "s_mem (sim_of m) = m"
  by (simp_all add: chip_in_step_def ready_def sim_of_def)

lemma sim0_in_step: "chip_in_step sim_view (sim_flash cap wm) sim0" "length (s_mem sim0) = 32"
  by (simp_all add: sim0_def sim_of_in_step)

lemma sim_faultless: "faultless (sim_flash cap wm)"
  by (simp add: faultless_def sim_spi_def sim_wr_def)

section \<open>Instances\<close>

abbreviation "pages \<equiv> sim_flash 32 SFUD_WM_PAGE_256B"
abbreviation "words \<equiv> sim_flash 32 (SFUD_WM_BYTE OR SFUD_WM_AAI)"

lemma pages_ok: "nor_chip sim_view pages" "sfud_started pages" "page_mode pages" "writes_data pages" "cells sim_view sim0 = s_mem sim0"
  by (simp_all add: sim_nor_chip sim_started page_mode_def writes_data_def sfud_modes)

lemma words_ok: "nor_chip sim_view words" "sfud_started words"
  by (simp_all add: sim_nor_chip sim_started sfud_modes)

theorem sfud_provides_flash_witness:
  "\<exists>dev. port_init [pages] 0 = (0, Some dev) \<and> nor_dev (sfud_mem sim_view pages) dev"
  using sfud_provides_flash[OF pages_ok(1-3), of "[pages]" 0]
  by (simp add: sfud_get_device_def sfud_get_device_num_def) blast

theorem aai_write_exact_witness:
  "\<exists>e b'. sfud_write words 5 [1, 2, 3] sim0 = Some (e, b') \<and>
    (e = SFUD_SUCCESS \<longrightarrow> s_mem b' = nor_write 5 [1, 2, 3] (s_mem sim0))"
  using aai_write_exact[OF words_ok sim0_in_step(1), of 5 "[1, 2, 3]"] sim0_in_step(2) by (force simp: sfud_modes)

theorem sfud_erase_write_stores_witness:
  "\<exists>e b'. sfud_erase_write pages 10 [1, 2, 3] sim0 = Some (e, b') \<and>
    (e = SFUD_SUCCESS \<longrightarrow> s_mem b' = blit (nor_erase 8 8 (s_mem sim0)) 10 [1, 2, 3])"
proof -
  have "units 8 10 (Suc (Suc (Suc 0))) 8 16" by (simp add: units_def)
  then have "\<exists>e b'. sfud_erase_write pages 10 [1, 2, 3] sim0 = Some (e, b') \<and> chip_in_step sim_view pages b' \<and>
      same_outside 8 (16 - 8) (cells sim_view sim0) (cells sim_view b') \<and>
      (e = SFUD_SUCCESS \<longrightarrow> cells sim_view b' = blit (nor_erase 8 (16 - 8) (cells sim_view sim0)) (unat (10 :: u32)) [1, 2, 3])"
    by (intro sfud_erase_write_stores[OF pages_ok(1,2,4) sim0_in_step(1)]) (simp_all add: sim0_in_step(2))
  then show ?thesis by (elim exE conjE) (intro exI conjI, assumption, simp)
qed

text \<open>A lock that is not granted twice: the state of the bus counts it.\<close>

definition count_lock :: "sim \<Rightarrow> sim option" where
  "count_lock s = (if s_busy s = 0 then Some (s\<lparr>s_busy := 1\<rparr>) else None)"

definition locked_words :: "sim sfud_flash" where
  "locked_words = words\<lparr>spi := sim_spi\<lparr>spi_lock := Some count_lock\<rparr>\<rparr>"

theorem aai_odd_address_deadlocks_witness: "aai_write locked_words 5 3 [1, 2, 3] sim0 = None"
proof -
  have "spi_lock (spi locked_words) = Some count_lock" "count_lock sim0 = Some (sim0\<lparr>s_busy := 1\<rparr>)" "count_lock (sim0\<lparr>s_busy := 1\<rparr>) = None"
    "(5 :: u32) mod 2 \<noteq> 0" "unat (5 :: u32) + unat (3 :: u32) \<le> unat (capacity (chip locked_words))" "0 < unat (3 :: u32)"
    by (simp_all add: locked_words_def count_lock_def sim0_def sim_of_def fun_eq_iff)
  from aai_odd_address_deadlocks[OF this] show ?thesis .
qed

theorem page_write_any_bus_witness:
  "\<exists>e b'. page256_or_1_byte_write pages 10 3 256 [1, 2, 3] sim0 = Some (e, b')"
proof -
  have "bus_inv pages (\<lambda>_. True) (\<lambda>cmd. hd cmd \<in> {2, 4, 5, 6})"
    by (simp add: bus_inv_def sim_spi_def sim_wr_def sim_answer_def lock_spi_def) 
  from page_write_any_bus[OF this, of 256 10 "[1, 2, 3]"] show ?thesis
    by (force simp: control_cmd_def page_cmd_def SFUD_CMD_WRITE_ENABLE_def SFUD_CMD_WRITE_DISABLE_def
        SFUD_CMD_READ_STATUS_REGISTER_def SFUD_CMD_PAGE_PROGRAM_def)
qed

theorem erase_any_bus_witness:
  "\<exists>e b'. sfud_erase pages 10 3 sim0 = Some (e, b')"
proof -
  have "bus_inv pages (\<lambda>_. True) (\<lambda>cmd. hd cmd \<in> {0x20, 4, 5, 6})"
    by (simp add: bus_inv_def sim_spi_def sim_wr_def sim_answer_def lock_spi_def)
  from erase_any_bus[OF this, of 10 3] show ?thesis using pages_ok(2)
    by (force simp: control_cmd_def erase_cmd_def erasers_def no_sfdp_def SFUD_CMD_WRITE_ENABLE_def SFUD_CMD_WRITE_DISABLE_def
        SFUD_CMD_READ_STATUS_REGISTER_def)
qed

text \<open>
  Starting the driver: the chip answers to the JEDEC id and has no SFDP tables; and a chip of 1 MB
  with the tables, which name pages and erasers of 4, 32 and 64 KB.
\<close>

definition blank_flash :: "(u8 list \<Rightarrow> nat \<Rightarrow> sim \<Rightarrow> sfud_err \<times> u8 list \<times> sim) \<Rightarrow> sim sfud_flash" where
  "blank_flash xfer = (sim_flash 0 0)\<lparr>chip := \<lparr>chip_name = None, mf_id = 0, type_id = 0, capacity_id = 0, capacity = 0,
     write_mode = 0, erase_gran = 0, erase_gran_cmd = 0\<rparr>, spi := sim_spi\<lparr>spi_wr := xfer\<rparr>, init_ok := False\<rparr>"

definition blank_port :: "sim port_init" where
  "blank_port f b = (SFUD_SUCCESS, f, b)"

definition sfdp_bytes :: "u8 list" where
  "sfdp_bytes = [0x53, 0x46, 0x44, 0x50, 0, 1, 0, 0xFF] @ [0, 0, 1, 9, 0x10, 0, 0, 0xFF] @
     [0x05, 0x20, 0, 0, 0xFF, 0xFF, 0x7F, 0] @ replicate 20 0 @ [12, 0x20, 15, 0x52, 16, 0xD8, 0, 0]"

definition sfdp_wr :: "u8 list \<Rightarrow> nat \<Rightarrow> sim \<Rightarrow> sfud_err \<times> u8 list \<times> sim" where
  "sfdp_wr cmd n s = (if hd cmd = 0x5A then (SFUD_SUCCESS, window (be_value (take 3 (tl cmd))) n sfdp_bytes, s) else sim_wr cmd n s)"

definition start :: "(u8 list \<Rightarrow> nat \<Rightarrow> sim \<Rightarrow> sfud_err \<times> u8 list \<times> sim) \<Rightarrow> (sfud_err \<times> sim sfud_flash \<times> sim) option" where
  "start xfer = sfud_device_init blank_port (blank_flash xfer) (sim_of [])"

lemma blank_init:
  "case start sim_wr of None \<Rightarrow> False
   | Some (r, f, b) \<Rightarrow> r = SFUD_SUCCESS \<and> \<not> available (sfdp f) \<and> chip_name (chip f) = Some ''W25Q40BV''"
  by code_simp

lemma sfdp_init:
  "case start sfdp_wr of None \<Rightarrow> False
   | Some (r, f, b) \<Rightarrow> r = SFUD_SUCCESS \<and> available (sfdp f) \<and> capacity (chip f) = 0x100000 \<and> sfdp_write_gran (sfdp f) = 256 \<and>
       eraser (sfdp f) = [(0x1000, 0x20), (0x8000, 0x52), (0x10000, 0xD8), (0, 0)]"
  by code_simp

lemma start_blank: "blank_port (blank_flash xfer) (sim_of []) = (SFUD_SUCCESS, blank_flash xfer, sim_of [])"
    "chip_incomplete (chip (blank_flash xfer))" "no_erasers (blank_flash xfer)"
  by (simp_all add: blank_port_def blank_flash_def chip_incomplete_def no_erasers_def no_sfdp_def)

theorem device_init_starts_witness:
  "(\<exists>flash' b'. start sim_wr = Some (SFUD_SUCCESS, flash', b') \<and> sfud_started flash' \<and> writes_data flash') \<and>
   (\<exists>flash' b'. start sfdp_wr = Some (SFUD_SUCCESS, flash', b') \<and> sfud_started flash' \<and> writes_data flash' \<and>
      available (sfdp flash'))"
proof (rule conjI)
  obtain f b where i: "start sim_wr = Some (SFUD_SUCCESS, f, b)" "\<not> available (sfdp f)" "chip_name (chip f) = Some ''W25Q40BV''"
    using blank_init by (auto split: option.splits)
  from device_init_starts[OF i(1)[unfolded start_def] start_blank] i(2)
  have "table_params f \<and> sfud_started f" by simp
  then show "\<exists>flash' b'. start sim_wr = Some (SFUD_SUCCESS, flash', b') \<and> sfud_started flash' \<and> writes_data flash'"
    using i by (intro exI[of _ f] exI[of _ b]) (auto simp: table_params_def Let_def)
next
  obtain f b where i: "start sfdp_wr = Some (SFUD_SUCCESS, f, b)" "available (sfdp f)" "capacity (chip f) = 0x100000"
    "sfdp_write_gran (sfdp f) = 256" "eraser (sfdp f) = [(0x1000, 0x20), (0x8000, 0x52), (0x10000, 0xD8), (0, 0)]"
    using sfdp_init by (auto split: option.splits)
  have "sfdp_tiles f" using i by (auto simp: sfdp_tiles_def erasers_def)
  with device_init_starts[OF i(1)[unfolded start_def] start_blank] i(2)
  have "sfdp_params f \<and> sfud_started f" by simp
  then show "\<exists>flash' b'. start sfdp_wr = Some (SFUD_SUCCESS, flash', b') \<and> sfud_started flash' \<and> writes_data flash' \<and>
      available (sfdp flash')"
    using i by (intro exI[of _ f] exI[of _ b]) (auto simp: sfdp_params_def)
qed

definition sectors :: "sim sfud_flash" where
  "sectors = pages\<lparr>sfdp := no_sfdp\<lparr>available := True, eraser := [(8, 0x20), (16, 0x52), (0, 0), (0, 0)]\<rparr>\<rparr>"

text \<open>The partitions of \<open>ex_parts\<close> on a serial chip.\<close>

abbreviation "big \<equiv> sim_flash 24576 SFUD_WM_PAGE_256B"

definition serial_ex :: "sim fal" where
  "serial_ex = \<lparr>device_table = [sfud_dev_of big], flash_init_ok = True, partition_table_def = ex_parts, partition_table = Some ex_parts,
     partition_table_len = 3, part_init_ok = True, fal_init_ok = True, hardware = sim_of (ex_image @ replicate 16384 0xFF)\<rparr>"

lemma big_ok: "nor_chip sim_view big" "sfud_started big" "page_mode big" "faultless big"
  by (simp_all add: sim_nor_chip sim_started sim_faultless page_mode_def sfud_modes)

lemma ex_parts_ok8: "parts_ok 8 ex_parts"
  using ex_parts_ok unfolding parts_ok_def by (auto elim!: dvd_trans[rotated])

lemma serial_ex_ok: "serial_fal sim_view big ex_parts serial_ex"
  using ex_parts_ok8 ex_lengths(6) unfolding serial_fal_def
  by (intro conjI big_ok) (simp_all add: serial_ex_def sim_of_in_step, simp_all add: ex_parts_def part_def)

lemma serial_ex_cells:
  "part_cells sim_view (ex_parts ! 0) serial_ex = ex_image" "part_cells sim_view (ex_parts ! 1) serial_ex = replicate 8192 0xFF"
  using ex_lengths(6) by (simp_all add: part_cells_def serial_ex_def sim_of_in_step ex_parts_def part_def window_def)

theorem serial_partition_keeps_data_witness:
  "\<exists>r f'. fal_partition_write (ex_parts ! 1) 5 [1, 2, 3] serial_ex = Some (r, f') \<and>
     part_cells sim_view (ex_parts ! 1) f' = blit (replicate 8192 0xFF) 5 [1, 2, 3]"
proof -
  have p: "ex_parts ! 1 \<in> set ex_parts" "unat (5 :: u32) + length [1, 2, 3 :: u8] \<le> unat (part_len (ex_parts ! 1))"
    by (simp_all add: ex_parts_def part_def)
  have b: "\<forall>j < length [1, 2, 3 :: u8]. part_cells sim_view (ex_parts ! 1) serial_ex ! (unat (5 :: u32) + j) = 0xFF"
    by (simp only: serial_ex_cells) simp
  have m: "length (sfud_mem sim_view big (hardware serial_ex)) = unat (capacity (chip big))"
    using ex_lengths(6) by (simp add: sfud_mem_def serial_ex_def sim_of_in_step)
  have "\<exists>r f'. fal_partition_write (ex_parts ! 1) 5 [1, 2, 3] serial_ex = Some (r, f') \<and> r \<ge> 0"
    using port_write_law[OF sfud_mem_ready(1)[OF big_ok(1-3) m], of 8197 "[1, 2, 3]"] ex_lengths(6) big_ok(4)
    by (auto simp: fal_partition_write_def ex_parts_def part_def serial_ex_def sim_of_in_step fal_flash_device_find_def strncmp_eq_def Let_def)
  then obtain r f' where w: "fal_partition_write (ex_parts ! 1) 5 [1, 2, 3] serial_ex = Some (r, f')" "r \<ge> 0" by blast
  from serial_partition_keeps_data[OF serial_ex_ok p _ b w] w(1) show ?thesis by (auto simp: serial_ex_cells(2)[simplified])
qed

theorem fota_update_on_serial_flash_witness:
  "\<exists>s'. fota_update ex_cfg \<lparr>rbl_head = no_head, crc_tab = crc32_init POLYNOMIAL, flash = serial_ex\<rparr> = Some s' \<and>
     app_ok (part_cells sim_view (ex_parts ! 1) (flash s'))"
proof -
  let ?s = "\<lparr>rbl_head = no_head, crc_tab = crc32_init POLYNOMIAL, flash = serial_ex\<rparr>"
  have s: "serial_fal sim_view big ex_parts (flash ?s)" "part_cells sim_view (ex_parts ! 0) (flash ?s) = ex_image"
    using serial_ex_ok serial_ex_cells by simp_all
  have "named ex_parts (FM_PART ex_cfg) = Some (ex_parts ! 0)" "named ex_parts (APP_PART ex_cfg) = Some (ex_parts ! 1)"
    "APP_PART ex_cfg \<noteq> FM_PART ex_cfg" "malloc_ok ex_cfg 0" "4096 \<le> unat (part_len (ex_parts ! 0))"
    "unat (erase_gran (chip big)) dvd 4096"
    "(\<exists>r. named ex_parts (ROLLBACK_PART ex_cfg) = Some r) \<and> ROLLBACK_PART ex_cfg \<noteq> APP_PART ex_cfg \<and> ROLLBACK_PART ex_cfg \<noteq> FM_PART ex_cfg"
    by (simp_all add: ex_cfg_def ex_named) (simp add: ex_parts_def part_def)
  from fota_update_on_serial_flash[OF s(1) big_ok(4) this(1-3,7,4) s(2) ex_new this(5,6)] show ?thesis by blast
qed

text \<open>
  A range that wraps around passes the bound check of the driver, and the chip is asked for it; an
  empty write at an odd address counts on below zero and leaves the buffer.
\<close>

definition mute :: "sim sfud_flash" where
  "mute = pages\<lparr>spi := sim_spi\<lparr>spi_wr := (\<lambda>cmd n s. (SFUD_SUCCESS, replicate n 0, s))\<rparr>\<rparr>"

lemma sfud_read_wraps: "sfud_read mute 0xFFFFFFF0 16 (sim_of []) = Some (SFUD_SUCCESS, replicate 16 0, sim_of [])"
  by code_simp

lemma aai_empty_write_runs_away: "aai_write words 5 0 [] sim0 = None"
  by code_simp

end
