(* ===== verification/Ymodem.thy ===== *)
theory Ymodem
  imports C_Prelude
begin

text \<open>
  The receiver of the Ymodem-1k protocol (\<^verbatim>\<open>ymodem/ymodem.c\<close>, \<^verbatim>\<open>ymodem.h\<close>). The static variables are a
  record; \<open>file_ptr\<close>, which is null throughout, is left out. What the user of the library implements is a record of
  functions on a state of any type. The receive interrupt hands its blocks to \<open>ymodem_data_recv\<close> while the code
  waits for them, before each look at their number. The value \<open>None\<close> is an access outside an array, a
  string without an end, or a wait that does not end.
\<close>

section \<open>Constants\<close>

definition Y_PROT_FRAME_LEN_RECV :: nat where "Y_PROT_FRAME_LEN_RECV = 1100"
definition Y_MAY_ERRORS :: u8 where "Y_MAY_ERRORS = 10"
definition Y_RECEIVE_TIMEOUT :: u32 where "Y_RECEIVE_TIMEOUT = 3000"
definition Y_IS_PACKET :: u8 where "Y_IS_PACKET = 1"
definition Y_NO_PACKET :: u8 where "Y_NO_PACKET = 0"
definition Y_PACKET_128_SIZE :: nat where "Y_PACKET_128_SIZE = 128"
definition Y_PACKET_1024_SIZE :: nat where "Y_PACKET_1024_SIZE = 1024"
definition Y_PACKET_CRC_SIZE :: nat where "Y_PACKET_CRC_SIZE = 2"
definition Y_PACKET_NUMBER_INDEX :: nat where "Y_PACKET_NUMBER_INDEX = 1"
definition Y_PACKET_NUMBER_COMPLEMENT_INDEX :: nat where "Y_PACKET_NUMBER_COMPLEMENT_INDEX = 2"
definition Y_PACKET_DATA_INDEX :: nat where "Y_PACKET_DATA_INDEX = 3"
definition Y_SOH :: u8 where "Y_SOH = 0x01"
definition Y_STX :: u8 where "Y_STX = 0x02"
definition Y_EOT :: u8 where "Y_EOT = 0x04"
definition Y_ACK :: u8 where "Y_ACK = 0x06"
definition Y_NAK :: u8 where "Y_NAK = 0x15"
definition Y_CAN :: u8 where "Y_CAN = 0x18"
definition Y_C :: u8 where "Y_C = 0x43"

text \<open>\<open>ymodem_status\<close>: the code combines its values with \<open>|=\<close>.\<close>

type_synonym ymodem_status = u8

definition Y_OK :: ymodem_status where "Y_OK = 0"
definition Y_ERROR_CRC :: ymodem_status where "Y_ERROR_CRC = 1"
definition Y_ERROR_NUMBER :: ymodem_status where "Y_ERROR_NUMBER = 2"
definition Y_ERROR_UART :: ymodem_status where "Y_ERROR_UART = 4"
definition Y_ERROR_FLASH :: ymodem_status where "Y_ERROR_FLASH = 6"
definition Y_EOY :: ymodem_status where "Y_EOY = 7"
definition Y_ERROR :: ymodem_status where "Y_ERROR = 0xFF"

section \<open>State and environment\<close>

text \<open>\<open>recv_file_len\<close> is the static \<open>file_len\<close> of \<open>ymodem_handle_packet\<close>.\<close>

record ymodem =
  recv_buf :: "u8 list"
  recv_len :: u32
  ymodem_packet_number :: u8
  ymodem_file_number :: u16
  y_first_packet_received :: u8
  recv_file_len :: u32

text \<open>
  \<open>rx_blocks\<close> are the blocks the interrupt has handed over since the look before. Results the code
  does not use are left out.
\<close>

record 'w y_user =
  y_get_tick :: "'w \<Rightarrow> u32 \<times> 'w"
  rx_blocks :: "'w \<Rightarrow> u8 list list \<times> 'w"
  y_transmit_ch :: "u8 \<Rightarrow> 'w \<Rightarrow> 'w"
  receive_nanme_size_callback :: "u8 list \<Rightarrow> u32 \<Rightarrow> 'w \<Rightarrow> int \<times> 'w"
  receive_file_data_callback :: "u8 list \<Rightarrow> 'w \<Rightarrow> int \<times> 'w"
  receive_file_callback :: "'w \<Rightarrow> 'w"

section \<open>Checksum and numbers in a packet\<close>

definition crc_bit :: "u16 \<Rightarrow> u16" where
  "crc_bit crc = (if crc AND 0x8000 \<noteq> 0 then push_bit 1 crc XOR 0x1021 else push_bit 1 crc)"

primrec ymodem_calc_crc_loop :: "u16 \<Rightarrow> u8 list \<Rightarrow> u16" where
  "ymodem_calc_crc_loop crc [] = crc"
| "ymodem_calc_crc_loop crc (b # data) = ymodem_calc_crc_loop ((crc_bit ^^ 8) (crc XOR push_bit 8 (ucast b))) data"

definition ymodem_calc_crc :: "u8 list \<Rightarrow> u16" where "ymodem_calc_crc data = ymodem_calc_crc_loop 0 data"

text \<open>The length without the bytes \<open>0x1A\<close> at the end.\<close>

fun get_active_length :: "u8 list \<Rightarrow> nat \<Rightarrow> nat option" where
  "get_active_length data 0 = Some 0"
| "get_active_length data (Suc n) = do {
     b \<leftarrow> rd data n;
     if b = 0x1A then get_active_length data n else Some (Suc n) }"

text \<open>The two searches in the first 128 bytes, the value of the digits, and the file length in the first packet.\<close>

fun find_name_end :: "u8 list \<Rightarrow> nat \<Rightarrow> nat \<Rightarrow> (nat \<times> nat) option" where
  "find_name_end data count 0 = Some (count, 0)"
| "find_name_end data count (Suc n) = do {
     b \<leftarrow> rd data count;
     if b = 0 then Some (count + 1, count + 1) else find_name_end data (count + 1) n }"

fun find_digits_end :: "u8 list \<Rightarrow> nat \<Rightarrow> nat \<Rightarrow> nat option" where
  "find_digits_end data count 0 = Some count"
| "find_digits_end data count (Suc n) = do {
     b \<leftarrow> rd data count;
     if b < 0x30 \<or> b > 0x39 then Some count else find_digits_end data (count + 1) n }"

fun digits_value :: "u8 list \<Rightarrow> nat \<Rightarrow> nat \<Rightarrow> u32 \<Rightarrow> u32 option" where
  "digits_value data index 0 len = Some len"
| "digits_value data index (Suc n) len = do {
     b \<leftarrow> rd data index;
     digits_value data (index + 1) n (ucast b - 0x30 + len * 10) }"

definition get_file_len :: "u8 list \<Rightarrow> u32 option" where
  "get_file_len data = do {
     (count, index) \<leftarrow> find_name_end data 0 128;
     if count \<ge> 128 then Some 0xFFFFFFFF
     else do {
       count \<leftarrow> find_digits_end data index (128 - index);
       if count \<ge> 128 then Some 0xFFFFFFFF else digits_value data index (count - index) 0 } }"

text \<open>The string at the start of an array, for \<open>strcpy\<close> into one of \<open>n\<close> bytes.\<close>

definition strcpy_from :: "nat \<Rightarrow> u8 list \<Rightarrow> u8 list option" where
  "strcpy_from n data =
     (let str = takeWhile (\<lambda>b. b \<noteq> 0) data in
      if length str < length data \<and> length str < n then Some str else None)"

section \<open>Receiving\<close>

definition reset_recv_len :: "ymodem \<Rightarrow> ymodem" where "reset_recv_len y = y\<lparr>recv_len := 0\<rparr>"
definition get_recv_len :: "ymodem \<Rightarrow> u32" where "get_recv_len y = recv_len y"

definition ymodem_data_recv :: "u8 list \<Rightarrow> ymodem \<Rightarrow> ymodem option" where
  "ymodem_data_recv data y =
     (let data_len = of_nat (length data);
          at = (if recv_len y + data_len \<ge> of_nat Y_PROT_FRAME_LEN_RECV then 0 else recv_len y) in do {
      buf \<leftarrow> wr_blk (recv_buf y) (unat at) data;
      Some (y\<lparr>recv_buf := buf, recv_len := at + data_len\<rparr>) })"

primrec recv_blocks :: "u8 list list \<Rightarrow> ymodem \<Rightarrow> ymodem option" where
  "recv_blocks [] y = Some y"
| "recv_blocks (b # bs) y = do { y \<leftarrow> ymodem_data_recv b y; recv_blocks bs y }"

text \<open>The wait for a frame, whose length the first byte says; the answer is whether there is one.\<close>

partial_function (option) receive_loop :: "'w y_user \<Rightarrow> u32 \<Rightarrow> u32 \<Rightarrow> ymodem \<Rightarrow> 'w \<Rightarrow> (bool \<times> ymodem \<times> 'w) option" where
  "receive_loop u tickstart max_len y w =
     (case y_get_tick u w of (now, w) \<Rightarrow>
      if now - tickstart > Y_RECEIVE_TIMEOUT then Some (False, y, w)
      else case rx_blocks u w of (blocks, w) \<Rightarrow> do {
        y \<leftarrow> recv_blocks blocks y;
        if get_recv_len y \<ge> max_len then
          if max_len \<noteq> 1 then Some (True, y, w)
          else do {
            header \<leftarrow> rd (recv_buf y) 0;
            if header = Y_SOH \<or> header = Y_STX
            then receive_loop u tickstart ((if header = Y_SOH then 128 else 1024) + 3 + 2) y w
            else Some (True, y, w) }
        else receive_loop u tickstart max_len y w })"

definition get_receive_data :: "'w y_user \<Rightarrow> ymodem \<Rightarrow> 'w \<Rightarrow> (bool \<times> ymodem \<times> 'w) option" where
  "get_receive_data u y w =
     (case y_get_tick u w of (tickstart, w) \<Rightarrow> do {
        (ok, y, w) \<leftarrow> receive_loop u tickstart 1 y w;
        Some (ok, if ok then reset_recv_len y else y, w) })"

section \<open>Packets\<close>

text \<open>The first packet of a file: its name and length, or no name at the end of the transfer.\<close>

definition handle_name :: "'w y_user \<Rightarrow> u8 list \<Rightarrow> ymodem_status \<Rightarrow> ymodem \<Rightarrow> 'w \<Rightarrow> (ymodem_status \<times> ymodem \<times> 'w) option" where
  "handle_name u data status y w = do {
     file_name \<leftarrow> strcpy_from 50 data;
     if length file_name = 0 then Some (status OR Y_EOY, y, w)
     else do {
       len \<leftarrow> get_file_len data;
       let y = y\<lparr>recv_file_len := len\<rparr>;
       case receive_nanme_size_callback u file_name len w of (r, w) \<Rightarrow>
       Some (if r \<noteq> 0 then status OR Y_ERROR_FLASH else status, y, w) } }"

definition handle_data :: "'w y_user \<Rightarrow> u8 list \<Rightarrow> nat \<Rightarrow> ymodem_status \<Rightarrow> ymodem \<Rightarrow> 'w \<Rightarrow> (ymodem_status \<times> ymodem \<times> 'w) option" where
  "handle_data u data sz status y w = do {
     sz \<leftarrow> (if recv_file_len y = 0xFFFFFFFF then get_active_length data sz else Some sz);
     let sz = (if unat (recv_file_len y) < sz then unat (recv_file_len y) else sz);
     bytes \<leftarrow> rd_blk data 0 sz;
     case receive_file_data_callback u bytes w of (r, w) \<Rightarrow>
     Some (if r \<noteq> 0 then status OR Y_ERROR_FLASH else status,
       y\<lparr>recv_file_len := (if recv_file_len y \<noteq> 0xFFFFFFFF then recv_file_len y - of_nat sz else recv_file_len y),
         y_first_packet_received := Y_IS_PACKET\<rparr>, w) }"

text \<open>
  The check of a packet of \<open>sz\<close> bytes of data, and what it gives. The string functions see only the
  bytes of the packet, since those behind it are not set.
\<close>

definition packet_check :: "u8 list \<Rightarrow> nat \<Rightarrow> u8 \<Rightarrow> ymodem_status" where
  "packet_check packet sz number =
     (let crc_received = push_bit 8 (ucast (packet ! (sz + 3))) OR ucast (packet ! (sz + 4));
          crc_calculated = ymodem_calc_crc (take sz (drop Y_PACKET_DATA_INDEX packet));
          status = (if crc_calculated \<noteq> crc_received then Y_OK OR Y_ERROR_CRC else Y_OK);
          status = (if number \<noteq> packet ! Y_PACKET_NUMBER_INDEX then status OR Y_ERROR_NUMBER else status) in
      if unat (packet ! Y_PACKET_NUMBER_INDEX) + unat (packet ! Y_PACKET_NUMBER_COMPLEMENT_INDEX) \<noteq> 255
      then status OR Y_ERROR_NUMBER else status)"

definition ymodem_handle_packet :: "'w y_user \<Rightarrow> ymodem \<Rightarrow> 'w \<Rightarrow> (ymodem_status \<times> ymodem \<times> 'w) option" where
  "ymodem_handle_packet u y w = do {
     header \<leftarrow> rd (recv_buf y) 0;
     let sz = (if header = Y_SOH then Y_PACKET_128_SIZE else if header = Y_STX then Y_PACKET_1024_SIZE else 0);
     packet \<leftarrow> rd_blk (recv_buf y) 0 (sz + Y_PACKET_DATA_INDEX + Y_PACKET_CRC_SIZE);
     if header \<noteq> Y_SOH \<and> header \<noteq> Y_STX then Some (Y_ERROR, y, w)
     else do {
       let status = packet_check packet sz (ymodem_packet_number y);
       let data = drop Y_PACKET_DATA_INDEX packet;
       (status, y, w) \<leftarrow>
         (if packet ! Y_PACKET_NUMBER_INDEX = 0 \<and> y_first_packet_received y = Y_NO_PACKET
          then handle_name u data status y w else handle_data u data sz status y w);
       Some (status, if status = Y_OK then y\<lparr>ymodem_packet_number := ymodem_packet_number y + 1\<rparr> else y, w) } }"

section \<open>The receiver\<close>

definition ymodem_error_handler :: "'w y_user \<Rightarrow> u8 \<Rightarrow> u8 \<Rightarrow> ymodem \<Rightarrow> 'w \<Rightarrow> ymodem_status \<times> u8 \<times> ymodem \<times> 'w" where
  "ymodem_error_handler u error_number max_error_number y w =
     (let y = reset_recv_len y; error_number = error_number + 1 in
      if error_number \<ge> max_error_number
      then (Y_ERROR, error_number, y, y_transmit_ch u Y_CAN (y_transmit_ch u Y_CAN w))
      else (Y_OK, error_number, y, y_transmit_ch u Y_NAK w))"

text \<open>The local variables of the receiver.\<close>

record y_run =
  y_status :: ymodem_status
  error_number :: u8
  eot_num :: u8

definition run_error :: "'w y_user \<Rightarrow> u8 \<Rightarrow> y_run \<Rightarrow> ymodem \<Rightarrow> 'w \<Rightarrow> y_run \<times> ymodem \<times> 'w" where
  "run_error u errors r y w =
     (case ymodem_error_handler u errors Y_MAY_ERRORS y w of (status, errors, y, w) \<Rightarrow>
      (r\<lparr>y_status := status, error_number := errors\<rparr>, y, w))"

text \<open>A data packet; the answer says whether all files have come.\<close>

definition on_packet :: "'w y_user \<Rightarrow> y_run \<Rightarrow> ymodem \<Rightarrow> 'w \<Rightarrow> (bool \<times> y_run \<times> ymodem \<times> 'w) option" where
  "on_packet u r y w = do {
     (packet_status, y, w) \<leftarrow> ymodem_handle_packet u y w;
     if packet_status = Y_OK then
       (let w = y_transmit_ch u Y_ACK w in
        Some (False, r, y, if y_first_packet_received y = Y_NO_PACKET then y_transmit_ch u Y_C w else w))
     else if packet_status = Y_ERROR_FLASH then Some (False, run_error u Y_MAY_ERRORS r y w)
     else if packet_status = Y_EOY then Some (True, r, y, y_transmit_ch u Y_ACK w)
     else Some (False, run_error u (error_number r) r y w) }"

definition on_eot :: "'w y_user \<Rightarrow> y_run \<Rightarrow> ymodem \<Rightarrow> 'w \<Rightarrow> y_run \<times> ymodem \<times> 'w" where
  "on_eot u r y w =
     (if eot_num r + 1 > 1 then
        (r\<lparr>eot_num := 0\<rparr>,
         y\<lparr>y_first_packet_received := Y_NO_PACKET, ymodem_packet_number := 0, ymodem_file_number := ymodem_file_number y + 1\<rparr>,
         y_transmit_ch u Y_C (receive_file_callback u (y_transmit_ch u Y_ACK w)))
      else (r\<lparr>eot_num := eot_num r + 1\<rparr>, y, y_transmit_ch u Y_NAK w))"

definition on_frame :: "'w y_user \<Rightarrow> u8 \<Rightarrow> y_run \<Rightarrow> ymodem \<Rightarrow> 'w \<Rightarrow> (bool \<times> y_run \<times> ymodem \<times> 'w) option" where
  "on_frame u header r y w =
     (if header = Y_SOH \<or> header = Y_STX then on_packet u r y w
      else if header = Y_EOT then Some (False, on_eot u r y w)
      else if header = Y_CAN then Some (False, r\<lparr>y_status := Y_ERROR\<rparr>, y, w)
      else Some (False, run_error u (error_number r) r y w))"

partial_function (option) ymodem_loop :: "'w y_user \<Rightarrow> y_run \<Rightarrow> ymodem \<Rightarrow> 'w \<Rightarrow> (u16 \<times> ymodem \<times> 'w) option" where
  "ymodem_loop u r y w =
     (if y_status r \<noteq> Y_OK then
        Some (ymodem_file_number y OR push_bit 15 1, y\<lparr>ymodem_file_number := ymodem_file_number y OR push_bit 15 1\<rparr>, w)
      else do {
        (ok, y, w) \<leftarrow> get_receive_data u y w;
        if \<not> ok then
          if y_first_packet_received y = Y_NO_PACKET then ymodem_loop u r y (y_transmit_ch u Y_C w)
          else (case run_error u (error_number r) r y w of (r, y, w) \<Rightarrow> ymodem_loop u r y w)
        else do {
          header \<leftarrow> rd (recv_buf y) 0;
          (done, r, y, w) \<leftarrow> on_frame u header r y w;
          if done then Some (ymodem_file_number y, y, w) else ymodem_loop u r y w } })"

definition ymodem_receive :: "'w y_user \<Rightarrow> ymodem \<Rightarrow> 'w \<Rightarrow> (u16 \<times> ymodem \<times> 'w) option" where
  "ymodem_receive u y w =
     ymodem_loop u \<lparr>y_status = Y_OK, error_number = 0, eot_num = 0\<rparr>
       ((reset_recv_len y)\<lparr>y_first_packet_received := Y_NO_PACKET, ymodem_packet_number := 0, ymodem_file_number := 0,
          recv_buf := replicate Y_PROT_FRAME_LEN_RECV 0\<rparr>)
       (y_transmit_ch u Y_C w)"

text \<open>The variables before the first call.\<close>

definition ymodem_static :: ymodem where
  "ymodem_static = \<lparr>recv_buf = replicate Y_PROT_FRAME_LEN_RECV 0, recv_len = 0, ymodem_packet_number = 0, ymodem_file_number = 0,
     y_first_packet_received = Y_IS_PACKET, recv_file_len = 0\<rparr>"

declare receive_loop.simps [code] and
  ymodem_loop.simps [code]

end
