(* ===== verification/Ymodem_Link.thy ===== *)
theory Ymodem_Link
  imports Ymodem
begin

text \<open>
  The Ymodem receiver opposite a sender that follows the protocol: the files a transfer sends are the ones the
  callbacks get. The sender is a script of frames with the answers it waits for; a frame comes in blocks of any
  size with any pauses below the timeout.
\<close>

section \<open>Checksum\<close>

lemma crc_loop_append: "ymodem_calc_crc_loop c (xs @ ys) = ymodem_calc_crc_loop (ymodem_calc_crc_loop c xs) ys"
  by (induction xs arbitrary: c) simp_all

lemma xor_cancel: "a XOR c = b XOR c \<longleftrightarrow> a = b" "c XOR a = c XOR b \<longleftrightarrow> a = b" for a b c :: "'a::len word"
proof -
  have "x = (x XOR c) XOR c" for x :: "'a word" by (simp add: xor.assoc)
  then show "a XOR c = b XOR c \<longleftrightarrow> a = b" by metis
  then show "c XOR a = c XOR b \<longleftrightarrow> a = b" by (simp add: xor.commute)
qed

lemma bit_0_poly: "bit (0x1021 :: u16) 0" by simp

text \<open>One step keeps different values apart, since the polynomial is odd and the shift clears bit 0.\<close>

lemma inj_crc_bit: "inj crc_bit"
proof (rule injI)
  fix a b :: u16 assume e: "crc_bit a = crc_bit b"
  have top: "x AND 0x8000 \<noteq> 0 \<longleftrightarrow> bit x 15" for x :: u16
  proof -
    have "(0x8000 :: u16) = push_bit 15 1" by simp
    then show ?thesis by (simp only: bit_iff_and_push_bit_not_eq_0)
  qed
  have q: "\<not> bit (push_bit 1 x) 0" for x :: u16 by (simp only: bit_push_bit_iff) simp
  have low: "bit (crc_bit x) 0 = bit x 15" for x
    by (simp only: crc_bit_def top bit_xor_iff q bit_0_poly if_distrib[of "\<lambda>z. bit z 0"]) simp
  have t: "bit a 15 = bit b 15" using low[of a] low[of b] e by simp
  then have p: "push_bit 1 a = push_bit 1 b" using e unfolding crc_bit_def top by (auto simp: xor_cancel split: if_splits)
  show "a = b"
  proof (rule bit_word_eqI)
    fix n assume n: "n < LENGTH(16)"
    show "bit a n = bit b n"
    proof (cases "n = 15")
      case False
      then have "n + 1 < 16" using n by simp
      moreover have "bit (push_bit 1 a) (n + 1) = bit (push_bit 1 b) (n + 1)" by (simp only: p)
      ultimately show ?thesis by (simp only: bit_push_bit_iff) (simp add: possible_bit_word)
    qed (simp add: t)
  qed
qed

lemma inj_crc_bits: "inj (crc_bit ^^ n)"
proof (induction n)
  case (Suc n)
  then have "inj (crc_bit \<circ> (crc_bit ^^ n))" by (rule inj_compose[OF inj_crc_bit])
  then show ?case by (simp only: funpow.simps)
qed simp

lemma crc_loop_inj: "ymodem_calc_crc_loop c xs = ymodem_calc_crc_loop d xs \<longleftrightarrow> c = d"
  by (induction xs arbitrary: c d) (simp_all add: inj_eq[OF inj_crc_bits] xor_cancel)

lemma push_ucast_inj: "push_bit 8 (ucast a :: u16) = push_bit 8 (ucast b) \<longleftrightarrow> a = b" for a b :: u8
proof
  assume e: "push_bit 8 (ucast a :: u16) = push_bit 8 (ucast b)"
  show "a = b"
  proof (rule bit_word_eqI)
    fix n assume n: "n < LENGTH(8)"
    have "bit (push_bit 8 (ucast a :: u16)) (n + 8) = bit (push_bit 8 (ucast b :: u16)) (n + 8)" by (simp only: e)
    then show "bit a n = bit b n" using n by (simp add: bit_push_bit_iff bit_ucast_iff)
  qed
qed simp

lemma crc_changed_byte: "a \<noteq> b \<Longrightarrow> ymodem_calc_crc (xs @ a # ys) \<noteq> ymodem_calc_crc (xs @ b # ys)"
  by (simp add: ymodem_calc_crc_def crc_loop_append crc_loop_inj inj_eq[OF inj_crc_bits] push_ucast_inj xor_cancel(2))

lemma crc_join: "push_bit 8 (ucast (ucast (drop_bit 8 c) :: u8)) OR ucast (ucast c :: u8) = c" for c :: u16
  by (rule bit_word_eqI) (auto simp: bit_or_iff bit_push_bit_iff bit_ucast_iff bit_drop_bit_eq)

section \<open>Packets\<close>

definition y_packet :: "u8 \<Rightarrow> u8 list \<Rightarrow> u8 list" where
  "y_packet number data =
     [if length data = 128 then Y_SOH else Y_STX, number, NOT number] @ data @
     [ucast (drop_bit 8 (ymodem_calc_crc data)), ucast (ymodem_calc_crc data)]"

definition y_size :: "nat \<Rightarrow> bool" where "y_size n \<longleftrightarrow> n = 128 \<or> n = 1024"

lemmas y_consts = Y_SOH_def Y_STX_def Y_EOT_def Y_ACK_def Y_NAK_def Y_CAN_def Y_C_def Y_OK_def Y_ERROR_CRC_def Y_ERROR_NUMBER_def
  Y_ERROR_UART_def Y_ERROR_FLASH_def Y_EOY_def Y_ERROR_def Y_IS_PACKET_def Y_NO_PACKET_def

lemmas y_sizes = Y_PACKET_128_SIZE_def Y_PACKET_1024_SIZE_def Y_PACKET_CRC_SIZE_def Y_PACKET_NUMBER_INDEX_def
  Y_PACKET_NUMBER_COMPLEMENT_INDEX_def Y_PACKET_DATA_INDEX_def Y_PROT_FRAME_LEN_RECV_def

lemma length_y_packet [simp]: "length (y_packet n data) = length data + 5"
  by (simp add: y_packet_def)

lemma unat_not8: "unat n + unat (NOT n) = 255" for n :: u8
proof -
  have "NOT n = - 1 - n" by (simp add: not_eq_complement)
  moreover have "unat (- 1 - n) = unat (- 1 :: u8) - unat n" by (rule unat_sub) (rule word_order.extremum)
  moreover have "unat (- 1 :: u8) = 255" by (simp add: unsigned_minus_1_eq_mask mask_eq_exp_minus_1)
  ultimately have "unat (NOT n) = 255 - unat n" by (simp only: )
  moreover have "unat n \<le> 255" using unat_u8[of n] by linarith
  ultimately show ?thesis by simp
qed

lemma packet_check_ok:
  assumes "y_size (length data)"
  shows "packet_check (y_packet n data) (length data) n = Y_OK"
proof -
  have a: "y_packet n data ! (length data + 3) = ucast (drop_bit 8 (ymodem_calc_crc data))"
    "y_packet n data ! (length data + 4) = ucast (ymodem_calc_crc data)" by (simp_all add: y_packet_def nth_append)
  have b: "y_packet n data ! 1 = n" "y_packet n data ! 2 = NOT n" "take (length data) (drop 3 (y_packet n data)) = data"
    by (simp_all add: y_packet_def)
  show ?thesis unfolding packet_check_def y_sizes a b by (simp add: crc_join unat_not8 del: unsigned_not_eq)
qed

text \<open>A packet as it lies in the receive buffer.\<close>

definition holds :: "u8 list \<Rightarrow> ymodem \<Rightarrow> bool" where
  "holds frame y \<longleftrightarrow> length (recv_buf y) = Y_PROT_FRAME_LEN_RECV \<and> take (length frame) (recv_buf y) = frame \<and>
     length frame < Y_PROT_FRAME_LEN_RECV"

lemma holds_first: "holds frame y \<Longrightarrow> frame \<noteq> [] \<Longrightarrow> rd (recv_buf y) 0 = Some (hd frame)"
proof -
  assume h: "holds frame y" "frame \<noteq> []"
  then have "frame ! 0 = take (length frame) (recv_buf y) ! 0" by (simp add: holds_def)
  then have "recv_buf y ! 0 = hd frame" using h by (simp add: hd_conv_nth)
  then show ?thesis using h by (simp add: rd_def holds_def)
qed

lemma handle_held:
  assumes h: "holds q y" and sz: "y_size k" and q: "length q = k + 5" "hd q = (if k = 128 then Y_SOH else Y_STX)"
  shows "ymodem_handle_packet u y w = do {
     (status, y, w) \<leftarrow>
       (let status = packet_check q k (ymodem_packet_number y) in
        if q ! 1 = 0 \<and> y_first_packet_received y = Y_NO_PACKET then handle_name u (drop 3 q) status y w
        else handle_data u (drop 3 q) k status y w);
     Some (status, if status = Y_OK then y\<lparr>ymodem_packet_number := ymodem_packet_number y + 1\<rparr> else y, w) }"
proof -
  have f: "rd (recv_buf y) 0 = Some (if k = 128 then Y_SOH else Y_STX)"
    using holds_first[OF h] q by fastforce
  have r: "rd_blk (recv_buf y) 0 (k + 3 + 2) = Some q"
    using h q by (simp add: holds_def rd_blk_def add.commute)
  have s: "(if (if k = 128 then Y_SOH else Y_STX) = Y_SOH then Y_PACKET_128_SIZE
      else if (if k = 128 then Y_SOH else Y_STX) = Y_STX then Y_PACKET_1024_SIZE else 0) = k"
    using sz by (auto simp: y_size_def y_consts y_sizes)
  have t: "((if k = 128 then Y_SOH else Y_STX) \<noteq> Y_SOH \<and> (if k = 128 then Y_SOH else Y_STX) \<noteq> Y_STX) = False"
    by (simp add: y_consts)
  show ?thesis unfolding ymodem_handle_packet_def f bind.bind_lunit Let_def s t if_False
    by (simp only: Y_PACKET_DATA_INDEX_def Y_PACKET_CRC_SIZE_def Y_PACKET_NUMBER_INDEX_def r bind.bind_lunit Let_def)
qed

lemma handle_packet:
  assumes h: "holds (y_packet n data) y" and sz: "y_size (length data)"
  shows "ymodem_handle_packet u y w = do {
     (status, y, w) \<leftarrow>
       (let p = y_packet n data; status = packet_check p (length data) (ymodem_packet_number y); d = drop 3 p in
        if n = 0 \<and> y_first_packet_received y = Y_NO_PACKET then handle_name u d status y w
        else handle_data u d (length data) status y w);
     Some (status, if status = Y_OK then y\<lparr>ymodem_packet_number := ymodem_packet_number y + 1\<rparr> else y, w) }"
proof -
  have "y_packet n data ! 1 = n" "hd (y_packet n data) = (if length data = 128 then Y_SOH else Y_STX)" by (simp_all add: y_packet_def)
  then show ?thesis using handle_held[OF h sz, of u w] by (simp only: length_y_packet Let_def simp_thms)
qed

section \<open>The first packet\<close>

definition is_digit :: "u8 \<Rightarrow> bool" where "is_digit d \<longleftrightarrow> 0x30 \<le> d \<and> d \<le> 0x39"

definition number_of :: "u8 list \<Rightarrow> nat" where
  "number_of ds = foldl (\<lambda>v d. unat d - 48 + v * 10) 0 ds"

lemma find_name_end_at:
  "0 \<notin> set name \<Longrightarrow> length name < n \<Longrightarrow>
   find_name_end (pre @ name @ 0 # t) (length pre) n = Some (length pre + length name + 1, length pre + length name + 1)"
proof (induction name arbitrary: pre n)
  case Nil then show ?case by (cases n) (simp_all add: rd_def)
next
  case (Cons c name)
  obtain m where "n = Suc m" "length name < m" using Cons.prems by (cases n) auto
  then show ?case using Cons.IH[of m "pre @ [c]"] Cons.prems by (simp add: rd_def nth_append)
qed

lemma find_digits_end_at:
  "\<forall>d\<in>set ds. is_digit d \<Longrightarrow> \<not> is_digit z \<Longrightarrow> length ds < n \<Longrightarrow>
   find_digits_end (pre @ ds @ z # t) (length pre) n = Some (length pre + length ds)"
proof (induction ds arbitrary: pre n)
  case Nil then show ?case by (cases n) (auto simp: rd_def is_digit_def not_le)
next
  case (Cons c ds)
  obtain m where "n = Suc m" "length ds < m" using Cons.prems by (cases n) auto
  then show ?case using Cons.IH[of m "pre @ [c]"] Cons.prems by (auto simp: rd_def nth_append is_digit_def not_le not_less)
qed

lemma digits_value_at:
  "digits_value (pre @ ds @ t) (length pre) (length ds) v = Some (foldl (\<lambda>v d. ucast d - 0x30 + v * 10) v ds)"
proof (induction ds arbitrary: pre v)
  case (Cons c ds)
  then show ?case using Cons.IH[of "pre @ [c]"] by (simp add: rd_def nth_append)
qed simp

lemma digit_word: "is_digit d \<Longrightarrow> ucast d - (0x30 :: u32) = of_nat (unat d - 48)"
proof -
  assume "is_digit d"
  then have "48 \<le> unat d" by (simp add: is_digit_def word_le_nat_alt)
  then have "(of_nat (unat d - 48) :: u32) = of_nat (unat d) - of_nat 48" by (rule of_nat_diff)
  then show ?thesis by simp
qed

lemma number_word:
  "\<forall>d\<in>set ds. is_digit d \<Longrightarrow>
   foldl (\<lambda>v d. ucast d - 0x30 + v * 10) (of_nat a) ds = (of_nat (foldl (\<lambda>v d. unat d - 48 + v * 10) a ds) :: u32)"
proof (induction ds arbitrary: a)
  case (Cons d ds)
  have "ucast d - 0x30 + of_nat a * 10 = (of_nat (unat d - 48 + a * 10) :: u32)"
    using digit_word[of d] Cons.prems by simp
  then show ?case using Cons.IH[of "unat d - 48 + a * 10"] Cons.prems
    by (simp del: of_nat_add of_nat_mult of_nat_diff of_nat_numeral)
qed simp

text \<open>What a first packet with a name and a length holds, and what is read from it.\<close>

definition y_first :: "u8 list \<Rightarrow> nat \<Rightarrow> u8 list \<Rightarrow> bool" where
  "y_first name len data \<longleftrightarrow> name \<noteq> [] \<and> 0 \<notin> set name \<and> length name < 50 \<and> y_size (length data) \<and>
     (let n = length name; ds = takeWhile is_digit (drop (n + 1) data) in
      take n data = name \<and> data ! n = 0 \<and> number_of ds = len \<and> n + 1 + length ds < 128)"

lemma y_first_split:
  assumes "y_first name len data"
  obtains ds z t where "data = name @ 0 # ds @ z # t" "\<forall>d\<in>set ds. is_digit d" "\<not> is_digit z" "number_of ds = len"
    "length name + 1 + length ds < 128"
proof -
  define n where "n = length name"
  define ds where "ds = takeWhile is_digit (drop (n + 1) data)"
  have a: "take n data = name" "data ! n = 0" "number_of ds = len" "n + 1 + length ds < 128" "y_size (length data)"
    using assms by (simp_all add: y_first_def n_def ds_def Let_def)
  then have l: "128 \<le> length data" by (auto simp: y_size_def)
  have d: "data = name @ 0 # drop (n + 1) data" using a l id_take_nth_drop[of n data] by simp
  define r where "r = dropWhile is_digit (drop (n + 1) data)"
  have dr: "drop (n + 1) data = ds @ r" by (simp add: ds_def r_def)
  then have "length ds + length r = length data - (n + 1)" by (metis length_append length_drop)
  then have "r \<noteq> []" using a(4) l by auto
  then obtain z t where zt: "r = z # t" by (cases r) auto
  have "\<not> is_digit (hd r)" using \<open>r \<noteq> []\<close> unfolding r_def by (rule hd_dropWhile)
  then have "\<not> is_digit z" using zt by simp
  moreover have "\<forall>d\<in>set ds. is_digit d" unfolding ds_def using set_takeWhileD by metis
  ultimately show ?thesis using d dr zt a n_def by (intro that[of ds z t]) simp_all
qed

lemma first_packet_name: "y_first name len data \<Longrightarrow> strcpy_from 50 (data @ crc) = Some name"
proof -
  assume f: "y_first name len data"
  then obtain ds z t where d: "data = name @ 0 # ds @ z # t" by (rule y_first_split)
  have "takeWhile (\<lambda>b. b \<noteq> 0) (name @ 0 # r) = name" for r
    using f by (subst takeWhile_append2) (auto simp: y_first_def)
  then show ?thesis using f by (simp add: d strcpy_from_def y_first_def)
qed

lemma first_packet_len: "y_first name len data \<Longrightarrow> get_file_len (data @ crc) = Some (of_nat len)"
proof -
  assume f: "y_first name len data"
  then obtain ds z t where d: "data = name @ 0 # ds @ z # t" and ds: "\<forall>d\<in>set ds. is_digit d" "\<not> is_digit z"
    and n: "number_of ds = len" "length name + 1 + length ds < 128" by (rule y_first_split)
  define pre where "pre = name @ [0 :: u8]"
  have "find_name_end (data @ crc) 0 128 = Some (length pre, length pre)"
    using find_name_end_at[of name 128 "[]" "ds @ z # t @ crc"] f n by (simp add: d pre_def y_first_def)
  moreover have "find_digits_end (data @ crc) (length pre) (128 - length pre) = Some (length pre + length ds)"
    using find_digits_end_at[of ds z "128 - length pre" pre "t @ crc"] ds n by (simp add: d pre_def)
  moreover have "digits_value (data @ crc) (length pre) (length ds) 0 = Some (of_nat len)"
    using digits_value_at[of pre ds "z # t @ crc" 0] number_word[OF ds(1), of 0] n(1) by (simp add: d pre_def number_of_def)
  moreover have "\<not> 128 \<le> length pre" "\<not> 128 \<le> length pre + length ds" using n by (simp_all add: pre_def)
  ultimately show ?thesis by (simp add: get_file_len_def)
qed

section \<open>The sender\<close>

text \<open>
  A sender with a script: each entry has the blocks of a frame and the answers to it; when the last of them comes the
  next frame goes onto the wire, and an answer it did not wait for ends it. It also is the user of the receiver
  and keeps the files the callbacks hand over, with the number of those that are closed.
\<close>

record link =
  clock :: u32
  wire :: "u8 list list"
  replies :: "u8 list"
  script :: "(u8 list list \<times> u8 list) list"
  got_files :: "(u8 list \<times> u32 \<times> u8 list) list"
  got_closed :: nat

definition next_frame :: "link \<Rightarrow> link" where
  "next_frame w =
     (case script w of [] \<Rightarrow> w\<lparr>replies := []\<rparr> | (blocks, rs) # sc \<Rightarrow> w\<lparr>wire := blocks, replies := rs, script := sc\<rparr>)"

definition link_reply :: "u8 \<Rightarrow> link \<Rightarrow> link" where
  "link_reply ch w =
     (case replies w of [] \<Rightarrow> w
      | r # rs \<Rightarrow> if r \<noteq> ch then w\<lparr>wire := [], replies := [], script := []\<rparr>
          else if rs = [] then next_frame w else w\<lparr>replies := rs\<rparr>)"

definition y_link :: "link y_user" where
  "y_link = \<lparr>
     y_get_tick = \<lambda>w. (clock w, w\<lparr>clock := clock w + 1\<rparr>),
     rx_blocks = \<lambda>w. (case wire w of [] \<Rightarrow> ([], w) | b # bs \<Rightarrow> ([b], w\<lparr>wire := bs\<rparr>)),
     y_transmit_ch = link_reply,
     receive_nanme_size_callback = \<lambda>name n w. (0, w\<lparr>got_files := got_files w @ [(name, n, [])]\<rparr>),
     receive_file_data_callback = \<lambda>bytes w. (0, w\<lparr>got_files := butlast (got_files w) @
        [(fst (last (got_files w)), fst (snd (last (got_files w))), snd (snd (last (got_files w))) @ bytes)]\<rparr>),
     receive_file_callback = \<lambda>w. w\<lparr>got_closed := got_closed w + 1\<rparr>\<rparr>"

lemma link_sel [simp]:
  "y_get_tick y_link w = (clock w, w\<lparr>clock := clock w + 1\<rparr>)"
  "rx_blocks y_link w = (case wire w of [] \<Rightarrow> ([], w) | b # bs \<Rightarrow> ([b], w\<lparr>wire := bs\<rparr>))"
  "y_transmit_ch y_link = link_reply"
  by (simp_all add: y_link_def)

section \<open>Receiving a frame\<close>

definition y_frame :: "u8 list \<Rightarrow> bool" where
  "y_frame f \<longleftrightarrow> (\<exists>n data. f = y_packet n data \<and> y_size (length data)) \<or> (\<exists>b. f = [b] \<and> b \<noteq> Y_SOH \<and> b \<noteq> Y_STX)"

definition partial_frame :: "u8 list \<Rightarrow> ymodem \<Rightarrow> bool" where
  "partial_frame got y \<longleftrightarrow> holds got y \<and> recv_len y = of_nat (length got)"

lemma y_frame_short: "y_frame f \<Longrightarrow> length f \<le> 1029 \<and> f \<noteq> []"
  by (auto simp: y_frame_def y_size_def y_packet_def)

lemma len32: "n \<le> 1100 \<Longrightarrow> unat (of_nat n :: u32) = n"
  by (simp add: unat_of_nat_lt)

lemma recv_block:
  assumes p: "partial_frame got y" and l: "length (got @ b) \<le> 1029"
  obtains buf where "ymodem_data_recv b y = Some (y\<lparr>recv_buf := buf, recv_len := of_nat (length (got @ b))\<rparr>)"
    "partial_frame (got @ b) (y\<lparr>recv_buf := buf, recv_len := of_nat (length (got @ b))\<rparr>)"
proof -
  have n: "recv_len y = of_nat (length got)" "length (recv_buf y) = 1100" "take (length got) (recv_buf y) = got"
    using p by (simp_all add: partial_frame_def holds_def y_sizes)
  have s: "of_nat (length got) + of_nat (length b) = (of_nat (length (got @ b)) :: u32)" by simp
  have "unat (of_nat (length (got @ b)) :: u32) = length (got @ b)" using l by (intro len32) linarith
  then have g: "\<not> (of_nat (length (got @ b)) :: u32) \<ge> of_nat Y_PROT_FRAME_LEN_RECV"
    using l by (simp add: word_le_nat_alt Y_PROT_FRAME_LEN_RECV_def del: of_nat_add)
  have u: "unat (of_nat (length got) :: u32) = length got" using l by (intro len32) simp
  have w: "wr_blk (recv_buf y) (length got) b = Some (blit (recv_buf y) (length got) b)" using l n by (intro wr_blk_Some) simp
  have "ymodem_data_recv b y = Some (y\<lparr>recv_buf := blit (recv_buf y) (length got) b, recv_len := of_nat (length (got @ b))\<rparr>)"
    using g by (simp only: ymodem_data_recv_def Let_def n(1) s if_False u w bind.bind_lunit)
  moreover have "take (length (got @ b)) (blit (recv_buf y) (length got) b) = got @ b"
    using n l by (simp add: blit_def)
  then have "partial_frame (got @ b) (y\<lparr>recv_buf := blit (recv_buf y) (length got) b, recv_len := of_nat (length (got @ b))\<rparr>)"
    using n l by (simp add: partial_frame_def holds_def y_sizes del: of_nat_add take_append)
  ultimately show ?thesis by (rule that)
qed

lemma tick_in_time: "k \<le> 3000 \<Longrightarrow> \<not> (t + of_nat k) - t > Y_RECEIVE_TIMEOUT"
  by (simp add: Y_RECEIVE_TIMEOUT_def word_less_nat_alt unat_of_nat_lt)

text \<open>What follows a look.\<close>

definition after_look :: "u32 \<Rightarrow> u32 \<Rightarrow> ymodem \<Rightarrow> link \<Rightarrow> (bool \<times> ymodem \<times> link) option" where
  "after_look t n y w =
     (if recv_len y \<ge> n then
        if n \<noteq> 1 then Some (True, y, w)
        else do {
          header \<leftarrow> rd (recv_buf y) 0;
          if header = Y_SOH \<or> header = Y_STX
          then receive_loop y_link t ((if header = Y_SOH then 128 else 1024) + 3 + 2) y w
          else Some (True, y, w) }
      else receive_loop y_link t n y w)"

text \<open>One look: a block, if there is one, is added to what has come.\<close>

lemma receive_look:
  assumes p: "partial_frame got y" and k: "k \<le> 3000" "clock w = t + of_nat k"
    and b: "wire w = b # bs" and l: "length (got @ b) \<le> 1029"
  obtains buf where "partial_frame (got @ b) (y\<lparr>recv_buf := buf, recv_len := of_nat (length (got @ b))\<rparr>)"
    "\<And>n. receive_loop y_link t n y w =
       after_look t n (y\<lparr>recv_buf := buf, recv_len := of_nat (length (got @ b))\<rparr>) (w\<lparr>clock := t + of_nat (Suc k), wire := bs\<rparr>)"
proof -
  obtain buf where r: "ymodem_data_recv b y = Some (y\<lparr>recv_buf := buf, recv_len := of_nat (length (got @ b))\<rparr>)"
    and p': "partial_frame (got @ b) (y\<lparr>recv_buf := buf, recv_len := of_nat (length (got @ b))\<rparr>)"
    using recv_block[OF p l] by blast
  have c: "t + of_nat k + 1 = t + of_nat (Suc k)" by simp
  have "receive_loop y_link t n y w =
       after_look t n (y\<lparr>recv_buf := buf, recv_len := of_nat (length (got @ b))\<rparr>) (w\<lparr>clock := t + of_nat (Suc k), wire := bs\<rparr>)" for n
    using tick_in_time[OF k(1), of t] k(2)
    by (subst receive_loop.simps) (simp add: b r get_recv_len_def Let_def c after_look_def del: length_append of_nat_Suc of_nat_add)
  with p' show ?thesis by (rule that)
qed

lemma partial_update [simp]: "partial_frame f (y\<lparr>recv_buf := b1, recv_len := n1, recv_buf := b2, recv_len := n2\<rparr>) =
    partial_frame f (y\<lparr>recv_buf := b2, recv_len := n2\<rparr>)"
  by simp

text \<open>The rest of a frame whose length is known.\<close>

lemma receive_rest:
  assumes "partial_frame got y" "got @ concat bs = frame" "y_size (length frame - 5)" "5 \<le> length frame"
    "wire w = bs" "clock w = t + of_nat k" "k + length bs < 3000"
  shows "\<exists>buf bs' now. receive_loop y_link t (of_nat (length frame)) y w =
     Some (True, y\<lparr>recv_buf := buf, recv_len := of_nat (length frame)\<rparr>, w\<lparr>clock := now, wire := bs'\<rparr>) \<and>
     partial_frame frame (y\<lparr>recv_buf := buf, recv_len := of_nat (length frame)\<rparr>)"
  using assms
proof (induction bs arbitrary: got y w k)
  case Nil
  then have f: "got = frame" "length frame \<le> 1029" by (auto simp: y_size_def)
  have y: "y = y\<lparr>recv_buf := recv_buf y, recv_len := of_nat (length frame)\<rparr>" using Nil f by (simp add: partial_frame_def)
  have n1: "(of_nat (length frame) :: u32) \<noteq> 1"
  proof
    assume "(of_nat (length frame) :: u32) = 1"
    then have "unat (of_nat (length frame) :: u32) = 1" by simp
    then show False using len32[of "length frame"] f Nil(4) by simp
  qed
  have tk: "\<not> (t + of_nat k) - t > Y_RECEIVE_TIMEOUT" using Nil by (intro tick_in_time) simp
  have rl: "recv_len y = of_nat (length frame)" using Nil f by (simp add: partial_frame_def)
  have "receive_loop y_link t (of_nat (length frame)) y w = Some (True, y, w\<lparr>clock := clock w + 1\<rparr>)"
    using tk Nil(6,5) by (subst receive_loop.simps) (simp add: get_recv_len_def rl n1)
  then have "receive_loop y_link t (of_nat (length frame)) y w =
     Some (True, y\<lparr>recv_buf := recv_buf y, recv_len := of_nat (length frame)\<rparr>, w\<lparr>clock := clock w + 1, wire := wire w\<rparr>)"
    using y by simp
  moreover have "partial_frame frame (y\<lparr>recv_buf := recv_buf y, recv_len := of_nat (length frame)\<rparr>)" using Nil(1) f y by simp
  ultimately show ?case by blast
next
  case (Cons b bs)
  have gb: "(got @ b) @ concat bs = frame" using Cons.prems by simp
  then have l: "length (got @ b) \<le> length frame" by (metis le_add1 length_append)
  have fl: "length frame \<le> 1029" using Cons.prems by (auto simp: y_size_def)
  have k: "k \<le> 3000" "Suc k + length bs < 3000" using Cons.prems by simp_all
  obtain buf where p: "partial_frame (got @ b) (y\<lparr>recv_buf := buf, recv_len := of_nat (length (got @ b))\<rparr>)"
    and e: "\<And>n. receive_loop y_link t n y w =
       after_look t n (y\<lparr>recv_buf := buf, recv_len := of_nat (length (got @ b))\<rparr>) (w\<lparr>clock := t + of_nat (Suc k), wire := bs\<rparr>)"
    by (rule receive_look[OF Cons.prems(1) k(1) Cons.prems(6,5) order_trans[OF l fl]]) blast
  have n1: "(of_nat (length frame) :: u32) \<noteq> 1"
  proof
    assume "(of_nat (length frame) :: u32) = 1"
    then have "unat (of_nat (length frame) :: u32) = 1" by simp
    then show False using len32[of "length frame"] fl Cons.prems(4) by simp
  qed
  have ge: "(of_nat (length (got @ b)) :: u32) \<ge> of_nat (length frame) \<longleftrightarrow> length frame \<le> length (got @ b)"
    using l fl by (simp add: word_le_nat_alt len32 del: length_append)
  show ?case
  proof (cases "length frame \<le> length (got @ b)")
    case True
    then have "concat bs = []" using gb l by (metis add_cancel_right_right le_antisym length_0_conv length_append)
    then have "got @ b = frame" using gb by (simp only: append_Nil2)
    then have "receive_loop y_link t (of_nat (length frame)) y w =
        Some (True, y\<lparr>recv_buf := buf, recv_len := of_nat (length frame)\<rparr>, w\<lparr>clock := t + of_nat (Suc k), wire := bs\<rparr>)"
      using n1 by (simp add: e after_look_def)
    then show ?thesis using p \<open>got @ b = frame\<close> by blast
  next
    case False
    have IH: "\<exists>buf' bs' now. receive_loop y_link t (of_nat (length frame)) (y\<lparr>recv_buf := buf, recv_len := of_nat (length (got @ b))\<rparr>)
        (w\<lparr>clock := t + of_nat (Suc k), wire := bs\<rparr>) =
       Some (True, y\<lparr>recv_buf := buf, recv_len := of_nat (length (got @ b)), recv_buf := buf', recv_len := of_nat (length frame)\<rparr>,
          w\<lparr>clock := t + of_nat (Suc k), wire := bs, clock := now, wire := bs'\<rparr>) \<and>
       partial_frame frame (y\<lparr>recv_buf := buf, recv_len := of_nat (length (got @ b)), recv_buf := buf', recv_len := of_nat (length frame)\<rparr>)"
      using k by (intro Cons.IH[OF p gb Cons.prems(3,4), where k = "Suc k"]) simp_all
    moreover have "receive_loop y_link t (of_nat (length frame)) y w =
        receive_loop y_link t (of_nat (length frame)) (y\<lparr>recv_buf := buf, recv_len := of_nat (length (got @ b))\<rparr>)
          (w\<lparr>clock := t + of_nat (Suc k), wire := bs\<rparr>)"
      unfolding e[of "of_nat (length frame)"] after_look_def using False ge by (simp del: of_nat_add length_append)
    ultimately show ?thesis by simp
  qed
qed

lemma receive_from_start:
  assumes "partial_frame [] y" "concat bs = frame" "y_frame frame" "wire w = bs" "clock w = t + of_nat k" "k + length bs < 3000"
  shows "\<exists>buf bs' now. receive_loop y_link t 1 y w =
     Some (True, y\<lparr>recv_buf := buf, recv_len := of_nat (length frame)\<rparr>, w\<lparr>clock := now, wire := bs'\<rparr>) \<and>
     partial_frame frame (y\<lparr>recv_buf := buf, recv_len := of_nat (length frame)\<rparr>)"
  using assms
proof (induction bs arbitrary: y w k)
  case Nil then show ?case using y_frame_short[OF Nil(3)] by simp
next
  case (Cons b bs)
  have gb: "b @ concat bs = frame" using Cons.prems by simp
  then have l: "length b \<le> length frame" by (metis le_add1 length_append)
  have fl: "length frame \<le> 1029" "frame \<noteq> []" using y_frame_short[OF Cons.prems(3)] by simp_all
  have k: "k \<le> 3000" "Suc k + length bs < 3000" using Cons.prems by simp_all
  obtain buf where p: "partial_frame b (y\<lparr>recv_buf := buf, recv_len := of_nat (length b)\<rparr>)"
    and e: "\<And>n. receive_loop y_link t n y w =
       after_look t n (y\<lparr>recv_buf := buf, recv_len := of_nat (length b)\<rparr>) (w\<lparr>clock := t + of_nat (Suc k), wire := bs\<rparr>)"
    by (rule receive_look[OF Cons.prems(1) k(1) Cons.prems(5,4)]) (use l fl in auto)
  have ge: "(1 :: u32) \<le> of_nat (length b) \<longleftrightarrow> b \<noteq> []"
    using l fl by (cases b) (simp_all add: word_le_nat_alt len32 del: of_nat_Suc)
  show ?case
  proof (cases "b = []")
    case True
    have "\<exists>buf' bs' now. receive_loop y_link t 1 (y\<lparr>recv_buf := buf, recv_len := of_nat (length b)\<rparr>)
        (w\<lparr>clock := t + of_nat (Suc k), wire := bs\<rparr>) =
       Some (True, y\<lparr>recv_buf := buf, recv_len := of_nat (length b), recv_buf := buf', recv_len := of_nat (length frame)\<rparr>,
          w\<lparr>clock := t + of_nat (Suc k), wire := bs, clock := now, wire := bs'\<rparr>) \<and>
       partial_frame frame (y\<lparr>recv_buf := buf, recv_len := of_nat (length b), recv_buf := buf', recv_len := of_nat (length frame)\<rparr>)"
      using k p gb Cons.prems(3) True by (intro Cons.IH[of _ _ "Suc k"]) simp_all
    moreover have "receive_loop y_link t 1 y w =
        receive_loop y_link t 1 (y\<lparr>recv_buf := buf, recv_len := of_nat (length b)\<rparr>) (w\<lparr>clock := t + of_nat (Suc k), wire := bs\<rparr>)"
      unfolding e[of 1] after_look_def using True by simp
    ultimately show ?thesis by simp
  next
    case False
    have hd: "rd buf 0 = Some (hd b)" using p False holds_first[of b "y\<lparr>recv_buf := buf, recv_len := of_nat (length b)\<rparr>"] by (simp add: partial_frame_def)
    have hf: "hd b = hd frame" using gb False by (metis hd_append2)
    show ?thesis
    proof (cases "hd frame = Y_SOH \<or> hd frame = Y_STX")
      case True
      then obtain n data where f: "frame = y_packet n data" and sz: "y_size (length data)" using Cons.prems(3)
        by (auto simp: y_frame_def)
      have m: "(if hd frame = Y_SOH then 128 else 1024) + 3 + 2 = (of_nat (length frame) :: u32)"
        using sz by (auto simp: f y_packet_def y_size_def y_consts)
      have f5: "y_size (length frame - 5)" "5 \<le> length frame" using sz by (simp_all add: f)
      have "\<exists>buf' bs' now. receive_loop y_link t (of_nat (length frame)) (y\<lparr>recv_buf := buf, recv_len := of_nat (length b)\<rparr>)
          (w\<lparr>clock := t + of_nat (Suc k), wire := bs\<rparr>) =
         Some (True, y\<lparr>recv_buf := buf, recv_len := of_nat (length b), recv_buf := buf', recv_len := of_nat (length frame)\<rparr>,
            w\<lparr>clock := t + of_nat (Suc k), wire := bs, clock := now, wire := bs'\<rparr>) \<and>
         partial_frame frame (y\<lparr>recv_buf := buf, recv_len := of_nat (length b), recv_buf := buf', recv_len := of_nat (length frame)\<rparr>)"
        using k by (intro receive_rest[OF p gb f5, where k = "Suc k"]) simp_all
      moreover have "receive_loop y_link t 1 y w =
          receive_loop y_link t (of_nat (length frame)) (y\<lparr>recv_buf := buf, recv_len := of_nat (length b)\<rparr>)
            (w\<lparr>clock := t + of_nat (Suc k), wire := bs\<rparr>)"
        unfolding e[of 1] after_look_def using False hd hf m True ge by simp
      ultimately show ?thesis by simp
    next
      case other: False
      then obtain x where "frame = [x]" using Cons.prems(3) by (auto simp: y_frame_def y_packet_def split: if_splits)
      then have "b = frame" using gb False by (cases b) auto
      moreover have "receive_loop y_link t 1 y w =
          Some (True, y\<lparr>recv_buf := buf, recv_len := of_nat (length b)\<rparr>, w\<lparr>clock := t + of_nat (Suc k), wire := bs\<rparr>)"
        unfolding e[of 1] after_look_def using hd hf other False ge by simp
      ultimately show ?thesis using p by blast
    qed
  qed
qed

lemma receive_frame:
  assumes y: "length (recv_buf y) = Y_PROT_FRAME_LEN_RECV" "recv_len y = 0" and f: "y_frame frame"
    and w: "concat (wire w) = frame" "length (wire w) < 2999"
  obtains buf bs' now where "get_receive_data y_link y w = Some (True, y\<lparr>recv_buf := buf\<rparr>, w\<lparr>clock := now, wire := bs'\<rparr>)"
    "holds frame (y\<lparr>recv_buf := buf\<rparr>)"
proof -
  have "partial_frame [] y" using y by (simp add: partial_frame_def holds_def y_sizes)
  moreover have "clock (w\<lparr>clock := clock w + 1\<rparr>) = clock w + of_nat 1" by simp
  ultimately obtain buf bs' now where
    e: "receive_loop y_link (clock w) 1 y (w\<lparr>clock := clock w + 1\<rparr>) =
     Some (True, y\<lparr>recv_buf := buf, recv_len := of_nat (length frame)\<rparr>, w\<lparr>clock := clock w + 1, clock := now, wire := bs'\<rparr>)"
    and h: "partial_frame frame (y\<lparr>recv_buf := buf, recv_len := of_nat (length frame)\<rparr>)"
    using receive_from_start[of y "wire w" frame "w\<lparr>clock := clock w + 1\<rparr>" "clock w" 1] f w by auto
  have "get_receive_data y_link y w = Some (True, y\<lparr>recv_buf := buf\<rparr>, w\<lparr>clock := now, wire := bs'\<rparr>)"
    unfolding get_receive_data_def using e y(2) by (simp add: reset_recv_len_def)
  moreover have "holds frame (y\<lparr>recv_buf := buf\<rparr>)" using h by (simp add: partial_frame_def holds_def)
  ultimately show ?thesis by (rule that)
qed

section \<open>A transfer\<close>

type_synonym exchange = "u8 list \<times> u8 list"

record y_file =
  f_name :: "u8 list"
  f_content :: "u8 list"
  f_first :: "u8 list"
  f_blocks :: "u8 list list"

definition valid_file :: "y_file \<Rightarrow> bool" where
  "valid_file f \<longleftrightarrow> y_first (f_name f) (length (f_content f)) (f_first f) \<and> length (f_content f) < 2 ^ 32 - 1 \<and>
     (\<forall>b\<in>set (f_blocks f). y_size (length b)) \<and> take (length (f_content f)) (concat (f_blocks f)) = f_content f"

primrec data_frames :: "u8 \<Rightarrow> u8 list list \<Rightarrow> exchange list" where
  "data_frames n [] = []"
| "data_frames n (b # bs) = (y_packet n b, [Y_ACK]) # data_frames (n + 1) bs"

definition file_frames :: "y_file \<Rightarrow> exchange list" where
  "file_frames f = (y_packet 0 (f_first f), [Y_ACK, Y_C]) # data_frames 1 (f_blocks f) @ [([Y_EOT], [Y_NAK]), ([Y_EOT], [Y_ACK, Y_C])]"

definition transfer :: "y_file list \<Rightarrow> u8 list \<Rightarrow> exchange list" where
  "transfer fs fin = concat (map file_frames fs) @ [(y_packet 0 fin, [Y_ACK])]"

text \<open>The blocks and answers of a script entry against a frame and its answers.\<close>

definition blocks_of :: "u8 list list \<times> u8 list \<Rightarrow> exchange \<Rightarrow> bool" where
  "blocks_of e x \<longleftrightarrow> concat (fst e) = fst x \<and> snd e = snd x \<and> length (fst e) < 2999"

definition sends :: "link \<Rightarrow> exchange list \<Rightarrow> bool" where
  "sends w xs \<longleftrightarrow> (xs \<noteq> [] \<longrightarrow> list_all2 blocks_of ((wire w, replies w) # script w) xs)"

definition awaits :: "link \<Rightarrow> u8 list \<Rightarrow> exchange list \<Rightarrow> bool" where
  "awaits w rs xs \<longleftrightarrow> replies w = rs \<and> list_all2 blocks_of (script w) xs"

lemma awaits_update [simp]:
  "awaits (w\<lparr>got_files := a\<rparr>) rs xs = awaits w rs xs" "awaits (w\<lparr>got_closed := b\<rparr>) rs xs = awaits w rs xs"
  by (simp_all add: awaits_def)

lemma reply_last: "awaits w [a] xs \<Longrightarrow> sends (link_reply a w) xs"
  by (cases "script w") (auto simp: awaits_def sends_def link_reply_def next_frame_def)

lemma reply_first: "awaits w (a # b # rs) xs \<Longrightarrow> awaits (link_reply a w) (b # rs) xs"
  by (simp add: awaits_def link_reply_def)

lemma reply_got [simp]: "got_files (link_reply a w) = got_files w" "got_closed (link_reply a w) = got_closed w"
  by (simp_all add: link_reply_def next_frame_def split: list.split prod.split)

text \<open>The receiver between two frames.\<close>

definition y_at :: "u8 \<Rightarrow> u16 \<Rightarrow> u8 \<Rightarrow> ymodem \<Rightarrow> bool" where
  "y_at n k first y \<longleftrightarrow> length (recv_buf y) = Y_PROT_FRAME_LEN_RECV \<and> recv_len y = 0 \<and> ymodem_packet_number y = n \<and>
     ymodem_file_number y = k \<and> y_first_packet_received y = first"

lemma loop_frame:
  assumes y: "y_at n k p y" and w: "sends w ((f, rs) # xs)" and f: "y_frame f" and r: "y_status r = Y_OK"
  obtains buf w1 where "ymodem_loop y_link r y w = do {
       (stop, r, y, w) \<leftarrow> on_frame y_link (hd f) r (y\<lparr>recv_buf := buf\<rparr>) w1;
       if stop then Some (ymodem_file_number y, y, w) else ymodem_loop y_link r y w }"
    "holds f (y\<lparr>recv_buf := buf\<rparr>)" "y_at n k p (y\<lparr>recv_buf := buf\<rparr>)" "awaits w1 rs xs"
    "got_files w1 = got_files w" "got_closed w1 = got_closed w"
proof -
  have c: "concat (wire w) = f" "length (wire w) < 2999" and a: "awaits w rs xs"
    using w by (auto simp: sends_def awaits_def blocks_of_def)
  have rb: "length (recv_buf y) = Y_PROT_FRAME_LEN_RECV" "recv_len y = 0" using y by (simp_all add: y_at_def)
  obtain buf bs now where g: "get_receive_data y_link y w = Some (True, y\<lparr>recv_buf := buf\<rparr>, w\<lparr>clock := now, wire := bs\<rparr>)"
    and h: "holds f (y\<lparr>recv_buf := buf\<rparr>)"
    using receive_frame[OF rb f c] by blast
  have hd: "rd buf 0 = Some (hd f)" using holds_first[OF h] y_frame_short[OF f] by simp
  have "ymodem_loop y_link r y w = do {
       (stop, r, y, w) \<leftarrow> on_frame y_link (hd f) r (y\<lparr>recv_buf := buf\<rparr>) (w\<lparr>clock := now, wire := bs\<rparr>);
       if stop then Some (ymodem_file_number y, y, w) else ymodem_loop y_link r y w }"
    by (subst ymodem_loop.simps) (simp add: r g hd)
  moreover have "awaits (w\<lparr>clock := now, wire := bs\<rparr>) rs xs" using a by (simp add: awaits_def)
  ultimately show ?thesis using h y by (intro that[of buf "w\<lparr>clock := now, wire := bs\<rparr>"]) (auto simp: y_at_def holds_def)
qed

lemma user_sel [simp]:
  "receive_nanme_size_callback y_link name n w = (0, w\<lparr>got_files := got_files w @ [(name, n, [])]\<rparr>)"
  "receive_file_data_callback y_link bytes w = (0, w\<lparr>got_files := butlast (got_files w) @
     [(fst (last (got_files w)), fst (snd (last (got_files w))), snd (snd (last (got_files w))) @ bytes)]\<rparr>)"
  "receive_file_callback y_link w = w\<lparr>got_closed := got_closed w + 1\<rparr>"
  by (simp_all add: y_link_def)

lemma y_frames [simp]: "y_size (length d) \<Longrightarrow> y_frame (y_packet n d)" "y_frame [Y_EOT]"
  by (auto simp: y_frame_def y_consts)

lemma on_frame_packet: "y_size (length d) \<Longrightarrow> on_frame u (hd (y_packet n d)) r y w = on_packet u r y w"
  by (simp add: on_frame_def y_packet_def)

definition run_at :: "u8 \<Rightarrow> y_run" where "run_at k = \<lparr>y_status = Y_OK, error_number = 0, eot_num = k\<rparr>"

lemma run_status [simp]: "y_status (run_at k) = Y_OK" by (simp add: run_at_def)

lemma drop_packet: "drop 3 (y_packet n d) = d @ [ucast (drop_bit 8 (ymodem_calc_crc d)), ucast (ymodem_calc_crc d)]"
  by (simp add: y_packet_def)

lemma first_step:
  assumes y: "y_at 0 k Y_NO_PACKET y" and w: "sends w ((y_packet 0 d, [Y_ACK, Y_C]) # xs)" and f: "y_first name len d"
  obtains y' w' where "ymodem_loop y_link (run_at e) y w = ymodem_loop y_link (run_at e) y' w'"
    "y_at 1 k Y_NO_PACKET y'" "recv_file_len y' = of_nat len" "sends w' xs"
    "got_files w' = got_files w @ [(name, of_nat len, [])]" "got_closed w' = got_closed w"
proof -
  have sz: "y_size (length d)" using f by (simp add: y_first_def)
  obtain buf w1 where l: "ymodem_loop y_link (run_at e) y w = do {
       (stop, r, y, w) \<leftarrow> on_frame y_link (hd (y_packet 0 d)) (run_at e) (y\<lparr>recv_buf := buf\<rparr>) w1;
       if stop then Some (ymodem_file_number y, y, w) else ymodem_loop y_link r y w }"
    and h: "holds (y_packet 0 d) (y\<lparr>recv_buf := buf\<rparr>)" and a: "y_at 0 k Y_NO_PACKET (y\<lparr>recv_buf := buf\<rparr>)" "awaits w1 [Y_ACK, Y_C] xs"
    and g: "got_files w1 = got_files w" "got_closed w1 = got_closed w"
    using loop_frame[OF y w y_frames(1)[OF sz] run_status] by blast
  define y1 where "y1 = y\<lparr>recv_buf := buf\<rparr>"
  define y2 where "y2 = y1\<lparr>recv_file_len := of_nat len, ymodem_packet_number := 1\<rparr>"
  define w2 where "w2 = w1\<lparr>got_files := got_files w1 @ [(name, of_nat len, [])]\<rparr>"
  have n: "length name \<noteq> 0" using f by (simp add: y_first_def)
  have y1: "ymodem_packet_number y1 = 0" "y_first_packet_received y1 = Y_NO_PACKET" "y_at 0 k Y_NO_PACKET y1" "holds (y_packet 0 d) y1"
    using a h by (simp_all add: y1_def y_at_def)
  have hn: "handle_name y_link (drop 3 (y_packet 0 d)) Y_OK y1 w1 = Some (Y_OK, y1\<lparr>recv_file_len := of_nat len\<rparr>, w2)"
    unfolding handle_name_def drop_packet using n by (simp add: first_packet_name[OF f] first_packet_len[OF f] w2_def)
  have p: "ymodem_handle_packet y_link y1 w1 = Some (Y_OK, y2, w2)"
    unfolding handle_packet[OF y1(4) sz] Let_def y1(1) packet_check_ok[OF sz] using hn y1 by (simp add: y2_def)
  have "on_frame y_link (hd (y_packet 0 d)) (run_at e) y1 w1 = Some (False, run_at e, y2, link_reply Y_C (link_reply Y_ACK w2))"
    unfolding on_frame_packet[OF sz] on_packet_def p using y1 by (simp add: y2_def Let_def)
  then have "ymodem_loop y_link (run_at e) y w = ymodem_loop y_link (run_at e) y2 (link_reply Y_C (link_reply Y_ACK w2))"
    using l by (simp add: y1_def)
  moreover have "awaits w2 [Y_ACK, Y_C] xs" using a by (simp add: w2_def)
  then have "sends (link_reply Y_C (link_reply Y_ACK w2)) xs" by (intro reply_last reply_first)
  ultimately show ?thesis using y1 g
    by (intro that[of y2 "link_reply Y_C (link_reply Y_ACK w2)"]) (simp_all add: y2_def w2_def y_at_def)
qed

lemma data_step:
  assumes y: "y_at n k p y" "p = Y_IS_PACKET \<or> n \<noteq> 0" and w: "sends w ((y_packet n d, [Y_ACK]) # xs)"
    and sz: "y_size (length d)" and left: "recv_file_len y = of_nat left" "left < 2 ^ 32 - 1"
    and open_file: "got_files w = fs @ [(name, len, bytes)]"
  obtains y' w' where "ymodem_loop y_link (run_at e) y w = ymodem_loop y_link (run_at e) y' w'"
    "y_at (n + 1) k Y_IS_PACKET y'" "recv_file_len y' = of_nat (left - length d)" "sends w' xs"
    "got_files w' = fs @ [(name, len, bytes @ take left d)]" "got_closed w' = got_closed w"
proof -
  obtain buf w1 where l: "ymodem_loop y_link (run_at e) y w = do {
       (stop, r, y, w) \<leftarrow> on_frame y_link (hd (y_packet n d)) (run_at e) (y\<lparr>recv_buf := buf\<rparr>) w1;
       if stop then Some (ymodem_file_number y, y, w) else ymodem_loop y_link r y w }"
    and h: "holds (y_packet n d) (y\<lparr>recv_buf := buf\<rparr>)" and a: "y_at n k p (y\<lparr>recv_buf := buf\<rparr>)" "awaits w1 [Y_ACK] xs"
    and g: "got_files w1 = got_files w" "got_closed w1 = got_closed w"
    using loop_frame[OF y(1) w y_frames(1)[OF sz] run_status] by blast
  define y1 where "y1 = y\<lparr>recv_buf := buf\<rparr>"
  define y2 where "y2 = y1\<lparr>recv_file_len := of_nat (left - length d), y_first_packet_received := Y_IS_PACKET, ymodem_packet_number := n + 1\<rparr>"
  define w2 where "w2 = w1\<lparr>got_files := fs @ [(name, len, bytes @ take left d)]\<rparr>"
  have y1: "ymodem_packet_number y1 = n" "y_first_packet_received y1 = p" "y_at n k p y1" "holds (y_packet n d) y1"
    using a h by (simp_all add: y1_def y_at_def)
  have u: "unat (of_nat left :: u32) = left" using left by (simp add: unat_of_nat_lt)
  have ff: "(of_nat left :: u32) \<noteq> 0xFFFFFFFF"
  proof
    assume "(of_nat left :: u32) = 0xFFFFFFFF"
    then have "unat (of_nat left :: u32) = unat (0xFFFFFFFF :: u32)" by (simp only:)
    then show False using u left by simp
  qed
  have hn: "handle_data y_link (drop 3 (y_packet n d)) (length d) Y_OK y1 w1 =
      Some (Y_OK, y1\<lparr>recv_file_len := of_nat (left - length d), y_first_packet_received := Y_IS_PACKET\<rparr>, w2)"
    unfolding handle_data_def drop_packet using left(1) g open_file
    by (cases "left < length d") (simp_all add: y1_def ff u rd_blk_def w2_def Let_def of_nat_diff not_less)
  have np: "(n = 0 \<and> p = Y_NO_PACKET) = False" using y(2) by (auto simp: y_consts)
  have p: "ymodem_handle_packet y_link y1 w1 = Some (Y_OK, y2, w2)"
    unfolding handle_packet[OF y1(4) sz] Let_def y1(1,2) packet_check_ok[OF sz] np using hn y1 by (simp add: y2_def)
  have "on_frame y_link (hd (y_packet n d)) (run_at e) y1 w1 = Some (False, run_at e, y2, link_reply Y_ACK w2)"
    unfolding on_frame_packet[OF sz] on_packet_def p by (simp add: y2_def Let_def y_consts)
  then have "ymodem_loop y_link (run_at e) y w = ymodem_loop y_link (run_at e) y2 (link_reply Y_ACK w2)" using l by (simp add: y1_def)
  moreover have "sends (link_reply Y_ACK w2) xs" using a by (intro reply_last) (simp add: w2_def)
  ultimately show ?thesis using y1 g by (intro that[of y2 "link_reply Y_ACK w2"]) (simp_all add: y2_def w2_def y_at_def)
qed

lemma eot_step:
  assumes y: "y_at n k p y" and w: "sends w (([Y_EOT], [Y_NAK]) # ([Y_EOT], [Y_ACK, Y_C]) # xs)"
  obtains y' w' where "ymodem_loop y_link (run_at 0) y w = ymodem_loop y_link (run_at 0) y' w'"
    "y_at 0 (k + 1) Y_NO_PACKET y'" "sends w' xs"
    "got_files w' = got_files w" "got_closed w' = got_closed w + 1"
proof -
  have eot: "on_frame u (hd [Y_EOT]) r y w = Some (False, on_eot u r y w)" for u :: "link y_user" and r y w
    by (simp add: on_frame_def y_consts)
  obtain b1 w1 where l1: "ymodem_loop y_link (run_at 0) y w = do {
       (stop, r, y, w) \<leftarrow> on_frame y_link (hd [Y_EOT]) (run_at 0) (y\<lparr>recv_buf := b1\<rparr>) w1;
       if stop then Some (ymodem_file_number y, y, w) else ymodem_loop y_link r y w }"
    and a1: "y_at n k p (y\<lparr>recv_buf := b1\<rparr>)" "awaits w1 [Y_NAK] (([Y_EOT], [Y_ACK, Y_C]) # xs)"
    and g1: "got_files w1 = got_files w" "got_closed w1 = got_closed w"
    using loop_frame[OF y w y_frames(2) run_status] by blast
  have e1: "on_eot y_link (run_at 0) (y\<lparr>recv_buf := b1\<rparr>) w1 = (run_at 1, y\<lparr>recv_buf := b1\<rparr>, link_reply Y_NAK w1)"
    by (simp add: on_eot_def run_at_def)
  obtain b2 w2 where l2: "ymodem_loop y_link (run_at 1) (y\<lparr>recv_buf := b1\<rparr>) (link_reply Y_NAK w1) = do {
       (stop, r, y, w) \<leftarrow> on_frame y_link (hd [Y_EOT]) (run_at 1) (y\<lparr>recv_buf := b1, recv_buf := b2\<rparr>) w2;
       if stop then Some (ymodem_file_number y, y, w) else ymodem_loop y_link r y w }"
    and "holds [Y_EOT] (y\<lparr>recv_buf := b1, recv_buf := b2\<rparr>)"
    and a2: "y_at n k p (y\<lparr>recv_buf := b1, recv_buf := b2\<rparr>)" "awaits w2 [Y_ACK, Y_C] xs"
    and g2: "got_files w2 = got_files (link_reply Y_NAK w1)" "got_closed w2 = got_closed (link_reply Y_NAK w1)"
    by (rule loop_frame[OF a1(1) reply_last[OF a1(2)] y_frames(2) run_status])
  define y2 where "y2 = y\<lparr>recv_buf := b2, y_first_packet_received := Y_NO_PACKET, ymodem_packet_number := 0,
     ymodem_file_number := ymodem_file_number y + 1\<rparr>"
  define w3 where "w3 = (link_reply Y_ACK w2)\<lparr>got_closed := got_closed w2 + 1\<rparr>"
  have e2: "on_eot y_link (run_at 1) (y\<lparr>recv_buf := b2\<rparr>) w2 = (run_at 0, y2, link_reply Y_C w3)"
    by (simp add: on_eot_def run_at_def y2_def w3_def)
  have "ymodem_loop y_link (run_at 0) y w = ymodem_loop y_link (run_at 0) y2 (link_reply Y_C w3)"
    using l1 l2 e1 e2 by (simp add: eot del: list.sel)
  moreover have "awaits w3 [Y_C] xs" unfolding w3_def awaits_update by (rule reply_first[OF a2(2)])
  then have "sends (link_reply Y_C w3) xs" by (rule reply_last)
  ultimately show ?thesis using a2 g1 g2
    by (intro that[of y2 "link_reply Y_C w3"]) (simp_all add: y2_def w3_def y_at_def)
qed

lemma end_step:
  assumes y: "y_at 0 k Y_NO_PACKET y" and w: "sends w [(y_packet 0 d, [Y_ACK])]" and sz: "y_size (length d)" and d: "d ! 0 = 0"
  obtains y' w' where "ymodem_loop y_link (run_at e) y w = Some (k, y', w')"
    "got_files w' = got_files w" "got_closed w' = got_closed w"
proof -
  obtain buf w1 where l: "ymodem_loop y_link (run_at e) y w = do {
       (stop, r, y, w) \<leftarrow> on_frame y_link (hd (y_packet 0 d)) (run_at e) (y\<lparr>recv_buf := buf\<rparr>) w1;
       if stop then Some (ymodem_file_number y, y, w) else ymodem_loop y_link r y w }"
    and h: "holds (y_packet 0 d) (y\<lparr>recv_buf := buf\<rparr>)" and a: "y_at 0 k Y_NO_PACKET (y\<lparr>recv_buf := buf\<rparr>)"
    and g: "got_files w1 = got_files w" "got_closed w1 = got_closed w"
    using loop_frame[OF y w y_frames(1)[OF sz] run_status] by blast
  obtain ds where dd: "d = 0 # ds" using sz d by (cases d) (auto simp: y_size_def)
  define y1 where "y1 = y\<lparr>recv_buf := buf\<rparr>"
  have y1: "ymodem_packet_number y1 = 0" "y_first_packet_received y1 = Y_NO_PACKET" "ymodem_file_number y1 = k" "holds (y_packet 0 d) y1"
    using a h by (simp_all add: y1_def y_at_def)
  have hn: "handle_name y_link (drop 3 (y_packet 0 d)) Y_OK y1 w1 = Some (Y_EOY, y1, w1)"
    unfolding handle_name_def drop_packet by (simp add: dd strcpy_from_def Y_OK_def)
  have p: "ymodem_handle_packet y_link y1 w1 = Some (Y_EOY, y1, w1)"
    unfolding handle_packet[OF y1(4) sz] Let_def y1(1) packet_check_ok[OF sz] using hn y1 by (simp add: y_consts)
  have "on_frame y_link (hd (y_packet 0 d)) (run_at e) y1 w1 = Some (True, run_at e, y1, link_reply Y_ACK w1)"
    unfolding on_frame_packet[OF sz] on_packet_def p by (simp add: y_consts)
  then have "ymodem_loop y_link (run_at e) y w = Some (k, y1, link_reply Y_ACK w1)" using l y1(3) by (simp add: y1_def)
  then show ?thesis using g by (intro that[of y1 "link_reply Y_ACK w1"]) simp_all
qed

lemma blocks_steps:
  assumes "y_at n k p y" "p = Y_IS_PACKET \<or> n \<noteq> 0" "sends w (data_frames n bs @ xs)"
    "\<forall>b\<in>set bs. y_size (length b)" "recv_file_len y = of_nat left" "left < 2 ^ 32 - 1" "got_files w = fs @ [(name, len, bytes)]"
  shows "\<exists>y' w' n' p'. ymodem_loop y_link (run_at e) y w = ymodem_loop y_link (run_at e) y' w' \<and> y_at n' k p' y' \<and> sends w' xs \<and>
     got_files w' = fs @ [(name, len, bytes @ take left (concat bs))] \<and> got_closed w' = got_closed w"
  using assms
proof (induction bs arbitrary: n p y w left bytes)
  case Nil then show ?case by auto
next
  case (Cons b bs)
  have w: "sends w ((y_packet n b, [Y_ACK]) # data_frames (n + 1) bs @ xs)" using Cons.prems by simp
  obtain y1 w1 where s: "ymodem_loop y_link (run_at e) y w = ymodem_loop y_link (run_at e) y1 w1"
    "y_at (n + 1) k Y_IS_PACKET y1" "recv_file_len y1 = of_nat (left - length b)" "sends w1 (data_frames (n + 1) bs @ xs)"
    "got_files w1 = fs @ [(name, len, bytes @ take left b)]" "got_closed w1 = got_closed w"
    using data_step[OF Cons.prems(1,2) w _ Cons.prems(5,6,7)] Cons.prems(4) by auto
  have "\<exists>y' w' n' p'. ymodem_loop y_link (run_at e) y1 w1 = ymodem_loop y_link (run_at e) y' w' \<and> y_at n' k p' y' \<and> sends w' xs \<and>
     got_files w' = fs @ [(name, len, (bytes @ take left b) @ take (left - length b) (concat bs))] \<and> got_closed w' = got_closed w1"
    using Cons.prems by (intro Cons.IH[OF s(2) _ s(4) _ s(3) _ s(5)]) auto
  then show ?case using s by simp
qed

lemma file_steps:
  assumes y: "y_at 0 k Y_NO_PACKET y" and w: "sends w (file_frames f @ xs)" and f: "valid_file f"
  obtains y' w' where "ymodem_loop y_link (run_at 0) y w = ymodem_loop y_link (run_at 0) y' w'"
    "y_at 0 (k + 1) Y_NO_PACKET y'" "sends w' xs"
    "got_files w' = got_files w @ [(f_name f, of_nat (length (f_content f)), f_content f)]" "got_closed w' = got_closed w + 1"
proof -
  define c where "c = f_content f"
  have v: "y_first (f_name f) (length c) (f_first f)" "length c < 2 ^ 32 - 1" "\<forall>b\<in>set (f_blocks f). y_size (length b)"
    "take (length c) (concat (f_blocks f)) = c" using f by (simp_all add: valid_file_def c_def)
  have w': "sends w ((y_packet 0 (f_first f), [Y_ACK, Y_C]) # data_frames 1 (f_blocks f) @ ([Y_EOT], [Y_NAK]) # ([Y_EOT], [Y_ACK, Y_C]) # xs)"
    using w by (simp add: file_frames_def)
  obtain y1 w1 where 1: "ymodem_loop y_link (run_at 0) y w = ymodem_loop y_link (run_at 0) y1 w1"
    "y_at 1 k Y_NO_PACKET y1" "recv_file_len y1 = of_nat (length c)"
    "sends w1 (data_frames 1 (f_blocks f) @ ([Y_EOT], [Y_NAK]) # ([Y_EOT], [Y_ACK, Y_C]) # xs)"
    "got_files w1 = got_files w @ [(f_name f, of_nat (length c), [])]" "got_closed w1 = got_closed w"
    using first_step[OF y w' v(1)] by blast
  obtain y2 w2 n p where 2: "ymodem_loop y_link (run_at 0) y1 w1 = ymodem_loop y_link (run_at 0) y2 w2" "y_at n k p y2"
    "sends w2 (([Y_EOT], [Y_NAK]) # ([Y_EOT], [Y_ACK, Y_C]) # xs)"
    "got_files w2 = got_files w @ [(f_name f, of_nat (length c), c)]" "got_closed w2 = got_closed w1"
    using blocks_steps[OF 1(2) _ 1(4) v(3) 1(3) v(2) 1(5), of 0] v(4) by auto
  obtain y3 w3 where 3: "ymodem_loop y_link (run_at 0) y2 w2 = ymodem_loop y_link (run_at 0) y3 w3"
    "y_at 0 (k + 1) Y_NO_PACKET y3" "sends w3 xs" "got_files w3 = got_files w2" "got_closed w3 = got_closed w2 + 1"
    using eot_step[OF 2(2,3)] by blast
  show ?thesis using 1 2 3 by (intro that[of y3 w3]) (simp_all add: c_def)
qed

lemma transfer_steps:
  "\<forall>f\<in>set fs. valid_file f \<Longrightarrow> y_size (length fin) \<Longrightarrow> fin ! 0 = 0 \<Longrightarrow> y_at 0 k Y_NO_PACKET y \<Longrightarrow> sends w (transfer fs fin) \<Longrightarrow>
   \<exists>y' w'. ymodem_loop y_link (run_at 0) y w = Some (k + of_nat (length fs), y', w') \<and>
     got_files w' = got_files w @ map (\<lambda>f. (f_name f, of_nat (length (f_content f)), f_content f)) fs \<and>
     got_closed w' = got_closed w + length fs"
proof (induction fs arbitrary: k y w)
  case Nil
  then have "sends w [(y_packet 0 fin, [Y_ACK])]" by (simp add: transfer_def)
  then obtain y' w' where "ymodem_loop y_link (run_at 0) y w = Some (k, y', w')" "got_files w' = got_files w" "got_closed w' = got_closed w"
    by (rule end_step[OF Nil(4) _ Nil(2,3)])
  then show ?case by simp
next
  case (Cons f fs)
  have "sends w (file_frames f @ transfer fs fin)" using Cons.prems by (simp add: transfer_def)
  moreover have "valid_file f" using Cons.prems by simp
  ultimately obtain y1 w1 where s: "ymodem_loop y_link (run_at 0) y w = ymodem_loop y_link (run_at 0) y1 w1"
    "y_at 0 (k + 1) Y_NO_PACKET y1" "sends w1 (transfer fs fin)"
    "got_files w1 = got_files w @ [(f_name f, of_nat (length (f_content f)), f_content f)]" "got_closed w1 = got_closed w + 1"
    using file_steps[OF Cons.prems(4)] by blast
  have "\<forall>f\<in>set fs. valid_file f" using Cons.prems by simp
  from Cons.IH[OF this Cons.prems(2,3) s(2,3)] obtain y2 w2 where
    "ymodem_loop y_link (run_at 0) y1 w1 = Some (k + 1 + of_nat (length fs), y2, w2)"
    "got_files w2 = got_files w1 @ map (\<lambda>f. (f_name f, of_nat (length (f_content f)), f_content f)) fs"
    "got_closed w2 = got_closed w1 + length fs" by blast
  then show ?case using s by (auto simp: ac_simps)
qed

section \<open>Transmission errors\<close>

text \<open>A packet of which one byte of the data has changed on the way.\<close>

definition holds_changed :: "u8 \<Rightarrow> u8 list \<Rightarrow> nat \<Rightarrow> u8 \<Rightarrow> ymodem \<Rightarrow> bool" where
  "holds_changed n d i b y \<longleftrightarrow> y_size (length d) \<and> i < length d \<and> b \<noteq> d ! i \<and> length (recv_buf y) = Y_PROT_FRAME_LEN_RECV \<and>
     take (length d + 5) (recv_buf y) = (y_packet n d)[i + 3 := b]"

lemma packet_changed: "i < length d \<Longrightarrow> (y_packet n d)[i + 3 := b] =
    [if length d = 128 then Y_SOH else Y_STX, n, NOT n] @ d[i := b] @ [ucast (drop_bit 8 (ymodem_calc_crc d)), ucast (ymodem_calc_crc d)]"
  by (simp add: y_packet_def list_update_append numeral_3_eq_3)

lemma check_changed:
  assumes "y_size (length d)" "i < length d" "b \<noteq> d ! i"
  shows "packet_check ((y_packet n d)[i + 3 := b]) (length d) m =
    (if m = n then Y_ERROR_CRC else Y_ERROR_CRC OR Y_ERROR_NUMBER)"
proof -
  define q where "q = (y_packet n d)[i + 3 := b]"
  have q: "q = [if length d = 128 then Y_SOH else Y_STX, n, NOT n] @ d[i := b] @
      [ucast (drop_bit 8 (ymodem_calc_crc d)), ucast (ymodem_calc_crc d)]" unfolding q_def by (rule packet_changed[OF assms(2)])
  have "d = take i d @ d ! i # drop (Suc i) d" using assms(2) by (rule id_take_nth_drop)
  moreover have "d[i := b] = take i d @ b # drop (Suc i) d" using assms(2) by (rule upd_conv_take_nth_drop)
  ultimately have c: "ymodem_calc_crc (d[i := b]) \<noteq> ymodem_calc_crc d" using crc_changed_byte[OF assms(3)] by metis
  have a: "q ! (length d + 3) = ucast (drop_bit 8 (ymodem_calc_crc d))" "q ! (length d + 4) = ucast (ymodem_calc_crc d)"
    by (simp_all add: q nth_append)
  have e: "q ! 1 = n" "q ! 2 = NOT n" "take (length d) (drop 3 q) = d[i := b]" by (simp_all add: q)
  show ?thesis unfolding q_def[symmetric] packet_check_def y_sizes a e
    by (simp add: crc_join unat_not8 c y_consts del: unsigned_not_eq)
qed

lemma handle_changed:
  assumes h: "holds_changed n d i b y"
  shows "ymodem_handle_packet u y w = do {
     (status, y, w) \<leftarrow>
       (let data = d[i := b] @ [ucast (drop_bit 8 (ymodem_calc_crc d)), ucast (ymodem_calc_crc d)];
            status = (if ymodem_packet_number y = n then Y_ERROR_CRC else Y_ERROR_CRC OR Y_ERROR_NUMBER) in
        if n = 0 \<and> y_first_packet_received y = Y_NO_PACKET then handle_name u data status y w
        else handle_data u data (length d) status y w);
     Some (status, if status = Y_OK then y\<lparr>ymodem_packet_number := ymodem_packet_number y + 1\<rparr> else y, w) }"
proof -
  define q where "q = (y_packet n d)[i + 3 := b]"
  have sz: "y_size (length d)" "i < length d" "b \<noteq> d ! i" and t: "take (length d + 5) (recv_buf y) = q" "length (recv_buf y) = 1100"
    using h by (simp_all add: holds_changed_def q_def y_sizes)
  have q: "q = [if length d = 128 then Y_SOH else Y_STX, n, NOT n] @ d[i := b] @
      [ucast (drop_bit 8 (ymodem_calc_crc d)), ucast (ymodem_calc_crc d)]" unfolding q_def by (rule packet_changed[OF sz(2)])
  have l: "length q = length d + 5" "hd q = (if length d = 128 then Y_SOH else Y_STX)" "q ! 1 = n"
    "drop 3 q = d[i := b] @ [ucast (drop_bit 8 (ymodem_calc_crc d)), ucast (ymodem_calc_crc d)]" by (simp_all add: q)
  then have "holds q y" using t sz by (auto simp: holds_def y_sizes y_size_def)
  have pc: "packet_check q (length d) m = (if m = n then Y_ERROR_CRC else Y_ERROR_CRC OR Y_ERROR_NUMBER)" for m
    unfolding q_def by (rule check_changed[OF sz])
  from handle_held[OF \<open>holds q y\<close> sz(1) l(1,2), of u w] show ?thesis
    by (simp only: pc l(3,4) Let_def)
qed

text \<open>While the callbacks succeed, nothing is added to the status of a packet that names a file or holds data.\<close>

lemma handle_name_keeps:
  assumes "handle_name u data status y w = Some (st, y', w')" "\<And>name len w. fst (receive_nanme_size_callback u name len w) = 0"
    and "data = b # bs" "b \<noteq> 0"
  shows "st = status \<and> ymodem_packet_number y' = ymodem_packet_number y"
proof -
  have c: "receive_nanme_size_callback u name len w = (r, w1) \<Longrightarrow> r = 0" for name len r w1 using assms(2)[of name len w] by simp
  show ?thesis using assms(1,3,4) unfolding handle_name_def
    by (auto simp: strcpy_from_def Let_def split: bind_splits if_splits prod.splits dest: c)
qed

lemma handle_data_keeps:
  assumes "handle_data u data k status y w = Some (st, y', w')" "\<And>bytes w. fst (receive_file_data_callback u bytes w) = 0"
  shows "st = status \<and> ymodem_packet_number y' = ymodem_packet_number y"
proof -
  have c: "receive_file_data_callback u bytes w = (r, w1) \<Longrightarrow> r = 0" for bytes r w1 using assms(2)[of bytes w] by simp
  show ?thesis using assms(1) unfolding handle_data_def Let_def
    by (auto split: bind_splits if_splits prod.splits dest: c)
qed

lemma changed_status:
  assumes h: "holds_changed n d i b y"
    and cb: "\<And>bytes w. fst (receive_file_data_callback u bytes w) = 0" "\<And>name len w. fst (receive_nanme_size_callback u name len w) = 0"
    and nm: "\<not> (n = 0 \<and> y_first_packet_received y = Y_NO_PACKET \<and> d[i := b] ! 0 = 0)"
    and p: "ymodem_handle_packet u y w = Some (st, y', w')"
  shows "st = (if ymodem_packet_number y = n then Y_ERROR_CRC else Y_ERROR_CRC OR Y_ERROR_NUMBER) \<and>
    ymodem_packet_number y' = ymodem_packet_number y"
proof -
  define st0 where "st0 = (if ymodem_packet_number y = n then Y_ERROR_CRC else Y_ERROR_CRC OR Y_ERROR_NUMBER)"
  define data where "data = d[i := b] @ [ucast (drop_bit 8 (ymodem_calc_crc d)), ucast (ymodem_calc_crc d)]"
  define m where "m = (if n = 0 \<and> y_first_packet_received y = Y_NO_PACKET then handle_name u data st0 y w
     else handle_data u data (length d) st0 y w)"
  have ne: "st0 \<noteq> Y_OK" by (simp add: st0_def y_consts)
  have "m \<bind> (\<lambda>(status, y, w). Some (status, if status = Y_OK then y\<lparr>ymodem_packet_number := ymodem_packet_number y + 1\<rparr> else y, w))
      = Some (st, y', w')"
    using p unfolding handle_changed[OF h] Let_def st0_def[symmetric] data_def[symmetric] m_def .
  then obtain st1 y1 w1 where m: "m = Some (st1, y1, w1)"
    and r: "st = st1" "y' = (if st1 = Y_OK then y1\<lparr>ymodem_packet_number := ymodem_packet_number y1 + 1\<rparr> else y1)"
    by (cases m) auto
  have "st1 = st0 \<and> ymodem_packet_number y1 = ymodem_packet_number y"
  proof (cases "n = 0 \<and> y_first_packet_received y = Y_NO_PACKET")
    case True
    have "d[i := b] \<noteq> []" using h by (auto simp: holds_changed_def y_size_def)
    then obtain x xs where "d[i := b] = x # xs" by (cases "d[i := b]") auto
    then have "data = x # xs @ [ucast (drop_bit 8 (ymodem_calc_crc d)), ucast (ymodem_calc_crc d)]" "x \<noteq> 0"
      using nm True by (simp_all add: data_def)
    with handle_name_keeps[OF _ cb(2)] m True show ?thesis unfolding m_def by auto
  next
    case False
    with handle_data_keeps[OF _ cb(1)] m show ?thesis unfolding m_def by (metis (full_types))
  qed
  then show ?thesis using r ne by (simp add: st0_def[symmetric])
qed

text \<open>What the callbacks get of such a packet, and the two ways in which it ends the transfer.\<close>

lemma changed_byte_delivered:
  assumes h: "holds_changed n d i b y" and y: "y_at n k Y_IS_PACKET y"
    and left: "recv_file_len y = of_nat left" "left < 2 ^ 32 - 1" and open_file: "got_files w = fs @ [(name, len, bytes)]"
  shows "\<exists>y' w'. ymodem_handle_packet y_link y w = Some (Y_ERROR_CRC, y', w') \<and>
     got_files w' = fs @ [(name, len, bytes @ take left (d[i := b]))] \<and> recv_file_len y' = of_nat (left - length d)"
proof -
  have sz: "y_size (length d)" "i < length d" "b \<noteq> d ! i" using h by (simp_all add: holds_changed_def)
  have u: "unat (of_nat left :: u32) = left" using left by (simp add: unat_of_nat_lt)
  have ff: "(of_nat left :: u32) \<noteq> 0xFFFFFFFF"
  proof
    assume "(of_nat left :: u32) = 0xFFFFFFFF"
    then have "unat (of_nat left :: u32) = unat (0xFFFFFFFF :: u32)" by (simp only:)
    then show False using u left by simp
  qed
  have y': "ymodem_packet_number y = n" "y_first_packet_received y = Y_IS_PACKET" using y by (simp_all add: y_at_def)
  have np: "(n = 0 \<and> Y_IS_PACKET = Y_NO_PACKET) = False" by (simp add: y_consts)
  show ?thesis
    unfolding handle_changed[OF h] Let_def y' np handle_data_def
    using left(1) open_file
    by (cases "left < length d") (simp_all add: ff u rd_blk_def Let_def of_nat_diff not_less y_consts)
qed

lemma changed_end_ends:
  assumes h: "holds_changed 0 d i b y" and y: "y_at 0 k Y_NO_PACKET y" and e: "d[i := b] ! 0 = 0"
  shows "ymodem_handle_packet u y w = Some (Y_EOY, y, w)"
proof -
  have sz: "y_size (length d)" "i < length d" "b \<noteq> d ! i" using h by (simp_all add: holds_changed_def)
  then obtain ds where "d[i := b] = 0 # ds" using e by (cases "d[i := b]") (auto simp: y_size_def)
  then show ?thesis using y
    unfolding handle_changed[OF h] Let_def handle_name_def
    by (simp add: y_at_def strcpy_from_def y_consts)
qed

lemma crc_error_and_flash_error: "Y_ERROR_CRC OR Y_ERROR_FLASH = Y_EOY"
  by (simp add: y_consts)

lemma no_length_is_zero: "get_file_len ([0x61, 0] @ replicate 126 0) = Some 0"
  by code_simp

lemma long_name_overflows: "50 \<le> length name \<Longrightarrow> 0 \<notin> set name \<Longrightarrow> handle_name u (name @ 0 # t) st y w = None"
proof -
  assume "50 \<le> length name" "0 \<notin> set name"
  moreover from this have "takeWhile (\<lambda>b. b \<noteq> 0) (name @ 0 # t) = name" by (subst takeWhile_append2) auto
  ultimately show ?thesis by (simp add: handle_name_def strcpy_from_def)
qed

end
