(* ===== verification/Ymodem_Ex.thy ===== *)
theory Ymodem_Ex
  imports Ymodem_Link
begin

text \<open>
  What holds of the Ymodem receiver: a transfer delivers its files, and a packet of which a byte has changed is
  noticed; with an example of each.
\<close>

text \<open>
  The general form, with the number of files modulo 2^16: from 32768 files on it reaches the bit that stands for an error.
\<close>

lemma ymodem_takes_files:
  fixes w :: link
  assumes files: "\<forall>f\<in>set fs. valid_file f" and fin: "y_size (length fin)" "fin ! 0 = 0"
    and w: "replies w = [Y_C]" "list_all2 blocks_of (script w) (transfer fs fin)"
  shows "\<exists>y' w'. ymodem_receive y_link y w = Some (of_nat (length fs), y', w') \<and>
     got_files w' = got_files w @ map (\<lambda>f. (f_name f, of_nat (length (f_content f)), f_content f)) fs \<and>
     got_closed w' = got_closed w + length fs"
proof -
  define y0 where "y0 = (reset_recv_len y)\<lparr>y_first_packet_received := Y_NO_PACKET, ymodem_packet_number := 0, ymodem_file_number := 0,
     recv_buf := replicate Y_PROT_FRAME_LEN_RECV 0\<rparr>"
  have "y_at 0 0 Y_NO_PACKET y0" by (simp add: y_at_def y0_def reset_recv_len_def)
  moreover have "sends (link_reply Y_C w) (transfer fs fin)" using w by (intro reply_last) (simp add: awaits_def)
  ultimately show ?thesis
    using transfer_steps[OF files fin] by (simp add: ymodem_receive_def y0_def[symmetric] run_at_def[symmetric]) fastforce
qed

text \<open>What the callers read from an answer: bit 15 says that an error ended the transfer.\<close>

definition y_failed :: "u16 \<Rightarrow> bool" where "y_failed answer \<longleftrightarrow> bit answer 15"

lemma y_failed_less:
  assumes "n < 65536"
  shows "y_failed (of_nat n) \<longleftrightarrow> 32768 \<le> n"
proof -
  have "y_failed (of_nat n) \<longleftrightarrow> odd (n div 32768)" unfolding y_failed_def bit_of_nat_iff using bit_iff_odd[of n 15] by simp
  moreover have "n div 32768 = (if 32768 \<le> n then 1 else 0)" using assms by (auto simp: div_nat_eqI)
  ultimately show ?thesis by simp
qed

lemma full_count_looks_failed:
  fixes w :: link
  assumes "\<forall>f\<in>set fs. valid_file f" "y_size (length fin)" "fin ! 0 = 0" "replies w = [Y_C]"
    "list_all2 blocks_of (script w) (transfer fs fin)" "length fs = 32768"
  shows "\<exists>answer y' w'. ymodem_receive y_link y w = Some (answer, y', w') \<and> y_failed answer"
proof -
  obtain y' w' where "ymodem_receive y_link y w = Some (of_nat 32768, y', w')"
    using ymodem_takes_files[OF assms(1-5), of y] unfolding assms(6) by blast
  then show ?thesis using y_failed_less[of 32768] by (intro exI conjI) (assumption, simp)
qed

text \<open>
  C15: Opposite a sender that follows the protocol, the receiver takes up to 32767 files over in one call: it sends the
  answers the sender waits for, hands every name, length and content to the callbacks, cut to the length announced,
  and answers the number of files without the mark of an error, however the frames are divided into blocks, with any pauses
  below the timeout.
\<close>

theorem ymodem_delivers_files:
  fixes w :: link
  assumes files: "\<forall>f\<in>set fs. valid_file f" and fin: "y_size (length fin)" "fin ! 0 = 0" and few: "length fs < 32768"
    and w: "replies w = [Y_C]" "list_all2 blocks_of (script w) (transfer fs fin)"
  shows "\<exists>answer y' w'. ymodem_receive y_link y w = Some (answer, y', w') \<and>
     unat answer = length fs \<and> \<not> y_failed answer \<and>
     got_files w' = got_files w @ map (\<lambda>f. (f_name f, of_nat (length (f_content f)), f_content f)) fs \<and>
     got_closed w' = got_closed w + length fs"
proof -
  have "unat (of_nat (length fs) :: u16) = length fs" "\<not> y_failed (of_nat (length fs))"
    using few y_failed_less[of "length fs"] by (simp_all add: unat_of_nat_lt16)
  with ymodem_takes_files[OF files fin w, of y] show ?thesis by blast
qed

text \<open>
  C35: A packet of which one byte of the data has changed on the way is refused while the callbacks succeed: it is not counted,
  its status is the checksum error (with the one for the number, if that is not the next), and the receiver
  answers NAK, or cancels the transfer at the tenth error. The one exception is the first packet when the change
  empties its name.
\<close>

theorem ymodem_changed_byte_noticed:
  assumes h: "holds_changed n d i b y"
    and cb: "\<And>bytes w. fst (receive_file_data_callback u bytes w) = 0" "\<And>name len w. fst (receive_nanme_size_callback u name len w) = 0"
    and nm: "\<not> (n = 0 \<and> y_first_packet_received y = Y_NO_PACKET \<and> d[i := b] ! 0 = 0)"
    and p: "on_packet u r y w = Some (fin, r', y', w')"
  shows "\<exists>y1 w1. ymodem_handle_packet u y w =
       Some (if ymodem_packet_number y = n then Y_ERROR_CRC else Y_ERROR_CRC OR Y_ERROR_NUMBER, y1, w1) \<and>
     \<not> fin \<and> ymodem_packet_number y' = ymodem_packet_number y \<and> error_number r' = error_number r + 1 \<and>
     (if error_number r + 1 \<ge> Y_MAY_ERRORS then y_status r' = Y_ERROR \<and> w' = y_transmit_ch u Y_CAN (y_transmit_ch u Y_CAN w1)
      else y_status r' = Y_OK \<and> w' = y_transmit_ch u Y_NAK w1)"
proof -
  obtain st y1 w1 where hp: "ymodem_handle_packet u y w = Some (st, y1, w1)"
    and st: "st = (if ymodem_packet_number y = n then Y_ERROR_CRC else Y_ERROR_CRC OR Y_ERROR_NUMBER)"
    and num: "ymodem_packet_number y1 = ymodem_packet_number y"
  proof (cases "ymodem_handle_packet u y w")
    case None
    then show ?thesis using p by (simp add: on_packet_def)
  next
    case (Some t)
    obtain st y1 w1 where t: "t = (st, y1, w1)" by (cases t) auto
    from that[OF Some[unfolded t]] changed_status[OF h cb nm Some[unfolded t]] show ?thesis by blast
  qed
  have "st \<noteq> Y_OK" "st \<noteq> Y_ERROR_FLASH" "st \<noteq> Y_EOY" by (simp_all add: st y_consts)
  then have "(fin, r', y', w') = (False, run_error u (error_number r) r y1 w1)" using p by (simp add: on_packet_def hp)
  then show ?thesis using hp num
    by (auto simp: st[symmetric] run_error_def ymodem_error_handler_def Let_def reset_recv_len_def)
qed

section \<open>An example\<close>

text \<open>The file \<open>a\<close> with the bytes 1, 2, 3, each frame in one block.\<close>

definition ex_file :: y_file where
  "ex_file = \<lparr>f_name = [0x61], f_content = [1, 2, 3], f_first = [0x61, 0, 0x33] @ replicate 125 0, f_blocks = [[1, 2, 3] @ replicate 125 0x1A]\<rparr>"

definition ex_link :: link where
  "ex_link = \<lparr>clock = 0, wire = [], replies = [Y_C], script = map (\<lambda>x. ([fst x], snd x)) (transfer [ex_file] (replicate 128 0)),
     got_files = [], got_closed = 0\<rparr>"

lemma ex_file_valid: "valid_file ex_file"
  by (simp add: valid_file_def ex_file_def y_first_def y_size_def is_digit_def number_of_def)

lemma one_block: "list_all2 blocks_of (map (\<lambda>x. ([fst x], snd x)) xs) xs"
  by (induction xs) (simp_all add: blocks_of_def)

theorem ymodem_delivers_files_witness:
  "\<exists>answer y' w'. ymodem_receive y_link ymodem_static ex_link = Some (answer, y', w') \<and> unat answer = 1 \<and> got_files w' = [([0x61], 3, [1, 2, 3])] \<and> got_closed w' = 1"
proof -
  have f: "\<forall>f\<in>set [ex_file]. valid_file f" by (simp add: ex_file_valid)
  have s: "y_size (length (replicate 128 (0 :: u8)))" "replicate 128 (0 :: u8) ! 0 = 0" by (simp_all add: y_size_def)
  have w: "replies ex_link = [Y_C]" "list_all2 blocks_of (script ex_link) (transfer [ex_file] (replicate 128 0))"
    by (simp_all add: ex_link_def one_block)
  have "length [ex_file] < 32768" by simp
  from ymodem_delivers_files[OF f s this w, of ymodem_static] show ?thesis by (auto simp: ex_link_def ex_file_def)
qed

text \<open>The data packet of that file with its second byte changed.\<close>

definition ex_changed :: ymodem where
  "ex_changed = ymodem_static\<lparr>recv_buf := (y_packet 1 ([1, 2, 3] @ replicate 125 0x1A))[1 + 3 := 7] @ replicate 967 0, ymodem_packet_number := 1,
     recv_file_len := 3\<rparr>"

lemma ex_holds: "holds_changed 1 ([1, 2, 3] @ replicate 125 0x1A) 1 7 ex_changed"
  by (simp add: holds_changed_def ex_changed_def y_size_def y_sizes)

lemma ex_delivered:
  "\<exists>y' w'. ymodem_handle_packet y_link ex_changed (ex_link\<lparr>got_files := [([0x61], 3, [])]\<rparr>) = Some (Y_ERROR_CRC, y', w')"
proof -
  have y: "y_at 1 0 Y_IS_PACKET ex_changed" by (simp add: y_at_def ex_changed_def ymodem_static_def y_sizes)
  have l: "recv_file_len ex_changed = of_nat 3" "(3::nat) < 2 ^ 32 - 1" by (simp_all add: ex_changed_def)
  have g: "got_files (ex_link\<lparr>got_files := [([0x61], 3, [])]\<rparr>) = [] @ [([0x61], 3, [])]" by simp
  show ?thesis using changed_byte_delivered[OF ex_holds y l g] by blast
qed

theorem ymodem_changed_byte_noticed_witness:
  "\<exists>r' y' w' w1. on_packet y_link (run_at 0) ex_changed (ex_link\<lparr>got_files := [([0x61], 3, [])]\<rparr>) = Some (False, r', y', w') \<and>
     w' = y_transmit_ch y_link Y_NAK w1 \<and> error_number r' = 1 \<and> ymodem_packet_number y' = 1"
proof -
  let ?w = "ex_link\<lparr>got_files := [([0x61], 3, [])]\<rparr>"
  obtain y1 w1 where h: "ymodem_handle_packet y_link ex_changed ?w = Some (Y_ERROR_CRC, y1, w1)" using ex_delivered by blast
  then obtain r' y' w' where p: "on_packet y_link (run_at 0) ex_changed ?w = Some (False, r', y', w')"
    by (cases "run_error y_link (error_number (run_at 0)) (run_at 0) y1 w1") (simp add: on_packet_def y_consts)
  have "ymodem_packet_number ex_changed = 1" "error_number (run_at 0) = 0" by (simp_all add: ex_changed_def run_at_def)
  moreover have "\<not> Y_MAY_ERRORS \<le> 0 + 1" by (simp add: Y_MAY_ERRORS_def word_le_nat_alt)
  ultimately show ?thesis using p ymodem_changed_byte_noticed[OF ex_holds _ _ _ p] by (auto simp: y_consts)
qed

end
