(* ===== verification/Spec2Isabelle.thy ===== *)
theory Spec2Isabelle
  imports Lwrb Elog_Buffer Crc Mb_Core Multi_Button Fdb_Utils Tsdb_Life Fota_Ex Sfud_Ex Ymodem_Ex
begin

text \<open>
  Verification library for the mcu_utilities collection of C libraries for microcontrollers.

  \<^bold>\<open>The program.\<close> The repository is a collection of libraries that firmware links together.
  Three chains run through it. Storage: \<^verbatim>\<open>SFUD\<close> drives a serial flash chip, \<^verbatim>\<open>RTT_FAL\<close> cuts flash
  devices into partitions, \<^verbatim>\<open>FlashDB\<close> keeps its databases and \<^verbatim>\<open>fota\<close> its firmware images in them, and
  the checksums of \<^verbatim>\<open>check\<close> and \<^verbatim>\<open>fota_crc.c\<close> guard what is stored. Communication: \<^verbatim>\<open>FreeModbus\<close> is
  a Modbus slave with framing, function handlers and register tables, and \<^verbatim>\<open>ymodem\<close> receives files. Buffers and input: \<^verbatim>\<open>lwrb\<close>, the
  log buffers of \<^verbatim>\<open>easylogger\<close>, and the buttons of \<^verbatim>\<open>MultiButton\<close>.

  \<^bold>\<open>How C is modelled.\<close> (\<^verbatim>\<open>C_Prelude\<close>) Integers are words of their width, so arithmetic wraps as in C;
  signed results are read with \<open>sint\<close> or are \<open>int\<close>. A struct is a record, an enum a datatype or its
  constants. An array is a list that is read and written with a bounds check; the value \<open>None\<close> of the
  option type is undefined behaviour, a failed assertion that loops, or a loop that does not
  end, so a result \<open>Some\<close> says that none of these happens. Function pointers of the C code are
  functions; the hardware and the application behind them are states of any type that they change.
  Loops are recursive functions: structural, with a measure, or \<open>partial_function\<close> where they may not end, in
  which case the properties claim the result. Messages to a log are left out.

  \<^bold>\<open>Shared theories.\<close> \<^verbatim>\<open>Byte_Fifo\<close>: the contract of a byte queue (locales \<open>byte_fifo\<close> and what
  extends it), which the rings of \<^verbatim>\<open>Lwrb\<close> and \<^verbatim>\<open>Elog_Buffer\<close> provide, over the memory
  lemmas of \<^verbatim>\<open>Ring_Memory\<close>. \<^verbatim>\<open>Crc_Spec\<close>: the reflected CRC bit by bit and the contract of a table for
  it; \<^verbatim>\<open>Crc\<close> interprets it for the 16-bit and 32-bit tables of the code. \<^verbatim>\<open>Flash_Spec\<close>: a NOR flash (writes clear bits,
  erases set whole units) and the interface \<open>nor_part\<close> of a region of it; partitions (\<^verbatim>\<open>Fal\<close>) and
  the serial flash device (\<^verbatim>\<open>Sfud_Port\<close>) provide it, FlashDB and the firmware update rely on it.

  \<^bold>\<open>Components.\<close> Each theory opens with what it models, in the order of the code.

  \<^item> \<^verbatim>\<open>Lwrb\<close>: \<^verbatim>\<open>lwrb/lwrb.c\<close>, all operations. It is a byte stream: what is read is what was written,
    in order, whatever the sequence of operations.
  \<^item> \<^verbatim>\<open>Elog_Buffer\<close>: \<^verbatim>\<open>easylogger/src/elog_async.c\<close> and \<^verbatim>\<open>elog_buf.c\<close>. Both hand over the accepted
    bytes in order; the output thread drains the ring.
  \<^item> \<^verbatim>\<open>Crc\<close>: \<^verbatim>\<open>check/crc16.c\<close>, \<^verbatim>\<open>FreeModbus/modbus/rtu/mbcrc.c\<close>, \<^verbatim>\<open>fota/fota_crc.c\<close> and the checksum of
    \<^verbatim>\<open>FlashDB/src/fdb_utils.c\<close>. The tables compute the bitwise CRC; the two 32-bit ones agree; a
    frame followed by its CRC has residue zero.
  \<^item> \<^verbatim>\<open>Mb_Util\<close>, \<^verbatim>\<open>Mb_Func\<close>, \<^verbatim>\<open>Mb_Reg_Api\<close>, \<^verbatim>\<open>Mb_Port\<close>, \<^verbatim>\<open>Mb_Rtu\<close>, \<^verbatim>\<open>Mb_Core\<close>: \<^verbatim>\<open>FreeModbus\<close>, with
    \<^verbatim>\<open>mbutils.c\<close>, the function handlers, the register callbacks \<^verbatim>\<open>modbus_api.c\<close> with the tables of \<^verbatim>\<open>modbus_reg.c\<close>, the port, \<^verbatim>\<open>mbrtu.c\<close> and
    \<^verbatim>\<open>mb.c\<close>. The stack never leaves its buffers whatever bytes and times come in; an answer is the
    one the function handler gives, framed with its CRC; frames for others change nothing.
  \<^item> \<^verbatim>\<open>Ymodem\<close>: \<^verbatim>\<open>ymodem/ymodem.c\<close>. \<^verbatim>\<open>Ymodem_Link\<close> puts a sender that follows the protocol on the other end and follows
    a transfer frame by frame; \<^verbatim>\<open>Ymodem_Ex\<close>: the files that are sent are those the callbacks get, and a packet
    with a changed byte is refused, though its data are handed over all the same.
  \<^item> \<^verbatim>\<open>Multi_Button\<close>: \<^verbatim>\<open>MultiButton/multi_button.c\<close>. Which callbacks a sequence of levels makes; the list of
    started buttons is a list.
  \<^item> \<^verbatim>\<open>Fal\<close>: \<^verbatim>\<open>RTT_FAL/src\<close>. Partitions are flash memories of their own and do not disturb one another.
  \<^item> \<^verbatim>\<open>Fdb_Utils\<close>: \<^verbatim>\<open>FlashDB/src/fdb_utils.c\<close> for any write granularity. A status that is written survives a
    power cut during the next write; the search for the end of the data.
  \<^item> \<^verbatim>\<open>Fdb_Store\<close>, \<^verbatim>\<open>Tsdb\<close>, \<^verbatim>\<open>Tsdb_Query\<close>: \<^verbatim>\<open>FlashDB/src/fdb.c\<close> and \<^verbatim>\<open>fdb_tsdb.c\<close>, all operations.
    \<^verbatim>\<open>Fdb_Fields\<close>, \<^verbatim>\<open>Tsdb_Sector\<close> and \<^verbatim>\<open>Tsdb_Read\<close> say which bytes of a partition each step reads and writes;
    \<^verbatim>\<open>Tsdb_Rep\<close> relates the partition and the database object to the lists of logs per sector and proves the
    append; \<^verbatim>\<open>Tsdb_Iter\<close> the iteration, \<^verbatim>\<open>Tsdb_Time\<close> the query by time, \<^verbatim>\<open>Tsdb_Restart\<close> the initialisation on a database that is there,
    \<^verbatim>\<open>Tsdb_Fresh\<close> the one on a blank or foreign flash. \<^verbatim>\<open>Tsdb_Life\<close> puts them together: the database is a
    queue of logs that loses whole sectors of the oldest ones, and a restart finds the same logs.
  \<^item> \<^verbatim>\<open>Fota\<close>, \<^verbatim>\<open>Fota_Proofs\<close>, \<^verbatim>\<open>Fota_Live\<close>, \<^verbatim>\<open>Fota_Ex\<close>: \<^verbatim>\<open>fota/fota.c\<close>. Which images are accepted, that what was
    verified is what is installed, that only a checked application is started, that a
    rejected image changes nothing, and that an update happens when the flash does not fail.
  \<^item> \<^verbatim>\<open>Sfud\<close>, \<^verbatim>\<open>Sfud_Init\<close>: \<^verbatim>\<open>SFUD/sfud/src/sfud.c\<close> and \<^verbatim>\<open>sfud_sfdp.c\<close>. \<^verbatim>\<open>Sfud_Chip\<close> states the documented
    behaviour of a serial chip (\<open>nor_chip\<close>) and of the bus; \<^verbatim>\<open>Sfud_Proofs\<close> the effect of each operation on
    its cells; \<^verbatim>\<open>Sfud_Port\<close> the FAL device of \<^verbatim>\<open>sample_rtt_fal_flash_sfud_port.c\<close> as a flash memory;
    \<^verbatim>\<open>Sfud_Bus\<close> what is sent on any bus; \<^verbatim>\<open>Sfud_Start\<close> the initialisation, from SFDP or from the chip table; \<^verbatim>\<open>Sfud_Ex\<close> a chip that can be run.
  \<^item> \<^verbatim>\<open>Serial_Storage\<close>: the whole storage chain, firmware update on partitions on a serial chip.

  \<^bold>\<open>Bounds and fuel.\<close> The output loop of the log ring has fuel; one more than the number of stored
  bytes is enough, as \<open>async_output_drains\<close> shows. \<open>wait_busy\<close> makes at most the retries of the
  device; the chip contract says that a command is done within them. Storage properties ask for partitions up to
  2 GB, whose sizes fit the signed results of the C code, and for ranges inside the
  partition, since the bounds checks of the code wrap (lemma \<open>fal_write_bounds_wrap\<close>, \<open>sfud_read_wraps\<close>). The properties
  of the time series database hold for any write granularity, any number of sectors and any log that fits a sector,
  with timestamps of 32 bits, on a flash whose driver does what it says (\<open>ts_env\<close>); the one about a restart asks that the
  rest of the current sector is used up or has room for a status table (\<open>slot_ok\<close>), as less is read as a log
  (lemma \<open>rest_read_as_index\<close>). The loops over its sectors and logs end, since the properties claim the result.
  A Modbus frame has up to 256 bytes: the assertion in \<^verbatim>\<open>mbrtu.c\<close> that excludes the last of them is empty in this port.
  The Ymodem receiver counts up to 32767 files (lemma \<open>full_count_looks_failed\<close>), a button its presses modulo 16. A register
  request is answered when the memory of its blocks reaches to the end of the range; three blocks of
  the program end beyond theirs (lemma \<open>blocks_longer_than_memory\<close>). What SFDP says of a chip is not checked by the driver:
  its capacity and erasers are good for it exactly when \<open>sfdp_tiles\<close> holds.

  \<^bold>\<open>Parameters.\<close> What is not under \<^verbatim>\<open>src/\<close>: the bus and the chip, the flash drivers of the vendors,
  the Modbus application data (the accessors of the register tables), \<open>malloc\<close>, and, for the firmware update, AES and the two decompressors, which are
  third-party code in the repository.

  \<^bold>\<open>Not modelled.\<close> Vendor and third-party code (\<^verbatim>\<open>SFUD/demo\<close>, \<^verbatim>\<open>tinycrypt\<close>, \<^verbatim>\<open>fastlz\<close>, \<^verbatim>\<open>quicklz\<close>, \<^verbatim>\<open>cjson\<close>,
  \<^verbatim>\<open>segger-rtt\<close>), code about processor registers (\<^verbatim>\<open>cm_backtrace\<close>, \<^verbatim>\<open>sfu\<close>), and parts that the
  configuration does not compile (ASCII and TCP framing, the file mode of FlashDB). Not modelled
  although it is code of its own: the key-value database \<^verbatim>\<open>fdb_kvdb.c\<close>, the log core
  \<^verbatim>\<open>elog.c\<close>, \<^verbatim>\<open>letter-shell\<close>, and the digests of \<^verbatim>\<open>check\<close>.
\<close>

end
